(* ===== verification/LGX_Prelude.thy ===== *)
theory LGX_Prelude
  imports Complex_Main "HOL-Library.Word"
begin

unbundle bit_operations_syntax

text \<open>
  Shared vocabulary of the development: the result codes of
  \<^verbatim>\<open>include/lgx_types.h\<close>, names for the machine integer types, singly linked
  lists threaded through memory, and the generic lemmas (powers of two, lists, options)
  that several components use.

  \<^item> \<open>size_t\<close> and \<open>uint64_t\<close> values whose wrap-around matters are \<open>64 word\<close>;
    sizes and offsets whose range is established by the code's own checks are \<open>nat\<close>.
  \<^item> A pointer that may be \<open>NULL\<close> is an \<open>option\<close>.
\<close>

section \<open>Machine integers and result codes\<close>

type_synonym u64 = "64 word"
type_synonym u32 = "32 word"
type_synonym u8 = "8 word"

datatype lgx_result =
    LGX_SUCCESS
  | LGX_ERROR_INVALID_PARAM
  | LGX_ERROR_NOT_INITIALIZED
  | LGX_ERROR_ALREADY_INITIALIZED
  | LGX_ERROR_INCOMPATIBLE_VERSION
  | LGX_ERROR_OUT_OF_MEMORY
  | LGX_ERROR_IO_ERROR
  | LGX_ERROR_NOT_SUPPORTED
  | LGX_ERROR_LIBRARY_VERSION_MISMATCH
  | LGX_ERROR_GPU_UNAVAILABLE
  | LGX_ERROR_RESOURCE_LIMIT_EXCEEDED
  | LGX_ERROR_HARDWARE_DEGRADED
  | LGX_ERROR_INTENT_VALIDATION_FAILED
  | LGX_ERROR_SYSTEM_ERROR
  | LGX_ERROR_INVALID_STATE
  | LGX_ERROR_TIMEOUT
  | LGX_ERROR_NOT_FOUND

abbreviation SIZE_MAX :: nat where
  "SIZE_MAX \<equiv> 2 ^ 64 - 1"

section \<open>Collections of rewrite rules\<close>

named_theorems lgx_consts \<open>definitions of the configuration constants of the sources\<close>

section \<open>Singly linked lists in memory\<close>

text \<open>
  \<open>linked nx p xs\<close>: following the link function \<open>nx\<close> from the pointer \<open>p\<close> visits
  exactly the nodes \<open>xs\<close> and then reaches \<open>NULL\<close>.
\<close>

primrec linked :: "('a \<Rightarrow> 'a option) \<Rightarrow> 'a option \<Rightarrow> 'a list \<Rightarrow> bool" where
  "linked nx p [] \<longleftrightarrow> p = None"
| "linked nx p (a # as) \<longleftrightarrow> p = Some a \<and> linked nx (nx a) as"

lemma linked_None [simp]: "linked nx None xs \<longleftrightarrow> xs = []"
  by (cases xs) auto

lemma linked_Some: "linked nx (Some a) xs \<longleftrightarrow> (\<exists>ys. xs = a # ys \<and> linked nx (nx a) ys)"
  by (cases xs) auto

lemma linked_unique: "linked nx p xs \<Longrightarrow> linked nx p ys \<Longrightarrow> xs = ys"
proof (induction xs arbitrary: p ys)
  case (Cons x xs)
  then show ?case by (auto simp: linked_Some)
qed simp

lemma linked_append: "linked nx p (xs @ a # ys) \<Longrightarrow> linked nx (Some a) (a # ys)"
  by (induction xs arbitrary: p) auto

lemma linked_distinct: "linked nx p xs \<Longrightarrow> distinct xs"
proof (induction xs arbitrary: p)
  case (Cons a xs)
  have "a \<notin> set xs"
  proof
    assume "a \<in> set xs"
    then obtain us vs where "xs = us @ a # vs" by (auto simp: in_set_conv_decomp)
    with Cons.prems have "linked nx (nx a) (us @ a # vs)" by simp
    then have "linked nx (Some a) (a # vs)" by (rule linked_append)
    with Cons.prems have "a # xs = a # vs" by (auto intro: linked_unique)
    with \<open>xs = us @ a # vs\<close> show False by simp
  qed
  with Cons show ?case by auto
qed simp

lemma linked_cong: "(\<And>a. a \<in> set xs \<Longrightarrow> nx a = nx' a) \<Longrightarrow> linked nx p xs = linked nx' p xs"
  by (induction xs arbitrary: p) auto

lemma linked_upd_other [simp]: "a \<notin> set xs \<Longrightarrow> linked (nx(a := q)) p xs = linked nx p xs"
  by (rule linked_cong) auto

lemma linked_hd: "linked nx p xs \<Longrightarrow> p = (case xs of [] \<Rightarrow> None | a # _ \<Rightarrow> Some a)"
  by (cases xs) auto

text \<open>Unlinking an inner node by redirecting its predecessor's link.\<close>

lemma linked_unlink:
  "linked nx p (xs @ a # b # ys) \<Longrightarrow> linked (nx(a := nx b)) p (xs @ a # ys)"
proof (induction xs arbitrary: p)
  case Nil
  then have "distinct (a # b # ys)" by (intro linked_distinct [of nx p]) simp
  with Nil show ?case by (auto simp del: fun_upd_apply simp: fun_upd_same)
next
  case (Cons x xs)
  then have "distinct ((x # xs) @ a # b # ys)" by (intro linked_distinct)
  with Cons show ?case by (auto simp: fun_upd_other)
qed

section \<open>Numbers\<close>

lemma pow2_dvd_pow2 [simp]: "m \<le> n \<Longrightarrow> (2::nat) ^ m dvd 2 ^ n"
  by (rule le_imp_power_dvd)

lemma nat_le_less_cases: "(x::nat) \<le> y \<Longrightarrow> (x < y \<Longrightarrow> P) \<Longrightarrow> (x = y \<Longrightarrow> P) \<Longrightarrow> P"
  by (auto simp: le_less)

lemma dvd_interval_start:
  fixes s x y :: nat
  assumes "s dvd x" "s dvd y" "x \<le> y" "y < x + s"
  shows "x = y"
proof -
  from assms(1,2) obtain p q where pq: "x = s * p" "y = s * q" by (auto elim!: dvdE)
  from assms(4) have "0 < s" using assms(3) by (cases s) auto
  from assms(3,4) pq have "s * p \<le> s * q" "s * q < s * Suc p" by auto
  with \<open>0 < s\<close> have "p \<le> q" "q < Suc p" by (metis mult_le_cancel1, metis mult_less_cancel1)
  then show ?thesis using pq by simp
qed

lemma unset_bit_nat: "bit (x::nat) n \<Longrightarrow> unset_bit n x = x - 2 ^ n"
proof -
  assume b: "bit x n"
  have "set_bit n (unset_bit n x) = x" using b by (intro bit_eqI) (auto simp: bit_simps)
  moreover have "\<not> bit (unset_bit n x) n" by (simp add: bit_simps)
  ultimately have "unset_bit n x + 2 ^ n = x" by (simp add: set_bit_eq)
  then show ?thesis by linarith
qed

lemma xor_pow2_nat: "(x::nat) XOR 2 ^ n = (if odd (x div 2 ^ n) then x - 2 ^ n else x + 2 ^ n)"
proof -
  have "x XOR 2 ^ n = flip_bit n x" by (simp add: flip_bit_eq_xor)
  moreover have "bit x n = odd (x div 2 ^ n)" by (rule bit_iff_odd)
  ultimately show ?thesis by (simp add: flip_bit_eq_if set_bit_eq unset_bit_nat)
qed

end
