(* ===== verification/Buddy_Blocks.thy ===== *)
theory Buddy_Blocks
  imports LGX_Prelude
begin

text \<open>
  The geometry both buddy allocators of the runtime rely on: the one of the persistent heap
  (\<^verbatim>\<open>src/runtime/lgx_persistent_heap.c\<close>) and the one of the GPU pool
  (\<^verbatim>\<open>src/runtime/lgx_gpu_pool.c\<close>). A block is a pair of its byte offset and
  its order; a \<open>tiling\<close> is a set of blocks that partitions the managed range.

  The locale \<open>buddy_geometry\<close> states what an allocator has to provide: a size per order
  that doubles from one order to the next, and a function that yields the offset of the buddy.
  Its lemmas say that splitting a block and merging two buddies keep a tiling a tiling, that the
  buddy offset of a block is always the start of some block of the tiling (so that reading the
  header there is safe), and that a tiling without two mergeable buddies is a single block.
  The two allocators interpret the locale with their own size and offset functions.
\<close>

section \<open>Blocks and tilings\<close>

type_synonym blk = "nat \<times> nat" \<comment> \<open>offset and order\<close>

definition blk_range :: "(nat \<Rightarrow> nat) \<Rightarrow> blk \<Rightarrow> nat set" where
  "blk_range sz b = {fst b ..< fst b + sz (snd b)}"

definition wf_blk :: "(nat \<Rightarrow> nat) \<Rightarrow> nat \<Rightarrow> blk \<Rightarrow> bool" where
  "wf_blk sz hi b \<longleftrightarrow>
     snd b \<le> hi \<and> sz (snd b) dvd fst b \<and> fst b + sz (snd b) \<le> sz hi"

definition disjoint_blks :: "(nat \<Rightarrow> nat) \<Rightarrow> blk set \<Rightarrow> bool" where
  "disjoint_blks sz L \<longleftrightarrow>
     (\<forall>b\<in>L. \<forall>c\<in>L. b \<noteq> c \<longrightarrow> blk_range sz b \<inter> blk_range sz c = {})"

definition tiling :: "(nat \<Rightarrow> nat) \<Rightarrow> nat \<Rightarrow> blk set \<Rightarrow> bool" where
  "tiling sz hi L \<longleftrightarrow>
     (\<forall>b\<in>L. wf_blk sz hi b) \<and> disjoint_blks sz L \<and> (\<Union>b\<in>L. blk_range sz b) = {..<sz hi}"

lemma disjoint_blksD:
  "disjoint_blks sz L \<Longrightarrow> b \<in> L \<Longrightarrow> c \<in> L \<Longrightarrow> b \<noteq> c \<Longrightarrow> blk_range sz b \<inter> blk_range sz c = {}"
  by (auto simp: disjoint_blks_def)

lemma tiling_wf: "tiling sz hi L \<Longrightarrow> b \<in> L \<Longrightarrow> wf_blk sz hi b"
  by (simp add: tiling_def)

lemma tiling_disjoint:
  "tiling sz hi L \<Longrightarrow> b \<in> L \<Longrightarrow> c \<in> L \<Longrightarrow> b \<noteq> c \<Longrightarrow> blk_range sz b \<inter> blk_range sz c = {}"
  by (auto simp: tiling_def disjoint_blks_def)

lemma tiling_covers: "tiling sz hi L \<Longrightarrow> p < sz hi \<Longrightarrow> \<exists>b\<in>L. p \<in> blk_range sz b"
  by (auto simp: tiling_def)

text \<open>
  Replacing some blocks of a tiling by others that cover the same bytes gives a tiling again:
  the one fact behind both splitting and merging.
\<close>

lemma tiling_exchange:
  assumes t: "tiling sz hi L" and sub: "R \<subseteq> L"
    and wf: "\<forall>b\<in>N. wf_blk sz hi b" and dis: "disjoint_blks sz N"
    and same: "(\<Union>b\<in>N. blk_range sz b) = (\<Union>b\<in>R. blk_range sz b)"
  shows "tiling sz hi (L - R \<union> N)"
proof -
  have rest: "(\<Union>b\<in>L - R. blk_range sz b) \<inter> (\<Union>b\<in>R. blk_range sz b) = {}"
  proof -
    have "blk_range sz b \<inter> blk_range sz c = {}" if "b \<in> L - R" "c \<in> R" for b c
      using that sub by (intro tiling_disjoint[OF t]) auto
    then show ?thesis by blast
  qed
  have cross: "blk_range sz b \<inter> blk_range sz c = {}" if "b \<in> L - R" "c \<in> N" for b c
    using that rest same by blast
  have "disjoint_blks sz (L - R \<union> N)"
    unfolding disjoint_blks_def
  proof (intro ballI impI)
    fix b c assume bc: "b \<in> L - R \<union> N" "c \<in> L - R \<union> N" "b \<noteq> c"
    consider "b \<in> L - R" "c \<in> L - R" | "b \<in> L - R" "c \<in> N" | "b \<in> N" "c \<in> L - R"
      | "b \<in> N" "c \<in> N" using bc by blast
    then show "blk_range sz b \<inter> blk_range sz c = {}"
    proof cases
      case 1
      with bc(3) show ?thesis by (intro tiling_disjoint[OF t]) auto
    next
      case 3
      with cross show ?thesis by blast
    qed (use cross dis bc(3) in \<open>auto simp: disjoint_blks_def\<close>)
  qed
  moreover have "(\<Union>b\<in>L - R \<union> N. blk_range sz b) = (\<Union>b\<in>L. blk_range sz b)"
    using same sub by blast
  ultimately show ?thesis using t wf by (auto simp: tiling_def)
qed

section \<open>The interface of a buddy allocator\<close>

locale buddy_geometry =
  fixes bsize :: "nat \<Rightarrow> nat"
    and hi :: nat
    and buddy_at :: "nat \<Rightarrow> nat \<Rightarrow> nat"
  assumes bsize_pos: "0 < bsize 0"
    and bsize_Suc: "k < hi \<Longrightarrow> bsize (Suc k) = 2 * bsize k"
    and buddy_even: "k < hi \<Longrightarrow> bsize k dvd x \<Longrightarrow> even (x div bsize k) \<Longrightarrow>
          buddy_at x k = x + bsize k"
    and buddy_odd: "k < hi \<Longrightarrow> bsize k dvd x \<Longrightarrow> odd (x div bsize k) \<Longrightarrow>
          buddy_at x k = x - bsize k"
begin

lemma bsize_gt0: "k \<le> hi \<Longrightarrow> 0 < bsize k"
  by (induction k) (auto simp: bsize_pos bsize_Suc)

lemma bsize_dvd: "j \<le> k \<Longrightarrow> k \<le> hi \<Longrightarrow> bsize j dvd bsize k"
proof (induction k)
  case (Suc k)
  then show ?case by (cases "j = Suc k") (auto simp: bsize_Suc intro: dvd_mult)
qed simp

lemma bsize_le: "j \<le> k \<Longrightarrow> k \<le> hi \<Longrightarrow> bsize j \<le> bsize k"
  using bsize_dvd bsize_gt0 dvd_imp_le by blast

lemma range_split:
  assumes "k < hi"
  shows "blk_range bsize (x, Suc k) = blk_range bsize (x, k) \<union> blk_range bsize (x + bsize k, k)"
  using assms by (auto simp: blk_range_def bsize_Suc)

lemma range_halves_disjoint: "blk_range bsize (x, k) \<inter> blk_range bsize (x + bsize k, k) = {}"
  by (auto simp: blk_range_def)

lemma wf_left: "k < hi \<Longrightarrow> wf_blk bsize hi (x, Suc k) \<Longrightarrow> wf_blk bsize hi (x, k)"
  by (auto simp: wf_blk_def bsize_Suc)

lemma wf_right: "k < hi \<Longrightarrow> wf_blk bsize hi (x, Suc k) \<Longrightarrow> wf_blk bsize hi (x + bsize k, k)"
  by (auto simp: wf_blk_def bsize_Suc)

text \<open>Two well-formed blocks are nested or disjoint.\<close>

lemma nested_or_disjoint:
  assumes b: "wf_blk bsize hi (x, j)" and c: "wf_blk bsize hi (y, k)" and "j \<le> k"
    and p: "p \<in> blk_range bsize (x, j)" "p \<in> blk_range bsize (y, k)"
  shows "blk_range bsize (x, j) \<subseteq> blk_range bsize (y, k)"
proof -
  have k: "k \<le> hi" using c by (simp add: wf_blk_def)
  have dy: "bsize j dvd y"
    using c bsize_dvd[OF \<open>j \<le> k\<close> k] by (auto simp: wf_blk_def intro: dvd_trans)
  have dx: "bsize j dvd x" using b by (simp add: wf_blk_def)
  have dk: "bsize j dvd y + bsize k" using dy bsize_dvd[OF \<open>j \<le> k\<close> k] by (simp add: dvd_add)
  have "y \<le> x"
  proof (rule ccontr)
    assume "\<not> y \<le> x"
    then have "x = y" using dvd_interval_start[OF dx dy] p by (auto simp: blk_range_def)
    with \<open>\<not> y \<le> x\<close> show False by simp
  qed
  moreover have "x + bsize j \<le> y + bsize k"
  proof (rule ccontr)
    assume "\<not> x + bsize j \<le> y + bsize k"
    then have "x = y + bsize k" using dvd_interval_start[OF dx dk] p by (auto simp: blk_range_def)
    then show False using p by (auto simp: blk_range_def)
  qed
  ultimately show ?thesis by (auto simp: blk_range_def)
qed

text \<open>The buddy of a block below the top order, and the block both belong to.\<close>

definition parent_at :: "nat \<Rightarrow> nat \<Rightarrow> nat" where
  "parent_at x k = min x (buddy_at x k)"

lemma buddy_cases:
  assumes "k < hi" "bsize k dvd x"
  obtains (left) "buddy_at x k = x + bsize k" "parent_at x k = x" "bsize (Suc k) dvd x"
    | (right) "buddy_at x k + bsize k = x" "parent_at x k = buddy_at x k" "bsize (Suc k) dvd buddy_at x k"
proof (cases "even (x div bsize k)")
  case True
  have "2 * bsize k dvd x"
    using True assms(2) by (metis dvd_div_mult_self mult_dvd_mono dvd_refl)
  with True assms show thesis
    by (intro left) (auto simp: buddy_even parent_at_def bsize_Suc)
next
  case False
  have pos: "0 < bsize k" using assms(1) bsize_gt0 by simp
  obtain q where q: "x = bsize k * q" using assms(2) by (auto elim: dvdE)
  then have "odd q" using False pos by simp
  then obtain m where "q = Suc (2 * m)" by (auto elim: oddE)
  with q have x: "x = bsize k + 2 * bsize k * m" by (simp add: algebra_simps)
  have "buddy_at x k = x - bsize k" using assms False by (simp add: buddy_odd)
  with x have "buddy_at x k = 2 * bsize k * m" by simp
  with x assms(1) show thesis by (intro right) (auto simp: parent_at_def bsize_Suc)
qed

lemma wf_top_dvd: "k \<le> hi \<Longrightarrow> bsize k dvd bsize hi"
  by (rule bsize_dvd) auto

lemma parent_props:
  assumes wf: "wf_blk bsize hi (x, k)" and k: "k < hi"
  shows "wf_blk bsize hi (parent_at x k, Suc k)" (is ?P)
    and "wf_blk bsize hi (buddy_at x k, k)" (is ?B)
    and "blk_range bsize (parent_at x k, Suc k) =
           blk_range bsize (x, k) \<union> blk_range bsize (buddy_at x k, k)" (is ?U)
    and "blk_range bsize (x, k) \<inter> blk_range bsize (buddy_at x k, k) = {}" (is ?D)
proof -
  have dx: "bsize k dvd x" and bx: "x + bsize k \<le> bsize hi" using wf by (auto simp: wf_blk_def)
  have S: "bsize (Suc k) = 2 * bsize k" using k by (rule bsize_Suc)
  have sdvd: "bsize (Suc k) dvd bsize hi" using k by (intro wf_top_dvd) simp
  have room: "y + bsize (Suc k) \<le> bsize hi" if "bsize (Suc k) dvd y" "y < bsize hi" for y
  proof (rule ccontr)
    assume "\<not> ?thesis"
    then have "y = bsize hi" using dvd_interval_start[OF that(1) sdvd] that(2) by linarith
    with that show False by simp
  qed
  have pos: "0 < bsize k" using k bsize_gt0 by simp
  show ?P
    using buddy_cases[OF k dx]
    by cases (use bx pos k room in \<open>auto simp: wf_blk_def\<close>)
  then have P: ?P .
  show ?U ?D using buddy_cases[OF k dx]
    by (cases, use k in \<open>auto simp: blk_range_def S\<close>)+
  show ?B using buddy_cases[OF k dx]
    by cases (use P k dx S in \<open>auto simp: wf_blk_def intro: dvd_add\<close>)
qed

lemma tiling_unique_start:
  assumes "tiling bsize hi L" "(x, j) \<in> L" "(x, k) \<in> L"
  shows "j = k"
proof (rule ccontr)
  assume "j \<noteq> k"
  then have "blk_range bsize (x, j) \<inter> blk_range bsize (x, k) = {}"
    using assms by (intro tiling_disjoint) auto
  moreover have "0 < bsize j" "0 < bsize k"
    using tiling_wf[OF assms(1,2)] tiling_wf[OF assms(1,3)] by (auto simp: wf_blk_def bsize_gt0)
  ultimately show False by (auto simp: blk_range_def)
qed

text \<open>
  The buddy offset of a block of a tiling is the start of a block of the tiling, of the same or a
  smaller order: what makes it safe to read the header stored there.
\<close>

lemma buddy_is_start:
  assumes t: "tiling bsize hi L" and x: "(x, k) \<in> L" and k: "k < hi"
  shows "\<exists>j\<le>k. (buddy_at x k, j) \<in> L"
proof -
  have wf: "wf_blk bsize hi (x, k)" using t x by (rule tiling_wf)
  note par = parent_props[OF wf k]
  have pos: "0 < bsize k" using k bsize_gt0 by simp
  have "buddy_at x k < bsize hi" using par(2) pos by (auto simp: wf_blk_def)
  then obtain y j where yj: "(y, j) \<in> L" "buddy_at x k \<in> blk_range bsize (y, j)"
    using tiling_covers[OF t] by fastforce
  have wfy: "wf_blk bsize hi (y, j)" using t yj(1) by (rule tiling_wf)
  have "j \<le> k"
  proof (rule ccontr)
    assume "\<not> j \<le> k"
    have "buddy_at x k \<in> blk_range bsize (parent_at x k, Suc k)"
      using par(3) pos by (auto simp: blk_range_def)
    then have "blk_range bsize (parent_at x k, Suc k) \<subseteq> blk_range bsize (y, j)"
      using nested_or_disjoint[OF par(1) wfy] yj(2) \<open>\<not> j \<le> k\<close> by simp
    with par(3) have "blk_range bsize (x, k) \<subseteq> blk_range bsize (y, j)" by blast
    moreover have "(x, k) \<noteq> (y, j)" using \<open>\<not> j \<le> k\<close> by auto
    then have "blk_range bsize (x, k) \<inter> blk_range bsize (y, j) = {}"
      using t x yj(1) by (intro tiling_disjoint)
    ultimately show False using pos by (auto simp: blk_range_def)
  qed
  have bk: "buddy_at x k \<in> blk_range bsize (buddy_at x k, k)" using pos by (simp add: blk_range_def)
  have "blk_range bsize (y, j) \<subseteq> blk_range bsize (buddy_at x k, k)"
    using nested_or_disjoint[OF wfy par(2) \<open>j \<le> k\<close>] yj(2) bk by blast
  moreover have "0 < bsize j" using wfy bsize_gt0 by (simp add: wf_blk_def)
  ultimately have "buddy_at x k \<le> y" by (auto simp: blk_range_def)
  with yj(2) have "y = buddy_at x k" by (simp add: blk_range_def)
  with yj(1) \<open>j \<le> k\<close> show ?thesis by blast
qed

lemma tiling_split:
  assumes t: "tiling bsize hi L" and x: "(x, Suc k) \<in> L" and k: "k < hi"
  shows "tiling bsize hi (L - {(x, Suc k)} \<union> {(x, k), (x + bsize k, k)})"
proof (rule tiling_exchange[OF t])
  have wf: "wf_blk bsize hi (x, Suc k)" using t x by (rule tiling_wf)
  then show "\<forall>b\<in>{(x, k), (x + bsize k, k)}. wf_blk bsize hi b"
    using wf_left[OF k] wf_right[OF k] by simp
  show "disjoint_blks bsize {(x, k), (x + bsize k, k)}"
    using range_halves_disjoint[of x k] by (auto simp: disjoint_blks_def)
qed (use x range_split[OF k, of x] in auto)

lemma tiling_merge:
  assumes t: "tiling bsize hi L" and x: "(x, k) \<in> L" "(buddy_at x k, k) \<in> L" and k: "k < hi"
  shows "tiling bsize hi (L - {(x, k), (buddy_at x k, k)} \<union> {(parent_at x k, Suc k)})"
proof (rule tiling_exchange[OF t])
  have "wf_blk bsize hi (x, k)" using t x(1) by (rule tiling_wf)
  note par = parent_props[OF this k]
  show "\<forall>b\<in>{(parent_at x k, Suc k)}. wf_blk bsize hi b" using par(1) by simp
  show "(\<Union>b\<in>{(parent_at x k, Suc k)}. blk_range bsize b) =
        (\<Union>b\<in>{(x, k), (buddy_at x k, k)}. blk_range bsize b)"
    using par(3) by simp
  show "disjoint_blks bsize {(parent_at x k, Suc k)}" by (simp add: disjoint_blks_def)
qed (use x in auto)

lemma buddy_involution:
  assumes "wf_blk bsize hi (x, k)" "k < hi"
  shows "buddy_at (buddy_at x k) k = x"
proof -
  have pos: "0 < bsize k" using assms(2) bsize_gt0 by simp
  have dx: "bsize k dvd x" using assms(1) by (simp add: wf_blk_def)
  have db: "bsize k dvd buddy_at x k" using parent_props(2)[OF assms] by (simp add: wf_blk_def)
  show ?thesis
  proof (rule buddy_cases[OF assms(2) dx], goal_cases left right)
    case left
    have "even (x div bsize k)"
      using left(3) assms(2) pos dx by (auto simp: bsize_Suc elim!: dvdE)
    then have "odd (buddy_at x k div bsize k)" using left(1) dx pos by (simp add: div_plus_div_distrib_dvd_left)
    with buddy_odd[OF assms(2) db] left(1) show ?thesis by simp
  next
    case right
    have "even (buddy_at x k div bsize k)"
      using right(3) assms(2) pos by (auto simp: bsize_Suc elim!: dvdE)
    with buddy_even[OF assms(2) db] right(1) show ?thesis by simp
  qed
qed

text \<open>
  If no two free buddies are left unmerged, free space is never scattered: an aligned range of block
  size that meets no allocated block lies inside one free block. So a request fails only when no
  aligned range of its size is free.
\<close>

lemma free_space_is_block:
  assumes t: "tiling bsize hi (A \<union> Fr)"
    and co: "\<And>x k. k < hi \<Longrightarrow> (x, k) \<in> Fr \<Longrightarrow> (buddy_at x k, k) \<notin> Fr"
    and wf: "wf_blk bsize hi (x, k)"
    and free: "\<And>b. b \<in> A \<Longrightarrow> blk_range bsize b \<inter> blk_range bsize (x, k) = {}"
  shows "\<exists>y j. (y, j) \<in> Fr \<and> k \<le> j \<and> blk_range bsize (x, k) \<subseteq> blk_range bsize (y, j)"
proof (rule ccontr)
  assume none: "\<not> ?thesis"
  define inside where
    "inside j \<longleftrightarrow> (\<exists>y. (y, j) \<in> A \<union> Fr \<and> blk_range bsize (y, j) \<inter> blk_range bsize (x, k) \<noteq> {})" for j
  have k: "k \<le> hi" and pos: "0 < bsize k" using wf bsize_gt0 by (auto simp: wf_blk_def)
  have small: "j < k \<and> blk_range bsize (y, j) \<subseteq> blk_range bsize (x, k) \<and> (y, j) \<in> Fr"
    if yj: "(y, j) \<in> A \<union> Fr" "blk_range bsize (y, j) \<inter> blk_range bsize (x, k) \<noteq> {}" for y j
  proof -
    have "(y, j) \<in> Fr" using yj free by blast
    obtain p where p: "p \<in> blk_range bsize (y, j)" "p \<in> blk_range bsize (x, k)" using yj(2) by blast
    have wfy: "wf_blk bsize hi (y, j)" using t yj(1) by (rule tiling_wf)
    have "j < k"
    proof (rule ccontr)
      assume "\<not> j < k"
      then have "blk_range bsize (x, k) \<subseteq> blk_range bsize (y, j)"
        using nested_or_disjoint[OF wf wfy _ p(2,1)] by simp
      with none \<open>(y, j) \<in> Fr\<close> \<open>\<not> j < k\<close> show False by (meson not_less)
    qed
    then show ?thesis using nested_or_disjoint[OF wfy wf _ p] \<open>(y, j) \<in> Fr\<close> by simp
  qed
  define m where "m = (LEAST j. inside j)"
  have "\<exists>j. inside j"
  proof -
    have "x < bsize hi" using wf pos by (simp add: wf_blk_def)
    then obtain y j where "(y, j) \<in> A \<union> Fr" "x \<in> blk_range bsize (y, j)"
      using tiling_covers[OF t] by fastforce
    moreover have "x \<in> blk_range bsize (x, k)" using pos by (simp add: blk_range_def)
    ultimately show ?thesis unfolding inside_def by blast
  qed
  then have "inside m" unfolding m_def by (rule LeastI_ex)
  then obtain z where z: "(z, m) \<in> A \<union> Fr" "blk_range bsize (z, m) \<inter> blk_range bsize (x, k) \<noteq> {}"
    unfolding inside_def by blast
  note zs = small[OF z]
  have mh: "m < hi" using zs k by simp
  have wfz: "wf_blk bsize hi (z, m)" using t z(1) by (rule tiling_wf)
  note par = parent_props[OF wfz mh]
  have posm: "0 < bsize m" using mh bsize_gt0 by simp
  have zin: "z \<in> blk_range bsize (z, m)" using posm by (simp add: blk_range_def)
  have "blk_range bsize (parent_at z m, Suc m) \<subseteq> blk_range bsize (x, k)"
    using nested_or_disjoint[OF par(1) wf, of z] par(3) zin zs by auto
  then have sub: "blk_range bsize (buddy_at z m, m) \<subseteq> blk_range bsize (x, k)" using par(3) by blast
  obtain j where j: "j \<le> m" "(buddy_at z m, j) \<in> A \<union> Fr" using buddy_is_start[OF t z(1) mh] by blast
  have "wf_blk bsize hi (buddy_at z m, j)" using t j(2) by (rule tiling_wf)
  then have "0 < bsize j" using bsize_gt0 by (simp add: wf_blk_def)
  then have "buddy_at z m \<in> blk_range bsize (buddy_at z m, j) \<inter> blk_range bsize (x, k)"
    using sub posm by (auto simp: blk_range_def)
  then have hit: "blk_range bsize (buddy_at z m, j) \<inter> blk_range bsize (x, k) \<noteq> {}" by blast
  then have "inside j" using j(2) unfolding inside_def by blast
  then have "m \<le> j" unfolding m_def by (rule Least_le)
  with j(1) small[OF j(2) hit] have "(buddy_at z m, m) \<in> Fr" by simp
  with co[OF mh] zs show False by blast
qed

text \<open>In particular, with nothing allocated the free space is the single block of the top order.\<close>

lemma coalesced_is_whole:
  assumes t: "tiling bsize hi L"
    and co: "\<And>x k. k < hi \<Longrightarrow> (x, k) \<in> L \<Longrightarrow> (buddy_at x k, k) \<notin> L"
  shows "L = {(0, hi)}"
proof -
  have wf: "wf_blk bsize hi (0, hi)" by (simp add: wf_blk_def)
  obtain y j where y: "(y, j) \<in> L" "hi \<le> j"
    using free_space_is_block[of "{}" L, OF _ co wf] t by auto
  have "y = 0 \<and> j = hi" using tiling_wf[OF t y(1)] y(2) by (auto simp: wf_blk_def)
  then have top: "(0, hi) \<in> L" using y(1) by simp
  have "b = (0, hi)" if b: "b \<in> L" for b
  proof (rule ccontr)
    assume ne: "b \<noteq> (0, hi)"
    then have "blk_range bsize b \<inter> blk_range bsize (0, hi) = {}" by (rule tiling_disjoint[OF t b top])
    moreover have "wf_blk bsize hi b" using t b by (rule tiling_wf)
    moreover have "0 < bsize (snd b)" using \<open>wf_blk bsize hi b\<close> bsize_gt0 by (simp add: wf_blk_def)
    ultimately show False by (auto simp: blk_range_def wf_blk_def)
  qed
  with top show ?thesis by blast
qed

end

end
