(* ===== verification/Heap_Buddy.thy ===== *)
theory Heap_Buddy
  imports Buddy_Blocks
begin

text \<open>
  The buddy allocator of the persistent heap
  (\<^verbatim>\<open>src/runtime/lgx_persistent_heap.c\<close>: \<open>size_to_order\<close> to
  \<open>buddy_get_fragmentation\<close>).

  The pool is a range of bytes; a block is addressed by its byte offset from
  \<open>buddy->memory\<close>, and the header (\<open>buddy_block_t\<close>, 24 bytes) at the start of a
  block is a cell of the function \<open>ba_hdr\<close>. The free lists are linked through the
  \<open>next\<close> fields of these headers, as in the source, so that stale headers, headers
  overwritten by the client and cyclic lists are all representable. The walk over a free list
  may therefore not end: it is a \<open>partial_function (option)\<close>, and the operations that
  contain one return an \<open>option\<close>; that they do return is proved.

  \<open>buddy_rep b F A\<close> is the invariant: \<open>F k\<close> are the nodes of the free list of
  order \<open>k\<close>, \<open>A\<close> the blocks handed out, and together they tile the 64 MB the
  initial block covers.
\<close>

section \<open>Configuration\<close>

definition BUDDY_MIN_ORDER :: nat where "BUDDY_MIN_ORDER = 12"
definition BUDDY_MAX_ORDER :: nat where "BUDDY_MAX_ORDER = 26"
definition BUDDY_NUM_ORDERS :: nat where
  "BUDDY_NUM_ORDERS = BUDDY_MAX_ORDER - BUDDY_MIN_ORDER + 1"
definition BUDDY_POOL_SIZE :: nat where "BUDDY_POOL_SIZE = 256 * 1024 * 1024"

text \<open>\<open>sizeof(buddy_block_t)\<close>: a pointer, a \<open>size_t\<close> and a padded \<open>bool\<close>.\<close>

definition sizeof_buddy_block :: nat where "sizeof_buddy_block = 24"

lemmas buddy_consts [lgx_consts] =
  BUDDY_MIN_ORDER_def BUDDY_MAX_ORDER_def BUDDY_NUM_ORDERS_def BUDDY_POOL_SIZE_def
  sizeof_buddy_block_def

lemma NUM_ORDERS [simp]: "BUDDY_NUM_ORDERS = 15"
  by (simp add: buddy_consts)

section \<open>State\<close>

record buddy_block =
  bb_next :: "nat option"
  bb_order :: nat
  bb_is_free :: bool

record buddy_allocator =
  ba_memory :: "nat option" \<comment> \<open>base address of the pool\<close>
  ba_total_size :: nat
  ba_free_lists :: "nat \<Rightarrow> nat option"
  ba_hdr :: "nat \<Rightarrow> buddy_block" \<comment> \<open>the pool's memory, read as block headers\<close>
  ba_num_allocations :: u64
  ba_num_frees :: u64
  ba_num_coalesces :: u64
  ba_uses_huge_pages :: bool

definition set_hdr :: "nat \<Rightarrow> buddy_block \<Rightarrow> buddy_allocator \<Rightarrow> buddy_allocator" where
  "set_hdr x h b = b\<lparr>ba_hdr := (ba_hdr b)(x := h)\<rparr>"

definition set_head :: "nat \<Rightarrow> nat option \<Rightarrow> buddy_allocator \<Rightarrow> buddy_allocator" where
  "set_head k p b = b\<lparr>ba_free_lists := (ba_free_lists b)(k := p)\<rparr>"

section \<open>Operations\<close>

text \<open>The loop of \<open>size_to_order\<close>; \<open>order_size <<= 1\<close> doubles.\<close>

function size_to_order_loop :: "nat \<Rightarrow> nat \<Rightarrow> nat \<Rightarrow> nat" where
  "size_to_order_loop sz order_size k =
     (if order_size < sz \<and> k < BUDDY_NUM_ORDERS - 1
      then size_to_order_loop sz (push_bit 1 order_size) (Suc k) else k)"
  by pat_completeness auto
termination
  by (relation "measure (\<lambda>(s, z, k). BUDDY_NUM_ORDERS - k)") auto

definition size_to_order :: "nat \<Rightarrow> nat" where
  "size_to_order sz =
     (if sz \<le> push_bit BUDDY_MIN_ORDER 1 then 0
      else size_to_order_loop sz (push_bit BUDDY_MIN_ORDER 1) 0)"

definition order_to_size :: "nat \<Rightarrow> nat" where
  "order_to_size k = push_bit (BUDDY_MIN_ORDER + k) 1"

text \<open>
  \<open>buddy_init\<close>: \<open>huge\<close> and \<open>mal\<close> are what \<open>lgx_hugepages_alloc_selective\<close> and
  \<open>malloc\<close> return; the old contents of the memory stay in \<open>ba_hdr\<close>.
\<close>

definition buddy_init ::
    "nat option \<Rightarrow> nat option \<Rightarrow> buddy_allocator \<Rightarrow> bool \<times> buddy_allocator" where
  "buddy_init huge mal b0 =
     (let b1 = (case huge of
                  Some m \<Rightarrow> b0\<lparr>ba_memory := Some m, ba_uses_huge_pages := True\<rparr>
                | None \<Rightarrow> b0\<lparr>ba_memory := mal, ba_uses_huge_pages := False\<rparr>)
      in if ba_memory b1 = None then (False, b1)
         else
           let b2 = b1\<lparr>ba_total_size := BUDDY_POOL_SIZE, ba_num_allocations := 0,
                       ba_num_frees := 0, ba_num_coalesces := 0\<rparr>;
               b3 = b2\<lparr>ba_free_lists := (\<lambda>k. if k < BUDDY_NUM_ORDERS then None
                                                else ba_free_lists b2 k)\<rparr>;
               max_order = BUDDY_NUM_ORDERS - 1;
               b4 = set_hdr 0 \<lparr>bb_next = None, bb_order = max_order, bb_is_free = True\<rparr> b3
           in (True, set_head max_order (Some 0) b4))"

definition buddy_shutdown :: "buddy_allocator \<Rightarrow> buddy_allocator" where
  "buddy_shutdown b = (case ba_memory b of None \<Rightarrow> b | Some _ \<Rightarrow> b\<lparr>ba_memory := None\<rparr>)"

text \<open>The second half of \<open>buddy_split\<close>: take \<open>block\<close> off the list of order \<open>k + 1\<close>.\<close>

definition split_block :: "buddy_allocator \<Rightarrow> nat \<Rightarrow> nat \<Rightarrow> nat option \<times> buddy_allocator" where
  "split_block b k block =
     (let b1 = set_head (Suc k) (bb_next (ba_hdr b block)) b;
          half_size = order_to_size k;
          buddy2 = block + half_size
      in if buddy2 + half_size > ba_total_size b1
         then (None, set_head (Suc k) (Some block)
                       (set_hdr block ((ba_hdr b1 block)\<lparr>bb_next := ba_free_lists b1 (Suc k)\<rparr>) b1))
         else
           let b2 = set_hdr block \<lparr>bb_next = Some buddy2, bb_order = k, bb_is_free = True\<rparr> b1;
               b3 = set_hdr buddy2
                      \<lparr>bb_next = ba_free_lists b2 k, bb_order = k, bb_is_free = True\<rparr> b2
           in (Some block, set_head k (Some block) b3))"

function buddy_split :: "buddy_allocator \<Rightarrow> nat \<Rightarrow> nat option \<times> buddy_allocator" where
  "buddy_split b k =
     (if k \<ge> BUDDY_NUM_ORDERS then (None, b)
      else if k \<ge> BUDDY_NUM_ORDERS - 1 then (None, b)
      else (case ba_free_lists b (Suc k) of
              Some block \<Rightarrow> split_block b k block
            | None \<Rightarrow>
                (case buddy_split b (Suc k) of
                   (None, b') \<Rightarrow> (None, b')
                 | (Some _, b') \<Rightarrow>
                     (case ba_free_lists b' (Suc k) of
                        None \<Rightarrow> (None, b')
                      | Some block \<Rightarrow> split_block b' k block))))"
  by pat_completeness auto
termination
  by (relation "measure (\<lambda>(b, k). BUDDY_NUM_ORDERS - k)") auto

text \<open>\<open>buddy_alloc\<close>: find a block of order \<open>k\<close>, take it off its list, check the bounds.\<close>

definition buddy_find :: "buddy_allocator \<Rightarrow> nat \<Rightarrow> nat option \<times> buddy_allocator" where
  "buddy_find b k =
     (case ba_free_lists b k of Some block \<Rightarrow> (Some block, b) | None \<Rightarrow> buddy_split b k)"

definition buddy_take ::
    "buddy_allocator \<Rightarrow> nat \<Rightarrow> nat \<Rightarrow> nat \<Rightarrow> nat option \<times> buddy_allocator" where
  "buddy_take b1 k block sz =
     (let b2 = set_head k (bb_next (ba_hdr b1 block)) b1;
          b3 = set_hdr block ((ba_hdr b2 block)\<lparr>bb_is_free := False, bb_next := None\<rparr>) b2;
          b4 = b3\<lparr>ba_num_allocations := ba_num_allocations b3 + 1\<rparr>;
          result = block + sizeof_buddy_block
      in if result + sz > ba_total_size b4
         then
           let b5 = set_hdr block
                      ((ba_hdr b4 block)\<lparr>bb_is_free := True, bb_next := ba_free_lists b4 k\<rparr>) b4;
               b6 = set_head k (Some block) b5
           in (None, b6\<lparr>ba_num_allocations := ba_num_allocations b6 - 1\<rparr>)
         else (Some result, b4))"

definition buddy_alloc :: "buddy_allocator \<Rightarrow> nat \<Rightarrow> nat option \<times> buddy_allocator" where
  "buddy_alloc b sz =
     (if sz = 0 then (None, b)
      else if sz > SIZE_MAX - sizeof_buddy_block then (None, b)
      else
        let k = size_to_order (sz + sizeof_buddy_block)
        in if k \<ge> BUDDY_NUM_ORDERS then (None, b)
           else (case buddy_find b k of
                   (None, b1) \<Rightarrow> (None, b1)
                 | (Some block, b1) \<Rightarrow> buddy_take b1 k block sz))"

definition get_buddy_address :: "buddy_allocator \<Rightarrow> nat \<Rightarrow> nat option" where
  "get_buddy_address b block =
     (if ba_memory b = None then None
      else if block \<ge> ba_total_size b then None
      else
        let block_size = order_to_size (bb_order (ba_hdr b block));
            buddy_offset = block XOR block_size
        in if buddy_offset \<ge> ba_total_size b then None
           else if buddy_offset + sizeof_buddy_block > ba_total_size b then None
           else if buddy_offset + block_size > ba_total_size b then None
           else Some buddy_offset)"

text \<open>
  A \<open>buddy_block_t**\<close> cursor: it points at the head of the list or at the \<open>next\<close> field
  of a node.
\<close>

datatype cursor = Head | NextOf nat

fun load_cursor :: "buddy_allocator \<Rightarrow> nat \<Rightarrow> cursor \<Rightarrow> nat option" where
  "load_cursor b k Head = ba_free_lists b k"
| "load_cursor b k (NextOf a) = bb_next (ba_hdr b a)"

fun store_cursor :: "nat \<Rightarrow> cursor \<Rightarrow> nat option \<Rightarrow> buddy_allocator \<Rightarrow> buddy_allocator" where
  "store_cursor k Head p b = set_head k p b"
| "store_cursor k (NextOf a) p b = set_hdr a ((ba_hdr b a)\<lparr>bb_next := p\<rparr>) b"

partial_function (option) find_cursor ::
    "buddy_allocator \<Rightarrow> nat \<Rightarrow> nat \<Rightarrow> cursor \<Rightarrow> cursor option option" where
  "find_cursor b k target c =
     (case load_cursor b k c of
        None \<Rightarrow> Some None
      | Some a \<Rightarrow> if a = target then Some (Some c) else find_cursor b k target (NextOf a))"

text \<open>Merging two free buddies of order \<open>k\<close> once the second is off its list.\<close>

definition merge_blocks :: "nat \<Rightarrow> nat \<Rightarrow> buddy_allocator \<Rightarrow> nat \<times> buddy_allocator" where
  "merge_blocks block buddy_block b =
     (let merged = (if block < buddy_block then block else buddy_block);
          b1 = set_hdr merged \<lparr>bb_next = None, bb_order = Suc (bb_order (ba_hdr b merged)),
                                bb_is_free = True\<rparr> b
      in (merged, b1\<lparr>ba_num_coalesces := ba_num_coalesces b1 + 1\<rparr>))"

lemma store_cursor_order [simp]:
  "bb_order (ba_hdr (store_cursor k c p b) x) = bb_order (ba_hdr b x)"
  by (cases c) (auto simp: set_hdr_def set_head_def)

function buddy_coalesce ::
    "buddy_allocator \<Rightarrow> nat \<Rightarrow> (nat \<times> buddy_allocator) option" where
  "buddy_coalesce b block =
     (let k = bb_order (ba_hdr b block)
      in if k \<ge> BUDDY_NUM_ORDERS - 1 then Some (block, b)
         else
           (case get_buddy_address b block of
              None \<Rightarrow> Some (block, b)
            | Some buddy_block \<Rightarrow>
                if \<not> bb_is_free (ba_hdr b buddy_block) \<or> bb_order (ba_hdr b buddy_block) \<noteq> k
                then Some (block, b)
                else
                  (case find_cursor b k buddy_block Head of
                     None \<Rightarrow> None
                   | Some None \<Rightarrow> Some (block, b)
                   | Some (Some c) \<Rightarrow>
                       (let b1 = store_cursor k c (bb_next (ba_hdr b buddy_block)) b;
                            r = merge_blocks block buddy_block b1
                        in if bb_order (ba_hdr (snd r) (fst r)) \<ge> BUDDY_NUM_ORDERS - 1
                           then Some r
                           else buddy_coalesce (snd r) (fst r)))))"
  by pat_completeness auto
termination
  by (relation "measure (\<lambda>(b, x). BUDDY_NUM_ORDERS - bb_order (ba_hdr b x))")
    (auto simp: merge_blocks_def Let_def set_hdr_def split: if_splits)

text \<open>
  \<open>buddy_free\<close>: \<open>ptr\<close> is a byte offset from the pool's base, negative for an address below it;
  \<open>None\<close> is \<open>NULL\<close>. The outer option is \<open>None\<close> if the walk over a free list does not end.
\<close>

definition buddy_free :: "buddy_allocator \<Rightarrow> int option \<Rightarrow> buddy_allocator option" where
  "buddy_free b ptr =
     (case ptr of
        None \<Rightarrow> Some b
      | Some p \<Rightarrow>
          if ba_memory b = None then Some b
          else
            let blki = p - int sizeof_buddy_block
            in if blki < 0 \<or> blki \<ge> int (ba_total_size b) then Some b
               else
                 let block = nat blki
                 in if bb_is_free (ba_hdr b block) then Some b
                    else if bb_order (ba_hdr b block) \<ge> BUDDY_NUM_ORDERS then Some b
                    else
                      let b1 = set_hdr block ((ba_hdr b block)\<lparr>bb_is_free := True\<rparr>) b;
                          b2 = b1\<lparr>ba_num_frees := ba_num_frees b1 + 1\<rparr>
                      in (case buddy_coalesce b2 block of
                            None \<Rightarrow> None
                          | Some (m, b3) \<Rightarrow>
                              let k = bb_order (ba_hdr b3 m)
                              in if k \<ge> BUDDY_NUM_ORDERS then Some b3
                                 else Some (set_head k (Some m)
                                        (set_hdr m ((ba_hdr b3 m)\<lparr>bb_next := ba_free_lists b3 k\<rparr>) b3))))"

text \<open>\<open>buddy_get_fragmentation\<close>: one walk per order, adding up sizes.\<close>

partial_function (option) frag_walk ::
    "buddy_allocator \<Rightarrow> nat \<Rightarrow> nat option \<Rightarrow> nat \<Rightarrow> nat \<Rightarrow> (nat \<times> nat) option" where
  "frag_walk b block_size p total_free largest_free =
     (case p of
        None \<Rightarrow> Some (total_free, largest_free)
      | Some a \<Rightarrow> frag_walk b block_size (bb_next (ba_hdr b a)) (total_free + block_size)
                     (if block_size > largest_free then block_size else largest_free))"

fun frag_orders :: "buddy_allocator \<Rightarrow> nat list \<Rightarrow> nat \<Rightarrow> nat \<Rightarrow> (nat \<times> nat) option" where
  "frag_orders b [] total_free largest_free = Some (total_free, largest_free)"
| "frag_orders b (k # ks) total_free largest_free =
     (case frag_walk b (order_to_size k) (ba_free_lists b k) total_free largest_free of
        None \<Rightarrow> None
      | Some (t, l) \<Rightarrow> frag_orders b ks t l)"

definition buddy_get_fragmentation :: "buddy_allocator \<Rightarrow> rat option" where
  "buddy_get_fragmentation b =
     (case frag_orders b [0..<BUDDY_NUM_ORDERS] 0 0 of
        None \<Rightarrow> None
      | Some (total_free, largest_free) \<Rightarrow>
          Some (if total_free = 0 then 0
                else 1 - rat_of_nat largest_free / rat_of_nat total_free))"

section \<open>Orders and sizes\<close>

declare size_to_order_loop.simps [simp del] buddy_split.simps [simp del]
  buddy_coalesce.simps [simp del]

lemma order_to_size_eq: "order_to_size k = 4096 * 2 ^ k"
  by (simp add: order_to_size_def BUDDY_MIN_ORDER_def push_bit_eq_mult power_add)

lemma order_to_size_xor:
  "x XOR order_to_size k = (if odd (x div order_to_size k) then x - order_to_size k else x + order_to_size k)"
  using xor_pow2_nat[of x "12 + k"] by (simp add: order_to_size_eq power_add)

lemma order_to_size_Suc [simp]: "order_to_size (Suc k) = 2 * order_to_size k"
  by (simp add: order_to_size_eq)

lemma order_to_size_pos [simp]: "0 < order_to_size k"
  by (simp add: order_to_size_eq)

interpretation hb: buddy_geometry order_to_size 14 "\<lambda>x k. x XOR order_to_size k"
  by unfold_locales (simp_all add: order_to_size_xor)

lemma size_to_order_loop_spec:
  assumes "z = order_to_size k" "k \<le> 14" "r = size_to_order_loop n z k"
  shows "k \<le> r \<and> r \<le> 14 \<and> (r = 14 \<or> n \<le> order_to_size r) \<and>
    (k < r \<longrightarrow> order_to_size (r - 1) < n)"
  using assms
proof (induction n z k rule: size_to_order_loop.induct)
  case (1 n z k)
  note unfold = size_to_order_loop.simps[of n z k]
  show ?case
  proof (cases "z < n \<and> k < 14")
    case True
    have "push_bit 1 z = order_to_size (Suc k)"
      using "1.prems" by (simp add: order_to_size_eq push_bit_eq_mult)
    moreover have "r = size_to_order_loop n (push_bit 1 z) (Suc k)" using "1.prems"(3) True unfold by simp
    ultimately have IH: "Suc k \<le> r \<and> r \<le> 14 \<and> (r = 14 \<or> n \<le> order_to_size r) \<and>
        (Suc k < r \<longrightarrow> order_to_size (r - 1) < n)"
      using "1.IH" True by simp
    moreover have "order_to_size (r - 1) < n" if "r = Suc k" using that True "1.prems"(1) by simp
    ultimately show ?thesis by (auto simp: le_less)
  next
    case False
    then show ?thesis using "1.prems" unfold by auto
  qed
qed

lemma size_to_order_spec:
  "size_to_order n \<le> 14"
  "size_to_order n = 14 \<or> n \<le> order_to_size (size_to_order n)"
  "0 < size_to_order n \<Longrightarrow> order_to_size (size_to_order n - 1) < n"
  using size_to_order_loop_spec[of "4096" 0 "size_to_order_loop n 4096 0" n]
  by (auto simp: size_to_order_def BUDDY_MIN_ORDER_def order_to_size_eq push_bit_eq_mult split: if_splits)

lemma size_to_order_fits: "n \<le> order_to_size 14 \<Longrightarrow> n \<le> order_to_size (size_to_order n)"
  using size_to_order_spec(2)[of n] by auto

section \<open>The invariant\<close>

definition next_of :: "buddy_allocator \<Rightarrow> nat \<Rightarrow> nat option" where
  "next_of b a = bb_next (ba_hdr b a)"

definition free_set :: "(nat \<Rightarrow> nat list) \<Rightarrow> blk set" where
  "free_set F = {(x, k). k < BUDDY_NUM_ORDERS \<and> x \<in> set (F k)}"

text \<open>
  \<open>buddy_core b F A X\<close>: the free lists are \<open>F\<close>, the allocated blocks are \<open>A\<close>, and the
  blocks of \<open>X\<close> are in the hands of the running operation, on no list and not allocated.
\<close>

definition buddy_core ::
    "buddy_allocator \<Rightarrow> (nat \<Rightarrow> nat list) \<Rightarrow> blk set \<Rightarrow> blk set \<Rightarrow> bool" where
  "buddy_core b F A X \<longleftrightarrow>
     ba_memory b \<noteq> None \<and> ba_total_size b = BUDDY_POOL_SIZE \<and>
     (\<forall>k<BUDDY_NUM_ORDERS. linked (next_of b) (ba_free_lists b k) (F k)) \<and>
     (\<forall>(x, k)\<in>free_set F. bb_order (ba_hdr b x) = k \<and> bb_is_free (ba_hdr b x)) \<and>
     (\<forall>(x, k)\<in>A. bb_order (ba_hdr b x) = k \<and> \<not> bb_is_free (ba_hdr b x)) \<and>
     (\<forall>(x, k)\<in>X. bb_order (ba_hdr b x) = k) \<and>
     X \<inter> (A \<union> free_set F) = {} \<and>
     tiling order_to_size 14 (A \<union> free_set F \<union> X)"

definition buddy_rep :: "buddy_allocator \<Rightarrow> (nat \<Rightarrow> nat list) \<Rightarrow> blk set \<Rightarrow> bool" where
  "buddy_rep b F A \<longleftrightarrow> buddy_core b F A {}"

text \<open>No free block has a free buddy of its own order.\<close>

definition coalesced :: "(nat \<Rightarrow> nat list) \<Rightarrow> bool" where
  "coalesced F \<longleftrightarrow> (\<forall>k<14. \<forall>x\<in>set (F k). x XOR order_to_size k \<notin> set (F k))"

lemma free_set_mem [simp]: "(x, k) \<in> free_set F \<longleftrightarrow> k < 15 \<and> x \<in> set (F k)"
  by (simp add: free_set_def)

lemma coreD:
  assumes "buddy_core b F A X"
  shows "ba_memory b \<noteq> None" "ba_total_size b = BUDDY_POOL_SIZE"
    "k < 15 \<Longrightarrow> linked (next_of b) (ba_free_lists b k) (F k)"
    "k < 15 \<Longrightarrow> x \<in> set (F k) \<Longrightarrow> bb_order (ba_hdr b x) = k"
    "k < 15 \<Longrightarrow> x \<in> set (F k) \<Longrightarrow> bb_is_free (ba_hdr b x)"
    "(x, k) \<in> A \<Longrightarrow> bb_order (ba_hdr b x) = k"
    "(x, k) \<in> A \<Longrightarrow> \<not> bb_is_free (ba_hdr b x)"
    "(x, k) \<in> X \<Longrightarrow> bb_order (ba_hdr b x) = k"
    "X \<inter> (A \<union> free_set F) = {}"
    "tiling order_to_size 14 (A \<union> free_set F \<union> X)"
  using assms by (auto simp: buddy_core_def free_set_def)

lemma coreI:
  assumes "ba_memory b \<noteq> None" "ba_total_size b = BUDDY_POOL_SIZE"
    "\<And>k. k < 15 \<Longrightarrow> linked (next_of b) (ba_free_lists b k) (F k)"
    "\<And>x k. (x, k) \<in> free_set F \<Longrightarrow> bb_order (ba_hdr b x) = k \<and> bb_is_free (ba_hdr b x)"
    "\<And>x k. (x, k) \<in> A \<Longrightarrow> bb_order (ba_hdr b x) = k \<and> \<not> bb_is_free (ba_hdr b x)"
    "\<And>x k. (x, k) \<in> X \<Longrightarrow> bb_order (ba_hdr b x) = k"
    "X \<inter> (A \<union> free_set F) = {}"
    "tiling order_to_size 14 (A \<union> free_set F \<union> X)"
  shows "buddy_core b F A X"
  unfolding buddy_core_def using assms(1,2,7,8)
  by (auto intro: assms(3) dest!: assms(4,5,6) simp del: free_set_mem)

lemma core_start_unique:
  assumes c: "buddy_core b F A X" and "(x, j) \<in> A \<union> free_set F \<union> X" "(x, k) \<in> A \<union> free_set F \<union> X"
  shows "j = k"
  using hb.tiling_unique_start[OF coreD(10)[OF c] assms(2,3)] .

text \<open>Only the headers at the starts of blocks matter.\<close>

lemma core_change_holes:
  assumes c: "buddy_core b F A X"
    and same: "\<And>y j. (y, j) \<in> A \<union> free_set F \<Longrightarrow> h y = ba_hdr b y"
    and ord: "\<And>y j. (y, j) \<in> X' \<Longrightarrow> bb_order (h y) = j"
    and disj: "X' \<inter> (A \<union> free_set F) = {}"
    and til: "tiling order_to_size 14 (A \<union> free_set F \<union> X')"
  shows "buddy_core (b\<lparr>ba_hdr := h\<rparr>) F A X'"
proof -
  have "linked (next_of (b\<lparr>ba_hdr := h\<rparr>)) (ba_free_lists b k) (F k)" if "k < 15" for k
  proof -
    have "next_of (b\<lparr>ba_hdr := h\<rparr>) a = next_of b a" if "a \<in> set (F k)" for a
      using same[of a k] that \<open>k < 15\<close> by (simp add: next_of_def)
    then show ?thesis using linked_cong[of "F k"] coreD(3)[OF c that] by blast
  qed
  moreover have "h y = ba_hdr b y" if "(y, j) \<in> free_set F" for y j using same that by blast
  moreover have "h y = ba_hdr b y" if "(y, j) \<in> A" for y j using same that by blast
  ultimately show ?thesis
    using coreD(1-7)[OF c] ord disj til by (intro coreI) auto
qed

lemmas core_hdr_cong = core_change_holes[OF _ _ _ coreD(9) coreD(10)]

lemma core_set_hdr:
  assumes c: "buddy_core b F A X" and x: "(x, k) \<in> X" and h: "bb_order h = k"
  shows "buddy_core (set_hdr x h b) F A X"
  unfolding set_hdr_def
proof (rule core_hdr_cong[OF c _ _ c c])
  show "((ba_hdr b)(x := h)) y = ba_hdr b y" if "(y, j) \<in> A \<union> free_set F" for y j
    using core_start_unique[OF c, of x j k] x that coreD(9)[OF c] by auto
  show "bb_order (((ba_hdr b)(x := h)) y) = j" if "(y, j) \<in> X" for y j
    using core_start_unique[OF c, of x j k] x that h coreD(8)[OF c] by auto
qed

lemma next_of_counters [simp]:
  "next_of (b\<lparr>ba_num_allocations := n\<rparr>) = next_of b"
  "next_of (b\<lparr>ba_num_frees := n\<rparr>) = next_of b"
  "next_of (b\<lparr>ba_num_coalesces := n\<rparr>) = next_of b"
  "next_of (set_head k p b) = next_of b"
  by (simp_all add: fun_eq_iff next_of_def set_head_def)

lemma core_counters:
  "buddy_core b F A X \<Longrightarrow> buddy_core (b\<lparr>ba_num_allocations := n\<rparr>) F A X"
  "buddy_core b F A X \<Longrightarrow> buddy_core (b\<lparr>ba_num_frees := n\<rparr>) F A X"
  "buddy_core b F A X \<Longrightarrow> buddy_core (b\<lparr>ba_num_coalesces := n\<rparr>) F A X"
  by (simp_all add: buddy_core_def)

subsection \<open>Moving blocks between the lists, the allocated set and the running operation\<close>

lemma free_set_upd:
  "k < 15 \<Longrightarrow> free_set (F(k := xs)) = (free_set F - {(x, k) | x. True}) \<union> {(x, k) | x. x \<in> set xs}"
  by (auto simp: free_set_def)

lemma core_pop:
  assumes c: "buddy_core b F A X" and k: "k < 15" and F: "F k = x # xs"
  shows "buddy_core (set_head k (next_of b x) b) (F(k := xs)) A (insert (x, k) X)"
proof -
  have l: "linked (next_of b) (ba_free_lists b k) (x # xs)" using coreD(3)[OF c k] F by simp
  then have d: "x \<notin> set xs" using linked_distinct by fastforce
  have eq: "A \<union> free_set (F(k := xs)) \<union> insert (x, k) X = A \<union> free_set F \<union> X"
    using k F by (auto simp: free_set_def)
  have "insert (x, k) X \<inter> (A \<union> free_set (F(k := xs))) = {}"
    using coreD(9)[OF c] d k F coreD(5)[OF c k, of x] coreD(7)[OF c, of x k]
    by (auto simp: free_set_def split: if_splits)
  moreover have "(\<forall>(y, j)\<in>free_set (F(k := xs)). bb_order (ba_hdr b y) = j \<and> bb_is_free (ba_hdr b y))"
    using coreD(4,5)[OF c] k F by (auto simp: free_set_def split: if_splits)
  ultimately show ?thesis
    using c l k F unfolding buddy_core_def next_of_counters eq
    by (auto simp: set_head_def coreD(4)[OF c])
qed

lemma core_push:
  assumes c: "buddy_core b F A (insert (x, k) X)" and nin: "(x, k) \<notin> X"
    and h: "bb_order h = k" "bb_is_free h" "bb_next h = ba_free_lists b k"
  shows "buddy_core (set_head k (Some x) (set_hdr x h b)) (F(k := x # F k)) A X"
proof -
  let ?b = "set_hdr x h b"
  have k: "k < 15" using tiling_wf[OF coreD(10)[OF c], of "(x, k)"] by (simp add: wf_blk_def)
  have c1: "buddy_core ?b F A (insert (x, k) X)" using core_set_hdr[OF c _ h(1)] by simp
  have eq: "A \<union> free_set (F(k := x # F k)) \<union> X = A \<union> free_set F \<union> insert (x, k) X"
    using k by (auto simp: free_set_def)
  have nxx: "next_of ?b x = ba_free_lists ?b k" using h(3) by (simp add: next_of_def set_hdr_def)
  have "X \<inter> (A \<union> free_set (F(k := x # F k))) = {}"
    using coreD(9)[OF c] nin k by (auto simp: free_set_def split: if_splits)
  moreover have "bb_order (ba_hdr ?b y) = j \<and> bb_is_free (ba_hdr ?b y)"
    if "(y, j) \<in> free_set (F(k := x # F k))" for y j
  proof (cases "y = x \<and> j = k")
    case True
    with h show ?thesis by (simp add: set_hdr_def)
  next
    case False
    with that have "j < 15" "y \<in> set (F j)" by (auto split: if_splits)
    then show ?thesis using coreD(4,5)[OF c1] by blast
  qed
  ultimately show ?thesis
    using c1 nxx k unfolding buddy_core_def next_of_counters eq by (auto simp: set_head_def)
qed

lemma core_take:
  assumes c: "buddy_core b F A (insert (x, k) X)" and nin: "(x, k) \<notin> X"
    and h: "bb_order h = k" "\<not> bb_is_free h"
  shows "buddy_core (set_hdr x h b) F (insert (x, k) A) X"
proof -
  have c1: "buddy_core (set_hdr x h b) F A (insert (x, k) X)" using core_set_hdr[OF c _ h(1)] by simp
  moreover have "A \<union> free_set F \<union> insert (x, k) X = insert (x, k) A \<union> free_set F \<union> X" by auto
  ultimately show ?thesis
    using nin h unfolding buddy_core_def by (auto simp: set_hdr_def)
qed

lemma core_give:
  assumes c: "buddy_core b F A X" and a: "(x, k) \<in> A" and h: "bb_order h = k"
  shows "buddy_core (set_hdr x h b) F (A - {(x, k)}) (insert (x, k) X)"
proof -
  have nf: "(x, k) \<notin> free_set F" using coreD(5)[OF c, of k x] coreD(7)[OF c a] by auto
  have eq: "A \<union> free_set F \<union> X = (A - {(x, k)}) \<union> free_set F \<union> insert (x, k) X" using a by auto
  have "buddy_core b F (A - {(x, k)}) (insert (x, k) X)"
    using c a nf coreD(6)[OF c a] unfolding buddy_core_def eq by auto
  then show ?thesis using core_set_hdr[OF _ _ h] by simp
qed

lemma next_of_set_hdr: "next_of (set_hdr x h b) = (next_of b)(x := bb_next h)"
  by (simp add: fun_eq_iff next_of_def set_hdr_def)

lemma find_cursor_found:
  assumes "linked (next_of b) (load_cursor b k c) (zs @ t # ys)" "t \<notin> set zs"
  shows "find_cursor b k t c = Some (Some (if zs = [] then c else NextOf (last zs)))"
  using assms
proof (induction zs arbitrary: c)
  case Nil
  then show ?case by (subst find_cursor.simps) simp
next
  case (Cons z zs)
  have "load_cursor b k (NextOf z) = next_of b z" by (simp add: next_of_def)
  with Cons.prems have "linked (next_of b) (load_cursor b k (NextOf z)) (zs @ t # ys)" by simp
  with Cons show ?case by (subst find_cursor.simps) simp
qed

text \<open>Taking a block off its list through the cursor the search returned.\<close>

lemma core_unlink:
  assumes c: "buddy_core b F A X" and k: "k < 15" and F: "F k = zs @ t # ys"
  shows "buddy_core (store_cursor k (if zs = [] then Head else NextOf (last zs)) (next_of b t) b)
           (F(k := zs @ ys)) A (insert (t, k) X)"
proof (cases zs rule: rev_cases)
  case Nil
  then show ?thesis using core_pop[OF c k, of t ys] F by simp
next
  case (snoc us u)
  let ?h = "(ba_hdr b u)\<lparr>bb_next := next_of b t\<rparr>"
  let ?b = "set_hdr u ?h b"
  have l: "linked (next_of b) (ba_free_lists b k) (us @ u # t # ys)"
    using coreD(3)[OF c k] F snoc by simp
  then have d: "distinct (us @ u # t # ys)" by (rule linked_distinct)
  have eq: "A \<union> free_set (F(k := zs @ ys)) \<union> insert (t, k) X = A \<union> free_set F \<union> X"
    using k F by (auto simp: free_set_def)
  have u: "(u, k) \<in> free_set F" using k F snoc by simp
  have other: "linked (next_of ?b) (ba_free_lists b j) (F j)" if "j < 15" "j \<noteq> k" for j
  proof -
    have "u \<notin> set (F j)" using core_start_unique[OF c, of u j k] u that by auto
    then show ?thesis using coreD(3)[OF c that(1)] by (simp add: next_of_set_hdr)
  qed
  have this_list: "linked (next_of ?b) (ba_free_lists b k) (zs @ ys)"
    using linked_unlink[OF l] snoc by (simp add: next_of_set_hdr)
  have hdr: "bb_order (ba_hdr ?b y) = bb_order (ba_hdr b y)"
    "bb_is_free (ba_hdr ?b y) = bb_is_free (ba_hdr b y)" for y
    by (simp_all add: set_hdr_def)
  have "t \<notin> set (zs @ ys)" using d snoc by auto
  moreover have "(t, k) \<notin> A" using coreD(5)[OF c k, of t] coreD(7)[OF c, of t k] F by auto
  ultimately have disj: "insert (t, k) X \<inter> (A \<union> free_set (F(k := zs @ ys))) = {}"
    using coreD(9)[OF c] F by (auto simp: free_set_def split: if_splits)
  have "buddy_core ?b (F(k := zs @ ys)) A (insert (t, k) X)"
  proof (rule coreI)
    show "linked (next_of ?b) (ba_free_lists ?b j) ((F(k := zs @ ys)) j)" if "j < 15" for j
      using other[OF that] this_list by (simp add: set_hdr_def)
    show "bb_order (ba_hdr ?b x) = j \<and> bb_is_free (ba_hdr ?b x)"
      if "(x, j) \<in> free_set (F(k := zs @ ys))" for x j
      using that coreD(4,5)[OF c] F by (auto simp: hdr split: if_splits)
    show "bb_order (ba_hdr ?b x) = j" if "(x, j) \<in> insert (t, k) X" for x j
      using that coreD(4)[OF c k, of t] coreD(8)[OF c] F by (auto simp: hdr)
    show "tiling order_to_size 14 (A \<union> free_set (F(k := zs @ ys)) \<union> insert (t, k) X)"
      using coreD(10)[OF c] unfolding eq .
  qed (use coreD[OF c] disj hdr in \<open>auto simp: set_hdr_def\<close>)
  then show ?thesis using snoc by (simp add: next_of_def)
qed

text \<open>Splitting and merging a block the operation holds.\<close>

lemma core_hole_split:
  assumes c: "buddy_core b F A (insert (x, Suc k) X)" and nin: "(x, Suc k) \<notin> X"
    and h: "bb_order h1 = k" "bb_order h2 = k"
  shows "buddy_core (set_hdr (x + order_to_size k) h2 (set_hdr x h1 b)) F A
           (X \<union> {(x, k), (x + order_to_size k, k)})"
proof -
  let ?L = "A \<union> free_set F \<union> insert (x, Suc k) X"
  let ?y = "x + order_to_size k"
  have wf: "wf_blk order_to_size 14 (x, Suc k)" using coreD(10)[OF c] by (rule tiling_wf) simp
  then have k: "k < 14" by (simp add: wf_blk_def)
  have pos: "0 < order_to_size k" by (simp add: order_to_size_eq)
  have nin2: "(x, Suc k) \<notin> A \<union> free_set F" using coreD(9)[OF c] by blast
  have eq: "?L - {(x, Suc k)} \<union> {(x, k), (?y, k)} = A \<union> free_set F \<union> (X \<union> {(x, k), (?y, k)})"
    using nin nin2 by auto
  have til: "tiling order_to_size 14 (A \<union> free_set F \<union> (X \<union> {(x, k), (?y, k)}))"
    using hb.tiling_split[OF coreD(10)[OF c] _ k, of x] unfolding eq by simp
  have fresh: "z \<noteq> x \<and> z \<noteq> ?y" if "(z, j) \<in> A \<union> free_set F \<union> X" for z j
  proof -
    have "blk_range order_to_size (z, j) \<inter> blk_range order_to_size (x, Suc k) = {}"
      using that nin nin2 by (intro tiling_disjoint[OF coreD(10)[OF c]]) auto
    moreover have "z \<in> blk_range order_to_size (z, j)"
      by (simp add: blk_range_def order_to_size_eq)
    ultimately show ?thesis using pos by (auto simp: hb.range_split[OF k] blk_range_def)
  qed
  let ?h = "(ba_hdr b)(x := h1, ?y := h2)"
  have same: "?h z = ba_hdr b z" if "(z, j) \<in> A \<union> free_set F" for z j
    using fresh[of z j] that by auto
  have ord: "bb_order (?h z) = j" if "(z, j) \<in> X \<union> {(x, k), (?y, k)}" for z j
    using that fresh[of z j] h pos coreD(8)[OF c, of z j] by auto
  have disj: "(X \<union> {(x, k), (?y, k)}) \<inter> (A \<union> free_set F) = {}"
    using fresh[of x k] fresh[of ?y k] coreD(9)[OF c] by blast
  have "buddy_core (b\<lparr>ba_hdr := ?h\<rparr>) F A (X \<union> {(x, k), (?y, k)})"
    by (rule core_change_holes[OF c _ ord disj til]) (rule same)
  then show ?thesis by (simp add: set_hdr_def)
qed

lemma core_hole_merge:
  assumes c: "buddy_core b F A (X \<union> {(x, k), (x XOR order_to_size k, k)})" and k: "k < 14"
    and nin: "(x, k) \<notin> X" "(x XOR order_to_size k, k) \<notin> X"
    and h: "bb_order h = Suc k" and m: "m = min x (x XOR order_to_size k)"
  shows "buddy_core (set_hdr m h b) F A (insert (m, Suc k) X)"
proof -
  let ?y = "x XOR order_to_size k"
  let ?L = "A \<union> free_set F \<union> (X \<union> {(x, k), (?y, k)})"
  have nin2: "(x, k) \<notin> A \<union> free_set F" "(?y, k) \<notin> A \<union> free_set F" using coreD(9)[OF c] by auto
  have eq: "?L - {(x, k), (?y, k)} \<union> {(m, Suc k)} = A \<union> free_set F \<union> insert (m, Suc k) X"
    using nin nin2 by auto
  have til: "tiling order_to_size 14 (A \<union> free_set F \<union> insert (m, Suc k) X)"
    using hb.tiling_merge[OF coreD(10)[OF c] _ _ k, of x] unfolding hb.parent_at_def m[symmetric] eq
    by simp
  have mk: "(m, k) \<in> X \<union> {(x, k), (?y, k)}" using m by (auto simp: min_def)
  have fresh: "z \<noteq> m" if "(z, j) \<in> A \<union> free_set F \<union> X" for z j
  proof
    assume "z = m"
    then have "j = k" using core_start_unique[OF c, of m j k] that mk by auto
    with that \<open>z = m\<close> m nin nin2 show False by (auto simp: min_def split: if_splits)
  qed
  let ?h = "(ba_hdr b)(m := h)"
  have same: "?h z = ba_hdr b z" if "(z, j) \<in> A \<union> free_set F" for z j
    using fresh[of z j] that by auto
  have ord: "bb_order (?h z) = j" if "(z, j) \<in> insert (m, Suc k) X" for z j
    using that fresh[of z j] h coreD(8)[OF c, of z j] by auto
  have disj: "insert (m, Suc k) X \<inter> (A \<union> free_set F) = {}"
    using fresh[of m "Suc k"] coreD(9)[OF c] by blast
  have "buddy_core (b\<lparr>ba_hdr := ?h\<rparr>) F A (insert (m, Suc k) X)"
    by (rule core_change_holes[OF c _ ord disj til]) (rule same)
  then show ?thesis by (simp add: set_hdr_def)
qed

subsection \<open>Splitting and allocating\<close>

lemma core_wf: "buddy_core b F A X \<Longrightarrow> (x, k) \<in> A \<union> free_set F \<union> X \<Longrightarrow> wf_blk order_to_size 14 (x, k)"
  using tiling_wf[OF coreD(10)] by blast

lemma order_to_size_14: "order_to_size 14 = 67108864"
  by (simp add: order_to_size_eq)

lemma core_in_pool:
  assumes "buddy_core b F A X" "(x, k) \<in> A \<union> free_set F \<union> X"
  shows "x + order_to_size k \<le> 67108864" "k \<le> 14" "order_to_size k dvd x"
  using core_wf[OF assms] by (auto simp: wf_blk_def order_to_size_14)

lemma split_block_spec:
  assumes c: "buddy_core b F A {}" and k: "k < 14" and F: "F (Suc k) = x # xs"
  shows "\<exists>b'. split_block b k x = (Some x, b') \<and>
    buddy_core b' (F(Suc k := xs, k := x # (x + order_to_size k) # F k)) A {}"
proof -
  let ?y = "x + order_to_size k"
  let ?b1 = "set_head (Suc k) (next_of b x) b"
  let ?h1 = "\<lparr>bb_next = Some ?y, bb_order = k, bb_is_free = True\<rparr>"
  let ?h2 = "\<lparr>bb_next = ba_free_lists b k, bb_order = k, bb_is_free = True\<rparr>"
  let ?b3 = "set_hdr ?y ?h2 (set_hdr x ?h1 ?b1)"
  have c1: "buddy_core ?b1 (F(Suc k := xs)) A {(x, Suc k)}"
    using core_pop[OF c _ F] k by simp
  have c3: "buddy_core ?b3 (F(Suc k := xs)) A {(x, k), (?y, k)}"
    using core_hole_split[OF c1, of ?h1 ?h2] by (simp add: insert_commute)
  have c4: "buddy_core (set_head k (Some ?y) (set_hdr ?y ?h2 ?b3)) (F(Suc k := xs, k := ?y # F k)) A {(x, k)}"
    using core_push[of ?b3 "F(Suc k := xs)" A ?y k "{(x, k)}" ?h2] c3
    by (simp add: insert_commute set_hdr_def set_head_def)
  have "buddy_core (set_head k (Some x) (set_hdr x ?h1 (set_head k (Some ?y) (set_hdr ?y ?h2 ?b3))))
      (F(Suc k := xs, k := x # ?y # F k)) A {}"
    using core_push[OF c4, of ?h1] by (simp add: set_head_def)
  moreover have "set_head k (Some x) (set_hdr x ?h1 (set_head k (Some ?y) (set_hdr ?y ?h2 ?b3))) =
      set_head k (Some x) ?b3"
    by (simp add: set_head_def set_hdr_def fun_upd_twist)
  moreover have "split_block b k x = (Some x, set_head k (Some x) ?b3)"
    using core_in_pool[OF c1, of x "Suc k"] coreD(2)[OF c]
    by (simp add: split_block_def Let_def next_of_def set_head_def set_hdr_def BUDDY_POOL_SIZE_def)
  ultimately show ?thesis by auto
qed

definition alloc_lists :: "(nat \<Rightarrow> nat list) \<Rightarrow> nat \<Rightarrow> nat \<Rightarrow> nat \<Rightarrow> nat list" where
  "alloc_lists F k j =
     (\<lambda>i. if k \<le> i \<and> i < j then [hd (F j) + order_to_size i] else if i = j then tl (F j) else F i)"

lemma buddy_split_spec:
  assumes "buddy_core b F A {}" "k < j" "j \<le> 14" "F j = x # xs" "\<And>i. k \<le> i \<Longrightarrow> i < j \<Longrightarrow> F i = []"
  shows "\<exists>b'. buddy_split b k = (Some x, b') \<and>
    buddy_core b' ((alloc_lists F k j)(k := [x, x + order_to_size k])) A {}"
  using assms
proof (induction "j - k" arbitrary: k)
  case 0
  then show ?case by simp
next
  case (Suc d)
  have k: "k < 14" using Suc.prems by simp
  have head: "ba_free_lists b (Suc k) = (case F (Suc k) of [] \<Rightarrow> None | a # _ \<Rightarrow> Some a)"
    using coreD(3)[OF Suc.prems(1), of "Suc k"] k by (simp add: linked_hd)
  show ?case
  proof (cases "Suc k = j")
    case True
    have "(F(Suc k := xs, k := x # (x + order_to_size k) # F k)) =
        (alloc_lists F k j)(k := [x, x + order_to_size k])"
      using True Suc.prems(4) Suc.prems(5)[of k] by (auto simp: alloc_lists_def fun_eq_iff)
    then show ?thesis
      using split_block_spec[OF Suc.prems(1) k, of x xs] True Suc.prems(4) head k
      by (subst buddy_split.simps) simp
  next
    case False
    then have lt: "Suc k < j" using Suc.prems(2) by simp
    obtain b' where b': "buddy_split b (Suc k) = (Some x, b')"
      "buddy_core b' ((alloc_lists F (Suc k) j)(Suc k := [x, x + order_to_size (Suc k)])) A {}"
      using Suc.hyps(1)[of "Suc k"] Suc.hyps(2) Suc.prems lt by fastforce
    let ?F = "(alloc_lists F (Suc k) j)(Suc k := [x, x + order_to_size (Suc k)])"
    have "?F k = []" using Suc.prems(2,5) lt by (simp add: alloc_lists_def)
    moreover obtain b2 where b2: "split_block b' k x = (Some x, b2)"
      "buddy_core b2 (?F(Suc k := [x + order_to_size (Suc k)], k := x # (x + order_to_size k) # ?F k)) A {}"
      using split_block_spec[OF b'(2) k, of x] by auto
    moreover have "(alloc_lists F k j)(k := [x, x + order_to_size k]) =
        ?F(Suc k := [x + order_to_size (Suc k)], k := [x, x + order_to_size k])"
      using lt Suc.prems(4) by (auto simp: alloc_lists_def fun_eq_iff)
    moreover have "ba_free_lists b' (Suc k) = Some x"
      using coreD(3)[OF b'(2), of "Suc k"] k by simp
    moreover have "ba_free_lists b (Suc k) = None" using head Suc.prems(5)[of "Suc k"] lt by simp
    ultimately show ?thesis
      using b'(1) k by (subst buddy_split.simps) simp
  qed
qed

lemma buddy_split_None:
  assumes "buddy_core b F A {}" "k \<le> 14" "\<And>i. k < i \<Longrightarrow> i \<le> 14 \<Longrightarrow> F i = []"
  shows "buddy_split b k = (None, b)"
  using assms
proof (induction "14 - k" arbitrary: k)
  case 0
  then show ?case by (subst buddy_split.simps) simp
next
  case (Suc d)
  then have "ba_free_lists b (Suc k) = None"
    using coreD(3)[OF Suc.prems(1), of "Suc k"] by simp
  moreover have "buddy_split b (Suc k) = (None, b)" using Suc by simp
  ultimately show ?case using Suc.prems by (subst buddy_split.simps) simp
qed


lemma order_to_size_mono: "j \<le> k \<Longrightarrow> order_to_size j \<le> order_to_size k"
  by (simp add: order_to_size_eq)

lemma order_to_size_le_14: "k \<le> 14 \<Longrightarrow> order_to_size k \<le> 67108864"
  using order_to_size_mono[of k 14] by (simp add: order_to_size_14)

text \<open>The block \<open>buddy_alloc\<close> works on: the head of the first nonempty list from \<open>k\<close> up.\<close>

lemma buddy_find_spec:
  assumes c: "buddy_core b F A {}" and "k \<le> j" "j \<le> 14" "F j = x # xs"
    and empty: "\<And>i. k \<le> i \<Longrightarrow> i < j \<Longrightarrow> F i = []"
  shows "\<exists>b1. buddy_find b k = (Some x, b1)
     \<and> buddy_core b1 ((alloc_lists F k j)(k := x # alloc_lists F k j k)) A {}"
proof (cases "k = j")
  case True
  have "(alloc_lists F k j)(k := x # alloc_lists F k j k) = F"
    using True assms(4) by (auto simp: alloc_lists_def fun_eq_iff)
  moreover have "ba_free_lists b k = Some x" using coreD(3)[OF c, of k] True assms by simp
  ultimately show ?thesis using c by (simp add: buddy_find_def)
next
  case False
  then have "k < j" using assms(2) by simp
  moreover have "ba_free_lists b k = None" using coreD(3)[OF c, of k] \<open>k < j\<close> assms(3) empty by simp
  moreover have "alloc_lists F k j k = [x + order_to_size k]"
    using \<open>k < j\<close> assms(4) by (simp add: alloc_lists_def)
  ultimately show ?thesis
    using buddy_split_spec[OF c _ assms(3,4)] empty by (auto simp: buddy_find_def)
qed

lemma buddy_find_None:
  assumes c: "buddy_core b F A {}" and k: "k \<le> 14" and empty: "\<And>i. k \<le> i \<Longrightarrow> i \<le> 14 \<Longrightarrow> F i = []"
  shows "buddy_find b k = (None, b)"
  using coreD(3)[OF c, of k] empty[of k] k buddy_split_None[OF c k] empty
  by (simp add: buddy_find_def)

text \<open>Taking the head of the list of order \<open>k\<close>: a success, or the bounds check puts it back.\<close>

lemma buddy_take_spec:
  assumes c: "buddy_core b F A {}" and k: "k \<le> 14" and F: "F k = x # xs"
  shows "x + 24 + n \<le> BUDDY_POOL_SIZE \<Longrightarrow>
      \<exists>b'. buddy_take b k x n = (Some (x + 24), b') \<and> buddy_core b' (F(k := xs)) (insert (x, k) A) {}"
    and "BUDDY_POOL_SIZE < x + 24 + n \<Longrightarrow>
      \<exists>b'. buddy_take b k x n = (None, b') \<and> buddy_core b' F A {}"
proof -
  let ?b2 = "set_head k (next_of b x) b"
  let ?h = "(ba_hdr b x)\<lparr>bb_is_free := False, bb_next := None\<rparr>"
  let ?b4 = "(set_hdr x ?h ?b2)\<lparr>ba_num_allocations := ba_num_allocations b + 1\<rparr>"
  have c2: "buddy_core ?b2 (F(k := xs)) A {(x, k)}" using core_pop[OF c _ F] k by simp
  have o: "bb_order (ba_hdr b x) = k" using coreD(4)[OF c, of k x] k F by simp
  have tot: "ba_total_size b = BUDDY_POOL_SIZE" using coreD(2)[OF c] .
  have c4: "buddy_core ?b4 (F(k := xs)) A {(x, k)}"
    using core_counters(1)[OF core_set_hdr[OF c2, of x k ?h]] o by simp
  show "\<exists>b'. buddy_take b k x n = (Some (x + 24), b') \<and> buddy_core b' (F(k := xs)) (insert (x, k) A) {}"
    if "x + 24 + n \<le> BUDDY_POOL_SIZE"
  proof -
    have "buddy_take b k x n = (Some (x + 24), ?b4)"
      using that tot by (simp add: buddy_take_def sizeof_buddy_block_def Let_def set_head_def
          set_hdr_def next_of_def)
    moreover have "buddy_core ?b4 (F(k := xs)) (insert (x, k) A) {}"
      using core_counters(1)[OF core_take[OF c2, of ?h]] o by simp
    ultimately show ?thesis by blast
  qed
  show "\<exists>b'. buddy_take b k x n = (None, b') \<and> buddy_core b' F A {}"
    if "BUDDY_POOL_SIZE < x + 24 + n"
  proof -
    let ?h5 = "?h\<lparr>bb_is_free := True, bb_next := next_of b x\<rparr>"
    have "buddy_core (set_head k (Some x) (set_hdr x ?h5 ?b4)) ((F(k := xs))(k := x # (F(k := xs)) k)) A {}"
      using core_push[OF c4, of ?h5] o by (simp add: set_head_def set_hdr_def)
    moreover have "(F(k := xs))(k := x # (F(k := xs)) k) = F" using F by auto
    moreover have "buddy_take b k x n = (None, (set_head k (Some x) (set_hdr x ?h5 ?b4))
        \<lparr>ba_num_allocations := ba_num_allocations b\<rparr>)"
      using that tot by (simp add: buddy_take_def sizeof_buddy_block_def Let_def set_head_def
          set_hdr_def next_of_def)
    ultimately show ?thesis using core_counters(1) by (metis)
  qed
qed

lemma size_to_order_big: "67108864 < m \<Longrightarrow> size_to_order m = 14"
  using size_to_order_spec(1,2)[of m] order_to_size_le_14[of "size_to_order m"] by linarith

lemma buddy_alloc_spec:
  assumes c: "buddy_core b F A {}" and n: "0 < n" and k: "k = size_to_order (n + 24)"
    and j: "k \<le> j" "j \<le> 14" "F j = x # xs" and empty: "\<And>i. k \<le> i \<Longrightarrow> i < j \<Longrightarrow> F i = []"
    and fits: "n + 24 \<le> BUDDY_POOL_SIZE"
  shows "\<exists>b'. buddy_alloc b n = (Some (x + 24), b') \<and>
    buddy_core b' (alloc_lists F k j) (insert (x, k) A) {}"
    and "x + 24 + n \<le> BUDDY_POOL_SIZE"
proof -
  have k14: "k \<le> 14" using j by simp
  obtain b1 where b1: "buddy_find b k = (Some x, b1)"
    and c1: "buddy_core b1 ((alloc_lists F k j)(k := x # alloc_lists F k j k)) A {}"
    using buddy_find_spec[OF c j empty] by blast
  have pool: "x + order_to_size k \<le> 67108864" using core_in_pool[OF c1, of x k] k14 by simp
  show bound: "x + 24 + n \<le> BUDDY_POOL_SIZE"
  proof (cases "k = 14")
    case True
    with pool fits show ?thesis by (simp add: order_to_size_14)
  next
    case False
    then have "n + 24 \<le> order_to_size k" using size_to_order_spec(2)[of "n + 24"] k by simp
    with pool show ?thesis by (simp add: BUDDY_POOL_SIZE_def)
  qed
  have "buddy_alloc b n = buddy_take b1 k x n"
    using n fits b1 k k14 by (simp add: buddy_alloc_def sizeof_buddy_block_def BUDDY_POOL_SIZE_def)
  then show "\<exists>b'. buddy_alloc b n = (Some (x + 24), b') \<and>
      buddy_core b' (alloc_lists F k j) (insert (x, k) A) {}"
    using buddy_take_spec(1)[OF c1 k14, of x "alloc_lists F k j k" n] bound by simp
qed

lemma buddy_alloc_empty:
  assumes c: "buddy_core b F A {}" and k: "k = size_to_order (n + 24)"
    and empty: "\<And>i. k \<le> i \<Longrightarrow> i \<le> 14 \<Longrightarrow> F i = []"
  shows "buddy_alloc b n = (None, b)"
  using k buddy_find_None[OF c _ empty] size_to_order_spec(1)[of "n + 24"]
  by (simp add: buddy_alloc_def sizeof_buddy_block_def)

text \<open>A request the bounds check refuses leaves the free lists as they were.\<close>

lemma buddy_alloc_too_big:
  assumes c: "buddy_core b F A {}" and big: "BUDDY_POOL_SIZE < n + 24"
  shows "\<exists>b'. buddy_alloc b n = (None, b') \<and> buddy_core b' F A {}"
proof (cases "F 14")
  case Nil
  have "size_to_order (n + 24) = 14" using big by (intro size_to_order_big) (simp add: BUDDY_POOL_SIZE_def)
  moreover have "F i = []" if "14 \<le> i" "i \<le> 14" for i
    using that Nil le_antisym[OF that] by simp
  ultimately have "buddy_alloc b n = (None, b)" by (intro buddy_alloc_empty[OF c]) auto
  with c show ?thesis by blast
next
  case (Cons x xs)
  have k: "size_to_order (n + 24) = 14"
    using big by (intro size_to_order_big) (simp add: BUDDY_POOL_SIZE_def)
  have "buddy_find b 14 = (Some x, b)" using coreD(3)[OF c, of 14] Cons by (simp add: buddy_find_def)
  then have "buddy_alloc b n = (if n = 0 \<or> n > SIZE_MAX - 24 then (None, b) else buddy_take b 14 x n)"
    using k by (simp add: buddy_alloc_def sizeof_buddy_block_def)
  then show ?thesis using buddy_take_spec(2)[OF c _ Cons, of n] big c by auto
qed

subsection \<open>Coalescing and freeing\<close>

lemma buddy_in_range:
  assumes "wf_blk order_to_size 14 (x, k)" "k < 14"
  shows "(x XOR order_to_size k) + order_to_size k \<le> 67108864" "x XOR order_to_size k \<noteq> x"
  using hb.parent_props(2)[OF assms] hb.parent_props(4)[OF assms]
  by (auto simp: wf_blk_def order_to_size_14 blk_range_def)

lemma get_buddy_address_spec:
  assumes c: "buddy_core b F A (insert (x, k) X)" and k: "k < 14"
  shows "get_buddy_address b x = Some (x XOR order_to_size k)"
proof -
  have wf: "wf_blk order_to_size 14 (x, k)" using core_wf[OF c] by simp
  have "order_to_size k \<ge> 4096" by (simp add: order_to_size_eq)
  then show ?thesis
    using buddy_in_range[OF wf k] wf coreD(1,2)[OF c] coreD(8)[OF c, of x k]
    by (auto simp: get_buddy_address_def Let_def BUDDY_POOL_SIZE_def sizeof_buddy_block_def
        wf_blk_def order_to_size_14)
qed

text \<open>
  The header read at the buddy's address says free and of the same order exactly if the buddy is on
  the free list.
\<close>

lemma buddy_header_truth:
  assumes c: "buddy_core b F A {(x, k)}" and k: "k < 14"
  shows "bb_is_free (ba_hdr b (x XOR order_to_size k)) \<and> bb_order (ba_hdr b (x XOR order_to_size k)) = k
     \<longleftrightarrow> x XOR order_to_size k \<in> set (F k)"
proof -
  let ?y = "x XOR order_to_size k"
  have wf: "wf_blk order_to_size 14 (x, k)" using core_wf[OF c] by simp
  obtain j where "j \<le> k" "(?y, j) \<in> A \<union> free_set F \<union> {(x, k)}"
    using hb.buddy_is_start[OF coreD(10)[OF c] _ k, of x] by auto
  then have "(?y, j) \<in> A \<or> (?y, j) \<in> free_set F" using buddy_in_range(2)[OF wf k] by auto
  then show ?thesis
    using coreD(4,5)[OF c, of k ?y] coreD(4,5)[OF c, of j ?y] coreD(6,7)[OF c, of ?y j] k by auto
qed

lemma coalesced_smaller:
  assumes "coalesced F" "\<And>i. set (G i) \<subseteq> set (F i)"
  shows "coalesced G"
  using assms unfolding coalesced_def by blast

lemma buddy_coalesce_spec:
  assumes "buddy_core b F A {(x, k)}" "bb_is_free (ba_hdr b x)"
  shows "\<exists>m k' F' b'. buddy_coalesce b x = Some (m, b') \<and> buddy_core b' F' A {(m, k')} \<and>
     bb_is_free (ba_hdr b' m) \<and>
     (\<forall>i. set (F' i) \<subseteq> set (F i)) \<and> (k' < 14 \<longrightarrow> m XOR order_to_size k' \<notin> set (F' k'))"
  using assms
proof (induction "14 - k" arbitrary: b F x k)
  case 0
  then have "k = 14" using core_in_pool(2)[of b F A "{(x, k)}" x k] by simp
  then have "buddy_coalesce b x = Some (x, b)"
    using coreD(8)[OF 0(2), of x k] by (subst buddy_coalesce.simps) simp
  then show ?case using 0(2,3) \<open>k = 14\<close> by (intro exI[of _ x] exI[of _ k] exI[of _ F] exI[of _ b]) simp
next
  case (Suc d)
  note c = Suc.prems(1)
  let ?y = "x XOR order_to_size k"
  have k: "k < 14" using Suc.hyps(2) by simp
  have o: "bb_order (ba_hdr b x) = k" using coreD(8)[OF c, of x k] by simp
  have ga: "get_buddy_address b x = Some ?y" using get_buddy_address_spec[OF c k] .
  note truth = buddy_header_truth[OF c k]
  show ?case
  proof (cases "?y \<in> set (F k)")
    case False
    with truth have "buddy_coalesce b x = Some (x, b)"
      using o ga k by (subst buddy_coalesce.simps) (auto simp: Let_def)
    then show ?thesis using c Suc.prems(2) False
      by (intro exI[of _ x] exI[of _ k] exI[of _ F] exI[of _ b]) simp
  next
    case True
    then obtain zs ys where F: "F k = zs @ ?y # ys" "?y \<notin> set zs" by (metis split_list_first)
    define cur where "cur = (if zs = [] then Head else NextOf (last zs))"
    let ?b1 = "store_cursor k cur (next_of b ?y) b"
    let ?r = "merge_blocks x ?y ?b1"
    have fc: "find_cursor b k ?y Head = Some (Some cur)"
      using find_cursor_found[of b k Head zs ?y ys] coreD(3)[OF c, of k] k F by (simp add: cur_def)
    have c1: "buddy_core ?b1 (F(k := zs @ ys)) A {(?y, k), (x, k)}"
      using core_unlink[OF c _ F(1)] k by (simp add: cur_def)
    let ?m = "min x ?y"
    let ?h = "\<lparr>bb_next = None, bb_order = Suc k, bb_is_free = True\<rparr>"
    have c2: "buddy_core (set_hdr ?m ?h ?b1) (F(k := zs @ ys)) A {(?m, Suc k)}"
      using core_hole_merge[of ?b1 _ A "{}" x k ?h ?m] c1 k by (simp add: insert_commute)
    have om: "bb_order (ba_hdr ?b1 ?m) = k" using coreD(8)[OF c1] by (auto simp: min_def)
    have wf: "wf_blk order_to_size 14 (x, k)" using core_wf[OF c] by simp
    have r: "fst ?r = ?m" "buddy_core (snd ?r) (F(k := zs @ ys)) A {(?m, Suc k)}"
      using core_counters(3)[OF c2] om buddy_in_range(2)[OF wf k]
      by (auto simp: merge_blocks_def Let_def min_def)
    have or: "bb_order (ba_hdr (snd ?r) ?m) = Suc k" using coreD(8)[OF r(2)] by simp
    have step: "buddy_coalesce b x =
        (if Suc k \<ge> 14 then Some (?m, snd ?r) else buddy_coalesce (snd ?r) ?m)"
      using o ga k truth True fc r(1) or
      by (subst buddy_coalesce.simps) (simp add: Let_def next_of_def prod_eq_iff)
    have fr: "bb_is_free (ba_hdr (snd ?r) ?m)"
      by (auto simp: merge_blocks_def Let_def set_hdr_def min_def)
    have sub: "\<forall>i. set ((F(k := zs @ ys)) i) \<subseteq> set (F i)" using F by auto
    show ?thesis
    proof (cases "Suc k \<ge> 14")
      case True
      then show ?thesis using step r(2) fr sub k
        by (intro exI[of _ ?m] exI[of _ "Suc k"] exI[of _ "F(k := zs @ ys)"] exI[of _ "snd ?r"]) simp
    next
      case False
      have "d = 14 - Suc k" using Suc.hyps(2) by simp
      then obtain m k' F' b' where "buddy_coalesce (snd ?r) ?m = Some (m, b')" "buddy_core b' F' A {(m, k')}"
        "bb_is_free (ba_hdr b' m)" "\<forall>i. set (F' i) \<subseteq> set ((F(k := zs @ ys)) i)"
        "k' < 14 \<longrightarrow> m XOR order_to_size k' \<notin> set (F' k')"
        using Suc.hyps(1)[OF _ r(2) fr] by blast
      then show ?thesis using step False sub
        by (intro exI[of _ m] exI[of _ k'] exI[of _ F'] exI[of _ b']) (simp, blast)
    qed
  qed
qed


lemma coalesced_insert:
  assumes co: "coalesced F" and sub: "\<And>i. set (F' i) \<subseteq> set (F i)"
    and m: "k < 14 \<Longrightarrow> m XOR order_to_size k \<notin> set (F' k)"
  shows "coalesced (F'(k := m # F' k))"
proof -
  have inv: "(y XOR order_to_size i) XOR order_to_size i = y" for y i
    by (simp add: xor.assoc)
  have ne: "y XOR order_to_size i \<noteq> y" for y i
  proof (cases "odd (y div order_to_size i)")
    case True
    then have "y \<noteq> 0" by (cases "y = 0") auto
    then have "y - order_to_size i < y" by simp
    moreover have "y XOR order_to_size i = y - order_to_size i" using True by (simp add: order_to_size_xor)
    ultimately show ?thesis by linarith
  qed (simp add: order_to_size_xor)
  have "coalesced F'" using co sub by (rule coalesced_smaller)
  then have old: "y XOR order_to_size i \<notin> set (F' i)" if "i < 14" "y \<in> set (F' i)" for i y
    using that by (simp add: coalesced_def)
  show ?thesis
    unfolding coalesced_def
  proof (intro allI impI ballI)
    fix i y assume i: "i < 14" and y: "y \<in> set ((F'(k := m # F' k)) i)"
    show "y XOR order_to_size i \<notin> set ((F'(k := m # F' k)) i)"
    proof (cases "i = k")
      case True
      then consider "y = m" | "y \<in> set (F' k)" using y by auto
      then show ?thesis
      proof cases
        case 1
        then show ?thesis using True m i ne by simp
      next
        case 2
        moreover have "y XOR order_to_size k \<noteq> m" using m i True 2 inv[of y k] by auto
        ultimately show ?thesis using True old i by simp
      qed
    next
      case False
      then show ?thesis using y old i by simp
    qed
  qed
qed

lemma buddy_free_spec:
  assumes c: "buddy_core b F A {}" and a: "(x, k) \<in> A"
  shows "\<exists>b' F'. buddy_free b (Some (int (x + 24))) = Some b' \<and> buddy_core b' F' (A - {(x, k)}) {} \<and>
    (coalesced F \<longrightarrow> coalesced F')"
proof -
  let ?h = "(ba_hdr b x)\<lparr>bb_is_free := True\<rparr>"
  let ?b2 = "(set_hdr x ?h b)\<lparr>ba_num_frees := ba_num_frees b + 1\<rparr>"
  have o: "bb_order (ba_hdr b x) = k" "\<not> bb_is_free (ba_hdr b x)" using coreD(6,7)[OF c a] by auto
  have pool: "k \<le> 14" "x < BUDDY_POOL_SIZE"
    using core_in_pool(1,2)[OF c, of x k] a order_to_size_pos[of k] by (auto simp: BUDDY_POOL_SIZE_def)
  have c2: "buddy_core ?b2 F (A - {(x, k)}) {(x, k)}"
    using core_counters(2)[OF core_give[OF c a, of ?h]] o by simp
  obtain m k' F' b' where co: "buddy_coalesce ?b2 x = Some (m, b')"
    and c3: "buddy_core b' F' (A - {(x, k)}) {(m, k')}" and fr: "bb_is_free (ba_hdr b' m)"
    and sub: "\<forall>i. set (F' i) \<subseteq> set (F i)"
    and nb: "k' < 14 \<longrightarrow> m XOR order_to_size k' \<notin> set (F' k')"
    using buddy_coalesce_spec[OF c2] by (auto simp: set_hdr_def)
  have om: "bb_order (ba_hdr b' m) = k'" using coreD(8)[OF c3, of m k'] by simp
  have k': "k' < 15" using core_in_pool(2)[OF c3, of m k'] by simp
  let ?h' = "(ba_hdr b' m)\<lparr>bb_next := ba_free_lists b' k'\<rparr>"
  let ?b' = "set_head k' (Some m) (set_hdr m ?h' b')"
  have c4: "buddy_core ?b' (F'(k' := m # F' k')) (A - {(x, k)}) {}"
    using core_push[OF c3, of ?h'] om fr by simp
  have "buddy_free b (Some (int (x + 24))) = Some ?b'"
    using coreD(1,2)[OF c] o pool co om k'
    by (auto simp: buddy_free_def sizeof_buddy_block_def set_hdr_def)
  moreover have "coalesced F \<Longrightarrow> coalesced (F'(k' := m # F' k'))"
    using sub nb by (intro coalesced_insert) auto
  ultimately show ?thesis using c4 by blast
qed

lemma coalesced_alloc:
  assumes c: "buddy_core b F A {}" and j: "k \<le> j" "j \<le> 14" "F j = x # xs" and co: "coalesced F"
  shows "coalesced (alloc_lists F k j)"
  unfolding coalesced_def
proof (intro allI impI ballI)
  fix i y assume i: "i < 14" and y: "y \<in> set (alloc_lists F k j i)"
  show "y XOR order_to_size i \<notin> set (alloc_lists F k j i)"
  proof (cases "k \<le> i \<and> i < j")
    case True
    have dv: "order_to_size j dvd x" using core_in_pool(3)[OF c, of x j] j by simp
    have wf: "wf_blk order_to_size 14 (x, j)" using core_wf[OF c, of x j] j by simp
    have "order_to_size (Suc i) dvd order_to_size j" using True j by (intro hb.bsize_dvd) auto
    with dv have "order_to_size i * 2 dvd x" by (auto simp: mult.commute intro: dvd_trans)
    then have "odd ((x + order_to_size i) div order_to_size i)"
      by (auto elim!: dvdE)
    then have "(x + order_to_size i) XOR order_to_size i = x" by (simp add: order_to_size_xor)
    with True y j show ?thesis by (auto simp: alloc_lists_def)
  next
    case False
    have "set (alloc_lists F k j i) \<subseteq> set (F i)"
      using False j by (auto simp: alloc_lists_def)
    with co y i show ?thesis by (auto simp: coalesced_def)
  qed
qed

end
