(* ===== verification/Heap_Buddy_Runs.thy ===== *)
theory Heap_Buddy_Runs
  imports Heap_Buddy
begin

text \<open>
  Executions of the persistent heap's buddy allocator. \<open>buddy_run b A\<close> holds of every state \<open>b\<close>
  that a sequence of calls reaches from \<open>buddy_init\<close>, where \<open>A\<close> are the blocks the client
  holds. Between two calls the client may write anything into the memory it was given: the model
  lets it replace every header cell that overlaps a payload.
\<close>

section \<open>Executions\<close>

inductive buddy_run :: "buddy_allocator \<Rightarrow> blk set \<Rightarrow> bool" where
  run_init: "buddy_init huge mal b0 = (True, b) \<Longrightarrow> buddy_run b {}"
| run_alloc: "buddy_run b A \<Longrightarrow> buddy_alloc b n = (Some p, b') \<Longrightarrow>
    buddy_run b' (insert (p - sizeof_buddy_block, size_to_order (n + sizeof_buddy_block)) A)"
| run_alloc_fail: "buddy_run b A \<Longrightarrow> buddy_alloc b n = (None, b') \<Longrightarrow> buddy_run b' A"
| run_free: "buddy_run b A \<Longrightarrow> (x, k) \<in> A \<Longrightarrow>
    buddy_free b (Some (int (x + sizeof_buddy_block))) = Some b' \<Longrightarrow> buddy_run b' (A - {(x, k)})"
| run_write: "buddy_run b A \<Longrightarrow>
    (\<And>y. h y \<noteq> ba_hdr b y \<Longrightarrow> order_to_size 14 \<le> y \<or>
       (\<exists>(x, k)\<in>A. x < y \<and> y < x + order_to_size k)) \<Longrightarrow>
    buddy_run (b\<lparr>ba_hdr := h\<rparr>) A"

lemma buddy_init_core:
  assumes "buddy_init huge mal b0 = (True, b)"
  shows "buddy_core b ((\<lambda>_. [])(14 := [0])) {} {}"
proof (rule coreI)
  have til: "tiling order_to_size 14 {(0, 14)}"
    by (auto simp: tiling_def wf_blk_def disjoint_blks_def blk_range_def)
  have "free_set ((\<lambda>_. [])(14 := [0])) = {(0, 14)}" by (auto simp: free_set_def split: if_splits)
  then show "tiling order_to_size 14 ({} \<union> free_set ((\<lambda>_. [])(14 := [0])) \<union> {})" using til by simp
qed (use assms in \<open>auto simp: buddy_init_def Let_def set_hdr_def set_head_def next_of_def
    split: if_splits option.splits\<close>)

text \<open>What the client writes into its payloads is invisible to the allocator.\<close>

lemma core_client_write:
  assumes c: "buddy_core b F A {}"
    and w: "\<And>y. h y \<noteq> ba_hdr b y \<Longrightarrow> order_to_size 14 \<le> y \<or>
       (\<exists>(x, k)\<in>A. x < y \<and> y < x + order_to_size k)"
  shows "buddy_core (b\<lparr>ba_hdr := h\<rparr>) F A {}"
proof (rule core_hdr_cong[OF c _ _ c c])
  fix y j assume y: "(y, j) \<in> A \<union> free_set F"
  show "h y = ba_hdr b y"
  proof (rule ccontr)
    assume "h y \<noteq> ba_hdr b y"
    moreover have "y < order_to_size 14"
      using core_in_pool(1)[OF c, of y j] y order_to_size_pos[of j] unfolding order_to_size_14
      by (metis Un_empty_right add_lessD1 le_neq_implies_less less_add_same_cancel1 order_less_le_trans)
    ultimately obtain x k where xk: "(x, k) \<in> A" "x < y" "y < x + order_to_size k"
      using w[of y] by auto
    then have "blk_range order_to_size (x, k) \<inter> blk_range order_to_size (y, j) = {}"
      using tiling_disjoint[OF coreD(10)[OF c], of "(x, k)" "(y, j)"] y by auto
    moreover have "y \<in> blk_range order_to_size (x, k)" "y \<in> blk_range order_to_size (y, j)"
      using xk by (auto simp: blk_range_def)
    ultimately show False by blast
  qed
qed auto

lemma first_list:
  "(\<forall>i. k \<le> i \<and> i \<le> 14 \<longrightarrow> F i = []) \<or>
   (\<exists>j x xs. k \<le> j \<and> j \<le> 14 \<and> F j = x # xs \<and> (\<forall>i. k \<le> i \<and> i < j \<longrightarrow> F i = []))"
  for F :: "nat \<Rightarrow> 'a list"
proof (cases "\<exists>j. k \<le> j \<and> j \<le> 14 \<and> F j \<noteq> []")
  case True
  define j where "j = (LEAST j. k \<le> j \<and> j \<le> 14 \<and> F j \<noteq> [])"
  have j: "k \<le> j \<and> j \<le> 14 \<and> F j \<noteq> []" using True unfolding j_def by (rule LeastI_ex)
  have "F i = []" if "k \<le> i \<and> i < j" for i
    using not_less_Least[of i "\<lambda>j. k \<le> j \<and> j \<le> 14 \<and> F j \<noteq> []"] that j unfolding j_def by auto
  with j show ?thesis by (metis neq_Nil_conv)
qed auto

text \<open>The outcome of an allocation in a state that satisfies the invariant.\<close>

lemma buddy_alloc_cases:
  assumes c: "buddy_core b F A {}" and k: "k = size_to_order (n + 24)"
  obtains (fail) b' where "buddy_alloc b n = (None, b')" "buddy_core b' F A {}"
      "n = 0 \<or> BUDDY_POOL_SIZE < n + 24 \<or> (\<forall>i. k \<le> i \<and> i \<le> 14 \<longrightarrow> F i = [])"
  | (ok) j x xs b' where "buddy_alloc b n = (Some (x + 24), b')" "k \<le> j" "j \<le> 14" "F j = x # xs"
      "0 < n" "x + 24 + n \<le> BUDDY_POOL_SIZE"
      "buddy_core b' (alloc_lists F k j) (insert (x, k) A) {}"
proof (cases "n = 0")
  case True
  then show thesis using c by (intro fail[of b]) (auto simp: buddy_alloc_def)
next
  case n: False
  show thesis
  proof (cases "n + 24 \<le> BUDDY_POOL_SIZE")
    case False
    then show thesis using buddy_alloc_too_big[OF c, of n] fail by auto
  next
    case fits: True
    consider "\<forall>i. k \<le> i \<and> i \<le> 14 \<longrightarrow> F i = []" |
      j x xs where "k \<le> j" "j \<le> 14" "F j = x # xs" "\<forall>i. k \<le> i \<and> i < j \<longrightarrow> F i = []"
      using first_list[of k F] by blast
    then show thesis
    proof cases
      case 1
      then show thesis using buddy_alloc_empty[OF c k] c by (intro fail[of b]) auto
    next
      case 2
      have n0: "0 < n" using n by simp
      have e: "\<And>i. k \<le> i \<Longrightarrow> i < j \<Longrightarrow> F i = []" using 2(4) by blast
      show thesis
        using buddy_alloc_spec[OF c n0 k 2(1-3) e fits] ok[of x _ j xs] 2(1-3) n0 by blast
    qed
  qed
qed

lemma run_core: "buddy_run b A \<Longrightarrow> \<exists>F. buddy_core b F A {} \<and> coalesced F"
proof (induction rule: buddy_run.induct)
  case (run_init huge mal b0 b)
  have "coalesced ((\<lambda>_. [])(14 := [0]))" by (auto simp: coalesced_def)
  then show ?case using buddy_init_core[OF run_init] by blast
next
  case (run_alloc b A n p b')
  then obtain F where F: "buddy_core b F A {}" "coalesced F" by blast
  show ?case
  proof (rule buddy_alloc_cases[OF F(1) refl, of n], goal_cases fail ok)
    case (ok j x xs b'')
    then show ?case using run_alloc.hyps(2) coalesced_alloc[OF F(1) ok(2-4) F(2)]
      by (auto simp: sizeof_buddy_block_def)
  qed (use run_alloc.hyps(2) in auto)
next
  case (run_alloc_fail b A n b')
  then obtain F where F: "buddy_core b F A {}" "coalesced F" by blast
  show ?case
    by (rule buddy_alloc_cases[OF F(1) refl, of n]) (use run_alloc_fail.hyps(2) F(2) in auto)
next
  case (run_free b A x k b')
  then obtain F where F: "buddy_core b F A {}" "coalesced F" by blast
  show ?case using buddy_free_spec[OF F(1) run_free.hyps(2)] run_free.hyps(3) F(2)
    by (auto simp: sizeof_buddy_block_def)
next
  case (run_write b A h)
  then show ?case using core_client_write by blast
qed

section \<open>The free lists cannot be corrupted\<close>

text \<open>
  C2. In every state the allocator reaches, whatever the client wrote into its payloads, the free
  lists are proper lists of blocks with truthful headers, the blocks handed out are marked as such,
  free and allocated blocks together tile the 64 MB of the initial block without gap or overlap,
  and no two free buddies are left unmerged.
\<close>

theorem buddy_run_invariant:
  "buddy_run b A \<Longrightarrow> \<exists>F. buddy_rep b F A \<and> coalesced F"
  using run_core by (simp add: buddy_rep_def)

text \<open>An allocator struct and a pool with arbitrary old contents, and its initialisation.\<close>

definition stale_buddy :: buddy_allocator where
  "stale_buddy = \<lparr>ba_memory = None, ba_total_size = 0, ba_free_lists = (\<lambda>_. None),
      ba_hdr = (\<lambda>_. \<lparr>bb_next = Some 7, bb_order = 99, bb_is_free = True\<rparr>), ba_num_allocations = 5,
      ba_num_frees = 5, ba_num_coalesces = 5, ba_uses_huge_pages = True\<rparr>"

definition fresh_buddy :: buddy_allocator where
  "fresh_buddy = snd (buddy_init None (Some 4096) stale_buddy)"

lemma fresh_buddy_run: "buddy_run fresh_buddy {}"
  unfolding fresh_buddy_def
  by (rule run_init[of None "Some 4096" stale_buddy]) (simp add: buddy_init_def Let_def)

text \<open>One block of order 1 allocated, then one of order 0.\<close>

lemma small_orders: "size_to_order 5024 = 1" "size_to_order 124 = 0"
  by (simp_all add: size_to_order_def size_to_order_loop.simps buddy_consts)

lemma one_block_core:
  "\<exists>b. buddy_alloc fresh_buddy 5000 = (Some 24, b) \<and> buddy_run b {(0, 1)} \<and>
     buddy_core b (alloc_lists ((\<lambda>_. [])(14 := [0])) 1 14) {(0, 1)} {}"
proof -
  have c: "buddy_core fresh_buddy ((\<lambda>_. [])(14 := [0])) {} {}"
    unfolding fresh_buddy_def
    by (rule buddy_init_core[of None "Some 4096" stale_buddy]) (simp add: buddy_init_def Let_def)
  have "0 < (5000::nat)" "(1::nat) = size_to_order (5000 + 24)" "5000 + 24 \<le> BUDDY_POOL_SIZE"
    using small_orders by (simp_all add: BUDDY_POOL_SIZE_def)
  then obtain b where b: "buddy_alloc fresh_buddy 5000 = (Some 24, b)"
    "buddy_core b (alloc_lists ((\<lambda>_. [])(14 := [0])) 1 14) {(0, 1)} {}"
    using buddy_alloc_spec(1)[OF c, of 5000 1 14 0 "[]"] by auto
  then show ?thesis
    using run_alloc[OF fresh_buddy_run b(1)] small_orders by (auto simp: sizeof_buddy_block_def)
qed

lemma one_block: "\<exists>b. buddy_alloc fresh_buddy 5000 = (Some 24, b) \<and> buddy_run b {(0, 1)}"
  using one_block_core by blast

lemma two_blocks:
  assumes "buddy_core b (alloc_lists ((\<lambda>_. [])(14 := [0])) 1 14) {(0, 1)} {}"
  shows "\<exists>b'. buddy_alloc b 100 = (Some 8216, b')"
proof -
  have l: "alloc_lists ((\<lambda>_. [])(14 := [0])) 1 14 1 = [8192]" "alloc_lists ((\<lambda>_. [])(14 := [0])) 1 14 0 = []"
    by (simp_all add: alloc_lists_def order_to_size_eq)
  have "0 < (100::nat)" "(0::nat) = size_to_order (100 + 24)" "100 + 24 \<le> BUDDY_POOL_SIZE"
    using small_orders by (simp_all add: BUDDY_POOL_SIZE_def)
  then show ?thesis using buddy_alloc_spec(1)[OF assms, of 100 0 1 8192 "[]"] l by auto
qed

theorem buddy_run_invariant_witness: "\<exists>b F. buddy_rep b F {(0, 1)} \<and> coalesced F"
  using one_block buddy_run_invariant[of _ "{(0, 1)}"] by blast

section \<open>Allocations are disjoint and inside the pool\<close>

lemma alloc_payload_disjoint:
  assumes "buddy_run b A" "buddy_alloc b n = (Some p, b')"
  shows "sizeof_buddy_block \<le> p \<and> p + n \<le> BUDDY_POOL_SIZE \<and>
    (\<forall>a\<in>A. blk_range order_to_size a \<inter> {p - sizeof_buddy_block..<p + n} = {})"
proof -
  obtain F where c: "buddy_core b F A {}" using run_core[OF assms(1)] by blast
  show ?thesis
  proof (rule buddy_alloc_cases[OF c refl, of n], goal_cases fail ok)
    case (ok j x xs b'')
    let ?k = "size_to_order (n + 24)"
    have c': "buddy_core b'' (alloc_lists F ?k j) (insert (x, ?k) A) {}" using ok by blast
    have p: "p = x + 24" using ok(1) assms(2) by simp
    have disj: "blk_range order_to_size a \<inter> blk_range order_to_size (x, ?k) = {}" if a: "a \<in> A" for a
    proof -
      have "(x, j) \<in> free_set F" using ok(3,4) by simp
      then have "\<not> (bb_is_free (ba_hdr b x) \<and> (x, ?k) \<in> A)" "bb_is_free (ba_hdr b x)"
        using coreD(7)[OF c, of x] coreD(5)[OF c, of j x] by auto
      then have "a \<noteq> (x, ?k)" using a by auto
      then show ?thesis using tiling_disjoint[OF coreD(10)[OF c'], of a "(x, ?k)"] a by auto
    qed
    have rng: "blk_range order_to_size a \<inter> {x..<x + 24 + n} = {}" if a: "a \<in> A" for a
    proof (cases "?k = 14")
      case False
      then have "n + 24 \<le> order_to_size ?k" using size_to_order_spec(2)[of "n + 24"] by simp
      then have "{x..<x + 24 + n} \<subseteq> blk_range order_to_size (x, ?k)" by (auto simp: blk_range_def)
      with disj[OF a] show ?thesis by blast
    next
      case True
      have "x + order_to_size 14 \<le> 67108864" using core_in_pool(1)[OF c', of x ?k] True by simp
      then have x0: "x = 0" by (simp add: order_to_size_14)
      have "snd a \<le> 14" "fst a + order_to_size (snd a) \<le> 67108864"
        using core_in_pool[OF c', of "fst a" "snd a"] a by auto
      then have "fst a \<in> blk_range order_to_size (x, ?k)" "fst a \<in> blk_range order_to_size a"
        using x0 True order_to_size_pos[of "snd a"] order_to_size_14
        by (auto simp: blk_range_def simp del: order_to_size_pos)
      with disj[OF a] show ?thesis by blast
    qed
    show ?case using p ok(6) rng by (simp add: sizeof_buddy_block_def)
  qed (use assms(2) in auto)
qed

text \<open>
  C5. A successful allocation returns a payload inside the pool that overlaps no block the client
  already holds, nor its own header; this includes the requests of more than 64 MB that
  \<open>size_to_order\<close> clamps to the largest order.
\<close>

theorem buddy_alloc_disjoint:
  assumes "buddy_run b A" "buddy_alloc b n = (Some p, b')"
  shows "sizeof_buddy_block \<le> p \<and> p + n \<le> BUDDY_POOL_SIZE \<and>
    (\<forall>a\<in>A. blk_range order_to_size a \<inter> {p - sizeof_buddy_block..<p + n} = {})"
  using assms by (rule alloc_payload_disjoint)

theorem buddy_alloc_disjoint_witness:
  "\<exists>b b'. buddy_alloc b 100 = (Some 8216, b') \<and> buddy_run b {(0, 1)} \<and>
     sizeof_buddy_block \<le> 8216 \<and> 8216 + 100 \<le> BUDDY_POOL_SIZE \<and>
     (\<forall>a\<in>{(0, 1)}. blk_range order_to_size a \<inter> {8216 - sizeof_buddy_block..<8216 + 100} = {})"
proof -
  obtain b where b: "buddy_run b {(0, 1)}"
      "buddy_core b (alloc_lists ((\<lambda>_. [])(14 := [0])) 1 14) {(0, 1)} {}"
    using one_block_core by blast
  obtain b' where b': "buddy_alloc b 100 = (Some 8216, b')" using two_blocks[OF b(2)] by blast
  show ?thesis using buddy_alloc_disjoint[OF b(1) b'] b b' by blast
qed

section \<open>Allocation fails only when there is no room\<close>

text \<open>
  C6. An allocation of at least one byte that fits the pool fails exactly if every aligned block of
  the order the request rounds up to overlaps a block the client holds: coalescing never leaves
  usable space unreachable.
\<close>

theorem buddy_alloc_complete:
  assumes run: "buddy_run b A" and n: "0 < n" "n + sizeof_buddy_block \<le> BUDDY_POOL_SIZE"
    and k: "k = size_to_order (n + sizeof_buddy_block)"
  shows "fst (buddy_alloc b n) = None \<longleftrightarrow>
    (\<forall>x. wf_blk order_to_size 14 (x, k) \<longrightarrow>
       (\<exists>a\<in>A. blk_range order_to_size a \<inter> blk_range order_to_size (x, k) \<noteq> {}))"
proof -
  obtain F where c: "buddy_core b F A {}" and co: "coalesced F" using run_core[OF run] by blast
  have k24: "k = size_to_order (n + 24)" using k by (simp add: sizeof_buddy_block_def)
  show ?thesis
  proof (rule buddy_alloc_cases[OF c k24], goal_cases fail ok)
    case (fail b')
    have empty: "\<forall>i. k \<le> i \<and> i \<le> 14 \<longrightarrow> F i = []"
      using fail(3) n by (auto simp: sizeof_buddy_block_def)
    have "\<exists>a\<in>A. blk_range order_to_size a \<inter> blk_range order_to_size (x, k) \<noteq> {}"
      if wf: "wf_blk order_to_size 14 (x, k)" for x
    proof (rule ccontr)
      assume "\<not> ?thesis"
      then obtain y j where "(y, j) \<in> free_set F" "k \<le> j"
        using hb.free_space_is_block[of A "free_set F" x k] coreD(10)[OF c] co wf
        by (auto simp: coalesced_def)
      then show False using empty core_in_pool(2)[OF c, of y j] by (auto simp: free_set_def)
    qed
    then show ?case using fail(1) by simp
  next
    case (ok j x xs b')
    have wf: "wf_blk order_to_size 14 (x, k)" using core_wf[OF ok(7)] by simp
    have "blk_range order_to_size a \<inter> blk_range order_to_size (x, k) = {}" if a: "a \<in> A" for a
    proof -
      have "(x, j) \<in> free_set F" using ok(3,4) by simp
      then have "\<not> (bb_is_free (ba_hdr b x) \<and> (x, k) \<in> A)" "bb_is_free (ba_hdr b x)"
        using coreD(7)[OF c, of x] coreD(5)[OF c, of j x] by auto
      then show ?thesis
        using tiling_disjoint[OF coreD(10)[OF ok(7)], of a "(x, k)"] a by auto
    qed
    with wf have "\<not> (\<forall>x. wf_blk order_to_size 14 (x, k) \<longrightarrow>
       (\<exists>a\<in>A. blk_range order_to_size a \<inter> blk_range order_to_size (x, k) \<noteq> {}))"
      by blast
    then show ?case using ok(1) by simp
  qed
qed

theorem buddy_alloc_complete_witness:
  "fst (buddy_alloc fresh_buddy 5000) = None \<longleftrightarrow>
    (\<forall>x. wf_blk order_to_size 14 (x, size_to_order 5024) \<longrightarrow>
       (\<exists>a\<in>({} :: blk set). blk_range order_to_size a \<inter> blk_range order_to_size (x, size_to_order 5024) \<noteq> {}))"
  using buddy_alloc_complete[OF fresh_buddy_run, of 5000 "size_to_order 5024"]
  by (simp add: sizeof_buddy_block_def BUDDY_POOL_SIZE_def)

section \<open>Fragmentation\<close>

lemma frag_walk_spec:
  "linked (next_of b) p xs \<Longrightarrow>
     frag_walk b bs p t l = Some (t + length xs * bs, if xs = [] then l else max l bs)"
proof (induction xs arbitrary: p t l)
  case Nil
  then show ?case by (subst frag_walk.simps) simp
next
  case (Cons x xs)
  then show ?case
    by (subst frag_walk.simps) (auto simp: next_of_def max_def)
qed

lemma frag_orders_spec:
  assumes "\<And>k. k \<in> set ks \<Longrightarrow> linked (next_of b) (ba_free_lists b k) (F k)" "l \<le> t" "t = 0 \<or> 0 < l"
  shows "\<exists>t' l'. frag_orders b ks t l = Some (t', l') \<and> l' \<le> t' \<and> (t' = 0 \<or> 0 < l')"
  using assms
proof (induction ks arbitrary: t l)
  case (Cons k ks)
  let ?t = "t + length (F k) * order_to_size k"
  let ?l = "if F k = [] then l else max l (order_to_size k)"
  have w: "frag_walk b (order_to_size k) (ba_free_lists b k) t l = Some (?t, ?l)"
    using Cons.prems(1)[of k] by (intro frag_walk_spec) simp
  have "?l \<le> ?t"
  proof (cases "F k")
    case (Cons y ys)
    have "order_to_size k \<le> length (F k) * order_to_size k" using Cons by simp
    then show ?thesis using Cons \<open>l \<le> t\<close> by auto
  qed (use \<open>l \<le> t\<close> in simp)
  moreover have "?t = 0 \<or> 0 < ?l" using Cons.prems(3) by (auto simp: max_def)
  ultimately show ?case using Cons.IH[of ?l ?t] Cons.prems(1) w by simp
qed simp

lemma fragmentation_defined:
  assumes "buddy_run b A"
  shows "\<exists>q. buddy_get_fragmentation b = Some q \<and> 0 \<le> q \<and> q < 1"
proof -
  obtain F where c: "buddy_core b F A {}" using run_core[OF assms] by blast
  obtain t l where "frag_orders b [0..<15] 0 0 = Some (t, l)" "l \<le> t" "t = 0 \<or> 0 < l"
    using frag_orders_spec[of "[0..<15]" b F 0 0] coreD(3)[OF c] by auto
  then show ?thesis by (auto simp: buddy_get_fragmentation_def divide_le_eq)
qed

text \<open>
  The fragmentation measure terminates in every reachable state and lies between 0 and 1, never
  reaching 1.
\<close>

theorem buddy_fragmentation_bounds:
  assumes "buddy_run b A"
  shows "\<exists>q. buddy_get_fragmentation b = Some q \<and> 0 \<le> q \<and> q < 1"
  using assms by (rule fragmentation_defined)

theorem buddy_fragmentation_bounds_witness:
  "\<exists>b q. buddy_run b {(0, 1)} \<and> buddy_get_fragmentation b = Some q \<and> 0 \<le> q \<and> q < 1"
  using one_block buddy_fragmentation_bounds[of _ "{(0, 1)}"] by blast

section \<open>Freeing\<close>

text \<open>
  C7. Once the client has returned everything, in whatever order, coalescing has rebuilt the initial
  block: it is the only block on the lists, and fragmentation is 0.
\<close>

theorem buddy_all_freed:
  assumes "buddy_run b {}"
  shows "(\<forall>k<BUDDY_NUM_ORDERS. ba_free_lists b k = (if k = 14 then Some 0 else None)) \<and>
    ba_hdr b 0 = \<lparr>bb_next = None, bb_order = 14, bb_is_free = True\<rparr> \<and>
    buddy_get_fragmentation b = Some 0"
proof -
  obtain F where c: "buddy_core b F {} {}" and co: "coalesced F" using run_core[OF assms] by blast
  have whole: "free_set F = {(0, 14)}"
    using hb.coalesced_is_whole[of "free_set F"] coreD(10)[OF c] co by (auto simp: coalesced_def)
  have e: "F k = []" if "k < 14" for k
  proof -
    have "(y, k) \<notin> free_set F" for y using whole that by simp
    then show ?thesis using that by (cases "F k") (auto simp: all_conj_distrib)
  qed
  have d: "distinct (F 14)" using linked_distinct[OF coreD(3)[OF c]] by simp
  have s: "set (F 14) = {0}" using whole by (auto simp: free_set_def)
  have F14: "F 14 = [0]"
  proof (cases "F 14")
    case (Cons y ys)
    then have "set ys \<subseteq> {0}" "y = 0" "0 \<notin> set ys" using d s by auto
    then show ?thesis using Cons by (cases ys) auto
  qed (use s in simp)
  have heads: "ba_free_lists b k = (if k = 14 then Some 0 else None)" if "k < 15" for k
    using coreD(3)[OF c that] e[of k] F14 that by (cases "k = 14") auto
  have nx: "bb_next (ba_hdr b 0) = None"
    using coreD(3)[OF c, of 14] F14 by (simp add: next_of_def)
  have hdr: "ba_hdr b 0 = \<lparr>bb_next = None, bb_order = 14, bb_is_free = True\<rparr>"
    using nx coreD(4,5)[OF c, of 14 0] F14 by (cases "ba_hdr b 0") simp
  have up: "[0..<15] = [0..<14] @ [14::nat]" using upt_Suc_append[of 0 14] by simp
  have small: "frag_orders b (ks @ [14]) 0 0 = Some (order_to_size 14, order_to_size 14)"
    if "\<forall>k\<in>set ks. k < 14" for ks
    using that
  proof (induction ks)
    case Nil
    then show ?case using heads[of 14] frag_walk_spec[of b "Some 0" "[0]" "order_to_size 14" 0 0] nx
      by (simp add: next_of_def)
  next
    case (Cons k ks)
    then show ?case using heads[of k] frag_walk_spec[of b None "[]" "order_to_size k" 0 0] by simp
  qed
  have "buddy_get_fragmentation b = Some 0"
    using small[of "[0..<14]"] unfolding buddy_get_fragmentation_def NUM_ORDERS up
    by (simp del: upt_Suc upt_rec_numeral)
  with heads hdr show ?thesis by simp
qed

lemma coalesce_keeps:
  assumes "buddy_coalesce b x = Some (m, b')"
  shows "(bb_is_free (ba_hdr b y) \<longrightarrow> bb_is_free (ba_hdr b' y)) \<and> ba_memory b' = ba_memory b \<and>
    ba_total_size b' = ba_total_size b \<and> ba_num_frees b' = ba_num_frees b"
  using assms
proof (induction b x rule: buddy_coalesce.induct)
  case (1 b x)
  have sc: "bb_is_free (ba_hdr (store_cursor k c p b) y) = bb_is_free (ba_hdr b y)"
    "ba_memory (store_cursor k c p b) = ba_memory b"
    "ba_total_size (store_cursor k c p b) = ba_total_size b"
    "ba_num_frees (store_cursor k c p b) = ba_num_frees b" for k c p
    by (cases c; simp add: set_hdr_def set_head_def)+
  have mb: "bb_is_free (ba_hdr c y) \<Longrightarrow> bb_is_free (ba_hdr (snd (merge_blocks x z c)) y)"
    "ba_memory (snd (merge_blocks x z c)) = ba_memory c"
    "ba_total_size (snd (merge_blocks x z c)) = ba_total_size c"
    "ba_num_frees (snd (merge_blocks x z c)) = ba_num_frees c" for z c
    by (auto simp: merge_blocks_def Let_def set_hdr_def)
  show ?case
  proof (cases "buddy_coalesce b x = Some (x, b)")
    case True
    then show ?thesis using "1.prems" by simp
  next
    case False
    let ?k = "bb_order (ba_hdr b x)"
    have k: "\<not> ?k \<ge> BUDDY_NUM_ORDERS - 1"
      using False by (subst (asm) buddy_coalesce.simps) (auto simp: Let_def)
    obtain z where z: "get_buddy_address b x = Some z"
      using False k by (subst (asm) buddy_coalesce.simps) (auto simp: Let_def split: option.splits)
    have fz: "\<not> (\<not> bb_is_free (ba_hdr b z) \<or> bb_order (ba_hdr b z) \<noteq> ?k)"
      using False k z by (subst (asm) buddy_coalesce.simps) (simp add: Let_def split: if_splits)
    obtain c where c: "find_cursor b ?k z Head = Some (Some c)"
      using False k z fz "1.prems" unfolding buddy_coalesce.simps[of b x]
      by (auto simp: Let_def split: option.splits)
    let ?r = "merge_blocks x z (store_cursor ?k c (bb_next (ba_hdr b z)) b)"
    have eq: "buddy_coalesce b x = (if bb_order (ba_hdr (snd ?r) (fst ?r)) \<ge> BUDDY_NUM_ORDERS - 1
        then Some ?r else buddy_coalesce (snd ?r) (fst ?r))"
      using k z fz c by (subst buddy_coalesce.simps) (simp add: Let_def)
    show ?thesis
    proof (cases "bb_order (ba_hdr (snd ?r) (fst ?r)) \<ge> BUDDY_NUM_ORDERS - 1")
      case True
      then have "b' = snd ?r" using eq "1.prems" by (metis option.inject snd_conv)
      then show ?thesis using mb sc by simp
    next
      case nf: False
      then have "(bb_is_free (ba_hdr (snd ?r) y) \<longrightarrow> bb_is_free (ba_hdr b' y)) \<and>
          ba_memory b' = ba_memory (snd ?r) \<and> ba_total_size b' = ba_total_size (snd ?r) \<and>
          ba_num_frees b' = ba_num_frees (snd ?r)"
        using "1.IH"[OF refl k z fz c refl refl refl nf] eq "1.prems" by simp
      then show ?thesis using mb sc by simp
    qed
  qed
qed

lemma double_free_noop:
  assumes "buddy_free b p = Some b'"
  shows "buddy_free b' p = Some b'"
proof (cases "b' = b")
  case False
  obtain q where p: "p = Some q" using assms False by (cases p) (auto simp: buddy_free_def)
  let ?x = "nat (q - 24)"
  let ?b2 = "(set_hdr ?x ((ba_hdr b ?x)\<lparr>bb_is_free := True\<rparr>) b)\<lparr>ba_num_frees := ba_num_frees b + 1\<rparr>"
  have "\<exists>m b3. buddy_coalesce ?b2 ?x = Some (m, b3) \<and>
      (b' = b3 \<or> (\<exists>k n. b' = set_head k (Some m) (set_hdr m ((ba_hdr b3 m)\<lparr>bb_next := n\<rparr>) b3)))"
  proof -
    have guards: "ba_memory b \<noteq> None" "0 \<le> q - 24" "q - 24 < int (ba_total_size b)"
      "\<not> bb_is_free (ba_hdr b ?x)" "bb_order (ba_hdr b ?x) < 15"
      using assms False p by (auto simp: buddy_free_def Let_def sizeof_buddy_block_def split: if_splits)
    then have eq: "buddy_free b p = (case buddy_coalesce ?b2 ?x of None \<Rightarrow> None
        | Some (m, b3) \<Rightarrow> let k = bb_order (ba_hdr b3 m) in if k \<ge> BUDDY_NUM_ORDERS then Some b3
            else Some (set_head k (Some m) (set_hdr m ((ba_hdr b3 m)\<lparr>bb_next := ba_free_lists b3 k\<rparr>) b3)))"
      using p by (auto simp: buddy_free_def sizeof_buddy_block_def set_hdr_def Let_def)
    obtain m b3 where b3: "buddy_coalesce ?b2 ?x = Some (m, b3)"
      using eq assms by (cases "buddy_coalesce ?b2 ?x") auto
    show ?thesis
      using eq assms b3 by (intro exI[of _ m] exI[of _ b3]) (auto simp: Let_def split: if_splits)
  qed
  then obtain m b3 where b3: "buddy_coalesce ?b2 ?x = Some (m, b3)"
    and b': "b' = b3 \<or> (\<exists>k n. b' = set_head k (Some m) (set_hdr m ((ba_hdr b3 m)\<lparr>bb_next := n\<rparr>) b3))"
    by blast
  have "bb_is_free (ba_hdr b3 ?x)" using coalesce_keeps[OF b3, of ?x] by (simp add: set_hdr_def)
  then have "bb_is_free (ba_hdr b' ?x)" using b' by (auto simp: set_head_def set_hdr_def)
  then show ?thesis using p by (auto simp: buddy_free_def sizeof_buddy_block_def Let_def)
qed (use assms in simp)

text \<open>
  Freeing a block the client holds terminates, is counted, and a second free of the same
  pointer right after it is detected and changes nothing, even if the header was merged away.
\<close>

theorem buddy_free_once:
  assumes run: "buddy_run b A" and a: "(x, k) \<in> A"
  shows "\<exists>b'. buddy_free b (Some (int (x + sizeof_buddy_block))) = Some b' \<and>
    buddy_run b' (A - {(x, k)}) \<and>
    buddy_free b' (Some (int (x + sizeof_buddy_block))) = Some b'"
proof -
  obtain F where c: "buddy_core b F A {}" using run_core[OF run] by blast
  obtain b' where b': "buddy_free b (Some (int (x + sizeof_buddy_block))) = Some b'"
    using buddy_free_spec[OF c a] by (auto simp: sizeof_buddy_block_def)
  show ?thesis using b' run_free[OF run a b'] double_free_noop[OF b'] by blast
qed

theorem buddy_free_once_witness:
  "\<exists>b b'. buddy_run b {(0, 1)} \<and> buddy_free b (Some 24) = Some b' \<and> buddy_run b' {} \<and>
     buddy_free b' (Some 24) = Some b'"
proof -
  obtain b where "buddy_run b {(0, 1)}" using one_block by blast
  then show ?thesis using buddy_free_once[of b "{(0, 1)}" 0 1] by (auto simp: sizeof_buddy_block_def)
qed

theorem buddy_all_freed_witness:
  "\<exists>b b'. buddy_run b {(0, 1)} \<and> buddy_free b (Some 24) = Some b' \<and>
     ba_free_lists b' 14 = Some 0 \<and> buddy_get_fragmentation b' = Some 0"
proof -
  obtain b where b: "buddy_run b {(0, 1)}" using one_block by blast
  obtain F where "buddy_core b F {(0, 1)} {}" using run_core[OF b] by blast
  then obtain b' where b': "buddy_free b (Some 24) = Some b'"
    using buddy_free_spec[of b F "{(0, 1)}" 0 1] by auto
  have run: "buddy_run b' {}" using run_free[OF b, of 0 1 b'] b' by (auto simp: sizeof_buddy_block_def)
  show ?thesis using buddy_all_freed[OF run] b b' by auto
qed

end
