(* ===== verification/Heap_Slab.thy ===== *)
theory Heap_Slab
  imports LGX_Prelude
begin

text \<open>
  The slabs of the persistent heap (\<^verbatim>\<open>src/runtime/lgx_persistent_heap.c\<close>:
  \<open>allocate_slab\<close>, \<open>slab_alloc\<close>, \<open>slab_free\<close>). A slab is 2 MB of memory cut into objects of one
  size; a bitmap with one bit per object says which are in use. Addresses are \<open>nat\<close>; the bitmap is a
  list of bytes and is read and written with the source's shifts and masks.

  The locale \<open>object_pool\<close> states the contract of a pool of equal objects: taking returns an object
  nobody holds, fails only if all are held, and giving back undoes it. The slab implements it.
\<close>

section \<open>Pools of objects\<close>

locale object_pool =
  fixes take_obj :: "'s \<Rightarrow> 'p option \<times> 's"
    and give_obj :: "'s \<Rightarrow> 'p \<Rightarrow> bool \<times> 's"
    and inv :: "'s \<Rightarrow> bool"
    and live :: "'s \<Rightarrow> 'p set"
    and universe :: "'s \<Rightarrow> 'p set"
  assumes finite_universe: "inv s \<Longrightarrow> finite (universe s)"
    and live_sub: "inv s \<Longrightarrow> live s \<subseteq> universe s"
    and take_Some: "inv s \<Longrightarrow> take_obj s = (Some p, s') \<Longrightarrow>
          p \<in> universe s - live s \<and> inv s' \<and> live s' = insert p (live s) \<and> universe s' = universe s"
    and take_None: "inv s \<Longrightarrow> take_obj s = (None, s') \<Longrightarrow> live s = universe s \<and> s' = s"
    and give_live: "inv s \<Longrightarrow> p \<in> live s \<Longrightarrow> \<exists>s'. give_obj s p = (True, s') \<and> inv s' \<and>
          live s' = live s - {p} \<and> universe s' = universe s"
    and give_other: "inv s \<Longrightarrow> p \<notin> live s \<Longrightarrow> give_obj s p = (False, s)"
begin

fun take_many :: "nat \<Rightarrow> 's \<Rightarrow> 'p list \<times> 's" where
  "take_many 0 s = ([], s)"
| "take_many (Suc n) s =
     (case take_obj s of (None, s') \<Rightarrow> ([], s')
      | (Some p, s') \<Rightarrow> (case take_many n s' of (ps, s'') \<Rightarrow> (p # ps, s'')))"

text \<open>Taking \<open>n\<close> objects in a row yields distinct objects, as many as there are left.\<close>

lemma take_many_fresh:
  assumes "inv s" "take_many n s = (ps, s')"
  shows "inv s' \<and> distinct ps \<and> set ps \<inter> live s = {} \<and> live s' = live s \<union> set ps \<and>
    universe s' = universe s \<and> length ps = min n (card (universe s - live s))"
  using assms
proof (induction n arbitrary: s ps)
  case (Suc n)
  show ?case
  proof (cases "take_obj s")
    case (Pair r s1)
    show ?thesis
    proof (cases r)
      case None
      then show ?thesis using Suc.prems Pair take_None[OF Suc.prems(1)] by auto
    next
      case (Some p)
      obtain qs where qs: "take_many n s1 = (qs, s')" "ps = p # qs"
        using Suc.prems(2) Pair Some by (auto split: prod.splits)
      note t = take_Some[OF Suc.prems(1), of p s1]
      have s1: "inv s1" "live s1 = insert p (live s)" "universe s1 = universe s"
        "p \<in> universe s" "p \<notin> live s"
        using t Pair Some by auto
      note IH = Suc.IH[OF s1(1) qs(1)]
      have "universe s - live s = insert p (universe s1 - live s1)" using s1 by auto
      moreover have "finite (universe s1 - live s1)" "p \<notin> universe s1 - live s1"
        using finite_universe[OF s1(1)] s1(2) by auto
      ultimately have "card (universe s - live s) = Suc (card (universe s1 - live s1))" by simp
      then show ?thesis using IH qs s1 by auto
    qed
  qed
qed auto

text \<open>Giving back what was just taken restores the set of held objects.\<close>

lemma take_give:
  assumes "inv s" "take_obj s = (Some p, s')"
  shows "\<exists>s''. give_obj s' p = (True, s'') \<and> inv s'' \<and> live s'' = live s"
  using take_Some[OF assms] give_live[of s' p] by auto

lemma give_twice:
  assumes "inv s" "p \<in> live s" "give_obj s p = (True, s')"
  shows "give_obj s' p = (False, s')"
  using give_live[OF assms(1,2)] assms(3) give_other[of s' p] by auto

end

section \<open>State\<close>

definition SLAB_SIZE :: nat where "SLAB_SIZE = 2 * 1024 * 1024"

record slab =
  sl_memory :: "nat option"
  sl_object_size :: nat
  sl_capacity :: nat
  sl_used :: nat
  sl_bitmap :: "u8 list option"
  sl_uses_huge_pages :: bool

text \<open>What the four allocation calls of \<open>allocate_slab\<close> return.\<close>

record slab_env =
  se_struct :: bool
  se_hugepages :: "nat option"
  se_malloc :: "nat option"
  se_calloc :: bool

text \<open>How the memory of a slab is given back: by \<open>free\<close> or by \<open>lgx_hugepages_free\<close>.\<close>

datatype release = Libc_free nat | Hugepages_free nat

section \<open>Operations\<close>

definition allocate_slab :: "slab_env \<Rightarrow> nat \<Rightarrow> slab option \<times> release list" where
  "allocate_slab e object_size =
     (if object_size = 0 then (None, [])
      else if object_size > SLAB_SIZE then (None, [])
      else if object_size AND (object_size - 1) \<noteq> 0 then (None, [])
      else if \<not> se_struct e then (None, [])
      else
        let (mem, huge) = (case se_hugepages e of
                             Some m \<Rightarrow> (Some m, True) | None \<Rightarrow> (se_malloc e, False))
        in (case mem of
              None \<Rightarrow> (None, [])
            | Some m \<Rightarrow>
                let capacity = SLAB_SIZE div object_size
                in if capacity = 0 \<or> capacity > SLAB_SIZE then (None, [Libc_free m])
                   else
                     let bitmap_size = (capacity + 7) div 8
                     in if bitmap_size > SLAB_SIZE div 8 then (None, [Libc_free m])
                        else if \<not> se_calloc e then (None, [Libc_free m])
                        else (Some \<lparr>sl_memory = Some m, sl_object_size = object_size,
                                     sl_capacity = capacity, sl_used = 0,
                                     sl_bitmap = Some (replicate bitmap_size 0),
                                     sl_uses_huge_pages = huge\<rparr>, [])))"

definition free_slab :: "slab \<Rightarrow> release list" where
  "free_slab s =
     (case sl_memory s of
        None \<Rightarrow> []
      | Some m \<Rightarrow> if sl_uses_huge_pages s then [Hugepages_free m] else [Libc_free m])"

text \<open>The scan of \<open>slab_alloc\<close> from index \<open>i\<close>.\<close>

function slab_scan :: "slab \<Rightarrow> nat \<Rightarrow> u8 list \<Rightarrow> nat \<Rightarrow> nat option \<times> slab" where
  "slab_scan s mem bm i =
     (if i < sl_capacity s then
        let byte_idx = i div 8; bit_idx = i mod 8;
            bitmap_size = (sl_capacity s + 7) div 8
        in if byte_idx \<ge> bitmap_size then (None, s)
           else if bm ! byte_idx AND push_bit bit_idx 1 = 0 then
             let bm1 = bm[byte_idx := bm ! byte_idx OR push_bit bit_idx 1];
                 s1 = s\<lparr>sl_bitmap := Some bm1, sl_used := sl_used s + 1\<rparr>;
                 ptr = mem + i * sl_object_size s
             in if ptr < mem \<or> ptr + sl_object_size s > mem + SLAB_SIZE
                then (None, s1\<lparr>sl_bitmap := Some (bm1[byte_idx := bm1 ! byte_idx AND NOT (push_bit bit_idx 1)]),
                               sl_used := sl_used s1 - 1\<rparr>)
                else (Some ptr, s1)
           else slab_scan s mem bm (Suc i)
      else (None, s))"
  by pat_completeness auto
termination
  by (relation "measure (\<lambda>(s, m, bm, i). sl_capacity s - i)") auto

definition slab_alloc :: "slab \<Rightarrow> nat option \<times> slab" where
  "slab_alloc s =
     (case (sl_memory s, sl_bitmap s) of
        (Some mem, Some bm) \<Rightarrow>
          if sl_used s \<ge> sl_capacity s then (None, s)
          else if sl_object_size s = 0 then (None, s)
          else slab_scan s mem bm 0
      | _ \<Rightarrow> (None, s))"

definition slab_free :: "slab \<Rightarrow> nat option \<Rightarrow> bool \<times> slab" where
  "slab_free s ptr =
     (case (ptr, sl_memory s, sl_bitmap s) of
        (Some p, Some mem, Some bm) \<Rightarrow>
          if sl_object_size s = 0 then (False, s)
          else
            let offset = int p - int mem
            in if offset < 0 \<or> offset \<ge> int SLAB_SIZE then (False, s)
               else if nat offset mod sl_object_size s \<noteq> 0 then (False, s)
               else
                 let index = nat offset div sl_object_size s
                 in if index \<ge> sl_capacity s then (False, s)
                    else
                      let byte_idx = index div 8; bit_idx = index mod 8;
                          bitmap_size = (sl_capacity s + 7) div 8
                      in if byte_idx \<ge> bitmap_size then (False, s)
                         else if bm ! byte_idx AND push_bit bit_idx 1 = 0 then (False, s)
                         else
                           let s1 = s\<lparr>sl_bitmap := Some (bm[byte_idx := bm ! byte_idx AND NOT (push_bit bit_idx 1)])\<rparr>
                           in if sl_used s1 > 0 then (True, s1\<lparr>sl_used := sl_used s1 - 1\<rparr>)
                              else (False, s1)
      | _ \<Rightarrow> (False, s))"

section \<open>Bitmaps\<close>

definition used_bit :: "u8 list \<Rightarrow> nat \<Rightarrow> bool" where
  "used_bit bm i \<longleftrightarrow> bit (bm ! (i div 8)) (i mod 8)"

lemma mask_test: "w AND push_bit n 1 = 0 \<longleftrightarrow> \<not> bit w n" for w :: u8
  by (simp add: and_exp_eq_0_iff_not_bit)

lemma byte_in_bitmap: "i < n \<Longrightarrow> i div 8 < (n + 7) div 8" for i n :: nat
  using div_le_mono[of "Suc i" n 8] div_le_mono[of "i + 8" "n + 7" 8] by simp

lemma used_bit_set:
  assumes "i div 8 < length bm"
  shows "used_bit (bm[i div 8 := bm ! (i div 8) OR push_bit (i mod 8) 1]) j \<longleftrightarrow> j = i \<or> used_bit bm j"
proof (cases "j div 8 = i div 8")
  case True
  then have "j = i \<longleftrightarrow> j mod 8 = i mod 8" by (metis mult_div_mod_eq)
  then show ?thesis using assms True by (auto simp: used_bit_def bit_simps)
next
  case False
  then show ?thesis using assms by (auto simp: used_bit_def)
qed

lemma used_bit_clear:
  assumes "i div 8 < length bm"
  shows "used_bit (bm[i div 8 := bm ! (i div 8) AND NOT (push_bit (i mod 8) 1)]) j \<longleftrightarrow> j \<noteq> i \<and> used_bit bm j"
proof (cases "j div 8 = i div 8")
  case True
  then have "j = i \<longleftrightarrow> j mod 8 = i mod 8" by (metis mult_div_mod_eq)
  then show ?thesis using assms True by (auto simp: used_bit_def bit_simps)
next
  case False
  then show ?thesis using assms by (auto simp: used_bit_def)
qed

lemma set_then_clear:
  fixes w :: u8
  assumes "\<not> bit w n"
  shows "(w OR push_bit n 1) AND NOT (push_bit n 1) = w"
  using assms by (intro bit_eqI) (auto simp: bit_simps)

section \<open>Invariant and refinement\<close>

definition slab_idx :: "slab \<Rightarrow> nat set" where
  "slab_idx s = {i. i < sl_capacity s \<and> used_bit (the (sl_bitmap s)) i}"

definition slab_addr :: "slab \<Rightarrow> nat \<Rightarrow> nat" where
  "slab_addr s i = the (sl_memory s) + i * sl_object_size s"

definition slab_live :: "slab \<Rightarrow> nat set" where
  "slab_live s = slab_addr s ` slab_idx s"

definition slab_objects :: "slab \<Rightarrow> nat set" where
  "slab_objects s = slab_addr s ` {..<sl_capacity s}"

definition wf_slab :: "slab \<Rightarrow> bool" where
  "wf_slab s \<longleftrightarrow>
     sl_memory s \<noteq> None \<and> 0 < sl_object_size s \<and> sl_object_size s \<le> SLAB_SIZE \<and>
     sl_capacity s = SLAB_SIZE div sl_object_size s \<and>
     (\<exists>bm. sl_bitmap s = Some bm \<and> length bm = (sl_capacity s + 7) div 8) \<and>
     sl_used s = card (slab_idx s)"

lemma slab_addr_inj: "0 < sl_object_size s \<Longrightarrow> slab_addr s i = slab_addr s j \<longleftrightarrow> i = j"
  by (simp add: slab_addr_def)

lemma slab_addr_bound:
  assumes "wf_slab s" "i < sl_capacity s"
  shows "slab_addr s i + sl_object_size s \<le> the (sl_memory s) + SLAB_SIZE"
proof -
  have "Suc i * sl_object_size s \<le> sl_capacity s * sl_object_size s"
    using assms(2) by (intro mult_le_mono1) simp
  also have "\<dots> \<le> SLAB_SIZE" using assms(1) by (simp add: wf_slab_def)
  finally show ?thesis by (simp add: slab_addr_def)
qed

lemma finite_slab_idx [simp]: "finite (slab_idx s)"
  by (rule finite_subset[of _ "{..<sl_capacity s}"]) (auto simp: slab_idx_def)

lemma slab_full_iff: "slab_idx s = {..<sl_capacity s} \<longleftrightarrow> card (slab_idx s) = sl_capacity s"
proof
  assume "card (slab_idx s) = sl_capacity s"
  then show "slab_idx s = {..<sl_capacity s}"
    by (intro card_subset_eq) (auto simp: slab_idx_def)
qed simp

text \<open>The scan finds the lowest free index.\<close>

lemma slab_scan_spec:
  assumes wf: "wf_slab s" and bm: "sl_bitmap s = Some bm" and m: "sl_memory s = Some mem"
    and j: "j < sl_capacity s" "j \<notin> slab_idx s" and ij: "i \<le> j"
    and below: "\<And>l. i \<le> l \<Longrightarrow> l < j \<Longrightarrow> l \<in> slab_idx s"
  shows "slab_scan s mem bm i = (Some (slab_addr s j),
     s\<lparr>sl_bitmap := Some (bm[j div 8 := bm ! (j div 8) OR push_bit (j mod 8) 1]), sl_used := sl_used s + 1\<rparr>)"
  using ij below
proof (induction "j - i" arbitrary: i)
  case 0
  then have i: "i = j" by simp
  have "\<not> used_bit bm j" using j bm by (simp add: slab_idx_def)
  then have free: "bm ! (j div 8) AND push_bit (j mod 8) 1 = 0" unfolding mask_test used_bit_def .
  show ?case
    using slab_addr_bound[OF wf j(1)] byte_in_bitmap[OF j(1)] free j(1) m i
    by (subst slab_scan.simps) (simp add: Let_def slab_addr_def del: push_bit_of_1)
next
  case (Suc d)
  then have "i \<in> slab_idx s" "i < j" by auto
  then have used: "bm ! (i div 8) AND push_bit (i mod 8) 1 \<noteq> 0" and i: "i < sl_capacity s"
    using bm unfolding mask_test by (auto simp: slab_idx_def used_bit_def)
  have "slab_scan s mem bm i = slab_scan s mem bm (Suc i)"
    using used i byte_in_bitmap[OF i] by (subst slab_scan.simps) (simp add: Let_def)
  then show ?case using Suc by simp
qed

lemma slab_set:
  assumes wf: "wf_slab s" and bm: "sl_bitmap s = Some bm" and j: "j < sl_capacity s" "j \<notin> slab_idx s"
    and s': "s' = s\<lparr>sl_bitmap := Some (bm[j div 8 := bm ! (j div 8) OR push_bit (j mod 8) 1]), sl_used := sl_used s + 1\<rparr>"
  shows "wf_slab s' \<and> slab_idx s' = insert j (slab_idx s)"
proof -
  have len: "j div 8 < length bm" using wf bm byte_in_bitmap[OF j(1)] by (auto simp: wf_slab_def)
  have idx: "slab_idx s' = insert j (slab_idx s)"
    using used_bit_set[OF len] j(1) bm s' by (auto simp: slab_idx_def simp del: push_bit_of_1)
  then show ?thesis using wf bm j s' by (auto simp: wf_slab_def)
qed

lemma slab_clear:
  assumes wf: "wf_slab s" and bm: "sl_bitmap s = Some bm" and j: "j \<in> slab_idx s"
    and s': "s' = s\<lparr>sl_bitmap := Some (bm[j div 8 := bm ! (j div 8) AND NOT (push_bit (j mod 8) 1)]), sl_used := sl_used s - 1\<rparr>"
  shows "wf_slab s' \<and> slab_idx s' = slab_idx s - {j}"
proof -
  have jc: "j < sl_capacity s" using j by (simp add: slab_idx_def)
  have len: "j div 8 < length bm" using wf bm byte_in_bitmap[OF jc] by (auto simp: wf_slab_def)
  have idx: "slab_idx s' = slab_idx s - {j}"
    using used_bit_clear[OF len] bm s' by (auto simp: slab_idx_def simp del: push_bit_of_1)
  then show ?thesis using wf bm j s' by (auto simp: wf_slab_def)
qed

lemma slab_alloc_Some:
  assumes wf: "wf_slab s" and free: "slab_idx s \<noteq> {..<sl_capacity s}"
    and j: "j = (LEAST i. i \<notin> slab_idx s)"
  shows "\<exists>s'. slab_alloc s = (Some (slab_addr s j), s') \<and> wf_slab s' \<and> slab_idx s' = insert j (slab_idx s) \<and>
    j < sl_capacity s \<and> j \<notin> slab_idx s \<and> sl_memory s' = sl_memory s \<and> sl_object_size s' = sl_object_size s \<and>
    sl_capacity s' = sl_capacity s"
proof -
  obtain bm mem where bm: "sl_bitmap s = Some bm" and m: "sl_memory s = Some mem"
    using wf by (auto simp: wf_slab_def)
  obtain i where i: "i < sl_capacity s" "i \<notin> slab_idx s" using free by (auto simp: slab_idx_def)
  have jn: "j \<notin> slab_idx s" unfolding j using i(2) by (rule LeastI)
  have "j \<le> i" unfolding j using i(2) by (rule Least_le)
  with i(1) have jc: "j < sl_capacity s" by simp
  have below: "l \<in> slab_idx s" if "l < j" for l using that not_less_Least unfolding j by blast
  have "card (slab_idx s) \<noteq> sl_capacity s" using free slab_full_iff by blast
  moreover have "card (slab_idx s) \<le> sl_capacity s"
    using card_mono[of "{..<sl_capacity s}" "slab_idx s"] by (auto simp: slab_idx_def)
  ultimately have room: "sl_used s < sl_capacity s" using wf by (simp add: wf_slab_def)
  let ?s' = "s\<lparr>sl_bitmap := Some (bm[j div 8 := bm ! (j div 8) OR push_bit (j mod 8) 1]), sl_used := sl_used s + 1\<rparr>"
  have "slab_alloc s = slab_scan s mem bm 0"
    using room wf bm m by (simp add: slab_alloc_def wf_slab_def)
  then have "slab_alloc s = (Some (slab_addr s j), ?s')"
    using slab_scan_spec[OF wf bm m jc jn, of 0] below by simp
  moreover have "wf_slab ?s' \<and> slab_idx ?s' = insert j (slab_idx s)"
    by (rule slab_set[OF wf bm jc jn]) simp
  ultimately show ?thesis using jc jn by (intro exI[of _ ?s']) simp
qed

lemma slab_alloc_None:
  assumes "wf_slab s" "slab_idx s = {..<sl_capacity s}"
  shows "slab_alloc s = (None, s)"
  using assms by (auto simp: slab_alloc_def wf_slab_def split: option.splits)

lemma live_iff_idx:
  "wf_slab s \<Longrightarrow> slab_addr s j \<in> slab_live s \<longleftrightarrow> j \<in> slab_idx s"
  by (auto simp: slab_live_def slab_addr_inj wf_slab_def)

lemma slab_free_live:
  assumes wf: "wf_slab s" and j: "j \<in> slab_idx s"
  shows "\<exists>s'. slab_free s (Some (slab_addr s j)) = (True, s') \<and> wf_slab s' \<and> slab_idx s' = slab_idx s - {j} \<and>
    sl_memory s' = sl_memory s \<and> sl_object_size s' = sl_object_size s \<and> sl_capacity s' = sl_capacity s"
proof -
  obtain bm mem where bm: "sl_bitmap s = Some bm" and m: "sl_memory s = Some mem"
    using wf by (auto simp: wf_slab_def)
  have jc: "j < sl_capacity s" using j by (simp add: slab_idx_def)
  have pos: "0 < sl_object_size s" using wf by (simp add: wf_slab_def)
  have used: "bm ! (j div 8) AND push_bit (j mod 8) 1 \<noteq> 0"
    using j bm unfolding mask_test by (simp add: slab_idx_def used_bit_def)
  have "j * sl_object_size s < SLAB_SIZE"
    using slab_addr_bound[OF wf jc] pos m by (simp add: slab_addr_def)
  then have "\<not> int j * int (sl_object_size s) < 0 \<and> \<not> int SLAB_SIZE \<le> int j * int (sl_object_size s)"
    by (simp flip: of_nat_mult)
  moreover have "0 < sl_used s" using wf j by (auto simp: wf_slab_def card_gt_0_iff)
  moreover note slab_clear[OF wf bm j refl]
  ultimately show ?thesis
    using jc byte_in_bitmap[OF jc] bm m pos used
    by (simp add: slab_free_def slab_addr_def Let_def nat_mult_distrib del: push_bit_of_1)
qed

lemma slab_free_not_live:
  assumes wf: "wf_slab s" and p: "p \<notin> slab_live s"
  shows "slab_free s (Some p) = (False, s)"
proof -
  obtain bm mem where bm: "sl_bitmap s = Some bm" and m: "sl_memory s = Some mem"
    using wf by (auto simp: wf_slab_def)
  have pos: "0 < sl_object_size s" using wf by (simp add: wf_slab_def)
  show ?thesis
  proof (rule ccontr)
    assume ne: "\<not> ?thesis"
    let ?j = "nat (int p - int mem) div sl_object_size s"
    have g: "mem \<le> p" "nat (int p - int mem) mod sl_object_size s = 0" "?j < sl_capacity s"
      "bm ! (?j div 8) AND push_bit (?j mod 8) 1 \<noteq> 0"
      using ne bm m by (auto simp: slab_free_def Let_def split: if_splits)
    have n: "nat (int p - int mem) = p - mem" using g(1) by simp
    have "?j \<in> slab_idx s" using g(3,4) bm unfolding mask_test by (simp add: slab_idx_def used_bit_def)
    moreover have "?j * sl_object_size s = p - mem" using g(2) unfolding n by auto
    then have "slab_addr s ?j = p" using m g(1) by (simp add: slab_addr_def)
    ultimately show False using p live_iff_idx[OF wf, of ?j] by simp
  qed
qed

lemma slab_same_shape:
  "sl_memory s' = sl_memory s \<Longrightarrow> sl_object_size s' = sl_object_size s \<Longrightarrow> slab_addr s' = slab_addr s"
  "sl_memory s' = sl_memory s \<Longrightarrow> sl_object_size s' = sl_object_size s \<Longrightarrow>
     sl_capacity s' = sl_capacity s \<Longrightarrow> slab_objects s' = slab_objects s"
  by (simp_all add: fun_eq_iff slab_addr_def slab_objects_def)

interpretation sl: object_pool slab_alloc "\<lambda>s p. slab_free s (Some p)" wf_slab slab_live slab_objects
proof
  fix s s' :: slab and p :: nat
  assume wf: "wf_slab s"
  then have pos: "0 < sl_object_size s" by (simp add: wf_slab_def)
  show "finite (slab_objects s)" by (simp add: slab_objects_def)
  show sub: "slab_live s \<subseteq> slab_objects s" by (auto simp: slab_live_def slab_objects_def slab_idx_def)
  show "p \<in> slab_objects s - slab_live s \<and> wf_slab s' \<and> slab_live s' = insert p (slab_live s) \<and>
      slab_objects s' = slab_objects s"
    if t: "slab_alloc s = (Some p, s')"
  proof -
    have "slab_idx s \<noteq> {..<sl_capacity s}" using t slab_alloc_None[OF wf] by auto
    note A = slab_alloc_Some[OF wf this refl]
    show ?thesis using A t slab_same_shape[of s' s] live_iff_idx[OF wf]
      by (auto simp: slab_live_def slab_objects_def slab_addr_inj[OF pos])
  qed
  show "slab_live s = slab_objects s \<and> s' = s" if t: "slab_alloc s = (None, s')"
  proof -
    have full: "slab_idx s = {..<sl_capacity s}" using t slab_alloc_Some[OF wf _ refl] by fastforce
    then show ?thesis using t slab_alloc_None[OF wf full] by (simp add: slab_live_def slab_objects_def)
  qed
  show "\<exists>s'. slab_free s (Some p) = (True, s') \<and> wf_slab s' \<and> slab_live s' = slab_live s - {p} \<and>
      slab_objects s' = slab_objects s" if live: "p \<in> slab_live s"
  proof -
    obtain j where j: "j \<in> slab_idx s" "p = slab_addr s j" using live by (auto simp: slab_live_def)
    obtain s' where s': "slab_free s (Some p) = (True, s')" "wf_slab s'" "slab_idx s' = slab_idx s - {j}"
      "sl_memory s' = sl_memory s" "sl_object_size s' = sl_object_size s" "sl_capacity s' = sl_capacity s"
      using slab_free_live[OF wf j(1)] j(2) by blast
    have "slab_live s' = slab_live s - {p}"
      using s'(3) slab_same_shape(1)[OF s'(4,5)] j(2) image_set_diff[of "slab_addr s" "slab_idx s" "{j}"]
      by (simp add: slab_live_def inj_def slab_addr_inj[OF pos])
    then show ?thesis using s' slab_same_shape(2)[OF s'(4-6)] by blast
  qed
  show "slab_free s (Some p) = (False, s)" if "p \<notin> slab_live s"
    using slab_free_not_live[OF wf that] .
qed

lemma allocate_slab_wf:
  assumes "allocate_slab e n = (Some s, r)"
  shows "wf_slab s \<and> slab_live s = {} \<and> sl_object_size s = n \<and>
    sl_memory s = (case se_hugepages e of Some m \<Rightarrow> Some m | None \<Rightarrow> se_malloc e)"
proof -
  have "\<not> used_bit (replicate k 0) i" if "i div 8 < k" for i k
    using that by (simp add: used_bit_def)
  then have "slab_idx s = {}"
    using assms byte_in_bitmap[of _ "sl_capacity s"]
    by (auto simp: allocate_slab_def Let_def slab_idx_def split: if_splits prod.splits option.splits)
  then show ?thesis
    using assms by (auto simp: allocate_slab_def Let_def wf_slab_def slab_live_def
        split: if_splits prod.splits option.splits)
qed

section \<open>Properties\<close>

text \<open>
  Allocating from a well-formed slab returns the lowest object not in use, as long as there is
  one; the bitmap, the counter and the set of objects in use stay consistent. A full slab refuses.
\<close>

theorem slab_alloc_lowest:
  assumes "wf_slab s"
  shows "if slab_idx s = {..<sl_capacity s} then slab_alloc s = (None, s)
    else \<exists>s'. slab_alloc s = (Some (slab_addr s (LEAST i. i \<notin> slab_idx s)), s') \<and> wf_slab s' \<and>
      slab_idx s' = insert (LEAST i. i \<notin> slab_idx s) (slab_idx s) \<and> sl_used s' = sl_used s + 1"
proof (cases "slab_idx s = {..<sl_capacity s}")
  case True
  then show ?thesis using slab_alloc_None[OF assms] by simp
next
  case False
  obtain s' where "slab_alloc s = (Some (slab_addr s (LEAST i. i \<notin> slab_idx s)), s')" "wf_slab s'"
    "slab_idx s' = insert (LEAST i. i \<notin> slab_idx s) (slab_idx s)" "(LEAST i. i \<notin> slab_idx s) \<notin> slab_idx s"
    using slab_alloc_Some[OF assms False refl] by blast
  then show ?thesis using assms False by (auto simp: wf_slab_def)
qed

definition demo_slab :: slab where
  "demo_slab = \<lparr>sl_memory = Some 4096, sl_object_size = 1048576, sl_capacity = 2, sl_used = 1,
     sl_bitmap = Some [1], sl_uses_huge_pages = False\<rparr>"

lemma demo_slab_idx: "slab_idx demo_slab = {0}"
  by (auto simp: demo_slab_def slab_idx_def used_bit_def less_Suc_eq numeral_2_eq_2)

lemma demo_slab_wf: "wf_slab demo_slab"
  using demo_slab_idx by (simp add: wf_slab_def demo_slab_def SLAB_SIZE_def)

theorem slab_alloc_lowest_witness:
  "\<exists>s'. slab_alloc demo_slab = (Some 1052672, s') \<and> wf_slab s' \<and> slab_idx s' = {0, 1}"
proof -
  have least: "(LEAST i. i \<notin> {0}) = (1::nat)" by (rule Least_equality) auto
  have "slab_idx demo_slab \<noteq> {..<sl_capacity demo_slab}"
  proof -
    have "1 \<in> {..<sl_capacity demo_slab}" by (simp add: demo_slab_def)
    then show ?thesis unfolding demo_slab_idx by (metis singletonD zero_neq_one)
  qed
  then obtain s' where s': "slab_alloc demo_slab = (Some (slab_addr demo_slab 1), s')" "wf_slab s'"
      "slab_idx s' = insert 1 {0}"
    using slab_alloc_lowest[OF demo_slab_wf] unfolding demo_slab_idx least by metis
  have "slab_addr demo_slab 1 = 1052672" by (simp add: slab_addr_def demo_slab_def)
  then show ?thesis using s' by auto
qed

text \<open>
  C9. \<open>slab_free\<close> accepts exactly the objects in use: it takes them out of the set of objects in use,
  and a second free, a misaligned pointer or one outside the slab is refused without any change.
\<close>

theorem slab_free_exact:
  assumes "wf_slab s" "slab_free s (Some p) = (ok, s')"
  shows "(ok \<longleftrightarrow> p \<in> slab_live s) \<and> wf_slab s' \<and> slab_live s' = slab_live s - {p} \<and>
    (\<not> ok \<longrightarrow> s' = s) \<and> slab_free s' (Some p) = (False, s')"
proof (cases "p \<in> slab_live s")
  case True
  then show ?thesis using sl.give_live[OF assms(1) True] sl.give_twice[OF assms(1) True] assms(2) by auto
next
  case False
  then show ?thesis using sl.give_other[OF assms(1) False] assms by auto
qed

theorem slab_free_exact_witness:
  "\<exists>s'. slab_free demo_slab (Some 4096) = (True, s') \<and> wf_slab s' \<and> slab_free s' (Some 4096) = (False, s')"
proof -
  have live: "4096 \<in> slab_live demo_slab"
    unfolding slab_live_def demo_slab_idx by (simp add: slab_addr_def demo_slab_def)
  obtain ok s' where f: "slab_free demo_slab (Some 4096) = (ok, s')" by fastforce
  note r = slab_free_exact[OF demo_slab_wf f]
  then have "slab_free demo_slab (Some 4096) = (True, s')" using f live by simp
  then show ?thesis using r by (intro exI[of _ s']) simp
qed

text \<open>
  When the bitmap of a new slab cannot be allocated, the memory is given to \<open>free\<close> even if it is a
  huge-page mapping (\<open>free_slab\<close> distinguishes the two).
\<close>

lemma allocate_slab_frees_mapping:
  "allocate_slab \<lparr>se_struct = True, se_hugepages = Some m, se_malloc = None, se_calloc = False\<rparr> 64 =
     (None, [Libc_free m])"
proof -
  have "(64::nat) AND (64 - 1) = 0" by simp
  moreover have "SLAB_SIZE div 64 = 32768" "SLAB_SIZE = 2097152" by (simp_all add: SLAB_SIZE_def)
  ultimately show ?thesis unfolding allocate_slab_def by simp
qed

end
