(* ===== verification/Persistent_Heap.thy ===== *)
theory Persistent_Heap
  imports Heap_Buddy_Runs Heap_Slab
begin

text \<open>
  The persistent heap (\<^verbatim>\<open>src/runtime/lgx_persistent_heap.c\<close>): segregated free lists over
  slabs for small requests, the buddy allocator for large ones, allocation headers with magic
  numbers, statistics and limits.

  Memory is a function from addresses to 24-byte cells. A cell is read either as the
  \<open>allocation_header_t\<close> of an object in use or as the \<open>free_node_t\<close> of an object on a free list: the
  two views share the words \<open>hc_w0\<close> (\<open>magic\<close> and \<open>size\<close>, or the \<open>next\<close> pointer; little
  endian) and \<open>hc_w1\<close> (\<open>allocation_time\<close> or \<open>generation\<close>), so that what a free writes over a
  header is what a second free reads. The headers of the buddy allocator itself lie in other bytes
  of the pool (24 bytes below the allocation header) and are kept in \<open>ba_hdr\<close>.

  \<open>debug\<close> is the build flag \<open>DEBUG\<close>. All calls run under \<open>g_heap.mutex\<close> and are modelled as
  sequential; the compare-and-swap loops therefore succeed the first time. Floating-point ratios are
  rationals. Results are wrapped in an \<open>option\<close> whose \<open>None\<close> means that the walk over the buddy
  free lists does not end.
\<close>

section \<open>Configuration\<close>

definition NUM_SIZE_CLASSES :: nat where "NUM_SIZE_CLASSES = 16"
definition MIN_SIZE_CLASS :: nat where "MIN_SIZE_CLASS = 16"
definition MAX_SIZE_CLASS :: nat where "MAX_SIZE_CLASS = 4096"
definition MAX_HEAP_SIZE :: nat where "MAX_HEAP_SIZE = 16 * 1024 * 1024 * 1024"
definition MAX_ACTIVE_ALLOCATIONS :: nat where "MAX_ACTIVE_ALLOCATIONS = 1 * 1000 * 1000"
definition FRAGMENTATION_WARNING_THRESHOLD :: rat where "FRAGMENTATION_WARNING_THRESHOLD = 1 / 4"
definition FRAGMENTATION_CRITICAL_THRESHOLD :: rat where "FRAGMENTATION_CRITICAL_THRESHOLD = 1 / 2"
definition ALLOC_MAGIC :: u32 where "ALLOC_MAGIC = 0xDEADBEEF"
definition FREE_MAGIC :: u32 where "FREE_MAGIC = 0xBADC0FFE"

lemmas heap_consts [lgx_consts] =
  NUM_SIZE_CLASSES_def MIN_SIZE_CLASS_def MAX_SIZE_CLASS_def MAX_HEAP_SIZE_def
  MAX_ACTIVE_ALLOCATIONS_def FRAGMENTATION_WARNING_THRESHOLD_def FRAGMENTATION_CRITICAL_THRESHOLD_def
  ALLOC_MAGIC_def FREE_MAGIC_def

lemma NUM_CLASSES [simp]: "NUM_SIZE_CLASSES = 16"
  by (simp add: NUM_SIZE_CLASSES_def)

text \<open>\<open>sizeof(allocation_header_t)\<close>: two more fields in debug builds.\<close>

definition sizeof_header :: "bool \<Rightarrow> nat" where
  "sizeof_header debug = (if debug then 40 else 24)"

function size_to_class_loop :: "nat \<Rightarrow> nat \<Rightarrow> nat \<Rightarrow> nat" where
  "size_to_class_loop sz class_size cl =
     (if class_size < sz \<and> cl < NUM_SIZE_CLASSES - 1
      then size_to_class_loop sz (push_bit 1 class_size) (Suc cl) else cl)"
  by pat_completeness auto
termination
  by (relation "measure (\<lambda>(s, z, k). NUM_SIZE_CLASSES - k)") auto

definition size_to_class :: "nat \<Rightarrow> nat" where
  "size_to_class sz =
     (if sz \<le> MIN_SIZE_CLASS then 0
      else if sz > MAX_SIZE_CLASS then NUM_SIZE_CLASSES
      else size_to_class_loop sz MIN_SIZE_CLASS 0)"

definition class_to_size :: "nat \<Rightarrow> nat" where
  "class_to_size cl = push_bit cl MIN_SIZE_CLASS"

section \<open>Memory cells\<close>

record heap_cell =
  hc_w0 :: u64
  hc_w1 :: u64
  hc_size_class :: "32 word"

type_synonym heap_mem = "nat \<Rightarrow> heap_cell"

definition hdr_magic :: "heap_cell \<Rightarrow> u32" where "hdr_magic c = ucast (hc_w0 c)"
definition hdr_size :: "heap_cell \<Rightarrow> u32" where "hdr_size c = ucast (drop_bit 32 (hc_w0 c))"
definition hdr_class :: "heap_cell \<Rightarrow> int" where "hdr_class c = sint (hc_size_class c)"

text \<open>\<open>header->magic = m\<close> changes the low half of the first word only.\<close>

definition set_magic :: "u32 \<Rightarrow> heap_cell \<Rightarrow> heap_cell" where
  "set_magic m c = c\<lparr>hc_w0 := (hc_w0 c AND NOT (mask 32)) OR ucast m\<rparr>"

text \<open>The four header assignments of \<open>lgx_heap_alloc\<close>; \<open>header->size\<close> is 32 bits wide.\<close>

definition mk_header :: "nat \<Rightarrow> int \<Rightarrow> heap_cell" where
  "mk_header sz cl =
     \<lparr>hc_w0 = push_bit 32 (ucast (word_of_nat sz :: u32)) OR ucast ALLOC_MAGIC,
      hc_w1 = 0, hc_size_class = word_of_int cl\<rparr>"

definition ptr_word :: "nat option \<Rightarrow> u64" where
  "ptr_word p = (case p of None \<Rightarrow> 0 | Some a \<Rightarrow> word_of_nat a)"

definition word_ptr :: "u64 \<Rightarrow> nat option" where
  "word_ptr w = (if w = 0 then None else Some (unat w))"

definition node_next :: "heap_cell \<Rightarrow> nat option" where
  "node_next c = word_ptr (hc_w0 c)"

section \<open>Size-class allocators\<close>

record size_class_allocator =
  sc_free_list :: "nat option"
  sc_generation :: u64
  sc_slabs :: "slab list"
  sc_object_size :: nat
  sc_num_allocations :: u64
  sc_num_frees :: u64
  sc_num_slabs :: u64

text \<open>The pop of \<open>lgx_heap_alloc\<close>, the search of the slabs and the refill of the free list.\<close>

definition pop_free :: "heap_mem \<Rightarrow> size_class_allocator \<Rightarrow> nat option \<times> size_class_allocator" where
  "pop_free m a =
     (case sc_free_list a of
        None \<Rightarrow> (None, a)
      | Some old_head \<Rightarrow> (Some old_head, a\<lparr>sc_free_list := node_next (m old_head)\<rparr>))"

fun slabs_alloc :: "slab list \<Rightarrow> nat option \<times> slab list" where
  "slabs_alloc [] = (None, [])"
| "slabs_alloc (s # ss) =
     (case slab_alloc s of
        (Some p, s') \<Rightarrow> (Some p, s' # ss)
      | (None, s') \<Rightarrow> (case slabs_alloc ss of (r, ss') \<Rightarrow> (r, s' # ss')))"

definition push_node ::
    "u64 \<Rightarrow> nat \<Rightarrow> heap_mem \<times> size_class_allocator \<Rightarrow> heap_mem \<times> size_class_allocator" where
  "push_node gen p = (\<lambda>(m, a).
     (m(p := (m p)\<lparr>hc_w0 := ptr_word (sc_free_list a), hc_w1 := gen\<rparr>), a\<lparr>sc_free_list := Some p\<rparr>))"

fun refill :: "nat \<Rightarrow> slab \<Rightarrow> heap_mem \<times> size_class_allocator \<Rightarrow> slab \<times> heap_mem \<times> size_class_allocator" where
  "refill 0 s (m, a) = (s, m, a)"
| "refill (Suc n) s (m, a) =
     (case slab_alloc s of
        (None, s') \<Rightarrow> (s', m, a)
      | (Some p, s') \<Rightarrow>
          refill n s' (push_node (sc_generation a) p (m, a\<lparr>sc_generation := sc_generation a + 1\<rparr>)))"

definition batch_size :: "rat \<Rightarrow> slab \<Rightarrow> nat" where
  "batch_size hotness s =
     (let b = (if hotness > 1 / 5 then 64 else 32)
      in if b > sl_capacity s div 2 then sl_capacity s div 2 else b)"

definition sc_grow ::
    "slab_env \<Rightarrow> rat \<Rightarrow> heap_mem \<Rightarrow> size_class_allocator \<Rightarrow> nat option \<times> bool \<times> heap_mem \<times> size_class_allocator" where
  "sc_grow e hotness m a =
     (case allocate_slab e (sc_object_size a) of
        (None, _) \<Rightarrow> (None, True, m, a)
      | (Some new_slab, _) \<Rightarrow>
          let (p, s1) = slab_alloc new_slab;
              a1 = a\<lparr>sc_num_slabs := sc_num_slabs a + 1\<rparr>;
              (s2, m2, a2) = refill (batch_size hotness new_slab) s1 (m, a1)
          in (p, False, m2, a2\<lparr>sc_slabs := s2 # sc_slabs a2\<rparr>))"

text \<open>
  The small-allocation branch of \<open>lgx_heap_alloc\<close>: pointer, whether an out-of-memory error is
  counted, memory and allocator.
\<close>

definition sc_alloc ::
    "slab_env \<Rightarrow> rat \<Rightarrow> heap_mem \<Rightarrow> size_class_allocator \<Rightarrow> nat option \<times> bool \<times> heap_mem \<times> size_class_allocator" where
  "sc_alloc e hotness m a =
     (let (p, oom, m', a') =
        (case pop_free m a of
           (Some p, a1) \<Rightarrow> (Some p, False, m, a1)
         | (None, a1) \<Rightarrow>
             (case slabs_alloc (sc_slabs a1) of
                (Some p, ss) \<Rightarrow> (Some p, False, m, a1\<lparr>sc_slabs := ss\<rparr>)
              | (None, ss) \<Rightarrow> sc_grow e hotness m (a1\<lparr>sc_slabs := ss\<rparr>)))
      in if p \<noteq> None then (p, oom, m', a'\<lparr>sc_num_allocations := sc_num_allocations a' + 1\<rparr>)
         else (p, oom, m', a'))"

text \<open>The small-object branch of \<open>lgx_heap_free\<close>.\<close>

definition sc_free :: "nat \<Rightarrow> heap_mem \<Rightarrow> size_class_allocator \<Rightarrow> heap_mem \<times> size_class_allocator" where
  "sc_free p m a =
     (let gen = sc_generation a;
          a1 = a\<lparr>sc_generation := sc_generation a + 1\<rparr>;
          (m2, a2) = push_node gen p (m, a1)
      in (m2, a2\<lparr>sc_num_frees := sc_num_frees a2 + 1\<rparr>))"

section \<open>The heap\<close>

record persistent_heap =
  ph_initialized :: bool
  ph_size_classes :: "nat \<Rightarrow> size_class_allocator"
  ph_buddy :: buddy_allocator
  ph_mem :: heap_mem
  ph_total_allocations :: u64
  ph_total_frees :: u64
  ph_total_bytes_allocated :: u64
  ph_peak_bytes_allocated :: u64
  ph_current_bytes_allocated :: u64
  ph_num_active_allocations :: u64
  ph_fragmentation_ratio :: rat
  ph_last_defrag_time :: u64
  ph_allocation_count_this_second :: u64
  ph_last_rate_limit_check :: u64
  ph_fragmentation_warning_issued :: bool
  ph_fragmentation_critical_issued :: bool
  ph_num_oom_errors :: u64
  ph_num_rate_limit_errors :: u64
  ph_num_validation_errors :: u64
  ph_size_class_histogram :: "nat \<Rightarrow> u64"
  ph_pattern_analysis_count :: u64
  ph_last_pattern_analysis_time :: u64
  ph_size_class_hotness :: "nat \<Rightarrow> rat"

record heap_env =
  he_slab :: slab_env
  he_now :: u64

text \<open>
  \<open>lgx_persistent_heap_init\<close>; \<open>mutex_ok\<close> is the outcome of \<open>pthread_mutex_init\<close>, \<open>huge\<close> and \<open>mal\<close>
  what the allocation of the buddy pool returns.
\<close>

definition init_class :: "nat \<Rightarrow> size_class_allocator" where
  "init_class i = \<lparr>sc_free_list = None, sc_generation = 1, sc_slabs = [],
     sc_object_size = class_to_size i, sc_num_allocations = 0, sc_num_frees = 0, sc_num_slabs = 0\<rparr>"

definition lgx_persistent_heap_init ::
    "bool \<Rightarrow> nat option \<Rightarrow> nat option \<Rightarrow> u64 \<Rightarrow> persistent_heap \<Rightarrow> lgx_result \<times> persistent_heap" where
  "lgx_persistent_heap_init mutex_ok huge mal now h =
     (if ph_initialized h then (LGX_SUCCESS, h)
      else if \<not> mutex_ok then (LGX_ERROR_INVALID_PARAM, h)
      else
        let h1 = h\<lparr>ph_size_classes := (\<lambda>i. if i < NUM_SIZE_CLASSES then init_class i
                                             else ph_size_classes h i)\<rparr>
        in (case buddy_init huge mal (ph_buddy h1) of
              (False, b) \<Rightarrow> (LGX_ERROR_INVALID_PARAM, h1\<lparr>ph_buddy := b\<rparr>)
            | (True, b) \<Rightarrow>
                (LGX_SUCCESS,
                 h1\<lparr>ph_buddy := b,
                    ph_total_allocations := 0, ph_total_frees := 0, ph_total_bytes_allocated := 0,
                    ph_peak_bytes_allocated := 0, ph_current_bytes_allocated := 0,
                    ph_num_active_allocations := 0, ph_fragmentation_ratio := 0,
                    ph_last_defrag_time := 0, ph_allocation_count_this_second := 0,
                    ph_last_rate_limit_check := 0, ph_fragmentation_warning_issued := False,
                    ph_fragmentation_critical_issued := False, ph_num_oom_errors := 0,
                    ph_num_rate_limit_errors := 0, ph_num_validation_errors := 0,
                    ph_size_class_histogram := (\<lambda>i. if i < NUM_SIZE_CLASSES then 0
                                                      else ph_size_class_histogram h i),
                    ph_size_class_hotness := (\<lambda>i. if i < NUM_SIZE_CLASSES then 0
                                                    else ph_size_class_hotness h i),
                    ph_pattern_analysis_count := 0, ph_last_pattern_analysis_time := now,
                    ph_initialized := True\<rparr>)))"

text \<open>\<open>lgx_persistent_heap_shutdown\<close>; the second result lists the slab memory given back.\<close>

definition lgx_persistent_heap_shutdown ::
    "persistent_heap \<Rightarrow> lgx_result \<times> release list \<times> persistent_heap" where
  "lgx_persistent_heap_shutdown h =
     (if \<not> ph_initialized h then (LGX_SUCCESS, [], h)
      else
        (LGX_SUCCESS,
         concat (map (\<lambda>i. concat (map free_slab (sc_slabs (ph_size_classes h i)))) [0..<NUM_SIZE_CLASSES]),
         h\<lparr>ph_size_classes := (\<lambda>i. if i < NUM_SIZE_CLASSES
                                     then (ph_size_classes h i)\<lparr>sc_free_list := None, sc_slabs := []\<rparr>
                                     else ph_size_classes h i),
           ph_buddy := buddy_shutdown (ph_buddy h),
           ph_initialized := False\<rparr>))"

text \<open>The address of the buddy pool.\<close>

definition pool_base :: "buddy_allocator \<Rightarrow> nat" where
  "pool_base b = (case ba_memory b of None \<Rightarrow> 0 | Some m \<Rightarrow> m)"

text \<open>
  The parts of \<open>lgx_heap_alloc\<close> in their order: finding memory (returns the pointer and the size
  class that goes into the header), header and statistics, pattern analysis, fragmentation warnings.
\<close>

definition heap_find :: "bool \<Rightarrow> heap_env \<Rightarrow> nat \<Rightarrow> persistent_heap \<Rightarrow> nat option \<times> int \<times> persistent_heap" where
  "heap_find debug e sz h =
     (let total_size = sz + sizeof_header debug;
          cl = size_to_class total_size
      in if cl < NUM_SIZE_CLASSES then
           (case sc_alloc (he_slab e) (ph_size_class_hotness h cl) (ph_mem h) (ph_size_classes h cl) of
              (p, oom, m, a) \<Rightarrow>
                (p, int cl, h\<lparr>ph_mem := m, ph_size_classes := (ph_size_classes h)(cl := a),
                              ph_num_oom_errors := ph_num_oom_errors h + (if oom then 1 else 0)\<rparr>))
         else
           (case buddy_alloc (ph_buddy h) total_size of
              (None, b) \<Rightarrow>
                (None, -1, h\<lparr>ph_buddy := b, ph_num_oom_errors := ph_num_oom_errors h + 1\<rparr>)
            | (Some off, b) \<Rightarrow> (Some (pool_base (ph_buddy h) + off), -1, h\<lparr>ph_buddy := b\<rparr>)))"

definition heap_record :: "nat \<Rightarrow> nat \<Rightarrow> int \<Rightarrow> persistent_heap \<Rightarrow> persistent_heap" where
  "heap_record p sz cl h =
     (let h1 = h\<lparr>ph_mem := (ph_mem h)(p := mk_header sz cl),
                 ph_total_allocations := ph_total_allocations h + 1,
                 ph_num_active_allocations := ph_num_active_allocations h + 1,
                 ph_current_bytes_allocated := ph_current_bytes_allocated h + word_of_nat sz,
                 ph_total_bytes_allocated := ph_total_bytes_allocated h + word_of_nat sz\<rparr>
      in if ph_current_bytes_allocated h1 > ph_peak_bytes_allocated h1
         then h1\<lparr>ph_peak_bytes_allocated := ph_current_bytes_allocated h1\<rparr> else h1)"

definition heap_patterns :: "u64 \<Rightarrow> int \<Rightarrow> persistent_heap \<Rightarrow> persistent_heap" where
  "heap_patterns now cl h =
     (if 0 \<le> cl \<and> cl < int NUM_SIZE_CLASSES then
        let c = nat cl;
            h1 = h\<lparr>ph_size_class_histogram := (ph_size_class_histogram h)(c := ph_size_class_histogram h c + 1),
                   ph_pattern_analysis_count := ph_pattern_analysis_count h + 1\<rparr>
        in if ph_pattern_analysis_count h1 \<ge> 10000 then
             let total = sum_list (map (ph_size_class_histogram h1) [0..<NUM_SIZE_CLASSES]);
                 h2 = (if total > 0
                       then h1\<lparr>ph_size_class_hotness :=
                              (\<lambda>i. if i < NUM_SIZE_CLASSES
                                   then rat_of_nat (unat (ph_size_class_histogram h1 i)) / rat_of_nat (unat total)
                                   else ph_size_class_hotness h1 i)\<rparr>
                       else h1)
             in h2\<lparr>ph_pattern_analysis_count := 0, ph_last_pattern_analysis_time := now\<rparr>
           else h1
      else h)"

definition heap_warn :: "persistent_heap \<Rightarrow> persistent_heap option" where
  "heap_warn h =
     (case buddy_get_fragmentation (ph_buddy h) of
        None \<Rightarrow> None
      | Some frag \<Rightarrow>
          Some (if frag \<ge> FRAGMENTATION_CRITICAL_THRESHOLD \<and> \<not> ph_fragmentation_critical_issued h
                then h\<lparr>ph_fragmentation_critical_issued := True\<rparr>
                else if frag \<ge> FRAGMENTATION_WARNING_THRESHOLD \<and> \<not> ph_fragmentation_warning_issued h
                then h\<lparr>ph_fragmentation_warning_issued := True\<rparr>
                else h))"

definition lgx_heap_alloc ::
    "bool \<Rightarrow> heap_env \<Rightarrow> nat \<Rightarrow> persistent_heap \<Rightarrow> (nat option \<times> persistent_heap) option" where
  "lgx_heap_alloc debug e sz h =
     (if \<not> ph_initialized h then Some (None, h)
      else if sz = 0 \<or> sz > MAX_HEAP_SIZE
      then Some (None, h\<lparr>ph_num_validation_errors := ph_num_validation_errors h + 1\<rparr>)
      else if unat (ph_num_active_allocations h) \<ge> MAX_ACTIVE_ALLOCATIONS
      then Some (None, h\<lparr>ph_num_rate_limit_errors := ph_num_rate_limit_errors h + 1\<rparr>)
      else if unat (ph_current_bytes_allocated h + word_of_nat sz) > MAX_HEAP_SIZE
      then Some (None, h\<lparr>ph_num_oom_errors := ph_num_oom_errors h + 1\<rparr>)
      else
        (case heap_find debug e sz h of
           (None, _, h1) \<Rightarrow> Some (None, h1)
         | (Some p, cl, h1) \<Rightarrow>
             (case heap_warn (heap_patterns (he_now e) cl (heap_record p sz cl h1)) of
                None \<Rightarrow> None
              | Some h2 \<Rightarrow> Some (Some (p + sizeof_header debug), h2))))"

text \<open>\<open>lgx_heap_is_heap_pointer\<close>\<close>

definition in_slab :: "nat \<Rightarrow> slab \<Rightarrow> bool" where
  "in_slab p s \<longleftrightarrow> (case sl_memory s of None \<Rightarrow> False | Some m \<Rightarrow> m \<le> p \<and> p < m + SLAB_SIZE)"

definition lgx_heap_is_heap_pointer :: "bool \<Rightarrow> nat option \<Rightarrow> persistent_heap \<Rightarrow> bool" where
  "lgx_heap_is_heap_pointer debug ptr h =
     (case ptr of
        None \<Rightarrow> False
      | Some p \<Rightarrow>
          if \<not> ph_initialized h then False
          else if ba_memory (ph_buddy h) \<noteq> None \<and> pool_base (ph_buddy h) \<le> p \<and>
                  p < pool_base (ph_buddy h) + ba_total_size (ph_buddy h)
          then hdr_magic (ph_mem h (p - sizeof_header debug)) = ALLOC_MAGIC
          else if \<exists>i\<in>set [0..<NUM_SIZE_CLASSES]. \<exists>s\<in>set (sc_slabs (ph_size_classes h i)). in_slab p s
          then hdr_magic (ph_mem h (p - sizeof_header debug)) = ALLOC_MAGIC
          else False)"

text \<open>
  \<open>lgx_heap_free\<close>: the memory is returned (\<open>heap_release\<close>), then the statistics and the warning
  flags are updated.
\<close>

definition heap_release :: "nat \<Rightarrow> persistent_heap \<Rightarrow> persistent_heap option" where
  "heap_release p h =
     (let cl = hdr_class (ph_mem h p)
      in if 0 \<le> cl \<and> cl < int NUM_SIZE_CLASSES then
           (case sc_free p (ph_mem h) (ph_size_classes h (nat cl)) of
              (m, a) \<Rightarrow> Some (h\<lparr>ph_mem := m, ph_size_classes := (ph_size_classes h)(nat cl := a)\<rparr>))
         else
           (case buddy_free (ph_buddy h) (Some (int p - int (pool_base (ph_buddy h)))) of
              None \<Rightarrow> None
            | Some b \<Rightarrow> Some (h\<lparr>ph_buddy := b\<rparr>)))"

definition heap_unwarn :: "persistent_heap \<Rightarrow> persistent_heap option" where
  "heap_unwarn h =
     (case buddy_get_fragmentation (ph_buddy h) of
        None \<Rightarrow> None
      | Some frag \<Rightarrow>
          Some (if frag < FRAGMENTATION_WARNING_THRESHOLD
                then h\<lparr>ph_fragmentation_warning_issued := False, ph_fragmentation_critical_issued := False\<rparr>
                else if frag < FRAGMENTATION_CRITICAL_THRESHOLD
                then h\<lparr>ph_fragmentation_critical_issued := False\<rparr>
                else h))"

definition lgx_heap_free :: "bool \<Rightarrow> nat option \<Rightarrow> persistent_heap \<Rightarrow> persistent_heap option" where
  "lgx_heap_free debug ptr h =
     (case ptr of
        None \<Rightarrow> Some h
      | Some up \<Rightarrow>
          if \<not> ph_initialized h then Some h
          else
            let p = up - sizeof_header debug; header = ph_mem h p
            in if hdr_magic header \<noteq> ALLOC_MAGIC
               then Some (h\<lparr>ph_num_validation_errors := ph_num_validation_errors h + 1\<rparr>)
               else
                 let sz = hdr_size header;
                     h1 = (if debug then h\<lparr>ph_mem := (ph_mem h)(p := set_magic FREE_MAGIC header)\<rparr> else h)
                 in (case heap_release p h1 of
                       None \<Rightarrow> None
                     | Some h2 \<Rightarrow>
                         heap_unwarn (h2\<lparr>ph_total_frees := ph_total_frees h2 + 1,
                           ph_num_active_allocations := ph_num_active_allocations h2 - 1,
                           ph_current_bytes_allocated := ph_current_bytes_allocated h2 - ucast sz\<rparr>)))"

section \<open>Queries\<close>

record heap_stats =
  hs_total_allocations :: u64
  hs_total_frees :: u64
  hs_active_allocations :: u64
  hs_current_bytes :: u64
  hs_peak_bytes :: u64
  hs_fragmentation_ratio :: "rat option"

definition lgx_heap_get_stats :: "persistent_heap \<Rightarrow> lgx_result + heap_stats" where
  "lgx_heap_get_stats h =
     (if \<not> ph_initialized h then Inl LGX_ERROR_INVALID_PARAM
      else Inr \<lparr>hs_total_allocations = ph_total_allocations h, hs_total_frees = ph_total_frees h,
                hs_active_allocations = ph_num_active_allocations h,
                hs_current_bytes = ph_current_bytes_allocated h,
                hs_peak_bytes = ph_peak_bytes_allocated h,
                hs_fragmentation_ratio = buddy_get_fragmentation (ph_buddy h)\<rparr>)"

definition lgx_heap_get_fragmentation :: "persistent_heap \<Rightarrow> rat option" where
  "lgx_heap_get_fragmentation h =
     (if \<not> ph_initialized h then Some 0 else buddy_get_fragmentation (ph_buddy h))"

definition lgx_heap_defragment :: "u64 option \<Rightarrow> persistent_heap \<Rightarrow> u64 \<times> persistent_heap" where
  "lgx_heap_defragment clock h =
     (if \<not> ph_initialized h then (0, h)
      else
        let start_time = (case clock of None \<Rightarrow> 0 | Some t \<Rightarrow> t);
            operations = ba_num_coalesces (ph_buddy h)
        in (operations, if start_time > 0 then h\<lparr>ph_last_defrag_time := start_time\<rparr> else h))"

definition lgx_heap_health_check :: "persistent_heap \<Rightarrow> int option" where
  "lgx_heap_health_check h =
     (if \<not> ph_initialized h then Some (-1)
      else
        (case buddy_get_fragmentation (ph_buddy h) of
           None \<Rightarrow> None
         | Some frag \<Rightarrow>
             let ratio = (\<lambda>a b. rat_of_nat (unat a) / rat_of_nat (unat b));
                 leak = (if ph_num_active_allocations h > 0 \<and>
                            ratio (ph_num_active_allocations h) (ph_total_allocations h + 1) > 1 / 10
                         then 1 else 0);
                 frag_issue = (if frag \<ge> FRAGMENTATION_CRITICAL_THRESHOLD then 1 else 0);
                 total_ops = ph_total_allocations h + ph_total_frees h;
                 oom = (if total_ops > 0 \<and> ratio (ph_num_oom_errors h) total_ops > 1 / 100 then 1 else 0);
                 val = (if total_ops > 0 \<and> ratio (ph_num_validation_errors h) total_ops > 1 / 1000 then 1 else 0);
                 usage = (if rat_of_nat (unat (ph_current_bytes_allocated h)) / rat_of_nat MAX_HEAP_SIZE > 9 / 10
                          then 1 else 0)
             in Some (leak + frag_issue + oom + val + usage)))"

definition lgx_heap_get_error_stats :: "persistent_heap \<Rightarrow> (u64 \<times> u64 \<times> u64) option" where
  "lgx_heap_get_error_stats h =
     (if \<not> ph_initialized h then None
      else Some (ph_num_oom_errors h, ph_num_rate_limit_errors h, ph_num_validation_errors h))"

end
