(* ===== verification/Heap_Classes.thy ===== *)
theory Heap_Classes
  imports Persistent_Heap
begin

text \<open>
  The size-class allocators of the persistent heap: every object of every slab is free in the
  bitmap, on the free list, or held by the client, and never two of these. The words shared by
  headers and free-list nodes never confuse the two.
\<close>

section \<open>Headers and nodes in the same words\<close>

lemma hdr_magic_mk [simp]: "hdr_magic (mk_header sz cl) = ALLOC_MAGIC"
  unfolding hdr_magic_def mk_header_def
  by (intro bit_eqI) (auto simp: bit_simps ALLOC_MAGIC_def)

lemma hdr_size_mk [simp]: "hdr_size (mk_header sz cl) = word_of_nat sz"
  unfolding hdr_size_def mk_header_def
  by (intro bit_eqI) (auto simp: bit_simps dest: bit_imp_le_length)

lemma hdr_class_mk [simp]: "-1 \<le> cl \<Longrightarrow> cl < 16 \<Longrightarrow> hdr_class (mk_header sz cl) = cl"
  unfolding hdr_class_def mk_header_def by (simp add: signed_of_int signed_take_bit_int_eq_self)

lemma word_ptr_word [simp]:
  "(\<And>a. p = Some a \<Longrightarrow> 0 < a \<and> a < 2 ^ 64) \<Longrightarrow> word_ptr (ptr_word p) = p"
  by (cases p) (auto simp: word_ptr_def ptr_word_def unat_of_nat take_bit_nat_eq_self
      word_of_nat_eq_0_iff dest: nat_dvd_not_less)

text \<open>A link is even, the magic number is odd: a freed object no longer looks allocated.\<close>

lemma node_not_magic:
  assumes "\<And>a. p = Some a \<Longrightarrow> 16 dvd a"
  shows "hdr_magic (c\<lparr>hc_w0 := ptr_word p, hc_w1 := g\<rparr>) \<noteq> ALLOC_MAGIC"
proof
  assume eq: "hdr_magic (c\<lparr>hc_w0 := ptr_word p, hc_w1 := g\<rparr>) = ALLOC_MAGIC"
  have "\<not> bit (ptr_word p) 0"
  proof (cases p)
    case (Some a)
    then have "even a" using assms[OF Some] by (meson dvd_trans even_numeral)
    then show ?thesis using Some by (simp add: ptr_word_def bit_simps bit_0)
  qed (simp add: ptr_word_def)
  then have "\<not> bit (hdr_magic (c\<lparr>hc_w0 := ptr_word p, hc_w1 := g\<rparr>)) 0"
    by (simp add: hdr_magic_def bit_simps)
  moreover have "bit ALLOC_MAGIC 0" by (simp add: ALLOC_MAGIC_def)
  ultimately show False using eq by simp
qed

lemma free_magic_not_alloc: "hdr_magic (set_magic FREE_MAGIC c) \<noteq> ALLOC_MAGIC"
proof -
  have "hdr_magic (set_magic FREE_MAGIC c) = FREE_MAGIC"
    unfolding hdr_magic_def set_magic_def by (intro bit_eqI) (auto simp: bit_simps)
  then show ?thesis by (simp add: FREE_MAGIC_def ALLOC_MAGIC_def)
qed

section \<open>Size classes\<close>

declare size_to_class_loop.simps [simp del]

lemma class_to_size_eq: "class_to_size cl = 16 * 2 ^ cl"
  by (simp add: class_to_size_def MIN_SIZE_CLASS_def push_bit_eq_mult)

lemma size_to_class_loop_spec:
  assumes "z = class_to_size k" "k \<le> 15" "r = size_to_class_loop n z k"
  shows "k \<le> r \<and> r \<le> 15 \<and> (r = 15 \<or> n \<le> class_to_size r) \<and> (k < r \<longrightarrow> class_to_size (r - 1) < n)"
  using assms
proof (induction n z k rule: size_to_class_loop.induct)
  case (1 n z k)
  note unfold = size_to_class_loop.simps[of n z k]
  show ?case
  proof (cases "z < n \<and> k < 15")
    case True
    have "push_bit 1 z = class_to_size (Suc k)"
      using "1.prems" by (simp add: class_to_size_eq push_bit_eq_mult)
    moreover have "r = size_to_class_loop n (push_bit 1 z) (Suc k)" using "1.prems"(3) True unfold by simp
    ultimately have IH: "Suc k \<le> r \<and> r \<le> 15 \<and> (r = 15 \<or> n \<le> class_to_size r) \<and>
        (Suc k < r \<longrightarrow> class_to_size (r - 1) < n)"
      using "1.IH" True by simp
    moreover have "class_to_size (r - 1) < n" if "r = Suc k" using that True "1.prems"(1) by simp
    ultimately show ?thesis by (auto simp: le_less)
  next
    case False
    then show ?thesis using "1.prems" unfold by auto
  qed
qed

lemma size_to_class_small:
  assumes "n \<le> 4096"
  shows "size_to_class n \<le> 8" "n \<le> class_to_size (size_to_class n)"
    "0 < size_to_class n \<Longrightarrow> class_to_size (size_to_class n - 1) < n"
proof -
  let ?r = "size_to_class n"
  have spec: "?r \<le> 15 \<and> (?r = 15 \<or> n \<le> class_to_size ?r) \<and> (0 < ?r \<longrightarrow> class_to_size (?r - 1) < n)"
    using size_to_class_loop_spec[of 16 0 "size_to_class_loop n 16 0" n] assms
    by (auto simp: size_to_class_def class_to_size_eq heap_consts)
  show le8: "?r \<le> 8"
  proof (rule ccontr)
    assume "\<not> ?r \<le> 8"
    then have "8 \<le> ?r - 1" "0 < ?r" by auto
    then have "class_to_size 8 \<le> class_to_size (?r - 1)" unfolding class_to_size_eq
      by (intro mult_le_mono2 power_increasing) auto
    with spec \<open>0 < ?r\<close> assms show False by (simp add: class_to_size_eq)
  qed
  show "n \<le> class_to_size ?r" using spec le8 by auto
  show "0 < ?r \<Longrightarrow> class_to_size (?r - 1) < n" using spec by blast
qed

lemma size_to_class_large: "4096 < n \<Longrightarrow> size_to_class n = 16"
  by (simp add: size_to_class_def heap_consts)

section \<open>Slabs of a size class\<close>

definition slab_region :: "slab \<Rightarrow> nat set" where
  "slab_region s = {the (sl_memory s)..<the (sl_memory s) + SLAB_SIZE}"

definition good_slab :: "nat \<Rightarrow> slab \<Rightarrow> bool" where
  "good_slab obj s \<longleftrightarrow> wf_slab s \<and> sl_object_size s = obj \<and> 0 < the (sl_memory s) \<and>
     the (sl_memory s) + SLAB_SIZE \<le> 2 ^ 64 \<and> 16 dvd the (sl_memory s)"

definition slabs_live :: "slab list \<Rightarrow> nat set" where
  "slabs_live ss = (\<Union>s\<in>set ss. slab_live s)"

abbreviation apart :: "slab \<Rightarrow> slab \<Rightarrow> bool" where
  "apart s t \<equiv> slab_region s \<inter> slab_region t = {}"

lemma slabs_live_Cons [simp]: "slabs_live (s # ss) = slab_live s \<union> slabs_live ss"
  by (simp add: slabs_live_def)

lemma object_facts:
  assumes g: "good_slab obj s" and p: "p \<in> slab_objects s" and obj: "16 dvd obj"
  shows "16 dvd p" "0 < p" "p < 2 ^ 64" "{p..<p + obj} \<subseteq> slab_region s" "p \<in> slab_region s"
proof -
  obtain i where i: "i < sl_capacity s" "p = slab_addr s i" using p by (auto simp: slab_objects_def)
  have b: "p + obj \<le> the (sl_memory s) + SLAB_SIZE" "0 < obj"
    using slab_addr_bound[of s i] i g by (auto simp: good_slab_def wf_slab_def)
  have ge: "the (sl_memory s) \<le> p" using i by (simp add: slab_addr_def)
  show "16 dvd p" using i g obj by (auto simp: slab_addr_def good_slab_def)
  show "0 < p" using ge g by (auto simp: good_slab_def)
  show "p < 2 ^ 64" using b g by (auto simp: good_slab_def)
  show "{p..<p + obj} \<subseteq> slab_region s" "p \<in> slab_region s" using b ge by (auto simp: slab_region_def)
qed

lemma objects_disjoint:
  assumes g: "good_slab obj s" and p: "p \<in> slab_objects s" "q \<in> slab_objects s" "p \<noteq> q"
  shows "{p..<p + obj} \<inter> {q..<q + obj} = {}"
proof -
  obtain i j where ij: "p = slab_addr s i" "q = slab_addr s j" using p by (auto simp: slab_objects_def)
  have obj: "sl_object_size s = obj" using g by (simp add: good_slab_def)
  have "i < j \<or> j < i" using ij p(3) by (cases i j rule: linorder_cases) auto
  then have "Suc i * obj \<le> j * obj \<or> Suc j * obj \<le> i * obj" by (metis Suc_leI mult_le_mono1)
  then show ?thesis using ij obj by (auto simp: slab_addr_def)
qed

lemma live_in_slab:
  assumes "\<forall>s\<in>set ss. good_slab obj s" "p \<in> slabs_live ss"
  obtains s where "s \<in> set ss" "good_slab obj s" "p \<in> slab_objects s"
proof -
  obtain s where s: "s \<in> set ss" "p \<in> slab_live s" using assms(2) by (auto simp: slabs_live_def)
  then have "good_slab obj s" using assms(1) by blast
  moreover from this have "p \<in> slab_objects s" using sl.live_sub[of s] s by (auto simp: good_slab_def)
  ultimately show ?thesis using that s(1) by blast
qed

lemma slab_alloc_shape:
  assumes "wf_slab s" "slab_alloc s = (r, s')"
  shows "sl_memory s' = sl_memory s \<and> sl_object_size s' = sl_object_size s \<and> sl_capacity s' = sl_capacity s"
proof (cases "slab_idx s = {..<sl_capacity s}")
  case True
  then show ?thesis using slab_alloc_None[OF assms(1)] assms(2) by simp
next
  case False
  then show ?thesis using slab_alloc_Some[OF assms(1) False refl] assms(2) by auto
qed

lemma slab_alloc_good:
  assumes g: "good_slab obj s" and a: "slab_alloc s = (Some p, s')"
  shows "good_slab obj s' \<and> slab_region s' = slab_region s \<and> p \<in> slab_objects s \<and> p \<notin> slab_live s \<and>
    slab_live s' = insert p (slab_live s)"
  using sl.take_Some[of s p s'] slab_alloc_shape[of s "Some p" s'] g a
  by (auto simp: good_slab_def slab_region_def)

lemma slabs_alloc_spec:
  assumes "\<forall>s\<in>set ss. good_slab obj s" "sorted_wrt apart ss" "16 dvd obj" "slabs_alloc ss = (r, ss')"
  shows "(\<forall>s\<in>set ss'. good_slab obj s) \<and> map slab_region ss' = map slab_region ss \<and>
    (case r of None \<Rightarrow> ss' = ss
     | Some p \<Rightarrow> p \<notin> slabs_live ss \<and> slabs_live ss' = insert p (slabs_live ss))"
  using assms
proof (induction ss arbitrary: r ss')
  case (Cons s ss)
  have g: "good_slab obj s" using Cons.prems by simp
  show ?case
  proof (cases "slab_alloc s")
    case (Pair q s1)
    show ?thesis
    proof (cases q)
      case (Some p)
      note A = slab_alloc_good[OF g, of p s1]
      have "p \<notin> slabs_live ss"
      proof
        assume "p \<in> slabs_live ss"
        then obtain t where t: "t \<in> set ss" "good_slab obj t" "p \<in> slab_objects t"
          using live_in_slab[of ss obj p] Cons.prems(1) by auto
        have "p \<in> slab_region t" "p \<in> slab_region s"
          using object_facts(5)[OF t(2,3)] object_facts(5)[OF g, of p] A Pair Some Cons.prems(3) by auto
        with t(1) Cons.prems(2) show False by auto
      qed
      then show ?thesis using A Pair Some Cons.prems by auto
    next
      case None
      have full: "s1 = s" using sl.take_None[of s s1] g Pair None by (auto simp: good_slab_def)
      obtain r1 ss1 where r1: "slabs_alloc ss = (r1, ss1)" by fastforce
      have IH: "(\<forall>s\<in>set ss1. good_slab obj s) \<and> map slab_region ss1 = map slab_region ss \<and>
          (case r1 of None \<Rightarrow> ss1 = ss
           | Some p \<Rightarrow> p \<notin> slabs_live ss \<and> slabs_live ss1 = insert p (slabs_live ss))"
        using Cons.IH[OF _ _ _ r1] Cons.prems by simp
      have out: "r = r1" "ss' = s # ss1" using Cons.prems(4) Pair None full r1 by auto
      show ?thesis
      proof (cases r1)
        case None
        then show ?thesis using IH out g by simp
      next
        case (Some p)
        have "p \<in> slabs_live ss1" using IH Some by simp
        then obtain t where t: "t \<in> set ss1" "good_slab obj t" "p \<in> slab_objects t"
          using live_in_slab[of ss1 obj p] IH by auto
        have "slab_region t \<in> set (map slab_region ss)" using t(1) IH by (metis image_eqI list.set_map)
        then have "p \<notin> slab_region s"
          using object_facts(5)[OF t(2,3) Cons.prems(3)] Cons.prems(2) by auto
        moreover have "slab_live s \<subseteq> slab_region s"
          using object_facts(5)[OF g _ Cons.prems(3)] sl.live_sub[of s] g by (auto simp: good_slab_def)
        ultimately show ?thesis using IH out g Some by auto
      qed
    qed
  qed
qed simp

section \<open>The invariant of a size class\<close>

abbreviation next_in :: "heap_mem \<Rightarrow> nat \<Rightarrow> nat option" where
  "next_in m \<equiv> (\<lambda>p. node_next (m p))"

definition sc_inv :: "heap_mem \<Rightarrow> size_class_allocator \<Rightarrow> nat list \<Rightarrow> nat set \<Rightarrow> bool" where
  "sc_inv m a xs live \<longleftrightarrow>
     linked (next_in m) (sc_free_list a) xs \<and> 16 dvd sc_object_size a \<and>
     (\<forall>s\<in>set (sc_slabs a). good_slab (sc_object_size a) s) \<and> sorted_wrt apart (sc_slabs a) \<and>
     set xs \<inter> live = {} \<and> set xs \<union> live = slabs_live (sc_slabs a)"

definition sc_region :: "size_class_allocator \<Rightarrow> nat set" where
  "sc_region a = (\<Union>s\<in>set (sc_slabs a). slab_region s)"

lemma sc_invD:
  assumes "sc_inv m a xs live"
  shows "linked (next_in m) (sc_free_list a) xs" "16 dvd sc_object_size a"
    "\<forall>s\<in>set (sc_slabs a). good_slab (sc_object_size a) s" "sorted_wrt apart (sc_slabs a)"
    "set xs \<inter> live = {}" "set xs \<union> live = slabs_live (sc_slabs a)"
  using assms by (auto simp: sc_inv_def)

text \<open>Only the cells on the free list matter.\<close>

lemma sc_inv_cong:
  assumes i: "sc_inv m a xs live" and same: "\<And>p. p \<in> set xs \<Longrightarrow> hc_w0 (m' p) = hc_w0 (m p)"
  shows "sc_inv m' a xs live"
proof -
  have "linked (next_in m') (sc_free_list a) xs = linked (next_in m) (sc_free_list a) xs"
    by (rule linked_cong) (simp add: same node_next_def)
  then show ?thesis using i by (simp add: sc_inv_def)
qed

lemma sc_obj:
  assumes i: "sc_inv m a xs live" and p: "p \<in> set xs \<union> live"
  shows "16 dvd p" "0 < p" "p < 2 ^ 64" "{p..<p + sc_object_size a} \<subseteq> sc_region a" "p \<in> sc_region a"
proof -
  have "p \<in> slabs_live (sc_slabs a)" using sc_invD(6)[OF i] p by simp
  then obtain s where s: "s \<in> set (sc_slabs a)" "good_slab (sc_object_size a) s" "p \<in> slab_objects s"
    using live_in_slab[OF sc_invD(3)[OF i]] by blast
  note f = object_facts[OF s(2,3) sc_invD(2)[OF i]]
  show "16 dvd p" "0 < p" "p < 2 ^ 64" using f by auto
  show "{p..<p + sc_object_size a} \<subseteq> sc_region a" "p \<in> sc_region a"
    using f(4,5) s(1) by (auto simp: sc_region_def)
qed

lemma sorted_apart:
  assumes "sorted_wrt apart ss" "s \<in> set ss" "t \<in> set ss"
  shows "s = t \<or> apart s t"
  using assms by (induction ss) auto

lemma sc_disjoint:
  assumes i: "sc_inv m a xs live" and p: "p \<in> set xs \<union> live" "q \<in> set xs \<union> live" "p \<noteq> q"
  shows "{p..<p + sc_object_size a} \<inter> {q..<q + sc_object_size a} = {}"
proof -
  note good = sc_invD(3)[OF i] and obj = sc_invD(2)[OF i]
  obtain s where s: "s \<in> set (sc_slabs a)" "good_slab (sc_object_size a) s" "p \<in> slab_objects s"
    using live_in_slab[OF good, of p] p(1) sc_invD(6)[OF i] by blast
  obtain t where t: "t \<in> set (sc_slabs a)" "good_slab (sc_object_size a) t" "q \<in> slab_objects t"
    using live_in_slab[OF good, of q] p(2) sc_invD(6)[OF i] by blast
  show ?thesis
  proof (cases "s = t")
    case True
    then show ?thesis using objects_disjoint[OF s(2,3), of q] t(3) p(3) by simp
  next
    case False
    then have "apart s t" using sorted_apart[OF sc_invD(4)[OF i] s(1) t(1)] by blast
    then show ?thesis using object_facts(4)[OF s(2,3) obj] object_facts(4)[OF t(2,3) obj] by blast
  qed
qed

lemma sc_inv_other_fields [simp]:
  "sc_inv m (a\<lparr>sc_num_allocations := n\<rparr>) xs live = sc_inv m a xs live"
  "sc_inv m (a\<lparr>sc_num_frees := n\<rparr>) xs live = sc_inv m a xs live"
  "sc_inv m (a\<lparr>sc_num_slabs := n\<rparr>) xs live = sc_inv m a xs live"
  "sc_inv m (a\<lparr>sc_generation := n\<rparr>) xs live = sc_inv m a xs live"
  by (simp_all add: sc_inv_def)

lemma pop_free_spec:
  assumes "sc_inv m a (x # xs) live"
  shows "pop_free m a = (Some x, a\<lparr>sc_free_list := node_next (m x)\<rparr>) \<and>
    sc_inv m (a\<lparr>sc_free_list := node_next (m x)\<rparr>) xs (insert x live)"
proof -
  have "x \<notin> set xs" using linked_distinct[OF sc_invD(1)[OF assms]] by simp
  then show ?thesis using assms by (auto simp: sc_inv_def pop_free_def)
qed

text \<open>Pushing an object the client held.\<close>

lemma push_node_spec:
  assumes i: "sc_inv m a xs live" and p: "p \<in> live" and r: "push_node g p (m, a) = (m', a')"
  shows "sc_inv m' a' (p # xs) (live - {p}) \<and> sc_slabs a' = sc_slabs a \<and>
    sc_object_size a' = sc_object_size a \<and> sc_generation a' = sc_generation a \<and>
    m' = m(p := (m p)\<lparr>hc_w0 := ptr_word (sc_free_list a), hc_w1 := g\<rparr>) \<and> hdr_magic (m' p) \<noteq> ALLOC_MAGIC"
proof -
  have nin: "p \<notin> set xs" using sc_invD(5)[OF i] p by auto
  have hd: "16 dvd b \<and> 0 < b \<and> b < 2 ^ 64" if "sc_free_list a = Some b" for b
  proof -
    have "b \<in> set xs" using sc_invD(1)[OF i] that by (auto simp: linked_Some)
    then show ?thesis using sc_obj[OF i, of b] by blast
  qed
  have m': "m' = m(p := (m p)\<lparr>hc_w0 := ptr_word (sc_free_list a), hc_w1 := g\<rparr>)"
    "a' = a\<lparr>sc_free_list := Some p\<rparr>" using r by (auto simp: push_node_def)
  have nx: "node_next (m' p) = sc_free_list a"
    using word_ptr_word[of "sc_free_list a"] hd by (simp add: m' node_next_def)
  have "linked (next_in m') (sc_free_list a) xs = linked (next_in m) (sc_free_list a) xs"
    using nin by (intro linked_cong) (auto simp: m')
  then have "linked (next_in m') (sc_free_list a') (p # xs)"
    using sc_invD(1)[OF i] nx m'(2) by simp
  moreover have "hdr_magic (m' p) \<noteq> ALLOC_MAGIC"
    using node_not_magic[where p = "sc_free_list a" and c = "m p" and g = g] hd by (simp add: m')
  moreover have "set (p # xs) \<inter> (live - {p}) = {}" "set (p # xs) \<union> (live - {p}) = set xs \<union> live"
    using nin p sc_invD(5)[OF i] by auto
  ultimately show ?thesis using i m' by (simp add: sc_inv_def)
qed

section \<open>Allocation from a size class\<close>

lemma sc_take_slabs:
  assumes i: "sc_inv m a xs live" and t: "slabs_alloc (sc_slabs a) = (Some p, ss')"
  shows "sc_inv m (a\<lparr>sc_slabs := ss'\<rparr>) xs (insert p live) \<and> p \<notin> set xs \<union> live \<and>
    map slab_region ss' = map slab_region (sc_slabs a)"
proof -
  note spec = slabs_alloc_spec[OF sc_invD(3,4,2)[OF i] t]
  have "sorted_wrt (\<lambda>A B. A \<inter> B = {}) (map slab_region ss')"
    using spec sc_invD(4)[OF i] by (simp add: sorted_wrt_map)
  then have "sorted_wrt apart ss'" by (simp add: sorted_wrt_map)
  then show ?thesis using spec i by (auto simp: sc_inv_def)
qed

lemma refill_spec:
  assumes "sc_inv m (a\<lparr>sc_slabs := s # ss\<rparr>) xs live" "refill n s (m, a) = (s', m', a')"
  shows "\<exists>xs'. sc_inv m' (a'\<lparr>sc_slabs := s' # ss\<rparr>) xs' live \<and> sc_slabs a' = sc_slabs a \<and>
    sc_object_size a' = sc_object_size a \<and> slab_region s' = slab_region s \<and>
    (\<forall>p. p \<in> live \<or> p \<notin> slab_region s \<longrightarrow> m' p = m p)"
  using assms
proof (induction n arbitrary: m a s xs)
  case (Suc n)
  let ?a = "a\<lparr>sc_slabs := s # ss\<rparr>"
  have good: "good_slab (sc_object_size a) s" and obj: "16 dvd sc_object_size a"
    using sc_invD(2,3)[OF Suc.prems(1)] by auto
  show ?case
  proof (cases "slab_alloc s")
    case (Pair q s1)
    show ?thesis
    proof (cases q)
      case None
      have "s1 = s" using sl.take_None[of s s1] good Pair None by (auto simp: good_slab_def)
      then show ?thesis using Suc.prems Pair None by auto
    next
      case (Some p)
      have t: "slabs_alloc (sc_slabs ?a) = (Some p, s1 # ss)" using Pair Some by simp
      note T = sc_take_slabs[OF Suc.prems(1) t]
      have pr: "p \<in> slab_region s"
        using slab_alloc_good[OF good, of p s1] Pair Some object_facts(5)[OF good _ obj] by auto
      let ?a1 = "a\<lparr>sc_slabs := s1 # ss, sc_generation := sc_generation a + 1\<rparr>"
      have i1: "sc_inv m ?a1 xs (insert p live)" using T by simp
      obtain m2 b2 where push: "push_node (sc_generation a) p (m, ?a1) = (m2, b2)" by fastforce
      note P = push_node_spec[OF i1 insertI1 push]
      let ?b = "a\<lparr>sc_generation := sc_generation a + 1, sc_free_list := Some p\<rparr>"
      have step: "push_node (sc_generation a) p (m, a\<lparr>sc_generation := sc_generation a + 1\<rparr>) = (m2, ?b)"
        and b2: "b2 = ?b\<lparr>sc_slabs := s1 # ss\<rparr>"
        using push by (auto simp: push_node_def)
      have live: "insert p live - {p} = live" using T by auto
      have i2: "sc_inv m2 (?b\<lparr>sc_slabs := s1 # ss\<rparr>) (p # xs) live" using conjunct1[OF P] unfolding b2 live by blast
      have r2: "refill n s1 (m2, ?b) = (s', m', a')" using Suc.prems(2) Pair Some step by simp
      have reg: "slab_region s1 = slab_region s" using T by simp
      have m2: "m2 q = m q" if "q \<in> live \<or> q \<notin> slab_region s" for q
        using that P T pr by auto
      obtain xs' where xs': "sc_inv m' (a'\<lparr>sc_slabs := s' # ss\<rparr>) xs' live" "sc_slabs a' = sc_slabs ?b"
        "sc_object_size a' = sc_object_size ?b" "slab_region s' = slab_region s1"
        "\<forall>p. p \<in> live \<or> p \<notin> slab_region s1 \<longrightarrow> m' p = m2 p"
        using Suc.IH[OF i2 r2] by blast
      then show ?thesis using reg m2 by (intro exI[of _ xs']) simp
    qed
  qed
qed auto

text \<open>What the system's allocators promise: fresh, aligned, non-null memory inside the address space.\<close>

definition slab_env_ok :: "slab_env \<Rightarrow> nat set \<Rightarrow> bool" where
  "slab_env_ok e R \<longleftrightarrow> (\<forall>m. se_hugepages e = Some m \<or> se_malloc e = Some m \<longrightarrow>
     0 < m \<and> m + SLAB_SIZE \<le> 2 ^ 64 \<and> 16 dvd m \<and> {m..<m + SLAB_SIZE} \<inter> R = {})"

definition class_full :: "size_class_allocator \<Rightarrow> bool" where
  "class_full a \<longleftrightarrow> (\<forall>s\<in>set (sc_slabs a). slab_live s = slab_objects s)"

lemma slabs_alloc_full:
  assumes "\<forall>s\<in>set ss. wf_slab s" "slabs_alloc ss = (None, ss')"
  shows "\<forall>s\<in>set ss. slab_live s = slab_objects s"
  using assms
proof (induction ss arbitrary: ss')
  case (Cons s ss)
  obtain q s1 where q: "slab_alloc s = (q, s1)" by fastforce
  then have "q = None" using Cons.prems by (cases q) auto
  then show ?case using Cons q sl.take_None[of s s1] by (auto split: prod.splits)
qed simp

lemma sc_grow_spec:
  assumes i: "sc_inv m a xs live" and env: "slab_env_ok e R" and R: "sc_region a \<subseteq> R"
    and g: "sc_grow e h m a = (r, oom, m', a')"
  shows "if fst (allocate_slab e (sc_object_size a)) = None
    then r = None \<and> oom \<and> m' = m \<and> a' = a
    else \<exists>p xs'. r = Some p \<and> \<not> oom \<and> sc_inv m' a' xs' (insert p live) \<and> p \<notin> set xs \<union> live \<and>
      sc_object_size a' = sc_object_size a \<and> sc_region a \<subseteq> sc_region a' \<and>
      sc_region a' \<inter> R \<subseteq> sc_region a \<and> (\<forall>q\<in>R. m' q = m q)"
proof (cases "allocate_slab e (sc_object_size a)")
  case (Pair n rel)
  show ?thesis
  proof (cases n)
    case None
    then show ?thesis using Pair g by (simp add: sc_grow_def)
  next
    case (Some s)
    note W = allocate_slab_wf[of e "sc_object_size a" s rel]
    let ?o = "sc_object_size a" and ?ss = "sc_slabs a"
    have wf: "wf_slab s" "slab_live s = {}" "sl_object_size s = ?o" using W Pair Some by auto
    have mem: "se_hugepages e = sl_memory s \<or> se_malloc e = sl_memory s" "sl_memory s \<noteq> None"
      using W Pair Some wf(1) by (auto simp: wf_slab_def split: option.splits)
    then obtain base where base: "sl_memory s = Some base" by auto
    have good: "good_slab ?o s" and fresh: "slab_region s \<inter> R = {}"
      using env mem(1) base wf by (auto simp: slab_env_ok_def good_slab_def slab_region_def)
    have apart_s: "\<forall>t\<in>set ?ss. apart s t" using fresh R by (auto simp: sc_region_def)
    have i0: "sc_inv m (a\<lparr>sc_slabs := s # ?ss\<rparr>) xs live"
      using i good apart_s wf(2) by (simp add: sc_inv_def)
    obtain q s1 where q: "slab_alloc s = (q, s1)" by fastforce
    have "q \<noteq> None"
    proof
      assume "q = None"
      then have "slab_objects s = {}" using sl.take_None[of s s1] wf q by auto
      moreover have "0 < sl_capacity s" using wf(1) by (simp add: wf_slab_def div_greater_zero_iff)
      ultimately show False by (auto simp: slab_objects_def)
    qed
    then obtain p where p: "q = Some p" by auto
    have t: "slabs_alloc (sc_slabs (a\<lparr>sc_slabs := s # ?ss\<rparr>)) = (Some p, s1 # ?ss)" using q p by simp
    note T = sc_take_slabs[OF i0 t]
    have reg: "slab_region s1 = slab_region s" using T by simp
    let ?a1 = "a\<lparr>sc_num_slabs := sc_num_slabs a + 1\<rparr>"
    obtain s2 m2 a2 where f: "refill (batch_size h s) s1 (m, ?a1) = (s2, m2, a2)" by (metis prod_cases3)
    have i1: "sc_inv m (?a1\<lparr>sc_slabs := s1 # ?ss\<rparr>) xs (insert p live)"
      using conjunct1[OF T] by (simp add: sc_inv_def)
    obtain xs' where xs': "sc_inv m2 (a2\<lparr>sc_slabs := s2 # ?ss\<rparr>) xs' (insert p live)" "sc_slabs a2 = ?ss"
      "sc_object_size a2 = ?o" "slab_region s2 = slab_region s"
      "\<forall>q. q \<in> insert p live \<or> q \<notin> slab_region s \<longrightarrow> m2 q = m q"
      using refill_spec[OF i1 f] reg by auto
    have out: "r = Some p" "\<not> oom" "m' = m2" "a' = a2\<lparr>sc_slabs := s2 # ?ss\<rparr>"
      using g Pair Some q p f xs'(2) by (auto simp: sc_grow_def Let_def)
    have regs: "sc_region a' = slab_region s \<union> sc_region a" using out xs'(4) by (simp add: sc_region_def)
    then have "sc_region a \<subseteq> sc_region a' \<and> sc_region a' \<inter> R \<subseteq> sc_region a" using fresh by blast
    moreover have "\<forall>q\<in>R. m' q = m q" using xs'(5) fresh out by blast
    ultimately show ?thesis using xs' out T Pair Some by auto
  qed
qed

lemma sc_alloc_spec:
  assumes i: "sc_inv m a xs live" and env: "slab_env_ok e R" and R: "sc_region a \<subseteq> R"
    and g: "sc_alloc e h m a = (r, oom, m', a')"
  shows "case r of
      None \<Rightarrow> oom \<and> m' = m \<and> a' = a \<and> xs = [] \<and> class_full a \<and> fst (allocate_slab e (sc_object_size a)) = None
    | Some p \<Rightarrow> \<not> oom \<and> p \<notin> live \<and> (\<exists>xs'. sc_inv m' a' xs' (insert p live)) \<and>
      sc_object_size a' = sc_object_size a \<and> sc_region a \<subseteq> sc_region a' \<and>
      sc_region a' \<inter> R \<subseteq> sc_region a \<and> (\<forall>q\<in>R. m' q = m q)"
proof (cases xs)
  case (Cons x ys)
  note P = pop_free_spec[of m a x ys live]
  have "x \<notin> live" using sc_invD(5)[OF i] Cons by auto
  moreover have "sc_region (a\<lparr>sc_free_list := b, sc_num_allocations := c\<rparr>) = sc_region a" for b c
    by (simp add: sc_region_def)
  ultimately show ?thesis using P g i Cons
    by (auto simp: sc_alloc_def Let_def)
next
  case Nil
  have pop: "pop_free m a = (None, a)" using sc_invD(1)[OF i] Nil by (simp add: pop_free_def)
  obtain q ss where q: "slabs_alloc (sc_slabs a) = (q, ss)" by fastforce
  show ?thesis
  proof (cases q)
    case (Some p)
    note T = sc_take_slabs[OF i, of p ss]
    have out: "r = Some p" "\<not> oom" "m' = m"
      "a' = a\<lparr>sc_slabs := ss, sc_num_allocations := sc_num_allocations a + 1\<rparr>"
      using g pop q Some by (auto simp: sc_alloc_def)
    have "sc_region a' = \<Union> (set (map slab_region ss))" using out by (simp add: sc_region_def)
    also have "\<dots> = sc_region a" using T q Some by (simp add: sc_region_def)
    finally show ?thesis using T out q Some by auto
  next
    case None
    have ss: "ss = sc_slabs a" using slabs_alloc_spec[OF sc_invD(3,4,2)[OF i], of q ss] q None by simp
    then have same: "a\<lparr>sc_slabs := ss\<rparr> = a" by simp
    have full: "class_full a"
      using slabs_alloc_full[of "sc_slabs a" ss] q None sc_invD(3)[OF i] by (auto simp: class_full_def good_slab_def)
    obtain r1 oom1 m1 a1 where gr: "sc_grow e h m a = (r1, oom1, m1, a1)" by (metis prod_cases4)
    note G = sc_grow_spec[OF i env R gr]
    have out: "r = r1" "oom = oom1" "m' = m1"
      "a' = (if r1 \<noteq> None then a1\<lparr>sc_num_allocations := sc_num_allocations a1 + 1\<rparr> else a1)"
      using g pop q None same gr by (auto simp: sc_alloc_def Let_def split: if_splits)
    have regs: "sc_region (b\<lparr>sc_num_allocations := c\<rparr>) = sc_region b" for b c by (simp add: sc_region_def)
    show ?thesis
    proof (cases "fst (allocate_slab e (sc_object_size a)) = None")
      case True
      then show ?thesis using G out Nil full by simp
    next
      case False
      then obtain p xs' where "r1 = Some p" "\<not> oom1" "sc_inv m1 a1 xs' (insert p live)" "p \<notin> live"
        "sc_object_size a1 = sc_object_size a" "sc_region a \<subseteq> sc_region a1"
        "sc_region a1 \<inter> R \<subseteq> sc_region a" "\<forall>q\<in>R. m1 q = m q"
        using G by auto
      then show ?thesis using out regs by auto
    qed
  qed
qed

lemma sc_free_spec:
  assumes i: "sc_inv m a xs live" and p: "p \<in> live" and f: "sc_free p m a = (m', a')"
  shows "sc_inv m' a' (p # xs) (live - {p}) \<and> sc_region a' = sc_region a \<and>
    sc_object_size a' = sc_object_size a \<and> hdr_magic (m' p) \<noteq> ALLOC_MAGIC \<and> (\<forall>q. q \<noteq> p \<longrightarrow> m' q = m q)"
proof -
  have i1: "sc_inv m (a\<lparr>sc_generation := sc_generation a + 1\<rparr>) xs live" using i by simp
  obtain m2 a2 where push: "push_node (sc_generation a) p (m, a\<lparr>sc_generation := sc_generation a + 1\<rparr>) = (m2, a2)"
    by fastforce
  have out: "m' = m2" "a' = a2\<lparr>sc_num_frees := sc_num_frees a2 + 1\<rparr>"
    using f push by (auto simp: sc_free_def Let_def)
  note P = push_node_spec[OF i1 p push]
  then have "sc_region a' = sc_region a" using out by (simp add: sc_region_def)
  then show ?thesis using P out by auto
qed

end
