(* ===== verification/Heap_Safety.thy ===== *)
theory Heap_Safety
  imports Heap_Classes
begin

text \<open>
  Executions of the whole persistent heap and what they keep: \<open>heap_run debug h L\<close> holds of every
  state reached from \<open>lgx_persistent_heap_init\<close> by allocations, frees of live pointers and writes of
  the client into its own payloads; \<open>L\<close> maps the header address of every live allocation to its
  size and its size class (\<open>-1\<close> for the buddy allocator).
\<close>

section \<open>The buddy pool inside the heap\<close>

lemma split_block_memory: "ba_memory (snd (split_block b k x)) = ba_memory b"
  by (simp add: split_block_def Let_def set_head_def set_hdr_def)

lemma buddy_split_memory: "ba_memory (snd (buddy_split b k)) = ba_memory b"
proof (induction b k rule: buddy_split.induct)
  case (1 b k)
  obtain r b1 where r: "buddy_split b (Suc k) = (r, b1)" by fastforce
  then have IH: "k < 14 \<Longrightarrow> ba_free_lists b (Suc k) = None \<Longrightarrow> ba_memory b1 = ba_memory b"
    using "1.IH" by simp
  show ?case
    using r IH by (subst buddy_split.simps)
      (auto simp: split_block_memory split: option.splits)
qed

lemma buddy_alloc_memory: "buddy_alloc b n = (r, b') \<Longrightarrow> ba_memory b' = ba_memory b"
proof -
  assume a: "buddy_alloc b n = (r, b')"
  have find: "ba_memory (snd (buddy_find b k)) = ba_memory b" for k
    by (simp add: buddy_find_def buddy_split_memory split: option.splits)
  have take_mem: "ba_memory (snd (buddy_take c k x n)) = ba_memory c" for c k x
    by (simp add: buddy_take_def Let_def set_head_def set_hdr_def)
  show ?thesis
    using a find[of "size_to_order (n + sizeof_buddy_block)"] take_mem
    by (auto simp: buddy_alloc_def Let_def split: if_splits prod.splits option.splits) (metis snd_conv)+
qed

lemma buddy_free_memory:
  assumes "buddy_free b p = Some b'"
  shows "ba_memory b' = ba_memory b"
proof -
  have co: "ba_memory c' = ba_memory c" if "buddy_coalesce c x = Some (m, c')" for c x m c'
    using coalesce_keeps[OF that] by simp
  show ?thesis
    using assms
    by (auto simp: buddy_free_def Let_def set_head_def set_hdr_def split: if_splits option.splits prod.splits
        dest!: co)
qed

lemma order14_alone:
  assumes run: "buddy_run b A" and x: "(x, 14) \<in> A"
  shows "A = {(0, 14)}"
proof -
  obtain F where c: "buddy_core b F A {}" using run_core[OF run] by blast
  have x0: "x = 0" using core_in_pool(1)[OF c, of x 14] x by (simp add: order_to_size_14)
  have "a = (0, 14)" if a: "a \<in> A" for a
  proof (rule ccontr)
    assume "a \<noteq> (0, 14)"
    then have d: "blk_range order_to_size a \<inter> blk_range order_to_size (0, 14) = {}"
      using tiling_disjoint[OF coreD(10)[OF c], of a "(0, 14)"] a x x0 by auto
    have "fst a + order_to_size (snd a) \<le> 67108864" using core_in_pool(1)[OF c, of "fst a" "snd a"] a by simp
    then have "fst a < 67108864" using order_to_size_pos[of "snd a"] by linarith
    then have "fst a \<in> blk_range order_to_size a" "fst a \<in> blk_range order_to_size (0, 14)"
      by (auto simp: blk_range_def order_to_size_14)
    with d show False by blast
  qed
  with x x0 show ?thesis by blast
qed

section \<open>The invariant\<close>

definition class_live :: "(nat \<rightharpoonup> nat \<times> int) \<Rightarrow> int \<Rightarrow> nat set" where
  "class_live L c = {p. \<exists>n. L p = Some (n, c)}"

definition pool_region :: "buddy_allocator \<Rightarrow> nat set" where
  "pool_region b = {pool_base b..<pool_base b + BUDDY_POOL_SIZE}"

text \<open>The buddy block behind a large allocation.\<close>

definition blk_of :: "bool \<Rightarrow> buddy_allocator \<Rightarrow> (nat \<rightharpoonup> nat \<times> int) \<Rightarrow> nat \<Rightarrow> blk" where
  "blk_of debug b L p = (p - pool_base b - sizeof_buddy_block,
     size_to_order (fst (the (L p)) + sizeof_header debug + sizeof_buddy_block))"

definition header_ok :: "bool \<Rightarrow> buddy_allocator \<Rightarrow> heap_cell \<Rightarrow> nat \<Rightarrow> nat \<Rightarrow> int \<Rightarrow> bool" where
  "header_ok debug b c p n cl \<longleftrightarrow>
     hdr_magic c = ALLOC_MAGIC \<and> hdr_size c = word_of_nat n \<and> hdr_class c = cl \<and> 0 < n \<and>
     -1 \<le> cl \<and> cl < 16 \<and>
     (if cl = -1 then pool_base b + sizeof_buddy_block \<le> p \<and>
        p + sizeof_header debug + n \<le> pool_base b + BUDDY_POOL_SIZE
      else n + sizeof_header debug \<le> class_to_size (nat cl))"

definition heap_core ::
    "bool \<Rightarrow> heap_mem \<Rightarrow> (nat \<Rightarrow> size_class_allocator) \<Rightarrow> buddy_allocator \<Rightarrow> (nat \<Rightarrow> nat list) \<Rightarrow>
     (nat \<rightharpoonup> nat \<times> int) \<Rightarrow> bool" where
  "heap_core debug m cs b X L \<longleftrightarrow>
     (\<forall>i<16. sc_inv m (cs i) (X i) (class_live L (int i)) \<and> sc_object_size (cs i) = class_to_size i) \<and>
     (\<forall>i<16. \<forall>j<16. i \<noteq> j \<longrightarrow> sc_region (cs i) \<inter> sc_region (cs j) = {}) \<and>
     (\<forall>i<16. sc_region (cs i) \<inter> pool_region b = {}) \<and>
     buddy_run b (blk_of debug b L ` class_live L (-1)) \<and>
     (\<forall>p n c. L p = Some (n, c) \<longrightarrow> header_ok debug b (m p) p n c)"

definition total_live :: "(nat \<rightharpoonup> nat \<times> int) \<Rightarrow> nat" where
  "total_live L = (\<Sum>p\<in>dom L. fst (the (L p)))"

definition heap_inv :: "bool \<Rightarrow> persistent_heap \<Rightarrow> (nat \<rightharpoonup> nat \<times> int) \<Rightarrow> bool" where
  "heap_inv debug h L \<longleftrightarrow>
     ph_initialized h \<and>
     (\<exists>X. heap_core debug (ph_mem h) (ph_size_classes h) (ph_buddy h) X L) \<and>
     finite (dom L) \<and> card (dom L) \<le> MAX_ACTIVE_ALLOCATIONS \<and> total_live L \<le> MAX_HEAP_SIZE \<and>
     ph_num_active_allocations h = word_of_nat (card (dom L)) \<and>
     ph_current_bytes_allocated h = word_of_nat (total_live L)"

definition heap_region :: "(nat \<Rightarrow> size_class_allocator) \<Rightarrow> buddy_allocator \<Rightarrow> nat set" where
  "heap_region cs b = (\<Union>i<16. sc_region (cs i)) \<union> pool_region b"

text \<open>The bytes of a live allocation, header included.\<close>

definition alloc_range :: "bool \<Rightarrow> (nat \<rightharpoonup> nat \<times> int) \<Rightarrow> nat \<Rightarrow> nat set" where
  "alloc_range debug L p = {p..<p + sizeof_header debug + fst (the (L p))}"

lemma heap_coreD:
  assumes "heap_core debug m cs b X L"
  shows "i < 16 \<Longrightarrow> sc_inv m (cs i) (X i) (class_live L (int i))"
    "i < 16 \<Longrightarrow> sc_object_size (cs i) = class_to_size i"
    "i < 16 \<Longrightarrow> j < 16 \<Longrightarrow> i \<noteq> j \<Longrightarrow> sc_region (cs i) \<inter> sc_region (cs j) = {}"
    "i < 16 \<Longrightarrow> sc_region (cs i) \<inter> pool_region b = {}"
    "buddy_run b (blk_of debug b L ` class_live L (-1))"
    "L p = Some (n, c) \<Longrightarrow> header_ok debug b (m p) p n c"
  using assms by (auto simp: heap_core_def)

lemma sizeof_header_ge: "24 \<le> sizeof_header debug" "sizeof_header debug \<le> 40" "0 < sizeof_header debug"
  by (auto simp: sizeof_header_def)

text \<open>Where a live allocation lies.\<close>

lemma live_cases:
  assumes c: "heap_core debug m cs b X L" and p: "L p = Some (n, cl)"
  obtains (small) i where "i < 16" "cl = int i" "p \<in> class_live L (int i)"
      "alloc_range debug L p \<subseteq> {p..<p + sc_object_size (cs i)}" "{p..<p + sc_object_size (cs i)} \<subseteq> sc_region (cs i)"
      "p \<in> sc_region (cs i)"
  | (large) "cl = -1" "p \<in> class_live L (-1)" "alloc_range debug L p \<subseteq> pool_region b" "p \<in> pool_region b"
      "pool_base b + sizeof_buddy_block \<le> p" "p + sizeof_header debug + n \<le> pool_base b + BUDDY_POOL_SIZE"
proof (cases "cl = -1")
  case True
  have h: "header_ok debug b (m p) p n cl" using heap_coreD(6)[OF c p] .
  then have "pool_base b + sizeof_buddy_block \<le> p" "p + sizeof_header debug + n \<le> pool_base b + BUDDY_POOL_SIZE"
    "0 < n"
    using True by (auto simp: header_ok_def)
  moreover from this have "alloc_range debug L p \<subseteq> pool_region b" "p \<in> pool_region b"
    using p sizeof_header_ge(3)[of debug] by (auto simp: alloc_range_def pool_region_def)
  ultimately show thesis using large True p by (auto simp: class_live_def)
next
  case False
  have h: "header_ok debug b (m p) p n cl" using heap_coreD(6)[OF c p] .
  define i where "i = nat cl"
  have i: "i < 16" "cl = int i" using h False by (auto simp: header_ok_def i_def)
  have fits: "n + sizeof_header debug \<le> class_to_size i" using h False by (simp add: header_ok_def i_def)
  have live: "p \<in> class_live L (int i)" using p i(2) by (auto simp: class_live_def)
  note o = sc_obj[OF heap_coreD(1)[OF c i(1)], of p]
  have "alloc_range debug L p \<subseteq> {p..<p + sc_object_size (cs i)}"
    using fits p heap_coreD(2)[OF c i(1)] by (auto simp: alloc_range_def)
  then show thesis using small i live o(4,5) by blast
qed

lemma large_above:
  assumes c: "heap_core debug m cs b X L" and p: "p \<in> class_live L (-1)"
  shows "pool_base b + 24 \<le> p"
proof -
  obtain n where "L p = Some (n, -1)" using p by (auto simp: class_live_def)
  from heap_coreD(6)[OF c this] show ?thesis by (simp add: header_ok_def sizeof_buddy_block_def)
qed

lemma blk_of_inj:
  assumes "heap_core debug m cs b X L" "p \<in> class_live L (-1)" "q \<in> class_live L (-1)"
    "blk_of debug b L p = blk_of debug b L q"
  shows "p = q"
proof -
  have "pool_base b + 24 \<le> p" "pool_base b + 24 \<le> q"
    using large_above[OF assms(1)] assms(2,3) by auto
  then show ?thesis using assms(4) by (auto simp: blk_of_def sizeof_buddy_block_def)
qed

text \<open>The client's allocations never overlap, headers included.\<close>

lemma live_disjoint:
  assumes c: "heap_core debug m cs b X L" and p: "L p = Some (n, cl)" and q: "L q = Some (n', cl')"
    and pq: "p \<noteq> q"
  shows "alloc_range debug L p \<inter> alloc_range debug L q = {}"
proof (rule live_cases[OF c p], goal_cases small large)
  case (small i)
  note P = small
  show ?case
  proof (rule live_cases[OF c q], goal_cases small large)
    case (small j)
    show ?case
    proof (cases "i = j")
      case True
      then have "{p..<p + sc_object_size (cs i)} \<inter> {q..<q + sc_object_size (cs i)} = {}"
        using sc_disjoint[OF heap_coreD(1)[OF c P(1)], of p q] P(3) small(3) pq by simp
      then show ?thesis using P(4) small(4) True by blast
    next
      case False
      then show ?thesis using heap_coreD(3)[OF c P(1) small(1)] P(4,5) small(4,5) by blast
    qed
  next
    case large
    then show ?case using heap_coreD(4)[OF c P(1)] P(4,5) by blast
  qed
next
  case large
  note P = large
  show ?case
  proof (rule live_cases[OF c q], goal_cases small large)
    case (small j)
    then show ?case using heap_coreD(4)[OF c small(1)] P(3) by blast
  next
    case large
    let ?A = "blk_of debug b L ` class_live L (-1)"
    let ?x = "blk_of debug b L p" and ?y = "blk_of debug b L q"
    have run: "buddy_run b ?A" using heap_coreD(5)[OF c] .
    have ne: "?x \<noteq> ?y" using blk_of_inj[OF c P(2) large(2)] pq by blast
    obtain F where f: "buddy_core b F ?A {}" using run_core[OF run] by blast
    have mem: "?x \<in> ?A" "?y \<in> ?A" using P(2) large(2) by auto
    have disj: "blk_range order_to_size ?x \<inter> blk_range order_to_size ?y = {}"
      using tiling_disjoint[OF coreD(10)[OF f], of ?x ?y] mem ne by auto
    have not14: "snd z \<noteq> 14" if z: "z \<in> ?A" for z
    proof
      assume "snd z = 14"
      then have "(fst z, 14) \<in> ?A" using z by (metis prod.collapse)
      then have "?A = {(0, 14)}" using order14_alone[OF run] by blast
      then show False using mem ne by (metis singletonD)
    qed
    have inc: "t - pool_base b \<in> blk_range order_to_size (blk_of debug b L r)"
      if r: "r \<in> class_live L (-1)" "pool_base b + 24 \<le> r" and t: "t \<in> alloc_range debug L r" for r t
    proof -
      let ?n = "fst (the (L r)) + sizeof_header debug + 24"
      have "size_to_order ?n \<noteq> 14"
        using not14[of "blk_of debug b L r"] r(1) by (auto simp: blk_of_def sizeof_buddy_block_def)
      then have "?n \<le> order_to_size (size_to_order ?n)" using size_to_order_spec(2)[of ?n] by blast
      then show ?thesis using t r(2)
        by (auto simp: blk_range_def blk_of_def alloc_range_def sizeof_buddy_block_def)
    qed
    have "pool_base b + 24 \<le> p" "pool_base b + 24 \<le> q"
      using P(5) large(5) by (auto simp: sizeof_buddy_block_def)
    then show ?case using inc[OF P(2)] inc[OF large(2)] disj by blast
  qed
qed

section \<open>Allocating and freeing keep the invariant\<close>

lemma class_live_upd:
  "L p = None \<Longrightarrow> class_live (L(p \<mapsto> (n, c))) c' = (if c' = c then insert p (class_live L c') else class_live L c')"
  "class_live (L(p := None)) c' = class_live L c' - {p}"
  by (auto simp: class_live_def)

lemma live_in_region:
  assumes c: "heap_core debug m cs b X L" and p: "L p = Some v"
  shows "p \<in> heap_region cs b"
  by (rule live_cases[OF c, of p "fst v" "snd v"]) (use p in \<open>auto simp: heap_region_def\<close>)

lemma free_in_region:
  "heap_core debug m cs b X L \<Longrightarrow> i < 16 \<Longrightarrow> p \<in> set (X i) \<Longrightarrow> p \<in> sc_region (cs i)"
  using sc_obj(5)[OF heap_coreD(1), of debug m cs b X L i p] by blast

lemma header_ok_mk:
  assumes "0 < n" "-1 \<le> cl" "cl < 16"
    "if cl = -1 then pool_base b + sizeof_buddy_block \<le> p \<and>
        p + sizeof_header debug + n \<le> pool_base b + BUDDY_POOL_SIZE
      else n + sizeof_header debug \<le> class_to_size (nat cl)"
  shows "header_ok debug b (mk_header n cl) p n cl"
  using assms by (simp add: header_ok_def)

lemma core_small_alloc:
  assumes c: "heap_core debug m cs b X L" and i: "i < 16" and env: "slab_env_ok e (heap_region cs b)"
    and a: "sc_alloc e h m (cs i) = (Some p, oom, m', a')"
    and n: "0 < n" "n + sizeof_header debug \<le> class_to_size i"
  shows "L p = None \<and> (\<exists>X'. heap_core debug (m'(p := mk_header n (int i))) (cs(i := a')) b X'
           (L(p \<mapsto> (n, int i))))"
proof -
  let ?R = "heap_region cs b" and ?m = "m'(p := mk_header n (int i))"
  let ?L = "L(p \<mapsto> (n, int i))"
  have sub: "sc_region (cs i) \<subseteq> ?R" using i by (auto simp: heap_region_def)
  obtain xs' where S: "\<not> oom" "p \<notin> class_live L (int i)" "sc_inv m' a' xs' (insert p (class_live L (int i)))"
    "sc_object_size a' = sc_object_size (cs i)" "sc_region (cs i) \<subseteq> sc_region a'"
    "sc_region a' \<inter> ?R \<subseteq> sc_region (cs i)" "\<forall>q\<in>?R. m' q = m q"
    using sc_alloc_spec[OF heap_coreD(1)[OF c i] env sub a] by auto
  have pr: "p \<in> sc_region a'" using sc_obj(5)[OF S(3)] by blast
  have disj: "sc_region a' \<inter> sc_region (cs j) = {}" if "j < 16" "j \<noteq> i" for j
  proof -
    have "sc_region (cs j) \<subseteq> ?R" using that by (auto simp: heap_region_def)
    then show ?thesis using S(6) heap_coreD(3)[OF c that(1) i that(2)] by blast
  qed
  have dpool: "sc_region a' \<inter> pool_region b = {}"
    using S(6) heap_coreD(4)[OF c i] by (auto simp: heap_region_def)
  have none: "L p = None"
  proof (rule ccontr)
    assume "L p \<noteq> None"
    then obtain k cl where l: "L p = Some (k, cl)" by auto
    show False
    proof (rule live_cases[OF c l], goal_cases small large)
      case (small j)
      show ?case
      proof (cases "j = i")
        case True
        then show ?thesis using small(3) S(2) by simp
      next
        case False
        then show ?thesis using disj[OF small(1) False] small(6) pr by blast
      qed
    next
      case large
      then show ?case using dpool pr by blast
    qed
  qed
  let ?X = "X(i := xs')" and ?cs = "cs(i := a')"
  have "heap_core debug ?m ?cs b ?X ?L"
    unfolding heap_core_def
  proof (intro conjI allI impI)
    fix j :: nat assume j: "j < 16"
    show "sc_inv ?m (?cs j) (?X j) (class_live ?L (int j))"
    proof (cases "j = i")
      case True
      have "p \<notin> set xs'" using sc_invD(5)[OF S(3)] by auto
      then have "sc_inv ?m a' xs' (insert p (class_live L (int i)))" by (intro sc_inv_cong[OF S(3)]) auto
      then show ?thesis using True class_live_upd(1)[where L = L and p = p, OF none] by simp
    next
      case False
      have "hc_w0 (?m q) = hc_w0 (m q)" if q: "q \<in> set (X j)" for q
      proof -
        have qj: "q \<in> sc_region (cs j)" using free_in_region[OF c j q] .
        then have "q \<in> ?R" using j by (auto simp: heap_region_def)
        moreover have "q \<noteq> p" using disj[OF j False] qj pr by blast
        ultimately show ?thesis using S(7) by simp
      qed
      then have "sc_inv ?m (cs j) (X j) (class_live L (int j))" by (rule sc_inv_cong[OF heap_coreD(1)[OF c j]])
      then show ?thesis using False class_live_upd(1)[where L = L and p = p, OF none] by simp
    qed
    show "sc_object_size (?cs j) = class_to_size j"
      using heap_coreD(2)[OF c j] heap_coreD(2)[OF c i] S(4) by simp
    show "sc_region (?cs j) \<inter> pool_region b = {}" using heap_coreD(4)[OF c j] dpool by simp
    show "sc_region (?cs j) \<inter> sc_region (?cs k) = {}" if "k < 16" "j \<noteq> k" for k
      using heap_coreD(3)[OF c j that] disj[of j] disj[of k] j that by (auto simp: Int_commute)
  next
    have "class_live ?L (-1) = class_live L (-1)" using class_live_upd(1)[where L = L and p = p, OF none] by simp
    moreover have "blk_of debug b ?L q = blk_of debug b L q" if "q \<in> class_live L (-1)" for q
      using that none by (auto simp: blk_of_def class_live_def)
    ultimately show "buddy_run b (blk_of debug b ?L ` class_live ?L (-1))"
      using heap_coreD(5)[OF c] by simp
  next
    fix q k cl assume q: "?L q = Some (k, cl)"
    show "header_ok debug b (?m q) q k cl"
    proof (cases "q = p")
      case True
      have "header_ok debug b (mk_header n (int i)) p n (int i)" using n i by (intro header_ok_mk) auto
      then show ?thesis using q True by auto
    next
      case False
      then have l: "L q = Some (k, cl)" using q by simp
      then have "m' q = m q" using S(7) live_in_region[OF c l] by blast
      then show ?thesis using heap_coreD(6)[OF c l] False by simp
    qed
  qed
  with none show ?thesis by blast
qed

lemma core_large_alloc:
  assumes c: "heap_core debug m cs b X L" and a: "buddy_alloc b (n + sizeof_header debug) = (Some off, b')"
    and n: "0 < n" and p: "p = pool_base b + off"
  shows "L p = None \<and> heap_core debug (m(p := mk_header n (-1))) cs b' X (L(p \<mapsto> (n, -1)))"
proof -
  let ?A = "blk_of debug b L ` class_live L (-1)" and ?m = "m(p := mk_header n (-1))"
  let ?L = "L(p \<mapsto> (n, -1))"
  have run: "buddy_run b ?A" using heap_coreD(5)[OF c] .
  note D = alloc_payload_disjoint[OF run a]
  have base: "pool_base b' = pool_base b" using buddy_alloc_memory[OF a] by (simp add: pool_base_def)
  have reg: "pool_region b' = pool_region b" using base by (simp add: pool_region_def)
  have fits: "pool_base b + sizeof_buddy_block \<le> p" "p + sizeof_header debug + n \<le> pool_base b + BUDDY_POOL_SIZE"
    using D p by auto
  have pin: "p \<in> pool_region b" using fits n by (auto simp: pool_region_def)
  have none: "L p = None"
  proof (rule ccontr)
    assume "L p \<noteq> None"
    then obtain k cl where l: "L p = Some (k, cl)" by auto
    show False
    proof (rule live_cases[OF c l], goal_cases small large)
      case (small j)
      then show ?case using heap_coreD(4)[OF c small(1)] pin by blast
    next
      case large
      have "blk_range order_to_size (blk_of debug b L p) \<inter> {off - sizeof_buddy_block..<off + (n + sizeof_header debug)} = {}"
        using D large(2) by blast
      moreover have "off - sizeof_buddy_block \<in> blk_range order_to_size (blk_of debug b L p)"
        using p by (auto simp: blk_range_def blk_of_def)
      moreover have "off - sizeof_buddy_block \<in> {off - sizeof_buddy_block..<off + (n + sizeof_header debug)}"
        using n D by auto
      ultimately show ?case by blast
    qed
  qed
  have blk: "blk_of debug b' ?L q = blk_of debug b L q" if "q \<in> class_live L (-1)" for q
    using that none base by (auto simp: blk_of_def class_live_def)
  have "heap_core debug ?m cs b' X ?L"
    unfolding heap_core_def
  proof (intro conjI allI impI)
    fix j :: nat assume j: "j < 16"
    have "hc_w0 (?m q) = hc_w0 (m q)" if q: "q \<in> set (X j)" for q
      using free_in_region[OF c j q] heap_coreD(4)[OF c j] pin by auto
    then have "sc_inv ?m (cs j) (X j) (class_live L (int j))" by (rule sc_inv_cong[OF heap_coreD(1)[OF c j]])
    then show "sc_inv ?m (cs j) (X j) (class_live ?L (int j))"
      using class_live_upd(1)[where L = L and p = p, OF none] by simp
    show "sc_object_size (cs j) = class_to_size j" using heap_coreD(2)[OF c j] .
    show "sc_region (cs j) \<inter> pool_region b' = {}" using heap_coreD(4)[OF c j] reg by simp
    show "sc_region (cs j) \<inter> sc_region (cs k) = {}" if "k < 16" "j \<noteq> k" for k
      using heap_coreD(3)[OF c j that] .
  next
    have "blk_of debug b' ?L ` class_live ?L (-1) = insert (blk_of debug b' ?L p) (blk_of debug b' ?L ` class_live L (-1))"
      using class_live_upd(1)[where L = L and p = p, OF none] by simp
    also have "blk_of debug b' ?L ` class_live L (-1) = ?A" using blk by (rule image_cong[OF refl])
    also have "blk_of debug b' ?L p = (off - sizeof_buddy_block, size_to_order (n + sizeof_header debug + sizeof_buddy_block))"
      using p base by (simp add: blk_of_def)
    finally show "buddy_run b' (blk_of debug b' ?L ` class_live ?L (-1))"
      using run_alloc[OF run a] by (simp only:)
  next
    fix q k cl assume q: "?L q = Some (k, cl)"
    show "header_ok debug b' (?m q) q k cl"
    proof (cases "q = p")
      case True
      have "header_ok debug b' (mk_header n (-1)) p n (-1)" using n fits base by (intro header_ok_mk) auto
      then show ?thesis using q True by auto
    next
      case False
      then have l: "L q = Some (k, cl)" using q by simp
      then show ?thesis using heap_coreD(6)[OF c l] False base by (simp add: header_ok_def)
    qed
  qed
  with none show ?thesis by blast
qed

lemma core_small_free:
  assumes c: "heap_core debug m cs b X L" and i: "i < 16" and p: "L p = Some (n, int i)"
    and m1: "\<And>q. q \<noteq> p \<Longrightarrow> m1 q = m q" and f: "sc_free p m1 (cs i) = (m', a')"
  shows "hdr_magic (m' p) \<noteq> ALLOC_MAGIC \<and> heap_core debug m' (cs(i := a')) b (X(i := p # X i)) (L(p := None))"
proof -
  let ?L = "L(p := None)" and ?cs = "cs(i := a')"
  have live: "p \<in> class_live L (int i)" using p by (auto simp: class_live_def)
  have other: "p \<notin> class_live L c" if "c \<noteq> int i" for c using p that by (auto simp: class_live_def)
  have pnx: "p \<notin> set (X j)" if j: "j < 16" for j
  proof (cases "j = i")
    case True
    then show ?thesis using sc_invD(5)[OF heap_coreD(1)[OF c i]] live by blast
  next
    case False
    then show ?thesis
      using free_in_region[OF c j, of p] sc_obj(5)[OF heap_coreD(1)[OF c i], of p] live
        heap_coreD(3)[OF c j i False] by blast
  qed
  have i1: "sc_inv m1 (cs i) (X i) (class_live L (int i))"
    by (rule sc_inv_cong[OF heap_coreD(1)[OF c i]]) (metis m1 pnx[OF i])
  have S: "sc_inv m' a' (p # X i) (class_live L (int i) - {p})" "sc_region a' = sc_region (cs i)"
    "sc_object_size a' = sc_object_size (cs i)" "hdr_magic (m' p) \<noteq> ALLOC_MAGIC" "\<forall>q. q \<noteq> p \<longrightarrow> m' q = m1 q"
    using sc_free_spec[OF i1 live f] by blast+
  have m': "m' q = m q" if "q \<noteq> p" for q using S(5) m1 that by simp
  have reg: "sc_region (?cs j) = sc_region (cs j)" for j using S(2) by simp
  have "heap_core debug m' ?cs b (X(i := p # X i)) ?L"
    unfolding heap_core_def reg
  proof (intro conjI allI impI)
    fix j :: nat assume j: "j < 16"
    show "sc_inv m' (?cs j) ((X(i := p # X i)) j) (class_live ?L (int j))"
    proof (cases "j = i")
      case True
      then show ?thesis using S(1) unfolding class_live_upd(2) by simp
    next
      case False
      have "sc_inv m' (cs j) (X j) (class_live L (int j))"
        by (rule sc_inv_cong[OF heap_coreD(1)[OF c j]]) (metis m' pnx[OF j])
      moreover have "class_live ?L (int j) = class_live L (int j)"
        unfolding class_live_upd(2) using other[of "int j"] False by simp
      ultimately show ?thesis using False by simp
    qed
    show "sc_object_size (?cs j) = class_to_size j"
      using heap_coreD(2)[OF c j] heap_coreD(2)[OF c i] S(3) by simp
    show "sc_region (cs j) \<inter> pool_region b = {}" using heap_coreD(4)[OF c j] .
    show "sc_region (cs j) \<inter> sc_region (cs k) = {}" if "k < 16" "j \<noteq> k" for k
      using heap_coreD(3)[OF c j that] .
  next
    have "class_live ?L (-1) = class_live L (-1)" unfolding class_live_upd(2) using other[of "-1"] by simp
    moreover have "blk_of debug b ?L q = blk_of debug b L q" if "q \<in> class_live L (-1)" for q
      using that other[of "-1"] by (auto simp: blk_of_def)
    ultimately show "buddy_run b (blk_of debug b ?L ` class_live ?L (-1))"
      using heap_coreD(5)[OF c] by (metis image_cong)
  next
    fix q k cl assume q: "?L q = Some (k, cl)"
    then have "q \<noteq> p" "L q = Some (k, cl)" by (auto split: if_splits)
    then show "header_ok debug b (m' q) q k cl" using heap_coreD(6)[OF c] m' by simp
  qed
  with S(4) show ?thesis by blast
qed

lemma core_large_free:
  assumes c: "heap_core debug m cs b X L" and p: "L p = Some (n, -1)"
    and m1: "\<And>q. q \<noteq> p \<Longrightarrow> m1 q = m q"
  shows "\<exists>b'. buddy_free b (Some (int p - int (pool_base b))) = Some b' \<and> heap_core debug m1 cs b' X (L(p := None))"
proof -
  let ?A = "blk_of debug b L ` class_live L (-1)" and ?L = "L(p := None)"
  have live: "p \<in> class_live L (-1)" using p by (auto simp: class_live_def)
  obtain x k where xk: "blk_of debug b L p = (x, k)" by fastforce
  have mem: "(x, k) \<in> ?A" using live xk by force
  have above: "pool_base b + 24 \<le> p" using large_above[OF c live] .
  have off: "int (x + sizeof_buddy_block) = int p - int (pool_base b)"
    using xk above by (auto simp: blk_of_def sizeof_buddy_block_def)
  have run: "buddy_run b ?A" using heap_coreD(5)[OF c] .
  obtain F where "buddy_core b F ?A {}" using run_core[OF run] by blast
  then obtain b' where f: "buddy_free b (Some (int (x + sizeof_buddy_block))) = Some b'"
    using buddy_free_spec[OF _ mem] by (auto simp: sizeof_buddy_block_def)
  have base: "pool_base b' = pool_base b" using buddy_free_memory[OF f] by (simp add: pool_base_def)
  have reg: "pool_region b' = pool_region b" using base by (simp add: pool_region_def)
  have ppool: "p \<in> pool_region b"
    by (rule live_cases[OF c p]) auto
  have "blk_of debug b' ?L ` class_live ?L (-1) = blk_of debug b L ` (class_live L (-1) - {p})"
    unfolding class_live_upd(2) using base by (intro image_cong) (auto simp: blk_of_def)
  also have "\<dots> = ?A - {(x, k)}"
  proof -
    have "inj_on (blk_of debug b L) (class_live L (-1))"
      using blk_of_inj[OF c] by (auto simp: inj_on_def)
    from inj_on_image_set_diff[OF this, of "class_live L (-1)" "{p}"] live xk show ?thesis by simp
  qed
  finally have run': "buddy_run b' (blk_of debug b' ?L ` class_live ?L (-1))"
    using run_free[OF run mem f] by (simp only:)
  have "heap_core debug m1 cs b' X ?L"
    unfolding heap_core_def reg
  proof (intro conjI allI impI)
    fix j :: nat assume j: "j < 16"
    have "p \<notin> set (X j)" using free_in_region[OF c j, of p] heap_coreD(4)[OF c j] ppool by blast
    then have "sc_inv m1 (cs j) (X j) (class_live L (int j))"
      by (intro sc_inv_cong[OF heap_coreD(1)[OF c j]]) (metis m1)
    moreover have "class_live ?L (int j) = class_live L (int j)"
      unfolding class_live_upd(2) using p by (auto simp: class_live_def)
    ultimately show "sc_inv m1 (cs j) (X j) (class_live ?L (int j))" by simp
    show "sc_object_size (cs j) = class_to_size j" using heap_coreD(2)[OF c j] .
    show "sc_region (cs j) \<inter> pool_region b = {}" using heap_coreD(4)[OF c j] .
    show "sc_region (cs j) \<inter> sc_region (cs l) = {}" if "l < 16" "j \<noteq> l" for l
      using heap_coreD(3)[OF c j that] .
  next
    show "buddy_run b' (blk_of debug b' ?L ` class_live ?L (-1))" using run' .
  next
    fix q l cl assume q: "?L q = Some (l, cl)"
    then have "q \<noteq> p" "L q = Some (l, cl)" by (auto split: if_splits)
    then show "header_ok debug b' (m1 q) q l cl" using heap_coreD(6)[OF c] m1 base by (simp add: header_ok_def)
  qed
  with f off show ?thesis by simp
qed

section \<open>The client's writes\<close>

text \<open>
  The client may change every cell that overlaps one of its payloads: a header cell of the heap, or,
  in the buddy pool, a cell that the buddy allocator would read as a block header.
\<close>

definition client_write ::
    "bool \<Rightarrow> (nat \<rightharpoonup> nat \<times> int) \<Rightarrow> heap_mem \<Rightarrow> (nat \<Rightarrow> buddy_block) \<Rightarrow> persistent_heap \<Rightarrow> persistent_heap \<Rightarrow> bool" where
  "client_write debug L m hb h h' \<longleftrightarrow>
     (\<forall>y. m y \<noteq> ph_mem h y \<longrightarrow> (\<exists>p n c. L p = Some (n, c) \<and> p < y \<and> y < p + sizeof_header debug + n)) \<and>
     (\<forall>y. hb y \<noteq> ba_hdr (ph_buddy h) y \<longrightarrow>
        (\<exists>p n. L p = Some (n, -1) \<and> p < pool_base (ph_buddy h) + y + sizeof_buddy_block \<and>
                 pool_base (ph_buddy h) + y < p + sizeof_header debug + n)) \<and>
     h' = h\<lparr>ph_mem := m, ph_buddy := (ph_buddy h)\<lparr>ba_hdr := hb\<rparr>\<rparr>"

lemma core_write:
  assumes c: "heap_core debug (ph_mem h) cs (ph_buddy h) X L" and w: "client_write debug L m hb h h'"
  shows "heap_core debug m cs ((ph_buddy h)\<lparr>ba_hdr := hb\<rparr>) X L"
proof -
  let ?b = "ph_buddy h" and ?b' = "(ph_buddy h)\<lparr>ba_hdr := hb\<rparr>"
  let ?A = "blk_of debug ?b L ` class_live L (-1)"
  have base: "pool_base ?b' = pool_base ?b" by (simp add: pool_base_def)
  have reg: "pool_region ?b' = pool_region ?b" using base by (simp add: pool_region_def)
  have blk: "blk_of debug ?b' L = blk_of debug ?b L" using base by (simp add: fun_eq_iff blk_of_def)
  have inside: "\<exists>p n cl. L p = Some (n, cl) \<and> p < y \<and> y \<in> alloc_range debug L p" if "m y \<noteq> ph_mem h y" for y
  proof -
    obtain p n c where p: "L p = Some (n, c)" "p < y" "y < p + sizeof_header debug + n"
      using w \<open>m y \<noteq> ph_mem h y\<close> unfolding client_write_def by blast
    then have "y \<in> alloc_range debug L p" by (auto simp: alloc_range_def)
    with p show ?thesis by blast
  qed
  have live_same: "m q = ph_mem h q" if q: "L q = Some v" for q v
  proof (rule ccontr)
    assume "m q \<noteq> ph_mem h q"
    then obtain p n cl where p: "L p = Some (n, cl)" "p < q" "q \<in> alloc_range debug L p" using inside by blast
    moreover have "q \<in> alloc_range debug L q" using sizeof_header_ge(3) by (auto simp: alloc_range_def)
    ultimately show False using live_disjoint[OF c p(1), of q "fst v" "snd v"] q by auto
  qed
  have free_same: "m q = ph_mem h q" if q: "q \<in> set (X j)" "j < 16" for q j
  proof (rule ccontr)
    assume "m q \<noteq> ph_mem h q"
    then obtain p n cl where p: "L p = Some (n, cl)" "p < q" "q \<in> alloc_range debug L p" using inside by blast
    have qr: "q \<in> sc_region (cs j)" using free_in_region[OF c q(2,1)] .
    show False
    proof (rule live_cases[OF c p(1)], goal_cases small large)
      case (small i)
      have qi: "q \<in> {p..<p + sc_object_size (cs i)}" using p(3) small(4) by blast
      show ?case
      proof (cases "i = j")
        case True
        have "{p..<p + sc_object_size (cs j)} \<inter> {q..<q + sc_object_size (cs j)} = {}"
          using sc_disjoint[OF heap_coreD(1)[OF c q(2)], of p q] q(1) small(3) True p(2) by auto
        moreover have "q \<in> {q..<q + sc_object_size (cs j)}"
          using heap_coreD(2)[OF c q(2)] by (simp add: class_to_size_eq)
        ultimately show ?thesis using qi True by blast
      next
        case False
        then show ?thesis using heap_coreD(3)[OF c small(1) q(2)] qi small(5) qr by blast
      qed
    next
      case large
      then show ?case using heap_coreD(4)[OF c q(2)] qr p(3) by blast
    qed
  qed
  have run: "buddy_run ?b' ?A"
  proof (rule run_write[OF heap_coreD(5)[OF c]])
    fix y assume "hb y \<noteq> ba_hdr ?b y"
    then obtain p n where p: "L p = Some (n, -1)" "p < pool_base ?b + y + sizeof_buddy_block"
      "pool_base ?b + y < p + sizeof_header debug + n"
      using w unfolding client_write_def by blast
    have live: "p \<in> class_live L (-1)" using p by (auto simp: class_live_def)
    obtain x k where xk: "blk_of debug ?b L p = (x, k)" by fastforce
    have mem: "(x, k) \<in> ?A" using live xk by force
    have eq: "p = pool_base ?b + x + 24" "k = size_to_order (n + sizeof_header debug + 24)"
      using xk large_above[OF c live] p(1) by (auto simp: blk_of_def sizeof_buddy_block_def)
    have lo: "x < y" and hi: "y < x + (n + sizeof_header debug + 24)"
      using p(2,3) eq(1) by (auto simp: sizeof_buddy_block_def)
    have "order_to_size 14 \<le> y \<or> y < x + order_to_size k"
      using size_to_order_spec(2)[of "n + sizeof_header debug + 24"] hi eq(2)
      by (cases "k = 14") auto
    then show "order_to_size 14 \<le> y \<or> (\<exists>(x, k)\<in>?A. x < y \<and> y < x + order_to_size k)"
      using mem lo by blast
  qed
  show ?thesis
    unfolding heap_core_def reg blk
  proof (intro conjI allI impI)
    fix j :: nat assume j: "j < 16"
    show "sc_inv m (cs j) (X j) (class_live L (int j))"
      by (rule sc_inv_cong[OF heap_coreD(1)[OF c j]]) (metis free_same j)
  next
    fix q n cl assume q: "L q = Some (n, cl)"
    show "header_ok debug ?b' (m q) q n cl"
      using heap_coreD(6)[OF c q] live_same[OF q] base by (simp add: header_ok_def)
  qed (use heap_coreD(2-4)[OF c] run in blast)+
qed

section \<open>Whole calls\<close>

text \<open>The parts of the state the invariant speaks about.\<close>

definition same_core :: "persistent_heap \<Rightarrow> persistent_heap \<Rightarrow> bool" where
  "same_core h h' \<longleftrightarrow> ph_initialized h' = ph_initialized h \<and> ph_mem h' = ph_mem h \<and>
     ph_size_classes h' = ph_size_classes h \<and> ph_buddy h' = ph_buddy h \<and>
     ph_num_active_allocations h' = ph_num_active_allocations h \<and>
     ph_current_bytes_allocated h' = ph_current_bytes_allocated h"

lemma same_core_inv: "same_core h h' \<Longrightarrow> heap_inv debug h L \<Longrightarrow> heap_inv debug h' L"
  by (simp add: same_core_def heap_inv_def)

lemma same_core_patterns: "same_core h (heap_patterns now cl h)"
  by (simp add: same_core_def heap_patterns_def Let_def)

lemma heap_warn_defined:
  assumes "heap_inv debug h L"
  shows "\<exists>h'. heap_warn h = Some h' \<and> heap_inv debug h' L" "\<exists>h'. heap_unwarn h = Some h' \<and> heap_inv debug h' L"
proof -
  obtain X where "heap_core debug (ph_mem h) (ph_size_classes h) (ph_buddy h) X L"
    using assms by (auto simp: heap_inv_def)
  from fragmentation_defined[OF heap_coreD(5)[OF this]]
  obtain q where q: "buddy_get_fragmentation (ph_buddy h) = Some q" by blast
  show "\<exists>h'. heap_warn h = Some h' \<and> heap_inv debug h' L" "\<exists>h'. heap_unwarn h = Some h' \<and> heap_inv debug h' L"
    using assms q by (auto simp: heap_warn_def heap_unwarn_def intro: same_core_inv simp: same_core_def)
qed

lemma header_size_bound:
  assumes "header_ok debug b c p n cl"
  shows "n < 2 ^ 32"
proof (cases "cl = -1")
  case True
  then show ?thesis using assms by (auto simp: header_ok_def BUDDY_POOL_SIZE_def)
next
  case False
  then have "nat cl \<le> 15" "n \<le> class_to_size (nat cl)" using assms by (auto simp: header_ok_def)
  moreover have "class_to_size (nat cl) \<le> class_to_size 15"
    unfolding class_to_size_eq using \<open>nat cl \<le> 15\<close> by (intro mult_le_mono2 power_increasing) auto
  ultimately show ?thesis by (simp add: class_to_size_eq)
qed

lemma total_live_upd:
  assumes "finite (dom L)"
  shows "L p = None \<Longrightarrow> total_live (L(p \<mapsto> (n, c))) = total_live L + n"
    and "L p = Some (n, c) \<Longrightarrow> total_live (L(p := None)) + n = total_live L"
proof -
  show "total_live (L(p \<mapsto> (n, c))) = total_live L + n" if "L p = None"
  proof -
    have "p \<notin> dom L" using that by auto
    moreover have "(\<Sum>q\<in>dom L. fst (the ((L(p \<mapsto> (n, c))) q))) = (\<Sum>q\<in>dom L. fst (the (L q)))"
      using that by (intro sum.cong) auto
    ultimately show ?thesis using assms by (simp add: total_live_def)
  qed
  show "total_live (L(p := None)) + n = total_live L" if "L p = Some (n, c)"
  proof -
    have p: "p \<in> dom L" using that by auto
    have "(\<Sum>q\<in>dom L - {p}. fst (the ((L(p := None)) q))) = (\<Sum>q\<in>dom L - {p}. fst (the (L q)))"
      by (intro sum.cong) auto
    then show ?thesis using sum.remove[OF assms p, of "\<lambda>q. fst (the (L q))"] that
      by (simp add: total_live_def)
  qed
qed

lemma unat_small: "n \<le> MAX_HEAP_SIZE * 2 \<Longrightarrow> unat (word_of_nat n :: u64) = n"
  by (simp add: MAX_HEAP_SIZE_def unat_of_nat take_bit_nat_eq_self)

text \<open>Finding memory and writing the header.\<close>

lemma heap_find_spec:
  assumes c: "heap_core debug (ph_mem h) (ph_size_classes h) (ph_buddy h) X L" and n: "0 < n"
    and env: "slab_env_ok (he_slab e) (heap_region (ph_size_classes h) (ph_buddy h))"
    and f: "heap_find debug e n h = (r, cl, h1)"
  shows "ph_initialized h1 = ph_initialized h \<and> ph_num_active_allocations h1 = ph_num_active_allocations h \<and>
    ph_current_bytes_allocated h1 = ph_current_bytes_allocated h \<and>
    (case r of
       None \<Rightarrow> \<exists>X'. heap_core debug (ph_mem h1) (ph_size_classes h1) (ph_buddy h1) X' L
     | Some p \<Rightarrow> L p = None \<and> (\<exists>X'. heap_core debug ((ph_mem h1)(p := mk_header n cl)) (ph_size_classes h1)
           (ph_buddy h1) X' (L(p \<mapsto> (n, cl)))))"
proof -
  let ?t = "n + sizeof_header debug"
  let ?cl = "size_to_class ?t"
  show ?thesis
  proof (cases "?t \<le> 4096")
    case True
    have cl: "?cl < 16" using size_to_class_small(1)[OF True] by simp
    have fits: "?t \<le> class_to_size ?cl" using size_to_class_small(2)[OF True] .
    obtain q oom m a where q: "sc_alloc (he_slab e) (ph_size_class_hotness h ?cl) (ph_mem h) (ph_size_classes h ?cl) = (q, oom, m, a)"
      by (metis prod_cases4)
    have out: "r = q" "cl = int ?cl" "h1 = h\<lparr>ph_mem := m, ph_size_classes := (ph_size_classes h)(?cl := a),
        ph_num_oom_errors := ph_num_oom_errors h + (if oom then 1 else 0)\<rparr>"
      using f cl q by (auto simp: heap_find_def Let_def)
    show ?thesis
    proof (cases q)
      case None
      have "sc_region (ph_size_classes h ?cl) \<subseteq> heap_region (ph_size_classes h) (ph_buddy h)"
        using cl by (auto simp: heap_region_def)
      then have "m = ph_mem h" "a = ph_size_classes h ?cl"
        using sc_alloc_spec[OF heap_coreD(1)[OF c cl] env _ q] None by auto
      then show ?thesis using out c None by auto
    next
      case (Some p)
      then show ?thesis using core_small_alloc[OF c cl env, of _ p oom m a n] q n fits out by auto
    qed
  next
    case False
    then have cl: "?cl = 16" by (intro size_to_class_large) simp
    obtain q b where q: "buddy_alloc (ph_buddy h) ?t = (q, b)" by fastforce
    show ?thesis
    proof (cases q)
      case None
      have out: "r = None" "cl = -1" "h1 = h\<lparr>ph_buddy := b, ph_num_oom_errors := ph_num_oom_errors h + 1\<rparr>"
        using f cl q None by (auto simp: heap_find_def Let_def)
      have base: "pool_base b = pool_base (ph_buddy h)" using buddy_alloc_memory[OF q] by (simp add: pool_base_def)
      have "blk_of debug b L = blk_of debug (ph_buddy h) L" "pool_region b = pool_region (ph_buddy h)"
        using base by (simp_all add: fun_eq_iff blk_of_def pool_region_def)
      then have "heap_core debug (ph_mem h) (ph_size_classes h) b X L"
        using c run_alloc_fail[OF heap_coreD(5)[OF c]] q None base
        by (simp add: heap_core_def header_ok_def)
      then show ?thesis using out by auto
    next
      case (Some off)
      then have out: "r = Some (pool_base (ph_buddy h) + off)" "cl = -1" "h1 = h\<lparr>ph_buddy := b\<rparr>"
        using f cl q by (auto simp: heap_find_def Let_def)
      show ?thesis using core_large_alloc[OF c, of n off b "pool_base (ph_buddy h) + off"] q Some n out by auto
    qed
  qed
qed

lemma heap_record_inv:
  assumes i: "ph_initialized h1" "finite (dom L)" "L p = None" "card (dom L) < MAX_ACTIVE_ALLOCATIONS"
    "total_live L + n \<le> MAX_HEAP_SIZE"
    "ph_num_active_allocations h1 = word_of_nat (card (dom L))"
    "ph_current_bytes_allocated h1 = word_of_nat (total_live L)"
    and c: "heap_core debug ((ph_mem h1)(p := mk_header n cl)) (ph_size_classes h1) (ph_buddy h1) X (L(p \<mapsto> (n, cl)))"
  shows "heap_inv debug (heap_record p n cl h1) (L(p \<mapsto> (n, cl)))"
proof -
  have "p \<notin> dom L" using i(3) by auto
  then have card: "card (dom (L(p \<mapsto> (n, cl)))) = Suc (card (dom L))" using i(2) by simp
  have tot: "total_live (L(p \<mapsto> (n, cl))) = total_live L + n" using total_live_upd(1)[OF i(2,3)] .
  have c': "\<exists>X. heap_core debug ((ph_mem h1)(p := mk_header n cl)) (ph_size_classes h1) (ph_buddy h1) X (L(p \<mapsto> (n, cl)))"
    using c by blast
  show ?thesis
    unfolding heap_inv_def heap_record_def Let_def card tot using i c'
    by (simp add: ac_simps del: fun_upd_apply)
qed

lemma heap_alloc_inv:
  assumes inv: "heap_inv debug h L"
    and env: "slab_env_ok (he_slab e) (heap_region (ph_size_classes h) (ph_buddy h))"
  shows "\<exists>r h'. lgx_heap_alloc debug e n h = Some (r, h') \<and>
    (case r of None \<Rightarrow> heap_inv debug h' L
     | Some up \<Rightarrow> \<exists>p cl. up = p + sizeof_header debug \<and> L p = None \<and> heap_inv debug h' (L(p \<mapsto> (n, cl))))"
proof -
  obtain X where c: "heap_core debug (ph_mem h) (ph_size_classes h) (ph_buddy h) X L"
    using inv by (auto simp: heap_inv_def)
  have init: "ph_initialized h" and fin: "finite (dom L)" and tl: "total_live L \<le> MAX_HEAP_SIZE"
    and cd: "card (dom L) \<le> MAX_ACTIVE_ALLOCATIONS"
    and st: "ph_num_active_allocations h = word_of_nat (card (dom L))"
    "ph_current_bytes_allocated h = word_of_nat (total_live L)"
    using inv by (auto simp: heap_inv_def)
  have err: "heap_inv debug (h\<lparr>ph_num_validation_errors := x\<rparr>) L" "heap_inv debug (h\<lparr>ph_num_rate_limit_errors := x\<rparr>) L"
    "heap_inv debug (h\<lparr>ph_num_oom_errors := x\<rparr>) L" for x
    using inv by (auto intro: same_core_inv simp: same_core_def)
  show ?thesis
  proof (cases "n = 0 \<or> n > MAX_HEAP_SIZE \<or> unat (ph_num_active_allocations h) \<ge> MAX_ACTIVE_ALLOCATIONS \<or>
      unat (ph_current_bytes_allocated h + word_of_nat n) > MAX_HEAP_SIZE")
    case True
    then show ?thesis using init err by (auto simp: lgx_heap_alloc_def)
  next
    case False
    obtain r cl h1 where f: "heap_find debug e n h = (r, cl, h1)" by (metis prod_cases3)
    have eq: "lgx_heap_alloc debug e n h = (case r of None \<Rightarrow> Some (None, h1)
        | Some p \<Rightarrow> (case heap_warn (heap_patterns (he_now e) cl (heap_record p n cl h1)) of
            None \<Rightarrow> None | Some h2 \<Rightarrow> Some (Some (p + sizeof_header debug), h2)))"
      using False init f by (simp add: lgx_heap_alloc_def split: option.splits)
    have n: "0 < n" using False by simp
    note S = heap_find_spec[OF c n env f]
    show ?thesis
    proof (cases r)
      case None
      then have "heap_inv debug h1 L" using S init fin tl cd st by (auto simp: heap_inv_def)
      then show ?thesis using eq None by simp
    next
      case (Some p)
      have "unat (word_of_nat (total_live L + n) :: u64) = total_live L + n" using False tl by (intro unat_small) simp
      then have lim: "total_live L + n \<le> MAX_HEAP_SIZE" using False st by simp
      have "unat (word_of_nat (card (dom L)) :: u64) = card (dom L)"
        using cd by (intro unat_small) (simp add: MAX_HEAP_SIZE_def MAX_ACTIVE_ALLOCATIONS_def)
      then have lt: "card (dom L) < MAX_ACTIVE_ALLOCATIONS" using False st by simp
      obtain X' where c': "heap_core debug ((ph_mem h1)(p := mk_header n cl)) (ph_size_classes h1) (ph_buddy h1) X' (L(p \<mapsto> (n, cl)))"
        and none: "L p = None" using S Some by auto
      have "heap_inv debug (heap_record p n cl h1) (L(p \<mapsto> (n, cl)))"
        using S init st by (intro heap_record_inv[OF _ fin none lt lim _ _ c']) auto
      then have "heap_inv debug (heap_patterns (he_now e) cl (heap_record p n cl h1)) (L(p \<mapsto> (n, cl)))"
        by (rule same_core_inv[OF same_core_patterns])
      then obtain h2 where "heap_warn (heap_patterns (he_now e) cl (heap_record p n cl h1)) = Some h2"
        "heap_inv debug h2 (L(p \<mapsto> (n, cl)))" using heap_warn_defined(1) by blast
      then show ?thesis using eq Some none by auto
    qed
  qed
qed

lemma heap_release_spec:
  assumes c: "heap_core debug m (ph_size_classes h) (ph_buddy h) X L" and p: "L p = Some (n, cl)"
    and m1: "\<And>q. q \<noteq> p \<Longrightarrow> ph_mem h q = m q" and cl: "hdr_class (ph_mem h p) = cl"
  shows "\<exists>h' X'. heap_release p h = Some h' \<and>
    heap_core debug (ph_mem h') (ph_size_classes h') (ph_buddy h') X' (L(p := None)) \<and>
    (if cl = -1 then ph_mem h' p = ph_mem h p else hdr_magic (ph_mem h' p) \<noteq> ALLOC_MAGIC) \<and>
    ph_initialized h' = ph_initialized h \<and> ph_num_active_allocations h' = ph_num_active_allocations h \<and>
    ph_current_bytes_allocated h' = ph_current_bytes_allocated h"
proof (cases "cl = -1")
  case True
  obtain b' where "buddy_free (ph_buddy h) (Some (int p - int (pool_base (ph_buddy h)))) = Some b'"
    "heap_core debug (ph_mem h) (ph_size_classes h) b' X (L(p := None))"
    using core_large_free[OF c, of p n "ph_mem h"] p True m1 by auto
  then show ?thesis using cl True by (auto simp: heap_release_def)
next
  case False
  have ok: "header_ok debug (ph_buddy h) (m p) p n cl" using heap_coreD(6)[OF c p] .
  define i where "i = nat cl"
  have i: "i < 16" "cl = int i" using ok False by (auto simp: header_ok_def i_def)
  obtain m' a' where f: "sc_free p (ph_mem h) (ph_size_classes h i) = (m', a')" by fastforce
  have "hdr_magic (m' p) \<noteq> ALLOC_MAGIC \<and>
      heap_core debug m' ((ph_size_classes h)(i := a')) (ph_buddy h) (X(i := p # X i)) (L(p := None))"
    using core_small_free[OF c i(1) _ m1 f] p i(2) by blast
  then show ?thesis using cl i f by (auto simp: heap_release_def)
qed

lemma heap_free_inv:
  assumes inv: "heap_inv debug h L" and p: "L p = Some (n, cl)"
  shows "\<exists>h'. lgx_heap_free debug (Some (p + sizeof_header debug)) h = Some h' \<and> heap_inv debug h' (L(p := None)) \<and>
    (hdr_magic (ph_mem h' p) = ALLOC_MAGIC \<longleftrightarrow> \<not> debug \<and> cl = -1) \<and> (cl = -1 \<longrightarrow> hdr_class (ph_mem h' p) = -1)"
proof -
  obtain X where c: "heap_core debug (ph_mem h) (ph_size_classes h) (ph_buddy h) X L"
    using inv by (auto simp: heap_inv_def)
  have ok: "header_ok debug (ph_buddy h) (ph_mem h p) p n cl" using heap_coreD(6)[OF c p] .
  have magic: "hdr_magic (ph_mem h p) = ALLOC_MAGIC" "hdr_class (ph_mem h p) = cl"
    "hdr_size (ph_mem h p) = word_of_nat n" using ok by (auto simp: header_ok_def)
  let ?h1 = "if debug then h\<lparr>ph_mem := (ph_mem h)(p := set_magic FREE_MAGIC (ph_mem h p))\<rparr> else h"
  have same: "ph_size_classes ?h1 = ph_size_classes h" "ph_buddy ?h1 = ph_buddy h" "ph_initialized ?h1 = ph_initialized h"
    "ph_num_active_allocations ?h1 = ph_num_active_allocations h"
    "ph_current_bytes_allocated ?h1 = ph_current_bytes_allocated h" by auto
  have cl1: "hdr_class (ph_mem ?h1 p) = cl" using magic by (simp add: set_magic_def hdr_class_def)
  obtain h2 X' where h2: "heap_release p ?h1 = Some h2"
    "heap_core debug (ph_mem h2) (ph_size_classes h2) (ph_buddy h2) X' (L(p := None))"
    "if cl = -1 then ph_mem h2 p = ph_mem ?h1 p else hdr_magic (ph_mem h2 p) \<noteq> ALLOC_MAGIC"
    "ph_initialized h2 = ph_initialized h" "ph_num_active_allocations h2 = ph_num_active_allocations h"
    "ph_current_bytes_allocated h2 = ph_current_bytes_allocated h"
    using heap_release_spec[of debug "ph_mem h" ?h1 X L p n cl] c p cl1 unfolding same by auto
  let ?h3 = "h2\<lparr>ph_total_frees := ph_total_frees h2 + 1,
      ph_num_active_allocations := ph_num_active_allocations h2 - 1,
      ph_current_bytes_allocated := ph_current_bytes_allocated h2 - ucast (word_of_nat n :: u32)\<rparr>"
  have fin: "finite (dom L)" and pd: "p \<in> dom L" using inv p by (auto simp: heap_inv_def)
  have card: "card (dom L) = Suc (card (dom (L(p := None))))"
    using card_Suc_Diff1[OF fin pd] by simp
  have tot: "total_live (L(p := None)) + n = total_live L" using total_live_upd(2)[OF fin p] .
  have cast: "(ucast (word_of_nat n :: u32) :: u64) = word_of_nat n"
    using header_size_bound[OF ok] by (simp add: unsigned_of_nat take_bit_nat_eq_self)
  have ex: "\<exists>X. heap_core debug (ph_mem h2) (ph_size_classes h2) (ph_buddy h2) X (L(p := None))" using h2(2) by blast
  have inv3: "heap_inv debug ?h3 (L(p := None))"
  proof -
    have "(word_of_nat (total_live L) :: u64) = word_of_nat (total_live (L(p := None))) + word_of_nat n"
      using tot by (metis of_nat_add)
    moreover have "(word_of_nat (card (dom L)) :: u64) = word_of_nat (card (dom (L(p := None)))) + 1"
      using card by (metis of_nat_Suc add.commute)
    moreover have "finite (dom (L(p := None)))" using fin by simp
    moreover have "card (dom (L(p := None))) \<le> MAX_ACTIVE_ALLOCATIONS" "total_live (L(p := None)) \<le> MAX_HEAP_SIZE"
      using inv card tot by (auto simp: heap_inv_def)
    ultimately show ?thesis
      using inv ex h2(4-6) cast unfolding heap_inv_def by (simp del: fun_upd_apply dom_fun_upd)
  qed
  obtain h4 where h4: "heap_unwarn ?h3 = Some h4" "heap_inv debug h4 (L(p := None))"
    using heap_warn_defined(2)[OF inv3] by blast
  have mem4: "ph_mem h4 = ph_mem h2"
    using h4(1) by (auto simp: heap_unwarn_def split: option.splits if_splits)
  have "lgx_heap_free debug (Some (p + sizeof_header debug)) h = Some h4"
    using magic h2(1) h4(1) inv by (auto simp: lgx_heap_free_def heap_inv_def Let_def)
  moreover have "hdr_magic (ph_mem h4 p) = ALLOC_MAGIC \<longleftrightarrow> \<not> debug \<and> cl = -1"
    using h2(3) mem4 magic(1) free_magic_not_alloc[of "ph_mem h p"] by (auto split: if_splits)
  moreover have "cl = -1 \<longrightarrow> hdr_class (ph_mem h4 p) = -1" using h2(3) mem4 cl1 by auto
  ultimately show ?thesis using h4(2) by blast
qed

section \<open>Executions\<close>

inductive heap_run :: "bool \<Rightarrow> persistent_heap \<Rightarrow> (nat \<rightharpoonup> nat \<times> int) \<Rightarrow> bool" for debug where
  hr_start: "\<not> ph_initialized h0 \<Longrightarrow> lgx_persistent_heap_init mutex_ok huge mal now h0 = (LGX_SUCCESS, h) \<Longrightarrow>
    heap_run debug h Map.empty"
| hr_alloc: "heap_run debug h L \<Longrightarrow> slab_env_ok (he_slab e) (heap_region (ph_size_classes h) (ph_buddy h)) \<Longrightarrow>
    lgx_heap_alloc debug e n h = Some (Some up, h') \<Longrightarrow>
    heap_run debug h' (L(up - sizeof_header debug \<mapsto> (n, hdr_class (ph_mem h' (up - sizeof_header debug)))))"
| hr_fail: "heap_run debug h L \<Longrightarrow> slab_env_ok (he_slab e) (heap_region (ph_size_classes h) (ph_buddy h)) \<Longrightarrow>
    lgx_heap_alloc debug e n h = Some (None, h') \<Longrightarrow> heap_run debug h' L"
| hr_free: "heap_run debug h L \<Longrightarrow> L p = Some v \<Longrightarrow>
    lgx_heap_free debug (Some (p + sizeof_header debug)) h = Some h' \<Longrightarrow> heap_run debug h' (L(p := None))"
| hr_write: "heap_run debug h L \<Longrightarrow> client_write debug L m hb h h' \<Longrightarrow> heap_run debug h' L"

lemma init_inv:
  assumes "\<not> ph_initialized h0" "lgx_persistent_heap_init mutex_ok huge mal now h0 = (LGX_SUCCESS, h)"
  shows "heap_inv debug h Map.empty"
proof -
  have init: "ph_initialized h" and sc: "\<And>i. i < 16 \<Longrightarrow> ph_size_classes h i = init_class i"
    and b: "buddy_init huge mal (ph_buddy h0) = (True, ph_buddy h)"
    and st: "ph_num_active_allocations h = 0" "ph_current_bytes_allocated h = 0"
    using assms by (auto simp: lgx_persistent_heap_init_def Let_def split: if_splits prod.splits bool.splits)
  have e: "class_live Map.empty c = {}" for c by (simp add: class_live_def)
  have "sc_inv (ph_mem h) (init_class i) [] {}" for i
    by (simp add: sc_inv_def init_class_def slabs_live_def class_to_size_eq)
  moreover have "sc_region (init_class i) = {}" for i by (simp add: sc_region_def init_class_def)
  moreover have "sc_object_size (init_class i) = class_to_size i" for i by (simp add: init_class_def)
  ultimately have "heap_core debug (ph_mem h) (ph_size_classes h) (ph_buddy h) (\<lambda>_. []) Map.empty"
    using sc run_init[OF b] by (simp add: heap_core_def e)
  then show ?thesis using init st by (auto simp: heap_inv_def total_live_def)
qed

lemma heap_inv_class:
  "heap_inv debug h L \<Longrightarrow> L p = Some (n, cl) \<Longrightarrow> hdr_class (ph_mem h p) = cl"
  using heap_coreD(6) by (fastforce simp: heap_inv_def header_ok_def)

lemma run_inv: "heap_run debug h L \<Longrightarrow> heap_inv debug h L"
proof (induction rule: heap_run.induct)
  case (hr_start h0 mutex_ok huge mal now h)
  then show ?case by (rule init_inv)
next
  case (hr_alloc h L e n up h')
  obtain p cl where p: "up = p + sizeof_header debug" "heap_inv debug h' (L(p \<mapsto> (n, cl)))"
    using heap_alloc_inv[OF hr_alloc.IH hr_alloc.hyps(2), of n] hr_alloc.hyps(3) by auto
  then have "hdr_class (ph_mem h' p) = cl" using heap_inv_class[OF p(2), of p n cl] by simp
  then show ?case using p by (simp del: fun_upd_apply)
next
  case (hr_fail h L e n h')
  then show ?case using heap_alloc_inv[OF hr_fail.IH hr_fail.hyps(2), of n] by auto
next
  case (hr_free h L p v h')
  have "L p = Some (fst v, snd v)" using hr_free.hyps by simp
  from heap_free_inv[OF hr_free.IH this] hr_free.hyps show ?case by (auto simp del: fun_upd_apply)
next
  case (hr_write h L m hb h')
  obtain X where "heap_core debug (ph_mem h) (ph_size_classes h) (ph_buddy h) X L"
    using hr_write.IH by (auto simp: heap_inv_def)
  from core_write[OF this hr_write.hyps(2)] hr_write.IH hr_write.hyps(2) show ?case
    by (auto simp: heap_inv_def client_write_def)
qed

end
