(* ===== verification/Heap_Properties.thy ===== *)
theory Heap_Properties
  imports Heap_Safety
begin

text \<open>
  What the persistent heap guarantees to its clients, stated over whole executions
  (\<open>heap_run\<close>): exact statistics and limits, disjoint live allocations, frees that undo
  allocations, detection of double frees, and the classification of pointers.
\<close>

section \<open>A concrete execution\<close>

definition blank_heap :: persistent_heap where
  "blank_heap = \<lparr>ph_initialized = False, ph_size_classes = (\<lambda>_. init_class 0), ph_buddy = stale_buddy,
     ph_mem = (\<lambda>_. \<lparr>hc_w0 = 0, hc_w1 = 0, hc_size_class = 0\<rparr>), ph_total_allocations = 0, ph_total_frees = 0,
     ph_total_bytes_allocated = 0, ph_peak_bytes_allocated = 0, ph_current_bytes_allocated = 0,
     ph_num_active_allocations = 0, ph_fragmentation_ratio = 0, ph_last_defrag_time = 0,
     ph_allocation_count_this_second = 0, ph_last_rate_limit_check = 0,
     ph_fragmentation_warning_issued = False, ph_fragmentation_critical_issued = False,
     ph_num_oom_errors = 0, ph_num_rate_limit_errors = 0, ph_num_validation_errors = 0,
     ph_size_class_histogram = (\<lambda>_. 0), ph_pattern_analysis_count = 0,
     ph_last_pattern_analysis_time = 0, ph_size_class_hotness = (\<lambda>_. 0)\<rparr>"

definition fresh_heap :: persistent_heap where
  "fresh_heap = snd (lgx_persistent_heap_init True None (Some 4096) 0 blank_heap)"

definition demo_env :: heap_env where
  "demo_env = \<lparr>he_slab = \<lparr>se_struct = True, se_hugepages = None, se_malloc = Some 1073741824, se_calloc = True\<rparr>,
     he_now = 7\<rparr>"

lemma fresh_heap_run: "heap_run debug fresh_heap Map.empty"
  by (rule hr_start[of blank_heap True None "Some 4096" 0])
    (simp_all add: blank_heap_def fresh_heap_def lgx_persistent_heap_init_def buddy_init_def Let_def)

lemma fresh_buddy_eq: "buddy_init None (Some 4096) stale_buddy = (True, fresh_buddy)"
  by (simp add: fresh_buddy_def buddy_init_def Let_def)

lemma fresh_heap_fields:
  "ph_initialized fresh_heap" "ph_num_active_allocations fresh_heap = 0" "ph_current_bytes_allocated fresh_heap = 0"
  "i < 16 \<Longrightarrow> ph_size_classes fresh_heap i = init_class i" "ph_buddy fresh_heap = fresh_buddy"
  by (simp_all add: fresh_heap_def blank_heap_def lgx_persistent_heap_init_def fresh_buddy_eq Let_def)

lemma fresh_pool_base: "pool_base fresh_buddy = 4096"
  by (simp add: pool_base_def fresh_buddy_def buddy_init_def Let_def set_head_def set_hdr_def)

lemma demo_env_ok: "slab_env_ok (he_slab demo_env) (heap_region (ph_size_classes fresh_heap) (ph_buddy fresh_heap))"
proof -
  have "sc_region (ph_size_classes fresh_heap i) = {}" if "i < 16" for i
    using fresh_heap_fields(4)[OF that] by (simp add: sc_region_def init_class_def)
  then have "heap_region (ph_size_classes fresh_heap) (ph_buddy fresh_heap) = pool_region (ph_buddy fresh_heap)"
    by (auto simp: heap_region_def)
  also have "\<dots> = {4096..<268439552}" by (simp add: pool_region_def fresh_heap_fields fresh_pool_base BUDDY_POOL_SIZE_def)
  finally show ?thesis by (auto simp: slab_env_ok_def demo_env_def SLAB_SIZE_def)
qed

section \<open>When an allocation fails\<close>

lemma alloc_fails_only:
  assumes inv: "heap_inv debug h L"
    and env: "slab_env_ok (he_slab e) (heap_region (ph_size_classes h) (ph_buddy h))"
    and n: "0 < n" "n \<le> MAX_HEAP_SIZE" and lim: "card (dom L) < MAX_ACTIVE_ALLOCATIONS" "total_live L + n \<le> MAX_HEAP_SIZE"
    and f: "lgx_heap_alloc debug e n h = Some (None, h')"
  shows "if n + sizeof_header debug \<le> MAX_SIZE_CLASS
    then class_full (ph_size_classes h (size_to_class (n + sizeof_header debug))) \<and>
      fst (allocate_slab (he_slab e) (class_to_size (size_to_class (n + sizeof_header debug)))) = None
    else fst (buddy_alloc (ph_buddy h) (n + sizeof_header debug)) = None"
proof -
  obtain X where c: "heap_core debug (ph_mem h) (ph_size_classes h) (ph_buddy h) X L"
    using inv by (auto simp: heap_inv_def)
  have st: "unat (ph_num_active_allocations h) = card (dom L)"
    "unat (ph_current_bytes_allocated h + word_of_nat n) = total_live L + n"
    using inv lim unat_small[of "card (dom L)"] unat_small[of "total_live L + n"]
    by (auto simp: heap_inv_def MAX_HEAP_SIZE_def MAX_ACTIVE_ALLOCATIONS_def)
  obtain r cl h1 where hf: "heap_find debug e n h = (r, cl, h1)" by (metis prod_cases3)
  have r: "r = None"
    using f hf n lim st inv by (cases r) (auto simp: lgx_heap_alloc_def heap_inv_def split: option.splits)
  let ?t = "n + sizeof_header debug"
  show ?thesis
  proof (cases "?t \<le> 4096")
    case True
    let ?cl = "size_to_class ?t"
    have cl: "?cl < 16" using size_to_class_small(1)[OF True] by simp
    obtain q oom m a where q: "sc_alloc (he_slab e) (ph_size_class_hotness h ?cl) (ph_mem h) (ph_size_classes h ?cl) = (q, oom, m, a)"
      by (metis prod_cases4)
    have "q = None" using hf r cl q by (auto simp: heap_find_def Let_def)
    moreover have "sc_region (ph_size_classes h ?cl) \<subseteq> heap_region (ph_size_classes h) (ph_buddy h)"
      using cl by (auto simp: heap_region_def)
    ultimately show ?thesis
      using sc_alloc_spec[OF heap_coreD(1)[OF c cl] env _ q] heap_coreD(2)[OF c cl] True
      by (simp add: MAX_SIZE_CLASS_def)
  next
    case False
    then have "size_to_class ?t = 16" by (intro size_to_class_large) simp
    then show ?thesis using hf r False
      by (auto simp: heap_find_def Let_def MAX_SIZE_CLASS_def split: prod.splits option.splits)
  qed
qed

text \<open>The size class written into the header.\<close>

lemma alloc_class:
  assumes f: "lgx_heap_alloc debug e n h = Some (Some (p + sizeof_header debug), h')"
  shows "hdr_class (ph_mem h' p) =
    (if n + sizeof_header debug \<le> MAX_SIZE_CLASS then int (size_to_class (n + sizeof_header debug)) else -1)"
proof -
  let ?t = "n + sizeof_header debug"
  let ?cl = "if ?t \<le> MAX_SIZE_CLASS then int (size_to_class ?t) else -1"
  obtain r cl h1 where hf: "heap_find debug e n h = (r, cl, h1)" by (metis prod_cases3)
  have cl: "cl = ?cl \<and> -1 \<le> cl \<and> cl < 16"
    using hf size_to_class_small(1)[of ?t] size_to_class_large[of ?t]
    by (cases "?t \<le> 4096")
      (auto simp: heap_find_def Let_def MAX_SIZE_CLASS_def split: prod.splits option.splits)
  have "heap_warn (heap_patterns (he_now e) cl (heap_record p n cl h1)) = Some h'"
    using f hf by (auto simp: lgx_heap_alloc_def split: if_splits option.splits)
  then have "ph_mem h' p = mk_header n cl"
    by (auto simp: heap_warn_def heap_patterns_def heap_record_def Let_def split: option.splits if_splits)
  then show ?thesis using cl by simp
qed

lemma alloc_run:
  assumes run: "heap_run debug h L" and env: "slab_env_ok (he_slab e) (heap_region (ph_size_classes h) (ph_buddy h))"
    and f: "lgx_heap_alloc debug e n h = Some (Some up, h')"
  shows "\<exists>p. up = p + sizeof_header debug \<and> L p = None \<and>
    heap_run debug h' (L(p \<mapsto> (n, if n + sizeof_header debug \<le> MAX_SIZE_CLASS
                                then int (size_to_class (n + sizeof_header debug)) else -1)))"
proof -
  obtain p where p: "up = p + sizeof_header debug" "L p = None"
    using heap_alloc_inv[OF run_inv[OF run] env, of n] f by auto
  then show ?thesis using hr_alloc[OF run env f] alloc_class[of debug e n h p h'] f by (simp del: fun_upd_apply)
qed

text \<open>Two concrete executions: 100 bytes, and 100000 bytes, allocated.\<close>

lemma demo_small:
  "\<exists>p h cl. lgx_heap_alloc debug demo_env 100 fresh_heap = Some (Some (p + sizeof_header debug), h) \<and>
     heap_run debug h [p \<mapsto> (100, int cl)]"
proof -
  have inv: "heap_inv debug fresh_heap Map.empty" using run_inv[OF fresh_heap_run] .
  obtain r h where r: "lgx_heap_alloc debug demo_env 100 fresh_heap = Some (r, h)"
    using heap_alloc_inv[OF inv demo_env_ok, of 100] by blast
  let ?t = "100 + sizeof_header debug"
  have t: "?t \<le> 4096" using sizeof_header_ge(2)[of debug] by simp
  have "fst (allocate_slab (he_slab demo_env) (class_to_size (size_to_class ?t))) \<noteq> None"
  proof -
    have sc: "size_to_class 124 = 3" "size_to_class 140 = 4"
      by (simp_all add: size_to_class_def size_to_class_loop.simps heap_consts)
    have "class_to_size (size_to_class ?t) = (if debug then 256 else 128)"
      using sc by (simp add: sizeof_header_def class_to_size_eq)
    moreover have "(256::nat) AND (256 - 1) = 0" "(128::nat) AND (128 - 1) = 0" by simp_all
    ultimately show ?thesis by (cases debug) (simp_all add: allocate_slab_def demo_env_def Let_def SLAB_SIZE_def)
  qed
  then have "r \<noteq> None"
    using alloc_fails_only[OF inv demo_env_ok, of 100 h] r t
    by (cases r) (auto simp: MAX_HEAP_SIZE_def MAX_ACTIVE_ALLOCATIONS_def MAX_SIZE_CLASS_def total_live_def)
  then obtain up where up: "r = Some up" by auto
  show ?thesis using alloc_run[OF fresh_heap_run demo_env_ok r[unfolded up]] r up t
    by (auto simp: MAX_SIZE_CLASS_def simp del: fun_upd_apply)
qed

lemma demo_large:
  "\<exists>p h. lgx_heap_alloc debug demo_env 100000 fresh_heap = Some (Some (p + sizeof_header debug), h) \<and>
     heap_run debug h [p \<mapsto> (100000, -1)]"
proof -
  have inv: "heap_inv debug fresh_heap Map.empty" using run_inv[OF fresh_heap_run] .
  obtain r h where r: "lgx_heap_alloc debug demo_env 100000 fresh_heap = Some (r, h)"
    using heap_alloc_inv[OF inv demo_env_ok, of 100000] by blast
  let ?t = "100000 + sizeof_header debug"
  have c: "buddy_core fresh_buddy ((\<lambda>_. [])(14 := [0])) {} {}" using buddy_init_core[OF fresh_buddy_eq] .
  have "fst (buddy_alloc fresh_buddy ?t) \<noteq> None"
    using buddy_alloc_spec(1)[OF c, of ?t "size_to_order (?t + 24)" 14 0 "[]"] size_to_order_spec(1)[of "?t + 24"]
      sizeof_header_ge(2)[of debug] by (auto simp: BUDDY_POOL_SIZE_def)
  then have "r \<noteq> None"
    using alloc_fails_only[OF inv demo_env_ok, of 100000 h] r
    by (cases r) (auto simp: MAX_HEAP_SIZE_def MAX_ACTIVE_ALLOCATIONS_def MAX_SIZE_CLASS_def total_live_def fresh_heap_fields)
  then obtain up where up: "r = Some up" by auto
  show ?thesis using alloc_run[OF fresh_heap_run demo_env_ok r[unfolded up]] r up
    by (auto simp: MAX_SIZE_CLASS_def simp del: fun_upd_apply)
qed

section \<open>Statistics and limits\<close>

text \<open>
  C3. In every reachable state of the heap the statistics are exact: the number of active allocations
  and the bytes in use are those of the live allocations, and both respect the configured limits.
\<close>

theorem heap_statistics_exact:
  assumes "heap_run debug h L"
  shows "unat (ph_num_active_allocations h) = card (dom L) \<and> unat (ph_current_bytes_allocated h) = total_live L \<and>
    card (dom L) \<le> MAX_ACTIVE_ALLOCATIONS \<and> total_live L \<le> MAX_HEAP_SIZE"
  using run_inv[OF assms] unat_small[of "card (dom L)"] unat_small[of "total_live L"]
  by (auto simp: heap_inv_def MAX_HEAP_SIZE_def MAX_ACTIVE_ALLOCATIONS_def)

theorem heap_statistics_exact_witness:
  "\<exists>h L. heap_run False h L \<and> unat (ph_num_active_allocations h) = 1 \<and> unat (ph_current_bytes_allocated h) = 100"
proof -
  obtain p h cl where "heap_run False h [p \<mapsto> (100, int cl)]" using demo_small by blast
  from heap_statistics_exact[OF this] this show ?thesis by (auto simp: total_live_def)
qed

section \<open>Live allocations are disjoint\<close>

text \<open>
  C1. An allocation that succeeds returns memory, header included, that overlaps no live
  allocation, whichever of the free list, a slab, a new slab or the buddy allocator it came from.
\<close>

theorem heap_alloc_fresh:
  assumes "heap_run debug h L" "slab_env_ok (he_slab e) (heap_region (ph_size_classes h) (ph_buddy h))"
    "lgx_heap_alloc debug e n h = Some (Some up, h')"
  shows "sizeof_header debug \<le> up \<and>
    (\<forall>q\<in>dom L. alloc_range debug L q \<inter> {up - sizeof_header debug..<up + n} = {})"
proof -
  obtain p cl where p: "up = p + sizeof_header debug" "L p = None" "heap_run debug h' (L(p \<mapsto> (n, cl)))"
    using alloc_run[OF assms] by blast
  let ?L = "L(p \<mapsto> (n, cl))"
  obtain X where c: "heap_core debug (ph_mem h') (ph_size_classes h') (ph_buddy h') X ?L"
    using run_inv[OF p(3)] by (auto simp: heap_inv_def)
  have "alloc_range debug L q \<inter> {up - sizeof_header debug..<up + n} = {}" if q: "q \<in> dom L" for q
  proof -
    obtain k c' where l: "L q = Some (k, c')" using q by auto
    then have ne: "q \<noteq> p" using p(2) by auto
    then have "alloc_range debug ?L q \<inter> alloc_range debug ?L p = {}"
      using live_disjoint[OF c, of q k c' p n cl] l by simp
    then show ?thesis using ne p(1) by (simp add: alloc_range_def)
  qed
  with p(1) show ?thesis by simp
qed

theorem heap_alloc_fresh_witness:
  "\<exists>up h'. lgx_heap_alloc False demo_env 100 fresh_heap = Some (Some up, h') \<and> sizeof_header False \<le> up"
proof -
  obtain p h cl where "lgx_heap_alloc False demo_env 100 fresh_heap = Some (Some (p + sizeof_header False), h)"
    using demo_small by blast
  from heap_alloc_fresh[OF fresh_heap_run demo_env_ok this] this show ?thesis by blast
qed

text \<open>
  An allocation within the limits fails only for lack of memory: the size class has no free
  object left and no new slab can be had, or the buddy allocator has no block.
\<close>

theorem heap_alloc_fails_only_without_memory:
  assumes "heap_run debug h L" "slab_env_ok (he_slab e) (heap_region (ph_size_classes h) (ph_buddy h))"
    "0 < n" "card (dom L) < MAX_ACTIVE_ALLOCATIONS" "total_live L + n \<le> MAX_HEAP_SIZE"
  shows "\<exists>r h'. lgx_heap_alloc debug e n h = Some (r, h') \<and>
    (r = None \<longrightarrow>
      (if n + sizeof_header debug \<le> MAX_SIZE_CLASS
       then class_full (ph_size_classes h (size_to_class (n + sizeof_header debug))) \<and>
         fst (allocate_slab (he_slab e) (class_to_size (size_to_class (n + sizeof_header debug)))) = None
       else fst (buddy_alloc (ph_buddy h) (n + sizeof_header debug)) = None))"
proof -
  note inv = run_inv[OF assms(1)]
  obtain r h' where r: "lgx_heap_alloc debug e n h = Some (r, h')"
    using heap_alloc_inv[OF inv assms(2), of n] by blast
  have le: "n \<le> MAX_HEAP_SIZE" using assms(5) by simp
  show ?thesis
    using r alloc_fails_only[OF inv assms(2,3) le assms(4,5), of h'] by (intro exI[of _ r] exI[of _ h']) auto
qed

theorem heap_alloc_fails_only_without_memory_witness:
  "\<exists>r h'. lgx_heap_alloc False demo_env 100 fresh_heap = Some (r, h')"
  using heap_alloc_fails_only_without_memory[OF fresh_heap_run demo_env_ok, of 100 False]
  by (auto simp: MAX_ACTIVE_ALLOCATIONS_def MAX_HEAP_SIZE_def total_live_def)

section \<open>Freeing\<close>

text \<open>Freeing a live allocation of a run.\<close>

lemma heap_free_run:
  assumes "heap_run debug h L" "L p = Some (n, cl)"
  obtains h' where "lgx_heap_free debug (Some (p + sizeof_header debug)) h = Some h'" "heap_run debug h' (L(p := None))"
    "heap_inv debug h' (L(p := None))"
  using heap_free_inv[OF run_inv[OF assms(1)] assms(2)] hr_free[OF assms] by blast

text \<open>
  C4. Freeing a live pointer returns it to its allocator: the call ends, the allocation is no longer
  live, the statistics lose exactly its size, and all other allocations keep their headers.
\<close>

theorem heap_free_live:
  assumes "heap_run debug h L" "L p = Some (n, cl)"
  shows "\<exists>h'. lgx_heap_free debug (Some (p + sizeof_header debug)) h = Some h' \<and>
    heap_run debug h' (L(p := None)) \<and>
    unat (ph_num_active_allocations h') + 1 = unat (ph_num_active_allocations h) \<and>
    unat (ph_current_bytes_allocated h') + n = unat (ph_current_bytes_allocated h) \<and>
    (\<forall>q k c. q \<noteq> p \<and> L q = Some (k, c) \<longrightarrow> header_ok debug (ph_buddy h') (ph_mem h' q) q k c)"
proof -
  note inv = run_inv[OF assms(1)]
  obtain h' where f: "lgx_heap_free debug (Some (p + sizeof_header debug)) h = Some h'"
    "heap_inv debug h' (L(p := None))"
    using heap_free_run[OF assms] by metis
  have fin: "finite (dom L)" "p \<in> dom L" using inv assms(2) by (auto simp: heap_inv_def)
  have "card (dom L) = Suc (card (dom (L(p := None))))" using card_Suc_Diff1[OF fin] by simp
  moreover have "total_live (L(p := None)) + n = total_live L" using total_live_upd(2)[OF fin(1) assms(2)] .
  moreover have "unat (ph_num_active_allocations g) = card (dom M)" "unat (ph_current_bytes_allocated g) = total_live M"
    if "heap_inv debug g M" for g M
    using that unat_small[of "card (dom M)"] unat_small[of "total_live M"]
    by (auto simp: heap_inv_def MAX_HEAP_SIZE_def MAX_ACTIVE_ALLOCATIONS_def)
  moreover have "header_ok debug (ph_buddy h') (ph_mem h' q) q k c" if "q \<noteq> p" "L q = Some (k, c)" for q k c
  proof -
    obtain X where "heap_core debug (ph_mem h') (ph_size_classes h') (ph_buddy h') X (L(p := None))"
      using f(2) by (auto simp: heap_inv_def)
    from heap_coreD(6)[OF this, of q k c] that show ?thesis by simp
  qed
  ultimately show ?thesis
    using f inv hr_free[OF assms f(1)] by (intro exI[of _ h']) (auto simp del: fun_upd_apply dom_fun_upd)
qed

theorem heap_free_live_witness:
  "\<exists>p h h'. lgx_heap_free False (Some (p + sizeof_header False)) h = Some h' \<and> heap_run False h' Map.empty \<and>
     unat (ph_current_bytes_allocated h') + 100 = unat (ph_current_bytes_allocated h)"
proof -
  obtain p h cl where "heap_run False h [p \<mapsto> (100, int cl)]" using demo_small by blast
  from heap_free_live[OF this, of p 100 "int cl"] show ?thesis by auto
qed

section \<open>Double frees\<close>

text \<open>
  C8. A small allocation that is freed twice in a row, with no other call between, is detected by the second
  call, in release builds too, where the magic number is not cleared: the link the first free wrote over it is
  even and the magic number is odd. The call only counts a validation error. The same holds of every allocation
  in debug builds. (Once the block is allocated again, a stale free of it is a free of the new allocation.)
\<close>

theorem heap_double_free_detected:
  assumes "heap_run debug h L" "L p = Some (n, cl)" "debug \<or> cl \<noteq> -1"
    "lgx_heap_free debug (Some (p + sizeof_header debug)) h = Some h'"
  shows "lgx_heap_free debug (Some (p + sizeof_header debug)) h' =
    Some (h'\<lparr>ph_num_validation_errors := ph_num_validation_errors h' + 1\<rparr>)"
proof -
  have "hdr_magic (ph_mem h' p) \<noteq> ALLOC_MAGIC" "ph_initialized h'"
    using heap_free_inv[OF run_inv[OF assms(1)] assms(2)] assms(3,4) by (auto simp: heap_inv_def)
  then show ?thesis by (simp add: lgx_heap_free_def Let_def)
qed

theorem heap_double_free_detected_witness:
  "\<exists>p h'. lgx_heap_free False (Some (p + sizeof_header False)) h' =
    Some (h'\<lparr>ph_num_validation_errors := ph_num_validation_errors h' + 1\<rparr>)"
proof -
  obtain p h cl where run: "heap_run False h [p \<mapsto> (100, int cl)]" using demo_small by blast
  obtain h' where f: "lgx_heap_free False (Some (p + sizeof_header False)) h = Some h'"
    using heap_free_inv[OF run_inv[OF run], of p 100 "int cl"] by auto
  from heap_double_free_detected[OF run _ _ f] show ?thesis by auto
qed

text \<open>
  In release builds a second free of a large allocation is not rejected: the buddy allocator
  ignores it, but the statistics are decremented again and no longer count the live allocations. After
  freeing the only allocation twice, the counter of active allocations is \<open>2 ^ 64 - 1\<close>, and every
  further allocation is refused.
\<close>

theorem heap_large_double_free_miscounts:
  assumes run: "heap_run False h [p \<mapsto> (n, -1)]"
  shows "\<exists>h1 h2. lgx_heap_free False (Some (p + sizeof_header False)) h = Some h1 \<and>
    lgx_heap_free False (Some (p + sizeof_header False)) h1 = Some h2 \<and>
    heap_run False h1 Map.empty \<and> ph_buddy h2 = ph_buddy h1 \<and>
    ph_num_active_allocations h2 = -1 \<and>
    fst (the (lgx_heap_alloc False e k h2)) = None"
proof -
  let ?up = "Some (p + sizeof_header False)"
  obtain h1 where f1: "lgx_heap_free False ?up h = Some h1" "heap_inv False h1 ([p \<mapsto> (n, -1)](p := None))"
    "hdr_magic (ph_mem h1 p) = ALLOC_MAGIC" "hdr_class (ph_mem h1 p) = -1"
    using heap_free_inv[OF run_inv[OF run], of p n "-1"] by auto
  have emp: "[p \<mapsto> (n, -1)](p := None) = Map.empty" by auto
  have run1: "heap_run False h1 Map.empty" using hr_free[OF run _ f1(1)] unfolding emp by simp
  have act: "ph_num_active_allocations h1 = 0" using f1(2) emp by (simp add: heap_inv_def)
  obtain b1 where b1: "buddy_free (ph_buddy h) (Some (int p - int (pool_base (ph_buddy h)))) = Some b1" "ph_buddy h1 = b1"
  proof -
    have "hdr_class (ph_mem h p) = -1" "hdr_magic (ph_mem h p) = ALLOC_MAGIC" "ph_initialized h"
      using run_inv[OF run] heap_coreD(6)[of False "ph_mem h" _ "ph_buddy h" _ "[p \<mapsto> (n, -1)]" p n "-1"]
      by (auto simp: heap_inv_def header_ok_def)
    then show thesis using f1(1) that
      by (auto simp: lgx_heap_free_def Let_def heap_release_def heap_unwarn_def split: option.splits if_splits)
  qed
  have base: "pool_base b1 = pool_base (ph_buddy h)" using buddy_free_memory[OF b1(1)] by (simp add: pool_base_def)
  have noop: "buddy_free (ph_buddy h1) (Some (int p - int (pool_base (ph_buddy h1)))) = Some (ph_buddy h1)"
    using double_free_noop[OF b1(1)] b1(2) base by simp
  let ?h2 = "h1\<lparr>ph_total_frees := ph_total_frees h1 + 1, ph_num_active_allocations := ph_num_active_allocations h1 - 1,
      ph_current_bytes_allocated := ph_current_bytes_allocated h1 - ucast (hdr_size (ph_mem h1 p))\<rparr>"
  have init: "ph_initialized h1" using f1(2) by (simp add: heap_inv_def)
  have eq: "lgx_heap_free False ?up h1 = heap_unwarn ?h2"
    using f1(3,4) noop init by (simp add: lgx_heap_free_def Let_def heap_release_def)
  obtain X where "heap_core False (ph_mem h1) (ph_size_classes h1) (ph_buddy h1) X Map.empty"
    using run_inv[OF run1] by (auto simp: heap_inv_def)
  then obtain q where q: "buddy_get_fragmentation (ph_buddy h1) = Some q"
    using fragmentation_defined[OF heap_coreD(5)] by blast
  then obtain h3 where h3: "heap_unwarn ?h2 = Some h3" "ph_buddy h3 = ph_buddy h1" "ph_num_active_allocations h3 = -1"
    "ph_initialized h3"
    using act init by (auto simp: heap_unwarn_def)
  have "unat (- 1 :: u64) = 2 ^ 64 - 1" by (simp add: unsigned_minus_1_eq_mask mask_eq_exp_minus_1)
  then have "fst (the (lgx_heap_alloc False e k h3)) = None"
    using h3(3,4) by (auto simp: lgx_heap_alloc_def MAX_ACTIVE_ALLOCATIONS_def)
  then show ?thesis using f1(1) eq h3 run1 by auto
qed

theorem heap_large_double_free_miscounts_witness:
  "\<exists>p h h1 h2. heap_run False h [p \<mapsto> (100000, -1)] \<and>
    lgx_heap_free False (Some (p + sizeof_header False)) h = Some h1 \<and>
    lgx_heap_free False (Some (p + sizeof_header False)) h1 = Some h2 \<and> ph_num_active_allocations h2 = -1"
proof -
  obtain p h where run: "heap_run False h [p \<mapsto> (100000, -1)]" using demo_large by blast
  from heap_large_double_free_miscounts[OF run, of demo_env 1] run show ?thesis by blast
qed

section \<open>Pointer classification\<close>

text \<open>Which pointers the heap takes for its own.\<close>

lemma heap_pointer_cases:
  assumes run: "heap_run debug h L"
  shows "(L p = Some (n, cl) \<longrightarrow> lgx_heap_is_heap_pointer debug (Some (p + sizeof_header debug)) h) \<and>
    (q \<notin> heap_region (ph_size_classes h) (ph_buddy h) \<longrightarrow> \<not> lgx_heap_is_heap_pointer debug (Some q) h)"
proof -
  note inv = run_inv[OF run]
  obtain X where c: "heap_core debug (ph_mem h) (ph_size_classes h) (ph_buddy h) X L"
    using inv by (auto simp: heap_inv_def)
  have init: "ph_initialized h" using inv by (simp add: heap_inv_def)
  obtain F where "buddy_core (ph_buddy h) F (blk_of debug (ph_buddy h) L ` class_live L (-1)) {}"
    using run_core[OF heap_coreD(5)[OF c]] by blast
  then have tot: "ba_total_size (ph_buddy h) = BUDDY_POOL_SIZE" and mem: "ba_memory (ph_buddy h) \<noteq> None"
    using coreD(1,2) by blast+
  have slab: "(\<exists>s\<in>set (sc_slabs (ph_size_classes h i)). in_slab x s) \<longleftrightarrow> x \<in> sc_region (ph_size_classes h i)"
    if "i < 16" for i x
  proof -
    have "in_slab x s \<longleftrightarrow> x \<in> slab_region s" if "s \<in> set (sc_slabs (ph_size_classes h i))" for s
      using sc_invD(3)[OF heap_coreD(1)[OF c \<open>i < 16\<close>]] that
      by (auto simp: in_slab_def slab_region_def good_slab_def wf_slab_def)
    then show ?thesis by (auto simp: sc_region_def)
  qed
  have "lgx_heap_is_heap_pointer debug (Some (p + sizeof_header debug)) h" if l: "L p = Some (n, cl)"
  proof -
    have hd: "header_ok debug (ph_buddy h) (ph_mem h p) p n cl" using heap_coreD(6)[OF c l] .
    then have up: "p + sizeof_header debug \<in> alloc_range debug L p" using l by (auto simp: alloc_range_def header_ok_def)
    have magic: "hdr_magic (ph_mem h p) = ALLOC_MAGIC" using hd by (simp add: header_ok_def)
    show ?thesis
    proof (rule live_cases[OF c l], goal_cases small large)
      case (small i)
      then have "p + sizeof_header debug \<in> sc_region (ph_size_classes h i)" using up by blast
      then have "\<exists>s\<in>set (sc_slabs (ph_size_classes h i)). in_slab (p + sizeof_header debug) s" using slab[OF small(1)] by blast
      moreover have "i \<in> set [0..<NUM_SIZE_CLASSES]" using small(1) by simp
      ultimately show ?case using magic init unfolding lgx_heap_is_heap_pointer_def by auto
    next
      case large
      then have "p + sizeof_header debug \<in> pool_region (ph_buddy h)" using up by blast
      then show ?case using magic init mem tot by (simp add: lgx_heap_is_heap_pointer_def pool_region_def)
    qed
  qed
  moreover have "\<not> lgx_heap_is_heap_pointer debug (Some q) h" if "q \<notin> heap_region (ph_size_classes h) (ph_buddy h)"
  proof -
    have "q \<notin> sc_region (ph_size_classes h i)" if "i < 16" for i
      using \<open>q \<notin> heap_region (ph_size_classes h) (ph_buddy h)\<close> that by (auto simp: heap_region_def)
    then have "\<not> (\<exists>i\<in>set [0..<NUM_SIZE_CLASSES]. \<exists>s\<in>set (sc_slabs (ph_size_classes h i)). in_slab q s)"
      using slab by auto
    moreover have "\<not> (pool_base (ph_buddy h) \<le> q \<and> q < pool_base (ph_buddy h) + ba_total_size (ph_buddy h))"
      using \<open>q \<notin> heap_region (ph_size_classes h) (ph_buddy h)\<close> tot by (auto simp: heap_region_def pool_region_def)
    ultimately show ?thesis unfolding lgx_heap_is_heap_pointer_def by auto
  qed
  ultimately show ?thesis by blast
qed

text \<open>
  \<open>lgx_heap_is_heap_pointer\<close>, which \<open>lgx_free\<close> uses to route a pointer, accepts every live
  allocation and rejects every address outside the slabs and the buddy pool, as well as small
  allocations that were freed.
\<close>

theorem heap_pointer_classified:
  assumes run: "heap_run debug h L"
  shows "(L p = Some (n, cl) \<longrightarrow> lgx_heap_is_heap_pointer debug (Some (p + sizeof_header debug)) h) \<and>
    (q \<notin> heap_region (ph_size_classes h) (ph_buddy h) \<longrightarrow> \<not> lgx_heap_is_heap_pointer debug (Some q) h)"
  by (rule heap_pointer_cases[OF run])

theorem heap_pointer_classified_witness:
  "\<exists>p h. heap_run False h [p \<mapsto> (100000, -1)] \<and> lgx_heap_is_heap_pointer False (Some (p + sizeof_header False)) h"
proof -
  obtain p h where run: "heap_run False h [p \<mapsto> (100000, -1)]" using demo_large by blast
  from heap_pointer_classified[OF run, of p 100000 "-1" 0] run show ?thesis by auto
qed

text \<open>
  \<open>size_to_class\<close> picks the smallest size class that holds the request, so a small object fits
  its slot and wastes less than half of it; the classes 9 to 15, which \<open>NUM_SIZE_CLASSES\<close> provides,
  are never chosen.
\<close>

theorem size_class_tight:
  "if n \<le> MAX_SIZE_CLASS
   then size_to_class n \<le> 8 \<and> n \<le> class_to_size (size_to_class n) \<and>
     (MIN_SIZE_CLASS < n \<longrightarrow> class_to_size (size_to_class n) < 2 * n)
   else size_to_class n = NUM_SIZE_CLASSES"
proof (cases "n \<le> 4096")
  case True
  note s = size_to_class_small[OF True]
  have "class_to_size (size_to_class n) < 2 * n" if "16 < n"
  proof (cases "size_to_class n")
    case 0
    then show ?thesis using s(2) that by (simp add: class_to_size_eq)
  next
    case (Suc k)
    then show ?thesis using s(3) by (simp add: class_to_size_eq)
  qed
  then show ?thesis using s True by (simp add: MAX_SIZE_CLASS_def MIN_SIZE_CLASS_def)
next
  case False
  then show ?thesis by (simp add: MAX_SIZE_CLASS_def size_to_class_large)
qed

theorem size_class_tight_witness:
  "size_to_class 124 \<le> 8 \<and> 124 \<le> class_to_size (size_to_class 124) \<and> class_to_size (size_to_class 124) < 248"
  using size_class_tight[of 124] by (simp add: MAX_SIZE_CLASS_def MIN_SIZE_CLASS_def)

end
