(* ===== verification/Frame_Arena.thy ===== *)
theory Frame_Arena
  imports Persistent_Heap
begin

text \<open>
  The frame arena allocator (\<^verbatim>\<open>src/runtime/lgx_frame_arena.c\<close>): three bump-pointer arenas
  used in turn, one per frame, growth by chaining chunks, fallback to the persistent heap, rolling
  usage averages, allocation tags and sizing recommendations.

  Sizes and offsets are \<open>64 word\<close>s, so that the wrap-around of \<open>size + 15\<close> and
  \<open>old_offset + size\<close> is that of the code; the frame counter is 64 bits wide in memory and read
  through a \<open>uint32_t\<close>. Calls to the operating system and to the telemetry are recorded in logs.
  \<open>dbg\<close> is \<open>LGX_DEBUG_BUILD\<close>. Messages on stderr and the profilers' own output are left out.
\<close>

section \<open>Configuration\<close>

definition FRAME_ARENA_DEFAULT_SIZE :: u64 where "FRAME_ARENA_DEFAULT_SIZE = 64 * 1024 * 1024"
definition FRAME_ARENA_MIN_SIZE :: u64 where "FRAME_ARENA_MIN_SIZE = 16 * 1024 * 1024"
definition FRAME_ARENA_MAX_SIZE :: u64 where "FRAME_ARENA_MAX_SIZE = 256 * 1024 * 1024"
definition FRAME_ARENA_COUNT :: nat where "FRAME_ARENA_COUNT = 3"
definition FRAME_ARENA_ALIGNMENT :: u64 where "FRAME_ARENA_ALIGNMENT = 16"
definition CACHE_LINE_SIZE :: u64 where "CACHE_LINE_SIZE = 64"
definition ROLLING_AVERAGE_WINDOW :: nat where "ROLLING_AVERAGE_WINDOW = 60"
definition MAX_ALLOCATION_TAGS :: nat where "MAX_ALLOCATION_TAGS = 64"

lemmas frame_consts [lgx_consts] =
  FRAME_ARENA_DEFAULT_SIZE_def FRAME_ARENA_MIN_SIZE_def FRAME_ARENA_MAX_SIZE_def FRAME_ARENA_COUNT_def
  FRAME_ARENA_ALIGNMENT_def CACHE_LINE_SIZE_def ROLLING_AVERAGE_WINDOW_def MAX_ALLOCATION_TAGS_def

lemma frame_counts [simp]: "FRAME_ARENA_COUNT = 3" "ROLLING_AVERAGE_WINDOW = 60"
  by (simp_all add: FRAME_ARENA_COUNT_def ROLLING_AVERAGE_WINDOW_def)

section \<open>State\<close>

record allocation_call_site =
  cs_file :: string
  cs_line :: int
  cs_total_bytes :: u64
  cs_count :: u64

record allocation_tag =
  tg_tag :: string
  tg_total_bytes :: u64
  tg_count :: u64
  tg_peak_bytes :: u64

record arena_chunk =
  ch_base :: nat
  ch_capacity :: u64

record lgx_frame_arena =
  fa_base :: "nat option"
  fa_capacity :: u64
  fa_max_capacity :: u64
  fa_offset :: u64
  fa_frame_index :: u32
  fa_allocations :: u64
  fa_peak_usage :: u64
  fa_overflow_occurred :: bool
  fa_retired_chunks :: "arena_chunk list"
  fa_retired_bytes :: u64
  fa_usage_history :: "u64 list"
  fa_history_index :: nat
  fa_rolling_average :: u64
  fa_usage_sum :: u64
  fa_high_usage_warning_shown :: bool
  fa_last_high_usage_warning_time :: u64
  fa_call_sites :: "allocation_call_site list"
  fa_tags :: "allocation_tag list"
  fa_magic_number :: u32
  fa_reset_count :: u64

record lgx_frame_arena_stats =
  st_total_allocations :: u64
  st_total_bytes_allocated :: u64
  st_overflow_count :: u64
  st_fallback_count :: u64
  st_fallback_bytes :: u64
  st_peak_usage_bytes :: u64
  st_current_frame :: u64
  st_reset_count :: u64
  st_last_reset_time_ns :: u64
  st_allocations_since_reset :: u64

text \<open>Calls that leave the component: to the kernel, and to the telemetry on an overflow.\<close>

datatype os_call = Os_mmap nat u64 | Os_munmap nat u64

record overflow_event =
  oe_frame :: u32
  oe_size :: u64
  oe_capacity :: u64
  oe_offset :: u64

record frame_state =
  fs_initialized :: bool
  fs_arenas :: "nat \<Rightarrow> lgx_frame_arena"
  fs_current_frame :: u64
  fs_stats :: lgx_frame_arena_stats
  fs_configured_arena_size :: u64
  fs_configured_max_size :: u64
  fs_tracy_enabled :: bool
  fs_optick_enabled :: bool
  fs_chrome_trace_enabled :: bool
  fs_chrome_trace_file :: bool
  fs_chrome_trace_first_event :: bool
  fs_last_warning_time :: u64
  fs_os_calls :: "os_call list"
  fs_overflow_events :: "overflow_event list"

text \<open>
  What the calls out of the component return: for each arena, the results of the two \<open>mmap\<close>s (huge
  pages, regular pages), of the \<open>malloc\<close> of a chunk node, and the clock.
\<close>

record frame_env =
  fe_huge :: "nat \<Rightarrow> nat option"
  fe_regular :: "nat \<Rightarrow> nat option"
  fe_node :: bool
  fe_now :: u64

section \<open>Allocation tags\<close>

fun bump_tag :: "u64 \<Rightarrow> string \<Rightarrow> allocation_tag list \<Rightarrow> allocation_tag list option" where
  "bump_tag sz tag [] = None"
| "bump_tag sz tag (t # ts) =
     (if tg_tag t = tag then
        let total = tg_total_bytes t + sz
        in Some (t\<lparr>tg_total_bytes := total, tg_count := tg_count t + 1,
                   tg_peak_bytes := (if total > tg_peak_bytes t then total else tg_peak_bytes t)\<rparr> # ts)
      else map_option ((#) t) (bump_tag sz tag ts))"

definition track_allocation_tag :: "lgx_frame_arena \<Rightarrow> u64 \<Rightarrow> string option \<Rightarrow> lgx_frame_arena" where
  "track_allocation_tag a sz tag0 =
     (let tag = (case tag0 of None \<Rightarrow> ''untagged'' | Some t \<Rightarrow> t)
      in case bump_tag sz tag (fa_tags a) of
           Some ts \<Rightarrow> a\<lparr>fa_tags := ts\<rparr>
         | None \<Rightarrow>
             if length (fa_tags a) < MAX_ALLOCATION_TAGS
             then a\<lparr>fa_tags := fa_tags a @ [\<lparr>tg_tag = tag, tg_total_bytes = sz, tg_count = 1,
                                             tg_peak_bytes = sz\<rparr>]\<rparr>
             else a)"

section \<open>Memory from the kernel\<close>

definition allocate_huge_page_arena ::
    "nat option \<Rightarrow> nat option \<Rightarrow> u64 \<Rightarrow> nat option \<times> os_call list" where
  "allocate_huge_page_arena huge regular sz =
     (case huge of
        Some p \<Rightarrow> (Some p, [Os_mmap p sz])
      | None \<Rightarrow>
          let aligned_size = sz + CACHE_LINE_SIZE
          in (case regular of
                None \<Rightarrow> (None, [])
              | Some p \<Rightarrow> (Some p, [Os_mmap p aligned_size])))"

definition free_huge_page_arena :: "nat option \<Rightarrow> u64 \<Rightarrow> os_call list" where
  "free_huge_page_arena ptr sz = (case ptr of None \<Rightarrow> [] | Some p \<Rightarrow> [Os_munmap p sz])"

definition free_retired_chunks :: "lgx_frame_arena \<Rightarrow> os_call list \<times> lgx_frame_arena" where
  "free_retired_chunks a =
     (concat (map (\<lambda>c. free_huge_page_arena (Some (ch_base c)) (ch_capacity c)) (fa_retired_chunks a)),
      a\<lparr>fa_retired_chunks := [], fa_retired_bytes := 0\<rparr>)"

definition grow_arena ::
    "nat option \<Rightarrow> nat option \<Rightarrow> bool \<Rightarrow> lgx_frame_arena \<Rightarrow> u64 \<Rightarrow> bool \<times> os_call list \<times> lgx_frame_arena" where
  "grow_arena huge regular node_ok a new_capacity0 =
     (if new_capacity0 \<le> fa_capacity a then (False, [], a)
      else
        let new_capacity = (if new_capacity0 > fa_max_capacity a then fa_max_capacity a else new_capacity0)
        in if fa_capacity a \<ge> fa_max_capacity a then (False, [], a)
           else
             (case allocate_huge_page_arena huge regular new_capacity of
                (None, os) \<Rightarrow> (False, os, a)
              | (Some new_base, os) \<Rightarrow>
                  (case fa_base a of
                     None \<Rightarrow> (True, os, a\<lparr>fa_base := Some new_base, fa_capacity := new_capacity, fa_offset := 0\<rparr>)
                   | Some old_base \<Rightarrow>
                       if \<not> node_ok
                       then (False, os @ free_huge_page_arena (Some new_base) new_capacity, a)
                       else (True, os,
                             a\<lparr>fa_retired_chunks := \<lparr>ch_base = old_base, ch_capacity = fa_capacity a\<rparr> # fa_retired_chunks a,
                               fa_retired_bytes := fa_retired_bytes a + fa_offset a,
                               fa_base := Some new_base, fa_capacity := new_capacity, fa_offset := 0\<rparr>))))"

definition update_rolling_average :: "lgx_frame_arena \<Rightarrow> lgx_frame_arena" where
  "update_rolling_average a =
     (let leaving = fa_usage_history a ! fa_history_index a;
          entering = fa_retired_bytes a + fa_offset a;
          sum = fa_usage_sum a - leaving + entering
      in a\<lparr>fa_usage_history := (fa_usage_history a)[fa_history_index a := entering],
           fa_history_index := (fa_history_index a + 1) mod ROLLING_AVERAGE_WINDOW,
           fa_usage_sum := sum,
           fa_rolling_average := sum div word_of_nat ROLLING_AVERAGE_WINDOW\<rparr>)"

section \<open>Initialisation and shutdown\<close>

definition lgx_frame_arena_set_config_size :: "u64 \<Rightarrow> frame_state \<Rightarrow> frame_state" where
  "lgx_frame_arena_set_config_size sz s = s\<lparr>fs_configured_arena_size := sz\<rparr>"

definition lgx_frame_arena_set_config_max_size :: "u64 \<Rightarrow> frame_state \<Rightarrow> frame_state" where
  "lgx_frame_arena_set_config_max_size sz s = s\<lparr>fs_configured_max_size := sz\<rparr>"

definition clamp_arena_size :: "u64 \<Rightarrow> u64" where
  "clamp_arena_size configured =
     (let a0 = (if configured = 0 then FRAME_ARENA_DEFAULT_SIZE else configured);
          a1 = (if a0 < FRAME_ARENA_MIN_SIZE then FRAME_ARENA_MIN_SIZE else a0)
      in if a1 > FRAME_ARENA_MAX_SIZE then FRAME_ARENA_MAX_SIZE else a1)"

definition clamp_max_size :: "u64 \<Rightarrow> u64 \<Rightarrow> u64" where
  "clamp_max_size configured arena_size =
     (let m0 = (if configured = 0 then FRAME_ARENA_MAX_SIZE else configured);
          m1 = (if m0 < arena_size then arena_size else m0)
      in if m1 > FRAME_ARENA_MAX_SIZE then FRAME_ARENA_MAX_SIZE else m1)"

definition init_arena :: "bool \<Rightarrow> nat \<Rightarrow> u64 \<Rightarrow> u64 \<Rightarrow> lgx_frame_arena \<Rightarrow> lgx_frame_arena" where
  "init_arena dbg base arena_size max_size a =
     (let a1 = a\<lparr>fa_base := Some base, fa_capacity := arena_size, fa_max_capacity := max_size, fa_offset := 0,
                 fa_frame_index := 0, fa_allocations := 0, fa_peak_usage := 0, fa_overflow_occurred := False,
                 fa_usage_history := replicate ROLLING_AVERAGE_WINDOW 0, fa_history_index := 0,
                 fa_rolling_average := 0, fa_usage_sum := 0, fa_high_usage_warning_shown := False,
                 fa_last_high_usage_warning_time := 0, fa_call_sites := [], fa_tags := []\<rparr>
      in if dbg then a1\<lparr>fa_magic_number := 0xDEADBEEF, fa_reset_count := 0\<rparr> else a1)"

text \<open>The loop over the arenas; a failure unmaps the arenas set up before.\<close>

fun init_arenas ::
    "bool \<Rightarrow> frame_env \<Rightarrow> u64 \<Rightarrow> u64 \<Rightarrow> nat list \<Rightarrow> nat list \<Rightarrow> frame_state \<Rightarrow> bool \<times> frame_state" where
  "init_arenas dbg e sz mx before [] s = (True, s)"
| "init_arenas dbg e sz mx before (i # is) s =
     (case allocate_huge_page_arena (fe_huge e i) (fe_regular e i) sz of
        (None, os) \<Rightarrow>
          (False, s\<lparr>fs_arenas := (fs_arenas s)(i := (fs_arenas s i)\<lparr>fa_base := None\<rparr>),
                    fs_os_calls := fs_os_calls s @ os @
                      concat (map (\<lambda>j. free_huge_page_arena (fa_base (fs_arenas s j)) (fa_capacity (fs_arenas s j))) before)\<rparr>)
      | (Some base, os) \<Rightarrow>
          init_arenas dbg e sz mx (before @ [i]) is
            (s\<lparr>fs_arenas := (fs_arenas s)(i := init_arena dbg base sz mx (fs_arenas s i)),
               fs_os_calls := fs_os_calls s @ os\<rparr>))"

definition zero_stats :: lgx_frame_arena_stats where
  "zero_stats = \<lparr>st_total_allocations = 0, st_total_bytes_allocated = 0, st_overflow_count = 0,
     st_fallback_count = 0, st_fallback_bytes = 0, st_peak_usage_bytes = 0, st_current_frame = 0,
     st_reset_count = 0, st_last_reset_time_ns = 0, st_allocations_since_reset = 0\<rparr>"

definition lgx_frame_arena_init ::
    "bool \<Rightarrow> bool \<Rightarrow> frame_env \<Rightarrow> frame_state \<Rightarrow> lgx_result \<times> frame_state" where
  "lgx_frame_arena_init dbg mutex_ok e s =
     (if fs_initialized s then (LGX_SUCCESS, s)
      else
        let arena_size = clamp_arena_size (fs_configured_arena_size s);
            max_size = clamp_max_size (fs_configured_max_size s) arena_size
        in if \<not> mutex_ok then (LGX_ERROR_INVALID_PARAM, s)
           else
             (case init_arenas dbg e arena_size max_size [] [0..<FRAME_ARENA_COUNT] s of
                (False, s1) \<Rightarrow> (LGX_ERROR_OUT_OF_MEMORY, s1)
              | (True, s1) \<Rightarrow>
                  (LGX_SUCCESS, s1\<lparr>fs_stats := zero_stats\<lparr>st_last_reset_time_ns := fe_now e\<rparr>,
                                   fs_current_frame := 0, fs_initialized := True\<rparr>)))"

definition shutdown_arena :: "lgx_frame_arena \<Rightarrow> os_call list \<times> lgx_frame_arena" where
  "shutdown_arena a =
     (let (os, a1) = free_retired_chunks a
      in (os @ free_huge_page_arena (fa_base a1) (fa_capacity a1),
          if fa_base a1 \<noteq> None then a1\<lparr>fa_base := None\<rparr> else a1))"

definition lgx_frame_arena_shutdown :: "frame_state \<Rightarrow> lgx_result \<times> frame_state" where
  "lgx_frame_arena_shutdown s =
     (if \<not> fs_initialized s then (LGX_SUCCESS, s)
      else (LGX_SUCCESS,
            s\<lparr>fs_os_calls := fs_os_calls s @ concat (map (\<lambda>i. fst (shutdown_arena (fs_arenas s i))) [0..<FRAME_ARENA_COUNT]),
              fs_arenas := (\<lambda>i. if i < FRAME_ARENA_COUNT then snd (shutdown_arena (fs_arenas s i)) else fs_arenas s i),
              fs_initialized := False\<rparr>))"

section \<open>Sizing recommendation\<close>

definition lgx_frame_arena_get_recommended_size :: "frame_state \<Rightarrow> u64" where
  "lgx_frame_arena_get_recommended_size s =
     (if \<not> fs_initialized s then FRAME_ARENA_DEFAULT_SIZE
      else
        let max_peak = foldl (\<lambda>m i. if fa_peak_usage (fs_arenas s i) > m then fa_peak_usage (fs_arenas s i) else m)
                         0 [0..<FRAME_ARENA_COUNT];
            max_rolling_avg = foldl (\<lambda>m i. if fa_rolling_average (fs_arenas s i) > m
                                            then fa_rolling_average (fs_arenas s i) else m)
                         0 [0..<FRAME_ARENA_COUNT];
            observed_max = (if max_peak > max_rolling_avg then max_peak else max_rolling_avg);
            recommended = observed_max + observed_max div 4;
            alignment = 16 * 1024 * 1024;
            rounded = ((recommended + alignment - 1) div alignment) * alignment;
            r1 = (if rounded < FRAME_ARENA_MIN_SIZE then FRAME_ARENA_MIN_SIZE else rounded)
        in if r1 > FRAME_ARENA_MAX_SIZE then FRAME_ARENA_MAX_SIZE else r1)"

section \<open>Allocation\<close>

definition align16 :: "u64 \<Rightarrow> u64" where
  "align16 sz = (sz + FRAME_ARENA_ALIGNMENT - 1) AND NOT (FRAME_ARENA_ALIGNMENT - 1)"

definition cur_frame :: "frame_state \<Rightarrow> u32" where
  "cur_frame s = ucast (fs_current_frame s)"

definition arena_of :: "u32 \<Rightarrow> nat" where
  "arena_of f = unat f mod FRAME_ARENA_COUNT"

definition set_arena :: "nat \<Rightarrow> lgx_frame_arena \<Rightarrow> frame_state \<Rightarrow> frame_state" where
  "set_arena i a s = s\<lparr>fs_arenas := (fs_arenas s)(i := a)\<rparr>"

text \<open>The label \<open>allocation_succeeded\<close>.\<close>

definition commit_alloc :: "nat \<Rightarrow> lgx_frame_arena \<Rightarrow> u64 \<Rightarrow> u64 \<Rightarrow> u64 \<Rightarrow> frame_state \<Rightarrow> nat option \<times> frame_state" where
  "commit_alloc i a old_offset new_offset sz s =
     (let a1 = a\<lparr>fa_offset := new_offset, fa_allocations := fa_allocations a + 1\<rparr>;
          total_used = fa_retired_bytes a1 + new_offset;
          a2 = (if total_used > fa_peak_usage a1 then a1\<lparr>fa_peak_usage := total_used\<rparr> else a1);
          st = fs_stats s;
          st1 = st\<lparr>st_total_allocations := st_total_allocations st + 1,
                   st_total_bytes_allocated := st_total_bytes_allocated st + sz,
                   st_allocations_since_reset := st_allocations_since_reset st + 1\<rparr>;
          st2 = (if fa_peak_usage a2 > st_peak_usage_bytes st1
                 then st1\<lparr>st_peak_usage_bytes := fa_peak_usage a2\<rparr> else st1)
      in (map_option (\<lambda>b. b + unat old_offset) (fa_base a2), set_arena i a2 (s\<lparr>fs_stats := st2\<rparr>)))"

text \<open>
  The overflow path: telemetry, the rate-limited warning, and the persistent heap. The heap is the
  one of \<open>Persistent_Heap\<close>; \<open>debug\<close> and \<open>he\<close> are its parameters.
\<close>

definition fallback_alloc ::
    "bool \<Rightarrow> heap_env \<Rightarrow> frame_env \<Rightarrow> nat \<Rightarrow> u64 \<Rightarrow> u64 \<Rightarrow> frame_state \<Rightarrow> persistent_heap \<Rightarrow>
     (nat option \<times> frame_state \<times> persistent_heap) option" where
  "fallback_alloc debug he e i sz old_offset s h =
     (let a = (fs_arenas s i)\<lparr>fa_overflow_occurred := True\<rparr>;
          st = fs_stats s;
          s1 = set_arena i a
                 (s\<lparr>fs_stats := st\<lparr>st_overflow_count := st_overflow_count st + 1,
                                   st_fallback_count := st_fallback_count st + 1\<rparr>,
                    fs_overflow_events := fs_overflow_events s @
                      [\<lparr>oe_frame = cur_frame s, oe_size = sz, oe_capacity = fa_capacity a, oe_offset = old_offset\<rparr>],
                    fs_last_warning_time := (if fe_now e - fs_last_warning_time s > 1000000000
                                             then fe_now e else fs_last_warning_time s)\<rparr>)
      in (case lgx_heap_alloc debug he (unat sz) h of
            None \<Rightarrow> None
          | Some (p, h') \<Rightarrow>
              Some (p, (if p \<noteq> None
                        then s1\<lparr>fs_stats := (fs_stats s1)\<lparr>st_fallback_bytes := st_fallback_bytes (fs_stats s1) + sz\<rparr>\<rparr>
                        else s1), h')))"

definition lgx_frame_alloc_internal ::
    "bool \<Rightarrow> bool \<Rightarrow> heap_env \<Rightarrow> frame_env \<Rightarrow> u64 \<Rightarrow> frame_state \<Rightarrow> persistent_heap \<Rightarrow>
     (nat option \<times> frame_state \<times> persistent_heap) option" where
  "lgx_frame_alloc_internal dbg debug he e sz0 s h =
     (if \<not> fs_initialized s then Some (None, s, h)
      else
        let sz = align16 sz0;
            i = arena_of (cur_frame s);
            a = fs_arenas s i
        in if dbg \<and> fa_magic_number a \<noteq> 0xDEADBEEF then Some (None, s, h)
           else
             let old_offset = fa_offset a; new_offset = old_offset + sz
             in if new_offset > fa_capacity a then
                  let doubled = fa_capacity a * 2;
                      new_capacity = (if doubled > fa_max_capacity a then fa_max_capacity a else doubled)
                  in if new_capacity > fa_capacity a then
                       (case grow_arena (fe_huge e i) (fe_regular e i) (fe_node e) a new_capacity of
                          (grown, os, a1) \<Rightarrow>
                            let s1 = (set_arena i a1 s)\<lparr>fs_os_calls := fs_os_calls s @ os\<rparr>
                            in if grown \<and> sz \<le> fa_capacity a1
                               then (case commit_alloc i a1 0 sz sz s1 of (p, s2) \<Rightarrow> Some (p, s2, h))
                               else fallback_alloc debug he e i sz (if grown then 0 else old_offset) s1 h)
                     else fallback_alloc debug he e i sz old_offset s h
                else (case commit_alloc i a old_offset new_offset sz s of (p, s1) \<Rightarrow> Some (p, s1, h)))"

definition lgx_frame_alloc_tagged_internal ::
    "bool \<Rightarrow> bool \<Rightarrow> heap_env \<Rightarrow> frame_env \<Rightarrow> u64 \<Rightarrow> string option \<Rightarrow> frame_state \<Rightarrow> persistent_heap \<Rightarrow>
     (nat option \<times> frame_state \<times> persistent_heap) option" where
  "lgx_frame_alloc_tagged_internal dbg debug he e sz tag s h =
     (case lgx_frame_alloc_internal dbg debug he e sz s h of
        None \<Rightarrow> None
      | Some (p, s1, h1) \<Rightarrow>
          if p \<noteq> None \<and> fs_initialized s1
          then let i = arena_of (cur_frame s1)
               in Some (p, set_arena i (track_allocation_tag (fs_arenas s1 i) sz tag) s1, h1)
          else Some (p, s1, h1))"

section \<open>Frame reset\<close>

definition reset_arena :: "bool \<Rightarrow> u32 \<Rightarrow> lgx_frame_arena \<Rightarrow> os_call list \<times> lgx_frame_arena" where
  "reset_arena dbg new_frame a =
     (let a1 = (if dbg then a\<lparr>fa_magic_number := 0xBADC0FFE, fa_reset_count := fa_reset_count a + 1\<rparr> else a);
          (os, a2) = free_retired_chunks (update_rolling_average a1);
          a3 = a2\<lparr>fa_offset := 0, fa_allocations := 0, fa_frame_index := new_frame,
                  fa_overflow_occurred := False, fa_high_usage_warning_shown := False,
                  fa_tags := map (\<lambda>t. t\<lparr>tg_total_bytes := 0, tg_count := 0\<rparr>) (fa_tags a2)\<rparr>
      in (os, if dbg then a3\<lparr>fa_magic_number := 0xDEADBEEF\<rparr> else a3))"

definition record_profiler_reset_event :: "frame_state \<Rightarrow> frame_state" where
  "record_profiler_reset_event s =
     (if fs_chrome_trace_enabled s \<and> fs_chrome_trace_file s
      then s\<lparr>fs_chrome_trace_first_event := False\<rparr> else s)"

definition lgx_frame_reset :: "bool \<Rightarrow> u64 \<Rightarrow> frame_state \<Rightarrow> lgx_result \<times> frame_state" where
  "lgx_frame_reset dbg now s =
     (if \<not> fs_initialized s then (LGX_ERROR_NOT_INITIALIZED, s)
      else
        let old_frame = cur_frame s;
            new_frame = old_frame + 1;
            i = arena_of new_frame;
            (os, a) = reset_arena dbg new_frame (fs_arenas s i);
            st = fs_stats s;
            s1 = (set_arena i a s)\<lparr>fs_current_frame := fs_current_frame s + 1,
                   fs_os_calls := fs_os_calls s @ os,
                   fs_stats := st\<lparr>st_current_frame := ucast new_frame, st_reset_count := st_reset_count st + 1,
                                  st_last_reset_time_ns := now, st_allocations_since_reset := 0\<rparr>\<rparr>
        in (LGX_SUCCESS, record_profiler_reset_event s1))"

section \<open>Queries\<close>

text \<open>\<open>lgx_frame_get_stats\<close> copies the first seven counters.\<close>

definition lgx_frame_get_stats ::
    "frame_state \<Rightarrow> lgx_result + (u64 \<times> u64 \<times> u64 \<times> u64 \<times> u64 \<times> u64 \<times> u64)" where
  "lgx_frame_get_stats s =
     (if \<not> fs_initialized s then Inl LGX_ERROR_INVALID_PARAM
      else let st = fs_stats s
           in Inr (st_total_allocations st, st_total_bytes_allocated st, st_overflow_count st,
                   st_fallback_count st, st_fallback_bytes st, st_peak_usage_bytes st, st_current_frame st))"

definition lgx_frame_get_current_usage :: "frame_state \<Rightarrow> u64" where
  "lgx_frame_get_current_usage s =
     (if \<not> fs_initialized s then 0 else fa_offset (fs_arenas s (arena_of (cur_frame s))))"

definition lgx_frame_get_peak_usage :: "frame_state \<Rightarrow> u64" where
  "lgx_frame_get_peak_usage s = st_peak_usage_bytes (fs_stats s)"

definition in_arena :: "nat \<Rightarrow> lgx_frame_arena \<Rightarrow> bool" where
  "in_arena p a =
     (case fa_base a of
        None \<Rightarrow> False
      | Some b \<Rightarrow> b \<le> p \<and> p < b + unat (fa_capacity a) \<or>
          (\<exists>c\<in>set (fa_retired_chunks a). ch_base c \<le> p \<and> p < ch_base c + unat (ch_capacity c)))"

definition lgx_frame_is_frame_pointer :: "nat option \<Rightarrow> frame_state \<Rightarrow> bool" where
  "lgx_frame_is_frame_pointer ptr s =
     (case ptr of
        None \<Rightarrow> False
      | Some p \<Rightarrow> fs_initialized s \<and> (\<exists>i\<in>set [0..<FRAME_ARENA_COUNT]. in_arena p (fs_arenas s i)))"

text \<open>The bubble sort of the two dumps, descending by \<open>key\<close>, and the tag table they print.\<close>

definition swap_step :: "('a \<Rightarrow> u64) \<Rightarrow> 'a list \<Rightarrow> nat \<Rightarrow> 'a list" where
  "swap_step key xs j =
     (if key (xs ! j) < key (xs ! Suc j) then xs[j := xs ! Suc j, Suc j := xs ! j] else xs)"

definition bubble_pass :: "('a \<Rightarrow> u64) \<Rightarrow> 'a list \<Rightarrow> nat \<Rightarrow> 'a list" where
  "bubble_pass key xs si = foldl (swap_step key) xs [0..<length xs - si - 1]"

definition bubble_sort :: "('a \<Rightarrow> u64) \<Rightarrow> 'a list \<Rightarrow> 'a list" where
  "bubble_sort key xs = foldl (bubble_pass key) xs [0..<length xs - 1]"

text \<open>
  \<open>lgx_frame_arena_dump_stats\<close> prints the row \<open>sorted_tags[i]\<close>, where \<open>i\<close> is the number of the arena,
  once per tag; \<open>None\<close> stands for a read beyond the rows that were copied.
  \<open>lgx_frame_arena_dump\<close> exports every row.
\<close>

definition dump_stats_tags :: "nat \<Rightarrow> lgx_frame_arena \<Rightarrow> allocation_tag option list" where
  "dump_stats_tags i a =
     (let sorted_tags = bubble_sort tg_total_bytes (fa_tags a)
      in map (\<lambda>si. if i < length sorted_tags then Some (sorted_tags ! i) else None) [0..<length (fa_tags a)])"

definition dump_tags :: "lgx_frame_arena \<Rightarrow> allocation_tag list" where
  "dump_tags a = bubble_sort tg_total_bytes (fa_tags a)"

definition dump_call_sites :: "nat \<Rightarrow> lgx_frame_arena \<Rightarrow> allocation_call_site list" where
  "dump_call_sites limit a = take limit (bubble_sort cs_total_bytes (fa_call_sites a))"

section \<open>Profiler switches\<close>

definition lgx_frame_arena_enable_tracy :: "bool \<Rightarrow> frame_state \<Rightarrow> lgx_result \<times> frame_state" where
  "lgx_frame_arena_enable_tracy enabled s =
     (if \<not> fs_initialized s then (LGX_ERROR_NOT_INITIALIZED, s)
      else (LGX_SUCCESS, s\<lparr>fs_tracy_enabled := enabled\<rparr>))"

definition lgx_frame_arena_enable_optick :: "bool \<Rightarrow> frame_state \<Rightarrow> lgx_result \<times> frame_state" where
  "lgx_frame_arena_enable_optick enabled s =
     (if \<not> fs_initialized s then (LGX_ERROR_NOT_INITIALIZED, s)
      else (LGX_SUCCESS, s\<lparr>fs_optick_enabled := enabled\<rparr>))"

definition lgx_frame_arena_enable_chrome_trace ::
    "bool \<Rightarrow> bool \<Rightarrow> bool \<Rightarrow> frame_state \<Rightarrow> lgx_result \<times> frame_state" where
  "lgx_frame_arena_enable_chrome_trace enabled has_path fopen_ok s =
     (if \<not> fs_initialized s then (LGX_ERROR_NOT_INITIALIZED, s)
      else if enabled then
        if \<not> has_path then (LGX_ERROR_INVALID_PARAM, s)
        else if \<not> fopen_ok then (LGX_ERROR_IO_ERROR, s\<lparr>fs_chrome_trace_file := False\<rparr>)
        else (LGX_SUCCESS, s\<lparr>fs_chrome_trace_file := True, fs_chrome_trace_first_event := True,
                             fs_chrome_trace_enabled := True\<rparr>)
      else (LGX_SUCCESS, s\<lparr>fs_chrome_trace_file := False, fs_chrome_trace_enabled := False\<rparr>))"

end
