(* ===== verification/Frame_Safety.thy ===== *)
theory Frame_Safety
  imports Frame_Arena
begin

text \<open>
  Safety of the frame arena: what a frame allocated stays mapped, untouched and disjoint from
  everything else until its own arena is reset, two resets later at the earliest.
\<close>

section \<open>Words\<close>

lemma unat_add_small: "unat x + unat y < 2 ^ 64 \<Longrightarrow> unat (x + y) = unat x + unat y" for x y :: u64
  using unat_add_lem[of x y] by simp

lemma align16_unat:
  assumes "unat sz + 15 < 2 ^ 64"
  shows "unat (align16 sz) = (unat sz + 15) div 16 * 16"
proof -
  let ?x = "sz + 15"
  have x: "unat ?x = unat sz + 15" using unat_add_small[of sz 15] assms by simp
  have m: "(15 :: u64) = mask 4" by (simp add: mask_eq_exp_minus_1)
  have "align16 sz = ?x AND NOT 15" by (simp add: align16_def FRAME_ARENA_ALIGNMENT_def add.commute)
  also have "\<dots> = ?x AND NOT (take_bit 4 ?x)" unfolding m by (rule bit_eqI) (auto simp: bit_simps)
  also have "\<dots> = ?x - take_bit 4 ?x" by (rule disjunctive_diff [symmetric]) (simp add: bit_simps)
  finally have eq: "align16 sz = ?x - take_bit 4 ?x" .
  have t: "unat (take_bit 4 ?x) = unat ?x mod 16" by (simp add: take_bit_eq_mod unat_mod)
  then have "take_bit 4 ?x \<le> ?x" by (simp add: word_le_nat_alt)
  then have "unat (align16 sz) = unat ?x - unat ?x mod 16" using eq t by (simp add: unat_sub)
  then show ?thesis using x by (simp add: minus_mod_eq_div_mult)
qed

lemma align16_props:
  assumes "unat sz + 15 < 2 ^ 64"
  shows "unat sz \<le> unat (align16 sz)" "unat (align16 sz) < unat sz + 16" "16 dvd unat (align16 sz)"
  using align16_unat[OF assms] by auto

section \<open>The invariant\<close>

definition chunk_region :: "arena_chunk \<Rightarrow> nat set" where
  "chunk_region c = {ch_base c..<ch_base c + unat (ch_capacity c)}"

definition arena_chunks :: "lgx_frame_arena \<Rightarrow> arena_chunk list" where
  "arena_chunks a = \<lparr>ch_base = the (fa_base a), ch_capacity = fa_capacity a\<rparr> # fa_retired_chunks a"

definition arena_region :: "lgx_frame_arena \<Rightarrow> nat set" where
  "arena_region a = (\<Union>c\<in>set (arena_chunks a). chunk_region c)"

type_synonym extent = "nat \<times> nat" \<comment> \<open>address and size of an allocation\<close>

definition ext :: "extent \<Rightarrow> nat set" where
  "ext x = {fst x..<fst x + snd x}"

text \<open>The bytes of an arena that allocations may occupy: the current chunk up to the offset.\<close>

definition used_region :: "lgx_frame_arena \<Rightarrow> nat set" where
  "used_region a = {the (fa_base a)..<the (fa_base a) + unat (fa_offset a)} \<union>
     (\<Union>c\<in>set (fa_retired_chunks a). chunk_region c)"

definition sizes_ok :: "lgx_frame_arena \<Rightarrow> bool" where
  "sizes_ok a \<longleftrightarrow> unat (fa_offset a) \<le> unat (fa_capacity a) \<and> 16 dvd unat (fa_offset a) \<and>
     0 < unat (fa_capacity a) \<and> unat (fa_capacity a) \<le> unat (fa_max_capacity a) \<and>
     unat (fa_max_capacity a) \<le> 2 ^ 28 \<and>
     (unat (fa_capacity a) < unat (fa_max_capacity a) \<longrightarrow> unat (fa_retired_bytes a) \<le> unat (fa_capacity a)) \<and>
     unat (fa_retired_bytes a) \<le> 2 ^ 29 \<and> unat (fa_peak_usage a) \<le> 3 * 2 ^ 28"

definition history_ok :: "lgx_frame_arena \<Rightarrow> bool" where
  "history_ok a \<longleftrightarrow> length (fa_usage_history a) = 60 \<and> fa_history_index a < 60 \<and>
     (\<forall>u\<in>set (fa_usage_history a). unat u \<le> 3 * 2 ^ 28) \<and>
     unat (fa_usage_sum a) = sum_list (map unat (fa_usage_history a)) \<and>
     fa_rolling_average a = fa_usage_sum a div 60"

definition extents_ok :: "lgx_frame_arena \<Rightarrow> extent list \<Rightarrow> bool" where
  "extents_ok a lv \<longleftrightarrow> fa_base a \<noteq> None \<and> 16 dvd the (fa_base a) \<and>
     sorted_wrt (\<lambda>c d. chunk_region c \<inter> chunk_region d = {}) (arena_chunks a) \<and>
     sorted_wrt (\<lambda>x y. ext x \<inter> ext y = {}) lv \<and>
     (\<forall>x\<in>set lv. ext x \<subseteq> used_region a)"

definition arena_ok :: "bool \<Rightarrow> lgx_frame_arena \<Rightarrow> extent list \<Rightarrow> bool" where
  "arena_ok dbg a lv \<longleftrightarrow> sizes_ok a \<and> history_ok a \<and> extents_ok a lv \<and>
     (dbg \<longrightarrow> fa_magic_number a = 0xDEADBEEF)"

lemma used_sub_region: "sizes_ok a \<Longrightarrow> used_region a \<subseteq> arena_region a"
  by (auto simp: used_region_def arena_region_def arena_chunks_def chunk_region_def sizes_ok_def)

section \<open>Committing an allocation\<close>

definition bumped :: "lgx_frame_arena \<Rightarrow> u64 \<Rightarrow> lgx_frame_arena" where
  "bumped a new_offset = a\<lparr>fa_offset := new_offset, fa_allocations := fa_allocations a + 1,
     fa_peak_usage := (if fa_retired_bytes a + new_offset > fa_peak_usage a
                       then fa_retired_bytes a + new_offset else fa_peak_usage a)\<rparr>"

lemma commit_alloc_eq:
  "commit_alloc i a old new sz s = (p, s') \<Longrightarrow> p = map_option (\<lambda>b. b + unat old) (fa_base a) \<and>
     fs_arenas s' = (fs_arenas s)(i := bumped a new) \<and> fs_initialized s' = fs_initialized s \<and>
     fs_current_frame s' = fs_current_frame s \<and>
     st_fallback_count (fs_stats s') = st_fallback_count (fs_stats s)"
  by (auto simp: commit_alloc_def Let_def set_arena_def bumped_def split: if_splits)

lemma bumped_ok:
  assumes ok: "arena_ok dbg a lv" and fit: "unat (fa_offset a) + unat sz \<le> unat (fa_capacity a)"
    and sz: "16 dvd unat sz" "n \<le> unat sz" and new: "new = fa_offset a + sz"
  shows "arena_ok dbg (bumped a new) ((the (fa_base a) + unat (fa_offset a), n) # lv) \<and>
    arena_region (bumped a new) = arena_region a"
proof -
  let ?a = "bumped a new"
  have s: "sizes_ok a" and e: "extents_ok a lv" and h: "history_ok a" and m: "dbg \<longrightarrow> fa_magic_number a = 0xDEADBEEF"
    using ok by (auto simp: arena_ok_def)
  have lt: "unat (fa_capacity a) \<le> 2 ^ 28" using s by (simp add: sizes_ok_def)
  have un: "unat new = unat (fa_offset a) + unat sz"
    using unat_add_small[of "fa_offset a" sz] fit lt new by simp
  have "unat (fa_retired_bytes a + new) = unat (fa_retired_bytes a) + unat new"
    using unat_add_small[of "fa_retired_bytes a" new] fit lt un s by (simp add: sizes_ok_def)
  then have "sizes_ok ?a" using s fit lt un sz by (auto simp: sizes_ok_def bumped_def)
  moreover have "history_ok ?a" using h by (simp add: history_ok_def bumped_def)
  moreover have "extents_ok ?a ((the (fa_base a) + unat (fa_offset a), n) # lv)"
  proof -
    let ?b = "the (fa_base a)" and ?o = "unat (fa_offset a)"
    have cur: "ext (?b + ?o, n) \<subseteq> {?b + ?o..<?b + unat (fa_capacity a)}"
      using sz(2) fit by (auto simp: ext_def)
    have chunks: "\<forall>c\<in>set (fa_retired_chunks a). {?b..<?b + unat (fa_capacity a)} \<inter> chunk_region c = {}"
      using e by (auto simp: extents_ok_def arena_chunks_def chunk_region_def)
    have "ext (?b + ?o, n) \<inter> used_region a = {}"
    proof -
      have "{?b + ?o..<?b + unat (fa_capacity a)} \<inter> chunk_region c = {}" if "c \<in> set (fa_retired_chunks a)" for c
      proof -
        have "{?b + ?o..<?b + unat (fa_capacity a)} \<subseteq> {?b..<?b + unat (fa_capacity a)}" by auto
        then show ?thesis using chunks that by blast
      qed
      moreover have "{?b + ?o..<?b + unat (fa_capacity a)} \<inter> {?b..<?b + ?o} = {}" by auto
      ultimately show ?thesis using cur unfolding used_region_def by blast
    qed
    then have d: "\<forall>x\<in>set lv. ext (?b + ?o, n) \<inter> ext x = {}" using e by (auto simp: extents_ok_def)
    have grow: "used_region a \<subseteq> used_region ?a" using un by (auto simp: used_region_def bumped_def)
    have "ext (?b + ?o, n) \<subseteq> used_region ?a"
      using sz(2) un by (auto simp: used_region_def bumped_def ext_def)
    moreover have "\<forall>x\<in>set lv. ext x \<subseteq> used_region ?a" using e grow unfolding extents_ok_def by blast
    moreover have "arena_chunks ?a = arena_chunks a" "fa_base ?a = fa_base a"
      by (simp_all add: arena_chunks_def bumped_def)
    ultimately show ?thesis using e d unfolding extents_ok_def by simp
  qed
  ultimately show ?thesis using m
    by (simp add: arena_ok_def bumped_def arena_region_def arena_chunks_def)
qed

section \<open>Growing\<close>

definition fresh_for :: "nat option \<Rightarrow> nat set \<Rightarrow> bool" where
  "fresh_for p R \<longleftrightarrow> (\<forall>b. p = Some b \<longrightarrow> 16 dvd b \<and> {b..<b + 2 ^ 28} \<inter> R = {})"

lemma grow_arena_ok:
  assumes ok: "arena_ok dbg a lv" and cap: "unat (fa_capacity a) < unat new_capacity"
    "new_capacity \<le> fa_max_capacity a" "unat new_capacity = 2 * unat (fa_capacity a) \<or> new_capacity = fa_max_capacity a"
    and env: "fresh_for huge R" "fresh_for regular R" and R: "arena_region a \<subseteq> R"
    and g: "grow_arena huge regular node_ok a new_capacity = (grown, os, a1)"
  shows "if grown then arena_ok dbg a1 lv \<and> fa_offset a1 = 0 \<and> fa_capacity a1 = new_capacity \<and>
      arena_region a \<subseteq> arena_region a1 \<and> arena_region a1 \<inter> R \<subseteq> arena_region a
    else a1 = a"
proof (cases grown)
  case False
  then show ?thesis using g
    by (auto simp: grow_arena_def Let_def split: if_splits option.splits prod.splits)
next
  case True
  have s: "sizes_ok a" and e: "extents_ok a lv" and h: "history_ok a" and m: "dbg \<longrightarrow> fa_magic_number a = 0xDEADBEEF"
    using ok by (auto simp: arena_ok_def)
  obtain ob where ob: "fa_base a = Some ob" using e by (auto simp: extents_ok_def)
  obtain nb where nb: "huge = Some nb \<or> regular = Some nb"
    and a1: "a1 = a\<lparr>fa_retired_chunks := \<lparr>ch_base = ob, ch_capacity = fa_capacity a\<rparr> # fa_retired_chunks a,
        fa_retired_bytes := fa_retired_bytes a + fa_offset a,
        fa_base := Some nb, fa_capacity := new_capacity, fa_offset := 0\<rparr>"
    using g True ob cap(2)
    by (auto simp: grow_arena_def allocate_huge_page_arena_def Let_def split: if_splits option.splits prod.splits)
  have max: "unat new_capacity \<le> unat (fa_max_capacity a)" using cap(2) by (simp add: word_le_nat_alt)
  have lt: "unat (fa_capacity a) < unat (fa_max_capacity a)" using cap(1) max by simp
  have rb: "unat (fa_retired_bytes a + fa_offset a) = unat (fa_retired_bytes a) + unat (fa_offset a)"
    using unat_add_small[of "fa_retired_bytes a" "fa_offset a"] s by (simp add: sizes_ok_def)
  have "sizes_ok a1"
    using s lt max cap a1 rb by (auto simp: sizes_ok_def)
  moreover have "history_ok a1" using h a1 by (simp add: history_ok_def)
  moreover have fresh: "chunk_region \<lparr>ch_base = nb, ch_capacity = new_capacity\<rparr> \<inter> R = {}" "16 dvd nb"
  proof -
    have n: "16 dvd nb \<and> {nb..<nb + 2 ^ 28} \<inter> R = {}" using env nb by (auto simp: fresh_for_def)
    have "unat new_capacity \<le> 2 ^ 28" using max s by (simp add: sizes_ok_def)
    then have "chunk_region \<lparr>ch_base = nb, ch_capacity = new_capacity\<rparr> \<subseteq> {nb..<nb + 2 ^ 28}"
      by (auto simp: chunk_region_def)
    then show "chunk_region \<lparr>ch_base = nb, ch_capacity = new_capacity\<rparr> \<inter> R = {}" "16 dvd nb" using n by blast+
  qed
  have chunks: "arena_chunks a1 = \<lparr>ch_base = nb, ch_capacity = new_capacity\<rparr> # arena_chunks a"
    using a1 ob by (simp add: arena_chunks_def)
  have reg: "arena_region a1 = chunk_region \<lparr>ch_base = nb, ch_capacity = new_capacity\<rparr> \<union> arena_region a"
    unfolding arena_region_def chunks by simp
  moreover have "extents_ok a1 lv"
  proof -
    have "used_region a \<subseteq> used_region a1"
      using a1 ob s by (auto simp: used_region_def chunk_region_def sizes_ok_def)
    moreover have "\<forall>c\<in>set (arena_chunks a). chunk_region \<lparr>ch_base = nb, ch_capacity = new_capacity\<rparr> \<inter> chunk_region c = {}"
      using fresh(1) R by (auto simp: arena_region_def)
    moreover have "\<forall>x\<in>set lv. ext x \<subseteq> used_region a" using e by (simp add: extents_ok_def)
    ultimately have "\<forall>x\<in>set lv. ext x \<subseteq> used_region a1"
      "\<forall>c\<in>set (arena_chunks a). chunk_region \<lparr>ch_base = nb, ch_capacity = new_capacity\<rparr> \<inter> chunk_region c = {}"
      by blast+
    moreover have "fa_base a1 = Some nb" using a1 by simp
    ultimately show ?thesis using e fresh(2) unfolding extents_ok_def chunks by simp
  qed
  ultimately show ?thesis using True m a1 fresh(1) by (auto simp: arena_ok_def)
qed

section \<open>Reset\<close>

lemma sum_list_update_nat:
  "i < length xs \<Longrightarrow> sum_list (xs[i := v]) + xs ! i = sum_list xs + (v :: nat)"
  by (induction xs arbitrary: i) (auto split: nat.split simp: nth_Cons')

lemma rolling_ok:
  assumes s: "sizes_ok a" and h: "history_ok a"
  shows "history_ok (update_rolling_average a)"
proof -
  let ?u = "fa_usage_history a" and ?i = "fa_history_index a"
  let ?en = "fa_retired_bytes a + fa_offset a" and ?lv = "?u ! ?i"
  have i: "?i < length ?u" "length ?u = 60" using h by (auto simp: history_ok_def)
  have en: "unat ?en \<le> 3 * 2 ^ 28"
    using unat_add_small[of "fa_retired_bytes a" "fa_offset a"] s by (simp add: sizes_ok_def)
  have sum_upd: "sum_list (map unat (?u[?i := ?en])) + unat ?lv = sum_list (map unat ?u) + unat ?en"
    using sum_list_update_nat[of ?i "map unat ?u" "unat ?en"] i(1) by (simp add: map_update)
  have all: "\<forall>u\<in>set (?u[?i := ?en]). unat u \<le> 3 * 2 ^ 28"
    using h en set_update_subset_insert[of ?u ?i ?en] by (auto simp: history_ok_def)
  have bound: "sum_list (map unat us) \<le> length us * (3 * 2 ^ 28)"
    if "\<forall>u\<in>set us. unat u \<le> 3 * 2 ^ 28" for us :: "u64 list"
    using that by (induction us) auto
  have le: "unat ?lv \<le> unat (fa_usage_sum a)"
    using h member_le_sum_list[of "unat ?lv" "map unat ?u"] i(1) by (auto simp: history_ok_def)
  have "unat (fa_usage_sum a - ?lv) = unat (fa_usage_sum a) - unat ?lv"
    using le by (intro unat_sub) (simp add: word_le_nat_alt)
  moreover have "unat (fa_usage_sum a) \<le> 60 * (3 * 2 ^ 28)"
    using h bound[of ?u] i(2) by (simp add: history_ok_def)
  ultimately have "unat (fa_usage_sum a - ?lv + ?en) = unat (fa_usage_sum a) - unat ?lv + unat ?en"
    using unat_add_small[of "fa_usage_sum a - ?lv" ?en] en by simp
  then have "unat (fa_usage_sum a - ?lv + ?en) = sum_list (map unat (?u[?i := ?en]))"
    using sum_upd le h by (simp add: history_ok_def)
  then show ?thesis using h all i by (simp add: history_ok_def update_rolling_average_def Let_def)
qed

lemma reset_arena_ok:
  assumes "arena_ok dbg a lv" "reset_arena dbg f a = (os, a')"
  shows "arena_ok dbg a' [] \<and> arena_region a' \<subseteq> arena_region a \<and> fa_offset a' = 0"
proof -
  have s: "sizes_ok a" and e: "extents_ok a lv" and h: "history_ok a"
    using assms(1) by (auto simp: arena_ok_def)
  have a': "a' = snd (reset_arena dbg f a)" using assms(2) by simp
  let ?u = "update_rolling_average (if dbg then a\<lparr>fa_magic_number := 0xBADC0FFE, fa_reset_count := fa_reset_count a + 1\<rparr> else a)"
  have "sizes_ok a'" using s a'
    by (simp add: reset_arena_def free_retired_chunks_def update_rolling_average_def sizes_ok_def Let_def)
  moreover have "history_ok ?u"
  proof (cases dbg)
    case True
    then show ?thesis using rolling_ok[of "a\<lparr>fa_magic_number := 0xBADC0FFE, fa_reset_count := fa_reset_count a + 1\<rparr>"] s h
      by (simp add: sizes_ok_def history_ok_def)
  qed (use rolling_ok[OF s h] in simp)
  then have "history_ok a'" using a'
    by (cases dbg) (simp_all add: reset_arena_def free_retired_chunks_def history_ok_def Let_def)
  moreover have "extents_ok a' []" using e a'
    by (simp add: reset_arena_def free_retired_chunks_def update_rolling_average_def extents_ok_def arena_chunks_def Let_def)
  moreover have "dbg \<longrightarrow> fa_magic_number a' = 0xDEADBEEF" "fa_offset a' = 0"
    using a' by (simp_all add: reset_arena_def free_retired_chunks_def Let_def)
  moreover have "arena_region a' \<subseteq> arena_region a" using a'
    by (simp add: reset_arena_def free_retired_chunks_def update_rolling_average_def arena_region_def arena_chunks_def Let_def)
  ultimately show ?thesis by (simp add: arena_ok_def)
qed

section \<open>All three arenas\<close>

definition frame_region :: "frame_state \<Rightarrow> nat set" where
  "frame_region s = (\<Union>i<3. arena_region (fs_arenas s i))"

definition frame_inv :: "bool \<Rightarrow> frame_state \<Rightarrow> (nat \<Rightarrow> extent list) \<Rightarrow> bool" where
  "frame_inv dbg s LV \<longleftrightarrow> fs_initialized s \<and>
     (\<forall>i<3. arena_ok dbg (fs_arenas s i) (LV i)) \<and>
     (\<forall>i<3. \<forall>j<3. i \<noteq> j \<longrightarrow> arena_region (fs_arenas s i) \<inter> arena_region (fs_arenas s j) = {})"

text \<open>
  What \<open>mmap\<close> promises: page-aligned memory that is not in use. (An arena never grows beyond
  256 MB.)
\<close>

definition frame_env_ok :: "frame_env \<Rightarrow> frame_state \<Rightarrow> bool" where
  "frame_env_ok e s \<longleftrightarrow> (\<forall>i<3. fresh_for (fe_huge e i) (frame_region s) \<and> fresh_for (fe_regular e i) (frame_region s))"

lemma arena_of_less [simp]: "arena_of f < 3"
  by (simp add: arena_of_def)

lemma frame_inv_upd:
  assumes inv: "frame_inv dbg s LV" and i: "i < 3" and ok: "arena_ok dbg a lv"
    and reg: "arena_region a \<inter> frame_region s \<subseteq> arena_region (fs_arenas s i)"
    and s': "fs_arenas s' = (fs_arenas s)(i := a)" "fs_initialized s'"
  shows "frame_inv dbg s' (LV(i := lv))"
proof -
  have "arena_region a \<inter> arena_region (fs_arenas s j) = {}" if "j < 3" "j \<noteq> i" for j
  proof -
    have "arena_region (fs_arenas s j) \<subseteq> frame_region s" using that by (auto simp: frame_region_def)
    moreover have "arena_region (fs_arenas s i) \<inter> arena_region (fs_arenas s j) = {}"
      using inv i that unfolding frame_inv_def by metis
    ultimately show ?thesis using reg by blast
  qed
  then show ?thesis using inv ok s' unfolding frame_inv_def by (auto simp: Int_commute)
qed

lemma arena_sub_frame: "i < 3 \<Longrightarrow> arena_region (fs_arenas s i) \<subseteq> frame_region s"
  by (auto simp: frame_region_def)

lemma fallback_same:
  assumes "fallback_alloc debug he e i sz old s h = Some (p, s', h')"
  shows "\<exists>a. fs_arenas s' = (fs_arenas s)(i := (fs_arenas s i)\<lparr>fa_overflow_occurred := True\<rparr>) \<and>
    fs_initialized s' = fs_initialized s \<and> fs_current_frame s' = fs_current_frame s \<and>
    st_fallback_count (fs_stats s') = st_fallback_count (fs_stats s) + 1 \<and>
    lgx_heap_alloc debug he (unat sz) h = Some (p, h')"
  using assms by (auto simp: fallback_alloc_def Let_def set_arena_def split: option.splits prod.splits if_splits)

lemma arena_ok_overflow: "arena_ok dbg a lv \<Longrightarrow> arena_ok dbg (a\<lparr>fa_overflow_occurred := b\<rparr>) lv"
  "arena_region (a\<lparr>fa_overflow_occurred := b\<rparr>) = arena_region a"
  by (simp_all add: arena_ok_def sizes_ok_def history_ok_def extents_ok_def arena_chunks_def used_region_def
      arena_region_def)

lemma fallback_inv:
  assumes inv: "frame_inv dbg s LV" and i: "i < 3"
    and f: "fallback_alloc debug he e i sz old s h = Some (p, s', h')"
  shows "frame_inv dbg s' LV \<and> frame_region s' = frame_region s"
proof -
  let ?a = "(fs_arenas s i)\<lparr>fa_overflow_occurred := True\<rparr>"
  have s': "fs_arenas s' = (fs_arenas s)(i := ?a)" "fs_initialized s'"
    using fallback_same[OF f] inv by (auto simp: frame_inv_def)
  have ok: "arena_ok dbg ?a (LV i)" using inv i by (intro arena_ok_overflow(1)) (simp add: frame_inv_def)
  have "frame_inv dbg s' (LV(i := LV i))"
    by (rule frame_inv_upd[OF inv i ok _ s']) (simp add: arena_ok_overflow)
  moreover have "arena_region (fs_arenas s' j) = arena_region (fs_arenas s j)" for j
    using s' by (simp add: arena_ok_overflow)
  ultimately show ?thesis by (simp add: frame_region_def)
qed

text \<open>Committing in an arena \<open>a1\<close>, the old one or the one it grew into.\<close>

lemma commit_outcome:
  assumes inv: "frame_inv dbg s LV" and i3: "i < 3"
    and a1: "arena_ok dbg a1 (LV i)" "unat (fa_offset a1) + unat sz \<le> unat (fa_capacity a1)"
      "arena_region (fs_arenas s i) \<subseteq> arena_region a1" "arena_region a1 \<inter> frame_region s \<subseteq> arena_region (fs_arenas s i)"
    and s1: "fs_arenas s1 = (fs_arenas s)(i := a1)" "fs_initialized s1"
    and sz: "16 dvd unat sz" "n \<le> unat sz"
    and c: "commit_alloc i a1 (fa_offset a1) (fa_offset a1 + sz) sz s1 = (r, s')"
  shows "\<exists>p. r = Some p \<and> 16 dvd p \<and> frame_inv dbg s' (LV(i := (p, n) # LV i)) \<and>
    (\<forall>j<3. \<forall>x\<in>set (LV j). ext (p, n) \<inter> ext x = {}) \<and> frame_region s \<subseteq> frame_region s'"
proof -
  let ?p = "the (fa_base a1) + unat (fa_offset a1)" and ?b = "bumped a1 (fa_offset a1 + sz)"
  have base: "fa_base a1 \<noteq> None" "16 dvd the (fa_base a1)" "16 dvd unat (fa_offset a1)"
    using a1(1) by (auto simp: arena_ok_def extents_ok_def sizes_ok_def)
  have out: "r = Some ?p" "fs_arenas s' = (fs_arenas s)(i := ?b)" "fs_initialized s'"
    using commit_alloc_eq[OF c] base s1 by auto
  note B = bumped_ok[OF a1(1,2) sz refl]
  have inv': "frame_inv dbg s' (LV(i := (?p, n) # LV i))"
    by (rule frame_inv_upd[OF inv i3 _ _ out(2,3)]) (use B a1(4) in auto)
  have "ext (?p, n) \<inter> ext x = {}" if jx: "j < 3" "x \<in> set (LV j)" for j x
  proof (cases "j = i")
    case True
    then show ?thesis using B jx(2) by (auto simp: arena_ok_def extents_ok_def)
  next
    case False
    have "ext x \<subseteq> arena_region (fs_arenas s j)"
      using inv jx used_sub_region[of "fs_arenas s j"] by (auto simp: frame_inv_def arena_ok_def extents_ok_def)
    moreover have "ext (?p, n) \<subseteq> arena_region a1"
      using B used_sub_region[of ?b] by (auto simp: arena_ok_def extents_ok_def)
    moreover have "arena_region (fs_arenas s i) \<inter> arena_region (fs_arenas s j) = {}"
      using inv i3 jx(1) False unfolding frame_inv_def by metis
    ultimately show ?thesis using a1(4) arena_sub_frame[OF jx(1), of s] by blast
  qed
  moreover have "frame_region s \<subseteq> frame_region s'"
  proof -
    have "arena_region (fs_arenas s j) \<subseteq> arena_region (fs_arenas s' j)" for j
      using out(2) B a1(3) by (cases "j = i") auto
    then show ?thesis by (auto simp: frame_region_def)
  qed
  ultimately show ?thesis using out(1) inv' base by auto
qed

text \<open>The growth step of an allocation.\<close>

definition doubled_capacity :: "lgx_frame_arena \<Rightarrow> u64" where
  "doubled_capacity a = (if fa_capacity a * 2 > fa_max_capacity a then fa_max_capacity a else fa_capacity a * 2)"

lemma grow_step:
  assumes ok: "arena_ok dbg a lv" and nc: "doubled_capacity a > fa_capacity a"
    and env: "fresh_for huge R" "fresh_for regular R" "arena_region a \<subseteq> R"
    and g: "grow_arena huge regular node_ok a (doubled_capacity a) = (grown, os, a1)"
  shows "arena_ok dbg a1 lv \<and> (grown \<longrightarrow> fa_offset a1 = 0) \<and>
    arena_region a \<subseteq> arena_region a1 \<and> arena_region a1 \<inter> R \<subseteq> arena_region a"
proof -
  have "unat (fa_capacity a * 2) = 2 * unat (fa_capacity a)"
    using unat_add_small[of "fa_capacity a" "fa_capacity a"] ok by (simp add: arena_ok_def sizes_ok_def mult_2_right)
  then have "if grown then arena_ok dbg a1 lv \<and> fa_offset a1 = 0 \<and> fa_capacity a1 = doubled_capacity a \<and>
      arena_region a \<subseteq> arena_region a1 \<and> arena_region a1 \<inter> R \<subseteq> arena_region a
    else a1 = a"
    using nc env
    by (intro grow_arena_ok[OF ok _ _ _ _ _ _ g])
      (auto simp: word_less_nat_alt word_le_nat_alt doubled_capacity_def)
  then show ?thesis using ok by (auto split: if_splits)
qed

lemma frame_alloc_unfold:
  assumes "fs_initialized s" "dbg \<longrightarrow> fa_magic_number (fs_arenas s i) = 0xDEADBEEF" "i = arena_of (cur_frame s)"
  shows "lgx_frame_alloc_internal dbg debug he e sz0 s h =
    (let a = fs_arenas s i; sz = align16 sz0 in
     if fa_offset a + sz > fa_capacity a then
       if doubled_capacity a > fa_capacity a then
         (case grow_arena (fe_huge e i) (fe_regular e i) (fe_node e) a (doubled_capacity a) of
            (grown, os, a1) \<Rightarrow>
              let s1 = (set_arena i a1 s)\<lparr>fs_os_calls := fs_os_calls s @ os\<rparr>
              in if grown \<and> sz \<le> fa_capacity a1
                 then (case commit_alloc i a1 0 sz sz s1 of (p, s2) \<Rightarrow> Some (p, s2, h))
                 else fallback_alloc debug he e i sz (if grown then 0 else fa_offset a) s1 h)
       else fallback_alloc debug he e i sz (fa_offset a) s h
     else (case commit_alloc i a (fa_offset a) (fa_offset a + sz) sz s of (p, s1) \<Rightarrow> Some (p, s1, h)))"
  using assms by (auto simp: lgx_frame_alloc_internal_def Let_def doubled_capacity_def)

text \<open>The outcome of an allocation: in the arena, or in the heap.\<close>

lemma frame_alloc_cases:
  assumes inv: "frame_inv dbg s LV" and env: "frame_env_ok e s" and sz: "unat sz0 < 2 ^ 63"
    and r: "lgx_frame_alloc_internal dbg debug he e sz0 s h = Some (r, s', h')"
    and i: "i = arena_of (cur_frame s)"
  obtains (arena) p where "r = Some p" "h' = h" "16 dvd p" "frame_inv dbg s' (LV(i := (p, unat sz0) # LV i))"
      "st_fallback_count (fs_stats s') = st_fallback_count (fs_stats s)" "fs_current_frame s' = fs_current_frame s"
      "\<forall>j<3. \<forall>x\<in>set (LV j). ext (p, unat sz0) \<inter> ext x = {}"
  | (heap) "frame_inv dbg s' LV" "st_fallback_count (fs_stats s') = st_fallback_count (fs_stats s) + 1"
      "lgx_heap_alloc debug he (unat (align16 sz0)) h = Some (r, h')" "fs_current_frame s' = fs_current_frame s"
proof -
  let ?a = "fs_arenas s i" and ?sz = "align16 sz0"
  have i3: "i < 3" using i by simp
  have init: "fs_initialized s" using inv by (simp add: frame_inv_def)
  have ok: "arena_ok dbg ?a (LV i)" using inv i3 by (simp add: frame_inv_def)
  have s: "sizes_ok ?a" and magic: "dbg \<longrightarrow> fa_magic_number ?a = 0xDEADBEEF"
    using ok by (auto simp: arena_ok_def)
  have alb: "unat sz0 \<le> unat ?sz" "unat ?sz < 2 ^ 63 + 16" "16 dvd unat ?sz"
    using align16_props[of sz0] sz by auto
  have off: "unat (fa_offset ?a + ?sz) = unat (fa_offset ?a) + unat ?sz"
    using unat_add_small[of "fa_offset ?a" ?sz] alb s by (simp add: sizes_ok_def)
  note unf = r[unfolded frame_alloc_unfold[OF init magic i] Let_def]
  have in_arena: thesis
    if "commit_alloc i a1 (fa_offset a1) (fa_offset a1 + ?sz) ?sz s1 = (r, s')" "h' = h"
      "arena_ok dbg a1 (LV i)" "unat (fa_offset a1) + unat ?sz \<le> unat (fa_capacity a1)"
      "arena_region ?a \<subseteq> arena_region a1" "arena_region a1 \<inter> frame_region s \<subseteq> arena_region ?a"
      "fs_arenas s1 = (fs_arenas s)(i := a1)" "fs_initialized s1" "fs_current_frame s1 = fs_current_frame s"
      "st_fallback_count (fs_stats s1) = st_fallback_count (fs_stats s)" for a1 s1
    using commit_outcome[OF inv i3 that(3-8) alb(3,1) that(1)] commit_alloc_eq[OF that(1)] that arena by auto
  have in_heap: thesis
    if "fallback_alloc debug he e i ?sz old s1 h = Some (r, s', h')" "frame_inv dbg s1 LV"
      "fs_current_frame s1 = fs_current_frame s" "st_fallback_count (fs_stats s1) = st_fallback_count (fs_stats s)" for s1 old
    using heap fallback_inv[OF that(2) i3 that(1)] fallback_same[OF that(1)] that by auto
  show thesis
  proof (cases "fa_offset ?a + ?sz > fa_capacity ?a")
    case False
    then have fit: "unat (fa_offset ?a) + unat ?sz \<le> unat (fa_capacity ?a)" using off by (simp add: word_less_nat_alt)
    have "commit_alloc i ?a (fa_offset ?a) (fa_offset ?a + ?sz) ?sz s = (r, s')" "h' = h"
      using unf False by (auto split: prod.splits)
    from in_arena[OF this ok fit] show thesis using init by simp
  next
    case full: True
    show thesis
    proof (cases "doubled_capacity ?a > fa_capacity ?a")
      case False
      then have "fallback_alloc debug he e i ?sz (fa_offset ?a) s h = Some (r, s', h')" using unf full by simp
      from in_heap[OF this inv] show thesis by simp
    next
      case nc: True
      obtain grown os a1 where g: "grow_arena (fe_huge e i) (fe_regular e i) (fe_node e) ?a (doubled_capacity ?a) = (grown, os, a1)"
        by (metis prod_cases3)
      let ?s1 = "(set_arena i a1 s)\<lparr>fs_os_calls := fs_os_calls s @ os\<rparr>"
      have G: "arena_ok dbg a1 (LV i) \<and> (grown \<longrightarrow> fa_offset a1 = 0) \<and>
          arena_region ?a \<subseteq> arena_region a1 \<and> arena_region a1 \<inter> frame_region s \<subseteq> arena_region ?a"
        using env i3 arena_sub_frame[OF i3, of s] unfolding frame_env_ok_def
        by (intro grow_step[OF ok nc _ _ _ g]) auto
      have s1: "fs_arenas ?s1 = (fs_arenas s)(i := a1)" "fs_initialized ?s1" "fs_current_frame ?s1 = fs_current_frame s"
        "st_fallback_count (fs_stats ?s1) = st_fallback_count (fs_stats s)"
        using init by (simp_all add: set_arena_def)
      show thesis
      proof (cases "grown \<and> ?sz \<le> fa_capacity a1")
        case True
        then have o: "fa_offset a1 = 0" and fit: "unat (fa_offset a1) + unat ?sz \<le> unat (fa_capacity a1)"
          using G by (auto simp: word_le_nat_alt)
        have "commit_alloc i a1 (fa_offset a1) (fa_offset a1 + ?sz) ?sz ?s1 = (r, s')" "h' = h"
          using unf full nc g True o by (auto split: prod.splits)
        from in_arena[OF this _ fit _ _ s1] G show thesis by blast
      next
        case False
        then have f: "fallback_alloc debug he e i ?sz (if grown then 0 else fa_offset ?a) ?s1 h = Some (r, s', h')"
          using unf full nc g by (cases grown) auto
        have "frame_inv dbg ?s1 (LV(i := LV i))" using frame_inv_upd[OF inv i3 _ _ s1(1,2)] G by blast
        then show thesis using in_heap[OF f] s1(3,4) by simp
      qed
    qed
  qed
qed

end
