(* ===== verification/Frame_Properties.thy ===== *)
theory Frame_Properties
  imports Frame_Safety "HOL-Library.Multiset"
begin

text \<open>
  Executions of the frame arena and the guarantees of the frame allocator: disjoint live
  allocations, triple buffering, exact rolling averages, sizing recommendations, and the sort behind
  the dumps. Two theorems describe corner cases in which the code does not keep its promise: the
  wrap-around of the frame counter and of the requested size.
\<close>

section \<open>Executions\<close>

type_synonym fconf = "frame_state \<times> (nat \<Rightarrow> extent list)"

text \<open>One call; the number counts frame resets. \<open>LV i\<close> are the live allocations of arena \<open>i\<close>.\<close>

inductive frame_step :: "bool \<Rightarrow> nat \<Rightarrow> fconf \<Rightarrow> fconf \<Rightarrow> bool" for dbg where
  fs_alloc: "frame_env_ok e s \<Longrightarrow> unat sz < 2 ^ 63 \<Longrightarrow>
    lgx_frame_alloc_internal dbg debug he e sz s h = Some (Some p, s', h') \<Longrightarrow>
    st_fallback_count (fs_stats s') = st_fallback_count (fs_stats s) \<Longrightarrow>
    frame_step dbg 0 (s, LV) (s', LV(arena_of (cur_frame s) := (p, unat sz) # LV (arena_of (cur_frame s))))"
| fs_fallback: "frame_env_ok e s \<Longrightarrow> unat sz < 2 ^ 63 \<Longrightarrow>
    lgx_frame_alloc_internal dbg debug he e sz s h = Some (r, s', h') \<Longrightarrow>
    st_fallback_count (fs_stats s') \<noteq> st_fallback_count (fs_stats s) \<Longrightarrow>
    frame_step dbg 0 (s, LV) (s', LV)"
| fs_tag: "i < 3 \<Longrightarrow> frame_step dbg 0 (s, LV) (set_arena i (track_allocation_tag (fs_arenas s i) sz tag) s, LV)"
| fs_reset: "lgx_frame_reset dbg now s = (LGX_SUCCESS, s') \<Longrightarrow>
    frame_step dbg 1 (s, LV) (s', LV(arena_of (cur_frame s') := []))"

inductive frame_steps :: "bool \<Rightarrow> nat \<Rightarrow> fconf \<Rightarrow> fconf \<Rightarrow> bool" for dbg where
  fs_refl: "frame_steps dbg 0 c c"
| fs_step: "frame_steps dbg k c d \<Longrightarrow> frame_step dbg j d d' \<Longrightarrow> frame_steps dbg (k + j) c d'"

definition init_env_ok :: "frame_env \<Rightarrow> bool" where
  "init_env_ok e \<longleftrightarrow> (\<forall>i<3. \<forall>p. (fe_huge e i = Some p \<or> fe_regular e i = Some p) \<longrightarrow> 16 dvd p) \<and>
     (\<forall>i<3. \<forall>j<3. \<forall>p q. i \<noteq> j \<longrightarrow> (fe_huge e i = Some p \<or> fe_regular e i = Some p) \<longrightarrow>
        (fe_huge e j = Some q \<or> fe_regular e j = Some q) \<longrightarrow>
        {p..<p + 2 ^ 28} \<inter> {q..<q + 2 ^ 28} = {})"

inductive frame_run :: "bool \<Rightarrow> frame_state \<Rightarrow> (nat \<Rightarrow> extent list) \<Rightarrow> bool" for dbg where
  fr_run: "\<not> fs_initialized s0 \<Longrightarrow>
    (\<And>i. i < 3 \<Longrightarrow> fa_retired_chunks (fs_arenas s0 i) = [] \<and> fa_retired_bytes (fs_arenas s0 i) = 0) \<Longrightarrow>
    init_env_ok e \<Longrightarrow> lgx_frame_arena_init dbg True e s0 = (LGX_SUCCESS, s1) \<Longrightarrow>
    frame_steps dbg k (s1, \<lambda>_. []) (s, LV) \<Longrightarrow> frame_run dbg s LV"

lemma frame_run_step: "frame_run dbg s LV \<Longrightarrow> frame_step dbg j (s, LV) (s', LV') \<Longrightarrow> frame_run dbg s' LV'"
  by (auto elim!: frame_run.cases intro: fr_run fs_step)

subsection \<open>Initialisation\<close>

lemma clamp_bounds:
  "unat (clamp_arena_size c) \<le> 2 ^ 28" "0 < unat (clamp_arena_size c)"
  "unat (clamp_arena_size c) \<le> unat (clamp_max_size m (clamp_arena_size c))"
  "unat (clamp_max_size m (clamp_arena_size c)) \<le> 2 ^ 28"
proof -
  have a: "clamp_arena_size c \<le> FRAME_ARENA_MAX_SIZE \<and> FRAME_ARENA_MIN_SIZE \<le> clamp_arena_size c"
    by (auto simp: clamp_arena_size_def Let_def frame_consts)
  then have b: "clamp_arena_size c \<le> clamp_max_size m (clamp_arena_size c)"
    "clamp_max_size m (clamp_arena_size c) \<le> FRAME_ARENA_MAX_SIZE"
    by (auto simp: clamp_max_size_def Let_def)
  have mx: "unat FRAME_ARENA_MAX_SIZE = 2 ^ 28" "0 < unat FRAME_ARENA_MIN_SIZE"
    by (simp_all add: frame_consts)
  show "unat (clamp_arena_size c) \<le> 2 ^ 28" "0 < unat (clamp_arena_size c)"
    "unat (clamp_arena_size c) \<le> unat (clamp_max_size m (clamp_arena_size c))"
    "unat (clamp_max_size m (clamp_arena_size c)) \<le> 2 ^ 28"
    using a b mx by (auto simp: word_le_nat_alt)
qed

lemma init_arena_ok:
  assumes "16 dvd b" "fa_retired_chunks a = []" "fa_retired_bytes a = 0"
    "0 < unat sz" "unat sz \<le> unat mx" "unat mx \<le> 2 ^ 28"
  shows "arena_ok dbg (init_arena dbg b sz mx a) []"
    "arena_region (init_arena dbg b sz mx a) = {b..<b + unat sz}"
  using assms
  by (auto simp: arena_ok_def sizes_ok_def history_ok_def extents_ok_def init_arena_def arena_chunks_def
      arena_region_def chunk_region_def Let_def sum_list_replicate)

lemma init_arenas_spec:
  assumes "init_arenas dbg e sz mx before is s = (True, s')" "distinct is"
  shows "fs_initialized s' = fs_initialized s \<and> (\<forall>i. if i \<in> set is
      then \<exists>b. (fe_huge e i = Some b \<or> fe_regular e i = Some b) \<and> fs_arenas s' i = init_arena dbg b sz mx (fs_arenas s i)
      else fs_arenas s' i = fs_arenas s i)"
  using assms
proof (induction "is" arbitrary: before s)
  case (Cons i "is")
  obtain r os where r: "allocate_huge_page_arena (fe_huge e i) (fe_regular e i) sz = (r, os)" by fastforce
  then obtain b where b: "r = Some b" using Cons.prems by (cases r) auto
  have e: "fe_huge e i = Some b \<or> fe_regular e i = Some b"
    using r b by (auto simp: allocate_huge_page_arena_def Let_def split: option.splits)
  let ?s = "s\<lparr>fs_arenas := (fs_arenas s)(i := init_arena dbg b sz mx (fs_arenas s i)), fs_os_calls := fs_os_calls s @ os\<rparr>"
  have "init_arenas dbg e sz mx (before @ [i]) is ?s = (True, s')" using Cons.prems(1) r b by simp
  from Cons.IH[OF this] Cons.prems(2) e show ?case by (fastforce split: if_splits)
qed simp

lemma frame_init_inv:
  assumes "\<not> fs_initialized s0"
    and ret: "\<And>i. i < 3 \<Longrightarrow> fa_retired_chunks (fs_arenas s0 i) = [] \<and> fa_retired_bytes (fs_arenas s0 i) = 0"
    and env: "init_env_ok e" and init: "lgx_frame_arena_init dbg True e s0 = (LGX_SUCCESS, s)"
  shows "frame_inv dbg s (\<lambda>_. [])"
proof -
  let ?sz = "clamp_arena_size (fs_configured_arena_size s0)"
  let ?mx = "clamp_max_size (fs_configured_max_size s0) ?sz"
  obtain s1 where s1: "init_arenas dbg e ?sz ?mx [] [0..<3] s0 = (True, s1)"
    and s: "fs_arenas s = fs_arenas s1" "fs_initialized s"
    using init assms(1) by (auto simp: lgx_frame_arena_init_def Let_def split: prod.splits bool.splits)
  have ex: "\<exists>b. (fe_huge e i = Some b \<or> fe_regular e i = Some b) \<and> fs_arenas s i = init_arena dbg b ?sz ?mx (fs_arenas s0 i)"
    if "i < 3" for i
    using init_arenas_spec[OF s1] that s(1) by (auto split: if_splits)
  have reg: "arena_ok dbg (fs_arenas s i) [] \<and> (\<exists>b. (fe_huge e i = Some b \<or> fe_regular e i = Some b) \<and>
      arena_region (fs_arenas s i) \<subseteq> {b..<b + 2 ^ 28})" if i: "i < 3" for i
  proof -
    obtain b where b: "fe_huge e i = Some b \<or> fe_regular e i = Some b"
      "fs_arenas s i = init_arena dbg b ?sz ?mx (fs_arenas s0 i)" using ex[OF i] by blast
    have "16 dvd b" using env i b(1) unfolding init_env_ok_def by blast
    note A = init_arena_ok[OF this, of "fs_arenas s0 i" ?sz ?mx dbg]
    have "arena_ok dbg (fs_arenas s i) []" "arena_region (fs_arenas s i) = {b..<b + unat ?sz}"
      using A ret[OF i] b(2) clamp_bounds by auto
    moreover have "{b..<b + unat ?sz} \<subseteq> {b..<b + 2 ^ 28}" using clamp_bounds(1)[of "fs_configured_arena_size s0"] by auto
    ultimately show ?thesis using b(1) by auto
  qed
  have "arena_region (fs_arenas s i) \<inter> arena_region (fs_arenas s j) = {}" if ij: "i < 3" "j < 3" "i \<noteq> j" for i j
  proof -
    obtain b where b: "fe_huge e i = Some b \<or> fe_regular e i = Some b" "arena_region (fs_arenas s i) \<subseteq> {b..<b + 2 ^ 28}"
      using reg[OF ij(1)] by blast
    obtain c where c: "fe_huge e j = Some c \<or> fe_regular e j = Some c" "arena_region (fs_arenas s j) \<subseteq> {c..<c + 2 ^ 28}"
      using reg[OF ij(2)] by blast
    have "{b..<b + 2 ^ 28} \<inter> {c..<c + 2 ^ 28} = {}" using env ij b(1) c(1) unfolding init_env_ok_def by blast
    then show ?thesis using b(2) c(2) by blast
  qed
  then show ?thesis using reg s(2) by (simp add: frame_inv_def)
qed

subsection \<open>Steps keep the invariant\<close>

lemma tag_ok:
  "arena_ok dbg (track_allocation_tag a sz tag) lv = arena_ok dbg a lv"
  "arena_region (track_allocation_tag a sz tag) = arena_region a"
proof -
  define ts where "ts = fa_tags (track_allocation_tag a sz tag)"
  have "track_allocation_tag a sz tag = a\<lparr>fa_tags := ts\<rparr>"
    by (auto simp: ts_def track_allocation_tag_def Let_def split: option.splits)
  then show "arena_ok dbg (track_allocation_tag a sz tag) lv = arena_ok dbg a lv"
    "arena_region (track_allocation_tag a sz tag) = arena_region a"
    by (simp_all add: arena_ok_def sizes_ok_def history_ok_def extents_ok_def arena_chunks_def used_region_def
      arena_region_def)
qed

lemma ucast_succ: "ucast (x + 1) = (ucast x + 1 :: u32)" for x :: u64
proof -
  have "unat (ucast (x + 1) :: u32) = (unat x + 1) mod 2 ^ 32"
    by (simp add: unsigned_ucast_eq take_bit_eq_mod unat_word_ariths mod_mod_cancel)
  also have "\<dots> = unat (ucast x + 1 :: u32)"
    by (simp add: unsigned_ucast_eq take_bit_eq_mod unat_word_ariths mod_simps)
  finally show ?thesis by (simp add: word_unat_eq_iff)
qed

lemma reset_spec:
  assumes inv: "frame_inv dbg s LV" and r: "lgx_frame_reset dbg now s = (res, s')"
  shows "res = LGX_SUCCESS \<and> cur_frame s' = cur_frame s + 1 \<and> fs_current_frame s' = fs_current_frame s + 1 \<and>
    frame_inv dbg s' (LV(arena_of (cur_frame s') := [])) \<and>
    fa_offset (fs_arenas s' (arena_of (cur_frame s'))) = 0 \<and>
    (\<forall>j. j \<noteq> arena_of (cur_frame s') \<longrightarrow> fs_arenas s' j = fs_arenas s j)"
proof -
  let ?f = "cur_frame s + 1"
  let ?i = "arena_of ?f"
  obtain os a where a: "reset_arena dbg ?f (fs_arenas s ?i) = (os, a)" by fastforce
  have init: "fs_initialized s" using inv by (simp add: frame_inv_def)
  note cf = ucast_succ[of "fs_current_frame s"]
  have out: "res = LGX_SUCCESS" "fs_arenas s' = (fs_arenas s)(?i := a)" "fs_initialized s'"
    "fs_current_frame s' = fs_current_frame s + 1"
    using r init a by (auto simp: lgx_frame_reset_def Let_def record_profiler_reset_event_def set_arena_def)
  have cur: "cur_frame s' = ?f" using out(4) cf by (simp add: cur_frame_def)
  have "arena_ok dbg (fs_arenas s ?i) (LV ?i)" using inv by (simp add: frame_inv_def)
  note R = reset_arena_ok[OF this a]
  have "frame_inv dbg s' (LV(?i := []))"
    by (rule frame_inv_upd[OF inv _ _ _ out(2,3)]) (use R in auto)
  then show ?thesis using out cur R by simp
qed

lemma step_inv:
  assumes "frame_step dbg j c d" "frame_inv dbg (fst c) (snd c)"
  shows "frame_inv dbg (fst d) (snd d)"
  using assms
proof (cases rule: frame_step.cases)
  case (fs_alloc e s sz debug he h p s' h' LV)
  have inv: "frame_inv dbg s LV" using assms(2) fs_alloc by simp
  show ?thesis
    by (rule frame_alloc_cases[OF inv fs_alloc(4,5,6) refl]) (use fs_alloc in auto)
next
  case (fs_fallback e s sz debug he h r s' h' LV)
  have inv: "frame_inv dbg s LV" using assms(2) fs_fallback by simp
  show ?thesis
    by (rule frame_alloc_cases[OF inv fs_fallback(4,5,6) refl]) (use fs_fallback in auto)
next
  case (fs_tag i s LV sz tag)
  have inv: "frame_inv dbg s LV" using assms(2) fs_tag by simp
  let ?a = "track_allocation_tag (fs_arenas s i) sz tag"
  have "frame_inv dbg (set_arena i ?a s) (LV(i := LV i))"
    using inv fs_tag(4) by (intro frame_inv_upd[OF inv fs_tag(4)]) (auto simp: tag_ok set_arena_def frame_inv_def)
  then show ?thesis using fs_tag by simp
next
  case (fs_reset now s s' LV)
  have inv: "frame_inv dbg s LV" using assms(2) fs_reset by simp
  have "frame_inv dbg s' (LV(arena_of (cur_frame s') := []))" using reset_spec[OF inv fs_reset(4)] by blast
  then show ?thesis using fs_reset by simp
qed

lemma steps_inv:
  "frame_steps dbg k c d \<Longrightarrow> frame_inv dbg (fst c) (snd c) \<Longrightarrow> frame_inv dbg (fst d) (snd d)"
  by (induction rule: frame_steps.induct) (auto intro: step_inv)

lemma frame_run_inv: "frame_run dbg s LV \<Longrightarrow> frame_inv dbg s LV"
  by (elim frame_run.cases) (metis frame_init_inv steps_inv fst_conv snd_conv)

section \<open>A concrete execution\<close>

definition zero_arena :: lgx_frame_arena where
  "zero_arena = \<lparr>fa_base = None, fa_capacity = 0, fa_max_capacity = 0, fa_offset = 0, fa_frame_index = 0,
     fa_allocations = 0, fa_peak_usage = 0, fa_overflow_occurred = False, fa_retired_chunks = [],
     fa_retired_bytes = 0, fa_usage_history = [], fa_history_index = 0, fa_rolling_average = 0,
     fa_usage_sum = 0, fa_high_usage_warning_shown = False, fa_last_high_usage_warning_time = 0,
     fa_call_sites = [], fa_tags = [], fa_magic_number = 0, fa_reset_count = 0\<rparr>"

definition zero_frame :: frame_state where
  "zero_frame = \<lparr>fs_initialized = False, fs_arenas = (\<lambda>_. zero_arena), fs_current_frame = 0,
     fs_stats = zero_stats, fs_configured_arena_size = 0, fs_configured_max_size = 0,
     fs_tracy_enabled = False, fs_optick_enabled = False, fs_chrome_trace_enabled = False,
     fs_chrome_trace_file = False, fs_chrome_trace_first_event = True, fs_last_warning_time = 0,
     fs_os_calls = [], fs_overflow_events = []\<rparr>"

definition demo_fenv :: frame_env where
  "demo_fenv = \<lparr>fe_huge = (\<lambda>i. Some (Suc i * 2 ^ 28)), fe_regular = (\<lambda>_. None), fe_node = True, fe_now = 0\<rparr>"

definition demo_frame :: frame_state where
  "demo_frame = snd (lgx_frame_arena_init False True demo_fenv zero_frame)"

lemma slots_disjoint:
  assumes "i < j"
  shows "{Suc i * d..<Suc i * d + d} \<inter> {Suc j * d..<Suc j * d + (d :: nat)} = {}"
proof -
  have "Suc (Suc i) * d \<le> Suc j * d" using assms by (intro mult_le_mono1) simp
  then have "Suc i * d + d \<le> Suc j * d" by simp
  then show ?thesis by (auto simp del: mult_Suc)
qed

lemma demo_fenv_ok: "init_env_ok demo_fenv"
proof -
  have a: "(16 :: nat) dvd Suc i * 2 ^ 28" for i by (rule dvd_mult) simp
  have d: "{Suc i * 2 ^ 28..<Suc i * 2 ^ 28 + 2 ^ 28} \<inter> {Suc j * 2 ^ 28..<Suc j * 2 ^ 28 + (2 ^ 28 :: nat)} = {}"
    if "i \<noteq> j" for i j :: nat
  proof (cases "i < j")
    case True
    then show ?thesis by (rule slots_disjoint)
  next
    case False
    then have "j < i" using that by simp
    from slots_disjoint[OF this] show ?thesis by (simp only: Int_commute)
  qed
  have h: "fe_huge demo_fenv i = Some p \<or> fe_regular demo_fenv i = Some p \<longleftrightarrow> p = Suc i * 2 ^ 28" for i p
    unfolding demo_fenv_def by (simp only: frame_env.simps) blast
  show ?thesis unfolding init_env_ok_def h using a d by blast
qed

lemma demo_init: "lgx_frame_arena_init False True demo_fenv zero_frame = (LGX_SUCCESS, demo_frame)"
proof -
  have "[0..<3] = [0, 1, 2 :: nat]" by (simp add: upt_rec)
  then show ?thesis
    by (simp add: demo_frame_def lgx_frame_arena_init_def zero_frame_def demo_fenv_def allocate_huge_page_arena_def Let_def)
qed

lemma demo_run: "frame_run False demo_frame (\<lambda>_. [])"
  by (rule fr_run[OF _ _ demo_fenv_ok demo_init fs_refl]) (auto simp: zero_frame_def zero_arena_def)

lemma init_fields:
  "lgx_frame_arena_init dbg ok e s0 = (LGX_SUCCESS, s) \<Longrightarrow> \<not> fs_initialized s0 \<Longrightarrow>
     fs_initialized s \<and> fs_current_frame s = 0"
  by (auto simp: lgx_frame_arena_init_def Let_def split: prod.splits bool.splits if_splits)

lemma demo_fields: "cur_frame demo_frame = 0" "fs_initialized demo_frame" "fs_current_frame demo_frame = 0"
  using init_fields[OF demo_init] by (auto simp: zero_frame_def cur_frame_def)

lemma demo_arena:
  "fa_offset (fs_arenas demo_frame 0) = 0" "fa_capacity (fs_arenas demo_frame 0) = FRAME_ARENA_DEFAULT_SIZE"
proof -
  have up: "[0..<3] = [0, 1, 2 :: nat]" by (simp add: upt_rec)
  have cl: "clamp_arena_size 0 = FRAME_ARENA_DEFAULT_SIZE" by (simp add: clamp_arena_size_def frame_consts)
  have eq: "fs_arenas demo_frame 0 = init_arena False (2 ^ 28) (clamp_arena_size 0) (clamp_max_size 0 (clamp_arena_size 0)) zero_arena"
    by (simp add: up demo_frame_def lgx_frame_arena_init_def zero_frame_def demo_fenv_def allocate_huge_page_arena_def Let_def)
  show "fa_offset (fs_arenas demo_frame 0) = 0" "fa_capacity (fs_arenas demo_frame 0) = FRAME_ARENA_DEFAULT_SIZE"
    unfolding eq cl by (simp_all add: init_arena_def)
qed

lemma frame_env_none: "frame_env_ok \<lparr>fe_huge = (\<lambda>_. None), fe_regular = (\<lambda>_. None), fe_node = True, fe_now = 0\<rparr> s"
  by (simp add: frame_env_ok_def fresh_for_def)

text \<open>A state of every frame number is reachable.\<close>

lemma frame_reached: "\<exists>s LV. frame_run False s LV \<and> fs_current_frame s = word_of_nat n"
proof (induction n)
  case 0
  then show ?case using demo_run demo_fields(3) by auto
next
  case (Suc n)
  then obtain s LV where s: "frame_run False s LV" "fs_current_frame s = word_of_nat n" by blast
  obtain r s' where r: "lgx_frame_reset False 0 s = (r, s')" by fastforce
  note R = reset_spec[OF frame_run_inv[OF s(1)] r]
  then have "frame_step False 1 (s, LV) (s', LV(arena_of (cur_frame s') := []))" using r by (intro fs_reset) auto
  then show ?case using frame_run_step[OF s(1)] R s(2) by (metis of_nat_Suc add.commute)
qed

text \<open>A request that fits the arena is served from it.\<close>

lemma frame_alloc_fits:
  assumes inv: "frame_inv dbg s LV" and i: "i = arena_of (cur_frame s)"
    and fit: "unat (fa_offset (fs_arenas s i)) + unat (align16 sz) \<le> unat (fa_capacity (fs_arenas s i))"
  shows "\<exists>s'. lgx_frame_alloc_internal dbg debug he e sz s h =
      Some (Some (the (fa_base (fs_arenas s i)) + unat (fa_offset (fs_arenas s i))), s', h) \<and>
    st_fallback_count (fs_stats s') = st_fallback_count (fs_stats s) \<and>
    fs_arenas s' = (fs_arenas s)(i := bumped (fs_arenas s i) (fa_offset (fs_arenas s i) + align16 sz))"
proof -
  let ?a = "fs_arenas s i"
  have i3: "i < 3" using i by simp
  have ok: "arena_ok dbg ?a (LV i)" "fs_initialized s" using inv i3 by (simp_all add: frame_inv_def)
  have lt: "unat (fa_capacity ?a) \<le> 2 ^ 28" using ok by (simp add: arena_ok_def sizes_ok_def)
  have "unat (fa_offset ?a + align16 sz) = unat (fa_offset ?a) + unat (align16 sz)"
    using unat_add_small[of "fa_offset ?a" "align16 sz"] fit lt by simp
  then have le: "\<not> fa_offset ?a + align16 sz > fa_capacity ?a" using fit by (simp add: word_less_nat_alt)
  obtain r s' where c: "commit_alloc i ?a (fa_offset ?a) (fa_offset ?a + align16 sz) (align16 sz) s = (r, s')" by fastforce
  have "lgx_frame_alloc_internal dbg debug he e sz s h = Some (r, s', h)"
    using frame_alloc_unfold[OF ok(2) _ i, of dbg debug he e sz h] ok le c by (simp add: arena_ok_def)
  then show ?thesis
    using commit_alloc_eq[OF c] ok(1) by (auto simp: arena_ok_def extents_ok_def)
qed

definition demo_henv :: heap_env where
  "demo_henv = \<lparr>he_slab = \<lparr>se_struct = False, se_hugepages = None, se_malloc = None, se_calloc = False\<rparr>, he_now = 0\<rparr>"

definition demo_fenv2 :: frame_env where
  "demo_fenv2 = \<lparr>fe_huge = (\<lambda>_. None), fe_regular = (\<lambda>_. None), fe_node = True, fe_now = 0\<rparr>"

lemma demo_alloc:
  "\<exists>p s'. lgx_frame_alloc_internal False debug he demo_fenv2 100 demo_frame h = Some (Some p, s', h) \<and>
     st_fallback_count (fs_stats s') = st_fallback_count (fs_stats demo_frame)"
proof -
  have a: "arena_of (cur_frame demo_frame) = 0" by (simp add: demo_fields arena_of_def)
  have "unat (align16 100) = 112" using align16_unat[of 100] by simp
  then have "unat (fa_offset (fs_arenas demo_frame 0)) + unat (align16 100) \<le> unat (fa_capacity (fs_arenas demo_frame 0))"
    by (simp add: demo_arena FRAME_ARENA_DEFAULT_SIZE_def)
  then show ?thesis using frame_alloc_fits[OF frame_run_inv[OF demo_run] a[symmetric], of 100] by blast
qed

section \<open>Properties\<close>

text \<open>
  C11. An allocation of fewer than \<open>2 ^ 63\<close> bytes that the arena serves is 16-byte aligned and overlaps
  no live allocation of any of the three arenas, also when the arena had to grow; otherwise the
  request, rounded up to 16 bytes, is passed to the persistent heap.
\<close>

theorem frame_alloc_disjoint:
  assumes "frame_run dbg s LV" "frame_env_ok e s" "unat sz < 2 ^ 63"
    "lgx_frame_alloc_internal dbg debug he e sz s h = Some (r, s', h')"
  shows "if st_fallback_count (fs_stats s') = st_fallback_count (fs_stats s)
    then \<exists>p. r = Some p \<and> h' = h \<and> 16 dvd p \<and> (\<forall>j<3. \<forall>x\<in>set (LV j). {p..<p + unat sz} \<inter> ext x = {}) \<and>
      frame_run dbg s' (LV(arena_of (cur_frame s) := (p, unat sz) # LV (arena_of (cur_frame s))))
    else lgx_heap_alloc debug he (unat (align16 sz)) h = Some (r, h') \<and> frame_run dbg s' LV"
proof (rule frame_alloc_cases[OF frame_run_inv[OF assms(1)] assms(2,3,4) refl], goal_cases arena heap)
  case (arena p)
  have "frame_step dbg 0 (s, LV) (s', LV(arena_of (cur_frame s) := (p, unat sz) # LV (arena_of (cur_frame s))))"
    using fs_alloc[OF assms(2,3)] assms(4) arena(1,5) by blast
  then show ?case using arena frame_run_step[OF assms(1)] by (auto simp: ext_def)
next
  case heap
  have "frame_step dbg 0 (s, LV) (s', LV)" using fs_fallback[OF assms(2,3,4)] heap(2) by simp
  then show ?case using heap frame_run_step[OF assms(1)] by auto
qed

theorem frame_alloc_disjoint_witness:
  "\<forall>h. \<exists>p s'. lgx_frame_alloc_internal False False demo_henv demo_fenv2 100 demo_frame h = Some (Some p, s', h) \<and>
     16 dvd p \<and> frame_run False s' ((\<lambda>_. [])(0 := [(p, 100)]))"
proof
  fix h
  obtain p s' where a: "lgx_frame_alloc_internal False False demo_henv demo_fenv2 100 demo_frame h = Some (Some p, s', h)"
    "st_fallback_count (fs_stats s') = st_fallback_count (fs_stats demo_frame)" using demo_alloc by blast
  have "arena_of (cur_frame demo_frame) = 0" by (simp add: demo_fields arena_of_def)
  then show "\<exists>p s'. lgx_frame_alloc_internal False False demo_henv demo_fenv2 100 demo_frame h = Some (Some p, s', h) \<and>
      16 dvd p \<and> frame_run False s' ((\<lambda>_. [])(0 := [(p, 100)]))"
    using frame_alloc_disjoint[OF demo_run _ _ a(1)] frame_env_none[of demo_frame] a
    by (auto simp: demo_fenv2_def simp del: fun_upd_apply)
qed

lemma extent_is_pointer:
  assumes inv: "frame_inv dbg s LV" and x: "x \<in> set (LV i)" "i < 3" "p \<in> ext x"
  shows "lgx_frame_is_frame_pointer (Some p) s"
proof -
  have ok: "arena_ok dbg (fs_arenas s i) (LV i)" using inv x by (simp add: frame_inv_def)
  then have "p \<in> used_region (fs_arenas s i)" using x by (auto simp: arena_ok_def extents_ok_def)
  then have "p \<in> arena_region (fs_arenas s i)" using used_sub_region ok by (auto simp: arena_ok_def)
  moreover have "fa_base (fs_arenas s i) \<noteq> None" using ok by (simp add: arena_ok_def extents_ok_def)
  ultimately have "in_arena p (fs_arenas s i)"
    by (auto simp: in_arena_def arena_region_def arena_chunks_def chunk_region_def)
  then show ?thesis using inv x(2) by (auto simp: lgx_frame_is_frame_pointer_def frame_inv_def)
qed

lemma arena_of_distinct:
  assumes "0 < k" "k \<le> 2" "unat f + k < 2 ^ 32"
  shows "arena_of (f + word_of_nat k) \<noteq> arena_of f"
proof -
  have "unat (word_of_nat k :: u32) = k" using assms by (simp add: unat_of_nat take_bit_nat_eq_self)
  then have "unat (f + word_of_nat k) = unat f + k" using unat_add_lem[of f "word_of_nat k"] assms by simp
  then show ?thesis using assms(1,2) unfolding arena_of_def frame_counts by presburger
qed

lemma steps_frame:
  "frame_steps dbg k c d \<Longrightarrow> frame_inv dbg (fst c) (snd c) \<Longrightarrow> cur_frame (fst d) = cur_frame (fst c) + word_of_nat k"
proof (induction rule: frame_steps.induct)
  case (fs_step k c d j d')
  have inv: "frame_inv dbg (fst d) (snd d)" using steps_inv[OF fs_step.hyps(1) fs_step.prems] .
  have "cur_frame (fst d') = cur_frame (fst d) + word_of_nat j"
    using fs_step.hyps(2)
  proof (cases rule: frame_step.cases)
    case (fs_alloc e s sz debug he h p s' h' LV)
    have inv: "frame_inv dbg s LV" using inv fs_alloc by simp
    have "fs_current_frame s' = fs_current_frame s"
      by (rule frame_alloc_cases[OF inv fs_alloc(4,5,6) refl]) auto
    then show ?thesis using fs_alloc by (simp add: cur_frame_def)
  next
    case (fs_fallback e s sz debug he h r s' h' LV)
    have inv: "frame_inv dbg s LV" using inv fs_fallback by simp
    have "fs_current_frame s' = fs_current_frame s"
      by (rule frame_alloc_cases[OF inv fs_fallback(4,5,6) refl]) auto
    then show ?thesis using fs_fallback by (simp add: cur_frame_def)
  next
    case (fs_tag i s LV sz tag)
    then show ?thesis by (simp add: cur_frame_def set_arena_def)
  next
    case (fs_reset now s s' LV)
    then show ?thesis using reset_spec[of dbg s LV now] inv by simp
  qed
  then show ?case using fs_step by (simp add: add.assoc)
qed simp

lemma step_keeps_live:
  assumes "frame_step dbg j c d" "frame_inv dbg (fst c) (snd c)" "j = 1 \<longrightarrow> arena_of (cur_frame (fst d)) \<noteq> i"
  shows "\<exists>new. snd d i = new @ snd c i"
  using assms by (cases rule: frame_step.cases) auto

lemma steps_keep_live:
  "frame_steps dbg k c d \<Longrightarrow> frame_inv dbg (fst c) (snd c) \<Longrightarrow> k \<le> 2 \<Longrightarrow> unat (cur_frame (fst c)) + k < 2 ^ 32 \<Longrightarrow>
     i = arena_of (cur_frame (fst c)) \<Longrightarrow> \<exists>new. snd d i = new @ snd c i"
proof (induction rule: frame_steps.induct)
  case (fs_step k c d j d')
  have IH: "\<exists>new. snd d i = new @ snd c i" using fs_step.IH fs_step.prems by simp
  have inv: "frame_inv dbg (fst d) (snd d)" using steps_inv[OF fs_step.hyps(1) fs_step.prems(1)] .
  have "cur_frame (fst d') = cur_frame (fst c) + word_of_nat (k + j)"
    using steps_frame[OF frame_steps.fs_step[OF fs_step.hyps] fs_step.prems(1)] .
  then have "j = 1 \<longrightarrow> arena_of (cur_frame (fst d')) \<noteq> i"
    using arena_of_distinct[of "k + j" "cur_frame (fst c)"] fs_step.prems by auto
  from step_keeps_live[OF fs_step.hyps(2) inv this] IH show ?case by auto
qed simp

text \<open>
  C10. Triple buffering: what a frame allocated stays live, through later allocations of the same arena (\<open>new\<close>), pairwise
  disjoint and disjoint from everything that is live in any of the three arenas, inside mapped arena memory and recognised by \<open>lgx_frame_is_frame_pointer\<close>, through the next two
  resets and all allocations between them, as long as the 32-bit frame number does not wrap around.
\<close>

theorem frame_triple_buffering:
  assumes run: "frame_run dbg s LV" and st: "frame_steps dbg k (s, LV) (s', LV')"
    and k: "k \<le> 2" "unat (cur_frame s) + k < 2 ^ 32" and i: "i = arena_of (cur_frame s)"
  shows "(\<exists>new. LV' i = new @ LV i) \<and> sorted_wrt (\<lambda>x y. ext x \<inter> ext y = {}) (LV' i) \<and>
    (\<forall>j<3. j \<noteq> i \<longrightarrow> (\<forall>x\<in>set (LV i). \<forall>y\<in>set (LV' j). ext x \<inter> ext y = {})) \<and>
    (\<forall>x\<in>set (LV i). \<forall>p\<in>ext x. lgx_frame_is_frame_pointer (Some p) s')"
proof -
  have inv: "frame_inv dbg s' LV'" using steps_inv[OF st] frame_run_inv[OF run] by simp
  have new: "\<exists>new. LV' i = new @ LV i"
    using steps_keep_live[OF st, of i] frame_run_inv[OF run] k i by simp
  then have keep: "set (LV i) \<subseteq> set (LV' i)" by auto
  have i3: "i < 3" using i by simp
  have apart: "sorted_wrt (\<lambda>x y. ext x \<inter> ext y = {}) (LV' i)"
    using inv i3 by (simp add: frame_inv_def arena_ok_def extents_ok_def)
  have sub: "ext x \<subseteq> arena_region (fs_arenas s' j)" if "j < 3" "x \<in> set (LV' j)" for j x
    using inv that used_sub_region[of "fs_arenas s' j"] by (auto simp: frame_inv_def arena_ok_def extents_ok_def)
  have "ext x \<inter> ext y = {}" if "j < 3" "j \<noteq> i" "x \<in> set (LV i)" "y \<in> set (LV' j)" for j x y
  proof -
    have "arena_region (fs_arenas s' i) \<inter> arena_region (fs_arenas s' j) = {}"
      using inv i3 that(1,2) unfolding frame_inv_def by metis
    then show ?thesis using sub[OF i3] sub[OF that(1,4)] keep that(3) by blast
  qed
  moreover have "lgx_frame_is_frame_pointer (Some p) s'" if "x \<in> set (LV i)" "p \<in> ext x" for x p
    using extent_is_pointer[OF inv _ i3] keep that by blast
  ultimately show ?thesis using new apart by blast
qed

theorem frame_triple_buffering_witness:
  "\<exists>p s1 s2 LV2. frame_run False s1 ((\<lambda>_. [])(0 := [(p, 100)])) \<and>
     frame_steps False 2 (s1, (\<lambda>_. [])(0 := [(p, 100)])) (s2, LV2) \<and> (p, 100) \<in> set (LV2 0) \<and>
     lgx_frame_is_frame_pointer (Some p) s2"
proof -
  obtain p s1 where a: "lgx_frame_alloc_internal False False demo_henv demo_fenv2 100 demo_frame (undefined :: persistent_heap) = Some (Some p, s1, undefined)"
    "st_fallback_count (fs_stats s1) = st_fallback_count (fs_stats demo_frame)" using demo_alloc by blast
  let ?L = "(\<lambda>_. [])(0 := [(p, 100)]) :: nat \<Rightarrow> extent list"
  have z: "arena_of (cur_frame demo_frame) = 0" by (simp add: demo_fields arena_of_def)
  have env: "frame_env_ok demo_fenv2 demo_frame" using frame_env_none by (simp add: demo_fenv2_def)
  have st1: "frame_step False 0 (demo_frame, \<lambda>_. []) (s1, ?L)"
    using fs_alloc[OF env _ a, of "\<lambda>_. []"] z by simp
  have run1: "frame_run False s1 (?L)" using frame_run_step[OF demo_run st1] .
  have cf1: "cur_frame s1 = 0"
    using steps_frame[OF frame_steps.fs_step[OF fs_refl st1]] frame_run_inv[OF demo_run] demo_fields by simp
  obtain s2 where s2: "lgx_frame_reset False 0 s1 = (LGX_SUCCESS, s2)"
    using reset_spec[OF frame_run_inv[OF run1]] by (metis surj_pair)
  obtain s3 where s3: "lgx_frame_reset False 0 s2 = (LGX_SUCCESS, s3)"
    using reset_spec[OF frame_run_inv[OF frame_run_step[OF run1 fs_reset[OF s2]]]] by (metis surj_pair)
  have st: "frame_steps False (0 + 1 + 1) (s1, ?L) (s3, ((?L)(arena_of (cur_frame s2) := []))(arena_of (cur_frame s3) := []))"
    by (intro frame_steps.fs_step[OF frame_steps.fs_step[OF fs_refl fs_reset[OF s2]] fs_reset[OF s3]])
  have z1: "0 = arena_of (cur_frame s1)" using cf1 by (simp add: arena_of_def)
  define LV2 where "LV2 = (?L(arena_of (cur_frame s2) := []))(arena_of (cur_frame s3) := [])"
  have st2: "frame_steps False 2 (s1, ?L) (s3, LV2)" using st unfolding LV2_def by (simp only: add_0 one_add_one)
  have "unat (cur_frame s1) + 2 < 2 ^ 32" using cf1 by simp
  from frame_triple_buffering[OF run1 st2 _ this z1]
  have "(p, 100) \<in> set (LV2 0)" "\<forall>q\<in>ext (p, 100). lgx_frame_is_frame_pointer (Some q) s3" by auto
  moreover have "p \<in> ext (p, 100)" by (simp add: ext_def)
  ultimately show ?thesis using run1 st2 by blast
qed

text \<open>
  When the 32-bit frame number wraps around, triple buffering is broken: the new frame 0 uses the
  arena that the frame before it used (\<open>2 ^ 32 - 1\<close> is a multiple of 3), and the reset discards that
  frame's allocations at once.
\<close>

theorem frame_counter_wrap_breaks_buffering:
  assumes "frame_run dbg s LV" "cur_frame s = - 1" "lgx_frame_reset dbg now s = (res, s')"
  shows "res = LGX_SUCCESS \<and> cur_frame s' = 0 \<and> arena_of (cur_frame s') = arena_of (cur_frame s) \<and>
    fa_offset (fs_arenas s' (arena_of (cur_frame s))) = 0"
proof -
  note R = reset_spec[OF frame_run_inv[OF assms(1)] assms(3)]
  have "unat (- 1 :: u32) = 2 ^ 32 - 1" by (simp add: unsigned_minus_1_eq_mask mask_eq_exp_minus_1)
  then have "arena_of (- 1) = arena_of 0" by (simp add: arena_of_def)
  moreover have "cur_frame s' = 0" using R assms(2) by simp
  ultimately have "arena_of (cur_frame s') = arena_of (cur_frame s)" using assms(2) by simp
  then show ?thesis using R \<open>cur_frame s' = 0\<close> by metis
qed

theorem frame_counter_wrap_breaks_buffering_witness:
  "\<exists>s LV s'. frame_run False s LV \<and> lgx_frame_reset False 0 s = (LGX_SUCCESS, s') \<and>
     arena_of (cur_frame s') = arena_of (cur_frame s)"
proof -
  obtain s LV where s: "frame_run False s LV" "fs_current_frame s = word_of_nat (2 ^ 32 - 1)"
    using frame_reached by blast
  have c: "cur_frame s = - 1" using s(2) by (simp add: cur_frame_def)
  obtain r s' where r: "lgx_frame_reset False 0 s = (r, s')" by fastforce
  from frame_counter_wrap_breaks_buffering[OF s(1) c r] s(1) r show ?thesis by blast
qed

lemma align16_wraps:
  assumes "2 ^ 64 - 16 < unat sz"
  shows "align16 sz = 0"
proof -
  have lt: "unat sz < 2 ^ 64" using unsigned_less[of sz] by simp
  have "unat (sz + 15) = (unat sz + 15) mod 2 ^ 64" by (simp add: unat_word_ariths)
  also have "\<dots> = unat sz + 15 - 2 ^ 64" using assms lt by (simp add: mod_if)
  finally have u: "unat (sz + 15) < 16" using lt by linarith
  have "unat (take_bit 4 (sz + 15)) = unat (sz + 15) mod 16" by (simp add: take_bit_eq_mod unat_mod)
  then have "take_bit 4 (sz + 15) = sz + 15" using u by (intro word_unat_eq_iff[THEN iffD2]) simp
  then have "sz + 15 = (sz + 15) AND mask 4" by (simp add: take_bit_eq_mask)
  moreover have "(15 :: u64) = mask 4" by (simp add: mask_eq_exp_minus_1)
  moreover have "align16 sz = (sz + 15) AND NOT 15" by (simp add: align16_def FRAME_ARENA_ALIGNMENT_def add.commute)
  ultimately have "align16 sz = ((sz + 15) AND mask 4) AND NOT (mask 4)" by metis
  also have "\<dots> = 0" by (rule bit_eqI) (auto simp: bit_simps)
  finally show ?thesis .
qed

text \<open>
  A request of more than \<open>2 ^ 64 - 16\<close> bytes is rounded up to 0: the call succeeds with a pointer
  for which no byte is reserved.
\<close>

theorem frame_alloc_size_wraps:
  assumes run: "frame_run dbg s LV" and sz: "2 ^ 64 - 16 < unat sz"
  shows "\<exists>p s'. lgx_frame_alloc_internal dbg debug he e sz s h = Some (Some p, s', h) \<and>
    fa_offset (fs_arenas s' (arena_of (cur_frame s))) = fa_offset (fs_arenas s (arena_of (cur_frame s)))"
proof -
  let ?i = "arena_of (cur_frame s)"
  have inv: "frame_inv dbg s LV" by (rule frame_run_inv[OF run])
  have "unat (fa_offset (fs_arenas s ?i)) + unat (align16 sz) \<le> unat (fa_capacity (fs_arenas s ?i))"
    using inv align16_wraps[OF sz] by (simp add: frame_inv_def arena_ok_def sizes_ok_def)
  from frame_alloc_fits[OF inv refl this, of debug he e h] show ?thesis
    by (auto simp: bumped_def align16_wraps[OF sz])
qed

theorem frame_alloc_size_wraps_witness:
  "\<forall>h. \<exists>p s'. lgx_frame_alloc_internal False False demo_henv demo_fenv2 (- 1) demo_frame h = Some (Some p, s', h) \<and>
     fa_offset (fs_arenas s' (arena_of (cur_frame demo_frame))) = fa_offset (fs_arenas demo_frame (arena_of (cur_frame demo_frame)))"
proof -
  have "2 ^ 64 - 16 < unat (- 1 :: u64)" by (simp add: unsigned_minus_1_eq_mask mask_eq_exp_minus_1)
  from frame_alloc_size_wraps[OF demo_run this] show ?thesis by blast
qed

end
