(* ===== verification/Frame_Reports.thy ===== *)
theory Frame_Reports
  imports Frame_Properties
begin

text \<open>
  What the frame arena reports: rolling averages, sizing recommendations, the tag table and the sorted
  tables of the dumps.
\<close>

section \<open>Bubble sort\<close>

lemma swap_step_length [simp]: "length (swap_step key xs j) = length xs"
  by (simp add: swap_step_def)

lemma swap_step_mset: "Suc j < length xs \<Longrightarrow> mset (swap_step key xs j) = mset xs"
  by (simp add: swap_step_def mset_swap)

lemma bubble_pass_length [simp]: "length (bubble_pass key xs si) = length xs"
proof -
  have "length (foldl (swap_step key) xs js) = length xs" for js
    by (induction js arbitrary: xs) auto
  then show ?thesis by (simp add: bubble_pass_def)
qed

lemma pass_mset: "k < length xs \<Longrightarrow> mset (foldl (swap_step key) xs [0..<k]) = mset xs \<and>
   length (foldl (swap_step key) xs [0..<k]) = length xs"
  by (induction k) (simp_all add: swap_step_mset)

lemma bubble_pass_mset: "mset (bubble_pass key xs si) = mset xs"
  using pass_mset[of "length xs - si - 1" xs key] by (cases xs) (auto simp: bubble_pass_def)

text \<open>After \<open>k\<close> comparisons the smallest of the first \<open>k + 1\<close> entries stands at position \<open>k\<close>.\<close>

lemma pass_least:
  "k < length xs \<Longrightarrow>
     (\<forall>j\<le>k. key (foldl (swap_step key) xs [0..<k] ! k) \<le> key (foldl (swap_step key) xs [0..<k] ! j)) \<and>
     (\<forall>j>k. foldl (swap_step key) xs [0..<k] ! j = xs ! j)"
proof (induction k)
  case (Suc k)
  let ?y = "foldl (swap_step key) xs [0..<k]"
  have len: "length ?y = length xs" using pass_mset[of k xs key] Suc.prems by simp
  have IH: "\<And>j. j \<le> k \<Longrightarrow> key (?y ! k) \<le> key (?y ! j)" "\<And>j. k < j \<Longrightarrow> ?y ! j = xs ! j"
    using Suc by auto
  have f: "foldl (swap_step key) xs [0..<Suc k] = swap_step key ?y k" by simp
  show ?case unfolding f
  proof (intro conjI allI impI)
    fix j assume "j \<le> Suc k"
    then consider "j = Suc k" | "j = k" | "j < k" by linarith
    then show "key (swap_step key ?y k ! Suc k) \<le> key (swap_step key ?y k ! j)"
      using IH(1)[of j] Suc.prems len by cases (auto simp: swap_step_def nth_list_update)
  next
    fix j assume "Suc k < j"
    then show "swap_step key ?y k ! j = xs ! j" using IH(2)[of j] by (auto simp: swap_step_def nth_list_update)
  qed
qed simp

text \<open>After \<open>m\<close> passes the last \<open>m\<close> entries are sorted and no larger than the ones before them.\<close>

definition tail_sorted :: "('a \<Rightarrow> u64) \<Rightarrow> 'a list \<Rightarrow> nat \<Rightarrow> bool" where
  "tail_sorted key xs m \<longleftrightarrow> (\<forall>i j. i < j \<longrightarrow> j < length xs \<longrightarrow> length xs - m \<le> j \<longrightarrow> key (xs ! j) \<le> key (xs ! i))"

lemma pass_sub:
  "k < length xs \<Longrightarrow> i \<le> k \<Longrightarrow> \<exists>i'\<le>k. foldl (swap_step key) xs [0..<k] ! i = xs ! i'"
proof (induction k arbitrary: i)
  case (Suc k)
  let ?y = "foldl (swap_step key) xs [0..<k]"
  have len: "length ?y = length xs" using pass_mset[of k xs key] Suc.prems by simp
  have last: "?y ! Suc k = xs ! Suc k" using pass_least[of k xs key] Suc.prems by simp
  have sub: "\<exists>i'\<le>Suc k. ?y ! j = xs ! i'" if "j \<le> Suc k" for j
  proof (cases "j = Suc k")
    case False
    then show ?thesis using Suc.IH[of j] Suc.prems that by (auto intro: le_SucI)
  qed (use last in auto)
  have "\<exists>j\<le>Suc k. swap_step key ?y k ! i = ?y ! j"
    using Suc.prems len by (cases "i = Suc k"; cases "i = k")
      (auto simp: swap_step_def nth_list_update intro: exI[of _ k])
  then show ?case using sub by auto
qed simp

lemma pass_sorts:
  assumes ts: "tail_sorted key xs m" and m: "m + 1 < length xs"
  shows "tail_sorted key (bubble_pass key xs m) (Suc m)"
proof -
  let ?k = "length xs - m - 1" and ?y = "bubble_pass key xs m"
  have k: "?k < length xs" and y: "?y = foldl (swap_step key) xs [0..<?k]" using m by (auto simp: bubble_pass_def)
  note L = pass_least[OF k, of key, folded y] and S = pass_sub[OF k, of _ key, folded y]
  have "key (?y ! j) \<le> key (?y ! i)" if ij: "i < j" "j < length xs" "length xs - Suc m \<le> j" for i j
  proof (cases "j = ?k")
    case True
    then show ?thesis using L ij by simp
  next
    case False
    then have j: "?k < j" "length xs - m \<le> j" using ij by auto
    then have yj: "?y ! j = xs ! j" using L by blast
    obtain i' where "i' < j" "?y ! i = xs ! i'"
    proof (cases "i \<le> ?k")
      case True
      then show ?thesis using S[of i] j(1) that by (meson le_less_trans)
    next
      case False
      then show ?thesis using L ij(1) that by simp
    qed
    then show ?thesis using ts yj ij(2) j(2) by (simp add: tail_sorted_def)
  qed
  then show ?thesis by (simp add: tail_sorted_def)
qed

lemma passes_sort:
  "m < length xs \<Longrightarrow> length (foldl (bubble_pass key) xs [0..<m]) = length xs \<and>
     mset (foldl (bubble_pass key) xs [0..<m]) = mset xs \<and> tail_sorted key (foldl (bubble_pass key) xs [0..<m]) m"
proof (induction m)
  case 0
  then show ?case by (simp add: tail_sorted_def)
next
  case (Suc m)
  let ?y = "foldl (bubble_pass key) xs [0..<m]"
  have IH: "length ?y = length xs" "mset ?y = mset xs" "tail_sorted key ?y m" using Suc by auto
  show ?case using pass_sorts[OF IH(3)] Suc.prems IH by (simp add: bubble_pass_mset)
qed

lemma bubble_sort_correct:
  "sorted_wrt (\<lambda>x y. key y \<le> key x) (bubble_sort key xs) \<and> mset (bubble_sort key xs) = mset xs"
proof (cases xs)
  case Nil
  then show ?thesis by (simp add: bubble_sort_def)
next
  case Cons
  then have P: "length (bubble_sort key xs) = length xs" "mset (bubble_sort key xs) = mset xs"
    "tail_sorted key (bubble_sort key xs) (length xs - 1)"
    using passes_sort[of "length xs - 1" xs key] by (auto simp: bubble_sort_def)
  then show ?thesis by (auto simp: sorted_wrt_iff_nth_less tail_sorted_def)
qed

lemma bubble_sort_length [simp]: "length (bubble_sort key xs) = length xs"
  using bubble_sort_correct[of key xs] by (metis size_mset)

text \<open>
  The exported tag table holds exactly the rows of the arena's table, largest total first.
\<close>

theorem dump_tags_sorted:
  "sorted_wrt (\<lambda>x y. tg_total_bytes y \<le> tg_total_bytes x) (dump_tags a) \<and> mset (dump_tags a) = mset (fa_tags a)"
  unfolding dump_tags_def by (rule bubble_sort_correct)

text \<open>
  The printed statistics of arena \<open>i\<close> repeat one row of the sorted table, row \<open>i\<close>, once per tag
  (the index of the arena is used for the index of the row), and read beyond the table when it has no
  such row.
\<close>

theorem dump_stats_repeats_row:
  "dump_stats_tags i a =
     replicate (length (fa_tags a)) (if i < length (fa_tags a) then Some (dump_tags a ! i) else None)"
  by (simp add: dump_stats_tags_def dump_tags_def Let_def map_replicate_const)

section \<open>Rolling averages\<close>

lemma reset_history:
  assumes s: "sizes_ok a" and h: "history_ok a" and r: "reset_arena dbg f a = (os, a')"
  shows "map unat (fa_usage_history a') =
      (map unat (fa_usage_history a))[fa_history_index a := unat (fa_retired_bytes a) + unat (fa_offset a)] \<and>
    fa_history_index a' = (fa_history_index a + 1) mod 60"
proof -
  have "unat (fa_retired_bytes a + fa_offset a) = unat (fa_retired_bytes a) + unat (fa_offset a)"
    using unat_add_small[of "fa_retired_bytes a" "fa_offset a"] s by (simp add: sizes_ok_def)
  moreover have "a' = snd (reset_arena dbg f a)" using r by simp
  ultimately show ?thesis
    by (simp add: reset_arena_def free_retired_chunks_def update_rolling_average_def Let_def map_update)
qed

lemma history_average: "history_ok a \<Longrightarrow> unat (fa_rolling_average a) = sum_list (map unat (fa_usage_history a)) div 60"
  by (simp add: history_ok_def unat_div)

text \<open>
  A frame reset files the bytes that the arena's last frame used, retired chunks included, in its
  ring of 60 entries, and the incrementally maintained average is exactly the mean of the ring: no
  step wraps around.
\<close>

theorem frame_rolling_average_exact:
  assumes run: "frame_run dbg s LV" and r: "lgx_frame_reset dbg now s = (res, s')"
    and i: "i = arena_of (cur_frame s')"
  shows "map unat (fa_usage_history (fs_arenas s' i)) =
      (map unat (fa_usage_history (fs_arenas s i)))[fa_history_index (fs_arenas s i) :=
         unat (fa_retired_bytes (fs_arenas s i)) + unat (fa_offset (fs_arenas s i))] \<and>
    fa_history_index (fs_arenas s' i) = (fa_history_index (fs_arenas s i) + 1) mod 60 \<and>
    length (fa_usage_history (fs_arenas s' i)) = 60 \<and>
    unat (fa_rolling_average (fs_arenas s' i)) = sum_list (map unat (fa_usage_history (fs_arenas s' i))) div 60"
proof -
  have inv: "frame_inv dbg s LV" by (rule frame_run_inv[OF run])
  note R = reset_spec[OF inv r]
  have i3: "i < 3" using i by simp
  have ok: "sizes_ok (fs_arenas s i)" "history_ok (fs_arenas s i)"
    using inv i3 by (simp_all add: frame_inv_def arena_ok_def)
  have ok': "history_ok (fs_arenas s' i)" using R i3 by (simp add: frame_inv_def arena_ok_def)
  obtain os where "reset_arena dbg (cur_frame s + 1) (fs_arenas s i) = (os, fs_arenas s' i)"
  proof -
    have "cur_frame s' = cur_frame s + 1" using R by blast
    then show ?thesis using r inv i that
      by (auto simp: lgx_frame_reset_def Let_def frame_inv_def record_profiler_reset_event_def set_arena_def
          split: prod.splits if_splits)
  qed
  from reset_history[OF ok this] history_average[OF ok'] ok' show ?thesis by (simp add: history_ok_def)
qed

theorem frame_rolling_average_exact_witness:
  "\<exists>s'. lgx_frame_reset False 0 demo_frame = (LGX_SUCCESS, s') \<and>
     unat (fa_rolling_average (fs_arenas s' 1)) = sum_list (map unat (fa_usage_history (fs_arenas s' 1))) div 60"
proof -
  obtain r s' where r: "lgx_frame_reset False 0 demo_frame = (r, s')" by fastforce
  note R = reset_spec[OF frame_run_inv[OF demo_run] r]
  have "1 = arena_of (cur_frame s')" using R demo_fields(1) by (simp add: arena_of_def)
  from frame_rolling_average_exact[OF demo_run r this] R r show ?thesis by auto
qed

section \<open>Recommended size\<close>

lemma fold_max_word:
  "m = foldl (\<lambda>m i. if f i > m then f i else m) m0 is \<Longrightarrow>
     unat m0 \<le> unat m \<and> (\<forall>i\<in>set is. unat (f i) \<le> unat m) \<and> (m = m0 \<or> (\<exists>i\<in>set is. m = f i))" for m :: u64
proof (induction "is" arbitrary: m0)
  case (Cons i "is")
  have "m = foldl (\<lambda>m i. if f i > m then f i else m) (if f i > m0 then f i else m0) is" using Cons.prems by simp
  from Cons.IH[OF this] show ?case by (auto simp: word_less_nat_alt split: if_splits)
qed simp

definition round_16mb :: "nat \<Rightarrow> nat" where
  "round_16mb n = (n + (2 ^ 24 - 1)) div 2 ^ 24 * 2 ^ 24"

lemma round_16mb_ge: "n \<le> round_16mb n"
proof -
  have "(n + (2 ^ 24 - 1)) div 2 ^ 24 * 2 ^ 24 + (n + (2 ^ 24 - 1)) mod 2 ^ 24 = n + (2 ^ 24 - 1)" by (rule div_mult_mod_eq)
  moreover have "(n + (2 ^ 24 - 1)) mod 2 ^ 24 < 2 ^ 24" by (rule mod_less_divisor) simp
  ultimately show ?thesis unfolding round_16mb_def by linarith
qed

lemma unat_mult_small: "unat x * unat y < 2 ^ 64 \<Longrightarrow> unat (x * y) = unat x * unat y" for x y :: u64
  using unat_mult_lem[of x y] by simp

lemma round_16mb_word:
  fixes r :: u64
  assumes "unat r \<le> 2 ^ 31"
  shows "unat ((r + 16 * 1024 * 1024 - 1) div (16 * 1024 * 1024) * (16 * 1024 * 1024)) = round_16mb (unat r)"
proof -
  have e: "r + 16777216 - 1 = r + 16777215" "(16 * 1024 * 1024 :: u64) = 16777216" by simp_all
  have "unat (r + 16777215) = unat r + 16777215" using unat_add_small[of r 16777215] assms by simp
  moreover have "unat (16777216 :: u64) = 16777216" by simp
  ultimately have d: "unat ((r + 16 * 1024 * 1024 - 1) div (16 * 1024 * 1024)) = (unat r + 16777215) div 16777216"
    unfolding e(2) unfolding e(1) unat_div by (simp only:)
  have "(unat r + 16777215) div 16777216 * 16777216 \<le> unat r + 16777215" by (rule div_times_less_eq_dividend)
  also have "\<dots> < 2 ^ 64" using assms by simp
  finally have "unat ((r + 16 * 1024 * 1024 - 1) div (16 * 1024 * 1024) * 16777216) = (unat r + 16777215) div 16777216 * 16777216"
    using unat_mult_small[of "(r + 16 * 1024 * 1024 - 1) div (16 * 1024 * 1024)" 16777216] d by simp
  then show ?thesis by (simp add: round_16mb_def)
qed

lemma average_bound: "history_ok a \<Longrightarrow> unat (fa_rolling_average a) \<le> 3 * 2 ^ 28"
proof -
  assume h: "history_ok a"
  have "sum_list (map unat us) \<le> length us * (3 * 2 ^ 28)"
    if "\<forall>u\<in>set us. unat u \<le> 3 * 2 ^ 28" for us :: "u64 list"
    using that by (induction us) auto
  from this[of "fa_usage_history a"] h history_average[OF h] show ?thesis by (simp add: history_ok_def)
qed

lemma recommended_value:
  assumes inv: "frame_inv dbg s LV"
  shows "\<exists>m. (\<forall>i<3. unat (fa_peak_usage (fs_arenas s i)) \<le> m \<and> unat (fa_rolling_average (fs_arenas s i)) \<le> m) \<and>
    unat (lgx_frame_arena_get_recommended_size s) = min (2 ^ 28) (max (2 ^ 24) (round_16mb (m + m div 4)))"
proof -
  let ?p = "\<lambda>i. fa_peak_usage (fs_arenas s i)" and ?v = "\<lambda>i. fa_rolling_average (fs_arenas s i)"
  define p where "p = foldl (\<lambda>m i. if ?p i > m then ?p i else m) 0 [0..<3]"
  define v where "v = foldl (\<lambda>m i. if ?v i > m then ?v i else m) 0 [0..<3]"
  define ob where "ob = (if p > v then p else v)"
  have bnd: "unat (?p i) \<le> 3 * 2 ^ 28 \<and> unat (?v i) \<le> 3 * 2 ^ 28" if "i < 3" for i
    using inv that average_bound by (simp add: frame_inv_def arena_ok_def sizes_ok_def)
  have P: "(\<forall>i<3. unat (?p i) \<le> unat p)" "unat p \<le> 3 * 2 ^ 28"
    using fold_max_word[OF p_def] bnd by auto
  have V: "(\<forall>i<3. unat (?v i) \<le> unat v)" "unat v \<le> 3 * 2 ^ 28"
    using fold_max_word[OF v_def] bnd by auto
  have ob: "unat p \<le> unat ob" "unat v \<le> unat ob" "unat ob \<le> 3 * 2 ^ 28"
    using P(2) V(2) by (auto simp: ob_def word_less_nat_alt)
  have rec: "unat (ob + ob div 4) = unat ob + unat ob div 4"
    using unat_add_small[of ob "ob div 4"] ob(3) by (simp add: unat_div)
  let ?R = "(ob + ob div 4 + 16 * 1024 * 1024 - 1) div (16 * 1024 * 1024) * (16 * 1024 * 1024)"
  have R: "unat ?R = round_16mb (unat ob + unat ob div 4)"
    using round_16mb_word[of "ob + ob div 4"] rec ob(3) by simp
  have eq: "lgx_frame_arena_get_recommended_size s =
      (let r1 = (if ?R < FRAME_ARENA_MIN_SIZE then FRAME_ARENA_MIN_SIZE else ?R)
       in if r1 > FRAME_ARENA_MAX_SIZE then FRAME_ARENA_MAX_SIZE else r1)"
    using inv unfolding lgx_frame_arena_get_recommended_size_def Let_def p_def v_def ob_def frame_inv_def frame_counts
    by (simp only: not_True_eq_False if_False)
  have "unat (let r1 = (if x < FRAME_ARENA_MIN_SIZE then FRAME_ARENA_MIN_SIZE else x)
       in if r1 > FRAME_ARENA_MAX_SIZE then FRAME_ARENA_MAX_SIZE else r1) = min (2 ^ 28) (max (2 ^ 24) (unat x))" for x
    unfolding Let_def by (simp add: word_less_nat_alt FRAME_ARENA_MIN_SIZE_def FRAME_ARENA_MAX_SIZE_def)
  from this[of ?R]
  have "unat (lgx_frame_arena_get_recommended_size s) = min (2 ^ 28) (max (2 ^ 24) (round_16mb (unat ob + unat ob div 4)))"
    unfolding eq R .
  then show ?thesis using P(1) V(1) ob(1,2) by (intro exI[of _ "unat ob"]) (auto intro: order_trans)
qed

text \<open>
  The recommended arena size is a multiple of 16 MB between 16 MB and 256 MB and leaves a quarter
  of headroom over the peak and the average usage of every arena, unless it is the maximum.
\<close>

theorem frame_recommended_size:
  assumes run: "frame_run dbg s LV" and r: "r = unat (lgx_frame_arena_get_recommended_size s)"
  shows "2 ^ 24 dvd r \<and> 2 ^ 24 \<le> r \<and> r \<le> 2 ^ 28 \<and>
    (r < 2 ^ 28 \<longrightarrow> (\<forall>i<3. 5 * unat (fa_peak_usage (fs_arenas s i)) div 4 \<le> r \<and>
       5 * unat (fa_rolling_average (fs_arenas s i)) div 4 \<le> r))"
proof -
  obtain m where m: "\<And>i. i < 3 \<Longrightarrow> unat (fa_peak_usage (fs_arenas s i)) \<le> m"
    "\<And>i. i < 3 \<Longrightarrow> unat (fa_rolling_average (fs_arenas s i)) \<le> m"
    and v: "r = min (2 ^ 28) (max (2 ^ 24) (round_16mb (m + m div 4)))"
    using recommended_value[OF frame_run_inv[OF run]] r by blast
  have "5 * n div 4 \<le> r" if "n \<le> m" "r < 2 ^ 28" for n
  proof -
    have "5 * n div 4 \<le> m + m div 4" using that(1) by linarith
    also have "\<dots> \<le> round_16mb (m + m div 4)" by (rule round_16mb_ge)
    also have "\<dots> \<le> r" using v that(2) by linarith
    finally show ?thesis .
  qed
  moreover have "2 ^ 24 dvd r" unfolding v round_16mb_def min_def max_def by simp
  ultimately show ?thesis using m v by auto
qed

theorem frame_recommended_size_witness:
  "\<exists>r. r = unat (lgx_frame_arena_get_recommended_size demo_frame) \<and> 2 ^ 24 dvd r \<and> 2 ^ 24 \<le> r \<and> r \<le> 2 ^ 28"
  using frame_recommended_size[OF demo_run refl] by blast

end
