(* ===== verification/Simd_Ops.thy ===== *)
theory Simd_Ops
  imports LGX_Prelude
begin

text \<open>
  The slot scans of \<^verbatim>\<open>src/runtime/lgx_simd_ops.c\<close>: searching, testing and counting the
  non-\<open>NULL\<close> entries of a pointer array, with AVX2 four lanes at a time or one by one. An array is a
  function from indices to optional pointers, \<open>count\<close> its length. The vector instructions are
  modelled on four lanes: \<open>cmpeq\<close> yields all ones or zero per lane and \<open>movemask\<close> collects the
  sign bits.
\<close>

section \<open>CPU features\<close>

record simd_state =
  cpu_has_avx2 :: bool
  cpu_features_detected :: bool

text \<open>\<open>cpuid\<close> is what \<open>__get_cpuid_count(7, 0, \<dots>)\<close> reports: \<open>EBX\<close>, if the leaf exists.\<close>

definition lgx_simd_detect_features :: "u32 option \<Rightarrow> simd_state \<Rightarrow> simd_state" where
  "lgx_simd_detect_features cpuid s =
     (if cpu_features_detected s then s
      else (case cpuid of
              Some ebx \<Rightarrow> s\<lparr>cpu_has_avx2 := (ebx AND push_bit 5 1 \<noteq> 0), cpu_features_detected := True\<rparr>
            | None \<Rightarrow> s\<lparr>cpu_features_detected := True\<rparr>))"

definition lgx_simd_has_avx2 :: "u32 option \<Rightarrow> simd_state \<Rightarrow> bool \<times> simd_state" where
  "lgx_simd_has_avx2 cpuid s =
     (let s1 = (if cpu_features_detected s then s else lgx_simd_detect_features cpuid s)
      in (cpu_has_avx2 s1, s1))"

section \<open>Vector instructions\<close>

definition cmpeq_null :: "(nat \<Rightarrow> 'a option) \<Rightarrow> nat \<Rightarrow> u64 list" where
  "cmpeq_null slots i = map (\<lambda>j. if slots (i + j) = None then - 1 else 0) [0..<4]"

definition movemask_pd :: "u64 list \<Rightarrow> u32" where
  "movemask_pd lanes = (\<Sum>j<4. if bit (lanes ! j) 63 then push_bit j 1 else 0)"

definition popcount :: "u32 \<Rightarrow> nat" where
  "popcount m = length (filter (bit m) [0..<32])"

definition null_mask :: "(nat \<Rightarrow> 'a option) \<Rightarrow> nat \<Rightarrow> u32" where
  "null_mask slots i = movemask_pd (cmpeq_null slots i)"

section \<open>Search\<close>

function find_scalar :: "(nat \<Rightarrow> 'a option) \<Rightarrow> nat \<Rightarrow> nat \<Rightarrow> int" where
  "find_scalar slots count i =
     (if i < count then (if slots i \<noteq> None then int i else find_scalar slots count (i + 1)) else - 1)"
  by pat_completeness auto
termination
  by (relation "measure (\<lambda>(s, c, i). c - i)") auto

definition lgx_simd_find_nonempty_slot_scalar :: "(nat \<Rightarrow> 'a option) \<Rightarrow> nat \<Rightarrow> int" where
  "lgx_simd_find_nonempty_slot_scalar slots count = find_scalar slots count 0"

text \<open>The inner loop over the four lanes; \<open>None\<close> if it runs to its end.\<close>

fun find_lane :: "(nat \<Rightarrow> 'a option) \<Rightarrow> nat \<Rightarrow> nat \<Rightarrow> nat list \<Rightarrow> int option" where
  "find_lane slots count i [] = None"
| "find_lane slots count i (j # js) =
     (if i + j < count then
        if slots (i + j) \<noteq> None then Some (int (i + j)) else find_lane slots count i js
      else None)"

function find_avx2 :: "(nat \<Rightarrow> 'a option) \<Rightarrow> nat \<Rightarrow> nat \<Rightarrow> int" where
  "find_avx2 slots count i =
     (if i + 3 < count then
        if null_mask slots i \<noteq> 0xF then
          (case find_lane slots count i [0..<4] of
             Some r \<Rightarrow> r
           | None \<Rightarrow> find_avx2 slots count (i + 4))
        else find_avx2 slots count (i + 4)
      else find_scalar slots count i)"
  by pat_completeness auto
termination
  by (relation "measure (\<lambda>(s, c, i). c - i)") auto

definition lgx_simd_find_nonempty_slot_avx2 :: "(nat \<Rightarrow> 'a option) \<Rightarrow> nat \<Rightarrow> int" where
  "lgx_simd_find_nonempty_slot_avx2 slots count = find_avx2 slots count 0"

definition lgx_simd_find_nonempty_slot :: "bool \<Rightarrow> (nat \<Rightarrow> 'a option) \<Rightarrow> nat \<Rightarrow> int" where
  "lgx_simd_find_nonempty_slot avx2 slots count =
     (if avx2 then lgx_simd_find_nonempty_slot_avx2 slots count
      else lgx_simd_find_nonempty_slot_scalar slots count)"

section \<open>All \<open>NULL\<close>\<close>

function all_null_scalar :: "(nat \<Rightarrow> 'a option) \<Rightarrow> nat \<Rightarrow> nat \<Rightarrow> bool" where
  "all_null_scalar slots count i =
     (if i < count then (if slots i \<noteq> None then False else all_null_scalar slots count (i + 1)) else True)"
  by pat_completeness auto
termination
  by (relation "measure (\<lambda>(s, c, i). c - i)") auto

definition lgx_simd_all_null_scalar :: "(nat \<Rightarrow> 'a option) \<Rightarrow> nat \<Rightarrow> bool" where
  "lgx_simd_all_null_scalar slots count = all_null_scalar slots count 0"

function all_null_avx2 :: "(nat \<Rightarrow> 'a option) \<Rightarrow> nat \<Rightarrow> nat \<Rightarrow> bool" where
  "all_null_avx2 slots count i =
     (if i + 3 < count then
        if null_mask slots i \<noteq> 0xF then False else all_null_avx2 slots count (i + 4)
      else all_null_scalar slots count i)"
  by pat_completeness auto
termination
  by (relation "measure (\<lambda>(s, c, i). c - i)") auto

definition lgx_simd_all_null_avx2 :: "(nat \<Rightarrow> 'a option) \<Rightarrow> nat \<Rightarrow> bool" where
  "lgx_simd_all_null_avx2 slots count = all_null_avx2 slots count 0"

definition lgx_simd_all_null :: "bool \<Rightarrow> (nat \<Rightarrow> 'a option) \<Rightarrow> nat \<Rightarrow> bool" where
  "lgx_simd_all_null avx2 slots count =
     (if avx2 then lgx_simd_all_null_avx2 slots count else lgx_simd_all_null_scalar slots count)"

section \<open>Counting\<close>

function count_scalar :: "(nat \<Rightarrow> 'a option) \<Rightarrow> nat \<Rightarrow> nat \<Rightarrow> nat \<Rightarrow> nat" where
  "count_scalar slots count i tot =
     (if i < count then count_scalar slots count (i + 1) (if slots i \<noteq> None then tot + 1 else tot) else tot)"
  by pat_completeness auto
termination
  by (relation "measure (\<lambda>(s, c, i, t). c - i)") auto

definition lgx_simd_count_nonempty_scalar :: "(nat \<Rightarrow> 'a option) \<Rightarrow> nat \<Rightarrow> nat" where
  "lgx_simd_count_nonempty_scalar slots count = count_scalar slots count 0 0"

function count_avx2 :: "(nat \<Rightarrow> 'a option) \<Rightarrow> nat \<Rightarrow> nat \<Rightarrow> nat \<Rightarrow> nat" where
  "count_avx2 slots count i tot =
     (if i + 3 < count then count_avx2 slots count (i + 4) (tot + (4 - popcount (null_mask slots i)))
      else count_scalar slots count i tot)"
  by pat_completeness auto
termination
  by (relation "measure (\<lambda>(s, c, i, t). c - i)") auto

definition lgx_simd_count_nonempty_avx2 :: "(nat \<Rightarrow> 'a option) \<Rightarrow> nat \<Rightarrow> nat" where
  "lgx_simd_count_nonempty_avx2 slots count = count_avx2 slots count 0 0"

definition lgx_simd_count_nonempty :: "bool \<Rightarrow> (nat \<Rightarrow> 'a option) \<Rightarrow> nat \<Rightarrow> nat" where
  "lgx_simd_count_nonempty avx2 slots count =
     (if avx2 then lgx_simd_count_nonempty_avx2 slots count else lgx_simd_count_nonempty_scalar slots count)"

declare find_scalar.simps [simp del] find_avx2.simps [simp del] all_null_scalar.simps [simp del]
  all_null_avx2.simps [simp del] count_scalar.simps [simp del] count_avx2.simps [simp del]

section \<open>The mask\<close>

lemma upt4: "[0..<4] = [0, 1, 2, 3 :: nat]" by (simp add: upt_rec)

lemma all4: "(\<forall>j<4. P j) \<longleftrightarrow> P 0 \<and> P 1 \<and> P 2 \<and> P (3 :: nat)"
  by (auto simp: less_Suc_eq numeral_eq_Suc)

lemma null_mask_bit: "bit (null_mask slots i) j \<longleftrightarrow> j < 4 \<and> slots (i + j) = None"
proof -
  have e: "null_mask slots i =
    (if slots i = None then 1 else 0) + (if slots (i + 1) = None then 2 else 0) +
    (if slots (i + 2) = None then 4 else 0) + (if slots (i + 3) = None then 8 else 0)"
    by (simp add: null_mask_def movemask_pd_def cmpeq_null_def upt4 lessThan_nat_numeral lessThan_Suc
        push_bit_eq_mult numeral_3_eq_3 numeral_2_eq_2)
  consider "j = 0" | "j = 1" | "j = 2" | "j = 3" | "4 \<le> j" by linarith
  then show ?thesis
  proof cases
    case 5
    have "unat (null_mask slots i) < 2 ^ 4" unfolding e by (auto simp: unsigned_numeral)
    also have "2 ^ 4 \<le> (2 ^ j :: nat)" using 5 by (intro power_increasing) auto
    finally have "\<not> bit (unat (null_mask slots i)) j" by (simp add: bit_iff_odd)
    then have "\<not> bit (null_mask slots i) j" by (simp add: bit_unsigned_iff)
    then show ?thesis using 5 by simp
  qed (auto simp: e bit_iff_odd)
qed

lemma null_mask_full: "null_mask slots i = 0xF \<longleftrightarrow> (\<forall>j<4. slots (i + j) = None)"
proof -
  have m: "(0xF :: u32) = mask 4" by (simp add: mask_eq_exp_minus_1)
  have "null_mask slots i = mask 4 \<longleftrightarrow> (\<forall>j<32. bit (null_mask slots i) j = bit (mask 4 :: u32) j)"
    by (simp add: bit_eq_iff)
  also have "\<dots> \<longleftrightarrow> (\<forall>j<4. slots (i + j) = None)"
  proof
    assume a: "\<forall>j<32. bit (null_mask slots i) j = bit (mask 4 :: u32) j"
    show "\<forall>j<4. slots (i + j) = None"
    proof (intro allI impI)
      fix j :: nat assume "j < 4"
      then show "slots (i + j) = None" using a[rule_format, of j] by (simp add: null_mask_bit bit_mask_iff)
    qed
  qed (auto simp: null_mask_bit bit_mask_iff)
  finally show ?thesis unfolding m .
qed

lemma popcount_null_mask: "popcount (null_mask slots i) = card {j. j < 4 \<and> slots (i + j) = None}"
proof -
  have "{j. j < 32 \<and> bit (null_mask slots i) j} = {j. j < 4 \<and> slots (i + j) = None}"
    by (auto simp: null_mask_bit)
  then show ?thesis unfolding popcount_def by (subst distinct_card[symmetric]) (simp_all add: conj_commute)
qed

section \<open>Equivalence\<close>

lemma find_scalar_skip:
  "n \<le> count - i \<Longrightarrow> (\<forall>j<n. slots (i + j) = None) \<Longrightarrow> find_scalar slots count i = find_scalar slots count (i + n)"
proof (induction n)
  case (Suc n)
  then have "find_scalar slots count i = find_scalar slots count (i + n)" by simp
  moreover have "i + n < count" using Suc.prems(1) by linarith
  ultimately show ?case using Suc.prems(2) by (simp add: find_scalar.simps[of slots count "i + n"])
qed simp

lemma find_lane_scalar:
  "i + 3 < count \<Longrightarrow> (case find_lane slots count i [0..<4] of
      Some r \<Rightarrow> r = find_scalar slots count i
    | None \<Rightarrow> \<forall>j<4. slots (i + j) = None)"
  using find_scalar.simps[of slots count i] find_scalar.simps[of slots count "i + 1"]
    find_scalar.simps[of slots count "i + 2"] find_scalar.simps[of slots count "i + 3"]
  by (auto simp: upt4 eval_nat_numeral less_Suc_eq)

lemma find_avx2_scalar: "find_avx2 slots count i = find_scalar slots count i"
proof (induction slots count i rule: find_avx2.induct)
  case (1 slots count i)
  show ?case
  proof (cases "i + 3 < count")
    case True
    have skip: "find_scalar slots count (i + 4) = find_scalar slots count i" if "\<forall>j<4. slots (i + j) = None"
      using find_scalar_skip[of 4 count i slots] True that by simp
    show ?thesis
      using find_lane_scalar[OF True, of slots] True 1 skip null_mask_full[of slots i]
      by (subst find_avx2.simps) (auto split: option.splits)
  qed (simp add: find_avx2.simps)
qed

lemma all_null_scalar_iff: "all_null_scalar slots count i \<longleftrightarrow> (\<forall>j. i \<le> j \<longrightarrow> j < count \<longrightarrow> slots j = None)"
proof (induction slots count i rule: all_null_scalar.induct)
  case (1 slots count i)
  show ?case
  proof (cases "i < count \<and> slots i = None")
    case True
    then have "all_null_scalar slots count i \<longleftrightarrow> all_null_scalar slots count (i + 1)"
      by (subst all_null_scalar.simps) simp
    also have "\<dots> \<longleftrightarrow> (\<forall>j. i + 1 \<le> j \<longrightarrow> j < count \<longrightarrow> slots j = None)" using True 1 by simp
    also have "\<dots> \<longleftrightarrow> (\<forall>j. i \<le> j \<longrightarrow> j < count \<longrightarrow> slots j = None)" using True
      by (metis Suc_eq_plus1 Suc_leI le_neq_implies_less le_Suc_eq Suc_le_lessD less_imp_le)
    finally show ?thesis .
  next
    case False
    then show ?thesis by (subst all_null_scalar.simps) auto
  qed
qed

lemma all_null_avx2_scalar: "all_null_avx2 slots count i = all_null_scalar slots count i"
proof (induction slots count i rule: all_null_avx2.induct)
  case (1 slots count i)
  show ?case
  proof (cases "i + 3 < count")
    case True
    have "(\<forall>j. i \<le> j \<longrightarrow> j < count \<longrightarrow> slots j = None) \<longleftrightarrow>
        (\<forall>j<4. slots (i + j) = None) \<and> (\<forall>j. i + 4 \<le> j \<longrightarrow> j < count \<longrightarrow> slots j = None)"
    proof safe
      fix j assume a: "\<forall>j<4. slots (i + j) = None" "\<forall>j. i + 4 \<le> j \<longrightarrow> j < count \<longrightarrow> slots j = None"
        "i \<le> j" "j < count"
      then show "slots j = None" using a(1)[rule_format, of "j - i"] by (cases "j < i + 4") auto
    qed (use True in auto)
    then show ?thesis using 1 True null_mask_full[of slots i]
      by (subst all_null_avx2.simps) (auto simp: all_null_scalar_iff)
  qed (simp add: all_null_avx2.simps)
qed

lemma count_scalar_card:
  "count_scalar slots count i tot = tot + card {j. i \<le> j \<and> j < count \<and> slots j \<noteq> None}"
proof (induction slots count i tot rule: count_scalar.induct)
  case (1 slots count i tot)
  show ?case
  proof (cases "i < count")
    case True
    have "{j. i \<le> j \<and> j < count \<and> slots j \<noteq> None} =
        (if slots i \<noteq> None then {i} else {}) \<union> {j. i + 1 \<le> j \<and> j < count \<and> slots j \<noteq> None}"
      using True by (auto simp: Suc_le_eq le_less)
    then have "card {j. i \<le> j \<and> j < count \<and> slots j \<noteq> None} =
        (if slots i \<noteq> None then 1 else 0) + card {j. i + 1 \<le> j \<and> j < count \<and> slots j \<noteq> None}"
      by auto
    then show ?thesis using 1[OF True] True by (subst count_scalar.simps) simp
  qed (simp add: count_scalar.simps)
qed

lemma count_lanes: "4 - popcount (null_mask slots i) = card {j. i \<le> j \<and> j < i + 4 \<and> slots j \<noteq> None}"
proof -
  let ?N = "{j. j < 4 \<and> slots (i + j) = None}" and ?P = "{j. j < (4::nat) \<and> slots (i + j) \<noteq> None}"
  have "card (?N \<union> ?P) = card ?N + card ?P" by (intro card_Un_disjoint) auto
  moreover have "?N \<union> ?P = {..<4}" by auto
  ultimately have "card ?N + card ?P = 4" by simp
  moreover have "card {j. i \<le> j \<and> j < i + 4 \<and> slots j \<noteq> None} = card ?P"
  proof (rule bij_betw_same_card[symmetric], rule bij_betw_imageI[of "\<lambda>j. i + j"])
    show "(\<lambda>j. i + j) ` ?P = {j. i \<le> j \<and> j < i + 4 \<and> slots j \<noteq> None}"
    proof (intro equalityI subsetI)
      fix j assume "j \<in> {j. i \<le> j \<and> j < i + 4 \<and> slots j \<noteq> None}"
      then show "j \<in> (\<lambda>j. i + j) ` ?P" by (intro image_eqI[of _ _ "j - i"]) auto
    qed auto
  qed simp
  ultimately show ?thesis by (simp add: popcount_null_mask)
qed

lemma count_avx2_card:
  "count_avx2 slots count i tot = tot + card {j. i \<le> j \<and> j < count \<and> slots j \<noteq> None}"
proof (induction slots count i tot rule: count_avx2.induct)
  case (1 slots count i tot)
  show ?case
  proof (cases "i + 3 < count")
    case True
    have "{j. i \<le> j \<and> j < count \<and> slots j \<noteq> None} =
      {j. i \<le> j \<and> j < i + 4 \<and> slots j \<noteq> None} \<union> {j. i + 4 \<le> j \<and> j < count \<and> slots j \<noteq> None}"
      using True by auto
    moreover have "card ({j. i \<le> j \<and> j < i + 4 \<and> slots j \<noteq> None} \<union> {j. i + 4 \<le> j \<and> j < count \<and> slots j \<noteq> None}) =
      card {j. i \<le> j \<and> j < i + 4 \<and> slots j \<noteq> None} + card {j. i + 4 \<le> j \<and> j < count \<and> slots j \<noteq> None}"
      by (intro card_Un_disjoint) auto
    ultimately show ?thesis using 1[OF True] True count_lanes[of slots i]
      by (subst count_avx2.simps) simp
  qed (simp add: count_avx2.simps count_scalar_card)
qed

text \<open>
  C15. With or without AVX2 the scans give the same results.
\<close>

theorem simd_equals_scalar:
  "lgx_simd_find_nonempty_slot True slots count = lgx_simd_find_nonempty_slot False slots count \<and>
   lgx_simd_all_null True slots count = lgx_simd_all_null False slots count \<and>
   lgx_simd_count_nonempty True slots count = lgx_simd_count_nonempty False slots count"
  by (simp add: lgx_simd_find_nonempty_slot_def lgx_simd_find_nonempty_slot_avx2_def
      lgx_simd_find_nonempty_slot_scalar_def lgx_simd_all_null_def lgx_simd_all_null_avx2_def
      lgx_simd_all_null_scalar_def lgx_simd_count_nonempty_def lgx_simd_count_nonempty_avx2_def
      lgx_simd_count_nonempty_scalar_def find_avx2_scalar all_null_avx2_scalar count_avx2_card count_scalar_card)

section \<open>Specification\<close>

text \<open>The search returns the first non-\<open>NULL\<close> slot, or -1 if there is none.\<close>

lemma find_slot_some:
  assumes "slots j \<noteq> None" "j < count" "\<And>k. k < j \<Longrightarrow> slots k = None"
  shows "lgx_simd_find_nonempty_slot avx2 slots count = int j"
proof -
  have "find_scalar slots count 0 = find_scalar slots count (0 + j)"
    using assms by (intro find_scalar_skip) auto
  also have "\<dots> = int j" using assms by (subst find_scalar.simps) simp
  finally show ?thesis
    by (simp add: lgx_simd_find_nonempty_slot_def lgx_simd_find_nonempty_slot_avx2_def
      lgx_simd_find_nonempty_slot_scalar_def find_avx2_scalar)
qed

lemma find_slot_none:
  assumes "\<And>k. k < count \<Longrightarrow> slots k = None"
  shows "lgx_simd_find_nonempty_slot avx2 slots count = - 1"
proof -
  have "find_scalar slots count 0 = find_scalar slots count (0 + count)"
    using assms by (intro find_scalar_skip) auto
  also have "\<dots> = - 1" by (subst find_scalar.simps) simp
  finally show ?thesis
    by (simp add: lgx_simd_find_nonempty_slot_def lgx_simd_find_nonempty_slot_avx2_def
      lgx_simd_find_nonempty_slot_scalar_def find_avx2_scalar)
qed

end
