(* ===== verification/Gpu_Buddy.thy ===== *)
theory Gpu_Buddy
  imports Buddy_Blocks Simd_Ops
begin

text \<open>
  The buddy allocator of the GPU pool (\<^verbatim>\<open>src/runtime/lgx_gpu_pool.c\<close>,
  \<open>size_to_level\<close> to \<open>buddy_shutdown\<close>). Its descriptors live outside the managed memory, in the
  array \<open>all_blocks\<close>: free ones on doubly linked lists per level, merged ones on a stack of dead slots.
  A pointer to a descriptor is the index of its slot. A \<open>realloc\<close> may move the array; the code then
  rebuilds every link from the slots, which the model does too, so indices lose nothing.

  Offsets and sizes are natural numbers (every level size is below \<open>2 ^ 27\<close>); byte and event counters
  keep their 64 bits; the fragmentation ratio, a \<open>float\<close>, is a rational. Prefetches are left out.
  Names that the heap's buddy allocator has too carry the prefix \<open>gpu_\<close>.
\<close>

section \<open>Configuration\<close>

definition MIN_BLOCK_SIZE :: nat where "MIN_BLOCK_SIZE = 256"
definition MAX_BLOCK_SIZE :: nat where "MAX_BLOCK_SIZE = 64 * 1024 * 1024"
definition NUM_BUDDY_LEVELS :: nat where "NUM_BUDDY_LEVELS = 19"

lemmas gpu_consts [lgx_consts] = MIN_BLOCK_SIZE_def MAX_BLOCK_SIZE_def NUM_BUDDY_LEVELS_def

lemma NUM_LEVELS [simp]: "NUM_BUDDY_LEVELS = 19" by (simp add: NUM_BUDDY_LEVELS_def)

section \<open>State\<close>

record gpu_block =
  gk_next :: "nat option"
  gk_prev :: "nat option"
  gk_offset :: nat
  gk_size :: nat
  gk_is_free :: bool
  gk_level :: nat

record gpu_buddy =
  gb_free_lists :: "nat \<Rightarrow> nat option"
  gb_memory :: "nat option"
  gb_total_size :: nat
  gb_mapped_ptr :: "nat option"
  gb_all_blocks :: bool \<comment> \<open>the array exists\<close>
  gb_blocks :: "nat \<Rightarrow> gpu_block" \<comment> \<open>its contents\<close>
  gb_num_blocks :: nat
  gb_max_blocks :: nat
  gb_dead_blocks :: "nat option"
  gb_allocated_bytes :: u64
  gb_peak_allocated_bytes :: u64
  gb_num_allocations :: u64
  gb_num_frees :: u64
  gb_num_coalesces :: u64
  gb_fragmentation_ratio :: rat

definition zero_block :: gpu_block where
  "zero_block = \<lparr>gk_next = None, gk_prev = None, gk_offset = 0, gk_size = 0, gk_is_free = False, gk_level = 0\<rparr>"

definition zero_buddy :: gpu_buddy where
  "zero_buddy = \<lparr>gb_free_lists = (\<lambda>_. None), gb_memory = None, gb_total_size = 0, gb_mapped_ptr = None,
     gb_all_blocks = False, gb_blocks = (\<lambda>_. zero_block), gb_num_blocks = 0, gb_max_blocks = 0,
     gb_dead_blocks = None, gb_allocated_bytes = 0, gb_peak_allocated_bytes = 0, gb_num_allocations = 0,
     gb_num_frees = 0, gb_num_coalesces = 0, gb_fragmentation_ratio = 0\<rparr>"

definition upd_block :: "nat \<Rightarrow> (gpu_block \<Rightarrow> gpu_block) \<Rightarrow> gpu_buddy \<Rightarrow> gpu_buddy" where
  "upd_block i f g = g\<lparr>gb_blocks := (gb_blocks g)(i := f (gb_blocks g i))\<rparr>"

definition gpu_set_head :: "nat \<Rightarrow> nat option \<Rightarrow> gpu_buddy \<Rightarrow> gpu_buddy" where
  "gpu_set_head l p g = g\<lparr>gb_free_lists := (gb_free_lists g)(l := p)\<rparr>"

section \<open>Sizes and levels\<close>

function size_to_level_loop :: "nat \<Rightarrow> nat \<Rightarrow> nat \<Rightarrow> nat" where
  "size_to_level_loop sz block_size level =
     (if block_size < sz \<and> level < NUM_BUDDY_LEVELS - 1
      then size_to_level_loop sz (push_bit 1 block_size) (level + 1) else level)"
  by pat_completeness auto
termination
  by (relation "measure (\<lambda>(s, z, l). NUM_BUDDY_LEVELS - l)") auto

definition size_to_level :: "nat \<Rightarrow> nat" where
  "size_to_level sz = (if sz \<le> MIN_BLOCK_SIZE then 0 else size_to_level_loop sz MIN_BLOCK_SIZE 0)"

definition level_to_size :: "nat \<Rightarrow> nat" where
  "level_to_size level = push_bit level MIN_BLOCK_SIZE"

definition get_buddy_offset :: "nat \<Rightarrow> nat \<Rightarrow> nat" where
  "get_buddy_offset off level = (let block_size = level_to_size level in off XOR block_size)"

lemma level_to_size_eq: "level_to_size l = 256 * 2 ^ l"
  by (simp add: level_to_size_def MIN_BLOCK_SIZE_def push_bit_eq_mult)

lemma level_to_size_mono [simp]: "level_to_size a < level_to_size b \<longleftrightarrow> a < b"
  by (simp add: level_to_size_eq)

section \<open>List operations\<close>

text \<open>Adding a block in front of the free list of its level.\<close>

definition push_free :: "nat \<Rightarrow> gpu_buddy \<Rightarrow> gpu_buddy" where
  "push_free i g =
     (let l = gk_level (gb_blocks g i);
          h = gb_free_lists g l;
          g1 = upd_block i (\<lambda>b. b\<lparr>gk_next := h, gk_prev := None\<rparr>) g;
          g2 = (case h of None \<Rightarrow> g1 | Some j \<Rightarrow> upd_block j (\<lambda>b. b\<lparr>gk_prev := Some i\<rparr>) g1)
      in gpu_set_head l (Some i) g2)"

text \<open>Taking a block off the free list of its level.\<close>

definition unlink_block :: "nat \<Rightarrow> gpu_buddy \<Rightarrow> gpu_buddy" where
  "unlink_block i g =
     (let g1 = (case gk_prev (gb_blocks g i) of
                  Some p \<Rightarrow> upd_block p (\<lambda>b. b\<lparr>gk_next := gk_next (gb_blocks g i)\<rparr>) g
                | None \<Rightarrow> gpu_set_head (gk_level (gb_blocks g i)) (gk_next (gb_blocks g i)) g)
      in (case gk_next (gb_blocks g1 i) of
            Some n \<Rightarrow> upd_block n (\<lambda>b. b\<lparr>gk_prev := gk_prev (gb_blocks g1 i)\<rparr>) g1
          | None \<Rightarrow> g1))"

section \<open>Operations\<close>

definition gpu_buddy_init :: "bool \<Rightarrow> nat \<Rightarrow> lgx_result \<times> gpu_buddy" where
  "gpu_buddy_init calloc_ok sz =
     (let g1 = zero_buddy\<lparr>gb_total_size := sz, gb_max_blocks := 1024, gb_all_blocks := calloc_ok\<rparr>
      in if \<not> calloc_ok then (LGX_ERROR_OUT_OF_MEMORY, g1)
         else
           let max_level = size_to_level sz;
               g2 = upd_block 0 (\<lambda>b. \<lparr>gk_next = None, gk_prev = None, gk_offset = 0, gk_size = sz,
                                       gk_is_free = True, gk_level = max_level\<rparr>) g1
           in (LGX_SUCCESS, (gpu_set_head max_level (Some 0) g2)\<lparr>gb_num_blocks := 1\<rparr>))"

definition rebuild_step :: "gpu_buddy \<Rightarrow> nat \<Rightarrow> gpu_buddy" where
  "rebuild_step g i =
     (if gk_is_free (gb_blocks g i) then push_free i g
      else upd_block i (\<lambda>b. b\<lparr>gk_next := None, gk_prev := None\<rparr>) g)"

definition buddy_rebuild_free_lists :: "gpu_buddy \<Rightarrow> gpu_buddy" where
  "buddy_rebuild_free_lists g =
     foldl rebuild_step
       (g\<lparr>gb_free_lists := (\<lambda>l. if l < NUM_BUDDY_LEVELS then None else gb_free_lists g l)\<rparr>)
       [0..<gb_num_blocks g]"

text \<open>
  \<open>buddy_split\<close>. \<open>ro n\<close> says whether \<open>realloc\<close> to \<open>n\<close> slots succeeds. First the growth of the array
  (\<open>None\<close> if it fails), then the choice of the slot for the buddy, then the split.
\<close>

definition split_reserve :: "(nat \<Rightarrow> bool) \<Rightarrow> gpu_buddy \<Rightarrow> gpu_buddy option" where
  "split_reserve ro g =
     (if gb_dead_blocks g = None \<and> gb_num_blocks g \<ge> gb_max_blocks g then
        let new_max = gb_max_blocks g * 2
        in if ro new_max then Some (buddy_rebuild_free_lists (g\<lparr>gb_max_blocks := new_max\<rparr>)) else None
      else Some g)"

definition take_slot :: "gpu_buddy \<Rightarrow> nat \<times> gpu_buddy" where
  "take_slot g =
     (case gb_dead_blocks g of
        Some d \<Rightarrow> (d, g\<lparr>gb_dead_blocks := gk_next (gb_blocks g d)\<rparr>)
      | None \<Rightarrow> (gb_num_blocks g, g\<lparr>gb_num_blocks := gb_num_blocks g + 1\<rparr>))"

definition split_into :: "nat \<Rightarrow> nat \<Rightarrow> gpu_buddy \<Rightarrow> gpu_buddy" where
  "split_into i buddy g =
     (let new_level = gk_level (gb_blocks g i) - 1;
          new_size = level_to_size new_level;
          g1 = upd_block i (\<lambda>b. b\<lparr>gk_level := new_level, gk_size := new_size\<rparr>) g;
          g2 = upd_block buddy
                 (\<lambda>b. b\<lparr>gk_offset := gk_offset (gb_blocks g1 i) + new_size, gk_size := new_size,
                        gk_level := new_level, gk_is_free := True, gk_next := None, gk_prev := None\<rparr>) g1;
          g3 = upd_block i (\<lambda>b. b\<lparr>gk_next := Some buddy, gk_prev := None\<rparr>) g2;
          g4 = upd_block buddy (\<lambda>b. b\<lparr>gk_next := gb_free_lists g3 new_level, gk_prev := Some i\<rparr>) g3;
          g5 = (case gb_free_lists g4 new_level of
                  Some j \<Rightarrow> upd_block j (\<lambda>b. b\<lparr>gk_prev := Some buddy\<rparr>) g4
                | None \<Rightarrow> g4)
      in gpu_set_head new_level (Some i) g5)"

definition gpu_buddy_split :: "(nat \<Rightarrow> bool) \<Rightarrow> nat \<Rightarrow> gpu_buddy \<Rightarrow> nat option \<times> gpu_buddy" where
  "gpu_buddy_split ro i g =
     (if gk_level (gb_blocks g i) = 0 then (None, g)
      else
        (case split_reserve ro g of
           None \<Rightarrow> (None, g)
         | Some g0 \<Rightarrow>
             (case take_slot (unlink_block i g0) of (buddy, g1) \<Rightarrow> (Some i, split_into i buddy g1))))"

text \<open>Only \<open>split_into\<close> changes levels.\<close>

lemma level_upd_block:
  "(\<And>b. gk_level (f b) = gk_level b) \<Longrightarrow> gk_level (gb_blocks (upd_block j f g) i) = gk_level (gb_blocks g i)"
  by (simp add: upd_block_def)

lemma level_push_free [simp]: "gk_level (gb_blocks (push_free j g) i) = gk_level (gb_blocks g i)"
  by (auto simp: push_free_def Let_def upd_block_def gpu_set_head_def split: option.splits)

lemma level_unlink [simp]: "gk_level (gb_blocks (unlink_block j g) i) = gk_level (gb_blocks g i)"
  by (auto simp: unlink_block_def Let_def upd_block_def gpu_set_head_def split: option.splits)

lemma level_rebuild_steps: "gk_level (gb_blocks (foldl rebuild_step g js) i) = gk_level (gb_blocks g i)"
proof (induction js arbitrary: g)
  case (Cons j js)
  have "gk_level (gb_blocks (rebuild_step g j) i) = gk_level (gb_blocks g i)"
    by (auto simp: rebuild_step_def upd_block_def)
  then show ?case using Cons by simp
qed simp

lemma level_reserve: "split_reserve ro g = Some g0 \<Longrightarrow> gk_level (gb_blocks g0 i) = gk_level (gb_blocks g i)"
  by (auto simp: split_reserve_def buddy_rebuild_free_lists_def Let_def level_rebuild_steps split: if_splits)

lemma level_split_into: "gk_level (gb_blocks (split_into i j g) i) = gk_level (gb_blocks g i) - 1"
  by (auto simp: split_into_def Let_def upd_block_def gpu_set_head_def split: option.splits)

lemma split_level:
  "gpu_buddy_split ro i g = (Some j, g') \<Longrightarrow> j = i \<and> gk_level (gb_blocks g' i) < gk_level (gb_blocks g i)"
  by (auto simp: gpu_buddy_split_def take_slot_def level_split_into level_reserve
      split: if_splits option.splits prod.splits)

text \<open>The loop of \<open>buddy_find_free_block\<close> that splits down to the requested level.\<close>

function split_down :: "(nat \<Rightarrow> bool) \<Rightarrow> nat \<Rightarrow> nat option \<Rightarrow> gpu_buddy \<Rightarrow> nat option \<times> gpu_buddy" where
  "split_down ro level p g =
     (case p of
        None \<Rightarrow> (None, g)
      | Some i \<Rightarrow>
          if gk_level (gb_blocks g i) > level
          then (case gpu_buddy_split ro i g of (q, g') \<Rightarrow> split_down ro level q g')
          else (Some i, g))"
  by pat_completeness auto
termination
  by (relation "measure (\<lambda>(ro, level, p, g). case p of None \<Rightarrow> 0 | Some i \<Rightarrow> Suc (gk_level (gb_blocks g i)))")
    (auto split: option.splits prod.splits dest!: split_level)

definition buddy_find_free_block ::
    "bool \<Rightarrow> (nat \<Rightarrow> bool) \<Rightarrow> nat \<Rightarrow> gpu_buddy \<Rightarrow> nat option \<times> gpu_buddy" where
  "buddy_find_free_block avx2 ro level g =
     (case gb_free_lists g level of
        Some i \<Rightarrow> (Some i, g)
      | None \<Rightarrow>
          let num_levels_to_search = NUM_BUDDY_LEVELS - (level + 1)
          in if num_levels_to_search > 0 then
               let found_idx = lgx_simd_find_nonempty_slot avx2 (\<lambda>k. gb_free_lists g (level + 1 + k)) num_levels_to_search
               in if found_idx \<ge> 0
                  then split_down ro level (gb_free_lists g (level + 1 + nat found_idx)) g
                  else (None, g)
             else (None, g))"

text \<open>\<open>buddy_coalesce\<close>: the search for the buddy, one merge, the loop.\<close>

definition find_buddy :: "gpu_buddy \<Rightarrow> nat \<Rightarrow> nat option" where
  "find_buddy g i =
     (let buddy_offset = get_buddy_offset (gk_offset (gb_blocks g i)) (gk_level (gb_blocks g i))
      in find (\<lambda>c. gk_offset (gb_blocks g c) = buddy_offset \<and>
                   gk_level (gb_blocks g c) = gk_level (gb_blocks g i) \<and> gk_is_free (gb_blocks g c))
           [0..<gb_num_blocks g])"

definition merge_pair :: "nat \<Rightarrow> nat \<Rightarrow> gpu_buddy \<Rightarrow> nat \<times> gpu_buddy" where
  "merge_pair i0 j0 g =
     (let g1 = unlink_block j0 (unlink_block i0 g);
          swap = gk_offset (gb_blocks g1 i0) > gk_offset (gb_blocks g1 j0);
          i = (if swap then j0 else i0);
          j = (if swap then i0 else j0);
          g2 = upd_block i (\<lambda>b. b\<lparr>gk_level := gk_level b + 1, gk_size := level_to_size (gk_level b + 1)\<rparr>) g1;
          g3 = upd_block j (\<lambda>b. b\<lparr>gk_is_free := False, gk_next := gb_dead_blocks g2, gk_prev := None\<rparr>) g2;
          g4 = push_free i (g3\<lparr>gb_dead_blocks := Some j\<rparr>)
      in (i, g4\<lparr>gb_num_coalesces := gb_num_coalesces g4 + 1\<rparr>))"

lemma find_buddy_level: "find_buddy g i = Some j \<Longrightarrow> gk_level (gb_blocks g j) = gk_level (gb_blocks g i)"
  by (auto simp: find_buddy_def Let_def find_Some_iff)

lemma merge_level:
  "gk_level (gb_blocks g j) = gk_level (gb_blocks g i) \<Longrightarrow> merge_pair i j g = (m, g') \<Longrightarrow>
     gk_level (gb_blocks g' m) = Suc (gk_level (gb_blocks g i))"
  by (auto simp: merge_pair_def Let_def upd_block_def split: if_splits)

function gpu_buddy_coalesce :: "nat \<Rightarrow> gpu_buddy \<Rightarrow> gpu_buddy" where
  "gpu_buddy_coalesce i g =
     (if gk_level (gb_blocks g i) \<ge> NUM_BUDDY_LEVELS - 1 then g
      else (case find_buddy g i of
              None \<Rightarrow> g
            | Some j \<Rightarrow> (case merge_pair i j g of (m, g') \<Rightarrow> gpu_buddy_coalesce m g')))"
  by pat_completeness auto
termination
  by (relation "measure (\<lambda>(i, g). NUM_BUDDY_LEVELS - gk_level (gb_blocks g i))")
    (use merge_level[OF find_buddy_level] in \<open>auto split: prod.splits\<close>)

text \<open>\<open>buddy_alloc\<close>; the loop raises the level until its size covers the alignment.\<close>

function raise_level :: "nat \<Rightarrow> nat \<Rightarrow> nat" where
  "raise_level alignment level =
     (if level_to_size level < alignment then raise_level alignment (level + 1) else level)"
  by pat_completeness auto
termination
proof (relation "measure (\<lambda>(a, l). a - level_to_size l)")
  fix alignment level
  assume "level_to_size level < alignment"
  moreover have "level_to_size level < level_to_size (level + 1)" by simp
  ultimately show "((alignment, level + 1), alignment, level) \<in> measure (\<lambda>(a, l). a - level_to_size l)"
    by (simp only: in_measure case_prod_conv diff_less_mono2)
qed simp

definition gpu_buddy_alloc ::
    "bool \<Rightarrow> (nat \<Rightarrow> bool) \<Rightarrow> nat \<Rightarrow> nat \<Rightarrow> gpu_buddy \<Rightarrow> nat option \<times> gpu_buddy" where
  "gpu_buddy_alloc avx2 ro sz0 alignment g =
     (if sz0 > MAX_BLOCK_SIZE \<or> alignment > MAX_BLOCK_SIZE then (None, g)
      else
        let sz = (if sz0 < alignment then alignment else sz0);
            level = raise_level alignment (size_to_level sz)
        in (case buddy_find_free_block avx2 ro level g of
              (None, g1) \<Rightarrow> (None, g1)
            | (Some i, g1) \<Rightarrow>
                let g2 = upd_block i (\<lambda>b. b\<lparr>gk_is_free := False, gk_next := None, gk_prev := None\<rparr>) (unlink_block i g1);
                    bytes = gb_allocated_bytes g2 + word_of_nat (gk_size (gb_blocks g2 i))
                in (Some i, g2\<lparr>gb_allocated_bytes := bytes,
                               gb_peak_allocated_bytes := (if bytes > gb_peak_allocated_bytes g2 then bytes
                                                           else gb_peak_allocated_bytes g2),
                               gb_num_allocations := gb_num_allocations g2 + 1\<rparr>)))"

definition gpu_buddy_free :: "nat option \<Rightarrow> gpu_buddy \<Rightarrow> gpu_buddy" where
  "gpu_buddy_free p g =
     (case p of
        None \<Rightarrow> g
      | Some i \<Rightarrow>
          if gk_is_free (gb_blocks g i) then g
          else
            let g1 = upd_block i (\<lambda>b. b\<lparr>gk_is_free := True\<rparr>) g;
                g2 = g1\<lparr>gb_allocated_bytes := gb_allocated_bytes g1 - word_of_nat (gk_size (gb_blocks g1 i)),
                        gb_num_frees := gb_num_frees g1 + 1\<rparr>
            in gpu_buddy_coalesce i (push_free i g2))"

text \<open>\<open>buddy_update_fragmentation\<close>: the walks over the lists, number and bytes of free blocks.\<close>

partial_function (option) gpu_frag_walk ::
    "gpu_buddy \<Rightarrow> nat option \<Rightarrow> nat \<Rightarrow> nat \<Rightarrow> (nat \<times> nat) option" where
  "gpu_frag_walk g p num_free free_bytes =
     (case p of
        None \<Rightarrow> Some (num_free, free_bytes)
      | Some i \<Rightarrow> gpu_frag_walk g (gk_next (gb_blocks g i)) (num_free + 1) (free_bytes + gk_size (gb_blocks g i)))"

fun gpu_frag_levels :: "gpu_buddy \<Rightarrow> nat list \<Rightarrow> nat \<Rightarrow> nat \<Rightarrow> (nat \<times> nat) option" where
  "gpu_frag_levels g [] n b = Some (n, b)"
| "gpu_frag_levels g (l # ls) n b =
     (case gpu_frag_walk g (gb_free_lists g l) n b of None \<Rightarrow> None | Some (n', b') \<Rightarrow> gpu_frag_levels g ls n' b')"

definition buddy_update_fragmentation :: "gpu_buddy \<Rightarrow> gpu_buddy option" where
  "buddy_update_fragmentation g =
     (if gb_allocated_bytes g = 0 then Some (g\<lparr>gb_fragmentation_ratio := 0\<rparr>)
      else
        (case gpu_frag_levels g [0..<NUM_BUDDY_LEVELS] 0 0 of
           None \<Rightarrow> None
         | Some (num_free_blocks, free_bytes) \<Rightarrow>
             if free_bytes > 0 then
               let actual_ratio = of_nat num_free_blocks / of_nat free_bytes;
                   ideal_ratio = 1 / of_nat (gb_total_size g)
               in Some (g\<lparr>gb_fragmentation_ratio := actual_ratio / ideal_ratio\<rparr>)
             else Some (g\<lparr>gb_fragmentation_ratio := 0\<rparr>)))"

definition gpu_buddy_shutdown :: "gpu_buddy \<Rightarrow> gpu_buddy" where
  "gpu_buddy_shutdown g = g\<lparr>gb_all_blocks := False, gb_num_blocks := 0, gb_max_blocks := 0\<rparr>"

declare size_to_level_loop.simps [simp del] split_down.simps [simp del] gpu_buddy_coalesce.simps [simp del]
  raise_level.simps [simp del]

end
