(* ===== verification/Gpu_Buddy_Core.thy ===== *)
theory Gpu_Buddy_Core
  imports Gpu_Buddy
begin

text \<open>
  Correctness of the GPU buddy allocator's building blocks. The free lists are proper doubly linked
  lists, the slots in use tile the managed range, and every operation keeps it so. Slots that an
  operation holds in hand, on no list, form the set \<open>X\<close> of \<open>gpu_core\<close>.
\<close>

section \<open>Doubly linked lists\<close>

primrec dll :: "('a \<Rightarrow> 'a option) \<Rightarrow> ('a \<Rightarrow> 'a option) \<Rightarrow> 'a option \<Rightarrow> 'a option \<Rightarrow> 'a list \<Rightarrow> bool" where
  "dll nx pv q p [] \<longleftrightarrow> p = None"
| "dll nx pv q p (a # as) \<longleftrightarrow> p = Some a \<and> pv a = q \<and> dll nx pv (Some a) (nx a) as"

lemma dll_linked: "dll nx pv q p xs \<Longrightarrow> linked nx p xs"
  by (induction xs arbitrary: q p) auto

lemma dll_distinct: "dll nx pv q p xs \<Longrightarrow> distinct xs"
  using dll_linked linked_distinct by blast

lemma dll_cong:
  "(\<And>a. a \<in> set xs \<Longrightarrow> nx a = nx' a \<and> pv a = pv' a) \<Longrightarrow> dll nx pv q p xs = dll nx' pv' q p xs"
  by (induction xs arbitrary: q p) auto

lemma dll_nth:
  "dll nx pv q p (xs @ a # ys) \<Longrightarrow>
     pv a = (if xs = [] then q else Some (last xs)) \<and> nx a = (case ys of [] \<Rightarrow> None | b # _ \<Rightarrow> Some b)"
proof (induction xs arbitrary: q p)
  case Nil
  then show ?case by (cases ys) auto
next
  case (Cons x xs)
  then have "pv a = (if xs = [] then Some x else Some (last xs))" "nx a = (case ys of [] \<Rightarrow> None | b # _ \<Rightarrow> Some b)"
    using Cons.IH[of "Some x" "nx x"] by auto
  then show ?case by auto
qed

text \<open>Redirecting the two neighbours of \<open>a\<close>.\<close>

lemma dll_skip_head:
  assumes "dll nx pv q (Some a) (a # ys)" "a \<notin> set ys"
  shows "dll nx (case nx a of None \<Rightarrow> pv | Some n \<Rightarrow> pv(n := q')) q' (nx a) ys"
proof (cases ys)
  case Nil
  then show ?thesis using assms by simp
next
  case (Cons b bs)
  have "distinct ys" using dll_distinct[OF assms(1)] by simp
  then have "b \<notin> set bs" using Cons by simp
  then have "dll nx (pv(b := q')) (Some b) (nx b) bs = dll nx pv (Some b) (nx b) bs" by (intro dll_cong) auto
  then show ?thesis using assms Cons by simp
qed

lemma dll_unlink:
  assumes "dll nx pv q p (xs @ a # ys)"
  shows "dll (if xs = [] then nx else nx(last xs := nx a))
      (case nx a of None \<Rightarrow> pv | Some n \<Rightarrow> pv(n := pv a)) q (if xs = [] then nx a else p) (xs @ ys)"
  using assms
proof (induction xs arbitrary: q p)
  case Nil
  then have "a \<notin> set ys" "pv a = q" using dll_distinct[OF Nil] by auto
  then show ?case using dll_skip_head[of nx pv q a ys "pv a"] Nil by simp
next
  case (Cons x xs)
  have d: "distinct ((x # xs) @ a # ys)" using dll_distinct[OF Cons.prems] .
  have nb: "nx a = (case ys of [] \<Rightarrow> None | b # _ \<Rightarrow> Some b)" using dll_nth[OF Cons.prems] by simp
  let ?pv = "case nx a of None \<Rightarrow> pv | Some n \<Rightarrow> pv(n := pv a)"
  have x: "p = Some x" "pv x = q" "dll nx pv (Some x) (nx x) (xs @ a # ys)" using Cons.prems by auto
  have pvx: "?pv x = q" using x(2) d nb by (auto split: list.splits)
  show ?case
  proof (cases "xs = []")
    case True
    have e: "dll (nx(x := nx a)) ?pv (Some x) (nx a) ys = dll nx ?pv (Some x) (nx a) ys"
      using d by (intro dll_cong) auto
    have pva: "pv a = Some x" using x(3) True by simp
    have "dll nx ?pv (Some x) (nx a) ys"
      using dll_skip_head[of nx pv "Some x" a ys "Some x"] x(3) True d unfolding pva by simp
    then show ?thesis using True x(1) pvx e by (simp del: fun_upd_apply add: fun_upd_same)
  next
    case False
    have l: "last xs \<noteq> x" using False d by auto
    have "(nx(last xs := nx a)) x = nx x" using l by simp
    then show ?thesis using Cons.IH[OF x(3)] False x(1) pvx by simp
  qed
qed

lemma dll_push:
  assumes "dll nx pv None h ys" "a \<notin> set ys"
  shows "dll (nx(a := h)) (case h of None \<Rightarrow> pv(a := None) | Some j \<Rightarrow> pv(a := None, j := Some a)) None (Some a) (a # ys)"
proof (cases ys)
  case Nil
  then show ?thesis using assms by simp
next
  case (Cons b bs)
  have "b \<notin> set bs" "a \<noteq> b" using dll_distinct[OF assms(1)] assms(2) Cons by auto
  moreover have "dll (nx(a := h)) (pv(a := None, b := Some a)) (Some b) (nx b) bs = dll nx pv (Some b) (nx b) bs"
    using assms(2) Cons calculation(1) by (intro dll_cong) auto
  ultimately show ?thesis using assms Cons by auto
qed

section \<open>Views of the state\<close>

abbreviation off :: "gpu_buddy \<Rightarrow> nat \<Rightarrow> nat" where "off g i \<equiv> gk_offset (gb_blocks g i)"
abbreviation siz :: "gpu_buddy \<Rightarrow> nat \<Rightarrow> nat" where "siz g i \<equiv> gk_size (gb_blocks g i)"
abbreviation lev :: "gpu_buddy \<Rightarrow> nat \<Rightarrow> nat" where "lev g i \<equiv> gk_level (gb_blocks g i)"
abbreviation fre :: "gpu_buddy \<Rightarrow> nat \<Rightarrow> bool" where "fre g i \<equiv> gk_is_free (gb_blocks g i)"

definition nx :: "gpu_buddy \<Rightarrow> nat \<Rightarrow> nat option" where "nx g i = gk_next (gb_blocks g i)"
definition pv :: "gpu_buddy \<Rightarrow> nat \<Rightarrow> nat option" where "pv g i = gk_prev (gb_blocks g i)"

definition gblk :: "gpu_buddy \<Rightarrow> nat \<Rightarrow> blk" where "gblk g i = (off g i, lev g i)"

text \<open>The two halves before they are linked.\<close>

definition halve :: "nat \<Rightarrow> nat \<Rightarrow> gpu_buddy \<Rightarrow> gpu_buddy" where
  "halve i b g =
     (let k = lev g i - 1
      in upd_block b (\<lambda>c. c\<lparr>gk_offset := off g i + level_to_size k, gk_size := level_to_size k, gk_level := k,
           gk_is_free := True, gk_next := None, gk_prev := None\<rparr>)
         (upd_block i (\<lambda>c. c\<lparr>gk_level := k, gk_size := level_to_size k\<rparr>) g))"

lemma split_into_halve:
  assumes ib: "i \<noteq> b" and h: "gb_free_lists g (lev g i - 1) \<noteq> Some i" "gb_free_lists g (lev g i - 1) \<noteq> Some b"
  shows "split_into i b g = push_free i (push_free b (halve i b g))"
proof (cases "gb_free_lists g (lev g i - 1)")
  case None
  show ?thesis
    unfolding split_into_def push_free_def halve_def Let_def upd_block_def gpu_set_head_def
    using ib None by (simp add: fun_upd_idem_iff fun_upd_twist[OF ib])
next
  case (Some j)
  then have j: "j \<noteq> i" "j \<noteq> b" "i \<noteq> j" "b \<noteq> j" using h by auto
  show ?thesis
    unfolding split_into_def push_free_def halve_def Let_def upd_block_def gpu_set_head_def
    using ib Some j by (simp add: fun_upd_twist[OF ib] fun_upd_twist[OF j(3)] fun_upd_twist[OF j(4)])
qed

lemma unlink_links:
  "nx (unlink_block i g) = (case pv g i of None \<Rightarrow> nx g | Some p \<Rightarrow> (nx g)(p := nx g i))"
  "pv (unlink_block i g) = (case nx g i of None \<Rightarrow> pv g | Some n \<Rightarrow> (pv g)(n := pv g i))"
  "gb_free_lists (unlink_block i g) =
     (case pv g i of None \<Rightarrow> (gb_free_lists g)(lev g i := nx g i) | Some p \<Rightarrow> gb_free_lists g)"
  by (auto simp: unlink_block_def Let_def upd_block_def gpu_set_head_def nx_def pv_def fun_eq_iff split: option.splits)

lemma unlink_static [simp]:
  "off (unlink_block i g) j = off g j" "siz (unlink_block i g) j = siz g j" "fre (unlink_block i g) j = fre g j"
  "gb_num_blocks (unlink_block i g) = gb_num_blocks g" "gb_max_blocks (unlink_block i g) = gb_max_blocks g"
  "gb_total_size (unlink_block i g) = gb_total_size g" "gb_dead_blocks (unlink_block i g) = gb_dead_blocks g"
  "gb_allocated_bytes (unlink_block i g) = gb_allocated_bytes g"
  "gb_peak_allocated_bytes (unlink_block i g) = gb_peak_allocated_bytes g"
  "gb_memory (unlink_block i g) = gb_memory g" "gb_mapped_ptr (unlink_block i g) = gb_mapped_ptr g"
  by (auto simp: unlink_block_def Let_def upd_block_def gpu_set_head_def split: option.splits)

lemma push_links:
  "nx (push_free i g) = (nx g)(i := gb_free_lists g (lev g i))"
  "pv (push_free i g) = (case gb_free_lists g (lev g i) of None \<Rightarrow> (pv g)(i := None) | Some j \<Rightarrow> (pv g)(i := None, j := Some i))"
  "gb_free_lists (push_free i g) = (gb_free_lists g)(lev g i := Some i)"
  by (auto simp: push_free_def Let_def upd_block_def gpu_set_head_def nx_def pv_def fun_eq_iff split: option.splits)

lemma push_static [simp]:
  "off (push_free i g) j = off g j" "siz (push_free i g) j = siz g j" "fre (push_free i g) j = fre g j"
  "gb_num_blocks (push_free i g) = gb_num_blocks g" "gb_max_blocks (push_free i g) = gb_max_blocks g"
  "gb_total_size (push_free i g) = gb_total_size g" "gb_dead_blocks (push_free i g) = gb_dead_blocks g"
  "gb_allocated_bytes (push_free i g) = gb_allocated_bytes g"
  "gb_peak_allocated_bytes (push_free i g) = gb_peak_allocated_bytes g"
  "gb_memory (push_free i g) = gb_memory g" "gb_mapped_ptr (push_free i g) = gb_mapped_ptr g"
  by (auto simp: push_free_def Let_def upd_block_def gpu_set_head_def split: option.splits)

lemma links_other:
  "nx (g\<lparr>gb_dead_blocks := d\<rparr>) = nx g" "pv (g\<lparr>gb_dead_blocks := d\<rparr>) = pv g"
  "nx (g\<lparr>gb_num_blocks := n\<rparr>) = nx g" "pv (g\<lparr>gb_num_blocks := n\<rparr>) = pv g"
  by (simp_all add: fun_eq_iff nx_def pv_def)

lemma gblk_static [simp]: "gblk (unlink_block i g) = gblk g" "gblk (push_free i g) = gblk g"
  by (simp_all add: fun_eq_iff gblk_def)

section \<open>The invariant\<close>

definition fslots :: "(nat \<Rightarrow> nat list) \<Rightarrow> nat set" where
  "fslots F = (\<Union>l. set (F l))"

definition glinks :: "gpu_buddy \<Rightarrow> (nat \<Rightarrow> nat list) \<Rightarrow> nat list \<Rightarrow> bool" where
  "glinks g F D \<longleftrightarrow> (\<forall>l. dll (nx g) (pv g) None (gb_free_lists g l) (F l)) \<and> linked (nx g) (gb_dead_blocks g) D"

definition gslots :: "nat \<Rightarrow> gpu_buddy \<Rightarrow> (nat \<Rightarrow> nat list) \<Rightarrow> nat set \<Rightarrow> nat list \<Rightarrow> nat set \<Rightarrow> bool" where
  "gslots M g F A D X \<longleftrightarrow>
     M \<le> 18 \<and> 0 < gb_max_blocks g \<and> gb_num_blocks g \<le> gb_max_blocks g \<and>
     (\<forall>l. \<forall>i\<in>set (F l). lev g i = l \<and> fre g i) \<and> (\<forall>i\<in>A \<union> set D. \<not> fre g i) \<and>
     (fslots F \<union> A) \<inter> X = {} \<and> (fslots F \<union> A \<union> X) \<inter> set D = {} \<and>
     fslots F \<union> A \<union> X \<union> set D = {..<gb_num_blocks g} \<and>
     inj_on (gblk g) (fslots F \<union> A \<union> X) \<and> tiling level_to_size M (gblk g ` (fslots F \<union> A \<union> X)) \<and>
     (\<forall>i\<in>fslots F \<union> A \<union> X. siz g i = level_to_size (lev g i) \<or> lev g i = M \<and> siz g i = gb_total_size g)"

definition gpu_core :: "nat \<Rightarrow> gpu_buddy \<Rightarrow> (nat \<Rightarrow> nat list) \<Rightarrow> nat set \<Rightarrow> nat list \<Rightarrow> nat set \<Rightarrow> bool" where
  "gpu_core M g F A D X \<longleftrightarrow> glinks g F D \<and> gslots M g F A D X"

lemma glinksD:
  assumes "glinks g F D"
  shows "dll (nx g) (pv g) None (gb_free_lists g l) (F l)" "distinct (F l)" "linked (nx g) (gb_dead_blocks g) D"
proof -
  show d: "dll (nx g) (pv g) None (gb_free_lists g l) (F l)" for l using assms by (simp add: glinks_def)
  show "distinct (F l)" by (rule dll_distinct[OF d])
  show "linked (nx g) (gb_dead_blocks g) D" using assms by (simp add: glinks_def)
qed

lemma fslotsI: "i \<in> set (F l) \<Longrightarrow> i \<in> fslots F" by (auto simp: fslots_def)

lemma gslotsD:
  assumes "gslots M g F A D X"
  shows "M \<le> 18" "0 < gb_max_blocks g" "gb_num_blocks g \<le> gb_max_blocks g"
    "i \<in> set (F l) \<Longrightarrow> lev g i = l" "i \<in> set (F l) \<Longrightarrow> fre g i"
    "i \<in> A \<Longrightarrow> \<not> fre g i" "i \<in> set D \<Longrightarrow> \<not> fre g i"
    "(fslots F \<union> A) \<inter> X = {}" "(fslots F \<union> A \<union> X) \<inter> set D = {}"
    "fslots F \<union> A \<union> X \<union> set D = {..<gb_num_blocks g}"
    "inj_on (gblk g) (fslots F \<union> A \<union> X)" "tiling level_to_size M (gblk g ` (fslots F \<union> A \<union> X))"
    "i \<in> fslots F \<union> A \<union> X \<Longrightarrow> siz g i = level_to_size (lev g i) \<or> lev g i = M \<and> siz g i = gb_total_size g"
  using assms by (auto simp: gslots_def)

lemma gslots_list:
  assumes "gslots M g F A D X" "i \<in> set (F l)"
  shows "lev g i = l \<and> fre g i \<and> i \<in> fslots F \<and> i \<notin> A \<and> i \<notin> X \<and> i \<notin> set D"
proof -
  have i: "i \<in> fslots F" using assms(2) by (rule fslotsI)
  show ?thesis using i gslotsD(4)[OF assms] gslotsD(5)[OF assms] gslotsD(6)[OF assms(1), of i]
      gslotsD(8,9)[OF assms(1)] by blast
qed

lemma gslots_only: "gslots M g F A D X \<Longrightarrow> i \<in> set (F l) \<Longrightarrow> i \<in> set (F k) \<Longrightarrow> k = l"
  using gslotsD(4) by metis

lemma fslots_free: "gslots M g F A D X \<Longrightarrow> i \<in> fslots F \<Longrightarrow> fre g i \<and> i \<in> set (F (lev g i))"
  using gslots_list unfolding fslots_def by fastforce

lemma fslots_remove:
  assumes "gslots M g F A D X" "i \<in> set (F l)" "distinct (F l)"
  shows "fslots (F(l := remove1 i (F l))) = fslots F - {i}"
proof -
  have "i \<notin> set (F k)" if "k \<noteq> l" for k using gslots_only[OF assms(1,2)] that by blast
  moreover have "set (remove1 i (F l)) = set (F l) - {i}" using assms(3) by (rule set_remove1_eq)
  ultimately show ?thesis unfolding fslots_def by (auto split: if_splits)
qed

lemma gcore_unlink:
  assumes c: "gpu_core M g F A D X" and i: "i \<in> set (F l)"
  shows "gpu_core M (unlink_block i g) (F(l := remove1 i (F l))) A D (insert i X)"
proof -
  have gl: "glinks g F D" and gs: "gslots M g F A D X" using c by (simp_all add: gpu_core_def)
  note L = gslots_list[OF gs i]
  have dl: "dll (nx g) (pv g) None (gb_free_lists g l) (F l)" using gl by (simp add: glinks_def)
  obtain xs ys where F: "F l = xs @ i # ys" "i \<notin> set xs" using i by (metis split_list_first)
  have rm: "remove1 i (F l) = xs @ ys" using F by (simp add: remove1_append)
  note N = dll_nth[OF dl[unfolded F(1)]]
  have pvi: "pv g i = (if xs = [] then None else Some (last xs))" using N by simp
  have lists: "dll (nx (unlink_block i g)) (pv (unlink_block i g)) None (gb_free_lists (unlink_block i g) k)
      ((F(l := remove1 i (F l))) k)" for k
  proof (cases "k = l")
    case True
    have e: "nx (unlink_block i g) = (if xs = [] then nx g else (nx g)(last xs := nx g i))"
      "gb_free_lists (unlink_block i g) l = (if xs = [] then nx g i else gb_free_lists g l)"
      using pvi L by (simp_all add: unlink_links)
    show ?thesis using dll_unlink[OF dl[unfolded F(1)]] True by (simp add: rm e unlink_links(2))
  next
    case False
    have near: "a \<notin> set (F k)" if "pv g i = Some a \<or> nx g i = Some a" for a
    proof -
      have "a \<in> set (F l)" using that N F pvi by (auto split: if_splits list.splits)
      then show ?thesis using gslots_only[OF gs] False by blast
    qed
    have "dll (nx (unlink_block i g)) (pv (unlink_block i g)) None (gb_free_lists g k) (F k) =
        dll (nx g) (pv g) None (gb_free_lists g k) (F k)"
      using near by (intro dll_cong) (auto simp: unlink_links split: option.splits)
    then show ?thesis using gl False L by (auto simp: glinks_def unlink_links split: option.splits)
  qed
  have dead: "linked (nx (unlink_block i g)) (gb_dead_blocks (unlink_block i g)) D"
  proof -
    have "a \<notin> set D" if "pv g i = Some a" for a
      using that pvi F gslots_list[OF gs, of a l] by (auto split: if_splits)
    then have "linked (nx (unlink_block i g)) (gb_dead_blocks g) D = linked (nx g) (gb_dead_blocks g) D"
      by (intro linked_cong) (auto simp: unlink_links split: option.splits)
    then show ?thesis using gl by (simp add: glinks_def)
  qed
  have fs: "fslots (F(l := remove1 i (F l))) = fslots F - {i}"
    using fslots_remove[OF gs i dll_distinct[OF dl]] .
  have live: "fslots F - {i} \<union> A \<union> insert i X = fslots F \<union> A \<union> X" using L by blast
  have sub: "set ((F(l := remove1 i (F l))) k) \<subseteq> set (F k)" for k by (auto dest: set_mp[OF set_remove1_subset])
  have "gslots M (unlink_block i g) (F(l := remove1 i (F l))) A D (insert i X)"
    unfolding gslots_def fs live unlink_static level_unlink gblk_static
  proof (intro conjI)
    show "\<forall>k. \<forall>j\<in>set ((F(l := remove1 i (F l))) k). lev g j = k \<and> fre g j"
      using sub gslotsD(4,5)[OF gs] by (meson subsetD)
    show "\<forall>j\<in>A \<union> set D. \<not> fre g j" using gslotsD(6,7)[OF gs] by blast
    show "(fslots F - {i} \<union> A) \<inter> insert i X = {}" using gslotsD(8)[OF gs] L by blast
    show "\<forall>j\<in>fslots F \<union> A \<union> X. siz g j = level_to_size (lev g j) \<or> lev g j = M \<and> siz g j = gb_total_size g"
      using gslotsD(13)[OF gs] by blast
  qed (rule gslotsD[OF gs])+
  then show ?thesis using lists dead by (simp add: gpu_core_def glinks_def)
qed

lemma dlls_push:
  assumes dl: "\<And>l. dll (nx g) (pv g) None (gb_free_lists g l) (F l)"
    and lv: "\<And>l j. j \<in> set (F l) \<Longrightarrow> lev g j = l" and notin: "\<And>l. i \<notin> set (F l)"
  shows "dll (nx (push_free i g)) (pv (push_free i g)) None (gb_free_lists (push_free i g) k) ((F(lev g i := i # F (lev g i))) k)"
proof (cases "k = lev g i")
  case True
  then show ?thesis using dll_push[OF dl[of "lev g i"] notin] by (simp add: push_links)
next
  case False
  have hd: "j \<notin> set (F k)" if "gb_free_lists g (lev g i) = Some j" for j
  proof -
    have "j \<in> set (F (lev g i))" using dl[of "lev g i"] that by (cases "F (lev g i)") auto
    then show ?thesis using lv False by blast
  qed
  have "dll (nx (push_free i g)) (pv (push_free i g)) None (gb_free_lists g k) (F k) =
      dll (nx g) (pv g) None (gb_free_lists g k) (F k)"
    using hd notin[of k] by (intro dll_cong) (auto simp: push_links split: option.splits)
  then show ?thesis using dl False by (simp add: push_links)
qed

lemma gcore_push:
  assumes c: "gpu_core M g F A D X" and i: "i \<in> X" "fre g i" and l: "l = lev g i"
  shows "gpu_core M (push_free i g) (F(l := i # F l)) A D (X - {i})"
proof -
  have gl: "glinks g F D" and gs: "gslots M g F A D X" using c by (simp_all add: gpu_core_def)
  have fresh: "i \<notin> fslots F" "i \<notin> A" "i \<notin> set D" using gslotsD(8,9)[OF gs] i(1) by blast+
  have notin: "i \<notin> set (F k)" for k using fresh(1) by (auto simp: fslots_def)
  have dl: "dll (nx g) (pv g) None (gb_free_lists g k) (F k)" for k using gl by (simp add: glinks_def)
  have "dll (nx (push_free i g)) (pv (push_free i g)) None (gb_free_lists (push_free i g) k) ((F(l := i # F l)) k)" for k
    unfolding l by (rule dlls_push[OF dl gslotsD(4)[OF gs] notin])
  moreover have "linked (nx (push_free i g)) (gb_dead_blocks (push_free i g)) D"
    using gl fresh(3) by (simp add: glinks_def push_links)
  moreover have "gslots M (push_free i g) (F(l := i # F l)) A D (X - {i})"
  proof -
    have fs: "fslots (F(l := i # F l)) = insert i (fslots F)" by (auto simp: fslots_def split: if_splits)
    have live: "insert i (fslots F) \<union> A \<union> (X - {i}) = fslots F \<union> A \<union> X" using i(1) by blast
    show ?thesis unfolding gslots_def fs live push_static level_push_free gblk_static
    proof (intro conjI)
      show "\<forall>k. \<forall>j\<in>set ((F(l := i # F l)) k). lev g j = k \<and> fre g j"
        using gslotsD(4,5)[OF gs] i l by auto
      show "\<forall>j\<in>A \<union> set D. \<not> fre g j" using gslotsD(6,7)[OF gs] by blast
      show "(insert i (fslots F) \<union> A) \<inter> (X - {i}) = {}" using gslotsD(8)[OF gs] by blast
      show "\<forall>j\<in>fslots F \<union> A \<union> X. siz g j = level_to_size (lev g j) \<or> lev g j = M \<and> siz g j = gb_total_size g"
        using gslotsD(13)[OF gs] by blast
    qed (rule gslotsD[OF gs])+
  qed
  ultimately show ?thesis by (simp add: gpu_core_def glinks_def)
qed

section \<open>Geometry\<close>

lemma level_to_size_pow: "level_to_size l = 2 ^ (8 + l)"
  by (simp add: level_to_size_eq power_add)

lemma get_buddy_offset_eq:
  "get_buddy_offset x l = (if odd (x div level_to_size l) then x - level_to_size l else x + level_to_size l)"
  unfolding get_buddy_offset_def Let_def level_to_size_pow by (rule xor_pow2_nat)

interpretation gb: buddy_geometry level_to_size M get_buddy_offset for M
  by unfold_locales (auto simp: get_buddy_offset_eq level_to_size_eq)

lemma level_to_size_pos [simp]: "0 < level_to_size l" by (simp add: level_to_size_eq)

lemma level_to_size_Suc: "level_to_size (Suc l) = 2 * level_to_size l" by (simp add: level_to_size_eq)

lemma tiling_inner_notin:
  assumes "tiling sz hi L" "c \<in> L" "blk_range sz p \<subseteq> blk_range sz c" "blk_range sz p \<noteq> {}"
  shows "p \<notin> L - {c}"
  using tiling_disjoint[OF assms(1) _ assms(2), of p] assms(3,4) by blast

lemma range_nonempty: "blk_range level_to_size b \<noteq> {}"
  by (auto simp: blk_range_def)

section \<open>Slots in hand\<close>

lemma glinks_cong:
  assumes "glinks g F D" and "\<And>i. i \<in> fslots F \<Longrightarrow> nx g' i = nx g i \<and> pv g' i = pv g i"
    and "\<And>i. i \<in> set D \<Longrightarrow> nx g' i = nx g i"
    and "gb_free_lists g' = gb_free_lists g" "gb_dead_blocks g' = gb_dead_blocks g"
  shows "glinks g' F D"
proof -
  have "dll (nx g') (pv g') None (gb_free_lists g l) (F l) = dll (nx g) (pv g) None (gb_free_lists g l) (F l)" for l
    using assms(2) fslotsI[of _ F l] by (intro dll_cong) auto
  moreover have "linked (nx g') (gb_dead_blocks g) D = linked (nx g) (gb_dead_blocks g) D"
    using assms(3) by (intro linked_cong) auto
  ultimately show ?thesis using assms(1,4,5) by (simp add: glinks_def)
qed

lemma nx_upd: "nx (upd_block i f g) = (nx g)(i := gk_next (f (gb_blocks g i)))"
  and pv_upd: "pv (upd_block i f g) = (pv g)(i := gk_prev (f (gb_blocks g i)))"
  by (auto simp: nx_def pv_def upd_block_def)

lemma blocks_upd: "gb_blocks (upd_block i f g) = (gb_blocks g)(i := f (gb_blocks g i))"
  by (simp add: upd_block_def)

lemma upd_block_rest [simp]:
  "gb_free_lists (upd_block i f g) = gb_free_lists g" "gb_dead_blocks (upd_block i f g) = gb_dead_blocks g"
  "gb_num_blocks (upd_block i f g) = gb_num_blocks g" "gb_max_blocks (upd_block i f g) = gb_max_blocks g"
  "gb_total_size (upd_block i f g) = gb_total_size g" "gb_allocated_bytes (upd_block i f g) = gb_allocated_bytes g"
  "gb_peak_allocated_bytes (upd_block i f g) = gb_peak_allocated_bytes g"
  "gb_memory (upd_block i f g) = gb_memory g" "gb_mapped_ptr (upd_block i f g) = gb_mapped_ptr g"
  by (simp_all add: upd_block_def)

text \<open>Handing out a slot, and taking one back: only flags and links of that slot change.\<close>

lemma gcore_handout:
  assumes c: "gpu_core M g F A D X" and i: "i \<in> X"
  shows "gpu_core M (upd_block i (\<lambda>b. b\<lparr>gk_is_free := False, gk_next := None, gk_prev := None\<rparr>) g) F (insert i A) D (X - {i})"
    (is "gpu_core M ?g F _ D _")
proof -
  have gl: "glinks g F D" and gs: "gslots M g F A D X" using c by (simp_all add: gpu_core_def)
  have fresh: "i \<notin> fslots F" "i \<notin> A" "i \<notin> set D" using gslotsD(8,9)[OF gs] i(1) by blast+
  have "glinks ?g F D" using fresh by (intro glinks_cong[OF gl]) (auto simp: nx_upd pv_upd)
  moreover have "gslots M ?g F (insert i A) D (X - {i})"
  proof -
    have live: "fslots F \<union> insert i A \<union> (X - {i}) = fslots F \<union> A \<union> X" using i by blast
    have st: "gblk ?g = gblk g" "lev ?g j = lev g j" "siz ?g j = siz g j" for j
      by (auto simp: gblk_def blocks_upd fun_eq_iff)
    have fr: "fre ?g j = (j \<noteq> i \<and> fre g j)" for j by (simp add: blocks_upd)
    show ?thesis unfolding gslots_def live st fr upd_block_rest
    proof (intro conjI)
      show "\<forall>l. \<forall>j\<in>set (F l). lev g j = l \<and> j \<noteq> i \<and> fre g j"
        using gslotsD(4,5)[OF gs] fresh(1) fslotsI[of i F] by blast
      show "\<forall>j\<in>insert i A \<union> set D. \<not> (j \<noteq> i \<and> fre g j)" using gslotsD(6,7)[OF gs] by blast
      show "(fslots F \<union> insert i A) \<inter> (X - {i}) = {}" using gslotsD(8)[OF gs] by blast
      show "\<forall>j\<in>fslots F \<union> A \<union> X. siz g j = level_to_size (lev g j) \<or> lev g j = M \<and> siz g j = gb_total_size g"
        using gslotsD(13)[OF gs] by blast
    qed (rule gslotsD[OF gs])+
  qed
  ultimately show ?thesis by (simp add: gpu_core_def)
qed

lemma gcore_give_back:
  assumes c: "gpu_core M g F A D X" and i: "i \<in> A"
  shows "gpu_core M (upd_block i (\<lambda>b. b\<lparr>gk_is_free := True\<rparr>) g) F (A - {i}) D (insert i X)"
    (is "gpu_core M ?g F _ D _")
proof -
  have gl: "glinks g F D" and gs: "gslots M g F A D X" using c by (simp_all add: gpu_core_def)
  have fresh: "i \<notin> fslots F" "i \<notin> set D"
    using gslotsD(6)[OF gs i] fslots_free[OF gs, of i] gslotsD(9)[OF gs] i by blast+
  have "nx ?g = nx g" "pv ?g = pv g" by (auto simp: nx_upd pv_upd nx_def pv_def)
  then have "glinks ?g F D" by (intro glinks_cong[OF gl]) auto
  moreover have "gslots M ?g F (A - {i}) D (insert i X)"
  proof -
    have live: "fslots F \<union> (A - {i}) \<union> insert i X = fslots F \<union> A \<union> X" using i by blast
    have st: "gblk ?g = gblk g" "lev ?g j = lev g j" "siz ?g j = siz g j" for j
      by (auto simp: gblk_def blocks_upd fun_eq_iff)
    have fr: "fre ?g j = (j = i \<or> fre g j)" for j by (simp add: blocks_upd)
    show ?thesis unfolding gslots_def live st fr upd_block_rest
    proof (intro conjI)
      show "\<forall>l. \<forall>j\<in>set (F l). lev g j = l \<and> (j = i \<or> fre g j)" using gslotsD(4,5)[OF gs] by blast
      show "\<forall>j\<in>A - {i} \<union> set D. \<not> (j = i \<or> fre g j)" using gslotsD(6,7)[OF gs] fresh(2) by blast
      show "(fslots F \<union> (A - {i})) \<inter> insert i X = {}" using gslotsD(8)[OF gs] fresh(1) by blast
      show "\<forall>j\<in>fslots F \<union> A \<union> X. siz g j = level_to_size (lev g j) \<or> lev g j = M \<and> siz g j = gb_total_size g"
        using gslotsD(13)[OF gs] by blast
    qed (rule gslotsD[OF gs])+
  qed
  ultimately show ?thesis by (simp add: gpu_core_def)
qed

lemma gslots_wf: "gslots M g F A D X \<Longrightarrow> i \<in> fslots F \<union> A \<union> X \<Longrightarrow> wf_blk level_to_size M (gblk g i)"
  using tiling_wf gslotsD(12) by blast

section \<open>Splitting\<close>

lemma halve_fields:
  assumes "i \<noteq> b"
  shows "gb_blocks (halve i b g) i = (gb_blocks g i)\<lparr>gk_level := lev g i - 1, gk_size := level_to_size (lev g i - 1)\<rparr>"
    "gblk (halve i b g) b = (off g i + level_to_size (lev g i - 1), lev g i - 1)"
    "siz (halve i b g) b = level_to_size (lev g i - 1)" "fre (halve i b g) b"
    "j \<noteq> i \<Longrightarrow> j \<noteq> b \<Longrightarrow> gb_blocks (halve i b g) j = gb_blocks g j"
    "gb_free_lists (halve i b g) = gb_free_lists g" "gb_dead_blocks (halve i b g) = gb_dead_blocks g"
    "gb_num_blocks (halve i b g) = gb_num_blocks g" "gb_max_blocks (halve i b g) = gb_max_blocks g"
    "gb_total_size (halve i b g) = gb_total_size g" "gb_allocated_bytes (halve i b g) = gb_allocated_bytes g"
    "gb_peak_allocated_bytes (halve i b g) = gb_peak_allocated_bytes g"
  using assms by (auto simp: halve_def Let_def blocks_upd gblk_def)

lemma inj_on_extend:
  assumes "inj_on f S" "\<And>s. s \<in> S \<Longrightarrow> f' s = f s" "f' i \<notin> f ` S" "f' b \<notin> f ` S" "f' i \<noteq> f' b"
  shows "inj_on f' (S \<union> {i, b})"
proof -
  have S: "inj_on f' S" using assms(1,2) inj_on_cong[of S f' f] by blast
  have im: "f' ` S = f ` S" using assms(2) by (rule image_cong[OF refl])
  have "f' b \<notin> f' ` (S - {b})" using assms(4) im by blast
  with S have "inj_on f' (insert b S)" by (simp only: inj_on_insert simp_thms)
  moreover have "f' i \<notin> f' ` (insert b S - {i})" using assms(3,5) im by blast
  ultimately have "inj_on f' (insert i (insert b S))" by (simp only: inj_on_insert simp_thms)
  moreover have "S \<union> {i, b} = insert i (insert b S)" by blast
  ultimately show ?thesis by (simp only:)
qed

text \<open>Splitting the block in hand, with a slot \<open>b\<close> that no list holds.\<close>

lemma gcore_halve:
  assumes c: "gpu_core M g F A D {i}" and k: "lev g i = Suc k" and fr: "fre g i"
    and b: "b \<notin> {..<gb_num_blocks g} \<or> b \<in> set D" and D': "D' = remove1 b D"
    and g': "g' = (halve i b g)\<lparr>gb_dead_blocks := dd, gb_num_blocks := n\<rparr>"
    and dead: "linked (nx g) dd D'" and n: "insert b {..<gb_num_blocks g} = {..<n}" "n \<le> gb_max_blocks g"
  shows "gpu_core M g' F A D' {i, b}" "gblk g' ` (fslots F \<union> A \<union> {i, b}) =
    gblk g ` (fslots F \<union> A \<union> {i}) - {gblk g i} \<union> {(off g i, k), (off g i + level_to_size k, k)}"
proof -
  have gl: "glinks g F D" and gs: "gslots M g F A D {i}" using c by (simp_all add: gpu_core_def)
  let ?S = "fslots F \<union> A"
  have bS: "b \<notin> ?S \<union> {i}" using b gslotsD(9,10)[OF gs] by blast
  have ib: "i \<noteq> b" using bS by blast
  have iS: "i \<notin> ?S" using gslotsD(8)[OF gs] by blast
  note H = halve_fields[OF ib, where g = g]
  have dD: "distinct D" using gl linked_distinct by (auto simp: glinks_def)
  have sD': "set D' = set D - {b}" unfolding D' using dD by (rule set_remove1_eq)
  have new: "gblk g' i = (off g i, k)" "gblk g' b = (off g i + level_to_size k, k)"
    using H(1,2) k by (simp_all add: g' gblk_def)
  have same: "gb_blocks g' j = gb_blocks g j" if "j \<noteq> i" "j \<noteq> b" for j using H(5)[OF that] by (simp add: g')
  have sameS: "gblk g' j = gblk g j" if j: "j \<in> ?S" for j
  proof -
    have "gb_blocks g' j = gb_blocks g j" using j iS bS by (intro same) blast+
    then show ?thesis by (simp add: gblk_def)
  qed
  let ?L = "gblk g ` (?S \<union> {i})"
  note T = gslotsD(12)[OF gs]
  have inL: "gblk g i \<in> ?L" by blast
  have bi: "gblk g i = (off g i, Suc k)" using k by (simp add: gblk_def)
  have kM: "k < M" using gslots_wf[OF gs, of i] bi by (simp add: wf_blk_def)
  have rest: "?L - {gblk g i} = gblk g ` ?S"
    using inj_on_image_set_diff[OF gslotsD(11)[OF gs], of "?S \<union> {i}" "{i}"] iS by auto
  have img: "gblk g' ` (?S \<union> {i, b}) = ?L - {gblk g i} \<union> {(off g i, k), (off g i + level_to_size k, k)}"
    using new sameS rest by (auto simp: image_Un)
  then show "gblk g' ` (fslots F \<union> A \<union> {i, b}) =
    gblk g ` (fslots F \<union> A \<union> {i}) - {gblk g i} \<union> {(off g i, k), (off g i + level_to_size k, k)}" by simp
  have til: "tiling level_to_size M (gblk g' ` (?S \<union> {i, b}))"
    unfolding img bi using gb.tiling_split[OF T[unfolded] _ kM, of "off g i"] inL bi by simp
  have notin: "(off g i, k) \<notin> gblk g ` ?S" "(off g i + level_to_size k, k) \<notin> gblk g ` ?S"
    using tiling_inner_notin[OF T inL, of "(off g i, k)"] tiling_inner_notin[OF T inL, of "(off g i + level_to_size k, k)"]
      gb.range_split[OF kM, of "off g i"] rest range_nonempty bi by auto
  have inj: "inj_on (gblk g') (?S \<union> {i, b})"
    using gslotsD(11)[OF gs] notin new sameS
    by (intro inj_on_extend[of "gblk g"]) (auto intro: inj_on_subset)
  have links: "glinks g' F D'"
  proof -
    have gl': "glinks (g\<lparr>gb_dead_blocks := dd\<rparr>) F D'"
      using gl dead by (simp add: glinks_def links_other)
    have lk: "nx g' j = nx g j \<and> pv g' j = pv g j" if "j \<in> fslots F \<or> j \<in> set D'" for j
    proof -
      have "j \<noteq> i" "j \<noteq> b" using that iS bS sD' gslotsD(9)[OF gs] by blast+
      then show ?thesis using same[of j] by (simp add: nx_def pv_def)
    qed
    show ?thesis
    proof (rule glinks_cong[OF gl'])
      show "gb_free_lists g' = gb_free_lists (g\<lparr>gb_dead_blocks := dd\<rparr>)"
        "gb_dead_blocks g' = gb_dead_blocks (g\<lparr>gb_dead_blocks := dd\<rparr>)" using H(6) by (simp_all add: g')
    qed (use lk in \<open>simp_all add: links_other\<close>)
  qed
  have slots: "gslots M g' F A D' {i, b}"
    unfolding gslots_def
  proof (intro conjI)
    show "M \<le> 18" by (rule gslotsD[OF gs])
    show "0 < gb_max_blocks g'" "gb_num_blocks g' \<le> gb_max_blocks g'"
      using gslotsD(2)[OF gs] n(2) H(9) by (simp_all add: g')
    show "\<forall>l. \<forall>j\<in>set (F l). lev g' j = l \<and> fre g' j"
    proof (intro allI ballI)
      fix l j assume j: "j \<in> set (F l)"
      then have "gb_blocks g' j = gb_blocks g j" using same[of j] fslotsI[of j F l] iS bS by blast
      then show "lev g' j = l \<and> fre g' j" using gslotsD(4)[OF gs j] gslotsD(5)[OF gs j] by simp
    qed
    show "\<forall>j\<in>A \<union> set D'. \<not> fre g' j"
    proof
      fix j assume j: "j \<in> A \<union> set D'"
      then have "j \<noteq> i" "j \<noteq> b" using iS bS sD' gslotsD(9)[OF gs] by blast+
      then show "\<not> fre g' j" using same[of j] j gslotsD(6,7)[OF gs, of j] sD' by auto
    qed
    show "(fslots F \<union> A) \<inter> {i, b} = {}" using iS bS by blast
    show "(fslots F \<union> A \<union> {i, b}) \<inter> set D' = {}" using gslotsD(9)[OF gs] sD' by blast
    show "fslots F \<union> A \<union> {i, b} \<union> set D' = {..<gb_num_blocks g'}"
      using gslotsD(10)[OF gs] n(1) sD' by (simp add: g') blast
    show "\<forall>j\<in>?S \<union> {i, b}. siz g' j = level_to_size (lev g' j) \<or> lev g' j = M \<and> siz g' j = gb_total_size g'"
    proof
      fix j assume "j \<in> ?S \<union> {i, b}"
      then consider "j \<in> ?S" | "j = i" | "j = b" by blast
      then show "siz g' j = level_to_size (lev g' j) \<or> lev g' j = M \<and> siz g' j = gb_total_size g'"
      proof cases
        case 1
        then have "gb_blocks g' j = gb_blocks g j" using same[of j] iS bS by blast
        then show ?thesis using gslotsD(13)[OF gs, of j] 1 H(10) by (simp add: g')
      qed (use H(1,2,3) k in \<open>auto simp: g' gblk_def\<close>)
    qed
  qed (use inj til in auto)
  show "gpu_core M g' F A D' {i, b}" using links slots by (simp add: gpu_core_def)
qed

end
