(* ===== verification/Gpu_Buddy_Ops.thy ===== *)
theory Gpu_Buddy_Ops
  imports Gpu_Buddy_Core
begin

text \<open>
  The operations of the GPU buddy allocator against the tiling of the memory: splitting, merging,
  rebuilding the lists, allocating and freeing.
\<close>

section \<open>Merging two buddies in hand\<close>

definition fuse :: "nat \<Rightarrow> nat \<Rightarrow> gpu_buddy \<Rightarrow> gpu_buddy" where
  "fuse lo hi g =
     (let g1 = upd_block lo (\<lambda>b. b\<lparr>gk_level := gk_level b + 1, gk_size := level_to_size (gk_level b + 1)\<rparr>) g
      in (upd_block hi (\<lambda>b. b\<lparr>gk_is_free := False, gk_next := gb_dead_blocks g1, gk_prev := None\<rparr>) g1)
           \<lparr>gb_dead_blocks := Some hi\<rparr>)"

lemma fuse_fields:
  assumes "lo \<noteq> hi"
  shows "gblk (fuse lo hi g) lo = (off g lo, Suc (lev g lo))" "siz (fuse lo hi g) lo = level_to_size (Suc (lev g lo))"
    "fre (fuse lo hi g) lo = fre g lo" "\<not> fre (fuse lo hi g) hi"
    "nx (fuse lo hi g) = (nx g)(hi := gb_dead_blocks g)" "pv (fuse lo hi g) = (pv g)(hi := None)"
    "j \<noteq> lo \<Longrightarrow> j \<noteq> hi \<Longrightarrow> gb_blocks (fuse lo hi g) j = gb_blocks g j"
    "gb_free_lists (fuse lo hi g) = gb_free_lists g" "gb_dead_blocks (fuse lo hi g) = Some hi"
    "gb_num_blocks (fuse lo hi g) = gb_num_blocks g" "gb_max_blocks (fuse lo hi g) = gb_max_blocks g"
    "gb_total_size (fuse lo hi g) = gb_total_size g" "gb_allocated_bytes (fuse lo hi g) = gb_allocated_bytes g"
    "gb_peak_allocated_bytes (fuse lo hi g) = gb_peak_allocated_bytes g"
  using assms by (auto simp: fuse_def Let_def blocks_upd gblk_def fun_eq_iff nx_def pv_def)

lemma gcore_fuse:
  assumes c: "gpu_core M g F A D {lo, hi}" and k: "lev g lo = k" "lev g hi = k" "k < M"
    and o: "off g hi = get_buddy_offset (off g lo) k" "off g lo < off g hi"
  shows "gpu_core M (fuse lo hi g) F A (hi # D) {lo}"
    "gblk (fuse lo hi g) ` (fslots F \<union> A \<union> {lo}) =
       gblk g ` (fslots F \<union> A \<union> {lo, hi}) - {gblk g lo, gblk g hi} \<union> {(off g lo, Suc k)}"
    "gblk (fuse lo hi g) ` fslots F = gblk g ` fslots F"
proof -
  let ?g = "fuse lo hi g" and ?S = "fslots F \<union> A"
  have gl: "glinks g F D" and gs: "gslots M g F A D {lo, hi}" using c by (simp_all add: gpu_core_def)
  have ne: "lo \<noteq> hi" using o(2) by auto
  note H = fuse_fields[OF ne, where g = g]
  have out: "lo \<notin> ?S" "hi \<notin> ?S" "lo \<notin> set D" "hi \<notin> set D" using gslotsD(8,9)[OF gs] by blast+
  have same: "gb_blocks ?g j = gb_blocks g j" if "j \<in> ?S \<union> set D" for j using H(7)[of j] that out by blast
  then have sameS: "gblk ?g j = gblk g j" if "j \<in> ?S \<union> set D" for j using that by (simp add: gblk_def)
  then show "gblk ?g ` fslots F = gblk g ` fslots F" by (intro image_cong) auto
  let ?L = "gblk g ` (?S \<union> {lo, hi})"
  note T = gslotsD(12)[OF gs]
  have bl: "gblk g lo = (off g lo, k)" "gblk g hi = (get_buddy_offset (off g lo) k, k)" using k o by (simp_all add: gblk_def)
  have wf: "wf_blk level_to_size M (off g lo, k)" using gslots_wf[OF gs, of lo] bl by simp
  have par: "gb.parent_at (off g lo) k = off g lo" using o by (simp add: gb.parent_at_def)
  have rest: "?L - {gblk g lo, gblk g hi} = gblk g ` ?S"
    using inj_on_image_set_diff[OF gslotsD(11)[OF gs], of "?S \<union> {lo, hi}" "{lo, hi}"] out by auto
  have new: "gblk ?g lo = (off g lo, Suc k)" using H(1) k by simp
  have img: "gblk ?g ` (?S \<union> {lo}) = ?L - {gblk g lo, gblk g hi} \<union> {(off g lo, Suc k)}"
  proof -
    have "gblk ?g ` ?S = gblk g ` ?S" using sameS by (intro image_cong) auto
    moreover have "gblk ?g ` (?S \<union> {lo}) = gblk ?g ` ?S \<union> {gblk ?g lo}" by auto
    ultimately show ?thesis unfolding rest using new by (simp only:)
  qed
  then show "gblk (fuse lo hi g) ` (fslots F \<union> A \<union> {lo}) =
       gblk g ` (fslots F \<union> A \<union> {lo, hi}) - {gblk g lo, gblk g hi} \<union> {(off g lo, Suc k)}" .
  have inL: "(off g lo, k) \<in> ?L" "(get_buddy_offset (off g lo) k, k) \<in> ?L" using bl by auto
  have til: "tiling level_to_size M (gblk ?g ` (?S \<union> {lo}))"
    using gb.tiling_merge[OF T inL k(3)] unfolding img bl par .
  have "(off g lo, Suc k) \<notin> gblk g ` ?S"
  proof
    assume "(off g lo, Suc k) \<in> gblk g ` ?S"
    then have a: "(off g lo, Suc k) \<in> ?L" by auto
    show False using gb.tiling_unique_start[OF T inL(1) a] by simp
  qed
  then have inj: "inj_on (gblk ?g) (?S \<union> {lo})"
  proof -
    have S: "inj_on (gblk ?g) ?S"
      using inj_on_subset[OF gslotsD(11)[OF gs], of ?S] inj_on_cong[of ?S "gblk ?g" "gblk g"] sameS by auto
    have "gblk ?g ` ?S = gblk g ` ?S" using sameS by (intro image_cong) auto
    then have "gblk ?g lo \<notin> gblk ?g ` (?S - {lo})" using \<open>(off g lo, Suc k) \<notin> gblk g ` ?S\<close> new by auto
    then have "inj_on (gblk ?g) (insert lo ?S)" using S by (simp only: inj_on_insert simp_thms)
    then show ?thesis by simp
  qed
  have "glinks ?g F (hi # D)"
  proof -
    have "dll (nx ?g) (pv ?g) None (gb_free_lists g l) (F l) = dll (nx g) (pv g) None (gb_free_lists g l) (F l)" for l
    proof (rule dll_cong)
      fix a assume "a \<in> set (F l)"
      then have "a \<noteq> hi" using out(2) fslotsI[of a F l] by blast
      then show "nx ?g a = nx g a \<and> pv ?g a = pv g a" using H(5,6) by simp
    qed
    moreover have "linked (nx ?g) (Some hi) (hi # D)" using gl out(4) H(5) by (simp add: glinks_def)
    ultimately show ?thesis using gl H(8,9) by (simp add: glinks_def)
  qed
  moreover have "gslots M ?g F A (hi # D) {lo}"
    unfolding gslots_def
  proof (intro conjI)
    show "M \<le> 18" by (rule gslotsD[OF gs])
    show "0 < gb_max_blocks ?g" "gb_num_blocks ?g \<le> gb_max_blocks ?g"
      using gslotsD(2,3)[OF gs] H(10,11) by simp_all
    show "\<forall>l. \<forall>j\<in>set (F l). lev ?g j = l \<and> fre ?g j"
    proof (intro allI ballI)
      fix l j assume j: "j \<in> set (F l)"
      then have "gb_blocks ?g j = gb_blocks g j" using fslotsI[of j F l] by (intro same) blast
      then show "lev ?g j = l \<and> fre ?g j" using gslotsD(4)[OF gs j] gslotsD(5)[OF gs j] by simp
    qed
    show "\<forall>j\<in>A \<union> set (hi # D). \<not> fre ?g j"
    proof
      fix j assume "j \<in> A \<union> set (hi # D)"
      then consider "j = hi" | "j \<in> A \<union> set D" by auto
      then show "\<not> fre ?g j" using H(4) same[of j] gslotsD(6,7)[OF gs, of j] by cases auto
    qed
    show "(fslots F \<union> A) \<inter> {lo} = {}" using out by blast
    show "(fslots F \<union> A \<union> {lo}) \<inter> set (hi # D) = {}" using gslotsD(9)[OF gs] out ne by auto
    show "fslots F \<union> A \<union> {lo} \<union> set (hi # D) = {..<gb_num_blocks ?g}"
    proof -
      have "fslots F \<union> A \<union> {lo} \<union> set (hi # D) = fslots F \<union> A \<union> {lo, hi} \<union> set D" by auto
      then show ?thesis using gslotsD(10)[OF gs] H(10) by simp
    qed
    show "\<forall>j\<in>?S \<union> {lo}. siz ?g j = level_to_size (lev ?g j) \<or> lev ?g j = M \<and> siz ?g j = gb_total_size ?g"
    proof
      fix j assume "j \<in> ?S \<union> {lo}"
      then consider "j \<in> ?S" | "j = lo" by blast
      then show "siz ?g j = level_to_size (lev ?g j) \<or> lev ?g j = M \<and> siz ?g j = gb_total_size ?g"
      proof cases
        case 1
        then show ?thesis using same[of j] gslotsD(13)[OF gs, of j] H(12) by auto
      qed (use H(1,2) in \<open>auto simp: gblk_def\<close>)
    qed
  qed (use inj til in auto)
  ultimately show "gpu_core M ?g F A (hi # D) {lo}" by (simp add: gpu_core_def)
qed

section \<open>What an operation keeps of the slots in use\<close>

definition keeps :: "nat set \<Rightarrow> gpu_buddy \<Rightarrow> gpu_buddy \<Rightarrow> bool" where
  "keeps A g g' \<longleftrightarrow> (\<forall>a\<in>A. off g' a = off g a \<and> siz g' a = siz g a \<and> lev g' a = lev g a) \<and>
     gb_total_size g' = gb_total_size g \<and> gb_memory g' = gb_memory g \<and> gb_mapped_ptr g' = gb_mapped_ptr g \<and>
     gb_num_blocks g \<le> gb_num_blocks g'"

lemma keeps_refl [simp]: "keeps A g g" by (simp add: keeps_def)

lemma keeps_trans: "keeps A g g' \<Longrightarrow> keeps A g' g'' \<Longrightarrow> keeps A g g''"
  by (simp add: keeps_def)

lemma keeps_mono: "keeps A g g' \<Longrightarrow> B \<subseteq> A \<Longrightarrow> keeps B g g'"
  by (auto simp: keeps_def)

section \<open>Rebuilding the lists\<close>

definition scan :: "gpu_buddy \<Rightarrow> nat \<Rightarrow> nat \<Rightarrow> nat list" where
  "scan g n l = rev (filter (\<lambda>i. fre g i \<and> lev g i = l) [0..<n])"

lemma scan_set: "set (scan g n l) = {i. i < n \<and> fre g i \<and> lev g i = l}"
  by (auto simp: scan_def)

lemma rebuild_static:
  "off (foldl rebuild_step g js) i = off g i \<and> siz (foldl rebuild_step g js) i = siz g i \<and>
   fre (foldl rebuild_step g js) i = fre g i \<and> gb_num_blocks (foldl rebuild_step g js) = gb_num_blocks g \<and>
   gb_max_blocks (foldl rebuild_step g js) = gb_max_blocks g \<and> gb_total_size (foldl rebuild_step g js) = gb_total_size g \<and>
   gb_dead_blocks (foldl rebuild_step g js) = gb_dead_blocks g \<and>
   gb_allocated_bytes (foldl rebuild_step g js) = gb_allocated_bytes g \<and>
   gb_peak_allocated_bytes (foldl rebuild_step g js) = gb_peak_allocated_bytes g \<and>
   gb_memory (foldl rebuild_step g js) = gb_memory g \<and> gb_mapped_ptr (foldl rebuild_step g js) = gb_mapped_ptr g"
proof (induction js arbitrary: g)
  case (Cons j js)
  show ?case using Cons[of "rebuild_step g j"] by (auto simp: rebuild_step_def blocks_upd)
qed simp

lemma rebuild_lists:
  assumes "\<And>l. gb_free_lists g l = None"
  shows "dll (nx (foldl rebuild_step g [0..<n])) (pv (foldl rebuild_step g [0..<n])) None
    (gb_free_lists (foldl rebuild_step g [0..<n]) l) (scan g n l)"
proof (induction n arbitrary: l)
  case 0
  then show ?case using assms by (simp add: scan_def)
next
  case (Suc n)
  let ?h = "foldl rebuild_step g [0..<n]"
  note st = rebuild_static[of g "[0..<n]"] level_rebuild_steps[of g "[0..<n]"]
  have f: "foldl rebuild_step g [0..<Suc n] = rebuild_step ?h n" by simp
  have notin: "n \<notin> set (scan g n k)" for k by (simp add: scan_set)
  have lv: "lev ?h j = k" if "j \<in> set (scan g n k)" for j k using that st by (simp add: scan_set)
  show ?case
  proof (cases "fre g n")
    case True
    have "scan g (Suc n) = (scan g n)(lev ?h n := n # scan g n (lev ?h n))"
      using True st by (auto simp: scan_def fun_eq_iff)
    moreover have "rebuild_step ?h n = push_free n ?h" using True st by (simp add: rebuild_step_def)
    ultimately show ?thesis unfolding f using dlls_push[OF Suc lv notin] by simp
  next
    case False
    have "scan g (Suc n) l = scan g n l" using False by (simp add: scan_def)
    moreover have "rebuild_step ?h n = upd_block n (\<lambda>b. b\<lparr>gk_next := None, gk_prev := None\<rparr>) ?h"
      using False st by (simp add: rebuild_step_def)
    moreover have "dll (nx (upd_block n (\<lambda>b. b\<lparr>gk_next := None, gk_prev := None\<rparr>) ?h))
        (pv (upd_block n (\<lambda>b. b\<lparr>gk_next := None, gk_prev := None\<rparr>) ?h)) None (gb_free_lists ?h l) (scan g n l) =
        dll (nx ?h) (pv ?h) None (gb_free_lists ?h l) (scan g n l)"
      using notin[of l] by (intro dll_cong) (auto simp: nx_upd pv_upd)
    ultimately show ?thesis unfolding f using Suc[of l] by simp
  qed
qed

lemma core_level: "gpu_core M g F A D X \<Longrightarrow> i \<in> set (F l) \<Longrightarrow> l \<le> M \<and> l < 19"
  using gslots_wf[of M g F A D X i] gslots_list[of M g F A D X i l] gslotsD(1)[of M g F A D X]
  by (auto simp: gpu_core_def gblk_def wf_blk_def)

lemma gslots_cong:
  assumes gs: "gslots M g F A D X" and F: "\<And>l. set (F' l) = set (F l)"
    and st: "\<And>i. off g' i = off g i \<and> siz g' i = siz g i \<and> lev g' i = lev g i \<and> fre g' i = fre g i"
    and rest: "gb_num_blocks g' = gb_num_blocks g" "gb_num_blocks g \<le> gb_max_blocks g'" "gb_total_size g' = gb_total_size g"
    and pos: "0 < gb_max_blocks g'"
  shows "gslots M g' F' A D X"
proof -
  have fs: "fslots F' = fslots F" using F by (simp add: fslots_def)
  have b: "gblk g' = gblk g" using st by (simp add: gblk_def fun_eq_iff)
  show ?thesis unfolding gslots_def fs b rest
  proof (intro conjI)
    show "\<forall>l. \<forall>i\<in>set (F' l). lev g' i = l \<and> fre g' i" using gslotsD(4,5)[OF gs] F st by simp
    show "\<forall>i\<in>A \<union> set D. \<not> fre g' i" using gslotsD(6,7)[OF gs] st by blast
    show "\<forall>i\<in>fslots F \<union> A \<union> X. siz g' i = level_to_size (lev g' i) \<or> lev g' i = M \<and> siz g' i = gb_total_size g"
      using gslotsD(13)[OF gs] st by auto
  qed (use gslotsD[OF gs] rest pos in auto)
qed

lemma free_slots: "gslots M g F A D {} \<Longrightarrow> i < gb_num_blocks g \<Longrightarrow> fre g i \<Longrightarrow> i \<in> set (F (lev g i))"
  using gslotsD(10)[of M g F A D "{}"] gslotsD(6,7)[of M g F A D "{}" i] fslots_free[of M g F A D "{}" i] by blast

lemma core_rebuild:
  assumes c: "gpu_core M g F A [] {}" and mx: "gb_max_blocks g \<le> mx"
  defines "g' \<equiv> buddy_rebuild_free_lists (g\<lparr>gb_max_blocks := mx\<rparr>)"
  shows "gpu_core M g' (scan g (gb_num_blocks g)) A [] {} \<and> (\<forall>l. set (scan g (gb_num_blocks g) l) = set (F l)) \<and>
    (\<forall>i. off g' i = off g i \<and> siz g' i = siz g i \<and> lev g' i = lev g i \<and> fre g' i = fre g i) \<and>
    gb_num_blocks g' = gb_num_blocks g \<and> gb_max_blocks g' = mx \<and> gb_allocated_bytes g' = gb_allocated_bytes g \<and>
    gb_total_size g' = gb_total_size g \<and> gb_memory g' = gb_memory g \<and> gb_mapped_ptr g' = gb_mapped_ptr g"
proof -
  have gl: "glinks g F []" and gs: "gslots M g F A [] {}" using c by (simp_all add: gpu_core_def)
  let ?n = "gb_num_blocks g"
  define g1 where "g1 = (g\<lparr>gb_max_blocks := mx\<rparr>)\<lparr>gb_free_lists := (\<lambda>l. if l < NUM_BUDDY_LEVELS then None else gb_free_lists g l)\<rparr>"
  have e: "g' = foldl rebuild_step g1 [0..<?n]" by (simp add: g'_def buddy_rebuild_free_lists_def g1_def cong: if_cong)
  have "gb_free_lists g1 l = None" for l
  proof (cases "l < 19")
    case False
    then have "F l = []" using core_level[OF c] by (cases "F l") force+
    then show ?thesis using glinksD(1)[OF gl, of l] False by (simp add: g1_def)
  qed (simp add: g1_def)
  note L = rebuild_lists[OF this, of ?n]
  have b1: "gb_blocks g1 = gb_blocks g" by (simp add: g1_def)
  have st: "off g' i = off g i \<and> siz g' i = siz g i \<and> lev g' i = lev g i \<and> fre g' i = fre g i" for i
    unfolding e using rebuild_static[of g1 "[0..<?n]" i] level_rebuild_steps[of g1 "[0..<?n]" i] b1 by simp
  have rest: "gb_num_blocks g' = ?n" "gb_max_blocks g' = mx" "gb_total_size g' = gb_total_size g"
    "gb_dead_blocks g' = gb_dead_blocks g" "gb_allocated_bytes g' = gb_allocated_bytes g"
    "gb_memory g' = gb_memory g" "gb_mapped_ptr g' = gb_mapped_ptr g"
    unfolding e using rebuild_static[of g1 "[0..<?n]"] by (simp_all add: g1_def)
  have sc: "scan g1 ?n = scan g ?n" by (simp add: scan_def b1 fun_eq_iff)
  have sets: "set (scan g ?n l) = set (F l)" for l
  proof -
    have "i < ?n" if "i \<in> set (F l)" for i using gslotsD(10)[OF gs] fslotsI[of i F l] that by blast
    then show ?thesis using gslotsD(4,5)[OF gs] free_slots[OF gs] by (auto simp: scan_set)
  qed
  have "glinks g' (scan g ?n) []" using L gl rest(4) sc by (simp add: glinks_def e)
  moreover have "gslots M g' (scan g ?n) A [] {}"
    using gslotsD(2,3)[OF gs] mx rest by (intro gslots_cong[OF gs sets st]) auto
  ultimately show ?thesis using sets st rest by (simp add: gpu_core_def)
qed

lemma reserve_spec:
  assumes c: "gpu_core M g F A D {}"
  shows "split_reserve ro g = None \<and> (\<exists>n. \<not> ro n) \<or>
    (\<exists>g0 F0. split_reserve ro g = Some g0 \<and> gpu_core M g0 F0 A D {} \<and> (\<forall>l. set (F0 l) = set (F l)) \<and>
       (\<forall>i. off g0 i = off g i \<and> siz g0 i = siz g i \<and> lev g0 i = lev g i \<and> fre g0 i = fre g i) \<and>
       (D = [] \<longrightarrow> gb_num_blocks g0 < gb_max_blocks g0) \<and> gb_num_blocks g0 = gb_num_blocks g \<and>
       gb_allocated_bytes g0 = gb_allocated_bytes g \<and> gb_total_size g0 = gb_total_size g \<and>
       gb_memory g0 = gb_memory g \<and> gb_mapped_ptr g0 = gb_mapped_ptr g)"
proof (cases "gb_dead_blocks g = None \<and> gb_num_blocks g \<ge> gb_max_blocks g")
  case False
  moreover have "D \<noteq> []" if "gb_dead_blocks g \<noteq> None"
    using c that by (auto simp: gpu_core_def glinks_def)
  ultimately show ?thesis using c by (intro disjI2 exI[of _ g] exI[of _ F]) (auto simp: split_reserve_def)
next
  case True
  have D: "D = []" using c True by (simp add: gpu_core_def glinks_def)
  have pos: "0 < gb_max_blocks g" and le: "gb_num_blocks g \<le> gb_max_blocks g"
    using c gslotsD(2,3)[of M g F A D "{}"] by (auto simp: gpu_core_def)
  show ?thesis
  proof (cases "ro (gb_max_blocks g * 2)")
    case False
    then show ?thesis using True by (auto simp: split_reserve_def Let_def)
  next
    case ok: True
    let ?g = "buddy_rebuild_free_lists (g\<lparr>gb_max_blocks := gb_max_blocks g * 2\<rparr>)"
    have "split_reserve ro g = Some ?g" using True ok by (simp add: split_reserve_def Let_def)
    moreover note core_rebuild[OF c[unfolded D], of "gb_max_blocks g * 2"]
    ultimately show ?thesis using D pos le
      by (intro disjI2 exI[of _ ?g] exI[of _ "scan g (gb_num_blocks g)"]) auto
  qed
qed

section \<open>Splitting\<close>

text \<open>The free blocks as ranges of memory.\<close>

definition fblks :: "gpu_buddy \<Rightarrow> (nat \<Rightarrow> nat list) \<Rightarrow> blk set" where
  "fblks g F = gblk g ` fslots F"

lemma fblks_mem: "gslots M g F A D X \<Longrightarrow> (x, l) \<in> fblks g F \<longleftrightarrow> (\<exists>i\<in>set (F l). off g i = x)"
  using gslots_list[of M g F A D X] by (fastforce simp: fblks_def gblk_def fslots_def)

lemma fblks_remove:
  assumes gs: "gslots M g F A D X" and i: "i \<in> fslots F"
  shows "gblk g ` (fslots F - {i}) = fblks g F - {gblk g i}"
proof -
  have "inj_on (gblk g) (fslots F)" by (rule inj_on_subset[OF gslotsD(11)[OF gs]]) blast
  then show ?thesis using i by (simp add: fblks_def inj_on_image_set_diff[of _ "fslots F"])
qed

lemma head_in_list: "glinks g F D \<Longrightarrow> gb_free_lists g l = Some i \<Longrightarrow> i \<in> set (F l)"
  using glinksD(1)[of g F D l] by (cases "F l") auto

lemma halve_other: "halve i b (g\<lparr>gb_dead_blocks := dd, gb_num_blocks := n\<rparr>) = (halve i b g)\<lparr>gb_dead_blocks := dd, gb_num_blocks := n\<rparr>"
  by (simp add: halve_def Let_def upd_block_def)

lemma take_slot_spec:
  assumes c: "gpu_core M g F A D {i}" and room: "D \<noteq> [] \<or> gb_num_blocks g < gb_max_blocks g"
  shows "\<exists>b dd n. take_slot g = (b, g\<lparr>gb_dead_blocks := dd, gb_num_blocks := n\<rparr>) \<and>
    (b \<notin> {..<gb_num_blocks g} \<or> b \<in> set D) \<and> linked (nx g) dd (remove1 b D) \<and>
    insert b {..<gb_num_blocks g} = {..<n} \<and> n \<le> gb_max_blocks g \<and> gb_num_blocks g \<le> n"
proof (cases D)
  case Nil
  have "gb_dead_blocks g = None" using c Nil by (simp add: gpu_core_def glinks_def)
  then show ?thesis using Nil room
    by (intro exI[of _ "gb_num_blocks g"] exI[of _ None] exI[of _ "Suc (gb_num_blocks g)"])
      (simp add: take_slot_def lessThan_Suc)
next
  case (Cons d ds)
  have gl: "linked (nx g) (gb_dead_blocks g) (d # ds)" and gs: "gslots M g F A D {i}"
    using c Cons by (simp_all add: gpu_core_def glinks_def)
  have "d \<in> {..<gb_num_blocks g}" using gslotsD(10)[OF gs] Cons by auto
  then show ?thesis using gl Cons gslotsD(3)[OF gs]
    by (intro exI[of _ d] exI[of _ "nx g d"] exI[of _ "gb_num_blocks g"])
      (simp add: take_slot_def nx_def insert_absorb)
qed

lemma split_spec:
  assumes c: "gpu_core M g F A D {}" and i: "i \<in> set (F (Suc k))"
  shows "gpu_buddy_split ro i g = (None, g) \<and> (\<exists>n. \<not> ro n) \<or>
    (\<exists>g' F' D'. gpu_buddy_split ro i g = (Some i, g') \<and> gpu_core M g' F' A D' {} \<and> i \<in> set (F' k) \<and>
       off g' i = off g i \<and> keeps A g g' \<and> gb_allocated_bytes g' = gb_allocated_bytes g \<and>
       fblks g' F' = fblks g F - {(off g i, Suc k)} \<union> {(off g i, k), (off g i + level_to_size k, k)})"
proof -
  have lv: "lev g i = Suc k" using c i gslots_list[of M g F A D "{}" i "Suc k"] by (simp add: gpu_core_def)
  consider (fail) "split_reserve ro g = None" "\<exists>n. \<not> ro n"
    | (ok) g0 F0 where "split_reserve ro g = Some g0" "gpu_core M g0 F0 A D {}" "\<forall>l. set (F0 l) = set (F l)"
       "\<forall>i. off g0 i = off g i \<and> siz g0 i = siz g i \<and> lev g0 i = lev g i \<and> fre g0 i = fre g i"
       "D = [] \<longrightarrow> gb_num_blocks g0 < gb_max_blocks g0" "gb_num_blocks g0 = gb_num_blocks g"
       "gb_allocated_bytes g0 = gb_allocated_bytes g" "gb_total_size g0 = gb_total_size g"
       "gb_memory g0 = gb_memory g" "gb_mapped_ptr g0 = gb_mapped_ptr g"
    using reserve_spec[OF c, of ro] by (elim disjE exE conjE) blast+
  then show ?thesis
  proof cases
    case fail
    then show ?thesis using lv by (auto simp: gpu_buddy_split_def)
  next
    case ok
    have i0: "i \<in> set (F0 (Suc k))" and st: "lev g0 i = Suc k" "off g0 i = off g i" using ok(3,4) i lv by auto
    define F1 where "F1 = F0(Suc k := remove1 i (F0 (Suc k)))"
    have c1: "gpu_core M (unlink_block i g0) F1 A D {i}" using gcore_unlink[OF ok(2) i0] by (simp add: F1_def)
    have gs0: "gslots M g0 F0 A D {}" and gl0: "glinks g0 F0 D" using ok(2) by (simp_all add: gpu_core_def)
    let ?g1 = "unlink_block i g0"
    obtain b dd n where ts: "take_slot ?g1 = (b, ?g1\<lparr>gb_dead_blocks := dd, gb_num_blocks := n\<rparr>)"
      and b: "b \<notin> {..<gb_num_blocks ?g1} \<or> b \<in> set D" and ln: "linked (nx ?g1) dd (remove1 b D)"
      and n: "insert b {..<gb_num_blocks ?g1} = {..<n}" "n \<le> gb_max_blocks ?g1" "gb_num_blocks ?g1 \<le> n"
      using take_slot_spec[OF c1] ok(5) by fastforce
    let ?g2 = "?g1\<lparr>gb_dead_blocks := dd, gb_num_blocks := n\<rparr>"
    let ?g3 = "halve i b ?g2"
    have fr: "fre ?g1 i" "lev ?g1 i = Suc k" using gslotsD(5)[OF gs0 i0] st by simp_all
    have g3: "?g3 = (halve i b ?g1)\<lparr>gb_dead_blocks := dd, gb_num_blocks := n\<rparr>" by (rule halve_other)
    have c3: "gpu_core M ?g3 F1 A (remove1 b D) {i, b}"
      by (rule gcore_halve(1)[OF c1 fr(2) fr(1) b refl g3 ln n(1,2)])
    have gs1: "gslots M ?g1 F1 A D {i}" and gs3: "gslots M ?g3 F1 A (remove1 b D) {i, b}"
      using c1 c3 by (simp_all add: gpu_core_def)
    have ib: "i \<noteq> b" using b gslotsD(9,10)[OF gs1] by blast
    note H = halve_fields[OF ib, where g = ?g2]
    have f3: "fre ?g3 i" "lev ?g3 i = k" "fre ?g3 b" "lev ?g3 b = k" "off ?g3 i = off g i"
        "off ?g3 b = off g i + level_to_size k"
      using H(1,2,4) fr st by (simp_all add: gblk_def)
    have heads: "gb_free_lists ?g2 (lev ?g2 i - 1) \<noteq> Some i" "gb_free_lists ?g2 (lev ?g2 i - 1) \<noteq> Some b"
    proof -
      have "gb_free_lists ?g2 l = gb_free_lists ?g3 l" for l using H(6) by simp
      moreover have "gb_free_lists ?g3 l \<noteq> Some i \<and> gb_free_lists ?g3 l \<noteq> Some b" for l
        using head_in_list[of ?g3 F1 "remove1 b D" l] c3 gslots_list[OF gs3, of i l] gslots_list[OF gs3, of b l]
        by (auto simp: gpu_core_def)
      ultimately show "gb_free_lists ?g2 (lev ?g2 i - 1) \<noteq> Some i" "gb_free_lists ?g2 (lev ?g2 i - 1) \<noteq> Some b"
        by simp_all
    qed
    let ?g' = "push_free i (push_free b ?g3)"
    have sp: "gpu_buddy_split ro i g = (Some i, ?g')"
      using ok(1) lv ts split_into_halve[OF ib heads] by (simp add: gpu_buddy_split_def)
    define F2 where "F2 = F1(k := b # F1 k)"
    define F' where "F' = F2(k := i # F2 k)"
    have c4: "gpu_core M (push_free b ?g3) F2 A (remove1 b D) {i}"
      using gcore_push[OF c3 _ f3(3), of k] f3(4) ib by (simp add: F2_def insert_Diff_if)
    have c5: "gpu_core M ?g' F' A (remove1 b D) {}"
      using gcore_push[OF c4 _ _, of i k] f3(1,2) by (simp add: F'_def)
    have gs: "gslots M g F A D {}" using c by (simp add: gpu_core_def)
    have fsF: "fslots F0 = fslots F" using ok(3) by (simp add: fslots_def)
    have fs1: "fslots F1 = fslots F - {i}"
      unfolding F1_def fsF[symmetric] by (rule fslots_remove[OF gs0 i0 glinksD(2)[OF gl0]])
    have same: "gb_blocks ?g3 j = gb_blocks ?g1 j" if "j \<noteq> i" "j \<noteq> b" for j using H(5)[OF that] by simp
    have bout: "b \<notin> fslots F1" "b \<notin> A" "i \<notin> A" using gslotsD(8)[OF gs3] by blast+
    have fb: "fblks ?g' F' = fblks g F - {(off g i, Suc k)} \<union> {(off g i, k), (off g i + level_to_size k, k)}"
    proof -
      have fs': "fslots F' = insert i (insert b (fslots F - {i}))"
        unfolding fs1[symmetric] by (auto simp: F'_def F2_def fslots_def split: if_splits)
      have eq: "gblk ?g' j = gblk g j" if "j \<in> fslots F - {i}" for j
      proof -
        have "j \<noteq> i" "j \<noteq> b" using that bout fs1 by blast+
        then show ?thesis using same[of j] ok(4) by (simp add: gblk_def)
      qed
      have "gblk ?g' ` (fslots F - {i}) = gblk g ` (fslots F - {i})" using eq by (rule image_cong[OF refl])
      also have "\<dots> = fblks g F - {(off g i, Suc k)}"
        using fblks_remove[OF gs fslotsI[of i F "Suc k"]] i lv by (simp add: gblk_def)
      finally have im: "gblk ?g' ` (fslots F - {i}) = fblks g F - {(off g i, Suc k)}" .
      have "gblk ?g' i = (off g i, k)" "gblk ?g' b = (off g i + level_to_size k, k)"
        using f3 by (simp_all add: gblk_def)
      then show ?thesis unfolding fblks_def[of ?g'] fs' image_insert im by (simp only:) blast
    qed
    have "keeps A g ?g'"
    proof -
      have "gb_blocks ?g3 a = gb_blocks ?g1 a" if "a \<in> A" for a using same[of a] that bout by blast
      then show ?thesis using ok(4,6,8-10) n(3) H(8,10)
        by (auto simp: keeps_def g3 halve_def Let_def)
    qed
    moreover have "gb_allocated_bytes ?g' = gb_allocated_bytes g" using H(11) ok(7) by simp
    moreover have "i \<in> set (F' k)" by (simp add: F'_def)
    ultimately show ?thesis using sp c5 fb f3(5) by (intro disjI2 exI[of _ ?g'] exI[of _ F'] exI[of _ "remove1 b D"]) simp
  qed
qed

end
