(* ===== verification/Gpu_Buddy_Runs.thy ===== *)
theory Gpu_Buddy_Runs
  imports Gpu_Buddy_Ops
begin

text \<open>
  Allocation and deallocation of the GPU buddy allocator, and the states its clients can reach.
\<close>

section \<open>Levels\<close>

lemma size_to_level_loop_spec:
  "bs = level_to_size l \<Longrightarrow> l \<le> 18 \<Longrightarrow> (l = 0 \<or> level_to_size (l - 1) < sz) \<Longrightarrow>
     size_to_level_loop sz bs l \<le> 18 \<and> (sz \<le> MAX_BLOCK_SIZE \<longrightarrow> sz \<le> level_to_size (size_to_level_loop sz bs l)) \<and>
     (size_to_level_loop sz bs l = 0 \<or> level_to_size (size_to_level_loop sz bs l - 1) < sz)"
proof (induction sz bs l rule: size_to_level_loop.induct)
  case (1 sz bs l)
  show ?case
  proof (cases "bs < sz \<and> l < 18")
    case True
    have "push_bit 1 bs = level_to_size (l + 1)" using "1.prems"(1) by (simp add: level_to_size_eq)
    moreover have "size_to_level_loop sz bs l = size_to_level_loop sz (push_bit 1 bs) (l + 1)"
      using True by (subst size_to_level_loop.simps) simp
    ultimately show ?thesis using "1.IH" True "1.prems" by simp
  next
    case False
    have e: "size_to_level_loop sz bs l = l" using False by (subst size_to_level_loop.simps) auto
    have "sz \<le> level_to_size l" if "sz \<le> MAX_BLOCK_SIZE"
    proof (cases "bs < sz")
      case True
      then have "l = 18" using False "1.prems"(2) by simp
      then show ?thesis using that by (simp add: level_to_size_eq MAX_BLOCK_SIZE_def)
    qed (use "1.prems"(1) in simp)
    then show ?thesis using e "1.prems" by simp
  qed
qed

lemma size_to_level_spec:
  "size_to_level sz \<le> 18" "sz \<le> MAX_BLOCK_SIZE \<Longrightarrow> sz \<le> level_to_size (size_to_level sz)"
  "size_to_level sz = 0 \<or> level_to_size (size_to_level sz - 1) < sz"
proof -
  have b: "MIN_BLOCK_SIZE = level_to_size 0" by (simp add: level_to_size_eq MIN_BLOCK_SIZE_def)
  note L = size_to_level_loop_spec[OF b, of sz]
  show "size_to_level sz \<le> 18" "sz \<le> MAX_BLOCK_SIZE \<Longrightarrow> sz \<le> level_to_size (size_to_level sz)"
    "size_to_level sz = 0 \<or> level_to_size (size_to_level sz - 1) < sz"
    using L b by (auto simp: size_to_level_def)
qed

text \<open>The level of a request; the loop for the alignment never runs.\<close>

definition want :: "nat \<Rightarrow> nat \<Rightarrow> nat" where
  "want sz al = size_to_level (max sz al)"

lemma raise_level_want:
  assumes "sz \<le> MAX_BLOCK_SIZE" "al \<le> MAX_BLOCK_SIZE"
  shows "raise_level al (size_to_level (if sz < al then al else sz)) = want sz al"
proof -
  have "(if sz < al then al else sz) = max sz al" by (simp add: max_def)
  moreover have "max sz al \<le> level_to_size (size_to_level (max sz al))" using assms by (intro size_to_level_spec(2)) simp
  ultimately show ?thesis unfolding want_def by (subst raise_level.simps) simp
qed

section \<open>Splitting down\<close>

definition split_rest :: "nat \<Rightarrow> nat \<Rightarrow> nat \<Rightarrow> blk set" where
  "split_rest x k j = {(x + level_to_size l, l) | l. k \<le> l \<and> l < j}"

lemma split_rest_same [simp]: "split_rest x k k = {}" by (auto simp: split_rest_def)

lemma split_rest_Suc: "k \<le> j \<Longrightarrow> split_rest x k (Suc j) = insert (x + level_to_size j, j) (split_rest x k j)"
  by (auto simp: split_rest_def less_Suc_eq)

lemma gcore_start_unique:
  assumes "gpu_core M g F A D X" "(x, l) \<in> fblks g F" "(x, m) \<in> fblks g F"
  shows "l = m"
proof -
  have gs: "gslots M g F A D X" using assms(1) by (simp add: gpu_core_def)
  have "fblks g F \<subseteq> gblk g ` (fslots F \<union> A \<union> X)" by (auto simp: fblks_def)
  then show ?thesis using gb.tiling_unique_start[OF gslotsD(12)[OF gs]] assms(2,3) by blast
qed

lemma split_down_spec:
  assumes "gpu_core M g F A D {}" "i \<in> set (F j)" "k \<le> j"
  shows "\<exists>r g' F' D'. split_down ro k (Some i) g = (r, g') \<and> gpu_core M g' F' A D' {} \<and> keeps A g g' \<and>
    gb_allocated_bytes g' = gb_allocated_bytes g \<and>
    (if r = None then \<exists>n. \<not> ro n
     else r = Some i \<and> i \<in> set (F' k) \<and> off g' i = off g i \<and>
       fblks g' F' = fblks g F - {(off g i, j)} \<union> {(off g i, k)} \<union> split_rest (off g i) k j)"
  using assms
proof (induction "j - k" arbitrary: g F D j)
  case 0
  then have jk: "j = k" by simp
  have gs: "gslots M g F A D {}" using 0(2) by (simp add: gpu_core_def)
  have "lev g i = k" using gslotsD(4)[OF gs 0(3)] jk by simp
  then have "split_down ro k (Some i) g = (Some i, g)" by (subst split_down.simps) simp
  moreover have "(off g i, k) \<in> fblks g F" using fblks_mem[OF gs] 0(3) jk by auto
  ultimately show ?case using 0(2,3) jk by (intro exI[of _ "Some i"] exI[of _ g] exI[of _ F] exI[of _ D]) auto
next
  case (Suc d)
  then obtain m where m: "j = Suc m" "k \<le> m" "d = m - k" by (cases j) auto
  have gs: "gslots M g F A D {}" using Suc.prems(1) by (simp add: gpu_core_def)
  have lv: "lev g i = Suc m" using gslotsD(4)[OF gs Suc.prems(2)] m by simp
  have unf: "split_down ro k (Some i) g = (case gpu_buddy_split ro i g of (q, g') \<Rightarrow> split_down ro k q g')"
    using lv m(2) by (subst split_down.simps) simp
  have i: "i \<in> set (F (Suc m))" using Suc.prems(2) m by simp
  from split_spec[OF Suc.prems(1) i, of ro] show ?case
  proof (elim disjE exE conjE, goal_cases fail ok)
    case (fail n)
    then have "split_down ro k (Some i) g = (None, g)" using unf by (simp add: split_down.simps)
    then show ?case using Suc.prems(1) fail by (intro exI[of _ None] exI[of _ g] exI[of _ F] exI[of _ D]) auto
  next
    case (ok g1 F1 D1)
    obtain r g' F' D' where r: "split_down ro k (Some i) g1 = (r, g')" "gpu_core M g' F' A D' {}" "keeps A g1 g'"
      "gb_allocated_bytes g' = gb_allocated_bytes g1"
      "if r = None then \<exists>n. \<not> ro n
       else r = Some i \<and> i \<in> set (F' k) \<and> off g' i = off g1 i \<and>
         fblks g' F' = fblks g1 F1 - {(off g1 i, m)} \<union> {(off g1 i, k)} \<union> split_rest (off g1 i) k m"
      using Suc.hyps(1)[OF m(3) ok(2,3) m(2)] by blast
    have top: "(off g i, Suc m) \<in> fblks g F" using fblks_mem[OF gs] i by auto
    have "(off g i, m) \<notin> fblks g F" using gcore_start_unique[OF Suc.prems(1) top] by fastforce
    then have "fblks g1 F1 - {(off g i, m)} = fblks g F - {(off g i, j)} \<union> {(off g i + level_to_size m, m)}"
      unfolding ok(7) m(1) by auto
    then have "if r = None then \<exists>n. \<not> ro n
       else r = Some i \<and> i \<in> set (F' k) \<and> off g' i = off g i \<and>
         fblks g' F' = fblks g F - {(off g i, j)} \<union> {(off g i, k)} \<union> split_rest (off g i) k j"
      using r(5) ok(4) split_rest_Suc[OF m(2), of "off g i"] m(1) by (auto split: if_splits)
    moreover have "split_down ro k (Some i) g = (r, g')" using unf ok(1) r(1) by simp
    moreover have "keeps A g g'" using keeps_trans[OF ok(5) r(3)] .
    ultimately show ?case using r(2,4) ok(6) by (intro exI[of _ r] exI[of _ g'] exI[of _ F'] exI[of _ D']) simp
  qed
qed

section \<open>Finding a block\<close>

lemma head_empty: "glinks g F D \<Longrightarrow> gb_free_lists g l = None \<longleftrightarrow> F l = []"
  using glinksD(1)[of g F D l] by (cases "F l") auto

lemma find_block_spec:
  assumes c: "gpu_core M g F A D {}" and k: "k \<le> 18"
  shows "\<exists>r g' F' D'. buddy_find_free_block avx2 ro k g = (r, g') \<and> gpu_core M g' F' A D' {} \<and> keeps A g g' \<and>
    gb_allocated_bytes g' = gb_allocated_bytes g \<and>
    (case r of
       None \<Rightarrow> (\<forall>l. k \<le> l \<longrightarrow> F l = []) \<and> g' = g \<and> F' = F \<or> (\<exists>n. \<not> ro n)
     | Some i \<Rightarrow> i \<in> set (F' k) \<and> (\<exists>j\<ge>k. (off g' i, j) \<in> fblks g F \<and>
         fblks g' F' = fblks g F - {(off g' i, j)} \<union> {(off g' i, k)} \<union> split_rest (off g' i) k j))"
proof -
  have gl: "glinks g F D" and gs: "gslots M g F A D {}" using c by (simp_all add: gpu_core_def)
  have big: "F l = []" if "18 < l" for l
  proof (rule ccontr)
    assume "F l \<noteq> []"
    then have "hd (F l) \<in> set (F l)" by simp
    from core_level[OF c this] that show False by simp
  qed
  show ?thesis
  proof (cases "F k")
    case (Cons i ps)
    have h: "gb_free_lists g k = Some i" using glinksD(1)[OF gl, of k] Cons by simp
    have i: "i \<in> set (F k)" using Cons by simp
    have m: "(off g i, k) \<in> fblks g F" using fblks_mem[OF gs] i by auto
    then have "fblks g F = fblks g F - {(off g i, k)} \<union> {(off g i, k)} \<union> split_rest (off g i) k k" by auto
    then show ?thesis using c h i m
      by (intro exI[of _ "Some i"] exI[of _ g] exI[of _ F] exI[of _ D]) (auto simp: buddy_find_free_block_def)
  next
    case Nil
    have h: "gb_free_lists g k = None" using head_empty[OF gl] Nil by simp
    let ?s = "\<lambda>n. gb_free_lists g (k + 1 + n)"
    show ?thesis
    proof (cases "\<exists>n. ?s n \<noteq> None")
      case False
      then have e: "F l = []" if "k \<le> l" for l
        using that Nil head_empty[OF gl, of l] by (cases "l = k") (auto dest: spec[of _ "l - k - 1"])
      have "buddy_find_free_block avx2 ro k g = (None, g)"
        using h False find_slot_none[of "19 - (k + 1)" ?s avx2] by (simp add: buddy_find_free_block_def Let_def)
      then show ?thesis using c e by (intro exI[of _ None] exI[of _ g] exI[of _ F] exI[of _ D]) simp
    next
      case True
      define n where "n = (LEAST n. ?s n \<noteq> None)"
      have n: "?s n \<noteq> None" unfolding n_def using True by (rule LeastI_ex)
      have least: "?s m = None" if "m < n" for m using not_less_Least that unfolding n_def by blast
      obtain i where i: "?s n = Some i" using n by auto
      have iF: "i \<in> set (F (k + 1 + n))" by (rule head_in_list[OF gl i])
      have lt: "n < 19 - (k + 1)" using big[of "k + 1 + n"] iF by (cases "18 < k + 1 + n") auto
      have "buddy_find_free_block avx2 ro k g = split_down ro k (Some i) g"
        using h find_slot_some[of ?s n "19 - (k + 1)" avx2] n lt least i order.strict_trans1[OF le0 lt]
        by (simp add: buddy_find_free_block_def Let_def)
      moreover obtain r g' F' D' where r: "split_down ro k (Some i) g = (r, g')" "gpu_core M g' F' A D' {}" "keeps A g g'"
        "gb_allocated_bytes g' = gb_allocated_bytes g"
        "if r = None then \<exists>n. \<not> ro n
         else r = Some i \<and> i \<in> set (F' k) \<and> off g' i = off g i \<and>
           fblks g' F' = fblks g F - {(off g i, k + 1 + n)} \<union> {(off g i, k)} \<union> split_rest (off g i) k (k + 1 + n)"
        using split_down_spec[OF c iF, of k ro] by auto
      moreover have "(off g i, k + 1 + n) \<in> fblks g F" using fblks_mem[OF gs] iF by auto
      moreover have "case r of
          None \<Rightarrow> (\<forall>l. k \<le> l \<longrightarrow> F l = []) \<and> g' = g \<and> F' = F \<or> (\<exists>n. \<not> ro n)
        | Some i \<Rightarrow> i \<in> set (F' k) \<and> (\<exists>j\<ge>k. (off g' i, j) \<in> fblks g F \<and>
            fblks g' F' = fblks g F - {(off g' i, j)} \<union> {(off g' i, k)} \<union> split_rest (off g' i) k j)"
      proof (cases r)
        case None
        then show ?thesis using r(5) by simp
      next
        case (Some i')
        then have r5: "i' = i" "i \<in> set (F' k)" "off g' i = off g i"
          "fblks g' F' = fblks g F - {(off g i, k + 1 + n)} \<union> {(off g i, k)} \<union> split_rest (off g i) k (k + 1 + n)"
          using r(5) by simp_all
        have "k \<le> k + 1 + n" by simp
        then show ?thesis unfolding Some option.case r5(1) r5(3) using r5(2,4) \<open>(off g i, k + 1 + n) \<in> fblks g F\<close> by blast
      qed
      ultimately show ?thesis by (intro exI[of _ r] exI[of _ g'] exI[of _ F'] exI[of _ D']) (simp only: simp_thms)
    qed
  qed
qed

section \<open>Allocating\<close>

lemma core_same:
  assumes "gb_blocks g' = gb_blocks g" "gb_free_lists g' = gb_free_lists g" "gb_dead_blocks g' = gb_dead_blocks g"
    "gb_num_blocks g' = gb_num_blocks g" "gb_max_blocks g' = gb_max_blocks g" "gb_total_size g' = gb_total_size g"
  shows "gpu_core M g' F A D X = gpu_core M g F A D X"
proof -
  have v: "nx g' = nx g" "pv g' = pv g" "gblk g' = gblk g"
    using assms(1) by (simp_all add: fun_eq_iff nx_def pv_def gblk_def)
  show ?thesis unfolding gpu_core_def glinks_def gslots_def v assms ..
qed

lemma gcore_counters:
  "gpu_core M (g\<lparr>gb_allocated_bytes := x, gb_peak_allocated_bytes := y, gb_num_allocations := z\<rparr>) F A D X = gpu_core M g F A D X"
  "gpu_core M (g\<lparr>gb_allocated_bytes := x, gb_num_frees := z\<rparr>) F A D X = gpu_core M g F A D X"
  "gpu_core M (g\<lparr>gb_num_coalesces := z\<rparr>) F A D X = gpu_core M g F A D X"
  "gpu_core M (g\<lparr>gb_fragmentation_ratio := q\<rparr>) F A D X = gpu_core M g F A D X"
  by (rule core_same; simp)+

lemma alloc_spec:
  assumes c: "gpu_core M g F A D {}" and sz: "sz \<le> MAX_BLOCK_SIZE" "al \<le> MAX_BLOCK_SIZE" and k: "k = want sz al"
  obtains (fail) g' F' D' where "gpu_buddy_alloc avx2 ro sz al g = (None, g')" "gpu_core M g' F' A D' {}" "keeps A g g'"
      "gb_allocated_bytes g' = gb_allocated_bytes g"
      "(\<forall>l. k \<le> l \<longrightarrow> F l = []) \<and> g' = g \<and> F' = F \<or> (\<exists>n. \<not> ro n)"
    | (ok) i j g' F' D' where "gpu_buddy_alloc avx2 ro sz al g = (Some i, g')" "gpu_core M g' F' (insert i A) D' {}" "keeps A g g'"
      "gb_allocated_bytes g' = gb_allocated_bytes g + word_of_nat (siz g' i)" "i \<notin> A" "lev g' i = k" "k \<le> j"
      "(off g' i, j) \<in> fblks g F" "fblks g' F' = fblks g F - {(off g' i, j)} \<union> split_rest (off g' i) k j"
proof -
  have k18: "k \<le> 18" unfolding k want_def by (rule size_to_level_spec)
  have unf: "gpu_buddy_alloc avx2 ro sz al g =
    (case buddy_find_free_block avx2 ro k g of
       (None, g1) \<Rightarrow> (None, g1)
     | (Some i, g1) \<Rightarrow>
         let g2 = upd_block i (\<lambda>b. b\<lparr>gk_is_free := False, gk_next := None, gk_prev := None\<rparr>) (unlink_block i g1);
             bytes = gb_allocated_bytes g2 + word_of_nat (gk_size (gb_blocks g2 i))
         in (Some i, g2\<lparr>gb_allocated_bytes := bytes,
                        gb_peak_allocated_bytes := (if bytes > gb_peak_allocated_bytes g2 then bytes
                                                    else gb_peak_allocated_bytes g2),
                        gb_num_allocations := gb_num_allocations g2 + 1\<rparr>))"
    using sz raise_level_want[OF sz] k by (simp add: gpu_buddy_alloc_def Let_def)
  obtain r g1 F1 D1 where r: "buddy_find_free_block avx2 ro k g = (r, g1)" "gpu_core M g1 F1 A D1 {}" "keeps A g g1"
    "gb_allocated_bytes g1 = gb_allocated_bytes g"
    and cs: "case r of
       None \<Rightarrow> (\<forall>l. k \<le> l \<longrightarrow> F l = []) \<and> g1 = g \<and> F1 = F \<or> (\<exists>n. \<not> ro n)
     | Some i \<Rightarrow> i \<in> set (F1 k) \<and> (\<exists>j\<ge>k. (off g1 i, j) \<in> fblks g F \<and>
         fblks g1 F1 = fblks g F - {(off g1 i, j)} \<union> {(off g1 i, k)} \<union> split_rest (off g1 i) k j)"
    using find_block_spec[OF c k18, of avx2 ro] by blast
  show thesis
  proof (cases r)
    case None
    then show thesis using fail[of g1 F1 D1] r cs unf by simp
  next
    case (Some i)
    then obtain j where i: "i \<in> set (F1 k)" and j: "k \<le> j" "(off g1 i, j) \<in> fblks g F"
      "fblks g1 F1 = fblks g F - {(off g1 i, j)} \<union> {(off g1 i, k)} \<union> split_rest (off g1 i) k j"
      using cs by auto
    have gs1: "gslots M g1 F1 A D1 {}" and gl1: "glinks g1 F1 D1" using r(2) by (simp_all add: gpu_core_def)
    note L = gslots_list[OF gs1 i]
    let ?F = "F1(k := remove1 i (F1 k))"
    let ?g2 = "upd_block i (\<lambda>b. b\<lparr>gk_is_free := False, gk_next := None, gk_prev := None\<rparr>) (unlink_block i g1)"
    let ?b = "gb_allocated_bytes ?g2 + word_of_nat (siz ?g2 i)"
    let ?g' = "?g2\<lparr>gb_allocated_bytes := ?b,
         gb_peak_allocated_bytes := (if ?b > gb_peak_allocated_bytes ?g2 then ?b else gb_peak_allocated_bytes ?g2),
         gb_num_allocations := gb_num_allocations ?g2 + 1\<rparr>"
    have c2: "gpu_core M ?g' ?F (insert i A) D1 {}"
      using gcore_handout[OF gcore_unlink[OF r(2) i], of i] by (simp add: gcore_counters)
    have bl: "off ?g' a = off g1 a" "siz ?g' a = siz g1 a" "lev ?g' a = lev g1 a" for a by (simp_all add: blocks_upd)
    have fs: "fslots ?F = fslots F1 - {i}" by (rule fslots_remove[OF gs1 i glinksD(2)[OF gl1]])
    have "gblk ?g' = gblk g1" using bl by (simp add: gblk_def fun_eq_iff)
    then have fb: "fblks ?g' ?F = fblks g1 F1 - {(off g1 i, k)}"
      using fblks_remove[OF gs1, of i] L unfolding fblks_def[of ?g'] fs by (simp add: gblk_def)
    have notin: "(off g1 i, k) \<notin> fblks g F - {(off g1 i, j)} \<union> split_rest (off g1 i) k j"
    proof -
      have "(off g1 i, k) \<notin> split_rest (off g1 i) k j" by (auto simp: split_rest_def)
      moreover have "j = k" if "(off g1 i, k) \<in> fblks g F" by (rule gcore_start_unique[OF c j(2) that])
      ultimately show ?thesis by blast
    qed
    have "gpu_buddy_alloc avx2 ro sz al g = (Some i, ?g')" unfolding unf r(1) Some Let_def by simp
    moreover have "keeps A g1 ?g'" unfolding keeps_def bl by simp
    then have "keeps A g ?g'" by (rule keeps_trans[OF r(3)])
    moreover have "gb_allocated_bytes ?g' = gb_allocated_bytes g + word_of_nat (siz ?g' i)" using r(4) by simp
    moreover have "fblks ?g' ?F = fblks g F - {(off ?g' i, j)} \<union> split_rest (off ?g' i) k j"
      unfolding fb j(3) bl using notin by blast
    moreover have "i \<notin> A" "lev ?g' i = k" "(off ?g' i, j) \<in> fblks g F" using L j(2) bl by simp_all
    ultimately show thesis using c2 j(1) by (intro ok)
  qed
qed

section \<open>Coalescing\<close>

text \<open>No two free buddies below the top level.\<close>

definition merged :: "nat \<Rightarrow> blk set \<Rightarrow> bool" where
  "merged M S \<longleftrightarrow> (\<forall>(x, k)\<in>S. k < M \<longrightarrow> (get_buddy_offset x k, k) \<notin> S)"

lemma mergedD: "merged M S \<Longrightarrow> (x, k) \<in> S \<Longrightarrow> k < M \<Longrightarrow> (get_buddy_offset x k, k) \<notin> S"
  unfolding merged_def by blast

lemma merged_subset: "merged M S \<Longrightarrow> T \<subseteq> S \<Longrightarrow> merged M T"
  unfolding merged_def by blast

lemma buddy_twice: "get_buddy_offset (get_buddy_offset x k) k = x"
  by (simp add: get_buddy_offset_def Let_def xor.assoc)

lemma buddy_ne: "get_buddy_offset x k \<noteq> x"
proof (cases "odd (x div level_to_size k)")
  case True
  then have "0 < x" by (cases "x = 0") auto
  then show ?thesis using True by (simp add: get_buddy_offset_eq) (metis diff_less level_to_size_pos less_irrefl)
qed (simp add: get_buddy_offset_eq)

lemma merged_insert:
  assumes "merged M (S - {(x, k)})" "k < M \<longrightarrow> (get_buddy_offset x k, k) \<notin> S"
  shows "merged M S"
  unfolding merged_def
proof (intro ballI, clarify)
  fix y l assume y: "(y, l) \<in> S" "l < M" "(get_buddy_offset y l, l) \<in> S"
  show False
  proof (cases "(y, l) = (x, k) \<or> (get_buddy_offset y l, l) = (x, k)")
    case True
    then show ?thesis using y assms(2) buddy_twice[of y l] by auto
  next
    case False
    then show ?thesis using mergedD[OF assms(1), of y l] y by blast
  qed
qed

lemma find_buddy_spec:
  assumes c: "gpu_core M g F A D {}" and i: "i \<in> set (F k)"
  shows "case find_buddy g i of
      None \<Rightarrow> (get_buddy_offset (off g i) k, k) \<notin> fblks g F
    | Some j \<Rightarrow> j \<in> set (F k) \<and> off g j = get_buddy_offset (off g i) k"
proof -
  have gs: "gslots M g F A D {}" using c by (simp add: gpu_core_def)
  have lv: "lev g i = k" by (rule gslotsD(4)[OF gs i])
  let ?P = "\<lambda>c. off g c = get_buddy_offset (off g i) k \<and> lev g c = k \<and> fre g c"
  have fb: "find_buddy g i = find ?P [0..<gb_num_blocks g]" by (simp add: find_buddy_def Let_def lv)
  show ?thesis
  proof (cases "find_buddy g i")
    case None
    then have no: "\<not> ?P j" if "j < gb_num_blocks g" for j using that unfolding fb by (auto simp: find_None_iff)
    have "(get_buddy_offset (off g i) k, k) \<notin> fblks g F"
    proof
      assume "(get_buddy_offset (off g i) k, k) \<in> fblks g F"
      then obtain j where j: "j \<in> set (F k)" "off g j = get_buddy_offset (off g i) k" using fblks_mem[OF gs] by auto
      have "j < gb_num_blocks g" using gslotsD(10)[OF gs] fslotsI[of j F k] j(1) by blast
      from no[OF this] show False using j gslotsD(4,5)[OF gs j(1)] by simp
    qed
    then show ?thesis using None by simp
  next
    case (Some j)
    then have "?P j" "j < gb_num_blocks g" unfolding fb by (auto simp: find_Some_iff)
    then show ?thesis using Some free_slots[OF gs, of j] by simp
  qed
qed

text \<open>One merge: both blocks leave their list, the lower one takes over and joins the next list.\<close>

lemma merge_pair_fuse:
  "merge_pair i j g =
     (let g1 = unlink_block j (unlink_block i g);
          lo = (if off g i > off g j then j else i);
          hi = (if off g i > off g j then i else j);
          g4 = push_free lo (fuse lo hi g1)
      in (lo, g4\<lparr>gb_num_coalesces := gb_num_coalesces g4 + 1\<rparr>))"
  by (simp add: merge_pair_def fuse_def Let_def)

lemma merge_spec:
  assumes c: "gpu_core M g F A D {}" and i: "i \<in> set (F k)" and j: "j \<in> set (F k)"
    and o: "off g j = get_buddy_offset (off g i) k" and k: "k < M"
  shows "\<exists>m g' F' D'. merge_pair i j g = (m, g') \<and> gpu_core M g' F' A D' {} \<and> m \<in> set (F' (Suc k)) \<and>
    keeps A g g' \<and> gb_allocated_bytes g' = gb_allocated_bytes g \<and>
    fblks g' F' - {gblk g' m} \<subseteq> fblks g F - {(off g i, k)}"
proof -
  have gs: "gslots M g F A D {}" and gl: "glinks g F D" using c by (simp_all add: gpu_core_def)
  have ij: "i \<noteq> j" using o buddy_ne[of "off g i" k] by auto
  have lv: "lev g i = k" "lev g j = k" "fre g i" "fre g j"
    using gslotsD(4)[OF gs i] gslotsD(4)[OF gs j] gslotsD(5)[OF gs i] gslotsD(5)[OF gs j] by simp_all
  define F1 where "F1 = F(k := remove1 i (F k))"
  define F2 where "F2 = F1(k := remove1 j (F1 k))"
  let ?g1 = "unlink_block j (unlink_block i g)"
  have c1: "gpu_core M (unlink_block i g) F1 A D {i}" using gcore_unlink[OF c i] by (simp add: F1_def)
  have j1: "j \<in> set (F1 k)" using j ij by (simp add: F1_def in_set_remove1)
  have c2: "gpu_core M ?g1 F2 A D {j, i}" using gcore_unlink[OF c1 j1] by (simp add: F2_def)
  define lo where "lo = (if off g i > off g j then j else i)"
  define hi where "hi = (if off g i > off g j then i else j)"
  have lh: "{lo, hi} = {j, i}" "lo \<noteq> hi" using ij by (auto simp: lo_def hi_def)
  have "off g i \<noteq> off g j" using o buddy_ne[of "off g i" k] by simp
  then have oo: "off ?g1 hi = get_buddy_offset (off ?g1 lo) k" "off ?g1 lo < off ?g1 hi"
    using o buddy_twice[of "off g i" k] by (auto simp: lo_def hi_def)
  have lv1: "lev ?g1 lo = k" "lev ?g1 hi = k" "fre ?g1 lo" using lv by (auto simp: lo_def hi_def)
  note Fu = gcore_fuse[OF c2[unfolded lh(1)[symmetric]] lv1(1,2) k oo]
  note H = fuse_fields[OF lh(2), where g = ?g1]
  let ?g3 = "fuse lo hi ?g1"
  let ?g4 = "push_free lo ?g3"
  let ?g' = "?g4\<lparr>gb_num_coalesces := gb_num_coalesces ?g4 + 1\<rparr>"
  define F' where "F' = F2(Suc k := lo # F2 (Suc k))"
  have lvlo: "lev ?g3 lo = Suc k" "fre ?g3 lo" using H(1,3) lv1 by (simp_all add: gblk_def)
  have c4: "gpu_core M ?g' F' A (hi # D) {}"
    using gcore_push[OF Fu(1) _ lvlo(2), of "Suc k"] lvlo(1) by (simp add: F'_def gcore_counters)
  have mp: "merge_pair i j g = (lo, ?g')" by (simp add: merge_pair_fuse Let_def lo_def hi_def)
  have gs1: "gslots M (unlink_block i g) F1 A D {i}" and gl1: "glinks (unlink_block i g) F1 D" using c1 by (simp_all add: gpu_core_def)
  have fs1: "fslots F1 = fslots F - {i}" unfolding F1_def by (rule fslots_remove[OF gs i glinksD(2)[OF gl]])
  have fs2: "fslots F2 = fslots F1 - {j}" unfolding F2_def by (rule fslots_remove[OF gs1 j1 glinksD(2)[OF gl1]])
  have gs2: "gslots M ?g1 F2 A D {lo, hi}" using c2 lh by (simp add: gpu_core_def)
  have out: "lo \<notin> A" "hi \<notin> A" using gslotsD(8)[OF gs2] by blast+
  have same: "gb_blocks ?g3 a = gb_blocks ?g1 a" if "a \<in> A" for a using H(7)[of a] that out by blast
  have "keeps A g ?g'" unfolding keeps_def using same H(10,12) by (auto simp: fuse_def Let_def)
  moreover have "fblks ?g' F' - {gblk ?g' lo} \<subseteq> fblks g F - {(off g i, k)}"
  proof -
    have "fslots F' = insert lo (fslots F2)" by (auto simp: F'_def fslots_def split: if_splits)
    moreover have "gblk ?g' = gblk ?g3" by (simp add: gblk_def fun_eq_iff)
    moreover have "gblk ?g3 ` fslots F2 = gblk g ` fslots F2" using Fu(3) by simp
    ultimately have "fblks ?g' F' - {gblk ?g' lo} \<subseteq> gblk g ` fslots F2" unfolding fblks_def by auto
    also have "\<dots> \<subseteq> gblk g ` (fslots F - {i})" using fs1 fs2 by auto
    also have "\<dots> = fblks g F - {(off g i, k)}"
      using fblks_remove[OF gs fslotsI[of i F k]] i lv by (simp add: gblk_def)
    finally show ?thesis .
  qed
  moreover have "lo \<in> set (F' (Suc k))" by (simp add: F'_def)
  moreover have "gb_allocated_bytes ?g' = gb_allocated_bytes g" using H(13) by simp
  ultimately show ?thesis using mp c4 by (intro exI[of _ lo] exI[of _ ?g'] exI[of _ F'] exI[of _ "hi # D"]) (simp only: simp_thms)
qed

lemma coalesce_spec:
  assumes "gpu_core M g F A D {}" "i \<in> set (F k)"
  shows "\<exists>g' F' D'. gpu_buddy_coalesce i g = g' \<and> gpu_core M g' F' A D' {} \<and> keeps A g g' \<and>
    gb_allocated_bytes g' = gb_allocated_bytes g \<and> (merged M (fblks g F - {(off g i, k)}) \<longrightarrow> merged M (fblks g' F'))"
  using assms
proof (induction "18 - k" arbitrary: g F D i k rule: less_induct)
  case less
  have gs: "gslots M g F A D {}" using less.prems(1) by (simp add: gpu_core_def)
  have lv: "lev g i = k" by (rule gslotsD(4)[OF gs less.prems(2)])
  have kM: "k \<le> M" "M \<le> 18" using core_level[OF less.prems] gslotsD(1)[OF gs] by simp_all
  note fb = find_buddy_spec[OF less.prems]
  have stop: ?case if e: "gpu_buddy_coalesce i g = g" and nb: "k < M \<longrightarrow> (get_buddy_offset (off g i) k, k) \<notin> fblks g F"
    using e less.prems(1) merged_insert[of M "fblks g F" "off g i" k] nb
    by (intro exI[of _ g] exI[of _ F] exI[of _ D]) simp
  show ?case
  proof (cases "k \<ge> 18")
    case True
    then show ?thesis using lv kM by (intro stop) (auto simp: gpu_buddy_coalesce.simps[of i g])
  next
    case k18: False
    show ?thesis
    proof (cases "find_buddy g i")
      case None
      then show ?thesis using lv k18 fb by (intro stop) (auto simp: gpu_buddy_coalesce.simps[of i g])
    next
      case (Some j)
      then have j: "j \<in> set (F k)" "off g j = get_buddy_offset (off g i) k" using fb by simp_all
      have k: "k < M"
      proof (rule ccontr)
        assume "\<not> k < M"
        then have M: "k = M" using kM by simp
        have "wf_blk level_to_size M (off g i, M)" "wf_blk level_to_size M (off g j, M)"
          using gslots_wf[OF gs, of i] gslots_wf[OF gs, of j] gslotsD(4)[OF gs j(1)] lv M less.prems(2) j(1) fslotsI[of i F k]
            fslotsI[of j F k] by (simp_all add: gblk_def)
        then have "off g i = 0" "off g j = 0" by (simp_all add: wf_blk_def)
        then show False using j(2) buddy_ne[of 0 k] by simp
      qed
      obtain m g1 F1 D1 where mg: "merge_pair i j g = (m, g1)" "gpu_core M g1 F1 A D1 {}" "m \<in> set (F1 (Suc k))"
        "keeps A g g1" "gb_allocated_bytes g1 = gb_allocated_bytes g"
        "fblks g1 F1 - {gblk g1 m} \<subseteq> fblks g F - {(off g i, k)}"
        using merge_spec[OF less.prems j k] by blast
      have bm: "gblk g1 m = (off g1 m, Suc k)"
        using mg(2,3) gslotsD(4)[of M g1 F1 A D1 "{}" m "Suc k"] by (simp add: gpu_core_def gblk_def)
      have "18 - Suc k < 18 - k" using k18 by simp
      from less.hyps[OF this mg(2,3)] obtain g' F' D' where
        r: "gpu_buddy_coalesce m g1 = g'" "gpu_core M g' F' A D' {}" "keeps A g1 g'"
        "gb_allocated_bytes g' = gb_allocated_bytes g1"
        "merged M (fblks g1 F1 - {(off g1 m, Suc k)}) \<longrightarrow> merged M (fblks g' F')" by blast
      have "gpu_buddy_coalesce i g = g'" using lv k18 Some mg(1) r(1) by (simp add: gpu_buddy_coalesce.simps[of i g])
      moreover have "merged M (fblks g F - {(off g i, k)}) \<longrightarrow> merged M (fblks g' F')"
        using r(5) mg(6) merged_subset unfolding bm by blast
      ultimately show ?thesis using r(2,4) mg(5) keeps_trans[OF mg(4) r(3)]
        by (intro exI[of _ g'] exI[of _ F'] exI[of _ D']) (simp only: simp_thms)
    qed
  qed
qed

lemma free_spec:
  assumes c: "gpu_core M g F A D {}" and i: "i \<in> A"
  obtains g' F' D' where "gpu_buddy_free (Some i) g = g'" "gpu_core M g' F' (A - {i}) D' {}" "keeps (A - {i}) g g'"
    "gb_allocated_bytes g' = gb_allocated_bytes g - word_of_nat (siz g i)" "merged M (fblks g F) \<longrightarrow> merged M (fblks g' F')"
proof -
  have gs: "gslots M g F A D {}" using c by (simp add: gpu_core_def)
  have nf: "\<not> fre g i" by (rule gslotsD(6)[OF gs i])
  let ?g1 = "upd_block i (\<lambda>b. b\<lparr>gk_is_free := True\<rparr>) g"
  let ?g2 = "?g1\<lparr>gb_allocated_bytes := gb_allocated_bytes ?g1 - word_of_nat (siz ?g1 i), gb_num_frees := gb_num_frees ?g1 + 1\<rparr>"
  have bl: "off ?g2 a = off g a" "siz ?g2 a = siz g a" "lev ?g2 a = lev g a" "fre ?g2 i" for a
    by (simp_all add: blocks_upd)
  have c2: "gpu_core M ?g2 F (A - {i}) D {i}" using gcore_give_back[OF c i] by (simp add: gcore_counters)
  define l where "l = lev g i"
  define F2 where "F2 = F(l := i # F l)"
  have c3: "gpu_core M (push_free i ?g2) F2 (A - {i}) D {}"
    using gcore_push[OF c2 _ bl(4), of l] bl(3) by (simp add: F2_def l_def)
  have i2: "i \<in> set (F2 l)" by (simp add: F2_def)
  obtain g' F' D' where r: "gpu_buddy_coalesce i (push_free i ?g2) = g'" "gpu_core M g' F' (A - {i}) D' {}"
    "keeps (A - {i}) (push_free i ?g2) g'" "gb_allocated_bytes g' = gb_allocated_bytes (push_free i ?g2)"
    "merged M (fblks (push_free i ?g2) F2 - {(off (push_free i ?g2) i, l)}) \<longrightarrow> merged M (fblks g' F')"
    using coalesce_spec[OF c3 i2] by blast
  have fr: "gpu_buddy_free (Some i) g = g'" using nf r(1) by (simp add: gpu_buddy_free_def Let_def)
  have "keeps (A - {i}) g (push_free i ?g2)" unfolding keeps_def push_static level_push_free bl by simp
  then have kp: "keeps (A - {i}) g g'" using r(3) by (rule keeps_trans)
  have bts: "gb_allocated_bytes g' = gb_allocated_bytes g - word_of_nat (siz g i)"
    using r(4) bl(2)[of i] by (simp add: blocks_upd)
  have "fblks (push_free i ?g2) F2 - {(off (push_free i ?g2) i, l)} \<subseteq> fblks g F"
  proof -
    have "gblk (push_free i ?g2) = gblk g" using bl by (simp add: gblk_def fun_eq_iff)
    moreover have "fslots F2 = insert i (fslots F)" by (auto simp: F2_def fslots_def split: if_splits)
    ultimately show ?thesis using bl by (auto simp: fblks_def gblk_def l_def)
  qed
  then have "merged M (fblks g F) \<longrightarrow> merged M (fblks g' F')" using r(5) merged_subset by blast
  then show thesis using that[OF fr r(2) kp bts] by blast
qed

end
