(* ===== verification/Gpu_Properties.thy ===== *)
theory Gpu_Properties
  imports Gpu_Buddy_Runs
begin

text \<open>
  The states that clients of the GPU buddy allocator can reach, and what holds in them: no two
  allocations overlap, a request fails only for want of an aligned free range, everything merges back,
  the byte counter is exact. The last two steps of \<open>gpu_run\<close> are those of the pool around it. \<open>tot\<close> is the size of the pool, \<open>ok\<close> says that no \<open>realloc\<close> failed.
\<close>

section \<open>Reachable states\<close>

inductive gpu_run :: "bool \<Rightarrow> nat \<Rightarrow> gpu_buddy \<Rightarrow> nat set \<Rightarrow> bool" for ok tot where
  gr_init: "gpu_buddy_init True tot = (LGX_SUCCESS, g) \<Longrightarrow> gpu_run ok tot g {}"
| gr_alloc: "gpu_run ok tot g A \<Longrightarrow> (ok \<Longrightarrow> \<forall>n. ro n) \<Longrightarrow>
    gpu_buddy_alloc avx2 ro sz al g = (Some i, g') \<Longrightarrow> gpu_run ok tot g' (insert i A)"
| gr_fail: "gpu_run ok tot g A \<Longrightarrow> (ok \<Longrightarrow> \<forall>n. ro n) \<Longrightarrow>
    gpu_buddy_alloc avx2 ro sz al g = (None, g') \<Longrightarrow> gpu_run ok tot g' A"
| gr_free: "gpu_run ok tot g A \<Longrightarrow> i \<in> A \<Longrightarrow> gpu_run ok tot (gpu_buddy_free (Some i) g) (A - {i})"
| gr_frag: "gpu_run ok tot g A \<Longrightarrow> buddy_update_fragmentation g = Some g' \<Longrightarrow> gpu_run ok tot g' A"
| gr_vk: "gpu_run ok tot g A \<Longrightarrow> gpu_run ok tot (g\<lparr>gb_memory := m, gb_mapped_ptr := q\<rparr>) A"

definition gpu_inv :: "bool \<Rightarrow> nat \<Rightarrow> gpu_buddy \<Rightarrow> nat set \<Rightarrow> (nat \<Rightarrow> nat list) \<Rightarrow> nat list \<Rightarrow> bool" where
  "gpu_inv ok tot g A F D \<longleftrightarrow> gpu_core (size_to_level tot) g F A D {} \<and>
     (ok \<longrightarrow> merged (size_to_level tot) (fblks g F)) \<and> gb_total_size g = tot \<and>
     gb_allocated_bytes g = word_of_nat (\<Sum>a\<in>A. siz g a)"

lemma gpu_inv_same:
  assumes "gb_blocks g' = gb_blocks g" "gb_free_lists g' = gb_free_lists g" "gb_dead_blocks g' = gb_dead_blocks g"
    "gb_num_blocks g' = gb_num_blocks g" "gb_max_blocks g' = gb_max_blocks g" "gb_total_size g' = gb_total_size g"
    "gb_allocated_bytes g' = gb_allocated_bytes g"
  shows "gpu_inv ok tot g' A F D = gpu_inv ok tot g A F D"
proof -
  have "gblk g' = gblk g" using assms(1) by (simp add: fun_eq_iff gblk_def)
  then show ?thesis unfolding gpu_inv_def core_same[OF assms(1-6)] by (simp add: fblks_def assms)
qed

lemma core_finite: "gpu_core M g F A D X \<Longrightarrow> finite A \<and> A \<subseteq> {..<gb_num_blocks g}"
  using gslotsD(10)[of M g F A D X] finite_subset[of A "{..<gb_num_blocks g}"] by (auto simp: gpu_core_def)

lemma init_core:
  assumes "gpu_buddy_init True tot = (r, g)" and M: "M = size_to_level tot"
  shows "r = LGX_SUCCESS \<and> gpu_core M g ((\<lambda>_. [])(M := [0])) {} [] {} \<and> fblks g ((\<lambda>_. [])(M := [0])) = {(0, M)} \<and>
    gb_total_size g = tot \<and> gb_allocated_bytes g = 0"
proof -
  let ?F = "(\<lambda>_. [])(M := [0 :: nat])"
  let ?b = "\<lparr>gk_next = None, gk_prev = None, gk_offset = 0, gk_size = tot, gk_is_free = True, gk_level = M\<rparr>"
  have g: "g = zero_buddy\<lparr>gb_total_size := tot, gb_max_blocks := 1024, gb_all_blocks := True,
      gb_blocks := (\<lambda>_. zero_block)(0 := ?b), gb_free_lists := (\<lambda>_. None)(M := Some 0), gb_num_blocks := 1\<rparr>"
    and r: "r = LGX_SUCCESS"
    using assms by (simp_all add: gpu_buddy_init_def Let_def upd_block_def gpu_set_head_def zero_buddy_def)
  have fs: "fslots ?F = {0}" by (auto simp: fslots_def split: if_splits)
  have M18: "M \<le> 18" unfolding M by (rule size_to_level_spec)
  have b0: "gblk g 0 = (0, M)" "lev g 0 = M" "fre g 0" "siz g 0 = tot" by (simp_all add: g gblk_def)
  have "glinks g ?F []" unfolding glinks_def by (auto simp: g nx_def pv_def zero_buddy_def)
  moreover have "gslots M g ?F {} [] {}"
    unfolding gslots_def fs
    using M18 b0 by (auto simp: g zero_buddy_def tiling_def wf_blk_def disjoint_blks_def blk_range_def split: if_splits)
  ultimately show ?thesis using r b0 fs by (simp add: gpu_core_def fblks_def g zero_buddy_def)
qed

lemma merged_alloc:
  assumes c: "gpu_core M g F A D {}" and j: "(x, j) \<in> fblks g F" "k \<le> j" and m: "merged M (fblks g F)"
  shows "merged M (fblks g F - {(x, j)} \<union> split_rest x k j)"
proof -
  have gs: "gslots M g F A D {}" using c by (simp add: gpu_core_def)
  obtain i where i: "i \<in> set (F j)" "off g i = x" using fblks_mem[OF gs] j(1) by blast
  have "wf_blk level_to_size M (x, j)"
    using gslots_wf[OF gs, of i] fslotsI[of i F j] gslotsD(4)[OF gs i(1)] i by (simp add: gblk_def)
  then have dv: "level_to_size j dvd x" by (simp add: wf_blk_def)
  have bud: "get_buddy_offset (x + level_to_size l) l = x" if "l < j" for l
  proof -
    have "level_to_size (Suc l) dvd level_to_size j" using that by (intro gb.bsize_dvd[of _ _ j]) simp_all
    then have "2 * level_to_size l dvd x" using dv by (simp add: level_to_size_Suc dvd_trans)
    then have "odd ((x + level_to_size l) div level_to_size l)" by (auto elim!: dvdE)
    then show ?thesis by (simp add: get_buddy_offset_eq)
  qed
  have nox: "(x, l) \<notin> fblks g F" if "l < j" for l using gcore_start_unique[OF c j(1)] that by blast
  have rest: "\<exists>l. (y, n) = (x + level_to_size l, l) \<and> l < j" if "(y, n) \<in> split_rest x k j" for y n
    using that by (auto simp: split_rest_def)
  have nor: "(x, l) \<notin> split_rest x k j" for l by (auto simp: split_rest_def)
  show ?thesis unfolding merged_def
  proof (intro ballI, clarify)
    fix y n assume y: "(y, n) \<in> fblks g F - {(x, j)} \<union> split_rest x k j" "n < M"
      and b: "(get_buddy_offset y n, n) \<in> fblks g F - {(x, j)} \<union> split_rest x k j"
    consider "(y, n) \<in> split_rest x k j" | "(get_buddy_offset y n, n) \<in> split_rest x k j"
      | "(y, n) \<in> fblks g F" "(get_buddy_offset y n, n) \<in> fblks g F" using y(1) b by blast
    then show False
    proof cases
      case 1
      then show ?thesis using rest[OF 1] bud nox nor b by auto
    next
      case 2
      then obtain l where "get_buddy_offset y n = x + level_to_size n" "n < j" using rest by blast
      then have "y = x" using bud[of n] buddy_twice[of y n] by simp
      then show ?thesis using y(1) nox \<open>n < j\<close> nor by blast
    next
      case 3
      then show ?thesis using mergedD[OF m] y(2) by blast
    qed
  qed
qed

lemma sum_keeps: "keeps A g g' \<Longrightarrow> (\<Sum>a\<in>A. siz g' a) = (\<Sum>a\<in>A. siz g a)"
  by (rule sum.cong) (auto simp: keeps_def)

lemma gpu_run_inv: "gpu_run ok tot g A \<Longrightarrow> \<exists>F D. gpu_inv ok tot g A F D"
proof (induction rule: gpu_run.induct)
  case (gr_init g)
  have "merged (size_to_level tot) {(0, size_to_level tot)}" by (simp add: merged_def)
  then show ?case using init_core[OF gr_init refl]
    by (intro exI[of _ "(\<lambda>_. [])(size_to_level tot := [0])"] exI[of _ "[]"]) (simp add: gpu_inv_def del: fun_upd_apply)
next
  case (gr_alloc g A ro avx2 sz al i g')
  then obtain F D where I: "gpu_inv ok tot g A F D" by blast
  let ?M = "size_to_level tot"
  have c: "gpu_core ?M g F A D {}" using I by (simp add: gpu_inv_def)
  have sz: "sz \<le> MAX_BLOCK_SIZE" "al \<le> MAX_BLOCK_SIZE"
    using gr_alloc(3) by (auto simp: gpu_buddy_alloc_def split: if_splits)
  show ?case
  proof (rule alloc_spec[OF c sz refl, of avx2 ro], goal_cases fail ok)
    case (ok i' j g'' F' D')
    then have e: "i' = i" "g'' = g'" using gr_alloc(3) by simp_all
    have "(\<Sum>a\<in>insert i A. siz g' a) = siz g' i + (\<Sum>a\<in>A. siz g a)"
      using ok(5) sum_keeps[OF ok(3)] core_finite[OF c] e by simp
    then have "gb_allocated_bytes g' = word_of_nat (\<Sum>a\<in>insert i A. siz g' a)"
      using ok(4) I e by (simp add: gpu_inv_def add.commute)
    moreover have "gb_total_size g' = tot" using ok(3) I e by (simp add: keeps_def gpu_inv_def)
    moreover have "ok \<longrightarrow> merged ?M (fblks g' F')"
      using merged_alloc[OF c ok(8,7)] ok(9) I e by (simp add: gpu_inv_def)
    ultimately show ?case using ok(2) e unfolding gpu_inv_def by blast
  qed (use gr_alloc(3) in simp)
next
  case (gr_fail g A ro avx2 sz al g')
  then obtain F D where I: "gpu_inv ok tot g A F D" by blast
  let ?M = "size_to_level tot"
  have c: "gpu_core ?M g F A D {}" using I by (simp add: gpu_inv_def)
  show ?case
  proof (cases "sz \<le> MAX_BLOCK_SIZE \<and> al \<le> MAX_BLOCK_SIZE")
    case False
    then have "g' = g" using gr_fail(3) by (auto simp: gpu_buddy_alloc_def split: if_splits)
    then show ?thesis using I by blast
  next
    case True
    show ?thesis
    proof (rule alloc_spec[OF c _ _ refl, of sz al avx2 ro], goal_cases a b fail ok)
      case (fail g'' F' D')
      then have e: "g'' = g'" using gr_fail(3) by simp
      have "gb_allocated_bytes g' = word_of_nat (\<Sum>a\<in>A. siz g' a)"
        using fail(4) I e sum_keeps[OF fail(3)] by (simp add: gpu_inv_def)
      moreover have "gb_total_size g' = tot" using fail(3) I e by (simp add: keeps_def gpu_inv_def)
      moreover have "ok \<longrightarrow> merged ?M (fblks g' F')" using fail(5) gr_fail(2) I e by (auto simp: gpu_inv_def)
      ultimately show ?case using fail(2) e unfolding gpu_inv_def by blast
    qed (use gr_fail(3) True in simp_all)
  qed
next
  case (gr_free g A i)
  then obtain F D where I: "gpu_inv ok tot g A F D" by blast
  have c: "gpu_core (size_to_level tot) g F A D {}" using I by (simp add: gpu_inv_def)
  show ?case
  proof (rule free_spec[OF c gr_free(2)], goal_cases)
    case (1 g' F' D')
    have "(\<Sum>a\<in>A. siz g a) = siz g i + (\<Sum>a\<in>A - {i}. siz g' a)"
      using sum.remove[of A i "siz g"] core_finite[OF c] gr_free(2) sum_keeps[OF 1(3)] by simp
    then have "gb_allocated_bytes g' = word_of_nat (\<Sum>a\<in>A - {i}. siz g' a)"
      using 1(4) I by (simp add: gpu_inv_def)
    moreover have "gb_total_size g' = tot" using 1(3) I by (simp add: keeps_def gpu_inv_def)
    ultimately show ?case using 1 I unfolding gpu_inv_def by blast
  qed
next
  case (gr_frag g A g')
  then obtain F D where I: "gpu_inv ok tot g A F D" by blast
  obtain q where "g' = g\<lparr>gb_fragmentation_ratio := q\<rparr>" using gr_frag(2)
    by (auto simp: buddy_update_fragmentation_def Let_def split: if_splits option.splits)
  then show ?case using I gpu_inv_same[of g' g] by auto
next
  case (gr_vk g A q m)
  then show ?case using gpu_inv_same[of "g\<lparr>gb_memory := m, gb_mapped_ptr := q\<rparr>" g] by auto
qed

lemma gpu_run_core:
  assumes "gpu_run ok tot g A"
  obtains F D where "gpu_core (size_to_level tot) g F A D {}" "ok \<longrightarrow> merged (size_to_level tot) (fblks g F)"
    "gb_total_size g = tot" "gb_allocated_bytes g = word_of_nat (\<Sum>a\<in>A. siz g a)"
  using gpu_run_inv[OF assms] by (auto simp: gpu_inv_def)

text \<open>The bytes of an allocation.\<close>

definition gpu_range :: "gpu_buddy \<Rightarrow> nat \<Rightarrow> nat set" where
  "gpu_range g i = {off g i..<off g i + level_to_size (lev g i)}"

lemma gpu_range_blk: "gpu_range g i = blk_range level_to_size (gblk g i)"
  by (simp add: gpu_range_def blk_range_def gblk_def)

lemma core_disjoint:
  assumes "gpu_core M g F A D X" "a \<in> A" "b \<in> A" "a \<noteq> b"
  shows "gpu_range g a \<inter> gpu_range g b = {}"
proof -
  have gs: "gslots M g F A D X" using assms(1) by (simp add: gpu_core_def)
  have ne: "gblk g a \<noteq> gblk g b" using gslotsD(11)[OF gs] assms by (meson UnCI inj_onD)
  show ?thesis unfolding gpu_range_blk by (rule tiling_disjoint[OF gslotsD(12)[OF gs] _ _ ne]) (use assms in auto)
qed

lemma pow2_level: "2 ^ n \<le> level_to_size k \<Longrightarrow> 2 ^ n dvd level_to_size k"
  unfolding level_to_size_pow by (intro le_imp_power_dvd) (simp add: power_increasing_iff)

section \<open>A concrete state\<close>

definition demo_gpu :: gpu_buddy where
  "demo_gpu = snd (gpu_buddy_init True 67108864)"

lemma demo_gpu_init: "gpu_buddy_init True 67108864 = (LGX_SUCCESS, demo_gpu)"
  by (simp add: demo_gpu_def gpu_buddy_init_def Let_def)

lemma demo_gpu_run: "gpu_run ok 67108864 demo_gpu {}"
  by (rule gr_init[OF demo_gpu_init])

text \<open>The level of a whole power of two.\<close>

lemma size_to_level_exact:
  assumes "k \<le> 18"
  shows "size_to_level (level_to_size k) = k"
proof -
  have "level_to_size k \<le> level_to_size 18" using assms gb.bsize_le[of k 18 18] by simp
  then have "level_to_size k \<le> MAX_BLOCK_SIZE" by (simp add: level_to_size_eq MAX_BLOCK_SIZE_def)
  from size_to_level_spec(2)[OF this] have "\<not> size_to_level (level_to_size k) < k" by (simp add: not_less[symmetric])
  moreover have "\<not> k < size_to_level (level_to_size k)"
  proof
    assume a: "k < size_to_level (level_to_size k)"
    then have "level_to_size (size_to_level (level_to_size k) - 1) < level_to_size k" using size_to_level_spec(3)[of "level_to_size k"] by simp
    then have "size_to_level (level_to_size k) - 1 < k" by simp
    with a show False by simp
  qed
  ultimately show ?thesis by simp
qed

lemma level_26: "size_to_level 67108864 = 18"
  using size_to_level_exact[of 18] by (simp add: level_to_size_eq)

section \<open>Properties\<close>

text \<open>
  C12. In every reachable state the free lists are proper doubly linked lists of free descriptors, the
  recycled slots form a list of their own, and the descriptors in use tile the managed range; while
  no \<open>realloc\<close> fails, no two free buddies are left unmerged.
\<close>

theorem gpu_run_invariant:
  assumes "gpu_run ok tot g A"
  shows "\<exists>F D. gpu_core (size_to_level tot) g F A D {} \<and> (ok \<longrightarrow> merged (size_to_level tot) (fblks g F))"
  using gpu_run_inv[OF assms] unfolding gpu_inv_def by blast

theorem gpu_run_invariant_witness:
  "\<exists>F D. gpu_core 18 demo_gpu F {} D {} \<and> merged 18 (fblks demo_gpu F)"
  using gpu_run_invariant[OF demo_gpu_run[of True]] by (simp add: level_26)

text \<open>
  A successful allocation is a new descriptor whose block lies in the managed range, is large
  enough, starts at a multiple of any power-of-two alignment asked for and overlaps no other
  allocation; the offsets and sizes of the other allocations do not change.
\<close>

theorem gpu_alloc_disjoint:
  assumes run: "gpu_run ok tot g A" and ro: "ok \<Longrightarrow> \<forall>n. ro n"
    and al: "gpu_buddy_alloc avx2 ro sz al g = (Some i, g')"
  shows "i \<notin> A \<and> gpu_run ok tot g' (insert i A) \<and> gpu_range g' i \<subseteq> {..<level_to_size (size_to_level tot)} \<and>
    max sz al \<le> level_to_size (lev g' i) \<and> (\<forall>n. al = 2 ^ n \<longrightarrow> al dvd off g' i) \<and>
    (\<forall>a\<in>A. gpu_range g' i \<inter> gpu_range g' a = {} \<and> off g' a = off g a \<and> siz g' a = siz g a)"
proof -
  obtain F D where c: "gpu_core (size_to_level tot) g F A D {}" using gpu_run_core[OF run] by blast
  have sz: "sz \<le> MAX_BLOCK_SIZE" "al \<le> MAX_BLOCK_SIZE"
    using al by (auto simp: gpu_buddy_alloc_def split: if_splits)
  show ?thesis
  proof (rule alloc_spec[OF c sz refl, of avx2 ro], goal_cases fail ok)
    case (ok i' j g'' F' D')
    then have e: "i' = i" "g'' = g'" using al by simp_all
    have gs: "gslots (size_to_level tot) g' F' (insert i A) D' {}" using ok(2) e by (simp add: gpu_core_def)
    have wf: "wf_blk level_to_size (size_to_level tot) (off g' i, lev g' i)"
      using gslots_wf[OF gs, of i] by (simp add: gblk_def)
    have fit: "max sz al \<le> level_to_size (lev g' i)"
      using size_to_level_spec(2)[of "max sz al"] sz ok(6) e by (simp add: want_def)
    have "al dvd off g' i" if "al = 2 ^ n" for n
    proof -
      have "al dvd level_to_size (lev g' i)" using pow2_level[of n "lev g' i"] fit that by simp
      then show ?thesis using wf by (auto simp: wf_blk_def intro: dvd_trans)
    qed
    moreover have "gpu_range g' i \<inter> gpu_range g' a = {}" if "a \<in> A" for a
      using core_disjoint[OF ok(2), of i a] ok(5) that e by auto
    moreover have "gpu_range g' i \<subseteq> {..<level_to_size (size_to_level tot)}" using wf by (auto simp: gpu_range_def wf_blk_def)
    ultimately show ?case using fit ok(3,5) e gr_alloc[OF run ro al] by (auto simp: keeps_def)
  qed (use al in simp)
qed

lemma fresh_alloc:
  assumes g: "gpu_buddy_init True tot = (LGX_SUCCESS, g)" and sz: "sz \<le> MAX_BLOCK_SIZE" "al \<le> MAX_BLOCK_SIZE"
    and k: "want sz al \<le> size_to_level tot"
  obtains i g' F D where "gpu_buddy_alloc avx2 (\<lambda>_. True) sz al g = (Some i, g')" "off g' i = 0" "lev g' i = want sz al"
    "gpu_core (size_to_level tot) g' F {i} D {}" "fblks g' F = split_rest 0 (want sz al) (size_to_level tot)"
proof -
  let ?M = "size_to_level tot"
  have I: "gpu_core ?M g ((\<lambda>_. [])(?M := [0])) {} [] {}" "fblks g ((\<lambda>_. [])(?M := [0])) = {(0, ?M)}"
    using init_core[OF g refl] by blast+
  show thesis
  proof (rule alloc_spec[OF I(1) sz refl, of avx2 "\<lambda>_. True"], goal_cases fail ok)
    case (fail g' F' D')
    then show thesis using k by auto
  next
    case (ok i j g' F' D')
    then have "off g' i = 0" "j = ?M" using I(2) by auto
    then show thesis using that[of i g' F' D'] ok I(2) by auto
  qed
qed

lemma demo_gpu_alloc: "\<exists>i g'. gpu_buddy_alloc False (\<lambda>_. True) 1000 4096 demo_gpu = (Some i, g')"
proof -
  have w: "want 1000 4096 \<le> size_to_level 67108864"
    using size_to_level_spec(1)[of "max 1000 4096"] by (simp add: want_def level_26)
  have sz: "1000 \<le> MAX_BLOCK_SIZE" "4096 \<le> MAX_BLOCK_SIZE" by (simp_all add: MAX_BLOCK_SIZE_def)
  show ?thesis by (rule fresh_alloc[OF demo_gpu_init sz w, of False]) blast
qed

theorem gpu_alloc_disjoint_witness:
  "\<exists>i g'. gpu_buddy_alloc False (\<lambda>_. True) 1000 4096 demo_gpu = (Some i, g') \<and> 4096 dvd off g' i \<and>
     gpu_run True 67108864 g' {i} \<and> 4096 \<le> level_to_size (lev g' i)"
proof -
  obtain i g' where a: "gpu_buddy_alloc False (\<lambda>_. True) 1000 4096 demo_gpu = (Some i, g')"
    using demo_gpu_alloc by blast
  note T = gpu_alloc_disjoint[OF demo_gpu_run[of True] _ a]
  have "(4096 :: nat) = 2 ^ 12 \<longrightarrow> 4096 dvd off g' i" using T by blast
  then show ?thesis using T a by auto
qed

lemma free_block_list:
  assumes c: "gpu_core M g F A D {}" and e: "\<And>l. k \<le> l \<Longrightarrow> F l = []" and m: "(x, l) \<in> fblks g F"
  shows "l < k"
proof -
  have gs: "gslots M g F A D {}" using c by (simp add: gpu_core_def)
  obtain i where "i \<in> set (F l)" using fblks_mem[OF gs] m by blast
  then show ?thesis using e[of l] by (cases "k \<le> l") auto
qed

lemma core_tiling:
  assumes "gpu_core M g F A D {}"
  shows "tiling level_to_size M (gblk g ` A \<union> fblks g F)"
proof -
  have gs: "gslots M g F A D {}" using assms by (simp add: gpu_core_def)
  have "gblk g ` (fslots F \<union> A \<union> {}) = gblk g ` A \<union> fblks g F" by (auto simp: fblks_def)
  then show ?thesis using gslotsD(12)[OF gs] by simp
qed

text \<open>
  C13. While no \<open>realloc\<close> fails, a request of at most 64 MB is refused exactly if every aligned range of
  the block size it rounds up to overlaps an allocation (so never for fragmentation that merging
  could undo).
\<close>

theorem gpu_alloc_complete:
  assumes run: "gpu_run True tot g A" and sz: "sz \<le> MAX_BLOCK_SIZE" "al \<le> MAX_BLOCK_SIZE" and k: "k = size_to_level (max sz al)"
  shows "fst (gpu_buddy_alloc avx2 (\<lambda>_. True) sz al g) = None \<longleftrightarrow>
    (\<forall>x. level_to_size k dvd x \<longrightarrow> x + level_to_size k \<le> level_to_size (size_to_level tot) \<longrightarrow>
       (\<exists>a\<in>A. gpu_range g a \<inter> {x..<x + level_to_size k} \<noteq> {}))"
proof -
  let ?M = "size_to_level tot"
  obtain F D where c: "gpu_core ?M g F A D {}" and mg: "merged ?M (fblks g F)" using gpu_run_core[OF run] by blast
  note T = core_tiling[OF c]
  have kw: "want sz al = k" by (simp add: k want_def)
  show ?thesis
  proof (rule alloc_spec[OF c sz kw[symmetric], of avx2 "\<lambda>_. True"], goal_cases fail ok)
    case (fail g' F' D')
    then have e: "\<And>l. k \<le> l \<Longrightarrow> F l = []" by blast
    have "\<exists>a\<in>A. gpu_range g a \<inter> {x..<x + level_to_size k} \<noteq> {}"
      if x: "level_to_size k dvd x" "x + level_to_size k \<le> level_to_size ?M" for x
    proof (rule ccontr)
      assume none: "\<not> ?thesis"
      have "level_to_size k \<le> level_to_size ?M" using x(2) by simp
      then have "k \<le> ?M" using level_to_size_mono[of ?M k] by linarith
      then have wf: "wf_blk level_to_size ?M (x, k)" using x by (simp add: wf_blk_def)
      have "blk_range level_to_size b \<inter> blk_range level_to_size (x, k) = {}" if "b \<in> gblk g ` A" for b
      proof -
        from that obtain a where "a \<in> A" "b = gblk g a" by blast
        then show ?thesis using none by (auto simp: gpu_range_blk[symmetric] blk_range_def[of _ "(x, k)"])
      qed
      then obtain y j where "(y, j) \<in> fblks g F" "k \<le> j"
        using gb.free_space_is_block[OF T mergedD[OF mg] wf] by blast
      then show False using free_block_list[OF c e] by fastforce
    qed
    then show ?case using fail(1) by simp
  next
    case (ok i j g' F' D')
    let ?x = "off g' i"
    have jx: "wf_blk level_to_size ?M (?x, j)" using tiling_wf[OF T] ok(8) by blast
    have jM: "j \<le> ?M" using jx by (simp add: wf_blk_def)
    have kj: "level_to_size k \<le> level_to_size j" "level_to_size k dvd level_to_size j"
      using gb.bsize_le[of k j j] gb.bsize_dvd[of k j j] ok(7) by simp_all
    have x: "level_to_size k dvd ?x" "?x + level_to_size k \<le> level_to_size ?M"
      using jx kj by (auto simp: wf_blk_def intro: dvd_trans)
    have "gpu_range g a \<inter> {?x..<?x + level_to_size k} = {}" if a: "a \<in> A" for a
    proof -
      have gs: "gslots ?M g F A D {}" using c by (simp add: gpu_core_def)
      have "gblk g a \<noteq> (?x, j)"
      proof
        assume e: "gblk g a = (?x, j)"
        obtain m where m: "m \<in> fslots F" "gblk g m = (?x, j)" using ok(8) by (auto simp: fblks_def)
        have "m = a" using gslotsD(11)[OF gs] m e a by (metis UnCI inj_onD)
        then show False using gslotsD(6)[OF gs a] fslots_free[OF gs m(1)] by simp
      qed
      then have "blk_range level_to_size (gblk g a) \<inter> blk_range level_to_size (?x, j) = {}"
        using tiling_disjoint[OF T, of "gblk g a" "(?x, j)"] a ok(8) by blast
      moreover have "{?x..<?x + level_to_size k} \<subseteq> blk_range level_to_size (?x, j)" using kj by (auto simp: blk_range_def)
      ultimately show ?thesis unfolding gpu_range_blk by blast
    qed
    then show ?case using x ok(1) by auto
  qed
qed

theorem gpu_alloc_complete_witness:
  "fst (gpu_buddy_alloc False (\<lambda>_. True) 1000 256 demo_gpu) \<noteq> None"
proof -
  let ?k = "size_to_level (max 1000 256)"
  have "?k \<le> 18" by (rule size_to_level_spec)
  then have "level_to_size ?k \<le> level_to_size 18" using gb.bsize_le[of ?k 18 18] by simp
  then have "\<exists>x. level_to_size ?k dvd x \<and> x + level_to_size ?k \<le> level_to_size (size_to_level 67108864)"
    by (intro exI[of _ 0]) (simp add: level_26)
  then show ?thesis
    using gpu_alloc_complete[OF demo_gpu_run[of True], of 1000 256 _ False] by (auto simp: MAX_BLOCK_SIZE_def)
qed

text \<open>
  C14. Once everything is freed, and no \<open>realloc\<close> ever failed, the pool is one free block of its top level
  again, no byte counts as allocated, and every other descriptor slot is on the stack of recycled ones.
\<close>

theorem gpu_all_freed:
  assumes run: "gpu_run True tot g {}"
  shows "\<exists>i D. gb_free_lists g (size_to_level tot) = Some i \<and> gblk g i = (0, size_to_level tot) \<and> gk_next (gb_blocks g i) = None \<and>
    (\<forall>l. l \<noteq> size_to_level tot \<longrightarrow> gb_free_lists g l = None) \<and> gb_allocated_bytes g = 0 \<and>
    linked (nx g) (gb_dead_blocks g) D \<and> gb_num_blocks g = Suc (length D)"
proof -
  let ?M = "size_to_level tot"
  obtain F D where c: "gpu_core ?M g F {} D {}" and mg: "merged ?M (fblks g F)"
    and b: "gb_allocated_bytes g = word_of_nat (\<Sum>a\<in>{}. siz g a)" using gpu_run_core[OF run] by blast
  have gs: "gslots ?M g F {} D {}" and gl: "glinks g F D" using c by (simp_all add: gpu_core_def)
  have "tiling level_to_size ?M (fblks g F)" using core_tiling[OF c] by simp
  from gb.coalesced_is_whole[OF this mergedD[OF mg]] have one: "fblks g F = {(0, ?M)}" .
  then obtain i where i: "i \<in> set (F ?M)" "off g i = 0" using fblks_mem[OF gs] by blast
  have inj: "inj_on (gblk g) (fslots F)" using gslotsD(11)[OF gs] by simp
  have iF: "i \<in> fslots F" using fslotsI[of i F ?M] i(1) by simp
  have fs: "fslots F = {i}"
  proof
    show "fslots F \<subseteq> {i}"
    proof
      fix j assume j: "j \<in> fslots F"
      then have "gblk g j = gblk g i" using one iF unfolding fblks_def by (metis imageI singletonD)
      then show "j \<in> {i}" using inj_onD[OF inj _ j] iF by simp
    qed
  qed (use iF in simp)
  have others: "F l = []" if "l \<noteq> ?M" for l
  proof (cases "F l")
    case (Cons j js)
    then have "j \<in> set (F l)" by simp
    then have "j = i" using fs fslotsI[of j F l] by blast
    then have "l = ?M" using gslots_only[OF gs i(1), of l] \<open>j \<in> set (F l)\<close> by simp
    then show ?thesis using that by simp
  qed
  have FM: "F ?M = [i]"
  proof -
    have "set (F ?M) = {i}" using fs i(1) fslotsI[of _ F ?M] by blast
    then show ?thesis using glinksD(2)[OF gl, of ?M]
      by (cases "F ?M"; cases "tl (F ?M)") auto
  qed
  have "gb_free_lists g ?M = Some i" "gk_next (gb_blocks g i) = None" using glinksD(1)[OF gl, of ?M] FM by (auto simp: nx_def)
  moreover have "gb_free_lists g l = None" if "l \<noteq> ?M" for l using head_empty[OF gl, of l] others[OF that] by simp
  moreover have "gblk g i = (0, ?M)" using i gslotsD(4)[OF gs i(1)] by (simp add: gblk_def)
  moreover have "gb_num_blocks g = Suc (length D)"
  proof -
    have "{..<gb_num_blocks g} = insert i (set D)" using gslotsD(10)[OF gs] fs by simp
    moreover have "i \<notin> set D" using gslotsD(9)[OF gs] fs by blast
    ultimately have "card {..<gb_num_blocks g} = Suc (card (set D))" by simp
    then show ?thesis using distinct_card[OF linked_distinct[OF glinksD(3)[OF gl]]] by simp
  qed
  ultimately show ?thesis using b glinksD(3)[OF gl] by auto
qed

theorem gpu_all_freed_witness:
  "\<exists>i g1. gpu_buddy_alloc False (\<lambda>_. True) 1000 4096 demo_gpu = (Some i, g1) \<and>
     gb_allocated_bytes (gpu_buddy_free (Some i) g1) = 0 \<and> gb_free_lists (gpu_buddy_free (Some i) g1) 18 \<noteq> None"
proof -
  obtain i g' where a: "gpu_buddy_alloc False (\<lambda>_. True) 1000 4096 demo_gpu = (Some i, g')"
    using demo_gpu_alloc by blast
  have "gpu_run True 67108864 g' {i}" using gr_alloc[OF demo_gpu_run[of True] _ a] by simp
  from gr_free[OF this, of i] have "gpu_run True 67108864 (gpu_buddy_free (Some i) g') {}" by simp
  from gpu_all_freed[OF this] a show ?thesis by (auto simp: level_26)
qed

lemma tiling_sum:
  assumes t: "tiling sz hi (f ` S)" and inj: "inj_on f S" and A: "A \<subseteq> S" "finite A"
  shows "(\<Sum>a\<in>A. sz (snd (f a))) \<le> sz hi"
proof -
  have dis: "\<forall>a\<in>A. \<forall>b\<in>A. a \<noteq> b \<longrightarrow> blk_range sz (f a) \<inter> blk_range sz (f b) = {}"
    using t inj A(1) by (meson imageI inj_onD subsetD tiling_disjoint)
  have "(\<Sum>a\<in>A. sz (snd (f a))) = (\<Sum>a\<in>A. card (blk_range sz (f a)))" by (simp add: blk_range_def)
  also have "\<dots> = card (\<Union>a\<in>A. blk_range sz (f a))"
    using A(2) dis by (intro card_UN_disjoint[symmetric]) (simp_all add: blk_range_def)
  also have "\<dots> \<le> card {..<sz hi}"
  proof (rule card_mono)
    have "(\<Union>b\<in>f ` S. blk_range sz b) = {..<sz hi}" using t by (simp add: tiling_def)
    then show "(\<Union>a\<in>A. blk_range sz (f a)) \<subseteq> {..<sz hi}" using A(1) by blast
  qed simp
  finally show ?thesis by simp
qed

lemma core_top_alone:
  assumes c: "gpu_core M g F A D {}" and a: "a \<in> A" "lev g a = M"
  shows "A = {a}"
proof -
  have gs: "gslots M g F A D {}" using c by (simp add: gpu_core_def)
  have top: "gblk g a = (0, M)" using gslots_wf[OF gs, of a] a by (simp add: gblk_def wf_blk_def)
  have "b = a" if b: "b \<in> A" for b
  proof (rule ccontr)
    assume ne: "b \<noteq> a"
    have "wf_blk level_to_size M (gblk g b)" using gslots_wf[OF gs, of b] b by simp
    then have "gpu_range g b \<subseteq> gpu_range g a"
      using top by (cases "gblk g b") (auto simp: gpu_range_blk blk_range_def wf_blk_def)
    moreover have "gpu_range g b \<noteq> {}" unfolding gpu_range_blk by (rule range_nonempty)
    ultimately show False using core_disjoint[OF c b a(1) ne] by blast
  qed
  then show ?thesis using a(1) by blast
qed

lemma unat_word_of_nat: "n < 2 ^ 64 \<Longrightarrow> unat (word_of_nat n :: u64) = n"
  by (simp add: unat_of_nat take_bit_nat_eq_self)

lemma run_bytes_sum:
  assumes run: "gpu_run ok tot g A" and t: "tot < 2 ^ 64"
  shows "unat (gb_allocated_bytes g) = (\<Sum>a\<in>A. siz g a) \<and> (\<Sum>a\<in>A. siz g a) \<le> max tot (level_to_size (size_to_level tot))"
proof -
  let ?M = "size_to_level tot"
  obtain F D where c: "gpu_core ?M g F A D {}" and tt: "gb_total_size g = tot"
    and b: "gb_allocated_bytes g = word_of_nat (\<Sum>a\<in>A. siz g a)" using gpu_run_core[OF run] by blast
  have gs: "gslots ?M g F A D {}" using c by (simp add: gpu_core_def)
  have bnd: "(\<Sum>a\<in>A. siz g a) \<le> max tot (level_to_size ?M)"
  proof (cases "\<exists>a\<in>A. siz g a \<noteq> level_to_size (lev g a)")
    case True
    then obtain a where a: "a \<in> A" "siz g a \<noteq> level_to_size (lev g a)" by blast
    then have "lev g a = ?M" "siz g a = tot" using gslotsD(13)[OF gs, of a] tt by auto
    then show ?thesis using core_top_alone[OF c a(1)] by simp
  next
    case False
    then have "(\<Sum>a\<in>A. siz g a) = (\<Sum>a\<in>A. level_to_size (snd (gblk g a)))" by (simp add: gblk_def)
    also have "\<dots> \<le> level_to_size ?M"
      using core_finite[OF c] by (intro tiling_sum[OF gslotsD(12)[OF gs] gslotsD(11)[OF gs]]) auto
    finally show ?thesis by simp
  qed
  have "level_to_size ?M \<le> level_to_size 18" using gb.bsize_le[of ?M 18 18] size_to_level_spec(1)[of tot] by simp
  then have "level_to_size ?M < 2 ^ 64" by (simp add: level_to_size_eq)
  then have "(\<Sum>a\<in>A. siz g a) < 2 ^ 64" using bnd t by linarith
  then have "unat (gb_allocated_bytes g) = (\<Sum>a\<in>A. siz g a)" unfolding b by (rule unat_word_of_nat)
  then show ?thesis using bnd by blast
qed

text \<open>
  The counter of allocated bytes is the sum of the sizes of the allocations and never wraps around.
\<close>

theorem gpu_bytes_exact:
  assumes run: "gpu_run ok tot g A" and t: "tot < 2 ^ 64"
  shows "unat (gb_allocated_bytes g) = (\<Sum>a\<in>A. siz g a) \<and> (\<Sum>a\<in>A. siz g a) \<le> max tot (level_to_size (size_to_level tot))"
  by (rule run_bytes_sum[OF assms])

theorem gpu_bytes_exact_witness: "unat (gb_allocated_bytes demo_gpu) = 0"
  using gpu_bytes_exact[OF demo_gpu_run[of True]] by simp

text \<open>
  A pool whose size is not a block size (a budget capped to 80 percent of a small heap) hands out
  memory it does not have: the initial descriptor gets the next larger level, and the second of two
  requests for half of it lies partly or wholly behind the end of the pool.
\<close>

theorem gpu_capped_pool_overrun:
  assumes init: "gpu_buddy_init True tot = (LGX_SUCCESS, g)" and M: "size_to_level tot = Suc k"
    and small: "tot < level_to_size (Suc k)" and sz: "size_to_level sz = k" "sz \<le> MAX_BLOCK_SIZE"
  shows "\<exists>i g1 j g2. gpu_buddy_alloc avx2 (\<lambda>_. True) sz 1 g = (Some i, g1) \<and>
    gpu_buddy_alloc avx2 (\<lambda>_. True) sz 1 g1 = (Some j, g2) \<and> off g2 j + siz g2 j > tot"
proof -
  have w: "want sz 1 = k"
  proof (cases "sz = 0")
    case True
    then show ?thesis using sz(1) by (simp add: want_def size_to_level_def MIN_BLOCK_SIZE_def)
  next
    case False
    then have "max sz 1 = sz" by simp
    then show ?thesis using sz(1) by (simp add: want_def)
  qed
  have al: "1 \<le> MAX_BLOCK_SIZE" by (simp add: MAX_BLOCK_SIZE_def)
  have wM: "want sz 1 \<le> size_to_level tot" using w M by simp
  obtain i g1 F D where a: "gpu_buddy_alloc avx2 (\<lambda>_. True) sz 1 g = (Some i, g1)" "gpu_core (Suc k) g1 F {i} D {}"
    "fblks g1 F = split_rest 0 k (Suc k)"
    by (rule fresh_alloc[OF init sz(2) al wM, of avx2]) (use w M in auto)
  have fb: "fblks g1 F = {(level_to_size k, k)}" unfolding a(3) by (auto simp: split_rest_def less_Suc_eq)
  show ?thesis
  proof (rule alloc_spec[OF a(2) sz(2) al w[symmetric], of avx2 "\<lambda>_. True"], goal_cases fail ok)
    case (fail g' F' D')
    then have e: "\<And>l. k \<le> l \<Longrightarrow> F l = []" by blast
    have "(level_to_size k, k) \<in> fblks g1 F" using fb by simp
    then have "k < k" by (intro free_block_list[OF a(2) e])
    then show ?case by simp
  next
    case (ok j m g2 F' D')
    then have o: "off g2 j = level_to_size k" using fb by auto
    have gs: "gslots (Suc k) g2 F' (insert j {i}) D' {}" using ok(2) by (simp add: gpu_core_def)
    have "siz g2 j = level_to_size k" using gslotsD(13)[OF gs, of j] ok(6) by auto
    then have "off g2 j + siz g2 j = level_to_size (Suc k)" using o by (simp add: level_to_size_Suc)
    then show ?case using a(1) ok(1) small by auto
  qed
qed

theorem gpu_capped_pool_overrun_witness:
  "\<exists>i g1 j g2. gpu_buddy_alloc False (\<lambda>_. True) 33554432 1 (snd (gpu_buddy_init True 50331648)) = (Some i, g1) \<and>
    gpu_buddy_alloc False (\<lambda>_. True) 33554432 1 g1 = (Some j, g2) \<and> off g2 j + siz g2 j > 50331648"
proof -
  have i: "gpu_buddy_init True 50331648 = (LGX_SUCCESS, snd (gpu_buddy_init True 50331648))"
    by (simp add: gpu_buddy_init_def Let_def)
  have k: "size_to_level 33554432 = 17" using size_to_level_exact[of 17] by (simp add: level_to_size_eq)
  have M: "size_to_level 50331648 = Suc 17"
  proof -
    let ?l = "size_to_level 50331648"
    have "50331648 \<le> level_to_size ?l" by (rule size_to_level_spec(2)) (simp add: MAX_BLOCK_SIZE_def)
    moreover have "level_to_size 17 = 33554432" by (simp add: level_to_size_eq)
    ultimately have "\<not> ?l \<le> 17" using gb.bsize_le[of ?l 17 17] by linarith
    then show ?thesis using size_to_level_spec(1)[of 50331648] by linarith
  qed
  have "50331648 < level_to_size (Suc 17)" by (simp add: level_to_size_eq)
  from gpu_capped_pool_overrun[OF i M this k, of False] show ?thesis by (simp add: MAX_BLOCK_SIZE_def)
qed

section \<open>Fragmentation\<close>

lemma frag_walk_linked:
  "linked (nx g) p xs \<Longrightarrow> gpu_frag_walk g p n b = Some (n + length xs, b + (\<Sum>i\<leftarrow>xs. siz g i))"
proof (induction xs arbitrary: p n b)
  case Nil
  then show ?case by (simp add: gpu_frag_walk.simps)
next
  case (Cons a xs)
  then show ?case by (subst gpu_frag_walk.simps) (simp add: nx_def)
qed

lemma frag_levels_linked:
  assumes "\<And>l. linked (nx g) (gb_free_lists g l) (F l)"
  shows "\<exists>r. gpu_frag_levels g ls n b = Some r"
  by (induction ls arbitrary: n b) (auto simp: frag_walk_linked[OF assms])

lemma frag_defined: "gpu_core M g F A D X \<Longrightarrow> \<exists>q. buddy_update_fragmentation g = Some (g\<lparr>gb_fragmentation_ratio := q\<rparr>)"
proof -
  assume "gpu_core M g F A D X"
  then have gl: "glinks g F D" by (simp add: gpu_core_def)
  have "linked (nx g) (gb_free_lists g l) (F l)" for l by (rule dll_linked[OF glinksD(1)[OF gl]])
  then obtain n b where "gpu_frag_levels g [0..<19] 0 0 = Some (n, b)" using frag_levels_linked by fastforce
  then show ?thesis by (auto simp: buddy_update_fragmentation_def Let_def)
qed

end
