(* ===== verification/Gpu_Pool.thy ===== *)
theory Gpu_Pool
  imports Gpu_Properties
begin

text \<open>
  The GPU memory pool (\<^verbatim>\<open>src/runtime/lgx_gpu_pool.c\<close>, \<open>find_memory_type\<close> to the end): one
  buddy allocator per memory type over a block of Vulkan memory, budgets, handles and statistics.

  Vulkan is a parameter: the memory properties of the device, and what \<open>vkAllocateMemory\<close> and
  \<open>vkMapMemory\<close> return; the calls that allocate, map, unmap and free are recorded in a log. The
  mutex serialises the operations. A handle is a value, its \<open>malloc\<close> an argument of the allocation.
  The product \<open>heap_size * 0.8\<close> is computed in rational arithmetic and rounded down.
\<close>

section \<open>Data\<close>

definition GPU_DEVICE_LOCAL_SIZE :: nat where "GPU_DEVICE_LOCAL_SIZE = 256 * 1024 * 1024"
definition GPU_HOST_VISIBLE_SIZE :: nat where "GPU_HOST_VISIBLE_SIZE = 64 * 1024 * 1024"
definition GPU_HOST_CACHED_SIZE :: nat where "GPU_HOST_CACHED_SIZE = 16 * 1024 * 1024"

definition LGX_GPU_DEVICE_LOCAL :: nat where "LGX_GPU_DEVICE_LOCAL = 0"
definition LGX_GPU_HOST_VISIBLE :: nat where "LGX_GPU_HOST_VISIBLE = 1"
definition LGX_GPU_HOST_CACHED :: nat where "LGX_GPU_HOST_CACHED = 2"
definition LGX_GPU_MEMORY_TYPE_COUNT :: nat where "LGX_GPU_MEMORY_TYPE_COUNT = 3"

lemmas pool_consts [lgx_consts] =
  GPU_DEVICE_LOCAL_SIZE_def GPU_HOST_VISIBLE_SIZE_def GPU_HOST_CACHED_SIZE_def LGX_GPU_DEVICE_LOCAL_def
  LGX_GPU_HOST_VISIBLE_def LGX_GPU_HOST_CACHED_def LGX_GPU_MEMORY_TYPE_COUNT_def

lemma TYPE_COUNT [simp]: "LGX_GPU_MEMORY_TYPE_COUNT = 3" by (simp add: LGX_GPU_MEMORY_TYPE_COUNT_def)

abbreviation UINT32_MAX :: nat where "UINT32_MAX \<equiv> 2 ^ 32 - 1"

text \<open>\<open>VkMemoryPropertyFlagBits\<close>\<close>

definition VK_DEVICE_LOCAL :: u32 where "VK_DEVICE_LOCAL = 1"
definition VK_HOST_VISIBLE :: u32 where "VK_HOST_VISIBLE = 2"
definition VK_HOST_COHERENT :: u32 where "VK_HOST_COHERENT = 4"
definition VK_HOST_CACHED :: u32 where "VK_HOST_CACHED = 8"

record vk_memory_type =
  vt_flags :: u32
  vt_heap :: nat

record vk_memory_properties =
  vm_types :: "vk_memory_type list"
  vm_heap_size :: "nat \<Rightarrow> nat"

datatype vk_call = Vk_allocate nat nat | Vk_map nat | Vk_unmap nat | Vk_free nat

record gpu_pool =
  gp_initialized :: bool
  gp_memory_properties :: vk_memory_properties
  gp_memory_type_indices :: "nat \<Rightarrow> nat"
  gp_memory_type_available :: "nat \<Rightarrow> bool"
  gp_total_budget :: "nat \<Rightarrow> nat"
  gp_used_budget :: "nat \<Rightarrow> u64"
  gp_allocators :: "nat \<Rightarrow> gpu_buddy"
  gp_allocation_count :: u64
  gp_deallocation_count :: u64
  gp_allocation_failures :: u64
  gp_vk_calls :: "vk_call list"

record gpu_allocation =
  ha_memory_type :: nat
  ha_block_index :: nat
  ha_memory :: "nat option"
  ha_offset :: nat
  ha_size :: nat
  ha_mapped_ptr :: "nat option"

record gpu_init_env =
  ge_properties :: vk_memory_properties
  ge_calloc :: "nat \<Rightarrow> bool"
  ge_allocate :: "nat \<Rightarrow> nat option"
  ge_map :: "nat \<Rightarrow> nat option"

section \<open>Memory types and budgets\<close>

definition find_memory_type :: "vk_memory_properties \<Rightarrow> u32 \<Rightarrow> u32 \<Rightarrow> nat" where
  "find_memory_type props type_filter properties =
     (case find (\<lambda>i. type_filter AND push_bit i 1 \<noteq> 0 \<and> vt_flags (vm_types props ! i) AND properties = properties)
             [0..<length (vm_types props)] of
        Some i \<Rightarrow> i
      | None \<Rightarrow> UINT32_MAX)"

definition set_type :: "nat \<Rightarrow> nat \<Rightarrow> nat \<Rightarrow> gpu_pool \<Rightarrow> gpu_pool" where
  "set_type t index budget p =
     p\<lparr>gp_memory_type_indices := (gp_memory_type_indices p)(t := index),
       gp_memory_type_available := (gp_memory_type_available p)(t := True),
       gp_total_budget := (gp_total_budget p)(t := budget)\<rparr>"

definition unset_type :: "nat \<Rightarrow> gpu_pool \<Rightarrow> gpu_pool" where
  "unset_type t p = p\<lparr>gp_memory_type_available := (gp_memory_type_available p)(t := False)\<rparr>"

definition detect_memory_types :: "vk_memory_properties \<Rightarrow> gpu_pool \<Rightarrow> gpu_pool" where
  "detect_memory_types props p0 =
     (let p = p0\<lparr>gp_memory_properties := props\<rparr>;
          device_local = find_memory_type props (- 1) VK_DEVICE_LOCAL;
          p1 = (if device_local \<noteq> UINT32_MAX then set_type LGX_GPU_DEVICE_LOCAL device_local GPU_DEVICE_LOCAL_SIZE p
                else unset_type LGX_GPU_DEVICE_LOCAL p);
          host_visible = find_memory_type props (- 1) (VK_HOST_VISIBLE OR VK_HOST_COHERENT);
          p2 = (if host_visible \<noteq> UINT32_MAX then set_type LGX_GPU_HOST_VISIBLE host_visible GPU_HOST_VISIBLE_SIZE p1
                else unset_type LGX_GPU_HOST_VISIBLE p1);
          host_cached = find_memory_type props (- 1) (VK_HOST_VISIBLE OR VK_HOST_CACHED OR VK_HOST_COHERENT)
      in if host_cached \<noteq> UINT32_MAX then set_type LGX_GPU_HOST_CACHED host_cached GPU_HOST_CACHED_SIZE p2
         else if host_visible \<noteq> UINT32_MAX then set_type LGX_GPU_HOST_CACHED host_visible GPU_HOST_CACHED_SIZE p2
         else unset_type LGX_GPU_HOST_CACHED p2)"

definition query_memory_budget :: "gpu_pool \<Rightarrow> gpu_pool" where
  "query_memory_budget p =
     p\<lparr>gp_total_budget := (\<lambda>t.
         if t < LGX_GPU_MEMORY_TYPE_COUNT \<and> gp_memory_type_available p t then
           let heap_index = vt_heap (vm_types (gp_memory_properties p) ! gp_memory_type_indices p t);
               heap_size = vm_heap_size (gp_memory_properties p) heap_index;
               max_budget = heap_size * 8 div 10
           in if gp_total_budget p t > max_budget then max_budget else gp_total_budget p t
         else gp_total_budget p t)\<rparr>"

section \<open>Shutdown and initialisation\<close>

definition shutdown_type :: "gpu_pool \<Rightarrow> nat \<Rightarrow> gpu_pool" where
  "shutdown_type p t =
     (if gp_memory_type_available p t then
        let a = gp_allocators p t;
            unmaps = (case gb_mapped_ptr a of None \<Rightarrow> [] | Some _ \<Rightarrow> [Vk_unmap (the (gb_memory a))]);
            frees = (case gb_memory a of None \<Rightarrow> [] | Some m \<Rightarrow> [Vk_free m])
        in p\<lparr>gp_vk_calls := gp_vk_calls p @ unmaps @ frees,
             gp_allocators := (gp_allocators p)(t := gpu_buddy_shutdown a)\<rparr>
      else p)"

definition lgx_gpu_pool_shutdown :: "gpu_pool \<Rightarrow> lgx_result \<times> gpu_pool" where
  "lgx_gpu_pool_shutdown p =
     (if \<not> gp_initialized p then (LGX_SUCCESS, p)
      else (LGX_SUCCESS, (foldl shutdown_type p [0..<LGX_GPU_MEMORY_TYPE_COUNT])\<lparr>gp_initialized := False\<rparr>))"

fun init_types :: "gpu_init_env \<Rightarrow> nat list \<Rightarrow> gpu_pool \<Rightarrow> lgx_result \<times> gpu_pool" where
  "init_types e [] p = (LGX_SUCCESS, p)"
| "init_types e (t # ts) p =
     (if \<not> gp_memory_type_available p t then init_types e ts p
      else
        let alloc_size = gp_total_budget p t;
            (result, a) = gpu_buddy_init (ge_calloc e t) alloc_size;
            p1 = p\<lparr>gp_allocators := (gp_allocators p)(t := a)\<rparr>
        in if result \<noteq> LGX_SUCCESS then (result, snd (lgx_gpu_pool_shutdown p1))
           else
             (case ge_allocate e t of
                None \<Rightarrow>
                  (LGX_ERROR_OUT_OF_MEMORY,
                   snd (lgx_gpu_pool_shutdown
                     (p\<lparr>gp_allocators := (gp_allocators p)(t := a\<lparr>gb_memory := None, gb_mapped_ptr := None\<rparr>)\<rparr>)))
              | Some m \<Rightarrow>
                  let host = (t = LGX_GPU_HOST_VISIBLE \<or> t = LGX_GPU_HOST_CACHED);
                      mapped = (if host then ge_map e t else None);
                      calls = Vk_allocate m alloc_size # (if mapped \<noteq> None then [Vk_map m] else [])
                  in init_types e ts
                       (p\<lparr>gp_allocators := (gp_allocators p)(t := a\<lparr>gb_memory := Some m, gb_mapped_ptr := mapped\<rparr>),
                          gp_vk_calls := gp_vk_calls p @ calls\<rparr>)))"

text \<open>\<open>handles\<close>: none of the three Vulkan handles is \<open>NULL\<close>.\<close>

definition lgx_gpu_pool_init :: "bool \<Rightarrow> bool \<Rightarrow> gpu_init_env \<Rightarrow> gpu_pool \<Rightarrow> lgx_result \<times> gpu_pool" where
  "lgx_gpu_pool_init handles mutex_ok e p =
     (if gp_initialized p then (LGX_SUCCESS, p)
      else if \<not> handles then (LGX_ERROR_INVALID_PARAM, p)
      else if \<not> mutex_ok then (LGX_ERROR_INVALID_PARAM, p)
      else
        let p1 = query_memory_budget (detect_memory_types (ge_properties e) p);
            p2 = p1\<lparr>gp_allocation_count := 0, gp_deallocation_count := 0, gp_allocation_failures := 0,
                    gp_used_budget := (\<lambda>t. if t < LGX_GPU_MEMORY_TYPE_COUNT then 0 else gp_used_budget p1 t),
                    gp_initialized := True\<rparr>
        in init_types e [0..<LGX_GPU_MEMORY_TYPE_COUNT] p2)"

section \<open>Queries\<close>

definition lgx_gpu_pool_is_memory_type_available :: "nat \<Rightarrow> gpu_pool \<Rightarrow> bool" where
  "lgx_gpu_pool_is_memory_type_available t p =
     (if \<not> gp_initialized p \<or> t \<ge> LGX_GPU_MEMORY_TYPE_COUNT then False else gp_memory_type_available p t)"

definition lgx_gpu_pool_get_memory_budget :: "nat \<Rightarrow> gpu_pool \<Rightarrow> nat" where
  "lgx_gpu_pool_get_memory_budget t p =
     (if \<not> gp_initialized p \<or> t \<ge> LGX_GPU_MEMORY_TYPE_COUNT then 0 else gp_total_budget p t)"

definition lgx_gpu_pool_get_memory_used :: "nat \<Rightarrow> gpu_pool \<Rightarrow> u64" where
  "lgx_gpu_pool_get_memory_used t p =
     (if \<not> gp_initialized p \<or> t \<ge> LGX_GPU_MEMORY_TYPE_COUNT then 0 else gp_used_budget p t)"

definition lgx_gpu_pool_get_fragmentation :: "nat \<Rightarrow> gpu_pool \<Rightarrow> rat" where
  "lgx_gpu_pool_get_fragmentation t p =
     (if \<not> gp_initialized p \<or> t \<ge> LGX_GPU_MEMORY_TYPE_COUNT then 0
      else if \<not> gp_memory_type_available p t then 0
      else gb_fragmentation_ratio (gp_allocators p t))"

definition lgx_gpu_pool_get_peak_usage :: "nat \<Rightarrow> gpu_pool \<Rightarrow> u64" where
  "lgx_gpu_pool_get_peak_usage t p =
     (if \<not> gp_initialized p \<or> t \<ge> LGX_GPU_MEMORY_TYPE_COUNT then 0
      else if \<not> gp_memory_type_available p t then 0
      else gb_peak_allocated_bytes (gp_allocators p t))"

definition lgx_gpu_pool_block_count :: "nat \<Rightarrow> gpu_pool \<Rightarrow> nat" where
  "lgx_gpu_pool_block_count t p =
     (if \<not> gp_initialized p \<or> t \<ge> LGX_GPU_MEMORY_TYPE_COUNT then 0
      else if \<not> gp_memory_type_available p t then 0
      else gb_num_blocks (gp_allocators p t))"

section \<open>Allocation and deallocation\<close>

text \<open>
  What the calls out of \<open>lgx_gpu_alloc\<close> answer: the two questions to the chaos testing, \<open>malloc\<close> of the
  handle, \<open>realloc\<close> of the descriptor array, the presence of AVX2.
\<close>

record gpu_alloc_env =
  gx_hang :: bool
  gx_fail :: bool
  gx_malloc :: bool
  gx_realloc :: "nat \<Rightarrow> bool"
  gx_avx2 :: bool

definition lgx_gpu_alloc ::
    "gpu_alloc_env \<Rightarrow> nat \<Rightarrow> nat \<Rightarrow> nat \<Rightarrow> gpu_pool \<Rightarrow> gpu_allocation option \<times> gpu_pool" where
  "lgx_gpu_alloc x sz alignment t p =
     (if gx_hang x then (None, p)
      else if gx_fail x then (None, p)
      else if \<not> gp_initialized p \<or> t \<ge> LGX_GPU_MEMORY_TYPE_COUNT then (None, p)
      else if \<not> gp_memory_type_available p t then (None, p)
      else
        (case gpu_buddy_alloc (gx_avx2 x) (gx_realloc x) sz alignment (gp_allocators p t) of
           (None, a) \<Rightarrow>
             (None, p\<lparr>gp_allocators := (gp_allocators p)(t := a),
                      gp_allocation_failures := gp_allocation_failures p + 1\<rparr>)
         | (Some i, a) \<Rightarrow>
             if \<not> gx_malloc x
             then (None, p\<lparr>gp_allocators := (gp_allocators p)(t := gpu_buddy_free (Some i) a)\<rparr>)
             else
               let b = gb_blocks a i;
                   h = \<lparr>ha_memory_type = t, ha_block_index = i, ha_memory = gb_memory a, ha_offset = gk_offset b,
                        ha_size = gk_size b,
                        ha_mapped_ptr = map_option (\<lambda>q. q + gk_offset b) (gb_mapped_ptr a)\<rparr>
               in (Some h, p\<lparr>gp_allocators := (gp_allocators p)(t := a),
                             gp_used_budget := (gp_used_budget p)(t := gp_used_budget p t + word_of_nat (gk_size b)),
                             gp_allocation_count := gp_allocation_count p + 1\<rparr>)))"

text \<open>\<open>None\<close> if the walk over a free list does not end.\<close>

definition lgx_gpu_free :: "gpu_allocation option \<Rightarrow> gpu_pool \<Rightarrow> gpu_pool option" where
  "lgx_gpu_free alloc p =
     (case alloc of
        None \<Rightarrow> Some p
      | Some h \<Rightarrow>
          if \<not> gp_initialized p then Some p
          else
            let t = ha_memory_type h
            in if t \<ge> LGX_GPU_MEMORY_TYPE_COUNT then Some p
               else
                 let p1 = p\<lparr>gp_used_budget := (gp_used_budget p)(t := gp_used_budget p t - word_of_nat (ha_size h)),
                            gp_deallocation_count := gp_deallocation_count p + 1\<rparr>;
                     a = gp_allocators p t
                 in if ha_block_index h < gb_num_blocks a then
                      (case buddy_update_fragmentation (gpu_buddy_free (Some (ha_block_index h)) a) of
                         None \<Rightarrow> None
                       | Some a' \<Rightarrow> Some (p1\<lparr>gp_allocators := (gp_allocators p)(t := a')\<rparr>))
                    else Some p1)"

definition lgx_gpu_get_memory :: "gpu_allocation option \<Rightarrow> nat option" where
  "lgx_gpu_get_memory alloc = (case alloc of Some h \<Rightarrow> ha_memory h | None \<Rightarrow> None)"

definition lgx_gpu_get_offset :: "gpu_allocation option \<Rightarrow> nat" where
  "lgx_gpu_get_offset alloc = (case alloc of Some h \<Rightarrow> ha_offset h | None \<Rightarrow> 0)"

definition lgx_gpu_get_size :: "gpu_allocation option \<Rightarrow> nat" where
  "lgx_gpu_get_size alloc = (case alloc of Some h \<Rightarrow> ha_size h | None \<Rightarrow> 0)"

definition lgx_gpu_get_mapped_ptr :: "gpu_allocation option \<Rightarrow> nat option" where
  "lgx_gpu_get_mapped_ptr alloc = (case alloc of Some h \<Rightarrow> ha_mapped_ptr h | None \<Rightarrow> None)"

end
