(* ===== verification/Gpu_Pool_Properties.thy ===== *)
theory Gpu_Pool_Properties
  imports Gpu_Pool
begin

text \<open>
  What holds of the GPU memory pool: the handles that clients hold denote disjoint ranges of the
  memory of their type, the used budgets are exact, every deallocation returns; and how the pool
  accounts for the Vulkan memory it creates.
\<close>

section \<open>The allocator as the pool uses it\<close>

lemma run_alloc:
  assumes run: "gpu_run ok tot g A" and al: "gpu_buddy_alloc avx2 ro sz al g = (Some i, g')"
  shows "i \<notin> A \<and> keeps A g g'"
proof -
  obtain F D where c: "gpu_core (size_to_level tot) g F A D {}" using gpu_run_core[OF run] by blast
  have sz: "sz \<le> MAX_BLOCK_SIZE" "al \<le> MAX_BLOCK_SIZE" using al by (auto simp: gpu_buddy_alloc_def split: if_splits)
  show ?thesis by (rule alloc_spec[OF c sz refl, of avx2 ro]) (use al in auto)
qed

lemma run_alloc_fail:
  assumes run: "gpu_run ok tot g A" and al: "gpu_buddy_alloc avx2 ro sz al g = (None, g')"
  shows "keeps A g g'"
proof (cases "sz \<le> MAX_BLOCK_SIZE \<and> al \<le> MAX_BLOCK_SIZE")
  case True
  obtain F D where c: "gpu_core (size_to_level tot) g F A D {}" using gpu_run_core[OF run] by blast
  show ?thesis by (rule alloc_spec[OF c _ _ refl, of sz al avx2 ro]) (use al True in auto)
next
  case False
  then show ?thesis using al by (auto simp: gpu_buddy_alloc_def split: if_splits)
qed

lemma run_free:
  assumes run: "gpu_run ok tot g A" and i: "i \<in> A"
  shows "i < gb_num_blocks g \<and> keeps (A - {i}) g (gpu_buddy_free (Some i) g) \<and>
    (\<exists>q. buddy_update_fragmentation (gpu_buddy_free (Some i) g) = Some ((gpu_buddy_free (Some i) g)\<lparr>gb_fragmentation_ratio := q\<rparr>))"
proof -
  obtain F D where c: "gpu_core (size_to_level tot) g F A D {}" using gpu_run_core[OF run] by blast
  have "i < gb_num_blocks g" using core_finite[OF c] i by auto
  moreover have "keeps (A - {i}) g (gpu_buddy_free (Some i) g)" by (rule free_spec[OF c i]) simp
  moreover obtain F' D' where "gpu_core (size_to_level tot) (gpu_buddy_free (Some i) g) F' (A - {i}) D' {}"
    by (rule free_spec[OF c i]) blast
  ultimately show ?thesis using frag_defined by blast
qed

lemma run_finite: "gpu_run ok tot g A \<Longrightarrow> finite A"
  using gpu_run_core core_finite by metis

lemma run_disjoint:
  assumes "gpu_run ok tot g A" "a \<in> A" "b \<in> A" "a \<noteq> b"
  shows "gpu_range g a \<inter> gpu_range g b = {}"
  using gpu_run_core[OF assms(1)] core_disjoint[OF _ assms(2-4)] by metis

section \<open>Reachable states of the pool\<close>

text \<open>
  The pool after an initialisation of \<open>p0\<close> in the environment \<open>e\<close> and any allocations and
  deallocations since; \<open>H\<close> are the handles that clients hold.
\<close>

inductive pool_run :: "gpu_init_env \<Rightarrow> gpu_pool \<Rightarrow> gpu_pool \<Rightarrow> gpu_allocation set \<Rightarrow> bool" for e p0 where
  pr_init: "\<not> gp_initialized p0 \<Longrightarrow> lgx_gpu_pool_init True True e p0 = (LGX_SUCCESS, p) \<Longrightarrow> pool_run e p0 p {}"
| pr_alloc: "pool_run e p0 p H \<Longrightarrow> lgx_gpu_alloc x sz al t p = (Some h, p') \<Longrightarrow> pool_run e p0 p' (insert h H)"
| pr_fail: "pool_run e p0 p H \<Longrightarrow> lgx_gpu_alloc x sz al t p = (None, p') \<Longrightarrow> pool_run e p0 p' H"
| pr_free: "pool_run e p0 p H \<Longrightarrow> h \<in> H \<Longrightarrow> lgx_gpu_free (Some h) p = Some p' \<Longrightarrow> pool_run e p0 p' (H - {h})"

definition of_type :: "nat \<Rightarrow> gpu_allocation set \<Rightarrow> gpu_allocation set" where
  "of_type t H = {h \<in> H. ha_memory_type h = t}"

definition handle_ok :: "gpu_buddy \<Rightarrow> gpu_allocation \<Rightarrow> bool" where
  "handle_ok a h \<longleftrightarrow> ha_offset h = off a (ha_block_index h) \<and> ha_size h = siz a (ha_block_index h) \<and>
     ha_memory h = gb_memory a \<and> ha_mapped_ptr h = map_option (\<lambda>q. q + ha_offset h) (gb_mapped_ptr a)"

definition type_inv :: "gpu_pool \<Rightarrow> gpu_allocation set \<Rightarrow> nat \<Rightarrow> bool" where
  "type_inv p H t \<longleftrightarrow>
     (if gp_memory_type_available p t
      then gpu_run False (gp_total_budget p t) (gp_allocators p t) (ha_block_index ` of_type t H) \<and>
        inj_on ha_block_index (of_type t H) \<and> (\<forall>h\<in>of_type t H. handle_ok (gp_allocators p t) h)
      else of_type t H = {}) \<and>
     gp_used_budget p t = word_of_nat (\<Sum>h\<in>of_type t H. ha_size h)"

definition pool_inv :: "gpu_pool \<Rightarrow> gpu_allocation set \<Rightarrow> bool" where
  "pool_inv p H \<longleftrightarrow> gp_initialized p \<and> (\<forall>h\<in>H. ha_memory_type h < 3) \<and> (\<forall>t<3. type_inv p H t)"

lemma type_inv_cong:
  assumes "gp_memory_type_available p' t = gp_memory_type_available p t" "gp_total_budget p' t = gp_total_budget p t"
    "gp_allocators p' t = gp_allocators p t" "of_type t H' = of_type t H" "gp_used_budget p' t = gp_used_budget p t"
  shows "type_inv p' H' t = type_inv p H t"
  using assms by (simp add: type_inv_def)

lemma of_type_insert: "of_type t (insert h H) = (if ha_memory_type h = t then insert h (of_type t H) else of_type t H)"
  by (auto simp: of_type_def)

lemma of_type_remove: "of_type t (H - {h}) = of_type t H - {h}"
  by (auto simp: of_type_def)

lemma handle_ok_keeps: "keeps A a a' \<Longrightarrow> ha_block_index h \<in> A \<Longrightarrow> handle_ok a' h = handle_ok a h"
  by (auto simp: handle_ok_def keeps_def)

lemma finite_of_type:
  assumes "type_inv p H t" shows "finite (of_type t H)"
proof (cases "gp_memory_type_available p t")
  case True
  then show ?thesis using assms run_finite finite_imageD unfolding type_inv_def by (metis (full_types))
qed (use assms in \<open>simp add: type_inv_def\<close>)

section \<open>Initialisation\<close>

lemma init_types_state:
  assumes "init_types e ts p = (LGX_SUCCESS, p')" "distinct ts"
  shows "gp_memory_type_available p' = gp_memory_type_available p \<and> gp_total_budget p' = gp_total_budget p \<and>
    gp_used_budget p' = gp_used_budget p \<and> gp_initialized p' = gp_initialized p \<and>
    (\<forall>t. t \<notin> set ts \<longrightarrow> gp_allocators p' t = gp_allocators p t) \<and>
    (\<forall>t\<in>set ts. gp_memory_type_available p t \<longrightarrow> gpu_run ok (gp_total_budget p t) (gp_allocators p' t) {})"
  using assms
proof (induction ts arbitrary: p)
  case (Cons t ts)
  show ?case
  proof (cases "gp_memory_type_available p t")
    case False
    then show ?thesis using Cons by auto
  next
    case True
    obtain r a where ra: "gpu_buddy_init (ge_calloc e t) (gp_total_budget p t) = (r, a)" by fastforce
    have ok: "r = LGX_SUCCESS" "ge_calloc e t"
      using Cons.prems(1) True ra by (auto simp: gpu_buddy_init_def Let_def split: if_splits)
    obtain m where m: "ge_allocate e t = Some m" using Cons.prems(1) True ra ok by (auto split: option.splits)
    define a' where "a' = a\<lparr>gb_memory := Some m,
      gb_mapped_ptr := (if t = LGX_GPU_HOST_VISIBLE \<or> t = LGX_GPU_HOST_CACHED then ge_map e t else None)\<rparr>"
    have g: "gpu_run ok (gp_total_budget p t) a' {}"
      unfolding a'_def by (rule gr_vk[OF gr_init]) (use ra ok in simp)
    obtain cs where i: "init_types e ts (p\<lparr>gp_allocators := (gp_allocators p)(t := a'), gp_vk_calls := cs\<rparr>) = (LGX_SUCCESS, p')"
      using Cons.prems(1) True ra ok m by (auto simp: a'_def Let_def)
    from Cons.IH[OF i] Cons.prems(2) g show ?thesis by auto
  qed
qed simp

lemma pool_init_inv:
  assumes "\<not> gp_initialized p0" "lgx_gpu_pool_init True True e p0 = (LGX_SUCCESS, p)"
  shows "pool_inv p {}"
proof -
  obtain p2 where p2: "init_types e [0..<3] p2 = (LGX_SUCCESS, p)" "gp_initialized p2" "\<forall>t<3. gp_used_budget p2 t = 0"
    using assms by (auto simp: lgx_gpu_pool_init_def Let_def)
  from init_types_state[OF p2(1)] p2(2,3) show ?thesis
    by (auto simp: pool_inv_def type_inv_def of_type_def)
qed


section \<open>Allocation and deallocation keep the invariant\<close>

lemma gpu_alloc_step:
  assumes I: "pool_inv p H" and al: "lgx_gpu_alloc x sz al t p = (Some h, p')"
  shows "pool_inv p' (insert h H) \<and> h \<notin> H \<and> ha_memory_type h = t \<and> t < 3 \<and> gp_memory_type_available p t \<and>
    gp_memory_type_available p' = gp_memory_type_available p \<and> gp_total_budget p' = gp_total_budget p \<and>
    (\<exists>i a. gpu_buddy_alloc (gx_avx2 x) (gx_realloc x) sz al (gp_allocators p t) = (Some i, a) \<and> ha_block_index h = i \<and>
       gp_allocators p' t = a)"
proof -
  have t: "t < 3" "gp_memory_type_available p t" using al by (auto simp: lgx_gpu_alloc_def split: if_splits)
  obtain r a where r: "gpu_buddy_alloc (gx_avx2 x) (gx_realloc x) sz al (gp_allocators p t) = (r, a)" by fastforce
  obtain i where i: "r = Some i" and h: "h = \<lparr>ha_memory_type = t, ha_block_index = i, ha_memory = gb_memory a, ha_offset = off a i,
      ha_size = siz a i, ha_mapped_ptr = map_option (\<lambda>q. q + off a i) (gb_mapped_ptr a)\<rparr>"
    and p': "p' = p\<lparr>gp_allocators := (gp_allocators p)(t := a),
      gp_used_budget := (gp_used_budget p)(t := gp_used_budget p t + word_of_nat (siz a i)),
      gp_allocation_count := gp_allocation_count p + 1\<rparr>"
    using al r by (auto simp: lgx_gpu_alloc_def Let_def split: if_splits option.splits)
  let ?T = "of_type t H"
  have T: "type_inv p H t" using I t by (simp add: pool_inv_def)
  then have run: "gpu_run False (gp_total_budget p t) (gp_allocators p t) (ha_block_index ` ?T)"
    and inj: "inj_on ha_block_index ?T" and ok: "\<forall>h\<in>?T. handle_ok (gp_allocators p t) h"
    and u: "gp_used_budget p t = word_of_nat (\<Sum>h\<in>?T. ha_size h)" using t by (simp_all add: type_inv_def)
  have new: "i \<notin> ha_block_index ` ?T" and kp: "keeps (ha_block_index ` ?T) (gp_allocators p t) a"
    using run_alloc[OF run] r i by auto
  have nh: "h \<notin> ?T" using new h by force
  have run': "gpu_run False (gp_total_budget p t) a (insert i (ha_block_index ` ?T))"
    by (rule gr_alloc[OF run]) (use r i in auto)
  have ok': "\<forall>h'\<in>insert h ?T. handle_ok a h'"
  proof
    fix h' assume h': "h' \<in> insert h ?T"
    show "handle_ok a h'"
    proof (cases "h' = h")
      case True
      show ?thesis unfolding True by (simp add: h handle_ok_def)
    next
      case False
      then show ?thesis using h' ok handle_ok_keeps[OF kp] by blast
    qed
  qed
  have f: "of_type t (insert h H) = insert h ?T" "ha_block_index h = i" "ha_size h = siz a i" by (simp_all add: of_type_insert h)
  have "type_inv p' (insert h H) t"
    unfolding type_inv_def f(1)
    using run' inj nh new ok' u finite_of_type[OF T] t f(2,3) by (simp add: p' add.commute)
  moreover have "type_inv p' (insert h H) s" if "s < 3" "s \<noteq> t" for s
  proof -
    have "of_type s (insert h H) = of_type s H" using that h by (simp add: of_type_insert)
    then have "type_inv p' (insert h H) s = type_inv p H s" using that by (intro type_inv_cong) (simp_all add: p')
    then show ?thesis using I that by (simp add: pool_inv_def)
  qed
  ultimately have "pool_inv p' (insert h H)" using I t by (auto simp: pool_inv_def p' h)
  moreover have "h \<notin> H" using nh h by (auto simp: of_type_def)
  ultimately show ?thesis using r i h t by (auto simp: p')
qed

lemma gpu_alloc_fail_step:
  assumes I: "pool_inv p H" and al: "lgx_gpu_alloc x sz al t p = (None, p')"
  shows "pool_inv p' H"
proof (cases "gp_allocators p' = gp_allocators p")
  case True
  have "gp_initialized p' = gp_initialized p" "gp_memory_type_available p' = gp_memory_type_available p"
    "gp_total_budget p' = gp_total_budget p" "gp_used_budget p' = gp_used_budget p"
    using al by (auto simp: lgx_gpu_alloc_def Let_def split: if_splits option.splits prod.splits)
  then show ?thesis using I True type_inv_cong[of p' _ p H H] by (simp add: pool_inv_def)
next
  case False
  then have t: "t < 3" "gp_memory_type_available p t" using al by (auto simp: lgx_gpu_alloc_def split: if_splits)
  obtain r a where r: "gpu_buddy_alloc (gx_avx2 x) (gx_realloc x) sz al (gp_allocators p t) = (r, a)" by fastforce
  define a' where "a' = (case r of None \<Rightarrow> a | Some i \<Rightarrow> gpu_buddy_free (Some i) a)"
  have p': "gp_initialized p' = gp_initialized p" "gp_memory_type_available p' = gp_memory_type_available p"
    "gp_total_budget p' = gp_total_budget p" "gp_used_budget p' = gp_used_budget p"
    "gp_allocators p' = (gp_allocators p)(t := a')"
    using al r t False
    by (auto simp: lgx_gpu_alloc_def Let_def a'_def split: if_splits option.splits)
  let ?T = "of_type t H" and ?A = "ha_block_index ` of_type t H"
  have T: "type_inv p H t" using I t by (simp add: pool_inv_def)
  then have run: "gpu_run False (gp_total_budget p t) (gp_allocators p t) ?A"
    and ok: "\<forall>h\<in>?T. handle_ok (gp_allocators p t) h" using t by (simp_all add: type_inv_def)
  have "gpu_run False (gp_total_budget p t) a' ?A \<and> keeps ?A (gp_allocators p t) a'"
  proof (cases r)
    case None
    then show ?thesis using gr_fail[OF run, of "gx_realloc x"] run_alloc_fail[OF run] r by (simp add: a'_def)
  next
    case (Some i)
    have n: "i \<notin> ?A" "keeps ?A (gp_allocators p t) a" using run_alloc[OF run] r Some by auto
    have run2: "gpu_run False (gp_total_budget p t) a (insert i ?A)"
      by (rule gr_alloc[OF run]) (use r Some in auto)
    have "insert i ?A - {i} = ?A" using n(1) by auto
    then show ?thesis using gr_free[OF run2, of i] run_free[OF run2, of i] Some keeps_trans[OF n(2)]
      by (simp add: a'_def)
  qed
  then have "type_inv p' H t" using T t ok handle_ok_keeps[of ?A] by (auto simp: type_inv_def p')
  moreover have "type_inv p' H s = type_inv p H s" if "s \<noteq> t" for s
    using that by (intro type_inv_cong) (simp_all add: p')
  ultimately show ?thesis using I p'(1) by (auto simp: pool_inv_def) (metis)
qed

lemma gpu_free_step:
  assumes I: "pool_inv p H" and h: "h \<in> H"
  shows "\<exists>p'. lgx_gpu_free (Some h) p = Some p' \<and> pool_inv p' (H - {h}) \<and>
    gp_used_budget p' = (gp_used_budget p)(ha_memory_type h := gp_used_budget p (ha_memory_type h) - word_of_nat (ha_size h)) \<and>
    gp_memory_type_available p' = gp_memory_type_available p \<and> gp_total_budget p' = gp_total_budget p"
proof -
  define t where "t = ha_memory_type h"
  let ?T = "of_type t H" and ?i = "ha_block_index h"
  have t: "t < 3" and hT: "h \<in> ?T" using I h by (auto simp: pool_inv_def t_def of_type_def)
  have T: "type_inv p H t" using I t by (simp add: pool_inv_def)
  have av: "gp_memory_type_available p t" using T hT by (auto simp: type_inv_def split: if_splits)
  from T av have run: "gpu_run False (gp_total_budget p t) (gp_allocators p t) (ha_block_index ` ?T)"
    and inj: "inj_on ha_block_index ?T" and ok: "\<forall>h\<in>?T. handle_ok (gp_allocators p t) h"
    and u: "gp_used_budget p t = word_of_nat (\<Sum>h\<in>?T. ha_size h)" by (simp_all add: type_inv_def)
  have iT: "?i \<in> ha_block_index ` ?T" using hT by simp
  let ?a = "gpu_buddy_free (Some ?i) (gp_allocators p t)"
  obtain q where lt: "?i < gb_num_blocks (gp_allocators p t)"
    and kp: "keeps (ha_block_index ` ?T - {?i}) (gp_allocators p t) ?a"
    and fr: "buddy_update_fragmentation ?a = Some (?a\<lparr>gb_fragmentation_ratio := q\<rparr>)"
    using run_free[OF run iT] by blast
  define a' where "a' = ?a\<lparr>gb_fragmentation_ratio := q\<rparr>"
  define p' where "p' = p\<lparr>gp_used_budget := (gp_used_budget p)(t := gp_used_budget p t - word_of_nat (ha_size h)),
    gp_deallocation_count := gp_deallocation_count p + 1, gp_allocators := (gp_allocators p)(t := a')\<rparr>"
  have f: "lgx_gpu_free (Some h) p = Some p'"
    using I t lt fr by (simp add: lgx_gpu_free_def Let_def t_def[symmetric] pool_inv_def p'_def a'_def)
  have im: "ha_block_index ` (?T - {h}) = ha_block_index ` ?T - {?i}"
    using inj hT by (auto dest: inj_onD)
  have run': "gpu_run False (gp_total_budget p t) a' (ha_block_index ` ?T - {?i})"
    unfolding a'_def by (rule gr_frag[OF gr_free[OF run iT] fr])
  have kp': "keeps (ha_block_index ` ?T - {?i}) (gp_allocators p t) a'" using kp by (simp add: keeps_def a'_def)
  have ok': "handle_ok a' h'" if "h' \<in> ?T - {h}" for h'
    using that ok handle_ok_keeps[OF kp'] im by blast
  have "(\<Sum>h\<in>?T. ha_size h) = ha_size h + (\<Sum>h\<in>?T - {h}. ha_size h)"
    using finite_of_type[OF T] hT by (rule sum.remove)
  then have "type_inv p' (H - {h}) t"
    unfolding type_inv_def of_type_remove
    using run' im inj_on_subset[OF inj, of "?T - {h}"] ok' u av by (auto simp: p'_def)
  moreover have "type_inv p' (H - {h}) s" if "s < 3" "s \<noteq> t" for s
  proof -
    have "of_type s (H - {h}) = of_type s H" using that by (auto simp: of_type_def t_def)
    then have "type_inv p' (H - {h}) s = type_inv p H s" using that by (intro type_inv_cong) (simp_all add: p'_def)
    then show ?thesis using I that by (simp add: pool_inv_def)
  qed
  ultimately have "pool_inv p' (H - {h})" using I by (auto simp: pool_inv_def p'_def)
  with f show ?thesis by (auto simp: p'_def t_def)
qed

lemma pool_run_inv: "pool_run e p0 p H \<Longrightarrow> pool_inv p H"
proof (induction rule: pool_run.induct)
  case (pr_free p H h p')
  then show ?case using gpu_free_step[OF pr_free.IH pr_free.hyps(2)] by auto
qed (simp_all add: pool_init_inv gpu_alloc_step gpu_alloc_fail_step)


section \<open>Handles\<close>

lemma run_sizes:
  assumes run: "gpu_run ok tot g A" and i: "i \<in> A"
  shows "siz g i = level_to_size (lev g i) \<or> A = {i} \<and> off g i = 0 \<and> siz g i = tot"
    and "level_to_size (size_to_level tot) \<le> tot \<Longrightarrow> off g i + siz g i \<le> tot"
proof -
  let ?M = "size_to_level tot"
  obtain F D where c: "gpu_core ?M g F A D {}" and tt: "gb_total_size g = tot" using gpu_run_core[OF run] by blast
  have gs: "gslots ?M g F A D {}" using c by (simp add: gpu_core_def)
  have wf: "wf_blk level_to_size ?M (gblk g i)" using gslots_wf[OF gs, of i] i by simp
  show s: "siz g i = level_to_size (lev g i) \<or> A = {i} \<and> off g i = 0 \<and> siz g i = tot"
  proof (cases "siz g i = level_to_size (lev g i)")
    case False
    then have top: "lev g i = ?M" "siz g i = tot" using gslotsD(13)[OF gs, of i] i tt by auto
    then show ?thesis using core_top_alone[OF c i] wf by (simp add: gblk_def wf_blk_def)
  qed simp
  show "off g i + siz g i \<le> tot" if "level_to_size ?M \<le> tot"
    using s that wf by (auto simp: gblk_def wf_blk_def)
qed

lemma run_bytes_disjoint:
  assumes run: "gpu_run ok tot g A" and a: "a \<in> A" "b \<in> A" "a \<noteq> b"
  shows "{off g a..<off g a + siz g a} \<inter> {off g b..<off g b + siz g b} = {}"
proof -
  have "siz g a = level_to_size (lev g a)" "siz g b = level_to_size (lev g b)"
    using run_sizes(1)[OF run a(1)] run_sizes(1)[OF run a(2)] a by auto
  then show ?thesis using run_disjoint[OF run a] by (simp add: gpu_range_def)
qed

definition handle_range :: "gpu_allocation \<Rightarrow> nat set" where
  "handle_range h = {ha_offset h..<ha_offset h + ha_size h}"

lemma pool_handle:
  assumes I: "pool_inv p H" and h: "h \<in> H"
  shows "gp_memory_type_available p (ha_memory_type h)" "handle_ok (gp_allocators p (ha_memory_type h)) h"
    "gpu_run False (gp_total_budget p (ha_memory_type h)) (gp_allocators p (ha_memory_type h))
       (ha_block_index ` of_type (ha_memory_type h) H)"
    "ha_block_index h \<in> ha_block_index ` of_type (ha_memory_type h) H"
    "inj_on ha_block_index (of_type (ha_memory_type h) H)"
proof -
  have T: "type_inv p H (ha_memory_type h)" and hT: "h \<in> of_type (ha_memory_type h) H"
    using I h by (auto simp: pool_inv_def of_type_def)
  show "gp_memory_type_available p (ha_memory_type h)" using T hT by (auto simp: type_inv_def split: if_splits)
  then show "handle_ok (gp_allocators p (ha_memory_type h)) h"
    "gpu_run False (gp_total_budget p (ha_memory_type h)) (gp_allocators p (ha_memory_type h))
       (ha_block_index ` of_type (ha_memory_type h) H)"
    "inj_on ha_block_index (of_type (ha_memory_type h) H)"
    using T hT by (auto simp: type_inv_def)
  show "ha_block_index h \<in> ha_block_index ` of_type (ha_memory_type h) H" using hT by simp
qed

lemma used_exact:
  assumes I: "pool_inv p H" and t: "t < 3" and b: "gp_total_budget p t < 2 ^ 64"
  shows "unat (gp_used_budget p t) = (\<Sum>h\<in>of_type t H. ha_size h)"
proof (cases "gp_memory_type_available p t")
  case True
  have T: "type_inv p H t" using I t by (simp add: pool_inv_def)
  with True have run: "gpu_run False (gp_total_budget p t) (gp_allocators p t) (ha_block_index ` of_type t H)"
    and inj: "inj_on ha_block_index (of_type t H)" and ok: "\<forall>h\<in>of_type t H. handle_ok (gp_allocators p t) h"
    and u: "gp_used_budget p t = word_of_nat (\<Sum>h\<in>of_type t H. ha_size h)" by (simp_all add: type_inv_def)
  have "(\<Sum>h\<in>of_type t H. ha_size h) = (\<Sum>i\<in>ha_block_index ` of_type t H. siz (gp_allocators p t) i)"
    using ok by (simp add: sum.reindex[OF inj] handle_ok_def)
  also have "\<dots> = unat (gb_allocated_bytes (gp_allocators p t))" using run_bytes_sum[OF run b] by simp
  finally have "(\<Sum>h\<in>of_type t H. ha_size h) < 2 ^ 64"
    using unsigned_less[of "gb_allocated_bytes (gp_allocators p t)"] by simp
  then show ?thesis unfolding u by (rule unat_word_of_nat)
next
  case False
  then show ?thesis using I t by (auto simp: pool_inv_def type_inv_def)
qed


section \<open>The Vulkan memory\<close>

text \<open>
  The rules for device memory: a handle is live from its allocation to its release; only live memory
  is mapped, only mapped memory unmapped, only live memory that is not mapped freed. \<open>None\<close> is a violation.
\<close>

fun vk_step :: "vk_call \<Rightarrow> nat set \<times> nat set \<Rightarrow> (nat set \<times> nat set) option" where
  "vk_step (Vk_allocate m n) (L, P) = (if m \<in> L then None else Some (insert m L, P))"
| "vk_step (Vk_map m) (L, P) = (if m \<in> L \<and> m \<notin> P then Some (L, insert m P) else None)"
| "vk_step (Vk_unmap m) (L, P) = (if m \<in> P then Some (L, P - {m}) else None)"
| "vk_step (Vk_free m) (L, P) = (if m \<in> L \<and> m \<notin> P then Some (L - {m}, P) else None)"

fun vk_exec :: "vk_call list \<Rightarrow> nat set \<times> nat set \<Rightarrow> (nat set \<times> nat set) option" where
  "vk_exec [] s = Some s"
| "vk_exec (c # cs) s = Option.bind (vk_step c s) (vk_exec cs)"

lemma vk_exec_append: "vk_exec (cs @ ds) s = Option.bind (vk_exec cs s) (vk_exec ds)"
  by (induction cs arbitrary: s) (auto split: Option.bind_split)

text \<open>The memory that the types in \<open>T\<close> hold, and the part of it that is mapped.\<close>

abbreviation mem_of :: "gpu_pool \<Rightarrow> nat \<Rightarrow> nat option" where "mem_of p t \<equiv> gb_memory (gp_allocators p t)"
abbreviation map_of_type :: "gpu_pool \<Rightarrow> nat \<Rightarrow> nat option" where "map_of_type p t \<equiv> gb_mapped_ptr (gp_allocators p t)"

definition held :: "gpu_pool \<Rightarrow> nat set \<Rightarrow> nat set" where
  "held p T = {m. \<exists>t\<in>T. gp_memory_type_available p t \<and> mem_of p t = Some m}"

definition mapped_held :: "gpu_pool \<Rightarrow> nat set \<Rightarrow> nat set" where
  "mapped_held p T = {m. \<exists>t\<in>T. gp_memory_type_available p t \<and> mem_of p t = Some m \<and> map_of_type p t \<noteq> None}"

lemma held_iff: "m \<in> held p T \<longleftrightarrow> (\<exists>t. t \<in> T \<and> gp_memory_type_available p t \<and> mem_of p t = Some m)"
  by (auto simp: held_def)

lemma mapped_held_iff:
  "m \<in> mapped_held p T \<longleftrightarrow> (\<exists>t. t \<in> T \<and> gp_memory_type_available p t \<and> mem_of p t = Some m \<and> map_of_type p t \<noteq> None)"
  unfolding mapped_held_def by blast

definition vk_ok :: "gpu_pool \<Rightarrow> nat set \<Rightarrow> bool" where
  "vk_ok p T \<longleftrightarrow> vk_exec (gp_vk_calls p) ({}, {}) = Some (held p T, mapped_held p T) \<and>
     (\<forall>t\<in>T. gp_memory_type_available p t \<longrightarrow> mem_of p t \<noteq> None) \<and>
     (\<forall>s\<in>T. \<forall>t\<in>T. gp_memory_type_available p s \<longrightarrow> gp_memory_type_available p t \<longrightarrow> mem_of p s = mem_of p t \<longrightarrow> s = t)"

lemma vk_ok_cong:
  assumes "gp_vk_calls p' = gp_vk_calls p" "gp_memory_type_available p' = gp_memory_type_available p"
    "\<And>t. t \<in> T \<Longrightarrow> mem_of p' t = mem_of p t" "\<And>t. t \<in> T \<Longrightarrow> map_of_type p' t = map_of_type p t"
  shows "vk_ok p' T = vk_ok p T"
proof -
  have "held p' T = held p T" "mapped_held p' T = mapped_held p T" using assms by (auto simp: held_def mapped_held_def)
  then show ?thesis using assms by (simp add: vk_ok_def)
qed

lemma shutdown_type_vk:
  assumes ok: "vk_ok p T" and idle: "t \<notin> T \<Longrightarrow> mem_of p t = None \<and> map_of_type p t = None"
  shows "vk_ok (shutdown_type p t) (T - {t})" "mem_of (shutdown_type p t) = mem_of p" "map_of_type (shutdown_type p t) = map_of_type p"
    "gp_memory_type_available (shutdown_type p t) = gp_memory_type_available p"
proof -
  show st: "mem_of (shutdown_type p t) = mem_of p" "map_of_type (shutdown_type p t) = map_of_type p"
    "gp_memory_type_available (shutdown_type p t) = gp_memory_type_available p"
    by (auto simp: shutdown_type_def Let_def gpu_buddy_shutdown_def fun_eq_iff)
  have same: "held (shutdown_type p t) S = held p S" "mapped_held (shutdown_type p t) S = mapped_held p S" for S
    using st by (auto simp: held_def mapped_held_def fun_eq_iff)
  show "vk_ok (shutdown_type p t) (T - {t})"
  proof (cases "t \<in> T \<and> gp_memory_type_available p t")
    case True
    then obtain m where m: "mem_of p t = Some m" using ok by (auto simp: vk_ok_def)
    have u: "s = t" if "s \<in> T" "gp_memory_type_available p s" "mem_of p s = Some m" for s
      using ok True m that unfolding vk_ok_def by metis
    have h: "held p (T - {t}) = held p T - {m}" "m \<in> held p T" "m \<in> mapped_held p T \<longleftrightarrow> map_of_type p t \<noteq> None"
      "mapped_held p (T - {t}) = mapped_held p T - {m}"
    proof -
      have other: "x \<noteq> m \<longleftrightarrow> s \<noteq> t" if "s \<in> T" "gp_memory_type_available p s" "mem_of p s = Some x" for s x
        using that(3) m u[of s] that(1,2) by (cases "s = t") (simp, blast)
      show "held p (T - {t}) = held p T - {m}"
        unfolding held_def by (rule set_eqI) (use other in blast)
      show "mapped_held p (T - {t}) = mapped_held p T - {m}"
        unfolding mapped_held_def by (rule set_eqI) (use other in blast)
      show "m \<in> held p T" using True m held_iff by blast
      show "m \<in> mapped_held p T \<longleftrightarrow> map_of_type p t \<noteq> None" 
        unfolding mapped_held_iff using True m u by (metis option.distinct(1))
    qed
    have "gp_vk_calls (shutdown_type p t) =
        gp_vk_calls p @ (case map_of_type p t of None \<Rightarrow> [] | Some _ \<Rightarrow> [Vk_unmap m]) @ [Vk_free m]"
      using True m by (simp add: shutdown_type_def Let_def split: option.splits)
    then have "vk_exec (gp_vk_calls (shutdown_type p t)) ({}, {}) = Some (held p (T - {t}), mapped_held p (T - {t}))"
      using ok h by (cases "map_of_type p t") (auto simp: vk_exec_append vk_ok_def)
    then show ?thesis using ok st by (auto simp: vk_ok_def same fun_eq_iff)
  next
    case False
    have "held p (T - {t}) = held p T" "mapped_held p (T - {t}) = mapped_held p T"
      using False by (auto simp: held_def mapped_held_def)
    moreover have "gp_vk_calls (shutdown_type p t) = gp_vk_calls p"
      using False idle by (auto simp: shutdown_type_def Let_def)
    ultimately show ?thesis using ok st by (auto simp: vk_ok_def same fun_eq_iff)
  qed
qed

lemma shutdown_types_vk:
  assumes "vk_ok p T" "\<And>t. t \<in> set ts \<Longrightarrow> t \<notin> T \<Longrightarrow> mem_of p t = None \<and> map_of_type p t = None" "distinct ts"
  shows "vk_ok (foldl shutdown_type p ts) (T - set ts)"
  using assms
proof (induction ts arbitrary: p T)
  case (Cons t ts)
  note S = shutdown_type_vk[OF Cons.prems(1), of t]
  have "vk_ok (foldl shutdown_type (shutdown_type p t) ts) (T - {t} - set ts)"
    using S Cons.prems(2,3) by (intro Cons.IH) (auto simp: fun_eq_iff)
  then show ?case by (simp add: Diff_insert2[of T t "set ts"] insert_commute)
qed simp

lemma shutdown_vk:
  assumes "vk_ok p T" "\<And>t. t < 3 \<Longrightarrow> t \<notin> T \<Longrightarrow> mem_of p t = None \<and> map_of_type p t = None" "T \<subseteq> {..<3}" "gp_initialized p"
  shows "vk_exec (gp_vk_calls (snd (lgx_gpu_pool_shutdown p))) ({}, {}) = Some ({}, {})"
proof -
  let ?q = "foldl shutdown_type p [0..<3]"
  have "vk_ok ?q (T - set [0..<3])" using assms by (intro shutdown_types_vk) auto
  moreover have "T - set [0..<3] = {}" using assms(3) by auto
  ultimately have "vk_ok ?q {}" by (simp only:)
  then have "vk_exec (gp_vk_calls ?q) ({}, {}) = Some ({}, {})" by (simp add: vk_ok_def held_def mapped_held_def)
  then show ?thesis using assms(4) by (simp add: lgx_gpu_pool_shutdown_def)
qed


lemma shutdown_state:
  "gp_memory_type_available (snd (lgx_gpu_pool_shutdown p)) = gp_memory_type_available p"
  "mem_of (snd (lgx_gpu_pool_shutdown p)) t = mem_of p t"
  "map_of_type (snd (lgx_gpu_pool_shutdown p)) t = map_of_type p t"
  "\<not> gp_initialized (snd (lgx_gpu_pool_shutdown p))"
proof -
  have "gp_memory_type_available (foldl shutdown_type p ts) = gp_memory_type_available p \<and>
      mem_of (foldl shutdown_type p ts) t = mem_of p t \<and> map_of_type (foldl shutdown_type p ts) t = map_of_type p t" for ts
    by (induction ts arbitrary: p) (auto simp: shutdown_type_def Let_def gpu_buddy_shutdown_def)
  then show "gp_memory_type_available (snd (lgx_gpu_pool_shutdown p)) = gp_memory_type_available p"
    "mem_of (snd (lgx_gpu_pool_shutdown p)) t = mem_of p t"
    "map_of_type (snd (lgx_gpu_pool_shutdown p)) t = map_of_type p t"
    "\<not> gp_initialized (snd (lgx_gpu_pool_shutdown p))"
    by (auto simp: lgx_gpu_pool_shutdown_def simp del: upt_Suc)
qed

text \<open>\<open>vkAllocateMemory\<close> returns a new handle for each memory type.\<close>

definition fresh_handles :: "gpu_init_env \<Rightarrow> bool" where
  "fresh_handles e \<longleftrightarrow> (\<forall>s<3. \<forall>t<3. ge_allocate e s \<noteq> None \<and> ge_allocate e s = ge_allocate e t \<longrightarrow> s = t)"

lemma init_types_vk:
  assumes e: "fresh_handles e"
  shows "init_types e ts p = (r, p') \<Longrightarrow> distinct ts \<Longrightarrow> set ts \<inter> T = {} \<Longrightarrow> set ts \<union> T = {..<3} \<Longrightarrow> gp_initialized p \<Longrightarrow>
    vk_ok p T \<Longrightarrow> (\<And>t. t \<in> set ts \<Longrightarrow> mem_of p t = None \<and> map_of_type p t = None) \<Longrightarrow>
    (\<And>t. t \<in> T \<Longrightarrow> gp_memory_type_available p t \<Longrightarrow> mem_of p t = ge_allocate e t) \<Longrightarrow>
    (if r = LGX_SUCCESS then vk_ok p' {..<3} \<and> gp_initialized p' else vk_exec (gp_vk_calls p') ({}, {}) = Some ({}, {}))"
proof (induction ts arbitrary: p T)
  case (Cons t ts)
  have t: "t \<notin> T" "t < 3" "t \<notin> set ts" using Cons.prems(2-4) by auto
  have T': "set ts \<inter> insert t T = {}" "set ts \<union> insert t T = {..<3}" using Cons.prems(2-4) by auto
  show ?case
  proof (cases "gp_memory_type_available p t")
    case False
    have "held p (insert t T) = held p T" "mapped_held p (insert t T) = mapped_held p T"
      using False by (auto simp: held_def mapped_held_def)
    then have "vk_ok p (insert t T)" using Cons.prems(6) False by (auto simp: vk_ok_def)
    moreover have "init_types e ts p = (r, p')" using Cons.prems(1) False by simp
    ultimately show ?thesis
      using Cons.prems False T' by (intro Cons.IH[of p "insert t T"]) auto
  next
    case True
    obtain r0 a where ra: "gpu_buddy_init (ge_calloc e t) (gp_total_budget p t) = (r0, a)" by fastforce
    have a0: "gb_memory a = None" "gb_mapped_ptr a = None"
      using ra by (auto simp: gpu_buddy_init_def Let_def zero_buddy_def upd_block_def gpu_set_head_def split: if_splits)
    define q where "q a' = p\<lparr>gp_allocators := (gp_allocators p)(t := a')\<rparr>" for a'
    have fail: "vk_exec (gp_vk_calls (snd (lgx_gpu_pool_shutdown (q a')))) ({}, {}) = Some ({}, {})"
      if a': "gb_memory a' = None" "gb_mapped_ptr a' = None" for a'
    proof (rule shutdown_vk)
      show "vk_ok (q a') T" using Cons.prems(6) t(1) by (subst vk_ok_cong[where p = p]) (auto simp: q_def)
      show "mem_of (q a') s = None \<and> map_of_type (q a') s = None" if "s < 3" "s \<notin> T" for s
      proof (cases "s = t")
        case False
        then have "s \<in> set (t # ts)" using that Cons.prems(4) by auto
        then show ?thesis using Cons.prems(7) False by (simp add: q_def)
      qed (simp add: q_def a')
    qed (use Cons.prems(4,5) in \<open>auto simp: q_def\<close>)
    consider (c) "r0 \<noteq> LGX_SUCCESS" | (v) "r0 = LGX_SUCCESS" "ge_allocate e t = None"
      | (ok) m where "r0 = LGX_SUCCESS" "ge_allocate e t = Some m" by blast
    then show ?thesis
    proof cases
      case c
      then show ?thesis using Cons.prems(1) True ra fail[OF a0] by (auto simp: q_def)
    next
      case v
      then show ?thesis using Cons.prems(1) True ra fail[of "a\<lparr>gb_memory := None, gb_mapped_ptr := None\<rparr>"]
        by (auto simp: q_def)
    next
      case ok
      define mp where "mp = (if t = LGX_GPU_HOST_VISIBLE \<or> t = LGX_GPU_HOST_CACHED then ge_map e t else None)"
      define p1 where "p1 = p\<lparr>gp_allocators := (gp_allocators p)(t := a\<lparr>gb_memory := Some m, gb_mapped_ptr := mp\<rparr>),
        gp_vk_calls := gp_vk_calls p @ Vk_allocate m (gp_total_budget p t) # (if mp \<noteq> None then [Vk_map m] else [])\<rparr>"
      have i: "init_types e ts p1 = (r, p')" using Cons.prems(1) True ra ok
        by (simp only: init_types.simps ra Let_def case_prod_conv option.case mp_def[symmetric] p1_def if_True if_False not_True_eq_False simp_thms)
      have new: "m \<notin> held p T"
      proof
        assume "m \<in> held p T"
        then obtain s where s: "s \<in> T" "gp_memory_type_available p s" "mem_of p s = Some m" by (auto simp: held_def)
        then have "ge_allocate e s = Some m" using Cons.prems(8) by metis
        moreover have "s < 3" using s(1) Cons.prems(4) by auto
        ultimately have "s = t" using e ok t(2) unfolding fresh_handles_def by (metis option.distinct(1))
        then show False using t(1) s(1) by simp
      qed
      then have new': "m \<notin> mapped_held p T" by (auto simp: held_def mapped_held_def)
      have h: "held p1 (insert t T) = insert m (held p T)"
        "mapped_held p1 (insert t T) = (if mp \<noteq> None then insert m (mapped_held p T) else mapped_held p T)"
        using True t by (auto simp: held_def mapped_held_def p1_def)
      have "vk_exec (gp_vk_calls p1) ({}, {}) = Some (held p1 (insert t T), mapped_held p1 (insert t T))"
        unfolding h using Cons.prems(6) new new' by (simp add: p1_def vk_ok_def vk_exec_append)
      moreover have "\<forall>s\<in>insert t T. gp_memory_type_available p1 s \<longrightarrow> mem_of p1 s \<noteq> None"
        using Cons.prems(6) t by (auto simp: vk_ok_def p1_def)
      moreover have "s = s'" if "s \<in> insert t T" "s' \<in> insert t T" "gp_memory_type_available p1 s" "gp_memory_type_available p1 s'"
        "mem_of p1 s = mem_of p1 s'" for s s'
        using that Cons.prems(6) new t by (auto simp: vk_ok_def p1_def held_def split: if_splits)
      ultimately have "vk_ok p1 (insert t T)" unfolding vk_ok_def by blast
      moreover have "mem_of p1 s = None \<and> map_of_type p1 s = None" if "s \<in> set ts" for s
        using that Cons.prems(7) t by (auto simp: p1_def)
      moreover have "mem_of p1 s = ge_allocate e s" if "s \<in> insert t T" "gp_memory_type_available p1 s" for s
        using that Cons.prems(8) ok t by (auto simp: p1_def)
      ultimately show ?thesis using Cons.prems(2,5) by (intro Cons.IH[OF i _ T']) (auto simp: p1_def)
    qed
  qed
next
  case Nil
  then show ?case by auto
qed


text \<open>Initialisation in terms of \<open>init_types\<close>.\<close>

definition pool_ready :: "gpu_init_env \<Rightarrow> gpu_pool \<Rightarrow> gpu_pool" where
  "pool_ready e p = (let p1 = query_memory_budget (detect_memory_types (ge_properties e) p) in
     p1\<lparr>gp_allocation_count := 0, gp_deallocation_count := 0, gp_allocation_failures := 0,
        gp_used_budget := (\<lambda>t. if t < LGX_GPU_MEMORY_TYPE_COUNT then 0 else gp_used_budget p1 t), gp_initialized := True\<rparr>)"

lemma pool_init_ready: "\<not> gp_initialized p \<Longrightarrow> lgx_gpu_pool_init True True e p = init_types e [0..<3] (pool_ready e p)"
  by (simp add: lgx_gpu_pool_init_def pool_ready_def Let_def)

lemma pool_ready_fields:
  "gp_vk_calls (pool_ready e p) = gp_vk_calls p" "gp_allocators (pool_ready e p) = gp_allocators p"
  "gp_initialized (pool_ready e p)"
  by (simp_all add: pool_ready_def query_memory_budget_def detect_memory_types_def set_type_def unset_type_def Let_def)

lemma detect_available:
  "t < 3 \<Longrightarrow> gp_memory_type_available (pool_ready e p) t = gp_memory_type_available (pool_ready e q) t"
  by (auto simp: pool_ready_def query_memory_budget_def detect_memory_types_def set_type_def unset_type_def Let_def
      pool_consts numeral_3_eq_3 less_Suc_eq)

lemma pool_init_vk:
  assumes e: "fresh_handles e" and p0: "\<not> gp_initialized p0" "gp_vk_calls p0 = []"
      "\<And>t. t < 3 \<Longrightarrow> mem_of p0 t = None \<and> map_of_type p0 t = None"
    and i: "lgx_gpu_pool_init True True e p0 = (r, p)"
  shows "if r = LGX_SUCCESS then vk_ok p {..<3} \<and> gp_initialized p
    else vk_exec (gp_vk_calls p) ({}, {}) = Some ({}, {})"
proof (rule init_types_vk[OF e, of "[0..<3]" "pool_ready e p0" r p "{}"])
  show "vk_ok (pool_ready e p0) {}" using p0 by (simp add: vk_ok_def pool_ready_fields held_def mapped_held_def)
qed (use p0 i in \<open>auto simp: pool_init_ready pool_ready_fields\<close>)

lemma alloc_keeps_vk:
  assumes I: "pool_inv p H" and al: "lgx_gpu_alloc x sz al t p = (r, p')"
  shows "gp_vk_calls p' = gp_vk_calls p" "gp_memory_type_available p' = gp_memory_type_available p"
    "gp_initialized p' = gp_initialized p" "mem_of p' s = mem_of p s" "map_of_type p' s = map_of_type p s"
proof -
  show "gp_vk_calls p' = gp_vk_calls p" "gp_memory_type_available p' = gp_memory_type_available p"
    "gp_initialized p' = gp_initialized p"
    using al by (auto simp: lgx_gpu_alloc_def Let_def split: if_splits option.splits prod.splits)
  show "mem_of p' s = mem_of p s" "map_of_type p' s = map_of_type p s"
  proof (atomize (full), cases "gp_allocators p' = gp_allocators p")
    case False
    then have t: "t < 3" "gp_memory_type_available p t" using al by (auto simp: lgx_gpu_alloc_def split: if_splits)
    let ?A = "ha_block_index ` of_type t H"
    have run: "gpu_run False (gp_total_budget p t) (gp_allocators p t) ?A"
      using I t by (auto simp: pool_inv_def type_inv_def)
    obtain q a where r: "gpu_buddy_alloc (gx_avx2 x) (gx_realloc x) sz al (gp_allocators p t) = (q, a)" by fastforce
    have ka: "keeps ?A (gp_allocators p t) a" using run_alloc[OF run] run_alloc_fail[OF run] r by (cases q) auto
    have kf: "keeps (insert i ?A - {i}) a (gpu_buddy_free (Some i) a)" if "q = Some i" for i
    proof -
      have "gpu_run False (gp_total_budget p t) a (insert i ?A)" by (rule gr_alloc[OF run]) (use r that in auto)
      then show ?thesis using run_free by blast
    qed
    show "mem_of p' s = mem_of p s \<and> map_of_type p' s = map_of_type p s"
      using al r t ka kf by (auto simp: lgx_gpu_alloc_def Let_def keeps_def split: if_splits option.splits)
  qed simp
qed

lemma free_keeps_vk:
  assumes I: "pool_inv p H" and h: "h \<in> H" and fr: "lgx_gpu_free (Some h) p = Some p'"
  shows "gp_vk_calls p' = gp_vk_calls p" "gp_memory_type_available p' = gp_memory_type_available p"
    "gp_initialized p' = gp_initialized p" "mem_of p' s = mem_of p s" "map_of_type p' s = map_of_type p s"
proof -
  note R = run_free[OF pool_handle(3,4)[OF I h]]
  show "gp_vk_calls p' = gp_vk_calls p" "gp_memory_type_available p' = gp_memory_type_available p"
    "gp_initialized p' = gp_initialized p"
    using fr by (auto simp: lgx_gpu_free_def Let_def split: if_splits option.splits)
  show "mem_of p' s = mem_of p s" "map_of_type p' s = map_of_type p s"
    using fr R by (auto simp: lgx_gpu_free_def Let_def keeps_def split: if_splits option.splits)
qed

lemma pool_run_vk:
  assumes e: "fresh_handles e" and p0: "gp_vk_calls p0 = []" "\<And>t. t < 3 \<Longrightarrow> mem_of p0 t = None \<and> map_of_type p0 t = None"
    and run: "pool_run e p0 p H"
  shows "vk_ok p {..<3} \<and> gp_initialized p"
  using run
proof (induction rule: pool_run.induct)
  case (pr_init p)
  then show ?case using pool_init_vk[OF e _ p0] by fastforce
next
  case (pr_alloc p H x sz al t h p')
  note K = alloc_keeps_vk[OF pool_run_inv[OF pr_alloc.hyps(1)] pr_alloc.hyps(2)]
  show ?case using pr_alloc.IH vk_ok_cong[OF K(1,2,4,5)] K(3) by simp
next
  case (pr_fail p H x sz al t p')
  note K = alloc_keeps_vk[OF pool_run_inv[OF pr_fail.hyps(1)] pr_fail.hyps(2)]
  show ?case using pr_fail.IH vk_ok_cong[OF K(1,2,4,5)] K(3) by simp
next
  case (pr_free p H h p')
  note K = free_keeps_vk[OF pool_run_inv[OF pr_free.hyps(1)] pr_free.hyps(2,3)]
  show ?case using pr_free.IH vk_ok_cong[OF K(1,2,4,5)] K(3) by simp
qed


lemma pool_run_available:
  "pool_run e p0 p H \<Longrightarrow> gp_memory_type_available p = gp_memory_type_available (pool_ready e p0)"
proof (induction rule: pool_run.induct)
  case (pr_init p)
  then show ?case using init_types_state[of e "[0..<3]" "pool_ready e p0" p] by (simp add: pool_init_ready)
next
  case (pr_alloc p H x sz al t h p')
  then show ?case using alloc_keeps_vk(2)[OF pool_run_inv] by metis
next
  case (pr_fail p H x sz al t p')
  then show ?case using alloc_keeps_vk(2)[OF pool_run_inv] by metis
next
  case (pr_free p H h p')
  then show ?case using free_keeps_vk(2)[OF pool_run_inv] by metis
qed

section \<open>A concrete pool\<close>

text \<open>A device with one memory type that has all properties, in a heap of a terabyte.\<close>

definition demo_vk :: vk_memory_properties where
  "demo_vk = \<lparr>vm_types = [\<lparr>vt_flags = 15, vt_heap = 0\<rparr>], vm_heap_size = (\<lambda>_. 1099511627776)\<rparr>"

definition demo_genv :: gpu_init_env where
  "demo_genv = \<lparr>ge_properties = demo_vk, ge_calloc = (\<lambda>_. True), ge_allocate = (\<lambda>t. Some (100 + t)), ge_map = (\<lambda>t. Some (65536 * t))\<rparr>"

definition static_pool :: gpu_pool where
  "static_pool = \<lparr>gp_initialized = False, gp_memory_properties = \<lparr>vm_types = [], vm_heap_size = (\<lambda>_. 0)\<rparr>,
     gp_memory_type_indices = (\<lambda>_. 0), gp_memory_type_available = (\<lambda>_. False), gp_total_budget = (\<lambda>_. 0),
     gp_used_budget = (\<lambda>_. 0), gp_allocators = (\<lambda>_. zero_buddy), gp_allocation_count = 0, gp_deallocation_count = 0,
     gp_allocation_failures = 0, gp_vk_calls = []\<rparr>"

definition demo_pool :: gpu_pool where
  "demo_pool = snd (lgx_gpu_pool_init True True demo_genv static_pool)"

lemma demo_find: "find_memory_type demo_vk (- 1) VK_DEVICE_LOCAL = 0"
  "find_memory_type demo_vk (- 1) (VK_HOST_VISIBLE OR VK_HOST_COHERENT) = 0"
  "find_memory_type demo_vk (- 1) (VK_HOST_VISIBLE OR VK_HOST_CACHED OR VK_HOST_COHERENT) = 0"
  by (simp_all add: find_memory_type_def demo_vk_def VK_DEVICE_LOCAL_def VK_HOST_VISIBLE_def VK_HOST_COHERENT_def VK_HOST_CACHED_def)

lemma demo_heap: "vm_heap_size demo_vk k = 1099511627776" by (simp add: demo_vk_def)

lemma demo_ready: "t < 3 \<Longrightarrow> gp_memory_type_available (pool_ready demo_genv p) t"
  "gp_total_budget (pool_ready demo_genv p) 1 = 67108864"
proof -
  show "gp_memory_type_available (pool_ready demo_genv p) t" if "t < 3"
    using that by (auto simp: pool_ready_def query_memory_budget_def detect_memory_types_def set_type_def Let_def
        demo_genv_def demo_find pool_consts numeral_3_eq_3 less_Suc_eq)
  show "gp_total_budget (pool_ready demo_genv p) 1 = 67108864"
    by (simp add: pool_ready_def query_memory_budget_def detect_memory_types_def set_type_def Let_def
        demo_genv_def demo_find pool_consts demo_heap)
qed

lemma init_types_all:
  assumes "\<And>t. t \<in> set ts \<Longrightarrow> ge_calloc e t \<and> ge_allocate e t \<noteq> None"
  shows "fst (init_types e ts p) = LGX_SUCCESS"
  using assms
proof (induction ts arbitrary: p)
  case (Cons t ts)
  obtain r a where ra: "gpu_buddy_init (ge_calloc e t) (gp_total_budget p t) = (r, a)" by fastforce
  moreover have "r = LGX_SUCCESS" using ra Cons.prems[of t] by (auto simp: gpu_buddy_init_def Let_def)
  moreover obtain m where "ge_allocate e t = Some m" using Cons.prems[of t] by auto
  ultimately show ?case using Cons.prems by (auto simp: Let_def intro!: Cons.IH)
qed simp

lemma demo_pool_init: "lgx_gpu_pool_init True True demo_genv static_pool = (LGX_SUCCESS, demo_pool)"
proof -
  have "fst (init_types demo_genv [0..<3] (pool_ready demo_genv static_pool)) = LGX_SUCCESS"
    by (rule init_types_all) (auto simp: demo_genv_def)
  then show ?thesis by (simp add: demo_pool_def pool_init_ready static_pool_def prod_eq_iff)
qed

lemma demo_pool_run: "pool_run demo_genv static_pool demo_pool {}"
  by (rule pr_init[OF _ demo_pool_init]) (simp add: static_pool_def)

lemma demo_pool_fields: "t < 3 \<Longrightarrow> gp_memory_type_available demo_pool t" "gp_total_budget demo_pool 1 = 67108864"
  "gp_initialized demo_pool" "gpu_run ok 67108864 (gp_allocators demo_pool 1) {}"
proof -
  have i: "init_types demo_genv [0..<3] (pool_ready demo_genv static_pool) = (LGX_SUCCESS, demo_pool)"
    using demo_pool_init by (simp add: pool_init_ready static_pool_def)
  note S = init_types_state[OF i, of ok]
  show "gp_memory_type_available demo_pool t" if "t < 3" using S demo_ready(1) that by simp
  show "gp_total_budget demo_pool 1 = 67108864" using S demo_ready(2) by simp
  show "gp_initialized demo_pool" using S pool_ready_fields(3) by simp
  show "gpu_run ok 67108864 (gp_allocators demo_pool 1) {}" using S demo_ready(1)[of 1] by (metis One_nat_def atLeastLessThan_iff demo_ready(2) distinct_upt one_less_numeral_iff semiring_norm(77) set_upt zero_le)
qed

lemma run_empty_alloc:
  assumes run: "gpu_run True tot g {}" and sz: "sz \<le> MAX_BLOCK_SIZE" "al \<le> MAX_BLOCK_SIZE" and k: "want sz al \<le> size_to_level tot"
  obtains i g' where "gpu_buddy_alloc avx2 (\<lambda>_. True) sz al g = (Some i, g')"
proof -
  let ?M = "size_to_level tot"
  obtain F D where c: "gpu_core ?M g F {} D {}" and mg: "merged ?M (fblks g F)" using gpu_run_core[OF run] by blast
  have "tiling level_to_size ?M (fblks g F)" using core_tiling[OF c] by simp
  from gb.coalesced_is_whole[OF this mergedD[OF mg]] have one: "(0, ?M) \<in> fblks g F" by simp
  show thesis
  proof (rule alloc_spec[OF c sz refl, of avx2 "\<lambda>_. True"], goal_cases fail ok)
    case (fail g' F' D')
    then have e: "\<And>l. want sz al \<le> l \<Longrightarrow> F l = []" by blast
    show thesis using free_block_list[OF c e one, of "want sz al"] k by simp
  qed (rule that)
qed

definition demo_xenv :: gpu_alloc_env where
  "demo_xenv = \<lparr>gx_hang = False, gx_fail = False, gx_malloc = True, gx_realloc = (\<lambda>_. True), gx_avx2 = False\<rparr>"

lemma demo_pool_alloc:
  obtains h p where "lgx_gpu_alloc demo_xenv 1000 256 1 demo_pool = (Some h, p)" "pool_run demo_genv static_pool p {h}"
proof -
  have w: "want 1000 256 \<le> size_to_level 67108864"
    using size_to_level_spec(1)[of "max 1000 256"] by (simp add: want_def level_26)
  obtain i g' where "gpu_buddy_alloc False (\<lambda>_. True) 1000 256 (gp_allocators demo_pool 1) = (Some i, g')"
    using run_empty_alloc[OF demo_pool_fields(4) _ _ w, of False] by (auto simp: MAX_BLOCK_SIZE_def)
  then obtain h p where a: "lgx_gpu_alloc demo_xenv 1000 256 1 demo_pool = (Some h, p)"
    using demo_pool_fields(1)[of 1] demo_pool_fields(3) by (simp add: lgx_gpu_alloc_def demo_xenv_def Let_def)
  then show thesis using that pr_alloc[OF demo_pool_run a] by blast
qed

section \<open>Properties\<close>

text \<open>
  Whatever clients allocate and free, the handles they hold denote disjoint ranges within the memory
  of their type, which lie inside it if its size is a block size or more than the largest one, and
  give the memory and the mapped address that belong to the range.
\<close>

theorem gpu_pool_handles:
  assumes run: "pool_run e p0 p H" and h: "h \<in> H"
  shows "lgx_gpu_pool_is_memory_type_available (ha_memory_type h) p \<and>
    (\<forall>h'\<in>H. h' \<noteq> h \<and> ha_memory_type h' = ha_memory_type h \<longrightarrow> handle_range h \<inter> handle_range h' = {}) \<and>
    (let B = lgx_gpu_pool_get_memory_budget (ha_memory_type h) p in
       level_to_size (size_to_level B) \<le> B \<longrightarrow> handle_range h \<subseteq> {..<B}) \<and>
    lgx_gpu_get_memory (Some h) = gb_memory (gp_allocators p (ha_memory_type h)) \<and>
    lgx_gpu_get_mapped_ptr (Some h) =
      map_option (\<lambda>q. q + lgx_gpu_get_offset (Some h)) (gb_mapped_ptr (gp_allocators p (ha_memory_type h)))"
proof -
  let ?t = "ha_memory_type h" and ?g = "gp_allocators p (ha_memory_type h)"
  have I: "pool_inv p H" by (rule pool_run_inv[OF run])
  note P = pool_handle[OF I h]
  have t: "gp_initialized p" "?t < 3" using I h by (auto simp: pool_inv_def)
  have rg: "handle_range k = {off ?g (ha_block_index k)..<off ?g (ha_block_index k) + siz ?g (ha_block_index k)}"
    if "k \<in> H" "ha_memory_type k = ?t" for k
    using pool_handle(2)[OF I that(1)] that(2) by (simp add: handle_range_def handle_ok_def)
  have "handle_range h \<inter> handle_range k = {}" if k: "k \<in> H" "k \<noteq> h" "ha_memory_type k = ?t" for k
  proof -
    have "ha_block_index k \<noteq> ha_block_index h" using P(5) k h by (auto simp: of_type_def inj_on_def)
    then show ?thesis using run_bytes_disjoint[OF P(3,4), of "ha_block_index k"] pool_handle(4)[OF I k(1)] k(3) rg[OF k(1,3)] rg[OF h] by simp
  qed
  moreover have "handle_range h \<subseteq> {..<gp_total_budget p ?t}" if "level_to_size (size_to_level (gp_total_budget p ?t)) \<le> gp_total_budget p ?t"
    using run_sizes(2)[OF P(3,4) that] rg[OF h] by auto
  ultimately show ?thesis using P(1,2) t
    by (auto simp: lgx_gpu_pool_is_memory_type_available_def lgx_gpu_pool_get_memory_budget_def lgx_gpu_get_memory_def
        lgx_gpu_get_mapped_ptr_def lgx_gpu_get_offset_def handle_ok_def Let_def)
qed

theorem gpu_pool_handles_witness:
  "\<exists>h p. pool_run demo_genv static_pool p {h} \<and> handle_range h \<subseteq> {..<67108864}"
proof -
  obtain h p where a: "lgx_gpu_alloc demo_xenv 1000 256 1 demo_pool = (Some h, p)" "pool_run demo_genv static_pool p {h}"
    by (rule demo_pool_alloc)
  have t: "ha_memory_type h = 1" "gp_total_budget p = gp_total_budget demo_pool" "gp_initialized p"
    using gpu_alloc_step[OF pool_run_inv[OF demo_pool_run] a(1)] pool_run_inv[OF a(2)] by (auto simp: pool_inv_def)
  have "handle_range h \<subseteq> {..<67108864}"
    using gpu_pool_handles[OF a(2), of h] t demo_pool_fields(2)
    by (auto simp: lgx_gpu_pool_get_memory_budget_def level_26 level_to_size_eq Let_def)
  then show ?thesis using a(2) by blast
qed

text \<open>
  C16. Deallocation of a handle in use always returns, also from the walks over the free lists, and takes
  exactly the size of the handle off the used budget, which is the sum of the sizes of the handles.
\<close>

theorem gpu_pool_free_returns:
  assumes run: "pool_run e p0 p H" and h: "h \<in> H" and b: "lgx_gpu_pool_get_memory_budget (ha_memory_type h) p < 2 ^ 64"
  shows "\<exists>p'. lgx_gpu_free (Some h) p = Some p' \<and> pool_run e p0 p' (H - {h}) \<and>
    unat (lgx_gpu_pool_get_memory_used (ha_memory_type h) p') + lgx_gpu_get_size (Some h) =
      unat (lgx_gpu_pool_get_memory_used (ha_memory_type h) p) \<and>
    unat (lgx_gpu_pool_get_memory_used (ha_memory_type h) p) = (\<Sum>k\<in>of_type (ha_memory_type h) H. ha_size k)"
proof -
  let ?t = "ha_memory_type h"
  have I: "pool_inv p H" by (rule pool_run_inv[OF run])
  obtain p' where f: "lgx_gpu_free (Some h) p = Some p'" "pool_inv p' (H - {h})" "gp_total_budget p' = gp_total_budget p"
    using gpu_free_step[OF I h] by blast
  have t: "?t < 3" "gp_initialized p" "gp_initialized p'" using I f(2) h by (auto simp: pool_inv_def)
  have b': "gp_total_budget p ?t < 2 ^ 64" using b t by (simp add: lgx_gpu_pool_get_memory_budget_def)
  have u: "unat (gp_used_budget p ?t) = (\<Sum>k\<in>of_type ?t H. ha_size k)" by (rule used_exact[OF I t(1) b'])
  have u': "unat (gp_used_budget p' ?t) = (\<Sum>k\<in>of_type ?t H - {h}. ha_size k)"
    using used_exact[OF f(2) t(1)] b' f(3) by (simp add: of_type_remove)
  have "finite (of_type ?t H)" using finite_of_type I t(1) by (auto simp: pool_inv_def)
  then have "(\<Sum>k\<in>of_type ?t H. ha_size k) = ha_size h + (\<Sum>k\<in>of_type ?t H - {h}. ha_size k)"
    using h by (intro sum.remove) (auto simp: of_type_def)
  then show ?thesis using f(1) u u' t pr_free[OF run h f(1)]
    by (auto simp: lgx_gpu_pool_get_memory_used_def lgx_gpu_get_size_def)
qed

theorem gpu_pool_free_returns_witness:
  "\<exists>h p p'. lgx_gpu_free (Some h) p = Some p' \<and> pool_run demo_genv static_pool p {h} \<and> pool_run demo_genv static_pool p' {}"
proof -
  obtain h p where a: "lgx_gpu_alloc demo_xenv 1000 256 1 demo_pool = (Some h, p)" "pool_run demo_genv static_pool p {h}"
    by (rule demo_pool_alloc)
  have "ha_memory_type h = 1" "gp_total_budget p = gp_total_budget demo_pool"
    using gpu_alloc_step[OF pool_run_inv[OF demo_pool_run] a(1)] by auto
  then have "lgx_gpu_pool_get_memory_budget (ha_memory_type h) p < 2 ^ 64"
    using demo_pool_fields(2) by (simp add: lgx_gpu_pool_get_memory_budget_def)
  from gpu_pool_free_returns[OF a(2) _ this] a(2) show ?thesis by auto
qed


text \<open>
  C17. The first initialisation of the process and the shutdown are a round trip on the Vulkan memory: a
  failed initialisation has freed all that it allocated, and a shutdown after any allocations and
  deallocations frees each memory object exactly once, unmapped before, if Vulkan gives distinct handles.
\<close>

theorem gpu_pool_vk_balanced:
  assumes e: "fresh_handles e" and p0: "\<not> gp_initialized p0" "gp_vk_calls p0 = []"
      "\<forall>t<3. gb_memory (gp_allocators p0 t) = None \<and> gb_mapped_ptr (gp_allocators p0 t) = None"
  shows "(\<forall>r p. lgx_gpu_pool_init True True e p0 = (r, p) \<longrightarrow> r \<noteq> LGX_SUCCESS \<longrightarrow>
      vk_exec (gp_vk_calls p) ({}, {}) = Some ({}, {})) \<and>
    (\<forall>p H. pool_run e p0 p H \<longrightarrow> vk_exec (gp_vk_calls (snd (lgx_gpu_pool_shutdown p))) ({}, {}) = Some ({}, {}))"
proof (intro conjI allI impI)
  fix r p assume "lgx_gpu_pool_init True True e p0 = (r, p)" "r \<noteq> LGX_SUCCESS"
  then show "vk_exec (gp_vk_calls p) ({}, {}) = Some ({}, {})" using pool_init_vk[OF e p0(1,2) _ , of r p] p0(3) by auto
next
  fix p H assume "pool_run e p0 p H"
  then have "vk_ok p {..<3} \<and> gp_initialized p" using p0 by (intro pool_run_vk[OF e]) auto
  then show "vk_exec (gp_vk_calls (snd (lgx_gpu_pool_shutdown p))) ({}, {}) = Some ({}, {})"
    by (intro shutdown_vk[of p "{..<3}"]) auto
qed

lemma demo_fresh: "fresh_handles demo_genv"
  by (simp add: fresh_handles_def demo_genv_def)

theorem gpu_pool_vk_balanced_witness:
  "vk_exec (gp_vk_calls (snd (lgx_gpu_pool_shutdown demo_pool))) ({}, {}) = Some ({}, {})"
proof -
  have "\<not> gp_initialized static_pool" "gp_vk_calls static_pool = []"
    "\<forall>t<3. gb_memory (gp_allocators static_pool t) = None \<and> gb_mapped_ptr (gp_allocators static_pool t) = None"
    by (simp_all add: static_pool_def zero_buddy_def)
  from gpu_pool_vk_balanced[OF demo_fresh this] demo_pool_run show ?thesis by blast
qed

text \<open>What a second initialisation does when it fails right at the first memory type.\<close>

lemma foldl_shutdown_calls:
  "\<exists>cs. gp_vk_calls (foldl shutdown_type p ts) = gp_vk_calls p @ cs \<and> (\<forall>c\<in>set cs. (\<exists>m. c = Vk_unmap m) \<or> (\<exists>m. c = Vk_free m)) \<and>
    (\<forall>t\<in>set ts. gp_memory_type_available p t \<longrightarrow> (\<forall>m. mem_of p t = Some m \<longrightarrow> Vk_free m \<in> set cs))"
proof (induction ts arbitrary: p)
  case (Cons t ts)
  obtain cs where cs: "gp_vk_calls (foldl shutdown_type (shutdown_type p t) ts) = gp_vk_calls (shutdown_type p t) @ cs"
    "\<forall>c\<in>set cs. (\<exists>m. c = Vk_unmap m) \<or> (\<exists>m. c = Vk_free m)"
    "\<forall>s\<in>set ts. gp_memory_type_available (shutdown_type p t) s \<longrightarrow> (\<forall>m. mem_of (shutdown_type p t) s = Some m \<longrightarrow> Vk_free m \<in> set cs)"
    using Cons[of "shutdown_type p t"] by blast
  obtain ds where ds: "gp_vk_calls (shutdown_type p t) = gp_vk_calls p @ ds"
    "\<forall>c\<in>set ds. (\<exists>m. c = Vk_unmap m) \<or> (\<exists>m. c = Vk_free m)"
    "gp_memory_type_available p t \<longrightarrow> (\<forall>m. mem_of p t = Some m \<longrightarrow> Vk_free m \<in> set ds)"
  proof (rule that)
    let ?ds = "if gp_memory_type_available p t then (case map_of_type p t of None \<Rightarrow> [] | Some _ \<Rightarrow> [Vk_unmap (the (mem_of p t))]) @
      (case mem_of p t of None \<Rightarrow> [] | Some m \<Rightarrow> [Vk_free m]) else []"
    show "gp_vk_calls (shutdown_type p t) = gp_vk_calls p @ ?ds" by (simp add: shutdown_type_def Let_def)
  qed (auto split: option.splits)
  have "gp_memory_type_available (shutdown_type p t) = gp_memory_type_available p" "mem_of (shutdown_type p t) s = mem_of p s" for s
    by (auto simp: shutdown_type_def Let_def gpu_buddy_shutdown_def)
  then show ?case using cs ds by (intro exI[of _ "ds @ cs"]) auto
qed simp

lemma vk_exec_no_memory:
  assumes "\<forall>c\<in>set cs. (\<exists>m. c = Vk_unmap m) \<or> (\<exists>m. c = Vk_free m)" "cs \<noteq> []"
  shows "vk_exec cs ({}, {}) = None"
  using assms by (cases cs) auto

text \<open>
  \<open>lgx_gpu_pool_shutdown\<close> leaves the handles in place, and \<open>buddy_init\<close> clears them only as far as
  initialisation gets: if a second initialisation on the same device fails at device-local memory, its
  clean-up frees the memory of the other types that the shutdown before has already freed.
\<close>

theorem gpu_pool_reinit_double_free:
  assumes e: "fresh_handles e" and p0: "gp_vk_calls p0 = []"
      "\<forall>t<3. gb_memory (gp_allocators p0 t) = None \<and> gb_mapped_ptr (gp_allocators p0 t) = None"
    and run: "pool_run e p0 p H" and av: "gp_memory_type_available p 0" "gp_memory_type_available p 1"
    and e2: "ge_properties e2 = ge_properties e" "ge_allocate e2 0 = None"
    and again: "lgx_gpu_pool_init True True e2 (snd (lgx_gpu_pool_shutdown p)) = (r, q)"
  shows "r \<noteq> LGX_SUCCESS \<and> vk_exec (gp_vk_calls q) ({}, {}) = None"
proof -
  let ?p1 = "snd (lgx_gpu_pool_shutdown p)" and ?p2 = "pool_ready e2 (snd (lgx_gpu_pool_shutdown p))"
  have ok: "vk_ok p {..<3}" "gp_initialized p" using pool_run_vk[OF e p0(1) _ run] p0(2) by auto
  obtain m where m: "mem_of p 1 = Some m" using ok av(2) by (auto simp: vk_ok_def)
  have p1: "\<not> gp_initialized ?p1" "mem_of ?p2 1 = Some m" "gp_vk_calls ?p2 = gp_vk_calls ?p1" "gp_initialized ?p2"
    using shutdown_state(4)[of p] shutdown_state(2)[of p 1] m by (simp_all add: pool_ready_fields)
  have bal: "vk_exec (gp_vk_calls ?p1) ({}, {}) = Some ({}, {})" by (rule shutdown_vk[of p "{..<3}"]) (use ok in auto)
  have av2: "gp_memory_type_available ?p2 t" if "t < 3" "gp_memory_type_available p t" for t
  proof -
    have "gp_memory_type_available p = gp_memory_type_available (pool_ready e p0)" by (rule pool_run_available[OF run])
    moreover have "pool_ready e2 p0 = pool_ready e p0" using e2(1) by (simp add: pool_ready_def)
    ultimately show ?thesis using detect_available[OF that(1), of e2 p0 ?p1] that(2) by simp
  qed
  obtain a where i: "init_types e2 [0..<3] ?p2 = (r, q)" "r \<noteq> LGX_SUCCESS"
      "q = snd (lgx_gpu_pool_shutdown (?p2\<lparr>gp_allocators := (gp_allocators ?p2)(0 := a)\<rparr>))"
    using again p1(1) av2[of 0] av(1) e2(2)
    by (auto simp: pool_init_ready upt_rec[of 0 3] gpu_buddy_init_def Let_def split: if_splits)
  let ?p3 = "?p2\<lparr>gp_allocators := (gp_allocators ?p2)(0 := a)\<rparr>"
  obtain cs where cs: "gp_vk_calls (foldl shutdown_type ?p3 [0..<3]) = gp_vk_calls ?p3 @ cs"
    "\<forall>c\<in>set cs. (\<exists>m. c = Vk_unmap m) \<or> (\<exists>m. c = Vk_free m)" "Vk_free m \<in> set cs"
    using foldl_shutdown_calls[of ?p3 "[0..<3]"] av2[of 1] av(2) p1(2) by auto
  have "gp_vk_calls q = gp_vk_calls ?p1 @ cs" using i(3) cs(1) p1(3,4) by (simp add: lgx_gpu_pool_shutdown_def)
  moreover have "cs \<noteq> []" using cs(3) by auto
  ultimately show ?thesis using i(2) bal vk_exec_no_memory[OF cs(2)] by (simp add: vk_exec_append)
qed

theorem gpu_pool_reinit_double_free_witness:
  "\<exists>r q. lgx_gpu_pool_init True True (demo_genv\<lparr>ge_allocate := (\<lambda>_. None)\<rparr>) (snd (lgx_gpu_pool_shutdown demo_pool)) = (r, q) \<and>
     r \<noteq> LGX_SUCCESS \<and> vk_exec (gp_vk_calls q) ({}, {}) = None"
proof -
  obtain r q where r: "lgx_gpu_pool_init True True (demo_genv\<lparr>ge_allocate := (\<lambda>_. None)\<rparr>) (snd (lgx_gpu_pool_shutdown demo_pool)) = (r, q)"
    by fastforce
  have "gp_vk_calls static_pool = []"
    "\<forall>t<3. gb_memory (gp_allocators static_pool t) = None \<and> gb_mapped_ptr (gp_allocators static_pool t) = None"
    by (simp_all add: static_pool_def zero_buddy_def)
  from gpu_pool_reinit_double_free[OF demo_fresh this demo_pool_run _ _ _ _ r] r show ?thesis
    using demo_pool_fields(1)[of 0] demo_pool_fields(1)[of 1] by simp
qed

end
