(* ===== verification/Thread_Base.thy ===== *)
theory Thread_Base
  imports LGX_Prelude
begin

text \<open>
  What the parts of \<^verbatim>\<open>src/threading/lgx_threading.c\<close> share: the error codes, and the loop
  that rounds a capacity up to a power of two, in \<open>size_t\<close> arithmetic.
\<close>

datatype lgx_threading_error =
    LGX_THREADING_SUCCESS
  | LGX_THREADING_ERROR_INVALID_PARAM
  | LGX_THREADING_ERROR_OUT_OF_MEMORY
  | LGX_THREADING_ERROR_NOT_INITIALIZED
  | LGX_THREADING_ERROR_ALREADY_INIT
  | LGX_THREADING_ERROR_OPERATION_FAILED
  | LGX_THREADING_ERROR_QUEUE_FULL
  | LGX_THREADING_ERROR_QUEUE_EMPTY
  | LGX_THREADING_ERROR_TIMEOUT
  | LGX_THREADING_ERROR_DEADLOCK
  | LGX_THREADING_ERROR_FIBER_OVERFLOW
  | LGX_THREADING_ERROR_POOL_SHUTDOWN
  | LGX_THREADING_ERROR_JOB_FAILED

text \<open>\<open>None\<close>: the loop does not end.\<close>

partial_function (option) round_up_cap :: "u64 \<Rightarrow> u64 \<Rightarrow> u64 option" where
  "round_up_cap capacity cap = (if cap < capacity then round_up_cap capacity (push_bit 1 cap) else Some cap)"

lemma unat_pow2: "k < 64 \<Longrightarrow> unat (2 ^ k :: u64) = 2 ^ k"
proof -
  assume "k < 64"
  then have "(2 :: nat) ^ k < 2 ^ 64" by (intro power_strict_increasing) auto
  then have "unat (word_of_nat (2 ^ k) :: u64) = 2 ^ k" by (simp add: unat_of_nat take_bit_nat_eq_self del: of_nat_power)
  then show ?thesis by simp
qed

lemma bit_unat: "bit n k \<longleftrightarrow> odd (unat (n :: u64) div 2 ^ k)"
proof -
  have "bit (unat n) k = bit n k" by (simp add: bit_unsigned_iff)
  then show ?thesis using bit_iff_odd[of "unat n" k] by blast
qed

lemma log2_between:
  assumes "0 < (n :: nat)"
  obtains k where "2 ^ k \<le> n" "n < 2 ^ Suc k"
  using assms ex_power_ivl1[of 2 n] by auto

lemma push_bit_1_pow2: "push_bit 1 (2 ^ k :: u64) = 2 ^ Suc k"
  by (simp add: push_bit_eq_mult mult.commute)

lemma round_up_cap_steps:
  assumes "k \<le> m" "m < 64" "\<And>i. k \<le> i \<Longrightarrow> i < m \<Longrightarrow> (2 :: nat) ^ i < unat capacity" "unat capacity \<le> 2 ^ m"
  shows "round_up_cap capacity (2 ^ k) = Some (2 ^ m)"
  using assms
proof (induction "m - k" arbitrary: k)
  case 0
  then have "\<not> (2 :: u64) ^ k < capacity" by (simp add: word_less_nat_alt unat_pow2)
  then show ?case using 0 by (subst round_up_cap.simps) simp
next
  case (Suc n)
  then have "(2 :: u64) ^ k < capacity" by (simp add: word_less_nat_alt unat_pow2)
  then show ?case using Suc.hyps(1)[of "Suc k"] Suc.hyps(2) Suc.prems
    by (subst round_up_cap.simps) (simp add: push_bit_eq_mult mult.commute)
qed

text \<open>Up to \<open>2^63\<close> the loop finds the least power of two that is large enough.\<close>

lemma round_up_cap_some:
  assumes "unat capacity \<le> 2 ^ 63"
  obtains m where "m < 64" "round_up_cap capacity 1 = Some (2 ^ m)" "unat capacity \<le> 2 ^ m"
    "unat capacity \<le> 1 \<or> 2 ^ m < 2 * unat capacity"
proof -
  define m where "m = (LEAST m. unat capacity \<le> 2 ^ m)"
  have le: "unat capacity \<le> 2 ^ m" unfolding m_def using assms by (rule LeastI[of "\<lambda>m. unat capacity \<le> 2 ^ m"])
  have "m \<le> 63" unfolding m_def using assms by (rule Least_le[of "\<lambda>m. unat capacity \<le> 2 ^ m"])
  have small: "2 ^ i < unat capacity" if "i < m" for i
    using not_less_Least[of i "\<lambda>m. unat capacity \<le> 2 ^ m"] that by (simp add: m_def)
  have "round_up_cap capacity (2 ^ 0) = Some (2 ^ m)"
    by (rule round_up_cap_steps) (use \<open>m \<le> 63\<close> small le in auto)
  moreover have "unat capacity \<le> 1 \<or> 2 ^ m < 2 * unat capacity"
  proof (cases m)
    case (Suc i)
    then show ?thesis using small[of i] by simp
  qed (use le in simp)
  ultimately show thesis using that[of m] le \<open>m \<le> 63\<close> by simp
qed

text \<open>Above it \<open>cap\<close> is shifted out and the loop never ends.\<close>

lemma round_up_cap_diverges:
  "round_up_cap c cap = Some y \<Longrightarrow> \<not> (2 ^ 63 < unat c \<and> (cap = 0 \<or> (\<exists>k<64. cap = 2 ^ k)))"
proof (erule round_up_cap.raw_induct[where P = "\<lambda>c cap y. \<not> (2 ^ 63 < unat c \<and> (cap = 0 \<or> (\<exists>k<64. cap = 2 ^ k)))", rotated])
  fix rec :: "u64 \<Rightarrow> u64 \<Rightarrow> u64 option" and c cap y :: u64
  assume IH: "\<And>c cap y. rec c cap = Some y \<Longrightarrow> \<not> (2 ^ 63 < unat c \<and> (cap = 0 \<or> (\<exists>k<64. cap = 2 ^ k)))"
    and b: "(if cap < c then rec c (push_bit 1 cap) else Some cap) = Some y"
  show "\<not> (2 ^ 63 < unat c \<and> (cap = 0 \<or> (\<exists>k<64. cap = 2 ^ k)))"
  proof
    assume a: "2 ^ 63 < unat c \<and> (cap = 0 \<or> (\<exists>k<64. cap = 2 ^ k))"
    have lt: "cap < c"
    proof (cases "cap = 0")
      case True
      then show ?thesis using a by (auto simp: word_less_nat_alt)
    next
      case False
      then obtain k where k: "k < 64" "cap = 2 ^ k" using a by auto
      have "(2 :: nat) ^ k \<le> 2 ^ 63" using k(1) by (intro power_increasing) auto
      then show ?thesis using a k by (simp add: word_less_nat_alt unat_pow2)
    qed
    have "push_bit 1 cap = 0 \<or> (\<exists>k<64. push_bit 1 cap = 2 ^ k)"
    proof (cases "cap = 0")
      case False
      then obtain k where k: "k < 64" "push_bit 1 cap = 2 ^ Suc k" using a push_bit_1_pow2 by auto
      then show ?thesis by (cases "k = 63") (auto intro!: exI[of _ "Suc k"])
    qed simp
    then show False using IH[of c "push_bit 1 cap" y] b lt a by simp
  qed
qed

lemma round_up_cap_none: "2 ^ 63 < unat capacity \<Longrightarrow> round_up_cap capacity 1 = None"
  using round_up_cap_diverges[of capacity 1] by (cases "round_up_cap capacity 1") (auto dest!: spec[of _ 0])


section \<open>Locks with one holder\<close>

text \<open>At most one thread holds the lock, and the lock is free when no thread does.\<close>

definition one_holder :: "bool \<Rightarrow> (nat \<Rightarrow> bool) \<Rightarrow> bool" where
  "one_holder is_free holds \<longleftrightarrow> (\<forall>i j. holds i \<longrightarrow> holds j \<longrightarrow> i = j) \<and> (is_free \<longleftrightarrow> (\<forall>i. \<not> holds i))"

lemma one_holder_take: "one_holder True h \<Longrightarrow> one_holder False (h(i := True))"
  by (auto simp: one_holder_def)

lemma one_holder_release: "one_holder f h \<Longrightarrow> h i \<Longrightarrow> one_holder True (h(i := False))"
  unfolding one_holder_def by (metis fun_upd_apply)

lemma one_holder_same: "one_holder f h \<Longrightarrow> h i = b \<Longrightarrow> one_holder f (h(i := b))"
  using fun_upd_idem[of h i b] by simp

end
