(* ===== verification/Thread_Deque.thy ===== *)
theory Thread_Deque
  imports Thread_Base "HOL-Library.Multiset"
begin

text \<open>
  The work-stealing deque of \<^verbatim>\<open>src/threading/lgx_threading.c\<close> (\<open>lgx_work_deque_*\<close>): its operations,
  first each on its own, then split into their accesses to the shared variables and interleaved with
  those of any number of thieves.

  Interleavings are sequentially consistent. The indices \<open>top\<close> and \<open>bottom\<close> are unbounded integers
  in place of \<open>int64_t\<close>. A job is the number of its descriptor, \<open>None\<close> is \<open>NULL\<close>.
\<close>

section \<open>Data\<close>

definition LGX_THREADING_DEQUE_INITIAL_CAP :: u64 where "LGX_THREADING_DEQUE_INITIAL_CAP = 1024"

type_synonym job = nat

record work_deque =
  dq_buffer :: "nat \<Rightarrow> job option"
  dq_top :: int
  dq_bottom :: int
  dq_capacity :: nat
  dq_mask :: nat

section \<open>The operations on their own\<close>

definition new_deque :: "nat \<Rightarrow> work_deque" where
  "new_deque cap = \<lparr>dq_buffer = (\<lambda>_. None), dq_top = 0, dq_bottom = 0, dq_capacity = cap, dq_mask = cap - 1\<rparr>"

definition lgx_work_deque_init :: "u64 \<Rightarrow> work_deque option" where
  "lgx_work_deque_init capacity = map_option (\<lambda>cap. new_deque (unat cap)) (round_up_cap capacity 1)"

definition dq_slot :: "work_deque \<Rightarrow> int \<Rightarrow> nat" where
  "dq_slot dq i = nat (i AND int (dq_mask dq))"

definition lgx_work_deque_push :: "job \<Rightarrow> work_deque \<Rightarrow> work_deque" where
  "lgx_work_deque_push j dq =
     (let b = dq_bottom dq;
          dq1 = dq\<lparr>dq_buffer := (dq_buffer dq)(dq_slot dq b := Some j)\<rparr>
      in dq1\<lparr>dq_bottom := b + 1\<rparr>)"

text \<open>
  A failed \<open>atomic_compare_exchange\<close> stores the value it found in \<open>t\<close>, so the last store of \<open>bottom\<close>
  uses the new \<open>t\<close>. On its own the operation never fails there.
\<close>

definition lgx_work_deque_pop :: "work_deque \<Rightarrow> job option \<times> work_deque" where
  "lgx_work_deque_pop dq =
     (let b = dq_bottom dq - 1;
          dq1 = dq\<lparr>dq_bottom := b\<rparr>;
          t = dq_top dq1
      in if t \<le> b then
           let job = dq_buffer dq1 (dq_slot dq1 b)
           in if t = b then (job, dq1\<lparr>dq_top := t + 1, dq_bottom := t + 1\<rparr>)
              else (job, dq1)
         else (None, dq1\<lparr>dq_bottom := t\<rparr>))"

definition lgx_work_deque_steal :: "work_deque \<Rightarrow> job option \<times> work_deque" where
  "lgx_work_deque_steal dq =
     (let t = dq_top dq; b = dq_bottom dq
      in if t < b then (dq_buffer dq (dq_slot dq t), dq\<lparr>dq_top := t + 1\<rparr>) else (None, dq))"

section \<open>The operations in steps\<close>

text \<open>
  Where the owner is in \<open>push\<close> and \<open>pop\<close>, with its local variables: each state is right before the
  access that it is named after.
\<close>

datatype owner_pc =
    O_idle
  | Push_load job | Push_write job int | Push_publish job int
  | Pop_load | Pop_store int | Pop_top int | Pop_read int int | Pop_cas int int "job option"
  | Pop_restore int "job option" | Pop_empty int

datatype thief_pc = S_idle | S_top | S_bottom int | S_read int | S_cas int "job option"

text \<open>
  \<open>ds_pushed\<close>, \<open>ds_taken\<close>: the jobs published so far and the jobs returned so far, latest first.
  \<open>ds_lost\<close>: the owner has lost the race for a last job.
\<close>

record deque_state =
  ds_deque :: work_deque
  ds_owner :: owner_pc
  ds_thief :: "nat \<Rightarrow> thief_pc"
  ds_pushed :: "job list"
  ds_taken :: "job list"
  ds_lost :: bool

definition returned :: "job option \<Rightarrow> deque_state \<Rightarrow> deque_state" where
  "returned j s = s\<lparr>ds_taken := (case j of None \<Rightarrow> ds_taken s | Some k \<Rightarrow> k # ds_taken s)\<rparr>"

abbreviation set_owner :: "owner_pc \<Rightarrow> deque_state \<Rightarrow> deque_state" where
  "set_owner c s \<equiv> s\<lparr>ds_owner := c\<rparr>"

abbreviation set_deque :: "work_deque \<Rightarrow> deque_state \<Rightarrow> deque_state" where
  "set_deque d s \<equiv> s\<lparr>ds_deque := d\<rparr>"

definition owner_step :: "deque_state \<Rightarrow> deque_state" where
  "owner_step s =
     (let dq = ds_deque s
      in case ds_owner s of
           O_idle \<Rightarrow> s
         | Push_load j \<Rightarrow> set_owner (Push_write j (dq_bottom dq)) s
         | Push_write j b \<Rightarrow>
             set_owner (Push_publish j b) (set_deque (dq\<lparr>dq_buffer := (dq_buffer dq)(dq_slot dq b := Some j)\<rparr>) s)
         | Push_publish j b \<Rightarrow>
             set_owner O_idle (set_deque (dq\<lparr>dq_bottom := b + 1\<rparr>) (s\<lparr>ds_pushed := j # ds_pushed s\<rparr>))
         | Pop_load \<Rightarrow> set_owner (Pop_store (dq_bottom dq - 1)) s
         | Pop_store b \<Rightarrow> set_owner (Pop_top b) (set_deque (dq\<lparr>dq_bottom := b\<rparr>) s)
         | Pop_top b \<Rightarrow>
             let t = dq_top dq in set_owner (if t \<le> b then Pop_read b t else Pop_empty t) s
         | Pop_read b t \<Rightarrow>
             let job = dq_buffer dq (dq_slot dq b)
             in if t = b then set_owner (Pop_cas b t job) s
                else returned job (set_owner O_idle s)
         | Pop_cas b t job \<Rightarrow>
             if dq_top dq = t then set_owner (Pop_restore t job) (set_deque (dq\<lparr>dq_top := t + 1\<rparr>) s)
             else set_owner (Pop_restore (dq_top dq) None) (s\<lparr>ds_lost := True\<rparr>)
         | Pop_restore t job \<Rightarrow>
             returned job (set_owner O_idle (set_deque (dq\<lparr>dq_bottom := t + 1\<rparr>) s))
         | Pop_empty t \<Rightarrow> set_owner O_idle (set_deque (dq\<lparr>dq_bottom := t\<rparr>) s))"

definition set_thief :: "nat \<Rightarrow> thief_pc \<Rightarrow> deque_state \<Rightarrow> deque_state" where
  "set_thief i c s = s\<lparr>ds_thief := (ds_thief s)(i := c)\<rparr>"

definition thief_step :: "nat \<Rightarrow> deque_state \<Rightarrow> deque_state" where
  "thief_step i s =
     (let dq = ds_deque s
      in case ds_thief s i of
           S_idle \<Rightarrow> s
         | S_top \<Rightarrow> set_thief i (S_bottom (dq_top dq)) s
         | S_bottom t \<Rightarrow> set_thief i (if t < dq_bottom dq then S_read t else S_idle) s
         | S_read t \<Rightarrow> set_thief i (S_cas t (dq_buffer dq (dq_slot dq t))) s
         | S_cas t job \<Rightarrow>
             if dq_top dq = t then returned job (set_thief i S_idle (set_deque (dq\<lparr>dq_top := t + 1\<rparr>) s))
             else set_thief i S_idle s)"

text \<open>What a scheduler can let happen next.\<close>

datatype deque_action = Start_push job | Start_pop | Owner | Start_steal nat | Thief nat

definition deque_step :: "deque_action \<Rightarrow> deque_state \<Rightarrow> deque_state option" where
  "deque_step a s =
     (case a of
        Start_push j \<Rightarrow> if ds_owner s = O_idle then Some (set_owner (Push_load j) s) else None
      | Start_pop \<Rightarrow> if ds_owner s = O_idle then Some (set_owner Pop_load s) else None
      | Owner \<Rightarrow> if ds_owner s = O_idle then None else Some (owner_step s)
      | Start_steal i \<Rightarrow> if ds_thief s i = S_idle then Some (set_thief i S_top s) else None
      | Thief i \<Rightarrow> if ds_thief s i = S_idle then None else Some (thief_step i s))"

fun deque_exec :: "deque_action list \<Rightarrow> deque_state \<Rightarrow> deque_state option" where
  "deque_exec [] s = Some s"
| "deque_exec (a # as) s = Option.bind (deque_step a s) (deque_exec as)"

definition deque_start :: "work_deque \<Rightarrow> deque_state" where
  "deque_start dq = \<lparr>ds_deque = dq, ds_owner = O_idle, ds_thief = (\<lambda>_. S_idle), ds_pushed = [], ds_taken = [], ds_lost = False\<rparr>"

end
