(* ===== verification/Thread_Deque_Props.thy ===== *)
theory Thread_Deque_Props
  imports Thread_Deque
begin

text \<open>
  What the work-stealing deque guarantees. On their own the operations implement a double-ended queue.
  Interleaved with thieves, every job is returned exactly once as long as the deque does not overflow
  and the owner does not lose the race for a last job; both exceptions are real.
\<close>

section \<open>Slots\<close>

definition wf_deque :: "work_deque \<Rightarrow> bool" where
  "wf_deque dq \<longleftrightarrow> (\<exists>k. dq_capacity dq = 2 ^ k) \<and> dq_mask dq = dq_capacity dq - 1"

lemma dq_slot_mod:
  assumes "wf_deque dq" shows "dq_slot dq i = nat (i mod int (dq_capacity dq))"
proof -
  obtain k where k: "dq_capacity dq = 2 ^ k" "dq_mask dq = 2 ^ k - 1" using assms by (auto simp: wf_deque_def)
  have "int (dq_mask dq) = mask k" by (simp add: k mask_eq_exp_minus_1 of_nat_diff)
  then show ?thesis by (simp add: dq_slot_def take_bit_eq_mask[symmetric] take_bit_eq_mod k)
qed

lemma wf_cap: "wf_deque dq \<Longrightarrow> 0 < dq_capacity dq" by (auto simp: wf_deque_def)

lemma dq_slot_eq:
  assumes wf: "wf_deque dq" and eq: "dq_slot dq i = dq_slot dq j" and d: "\<bar>i - j\<bar> < int (dq_capacity dq)"
  shows "i = j"
proof -
  let ?c = "int (dq_capacity dq)"
  have c: "0 < ?c" using wf_cap[OF wf] by simp
  then have "i mod ?c = j mod ?c" using eq by (simp add: dq_slot_mod[OF wf] eq_nat_nat_iff)
  then have "?c dvd i - j" by (simp add: mod_eq_dvd_iff)
  then show ?thesis using d by (metis abs_of_pos c dvd_imp_le_int eq_iff_diff_eq_0 linorder_not_less abs_ge_zero)
qed

lemma dq_slot_fields [simp]:
  "dq_slot (dq\<lparr>dq_buffer := x\<rparr>) = dq_slot dq" "dq_slot (dq\<lparr>dq_top := t\<rparr>) = dq_slot dq"
  "dq_slot (dq\<lparr>dq_bottom := b\<rparr>) = dq_slot dq"
  by (simp_all add: dq_slot_def fun_eq_iff)

lemma wf_fields [simp]:
  "wf_deque (dq\<lparr>dq_buffer := x\<rparr>) = wf_deque dq" "wf_deque (dq\<lparr>dq_top := t\<rparr>) = wf_deque dq"
  "wf_deque (dq\<lparr>dq_bottom := b\<rparr>) = wf_deque dq"
  by (simp_all add: wf_deque_def)

lemma init_deque:
  assumes "unat capacity \<le> 2 ^ 63"
  obtains dq where "lgx_work_deque_init capacity = Some dq" "wf_deque dq" "dq_top dq = 0" "dq_bottom dq = 0"
    "unat capacity \<le> dq_capacity dq"
  by (rule round_up_cap_some[OF assms]) (use that in \<open>auto simp: lgx_work_deque_init_def new_deque_def wf_deque_def unat_pow2\<close>)

section \<open>The abstract contents\<close>

text \<open>The entries with the indices from \<open>i\<close> up to, but not including, \<open>j\<close>, oldest first.\<close>

definition entries :: "work_deque \<Rightarrow> int \<Rightarrow> int \<Rightarrow> job option list" where
  "entries dq i j = map (\<lambda>n. dq_buffer dq (dq_slot dq (i + int n))) [0..<nat (j - i)]"

lemma entries_empty [simp]: "j \<le> i \<Longrightarrow> entries dq i j = []"
  by (simp add: entries_def)

lemma length_entries [simp]: "length (entries dq i j) = nat (j - i)"
  by (simp add: entries_def)

lemma entries_snoc:
  assumes "i \<le> j" shows "entries dq i (j + 1) = entries dq i j @ [dq_buffer dq (dq_slot dq j)]"
proof -
  have "nat (j + 1 - i) = Suc (nat (j - i))" using assms by simp
  then show ?thesis using assms by (simp add: entries_def)
qed

lemma entries_Cons: "i < j \<Longrightarrow> entries dq i j = dq_buffer dq (dq_slot dq i) # entries dq (i + 1) j"
proof -
  assume "i < j"
  then have n: "nat (j - i) = Suc (nat (j - (i + 1)))" by simp
  have "entries dq i j = map (\<lambda>n. dq_buffer dq (dq_slot dq (i + int n))) [0..<Suc (nat (j - (i + 1)))]"
    by (simp only: entries_def n)
  also have "\<dots> = dq_buffer dq (dq_slot dq i) # map (\<lambda>n. dq_buffer dq (dq_slot dq (i + int (Suc n)))) [0..<nat (j - (i + 1))]"
    by (simp only: upt_conv_Cons[OF zero_less_Suc] list.map map_Suc_upt[symmetric] map_map comp_def) simp
  finally show ?thesis by (simp add: entries_def add.assoc)
qed

lemma entries_write:
  assumes wf: "wf_deque dq" and d: "j \<le> b" "b < i + int (dq_capacity dq)"
  shows "entries (dq\<lparr>dq_buffer := (dq_buffer dq)(dq_slot dq b := v)\<rparr>) i j = entries dq i j"
proof -
  have "dq_slot dq (i + int n) \<noteq> dq_slot dq b" if "n < nat (j - i)" for n
    using dq_slot_eq[OF wf, of "i + int n" b] that d by auto
  then show ?thesis by (simp add: entries_def)
qed

lemma entries_fields [simp]:
  "entries (dq\<lparr>dq_top := t\<rparr>) = entries dq" "entries (dq\<lparr>dq_bottom := b\<rparr>) = entries dq"
  by (simp_all add: entries_def fun_eq_iff)


section \<open>On their own the operations are a double-ended queue\<close>

datatype deque_op = Push job | Pop | Steal

text \<open>A bounded double-ended queue of jobs: pushed and popped at the end, stolen at the front.\<close>

fun spec_op :: "deque_op \<Rightarrow> job list \<Rightarrow> job option \<times> job list" where
  "spec_op (Push j) xs = (None, xs @ [j])"
| "spec_op Pop xs = (if xs = [] then (None, []) else (Some (last xs), butlast xs))"
| "spec_op Steal xs = (if xs = [] then (None, []) else (Some (hd xs), tl xs))"

text \<open>\<open>ops_fit\<close>: no operation pushes onto a full queue.\<close>

fun ops_fit :: "nat \<Rightarrow> deque_op list \<Rightarrow> job list \<Rightarrow> bool" where
  "ops_fit cap [] xs = True"
| "ops_fit cap (a # as) xs = ((\<forall>j. a = Push j \<longrightarrow> length xs < cap) \<and> ops_fit cap as (snd (spec_op a xs)))"

primrec ops_results :: "('op \<Rightarrow> 's \<Rightarrow> 'r \<times> 's) \<Rightarrow> 'op list \<Rightarrow> 's \<Rightarrow> 'r list \<times> 's" where
  "ops_results f [] s = ([], s)"
| "ops_results f (a # as) s = (case f a s of (r, s1) \<Rightarrow> (case ops_results f as s1 of (rs, s2) \<Rightarrow> (r # rs, s2)))"

locale job_deque =
  fixes rep :: "'s \<Rightarrow> job list \<Rightarrow> bool" and cap :: "'s \<Rightarrow> nat"
    and push :: "job \<Rightarrow> 's \<Rightarrow> 's" and pop :: "'s \<Rightarrow> job option \<times> 's" and steal :: "'s \<Rightarrow> job option \<times> 's"
  assumes push_law: "rep s xs \<Longrightarrow> length xs < cap s \<Longrightarrow> rep (push j s) (xs @ [j]) \<and> cap (push j s) = cap s"
    and pop_law: "rep s xs \<Longrightarrow> pop s = (r, s') \<Longrightarrow> r = fst (spec_op Pop xs) \<and> rep s' (snd (spec_op Pop xs)) \<and> cap s' = cap s"
    and steal_law: "rep s xs \<Longrightarrow> steal s = (r, s') \<Longrightarrow> r = fst (spec_op Steal xs) \<and> rep s' (snd (spec_op Steal xs)) \<and> cap s' = cap s"
begin

definition op :: "deque_op \<Rightarrow> 's \<Rightarrow> job option \<times> 's" where
  "op a s = (case a of Push j \<Rightarrow> (None, push j s) | Pop \<Rightarrow> pop s | Steal \<Rightarrow> steal s)"

lemma op_refines:
  assumes "rep s xs" "\<forall>j. a = Push j \<longrightarrow> length xs < cap s" "op a s = (r, s')"
  shows "r = fst (spec_op a xs) \<and> rep s' (snd (spec_op a xs)) \<and> cap s' = cap s"
  using assms push_law pop_law steal_law by (cases a) (auto simp: op_def simp del: spec_op.simps(2,3))

lemma ops_refine:
  "rep s xs \<Longrightarrow> ops_fit (cap s) as xs \<Longrightarrow> ops_results op as s = (rs, s') \<Longrightarrow>
     rs = fst (ops_results spec_op as xs) \<and> rep s' (snd (ops_results spec_op as xs))"
proof (induction as arbitrary: s xs rs)
  case (Cons a as)
  obtain r s1 where r: "op a s = (r, s1)" by fastforce
  obtain rs1 where rs: "ops_results op as s1 = (rs1, s')" "rs = r # rs1" using Cons.prems(3) r by (auto split: prod.splits)
  have f: "r = fst (spec_op a xs)" "rep s1 (snd (spec_op a xs))" "cap s1 = cap s"
    using op_refines[OF Cons.prems(1) _ r] Cons.prems(2) by auto
  show ?case using Cons.IH[OF f(2) _ rs(1)] Cons.prems(2) rs(2) f by (auto split: prod.splits)
qed simp

end

definition deque_rep :: "work_deque \<Rightarrow> job list \<Rightarrow> bool" where
  "deque_rep dq xs \<longleftrightarrow> wf_deque dq \<and> dq_top dq \<le> dq_bottom dq \<and> dq_bottom dq - dq_top dq \<le> int (dq_capacity dq) \<and>
     entries dq (dq_top dq) (dq_bottom dq) = map Some xs"

lemma deque_rep_length: "deque_rep dq xs \<Longrightarrow> int (length xs) = dq_bottom dq - dq_top dq"
  using length_entries[of dq "dq_top dq" "dq_bottom dq"] by (auto simp: deque_rep_def)

lemma push_rep:
  assumes r: "deque_rep dq xs" and l: "length xs < dq_capacity dq"
  shows "deque_rep (lgx_work_deque_push j dq) (xs @ [j]) \<and> dq_capacity (lgx_work_deque_push j dq) = dq_capacity dq"
proof -
  let ?w = "dq\<lparr>dq_buffer := (dq_buffer dq)(dq_slot dq (dq_bottom dq) := Some j)\<rparr>"
  have b: "dq_bottom dq - dq_top dq < int (dq_capacity dq)" using deque_rep_length[OF r] l by simp
  have "entries ?w (dq_top dq) (dq_bottom dq) = map Some xs"
    using r b by (subst entries_write) (auto simp: deque_rep_def)
  then have "entries ?w (dq_top dq) (dq_bottom dq + 1) = map Some (xs @ [j])"
    using r by (subst entries_snoc) (auto simp: deque_rep_def)
  then show ?thesis using r b by (auto simp: deque_rep_def lgx_work_deque_push_def Let_def)
qed

lemma pop_rep:
  assumes r: "deque_rep dq xs" and p: "lgx_work_deque_pop dq = (j, dq')"
  shows "j = fst (spec_op Pop xs) \<and> deque_rep dq' (snd (spec_op Pop xs)) \<and> dq_capacity dq' = dq_capacity dq"
proof (cases "dq_top dq < dq_bottom dq")
  case True
  have "entries dq (dq_top dq) (dq_bottom dq - 1 + 1) = map Some xs" using r by (simp add: deque_rep_def)
  then have x: "map Some xs = entries dq (dq_top dq) (dq_bottom dq - 1) @ [dq_buffer dq (dq_slot dq (dq_bottom dq - 1))]"
    using True by (subst (asm) entries_snoc) auto
  then obtain ys y where xs: "xs = ys @ [y]" by (cases xs rule: rev_cases) auto
  with x have "entries dq (dq_top dq) (dq_bottom dq - 1) = map Some ys" "dq_buffer dq (dq_slot dq (dq_bottom dq - 1)) = Some y" by auto
  then show ?thesis using p r True xs by (auto simp: deque_rep_def lgx_work_deque_pop_def Let_def split: if_splits)
next
  case False
  then have "xs = []" using deque_rep_length[OF r] r by (auto simp: deque_rep_def)
  then show ?thesis using p r False by (auto simp: deque_rep_def lgx_work_deque_pop_def Let_def split: if_splits)
qed

lemma steal_rep:
  assumes r: "deque_rep dq xs" and p: "lgx_work_deque_steal dq = (j, dq')"
  shows "j = fst (spec_op Steal xs) \<and> deque_rep dq' (snd (spec_op Steal xs)) \<and> dq_capacity dq' = dq_capacity dq"
proof (cases "dq_top dq < dq_bottom dq")
  case True
  then obtain y ys where "xs = y # ys" "dq_buffer dq (dq_slot dq (dq_top dq)) = Some y"
    "entries dq (dq_top dq + 1) (dq_bottom dq) = map Some ys"
    using r entries_Cons[OF True, of dq] by (cases xs) (auto simp: deque_rep_def)
  then show ?thesis using p r True by (auto simp: deque_rep_def lgx_work_deque_steal_def Let_def split: if_splits)
next
  case False
  then have "xs = []" using deque_rep_length[OF r] r by (auto simp: deque_rep_def)
  then show ?thesis using p r False by (auto simp: deque_rep_def lgx_work_deque_steal_def Let_def split: if_splits)
qed

interpretation wd: job_deque deque_rep dq_capacity lgx_work_deque_push lgx_work_deque_pop lgx_work_deque_steal
  by unfold_locales (auto simp: push_rep dest: pop_rep steal_rep simp del: spec_op.simps)

definition deque_impl :: "deque_op \<Rightarrow> work_deque \<Rightarrow> job option \<times> work_deque" where
  "deque_impl a dq = (case a of Push j \<Rightarrow> (None, lgx_work_deque_push j dq) | Pop \<Rightarrow> lgx_work_deque_pop dq
     | Steal \<Rightarrow> lgx_work_deque_steal dq)"

lemma deque_impl_op: "deque_impl = wd.op"
  by (simp add: fun_eq_iff deque_impl_def wd.op_def)


section \<open>The steps, uninterrupted, are the operations\<close>

lemma push_uninterrupted:
  "owner_step (owner_step (owner_step (set_owner (Push_load j) s))) =
     set_owner O_idle (set_deque (lgx_work_deque_push j (ds_deque s)) (s\<lparr>ds_pushed := j # ds_pushed s\<rparr>))"
  by (simp add: owner_step_def Let_def lgx_work_deque_push_def)

lemma pop_uninterrupted:
  assumes "lgx_work_deque_pop (ds_deque s) = (j, dq)"
  shows "\<exists>n. (owner_step ^^ n) (set_owner Pop_load s) = returned j (set_owner O_idle (set_deque dq s))"
proof -
  let ?d = "ds_deque s"
  consider "dq_top ?d < dq_bottom ?d - 1" | "dq_top ?d = dq_bottom ?d - 1" | "dq_top ?d > dq_bottom ?d - 1" by linarith
  then show ?thesis
  proof cases
    case 1
    then have "(owner_step ^^ 4) (set_owner Pop_load s) = returned j (set_owner O_idle (set_deque dq s))"
      using assms by (auto simp: eval_nat_numeral owner_step_def Let_def lgx_work_deque_pop_def returned_def split: if_splits option.splits)
    then show ?thesis by blast
  next
    case 2
    then have "(owner_step ^^ 6) (set_owner Pop_load s) = returned j (set_owner O_idle (set_deque dq s))"
      using assms by (auto simp: eval_nat_numeral owner_step_def Let_def lgx_work_deque_pop_def returned_def split: if_splits option.splits)
    then show ?thesis by blast
  next
    case 3
    then have "(owner_step ^^ 4) (set_owner Pop_load s) = returned j (set_owner O_idle (set_deque dq s))"
      using assms by (auto simp: eval_nat_numeral owner_step_def Let_def lgx_work_deque_pop_def returned_def split: if_splits option.splits)
    then show ?thesis by blast
  qed
qed

lemma steal_uninterrupted:
  assumes "lgx_work_deque_steal (ds_deque s) = (j, dq)"
  shows "\<exists>n. (thief_step i ^^ n) (set_thief i S_top s) = returned j (set_thief i S_idle (set_deque dq s))"
proof (cases "dq_top (ds_deque s) < dq_bottom (ds_deque s)")
  case True
  then have "(thief_step i ^^ 4) (set_thief i S_top s) = returned j (set_thief i S_idle (set_deque dq s))"
    using assms by (auto simp: eval_nat_numeral thief_step_def set_thief_def Let_def lgx_work_deque_steal_def returned_def split: option.splits)
  then show ?thesis by blast
next
  case False
  then have "(thief_step i ^^ 2) (set_thief i S_top s) = returned j (set_thief i S_idle (set_deque dq s))"
    using assms by (auto simp: eval_nat_numeral thief_step_def set_thief_def Let_def lgx_work_deque_steal_def returned_def split: option.splits)
  then show ?thesis by blast
qed

end
