(* ===== verification/Thread_Deque_Conc.thy ===== *)
theory Thread_Deque_Conc
  imports Thread_Deque_Props
begin

text \<open>
  The deque under concurrent thieves: an invariant of the interleaved steps. \<open>logical_end\<close> is where
  the contents end: \<open>bottom\<close>, except while the owner pops, which lowers \<open>bottom\<close> before it has taken
  the entry.
\<close>

section \<open>The invariant\<close>

abbreviation top_of :: "deque_state \<Rightarrow> int" where "top_of s \<equiv> dq_top (ds_deque s)"
abbreviation bottom_of :: "deque_state \<Rightarrow> int" where "bottom_of s \<equiv> dq_bottom (ds_deque s)"
abbreviation cap_of :: "deque_state \<Rightarrow> int" where "cap_of s \<equiv> int (dq_capacity (ds_deque s))"
abbreviation cell :: "deque_state \<Rightarrow> int \<Rightarrow> job option" where "cell s i \<equiv> dq_buffer (ds_deque s) (dq_slot (ds_deque s) i)"

definition logical_end :: "deque_state \<Rightarrow> int" where
  "logical_end s =
     (case ds_owner s of
        Pop_top b \<Rightarrow> b + 1 | Pop_read b t \<Rightarrow> b + 1 | Pop_cas b t j \<Rightarrow> b + 1 | Pop_restore t j \<Rightarrow> t + 1
      | Pop_empty t \<Rightarrow> t | _ \<Rightarrow> bottom_of s)"

definition owner_ok :: "deque_state \<Rightarrow> bool" where
  "owner_ok s \<longleftrightarrow>
     (case ds_owner s of
        O_idle \<Rightarrow> True | Pop_load \<Rightarrow> True
      | Push_load j \<Rightarrow> bottom_of s - top_of s < cap_of s
      | Push_write j b \<Rightarrow> b = bottom_of s \<and> b - top_of s < cap_of s
      | Push_publish j b \<Rightarrow> b = bottom_of s \<and> b - top_of s < cap_of s \<and> cell s b = Some j
      | Pop_store b \<Rightarrow> b = bottom_of s - 1
      | Pop_top b \<Rightarrow> bottom_of s = b
      | Pop_read b t \<Rightarrow> bottom_of s = b \<and> t \<le> top_of s \<and> t \<le> b \<and> (t < b \<longrightarrow> top_of s \<le> b)
      | Pop_cas b t j \<Rightarrow> bottom_of s = b \<and> t = b \<and> t \<le> top_of s \<and> j = cell s b
      | Pop_restore t j \<Rightarrow> bottom_of s = t \<and> top_of s = t + 1
      | Pop_empty t \<Rightarrow> bottom_of s = t - 1 \<and> top_of s = t)"

text \<open>
  An entry that a thief is about to take is in the deque, and the owner is not just taking it without
  compare-and-swap.
\<close>

definition steal_safe :: "deque_state \<Rightarrow> int \<Rightarrow> bool" where
  "steal_safe s t \<longleftrightarrow> t \<le> top_of s \<and>
     (t = top_of s \<longrightarrow> t < logical_end s \<and> (\<forall>b u. ds_owner s = Pop_read b u \<longrightarrow> u < b \<longrightarrow> t < b))"

definition thief_ok :: "deque_state \<Rightarrow> thief_pc \<Rightarrow> bool" where
  "thief_ok s c \<longleftrightarrow>
     (case c of
        S_idle \<Rightarrow> True | S_top \<Rightarrow> True
      | S_bottom t \<Rightarrow> t \<le> top_of s
      | S_read t \<Rightarrow> steal_safe s t
      | S_cas t j \<Rightarrow> steal_safe s t \<and> (t = top_of s \<longrightarrow> j = cell s t))"

text \<open>The jobs in the deque, and the last one if the owner has won it but not yet returned it.\<close>

definition contents :: "deque_state \<Rightarrow> job option list" where
  "contents s = entries (ds_deque s) (top_of s) (logical_end s) @ (case ds_owner s of Pop_restore t j \<Rightarrow> [j] | _ \<Rightarrow> [])"

definition deque_inv :: "deque_state \<Rightarrow> bool" where
  "deque_inv s \<longleftrightarrow> wf_deque (ds_deque s) \<and> top_of s \<le> logical_end s \<and> logical_end s - top_of s \<le> cap_of s \<and>
     owner_ok s \<and> (\<forall>i. thief_ok s (ds_thief s i)) \<and>
     (\<exists>xs. contents s = map Some xs \<and> mset (ds_pushed s) = mset (ds_taken s) + mset xs)"

lemma deque_invD:
  assumes "deque_inv s"
  shows "wf_deque (ds_deque s)" "top_of s \<le> logical_end s" "logical_end s - top_of s \<le> cap_of s" "owner_ok s"
    "thief_ok s (ds_thief s i)"
  using assms by (simp_all add: deque_inv_def)

lemma deque_inv_contents:
  assumes "deque_inv s"
  obtains xs where "contents s = map Some xs" "mset (ds_pushed s) = mset (ds_taken s) + mset xs"
  using assms by (auto simp: deque_inv_def)

lemma deque_invI:
  assumes "wf_deque (ds_deque s)" "top_of s \<le> logical_end s" "logical_end s - top_of s \<le> cap_of s" "owner_ok s"
    "\<And>i. thief_ok s (ds_thief s i)" "contents s = map Some xs"
    "mset (ds_pushed s) = mset (ds_taken s) + mset xs"
  shows "deque_inv s"
  using assms by (auto simp: deque_inv_def)

section \<open>Steps that leave the deque alone\<close>

text \<open>The owner moves on, with the same contents; thieves are not affected unless it is about to take an entry.\<close>

lemma thief_ok_mono:
  assumes "thief_ok s c" "ds_deque s' = ds_deque s" "logical_end s \<le> logical_end s'"
    "\<And>b u. ds_owner s' = Pop_read b u \<Longrightarrow> u < b \<Longrightarrow> top_of s < b"
  shows "thief_ok s' c"
  using assms by (cases c) (auto simp: thief_ok_def steal_safe_def)

lemma owner_moves:
  assumes I: "deque_inv s" and e: "logical_end (set_owner c s) = logical_end s" and ok: "owner_ok (set_owner c s)"
    and p: "\<And>t j. ds_owner s \<noteq> Pop_restore t j" "\<And>t j. c \<noteq> Pop_restore t j"
    and r: "\<And>b u. c = Pop_read b u \<Longrightarrow> u < b \<Longrightarrow> top_of s < b"
  shows "deque_inv (set_owner c s)"
proof (rule deque_inv_contents[OF I])
  fix xs assume xs: "contents s = map Some xs" "mset (ds_pushed s) = mset (ds_taken s) + mset xs"
  show ?thesis
  proof (rule deque_invI)
    show "thief_ok (set_owner c s) (ds_thief (set_owner c s) i)" for i
      using thief_ok_mono[OF deque_invD(5)[OF I, of i], of "set_owner c s"] e r by simp
    show "contents (set_owner c s) = map Some xs"
      using xs(1) e p by (auto simp: contents_def split: owner_pc.splits)
  qed (use deque_invD[OF I] e ok xs in simp_all)
qed


section \<open>Steps of the owner\<close>

lemma owner_write_inv:
  assumes I: "deque_inv s" and c: "ds_owner s = Push_write j b"
  shows "deque_inv (owner_step s)"
proof (rule deque_inv_contents[OF I])
  fix xs assume xs: "contents s = map Some xs" "mset (ds_pushed s) = mset (ds_taken s) + mset xs"
  let ?d = "ds_deque s\<lparr>dq_buffer := (dq_buffer (ds_deque s))(dq_slot (ds_deque s) b := Some j)\<rparr>"
  have o: "b = bottom_of s" "b - top_of s < cap_of s" using deque_invD(4)[OF I] c by (auto simp: owner_ok_def)
  have e: "logical_end s = b" using c o by (simp add: logical_end_def)
  have s': "owner_step s = set_owner (Push_publish j b) (set_deque ?d s)" using c by (simp add: owner_step_def Let_def)
  have e': "logical_end (owner_step s) = b" using o by (simp add: s' logical_end_def)
  have same: "dq_slot (ds_deque s) t \<noteq> dq_slot (ds_deque s) b" if "t < b" "top_of s \<le> t" for t
    using dq_slot_eq[OF deque_invD(1)[OF I], of t b] that o by auto
  show ?thesis
  proof (rule deque_invI)
    show "thief_ok (owner_step s) (ds_thief (owner_step s) i)" for i
      using deque_invD(5)[OF I, of i] same[of "top_of s"]
      by (cases "ds_thief s i") (auto simp: thief_ok_def steal_safe_def e e'[unfolded s'] s')
    show "contents (owner_step s) = map Some xs"
      unfolding contents_def e' using xs(1) e o c deque_invD(1)[OF I] by (simp add: s' entries_write contents_def)
  qed (use deque_invD[OF I] e e' o xs s' in \<open>auto simp: owner_ok_def\<close>)
qed

lemma owner_publish_inv:
  assumes I: "deque_inv s" and c: "ds_owner s = Push_publish j b"
  shows "deque_inv (owner_step s)"
proof (rule deque_inv_contents[OF I])
  fix xs assume xs: "contents s = map Some xs" "mset (ds_pushed s) = mset (ds_taken s) + mset xs"
  have o: "b = bottom_of s" "b - top_of s < cap_of s" "cell s b = Some j" using deque_invD(4)[OF I] c by (auto simp: owner_ok_def)
  have e: "logical_end s = b" using c o by (simp add: logical_end_def)
  have s': "owner_step s = set_owner O_idle (set_deque (ds_deque s\<lparr>dq_bottom := b + 1\<rparr>) (s\<lparr>ds_pushed := j # ds_pushed s\<rparr>))"
    using c by (simp add: owner_step_def Let_def)
  have e': "logical_end (owner_step s) = b + 1" by (simp add: s' logical_end_def)
  have t: "top_of s \<le> b" using deque_invD(2)[OF I] e by simp
  show ?thesis
  proof (rule deque_invI)
    show "thief_ok (owner_step s) (ds_thief (owner_step s) i)" for i
      using deque_invD(5)[OF I, of i] by (cases "ds_thief s i") (auto simp: thief_ok_def steal_safe_def e e'[unfolded s'] s')
    show "contents (owner_step s) = map Some (xs @ [j])"
      unfolding contents_def e' using xs(1) e o t c by (simp add: s' entries_snoc contents_def)
  qed (use deque_invD[OF I] e e' o xs s' in \<open>auto simp: owner_ok_def\<close>)
qed

lemma owner_take_inv:
  assumes I: "deque_inv s" and c: "ds_owner s = Pop_read b t" "t \<noteq> b"
  shows "deque_inv (owner_step s)"
proof (rule deque_inv_contents[OF I])
  fix xs assume xs: "contents s = map Some xs" "mset (ds_pushed s) = mset (ds_taken s) + mset xs"
  have o: "bottom_of s = b" "t < b" "top_of s \<le> b" using deque_invD(4)[OF I] c by (auto simp: owner_ok_def)
  have e: "logical_end s = b + 1" using c by (simp add: logical_end_def)
  have x: "map Some xs = entries (ds_deque s) (top_of s) b @ [cell s b]" using xs(1) e o c by (simp add: entries_snoc contents_def)
  then obtain ys y where ys: "xs = ys @ [y]" by (cases xs rule: rev_cases) auto
  then have y: "entries (ds_deque s) (top_of s) b = map Some ys" "cell s b = Some y" using x by auto
  have s': "owner_step s = returned (Some y) (set_owner O_idle s)" using c y by (simp add: owner_step_def Let_def)
  have e': "logical_end (owner_step s) = b" using o by (simp add: s' logical_end_def returned_def)
  show ?thesis
  proof (rule deque_invI)
    show "thief_ok (owner_step s) (ds_thief (owner_step s) i)" for i
      using deque_invD(5)[OF I, of i] c o
      by (cases "ds_thief s i") (auto simp: thief_ok_def steal_safe_def e s' returned_def logical_end_def)
    show "contents (owner_step s) = map Some ys"
      unfolding contents_def e' using y by (simp add: s' returned_def)
  qed (use deque_invD[OF I] e e' o xs ys s' in \<open>auto simp: owner_ok_def returned_def\<close>)
qed

lemma owner_cas_inv:
  assumes I: "deque_inv s" and c: "ds_owner s = Pop_cas b t j" and w: "top_of s = t"
  shows "deque_inv (owner_step s)"
proof (rule deque_inv_contents[OF I])
  fix xs assume xs: "contents s = map Some xs" "mset (ds_pushed s) = mset (ds_taken s) + mset xs"
  have o: "bottom_of s = b" "t = b" "j = cell s b" using deque_invD(4)[OF I] c by (auto simp: owner_ok_def)
  have e: "logical_end s = b + 1" using c by (simp add: logical_end_def)
  have s': "owner_step s = set_owner (Pop_restore t j) (set_deque (ds_deque s\<lparr>dq_top := t + 1\<rparr>) s)"
    using c w by (simp add: owner_step_def Let_def)
  have e': "logical_end (owner_step s) = b + 1" using o by (simp add: s' logical_end_def)
  show ?thesis
  proof (rule deque_invI)
    show "thief_ok (owner_step s) (ds_thief (owner_step s) i)" for i
      using deque_invD(5)[OF I, of i] w by (cases "ds_thief s i") (auto simp: thief_ok_def steal_safe_def s')
    show "contents (owner_step s) = map Some xs"
      unfolding contents_def e' using xs(1) e o w c by (simp add: s' contents_def entries_Cons)
  qed (use deque_invD[OF I] e e' o xs s' w in \<open>auto simp: owner_ok_def\<close>)
qed

lemma owner_restore_inv:
  assumes I: "deque_inv s" and c: "ds_owner s = Pop_restore t j"
  shows "deque_inv (owner_step s)"
proof (rule deque_inv_contents[OF I])
  fix xs assume xs: "contents s = map Some xs" "mset (ds_pushed s) = mset (ds_taken s) + mset xs"
  have o: "bottom_of s = t" "top_of s = t + 1" using deque_invD(4)[OF I] c by (auto simp: owner_ok_def)
  have e: "logical_end s = t + 1" using c by (simp add: logical_end_def)
  obtain y where y: "xs = [y]" "j = Some y" using xs(1) c e o by (auto simp: contents_def)
  have s': "owner_step s = returned (Some y) (set_owner O_idle (set_deque (ds_deque s\<lparr>dq_bottom := t + 1\<rparr>) s))"
    using c y by (simp add: owner_step_def Let_def)
  have e': "logical_end (owner_step s) = t + 1" by (simp add: s' logical_end_def returned_def)
  show ?thesis
  proof (rule deque_invI)
    show "thief_ok (owner_step s) (ds_thief (owner_step s) i)" for i
      using deque_invD(5)[OF I, of i] o
      by (cases "ds_thief s i") (auto simp: thief_ok_def steal_safe_def e e'[unfolded s' returned_def] s' returned_def)
    show "contents (owner_step s) = map Some []"
      unfolding contents_def e' using o by (simp add: s' returned_def)
  qed (use deque_invD[OF I] e e' o xs y s' in \<open>auto simp: owner_ok_def returned_def\<close>)
qed

lemma owner_empty_inv:
  assumes I: "deque_inv s" and c: "ds_owner s = Pop_empty t"
  shows "deque_inv (owner_step s)"
proof (rule deque_inv_contents[OF I])
  fix xs assume xs: "contents s = map Some xs" "mset (ds_pushed s) = mset (ds_taken s) + mset xs"
  have o: "top_of s = t" using deque_invD(4)[OF I] c by (auto simp: owner_ok_def)
  have e: "logical_end s = t" using c by (simp add: logical_end_def)
  have s': "owner_step s = set_owner O_idle (set_deque (ds_deque s\<lparr>dq_bottom := t\<rparr>) s)"
    using c by (simp add: owner_step_def Let_def)
  have e': "logical_end (owner_step s) = t" by (simp add: s' logical_end_def)
  show ?thesis
  proof (rule deque_invI)
    show "thief_ok (owner_step s) (ds_thief (owner_step s) i)" for i
      using deque_invD(5)[OF I, of i] o by (cases "ds_thief s i") (auto simp: thief_ok_def steal_safe_def e e'[unfolded s'] s')
    show "contents (owner_step s) = map Some xs"
      unfolding contents_def e' using xs(1) c e o by (simp add: s' contents_def)
  qed (use deque_invD[OF I] e e' o xs s' in \<open>auto simp: owner_ok_def\<close>)
qed

lemma owner_store_inv:
  assumes I: "deque_inv s" and c: "ds_owner s = Pop_store b"
  shows "deque_inv (owner_step s)"
proof (rule deque_inv_contents[OF I])
  fix xs assume xs: "contents s = map Some xs" "mset (ds_pushed s) = mset (ds_taken s) + mset xs"
  have o: "b = bottom_of s - 1" using deque_invD(4)[OF I] c by (auto simp: owner_ok_def)
  have e: "logical_end s = b + 1" using c o by (simp add: logical_end_def)
  have s': "owner_step s = set_owner (Pop_top b) (set_deque (ds_deque s\<lparr>dq_bottom := b\<rparr>) s)"
    using c by (simp add: owner_step_def Let_def)
  have e': "logical_end (owner_step s) = b + 1" by (simp add: s' logical_end_def)
  show ?thesis
  proof (rule deque_invI)
    show "thief_ok (owner_step s) (ds_thief (owner_step s) i)" for i
      using deque_invD(5)[OF I, of i] by (cases "ds_thief s i") (auto simp: thief_ok_def steal_safe_def e e'[unfolded s'] s')
    show "contents (owner_step s) = map Some xs"
      unfolding contents_def e' using xs(1) c e by (simp add: s' contents_def)
  qed (use deque_invD[OF I] e e' o xs s' in \<open>auto simp: owner_ok_def\<close>)
qed

lemma owner_step_inv:
  assumes I: "deque_inv s" and l: "\<not> ds_lost (owner_step s)"
  shows "deque_inv (owner_step s)"
proof (cases "ds_owner s")
  case O_idle
  then show ?thesis using I by (simp add: owner_step_def)
next
  case (Push_load j)
  then have "deque_inv (set_owner (Push_write j (bottom_of s)) s)"
    using deque_invD(4)[OF I] by (intro owner_moves[OF I]) (auto simp: owner_ok_def logical_end_def)
  then show ?thesis using Push_load by (simp add: owner_step_def Let_def)
next
  case Pop_load
  then have "deque_inv (set_owner (Pop_store (bottom_of s - 1)) s)"
    by (intro owner_moves[OF I]) (auto simp: owner_ok_def logical_end_def)
  then show ?thesis using Pop_load by (simp add: owner_step_def Let_def)
next
  case (Pop_top b)
  then have o: "bottom_of s = b" "top_of s \<le> b + 1" using deque_invD(2,4)[OF I] by (auto simp: owner_ok_def logical_end_def)
  have "deque_inv (set_owner (if top_of s \<le> b then Pop_read b (top_of s) else Pop_empty (top_of s)) s)"
    using Pop_top o by (intro owner_moves[OF I]) (auto simp: owner_ok_def logical_end_def split: if_splits)
  then show ?thesis using Pop_top by (simp add: owner_step_def Let_def)
next
  case (Pop_read b t)
  show ?thesis
  proof (cases "t = b")
    case True
    then have "deque_inv (set_owner (Pop_cas b t (cell s b)) s)"
      using deque_invD(4)[OF I] Pop_read by (intro owner_moves[OF I]) (auto simp: owner_ok_def logical_end_def)
    then show ?thesis using Pop_read True by (simp add: owner_step_def Let_def)
  qed (rule owner_take_inv[OF I Pop_read])
next
  case (Pop_cas b t j)
  then have "top_of s = t" using l by (auto simp: owner_step_def Let_def split: if_splits)
  then show ?thesis by (rule owner_cas_inv[OF I Pop_cas])
qed (auto intro: owner_write_inv[OF I] owner_publish_inv[OF I] owner_store_inv[OF I] owner_restore_inv[OF I] owner_empty_inv[OF I])


section \<open>Steps of a thief\<close>

lemma set_thief_fields [simp]:
  "ds_deque (set_thief i c s) = ds_deque s" "ds_owner (set_thief i c s) = ds_owner s" "ds_pushed (set_thief i c s) = ds_pushed s"
  "ds_taken (set_thief i c s) = ds_taken s" "ds_lost (set_thief i c s) = ds_lost s"
  "ds_thief (set_thief i c s) = (ds_thief s)(i := c)"
  by (simp_all add: set_thief_def)

lemma set_thief_inv [simp]:
  "logical_end (set_thief i c s) = logical_end s" "owner_ok (set_thief i c s) = owner_ok s"
  "contents (set_thief i c s) = contents s" "thief_ok (set_thief i c s) = thief_ok s"
proof -
  show e: "logical_end (set_thief i c s) = logical_end s" by (simp only: logical_end_def set_thief_fields)
  show "owner_ok (set_thief i c s) = owner_ok s" by (simp only: owner_ok_def set_thief_fields)
  show "contents (set_thief i c s) = contents s" by (simp only: contents_def set_thief_fields e)
  show "thief_ok (set_thief i c s) = thief_ok s" by (simp only: fun_eq_iff thief_ok_def steal_safe_def set_thief_fields e) simp
qed

lemma thief_moves: "deque_inv s \<Longrightarrow> thief_ok s c \<Longrightarrow> deque_inv (set_thief i c s)"
  by (simp add: deque_inv_def)

lemma thief_wins_inv:
  assumes I: "deque_inv s" and c: "ds_thief s i = S_cas t j" and w: "top_of s = t"
  shows "deque_inv (thief_step i s)"
proof (rule deque_inv_contents[OF I])
  fix xs assume xs: "contents s = map Some xs" "mset (ds_pushed s) = mset (ds_taken s) + mset xs"
  have k: "t < logical_end s" "j = cell s t" "\<And>b u. ds_owner s = Pop_read b u \<Longrightarrow> u < b \<Longrightarrow> t < b"
    using deque_invD(5)[OF I, of i] c w by (auto simp: thief_ok_def steal_safe_def)
  have nr: "ds_owner s \<noteq> Pop_restore a q" for a q
    using k(1) w deque_invD(4)[OF I] by (auto simp: owner_ok_def logical_end_def)
  have pend: "contents s = entries (ds_deque s) t (logical_end s)"
    using w nr by (auto simp: contents_def split: owner_pc.splits)
  have "map Some xs = cell s t # entries (ds_deque s) (t + 1) (logical_end s)"
    using xs(1) pend entries_Cons[OF k(1)] by simp
  then obtain y ys where y: "xs = y # ys" "cell s t = Some y" "entries (ds_deque s) (t + 1) (logical_end s) = map Some ys"
    by (cases xs) auto
  let ?s = "s\<lparr>ds_thief := (ds_thief s)(i := S_idle), ds_deque := ds_deque s\<lparr>dq_top := t + 1\<rparr>, ds_taken := y # ds_taken s\<rparr>"
  have s': "thief_step i s = ?s"
    using c w k(2) y(2) by (simp add: thief_step_def Let_def returned_def set_thief_def)
  have e': "logical_end ?s = logical_end s" by (cases "ds_owner s") (simp_all add: logical_end_def)
  have "deque_inv ?s"
  proof (rule deque_invI)
    show "thief_ok ?s (ds_thief ?s n)" for n
      using deque_invD(5)[OF I, of n] w by (cases "ds_thief s n") (auto simp: thief_ok_def steal_safe_def)
    show "owner_ok ?s" using deque_invD(4)[OF I] w k(1,3)
      by (cases "ds_owner s") (auto simp: owner_ok_def logical_end_def)
    show "contents ?s = map Some ys" unfolding contents_def e' using y(3) nr by (simp split: owner_pc.splits)
  qed (use deque_invD[OF I] k w xs y e' in auto)
  then show ?thesis by (simp only: s')
qed

lemma thief_step_inv:
  assumes I: "deque_inv s"
  shows "deque_inv (thief_step i s)"
proof (cases "ds_thief s i")
  case (S_bottom t)
  then have t: "t \<le> top_of s" using deque_invD(5)[OF I, of i] by (simp add: thief_ok_def)
  have "steal_safe s t" if b: "t < bottom_of s"
  proof -
    have "t < logical_end s \<and> (\<forall>b u. ds_owner s = Pop_read b u \<longrightarrow> u < b \<longrightarrow> t < b)" if "t = top_of s"
      using b that deque_invD(4)[OF I] by (cases "ds_owner s") (auto simp: owner_ok_def logical_end_def)
    then show ?thesis using t by (simp add: steal_safe_def)
  qed
  then show ?thesis using S_bottom I by (auto simp: thief_step_def Let_def thief_ok_def intro!: thief_moves)
next
  case (S_cas t j)
  then show ?thesis using thief_wins_inv[OF I S_cas] I
    by (cases "top_of s = t") (auto simp: thief_step_def Let_def thief_ok_def intro!: thief_moves)
next
  case (S_read t)
  then show ?thesis using I deque_invD(5)[OF I, of i] by (auto simp: thief_step_def Let_def thief_ok_def intro!: thief_moves)
qed (use I in \<open>auto simp: thief_step_def Let_def thief_ok_def intro!: thief_moves\<close>)

section \<open>Runs\<close>

text \<open>
  The states that the owner and the thieves can reach from an empty deque, as long as no push starts
  on a full deque and the owner has not lost a race for the last job.
\<close>

inductive deque_run :: "work_deque \<Rightarrow> deque_state \<Rightarrow> bool" for dq where
  dr_start: "deque_run dq (deque_start dq)"
| dr_step: "deque_run dq s \<Longrightarrow> deque_step a s = Some s' \<Longrightarrow> (\<And>j. a = Start_push j \<Longrightarrow> bottom_of s - top_of s < cap_of s) \<Longrightarrow>
    \<not> ds_lost s' \<Longrightarrow> deque_run dq s'"

lemma deque_step_inv:
  assumes I: "deque_inv s" and st: "deque_step a s = Some s'"
    and fit: "\<And>j. a = Start_push j \<Longrightarrow> bottom_of s - top_of s < cap_of s" and l: "\<not> ds_lost s'"
  shows "deque_inv s'"
proof (cases a)
  case (Start_push j)
  then show ?thesis using st fit I
    by (auto simp: deque_step_def owner_ok_def logical_end_def intro!: owner_moves split: if_splits)
next
  case Start_pop
  then show ?thesis using st I
    by (auto simp: deque_step_def owner_ok_def logical_end_def intro!: owner_moves split: if_splits)
next
  case Owner
  then show ?thesis using st l owner_step_inv[OF I] by (auto simp: deque_step_def split: if_splits)
next
  case (Start_steal i)
  then show ?thesis using st thief_moves[OF I] by (auto simp: deque_step_def thief_ok_def split: if_splits)
next
  case (Thief i)
  then show ?thesis using st thief_step_inv[OF I] by (auto simp: deque_step_def split: if_splits)
qed

lemma deque_start_inv: "wf_deque dq \<Longrightarrow> dq_top dq = 0 \<Longrightarrow> dq_bottom dq = 0 \<Longrightarrow> deque_inv (deque_start dq)"
  by (auto simp: deque_inv_def deque_start_def logical_end_def owner_ok_def thief_ok_def contents_def)

lemma deque_run_inv:
  "deque_run dq s \<Longrightarrow> wf_deque dq \<Longrightarrow> dq_top dq = 0 \<Longrightarrow> dq_bottom dq = 0 \<Longrightarrow> deque_inv s"
  by (induction rule: deque_run.induct) (auto intro: deque_start_inv deque_step_inv)


lemma ops_fit_mono: "ops_fit c as xs \<Longrightarrow> c \<le> d \<Longrightarrow> ops_fit d as xs"
  by (induction as arbitrary: xs) (auto simp del: spec_op.simps dest: less_le_trans)

lemma exec_lost: "deque_exec as s = Some s' \<Longrightarrow> ds_lost s \<Longrightarrow> ds_lost s'"
proof (induction as arbitrary: s)
  case (Cons a as)
  obtain s1 where s1: "deque_step a s = Some s1" "deque_exec as s1 = Some s'"
    using Cons.prems(1) by (auto simp: bind_eq_Some_conv)
  have "ds_lost s1" using s1(1) Cons.prems(2)
    by (auto simp: deque_step_def owner_step_def thief_step_def Let_def returned_def split: deque_action.splits owner_pc.splits thief_pc.splits if_splits)
  then show ?case using Cons.IH[OF s1(2)] by simp
qed simp

text \<open>Executions in which no push starts on a full deque.\<close>

fun exec_fits :: "deque_action list \<Rightarrow> deque_state \<Rightarrow> bool" where
  "exec_fits [] s = True"
| "exec_fits (a # as) s =
     ((case a of Start_push j \<Rightarrow> bottom_of s - top_of s < cap_of s | _ \<Rightarrow> True) \<and>
      (case deque_step a s of None \<Rightarrow> True | Some s' \<Rightarrow> exec_fits as s'))"

lemma deque_run_exec:
  "deque_run dq s \<Longrightarrow> deque_exec as s = Some s' \<Longrightarrow> exec_fits as s \<Longrightarrow> \<not> ds_lost s' \<Longrightarrow> deque_run dq s'"
proof (induction as arbitrary: s)
  case (Cons a as)
  obtain s1 where s1: "deque_step a s = Some s1" "deque_exec as s1 = Some s'"
    using Cons.prems(2) by (auto simp: bind_eq_Some_conv)
  have "\<not> ds_lost s1" using exec_lost[OF s1(2)] Cons.prems(4) by blast
  then have "deque_run dq s1" using Cons.prems(1,3) by (intro dr_step[OF _ s1(1)]) auto
  then show ?case using Cons.IH[OF _ s1(2)] Cons.prems(3,4) s1(1) by simp
qed simp

section \<open>Properties\<close>

text \<open>
  On their own, push, pop and steal implement a double-ended queue: whatever sequence of operations is
  performed on a new deque, never pushing onto a full one, the results are those of a list that is pushed
  and popped at its end and stolen from at its front.
\<close>

theorem deque_refines_list:
  assumes c: "unat capacity \<le> 2 ^ 63" and i: "lgx_work_deque_init capacity = Some dq"
    and fit: "ops_fit (unat capacity) as []"
  shows "fst (ops_results deque_impl as dq) = fst (ops_results spec_op as [])"
proof -
  obtain dq' where d: "lgx_work_deque_init capacity = Some dq'" "wf_deque dq'" "dq_top dq' = 0" "dq_bottom dq' = 0"
    "unat capacity \<le> dq_capacity dq'" by (rule init_deque[OF c])
  have r: "deque_rep dq []" using d i by (simp add: deque_rep_def)
  have "ops_fit (dq_capacity dq) as []" by (rule ops_fit_mono[OF fit]) (use d i in simp)
  from wd.ops_refine[OF r this] show ?thesis by (cases "ops_results deque_impl as dq") (auto simp: deque_impl_op)
qed

theorem deque_refines_list_witness:
  "\<exists>dq. lgx_work_deque_init LGX_THREADING_DEQUE_INITIAL_CAP = Some dq \<and>
     fst (ops_results deque_impl [Push 7, Push 8, Push 9, Steal, Pop, Pop, Pop] dq) = [None, None, None, Some 7, Some 9, Some 8, None]"
proof -
  have c: "unat LGX_THREADING_DEQUE_INITIAL_CAP \<le> 2 ^ 63" by (simp add: LGX_THREADING_DEQUE_INITIAL_CAP_def)
  obtain dq where d: "lgx_work_deque_init LGX_THREADING_DEQUE_INITIAL_CAP = Some dq" by (rule init_deque[OF c])
  have "ops_fit (unat LGX_THREADING_DEQUE_INITIAL_CAP) [Push 7, Push 8, Push 9, Steal, Pop, Pop, Pop] []"
    by (simp add: LGX_THREADING_DEQUE_INITIAL_CAP_def)
  from deque_refines_list[OF c d this] d show ?thesis by simp
qed

text \<open>
  C34. Under any interleaving of the owner with any number of thieves, as long as no push starts on a full
  deque and the owner has lost no race for the last job, every published job has been returned exactly
  once or is still in the deque (or won, and about to be returned).
\<close>

theorem deque_exactly_once:
  assumes c: "unat capacity \<le> 2 ^ 63" and i: "lgx_work_deque_init capacity = Some dq" and run: "deque_run dq s"
  shows "\<exists>xs. contents s = map Some xs \<and> mset (ds_pushed s) = mset (ds_taken s) + mset xs"
proof -
  obtain dq' where "lgx_work_deque_init capacity = Some dq'" "wf_deque dq'" "dq_top dq' = 0" "dq_bottom dq' = 0"
    by (rule init_deque[OF c])
  then have "deque_inv s" using i by (intro deque_run_inv[OF run]) auto
  then show ?thesis by (auto simp: deque_inv_def)
qed

theorem deque_exactly_once_witness:
  "\<exists>dq s. lgx_work_deque_init 2 = Some dq \<and> deque_run dq s \<and> ds_pushed s = [8, 7] \<and> ds_taken s = [7] \<and>
     contents s = [Some 8]"
proof -
  let ?as = "[Start_push 7, Owner, Owner, Owner, Start_push 8, Start_steal 0, Owner, Thief 0, Owner, Thief 0, Owner, Thief 0, Thief 0]"
  have i: "lgx_work_deque_init 2 = Some (new_deque 2)" by (simp add: lgx_work_deque_init_def round_up_cap.simps)
  obtain s where e: "deque_exec ?as (deque_start (new_deque 2)) = Some s" "exec_fits ?as (deque_start (new_deque 2))"
    "ds_pushed s = [8, 7]" "ds_taken s = [7]" "\<not> ds_lost s" "logical_end s = 2" "top_of s = 1"
    by (simp add: deque_step_def owner_step_def thief_step_def set_thief_def returned_def Let_def deque_start_def new_deque_def
        dq_slot_def logical_end_def)
  have run: "deque_run (new_deque 2) s" by (rule deque_run_exec[OF dr_start e(1,2,5)])
  obtain xs where xs: "contents s = map Some xs" "mset (ds_pushed s) = mset (ds_taken s) + mset xs"
    using deque_exactly_once[OF _ i run] by auto
  then have "xs = [8]" using e by auto
  then show ?thesis using i run e xs by auto
qed

text \<open>
  If the owner loses the race for the last job, the failed compare-and-swap has overwritten \<open>t\<close>, \<open>bottom\<close>
  is set one too far, and the deque contains a stale entry: a job that was returned before is returned again.
\<close>

theorem deque_lost_race_duplicates:
  "\<exists>as dq s. lgx_work_deque_init LGX_THREADING_DEQUE_INITIAL_CAP = Some dq \<and> deque_exec as (deque_start dq) = Some s \<and>
     ds_pushed s = [2, 1] \<and> ds_taken s = [2, 1, 2] \<and> ds_owner s = O_idle"
proof -
  let ?as = "[Start_push 1, Owner, Owner, Owner, Start_push 2, Owner, Owner, Owner, Start_pop, Owner, Owner, Owner, Owner,
    Start_steal 0, Thief 0, Thief 0, Start_pop, Owner, Owner, Owner, Owner, Thief 0, Thief 0, Owner, Owner,
    Start_pop, Owner, Owner, Owner, Owner, Owner, Owner]"
  have i: "lgx_work_deque_init LGX_THREADING_DEQUE_INITIAL_CAP = Some (new_deque 1024)"
    by (simp add: lgx_work_deque_init_def round_up_cap.simps LGX_THREADING_DEQUE_INITIAL_CAP_def)
  obtain s where "deque_exec ?as (deque_start (new_deque 1024)) = Some s" "ds_pushed s = [2, 1]" "ds_taken s = [2, 1, 2]" "ds_owner s = O_idle"
    by (simp add: deque_step_def owner_step_def thief_step_def set_thief_def returned_def Let_def deque_start_def new_deque_def dq_slot_def)
  then show ?thesis using i by blast
qed

lemma ops_results_append:
  "ops_results f (as @ bs) s = (case ops_results f as s of (rs, s1) \<Rightarrow> (case ops_results f bs s1 of (rs2, s2) \<Rightarrow> (rs @ rs2, s2)))"
  by (induction as arbitrary: s) (auto split: prod.splits)

lemma pushes_fit:
  assumes "deque_rep dq xs" "length xs + length ks \<le> dq_capacity dq"
  shows "\<exists>dq'. ops_results deque_impl (map Push ks) dq = (replicate (length ks) None, dq') \<and> deque_rep dq' (xs @ ks) \<and>
    dq_top dq' = dq_top dq \<and> dq_capacity dq' = dq_capacity dq"
  using assms
proof (induction ks arbitrary: dq xs)
  case (Cons k ks)
  let ?d = "lgx_work_deque_push k dq"
  have r: "deque_rep ?d (xs @ [k])" "dq_capacity ?d = dq_capacity dq" using push_rep[OF Cons.prems(1)] Cons.prems(2) by auto
  have t: "dq_top ?d = dq_top dq" by (simp add: lgx_work_deque_push_def Let_def)
  obtain dq' where "ops_results deque_impl (map Push ks) ?d = (replicate (length ks) None, dq')" "deque_rep dq' (xs @ k # ks)"
    "dq_top dq' = dq_top dq" "dq_capacity dq' = dq_capacity dq"
    using Cons.IH[OF r(1)] r(2) t Cons.prems(2) by auto
  moreover have "deque_impl (Push k) dq = (None, ?d)" by (simp add: deque_impl_def)
  ultimately show ?case by auto
qed simp

lemma steals:
  "entries dq (dq_top dq) (dq_bottom dq) = map Some xs \<Longrightarrow> fst (ops_results deque_impl (replicate (length xs) Steal) dq) = map Some xs"
proof (induction xs arbitrary: dq)
  case (Cons x xs)
  have lt: "dq_top dq < dq_bottom dq" using Cons.prems entries_empty[of "dq_bottom dq" "dq_top dq" dq] by (cases "dq_top dq < dq_bottom dq") auto
  let ?d = "dq\<lparr>dq_top := dq_top dq + 1\<rparr>"
  have "dq_buffer dq (dq_slot dq (dq_top dq)) = Some x" "entries ?d (dq_top ?d) (dq_bottom ?d) = map Some xs"
    using Cons.prems entries_Cons[OF lt, of dq] by auto
  moreover have "deque_impl Steal dq = (dq_buffer dq (dq_slot dq (dq_top dq)), ?d)"
    using lt by (simp add: deque_impl_def lgx_work_deque_steal_def Let_def)
  ultimately show ?case using Cons.IH[of ?d] by (auto split: prod.splits)
qed simp

text \<open>
  \<open>lgx_work_deque_push\<close> does not check for a full deque: after one push too many the oldest job is gone,
  and the newest one is returned twice.
\<close>

theorem deque_overflow_loses_job:
  assumes c: "unat capacity \<le> 2 ^ 63" and i: "lgx_work_deque_init capacity = Some dq" and n: "length js = Suc (dq_capacity dq)"
  shows "fst (ops_results deque_impl (map Push js @ replicate (length js) Steal) dq) =
    replicate (length js) None @ map Some (last js # tl js)"
proof -
  obtain dq' where "lgx_work_deque_init capacity = Some dq'" "wf_deque dq'" "dq_top dq' = 0" "dq_bottom dq' = 0"
    by (rule init_deque[OF c])
  then have wf: "wf_deque dq" and r0: "deque_rep dq []" "dq_top dq = 0" using i by (auto simp: deque_rep_def)
  obtain ks j where js: "js = ks @ [j]" "length ks = dq_capacity dq" using n by (cases js rule: rev_cases) auto
  then obtain k ks' where ks: "ks = k # ks'" using wf_cap[OF wf] by (cases ks) auto
  obtain d where d: "ops_results deque_impl (map Push ks) dq = (replicate (length ks) None, d)" "deque_rep d ks"
    "dq_top d = 0" "dq_capacity d = dq_capacity dq" using pushes_fit[OF r0(1), of ks] js r0(2) by auto
  let ?c = "int (dq_capacity dq)"
  have b: "dq_bottom d = ?c" using deque_rep_length[OF d(2)] d(3) js(2) by simp
  have wd: "wf_deque d" using d(2) by (simp add: deque_rep_def)
  have full: "dq_slot d ?c = dq_slot d 0" using d(4) by (simp add: dq_slot_mod[OF wd])
  let ?w = "d\<lparr>dq_buffer := (dq_buffer d)(dq_slot d ?c := Some j)\<rparr>"
  have "entries d (0 + 1) ?c = map Some ks'"
    using d(2,3) b entries_Cons[of 0 ?c d] wf_cap[OF wf] ks by (auto simp: deque_rep_def)
  then have "entries ?w (0 + 1) ?c = map Some ks'" using entries_write[OF wd, of ?c ?c "0 + 1" "Some j"] d(4) by simp
  then have "entries ?w (0 + 1) (?c + 1) = map Some (ks' @ [j])" using wf_cap[OF wf] by (subst entries_snoc) auto
  then have "entries ?w 0 (?c + 1) = map Some (j # ks' @ [j])"
    using entries_Cons[of 0 "?c + 1" ?w] wf_cap[OF wf] full by simp
  then have e: "entries (lgx_work_deque_push j d) (dq_top (lgx_work_deque_push j d)) (dq_bottom (lgx_work_deque_push j d)) =
      map Some (last js # tl js)"
    using d(3) b js(1) ks by (simp add: lgx_work_deque_push_def Let_def)
  have p: "ops_results deque_impl (map Push js) dq = (replicate (length js) None, lgx_work_deque_push j d)"
    using d(1) js(1) by (simp add: ops_results_append deque_impl_def replicate_append_same)
  have "length (last js # tl js) = length js" using js by simp
  with steals[OF e] have "fst (ops_results deque_impl (replicate (length js) Steal) (lgx_work_deque_push j d)) = map Some (last js # tl js)"
    by (simp only:)
  then show ?thesis using p by (auto simp: ops_results_append split: prod.splits)
qed

theorem deque_overflow_loses_job_witness:
  "\<exists>dq. lgx_work_deque_init 2 = Some dq \<and>
     fst (ops_results deque_impl [Push 7, Push 8, Push 9, Steal, Steal, Steal] dq) = [None, None, None, Some 9, Some 8, Some 9]"
proof -
  have i: "lgx_work_deque_init 2 = Some (new_deque 2)" by (simp add: lgx_work_deque_init_def round_up_cap.simps)
  have "fst (ops_results deque_impl (map Push [7, 8, 9] @ replicate (length [7, 8, 9 :: job]) Steal) (new_deque 2)) =
      replicate (length [7, 8, 9 :: job]) None @ map Some (last [7, 8, 9] # tl [7, 8, 9])"
    by (rule deque_overflow_loses_job[OF _ i]) (simp_all add: new_deque_def)
  moreover have "map Push [7, 8, 9] @ replicate (length [7, 8, 9 :: job]) Steal = [Push 7, Push 8, Push 9, Steal, Steal, Steal]"
    by (simp add: numeral_3_eq_3)
  moreover have "replicate (length [7, 8, 9 :: job]) None @ map Some (last [7, 8, 9] # tl [7, 8, 9]) =
      [None, None, None, Some 9, Some 8, Some (9 :: job)]" by (simp add: numeral_3_eq_3)
  ultimately show ?thesis using i by metis
qed

end
