(* ===== verification/Thread_Mutex.thy ===== *)
theory Thread_Mutex
  imports Thread_Base
begin

text \<open>
  The futex mutex of \<^verbatim>\<open>src/threading/lgx_threading.c\<close> (\<open>lgx_mutex_*\<close>), as the atomic steps of any
  number of threads, interleaved by a scheduler, and the kernel's wait queue: \<open>futex_wait\<close> puts a thread
  to sleep if the word still has the expected value, \<open>futex_wake\<close> wakes one sleeper, and a sleeper may
  also wake up by itself.
\<close>

section \<open>Steps\<close>

text \<open>
  The state of a thread, named after the access it makes next. \<open>M_set e\<close>: in the loop of
  \<open>lgx_mutex_lock\<close>, with \<open>expected = e\<close>.
\<close>

datatype mutex_pc =
    M_idle | M_fast | M_set u32 | M_wait | M_sleep | M_acquire | M_try | M_held | M_release | M_clear | M_wake

record mutex_state =
  mx_state :: u32
  mx_pc :: "nat \<Rightarrow> mutex_pc"

definition lgx_mutex_init :: "bool \<Rightarrow> mutex_state \<Rightarrow> lgx_threading_error \<times> mutex_state" where
  "lgx_mutex_init nonnull s =
     (if \<not> nonnull then (LGX_THREADING_ERROR_INVALID_PARAM, s) else (LGX_THREADING_SUCCESS, s\<lparr>mx_state := 0\<rparr>))"

definition go :: "nat \<Rightarrow> mutex_pc \<Rightarrow> mutex_state \<Rightarrow> mutex_state" where
  "go i c s = s\<lparr>mx_pc := (mx_pc s)(i := c)\<rparr>"

text \<open>\<open>lgx_mutex_lock\<close>, \<open>lgx_mutex_try_lock\<close> and \<open>lgx_mutex_unlock\<close> of thread \<open>i\<close>, one access at a time.\<close>

definition lgx_mutex_lock_step :: "nat \<Rightarrow> mutex_state \<Rightarrow> mutex_state" where
  "lgx_mutex_lock_step i s =
     (case mx_pc s i of
        M_fast \<Rightarrow> if mx_state s = 0 then go i M_held (s\<lparr>mx_state := 1\<rparr>) else go i (M_set (mx_state s)) s
      | M_set expected \<Rightarrow>
          if expected = 2 then go i M_wait s
          else if mx_state s = expected then go i M_wait (s\<lparr>mx_state := 2\<rparr>)
          else go i M_wait s
      | M_wait \<Rightarrow> if mx_state s = 2 then go i M_sleep s else go i M_acquire s
      | M_acquire \<Rightarrow> if mx_state s = 0 then go i M_held (s\<lparr>mx_state := 2\<rparr>) else go i (M_set (mx_state s)) s
      | _ \<Rightarrow> s)"

definition lgx_mutex_try_lock_step :: "nat \<Rightarrow> mutex_state \<Rightarrow> mutex_state" where
  "lgx_mutex_try_lock_step i s =
     (if mx_state s = 0 then go i M_held (s\<lparr>mx_state := 1\<rparr>) else go i M_idle s)"

text \<open>\<open>j\<close>: the sleeper that the kernel chooses to wake, if there is one.\<close>

definition lgx_mutex_unlock_step :: "nat \<Rightarrow> nat \<Rightarrow> mutex_state \<Rightarrow> mutex_state" where
  "lgx_mutex_unlock_step i j s =
     (case mx_pc s i of
        M_release \<Rightarrow>
          let prev = mx_state s; s1 = s\<lparr>mx_state := prev - 1\<rparr>
          in if prev = 2 then go i M_clear s1 else go i M_idle s1
      | M_clear \<Rightarrow> go i M_wake (s\<lparr>mx_state := 0\<rparr>)
      | M_wake \<Rightarrow> go i M_idle (if mx_pc s j = M_sleep then go j M_acquire s else s)
      | _ \<Rightarrow> s)"

datatype mutex_action = Lock nat | Try_lock nat | Unlock nat | Step nat nat | Spurious nat

text \<open>
  What can happen next; \<open>None\<close> if the action is not enabled. Only a thread that holds the mutex
  unlocks it.
\<close>

definition mutex_step :: "mutex_action \<Rightarrow> mutex_state \<Rightarrow> mutex_state option" where
  "mutex_step a s =
     (case a of
        Lock i \<Rightarrow> if mx_pc s i = M_idle then Some (go i M_fast s) else None
      | Try_lock i \<Rightarrow> if mx_pc s i = M_idle then Some (go i M_try s) else None
      | Unlock i \<Rightarrow> if mx_pc s i = M_held then Some (go i M_release s) else None
      | Spurious i \<Rightarrow> if mx_pc s i = M_sleep then Some (go i M_acquire s) else None
      | Step i j \<Rightarrow>
          (case mx_pc s i of
             M_idle \<Rightarrow> None | M_held \<Rightarrow> None | M_sleep \<Rightarrow> None
           | M_try \<Rightarrow> Some (lgx_mutex_try_lock_step i s)
           | M_release \<Rightarrow> Some (lgx_mutex_unlock_step i j s)
           | M_clear \<Rightarrow> Some (lgx_mutex_unlock_step i j s)
           | M_wake \<Rightarrow> Some (lgx_mutex_unlock_step i j s)
           | _ \<Rightarrow> Some (lgx_mutex_lock_step i s)))"

text \<open>The kernel wakes a sleeper if there is one.\<close>

definition wakes_sleeper :: "mutex_action \<Rightarrow> mutex_state \<Rightarrow> bool" where
  "wakes_sleeper a s \<longleftrightarrow>
     (\<forall>i j k. a = Step i j \<longrightarrow> mx_pc s i = M_wake \<longrightarrow> mx_pc s k = M_sleep \<longrightarrow> mx_pc s j = M_sleep)"

inductive mutex_run :: "mutex_state \<Rightarrow> bool" where
  mr_start: "lgx_mutex_init True s0 = (LGX_THREADING_SUCCESS, s) \<Longrightarrow> \<forall>i. mx_pc s i = M_idle \<Longrightarrow> mutex_run s"
| mr_step: "mutex_run s \<Longrightarrow> mutex_step a s = Some s' \<Longrightarrow> wakes_sleeper a s \<Longrightarrow> mutex_run s'"

section \<open>The invariant\<close>

definition holding :: "mutex_pc \<Rightarrow> bool" where
  "holding c \<longleftrightarrow> c \<in> {M_held, M_release, M_clear}"

text \<open>The threads that will look at the mutex again or wake somebody.\<close>

definition alert :: "mutex_pc \<Rightarrow> bool" where
  "alert c \<longleftrightarrow> c \<in> {M_wait, M_acquire, M_clear, M_wake} \<or> (\<exists>e. c = M_set e)"

definition mutex_inv :: "mutex_state \<Rightarrow> bool" where
  "mutex_inv s \<longleftrightarrow> (\<forall>i j. holding (mx_pc s i) \<longrightarrow> holding (mx_pc s j) \<longrightarrow> i = j) \<and>
     (mx_state s = 0 \<longleftrightarrow> (\<forall>i. \<not> holding (mx_pc s i))) \<and> mx_state s \<in> {0, 1, 2} \<and>
     (\<forall>i e. mx_pc s i = M_set e \<longrightarrow> e \<noteq> 0) \<and>
     ((\<exists>i. mx_pc s i = M_sleep) \<longrightarrow> mx_state s = 2 \<or> (\<exists>i. alert (mx_pc s i)))"

lemma mutex_invD:
  assumes "mutex_inv s"
  shows "holding (mx_pc s i) \<Longrightarrow> holding (mx_pc s j) \<Longrightarrow> i = j" "holding (mx_pc s i) \<Longrightarrow> mx_state s \<noteq> 0"
    "mx_state s = 0 \<Longrightarrow> \<not> holding (mx_pc s i)" "mx_state s \<noteq> 0 \<Longrightarrow> \<exists>k. holding (mx_pc s k)"
    "mx_state s = 0 \<or> mx_state s = 1 \<or> mx_state s = 2" "mx_pc s i = M_set e \<Longrightarrow> e \<noteq> 0"
    "mx_pc s i = M_sleep \<Longrightarrow> mx_state s = 2 \<or> (\<exists>i. alert (mx_pc s i))"
  using assms unfolding mutex_inv_def by blast+

text \<open>Thread \<open>i\<close> writes \<open>v\<close> and goes on to \<open>c\<close>.\<close>

lemma inv_upd:
  assumes I: "mutex_inv s" and v: "v = 0 \<or> v = 1 \<or> v = 2"
    and h: "v = 0 \<longleftrightarrow> \<not> holding c \<and> (\<forall>k. k \<noteq> i \<longrightarrow> \<not> holding (mx_pc s k))" "holding c \<Longrightarrow> \<forall>k. k \<noteq> i \<longrightarrow> \<not> holding (mx_pc s k)"
    and e: "\<And>e. c = M_set e \<Longrightarrow> e \<noteq> 0"
    and sl: "c = M_sleep \<Longrightarrow> v = 2" "\<And>k. k \<noteq> i \<Longrightarrow> mx_pc s k = M_sleep \<Longrightarrow> v = 2 \<or> alert c \<or> (\<exists>k. k \<noteq> i \<and> alert (mx_pc s k))"
  shows "mutex_inv (go i c (s\<lparr>mx_state := v\<rparr>))"
  unfolding mutex_inv_def
proof (intro conjI allI impI)
  let ?s = "go i c (s\<lparr>mx_state := v\<rparr>)"
  have pc: "mx_pc ?s k = (if k = i then c else mx_pc s k)" "mx_state ?s = v" for k by (simp_all add: go_def)
  show "j = k" if "holding (mx_pc ?s j)" "holding (mx_pc ?s k)" for j k
    using that h(2) mutex_invD(1)[OF I, of j k] unfolding pc by (cases "j = i"; cases "k = i") auto
  show "mx_state ?s = 0 \<longleftrightarrow> (\<forall>k. \<not> holding (mx_pc ?s k))" unfolding pc h(1) by auto
  show "mx_state ?s \<in> {0, 1, 2}" using v by (auto simp: pc)
  show "e \<noteq> 0" if "mx_pc ?s k = M_set e" for k e
    using that assms(5) mutex_invD(6)[OF I] unfolding pc by (auto split: if_splits)
  show "mx_state ?s = 2 \<or> (\<exists>k. alert (mx_pc ?s k))" if "\<exists>k. mx_pc ?s k = M_sleep"
  proof -
    from that obtain k where k: "(if k = i then c else mx_pc s k) = M_sleep" unfolding pc by blast
    show ?thesis unfolding pc using sl(1) sl(2)[of k] k by (cases "k = i") auto
  qed
qed

lemma go_same: "go i c s = go i c (s\<lparr>mx_state := mx_state s\<rparr>)" by simp

text \<open>Thread \<open>i\<close> moves on without a write.\<close>

lemma inv_go:
  assumes I: "mutex_inv s" and h: "holding c = holding (mx_pc s i)" and e: "\<And>e. c = M_set e \<Longrightarrow> e \<noteq> 0"
    and sl: "c = M_sleep \<Longrightarrow> mx_state s = 2" "alert (mx_pc s i) \<Longrightarrow> \<not> alert c \<Longrightarrow> mx_state s = 2 \<or> (\<forall>k. mx_pc s k \<noteq> M_sleep)"
  shows "mutex_inv (go i c s)"
proof (subst go_same, rule inv_upd[OF I mutex_invD(5)[OF I]])
  show "mx_state s = 0 \<longleftrightarrow> \<not> holding c \<and> (\<forall>k. k \<noteq> i \<longrightarrow> \<not> holding (mx_pc s k))"
    using h mutex_invD(2,3)[OF I] mutex_invD(4)[OF I] by metis
  show "\<forall>k. k \<noteq> i \<longrightarrow> \<not> holding (mx_pc s k)" if "holding c" using that h mutex_invD(1)[OF I] by blast
  show "mx_state s = 2 \<or> alert c \<or> (\<exists>k. k \<noteq> i \<and> alert (mx_pc s k))" if k: "k \<noteq> i" "mx_pc s k = M_sleep" for k
  proof (cases "alert (mx_pc s i) \<and> \<not> alert c")
    case True
    then show ?thesis using sl(2) k by blast
  next
    case False
    then show ?thesis using mutex_invD(7)[OF I k(2)] by metis
  qed
qed (use e sl in auto)

lemma others_alert:
  assumes I: "mutex_inv s" and k: "mx_pc s k = M_sleep" and n: "mx_state s \<noteq> 2" "\<not> alert (mx_pc s i)"
  shows "\<exists>k. k \<noteq> i \<and> alert (mx_pc s k)"
  using mutex_invD(7)[OF I k] n by metis

text \<open>A free mutex is taken.\<close>

lemma inv_take:
  assumes I: "mutex_inv s" and f: "mx_state s = 0" and n: "\<not> alert (mx_pc s i)"
  shows "mutex_inv (go i M_held (s\<lparr>mx_state := 1\<rparr>))"
proof (rule inv_upd[OF I])
  show "1 = 2 \<or> alert M_held \<or> (\<exists>k. k \<noteq> i \<and> alert (mx_pc s k))" if "k \<noteq> i" "mx_pc s k = M_sleep" for k
    using others_alert[OF I that(2) _ n] f by simp
qed (use mutex_invD(3)[OF I f] in \<open>auto simp: holding_def\<close>)

lemmas pc_kinds = holding_def alert_def

lemma lock_step_inv:
  assumes I: "mutex_inv s" and c: "mx_pc s i = M_fast \<or> (\<exists>e. mx_pc s i = M_set e) \<or> mx_pc s i = M_wait \<or> mx_pc s i = M_acquire"
  shows "mutex_inv (lgx_mutex_lock_step i s)"
proof -
  have free: "\<forall>k. \<not> holding (mx_pc s k)" if "mx_state s = 0" using mutex_invD(3)[OF I that] by blast
  consider "mx_pc s i = M_fast" "mx_state s = 0" | "mx_pc s i = M_fast" "mx_state s \<noteq> 0"
    | e where "mx_pc s i = M_set e" "e \<noteq> 2" "mx_state s = e" | e where "mx_pc s i = M_set e" "e = 2 \<or> mx_state s \<noteq> e"
    | "mx_pc s i = M_wait" | "mx_pc s i = M_acquire" "mx_state s = 0" | "mx_pc s i = M_acquire" "mx_state s \<noteq> 0"
    using c by blast
  then show ?thesis
  proof cases
    case 1
    have "mutex_inv (go i M_held (s\<lparr>mx_state := 1\<rparr>))" using 1 by (intro inv_take[OF I]) (auto simp: pc_kinds)
    then show ?thesis using 1 by (simp add: lgx_mutex_lock_step_def)
  next
    case 2
    have "mutex_inv (go i (M_set (mx_state s)) s)" using 2 by (intro inv_go[OF I]) (auto simp: pc_kinds)
    then show ?thesis using 2 by (simp add: lgx_mutex_lock_step_def)
  next
    case (3 e)
    have "\<exists>k. k \<noteq> i \<and> holding (mx_pc s k)"
      using mutex_invD(4)[OF I] mutex_invD(6)[OF I 3(1)] 3 by (metis holding_def insert_iff mutex_pc.distinct singletonD)
    then have "mutex_inv (go i M_wait (s\<lparr>mx_state := 2\<rparr>))" by (intro inv_upd[OF I]) (auto simp: pc_kinds)
    then show ?thesis using 3 by (simp add: lgx_mutex_lock_step_def)
  next
    case (4 e)
    have "mutex_inv (go i M_wait s)" using 4 by (intro inv_go[OF I]) (auto simp: pc_kinds)
    then show ?thesis using 4 by (auto simp: lgx_mutex_lock_step_def)
  next
    case 5
    have "mutex_inv (go i (if mx_state s = 2 then M_sleep else M_acquire) s)"
      using 5 by (intro inv_go[OF I]) (auto simp: pc_kinds split: if_splits)
    then show ?thesis using 5 by (auto simp: lgx_mutex_lock_step_def)
  next
    case 6
    have "mutex_inv (go i M_held (s\<lparr>mx_state := 2\<rparr>))" using free[OF 6(2)] by (intro inv_upd[OF I]) (auto simp: pc_kinds)
    then show ?thesis using 6 by (simp add: lgx_mutex_lock_step_def)
  next
    case 7
    have "mutex_inv (go i (M_set (mx_state s)) s)" using 7 by (intro inv_go[OF I]) (auto simp: pc_kinds)
    then show ?thesis using 7 by (simp add: lgx_mutex_lock_step_def)
  qed
qed


lemma try_lock_step_inv:
  assumes I: "mutex_inv s" and c: "mx_pc s i = M_try"
  shows "mutex_inv (lgx_mutex_try_lock_step i s)"
proof (cases "mx_state s = 0")
  case True
  then have "mutex_inv (go i M_held (s\<lparr>mx_state := 1\<rparr>))" using c by (intro inv_take[OF I]) (auto simp: pc_kinds)
  then show ?thesis using True by (simp add: lgx_mutex_try_lock_step_def)
next
  case False
  have "mutex_inv (go i M_idle s)" using c by (intro inv_go[OF I]) (auto simp: pc_kinds)
  then show ?thesis using False by (simp add: lgx_mutex_try_lock_step_def)
qed

lemma unlock_step_inv:
  assumes I: "mutex_inv s" and w: "\<And>k. mx_pc s i = M_wake \<Longrightarrow> mx_pc s k = M_sleep \<Longrightarrow> mx_pc s j = M_sleep"
    and c: "mx_pc s i = M_release \<or> mx_pc s i = M_clear \<or> mx_pc s i = M_wake"
  shows "mutex_inv (lgx_mutex_unlock_step i j s)"
proof -
  have alone: "\<forall>k. k \<noteq> i \<longrightarrow> \<not> holding (mx_pc s k)" if "holding (mx_pc s i)" using mutex_invD(1)[OF I that] by metis
  consider "mx_pc s i = M_release" "mx_state s = 2" | "mx_pc s i = M_release" "mx_state s = 1"
    | "mx_pc s i = M_clear" | "mx_pc s i = M_wake" "mx_pc s j = M_sleep" | "mx_pc s i = M_wake" "mx_pc s j \<noteq> M_sleep"
    using c mutex_invD(2)[OF I, of i] mutex_invD(5)[OF I] by (auto simp: holding_def)
  then show ?thesis
  proof cases
    case 1
    have "mutex_inv (go i M_clear (s\<lparr>mx_state := 1\<rparr>))" using alone 1 by (intro inv_upd[OF I]) (auto simp: pc_kinds)
    then show ?thesis using 1 by (simp add: lgx_mutex_unlock_step_def)
  next
    case 2
    have "mutex_inv (go i M_idle (s\<lparr>mx_state := 0\<rparr>))"
    proof (rule inv_upd[OF I])
      show "0 = 2 \<or> alert M_idle \<or> (\<exists>k. k \<noteq> i \<and> alert (mx_pc s k))" if "k \<noteq> i" "mx_pc s k = M_sleep" for k
        using others_alert[OF I that(2), of i] 2 by (simp add: alert_def)
    qed (use alone 2 in \<open>auto simp: holding_def\<close>)
    then show ?thesis using 2 by (simp add: lgx_mutex_unlock_step_def)
  next
    case 3
    have "mutex_inv (go i M_wake (s\<lparr>mx_state := 0\<rparr>))" using alone 3 by (intro inv_upd[OF I]) (auto simp: pc_kinds)
    then show ?thesis using 3 by (simp add: lgx_mutex_unlock_step_def)
  next
    case 4
    have ij: "i \<noteq> j" using 4 by auto
    have J: "mutex_inv (go j M_acquire s)" using 4 by (intro inv_go[OF I]) (auto simp: pc_kinds)
    have "mutex_inv (go i M_idle (go j M_acquire s))"
    proof (subst go_same, rule inv_upd[OF J])
      show "mx_state (go j M_acquire s) = 2 \<or> alert M_idle \<or> (\<exists>k. k \<noteq> i \<and> alert (mx_pc (go j M_acquire s) k))" for k
        using ij by (auto simp: go_def alert_def)
      show "mx_state (go j M_acquire s) = 0 \<longleftrightarrow> \<not> holding M_idle \<and> (\<forall>k. k \<noteq> i \<longrightarrow> \<not> holding (mx_pc (go j M_acquire s) k))"
        using mutex_invD(3,4)[OF J] 4 ij by (metis fun_upd_other go_def holding_def insertE mutex_pc.distinct mutex_state.select_convs(2) mutex_state.surjective mutex_state.update_convs(2) singletonD)
    qed (use mutex_invD(5)[OF J] in \<open>auto simp: holding_def\<close>)
    then show ?thesis using 4 by (simp add: lgx_mutex_unlock_step_def)
  next
    case 5
    have "mutex_inv (go i M_idle s)" using 5 w by (intro inv_go[OF I]) (auto simp: pc_kinds)
    then show ?thesis using 5 by (simp add: lgx_mutex_unlock_step_def)
  qed
qed

lemma mutex_step_inv:
  assumes I: "mutex_inv s" and st: "mutex_step a s = Some s'" and w: "wakes_sleeper a s"
  shows "mutex_inv s'"
proof (cases a)
  case (Step i j)
  have "\<And>k. mx_pc s i = M_wake \<Longrightarrow> mx_pc s k = M_sleep \<Longrightarrow> mx_pc s j = M_sleep" using w Step by (auto simp: wakes_sleeper_def)
  then show ?thesis using st Step lock_step_inv[OF I, of i] try_lock_step_inv[OF I, of i] unlock_step_inv[OF I, of i j]
    by (cases "mx_pc s i") (auto simp: mutex_step_def)
qed (use st I in \<open>auto simp: mutex_step_def pc_kinds intro!: inv_go split: if_splits\<close>)

lemma mutex_run_inv: "mutex_run s \<Longrightarrow> mutex_inv s"
proof (induction rule: mutex_run.induct)
  case (mr_start s0 s)
  then show ?case by (auto simp: mutex_inv_def lgx_mutex_init_def holding_def)
next
  case (mr_step s a s')
  then show ?case using mutex_step_inv by blast
qed


section \<open>Concrete executions\<close>

fun mutex_exec :: "mutex_action list \<Rightarrow> mutex_state \<Rightarrow> mutex_state option" where
  "mutex_exec [] s = Some s"
| "mutex_exec (a # as) s =
     (if (case a of Step i j \<Rightarrow> mx_pc s i = M_wake \<longrightarrow> mx_pc s j = M_sleep | _ \<Rightarrow> True)
      then Option.bind (mutex_step a s) (mutex_exec as) else None)"

lemma mutex_exec_run: "mutex_run s \<Longrightarrow> mutex_exec as s = Some s' \<Longrightarrow> mutex_run s'"
proof (induction as arbitrary: s)
  case (Cons a as)
  then obtain s1 where s1: "mutex_step a s = Some s1" "mutex_exec as s1 = Some s'" by (auto simp: bind_eq_Some_conv split: if_splits)
  have "wakes_sleeper a s" using Cons.prems(2) by (auto simp: wakes_sleeper_def split: if_splits)
  then show ?case using Cons.IH[OF _ s1(2)] mr_step[OF Cons.prems(1) s1(1)] by blast
qed simp

definition mutex_start :: mutex_state where
  "mutex_start = \<lparr>mx_state = 0, mx_pc = (\<lambda>_. M_idle)\<rparr>"

lemma mutex_start_run: "mutex_run mutex_start"
  by (rule mr_start[of mutex_start]) (simp_all add: lgx_mutex_init_def mutex_start_def)

text \<open>Thread 0 holds the mutex, thread 1 sleeps.\<close>

definition contended :: mutex_state where
  "contended = the (mutex_exec [Lock 0, Step 0 0, Lock 1, Step 1 0, Step 1 0, Step 1 0] mutex_start)"

lemma contended: "mutex_exec [Lock 0, Step 0 0, Lock 1, Step 1 0, Step 1 0, Step 1 0] mutex_start = Some contended"
  "mx_pc contended 0 = M_held" "mx_pc contended 1 = M_sleep" "mx_state contended = 2"
  by (simp_all add: contended_def mutex_step_def lgx_mutex_lock_step_def go_def mutex_start_def)

lemma contended_run: "mutex_run contended"
  by (rule mutex_exec_run[OF mutex_start_run contended(1)])

section \<open>Properties\<close>

text \<open>
  C36. Mutual exclusion: under every interleaving of any number of threads, and whenever sleepers wake up, at
  most one thread holds the mutex, and its word is 1 or 2 while one does.
\<close>

theorem mutex_exclusion:
  assumes "mutex_run s" "mx_pc s i = M_held"
  shows "(\<forall>j. mx_pc s j = M_held \<longrightarrow> j = i) \<and> (mx_state s = 1 \<or> mx_state s = 2)"
proof -
  have I: "mutex_inv s" by (rule mutex_run_inv[OF assms(1)])
  have "j = i" if "mx_pc s j = M_held" for j using mutex_invD(1)[OF I, of j i] that assms(2) by (simp add: holding_def)
  moreover have "mx_state s \<noteq> 0" by (rule mutex_invD(2)[OF I, of i]) (simp add: assms(2) holding_def)
  ultimately show ?thesis using mutex_invD(5)[OF I] by blast
qed

theorem mutex_exclusion_witness: "mx_pc contended 0 = M_held \<and> (mx_state contended = 1 \<or> mx_state contended = 2)"
  using mutex_exclusion[OF contended_run contended(2)] contended(2) by simp

text \<open>
  C37. No wake-up is lost: while a thread sleeps, either a thread holds the mutex and its word is 2, so that
  the unlock will wake a sleeper, or some thread is about to wake a sleeper or to look at the mutex again.
\<close>

theorem mutex_no_lost_wakeup:
  assumes "mutex_run s" "mx_pc s i = M_sleep"
  shows "(mx_state s = 2 \<and> (\<exists>k. mx_pc s k = M_held \<or> mx_pc s k = M_release \<or> mx_pc s k = M_clear)) \<or>
    (\<exists>k. mx_pc s k \<in> {M_clear, M_wake, M_wait, M_acquire} \<or> (\<exists>e. mx_pc s k = M_set e))"
proof -
  have I: "mutex_inv s" by (rule mutex_run_inv[OF assms(1)])
  from mutex_invD(7)[OF I assms(2)] show ?thesis
  proof
    assume "mx_state s = 2"
    then have "\<exists>k. holding (mx_pc s k)" by (intro mutex_invD(4)[OF I]) simp
    then show ?thesis using \<open>mx_state s = 2\<close> by (auto simp: holding_def)
  qed (auto simp: alert_def)
qed

theorem mutex_no_lost_wakeup_witness:
  "(mx_state contended = 2 \<and> (\<exists>k. mx_pc contended k = M_held \<or> mx_pc contended k = M_release \<or> mx_pc contended k = M_clear)) \<or>
    (\<exists>k. mx_pc contended k \<in> {M_clear, M_wake, M_wait, M_acquire} \<or> (\<exists>e. mx_pc contended k = M_set e))"
  by (rule mutex_no_lost_wakeup[OF contended_run contended(3)])

end
