(* ===== verification/Thread_Locks.thy ===== *)
theory Thread_Locks
  imports Thread_Base
begin

text \<open>
  The spinlock, the read-write lock and the semaphore of \<^verbatim>\<open>src/threading/lgx_threading.c\<close>, as the
  atomic steps of any number of threads. A weak compare-and-swap may fail without reason; a futex wait
  returns whenever the scheduler likes. Only a thread that holds a lock releases it.
\<close>

section \<open>Spinlock\<close>

datatype spin_pc = Spin_idle | Spin_test | Spin_cas | Spin_try | Spin_held | Spin_release

record spin_state =
  sp_locked :: u32
  sp_pc :: "nat \<Rightarrow> spin_pc"

definition spin_go :: "nat \<Rightarrow> spin_pc \<Rightarrow> spin_state \<Rightarrow> spin_state" where
  "spin_go i c s = s\<lparr>sp_pc := (sp_pc s)(i := c)\<rparr>"

definition lgx_spinlock_lock_step :: "bool \<Rightarrow> nat \<Rightarrow> spin_state \<Rightarrow> spin_state" where
  "lgx_spinlock_lock_step weak_fails i s =
     (case sp_pc s i of
        Spin_test \<Rightarrow> if sp_locked s = 0 then spin_go i Spin_cas s else s
      | Spin_cas \<Rightarrow>
          if sp_locked s = 0 \<and> \<not> weak_fails then spin_go i Spin_held (s\<lparr>sp_locked := 1\<rparr>) else spin_go i Spin_test s
      | _ \<Rightarrow> s)"

definition lgx_spinlock_try_lock_step :: "nat \<Rightarrow> spin_state \<Rightarrow> spin_state" where
  "lgx_spinlock_try_lock_step i s =
     (if sp_locked s = 0 then spin_go i Spin_held (s\<lparr>sp_locked := 1\<rparr>) else spin_go i Spin_idle s)"

definition lgx_spinlock_unlock_step :: "nat \<Rightarrow> spin_state \<Rightarrow> spin_state" where
  "lgx_spinlock_unlock_step i s = spin_go i Spin_idle (s\<lparr>sp_locked := 0\<rparr>)"

inductive spin_run :: "spin_state \<Rightarrow> bool" where
  spin_start: "spin_run \<lparr>sp_locked = 0, sp_pc = (\<lambda>_. Spin_idle)\<rparr>"
| spin_call: "spin_run s \<Longrightarrow> sp_pc s i = Spin_idle \<Longrightarrow> c \<in> {Spin_test, Spin_try} \<Longrightarrow> spin_run (spin_go i c s)"
| spin_lock: "spin_run s \<Longrightarrow> sp_pc s i \<in> {Spin_test, Spin_cas} \<Longrightarrow> spin_run (lgx_spinlock_lock_step w i s)"
| spin_try: "spin_run s \<Longrightarrow> sp_pc s i = Spin_try \<Longrightarrow> spin_run (lgx_spinlock_try_lock_step i s)"
| spin_unlock: "spin_run s \<Longrightarrow> sp_pc s i = Spin_held \<Longrightarrow> spin_run (lgx_spinlock_unlock_step i s)"

abbreviation spin_holds :: "spin_state \<Rightarrow> nat \<Rightarrow> bool" where
  "spin_holds s \<equiv> (\<lambda>k. sp_pc s k = Spin_held)"

lemma spin_holds_go: "spin_holds (spin_go i c s) = (spin_holds s)(i := (c = Spin_held))"
  by (auto simp: spin_go_def)

lemma spin_fields [simp]: "sp_locked (spin_go i c s) = sp_locked s" "spin_holds (s\<lparr>sp_locked := v\<rparr>) = spin_holds s"
  by (simp_all add: spin_go_def)

lemma spin_one_holder: "spin_run s \<Longrightarrow> one_holder (sp_locked s = 0) (spin_holds s)"
proof (induction rule: spin_run.induct)
  case spin_start
  then show ?case by (simp add: one_holder_def)
next
  case (spin_call s i c)
  then show ?case unfolding spin_holds_go by (auto intro!: one_holder_same)
next
  case (spin_lock s i w)
  have same: "one_holder (sp_locked (spin_go i c s) = 0) (spin_holds (spin_go i c s))" if "c \<noteq> Spin_held" for c
    unfolding spin_holds_go using spin_lock that by (auto intro!: one_holder_same)
  have take: "one_holder (sp_locked (spin_go i Spin_held (s\<lparr>sp_locked := 1\<rparr>)) = 0) (spin_holds (spin_go i Spin_held (s\<lparr>sp_locked := 1\<rparr>)))"
    if "sp_locked s = 0" unfolding spin_holds_go using spin_lock.IH that by (auto intro!: one_holder_take)
  show ?case using spin_lock same[of Spin_cas] same[of Spin_test] take by (auto simp: lgx_spinlock_lock_step_def)
next
  case (spin_try s i)
  have "one_holder (sp_locked (spin_go i Spin_idle s) = 0) (spin_holds (spin_go i Spin_idle s))"
    unfolding spin_holds_go using spin_try by (auto intro!: one_holder_same)
  moreover have "one_holder (sp_locked (spin_go i Spin_held (s\<lparr>sp_locked := 1\<rparr>)) = 0) (spin_holds (spin_go i Spin_held (s\<lparr>sp_locked := 1\<rparr>)))"
    if "sp_locked s = 0" unfolding spin_holds_go using spin_try.IH that by (auto intro!: one_holder_take)
  ultimately show ?case by (auto simp: lgx_spinlock_try_lock_step_def)
next
  case (spin_unlock s i)
  then show ?case unfolding lgx_spinlock_unlock_step_def spin_holds_go by (auto intro!: one_holder_release)
qed

section \<open>Read-write lock\<close>

definition RWLOCK_WRITER_BIT :: u32 where "RWLOCK_WRITER_BIT = 0x80000000"

datatype rw_pc = RW_idle | R_load | R_cas u32 | R_held | W_cas | W_held

record rw_state =
  rw_word :: u32
  rw_pc :: "nat \<Rightarrow> rw_pc"

definition lgx_rwlock_init :: "bool \<Rightarrow> rw_state \<Rightarrow> lgx_threading_error \<times> rw_state" where
  "lgx_rwlock_init nonnull s =
     (if \<not> nonnull then (LGX_THREADING_ERROR_INVALID_PARAM, s) else (LGX_THREADING_SUCCESS, s\<lparr>rw_word := 0\<rparr>))"

definition rw_go :: "nat \<Rightarrow> rw_pc \<Rightarrow> rw_state \<Rightarrow> rw_state" where
  "rw_go i c s = s\<lparr>rw_pc := (rw_pc s)(i := c)\<rparr>"

definition lgx_rwlock_read_lock_step :: "bool \<Rightarrow> nat \<Rightarrow> rw_state \<Rightarrow> rw_state" where
  "lgx_rwlock_read_lock_step weak_fails i s =
     (case rw_pc s i of
        R_load \<Rightarrow> if rw_word s AND RWLOCK_WRITER_BIT \<noteq> 0 then s else rw_go i (R_cas (rw_word s)) s
      | R_cas v \<Rightarrow>
          if rw_word s = v \<and> \<not> weak_fails then rw_go i R_held (s\<lparr>rw_word := v + 1\<rparr>) else rw_go i R_load s
      | _ \<Rightarrow> s)"

definition lgx_rwlock_write_lock_step :: "bool \<Rightarrow> nat \<Rightarrow> rw_state \<Rightarrow> rw_state" where
  "lgx_rwlock_write_lock_step weak_fails i s =
     (if rw_word s = 0 \<and> \<not> weak_fails then rw_go i W_held (s\<lparr>rw_word := RWLOCK_WRITER_BIT\<rparr>) else s)"

definition lgx_rwlock_read_unlock :: "nat \<Rightarrow> rw_state \<Rightarrow> rw_state" where
  "lgx_rwlock_read_unlock i s = rw_go i RW_idle (s\<lparr>rw_word := rw_word s - 1\<rparr>)"

definition lgx_rwlock_write_unlock :: "nat \<Rightarrow> rw_state \<Rightarrow> rw_state" where
  "lgx_rwlock_write_unlock i s = rw_go i RW_idle (s\<lparr>rw_word := 0\<rparr>)"

datatype rw_action = Read_lock nat | Write_lock nat | Read_unlock nat | Write_unlock nat | Rw_step bool nat

definition rw_step :: "rw_action \<Rightarrow> rw_state \<Rightarrow> rw_state option" where
  "rw_step a s =
     (case a of
        Read_lock i \<Rightarrow> if rw_pc s i = RW_idle then Some (rw_go i R_load s) else None
      | Write_lock i \<Rightarrow> if rw_pc s i = RW_idle then Some (rw_go i W_cas s) else None
      | Read_unlock i \<Rightarrow> if rw_pc s i = R_held then Some (lgx_rwlock_read_unlock i s) else None
      | Write_unlock i \<Rightarrow> if rw_pc s i = W_held then Some (lgx_rwlock_write_unlock i s) else None
      | Rw_step w i \<Rightarrow>
          (case rw_pc s i of
             R_load \<Rightarrow> Some (lgx_rwlock_read_lock_step w i s)
           | R_cas v \<Rightarrow> Some (lgx_rwlock_read_lock_step w i s)
           | W_cas \<Rightarrow> Some (lgx_rwlock_write_lock_step w i s)
           | _ \<Rightarrow> None))"

text \<open>The runs of the threads \<open>0, \<dots>, n - 1\<close>.\<close>

inductive rw_run :: "nat \<Rightarrow> rw_state \<Rightarrow> bool" for n where
  rw_start: "lgx_rwlock_init True s0 = (LGX_THREADING_SUCCESS, s) \<Longrightarrow> \<forall>i. rw_pc s i = RW_idle \<Longrightarrow> rw_run n s"
| rw_next: "rw_run n s \<Longrightarrow> rw_step a s = Some s' \<Longrightarrow> (\<And>i. rw_pc s' i \<noteq> RW_idle \<Longrightarrow> i < n) \<Longrightarrow> rw_run n s'"

definition readers :: "rw_state \<Rightarrow> nat set" where "readers s = {i. rw_pc s i = R_held}"
definition writers :: "rw_state \<Rightarrow> nat set" where "writers s = {i. rw_pc s i = W_held}"

definition rw_inv :: "rw_state \<Rightarrow> bool" where
  "rw_inv s \<longleftrightarrow> (\<forall>i v. rw_pc s i = R_cas v \<longrightarrow> v AND RWLOCK_WRITER_BIT = 0) \<and>
     ((\<exists>w. writers s = {w}) \<and> readers s = {} \<and> rw_word s = RWLOCK_WRITER_BIT \<or>
      writers s = {} \<and> rw_word s = word_of_nat (card (readers s)))"

lemma readers_go: "readers (rw_go i c s) = (if c = R_held then insert i (readers s) else readers s - {i})"
  by (auto simp: readers_def rw_go_def)

lemma writers_go: "writers (rw_go i c s) = (if c = W_held then insert i (writers s) else writers s - {i})"
  by (auto simp: writers_def rw_go_def)

lemma rw_sets [simp]: "readers (s\<lparr>rw_word := v\<rparr>) = readers s" "writers (s\<lparr>rw_word := v\<rparr>) = writers s"
  by (simp_all add: readers_def writers_def)

text \<open>A thread that does not hold the lock moves on without taking it.\<close>

lemma rw_moves:
  assumes I: "rw_inv s" and i: "rw_pc s i \<notin> {R_held, W_held}" and c: "c \<notin> {R_held, W_held}"
    and v: "\<And>v. c = R_cas v \<Longrightarrow> v AND RWLOCK_WRITER_BIT = 0"
  shows "rw_inv (rw_go i c s)"
proof -
  have "i \<notin> readers s" "i \<notin> writers s" using i by (auto simp: readers_def writers_def)
  then have "readers (rw_go i c s) = readers s" "writers (rw_go i c s) = writers s"
    using c by (auto simp: readers_go writers_go)
  then show ?thesis using I v by (auto simp: rw_inv_def) (auto simp: rw_go_def split: if_splits)
qed

lemma rw_take_read:
  assumes I: "rw_inv s" and f: "finite (readers s)" and i: "rw_pc s i = R_cas v" "rw_word s = v"
  shows "rw_inv (rw_go i R_held (s\<lparr>rw_word := v + 1\<rparr>))"
proof -
  have "v AND RWLOCK_WRITER_BIT = 0" using I i(1) by (auto simp: rw_inv_def)
  then have "v \<noteq> RWLOCK_WRITER_BIT" by (auto simp: RWLOCK_WRITER_BIT_def)
  then have w: "writers s = {}" "v = word_of_nat (card (readers s))" using I i(2) by (auto simp: rw_inv_def)
  have "i \<notin> readers s" using i(1) by (simp add: readers_def)
  then have "card (insert i (readers s)) = Suc (card (readers s))" using f by simp
  then show ?thesis using I w unfolding rw_inv_def readers_go writers_go
    by (auto simp: add.commute) (auto simp: rw_go_def split: if_splits)
qed

lemma rw_take_write:
  assumes I: "rw_inv s" and f: "finite (readers s)" "card (readers s) < 2 ^ 31" and i: "rw_pc s i = W_cas" "rw_word s = 0"
  shows "rw_inv (rw_go i W_held (s\<lparr>rw_word := RWLOCK_WRITER_BIT\<rparr>))"
proof -
  have w: "writers s = {}" "word_of_nat (card (readers s)) = (0 :: u32)" using I i(2) by (auto simp: rw_inv_def RWLOCK_WRITER_BIT_def)
  have "unat (word_of_nat (card (readers s)) :: u32) = card (readers s)"
    using f(2) by (simp add: unat_of_nat take_bit_nat_eq_self)
  then have "readers s = {}" using w(2) f(1) by simp
  then show ?thesis using I w(1) unfolding rw_inv_def readers_go writers_go
    by auto (auto simp: rw_go_def split: if_splits)
qed

lemma rw_release_read:
  assumes I: "rw_inv s" and f: "finite (readers s)" and i: "rw_pc s i = R_held"
  shows "rw_inv (lgx_rwlock_read_unlock i s)"
proof -
  have r: "i \<in> readers s" using i by (simp add: readers_def)
  then have w: "writers s = {}" "rw_word s = word_of_nat (card (readers s))" using I by (auto simp: rw_inv_def)
  have "card (readers s) = Suc (card (readers s - {i}))" using f r by (metis card_Suc_Diff1)
  then have "rw_word s - 1 = word_of_nat (card (readers s - {i}))" using w(2) by simp
  then show ?thesis using I w(1) unfolding rw_inv_def lgx_rwlock_read_unlock_def readers_go writers_go
    by auto (auto simp: rw_go_def split: if_splits)
qed

lemma rw_release_write:
  assumes I: "rw_inv s" and i: "rw_pc s i = W_held"
  shows "rw_inv (lgx_rwlock_write_unlock i s)"
proof -
  have "i \<in> writers s" using i by (simp add: writers_def)
  then have "writers s = {i}" "readers s = {}" using I by (auto simp: rw_inv_def)
  then show ?thesis using I unfolding rw_inv_def lgx_rwlock_write_unlock_def readers_go writers_go
    by auto (auto simp: rw_go_def split: if_splits)
qed

lemma rw_step_inv:
  assumes I: "rw_inv s" and f: "finite (readers s)" "card (readers s) < 2 ^ 31" and st: "rw_step a s = Some s'"
  shows "rw_inv s'"
proof (cases a)
  case (Rw_step w i)
  show ?thesis
  proof (cases "rw_pc s i")
    case R_load
    then show ?thesis using st Rw_step I
      by (auto simp: rw_step_def lgx_rwlock_read_lock_step_def intro!: rw_moves split: if_splits)
  next
    case (R_cas v)
    then show ?thesis using st Rw_step I rw_take_read[OF I f(1) R_cas]
      by (auto simp: rw_step_def lgx_rwlock_read_lock_step_def intro!: rw_moves split: if_splits)
  next
    case W_cas
    then show ?thesis using st Rw_step I rw_take_write[OF I f W_cas]
      by (auto simp: rw_step_def lgx_rwlock_write_lock_step_def split: if_splits)
  qed (use st Rw_step in \<open>auto simp: rw_step_def\<close>)
qed (use st I rw_release_read[OF I f(1)] rw_release_write[OF I] in \<open>auto simp: rw_step_def intro!: rw_moves split: if_splits\<close>)

lemma rw_run_inv:
  assumes "rw_run n s" "n < 2 ^ 31"
  shows "rw_inv s \<and> readers s \<subseteq> {..<n}"
  using assms(1)
proof (induction rule: rw_run.induct)
  case (rw_start s0 s)
  then show ?case by (auto simp: rw_inv_def lgx_rwlock_init_def readers_def writers_def)
next
  case (rw_next s a s')
  have r: "readers s \<subseteq> {..<n}" using rw_next.IH by simp
  then have "finite (readers s)" "card (readers s) \<le> n" using finite_subset card_mono[of "{..<n}" "readers s"] by auto
  then have "rw_inv s'" using rw_step_inv[OF _ _ _ rw_next.hyps(2)] rw_next.IH assms(2) by simp
  moreover have "readers s' \<subseteq> {..<n}" using rw_next.hyps(3) by (auto simp: readers_def)
  ultimately show ?case ..
qed

text \<open>
  C33. Read-write lock: with fewer than \<open>2^31\<close> threads, in every interleaving of the steps of
  \<^verbatim>\<open>lgx_rwlock_read_lock\<close>, \<^verbatim>\<open>lgx_rwlock_write_lock\<close> and the two unlocks, a thread that holds the
  lock for writing is alone (no other thread holds it for reading or for writing), and while nobody writes
  the lock word is exactly the number of readers.
\<close>
theorem rwlock_exclusion:
  assumes "rw_run n s" "n < 2 ^ 31"
  shows "(\<forall>i j. rw_pc s i = W_held \<and> rw_pc s j \<in> {R_held, W_held} \<longrightarrow> i = j) \<and>
    ((\<forall>i. rw_pc s i \<noteq> W_held) \<longrightarrow> unat (rw_word s) = card {i. rw_pc s i = R_held})"
proof -
  have I: "rw_inv s" and r: "readers s \<subseteq> {..<n}" using rw_run_inv[OF assms] by auto
  have "card (readers s) \<le> n" using card_mono[of "{..<n}" "readers s"] r by auto
  then have u: "unat (word_of_nat (card (readers s)) :: u32) = card (readers s)"
    using assms(2) by (simp add: unat_of_nat take_bit_nat_eq_self)
  have "i = j" if "rw_pc s i = W_held" "rw_pc s j \<in> {R_held, W_held}" for i j
  proof -
    have "i \<in> writers s" "j \<in> readers s \<union> writers s" using that by (auto simp: readers_def writers_def)
    then show ?thesis using I by (auto simp: rw_inv_def)
  qed
  moreover have "unat (rw_word s) = card (readers s)" if "\<forall>i. rw_pc s i \<noteq> W_held"
    using that I u by (auto simp: rw_inv_def writers_def)
  ultimately show ?thesis by (auto simp: readers_def)
qed

text \<open>Two readers get in, the second after a compare-and-swap that failed, and a writer waits.\<close>

definition rw_idle_state :: rw_state where "rw_idle_state = \<lparr>rw_word = 0, rw_pc = (\<lambda>_. RW_idle)\<rparr>"

definition rw_demo :: "rw_action list" where
  "rw_demo = [Read_lock 0, Read_lock 1, Write_lock 2, Rw_step False 0, Rw_step False 0, Rw_step False 1,
     Rw_step True 1, Rw_step False 1, Rw_step False 1, Rw_step False 2]"

fun rw_exec :: "rw_action list \<Rightarrow> rw_state \<Rightarrow> rw_state option" where
  "rw_exec [] s = Some s"
| "rw_exec (a # as) s = Option.bind (rw_step a s) (rw_exec as)"

fun rw_thread :: "rw_action \<Rightarrow> nat" where
  "rw_thread (Read_lock i) = i"
| "rw_thread (Write_lock i) = i"
| "rw_thread (Read_unlock i) = i"
| "rw_thread (Write_unlock i) = i"
| "rw_thread (Rw_step w i) = i"

lemma rw_step_other: "rw_step a s = Some s' \<Longrightarrow> k \<noteq> rw_thread a \<Longrightarrow> rw_pc s' k = rw_pc s k"
  by (cases a) (auto simp: rw_step_def rw_go_def lgx_rwlock_read_lock_step_def lgx_rwlock_write_lock_step_def
    lgx_rwlock_read_unlock_def lgx_rwlock_write_unlock_def split: if_splits rw_pc.splits)

lemma rw_exec_run:
  "rw_run n s \<Longrightarrow> rw_exec as s = Some s' \<Longrightarrow> \<forall>a\<in>set as. rw_thread a < n \<Longrightarrow> \<forall>k. rw_pc s k \<noteq> RW_idle \<longrightarrow> k < n \<Longrightarrow>
     rw_run n s'"
proof (induction as arbitrary: s)
  case (Cons a as)
  then obtain s1 where s1: "rw_step a s = Some s1" "rw_exec as s1 = Some s'" by (auto simp: bind_eq_Some_conv)
  have k: "k < n" if "rw_pc s1 k \<noteq> RW_idle" for k
    using that Cons.prems rw_step_other[OF s1(1), of k] by (cases "k = rw_thread a") auto
  show ?case by (rule Cons.IH[of s1]) (use rw_next[OF Cons.prems(1) s1(1)] k s1 Cons.prems in auto)
qed simp

lemma rw_idle_run: "rw_run n rw_idle_state"
  by (rule rw_start[of rw_idle_state]) (simp_all add: rw_idle_state_def lgx_rwlock_init_def)

lemmas rw_eval = rw_idle_state_def rw_demo_def rw_step_def rw_go_def lgx_rwlock_read_lock_step_def
  lgx_rwlock_write_lock_step_def lgx_rwlock_read_unlock_def lgx_rwlock_write_unlock_def RWLOCK_WRITER_BIT_def

lemma rw_demo_run:
  obtains s where "rw_run 3 s" "rw_exec rw_demo rw_idle_state = Some s" "rw_word s = 2" "rw_pc s 2 = W_cas"
    "rw_pc s 0 = R_held" "\<forall>i. rw_pc s i \<noteq> W_held"
proof -
  obtain s where s: "rw_exec rw_demo rw_idle_state = Some s" "rw_word s = 2" "rw_pc s 2 = W_cas" "rw_pc s 0 = R_held"
    "\<forall>i. rw_pc s i \<noteq> W_held"
    by (simp add: rw_eval)
  show thesis by (rule that[OF rw_exec_run[OF rw_idle_run s(1)] s]) (auto simp: rw_demo_def rw_idle_state_def)
qed

lemma rwlock_exclusion_witness:
  "(3 :: nat) < 2 ^ 31 \<and> (\<exists>s. rw_run 3 s \<and> rw_word s = 2 \<and> card {i. rw_pc s i = R_held} = 2 \<and> rw_pc s 2 = W_cas)"
proof -
  obtain s where s: "rw_run 3 s" "rw_word s = 2" "rw_pc s 2 = W_cas" "\<forall>i. rw_pc s i \<noteq> W_held" by (rule rw_demo_run)
  have "card {i. rw_pc s i = R_held} = 2" using rwlock_exclusion[OF s(1)] s(2,4) by simp
  then show ?thesis using s by auto
qed

section \<open>Semaphore\<close>

text \<open>
  \<open>sm_taken\<close> and \<open>sm_posted\<close> count the waits that returned success and the posts. A waiter in
  \<open>Sem_sleep\<close> is in the kernel; the wake of a post and a spurious return look the same to it.
\<close>

datatype sem_pc = Sem_idle | Sem_load | Sem_cas u32 | Sem_futex | Sem_sleep | Sem_try | Sem_try_cas u32 | Sem_wake

record sem_state =
  sm_count :: u32
  sm_pc :: "nat \<Rightarrow> sem_pc"
  sm_taken :: nat
  sm_posted :: nat

definition lgx_semaphore_init :: "bool \<Rightarrow> u32 \<Rightarrow> sem_state \<Rightarrow> lgx_threading_error \<times> sem_state" where
  "lgx_semaphore_init nonnull initial s =
     (if \<not> nonnull then (LGX_THREADING_ERROR_INVALID_PARAM, s) else (LGX_THREADING_SUCCESS, s\<lparr>sm_count := initial\<rparr>))"

definition sem_go :: "nat \<Rightarrow> sem_pc \<Rightarrow> sem_state \<Rightarrow> sem_state" where
  "sem_go i c s = s\<lparr>sm_pc := (sm_pc s)(i := c)\<rparr>"

definition sem_take :: "nat \<Rightarrow> u32 \<Rightarrow> sem_state \<Rightarrow> sem_state" where
  "sem_take i c s = sem_go i Sem_idle (s\<lparr>sm_count := c - 1, sm_taken := Suc (sm_taken s)\<rparr>)"

definition lgx_semaphore_wait_step :: "bool \<Rightarrow> nat \<Rightarrow> sem_state \<Rightarrow> sem_state" where
  "lgx_semaphore_wait_step weak_fails i s =
     (case sm_pc s i of
        Sem_load \<Rightarrow> if sm_count s > 0 then sem_go i (Sem_cas (sm_count s)) s else sem_go i Sem_futex s
      | Sem_cas c \<Rightarrow> if sm_count s = c \<and> \<not> weak_fails then sem_take i c s else sem_go i Sem_load s
      | Sem_futex \<Rightarrow> if sm_count s = 0 then sem_go i Sem_sleep s else sem_go i Sem_load s
      | _ \<Rightarrow> s)"

definition lgx_semaphore_try_wait_step :: "nat \<Rightarrow> sem_state \<Rightarrow> sem_state \<times> lgx_threading_error option" where
  "lgx_semaphore_try_wait_step i s =
     (case sm_pc s i of
        Sem_try \<Rightarrow>
          if sm_count s > 0 then (sem_go i (Sem_try_cas (sm_count s)) s, None)
          else (sem_go i Sem_idle s, Some LGX_THREADING_ERROR_TIMEOUT)
      | Sem_try_cas c \<Rightarrow>
          if sm_count s = c then (sem_take i c s, Some LGX_THREADING_SUCCESS)
          else (sem_go i Sem_idle s, Some LGX_THREADING_ERROR_TIMEOUT)
      | _ \<Rightarrow> (s, None))"

text \<open>The post adds to the count, and in a second step wakes the waiter \<open>w\<close> the kernel picks, if one sleeps.\<close>

definition lgx_semaphore_post_step :: "nat \<Rightarrow> nat option \<Rightarrow> sem_state \<Rightarrow> sem_state" where
  "lgx_semaphore_post_step i w s =
     (case sm_pc s i of
        Sem_idle \<Rightarrow> sem_go i Sem_wake (s\<lparr>sm_count := sm_count s + 1, sm_posted := Suc (sm_posted s)\<rparr>)
      | Sem_wake \<Rightarrow>
          (case w of
             Some j \<Rightarrow> if sm_pc s j = Sem_sleep then sem_go i Sem_idle (sem_go j Sem_load s) else sem_go i Sem_idle s
           | None \<Rightarrow> sem_go i Sem_idle s)
      | _ \<Rightarrow> s)"

inductive sem_run :: "u32 \<Rightarrow> sem_state \<Rightarrow> bool" for initial where
  sem_start: "lgx_semaphore_init True initial s0 = (LGX_THREADING_SUCCESS, s) \<Longrightarrow> \<forall>i. sm_pc s i = Sem_idle \<Longrightarrow>
     sm_taken s = 0 \<Longrightarrow> sm_posted s = 0 \<Longrightarrow> sem_run initial s"
| sem_call: "sem_run initial s \<Longrightarrow> sm_pc s i = Sem_idle \<Longrightarrow> c \<in> {Sem_load, Sem_try} \<Longrightarrow> sem_run initial (sem_go i c s)"
| sem_wait: "sem_run initial s \<Longrightarrow> sem_run initial (lgx_semaphore_wait_step w i s)"
| sem_spurious: "sem_run initial s \<Longrightarrow> sm_pc s i = Sem_sleep \<Longrightarrow> sem_run initial (sem_go i Sem_load s)"
| sem_try: "sem_run initial s \<Longrightarrow> sem_run initial (fst (lgx_semaphore_try_wait_step i s))"
| sem_post: "sem_run initial s \<Longrightarrow> unat initial + sm_posted s < 2 ^ 32 - 1 \<Longrightarrow> sem_run initial (lgx_semaphore_post_step i w s)"

definition sem_inv :: "u32 \<Rightarrow> sem_state \<Rightarrow> bool" where
  "sem_inv initial s \<longleftrightarrow> unat (sm_count s) + sm_taken s = unat initial + sm_posted s \<and> unat initial + sm_posted s < 2 ^ 32 \<and>
     (\<forall>i c. sm_pc s i = Sem_cas c \<or> sm_pc s i = Sem_try_cas c \<longrightarrow> c > 0)"

lemma sem_go_inv:
  "sem_inv ini s \<Longrightarrow> (\<And>v. c = Sem_cas v \<or> c = Sem_try_cas v \<Longrightarrow> v > 0) \<Longrightarrow> sem_inv ini (sem_go i c s)"
  by (auto simp: sem_inv_def sem_go_def)

lemma unat_minus_1: "(c :: u32) > 0 \<Longrightarrow> Suc (unat (c - 1)) = unat c"
  by (simp add: unat_minus_one unat_gt_0 word_gt_0)

lemma unat_plus_1: "unat (c :: u32) < 2 ^ 32 - 1 \<Longrightarrow> unat (c + 1) = Suc (unat c)"
  using unat_word_ariths(1)[of c 1] by (simp add: word_size)

lemma sem_take_inv:
  assumes "sem_inv ini s" "sm_count s > 0"
  shows "sem_inv ini (sem_take i (sm_count s) s)"
  using assms unat_minus_1[of "sm_count s"] unfolding sem_take_def
  by (intro sem_go_inv) (auto simp: sem_inv_def)

lemma sem_post_inv:
  assumes I: "sem_inv ini s" and b: "unat ini + sm_posted s < 2 ^ 32 - 1"
  shows "sem_inv ini (lgx_semaphore_post_step i w s)"
proof (cases "sm_pc s i = Sem_idle")
  case True
  have "unat (sm_count s + 1) = Suc (unat (sm_count s))" using I b by (intro unat_plus_1) (auto simp: sem_inv_def)
  then have "sem_inv ini (s\<lparr>sm_count := sm_count s + 1, sm_posted := Suc (sm_posted s)\<rparr>)"
    using I b by (auto simp: sem_inv_def)
  then show ?thesis using True sem_go_inv by (auto simp: lgx_semaphore_post_step_def)
next
  case False
  then show ?thesis using I
    by (auto simp: lgx_semaphore_post_step_def intro!: sem_go_inv split: sem_pc.split option.split)
qed

lemma sem_run_inv: "sem_run ini s \<Longrightarrow> sem_inv ini s"
proof (induction rule: sem_run.induct)
  case (sem_start s0 s)
  moreover have "unat ini < 2 ^ 32" using unsigned_less[of ini] by simp
  ultimately show ?case by (auto simp: sem_inv_def lgx_semaphore_init_def)
next
  case (sem_wait s w i)
  have "c > 0" if "sm_pc s i = Sem_cas c" for c using sem_wait.IH that by (auto simp: sem_inv_def)
  then show ?case using sem_wait.IH sem_take_inv[OF sem_wait.IH]
    by (auto simp: lgx_semaphore_wait_step_def intro!: sem_go_inv split: sem_pc.split)
next
  case (sem_try s i)
  have "c > 0" if "sm_pc s i = Sem_try_cas c" for c using sem_try.IH that by (auto simp: sem_inv_def)
  then show ?case using sem_try.IH sem_take_inv[OF sem_try.IH]
    by (auto simp: lgx_semaphore_try_wait_step_def intro!: sem_go_inv split: sem_pc.split)
qed (auto intro!: sem_go_inv sem_post_inv)

text \<open>
  While \<open>initial\<close> and the posts stay below \<open>2^32\<close>, every permit is handed out once: the count and
  the successful waits add up to them.
\<close>

lemma semaphore_permits: "sem_run initial s \<Longrightarrow> unat (sm_count s) + sm_taken s = unat initial + sm_posted s"
  using sem_run_inv by (simp add: sem_inv_def)

end
