(* ===== verification/Thread_Barrier.thy ===== *)
theory Thread_Barrier
  imports Thread_Base
begin

text \<open>
  The barrier of \<^verbatim>\<open>src/threading/lgx_threading.c\<close>: the atomic steps of \<^verbatim>\<open>lgx_barrier_wait\<close>
  of as many threads as its threshold, each waiting again and again. \<open>br_done\<close> counts the waits a thread
  has returned from, \<open>br_round\<close> the times the generation advanced.
\<close>

datatype bar_pc = B_idle | B_gen | B_add u32 | B_reset | B_inc | B_spin u32

record bar_state =
  br_threshold :: u32
  br_count :: u32
  br_generation :: u32
  br_pc :: "nat \<Rightarrow> bar_pc"
  br_done :: "nat \<Rightarrow> nat"
  br_round :: nat

definition lgx_barrier_create :: "bool \<Rightarrow> bool \<Rightarrow> u32 \<Rightarrow> lgx_threading_error + bar_state" where
  "lgx_barrier_create out_nonnull malloc_ok cnt =
     (if \<not> out_nonnull \<or> cnt = 0 then Inl LGX_THREADING_ERROR_INVALID_PARAM
      else if \<not> malloc_ok then Inl LGX_THREADING_ERROR_OUT_OF_MEMORY
      else Inr \<lparr>br_threshold = cnt, br_count = 0, br_generation = 0, br_pc = (\<lambda>_. B_idle), br_done = (\<lambda>_. 0), br_round = 0\<rparr>)"

definition bar_go :: "nat \<Rightarrow> bar_pc \<Rightarrow> bar_state \<Rightarrow> bar_state" where
  "bar_go i c s = s\<lparr>br_pc := (br_pc s)(i := c)\<rparr>"

definition bar_return :: "nat \<Rightarrow> bar_state \<Rightarrow> bar_state" where
  "bar_return i s = s\<lparr>br_pc := (br_pc s)(i := B_idle), br_done := (br_done s)(i := Suc (br_done s i))\<rparr>"

definition lgx_barrier_wait_step :: "nat \<Rightarrow> bar_state \<Rightarrow> bar_state" where
  "lgx_barrier_wait_step i s =
     (case br_pc s i of
        B_idle \<Rightarrow> bar_go i B_gen s
      | B_gen \<Rightarrow> bar_go i (B_add (br_generation s)) s
      | B_add gen \<Rightarrow>
          let arrived = br_count s + 1 in
          bar_go i (if arrived = br_threshold s then B_reset else B_spin gen) (s\<lparr>br_count := arrived\<rparr>)
      | B_reset \<Rightarrow> bar_go i B_inc (s\<lparr>br_count := 0\<rparr>)
      | B_inc \<Rightarrow> bar_return i (s\<lparr>br_generation := br_generation s + 1, br_round := Suc (br_round s)\<rparr>)
      | B_spin gen \<Rightarrow> if br_generation s = gen then s else bar_return i s)"

inductive bar_reach :: "u32 \<Rightarrow> bar_state \<Rightarrow> bool" for t where
  bar_first: "lgx_barrier_create True True t = Inr s \<Longrightarrow> bar_reach t s"
| bar_then: "bar_reach t s \<Longrightarrow> i < unat t \<Longrightarrow> bar_reach t (lgx_barrier_wait_step i s)"

section \<open>The invariant\<close>

text \<open>
  In round \<open>r\<close> a thread has not arrived yet, or has arrived, or still spins on the round before.
\<close>

definition arrived :: "nat \<Rightarrow> bar_state \<Rightarrow> nat set" where
  "arrived n s = {i. i < n \<and> br_done s i = br_round s \<and> br_pc s i \<in> {B_reset, B_inc, B_spin (word_of_nat (br_round s))}}"

definition fresh :: "bar_state \<Rightarrow> nat \<Rightarrow> bool" where
  "fresh s i \<longleftrightarrow> br_done s i = br_round s \<and> br_pc s i \<in> {B_idle, B_gen, B_add (word_of_nat (br_round s))}"

definition late :: "bar_state \<Rightarrow> nat \<Rightarrow> bool" where
  "late s i \<longleftrightarrow> Suc (br_done s i) = br_round s \<and> br_pc s i = B_spin (word_of_nat (br_done s i))"

definition all_in :: "nat \<Rightarrow> bar_state \<Rightarrow> bool" where "all_in n s \<longleftrightarrow> (\<forall>i<n. i \<in> arrived n s)"
definition resetting :: "nat \<Rightarrow> bar_state \<Rightarrow> bool" where "resetting n s \<longleftrightarrow> (\<exists>i<n. br_pc s i = B_reset)"
definition advancing :: "nat \<Rightarrow> bar_state \<Rightarrow> bool" where "advancing n s \<longleftrightarrow> (\<exists>i<n. br_pc s i = B_inc)"

definition count_ok :: "nat \<Rightarrow> bar_state \<Rightarrow> bool" where
  "count_ok n s \<longleftrightarrow> (advancing n s \<or> resetting n s \<longleftrightarrow> all_in n s) \<and>
     br_count s = (if advancing n s then 0 else word_of_nat (card (arrived n s))) \<and>
     (\<forall>i j. br_pc s i \<in> {B_reset, B_inc} \<and> br_pc s j \<in> {B_reset, B_inc} \<longrightarrow> i = j)"

definition bar_inv :: "nat \<Rightarrow> bar_state \<Rightarrow> bool" where
  "bar_inv n s \<longleftrightarrow> 0 < n \<and> n < 2 ^ 32 \<and> br_threshold s = word_of_nat n \<and> br_generation s = word_of_nat (br_round s) \<and>
     (\<forall>i. n \<le> i \<longrightarrow> br_pc s i = B_idle) \<and> (\<forall>i<n. i \<in> arrived n s \<or> fresh s i \<or> late s i) \<and> count_ok n s"

lemma arrived_subset: "arrived n s \<subseteq> {..<n}"
  by (auto simp: arrived_def)

lemma round_differs: "(word_of_nat (Suc r) :: u32) \<noteq> word_of_nat r"
  by simp

lemma all_in_card: "all_in n s \<longleftrightarrow> card (arrived n s) = n"
proof -
  have "all_in n s \<longleftrightarrow> arrived n s = {..<n}" using arrived_subset[of n s] by (auto simp: all_in_def)
  then show ?thesis by (metis arrived_subset card_lessThan card_subset_eq finite_lessThan)
qed

lemma arrived_le: "card (arrived n s) \<le> n"
  using card_mono[OF finite_lessThan arrived_subset[of n s]] by simp

lemma bar_start_inv: "lgx_barrier_create True True t = Inr s \<Longrightarrow> bar_inv (unat t) s"
proof -
  assume c: "lgx_barrier_create True True t = Inr s"
  then have "t \<noteq> 0" by (auto simp: lgx_barrier_create_def)
  then have t: "0 < unat t" "unat t < 2 ^ 32" using unsigned_less[of t] by (auto simp: unat_gt_0)
  have s: "s = \<lparr>br_threshold = t, br_count = 0, br_generation = 0, br_pc = (\<lambda>_. B_idle), br_done = (\<lambda>_. 0), br_round = 0\<rparr>"
    using c by (auto simp: lgx_barrier_create_def split: if_splits)
  have "arrived (unat t) s = {}" by (simp add: arrived_def s)
  then show ?thesis using t by (simp add: bar_inv_def count_ok_def all_in_card advancing_def resetting_def fresh_def s)
qed

text \<open>A step of thread \<open>i\<close> that does not end the round leaves the other threads where they are.\<close>

lemma arrived_go: "arrived n (bar_go i c s) - {i} = arrived n s - {i}"
  by (auto simp: arrived_def bar_go_def)

lemma others_go: "j \<noteq> i \<Longrightarrow> fresh (bar_go i c s) j = fresh s j \<and> late (bar_go i c s) j = late s j"
  by (simp add: fresh_def late_def bar_go_def)

lemma arrived_count [simp]: "arrived n (s\<lparr>br_count := v\<rparr>) = arrived n s"
  by (simp add: arrived_def)

lemma fresh_count [simp]: "fresh (s\<lparr>br_count := v\<rparr>) = fresh s" "late (s\<lparr>br_count := v\<rparr>) = late s"
  by (auto simp: fresh_def late_def fun_eq_iff)

lemma bar_count_last:
  assumes "card A < n" "n < 2 ^ 32"
  shows "(word_of_nat (card A) + 1 :: u32) = word_of_nat n \<longleftrightarrow> Suc (card A) = n"
proof -
  have u: "unat (word_of_nat m :: u32) = m" if "m \<le> n" for m using that assms(2) by (simp add: unat_of_nat take_bit_nat_eq_self)
  have "(word_of_nat (card A) + 1 :: u32) = word_of_nat (Suc (card A))" by (simp add: add.commute)
  then show ?thesis using u[of "Suc (card A)"] u[of n] assms(1) by (metis Suc_leI le_refl)
qed

lemma bar_arrive:
  assumes I: "bar_inv n s" and i: "i < n" "br_pc s i = B_add g"
  shows "bar_inv n (lgx_barrier_wait_step i s)"
proof -
  let ?A = "arrived n s"
  let ?c = "if br_count s + 1 = br_threshold s then B_reset else B_spin g"
  define s' where "s' = bar_go i ?c (s\<lparr>br_count := br_count s + 1\<rparr>)"
  have f: "br_done s i = br_round s" "g = word_of_nat (br_round s)" using I i by (auto simp: bar_inv_def arrived_def fresh_def late_def)
  have notin: "i \<notin> ?A" using i by (simp add: arrived_def)
  then have part: "\<not> all_in n s" using i by (auto simp: all_in_def)
  have C: "count_ok n s" using I by (simp add: bar_inv_def)
  then have "\<not> advancing n s" "\<not> resetting n s" using part unfolding count_ok_def by blast+
  then have no: "\<forall>j<n. br_pc s j \<noteq> B_inc" "\<forall>j<n. br_pc s j \<noteq> B_reset" "br_count s = word_of_nat (card ?A)"
    using C by (auto simp: count_ok_def advancing_def resetting_def)
  then have no': "br_pc s j \<notin> {B_reset, B_inc}" for j using I by (cases "j < n") (auto simp: bar_inv_def)
  have fin: "finite ?A" using arrived_subset finite_subset by blast
  have "i \<in> arrived n s'" using i f by (simp add: s'_def arrived_def bar_go_def)
  moreover have "arrived n s' - {i} = ?A - {i}" unfolding s'_def by (simp only: arrived_go arrived_count)
  ultimately have A: "arrived n s' = insert i ?A" using notin by blast
  then have card: "card (arrived n s') = Suc (card ?A)" using notin fin by simp
  have "card ?A < n" using all_in_card[of n s] arrived_le[of n s] part by linarith
  then have last: "?c = (if all_in n s' then B_reset else B_spin g)"
    using bar_count_last[of ?A n] no(3) I card all_in_card[of n s'] by (simp add: bar_inv_def)
  have pc: "br_pc s' = (br_pc s)(i := ?c)" by (simp add: s'_def bar_go_def)
  have pcs: "br_pc s' j \<noteq> B_inc" "br_pc s' j = B_reset \<longleftrightarrow> j = i \<and> all_in n s'" for j
    using no'[of j] unfolding pc last by auto
  have adv: "\<not> advancing n s'" "resetting n s' \<longleftrightarrow> all_in n s'" using pcs i(1) by (auto simp: advancing_def resetting_def)
  moreover have "br_count s' = word_of_nat (card (arrived n s'))" using no(3) card by (simp add: s'_def bar_go_def add.commute)
  ultimately have "count_ok n s'" using pcs by (simp add: count_ok_def)
  moreover have "j \<in> arrived n s' \<or> fresh s' j \<or> late s' j" if "j < n" for j
  proof (cases "j = i")
    case False
    then have "fresh s' j = fresh s j" "late s' j = late s j" using others_go[of j i ?c "s\<lparr>br_count := br_count s + 1\<rparr>"] unfolding s'_def by simp_all
    then show ?thesis using I that unfolding A bar_inv_def by blast
  qed (simp add: A)
  moreover have "br_pc s' j = B_idle" if "n \<le> j" for j using I that i(1) by (auto simp: bar_inv_def pc)
  moreover have "br_threshold s' = br_threshold s" "br_generation s' = br_generation s" "br_round s' = br_round s"
    by (simp_all add: s'_def bar_go_def)
  ultimately have "bar_inv n s'" using I unfolding bar_inv_def by simp
  then show ?thesis using i(2) by (simp add: lgx_barrier_wait_step_def s'_def Let_def)
qed

text \<open>The last thread resets the count, then starts the next round: whoever arrived is now late.\<close>

lemma bar_resets:
  assumes I: "bar_inv n s" and i: "i < n" "br_pc s i = B_reset"
  shows "bar_inv n (lgx_barrier_wait_step i s)"
proof -
  define s' where "s' = bar_go i B_inc (s\<lparr>br_count := 0\<rparr>)"
  have C: "count_ok n s" using I by (simp add: bar_inv_def)
  have f: "br_done s i = br_round s" using I i by (auto simp: bar_inv_def arrived_def fresh_def late_def)
  have "i \<in> arrived n s'" "i \<in> arrived n s" using i f by (simp_all add: s'_def arrived_def bar_go_def)
  moreover have "arrived n s' - {i} = arrived n s - {i}" unfolding s'_def by (simp only: arrived_go arrived_count)
  ultimately have A: "arrived n s' = arrived n s" by blast
  have pc: "br_pc s' = (br_pc s)(i := B_inc)" by (simp add: s'_def bar_go_def)
  have uniq: "br_pc s j \<notin> {B_reset, B_inc}" if "j \<noteq> i" for j using C i(2) that unfolding count_ok_def by blast
  have "all_in n s" using C i unfolding count_ok_def resetting_def by blast
  then have "all_in n s'" by (simp add: all_in_def A)
  moreover have "advancing n s'" using i(1) pc by (auto simp: advancing_def)
  moreover have "br_pc s' j \<in> {B_reset, B_inc} \<longleftrightarrow> j = i" for j using uniq[of j] by (simp add: pc)
  ultimately have "count_ok n s'" by (simp add: count_ok_def s'_def bar_go_def)
  moreover have "j \<in> arrived n s' \<or> fresh s' j \<or> late s' j" if "j < n" for j
    using \<open>all_in n s\<close> that by (simp add: A all_in_def)
  moreover have "br_pc s' j = B_idle" if "n \<le> j" for j using I that i(1) by (auto simp: bar_inv_def pc)
  ultimately have "bar_inv n s'" using I by (simp add: bar_inv_def s'_def bar_go_def)
  then show ?thesis using i(2) by (simp add: lgx_barrier_wait_step_def s'_def)
qed

lemma bar_advances:
  assumes I: "bar_inv n s" and i: "i < n" "br_pc s i = B_inc"
  shows "bar_inv n (lgx_barrier_wait_step i s)"
proof -
  define s' where "s' = bar_return i (s\<lparr>br_generation := br_generation s + 1, br_round := Suc (br_round s)\<rparr>)"
  have s': "br_pc s' = (br_pc s)(i := B_idle)" "br_done s' = (br_done s)(i := Suc (br_done s i))" "br_round s' = Suc (br_round s)"
      "br_count s' = br_count s" "br_threshold s' = br_threshold s" "br_generation s' = br_generation s + 1"
    by (simp_all add: s'_def bar_return_def)
  have C: "count_ok n s" using I by (simp add: bar_inv_def)
  have adv: "advancing n s" using i by (auto simp: advancing_def)
  then have all: "j \<in> arrived n s" if "j < n" for j using C that unfolding count_ok_def all_in_def by blast
  have spin: "br_pc s j = B_spin (word_of_nat (br_round s)) \<and> br_done s j = br_round s" if "j < n" "j \<noteq> i" for j
  proof -
    have "br_pc s j \<notin> {B_reset, B_inc}" using C i(2) that(2) unfolding count_ok_def by blast
    then show ?thesis using all[OF that(1)] by (simp add: arrived_def)
  qed
  have di: "br_done s i = br_round s" using all[OF i(1)] by (simp add: arrived_def)
  have out: "br_pc s j = B_idle" if "n \<le> j" for j using I that by (simp add: bar_inv_def)
  have none: "br_pc s' j \<notin> {B_reset, B_inc}" for j
    using spin[of j] out[of j] by (cases "j = i"; cases "j < n") (auto simp: s')
  have "arrived n s' = {}"
  proof -
    have "j \<notin> arrived n s'" for j using spin[of j] by (cases "j = i") (auto simp: arrived_def s')
    then show ?thesis by blast
  qed
  moreover have "\<not> advancing n s'" "\<not> resetting n s'" using none by (auto simp: advancing_def resetting_def)
  moreover have "br_count s = 0" using C adv by (simp add: count_ok_def)
  moreover have "0 < n" using i(1) by simp
  ultimately have "count_ok n s'" unfolding count_ok_def all_in_card s'(4) using none by simp
  moreover have "j \<in> arrived n s' \<or> fresh s' j \<or> late s' j" if "j < n" for j
  proof (cases "j = i")
    case True
    then show ?thesis by (simp add: fresh_def s' di)
  next
    case False
    then show ?thesis using spin[OF that False] by (simp add: late_def s')
  qed
  moreover have "br_pc s' j = B_idle" if "n \<le> j" for j using out[OF that] by (simp add: s')
  ultimately have "bar_inv n s'" using I by (simp add: bar_inv_def s' add.commute)
  then show ?thesis using i(2) by (simp add: lgx_barrier_wait_step_def s'_def)
qed

text \<open>The other steps: entering, reading the generation, leaving a round that is over.\<close>

lemma bar_moves:
  assumes I: "bar_inv n s" and i: "i < n" "i \<notin> arrived n s" and s': "br_pc s' = (br_pc s)(i := c)" "br_count s' = br_count s"
      "br_threshold s' = br_threshold s" "br_generation s' = br_generation s" "br_round s' = br_round s"
      "\<And>j. j \<noteq> i \<Longrightarrow> br_done s' j = br_done s j"
    and c: "c \<notin> {B_reset, B_inc}" "fresh s' i"
  shows "bar_inv n s'"
proof -
  have old: "br_pc s i \<notin> {B_reset, B_inc}" "i \<notin> arrived n s'"
    using i I c(2) by (auto simp: arrived_def fresh_def late_def bar_inv_def)
  have "j \<in> arrived n s' \<longleftrightarrow> j \<in> arrived n s" for j using old(2) i(2) s' by (cases "j = i") (auto simp: arrived_def)
  then have A: "arrived n s' = arrived n s" by blast
  have pc: "br_pc s' j = B_reset \<longleftrightarrow> br_pc s j = B_reset" "br_pc s' j = B_inc \<longleftrightarrow> br_pc s j = B_inc" for j
    using old(1) c(1) by (auto simp: s'(1))
  have "advancing n s' = advancing n s" "resetting n s' = resetting n s" "all_in n s' = all_in n s"
    by (simp_all add: all_in_def advancing_def resetting_def A pc)
  then have "count_ok n s' \<longleftrightarrow> count_ok n s" by (simp add: count_ok_def A pc s'(2))
  moreover have "fresh s' j \<longleftrightarrow> fresh s j" "late s' j \<longleftrightarrow> late s j" if "j \<noteq> i" for j
    using that s' by (simp_all add: fresh_def late_def)
  then have "j \<in> arrived n s' \<or> fresh s' j \<or> late s' j" if "j < n" for j
    using c(2) I that unfolding A bar_inv_def by (cases "j = i") blast+
  ultimately show ?thesis using I i(1) by (simp add: bar_inv_def s')
qed

lemma bar_step_inv:
  assumes I: "bar_inv n s" and i: "i < n"
  shows "bar_inv n (lgx_barrier_wait_step i s)"
proof (cases "br_pc s i")
  case (B_add g)
  then show ?thesis using bar_arrive[OF I i] by simp
next
  case B_reset
  then show ?thesis using bar_resets[OF I i] by simp
next
  case B_inc
  then show ?thesis using bar_advances[OF I i] by simp
next
  case B_idle
  then have "fresh s i" using I i by (auto simp: bar_inv_def arrived_def late_def)
  then show ?thesis using B_idle by (simp add: lgx_barrier_wait_step_def)
    (rule bar_moves[OF I i, of _ B_gen], auto simp: arrived_def fresh_def bar_go_def)
next
  case B_gen
  have "fresh s i" using I i B_gen by (auto simp: bar_inv_def arrived_def late_def)
  moreover have "br_generation s = word_of_nat (br_round s)" using I by (simp add: bar_inv_def)
  ultimately show ?thesis using B_gen by (simp add: lgx_barrier_wait_step_def)
    (rule bar_moves[OF I i, of _ "B_add (br_generation s)"], auto simp: arrived_def fresh_def bar_go_def)
next
  case (B_spin g)
  show ?thesis
  proof (cases "br_generation s = g")
    case False
    then have na: "i \<notin> arrived n s" using I B_spin by (auto simp: arrived_def bar_inv_def)
    then have "late s i" using I i B_spin by (auto simp: bar_inv_def fresh_def)
    then show ?thesis using False B_spin na by (simp add: lgx_barrier_wait_step_def)
      (rule bar_moves[OF I i, of _ B_idle], auto simp: late_def fresh_def bar_return_def)
  qed (use B_spin I in \<open>simp add: lgx_barrier_wait_step_def\<close>)
qed

lemma bar_reach_inv: "bar_reach t s \<Longrightarrow> bar_inv (unat t) s"
  by (induction rule: bar_reach.induct) (auto intro: bar_start_inv bar_step_inv)

text \<open>
  C38. The barrier: with exactly \<open>threshold\<close> threads waiting on it again and again, in every interleaving,
  a thread has returned from its \<open>k\<close>-th wait only when every thread has entered its \<open>k\<close>-th wait,
  for any number of rounds (the generation may wrap); and when all threads are inside a wait, one of them can
  move on: not all spin on the current generation.
\<close>
theorem barrier_separates_rounds:
  assumes "bar_reach t s" "i < unat t" "j < unat t"
  shows "br_done s i \<le> br_done s j + (if br_pc s j = B_idle then 0 else 1) \<and> (\<exists>k<unat t. br_pc s k \<noteq> B_spin (br_generation s))"
proof -
  have I: "bar_inv (unat t) s" using assms(1) by (rule bar_reach_inv)
  have "br_done s i \<le> br_round s" "br_round s \<le> br_done s j + (if br_pc s j = B_idle then 0 else 1)"
    using I assms(2,3) by (auto simp: bar_inv_def arrived_def fresh_def late_def)
  moreover have "\<exists>k<unat t. br_pc s k \<noteq> B_spin (br_generation s)"
  proof (rule ccontr)
    assume "\<not> (\<exists>k<unat t. br_pc s k \<noteq> B_spin (br_generation s))"
    then have sp: "br_pc s k = B_spin (word_of_nat (br_round s))" if "k < unat t" for k using I that by (simp add: bar_inv_def)
    have "k \<in> arrived (unat t) s" if "k < unat t" for k
    proof -
      have "\<not> fresh s k" "\<not> late s k" using sp[OF that] round_differs[of "br_done s k"] by (auto simp: fresh_def late_def dest!: sym[of "Suc _"])
      then show ?thesis using I that unfolding bar_inv_def by blast
    qed
    then have "all_in (unat t) s" by (simp add: all_in_def)
    then have "advancing (unat t) s \<or> resetting (unat t) s" using I unfolding bar_inv_def count_ok_def by blast
    then show False using sp by (auto simp: advancing_def resetting_def)
  qed
  ultimately show ?thesis by simp
qed

text \<open>Two threads: thread 0 spins, thread 1 is the last one and has returned.\<close>

lemma bar_fold_reach: "bar_reach t s \<Longrightarrow> \<forall>i\<in>set is. i < unat t \<Longrightarrow> bar_reach t (fold lgx_barrier_wait_step is s)"
  by (induction "is" arbitrary: s) (auto intro: bar_then)

definition bar_demo :: bar_state where
  "bar_demo = fold lgx_barrier_wait_step [0, 0, 1, 0, 1, 1, 1, 1]
     \<lparr>br_threshold = 2, br_count = 0, br_generation = 0, br_pc = (\<lambda>_. B_idle), br_done = (\<lambda>_. 0), br_round = 0\<rparr>"

lemma bar_demo_reach: "bar_reach 2 bar_demo"
  unfolding bar_demo_def
  by (rule bar_fold_reach, rule bar_first) (simp_all add: lgx_barrier_create_def)

lemma bar_demo_state: "br_done bar_demo 1 = 1 \<and> br_pc bar_demo 0 = B_spin 0 \<and> br_generation bar_demo = 1"
  by (simp add: bar_demo_def lgx_barrier_wait_step_def bar_go_def bar_return_def Let_def)

lemma barrier_separates_rounds_witness:
  "bar_reach 2 bar_demo \<and> br_done bar_demo 1 = 1 \<and> br_pc bar_demo 0 = B_spin 0 \<and> 1 \<le> br_done bar_demo 0 + 1 \<and>
   (\<exists>k<2. br_pc bar_demo k \<noteq> B_spin (br_generation bar_demo))"
  using barrier_separates_rounds[OF bar_demo_reach, of 1 0] bar_demo_reach bar_demo_state by simp

end
