(* ===== verification/Thread_Map.thy ===== *)
theory Thread_Map
  imports Thread_Base
begin

text \<open>
  The concurrent hash map of \<^verbatim>\<open>src/threading/lgx_threading.c\<close>. A bucket's chain is the list of its
  entries, from \<open>head\<close> on. Every operation reads and writes one chain under that bucket's lock, so it is
  one step of the map. An index outside the bucket array is undefined behaviour and has no result
  (\<open>None\<close>).
\<close>

type_synonym 'v chain = "(u64 \<times> 'v) list"

record 'v concurrent_map =
  cm_buckets :: "'v chain list"
  cm_bucket_count :: u64
  cm_mask :: u64
  cm_count :: u64

definition next_pow2_map :: "u64 \<Rightarrow> u64" where
  "next_pow2_map n =
     (if n \<le> 1 then 1
      else
        let n = n - 1;
            n = n OR drop_bit 1 n; n = n OR drop_bit 2 n; n = n OR drop_bit 4 n;
            n = n OR drop_bit 8 n; n = n OR drop_bit 16 n; n = n OR drop_bit 32 n
        in n + 1)"

definition lgx_concurrent_map_create ::
    "bool \<Rightarrow> bool \<Rightarrow> bool \<Rightarrow> u64 \<Rightarrow> lgx_threading_error + 'v concurrent_map" where
  "lgx_concurrent_map_create out_nonnull calloc_map_ok calloc_buckets_ok bucket_count =
     (if \<not> out_nonnull then Inl LGX_THREADING_ERROR_INVALID_PARAM
      else
        let bucket_count = (if bucket_count < 4 then 4 else bucket_count);
            bucket_count = next_pow2_map bucket_count
        in if \<not> calloc_map_ok then Inl LGX_THREADING_ERROR_OUT_OF_MEMORY
           else if \<not> calloc_buckets_ok then Inl LGX_THREADING_ERROR_OUT_OF_MEMORY
           else Inr \<lparr>cm_buckets = replicate (unat bucket_count) [], cm_bucket_count = bucket_count,
                     cm_mask = bucket_count - 1, cm_count = 0\<rparr>)"

text \<open>The entries \<^verbatim>\<open>lgx_concurrent_map_destroy\<close> frees, in its order.\<close>

definition lgx_concurrent_map_destroy :: "'v concurrent_map option \<Rightarrow> (u64 \<times> 'v) list" where
  "lgx_concurrent_map_destroy cm =
     (case cm of None \<Rightarrow> [] | Some m \<Rightarrow> concat (map (\<lambda>i. cm_buckets m ! i) [0..<unat (cm_bucket_count m)]))"

definition map_hash :: "u64 \<Rightarrow> u64" where
  "map_hash key =
     (let key = key XOR drop_bit 33 key;
          key = key * 0xff51afd7ed558ccd;
          key = key XOR drop_bit 33 key;
          key = key * 0xc4ceb9fe1a85ec53
      in key XOR drop_bit 33 key)"

definition map_idx :: "u64 \<Rightarrow> 'v concurrent_map \<Rightarrow> nat" where
  "map_idx key m = unat (map_hash key AND cm_mask m)"

text \<open>The loops over a chain: overwrite the value of a key, read it, unlink its entry.\<close>

fun chain_set :: "u64 \<Rightarrow> 'v \<Rightarrow> 'v chain \<Rightarrow> 'v chain option" where
  "chain_set key v [] = None"
| "chain_set key v (e # es) =
     (if fst e = key then Some ((fst e, v) # es) else map_option ((#) e) (chain_set key v es))"

fun chain_get :: "u64 \<Rightarrow> 'v chain \<Rightarrow> 'v option" where
  "chain_get key [] = None"
| "chain_get key (e # es) = (if fst e = key then Some (snd e) else chain_get key es)"

fun chain_unlink :: "u64 \<Rightarrow> 'v chain \<Rightarrow> 'v chain option" where
  "chain_unlink key [] = None"
| "chain_unlink key (e # es) = (if fst e = key then Some es else map_option ((#) e) (chain_unlink key es))"

definition lgx_concurrent_map_insert ::
    "bool \<Rightarrow> u64 \<Rightarrow> 'v \<Rightarrow> 'v concurrent_map \<Rightarrow> (lgx_threading_error \<times> 'v concurrent_map) option" where
  "lgx_concurrent_map_insert malloc_ok key v m =
     (let idx = map_idx key m in
      if idx \<ge> length (cm_buckets m) then None
      else
        case chain_set key v (cm_buckets m ! idx) of
          Some es \<Rightarrow> Some (LGX_THREADING_SUCCESS, m\<lparr>cm_buckets := (cm_buckets m)[idx := es]\<rparr>)
        | None \<Rightarrow>
            if \<not> malloc_ok then Some (LGX_THREADING_ERROR_OUT_OF_MEMORY, m)
            else Some (LGX_THREADING_SUCCESS,
              m\<lparr>cm_buckets := (cm_buckets m)[idx := (key, v) # cm_buckets m ! idx], cm_count := cm_count m + 1\<rparr>))"

definition lgx_concurrent_map_lookup ::
    "u64 \<Rightarrow> 'v concurrent_map \<Rightarrow> (lgx_threading_error \<times> 'v option) option" where
  "lgx_concurrent_map_lookup key m =
     (let idx = map_idx key m in
      if idx \<ge> length (cm_buckets m) then None
      else
        case chain_get key (cm_buckets m ! idx) of
          Some v \<Rightarrow> Some (LGX_THREADING_SUCCESS, Some v)
        | None \<Rightarrow> Some (LGX_THREADING_ERROR_QUEUE_EMPTY, None))"

definition lgx_concurrent_map_remove ::
    "u64 \<Rightarrow> 'v concurrent_map \<Rightarrow> (lgx_threading_error \<times> 'v concurrent_map) option" where
  "lgx_concurrent_map_remove key m =
     (let idx = map_idx key m in
      if idx \<ge> length (cm_buckets m) then None
      else
        case chain_unlink key (cm_buckets m ! idx) of
          Some es \<Rightarrow>
            Some (LGX_THREADING_SUCCESS, m\<lparr>cm_buckets := (cm_buckets m)[idx := es], cm_count := cm_count m - 1\<rparr>)
        | None \<Rightarrow> Some (LGX_THREADING_ERROR_QUEUE_EMPTY, m))"

definition lgx_concurrent_map_size :: "'v concurrent_map option \<Rightarrow> u64" where
  "lgx_concurrent_map_size cm = (case cm of None \<Rightarrow> 0 | Some m \<Rightarrow> cm_count m)"

section \<open>Chains\<close>

lemma chain_get_map_of: "chain_get key es = map_of es key"
  by (induction es) auto

lemma chain_set_none: "chain_set key v es = None \<longleftrightarrow> map_of es key = None"
  by (induction es) auto

lemma chain_set_some:
  "chain_set key v es = Some es' \<Longrightarrow> map_of es' = (map_of es)(key \<mapsto> v) \<and> map fst es' = map fst es \<and> key \<in> fst ` set es"
  by (induction es arbitrary: es') (auto split: if_splits)

lemma chain_unlink_none: "chain_unlink key es = None \<longleftrightarrow> map_of es key = None"
  by (induction es) auto

lemma chain_unlink_some:
  "chain_unlink key es = Some es' \<Longrightarrow> distinct (map fst es) \<Longrightarrow>
     map_of es' = (map_of es)(key := None) \<and> set es' \<subseteq> set es \<and> distinct (map fst es') \<and>
     length es = Suc (length es') \<and> key \<in> fst ` set es"
proof (induction es arbitrary: es')
  case (Cons e es)
  show ?case
  proof (cases "fst e = key")
    case True
    then have "map_of es key = None" using Cons.prems by (simp add: map_of_eq_None_iff)
    then show ?thesis using True Cons.prems by (cases e) auto
  next
    case False
    then show ?thesis using Cons by (cases e) (auto 4 4 split: if_splits simp: image_iff)
  qed
qed simp

section \<open>The number of buckets\<close>

lemma bits_smear:
  assumes "\<And>i. bit a i \<longleftrightarrow> (\<exists>d<m. bit n (i + d))"
  shows "bit (a OR drop_bit m a) i \<longleftrightarrow> (\<exists>d<2 * m. bit (n :: u64) (i + d))"
proof
  assume "bit (a OR drop_bit m a) i"
  then consider "bit a i" | "bit a (i + m)" by (auto simp: bit_or_iff bit_drop_bit_eq add.commute)
  then show "\<exists>d<2 * m. bit n (i + d)"
  proof cases
    case 1
    then show ?thesis using assms by (metis add_lessD1 mult_2 trans_less_add1)
  next
    case 2
    then obtain d where "d < m" "bit n (i + m + d)" using assms by auto
    then show ?thesis by (intro exI[of _ "m + d"]) (simp add: add.assoc)
  qed
next
  assume "\<exists>d<2 * m. bit n (i + d)"
  then obtain d where d: "d < 2 * m" "bit n (i + d)" by auto
  show "bit (a OR drop_bit m a) i"
  proof (cases "d < m")
    case True
    then show ?thesis using d assms by (auto simp: bit_or_iff)
  next
    case False
    then have "bit a (i + m)" using d assms[of "i + m"] by (auto intro!: exI[of _ "d - m"])
    then show ?thesis by (simp add: bit_or_iff bit_drop_bit_eq add.commute)
  qed
qed

definition smear :: "u64 \<Rightarrow> u64" where
  "smear n = (let n = n OR drop_bit 1 n; n = n OR drop_bit 2 n; n = n OR drop_bit 4 n;
       n = n OR drop_bit 8 n; n = n OR drop_bit 16 n in n OR drop_bit 32 n)"

lemma bit_smear: "bit (smear n) i \<longleftrightarrow> (\<exists>d<64. bit n (i + d))"
proof -
  have 0: "bit n i \<longleftrightarrow> (\<exists>d<1. bit n (i + d))" for i by simp
  note b = bits_smear[OF bits_smear[OF bits_smear[OF bits_smear[OF bits_smear[OF bits_smear[OF 0]]]]]]
  show ?thesis using b[of i] by (simp only: smear_def Let_def) simp
qed

lemma smear_mask:
  assumes "2 ^ k \<le> unat n" "unat n < 2 ^ Suc k"
  shows "smear n = mask (Suc k)"
proof (rule bit_word_eqI)
  fix i assume "i < LENGTH(64)"
  have "unat n < 2 ^ 64" using unsigned_less[of n] by simp
  then have "(2 :: nat) ^ k < 2 ^ 64" using assms(1) by linarith
  then have k: "k < 64" by (rule power_less_imp_less_exp[rotated]) simp
  have top: "bit n k"
  proof -
    have "unat n div 2 ^ k = 1" using assms by (intro div_nat_eqI) auto
    then show ?thesis by (simp add: bit_unat)
  qed
  have above: "\<not> bit n j" if "k < j" for j
  proof -
    have "(2 :: nat) ^ Suc k \<le> 2 ^ j" using that by (intro power_increasing) auto
    then have "unat n div 2 ^ j = 0" using assms(2) by simp
    then show ?thesis by (simp add: bit_unat)
  qed
  show "bit (smear n) i = bit (mask (Suc k) :: u64) i"
  proof (cases "i \<le> k")
    case True
    then have "bit (smear n) i" unfolding bit_smear using top k by (intro exI[of _ "k - i"]) auto
    then show ?thesis using True k by (simp add: bit_mask_iff)
  next
    case False
    then show ?thesis using above by (auto simp: bit_smear bit_mask_iff)
  qed
qed

lemma next_pow2_map_smear: "1 < n \<Longrightarrow> next_pow2_map n = smear (n - 1) + 1"
  by (subst next_pow2_map_def) (simp add: smear_def Let_def not_le [symmetric])

lemma mask_plus_1: "(mask k :: u64) + 1 = 2 ^ k"
  by (simp add: mask_eq_decr_exp)

text \<open>Up to \<open>2^63\<close> the least power of two that is large enough; above it the sum wraps to zero.\<close>

lemma next_pow2_map_some:
  assumes "unat n \<le> 2 ^ 63"
  obtains m where "m < 64" "next_pow2_map n = 2 ^ m" "unat n \<le> 2 ^ m" "unat n \<le> 1 \<or> 2 ^ m < 2 * unat n"
proof (cases "n \<le> 1")
  case True
  then show thesis using that[of 0] by (auto simp: next_pow2_map_def word_le_nat_alt)
next
  case False
  then have n: "1 < n" "1 < unat n" by (auto simp: word_less_nat_alt not_le)
  have u: "unat (n - 1) = unat n - 1" using n by (intro unat_minus_one) auto
  obtain k where k: "2 ^ k \<le> unat (n - 1)" "unat (n - 1) < 2 ^ Suc k"
    using log2_between[of "unat (n - 1)"] u n(2) by auto
  have "(2 :: nat) ^ k < 2 ^ 63" using k(1) u assms n(2) by linarith
  then have "k < 63" by (rule power_less_imp_less_exp[rotated]) simp
  moreover have "next_pow2_map n = 2 ^ Suc k"
    unfolding next_pow2_map_smear[OF n(1)] smear_mask[OF k] by (rule mask_plus_1)
  ultimately show thesis using that[of "Suc k"] k u n(2) by simp
qed

lemma next_pow2_map_zero: "2 ^ 63 < unat n \<Longrightarrow> next_pow2_map n = 0"
proof -
  assume n: "2 ^ 63 < unat n"
  then have n1: "1 < n" by (auto simp: word_less_nat_alt)
  have n2: "unat (n - 1) = unat n - 1" using n by (intro unat_minus_one) auto
  have "unat n < 2 ^ 64" using unsigned_less[of n] by simp
  then have "smear (n - 1) = mask (Suc 63)" using n n2 by (intro smear_mask) auto
  then show ?thesis unfolding next_pow2_map_smear[OF n1] by (simp add: mask_plus_1)
qed

section \<open>Well-formed maps\<close>

definition cm_abs :: "'v concurrent_map \<Rightarrow> u64 \<Rightarrow> 'v option" where
  "cm_abs m key = map_of (cm_buckets m ! map_idx key m) key"

definition chains_ok :: "'v concurrent_map \<Rightarrow> bool" where
  "chains_ok m \<longleftrightarrow> (\<forall>i<length (cm_buckets m). distinct (map fst (cm_buckets m ! i)) \<and>
     (\<forall>e\<in>set (cm_buckets m ! i). map_idx (fst e) m = i))"

definition wf_map :: "'v concurrent_map \<Rightarrow> bool" where
  "wf_map m \<longleftrightarrow> (\<exists>k<64. cm_bucket_count m = 2 ^ k) \<and> cm_mask m = cm_bucket_count m - 1 \<and>
     length (cm_buckets m) = unat (cm_bucket_count m) \<and> chains_ok m \<and> cm_count m = word_of_nat (card (dom (cm_abs m)))"

lemma map_idx_upd [simp]: "map_idx key (m\<lparr>cm_buckets := bs\<rparr>) = map_idx key m" "map_idx key (m\<lparr>cm_count := c\<rparr>) = map_idx key m"
  by (simp_all add: map_idx_def)

lemma wf_map_idx: "wf_map m \<Longrightarrow> map_idx key m < length (cm_buckets m)"
proof -
  assume w: "wf_map m"
  then obtain k where k: "k < 64" "cm_bucket_count m = 2 ^ k" "cm_mask m = mask k" "length (cm_buckets m) = unat (2 ^ k :: u64)"
    by (auto simp: wf_map_def mask_eq_decr_exp)
  have "map_hash key AND mask k = take_bit k (map_hash key)" by (simp add: take_bit_eq_mask)
  then have "map_idx key m < 2 ^ k" by (simp add: map_idx_def k(3) unsigned_take_bit_eq)
  then show ?thesis using k by (simp add: unat_pow2)
qed

lemma cm_dom_finite: "finite (dom (cm_abs m))"
  by (rule finite_subset[OF subset_UNIV]) simp

text \<open>Replacing the chain of a key by one that holds the same keys or fewer, and perhaps that key.\<close>

lemma cm_replace:
  assumes w: "wf_map m" and i: "i = map_idx key m"
    and es: "distinct (map fst es)" "fst ` set es \<subseteq> insert key (fst ` set (cm_buckets m ! i))"
    and mo: "map_of es = (map_of (cm_buckets m ! i))(key := v)"
    and c: "c = word_of_nat (card (dom ((cm_abs m)(key := v))))"
  shows "wf_map (m\<lparr>cm_buckets := (cm_buckets m)[i := es], cm_count := c\<rparr>)"
    "cm_abs (m\<lparr>cm_buckets := (cm_buckets m)[i := es], cm_count := c\<rparr>) = (cm_abs m)(key := v)"
proof -
  let ?m = "m\<lparr>cm_buckets := (cm_buckets m)[i := es], cm_count := c\<rparr>"
  have l: "i < length (cm_buckets m)" using wf_map_idx[OF w] i by simp
  show abs: "cm_abs ?m = (cm_abs m)(key := v)"
  proof
    fix q
    show "cm_abs ?m q = ((cm_abs m)(key := v)) q"
      using l mo by (cases "map_idx q m = i") (auto simp: cm_abs_def i)
  qed
  have "chains_ok ?m"
    unfolding chains_ok_def
  proof (intro allI impI)
    fix j assume j: "j < length (cm_buckets ?m)"
    show "distinct (map fst (cm_buckets ?m ! j)) \<and> (\<forall>e\<in>set (cm_buckets ?m ! j). map_idx (fst e) ?m = j)"
    proof (cases "j = i")
      case True
      have "map_idx (fst e) m = i" if e: "e \<in> set es" for e
      proof (cases "fst e = key")
        case False
        then obtain e' where "e' \<in> set (cm_buckets m ! i)" "fst e' = fst e" using es(2) e by fastforce
        moreover have "chains_ok m" using w by (simp add: wf_map_def)
        ultimately show ?thesis using l unfolding chains_ok_def by metis
      qed (simp add: i)
      then show ?thesis using True l es(1) by simp
    next
      case False
      then show ?thesis using w j by (auto simp: wf_map_def chains_ok_def)
    qed
  qed
  then show "wf_map ?m" using w abs c unfolding wf_map_def by simp
qed

lemma wf_chain: "wf_map m \<Longrightarrow> distinct (map fst (cm_buckets m ! map_idx key m))"
  using wf_map_idx[of m key] by (auto simp: wf_map_def chains_ok_def)

lemma create_wf:
  assumes "lgx_concurrent_map_create True True True bc = Inr m" "unat bc \<le> 2 ^ 63"
  shows "wf_map m \<and> cm_abs m = Map.empty"
proof -
  define b where "b = (if bc < 4 then 4 else bc)"
  have "unat b \<le> 2 ^ 63" using assms(2) by (simp add: b_def)
  then obtain k where k: "k < 64" "next_pow2_map b = 2 ^ k" by (rule next_pow2_map_some)
  have m: "m = \<lparr>cm_buckets = replicate (unat (2 ^ k :: u64)) [], cm_bucket_count = 2 ^ k, cm_mask = 2 ^ k - 1, cm_count = 0\<rparr>"
    using assms(1) k(2) by (simp add: lgx_concurrent_map_create_def Let_def b_def)
  define m' where "m' = m\<lparr>cm_count := 0\<rparr>"
  have "map_idx key m < unat (2 ^ k :: u64)" for key
  proof -
    have "map_hash key AND mask k = take_bit k (map_hash key)" by (simp add: take_bit_eq_mask)
    then show ?thesis using k(1) by (simp add: map_idx_def m unat_pow2 unsigned_take_bit_eq flip: mask_eq_decr_exp)
  qed
  then have e: "cm_abs m = Map.empty" by (auto simp: cm_abs_def m)
  moreover have "chains_ok m" by (simp add: chains_ok_def m)
  ultimately show ?thesis using k(1) e by (auto simp: wf_map_def m)
qed

lemma insert_correct:
  assumes w: "wf_map m"
  obtains m' where "lgx_concurrent_map_insert ok key v m =
      Some (if key \<in> dom (cm_abs m) \<or> ok then (LGX_THREADING_SUCCESS, m') else (LGX_THREADING_ERROR_OUT_OF_MEMORY, m))"
    "wf_map m'" "cm_abs m' = (cm_abs m)(key \<mapsto> v)"
proof -
  let ?i = "map_idx key m"
  note l = wf_map_idx[OF w, of key] and d = wf_chain[OF w, of key]
  have dom: "key \<in> dom (cm_abs m) \<longleftrightarrow> chain_set key v (cm_buckets m ! ?i) \<noteq> None"
    unfolding dom_def mem_Collect_eq cm_abs_def by (simp add: chain_set_none)
  show thesis
  proof (cases "chain_set key v (cm_buckets m ! ?i)")
    case None
    then have n: "cm_abs m key = None" by (simp add: chain_set_none cm_abs_def)
    let ?m = "m\<lparr>cm_buckets := (cm_buckets m)[?i := (key, v) # cm_buckets m ! ?i], cm_count := cm_count m + 1\<rparr>"
    have c: "cm_count m + 1 = word_of_nat (card (dom ((cm_abs m)(key := Some v))))"
      using w n cm_dom_finite[of m] by (simp add: wf_map_def domIff)
    have "distinct (map fst ((key, v) # cm_buckets m ! ?i))" using d n by (simp add: cm_abs_def map_of_eq_None_iff)
    then have "wf_map ?m" "cm_abs ?m = (cm_abs m)(key \<mapsto> v)"
      using cm_replace[OF w refl, of "(key, v) # cm_buckets m ! ?i" key "Some v", OF _ _ _ c] by auto
    moreover have "lgx_concurrent_map_insert ok key v m =
        Some (if key \<in> dom (cm_abs m) \<or> ok then (LGX_THREADING_SUCCESS, ?m) else (LGX_THREADING_ERROR_OUT_OF_MEMORY, m))"
      using None l dom by (simp add: lgx_concurrent_map_insert_def Let_def)
    ultimately show thesis using that by blast
  next
    case (Some es)
    note cs = chain_set_some[OF Some]
    let ?m = "m\<lparr>cm_buckets := (cm_buckets m)[?i := es], cm_count := cm_count m\<rparr>"
    have k: "key \<in> dom (cm_abs m)" using Some dom by simp
    then have c: "cm_count m = word_of_nat (card (dom ((cm_abs m)(key := Some v))))"
      using w by (simp add: wf_map_def insert_absorb)
    have "distinct (map fst es)" "fst ` set es \<subseteq> insert key (fst ` set (cm_buckets m ! ?i))"
      using d cs by (simp, metis list.set_map subset_insertI)
    then have "wf_map ?m" "cm_abs ?m = (cm_abs m)(key \<mapsto> v)"
      using cm_replace[OF w refl, of es key "Some v", OF _ _ _ c] cs by auto
    moreover have "?m = m\<lparr>cm_buckets := (cm_buckets m)[?i := es]\<rparr>" by simp
    then have "lgx_concurrent_map_insert ok key v m =
        Some (if key \<in> dom (cm_abs m) \<or> ok then (LGX_THREADING_SUCCESS, ?m) else (LGX_THREADING_ERROR_OUT_OF_MEMORY, m))"
      using Some l k by (simp add: lgx_concurrent_map_insert_def Let_def)
    ultimately show thesis using that by blast
  qed
qed

lemma lookup_correct:
  assumes "wf_map m"
  shows "lgx_concurrent_map_lookup key m =
    Some (if key \<in> dom (cm_abs m) then LGX_THREADING_SUCCESS else LGX_THREADING_ERROR_QUEUE_EMPTY, cm_abs m key)"
  using wf_map_idx[OF assms, of key]
  by (auto simp: lgx_concurrent_map_lookup_def Let_def chain_get_map_of cm_abs_def domIff split: option.split)

lemma remove_correct:
  assumes w: "wf_map m"
  obtains m' where "lgx_concurrent_map_remove key m =
      Some (if key \<in> dom (cm_abs m) then LGX_THREADING_SUCCESS else LGX_THREADING_ERROR_QUEUE_EMPTY, m')"
    "wf_map m'" "cm_abs m' = (cm_abs m)(key := None)"
proof -
  let ?i = "map_idx key m"
  note l = wf_map_idx[OF w, of key] and d = wf_chain[OF w, of key]
  have dom: "key \<in> dom (cm_abs m) \<longleftrightarrow> chain_unlink key (cm_buckets m ! ?i) \<noteq> None"
    unfolding dom_def mem_Collect_eq cm_abs_def by (simp add: chain_unlink_none)
  show thesis
  proof (cases "chain_unlink key (cm_buckets m ! ?i)")
    case None
    then have "cm_abs m key = None" by (simp add: chain_unlink_none cm_abs_def)
    then have "cm_abs m = (cm_abs m)(key := None)" by (simp add: fun_upd_idem)
    moreover have "lgx_concurrent_map_remove key m =
        Some (if key \<in> dom (cm_abs m) then LGX_THREADING_SUCCESS else LGX_THREADING_ERROR_QUEUE_EMPTY, m)"
      using None l dom by (simp add: lgx_concurrent_map_remove_def Let_def)
    ultimately show thesis using that w by blast
  next
    case (Some es)
    note cu = chain_unlink_some[OF Some d]
    have k: "key \<in> dom (cm_abs m)" using Some dom by simp
    let ?m = "m\<lparr>cm_buckets := (cm_buckets m)[?i := es], cm_count := cm_count m - 1\<rparr>"
    have "card (dom (cm_abs m)) = Suc (card (dom (cm_abs m) - {key}))"
      using k cm_dom_finite[of m] by (metis card_Suc_Diff1)
    then have c: "cm_count m - 1 = word_of_nat (card (dom ((cm_abs m)(key := None))))"
      using w by (simp add: wf_map_def)
    have "fst ` set es \<subseteq> insert key (fst ` set (cm_buckets m ! ?i))" using cu by auto
    then have "wf_map ?m" "cm_abs ?m = (cm_abs m)(key := None)"
      using cm_replace[OF w refl, of es key None, OF _ _ _ c] cu by auto
    moreover have "lgx_concurrent_map_remove key m =
        Some (if key \<in> dom (cm_abs m) then LGX_THREADING_SUCCESS else LGX_THREADING_ERROR_QUEUE_EMPTY, ?m)"
      using Some l k by (simp add: lgx_concurrent_map_remove_def Let_def)
    ultimately show thesis using that by blast
  qed
qed

section \<open>The contract of a map\<close>

text \<open>
  What a client relies on: every operation has a result, keeps the invariant, and answers as the finite
  map \<open>look m\<close> does. The \<open>bool\<close> of an insertion is whether \<open>malloc\<close> succeeds in it.
\<close>

datatype 'v map_op = Map_insert bool u64 'v | Map_lookup u64 | Map_remove u64 | Map_size

datatype 'v map_res = Map_code lgx_threading_error | Map_value lgx_threading_error "'v option" | Map_count u64

fun spec_map_op :: "'v map_op \<Rightarrow> (u64 \<Rightarrow> 'v option) \<Rightarrow> 'v map_res \<times> (u64 \<Rightarrow> 'v option)" where
  "spec_map_op (Map_insert ok k v) f =
     (if k \<in> dom f \<or> ok then (Map_code LGX_THREADING_SUCCESS, f(k \<mapsto> v)) else (Map_code LGX_THREADING_ERROR_OUT_OF_MEMORY, f))"
| "spec_map_op (Map_lookup k) f =
     (Map_value (if k \<in> dom f then LGX_THREADING_SUCCESS else LGX_THREADING_ERROR_QUEUE_EMPTY) (f k), f)"
| "spec_map_op (Map_remove k) f =
     (Map_code (if k \<in> dom f then LGX_THREADING_SUCCESS else LGX_THREADING_ERROR_QUEUE_EMPTY), f(k := None))"
| "spec_map_op Map_size f = (Map_count (word_of_nat (card (dom f))), f)"

fun spec_map_run :: "'v map_op list \<Rightarrow> (u64 \<Rightarrow> 'v option) \<Rightarrow> 'v map_res list" where
  "spec_map_run [] f = []"
| "spec_map_run (a # as) f = (case spec_map_op a f of (r, f') \<Rightarrow> r # spec_map_run as f')"

locale finite_map_impl =
  fixes inv :: "'m \<Rightarrow> bool" and look :: "'m \<Rightarrow> u64 \<Rightarrow> 'v option"
    and exec :: "'v map_op \<Rightarrow> 'm \<Rightarrow> ('v map_res \<times> 'm) option"
  assumes exec_law: "inv m \<Longrightarrow> \<exists>m'. exec a m = Some (fst (spec_map_op a (look m)), m') \<and> inv m' \<and> look m' = snd (spec_map_op a (look m))"
begin

primrec run :: "'v map_op list \<Rightarrow> 'm \<Rightarrow> ('v map_res list \<times> 'm) option" where
  "run [] m = Some ([], m)"
| "run (a # as) m = Option.bind (exec a m) (\<lambda>(r, m'). map_option (\<lambda>(rs, m''). (r # rs, m'')) (run as m'))"

lemma run_refines: "inv m \<Longrightarrow> \<exists>m'. run as m = Some (spec_map_run as (look m), m') \<and> inv m'"
proof (induction as arbitrary: m)
  case (Cons a as)
  obtain m1 where m1: "exec a m = Some (fst (spec_map_op a (look m)), m1)" "inv m1" "look m1 = snd (spec_map_op a (look m))"
    using exec_law[OF Cons.prems] by blast
  then show ?case using Cons.IH[OF m1(2)] by (auto simp: case_prod_beta)
qed simp

end

fun map_exec :: "'v map_op \<Rightarrow> 'v concurrent_map \<Rightarrow> ('v map_res \<times> 'v concurrent_map) option" where
  "map_exec (Map_insert ok k v) m = map_option (apfst Map_code) (lgx_concurrent_map_insert ok k v m)"
| "map_exec (Map_lookup k) m = map_option (\<lambda>(c, v). (Map_value c v, m)) (lgx_concurrent_map_lookup k m)"
| "map_exec (Map_remove k) m = map_option (apfst Map_code) (lgx_concurrent_map_remove k m)"
| "map_exec Map_size m = Some (Map_count (lgx_concurrent_map_size (Some m)), m)"

interpretation cm: finite_map_impl wf_map cm_abs map_exec
proof
  fix m :: "'a concurrent_map" and a
  assume w: "wf_map m"
  show "\<exists>m'. map_exec a m = Some (fst (spec_map_op a (cm_abs m)), m') \<and> wf_map m' \<and> cm_abs m' = snd (spec_map_op a (cm_abs m))"
  proof (cases a)
    case (Map_insert ok k v)
    then show ?thesis using w by (cases rule: insert_correct[OF w, of ok k v]) auto
  next
    case (Map_lookup k)
    then show ?thesis using w by (simp add: lookup_correct)
  next
    case (Map_remove k)
    then show ?thesis by (cases rule: remove_correct[OF w, of k]) auto
  next
    case Map_size
    then show ?thesis using w by (simp add: lgx_concurrent_map_size_def wf_map_def)
  qed
qed

fun map_run :: "'v map_op list \<Rightarrow> 'v concurrent_map \<Rightarrow> ('v map_res list \<times> 'v concurrent_map) option" where
  "map_run [] m = Some ([], m)"
| "map_run (a # as) m =
     (case map_exec a m of
        None \<Rightarrow> None
      | Some (r, m') \<Rightarrow> (case map_run as m' of None \<Rightarrow> None | Some (rs, m'') \<Rightarrow> Some (r # rs, m'')))"

lemma map_run_cm: "map_run as m = cm.run as m"
  by (induction as arbitrary: m) (auto split: option.split)

text \<open>
  C35. The hash map refines a finite map: after a successful creation with at most \<open>2^63\<close> buckets, every
  sequence of insertions, lookups, removals and size queries, whichever allocations fail, runs to its end
  without an access outside the bucket array, and every return code, every value found and every count is
  the one a finite map gives.
\<close>
theorem map_refines_finite_map:
  assumes "lgx_concurrent_map_create True True True bucket_count = Inr m" "unat bucket_count \<le> 2 ^ 63"
  shows "\<exists>m'. map_run as m = Some (spec_map_run as Map.empty, m')"
proof -
  have "wf_map m" "cm_abs m = Map.empty" using create_wf[OF assms] by auto
  then show ?thesis using cm.run_refines[of m as] by (auto simp: map_run_cm)
qed

lemma map_refines_finite_map_witness:
  "\<exists>m m'. lgx_concurrent_map_create True True True 5 = Inr (m :: nat concurrent_map) \<and>
     map_run [Map_insert True 7 1, Map_insert True 7 2, Map_insert False 8 3, Map_lookup 7, Map_size, Map_remove 7, Map_lookup 7] m =
       Some ([Map_code LGX_THREADING_SUCCESS, Map_code LGX_THREADING_SUCCESS, Map_code LGX_THREADING_ERROR_OUT_OF_MEMORY,
              Map_value LGX_THREADING_SUCCESS (Some 2), Map_count 1, Map_code LGX_THREADING_SUCCESS,
              Map_value LGX_THREADING_ERROR_QUEUE_EMPTY None], m')"
proof -
  obtain m :: "nat concurrent_map" where m: "lgx_concurrent_map_create True True True 5 = Inr m"
    by (auto simp: lgx_concurrent_map_create_def Let_def)
  show ?thesis
    using map_refines_finite_map[OF m, of "[Map_insert True 7 1, Map_insert True 7 2, Map_insert False 8 3, Map_lookup 7, Map_size, Map_remove 7, Map_lookup 7]"] m
    by simp
qed

text \<open>Destroying a map frees every entry once.\<close>

lemma distinct_concat_nth:
  assumes "\<And>i. i < length xss \<Longrightarrow> distinct (xss ! i)"
    and "\<And>i j x. i < length xss \<Longrightarrow> j < length xss \<Longrightarrow> x \<in> set (xss ! i) \<Longrightarrow> x \<in> set (xss ! j) \<Longrightarrow> i = j"
  shows "distinct (concat xss)"
  using assms
proof (induction xss)
  case (Cons xs xss)
  have "distinct (concat xss)"
    by (rule Cons.IH) (use Cons.prems[of "Suc _"] Cons.prems(2)[of "Suc _" "Suc _"] in auto)
  moreover have "set xs \<inter> set (concat xss) = {}"
    using Cons.prems(2)[of 0 "Suc _"] by (fastforce simp: in_set_conv_nth)
  ultimately show ?case using Cons.prems(1)[of 0] by simp
qed simp

lemma destroy_frees_entries:
  assumes w: "wf_map m"
  shows "distinct (lgx_concurrent_map_destroy (Some m)) \<and>
    set (lgx_concurrent_map_destroy (Some m)) = {(k, v). cm_abs m k = Some v}"
proof -
  have l: "unat (cm_bucket_count m) = length (cm_buckets m)" and ok: "chains_ok m" using w by (auto simp: wf_map_def)
  have d: "lgx_concurrent_map_destroy (Some m) = concat (cm_buckets m)"
    by (simp add: lgx_concurrent_map_destroy_def l map_nth)
  have idx: "map_idx (fst e) m = i" if "i < length (cm_buckets m)" "e \<in> set (cm_buckets m ! i)" for i e
    using ok that unfolding chains_ok_def by metis
  have dm: "distinct (map fst (cm_buckets m ! i))" if "i < length (cm_buckets m)" for i
    using ok that unfolding chains_ok_def by metis
  have "distinct (concat (cm_buckets m))"
  proof (rule distinct_concat_nth)
    show "distinct (cm_buckets m ! i)" if "i < length (cm_buckets m)" for i using dm[OF that] by (simp add: distinct_map)
    show "i = j" if "i < length (cm_buckets m)" "j < length (cm_buckets m)" "x \<in> set (cm_buckets m ! i)" "x \<in> set (cm_buckets m ! j)" for i j x
      using idx[OF that(1,3)] idx[OF that(2,4)] by simp
  qed
  moreover have "(k, v) \<in> set (concat (cm_buckets m)) \<longleftrightarrow> cm_abs m k = Some v" for k v
  proof
    assume "(k, v) \<in> set (concat (cm_buckets m))"
    then obtain i where i: "i < length (cm_buckets m)" "(k, v) \<in> set (cm_buckets m ! i)"
      by (auto simp: in_set_conv_nth[of _ "cm_buckets m"])
    then show "cm_abs m k = Some v" using idx[OF i] dm[OF i(1)] by (simp add: cm_abs_def)
  next
    assume "cm_abs m k = Some v"
    then have "(k, v) \<in> set (cm_buckets m ! map_idx k m)" by (auto simp: cm_abs_def dest: map_of_SomeD)
    then show "(k, v) \<in> set (concat (cm_buckets m))" using wf_map_idx[OF w, of k] by (auto intro: nth_mem)
  qed
  ultimately show ?thesis unfolding d by auto
qed

text \<open>
  A map asked for more than \<open>2^63\<close> buckets: the rounding wraps to zero buckets, and when
  \<open>calloc\<close> of zero bytes returns a pointer the creation reports success; every insertion, lookup and
  removal then reads outside the bucket array.
\<close>
theorem map_create_wraps_to_no_buckets:
  assumes "2 ^ 63 < unat bucket_count"
  shows "\<exists>m. lgx_concurrent_map_create True True True bucket_count = Inr m \<and> cm_buckets m = [] \<and>
    lgx_concurrent_map_insert ok key v m = None \<and> lgx_concurrent_map_lookup key m = None \<and> lgx_concurrent_map_remove key m = None"
proof -
  have "\<not> bucket_count < 4" using assms by (simp add: word_less_nat_alt)
  then show ?thesis using next_pow2_map_zero[OF assms]
    by (simp add: lgx_concurrent_map_create_def lgx_concurrent_map_insert_def lgx_concurrent_map_lookup_def
      lgx_concurrent_map_remove_def)
qed

lemma map_create_wraps_to_no_buckets_witness:
  "(2 :: nat) ^ 63 < unat (0x8000000000000001 :: u64) \<and>
   (\<exists>m. lgx_concurrent_map_create True True True 0x8000000000000001 = Inr m \<and> lgx_concurrent_map_insert True 1 (5 :: nat) m = None)"
  using map_create_wraps_to_no_buckets[of "0x8000000000000001" True 1 "5 :: nat"] by auto

end
