(* ===== verification/Thread_Fifo.thy ===== *)
theory Thread_Fifo
  imports Thread_Base
begin

text \<open>
  The contract of a bounded queue, that both ring buffers of \<^verbatim>\<open>src/threading/lgx_threading.c\<close> keep when
  their operations run one after the other, and the index arithmetic they share. An operation that never
  returns has no result (\<open>None\<close>).
\<close>

datatype 'a fifo_op = Fifo_push 'a | Fifo_pop

datatype 'a fifo_res = Pushed lgx_threading_error | Popped lgx_threading_error "'a option"

text \<open>A queue of at most \<open>cap\<close> elements, as a list.\<close>

fun spec_fifo :: "nat \<Rightarrow> 'a fifo_op \<Rightarrow> 'a list \<Rightarrow> 'a fifo_res \<times> 'a list" where
  "spec_fifo cap (Fifo_push x) xs =
     (if length xs \<ge> cap then (Pushed LGX_THREADING_ERROR_QUEUE_FULL, xs) else (Pushed LGX_THREADING_SUCCESS, xs @ [x]))"
| "spec_fifo cap Fifo_pop [] = (Popped LGX_THREADING_ERROR_QUEUE_EMPTY None, [])"
| "spec_fifo cap Fifo_pop (x # xs) = (Popped LGX_THREADING_SUCCESS (Some x), xs)"

fun spec_fifo_run :: "nat \<Rightarrow> 'a fifo_op list \<Rightarrow> 'a list \<Rightarrow> 'a fifo_res list" where
  "spec_fifo_run cap [] xs = []"
| "spec_fifo_run cap (a # as) xs = (case spec_fifo cap a xs of (r, ys) \<Rightarrow> r # spec_fifo_run cap as ys)"

text \<open>
  \<open>room q\<close> is how many more pushes the position counters take before they wrap; within it every
  operation returns what the list returns.
\<close>

locale bounded_fifo =
  fixes inv :: "'q \<Rightarrow> bool" and contents :: "'q \<Rightarrow> 'a list" and capacity :: "'q \<Rightarrow> nat" and room :: "'q \<Rightarrow> nat"
    and exec :: "'a fifo_op \<Rightarrow> 'q \<Rightarrow> ('a fifo_res \<times> 'q) option"
  assumes exec_law: "inv q \<Longrightarrow> 0 < room q \<Longrightarrow>
      \<exists>q'. exec a q = Some (fst (spec_fifo (capacity q) a (contents q)), q') \<and> inv q' \<and>
        contents q' = snd (spec_fifo (capacity q) a (contents q)) \<and> capacity q' = capacity q \<and> room q \<le> Suc (room q')"
begin

primrec run :: "'a fifo_op list \<Rightarrow> 'q \<Rightarrow> ('a fifo_res list \<times> 'q) option" where
  "run [] q = Some ([], q)"
| "run (a # as) q = Option.bind (exec a q) (\<lambda>(r, q'). map_option (\<lambda>(rs, q''). (r # rs, q'')) (run as q'))"

lemma run_refines:
  "inv q \<Longrightarrow> length as \<le> room q \<Longrightarrow> \<exists>q'. run as q = Some (spec_fifo_run (capacity q) as (contents q), q') \<and> inv q'"
proof (induction as arbitrary: q)
  case (Cons a as)
  let ?s = "spec_fifo (capacity q) a (contents q)"
  obtain q1 where q1: "exec a q = Some (fst ?s, q1)" "inv q1" "contents q1 = snd ?s" "capacity q1 = capacity q" "room q \<le> Suc (room q1)"
    using exec_law[OF Cons.prems(1), of a] Cons.prems(2) by auto
  then have "length as \<le> room q1" using Cons.prems(2) by simp
  then show ?case using Cons.IH[OF q1(2)] q1 by (auto simp: case_prod_beta)
qed simp

end

section \<open>Positions and slots\<close>

lemma pos_slot: "unat ((p :: u64) AND (2 ^ m - 1)) = unat p mod 2 ^ m"
proof -
  have "unat (take_bit m p) = take_bit m (unat p)" by (simp only: unsigned_take_bit_eq)
  then show ?thesis by (simp only: take_bit_eq_mod[of m "unat p"] take_bit_eq_mask[of m p] mask_eq_decr_exp)
qed

lemma unat_pos: "n < 2 ^ 64 \<Longrightarrow> unat (word_of_nat n :: u64) = n"
  by (simp add: unat_of_nat take_bit_nat_eq_self)

lemma unat_diff_small: "m \<le> n \<Longrightarrow> n < 2 ^ 64 \<Longrightarrow> unat (word_of_nat n - word_of_nat m :: u64) = n - m"
  by (simp add: unat_pos flip: of_nat_diff)

text \<open>Two positions less than a ring apart share no slot.\<close>

lemma slot_inj:
  assumes "(p :: nat) mod c = q mod c" "p \<le> q" "q < p + c"
  shows "p = q"
proof -
  have "c dvd q - p" using mod_eq_dvd_iff_nat[OF assms(2), of c] assms(1) by simp
  then show ?thesis using assms(2,3) by (auto dest: dvd_imp_le)
qed

end
