(* ===== verification/Thread_Spsc.thy ===== *)
theory Thread_Spsc
  imports Thread_Fifo
begin

text \<open>
  The single-producer single-consumer ring of \<^verbatim>\<open>src/threading/lgx_threading.c\<close>: the operations as whole
  functions, and as the atomic steps of one producer and one consumer in any interleaving. An element is one
  value, the \<open>memcpy\<close> of it one step.
\<close>

record 'a spsc_queue =
  sq_buffer :: "'a list"
  sq_capacity :: u64
  sq_mask :: u64
  sq_element_size :: u64
  sq_head :: u64
  sq_tail :: u64

text \<open>
  \<open>None\<close>: the creation does not return. \<open>zero\<close> is an element of zero bytes, \<open>calloc_ok\<close>
  whether \<open>calloc\<close> grants a request of that many elements.
\<close>

definition lgx_spsc_queue_create ::
    "bool \<Rightarrow> bool \<Rightarrow> (u64 \<Rightarrow> u64 \<Rightarrow> bool) \<Rightarrow> 'a \<Rightarrow> u64 \<Rightarrow> u64 \<Rightarrow> (lgx_threading_error + 'a spsc_queue) option" where
  "lgx_spsc_queue_create out_nonnull malloc_ok calloc_ok zero capacity element_size =
     (if \<not> out_nonnull \<or> capacity = 0 \<or> element_size = 0 then Some (Inl LGX_THREADING_ERROR_INVALID_PARAM)
      else
        case round_up_cap capacity 1 of
          None \<Rightarrow> None
        | Some cap \<Rightarrow>
            if \<not> malloc_ok then Some (Inl LGX_THREADING_ERROR_OUT_OF_MEMORY)
            else if \<not> calloc_ok cap element_size then Some (Inl LGX_THREADING_ERROR_OUT_OF_MEMORY)
            else Some (Inr \<lparr>sq_buffer = replicate (unat cap) zero, sq_capacity = cap, sq_mask = cap - 1,
              sq_element_size = element_size, sq_head = 0, sq_tail = 0\<rparr>))"

definition lgx_spsc_queue_push :: "'a \<Rightarrow> 'a spsc_queue \<Rightarrow> lgx_threading_error \<times> 'a spsc_queue" where
  "lgx_spsc_queue_push x q =
     (let t = sq_tail q; h = sq_head q in
      if t - h \<ge> sq_capacity q then (LGX_THREADING_ERROR_QUEUE_FULL, q)
      else (LGX_THREADING_SUCCESS,
        q\<lparr>sq_buffer := (sq_buffer q)[unat (t AND sq_mask q) := x], sq_tail := t + 1\<rparr>))"

definition lgx_spsc_queue_pop :: "'a spsc_queue \<Rightarrow> lgx_threading_error \<times> 'a option \<times> 'a spsc_queue" where
  "lgx_spsc_queue_pop q =
     (let h = sq_head q; t = sq_tail q in
      if h \<ge> t then (LGX_THREADING_ERROR_QUEUE_EMPTY, None, q)
      else (LGX_THREADING_SUCCESS, Some (sq_buffer q ! unat (h AND sq_mask q)), q\<lparr>sq_head := h + 1\<rparr>))"

section \<open>One operation after the other\<close>

text \<open>The elements between head and tail.\<close>

definition spsc_contents :: "'a spsc_queue \<Rightarrow> 'a list" where
  "spsc_contents q = map (\<lambda>p. sq_buffer q ! (p mod unat (sq_capacity q))) [unat (sq_head q)..<unat (sq_tail q)]"

definition wf_spsc :: "'a spsc_queue \<Rightarrow> bool" where
  "wf_spsc q \<longleftrightarrow> (\<exists>m<64. sq_capacity q = 2 ^ m) \<and> sq_mask q = sq_capacity q - 1 \<and>
     length (sq_buffer q) = unat (sq_capacity q) \<and> sq_head q \<le> sq_tail q \<and>
     unat (sq_tail q) - unat (sq_head q) \<le> unat (sq_capacity q)"

lemma spsc_slot: "wf_spsc q \<Longrightarrow> unat (p AND sq_mask q) = unat p mod unat (sq_capacity q)"
  by (auto simp: wf_spsc_def pos_slot unat_pow2)

lemma spsc_create_wf:
  assumes "lgx_spsc_queue_create True True ok z capacity es = Some (Inr q)"
  shows "wf_spsc q \<and> spsc_contents q = [] \<and> unat capacity \<le> unat (sq_capacity q) \<and>
    (unat capacity = 1 \<or> unat (sq_capacity q) < 2 * unat capacity) \<and> sq_tail q = 0"
proof -
  have c: "capacity \<noteq> 0" using assms by (auto simp: lgx_spsc_queue_create_def split: if_splits)
  have "unat capacity \<le> 2 ^ 63"
    using assms round_up_cap_none[of capacity] by (cases "unat capacity \<le> 2 ^ 63") (auto simp: lgx_spsc_queue_create_def split: if_splits)
  then obtain m where m: "m < 64" "round_up_cap capacity 1 = Some (2 ^ m)" "unat capacity \<le> 2 ^ m"
      "unat capacity \<le> 1 \<or> 2 ^ m < 2 * unat capacity"
    by (rule round_up_cap_some)
  then have "q = \<lparr>sq_buffer = replicate (unat (2 ^ m :: u64)) z, sq_capacity = 2 ^ m, sq_mask = 2 ^ m - 1, sq_element_size = es, sq_head = 0, sq_tail = 0\<rparr>"
    using assms by (auto simp: lgx_spsc_queue_create_def split: if_splits)
  moreover have "unat capacity \<noteq> 0" using c by (simp add: unat_eq_zero)
  ultimately show ?thesis using m by (auto simp: wf_spsc_def spsc_contents_def unat_pow2)
qed

lemma spsc_full: "wf_spsc q \<Longrightarrow> sq_tail q - sq_head q \<ge> sq_capacity q \<longleftrightarrow> length (spsc_contents q) \<ge> unat (sq_capacity q)"
  by (simp add: wf_spsc_def spsc_contents_def word_le_nat_alt unat_sub_if')

lemma spsc_push_correct:
  assumes w: "wf_spsc q" and t: "unat (sq_tail q) < 2 ^ 64 - 1" and room: "length (spsc_contents q) < unat (sq_capacity q)"
  shows "\<exists>q'. lgx_spsc_queue_push x q = (LGX_THREADING_SUCCESS, q') \<and> wf_spsc q' \<and> spsc_contents q' = spsc_contents q @ [x] \<and>
    sq_capacity q' = sq_capacity q \<and> unat (sq_tail q') = Suc (unat (sq_tail q))"
proof -
  let ?c = "unat (sq_capacity q)" and ?t = "unat (sq_tail q)" and ?h = "unat (sq_head q)"
  let ?q = "q\<lparr>sq_buffer := (sq_buffer q)[?t mod ?c := x], sq_tail := sq_tail q + 1\<rparr>"
  have ht: "?h \<le> ?t" "?t - ?h < ?c" using w room by (auto simp: wf_spsc_def word_le_nat_alt spsc_contents_def)
  have u: "unat (sq_tail q + 1) = Suc ?t" using t unat_word_ariths(1)[of "sq_tail q" 1] by simp
  have "?t mod ?c \<noteq> p mod ?c" if "p \<in> set [?h..<?t]" for p
  proof
    assume eq: "?t mod ?c = p mod ?c"
    have "p = ?t" by (rule slot_inj[OF eq[symmetric]]) (use that ht in auto)
    then show False using that by simp
  qed
  then have "spsc_contents ?q = spsc_contents q @ [x]"
    using ht w u by (auto simp: spsc_contents_def wf_spsc_def nth_list_update_neq)
  moreover have "wf_spsc ?q" using w ht u by (auto simp: wf_spsc_def word_le_nat_alt)
  moreover have "lgx_spsc_queue_push x q = (LGX_THREADING_SUCCESS, ?q)"
    using spsc_full[OF w] room by (simp add: lgx_spsc_queue_push_def Let_def spsc_slot[OF w])
  ultimately show ?thesis using u by auto
qed

lemma spsc_pop_correct:
  assumes w: "wf_spsc q" and ne: "spsc_contents q = x # xs"
  shows "\<exists>q'. lgx_spsc_queue_pop q = (LGX_THREADING_SUCCESS, Some x, q') \<and> wf_spsc q' \<and> spsc_contents q' = xs \<and>
    sq_capacity q' = sq_capacity q \<and> sq_tail q' = sq_tail q"
proof -
  let ?c = "unat (sq_capacity q)" and ?t = "unat (sq_tail q)" and ?h = "unat (sq_head q)"
  let ?q = "q\<lparr>sq_head := sq_head q + 1\<rparr>"
  have lt: "?h < ?t" using ne by (cases "?h < ?t") (auto simp: spsc_contents_def)
  moreover have "?t < 2 ^ 64" using unsigned_less[of "sq_tail q"] by simp
  ultimately have u: "unat (sq_head q + 1) = Suc ?h" using unat_word_ariths(1)[of "sq_head q" 1] by simp
  have "x = sq_buffer q ! (?h mod ?c)" "xs = spsc_contents ?q"
    using ne lt u by (auto simp: spsc_contents_def upt_conv_Cons)
  moreover have "wf_spsc ?q" using w lt u by (auto simp: wf_spsc_def word_le_nat_alt)
  moreover have "\<not> sq_head q \<ge> sq_tail q" using lt by (simp add: word_le_nat_alt)
  ultimately show ?thesis by (auto simp: lgx_spsc_queue_pop_def Let_def spsc_slot[OF w])
qed

lemma spsc_pop_empty: "spsc_contents q = [] \<Longrightarrow> lgx_spsc_queue_pop q = (LGX_THREADING_ERROR_QUEUE_EMPTY, None, q)"
  by (auto simp: lgx_spsc_queue_pop_def spsc_contents_def word_le_nat_alt)

fun spsc_exec :: "'a fifo_op \<Rightarrow> 'a spsc_queue \<Rightarrow> ('a fifo_res \<times> 'a spsc_queue) option" where
  "spsc_exec (Fifo_push x) q = (case lgx_spsc_queue_push x q of (r, q') \<Rightarrow> Some (Pushed r, q'))"
| "spsc_exec Fifo_pop q = (case lgx_spsc_queue_pop q of (r, x, q') \<Rightarrow> Some (Popped r x, q'))"

definition spsc_room :: "'a spsc_queue \<Rightarrow> nat" where
  "spsc_room q = 2 ^ 64 - 1 - unat (sq_tail q)"

interpretation spsc: bounded_fifo wf_spsc spsc_contents "\<lambda>q. unat (sq_capacity q)" spsc_room spsc_exec
proof
  fix q :: "'a spsc_queue" and a
  assume w: "wf_spsc q" and r: "0 < spsc_room q"
  let ?s = "spec_fifo (unat (sq_capacity q)) a (spsc_contents q)"
  show "\<exists>q'. spsc_exec a q = Some (fst ?s, q') \<and> wf_spsc q' \<and> spsc_contents q' = snd ?s \<and>
      unat (sq_capacity q') = unat (sq_capacity q) \<and> spsc_room q \<le> Suc (spsc_room q')"
  proof (cases a)
    case (Fifo_push x)
    show ?thesis
    proof (cases "length (spsc_contents q) < unat (sq_capacity q)")
      case True
      then show ?thesis using spsc_push_correct[OF w _ True, of x] r Fifo_push by (auto simp: spsc_room_def)
    next
      case False
      then have "lgx_spsc_queue_push x q = (LGX_THREADING_ERROR_QUEUE_FULL, q)"
        using spsc_full[OF w] by (simp add: lgx_spsc_queue_push_def)
      then show ?thesis using False Fifo_push w by auto
    qed
  next
    case Fifo_pop
    show ?thesis
    proof (cases "spsc_contents q")
      case Nil
      then show ?thesis using Fifo_pop w spsc_pop_empty[OF Nil] by auto
    next
      case (Cons x xs)
      then show ?thesis using Fifo_pop spsc_pop_correct[OF w Cons] by (auto simp: spsc_room_def)
    qed
  qed
qed

text \<open>Used by one thread the ring is a bounded queue, until the tail reaches its last value.\<close>

lemma spsc_refines_fifo:
  assumes "lgx_spsc_queue_create True True ok z capacity es = Some (Inr q)" "length as < 2 ^ 64"
  shows "\<exists>q'. spsc.run as q = Some (spec_fifo_run (unat (sq_capacity q)) as [], q')"
  using spsc.run_refines[of q as] spsc_create_wf[OF assms(1)] assms(2) by (auto simp: spsc_room_def)

text \<open>
  At that value the comparison of \<^verbatim>\<open>lgx_spsc_queue_pop\<close> no longer holds: a ring whose tail wrapped to zero
  with an element at the last position is reported empty.
\<close>

lemma spsc_pop_misses_wrapped:
  "lgx_spsc_queue_pop (snd (lgx_spsc_queue_push x
     \<lparr>sq_buffer = [z, z], sq_capacity = 2, sq_mask = 1, sq_element_size = 1, sq_head = - 1, sq_tail = - 1\<rparr>)) =
   (LGX_THREADING_ERROR_QUEUE_EMPTY, None,
     \<lparr>sq_buffer = [z, x], sq_capacity = 2, sq_mask = 1, sq_element_size = 1, sq_head = - 1, sq_tail = 0\<rparr>)"
  by (simp add: lgx_spsc_queue_pop_def lgx_spsc_queue_push_def)

section \<open>A producer and a consumer\<close>

text \<open>
  The program counters name the next shared access: the loads of \<open>tail\<close> and \<open>head\<close>, the copy, the
  store. \<open>ss_pushed\<close> and \<open>ss_popped\<close> record the elements of the operations that returned success.
\<close>

datatype 'a prod_pc = P_idle | P_tail 'a | P_head 'a u64 | P_write 'a u64 | P_store 'a u64
datatype 'a cons_pc = C_idle | C_head | C_tail u64 | C_read u64 | C_store u64 'a

record 'a spsc_state =
  ss_q :: "'a spsc_queue"
  ss_prod :: "'a prod_pc"
  ss_cons :: "'a cons_pc"
  ss_pushed :: "'a list"
  ss_popped :: "'a list"

definition spsc_push_step :: "'a spsc_state \<Rightarrow> 'a spsc_state" where
  "spsc_push_step s =
     (let q = ss_q s in
      case ss_prod s of
        P_idle \<Rightarrow> s
      | P_tail x \<Rightarrow> s\<lparr>ss_prod := P_head x (sq_tail q)\<rparr>
      | P_head x t \<Rightarrow> if t - sq_head q \<ge> sq_capacity q then s\<lparr>ss_prod := P_idle\<rparr> else s\<lparr>ss_prod := P_write x t\<rparr>
      | P_write x t \<Rightarrow> s\<lparr>ss_q := q\<lparr>sq_buffer := (sq_buffer q)[unat (t AND sq_mask q) := x]\<rparr>, ss_prod := P_store x t\<rparr>
      | P_store x t \<Rightarrow> s\<lparr>ss_q := q\<lparr>sq_tail := t + 1\<rparr>, ss_prod := P_idle, ss_pushed := ss_pushed s @ [x]\<rparr>)"

definition spsc_pop_step :: "'a spsc_state \<Rightarrow> 'a spsc_state" where
  "spsc_pop_step s =
     (let q = ss_q s in
      case ss_cons s of
        C_idle \<Rightarrow> s
      | C_head \<Rightarrow> s\<lparr>ss_cons := C_tail (sq_head q)\<rparr>
      | C_tail h \<Rightarrow> if h \<ge> sq_tail q then s\<lparr>ss_cons := C_idle\<rparr> else s\<lparr>ss_cons := C_read h\<rparr>
      | C_read h \<Rightarrow> s\<lparr>ss_cons := C_store h (sq_buffer q ! unat (h AND sq_mask q))\<rparr>
      | C_store h x \<Rightarrow> s\<lparr>ss_q := q\<lparr>sq_head := h + 1\<rparr>, ss_cons := C_idle, ss_popped := ss_popped s @ [x]\<rparr>)"

datatype 'a spsc_action = Call_push 'a | Push_step | Call_pop | Pop_step

fun spsc_act :: "'a spsc_action \<Rightarrow> 'a spsc_state \<Rightarrow> 'a spsc_state" where
  "spsc_act (Call_push x) s = (if ss_prod s = P_idle then s\<lparr>ss_prod := P_tail x\<rparr> else s)"
| "spsc_act Push_step s = spsc_push_step s"
| "spsc_act Call_pop s = (if ss_cons s = C_idle then s\<lparr>ss_cons := C_head\<rparr> else s)"
| "spsc_act Pop_step s = spsc_pop_step s"

definition spsc_start :: "'a spsc_queue \<Rightarrow> 'a spsc_state" where
  "spsc_start q = \<lparr>ss_q = q, ss_prod = P_idle, ss_cons = C_idle, ss_pushed = [], ss_popped = []\<rparr>"

text \<open>The clauses of the invariant: positions, what the producer knows, what the consumer knows.\<close>

definition ring_inv :: "'a spsc_state \<Rightarrow> bool" where
  "ring_inv s \<longleftrightarrow>
     (let q = ss_q s; n = length (ss_pushed s); k = length (ss_popped s); c = unat (sq_capacity q) in
      (\<exists>m<64. sq_capacity q = 2 ^ m) \<and> sq_mask q = sq_capacity q - 1 \<and> length (sq_buffer q) = c \<and>
      sq_tail q = word_of_nat n \<and> sq_head q = word_of_nat k \<and> n < 2 ^ 64 \<and> k \<le> n \<and> n \<le> k + c \<and>
      ss_popped s = take k (ss_pushed s) \<and> (\<forall>p. k \<le> p \<and> p < n \<longrightarrow> sq_buffer q ! (p mod c) = ss_pushed s ! p))"

definition prod_inv :: "'a spsc_state \<Rightarrow> bool" where
  "prod_inv s \<longleftrightarrow>
     (let q = ss_q s; n = length (ss_pushed s); k = length (ss_popped s); c = unat (sq_capacity q) in
      case ss_prod s of
        P_head x t \<Rightarrow> t = word_of_nat n
      | P_write x t \<Rightarrow> t = word_of_nat n \<and> n < k + c
      | P_store x t \<Rightarrow> t = word_of_nat n \<and> n < k + c \<and> sq_buffer q ! (n mod c) = x
      | _ \<Rightarrow> True)"

definition cons_inv :: "'a spsc_state \<Rightarrow> bool" where
  "cons_inv s \<longleftrightarrow>
     (let n = length (ss_pushed s); k = length (ss_popped s) in
      case ss_cons s of
        C_tail h \<Rightarrow> h = word_of_nat k
      | C_read h \<Rightarrow> h = word_of_nat k \<and> k < n
      | C_store h x \<Rightarrow> h = word_of_nat k \<and> k < n \<and> x = ss_pushed s ! k
      | _ \<Rightarrow> True)"

lemmas spsc_invs = ring_inv_def prod_inv_def cons_inv_def Let_def

lemma ring_slot:
  assumes "ring_inv s" "p < 2 ^ 64"
  shows "unat (word_of_nat p AND sq_mask (ss_q s)) = p mod unat (sq_capacity (ss_q s))"
  using assms by (auto simp: ring_inv_def Let_def pos_slot unat_pow2 unat_pos)

lemma push_step_keeps:
  assumes R: "ring_inv s" and P: "prod_inv s" and C: "cons_inv s" and b: "length (ss_pushed s) < 2 ^ 64 - 1"
  shows "ring_inv (spsc_push_step s) \<and> prod_inv (spsc_push_step s) \<and> cons_inv (spsc_push_step s)"
proof (cases "ss_prod s")
  case (P_head x t)
  let ?n = "length (ss_pushed s)" and ?k = "length (ss_popped s)"
  have "unat (t - sq_head (ss_q s)) = ?n - ?k" using R P P_head by (simp add: spsc_invs unat_diff_small)
  then have "\<not> t - sq_head (ss_q s) \<ge> sq_capacity (ss_q s) \<Longrightarrow> ?n < ?k + unat (sq_capacity (ss_q s))"
    using R by (auto simp: ring_inv_def Let_def word_le_nat_alt)
  then show ?thesis using R P C P_head by (auto simp: spsc_push_step_def spsc_invs split: cons_pc.splits)
next
  case (P_write x t)
  let ?n = "length (ss_pushed s)" and ?c = "unat (sq_capacity (ss_q s))"
  have sl: "unat (t AND sq_mask (ss_q s)) = ?n mod ?c" using ring_slot[OF R] P P_write R by (simp add: spsc_invs)
  have "?n mod ?c \<noteq> p mod ?c" if "length (ss_popped s) \<le> p" "p < ?n" for p
  proof
    assume eq: "?n mod ?c = p mod ?c"
    have "p = ?n" by (rule slot_inj[OF eq[symmetric]]) (use that P P_write in \<open>auto simp: prod_inv_def Let_def\<close>)
    then show False using that by simp
  qed
  moreover have st: "spsc_push_step s = s\<lparr>ss_q := (ss_q s)\<lparr>sq_buffer := (sq_buffer (ss_q s))[?n mod ?c := x]\<rparr>, ss_prod := P_store x t\<rparr>"
    by (simp add: spsc_push_step_def P_write Let_def sl)
  ultimately have "ring_inv (spsc_push_step s)" using R unfolding st by (simp add: ring_inv_def Let_def nth_list_update_neq)
  moreover have "?n mod ?c < length (sq_buffer (ss_q s))" using R by (auto simp: ring_inv_def Let_def unat_pow2)
  then have "prod_inv (spsc_push_step s)" using P P_write unfolding st by (simp add: prod_inv_def Let_def)
  ultimately show ?thesis using C unfolding st by (auto simp: cons_inv_def Let_def split: cons_pc.split)
next
  case (P_store x t)
  let ?n = "length (ss_pushed s)"
  have "sq_buffer (ss_q s) ! (p mod unat (sq_capacity (ss_q s))) = (ss_pushed s @ [x]) ! p"
    if "length (ss_popped s) \<le> p" "p < Suc ?n" for p
    using R P P_store that by (cases "p = ?n") (auto simp: spsc_invs nth_append)
  then have "ring_inv (spsc_push_step s)" using R P P_store b
    by (simp add: spsc_push_step_def spsc_invs add.commute)
  moreover have "cons_inv (spsc_push_step s)"
    using C P_store by (auto simp: spsc_push_step_def cons_inv_def Let_def nth_append split: cons_pc.splits)
  ultimately show ?thesis using P_store by (simp add: spsc_push_step_def prod_inv_def)
qed (use R P C in \<open>auto simp: spsc_push_step_def spsc_invs split: cons_pc.splits\<close>)

lemma pop_step_keeps:
  assumes R: "ring_inv s" and P: "prod_inv s" and C: "cons_inv s"
  shows "ring_inv (spsc_pop_step s) \<and> prod_inv (spsc_pop_step s) \<and> cons_inv (spsc_pop_step s)"
proof (cases "ss_cons s")
  case (C_tail h)
  let ?n = "length (ss_pushed s)" and ?k = "length (ss_popped s)"
  have "\<not> h \<ge> sq_tail (ss_q s) \<Longrightarrow> ?k < ?n" using R C C_tail by (auto simp: spsc_invs word_le_nat_alt unat_pos)
  then show ?thesis using R P C C_tail by (auto simp: spsc_pop_step_def spsc_invs split: prod_pc.splits)
next
  case (C_read h)
  let ?k = "length (ss_popped s)"
  have "unat (h AND sq_mask (ss_q s)) = ?k mod unat (sq_capacity (ss_q s))"
    using ring_slot[OF R] C C_read R by (simp add: spsc_invs)
  then show ?thesis using R P C C_read by (auto simp: spsc_pop_step_def spsc_invs split: prod_pc.splits)
next
  case (C_store h x)
  let ?k = "length (ss_popped s)"
  have "ss_popped s @ [x] = take (Suc ?k) (ss_pushed s)"
    using R C C_store by (simp add: spsc_invs take_Suc_conv_app_nth)
  then have "ring_inv (spsc_pop_step s)" using R C C_store by (simp add: spsc_pop_step_def spsc_invs add.commute)
  moreover have "prod_inv (spsc_pop_step s)" using P C_store by (auto simp: spsc_pop_step_def prod_inv_def Let_def split: prod_pc.splits)
  ultimately show ?thesis using C_store by (simp add: spsc_pop_step_def cons_inv_def)
qed (use R P C in \<open>auto simp: spsc_pop_step_def spsc_invs split: prod_pc.splits\<close>)

inductive spsc_reach :: "'a spsc_queue \<Rightarrow> 'a spsc_state \<Rightarrow> bool" for q where
  spsc_first: "spsc_reach q (spsc_start q)"
| spsc_then: "spsc_reach q s \<Longrightarrow> length (ss_pushed s) < 2 ^ 64 - 1 \<Longrightarrow> spsc_reach q (spsc_act a s)"

lemma spsc_reach_inv:
  assumes "lgx_spsc_queue_create True True ok z capacity es = Some (Inr q)" "spsc_reach q s"
  shows "ring_inv s \<and> prod_inv s \<and> cons_inv s"
  using assms(2)
proof (induction rule: spsc_reach.induct)
  case spsc_first
  have w: "wf_spsc q" "spsc_contents q = []" "sq_tail q = 0" using spsc_create_wf[OF assms(1)] by auto
  then have "sq_head q = 0" by (simp add: wf_spsc_def)
  then show ?case using w by (auto simp: spsc_start_def spsc_invs wf_spsc_def)
next
  case (spsc_then s a)
  show ?case
  proof (cases a)
    case Push_step
    then show ?thesis using push_step_keeps[of s] spsc_then by simp
  next
    case Pop_step
    then show ?thesis using pop_step_keeps[of s] spsc_then by simp
  next
    case (Call_push x)
    have "ring_inv (s\<lparr>ss_prod := P_tail x\<rparr>) = ring_inv s" "cons_inv (s\<lparr>ss_prod := P_tail x\<rparr>) = cons_inv s"
      by (auto simp: ring_inv_def cons_inv_def Let_def split: cons_pc.split)
    then show ?thesis using Call_push spsc_then by (simp add: prod_inv_def)
  next
    case Call_pop
    have "ring_inv (s\<lparr>ss_cons := C_head\<rparr>) = ring_inv s" "prod_inv (s\<lparr>ss_cons := C_head\<rparr>) = prod_inv s"
      by (auto simp: ring_inv_def prod_inv_def Let_def split: prod_pc.split)
    then show ?thesis using Call_pop spsc_then by (simp add: cons_inv_def)
  qed
qed

text \<open>
  C39. The single-producer single-consumer ring: in every interleaving of the steps of one producer and one
  consumer, over fewer than \<open>2^64\<close> pushes, the elements popped are the first elements pushed, in order,
  none lost and none twice; at most \<open>capacity\<close> elements are in flight; and when the producer is about
  to copy an element in while the consumer copies one out, they touch different slots, both inside the buffer.
\<close>
theorem spsc_fifo_race_free:
  assumes "lgx_spsc_queue_create True True ok z capacity es = Some (Inr q)" "spsc_reach q s"
  shows "ss_popped s = take (length (ss_popped s)) (ss_pushed s) \<and>
    length (ss_pushed s) \<le> length (ss_popped s) + unat (sq_capacity (ss_q s)) \<and>
    (ss_prod s = P_write x t \<and> ss_cons s = C_read h \<longrightarrow>
      unat (t AND sq_mask (ss_q s)) \<noteq> unat (h AND sq_mask (ss_q s)) \<and>
      unat (t AND sq_mask (ss_q s)) < length (sq_buffer (ss_q s)) \<and> unat (h AND sq_mask (ss_q s)) < length (sq_buffer (ss_q s)))"
proof -
  have R: "ring_inv s" and P: "prod_inv s" and C: "cons_inv s" using spsc_reach_inv[OF assms] by auto
  let ?n = "length (ss_pushed s)" and ?k = "length (ss_popped s)" and ?c = "unat (sq_capacity (ss_q s))"
  have "?n mod ?c \<noteq> ?k mod ?c \<and> unat (t AND sq_mask (ss_q s)) = ?n mod ?c \<and> unat (h AND sq_mask (ss_q s)) = ?k mod ?c \<and> 0 < ?c"
    if pc: "ss_prod s = P_write x t" "ss_cons s = C_read h"
  proof -
    have b: "t = word_of_nat ?n" "h = word_of_nat ?k" "?k < ?n" "?n < ?k + ?c" "?n < 2 ^ 64"
      using R P C pc by (auto simp: spsc_invs)
    have "?n mod ?c \<noteq> ?k mod ?c"
    proof
      assume eq: "?n mod ?c = ?k mod ?c"
      have "?k = ?n" by (rule slot_inj[OF eq[symmetric]]) (use b in auto)
      then show False using b by simp
    qed
    then show ?thesis using ring_slot[OF R, of ?n] ring_slot[OF R, of ?k] b by auto
  qed
  then show ?thesis using R by (auto simp: ring_inv_def Let_def)
qed

text \<open>A ring of two slots, full but for one: the producer copies in while the consumer copies out.\<close>

definition spsc_demo_queue :: "nat spsc_queue" where
  "spsc_demo_queue = \<lparr>sq_buffer = [0, 0], sq_capacity = 2, sq_mask = 1, sq_element_size = 8, sq_head = 0, sq_tail = 0\<rparr>"

definition spsc_demo :: "nat spsc_action list" where
  "spsc_demo = [Call_push 5, Push_step, Push_step, Push_step, Push_step, Call_push 6, Call_pop, Push_step, Pop_step, Pop_step, Push_step]"

lemma spsc_demo_create: "lgx_spsc_queue_create True True (\<lambda>c e. True) 0 2 8 = Some (Inr spsc_demo_queue)"
proof -
  have "replicate 2 (0 :: nat) = [0, 0]" by (simp add: numeral_2_eq_2)
  then show ?thesis by (simp add: lgx_spsc_queue_create_def round_up_cap.simps[of 2] spsc_demo_queue_def)
qed

lemma spsc_demo_state:
  "fold spsc_act spsc_demo (spsc_start spsc_demo_queue) =
     \<lparr>ss_q = spsc_demo_queue\<lparr>sq_buffer := [5, 0], sq_tail := 1\<rparr>, ss_prod = P_write 6 1, ss_cons = C_read 0,
      ss_pushed = [5], ss_popped = []\<rparr>"
  by (simp add: spsc_demo_def spsc_start_def spsc_demo_queue_def spsc_push_step_def spsc_pop_step_def Let_def word_le_nat_alt)

lemma spsc_fold_reach:
  "spsc_reach q s \<Longrightarrow> length (ss_pushed s) + length as < 2 ^ 64 \<Longrightarrow> spsc_reach q (fold spsc_act as s)"
proof (induction as arbitrary: s)
  case (Cons a as)
  have "length (ss_pushed (spsc_act a s)) \<le> Suc (length (ss_pushed s))"
    by (cases a) (auto simp: spsc_push_step_def spsc_pop_step_def Let_def split: prod_pc.split cons_pc.split)
  then show ?case using Cons.IH[of "spsc_act a s"] spsc_then[OF Cons.prems(1)] Cons.prems(2) by simp
qed simp

lemma spsc_fifo_race_free_witness:
  "\<exists>q s. lgx_spsc_queue_create True True (\<lambda>c e. True) (0 :: nat) 2 8 = Some (Inr q) \<and> spsc_reach q s \<and>
     ss_prod s = P_write 6 1 \<and> ss_cons s = C_read 0 \<and> ss_pushed s = [5] \<and>
     unat (1 AND sq_mask (ss_q s)) \<noteq> unat (0 AND sq_mask (ss_q s))"
proof -
  let ?s = "fold spsc_act spsc_demo (spsc_start spsc_demo_queue)"
  have r: "spsc_reach spsc_demo_queue ?s"
    by (rule spsc_fold_reach[OF spsc_first]) (simp add: spsc_start_def spsc_demo_def)
  have "unat (1 AND sq_mask (ss_q ?s)) \<noteq> unat (0 AND sq_mask (ss_q ?s))"
    using spsc_fifo_race_free[OF spsc_demo_create r, of 6 1 0] by (simp add: spsc_demo_state)
  then show ?thesis using spsc_demo_create r by (intro exI[of _ spsc_demo_queue] exI[of _ ?s]) (simp add: spsc_demo_state)
qed

text \<open>
  Creating a ring returns exactly for capacities up to \<open>2^63\<close>: there the rounding loop ends with the
  least power of two that is large enough; above it \<open>cap\<close> is shifted to zero and the loop runs forever.
\<close>
theorem spsc_create_terminates:
  assumes "capacity \<noteq> 0" "element_size \<noteq> 0"
  shows "(lgx_spsc_queue_create True malloc_ok calloc_ok z capacity element_size \<noteq> None \<longleftrightarrow> unat capacity \<le> 2 ^ 63) \<and>
    (\<forall>q. lgx_spsc_queue_create True malloc_ok calloc_ok z capacity element_size = Some (Inr q) \<longrightarrow>
      unat capacity \<le> unat (sq_capacity q) \<and> (\<exists>m<64. sq_capacity q = 2 ^ m \<and> (m = 0 \<or> 2 ^ (m - 1) < unat capacity)))"
proof (cases "unat capacity \<le> 2 ^ 63")
  case True
  then obtain m where m: "m < 64" "round_up_cap capacity 1 = Some (2 ^ m)" "unat capacity \<le> 2 ^ m"
      "unat capacity \<le> 1 \<or> 2 ^ m < 2 * unat capacity"
    by (rule round_up_cap_some)
  have "unat capacity \<noteq> 0" using assms(1) by (simp add: unat_eq_zero)
  moreover have "m = 0" if "unat capacity = 1"
  proof -
    have "capacity = 1" using that by (metis unat_1 word_unat_eq_iff)
    then have "(2 ^ m :: u64) = 1" using m(2) by (simp add: round_up_cap.simps[of 1])
    then have "(2 :: nat) ^ m = 1" using unat_pow2[OF m(1)] by simp
    then show ?thesis by simp
  qed
  ultimately have "m = 0 \<or> 2 ^ (m - 1) < unat capacity" using m(4) by (cases m) auto
  moreover have "sq_capacity q = 2 ^ m"
    if "lgx_spsc_queue_create True malloc_ok calloc_ok z capacity element_size = Some (Inr q)" for q
    using that m(2) assms by (auto simp: lgx_spsc_queue_create_def split: if_splits)
  moreover have "lgx_spsc_queue_create True malloc_ok calloc_ok z capacity element_size \<noteq> None"
    using m(2) by (simp add: lgx_spsc_queue_create_def)
  ultimately show ?thesis using True m(1,3) by (auto simp: unat_pow2)
next
  case False
  then have "round_up_cap capacity 1 = None" by (intro round_up_cap_none) simp
  then show ?thesis using assms False by (simp add: lgx_spsc_queue_create_def)
qed

lemma spsc_create_terminates_witness:
  "(5 :: u64) \<noteq> 0 \<and> lgx_spsc_queue_create True True (\<lambda>c e. True) (0 :: nat) 5 8 \<noteq> None \<and>
   lgx_spsc_queue_create True True (\<lambda>c e. True) (0 :: nat) 0x8000000000000001 8 = None"
  using spsc_create_terminates[of 5 8 True "\<lambda>c e. True" "0 :: nat"]
    spsc_create_terminates[of "0x8000000000000001" 8 True "\<lambda>c e. True" "0 :: nat"] by simp

end
