(* ===== verification/Thread_Mpmc.thy ===== *)
theory Thread_Mpmc
  imports Thread_Fifo
begin

text \<open>
  The multi-producer multi-consumer ring of \<^verbatim>\<open>src/threading/lgx_threading.c\<close>: its creation, and push and
  pop run alone. A cell is its sequence number and its element; an element is one value. A loop that never
  ends has no result.
\<close>

record 'a mpmc_queue =
  mq_seq :: "u64 list"
  mq_data :: "'a list"
  mq_cell_stride :: u64
  mq_capacity :: u64
  mq_mask :: u64
  mq_element_size :: u64
  mq_enqueue_pos :: u64
  mq_dequeue_pos :: u64

definition mpmc_cell :: "'a mpmc_queue \<Rightarrow> u64 \<Rightarrow> nat" where
  "mpmc_cell q idx = unat (idx AND mq_mask q)"

text \<open>\<open>sizeof(lgx_mpmc_cell_t)\<close> is 8: the sequence number, and no byte for the flexible array.\<close>

definition lgx_mpmc_queue_create ::
    "bool \<Rightarrow> bool \<Rightarrow> (u64 \<Rightarrow> u64 \<Rightarrow> bool) \<Rightarrow> 'a \<Rightarrow> u64 \<Rightarrow> u64 \<Rightarrow> lgx_threading_error + 'a mpmc_queue" where
  "lgx_mpmc_queue_create out_nonnull malloc_ok calloc_ok zero capacity element_size =
     (if \<not> out_nonnull \<or> capacity = 0 \<or> element_size = 0 then Inl LGX_THREADING_ERROR_INVALID_PARAM
      else if capacity AND (capacity - 1) \<noteq> 0 then Inl LGX_THREADING_ERROR_INVALID_PARAM
      else if \<not> malloc_ok then Inl LGX_THREADING_ERROR_OUT_OF_MEMORY
      else
        let cell_stride = 8 + element_size;
            cell_stride = (cell_stride + 7) AND NOT 7
        in if \<not> calloc_ok capacity cell_stride then Inl LGX_THREADING_ERROR_OUT_OF_MEMORY
           else Inr \<lparr>mq_seq = map word_of_nat [0..<unat capacity], mq_data = replicate (unat capacity) zero,
             mq_cell_stride = cell_stride, mq_capacity = capacity, mq_mask = capacity - 1,
             mq_element_size = element_size, mq_enqueue_pos = 0, mq_dequeue_pos = 0\<rparr>)"

text \<open>
  The loops of \<^verbatim>\<open>lgx_mpmc_queue_push\<close> and \<^verbatim>\<open>lgx_mpmc_queue_pop\<close> with no other thread running; a
  compare-and-swap that fails has loaded the current position into \<open>pos\<close>.
\<close>

partial_function (option) mpmc_push_loop :: "'a \<Rightarrow> u64 \<Rightarrow> 'a mpmc_queue \<Rightarrow> (lgx_threading_error \<times> 'a mpmc_queue) option" where
  "mpmc_push_loop x pos q =
     (let cell = mpmc_cell q pos; diff = sint (mq_seq q ! cell - pos) in
      if diff = 0 then
        (if mq_enqueue_pos q = pos then
           Some (LGX_THREADING_SUCCESS,
             q\<lparr>mq_enqueue_pos := pos + 1, mq_data := (mq_data q)[cell := x], mq_seq := (mq_seq q)[cell := pos + 1]\<rparr>)
         else mpmc_push_loop x (mq_enqueue_pos q) q)
      else if diff < 0 then Some (LGX_THREADING_ERROR_QUEUE_FULL, q)
      else mpmc_push_loop x (mq_enqueue_pos q) q)"

definition lgx_mpmc_queue_push :: "'a \<Rightarrow> 'a mpmc_queue \<Rightarrow> (lgx_threading_error \<times> 'a mpmc_queue) option" where
  "lgx_mpmc_queue_push x q = mpmc_push_loop x (mq_enqueue_pos q) q"

partial_function (option) mpmc_pop_loop :: "u64 \<Rightarrow> 'a mpmc_queue \<Rightarrow> (lgx_threading_error \<times> 'a option \<times> 'a mpmc_queue) option" where
  "mpmc_pop_loop pos q =
     (let cell = mpmc_cell q pos; diff = sint (mq_seq q ! cell - (pos + 1)) in
      if diff = 0 then
        (if mq_dequeue_pos q = pos then
           Some (LGX_THREADING_SUCCESS, Some (mq_data q ! cell),
             q\<lparr>mq_dequeue_pos := pos + 1, mq_seq := (mq_seq q)[cell := pos + mq_capacity q]\<rparr>)
         else mpmc_pop_loop (mq_dequeue_pos q) q)
      else if diff < 0 then Some (LGX_THREADING_ERROR_QUEUE_EMPTY, None, q)
      else mpmc_pop_loop (mq_dequeue_pos q) q)"

definition lgx_mpmc_queue_pop :: "'a mpmc_queue \<Rightarrow> (lgx_threading_error \<times> 'a option \<times> 'a mpmc_queue) option" where
  "lgx_mpmc_queue_pop q = mpmc_pop_loop (mq_dequeue_pos q) q"

definition lgx_mpmc_queue_size :: "'a mpmc_queue option \<Rightarrow> u64" where
  "lgx_mpmc_queue_size q =
     (case q of None \<Rightarrow> 0
      | Some q \<Rightarrow> let eq = mq_enqueue_pos q; dq = mq_dequeue_pos q in if eq \<ge> dq then eq - dq else 0)"

section \<open>Sequence numbers\<close>

lemma and_minus_1_pow2:
  assumes c: "capacity \<noteq> 0" and a: "(capacity :: u64) AND (capacity - 1) = 0"
  obtains m where "m < 64" "capacity = 2 ^ m"
proof -
  have pos: "0 < unat capacity" using c by (simp add: unat_gt_0)
  then obtain m where m: "2 ^ m \<le> unat capacity" "unat capacity < 2 ^ Suc m" by (rule log2_between)
  have top: "bit w m" if "2 ^ m \<le> unat w" "unat w \<le> unat capacity" for w :: u64
  proof -
    have "unat w div 2 ^ m = 1" using that m(2) by (intro div_nat_eqI) auto
    then show ?thesis by (simp add: bit_unat)
  qed
  have u: "unat (capacity - 1) = unat capacity - 1" using c by (intro unat_minus_one) auto
  have "unat capacity = 2 ^ m"
  proof (rule ccontr)
    assume "unat capacity \<noteq> 2 ^ m"
    then have "bit (capacity - 1) m" using m u by (intro top) auto
    moreover have "bit capacity m" using m by (intro top) auto
    ultimately have "bit (capacity AND (capacity - 1)) m" by (simp add: bit_and_iff)
    then show False using a by simp
  qed
  moreover have "unat capacity < 2 ^ 64" using unsigned_less[of capacity] by simp
  then have "(2 :: nat) ^ m < 2 ^ 64" using m(1) by linarith
  then have m64: "m < 64" by (rule power_less_imp_less_exp[rotated]) simp
  ultimately show thesis using that[of m] by (simp add: word_unat_eq_iff unat_pow2)
qed

lemma seq_diff:
  assumes "a < 2 ^ 63" "b < 2 ^ 63"
  shows "sint (word_of_nat a - word_of_nat b :: u64) = int a - int b"
proof -
  have "(word_of_nat a - word_of_nat b :: u64) = word_of_int (int a - int b)" by simp
  then show ?thesis using assms by (simp add: signed_of_int signed_take_bit_int_eq_self del: of_int_diff)
qed

lemma seq_diff_1:
  assumes "a < 2 ^ 63" "Suc b < 2 ^ 63"
  shows "sint (word_of_nat a - (word_of_nat b + 1) :: u64) = int a - int (Suc b)"
  using seq_diff[of a "Suc b"] assms by (simp add: add.commute)

section \<open>One operation after the other\<close>

text \<open>
  With capacity \<open>2\<close> or more: the cells from the dequeue to the enqueue position are full, the others
  await the positions that come next.
\<close>

definition mpmc_ok :: "'a mpmc_queue \<Rightarrow> nat \<Rightarrow> nat \<Rightarrow> nat \<Rightarrow> bool" where
  "mpmc_ok q c n k \<longleftrightarrow> (\<exists>m. 0 < m \<and> m < 64 \<and> c = 2 ^ m) \<and> mq_capacity q = word_of_nat c \<and> mq_mask q = mq_capacity q - 1 \<and>
     length (mq_seq q) = c \<and> length (mq_data q) = c \<and> n + c < 2 ^ 63 \<and> k \<le> n \<and> n \<le> k + c \<and>
     mq_enqueue_pos q = word_of_nat n \<and> mq_dequeue_pos q = word_of_nat k \<and>
     (\<forall>p. k \<le> p \<and> p < n \<longrightarrow> mq_seq q ! (p mod c) = word_of_nat (Suc p)) \<and>
     (\<forall>p. n \<le> p \<and> p < k + c \<longrightarrow> mq_seq q ! (p mod c) = word_of_nat p)"

definition mpmc_contents :: "'a mpmc_queue \<Rightarrow> 'a list" where
  "mpmc_contents q = map (\<lambda>p. mq_data q ! (p mod unat (mq_capacity q))) [unat (mq_dequeue_pos q)..<unat (mq_enqueue_pos q)]"

definition wf_mpmc :: "'a mpmc_queue \<Rightarrow> bool" where
  "wf_mpmc q \<longleftrightarrow> mpmc_ok q (unat (mq_capacity q)) (unat (mq_enqueue_pos q)) (unat (mq_dequeue_pos q))"

lemma mpmc_ok_unat:
  "mpmc_ok q c n k \<Longrightarrow> unat (mq_capacity q) = c \<and> unat (mq_enqueue_pos q) = n \<and> unat (mq_dequeue_pos q) = k"
  by (auto simp: mpmc_ok_def unat_pos)

lemma mpmc_ok_contents: "mpmc_ok q c n k \<Longrightarrow> mpmc_contents q = map (\<lambda>p. mq_data q ! (p mod c)) [k..<n]"
  using mpmc_ok_unat[of q c n k] by (simp add: mpmc_contents_def)

lemma mpmc_ok_wf: "mpmc_ok q c n k \<Longrightarrow> wf_mpmc q"
  using mpmc_ok_unat[of q c n k] by (simp add: wf_mpmc_def)

lemma mpmc_ok_cell: "mpmc_ok q c n k \<Longrightarrow> p < 2 ^ 64 \<Longrightarrow> mpmc_cell q (word_of_nat p) = p mod c"
  by (auto simp: mpmc_ok_def mpmc_cell_def pos_slot unat_pos)

lemma mpmc_create_ok:
  assumes "lgx_mpmc_queue_create True True ok z capacity es = Inr q" "2 \<le> unat capacity" "unat capacity < 2 ^ 62"
  shows "mpmc_ok q (unat capacity) 0 0"
proof -
  have q: "capacity \<noteq> 0" "capacity AND (capacity - 1) = 0"
      "mq_seq q = map word_of_nat [0..<unat capacity]" "mq_data q = replicate (unat capacity) z" "mq_capacity q = capacity"
      "mq_mask q = capacity - 1" "mq_enqueue_pos q = 0" "mq_dequeue_pos q = 0"
    using assms(1) by (auto simp: lgx_mpmc_queue_create_def Let_def split: if_splits)
  obtain m where m: "m < 64" "capacity = 2 ^ m" using and_minus_1_pow2[OF q(1,2)] .
  then have "unat capacity = 2 ^ m" "0 < m" using assms(2) by (auto simp: unat_pow2 intro!: gr0I)
  then show ?thesis using q m assms(3) by (auto simp: mpmc_ok_def)
qed

lemma mpmc_push_ok:
  assumes o: "mpmc_ok q c n k" and f: "n < k + c" and b: "Suc n + c < 2 ^ 63"
  shows "\<exists>q'. lgx_mpmc_queue_push x q = Some (LGX_THREADING_SUCCESS, q') \<and> mpmc_ok q' c (Suc n) k \<and>
    mpmc_contents q' = mpmc_contents q @ [x]"
proof -
  let ?q = "q\<lparr>mq_enqueue_pos := word_of_nat n + 1, mq_data := (mq_data q)[n mod c := x], mq_seq := (mq_seq q)[n mod c := word_of_nat n + 1]\<rparr>"
  have cell: "mpmc_cell q (word_of_nat n) = n mod c" "mq_seq q ! (n mod c) = word_of_nat n" "mq_enqueue_pos q = word_of_nat n" "n mod c < c"
    using o f b mpmc_ok_cell[OF o] by (auto simp: mpmc_ok_def)
  have st: "lgx_mpmc_queue_push x q = Some (LGX_THREADING_SUCCESS, ?q)"
    unfolding lgx_mpmc_queue_push_def cell(3) by (subst mpmc_push_loop.simps) (simp add: cell Let_def)
  have ne: "n mod c \<noteq> p mod c" if "k \<le> p" "p \<noteq> n" "p < k + c" for p
    using that f o slot_inj[of n c p] slot_inj[of p c n] by (cases "n \<le> p") (auto simp: mpmc_ok_def)
  have "mq_seq ?q ! (p mod c) = word_of_nat (Suc p)" if "k \<le> p" "p < Suc n" for p
  proof (cases "p = n")
    case True
    then show ?thesis using o cell by (simp add: mpmc_ok_def add.commute)
  next
    case False
    then show ?thesis using o that f ne[of p] by (simp add: mpmc_ok_def)
  qed
  moreover have "mq_seq ?q ! (p mod c) = word_of_nat p" if "Suc n \<le> p" "p < k + c" for p
    using o that f ne[of p] by (simp add: mpmc_ok_def)
  ultimately have ok: "mpmc_ok ?q c (Suc n) k" using o f b unfolding mpmc_ok_def by (simp add: add.commute)
  have "mpmc_contents ?q = mpmc_contents q @ [x]"
    using o f ne unfolding mpmc_ok_contents[OF ok] mpmc_ok_contents[OF o] by (auto simp: mpmc_ok_def nth_list_update)
  then show ?thesis using st ok by blast
qed

lemma mpmc_push_full:
  assumes o: "mpmc_ok q c n k" and f: "n = k + c"
  shows "lgx_mpmc_queue_push x q = Some (LGX_THREADING_ERROR_QUEUE_FULL, q)"
proof -
  have "2 \<le> c" using o by (auto simp: mpmc_ok_def intro: self_le_power)
  moreover have cell: "mpmc_cell q (word_of_nat n) = n mod c" "mq_enqueue_pos q = word_of_nat n" "n < 2 ^ 63"
    using o mpmc_ok_cell[OF o] by (auto simp: mpmc_ok_def)
  moreover have "mq_seq q ! (k mod c) = word_of_nat (Suc k)" using o f \<open>2 \<le> c\<close> by (auto simp: mpmc_ok_def)
  then have "mq_seq q ! (n mod c) = word_of_nat (Suc k)" using f by simp
  then have "sint (mq_seq q ! (n mod c) - word_of_nat n) = int (Suc k) - int n"
    using f cell(3) \<open>2 \<le> c\<close> by (simp only: seq_diff)
  ultimately show ?thesis unfolding lgx_mpmc_queue_push_def cell(2)
    by (subst mpmc_push_loop.simps) (simp add: Let_def f)
qed

lemma mpmc_pop_ok:
  assumes o: "mpmc_ok q c n k" and f: "k < n"
  shows "\<exists>q'. lgx_mpmc_queue_pop q = Some (LGX_THREADING_SUCCESS, Some (hd (mpmc_contents q)), q') \<and> mpmc_ok q' c n (Suc k) \<and>
    mpmc_contents q' = tl (mpmc_contents q)"
proof -
  let ?q = "q\<lparr>mq_dequeue_pos := word_of_nat k + 1, mq_seq := (mq_seq q)[k mod c := word_of_nat k + mq_capacity q]\<rparr>"
  have cell: "mpmc_cell q (word_of_nat k) = k mod c" "mq_seq q ! (k mod c) = word_of_nat k + 1" "mq_dequeue_pos q = word_of_nat k"
      "k mod c < c" "mq_capacity q = word_of_nat c"
    using o f mpmc_ok_cell[OF o] by (auto simp: mpmc_ok_def add.commute)
  have hd: "hd (mpmc_contents q) = mq_data q ! (k mod c)" using f unfolding mpmc_ok_contents[OF o] by (simp add: upt_conv_Cons)
  have st: "lgx_mpmc_queue_pop q = Some (LGX_THREADING_SUCCESS, Some (hd (mpmc_contents q)), ?q)"
    unfolding lgx_mpmc_queue_pop_def cell(3) hd by (subst mpmc_pop_loop.simps) (simp add: cell Let_def)
  have ne: "k mod c \<noteq> p mod c" if "k < p" "p < k + c" for p
    using that slot_inj[of k c p] by auto
  have "mq_seq ?q ! (p mod c) = word_of_nat p" if "n \<le> p" "p < Suc k + c" for p
  proof (cases "p = k + c")
    case True
    then show ?thesis using o cell by (simp add: mpmc_ok_def)
  next
    case False
    then show ?thesis using o that f ne[of p] by (auto simp: mpmc_ok_def)
  qed
  then have ok: "mpmc_ok ?q c n (Suc k)"
    using o f cell ne unfolding mpmc_ok_def by (auto simp: nth_list_update add.commute)
  have "mpmc_contents ?q = tl (mpmc_contents q)"
    using f unfolding mpmc_ok_contents[OF ok] mpmc_ok_contents[OF o] by (simp add: upt_conv_Cons)
  then show ?thesis using st ok by blast
qed

lemma mpmc_pop_empty:
  assumes o: "mpmc_ok q c n n"
  shows "lgx_mpmc_queue_pop q = Some (LGX_THREADING_ERROR_QUEUE_EMPTY, None, q)"
proof -
  have cell: "mpmc_cell q (word_of_nat n) = n mod c" "mq_seq q ! (n mod c) = word_of_nat n" "mq_dequeue_pos q = word_of_nat n"
      "n + c < 2 ^ 63" "0 < c"
    using o mpmc_ok_cell[OF o] by (auto simp: mpmc_ok_def)
  then have "sint (mq_seq q ! (n mod c) - (word_of_nat n + 1)) = - 1" using seq_diff_1[of n n] by simp
  then show ?thesis unfolding lgx_mpmc_queue_pop_def cell(3) by (subst mpmc_pop_loop.simps) (simp add: cell(1) Let_def)
qed

fun mpmc_exec :: "'a fifo_op \<Rightarrow> 'a mpmc_queue \<Rightarrow> ('a fifo_res \<times> 'a mpmc_queue) option" where
  "mpmc_exec (Fifo_push x) q = map_option (\<lambda>(r, q'). (Pushed r, q')) (lgx_mpmc_queue_push x q)"
| "mpmc_exec Fifo_pop q = map_option (\<lambda>(r, x, q'). (Popped r x, q')) (lgx_mpmc_queue_pop q)"

definition mpmc_room :: "'a mpmc_queue \<Rightarrow> nat" where
  "mpmc_room q = 2 ^ 63 - 1 - unat (mq_capacity q) - unat (mq_enqueue_pos q)"

interpretation mpmc: bounded_fifo wf_mpmc mpmc_contents "\<lambda>q. unat (mq_capacity q)" mpmc_room mpmc_exec
proof
  fix q :: "'a mpmc_queue" and a
  assume w: "wf_mpmc q" and r: "0 < mpmc_room q"
  define c n k where "c = unat (mq_capacity q)" and "n = unat (mq_enqueue_pos q)" and "k = unat (mq_dequeue_pos q)"
  have o: "mpmc_ok q c n k" using w by (simp add: wf_mpmc_def c_def n_def k_def)
  have b: "Suc n + c < 2 ^ 63" using r by (simp add: mpmc_room_def c_def n_def)
  have len: "length (mpmc_contents q) = n - k" "k \<le> n" "n \<le> k + c"
    using o by (auto simp: mpmc_ok_contents[OF o] mpmc_ok_def)
  let ?s = "spec_fifo (unat (mq_capacity q)) a (mpmc_contents q)"
  show "\<exists>q'. mpmc_exec a q = Some (fst ?s, q') \<and> wf_mpmc q' \<and> mpmc_contents q' = snd ?s \<and>
      unat (mq_capacity q') = unat (mq_capacity q) \<and> mpmc_room q \<le> Suc (mpmc_room q')"
  proof (cases a)
    case (Fifo_push x)
    show ?thesis
    proof (cases "n < k + c")
      case True
      obtain q' where q': "lgx_mpmc_queue_push x q = Some (LGX_THREADING_SUCCESS, q')" "mpmc_ok q' c (Suc n) k"
          "mpmc_contents q' = mpmc_contents q @ [x]"
        using mpmc_push_ok[OF o True b] by blast
      moreover have "length (mpmc_contents q) < c" using len True by simp
      ultimately show ?thesis using Fifo_push mpmc_ok_unat[OF q'(2)] mpmc_ok_wf[OF q'(2)] by (simp add: mpmc_room_def flip: c_def n_def)
    next
      case False
      then have "n = k + c" using len by simp
      then show ?thesis using Fifo_push mpmc_push_full[OF o] w len by (simp flip: c_def)
    qed
  next
    case Fifo_pop
    show ?thesis
    proof (cases "k < n")
      case True
      obtain q' where q': "lgx_mpmc_queue_pop q = Some (LGX_THREADING_SUCCESS, Some (hd (mpmc_contents q)), q')" "mpmc_ok q' c n (Suc k)"
          "mpmc_contents q' = tl (mpmc_contents q)"
        using mpmc_pop_ok[OF o True] by blast
      moreover obtain y ys where "mpmc_contents q = y # ys" using len True by (cases "mpmc_contents q") auto
      ultimately show ?thesis using Fifo_pop mpmc_ok_unat[OF q'(2)] mpmc_ok_wf[OF q'(2)] by (simp add: mpmc_room_def flip: c_def n_def)
    next
      case False
      then have "n = k" "mpmc_contents q = []" using len by auto
      then show ?thesis using Fifo_pop mpmc_pop_empty[of q c n] o w by simp
    qed
  qed
qed

fun mpmc_run :: "'a fifo_op list \<Rightarrow> 'a mpmc_queue \<Rightarrow> ('a fifo_res list \<times> 'a mpmc_queue) option" where
  "mpmc_run [] q = Some ([], q)"
| "mpmc_run (a # as) q =
     (case mpmc_exec a q of
        None \<Rightarrow> None
      | Some (r, q') \<Rightarrow> (case mpmc_run as q' of None \<Rightarrow> None | Some (rs, q'') \<Rightarrow> Some (r # rs, q'')))"

lemma mpmc_run_eq: "mpmc_run as q = mpmc.run as q"
  by (induction as arbitrary: q) (auto split: option.split)

text \<open>
  The multi-producer multi-consumer ring refines a bounded list: with a capacity from \<open>2\<close> to
  \<open>2^62\<close>, every sequence of pushes and pops run one after the other, shorter than \<open>2^62\<close>, returns,
  and each result (success, full, empty and the element) is that of a list of at most \<open>capacity\<close> elements.
\<close>
theorem mpmc_refines_fifo:
  assumes "lgx_mpmc_queue_create True True calloc_ok z capacity element_size = Inr q" "2 \<le> unat capacity"
    "unat capacity < 2 ^ 62" "length as < 2 ^ 62"
  shows "\<exists>q'. mpmc_run as q = Some (spec_fifo_run (unat capacity) as [], q')"
proof -
  note o = mpmc_create_ok[OF assms(1-3)]
  have "mpmc_contents q = []" "unat (mq_capacity q) = unat capacity" "length as \<le> mpmc_room q"
    using mpmc_ok_contents[OF o] mpmc_ok_unat[OF o] assms(3,4) by (auto simp: mpmc_room_def)
  then show ?thesis using mpmc.run_refines[OF mpmc_ok_wf[OF o], of as] by (auto simp: mpmc_run_eq)
qed

lemma mpmc_refines_fifo_witness:
  "(2 :: nat) \<le> unat (2 :: u64) \<and> (\<exists>q q'. lgx_mpmc_queue_create True True (\<lambda>c e. True) (0 :: nat) 2 8 = Inr q \<and>
     mpmc_run [Fifo_pop, Fifo_push 5, Fifo_push 6, Fifo_push 7, Fifo_pop] q =
       Some ([Popped LGX_THREADING_ERROR_QUEUE_EMPTY None, Pushed LGX_THREADING_SUCCESS, Pushed LGX_THREADING_SUCCESS,
              Pushed LGX_THREADING_ERROR_QUEUE_FULL, Popped LGX_THREADING_SUCCESS (Some 5)], q'))"
proof -
  obtain q where q: "lgx_mpmc_queue_create True True (\<lambda>c e. True) (0 :: nat) 2 8 = Inr q"
    by (simp add: lgx_mpmc_queue_create_def Let_def)
  then show ?thesis
    using mpmc_refines_fifo[OF q, of "[Fifo_pop, Fifo_push 5, Fifo_push 6, Fifo_push 7, Fifo_pop]"] by simp
qed

section \<open>Capacity one\<close>

lemma mpmc_pop_loop_diverges:
  "mpmc_pop_loop pos q = Some r \<Longrightarrow> \<not> (pos = mq_dequeue_pos q \<and> 0 < sint (mq_seq q ! mpmc_cell q pos - (pos + 1)))"
proof (erule mpmc_pop_loop.raw_induct[where P = "\<lambda>pos q r. \<not> (pos = mq_dequeue_pos q \<and> 0 < sint (mq_seq q ! mpmc_cell q pos - (pos + 1)))", rotated])
qed (auto simp: Let_def split: if_splits)

text \<open>
  Creating a multi-producer multi-consumer ring of capacity one succeeds, but the sequence numbers of its
  only cell do not tell a full cell from a free one: a second push succeeds and overwrites the first element,
  and the pop after it never returns.
\<close>
theorem mpmc_capacity_one_overwrites:
  fixes x y z :: 'a
  assumes "element_size \<noteq> 0"
  shows "\<exists>q0 q1 q2. lgx_mpmc_queue_create True True (\<lambda>c e. True) z 1 element_size = Inr q0 \<and>
    lgx_mpmc_queue_push x q0 = Some (LGX_THREADING_SUCCESS, q1) \<and> mq_data q1 = [x] \<and>
    lgx_mpmc_queue_push y q1 = Some (LGX_THREADING_SUCCESS, q2) \<and> mq_data q2 = [y] \<and>
    lgx_mpmc_queue_pop q2 = None"
proof -
  define q where "q = (\<lambda>e (d :: 'a) v. \<lparr>mq_seq = [e], mq_data = [d], mq_cell_stride = (8 + element_size + 7) AND NOT 7, mq_capacity = 1, mq_mask = 0,
     mq_element_size = element_size, mq_enqueue_pos = v, mq_dequeue_pos = (0 :: u64)\<rparr>)"
  have "lgx_mpmc_queue_create True True (\<lambda>c e. True) z 1 element_size = Inr (q 0 z 0)"
    using assms by (simp add: lgx_mpmc_queue_create_def q_def)
  moreover have p: "lgx_mpmc_queue_push v (q e d e) = Some (LGX_THREADING_SUCCESS, q (e + 1) v (e + 1))" for v d e
    unfolding lgx_mpmc_queue_push_def by (subst mpmc_push_loop.simps) (simp add: q_def mpmc_cell_def Let_def)
  moreover have "lgx_mpmc_queue_pop (q 2 y 2) = None"
    using mpmc_pop_loop_diverges[of 0 "q 2 y 2"]
    by (cases "lgx_mpmc_queue_pop (q 2 y 2)") (auto simp: lgx_mpmc_queue_pop_def q_def mpmc_cell_def)
  ultimately show ?thesis using p[of x 0 z] p[of y 1 x] by (auto simp: q_def)
qed

lemma mpmc_capacity_one_overwrites_witness:
  "(8 :: u64) \<noteq> 0 \<and> (\<exists>q0 q1 q2. lgx_mpmc_queue_create True True (\<lambda>c e. True) (0 :: nat) 1 8 = Inr q0 \<and>
    lgx_mpmc_queue_push 5 q0 = Some (LGX_THREADING_SUCCESS, q1) \<and> lgx_mpmc_queue_push 6 q1 = Some (LGX_THREADING_SUCCESS, q2) \<and>
    lgx_mpmc_queue_pop q2 = None)"
  using mpmc_capacity_one_overwrites[of 8 "0 :: nat" 5 6] by auto

end
