(* ===== verification/Thread_Mpmc_Conc.thy ===== *)
theory Thread_Mpmc_Conc
  imports Thread_Mpmc
begin

text \<open>
  The multi-producer multi-consumer ring under any number of threads: the atomic steps of
  \<^verbatim>\<open>lgx_mpmc_queue_push\<close> and \<^verbatim>\<open>lgx_mpmc_queue_pop\<close> in every interleaving, the invariant of the
  sequence numbers, and that every element is handed out once.
\<close>

section \<open>Steps\<close>

text \<open>
  A program counter names the next shared access: the load of the position, the load of the cell's sequence
  number, the compare-and-swap, the copy, the store of the sequence number.
\<close>

datatype 'a mpmc_pc =
    Q_idle
  | E_load 'a | E_seq 'a u64 | E_cas 'a u64 | E_copy 'a u64 | E_store 'a u64
  | D_load | D_seq u64 | D_cas u64 | D_copy u64 | D_store u64 'a

text \<open>
  Besides the queue and the program counters, the history: \<open>ms_vals\<close> lists the elements in the order in
  which their positions were claimed, \<open>ms_taken\<close> counts the positions claimed by pops, and \<open>ms_log\<close>
  the position and the element of every pop that returned success. \<open>ms_cur\<close> and \<open>ms_filled\<close> say
  which position a cell serves and whether its element is published.
\<close>

record 'a mpmc_state =
  ms_q :: "'a mpmc_queue"
  ms_pc :: "nat \<Rightarrow> 'a mpmc_pc"
  ms_vals :: "'a list"
  ms_taken :: nat
  ms_log :: "(nat \<times> 'a) list"
  ms_cur :: "nat \<Rightarrow> nat"
  ms_filled :: "nat \<Rightarrow> bool"

definition mpmc_go :: "nat \<Rightarrow> 'a mpmc_pc \<Rightarrow> 'a mpmc_state \<Rightarrow> 'a mpmc_state" where
  "mpmc_go i c s = s\<lparr>ms_pc := (ms_pc s)(i := c)\<rparr>"

definition mpmc_push_step :: "bool \<Rightarrow> nat \<Rightarrow> 'a mpmc_state \<Rightarrow> 'a mpmc_state" where
  "mpmc_push_step weak_fails i s =
     (let q = ms_q s in
      case ms_pc s i of
        E_load x \<Rightarrow> mpmc_go i (E_seq x (mq_enqueue_pos q)) s
      | E_seq x pos \<Rightarrow>
          (let diff = sint (mq_seq q ! mpmc_cell q pos - pos) in
           if diff = 0 then mpmc_go i (E_cas x pos) s
           else if diff < 0 then mpmc_go i Q_idle s
           else mpmc_go i (E_load x) s)
      | E_cas x pos \<Rightarrow>
          if mq_enqueue_pos q = pos \<and> \<not> weak_fails then
            mpmc_go i (E_copy x pos) (s\<lparr>ms_q := q\<lparr>mq_enqueue_pos := pos + 1\<rparr>, ms_vals := ms_vals s @ [x]\<rparr>)
          else mpmc_go i (E_seq x (mq_enqueue_pos q)) s
      | E_copy x pos \<Rightarrow>
          mpmc_go i (E_store x pos) (s\<lparr>ms_q := q\<lparr>mq_data := (mq_data q)[mpmc_cell q pos := x]\<rparr>\<rparr>)
      | E_store x pos \<Rightarrow>
          mpmc_go i Q_idle (s\<lparr>ms_q := q\<lparr>mq_seq := (mq_seq q)[mpmc_cell q pos := pos + 1]\<rparr>,
            ms_filled := (ms_filled s)(mpmc_cell q pos := True)\<rparr>)
      | _ \<Rightarrow> s)"

definition mpmc_pop_step :: "bool \<Rightarrow> nat \<Rightarrow> 'a mpmc_state \<Rightarrow> 'a mpmc_state" where
  "mpmc_pop_step weak_fails i s =
     (let q = ms_q s in
      case ms_pc s i of
        D_load \<Rightarrow> mpmc_go i (D_seq (mq_dequeue_pos q)) s
      | D_seq pos \<Rightarrow>
          (let diff = sint (mq_seq q ! mpmc_cell q pos - (pos + 1)) in
           if diff = 0 then mpmc_go i (D_cas pos) s
           else if diff < 0 then mpmc_go i Q_idle s
           else mpmc_go i D_load s)
      | D_cas pos \<Rightarrow>
          if mq_dequeue_pos q = pos \<and> \<not> weak_fails then
            mpmc_go i (D_copy pos) (s\<lparr>ms_q := q\<lparr>mq_dequeue_pos := pos + 1\<rparr>, ms_taken := Suc (ms_taken s)\<rparr>)
          else mpmc_go i (D_seq (mq_dequeue_pos q)) s
      | D_copy pos \<Rightarrow> mpmc_go i (D_store pos (mq_data q ! mpmc_cell q pos)) s
      | D_store pos x \<Rightarrow>
          mpmc_go i Q_idle (s\<lparr>ms_q := q\<lparr>mq_seq := (mq_seq q)[mpmc_cell q pos := pos + mq_capacity q]\<rparr>,
            ms_log := ms_log s @ [(unat pos, x)],
            ms_cur := (ms_cur s)(mpmc_cell q pos := unat pos + unat (mq_capacity q)),
            ms_filled := (ms_filled s)(mpmc_cell q pos := False)\<rparr>)
      | _ \<Rightarrow> s)"

datatype 'a mpmc_action = M_push nat 'a | M_pop nat | M_push_step bool nat | M_pop_step bool nat

fun mpmc_act :: "'a mpmc_action \<Rightarrow> 'a mpmc_state \<Rightarrow> 'a mpmc_state" where
  "mpmc_act (M_push i x) s = (if ms_pc s i = Q_idle then mpmc_go i (E_load x) s else s)"
| "mpmc_act (M_pop i) s = (if ms_pc s i = Q_idle then mpmc_go i D_load s else s)"
| "mpmc_act (M_push_step w i) s = mpmc_push_step w i s"
| "mpmc_act (M_pop_step w i) s = mpmc_pop_step w i s"

definition mpmc_start :: "'a mpmc_queue \<Rightarrow> 'a mpmc_state" where
  "mpmc_start q = \<lparr>ms_q = q, ms_pc = (\<lambda>_. Q_idle), ms_vals = [], ms_taken = 0, ms_log = [], ms_cur = (\<lambda>i. i), ms_filled = (\<lambda>_. False)\<rparr>"

text \<open>The positions stay below \<open>2^63\<close>, where the signed difference of two of them is exact.\<close>

inductive mpmc_reach :: "'a mpmc_queue \<Rightarrow> 'a mpmc_state \<Rightarrow> bool" for q where
  mpmc_first: "mpmc_reach q (mpmc_start q)"
| mpmc_then: "mpmc_reach q s \<Longrightarrow> length (ms_vals s) + 1 + unat (mq_capacity q) < 2 ^ 63 \<Longrightarrow> mpmc_reach q (mpmc_act a s)"

section \<open>The invariant\<close>

definition shared_ok :: "nat \<Rightarrow> nat \<Rightarrow> nat \<Rightarrow> 'a mpmc_queue \<Rightarrow> bool" where
  "shared_ok c n k q \<longleftrightarrow> (\<exists>m. 0 < m \<and> m < 64 \<and> c = 2 ^ m) \<and> mq_capacity q = word_of_nat c \<and> mq_mask q = mq_capacity q - 1 \<and>
     length (mq_seq q) = c \<and> length (mq_data q) = c \<and> n + c < 2 ^ 63 \<and> k \<le> n \<and>
     mq_enqueue_pos q = word_of_nat n \<and> mq_dequeue_pos q = word_of_nat k"

definition cells_ok :: "nat \<Rightarrow> nat \<Rightarrow> 'a list \<Rightarrow> u64 list \<Rightarrow> 'a list \<Rightarrow> (nat \<Rightarrow> nat) \<Rightarrow> (nat \<Rightarrow> bool) \<Rightarrow> bool" where
  "cells_ok c k vals sq dat cur full \<longleftrightarrow>
     (\<forall>i<c. cur i mod c = i \<and> cur i < k + c \<and> sq ! i = word_of_nat (if full i then Suc (cur i) else cur i) \<and>
        (full i \<longrightarrow> cur i < length vals \<and> dat ! i = vals ! cur i))"

definition served_ok :: "nat \<Rightarrow> nat \<Rightarrow> nat \<Rightarrow> (nat \<Rightarrow> nat) \<Rightarrow> (nat \<Rightarrow> bool) \<Rightarrow> bool" where
  "served_ok c n k cur full \<longleftrightarrow> (\<forall>p<n. p \<le> cur (p mod c)) \<and> (\<forall>p<k. p = cur (p mod c) \<longrightarrow> full (p mod c))"

text \<open>What a thread knows at each program counter.\<close>

definition awaits :: "nat \<Rightarrow> (nat \<Rightarrow> nat) \<Rightarrow> (nat \<Rightarrow> bool) \<Rightarrow> bool \<Rightarrow> nat \<Rightarrow> bool" where
  "awaits c cur full b p \<longleftrightarrow> cur (p mod c) = p \<and> full (p mod c) = b"

fun pc_ok :: "nat \<Rightarrow> 'a list \<Rightarrow> nat \<Rightarrow> (bool \<Rightarrow> nat \<Rightarrow> bool) \<Rightarrow> 'a list \<Rightarrow> 'a mpmc_pc \<Rightarrow> bool" where
  "pc_ok c vals k aw dat (E_seq x w) \<longleftrightarrow> unat w \<le> length vals"
| "pc_ok c vals k aw dat (E_cas x w) \<longleftrightarrow> unat w < length vals \<or> unat w = length vals \<and> aw False (unat w)"
| "pc_ok c vals k aw dat (E_copy x w) \<longleftrightarrow> unat w < length vals \<and> aw False (unat w) \<and> vals ! unat w = x"
| "pc_ok c vals k aw dat (E_store x w) \<longleftrightarrow>
     unat w < length vals \<and> aw False (unat w) \<and> vals ! unat w = x \<and> dat ! (unat w mod c) = x"
| "pc_ok c vals k aw dat (D_seq w) \<longleftrightarrow> unat w \<le> k"
| "pc_ok c vals k aw dat (D_cas w) \<longleftrightarrow> unat w < k \<or> unat w = k \<and> aw True (unat w)"
| "pc_ok c vals k aw dat (D_copy w) \<longleftrightarrow> unat w < k \<and> aw True (unat w)"
| "pc_ok c vals k aw dat (D_store w x) \<longleftrightarrow> unat w < k \<and> aw True (unat w) \<and> vals ! unat w = x"
| "pc_ok c vals k aw dat _ \<longleftrightarrow> True"

text \<open>The position a thread has claimed and not yet published.\<close>

fun claim :: "'a mpmc_pc \<Rightarrow> u64 option" where
  "claim (E_copy x w) = Some w"
| "claim (E_store x w) = Some w"
| "claim (D_copy w) = Some w"
| "claim (D_store w x) = Some w"
| "claim _ = None"

definition claims_ok :: "(nat \<Rightarrow> 'a mpmc_pc) \<Rightarrow> bool" where
  "claims_ok pc \<longleftrightarrow> (\<forall>i j w. claim (pc i) = Some w \<and> claim (pc j) = Some w \<longrightarrow> i = j)"

definition log_ok :: "nat \<Rightarrow> nat \<Rightarrow> 'a list \<Rightarrow> (nat \<Rightarrow> nat) \<Rightarrow> (nat \<times> 'a) list \<Rightarrow> bool" where
  "log_ok c k vals cur lg \<longleftrightarrow> distinct (map fst lg) \<and> fst ` set lg = {p. p < k \<and> p < cur (p mod c)} \<and> (\<forall>e\<in>set lg. snd e = vals ! fst e)"

definition mpmc_inv :: "nat \<Rightarrow> 'a mpmc_state \<Rightarrow> bool" where
  "mpmc_inv c s \<longleftrightarrow> shared_ok c (length (ms_vals s)) (ms_taken s) (ms_q s) \<and>
     cells_ok c (ms_taken s) (ms_vals s) (mq_seq (ms_q s)) (mq_data (ms_q s)) (ms_cur s) (ms_filled s) \<and>
     served_ok c (length (ms_vals s)) (ms_taken s) (ms_cur s) (ms_filled s) \<and>
     (\<forall>i. pc_ok c (ms_vals s) (ms_taken s) (awaits c (ms_cur s) (ms_filled s)) (mq_data (ms_q s)) (ms_pc s i)) \<and>
     claims_ok (ms_pc s) \<and> log_ok c (ms_taken s) (ms_vals s) (ms_cur s) (ms_log s)"

lemma mpmc_go_fields [simp]:
  "ms_q (mpmc_go i c s) = ms_q s" "ms_vals (mpmc_go i c s) = ms_vals s" "ms_taken (mpmc_go i c s) = ms_taken s"
  "ms_log (mpmc_go i c s) = ms_log s" "ms_cur (mpmc_go i c s) = ms_cur s" "ms_filled (mpmc_go i c s) = ms_filled s"
  "ms_pc (mpmc_go i c s) = (ms_pc s)(i := c)"
  by (simp_all add: mpmc_go_def)

lemma shared_cell: "shared_ok c n k q \<Longrightarrow> mpmc_cell q w = unat w mod c"
  by (auto simp: shared_ok_def mpmc_cell_def pos_slot)

lemma shared_bounds: "shared_ok c n k q \<Longrightarrow> 2 \<le> c \<and> n + c < 2 ^ 63 \<and> k \<le> n"
  by (auto simp: shared_ok_def intro: self_le_power)

lemma suc_slot: "2 \<le> c \<Longrightarrow> Suc p mod c \<noteq> p mod c"
  using slot_inj[of p c "Suc p"] by auto

text \<open>A sequence number tells the position a cell serves: equal to it, the cell is free; one more, it is full.\<close>

lemma seq_free:
  assumes S: "shared_ok c (length vals) k q" and C: "cells_ok c k vals (mq_seq q) dat cur full" and p: "unat w \<le> length vals"
    and d: "sint (mq_seq q ! mpmc_cell q w - w) = 0"
  shows "awaits c cur full False (unat w)"
proof -
  define p where "p = unat w"
  have w: "w = word_of_nat p" "mpmc_cell q w = p mod c" using shared_cell[OF S] by (auto simp: p_def)
  let ?i = "p mod c" and ?v = "if full (p mod c) then Suc (cur (p mod c)) else cur (p mod c)"
  have b: "2 \<le> c" "length vals + c < 2 ^ 63" "k \<le> length vals" using shared_bounds[OF S] by auto
  then have i: "?i < c" by simp
  then have cell: "cur ?i mod c = ?i" "cur ?i < k + c" "mq_seq q ! ?i = word_of_nat ?v" using C by (auto simp: cells_ok_def)
  then have "int ?v - int p = 0" using d seq_diff[of ?v p] b p unfolding w(2) by (simp add: p_def)
  then have "?v = p" by simp
  then show ?thesis using cell(1) suc_slot[OF b(1), of "cur ?i"] by (auto simp: awaits_def p_def split: if_splits)
qed

lemma seq_full:
  assumes S: "shared_ok c (length vals) k q" and C: "cells_ok c k vals (mq_seq q) dat cur full" and p: "unat w \<le> k"
    and d: "sint (mq_seq q ! mpmc_cell q w - (w + 1)) = 0"
  shows "awaits c cur full True (unat w)"
proof -
  define p where "p = unat w"
  have w: "w = word_of_nat p" "mpmc_cell q w = p mod c" using shared_cell[OF S] by (auto simp: p_def)
  let ?i = "p mod c" and ?v = "if full (p mod c) then Suc (cur (p mod c)) else cur (p mod c)"
  have b: "2 \<le> c" "length vals + c < 2 ^ 63" "k \<le> length vals" using shared_bounds[OF S] by auto
  then have i: "?i < c" by simp
  then have cell: "cur ?i mod c = ?i" "cur ?i < k + c" "mq_seq q ! ?i = word_of_nat ?v" using C by (auto simp: cells_ok_def)
  then have "int ?v - int (Suc p) = 0" using d seq_diff_1[of ?v p] b p unfolding w(2) by (simp add: p_def)
  then have "?v = Suc p" by simp
  then show ?thesis using cell(1) suc_slot[OF b(1), of p] by (auto simp: awaits_def p_def split: if_splits)
qed

section \<open>Every step keeps the invariant\<close>

lemma claims_go:
  "claims_ok pc \<Longrightarrow> claim d = None \<or> claim d = claim (pc i) \<Longrightarrow> claims_ok (pc(i := d))"
  unfolding claims_ok_def by (metis fun_upd_apply option.distinct(1))

text \<open>A step that only moves its thread.\<close>

lemma mpmc_inv_go:
  assumes "mpmc_inv c s" "claim d = None \<or> claim d = claim (ms_pc s i)"
    "pc_ok c (ms_vals s) (ms_taken s) (awaits c (ms_cur s) (ms_filled s)) (mq_data (ms_q s)) d"
  shows "mpmc_inv c (mpmc_go i d s)"
  using assms claims_go[of "ms_pc s" d i] by (simp add: mpmc_inv_def)

text \<open>A new claim of position \<open>p\<close>, which no other thread holds.\<close>

lemma claims_new:
  assumes "claims_ok pc" "\<And>j. claim (pc j) \<noteq> claim d"
  shows "claims_ok (pc(i := d))"
  unfolding claims_ok_def
proof (intro allI impI)
  fix a b w
  assume "claim ((pc(i := d)) a) = Some w \<and> claim ((pc(i := d)) b) = Some w"
  then show "a = b" using assms unfolding claims_ok_def by (cases "a = i"; cases "b = i") auto
qed

lemma pc_ok_claim:
  assumes "pc_ok c vals k aw dat d" "claim d = Some w" "k \<le> length vals"
  obtains b where "unat w < length vals" "aw b (unat w)" "b \<longrightarrow> unat w < k"
  using assms by (cases d) auto

text \<open>What a thread knows stays true when others add an element, claim one, or change other cells.\<close>

lemma pc_ok_push: "pc_ok c vals k aw dat d \<Longrightarrow> k \<le> length vals \<Longrightarrow> pc_ok c (vals @ [x]) k aw dat d"
  by (cases d) (auto simp: nth_append)

lemma pc_ok_pop: "pc_ok c vals k aw dat d \<Longrightarrow> pc_ok c vals (Suc k) aw dat d"
  by (cases d) auto

lemma pc_ok_cell:
  assumes "pc_ok c vals k aw dat d"
    and "\<And>b p. aw b p \<Longrightarrow> claim d = Some (word_of_nat p) \<or> p = length vals \<and> \<not> b \<or> p = k \<and> b \<Longrightarrow> aw' b p \<and> dat' ! (p mod c) = dat ! (p mod c)"
  shows "pc_ok c vals k aw' dat' d"
  using assms by (cases d) auto

lemma inv_pc_ok:
  "mpmc_inv c s \<Longrightarrow> pc_ok c (ms_vals s) (ms_taken s) (awaits c (ms_cur s) (ms_filled s)) (mq_data (ms_q s)) (ms_pc s j)"
  by (simp add: mpmc_inv_def)

lemma other_cell:
  assumes I: "mpmc_inv c s" and i: "claim (ms_pc s i) = Some w" and j: "j \<noteq> i" and aw: "awaits c (ms_cur s) (ms_filled s) b p"
    and p: "claim (ms_pc s j) = Some (word_of_nat p) \<or> p = length (ms_vals s) \<and> \<not> b \<or> p = ms_taken s \<and> b"
  shows "p mod c \<noteq> unat w mod c"
proof
  assume eq: "p mod c = unat w mod c"
  have "ms_taken s \<le> length (ms_vals s)" using I shared_bounds by (auto simp: mpmc_inv_def)
  then obtain b' where b': "unat w < length (ms_vals s)" "awaits c (ms_cur s) (ms_filled s) b' (unat w)" "b' \<longrightarrow> unat w < ms_taken s"
    using I i pc_ok_claim by (metis mpmc_inv_def)
  then have "p = unat w" "b = b'" using aw eq by (auto simp: awaits_def)
  moreover have "claim (ms_pc s j) \<noteq> Some w" using I i j unfolding mpmc_inv_def claims_ok_def by blast
  ultimately show False using b' p by auto
qed

lemma other_pc_ok:
  assumes I: "mpmc_inv c s" and i: "claim (ms_pc s i) = Some w" and j: "j \<noteq> i"
    and same: "\<And>l. l \<noteq> unat w mod c \<Longrightarrow> cur l = ms_cur s l \<and> full l = ms_filled s l \<and> dat ! l = mq_data (ms_q s) ! l"
  shows "pc_ok c (ms_vals s) (ms_taken s) (awaits c cur full) dat (ms_pc s j)"
proof (rule pc_ok_cell)
  show "pc_ok c (ms_vals s) (ms_taken s) (awaits c (ms_cur s) (ms_filled s)) (mq_data (ms_q s)) (ms_pc s j)"
    using I by (simp add: mpmc_inv_def)
  fix b p
  assume "awaits c (ms_cur s) (ms_filled s) b p"
    "claim (ms_pc s j) = Some (word_of_nat p) \<or> p = length (ms_vals s) \<and> \<not> b \<or> p = ms_taken s \<and> b"
  then show "awaits c cur full b p \<and> dat ! (p mod c) = mq_data (ms_q s) ! (p mod c)"
    using other_cell[OF I i j] same[of "p mod c"] by (auto simp: awaits_def)
qed

lemma inv_claims_below:
  assumes I: "mpmc_inv c s" and j: "claim (ms_pc s j) = Some w"
  shows "unat w < length (ms_vals s) \<and> (awaits c (ms_cur s) (ms_filled s) True (unat w) \<longrightarrow> unat w < ms_taken s)"
proof -
  have "ms_taken s \<le> length (ms_vals s)" using I shared_bounds by (auto simp: mpmc_inv_def)
  then obtain b where "unat w < length (ms_vals s)" "awaits c (ms_cur s) (ms_filled s) b (unat w)" "b \<longrightarrow> unat w < ms_taken s"
    using I j pc_ok_claim by (metis mpmc_inv_def)
  then show ?thesis by (auto simp: awaits_def)
qed

lemma inv_push_cas:
  assumes I: "mpmc_inv c s" and pc: "ms_pc s i = E_cas x w" and eq: "mq_enqueue_pos (ms_q s) = w"
    and b: "length (ms_vals s) + 1 + c < 2 ^ 63"
  shows "mpmc_inv c (mpmc_go i (E_copy x w) (s\<lparr>ms_q := (ms_q s)\<lparr>mq_enqueue_pos := w + 1\<rparr>, ms_vals := ms_vals s @ [x]\<rparr>))"
proof -
  let ?n = "length (ms_vals s)" and ?k = "ms_taken s"
  have S: "shared_ok c ?n ?k (ms_q s)" using I by (simp add: mpmc_inv_def)
  have w: "w = word_of_nat ?n" "unat w = ?n" using S eq b by (auto simp: shared_ok_def unat_pos)
  have aw: "awaits c (ms_cur s) (ms_filled s) False ?n" using I pc w(2) by (auto simp: mpmc_inv_def dest!: spec[of _ i])
  have "claim (ms_pc s j) \<noteq> Some w" for j using inv_claims_below[OF I, of j w] w(2) by auto
  then have "claims_ok ((ms_pc s)(i := E_copy x w))" using I by (intro claims_new) (auto simp: mpmc_inv_def)
  moreover have "shared_ok c (Suc ?n) ?k ((ms_q s)\<lparr>mq_enqueue_pos := w + 1\<rparr>)"
    using S b w(1) by (auto simp: shared_ok_def add.commute)
  moreover have "cells_ok c ?k (ms_vals s @ [x]) (mq_seq (ms_q s)) (mq_data (ms_q s)) (ms_cur s) (ms_filled s)"
    using I by (auto simp: mpmc_inv_def cells_ok_def nth_append)
  moreover have "served_ok c (Suc ?n) ?k (ms_cur s) (ms_filled s)"
    using I aw by (auto simp: mpmc_inv_def served_ok_def awaits_def less_Suc_eq)
  moreover have "log_ok c ?k (ms_vals s @ [x]) (ms_cur s) (ms_log s)"
  proof -
    have "fst e < ?n" if "e \<in> set (ms_log s)" for e
    proof -
      have "fst e \<in> {p. p < ?k \<and> p < ms_cur s (p mod c)}" using I that unfolding mpmc_inv_def log_ok_def by blast
      then show ?thesis using S by (auto simp: shared_ok_def)
    qed
    then show ?thesis using I by (auto simp: mpmc_inv_def log_ok_def nth_append)
  qed
  moreover have "pc_ok c (ms_vals s @ [x]) ?k (awaits c (ms_cur s) (ms_filled s)) (mq_data (ms_q s)) (((ms_pc s)(i := E_copy x w)) j)" for j
    using pc_ok_push[OF inv_pc_ok[OF I, of j]] shared_bounds[OF S] aw w(2) by simp
  ultimately show ?thesis by (simp add: mpmc_inv_def)
qed

lemma inv_pop_cas:
  assumes I: "mpmc_inv c s" and pc: "ms_pc s i = D_cas w" and eq: "mq_dequeue_pos (ms_q s) = w"
  shows "mpmc_inv c (mpmc_go i (D_copy w) (s\<lparr>ms_q := (ms_q s)\<lparr>mq_dequeue_pos := w + 1\<rparr>, ms_taken := Suc (ms_taken s)\<rparr>))"
proof -
  let ?n = "length (ms_vals s)" and ?k = "ms_taken s"
  have S: "shared_ok c ?n ?k (ms_q s)" and C: "cells_ok c ?k (ms_vals s) (mq_seq (ms_q s)) (mq_data (ms_q s)) (ms_cur s) (ms_filled s)"
    using I by (simp_all add: mpmc_inv_def)
  have c: "0 < c" using shared_bounds[OF S] by simp
  have w: "w = word_of_nat ?k" "unat w = ?k" using S eq by (auto simp: shared_ok_def unat_pos)
  have aw: "awaits c (ms_cur s) (ms_filled s) True ?k" using I pc w(2) by (auto simp: mpmc_inv_def dest!: spec[of _ i])
  then have kn: "?k < ?n" using C c unfolding cells_ok_def awaits_def by (metis mod_less_divisor)
  have "claim (ms_pc s j) \<noteq> Some w" for j using inv_claims_below[OF I, of j w] w(2) aw by auto
  then have "claims_ok ((ms_pc s)(i := D_copy w))" using I by (intro claims_new) (auto simp: mpmc_inv_def)
  moreover have "shared_ok c ?n (Suc ?k) ((ms_q s)\<lparr>mq_dequeue_pos := w + 1\<rparr>)"
    using S kn w(1) by (auto simp: shared_ok_def add.commute)
  moreover have "cells_ok c (Suc ?k) (ms_vals s) (mq_seq (ms_q s)) (mq_data (ms_q s)) (ms_cur s) (ms_filled s)"
    using C by (auto simp: cells_ok_def less_Suc_eq)
  moreover have "served_ok c ?n (Suc ?k) (ms_cur s) (ms_filled s)"
    using I aw by (auto simp: mpmc_inv_def served_ok_def awaits_def less_Suc_eq)
  moreover have "{p. p < Suc ?k \<and> p < ms_cur s (p mod c)} = {p. p < ?k \<and> p < ms_cur s (p mod c)}"
    using aw by (auto simp: awaits_def less_Suc_eq)
  then have "log_ok c (Suc ?k) (ms_vals s) (ms_cur s) (ms_log s)" using I by (simp add: mpmc_inv_def log_ok_def)
  moreover have "pc_ok c (ms_vals s) (Suc ?k) (awaits c (ms_cur s) (ms_filled s)) (mq_data (ms_q s)) (((ms_pc s)(i := D_copy w)) j)" for j
    using pc_ok_pop[OF inv_pc_ok[OF I, of j]] aw w(2) by simp
  ultimately show ?thesis by (simp add: mpmc_inv_def)
qed

lemma inv_push_copy:
  assumes I: "mpmc_inv c s" and pc: "ms_pc s i = E_copy x w"
  shows "mpmc_inv c (mpmc_go i (E_store x w) (s\<lparr>ms_q := (ms_q s)\<lparr>mq_data := (mq_data (ms_q s))[unat w mod c := x]\<rparr>\<rparr>))"
proof -
  let ?n = "length (ms_vals s)" and ?k = "ms_taken s" and ?dat = "(mq_data (ms_q s))[unat w mod c := x]"
  have S: "shared_ok c ?n ?k (ms_q s)" using I by (simp add: mpmc_inv_def)
  have c: "unat w mod c < c" using shared_bounds[OF S] by simp
  have own: "unat w < ?n" "awaits c (ms_cur s) (ms_filled s) False (unat w)" "ms_vals s ! unat w = x"
    using I pc by (auto simp: mpmc_inv_def dest!: spec[of _ i])
  have "claims_ok ((ms_pc s)(i := E_store x w))" using I pc by (intro claims_go) (auto simp: mpmc_inv_def)
  moreover have "shared_ok c ?n ?k ((ms_q s)\<lparr>mq_data := ?dat\<rparr>)" using S by (auto simp: shared_ok_def)
  moreover have "cells_ok c ?k (ms_vals s) (mq_seq (ms_q s)) ?dat (ms_cur s) (ms_filled s)"
  proof -
    have "?dat ! l = mq_data (ms_q s) ! l" if "ms_filled s l" for l
      using own(2) that by (cases "l = unat w mod c") (auto simp: awaits_def)
    then show ?thesis using I by (simp add: mpmc_inv_def cells_ok_def)
  qed
  moreover have "pc_ok c (ms_vals s) ?k (awaits c (ms_cur s) (ms_filled s)) ?dat (((ms_pc s)(i := E_store x w)) j)" for j
  proof (cases "j = i")
    case True
    then show ?thesis using own c S by (simp add: shared_ok_def)
  next
    case False
    then show ?thesis using other_pc_ok[OF I _ False, of w "ms_cur s" "ms_filled s" ?dat] pc by simp
  qed
  ultimately show ?thesis using I by (simp add: mpmc_inv_def)
qed

lemma inv_push_store:
  assumes I: "mpmc_inv c s" and pc: "ms_pc s i = E_store x w"
  shows "mpmc_inv c (mpmc_go i Q_idle (s\<lparr>ms_q := (ms_q s)\<lparr>mq_seq := (mq_seq (ms_q s))[unat w mod c := w + 1]\<rparr>,
    ms_filled := (ms_filled s)(unat w mod c := True)\<rparr>))"
proof -
  let ?n = "length (ms_vals s)" and ?k = "ms_taken s" and ?f = "(ms_filled s)(unat w mod c := True)"
  have S: "shared_ok c ?n ?k (ms_q s)" and C: "cells_ok c ?k (ms_vals s) (mq_seq (ms_q s)) (mq_data (ms_q s)) (ms_cur s) (ms_filled s)"
    using I by (simp_all add: mpmc_inv_def)
  have own: "unat w < ?n" "ms_cur s (unat w mod c) = unat w" "ms_vals s ! unat w = x" "mq_data (ms_q s) ! (unat w mod c) = x"
    using I pc by (auto simp: mpmc_inv_def awaits_def dest!: spec[of _ i])
  have "claims_ok ((ms_pc s)(i := Q_idle))" using I by (intro claims_go) (auto simp: mpmc_inv_def)
  moreover have "shared_ok c ?n ?k ((ms_q s)\<lparr>mq_seq := (mq_seq (ms_q s))[unat w mod c := w + 1]\<rparr>)" using S by (auto simp: shared_ok_def)
  moreover have "cells_ok c ?k (ms_vals s) ((mq_seq (ms_q s))[unat w mod c := w + 1]) (mq_data (ms_q s)) (ms_cur s) ?f"
    unfolding cells_ok_def
  proof (intro allI impI)
    fix l assume l: "l < c"
    show "ms_cur s l mod c = l \<and> ms_cur s l < ?k + c \<and>
        (mq_seq (ms_q s))[unat w mod c := w + 1] ! l = word_of_nat (if ?f l then Suc (ms_cur s l) else ms_cur s l) \<and>
        (?f l \<longrightarrow> ms_cur s l < ?n \<and> mq_data (ms_q s) ! l = ms_vals s ! ms_cur s l)"
      using C S l own by (cases "l = unat w mod c") (auto simp: cells_ok_def shared_ok_def)
  qed
  moreover have "served_ok c ?n ?k (ms_cur s) ?f" using I by (auto simp: mpmc_inv_def served_ok_def)
  moreover have "pc_ok c (ms_vals s) ?k (awaits c (ms_cur s) ?f) (mq_data (ms_q s)) (((ms_pc s)(i := Q_idle)) j)" for j
    using other_pc_ok[OF I, of i w j "ms_cur s" ?f "mq_data (ms_q s)"] pc by (cases "j = i") auto
  ultimately show ?thesis using I by (simp add: mpmc_inv_def)
qed

lemma inv_pop_store:
  assumes I: "mpmc_inv c s" and pc: "ms_pc s i = D_store w x"
  shows "mpmc_inv c (mpmc_go i Q_idle (s\<lparr>ms_q := (ms_q s)\<lparr>mq_seq := (mq_seq (ms_q s))[unat w mod c := w + mq_capacity (ms_q s)]\<rparr>,
    ms_log := ms_log s @ [(unat w, x)], ms_cur := (ms_cur s)(unat w mod c := unat w + c),
    ms_filled := (ms_filled s)(unat w mod c := False)\<rparr>))"
proof -
  let ?n = "length (ms_vals s)" and ?k = "ms_taken s" and ?l = "unat w mod c"
  let ?f = "(ms_filled s)(?l := False)" and ?cur = "(ms_cur s)(?l := unat w + c)" and ?sq = "(mq_seq (ms_q s))[?l := w + mq_capacity (ms_q s)]"
  have S: "shared_ok c ?n ?k (ms_q s)" and C: "cells_ok c ?k (ms_vals s) (mq_seq (ms_q s)) (mq_data (ms_q s)) (ms_cur s) (ms_filled s)"
    and V: "served_ok c ?n ?k (ms_cur s) (ms_filled s)" and L: "log_ok c ?k (ms_vals s) (ms_cur s) (ms_log s)"
    using I by (simp_all add: mpmc_inv_def)
  have b: "0 < c" "?k \<le> ?n" using shared_bounds[OF S] by auto
  have own: "unat w < ?k" "ms_cur s ?l = unat w" "ms_vals s ! unat w = x"
    using inv_pc_ok[OF I, of i] pc by (auto simp: awaits_def)
  have below: "p \<le> unat w" if "p < ?n" "p mod c = ?l" for p using V own(2) that by (auto simp: served_ok_def)
  have "claims_ok ((ms_pc s)(i := Q_idle))" using I by (intro claims_go) (auto simp: mpmc_inv_def)
  moreover have "shared_ok c ?n ?k ((ms_q s)\<lparr>mq_seq := ?sq\<rparr>)" using S by (auto simp: shared_ok_def)
  moreover have "cells_ok c ?k (ms_vals s) ?sq (mq_data (ms_q s)) ?cur ?f"
    unfolding cells_ok_def
  proof (intro allI impI)
    fix l assume l: "l < c"
    show "?cur l mod c = l \<and> ?cur l < ?k + c \<and> ?sq ! l = word_of_nat (if ?f l then Suc (?cur l) else ?cur l) \<and>
        (?f l \<longrightarrow> ?cur l < ?n \<and> mq_data (ms_q s) ! l = ms_vals s ! ?cur l)"
      using C S l own by (cases "l = ?l") (auto simp: cells_ok_def shared_ok_def)
  qed
  moreover have "served_ok c ?n ?k ?cur ?f"
    unfolding served_ok_def
  proof (intro conjI allI impI)
    fix p assume "p < ?n"
    then show "p \<le> ?cur (p mod c)" using V below[of p] by (auto simp: served_ok_def)
  next
    fix p assume p: "p < ?k" "p = ?cur (p mod c)"
    show "?f (p mod c)"
    proof (cases "p mod c = ?l")
      case True
      then show ?thesis using p below[of p] b by auto
    next
      case False
      then show ?thesis using p V by (auto simp: served_ok_def)
    qed
  qed
  moreover have "log_ok c ?k (ms_vals s) ?cur (ms_log s @ [(unat w, x)])"
  proof -
    have fresh: "unat w \<notin> fst ` set (ms_log s)" using L own(2) by (simp add: log_ok_def)
    have "p < ?cur (p mod c) \<longleftrightarrow> p < ms_cur s (p mod c) \<or> p = unat w" if "p < ?k" for p
      using below[of p] that b own(2) by (cases "p mod c = ?l") auto
    then have "{p. p < ?k \<and> p < ?cur (p mod c)} = insert (unat w) {p. p < ?k \<and> p < ms_cur s (p mod c)}"
      using own(1) by blast
    then have "fst ` set (ms_log s @ [(unat w, x)]) = {p. p < ?k \<and> p < ?cur (p mod c)}" using L by (simp add: log_ok_def)
    moreover have "distinct (map fst (ms_log s @ [(unat w, x)]))" using L fresh by (simp add: log_ok_def)
    ultimately show ?thesis using L own(3) unfolding log_ok_def by auto
  qed
  moreover have "pc_ok c (ms_vals s) ?k (awaits c ?cur ?f) (mq_data (ms_q s)) (((ms_pc s)(i := Q_idle)) j)" for j
    using other_pc_ok[OF I, of i w j ?cur ?f "mq_data (ms_q s)"] pc by (cases "j = i") auto
  ultimately show ?thesis by (simp add: mpmc_inv_def)
qed

lemma push_step_inv:
  assumes I: "mpmc_inv c s" and b: "length (ms_vals s) + 1 + c < 2 ^ 63"
  shows "mpmc_inv c (mpmc_push_step weak i s)"
proof -
  have S: "shared_ok c (length (ms_vals s)) (ms_taken s) (ms_q s)"
    and C: "cells_ok c (ms_taken s) (ms_vals s) (mq_seq (ms_q s)) (mq_data (ms_q s)) (ms_cur s) (ms_filled s)"
    using I by (simp_all add: mpmc_inv_def)
  have pos: "unat (mq_enqueue_pos (ms_q s)) = length (ms_vals s)" using S by (auto simp: shared_ok_def unat_pos)
  note P = inv_pc_ok[OF I, of i]
  show ?thesis
  proof (cases "ms_pc s i")
    case (E_load x)
    then show ?thesis using pos by (auto simp: mpmc_push_step_def intro!: mpmc_inv_go[OF I])
  next
    case (E_seq x w)
    then show ?thesis using P seq_free[OF S C, of w] by (auto simp: mpmc_push_step_def Let_def intro!: mpmc_inv_go[OF I])
  next
    case (E_cas x w)
    then show ?thesis using pos inv_push_cas[OF I E_cas _ b] by (auto simp: mpmc_push_step_def Let_def intro!: mpmc_inv_go[OF I])
  next
    case (E_copy x w)
    then show ?thesis using inv_push_copy[OF I E_copy] by (simp add: mpmc_push_step_def Let_def shared_cell[OF S])
  next
    case (E_store x w)
    then show ?thesis using inv_push_store[OF I E_store] by (simp add: mpmc_push_step_def Let_def shared_cell[OF S])
  qed (use I in \<open>simp_all add: mpmc_push_step_def\<close>)
qed

lemma pop_step_inv:
  assumes I: "mpmc_inv c s"
  shows "mpmc_inv c (mpmc_pop_step weak i s)"
proof -
  have S: "shared_ok c (length (ms_vals s)) (ms_taken s) (ms_q s)"
    and C: "cells_ok c (ms_taken s) (ms_vals s) (mq_seq (ms_q s)) (mq_data (ms_q s)) (ms_cur s) (ms_filled s)"
    using I by (simp_all add: mpmc_inv_def)
  have pos: "unat (mq_dequeue_pos (ms_q s)) = ms_taken s" using S by (auto simp: shared_ok_def unat_pos)
  have cap: "unat (mq_capacity (ms_q s)) = c" using S by (auto simp: shared_ok_def unat_pos)
  note P = inv_pc_ok[OF I, of i]
  show ?thesis
  proof (cases "ms_pc s i")
    case D_load
    then show ?thesis using pos by (auto simp: mpmc_pop_step_def intro!: mpmc_inv_go[OF I])
  next
    case (D_seq w)
    then show ?thesis using P seq_full[OF S C, of w] by (auto simp: mpmc_pop_step_def Let_def intro!: mpmc_inv_go[OF I])
  next
    case (D_cas w)
    then show ?thesis using pos inv_pop_cas[OF I D_cas] by (auto simp: mpmc_pop_step_def Let_def intro!: mpmc_inv_go[OF I])
  next
    case (D_copy w)
    have "unat w mod c < c" using shared_bounds[OF S] by simp
    then have "mq_data (ms_q s) ! (unat w mod c) = ms_vals s ! unat w"
      using P D_copy C unfolding cells_ok_def by (auto simp: awaits_def)
    then show ?thesis using P D_copy by (auto simp: mpmc_pop_step_def shared_cell[OF S] intro!: mpmc_inv_go[OF I])
  next
    case (D_store w x)
    then show ?thesis using inv_pop_store[OF I D_store] by (simp add: mpmc_pop_step_def Let_def shared_cell[OF S] cap)
  qed (use I in \<open>simp_all add: mpmc_pop_step_def\<close>)
qed

lemma mpmc_start_inv:
  assumes "lgx_mpmc_queue_create True True calloc_ok z capacity es = Inr q" "2 \<le> unat capacity" "unat capacity < 2 ^ 62"
  shows "mpmc_inv (unat capacity) (mpmc_start q)"
proof -
  have o: "mpmc_ok q (unat capacity) 0 0" by (rule mpmc_create_ok[OF assms])
  then have S: "shared_ok (unat capacity) 0 0 q" by (auto simp: mpmc_ok_def shared_ok_def)
  have "mq_seq q ! i = word_of_nat i" if "i < unat capacity" for i
    using o that unfolding mpmc_ok_def by (metis add_0 le0 mod_less)
  then show ?thesis using S
    by (simp add: mpmc_inv_def mpmc_start_def cells_ok_def served_ok_def claims_ok_def log_ok_def)
qed

lemma mpmc_reach_inv:
  assumes "lgx_mpmc_queue_create True True calloc_ok z capacity es = Inr q" "2 \<le> unat capacity" "unat capacity < 2 ^ 62"
    and "mpmc_reach q s"
  shows "mpmc_inv (unat capacity) s"
  using assms(4)
proof (induction rule: mpmc_reach.induct)
  case mpmc_first
  then show ?case by (rule mpmc_start_inv[OF assms(1-3)])
next
  case (mpmc_then s a)
  have "unat (mq_capacity q) = unat capacity" using mpmc_ok_unat[OF mpmc_create_ok[OF assms(1-3)]] by simp
  then have b: "length (ms_vals s) + 1 + unat capacity < 2 ^ 63" using mpmc_then.hyps(2) by simp
  show ?case
    using push_step_inv[OF mpmc_then.IH b] pop_step_inv[OF mpmc_then.IH] mpmc_then.IH
    by (cases a) (auto intro!: mpmc_inv_go)
qed

text \<open>
  C32. The multi-producer multi-consumer ring under any number of threads: with a capacity from \<open>2\<close> to
  \<open>2^62\<close>, in every interleaving of the steps of pushes and pops (compare-and-swaps that fail spuriously
  included), no position is handed to two pops, every pop that returns success returns the element pushed at
  its position, so pops take elements in the order of their claims and none twice; at most \<open>capacity\<close>
  elements are pushed and not yet popped; and two threads that have claimed a position never work on one cell.
\<close>
theorem mpmc_exactly_once:
  assumes "lgx_mpmc_queue_create True True calloc_ok z capacity element_size = Inr q" "2 \<le> unat capacity"
    "unat capacity < 2 ^ 62" "mpmc_reach q s"
  shows "distinct (map fst (ms_log s)) \<and>
    (\<forall>(p, x)\<in>set (ms_log s). p < length (ms_vals s) \<and> x = ms_vals s ! p) \<and>
    length (ms_vals s) \<le> length (ms_log s) + unat capacity \<and>
    (\<forall>i j w v. i \<noteq> j \<and> claim (ms_pc s i) = Some w \<and> claim (ms_pc s j) = Some v \<longrightarrow> mpmc_cell (ms_q s) w \<noteq> mpmc_cell (ms_q s) v)"
proof -
  let ?c = "unat capacity" and ?n = "length (ms_vals s)" and ?k = "ms_taken s"
  have I: "mpmc_inv ?c s" by (rule mpmc_reach_inv[OF assms])
  have S: "shared_ok ?c ?n ?k (ms_q s)" and L: "log_ok ?c ?k (ms_vals s) (ms_cur s) (ms_log s)"
    and C: "cells_ok ?c ?k (ms_vals s) (mq_seq (ms_q s)) (mq_data (ms_q s)) (ms_cur s) (ms_filled s)"
    and V: "served_ok ?c ?n ?k (ms_cur s) (ms_filled s)" using I by (simp_all add: mpmc_inv_def)
  have b: "2 \<le> ?c" "?k \<le> ?n" using shared_bounds[OF S] by auto
  have "p < ?k \<and> p < ms_cur s (p mod ?c)" if "p < ?n - ?c" for p
  proof -
    have "p + ?c \<le> ms_cur s ((p + ?c) mod ?c)" using V that unfolding served_ok_def by (metis less_diff_conv)
    moreover have "ms_cur s (p mod ?c) < ?k + ?c" using C b unfolding cells_ok_def
      by (metis mod_less_divisor not_numeral_le_zero not_gr_zero)
    ultimately show ?thesis using b by simp
  qed
  then have "{..<?n - ?c} \<subseteq> fst ` set (ms_log s)" using L by (auto simp: log_ok_def)
  then have "?n - ?c \<le> card (fst ` set (ms_log s))" using card_mono[of "fst ` set (ms_log s)" "{..<?n - ?c}"] by simp
  then have size: "?n \<le> length (ms_log s) + ?c" using card_image_le[of "set (ms_log s)" fst] card_length[of "ms_log s"] by simp
  have vals: "p < ?n \<and> x = ms_vals s ! p" if "(p, x) \<in> set (ms_log s)" for p x
  proof -
    have "p \<in> {p. p < ?k \<and> p < ms_cur s (p mod ?c)}" using L that unfolding log_ok_def by force
    moreover have "x = ms_vals s ! p" using L that by (auto simp: log_ok_def)
    ultimately show ?thesis using b by simp
  qed
  have cells: "mpmc_cell (ms_q s) w \<noteq> mpmc_cell (ms_q s) v"
    if ij: "i \<noteq> j" "claim (ms_pc s i) = Some w" "claim (ms_pc s j) = Some v" for i j w v
  proof -
    obtain b' where "awaits ?c (ms_cur s) (ms_filled s) b' (unat v)"
      using pc_ok_claim[OF inv_pc_ok[OF I, of j] ij(3) b(2)] .
    then have "unat v mod ?c \<noteq> unat w mod ?c" using other_cell[OF I ij(2), of j b' "unat v"] ij by simp
    then show ?thesis unfolding shared_cell[OF S] by simp
  qed
  have "distinct (map fst (ms_log s))" using L by (simp add: log_ok_def)
  moreover have "\<forall>(p, x)\<in>set (ms_log s). p < ?n \<and> x = ms_vals s ! p" using vals by auto
  ultimately show ?thesis using size cells by (intro conjI) auto
qed

text \<open>
  A ring of two cells: threads 0 and 1 claim, thread 0 publishes, thread 2 pops that element, and thread 0 claims
  the freed cell while thread 1 still has its own.
\<close>

definition mpmc_demo_queue :: "nat mpmc_queue" where
  "mpmc_demo_queue = \<lparr>mq_seq = [0, 1], mq_data = [0, 0], mq_cell_stride = 16, mq_capacity = 2, mq_mask = 1, mq_element_size = 8,
     mq_enqueue_pos = 0, mq_dequeue_pos = 0\<rparr>"

definition mpmc_demo :: "nat mpmc_action list" where
  "mpmc_demo = [M_push 0 5, M_push_step False 0, M_push_step False 0, M_push_step False 0, M_push 1 6, M_push_step False 1,
     M_push_step False 1, M_push_step True 1, M_push_step False 1, M_push_step False 1, M_push_step False 0, M_push_step False 0,
     M_pop 2, M_pop_step False 2, M_pop_step False 2, M_pop_step False 2, M_pop_step False 2, M_pop_step False 2,
     M_push 0 7, M_push_step False 0, M_push_step False 0, M_push_step False 0]"

lemma mpmc_demo_create: "lgx_mpmc_queue_create True True (\<lambda>c e. True) 0 2 8 = Inr mpmc_demo_queue"
proof -
  have "replicate 2 (0 :: nat) = [0, 0]" "[0..<2] = [0, 1]" by (simp_all add: numeral_2_eq_2 upt_rec)
  then show ?thesis by (simp add: lgx_mpmc_queue_create_def mpmc_demo_queue_def Let_def)
qed

lemma mpmc_demo_state:
  "\<exists>s. fold mpmc_act mpmc_demo (mpmc_start mpmc_demo_queue) = s \<and> ms_log s = [(0, 5)] \<and> ms_vals s = [5, 6, 7] \<and>
     ms_pc s 0 = E_copy 7 2 \<and> ms_pc s 1 = E_copy 6 1"
  by (simp add: mpmc_demo_def mpmc_start_def mpmc_demo_queue_def mpmc_push_step_def mpmc_pop_step_def mpmc_go_def mpmc_cell_def Let_def)

lemma mpmc_fold_reach:
  "mpmc_reach q s \<Longrightarrow> length (ms_vals s) + length as + unat (mq_capacity q) < 2 ^ 63 \<Longrightarrow> mpmc_reach q (fold mpmc_act as s)"
proof (induction as arbitrary: s)
  case (Cons a as)
  have "length (ms_vals (mpmc_act a s)) \<le> Suc (length (ms_vals s))"
    by (cases a) (auto simp: mpmc_push_step_def mpmc_pop_step_def Let_def split: mpmc_pc.split)
  then show ?case using Cons.IH[of "mpmc_act a s"] mpmc_then[OF Cons.prems(1)] Cons.prems(2) by simp
qed simp

lemma mpmc_exactly_once_witness:
  "\<exists>q s. lgx_mpmc_queue_create True True (\<lambda>c e. True) (0 :: nat) 2 8 = Inr q \<and> mpmc_reach q s \<and> ms_log s = [(0, 5)] \<and>
     ms_vals s = [5, 6, 7] \<and> claim (ms_pc s 0) = Some 2 \<and> claim (ms_pc s 1) = Some 1 \<and> mpmc_cell (ms_q s) 2 \<noteq> mpmc_cell (ms_q s) 1"
proof -
  let ?s = "fold mpmc_act mpmc_demo (mpmc_start mpmc_demo_queue)"
  have r: "mpmc_reach mpmc_demo_queue ?s"
    by (rule mpmc_fold_reach[OF mpmc_first]) (simp add: mpmc_start_def mpmc_demo_def mpmc_demo_queue_def)
  have st: "ms_log ?s = [(0, 5)]" "ms_vals ?s = [5, 6, 7]" "claim (ms_pc ?s 0) = Some 2" "claim (ms_pc ?s 1) = Some 1"
    using mpmc_demo_state by auto
  have "mpmc_cell (ms_q ?s) 2 \<noteq> mpmc_cell (ms_q ?s) 1"
    using mpmc_exactly_once[OF mpmc_demo_create _ _ r, THEN conjunct2, THEN conjunct2, THEN conjunct2, rule_format, of 0 1 2 1] st(3,4)
    by simp
  then show ?thesis using mpmc_demo_create r st by blast
qed

end
