(* ===== verification/Thread_Stack.thy ===== *)
theory Thread_Stack
  imports Thread_Base "HOL-Library.Multiset"
begin

text \<open>
  The lock-free stack of \<^verbatim>\<open>src/threading/lgx_threading.c\<close> (\<open>lgx_lfstack_*\<close>): nodes at addresses, a
  freed node's address may be handed out again. First the operations run alone, then their atomic steps in any
  interleaving; reading a freed node sets \<open>lf_bad\<close>.
\<close>

record 'a lf_node =
  nd_next :: "nat option"
  nd_data :: 'a

record 'a lfstack =
  lf_top :: "nat option"
  lf_tag :: u64
  lf_count :: u64
  lf_element_size :: u64
  lf_mem :: "nat \<Rightarrow> 'a lf_node option"
  lf_bad :: bool

definition lgx_lfstack_create :: "bool \<Rightarrow> bool \<Rightarrow> u64 \<Rightarrow> lgx_threading_error + 'a lfstack" where
  "lgx_lfstack_create out_nonnull calloc_ok element_size =
     (if \<not> out_nonnull \<or> element_size = 0 then Inl LGX_THREADING_ERROR_INVALID_PARAM
      else if \<not> calloc_ok then Inl LGX_THREADING_ERROR_OUT_OF_MEMORY
      else Inr \<lparr>lf_top = None, lf_tag = 0, lf_count = 0, lf_element_size = element_size, lf_mem = (\<lambda>_. None), lf_bad = False\<rparr>)"

section \<open>Run alone\<close>

text \<open>\<open>a\<close> is the address that \<open>malloc\<close> returns, if it does.\<close>

definition lgx_lfstack_push :: "nat option \<Rightarrow> 'a \<Rightarrow> 'a lfstack \<Rightarrow> lgx_threading_error \<times> 'a lfstack" where
  "lgx_lfstack_push a x s =
     (case a of
        None \<Rightarrow> (LGX_THREADING_ERROR_OUT_OF_MEMORY, s)
      | Some a \<Rightarrow> (LGX_THREADING_SUCCESS,
          s\<lparr>lf_mem := (lf_mem s)(a \<mapsto> \<lparr>nd_next = lf_top s, nd_data = x\<rparr>), lf_top := Some a, lf_tag := lf_tag s + 1, lf_count := lf_count s + 1\<rparr>))"

definition lgx_lfstack_pop :: "'a lfstack \<Rightarrow> lgx_threading_error \<times> 'a option \<times> 'a lfstack" where
  "lgx_lfstack_pop s =
     (case lf_top s of
        None \<Rightarrow> (LGX_THREADING_ERROR_QUEUE_EMPTY, None, s)
      | Some old_top \<Rightarrow>
          (case lf_mem s old_top of
             None \<Rightarrow> (LGX_THREADING_SUCCESS, None, s\<lparr>lf_bad := True\<rparr>)
           | Some nd \<Rightarrow> (LGX_THREADING_SUCCESS, Some (nd_data nd),
               s\<lparr>lf_top := nd_next nd, lf_tag := lf_tag s + 1, lf_count := lf_count s - 1, lf_mem := (lf_mem s)(old_top := None)\<rparr>)))"

definition lgx_lfstack_size :: "'a lfstack option \<Rightarrow> u64" where
  "lgx_lfstack_size s = (case s of None \<Rightarrow> 0 | Some s \<Rightarrow> lf_count s)"

text \<open>The nodes from the top on, that \<^verbatim>\<open>lgx_lfstack_destroy\<close> frees, and the state of memory after it.\<close>

partial_function (option) destroy_loop :: "nat option \<Rightarrow> 'a lfstack \<Rightarrow> 'a lfstack option" where
  "destroy_loop node s =
     (case node of
        None \<Rightarrow> Some s
      | Some a \<Rightarrow>
          (case lf_mem s a of
             None \<Rightarrow> Some (s\<lparr>lf_bad := True\<rparr>)
           | Some nd \<Rightarrow> destroy_loop (nd_next nd) (s\<lparr>lf_mem := (lf_mem s)(a := None)\<rparr>)))"

definition lgx_lfstack_destroy :: "'a lfstack \<Rightarrow> 'a lfstack option" where
  "lgx_lfstack_destroy s = destroy_loop (lf_top s) s"

definition node_next :: "'a lfstack \<Rightarrow> nat \<Rightarrow> nat option" where
  "node_next s a = (case lf_mem s a of None \<Rightarrow> None | Some nd \<Rightarrow> nd_next nd)"

text \<open>\<open>as\<close> are the addresses of the nodes, from the top.\<close>

definition stack_at :: "'a lfstack \<Rightarrow> nat list \<Rightarrow> bool" where
  "stack_at s as \<longleftrightarrow> linked (node_next s) (lf_top s) as \<and> (\<forall>a\<in>set as. lf_mem s a \<noteq> None)"

definition elements :: "'a lfstack \<Rightarrow> nat list \<Rightarrow> 'a list" where
  "elements s as = map (\<lambda>a. nd_data (the (lf_mem s a))) as"

lemma node_next_upd: "a \<notin> set as \<Longrightarrow> linked (node_next (s\<lparr>lf_mem := (lf_mem s)(a := m)\<rparr>)) p as = linked (node_next s) p as"
  by (rule linked_cong) (auto simp: node_next_def)

lemma node_next_mem: "lf_mem s' = lf_mem s \<Longrightarrow> node_next s' = node_next s"
  by (auto simp: node_next_def)

lemma stack_push:
  assumes s: "stack_at s as" and a: "lf_mem s a = None"
  shows "\<exists>s'. lgx_lfstack_push (Some a) x s = (LGX_THREADING_SUCCESS, s') \<and> stack_at s' (a # as) \<and>
    elements s' (a # as) = x # elements s as \<and> lf_count s' = lf_count s + 1 \<and> lf_bad s' = lf_bad s"
proof -
  have n: "a \<notin> set as" using s a by (auto simp: stack_at_def)
  let ?s = "snd (lgx_lfstack_push (Some a) x s)"
  have "linked (node_next ?s) (lf_top s) as = linked (node_next s) (lf_top s) as"
    by (rule linked_cong) (use n in \<open>auto simp: node_next_def lgx_lfstack_push_def\<close>)
  then have "stack_at ?s (a # as)" using s n by (auto simp: stack_at_def lgx_lfstack_push_def node_next_def)
  moreover have "elements ?s (a # as) = x # elements s as" using n by (auto simp: elements_def lgx_lfstack_push_def)
  ultimately show ?thesis by (auto simp: lgx_lfstack_push_def)
qed

lemma stack_pop:
  assumes s: "stack_at s (a # as)"
  shows "\<exists>s'. lgx_lfstack_pop s = (LGX_THREADING_SUCCESS, Some (hd (elements s (a # as))), s') \<and> stack_at s' as \<and>
    elements s' as = elements s as \<and> lf_count s' = lf_count s - 1 \<and> lf_mem s' a = None \<and> lf_bad s' = lf_bad s"
proof -
  obtain nd where nd: "lf_mem s a = Some nd" "lf_top s = Some a" "linked (node_next s) (nd_next nd) as"
    using s by (auto simp: stack_at_def node_next_def[of s a])
  have n: "a \<notin> set as" using linked_distinct[of "node_next s" "lf_top s" "a # as"] s by (auto simp: stack_at_def)
  let ?s = "snd (snd (lgx_lfstack_pop s))"
  have "linked (node_next ?s) (nd_next nd) as = linked (node_next s) (nd_next nd) as"
    by (rule linked_cong) (use n nd in \<open>auto simp: node_next_def lgx_lfstack_pop_def\<close>)
  then have "stack_at ?s as" using s n nd by (auto simp: stack_at_def lgx_lfstack_pop_def)
  moreover have "elements ?s as = elements s as" using n nd by (auto simp: elements_def lgx_lfstack_pop_def)
  ultimately show ?thesis using nd by (auto simp: lgx_lfstack_pop_def elements_def)
qed

lemma destroy_frees: "linked (node_next s) p as \<Longrightarrow> \<forall>a\<in>set as. lf_mem s a \<noteq> None \<Longrightarrow>
   \<exists>s'. destroy_loop p s = Some s' \<and> lf_mem s' = (\<lambda>a. if a \<in> set as then None else lf_mem s a) \<and> lf_bad s' = lf_bad s"
proof (induction as arbitrary: p s)
  case Nil
  then show ?case by (subst destroy_loop.simps) simp
next
  case (Cons a as)
  obtain nd where nd: "lf_mem s a = Some nd" "p = Some a" "linked (node_next s) (nd_next nd) as"
    using Cons.prems by (auto simp: node_next_def[of s a])
  have n: "a \<notin> set as" using linked_distinct[OF Cons.prems(1)] by simp
  let ?s = "s\<lparr>lf_mem := (lf_mem s)(a := None)\<rparr>"
  have "linked (node_next ?s) (nd_next nd) as" using node_next_upd[OF n, of s None] nd(3) by simp
  moreover have "\<forall>b\<in>set as. lf_mem ?s b \<noteq> None" using Cons.prems(2) n by auto
  ultimately obtain s' where s': "destroy_loop (nd_next nd) ?s = Some s'"
      "lf_mem s' = (\<lambda>b. if b \<in> set as then None else lf_mem ?s b)" "lf_bad s' = lf_bad ?s"
    using Cons.IH[of ?s "nd_next nd"] by blast
  then have "destroy_loop p s = Some s'" using nd by (subst destroy_loop.simps) simp
  then show ?case using s' by (auto simp: fun_eq_iff)
qed

section \<open>Steps\<close>

text \<open>
  The states of a thread, named after its next access. \<open>lt_pushed\<close> and \<open>lt_popped\<close> record the elements
  that entered the stack and those that pops returned.
\<close>

datatype 'a lf_pc =
    L_idle | L_load nat 'a | L_cas nat 'a "nat option" | L_tag
  | L_pop_load | L_pop_next nat | L_pop_cas nat "nat option" | L_pop_free nat

record 'a lf_state =
  lt_stack :: "'a lfstack"
  lt_pc :: "nat \<Rightarrow> 'a lf_pc"
  lt_pushed :: "'a list"
  lt_popped :: "'a list"

definition lf_go :: "nat \<Rightarrow> 'a lf_pc \<Rightarrow> 'a lf_state \<Rightarrow> 'a lf_state" where
  "lf_go i c s = s\<lparr>lt_pc := (lt_pc s)(i := c)\<rparr>"

text \<open>The call of a push: \<open>malloc\<close> has returned \<open>a\<close> and the element is copied into the node.\<close>

definition lfstack_push_call :: "nat \<Rightarrow> nat \<Rightarrow> 'a \<Rightarrow> 'a lf_state \<Rightarrow> 'a lf_state" where
  "lfstack_push_call i a x s =
     lf_go i (L_load a x) (s\<lparr>lt_stack := (lt_stack s)\<lparr>lf_mem := (lf_mem (lt_stack s))(a \<mapsto> \<lparr>nd_next = None, nd_data = x\<rparr>)\<rparr>\<rparr>)"

definition lfstack_push_step :: "bool \<Rightarrow> nat \<Rightarrow> 'a lf_state \<Rightarrow> 'a lf_state" where
  "lfstack_push_step weak_fails i s =
     (let st = lt_stack s in
      case lt_pc s i of
        L_load a x \<Rightarrow>
          lf_go i (L_cas a x (lf_top st)) (s\<lparr>lt_stack := st\<lparr>lf_mem := (lf_mem st)(a \<mapsto> \<lparr>nd_next = lf_top st, nd_data = x\<rparr>)\<rparr>\<rparr>)
      | L_cas a x old_top \<Rightarrow>
          if lf_top st = old_top \<and> \<not> weak_fails then
            lf_go i L_tag (s\<lparr>lt_stack := st\<lparr>lf_top := Some a\<rparr>, lt_pushed := x # lt_pushed s\<rparr>)
          else lf_go i (L_load a x) s
      | L_tag \<Rightarrow> lf_go i L_idle (s\<lparr>lt_stack := st\<lparr>lf_tag := lf_tag st + 1, lf_count := lf_count st + 1\<rparr>\<rparr>)
      | _ \<Rightarrow> s)"

definition lfstack_pop_step :: "bool \<Rightarrow> nat \<Rightarrow> 'a lf_state \<Rightarrow> 'a lf_state" where
  "lfstack_pop_step weak_fails i s =
     (let st = lt_stack s in
      case lt_pc s i of
        L_pop_load \<Rightarrow> (case lf_top st of None \<Rightarrow> lf_go i L_idle s | Some a \<Rightarrow> lf_go i (L_pop_next a) s)
      | L_pop_next old_top \<Rightarrow>
          (case lf_mem st old_top of
             None \<Rightarrow> lf_go i (L_pop_cas old_top None) (s\<lparr>lt_stack := st\<lparr>lf_bad := True\<rparr>\<rparr>)
           | Some nd \<Rightarrow> lf_go i (L_pop_cas old_top (nd_next nd)) s)
      | L_pop_cas old_top new_top \<Rightarrow>
          if lf_top st = Some old_top \<and> \<not> weak_fails then lf_go i (L_pop_free old_top) (s\<lparr>lt_stack := st\<lparr>lf_top := new_top\<rparr>\<rparr>)
          else lf_go i L_pop_load s
      | L_pop_free old_top \<Rightarrow>
          lf_go i L_idle
            (case lf_mem st old_top of
               None \<Rightarrow> s\<lparr>lt_stack := st\<lparr>lf_bad := True\<rparr>\<rparr>
             | Some nd \<Rightarrow>
                 s\<lparr>lt_stack := st\<lparr>lf_tag := lf_tag st + 1, lf_count := lf_count st - 1, lf_mem := (lf_mem st)(old_top := None)\<rparr>,
                   lt_popped := nd_data nd # lt_popped s\<rparr>)
      | _ \<Rightarrow> s)"

datatype 'a lf_action = Lf_push nat nat 'a | Lf_pop nat | Lf_push_step bool nat | Lf_pop_step bool nat

text \<open>\<open>malloc\<close> returns an address that is not allocated.\<close>

definition lf_act :: "'a lf_action \<Rightarrow> 'a lf_state \<Rightarrow> 'a lf_state option" where
  "lf_act act s =
     (case act of
        Lf_push i a x \<Rightarrow> if lt_pc s i = L_idle \<and> lf_mem (lt_stack s) a = None then Some (lfstack_push_call i a x s) else None
      | Lf_pop i \<Rightarrow> if lt_pc s i = L_idle then Some (lf_go i L_pop_load s) else None
      | Lf_push_step w i \<Rightarrow> Some (lfstack_push_step w i s)
      | Lf_pop_step w i \<Rightarrow> Some (lfstack_pop_step w i s))"

definition lf_start :: "'a lfstack \<Rightarrow> 'a lf_state" where
  "lf_start st = \<lparr>lt_stack = st, lt_pc = (\<lambda>_. L_idle), lt_pushed = [], lt_popped = []\<rparr>"

text \<open>The runs in which only the threads in \<open>P\<close> pop.\<close>

inductive lf_reach :: "nat set \<Rightarrow> 'a lfstack \<Rightarrow> 'a lf_state \<Rightarrow> bool" for P st where
  lf_first: "lf_reach P st (lf_start st)"
| lf_then: "lf_reach P st s \<Longrightarrow> lf_act a s = Some s' \<Longrightarrow> (\<And>i. a = Lf_pop i \<Longrightarrow> i \<in> P) \<Longrightarrow> lf_reach P st s'"

fun lf_exec :: "'a lf_action list \<Rightarrow> 'a lf_state \<Rightarrow> 'a lf_state option" where
  "lf_exec [] s = Some s"
| "lf_exec (a # as) s = Option.bind (lf_act a s) (lf_exec as)"

lemma lf_exec_reach:
  "lf_reach P st s \<Longrightarrow> lf_exec as s = Some s' \<Longrightarrow> \<forall>i. Lf_pop i \<in> set as \<longrightarrow> i \<in> P \<Longrightarrow> lf_reach P st s'"
proof (induction as arbitrary: s)
  case (Cons a as)
  then obtain s1 where "lf_act a s = Some s1" "lf_exec as s1 = Some s'" by (auto simp: bind_eq_Some_conv)
  then show ?case using Cons.IH[of s1] Cons.prems lf_then[OF Cons.prems(1), of a s1] by auto
qed simp

section \<open>Two threads that pop\<close>

text \<open>
  Thread 0 reads the top node and its successor; thread 1 pops both and pushes again, and gets the address of the
  first node back; thread 0's compare-and-swap succeeds and makes the freed second node the top.
\<close>

definition aba_run :: "nat lf_action list" where
  "aba_run =
     [Lf_push 1 200 7, Lf_push_step False 1, Lf_push_step False 1, Lf_push_step False 1,
      Lf_push 1 100 8, Lf_push_step False 1, Lf_push_step False 1, Lf_push_step False 1,
      Lf_pop 0, Lf_pop_step False 0, Lf_pop_step False 0,
      Lf_pop 1, Lf_pop_step False 1, Lf_pop_step False 1, Lf_pop_step False 1, Lf_pop_step False 1,
      Lf_pop 1, Lf_pop_step False 1, Lf_pop_step False 1, Lf_pop_step False 1, Lf_pop_step False 1,
      Lf_push 1 100 9, Lf_push_step False 1, Lf_push_step False 1, Lf_push_step False 1,
      Lf_pop_step False 0, Lf_pop_step False 0]"

lemmas lf_eval = lf_start_def lf_act_def lfstack_push_call_def lfstack_push_step_def lfstack_pop_step_def lf_go_def Let_def

text \<open>
  The lock-free stack is open to the ABA problem: its tag is counted but never compared. With two popping
  threads there is a run after which the top of the stack is a node that has been freed, while the stack should
  be empty; the next pop reads freed memory.
\<close>
theorem lfstack_aba:
  "\<exists>st s. lgx_lfstack_create True True 8 = Inr (st :: nat lfstack) \<and> lf_reach {0, 1} st s \<and>
     lt_popped s = [9, 7, 8] \<and> lt_pushed s = [9, 8, 7] \<and> lf_top (lt_stack s) = Some 200 \<and> lf_mem (lt_stack s) 200 = None \<and>
     \<not> lf_bad (lt_stack s) \<and> lf_bad (lt_stack (lfstack_pop_step False 0 (lfstack_pop_step False 0 (lf_go 0 L_pop_load s))))"
proof -
  obtain st :: "nat lfstack" where st: "lgx_lfstack_create True True 8 = Inr st"
    and e: "st = \<lparr>lf_top = None, lf_tag = 0, lf_count = 0, lf_element_size = 8, lf_mem = (\<lambda>_. None), lf_bad = False\<rparr>"
    by (simp add: lgx_lfstack_create_def)
  obtain s where s: "lf_exec aba_run (lf_start st) = Some s" "lt_popped s = [9, 7, 8]" "lt_pushed s = [9, 8, 7]"
      "lf_top (lt_stack s) = Some 200" "lf_mem (lt_stack s) 200 = None" "\<not> lf_bad (lt_stack s)"
    by (simp add: e aba_run_def lf_eval)
  have "lf_reach {0, 1} st s" by (rule lf_exec_reach[OF lf_first s(1)]) (simp add: aba_run_def)
  moreover have "lf_bad (lt_stack (lfstack_pop_step False 0 (lfstack_pop_step False 0 (lf_go 0 L_pop_load s))))"
    using s(4,5) by (simp add: lfstack_pop_step_def lf_go_def)
  ultimately show ?thesis using st s by blast
qed

section \<open>One thread that pops\<close>

text \<open>The node a thread has to itself, and what it knows.\<close>

fun owned :: "'a lf_pc \<Rightarrow> nat option" where
  "owned (L_load a x) = Some a"
| "owned (L_cas a x t) = Some a"
| "owned (L_pop_free a) = Some a"
| "owned _ = None"

fun lf_pc_ok :: "'a lfstack \<Rightarrow> nat list \<Rightarrow> 'a lf_pc \<Rightarrow> bool" where
  "lf_pc_ok st as (L_load a x) \<longleftrightarrow> (\<exists>nd. lf_mem st a = Some nd)"
| "lf_pc_ok st as (L_cas a x t) \<longleftrightarrow> lf_mem st a = Some \<lparr>nd_next = t, nd_data = x\<rparr>"
| "lf_pc_ok st as (L_pop_next a) \<longleftrightarrow> a \<in> set as"
| "lf_pc_ok st as (L_pop_cas a t) \<longleftrightarrow> a \<in> set as \<and> node_next st a = t"
| "lf_pc_ok st as (L_pop_free a) \<longleftrightarrow> (\<exists>nd. lf_mem st a = Some nd)"
| "lf_pc_ok st as _ \<longleftrightarrow> True"

definition pops :: "'a lf_pc \<Rightarrow> bool" where
  "pops c \<longleftrightarrow> c = L_pop_load \<or> (\<exists>a. c = L_pop_next a) \<or> (\<exists>a t. c = L_pop_cas a t) \<or> (\<exists>a. c = L_pop_free a)"

definition in_hand :: "'a lfstack \<Rightarrow> 'a lf_pc \<Rightarrow> 'a multiset" where
  "in_hand st c = (case c of L_pop_free a \<Rightarrow> {#nd_data (the (lf_mem st a))#} | _ \<Rightarrow> {#})"

definition one_owner :: "(nat \<Rightarrow> 'a lf_pc) \<Rightarrow> bool" where
  "one_owner pc \<longleftrightarrow> (\<forall>i j a. owned (pc i) = Some a \<and> owned (pc j) = Some a \<longrightarrow> i = j)"

definition lf_inv :: "nat \<Rightarrow> 'a lf_state \<Rightarrow> nat list \<Rightarrow> bool" where
  "lf_inv p s as \<longleftrightarrow> stack_at (lt_stack s) as \<and> \<not> lf_bad (lt_stack s) \<and> (\<forall>i. lf_pc_ok (lt_stack s) as (lt_pc s i)) \<and>
     (\<forall>i. pops (lt_pc s i) \<longrightarrow> i = p) \<and> (\<forall>i a. owned (lt_pc s i) = Some a \<longrightarrow> a \<notin> set as) \<and>
     one_owner (lt_pc s) \<and>
     mset (lt_pushed s) = mset (elements (lt_stack s) as) + mset (lt_popped s) + in_hand (lt_stack s) (lt_pc s p)"

lemma lf_invI:
  assumes "stack_at (lt_stack s) as" "\<not> lf_bad (lt_stack s)" "\<And>k. lf_pc_ok (lt_stack s) as (lt_pc s k)" "\<forall>k. pops (lt_pc s k) \<longrightarrow> k = p"
    "\<forall>k a. owned (lt_pc s k) = Some a \<longrightarrow> a \<notin> set as" "one_owner (lt_pc s)"
    "mset (lt_pushed s) = mset (elements (lt_stack s) as) + mset (lt_popped s) + in_hand (lt_stack s) (lt_pc s p)"
  shows "lf_inv p s as"
  using assms unfolding lf_inv_def by blast

lemma lf_go_fields [simp]:
  "lt_stack (lf_go i c s) = lt_stack s" "lt_pc (lf_go i c s) = (lt_pc s)(i := c)" "lt_pushed (lf_go i c s) = lt_pushed s"
  "lt_popped (lf_go i c s) = lt_popped s"
  by (simp_all add: lf_go_def)

lemma owned_upd:
  assumes "one_owner pc" "\<And>a. owned c = Some a \<Longrightarrow> \<forall>j. j \<noteq> i \<longrightarrow> owned (pc j) \<noteq> Some a"
  shows "one_owner (pc(i := c))"
  using assms unfolding one_owner_def by (metis fun_upd_apply)

text \<open>A thread moves on, keeps or gives up its node, and nothing else changes.\<close>

lemma lf_move:
  assumes I: "lf_inv p s as" and c: "lf_pc_ok (lt_stack s) as c" "pops c \<Longrightarrow> i = p" "owned c = None \<or> owned c = owned (lt_pc s i)"
    and h: "in_hand (lt_stack s) c = {#}" "in_hand (lt_stack s) (lt_pc s i) = {#}"
  shows "lf_inv p (lf_go i c s) as"
proof -
  have "one_owner (lt_pc s)" using I by (simp add: lf_inv_def)
  then have o: "one_owner ((lt_pc s)(i := c))"
    by (rule owned_upd) (use \<open>one_owner (lt_pc s)\<close> c(3) in \<open>unfold one_owner_def, metis option.distinct(1)\<close>)
  have "\<forall>k a. owned (((lt_pc s)(i := c)) k) = Some a \<longrightarrow> a \<notin> set as" using I c(3) by (auto simp: lf_inv_def)
  moreover have "in_hand (lt_stack s) (((lt_pc s)(i := c)) p) = in_hand (lt_stack s) (lt_pc s p)" using h by (cases "i = p") simp_all
  ultimately show ?thesis using o I c(1,2) by (intro lf_invI) (simp_all add: lf_inv_def)
qed

text \<open>The memory of a node outside the stack, that no other thread has, changes.\<close>

lemma lf_other_mem:
  assumes "lf_pc_ok st as c" "owned c \<noteq> Some a" "a \<notin> set as" "lf_mem st' = (lf_mem st)(a := m)"
  shows "lf_pc_ok st' as c"
  using assms by (cases c) (auto simp: node_next_def)

lemma lf_outside:
  assumes s: "stack_at st as" and a: "a \<notin> set as" and m: "lf_mem st' = (lf_mem st)(a := m)" "lf_top st' = lf_top st"
  shows "stack_at st' as \<and> elements st' as = elements st as"
proof -
  have "linked (node_next st') (lf_top st) as = linked (node_next st) (lf_top st) as"
    by (rule linked_cong) (use a m in \<open>auto simp: node_next_def\<close>)
  then show ?thesis using s a m by (auto simp: stack_at_def elements_def)
qed

lemma lf_node_step:
  assumes I: "lf_inv p s as" and a: "a \<notin> set as" "\<And>j. j \<noteq> i \<Longrightarrow> owned (lt_pc s j) \<noteq> Some a"
    and st: "lf_mem st' = (lf_mem (lt_stack s))(a := m)" "lf_top st' = lf_top (lt_stack s)" "lf_bad st' = lf_bad (lt_stack s)"
    and c: "lf_pc_ok st' as c" "pops c \<Longrightarrow> i = p" "owned c = None \<or> owned c = Some a"
    and m: "mset (lt_popped s') + in_hand st' c = mset (lt_popped s) + in_hand (lt_stack s) (lt_pc s i)"
    and s': "lt_stack s' = st'" "lt_pc s' = (lt_pc s)(i := c)" "lt_pushed s' = lt_pushed s" "i \<noteq> p \<Longrightarrow> lt_popped s' = lt_popped s"
  shows "lf_inv p s' as"
proof -
  have pc: "lf_pc_ok st' as (((lt_pc s)(i := c)) k)" for k
    using I c(1) lf_other_mem[OF _ a(2) a(1) st(1)] by (cases "k = i") (auto simp: lf_inv_def)
  have o: "one_owner ((lt_pc s)(i := c))"
    by (rule owned_upd) (use I c(3) a in \<open>auto simp: lf_inv_def\<close>)
  have no: "\<forall>k b. owned (((lt_pc s)(i := c)) k) = Some b \<longrightarrow> b \<notin> set as" using I c(3) a(1) by (auto simp: lf_inv_def)
  have p: "\<forall>k. pops (((lt_pc s)(i := c)) k) \<longrightarrow> k = p" using I c(2) by (auto simp: lf_inv_def)
  have f: "stack_at st' as" "elements st' as = elements (lt_stack s) as"
    using lf_outside[OF _ a(1) st(1,2)] I by (auto simp: lf_inv_def)
  have hand: "in_hand st' (lt_pc s p) = in_hand (lt_stack s) (lt_pc s p)" if "i \<noteq> p"
    using a(2)[of p] that st(1) by (cases "lt_pc s p") (auto simp: in_hand_def)
  have "mset (lt_popped s') + in_hand st' (((lt_pc s)(i := c)) p) = mset (lt_popped s) + in_hand (lt_stack s) (lt_pc s p)"
    using m hand s'(4) by (cases "i = p") auto
  then have "mset (lt_pushed s) = mset (elements st' as) + mset (lt_popped s') + in_hand st' (((lt_pc s)(i := c)) p)"
    using I f(2) by (simp add: lf_inv_def ac_simps)
  then show ?thesis using I pc o no p f(1) st(3) unfolding lf_inv_def s' by blast
qed

lemma lf_owned_mem: "lf_inv p s as \<Longrightarrow> owned (lt_pc s j) = Some a \<Longrightarrow> lf_mem (lt_stack s) a \<noteq> None"
proof -
  assume I: "lf_inv p s as" and o: "owned (lt_pc s j) = Some a"
  have "lf_pc_ok (lt_stack s) as (lt_pc s j)" using I by (simp add: lf_inv_def)
  then show ?thesis using o by (cases "lt_pc s j") auto
qed

lemma lf_owned_out: "lf_inv p s as \<Longrightarrow> owned (lt_pc s i) = Some a \<Longrightarrow> a \<notin> set as"
  unfolding lf_inv_def by blast

lemma lf_owned_other: "lf_inv p s as \<Longrightarrow> owned (lt_pc s i) = Some a \<Longrightarrow> j \<noteq> i \<Longrightarrow> owned (lt_pc s j) \<noteq> Some a"
  unfolding lf_inv_def one_owner_def by blast

lemma lf_counts: "lf_inv p (s\<lparr>lt_stack := (lt_stack s)\<lparr>lf_tag := t, lf_count := n\<rparr>\<rparr>) as = lf_inv p s as"
proof -
  let ?st = "(lt_stack s)\<lparr>lf_tag := t, lf_count := n\<rparr>"
  have nx: "node_next ?st = node_next (lt_stack s)" by (rule node_next_mem) simp
  have "lf_pc_ok ?st as c = lf_pc_ok (lt_stack s) as c" for c by (cases c) (simp_all add: nx)
  moreover have "in_hand ?st c = in_hand (lt_stack s) c" for c by (simp add: in_hand_def split: lf_pc.split)
  ultimately show ?thesis by (simp add: lf_inv_def stack_at_def elements_def nx)
qed

lemma lf_push_keeps:
  assumes I: "lf_inv p s as"
  shows "\<exists>as'. lf_inv p (lfstack_push_step weak i s) as'"
proof (cases "lt_pc s i")
  case (L_load a x)
  have a: "a \<notin> set as" using lf_owned_out[OF I, of i a] L_load by simp
  have "lf_inv p (lfstack_push_step weak i s) as"
    by (rule lf_node_step[OF I a, of i _ _ "L_cas a x (lf_top (lt_stack s))"])
      (use lf_owned_other[OF I, of i a] L_load in \<open>auto simp: lfstack_push_step_def Let_def in_hand_def pops_def\<close>)
  then show ?thesis ..
next
  case (L_cas a x t)
  show ?thesis
  proof (cases "lf_top (lt_stack s) = t \<and> \<not> weak")
    case True
    let ?st = "(lt_stack s)\<lparr>lf_top := Some a\<rparr>"
    have P: "\<And>k. lf_pc_ok (lt_stack s) as (lt_pc s k)" using I by (simp add: lf_inv_def)
    have nd: "lf_mem (lt_stack s) a = Some \<lparr>nd_next = t, nd_data = x\<rparr>" using P[of i] L_cas by simp
    have nx: "node_next ?st = node_next (lt_stack s)" by (rule node_next_mem) simp
    have "stack_at ?st (a # as)" using I True nd by (simp add: lf_inv_def stack_at_def nx) (simp add: node_next_def)
    moreover have "lf_pc_ok ?st (a # as) (((lt_pc s)(i := L_tag)) k)" for k using P[of k] by (cases "lt_pc s k") (auto simp: nx)
    moreover have "\<forall>k b. owned (((lt_pc s)(i := L_tag)) k) = Some b \<longrightarrow> b \<notin> set (a # as)"
      using I lf_owned_other[OF I, of i a] L_cas by (auto simp: lf_inv_def)
    moreover have "one_owner ((lt_pc s)(i := L_tag))"
      by (rule owned_upd) (use I in \<open>auto simp: lf_inv_def\<close>)
    moreover have "elements ?st (a # as) = x # elements (lt_stack s) as" using nd by (simp add: elements_def)
    moreover have "in_hand ?st (((lt_pc s)(i := L_tag)) p) = in_hand (lt_stack s) (lt_pc s p)"
      using L_cas by (auto simp: in_hand_def split: lf_pc.split)
    ultimately have "lf_inv p (lfstack_push_step weak i s) (a # as)"
      using I L_cas True by (simp add: lf_inv_def lfstack_push_step_def pops_def)
    then show ?thesis ..
  next
    case False
    have "lf_inv p (lf_go i (L_load a x) s) as"
      by (rule lf_move[OF I]) (use I L_cas lf_owned_mem[OF I, of i a] in \<open>auto simp: in_hand_def pops_def\<close>)
    then show ?thesis using False L_cas by (auto simp: lfstack_push_step_def Let_def)
  qed
next
  case L_tag
  let ?s = "s\<lparr>lt_stack := (lt_stack s)\<lparr>lf_tag := lf_tag (lt_stack s) + 1, lf_count := lf_count (lt_stack s) + 1\<rparr>\<rparr>"
  have "lf_inv p ?s as" using I unfolding lf_counts .
  then have "lf_inv p (lf_go i L_idle ?s) as" by (rule lf_move) (use L_tag in \<open>auto simp: in_hand_def pops_def\<close>)
  then show ?thesis using L_tag by (auto simp: lfstack_push_step_def Let_def)
qed (use I in \<open>auto simp: lfstack_push_step_def\<close>)

lemma lf_pop_keeps:
  assumes I: "lf_inv p s as"
  shows "\<exists>as'. lf_inv p (lfstack_pop_step weak i s) as'"
proof -
  have S: "stack_at (lt_stack s) as" and P: "\<And>k. lf_pc_ok (lt_stack s) as (lt_pc s k)" and own: "\<And>k. pops (lt_pc s k) \<Longrightarrow> k = p"
    using I by (auto simp: lf_inv_def)
  show ?thesis
  proof (cases "lt_pc s i")
    case L_pop_load
    then have ip: "i = p" using own[of i] by (simp add: pops_def)
    have "lf_inv p (lf_go i L_idle s) as" by (rule lf_move[OF I]) (use L_pop_load in \<open>auto simp: in_hand_def pops_def\<close>)
    moreover have "lf_inv p (lf_go i (L_pop_next a) s) as" if "lf_top (lt_stack s) = Some a" for a
    proof (rule lf_move[OF I])
      show "lf_pc_ok (lt_stack s) as (L_pop_next a)" using S that by (cases as) (auto simp: stack_at_def)
    qed (use L_pop_load ip in \<open>auto simp: in_hand_def\<close>)
    ultimately show ?thesis using L_pop_load by (auto simp: lfstack_pop_step_def split: option.split)
  next
    case (L_pop_next a)
    then have ip: "i = p" using own[of i] by (simp add: pops_def)
    have a: "a \<in> set as" using P[of i] L_pop_next by simp
    then obtain nd where nd: "lf_mem (lt_stack s) a = Some nd" using S by (auto simp: stack_at_def)
    have "lf_inv p (lf_go i (L_pop_cas a (nd_next nd)) s) as"
      by (rule lf_move[OF I]) (use a nd ip L_pop_next in \<open>auto simp: in_hand_def node_next_def\<close>)
    then show ?thesis using L_pop_next nd by (auto simp: lfstack_pop_step_def)
  next
    case (L_pop_cas a t)
    then have ip: "i = p" using own[of i] by (simp add: pops_def)
    have a: "a \<in> set as" "node_next (lt_stack s) a = t" using P[of i] L_pop_cas by auto
    show ?thesis
    proof (cases "lf_top (lt_stack s) = Some a \<and> \<not> weak")
      case True
      then obtain as' where as: "as = a # as'" "linked (node_next (lt_stack s)) t as'" using S a(2) by (auto simp: stack_at_def linked_Some)
      have na: "a \<notin> set as'" using linked_distinct[of "node_next (lt_stack s)" "lf_top (lt_stack s)" as] S as(1) by (auto simp: stack_at_def)
      let ?st = "(lt_stack s)\<lparr>lf_top := t\<rparr>" and ?c = "L_pop_free a"
      have nx: "node_next ?st = node_next (lt_stack s)" by (rule node_next_mem) simp
      have S': "stack_at ?st as'" using S as by (auto simp: stack_at_def nx)
      obtain nd where nd: "lf_mem (lt_stack s) a = Some nd" using S as(1) by (auto simp: stack_at_def)
      have "\<not> pops (lt_pc s k)" if "k \<noteq> i" for k using own[of k] that ip by auto
      then have pc: "lf_pc_ok ?st as' (((lt_pc s)(i := ?c)) k)" for k
        using P[of k] nd by (cases "k = i"; cases "lt_pc s k") (auto simp: nx pops_def)
      have free: "owned (lt_pc s k) \<noteq> Some a" for k using I as(1) unfolding lf_inv_def by auto
      have o: "one_owner ((lt_pc s)(i := ?c))"
        by (rule owned_upd) (use I free in \<open>auto simp: lf_inv_def\<close>)
      have no: "\<forall>k b. owned (((lt_pc s)(i := ?c)) k) = Some b \<longrightarrow> b \<notin> set as'" using I na as(1) by (auto simp: lf_inv_def)
      have "elements (lt_stack s) as = nd_data nd # elements ?st as'" using nd as(1) by (simp add: elements_def)
      then have mm: "mset (lt_pushed s) = mset (elements ?st as') + mset (lt_popped s) + in_hand ?st ?c"
        using I L_pop_cas nd unfolding ip by (simp add: lf_inv_def in_hand_def)
      let ?s = "lf_go i ?c (s\<lparr>lt_stack := ?st\<rparr>)"
      have "lf_inv p ?s as'"
      proof (rule lf_invI)
        show "stack_at (lt_stack ?s) as'" using S' by simp
        show "\<not> lf_bad (lt_stack ?s)" using I by (simp add: lf_inv_def)
        show "lf_pc_ok (lt_stack ?s) as' (lt_pc ?s k)" for k using pc[of k] by simp
        show "\<forall>k. pops (lt_pc ?s k) \<longrightarrow> k = p" using own ip by simp
        show "\<forall>k a. owned (lt_pc ?s k) = Some a \<longrightarrow> a \<notin> set as'" using no by simp
        show "one_owner (lt_pc ?s)" using o by simp
        show "mset (lt_pushed ?s) = mset (elements (lt_stack ?s) as') + mset (lt_popped ?s) + in_hand (lt_stack ?s) (lt_pc ?s p)"
          using mm by (simp add: ip)
      qed
      then show ?thesis using True L_pop_cas by (auto simp: lfstack_pop_step_def Let_def)
    next
      case False
      have "lf_inv p (lf_go i L_pop_load s) as" by (rule lf_move[OF I]) (use L_pop_cas ip in \<open>auto simp: in_hand_def\<close>)
      then show ?thesis using False L_pop_cas by (auto simp: lfstack_pop_step_def Let_def)
    qed
  next
    case (L_pop_free a)
    then have ip: "i = p" using own[of i] by (simp add: pops_def)
    obtain nd where nd: "lf_mem (lt_stack s) a = Some nd" using P[of i] L_pop_free by auto
    have a: "a \<notin> set as" using lf_owned_out[OF I, of i a] L_pop_free by simp
    have "lf_inv p (lfstack_pop_step weak i s) as"
      by (rule lf_node_step[OF I a, of i _ _ L_idle])
        (use lf_owned_other[OF I, of i a] L_pop_free nd ip in \<open>auto simp: lfstack_pop_step_def Let_def in_hand_def pops_def\<close>)
    then show ?thesis ..
  qed (use I in \<open>auto simp: lfstack_pop_step_def\<close>)
qed

lemma lf_call_keeps:
  assumes I: "lf_inv p s as" and i: "lt_pc s i = L_idle" and a: "lf_mem (lt_stack s) a = None"
  shows "lf_inv p (lfstack_push_call i a x s) as"
proof (rule lf_node_step[OF I])
  show "a \<notin> set as" using I a unfolding lf_inv_def stack_at_def by blast
  show "owned (lt_pc s j) \<noteq> Some a" for j using lf_owned_mem[OF I, of j a] a by blast
qed (use i in \<open>auto simp: lfstack_push_call_def in_hand_def pops_def\<close>)

lemma lf_reach_inv:
  assumes c: "lgx_lfstack_create True True es = Inr st" and r: "lf_reach {p} st s"
  shows "\<exists>as. lf_inv p s as"
  using r
proof (induction rule: lf_reach.induct)
  case lf_first
  have "lf_inv p (lf_start st) []"
    using c by (auto simp: lf_inv_def lf_start_def lgx_lfstack_create_def stack_at_def pops_def one_owner_def elements_def in_hand_def split: if_splits)
  then show ?case ..
next
  case (lf_then s a s')
  then obtain as where I: "lf_inv p s as" by blast
  show ?case
  proof (cases a)
    case (Lf_push i b x)
    then show ?thesis using lf_then.hyps(2) lf_call_keeps[OF I] by (auto simp: lf_act_def split: if_splits)
  next
    case (Lf_pop i)
    then have ip: "i = p" and st: "lt_pc s i = L_idle" "s' = lf_go i L_pop_load s"
      using lf_then.hyps by (auto simp: lf_act_def split: if_splits)
    have "lf_inv p (lf_go i L_pop_load s) as" by (rule lf_move[OF I]) (use ip st in \<open>auto simp: in_hand_def\<close>)
    then show ?thesis using st(2) by blast
  next
    case (Lf_push_step w i)
    then show ?thesis using lf_then.hyps(2) lf_push_keeps[OF I] by (auto simp: lf_act_def)
  next
    case (Lf_pop_step w i)
    then show ?thesis using lf_then.hyps(2) lf_pop_keeps[OF I] by (auto simp: lf_act_def)
  qed
qed

text \<open>
  With one popping thread and any number of pushing threads the lock-free stack is safe: in every interleaving
  no freed node is read, the nodes from the top on are allocated, and the elements that were pushed are those in
  the stack, those returned by pops and the one a pop has unlinked and not yet returned; none is lost or doubled.
\<close>
theorem lfstack_single_consumer:
  assumes "lgx_lfstack_create True True element_size = Inr st" "lf_reach {p} st s"
  shows "\<exists>as. stack_at (lt_stack s) as \<and> \<not> lf_bad (lt_stack s) \<and>
    mset (lt_pushed s) = mset (elements (lt_stack s) as) + mset (lt_popped s) + in_hand (lt_stack s) (lt_pc s p)"
  using lf_reach_inv[OF assms] unfolding lf_inv_def by blast

lemma lfstack_single_consumer_witness:
  "\<exists>(st :: nat lfstack) s as. lgx_lfstack_create True True 8 = Inr st \<and> lf_reach {0} st s \<and> lt_pushed s = [8, 7] \<and>
     lt_popped s = [8] \<and> stack_at (lt_stack s) as \<and> mset [8, 7] = mset (elements (lt_stack s) as) + mset [8] + in_hand (lt_stack s) L_idle"
proof -
  let ?as = "[Lf_push 1 200 7, Lf_push_step False 1, Lf_push_step False 1, Lf_push_step False 1,
      Lf_push 1 100 8, Lf_push_step False 1, Lf_push_step True 1, Lf_push_step False 1, Lf_push_step False 1, Lf_push_step False 1,
      Lf_pop 0, Lf_pop_step False 0, Lf_pop_step False 0, Lf_pop_step False 0, Lf_pop_step False 0]"
  obtain st :: "nat lfstack" where st: "lgx_lfstack_create True True 8 = Inr st"
    and e: "st = \<lparr>lf_top = None, lf_tag = 0, lf_count = 0, lf_element_size = 8, lf_mem = (\<lambda>_. None), lf_bad = False\<rparr>"
    by (simp add: lgx_lfstack_create_def)
  obtain s where s: "lf_exec ?as (lf_start st) = Some s" "lt_pushed s = [8, 7]" "lt_popped s = [8]" "lt_pc s 0 = L_idle"
    by (simp add: e lf_eval)
  have r: "lf_reach {0} st s" by (rule lf_exec_reach[OF lf_first s(1)]) simp
  show ?thesis using lfstack_single_consumer[OF st r] st r s by (auto simp: s(4))
qed

end
