(* ===== verification/Thread_Jobs.thy ===== *)
theory Thread_Jobs
  imports Thread_Deque_Props
begin

text \<open>
  The job system of \<^verbatim>\<open>src/threading/lgx_threading.c\<close>: submission, the worker threads, waiting for a job,
  completion. Any number of threads submit and wait while the workers run; the accesses to the shared ring
  and to the job descriptors are interleaved steps, and an operation on a deque is one step: the model is that of executions in which no
  two operations on one deque overlap in time. The interleavings inside a deque are the subject of its own theory, where a lost race for the
  last job duplicates a job (\<open>deque_lost_race_duplicates\<close>). What a job's function computes is the client's; the
  model records that it was called. The timestamps, which nothing reads, and the parking of an idle worker,
  which wakes up after a millisecond at the latest, leave no trace in the state.
\<close>

section \<open>Data\<close>

definition LGX_THREADING_SUBMIT_QUEUE_CAP :: nat where "LGX_THREADING_SUBMIT_QUEUE_CAP = 65536"
definition JOB_POOL_CAPACITY :: u32 where "JOB_POOL_CAPACITY = 65536"

text \<open>A description: the function and its data as one number, the priority, the parent's descriptor.\<close>

record job_desc =
  jd_func :: nat
  jd_priority :: nat
  jd_parent :: "job option"

record job_internal =
  ji_func :: nat
  ji_priority :: nat
  ji_remaining_children :: u32
  ji_completion_flag :: u32
  ji_parent :: "job option"
  ji_worker_index :: u32

text \<open>
  Where a thread is: in \<^verbatim>\<open>lgx_job_submit\<close> (\<open>sub_pc\<close>), or in \<^verbatim>\<open>worker_entry\<close> or
  \<^verbatim>\<open>lgx_job_wait\<close> (\<open>job_pc\<close>). The handle a thread waits for is an argument of its states;
  \<open>None\<close> stands for a worker.
\<close>

datatype sub_pc = Sub_idle | Sub_fill job_desc | Sub_parent job | Sub_claim job | Sub_write job u64

datatype job_pc =
    J_off
  | J_check "job option" | J_drain "job option" | J_fetch "job option" u64
  | J_pop | J_steal "job option" nat | J_spin nat | J_spin_steal nat nat | J_park
  | J_run "job option" job | J_mark "job option" job | J_notify "job option" job | J_count

record job_state =
  js_job :: "job \<Rightarrow> job_internal"
  js_job_pool_head :: u32
  js_queue :: "nat \<Rightarrow> job option"
  js_submit_head :: u64
  js_submit_tail :: u64
  js_deque :: "nat \<Rightarrow> work_deque"
  js_worker_count :: nat
  js_shutdown_requested :: bool
  js_jobs_executed :: "nat \<Rightarrow> u64"
  js_steals_performed :: "nat \<Rightarrow> u64"
  js_sub :: "nat \<Rightarrow> sub_pc"
  js_pc :: "nat \<Rightarrow> job_pc"
  js_ran :: "job list"

section \<open>Submission\<close>

definition alloc_job :: "job_state \<Rightarrow> job \<times> job_state" where
  "alloc_job s = (unat (js_job_pool_head s mod JOB_POOL_CAPACITY), s\<lparr>js_job_pool_head := js_job_pool_head s + 1\<rparr>)"

definition set_job :: "job \<Rightarrow> (job_internal \<Rightarrow> job_internal) \<Rightarrow> job_state \<Rightarrow> job_state" where
  "set_job j f s = s\<lparr>js_job := (js_job s)(j := f (js_job s j))\<rparr>"

definition set_sub :: "nat \<Rightarrow> sub_pc \<Rightarrow> job_state \<Rightarrow> job_state" where
  "set_sub i c s = s\<lparr>js_sub := (js_sub s)(i := c)\<rparr>"

text \<open>The checks at the head of \<^verbatim>\<open>lgx_job_submit\<close>; \<open>None\<close> when the submission goes on.\<close>

definition submit_check :: "bool \<Rightarrow> job_desc option \<Rightarrow> lgx_threading_error option" where
  "submit_check initialized desc =
     (if \<not> initialized then Some LGX_THREADING_ERROR_NOT_INITIALIZED
      else if desc = None then Some LGX_THREADING_ERROR_INVALID_PARAM
      else None)"

definition lgx_job_submit_step :: "nat \<Rightarrow> job_state \<Rightarrow> job_state" where
  "lgx_job_submit_step i s =
     (case js_sub s i of
        Sub_idle \<Rightarrow> s
      | Sub_fill d \<Rightarrow>
          (case alloc_job s of (j, s1) \<Rightarrow>
             set_sub i (Sub_parent j) (set_job j (\<lambda>_. \<lparr>ji_func = jd_func d, ji_priority = jd_priority d, ji_remaining_children = 0,
               ji_completion_flag = 0, ji_parent = jd_parent d, ji_worker_index = 0\<rparr>) s1))
      | Sub_parent j \<Rightarrow>
          set_sub i (Sub_claim j)
            (case ji_parent (js_job s j) of
               None \<Rightarrow> s
             | Some p \<Rightarrow> set_job p (\<lambda>r. r\<lparr>ji_remaining_children := ji_remaining_children r + 1\<rparr>) s)
      | Sub_claim j \<Rightarrow>
          set_sub i (Sub_write j (js_submit_head s)) (s\<lparr>js_submit_head := js_submit_head s + 1\<rparr>)
      | Sub_write j pos \<Rightarrow>
          set_sub i Sub_idle (s\<lparr>js_queue := (js_queue s)(unat pos mod LGX_THREADING_SUBMIT_QUEUE_CAP := Some j)\<rparr>))"

text \<open>A batch, by one thread: the descriptors are submitted one by one until one has no function.\<close>

definition submit_one :: "nat \<Rightarrow> job_desc \<Rightarrow> job_state \<Rightarrow> job_state" where
  "submit_one i d s =
     lgx_job_submit_step i (lgx_job_submit_step i (lgx_job_submit_step i (lgx_job_submit_step i (set_sub i (Sub_fill d) s))))"

fun submit_all :: "nat \<Rightarrow> job_desc option list \<Rightarrow> job_state \<Rightarrow> lgx_threading_error \<times> job_state" where
  "submit_all i [] s = (LGX_THREADING_SUCCESS, s)"
| "submit_all i (None # ds) s = (LGX_THREADING_ERROR_INVALID_PARAM, s)"
| "submit_all i (Some d # ds) s = submit_all i ds (submit_one i d s)"

definition lgx_job_submit_batch :: "bool \<Rightarrow> nat \<Rightarrow> job_desc option list \<Rightarrow> job_state \<Rightarrow> lgx_threading_error \<times> job_state" where
  "lgx_job_submit_batch initialized i ds s =
     (if \<not> initialized then (LGX_THREADING_ERROR_NOT_INITIALIZED, s)
      else if ds = [] then (LGX_THREADING_ERROR_INVALID_PARAM, s)
      else submit_all i ds s)"

section \<open>Workers and waiting threads\<close>

definition set_pc :: "nat \<Rightarrow> job_pc \<Rightarrow> job_state \<Rightarrow> job_state" where
  "set_pc i c s = s\<lparr>js_pc := (js_pc s)(i := c)\<rparr>"

definition set_dq :: "nat \<Rightarrow> work_deque \<Rightarrow> job_state \<Rightarrow> job_state" where
  "set_dq i d s = s\<lparr>js_deque := (js_deque s)(i := d)\<rparr>"

text \<open>Steal from worker \<open>v\<close>: a job to run, or on to \<open>next\<close>.\<close>

definition try_steal :: "nat \<Rightarrow> nat \<Rightarrow> job option \<Rightarrow> job_pc \<Rightarrow> job_state \<Rightarrow> job option \<times> job_state" where
  "try_steal i v h next s =
     (case lgx_work_deque_steal (js_deque s v) of
        (None, d) \<Rightarrow> (None, set_pc i next (set_dq v d s))
      | (Some j, d) \<Rightarrow> (Some j, set_pc i (J_run h j) (set_dq v d s)))"

definition try_pop :: "nat \<Rightarrow> job_pc \<Rightarrow> job_state \<Rightarrow> job_state" where
  "try_pop i next s =
     (case lgx_work_deque_pop (js_deque s i) of
        (None, d) \<Rightarrow> set_pc i next (set_dq i d s)
      | (Some j, d) \<Rightarrow> set_pc i (J_run None j) (set_dq i d s))"

text \<open>
  The ring of submitted jobs, as \<^verbatim>\<open>worker_entry\<close> and \<^verbatim>\<open>lgx_job_wait\<close> read it: claim a position
  (a weak compare-and-swap may fail), then wait for the submitter's pointer. A worker pushes the job onto its
  deque and looks for more; a waiting thread runs it. \<open>next\<close> is where a thread goes when there is none.
\<close>

definition drain_step :: "bool \<Rightarrow> nat \<Rightarrow> job option \<Rightarrow> job_pc \<Rightarrow> job_state \<Rightarrow> job_state" where
  "drain_step weak_fails i h next s =
     (let tail = js_submit_tail s; head = js_submit_head s in
      if tail \<ge> head then set_pc i next s
      else if weak_fails then (if h = None then s else set_pc i next s)
      else set_pc i (J_fetch h tail) (s\<lparr>js_submit_tail := tail + 1\<rparr>))"

definition fetch_step :: "nat \<Rightarrow> job option \<Rightarrow> u64 \<Rightarrow> job_state \<Rightarrow> job_state" where
  "fetch_step i h tail s =
     (let c = unat tail mod LGX_THREADING_SUBMIT_QUEUE_CAP in
      case js_queue s c of
        None \<Rightarrow> s
      | Some j \<Rightarrow>
          let s1 = s\<lparr>js_queue := (js_queue s)(c := None)\<rparr> in
          (case h of
             None \<Rightarrow> set_pc i (J_drain None) (set_dq i (lgx_work_deque_push j (js_deque s1 i)) s1)
           | Some _ \<Rightarrow> set_pc i (J_run h j) s1))"

text \<open>Running a job: call it, mark it complete, tell the parent; a worker then counts it.\<close>

definition run_step :: "nat \<Rightarrow> job_state \<Rightarrow> job_state" where
  "run_step i s =
     (case js_pc s i of
        J_run h j \<Rightarrow>
          set_pc i (J_mark h j) ((if h = None then set_job j (\<lambda>r. r\<lparr>ji_worker_index := word_of_nat i\<rparr>) s else s)
            \<lparr>js_ran := js_ran s @ [j]\<rparr>)
      | J_mark h j \<Rightarrow> set_pc i (J_notify h j) (set_job j (\<lambda>r. r\<lparr>ji_completion_flag := 1\<rparr>) s)
      | J_notify h j \<Rightarrow>
          set_pc i (if h = None then J_count else J_check h)
            (case ji_parent (js_job s j) of
               None \<Rightarrow> s
             | Some p \<Rightarrow>
                 let remaining = ji_remaining_children (js_job s p);
                     s1 = set_job p (\<lambda>r. r\<lparr>ji_remaining_children := remaining - 1\<rparr>) s
                 in if remaining = 1 then set_job p (\<lambda>r. r\<lparr>ji_completion_flag := 1\<rparr>) s1 else s1)
      | J_count \<Rightarrow> set_pc i (J_check None) (s\<lparr>js_jobs_executed := (js_jobs_executed s)(i := js_jobs_executed s i + 1)\<rparr>)
      | _ \<Rightarrow> s)"

definition worker_step :: "bool \<Rightarrow> nat \<Rightarrow> job_state \<Rightarrow> job_state" where
  "worker_step weak_fails i s =
     (let n = js_worker_count s in
      case js_pc s i of
        J_check None \<Rightarrow> set_pc i (if js_shutdown_requested s then J_off else J_drain None) s
      | J_drain None \<Rightarrow> drain_step weak_fails i None J_pop s
      | J_fetch None tail \<Rightarrow> fetch_step i None tail s
      | J_pop \<Rightarrow> try_pop i (J_steal None 0) s
      | J_steal None attempt \<Rightarrow>
          if attempt < n then
            (case try_steal i ((i + attempt + 1) mod n) None (J_steal None (attempt + 1)) s of
               (None, s1) \<Rightarrow> s1
             | (Some j, s1) \<Rightarrow> s1\<lparr>js_steals_performed := (js_steals_performed s1)(i := js_steals_performed s1 i + 1)\<rparr>)
          else set_pc i (J_spin 0) s
      | J_spin k \<Rightarrow> if k < 1000 then try_pop i (J_spin_steal k 0) s else set_pc i J_park s
      | J_spin_steal k v \<Rightarrow>
          if v < n then (if v = i then set_pc i (J_spin_steal k (v + 1)) s else snd (try_steal i v None (J_spin_steal k (v + 1)) s))
          else set_pc i (J_spin (k + 1)) s
      | J_park \<Rightarrow> set_pc i (J_check None) s
      | _ \<Rightarrow> run_step i s)"

definition lgx_job_wait_step :: "bool \<Rightarrow> nat \<Rightarrow> job_state \<Rightarrow> job_state" where
  "lgx_job_wait_step weak_fails i s =
     (case js_pc s i of
        J_check (Some h) \<Rightarrow> set_pc i (if ji_completion_flag (js_job s h) \<noteq> 0 then J_off else J_drain (Some h)) s
      | J_drain (Some h) \<Rightarrow> drain_step weak_fails i (Some h) (J_steal (Some h) 0) s
      | J_fetch (Some h) tail \<Rightarrow> fetch_step i (Some h) tail s
      | J_steal (Some h) v \<Rightarrow>
          if v < js_worker_count s then snd (try_steal i v (Some h) (J_steal (Some h) (v + 1)) s)
          else set_pc i (J_check (Some h)) s
      | _ \<Rightarrow> run_step i s)"

definition lgx_job_is_complete :: "job option \<Rightarrow> job_state \<Rightarrow> bool" where
  "lgx_job_is_complete h s = (case h of None \<Rightarrow> True | Some j \<Rightarrow> ji_completion_flag (js_job s j) \<noteq> 0)"

end
