(* ===== verification/Thread_Jobs_Props.thy ===== *)
theory Thread_Jobs_Props
  imports Thread_Jobs
begin

text \<open>
  What the job system guarantees: every submitted job is run once, as long as neither the ring of descriptors
  nor a deque overflows; and what it does not guarantee about parents, shutdown and batches.
\<close>

section \<open>Runs\<close>

definition job_start :: "nat \<Rightarrow> job_state" where
  "job_start w = \<lparr>js_job = (\<lambda>_. \<lparr>ji_func = 0, ji_priority = 0, ji_remaining_children = 0, ji_completion_flag = 0, ji_parent = None, ji_worker_index = 0\<rparr>),
     js_job_pool_head = 0, js_queue = (\<lambda>_. None), js_submit_head = 0, js_submit_tail = 0,
     js_deque = (\<lambda>_. new_deque (unat LGX_THREADING_DEQUE_INITIAL_CAP)), js_worker_count = w, js_shutdown_requested = False,
     js_jobs_executed = (\<lambda>_. 0), js_steals_performed = (\<lambda>_. 0), js_sub = (\<lambda>_. Sub_idle),
     js_pc = (\<lambda>i. if i < w then J_check None else J_off), js_ran = []\<rparr>"

datatype job_action = Submit nat job_desc | Submit_step nat | Worker_step bool nat | Wait nat job | Wait_step bool nat | Request_shutdown

text \<open>The threads \<open>0, \<dots>, w - 1\<close> are the workers, \<open>w, \<dots>, n - 1\<close> the others.\<close>

definition job_step :: "nat \<Rightarrow> job_action \<Rightarrow> job_state \<Rightarrow> job_state option" where
  "job_step n a s =
     (case a of
        Submit i d \<Rightarrow> if i < n \<and> js_sub s i = Sub_idle then Some (set_sub i (Sub_fill d) s) else None
      | Submit_step i \<Rightarrow> if i < n then Some (lgx_job_submit_step i s) else None
      | Worker_step weak i \<Rightarrow> if i < js_worker_count s then Some (worker_step weak i s) else None
      | Wait i h \<Rightarrow> if js_worker_count s \<le> i \<and> i < n \<and> js_pc s i = J_off then Some (set_pc i (J_check (Some h)) s) else None
      | Wait_step weak i \<Rightarrow> if js_worker_count s \<le> i \<and> i < n then Some (lgx_job_wait_step weak i s) else None
      | Request_shutdown \<Rightarrow> Some (s\<lparr>js_shutdown_requested := True\<rparr>))"

text \<open>No counter passes the ring of 65536 entries, and no worker pushes onto a full deque.\<close>

definition job_fits :: "job_action \<Rightarrow> job_state \<Rightarrow> bool" where
  "job_fits a s \<longleftrightarrow>
     (case a of
        Submit_step i \<Rightarrow>
          (case js_sub s i of Sub_fill d \<Rightarrow> unat (js_job_pool_head s) < 65536 | Sub_claim j \<Rightarrow> unat (js_submit_head s) < 65536 | _ \<Rightarrow> True)
      | Worker_step weak i \<Rightarrow> dq_bottom (js_deque s i) - dq_top (js_deque s i) < int (dq_capacity (js_deque s i))
      | _ \<Rightarrow> True)"

inductive job_reach :: "nat \<Rightarrow> nat \<Rightarrow> job_state \<Rightarrow> bool" for w n where
  jr_start: "w \<le> n \<Longrightarrow> job_reach w n (job_start w)"
| jr_step: "job_reach w n s \<Longrightarrow> job_fits a s \<Longrightarrow> job_step n a s = Some s' \<Longrightarrow> job_reach w n s'"

section \<open>Where the jobs are\<close>

definition opt_mset :: "job option \<Rightarrow> job multiset" where
  "opt_mset x = (case x of None \<Rightarrow> {#} | Some j \<Rightarrow> {#j#})"

definition sub_mset :: "sub_pc \<Rightarrow> job multiset" where
  "sub_mset c = (case c of Sub_parent j \<Rightarrow> {#j#} | Sub_claim j \<Rightarrow> {#j#} | Sub_write j pos \<Rightarrow> {#j#} | _ \<Rightarrow> {#})"

definition pc_mset :: "job_pc \<Rightarrow> job multiset" where
  "pc_mset c = (case c of J_run h j \<Rightarrow> {#j#} | _ \<Rightarrow> {#})"

definition dq_jobs :: "work_deque \<Rightarrow> job list" where
  "dq_jobs d = map the (entries d (dq_top d) (dq_bottom d))"

definition total :: "nat \<Rightarrow> job_state \<Rightarrow> job multiset" where
  "total n s = (\<Sum>c<65536. opt_mset (js_queue s c)) + (\<Sum>i<n. sub_mset (js_sub s i)) +
     (\<Sum>v<js_worker_count s. mset (dq_jobs (js_deque s v))) + (\<Sum>i<n. pc_mset (js_pc s i)) + mset (js_ran s)"

lemma sum_upd:
  fixes g :: "'b \<Rightarrow> 'c :: comm_monoid_add"
  assumes "i < (n :: nat)"
  shows "(\<Sum>k<n. g ((f(i := x)) k)) + g (f i) = (\<Sum>k<n. g (f k)) + g x"
proof -
  have "(\<Sum>k<n. g ((f(i := x)) k)) = g x + (\<Sum>k\<in>{..<n} - {i}. g (f k))"
    using assms by (subst sum.remove[of _ i]) auto
  moreover have "(\<Sum>k<n. g (f k)) = g (f i) + (\<Sum>k\<in>{..<n} - {i}. g (f k))"
    using assms by (subst sum.remove[of _ i]) auto
  ultimately show ?thesis by (simp add: ac_simps)
qed

lemma total_sub: "i < n \<Longrightarrow> total n (set_sub i c s) + sub_mset (js_sub s i) = total n s + sub_mset c"
  using sum_upd[of i n sub_mset "js_sub s" c] by (simp add: total_def set_sub_def ac_simps)

lemma total_pc: "i < n \<Longrightarrow> total n (set_pc i c s) + pc_mset (js_pc s i) = total n s + pc_mset c"
  using sum_upd[of i n pc_mset "js_pc s" c] by (simp add: total_def set_pc_def ac_simps)

lemma total_dq:
  "v < js_worker_count s \<Longrightarrow> total n (set_dq v d s) + mset (dq_jobs (js_deque s v)) = total n s + mset (dq_jobs d)"
  using sum_upd[of v "js_worker_count s" "\<lambda>d. mset (dq_jobs d)" "js_deque s" d] by (simp add: total_def set_dq_def ac_simps)

lemma total_queue:
  "c < 65536 \<Longrightarrow> total n (s\<lparr>js_queue := (js_queue s)(c := x)\<rparr>) + opt_mset (js_queue s c) = total n s + opt_mset x"
  using sum_upd[of c 65536 opt_mset "js_queue s" x] by (simp add: total_def ac_simps)

lemma total_ran: "total n (s\<lparr>js_ran := js_ran s @ [j]\<rparr>) = add_mset j (total n s)"
  by (simp add: total_def)

lemma total_same [simp]:
  "total n (set_job j f s) = total n s" "total n (s\<lparr>js_job_pool_head := a\<rparr>) = total n s"
  "total n (s\<lparr>js_submit_head := b\<rparr>) = total n s" "total n (s\<lparr>js_submit_tail := b\<rparr>) = total n s"
  "total n (s\<lparr>js_jobs_executed := e\<rparr>) = total n s" "total n (s\<lparr>js_steals_performed := e\<rparr>) = total n s"
  "total n (s\<lparr>js_shutdown_requested := q\<rparr>) = total n s"
  by (simp_all add: total_def set_job_def)

lemma dq_jobs_rep: "deque_rep d xs \<Longrightarrow> dq_jobs d = xs"
  by (simp add: deque_rep_def dq_jobs_def o_def)

section \<open>The invariant\<close>

definition ring_ok :: "job_state \<Rightarrow> bool" where
  "ring_ok s \<longleftrightarrow> unat (js_submit_head s) \<le> 65536 \<and> (\<forall>c j. js_queue s c = Some j \<longrightarrow> c < unat (js_submit_head s)) \<and>
     (\<forall>i j p. js_sub s i = Sub_write j p \<longrightarrow> unat p < unat (js_submit_head s) \<and> js_queue s (unat p) = None \<and>
        (\<forall>i' j'. js_sub s i' = Sub_write j' p \<longrightarrow> i' = i))"

definition deques_ok :: "job_state \<Rightarrow> bool" where
  "deques_ok s \<longleftrightarrow> (\<forall>v<js_worker_count s. \<exists>xs. deque_rep (js_deque s v) xs)"

definition jobs_inv :: "nat \<Rightarrow> job_state \<Rightarrow> bool" where
  "jobs_inv n s \<longleftrightarrow> js_worker_count s \<le> n \<and> unat (js_job_pool_head s) \<le> 65536 \<and> ring_ok s \<and> deques_ok s \<and>
     total n s = mset [0..<unat (js_job_pool_head s)]"

lemma set_sub_fields [simp]:
  "js_job_pool_head (set_sub i c s) = js_job_pool_head s" "js_queue (set_sub i c s) = js_queue s"
  "js_submit_head (set_sub i c s) = js_submit_head s" "js_deque (set_sub i c s) = js_deque s"
  "js_worker_count (set_sub i c s) = js_worker_count s" "js_sub (set_sub i c s) = (js_sub s)(i := c)"
  by (simp_all add: set_sub_def)

lemma set_pc_fields [simp]:
  "js_job_pool_head (set_pc i c s) = js_job_pool_head s" "js_queue (set_pc i c s) = js_queue s"
  "js_submit_head (set_pc i c s) = js_submit_head s" "js_deque (set_pc i c s) = js_deque s"
  "js_worker_count (set_pc i c s) = js_worker_count s" "js_sub (set_pc i c s) = js_sub s" "js_pc (set_pc i c s) = (js_pc s)(i := c)"
  by (simp_all add: set_pc_def)

lemma set_job_fields [simp]:
  "js_job_pool_head (set_job j f s) = js_job_pool_head s" "js_queue (set_job j f s) = js_queue s"
  "js_submit_head (set_job j f s) = js_submit_head s" "js_deque (set_job j f s) = js_deque s"
  "js_worker_count (set_job j f s) = js_worker_count s" "js_sub (set_job j f s) = js_sub s" "js_pc (set_job j f s) = js_pc s"
  "js_ran (set_job j f s) = js_ran s"
  by (simp_all add: set_job_def)

lemma set_dq_fields [simp]:
  "js_job_pool_head (set_dq v d s) = js_job_pool_head s" "js_queue (set_dq v d s) = js_queue s"
  "js_submit_head (set_dq v d s) = js_submit_head s" "js_deque (set_dq v d s) = (js_deque s)(v := d)"
  "js_worker_count (set_dq v d s) = js_worker_count s" "js_sub (set_dq v d s) = js_sub s" "js_pc (set_dq v d s) = js_pc s"
  by (simp_all add: set_dq_def)

text \<open>The invariant sees only these fields and the total.\<close>

lemma jobs_inv_same:
  assumes "jobs_inv n s" "js_worker_count s' = js_worker_count s" "js_job_pool_head s' = js_job_pool_head s" "js_submit_head s' = js_submit_head s"
    "js_queue s' = js_queue s" "js_sub s' = js_sub s" "js_deque s' = js_deque s" "total n s' = total n s"
  shows "jobs_inv n s'"
  using assms unfolding jobs_inv_def ring_ok_def deques_ok_def by simp

lemma jobs_inv_pc:
  assumes "jobs_inv n s" "i < n" "pc_mset (js_pc s i) = pc_mset c"
  shows "jobs_inv n (set_pc i c s)"
  using assms total_pc[of i n c s] by (intro jobs_inv_same[OF assms(1)]) auto

lemma ring_ok_sub:
  assumes "ring_ok s" "\<And>j p. c \<noteq> Sub_write j p"
  shows "ring_ok (set_sub i c s)"
  using assms unfolding ring_ok_def by (simp add: fun_upd_def)

lemma deques_ok_upd:
  assumes "deques_ok s" "deque_rep d xs"
  shows "deques_ok (set_dq v d s)"
  using assms by (auto simp: deques_ok_def)

lemma jobs_inv_submit:
  assumes I: "jobs_inv n s" and i: "i < n" and fits: "job_fits (Submit_step i) s"
  shows "jobs_inv n (lgx_job_submit_step i s)"
proof (cases "js_sub s i")
  case Sub_idle
  then show ?thesis using I by (simp add: lgx_job_submit_step_def)
next
  case (Sub_fill d)
  define j where "j = unat (js_job_pool_head s)"
  have j: "j < 65536" using fits Sub_fill by (simp add: job_fits_def j_def)
  have m: "unat (js_job_pool_head s mod JOB_POOL_CAPACITY) = j" "unat (js_job_pool_head s + 1) = Suc j"
    using j by (simp_all add: j_def JOB_POOL_CAPACITY_def unat_mod_distrib unat_word_ariths(1))
  let ?s = "set_job j (\<lambda>_. \<lparr>ji_func = jd_func d, ji_priority = jd_priority d, ji_remaining_children = 0,
     ji_completion_flag = 0, ji_parent = jd_parent d, ji_worker_index = 0\<rparr>) (s\<lparr>js_job_pool_head := js_job_pool_head s + 1\<rparr>)"
  have st: "lgx_job_submit_step i s = set_sub i (Sub_parent j) ?s"
    by (simp add: lgx_job_submit_step_def Sub_fill alloc_job_def m)
  have "total n (set_sub i (Sub_parent j) ?s) = add_mset j (total n s)"
    using total_sub[OF i, of "Sub_parent j" ?s] Sub_fill by (simp add: sub_mset_def)
  moreover have "ring_ok ?s" "deques_ok ?s" using I by (simp_all add: jobs_inv_def ring_ok_def deques_ok_def)
  then have "ring_ok (set_sub i (Sub_parent j) ?s)" "deques_ok (set_sub i (Sub_parent j) ?s)"
    by (auto intro: ring_ok_sub simp: deques_ok_def)
  ultimately show ?thesis using I j m(2) unfolding st by (simp add: jobs_inv_def flip: j_def)
next
  case (Sub_parent j)
  let ?s = "case ji_parent (js_job s j) of None \<Rightarrow> s | Some p \<Rightarrow> set_job p (\<lambda>r. r\<lparr>ji_remaining_children := ji_remaining_children r + 1\<rparr>) s"
  have I': "jobs_inv n ?s" "js_sub ?s = js_sub s" using I by (auto intro: jobs_inv_same split: option.split)
  have "total n (set_sub i (Sub_claim j) ?s) = total n ?s"
    using total_sub[OF i, of "Sub_claim j" ?s] Sub_parent I'(2) by (simp add: sub_mset_def)
  then show ?thesis using I' Sub_parent ring_ok_sub[of ?s "Sub_claim j" i]
    by (simp add: lgx_job_submit_step_def jobs_inv_def deques_ok_def)
next
  case (Sub_claim j)
  let ?h = "js_submit_head s"
  let ?s = "s\<lparr>js_submit_head := ?h + 1\<rparr>"
  have h: "unat ?h < 65536" using fits Sub_claim by (simp add: job_fits_def)
  then have u: "unat (?h + 1) = Suc (unat ?h)" by (simp add: unat_word_ariths(1))
  have R: "ring_ok s" using I by (simp add: jobs_inv_def)
  have "total n (set_sub i (Sub_write j ?h) ?s) = total n s"
    using total_sub[OF i, of "Sub_write j ?h" ?s] Sub_claim by (simp add: sub_mset_def)
  moreover have "ring_ok (set_sub i (Sub_write j ?h) ?s)"
  proof -
    have q: "js_queue s c = Some k \<Longrightarrow> c < unat ?h" for c k using R by (auto simp: ring_ok_def)
    have w: "unat p < unat ?h \<and> js_queue s (unat p) = None" if "js_sub s k = Sub_write j' p" for k j' p
      using R that unfolding ring_ok_def by blast
    have free: "js_queue s (unat ?h) = None" using q[of "unat ?h"] by (cases "js_queue s (unat ?h)") auto
    have uniq: "k' = k" if "js_sub s k = Sub_write j1 p" "js_sub s k' = Sub_write j2 p" for k k' j1 j2 p
      using R that unfolding ring_ok_def by blast
    have ne: "js_sub s k \<noteq> Sub_write j' ?h" for k j' using w[of k j' ?h] by auto
    show ?thesis unfolding ring_ok_def
      using h u q w free uniq ne by (auto simp: less_Suc_eq)
  qed
  ultimately show ?thesis using I Sub_claim by (simp add: lgx_job_submit_step_def jobs_inv_def deques_ok_def)
next
  case (Sub_write j p)
  have R: "ring_ok s" using I by (simp add: jobs_inv_def)
  have p: "unat p < unat (js_submit_head s)" "js_queue s (unat p) = None" "unat p < 65536"
    using R Sub_write unfolding ring_ok_def by fastforce+
  let ?s = "s\<lparr>js_queue := (js_queue s)(unat p := Some j)\<rparr>"
  have st: "lgx_job_submit_step i s = set_sub i Sub_idle ?s"
    using p(3) by (simp add: lgx_job_submit_step_def Sub_write LGX_THREADING_SUBMIT_QUEUE_CAP_def)
  have "total n (set_sub i Sub_idle ?s) + {#j#} = total n ?s" "total n ?s = total n s + {#j#}"
    using total_sub[OF i, of Sub_idle ?s] total_queue[OF p(3), of n s "Some j"] Sub_write p(2) by (simp_all add: sub_mset_def opt_mset_def)
  then have "total n (set_sub i Sub_idle ?s) = total n s" by simp
  moreover have "ring_ok (set_sub i Sub_idle ?s)"
  proof -
    have q: "js_queue s c = Some k \<Longrightarrow> c < unat (js_submit_head s)" for c k using R by (auto simp: ring_ok_def)
    have w: "unat r < unat (js_submit_head s) \<and> js_queue s (unat r) = None \<and> unat r \<noteq> unat p" if "js_sub s k = Sub_write j' r" "k \<noteq> i" for k j' r
      using R that Sub_write unfolding ring_ok_def word_unat_eq_iff[symmetric] by blast
    have uniq: "k' = k" if "js_sub s k = Sub_write j1 r" "js_sub s k' = Sub_write j2 r" for k k' j1 j2 r
      using R that unfolding ring_ok_def by blast
    show ?thesis unfolding ring_ok_def using R p(1) q w uniq by (auto simp: ring_ok_def)
  qed
  ultimately show ?thesis using I unfolding st by (simp add: jobs_inv_def deques_ok_def)
qed

text \<open>A thread that holds no job takes one out of a deque, or finds none.\<close>

lemma jobs_inv_take:
  assumes I: "jobs_inv n s" and i: "i < n" "pc_mset (js_pc s i) = {#}" and v: "v < js_worker_count s"
    and d: "mset (dq_jobs (js_deque s v)) = mset (dq_jobs d) + pc_mset c" "deque_rep d xs"
  shows "jobs_inv n (set_pc i c (set_dq v d s))"
proof -
  have "total n (set_pc i c (set_dq v d s)) = total n (set_dq v d s) + pc_mset c"
    using total_pc[OF i(1), of c "set_dq v d s"] i(2) by simp
  moreover have "total n (set_dq v d s) + pc_mset c = total n s"
    using total_dq[OF v, of n d] d(1) by simp
  moreover have "deques_ok (set_pc i c (set_dq v d s))"
    using deques_ok_upd[of s d xs v] I d(2) by (simp add: jobs_inv_def deques_ok_def)
  ultimately show ?thesis using I by (simp add: jobs_inv_def ring_ok_def)
qed

lemma inv_try_pop:
  assumes I: "jobs_inv n s" and i: "i < js_worker_count s" "pc_mset (js_pc s i) = {#}" and c: "pc_mset c = {#}"
  shows "jobs_inv n (try_pop i c s)"
proof -
  obtain xs where xs: "deque_rep (js_deque s i) xs" using I i(1) by (auto simp: jobs_inv_def deques_ok_def)
  obtain r d where p: "lgx_work_deque_pop (js_deque s i) = (r, d)" by fastforce
  have rep: "r = fst (spec_op Pop xs)" "deque_rep d (snd (spec_op Pop xs))" using wd.pop_law[OF xs p] by auto
  have n: "i < n" using I i(1) by (simp add: jobs_inv_def)
  let ?c = "case r of None \<Rightarrow> c | Some j \<Rightarrow> J_run None j"
  have "mset (dq_jobs (js_deque s i)) = mset (dq_jobs d) + pc_mset ?c"
    unfolding dq_jobs_rep[OF xs] dq_jobs_rep[OF rep(2)] rep(1) using c
    by (cases xs rule: rev_cases) (auto simp: pc_mset_def)
  then have "jobs_inv n (set_pc i ?c (set_dq i d s))" by (rule jobs_inv_take[OF I n i(2) i(1) _ rep(2)])
  then show ?thesis by (simp add: try_pop_def p split: option.splits)
qed

lemma inv_try_steal:
  assumes I: "jobs_inv n s" and i: "i < n" "pc_mset (js_pc s i) = {#}" and v: "v < js_worker_count s" and c: "pc_mset c = {#}"
  shows "jobs_inv n (snd (try_steal i v h c s))"
proof -
  obtain xs where xs: "deque_rep (js_deque s v) xs" using I v by (auto simp: jobs_inv_def deques_ok_def)
  obtain r d where p: "lgx_work_deque_steal (js_deque s v) = (r, d)" by fastforce
  have rep: "r = fst (spec_op Steal xs)" "deque_rep d (snd (spec_op Steal xs))" using wd.steal_law[OF xs p] by auto
  let ?c = "case r of None \<Rightarrow> c | Some j \<Rightarrow> J_run h j"
  have "mset (dq_jobs (js_deque s v)) = mset (dq_jobs d) + pc_mset ?c"
    unfolding dq_jobs_rep[OF xs] dq_jobs_rep[OF rep(2)] rep(1) using c by (cases xs) (auto simp: pc_mset_def)
  then have "jobs_inv n (set_pc i ?c (set_dq v d s))" by (rule jobs_inv_take[OF I i v _ rep(2)])
  then show ?thesis by (simp add: try_steal_def p split: option.splits)
qed

lemma inv_drain:
  assumes I: "jobs_inv n s" and i: "i < n" "pc_mset (js_pc s i) = {#}" and c: "pc_mset c = {#}"
  shows "jobs_inv n (drain_step weak i h c s)"
proof -
  have "jobs_inv n (s\<lparr>js_submit_tail := js_submit_tail s + 1\<rparr>)" by (rule jobs_inv_same[OF I]) simp_all
  then have "jobs_inv n (set_pc i (J_fetch h (js_submit_tail s)) (s\<lparr>js_submit_tail := js_submit_tail s + 1\<rparr>))"
    using i by (intro jobs_inv_pc) (simp_all add: pc_mset_def)
  then show ?thesis using I jobs_inv_pc[OF I i(1), of c] i(2) c by (simp add: drain_step_def Let_def)
qed

text \<open>A job leaves the ring.\<close>

lemma inv_unqueue:
  assumes I: "jobs_inv n s" and q: "js_queue s c = Some j" and s': "s' = s\<lparr>js_queue := (js_queue s)(c := None)\<rparr>"
  shows "ring_ok s' \<and> deques_ok s' \<and> total n s' + {#j#} = total n s"
proof -
  have R: "ring_ok s" using I by (simp add: jobs_inv_def)
  then have "c < 65536" using q by (fastforce simp: ring_ok_def)
  then have "total n s' + {#j#} = total n s" using total_queue[of c n s None] q by (simp add: opt_mset_def s')
  moreover have "ring_ok s'" using R unfolding ring_ok_def s' by (auto split: if_splits)
  ultimately show ?thesis using I by (simp add: jobs_inv_def deques_ok_def s')
qed

lemma inv_fetch:
  assumes I: "jobs_inv n s" and i: "i < n" "pc_mset (js_pc s i) = {#}"
    and h: "h = None \<Longrightarrow> i < js_worker_count s \<and> dq_bottom (js_deque s i) - dq_top (js_deque s i) < int (dq_capacity (js_deque s i))"
  shows "jobs_inv n (fetch_step i h tail s)"
proof (cases "js_queue s (unat tail mod LGX_THREADING_SUBMIT_QUEUE_CAP)")
  case None
  then show ?thesis using I by (simp add: fetch_step_def)
next
  case (Some j)
  define s1 where "s1 = s\<lparr>js_queue := (js_queue s)(unat tail mod LGX_THREADING_SUBMIT_QUEUE_CAP := None)\<rparr>"
  have u: "ring_ok s1" "deques_ok s1" "total n s1 + {#j#} = total n s" using inv_unqueue[OF I Some s1_def] by auto
  have f: "js_pc s1 = js_pc s" "js_deque s1 = js_deque s" "js_worker_count s1 = js_worker_count s" "js_job_pool_head s1 = js_job_pool_head s"
    by (simp_all add: s1_def)
  show ?thesis
  proof (cases h)
    case None
    then have w: "i < js_worker_count s1" and room: "dq_bottom (js_deque s i) - dq_top (js_deque s i) < int (dq_capacity (js_deque s i))"
      using h f by auto
    obtain xs where xs: "deque_rep (js_deque s i) xs" using u(2) w f by (auto simp: deques_ok_def)
    have "length xs < dq_capacity (js_deque s i)" using deque_rep_length[OF xs] room by simp
    then have rep: "deque_rep (lgx_work_deque_push j (js_deque s i)) (xs @ [j])" using wd.push_law[OF xs] by blast
    let ?d = "lgx_work_deque_push j (js_deque s i)"
    let ?s = "set_pc i (J_drain None) (set_dq i ?d s1)"
    have "total n ?s = total n (set_dq i ?d s1)"
      using total_pc[OF i(1), of "J_drain None" "set_dq i ?d s1"] i(2) by (simp add: f pc_mset_def)
    moreover have "total n (set_dq i ?d s1) = total n s1 + {#j#}"
      using total_dq[OF w, of n ?d] by (simp add: f dq_jobs_rep[OF xs] dq_jobs_rep[OF rep])
    moreover have "deques_ok ?s" using deques_ok_upd[OF u(2) rep, of i] by (simp add: deques_ok_def)
    moreover have "ring_ok ?s" using u(1) by (simp add: ring_ok_def)
    ultimately have "jobs_inv n ?s" using I u(3) by (simp add: jobs_inv_def f)
    then show ?thesis using Some None by (simp add: fetch_step_def Let_def s1_def)
  next
    case (Some k)
    have "total n (set_pc i (J_run h j) s1) = total n s1 + {#j#}"
      using total_pc[OF i(1), of "J_run h j" s1] i(2) by (simp add: f pc_mset_def)
    then have "jobs_inv n (set_pc i (J_run h j) s1)" using I u by (simp add: jobs_inv_def f ring_ok_def deques_ok_def)
    then show ?thesis using \<open>js_queue s _ = Some j\<close> Some by (simp add: fetch_step_def Let_def s1_def)
  qed
qed

lemma inv_run:
  assumes I: "jobs_inv n s" and i: "i < n"
  shows "jobs_inv n (run_step i s)"
proof (cases "js_pc s i")
  case (J_run h j)
  define s1 where "s1 = (if h = None then set_job j (\<lambda>r. r\<lparr>ji_worker_index := word_of_nat i\<rparr>) s else s)\<lparr>js_ran := js_ran s @ [j]\<rparr>"
  have f: "js_pc s1 = js_pc s" "js_deque s1 = js_deque s" "js_worker_count s1 = js_worker_count s" "js_job_pool_head s1 = js_job_pool_head s"
      "js_queue s1 = js_queue s" "js_sub s1 = js_sub s" "js_submit_head s1 = js_submit_head s"
    by (simp_all add: s1_def)
  have "total n s1 = add_mset j (total n s)"
    using total_ran[of n "set_job j (\<lambda>r. r\<lparr>ji_worker_index := word_of_nat i\<rparr>) s" j] total_ran[of n s j] by (simp add: s1_def)
  moreover have "total n (set_pc i (J_mark h j) s1) + {#j#} = total n s1"
    using total_pc[OF i, of "J_mark h j" s1] J_run by (simp add: f pc_mset_def)
  ultimately have "total n (set_pc i (J_mark h j) s1) = total n s" by simp
  then have "jobs_inv n (set_pc i (J_mark h j) s1)" by (intro jobs_inv_same[OF I]) (simp_all add: f)
  then show ?thesis using J_run by (simp add: run_step_def s1_def)
next
  case (J_mark h j)
  have "jobs_inv n (set_job j (\<lambda>r. r\<lparr>ji_completion_flag := 1\<rparr>) s)" by (rule jobs_inv_same[OF I]) simp_all
  then show ?thesis using J_mark i by (simp add: run_step_def jobs_inv_pc pc_mset_def)
next
  case (J_notify h j)
  have job: "jobs_inv n (set_job p f s')" if "jobs_inv n s'" for p f s' by (rule jobs_inv_same[OF that]) simp_all
  show ?thesis using J_notify i I
    by (auto simp: run_step_def Let_def pc_mset_def intro!: jobs_inv_pc job split: option.split)
next
  case J_count
  have "jobs_inv n (s\<lparr>js_jobs_executed := (js_jobs_executed s)(i := js_jobs_executed s i + 1)\<rparr>)" by (rule jobs_inv_same[OF I]) simp_all
  then show ?thesis using J_count i by (simp add: run_step_def jobs_inv_pc pc_mset_def)
qed (use I in \<open>simp_all add: run_step_def\<close>)

lemma inv_worker:
  assumes I: "jobs_inv n s" and i: "i < js_worker_count s" and fits: "job_fits (Worker_step weak i) s"
  shows "jobs_inv n (worker_step weak i s)"
proof -
  have n: "i < n" using I i by (simp add: jobs_inv_def)
  note pc = jobs_inv_pc[OF I n] and st = inv_try_steal[OF I n]
  show ?thesis
  proof (cases "js_pc s i")
    case (J_check h)
    then show ?thesis using inv_run[OF I n] by (cases h) (auto simp: worker_step_def pc_mset_def intro!: pc)
  next
    case (J_drain h)
    then show ?thesis using inv_run[OF I n] by (cases h) (auto simp: worker_step_def pc_mset_def intro!: inv_drain[OF I n])
  next
    case (J_fetch h t)
    then show ?thesis using inv_run[OF I n] fits i
      by (cases h) (auto simp: worker_step_def pc_mset_def job_fits_def intro!: inv_fetch[OF I n])
  next
    case J_pop
    then show ?thesis by (auto simp: worker_step_def pc_mset_def intro!: inv_try_pop[OF I i])
  next
    case (J_steal h a)
    show ?thesis
    proof (cases h)
      case None
      let ?v = "(i + a + 1) mod js_worker_count s" and ?c = "J_steal None (a + 1)"
      obtain r s1 where r: "try_steal i ?v None ?c s = (r, s1)" by fastforce
      have "?v < js_worker_count s" using i by simp
      then have s1: "jobs_inv n s1" using st[of ?v ?c None] J_steal r by (simp add: pc_mset_def)
      have "jobs_inv n (s1\<lparr>js_steals_performed := (js_steals_performed s1)(i := js_steals_performed s1 i + 1)\<rparr>)"
        by (rule jobs_inv_same[OF s1]) simp_all
      then show ?thesis using J_steal None s1 r pc[of "J_spin 0"]
        by (auto simp: worker_step_def Let_def pc_mset_def split: option.split)
    next
      case (Some k)
      then show ?thesis using inv_run[OF I n] J_steal by (simp add: worker_step_def)
    qed
  next
    case (J_spin k)
    then show ?thesis using inv_try_pop[OF I i, of "J_spin_steal k 0"] pc[of J_park] by (simp add: worker_step_def pc_mset_def)
  next
    case (J_spin_steal k v)
    then show ?thesis using st[of v "J_spin_steal k (v + 1)" None] pc[of "J_spin_steal k (v + 1)"] pc[of "J_spin (k + 1)"]
      by (auto simp: worker_step_def Let_def pc_mset_def)
  next
    case J_park
    then show ?thesis using pc[of "J_check None"] by (simp add: worker_step_def pc_mset_def)
  qed (use inv_run[OF I n] in \<open>simp_all add: worker_step_def\<close>)
qed

lemma inv_wait:
  assumes I: "jobs_inv n s" and n: "i < n"
  shows "jobs_inv n (lgx_job_wait_step weak i s)"
proof -
  note pc = jobs_inv_pc[OF I n] and run = inv_run[OF I n]
  show ?thesis
  proof (cases "js_pc s i")
    case (J_check h)
    then show ?thesis using run by (cases h) (auto simp: lgx_job_wait_step_def pc_mset_def intro!: pc)
  next
    case (J_drain h)
    then show ?thesis using run by (cases h) (auto simp: lgx_job_wait_step_def pc_mset_def intro!: inv_drain[OF I n])
  next
    case (J_fetch h t)
    then show ?thesis using run by (cases h) (auto simp: lgx_job_wait_step_def pc_mset_def intro!: inv_fetch[OF I n])
  next
    case (J_steal h v)
    then show ?thesis using run inv_try_steal[OF I n, of v "J_steal h (v + 1)" h] pc[of "J_check h"]
      by (cases h) (auto simp: lgx_job_wait_step_def pc_mset_def)
  qed (use run in \<open>simp_all add: lgx_job_wait_step_def\<close>)
qed

lemma new_deque_rep: "deque_rep (new_deque (unat LGX_THREADING_DEQUE_INITIAL_CAP)) []"
proof -
  have "\<exists>k. (1024 :: nat) = 2 ^ k" by (intro exI[of _ 10]) simp
  then show ?thesis by (simp add: deque_rep_def new_deque_def wf_deque_def LGX_THREADING_DEQUE_INITIAL_CAP_def)
qed

lemma jobs_reach_inv: "job_reach w n s \<Longrightarrow> jobs_inv n s"
proof (induction rule: job_reach.induct)
  case jr_start
  have "dq_jobs (new_deque (unat LGX_THREADING_DEQUE_INITIAL_CAP)) = []" by (rule dq_jobs_rep[OF new_deque_rep])
  moreover have "(\<Sum>i<n. pc_mset (if i < w then J_check None else J_off)) = {#}" by (intro sum.neutral) (simp add: pc_mset_def)
  ultimately have "total n (job_start w) = {#}" by (simp add: total_def job_start_def opt_mset_def sub_mset_def)
  then show ?case using jr_start new_deque_rep by (auto simp: jobs_inv_def job_start_def ring_ok_def deques_ok_def)
next
  case (jr_step s a s')
  note I = jr_step.IH
  show ?case
  proof (cases a)
    case (Submit i d)
    then have s': "s' = set_sub i (Sub_fill d) s" and i: "i < n" "js_sub s i = Sub_idle"
      using jr_step.hyps(3) by (auto simp: job_step_def split: if_splits)
    have "total n s' = total n s" using total_sub[OF i(1), of "Sub_fill d" s] i(2) by (simp add: s' sub_mset_def)
    then show ?thesis using I ring_ok_sub[of s "Sub_fill d" i] by (simp add: jobs_inv_def deques_ok_def s')
  next
    case (Submit_step i)
    then show ?thesis using jr_step.hyps I jobs_inv_submit by (auto simp: job_step_def split: if_splits)
  next
    case (Worker_step weak i)
    then show ?thesis using jr_step.hyps I inv_worker by (auto simp: job_step_def split: if_splits)
  next
    case (Wait i h)
    then show ?thesis using jr_step.hyps I jobs_inv_pc[of n s i] by (auto simp: job_step_def pc_mset_def split: if_splits)
  next
    case (Wait_step weak i)
    then show ?thesis using jr_step.hyps I inv_wait by (auto simp: job_step_def split: if_splits)
  next
    case Request_shutdown
    then have "s' = s\<lparr>js_shutdown_requested := True\<rparr>" using jr_step.hyps(3) by (simp add: job_step_def)
    then show ?thesis using jobs_inv_same[OF I] by simp
  qed
qed

section \<open>Jobs run once\<close>

definition no_job_waits :: "nat \<Rightarrow> job_state \<Rightarrow> bool" where
  "no_job_waits n s \<longleftrightarrow> (\<forall>c<65536. js_queue s c = None) \<and> (\<forall>i<n. js_sub s i = Sub_idle) \<and>
     (\<forall>v<js_worker_count s. dq_top (js_deque s v) = dq_bottom (js_deque s v)) \<and> (\<forall>i<n. \<forall>h j. js_pc s i \<noteq> J_run h j)"

text \<open>
  The job system: in every interleaving of any number of submitting and waiting threads with the workers in which no two operations on one
  deque overlap in time, as long as fewer than 65536 jobs are submitted and no worker steps while its deque is full, no job is run twice and only
  submitted jobs are run; and when no job is left in the ring, in a deque or in the hands of a thread, every
  submitted job has been run.
\<close>

theorem jobs_run_once:
  assumes "job_reach w n s"
  shows "distinct (js_ran s) \<and> set (js_ran s) \<subseteq> {..<unat (js_job_pool_head s)} \<and>
    (no_job_waits n s \<longrightarrow> set (js_ran s) = {..<unat (js_job_pool_head s)})"
proof -
  let ?a = "unat (js_job_pool_head s)"
  have t: "total n s = mset [0..<?a]" using jobs_reach_inv[OF assms] by (simp add: jobs_inv_def)
  have le: "mset (js_ran s) \<subseteq># mset [0..<?a]" unfolding t[symmetric] by (simp add: total_def)
  have "count (mset (js_ran s)) j \<le> 1" for j
  proof -
    have "count (mset [0..<?a]) j \<le> 1" by (cases "j < ?a") simp_all
    then show ?thesis using mset_subset_eq_count[OF le, of j] by linarith
  qed
  then have d: "distinct (js_ran s)" unfolding distinct_count_atmost_1 by (simp add: le_Suc_eq count_eq_zero_iff)
  have "set_mset (mset (js_ran s)) \<subseteq> set_mset (mset [0..<?a])" by (rule set_mset_mono[OF le])
  then have "set (js_ran s) \<subseteq> {..<?a}" by auto
  moreover have "set (js_ran s) = {..<?a}" if q: "no_job_waits n s"
  proof -
    have "(\<Sum>c<65536. opt_mset (js_queue s c)) = {#}" by (rule sum.neutral) (use q in \<open>auto simp: no_job_waits_def opt_mset_def\<close>)
    moreover have "(\<Sum>i<n. sub_mset (js_sub s i)) = {#}" by (rule sum.neutral) (use q in \<open>auto simp: no_job_waits_def sub_mset_def\<close>)
    moreover have "(\<Sum>v<js_worker_count s. mset (dq_jobs (js_deque s v))) = {#}"
      by (rule sum.neutral) (use q in \<open>auto simp: no_job_waits_def dq_jobs_def\<close>)
    moreover have "(\<Sum>i<n. pc_mset (js_pc s i)) = {#}"
      by (rule sum.neutral) (use q in \<open>auto simp: no_job_waits_def pc_mset_def split: job_pc.split\<close>)
    ultimately have "total n s = mset (js_ran s)" unfolding total_def by (simp only: add_0)
    then have "mset (js_ran s) = mset [0..<?a]" using t by simp
    then have "set (js_ran s) = set [0..<?a]" by (rule mset_eq_setD)
    then show ?thesis by (simp only: set_upt atLeast0LessThan)
  qed
  ultimately show ?thesis using d by blast
qed

section \<open>Executions\<close>

fun job_exec :: "nat \<Rightarrow> job_action list \<Rightarrow> job_state \<Rightarrow> job_state option" where
  "job_exec n [] s = Some s"
| "job_exec n (a # as) s = (if job_fits a s then Option.bind (job_step n a s) (job_exec n as) else None)"

lemma job_exec_reach: "job_reach w n s \<Longrightarrow> job_exec n as s = Some s' \<Longrightarrow> job_reach w n s'"
  by (induction as arbitrary: s) (auto simp: bind_eq_Some_conv split: if_splits intro: jr_step)

lemmas job_eval = job_start_def job_fits_def job_step_def lgx_job_submit_step_def set_sub_def set_job_def set_pc_def set_dq_def
  alloc_job_def worker_step_def drain_step_def fetch_step_def try_pop_def try_steal_def run_step_def Let_def
  LGX_THREADING_SUBMIT_QUEUE_CAP_def JOB_POOL_CAPACITY_def LGX_THREADING_DEQUE_INITIAL_CAP_def new_deque_def
  lgx_work_deque_push_def lgx_work_deque_pop_def lgx_work_deque_steal_def dq_slot_def lgx_job_is_complete_def

text \<open>A parent and its child are submitted; the worker takes the child, the last one in, first.\<close>

definition parent_desc :: job_desc where "parent_desc = \<lparr>jd_func = 10, jd_priority = 1, jd_parent = None\<rparr>"
definition child_desc :: job_desc where "child_desc = \<lparr>jd_func = 11, jd_priority = 1, jd_parent = Some 0\<rparr>"

definition family :: "job_action list" where
  "family = [Submit 1 parent_desc, Submit_step 1, Submit_step 1, Submit_step 1, Submit_step 1,
     Submit 1 child_desc, Submit_step 1, Submit_step 1, Submit_step 1, Submit_step 1,
     Worker_step False 0, Worker_step False 0, Worker_step False 0, Worker_step False 0, Worker_step False 0,
     Worker_step False 0, Worker_step False 0, Worker_step False 0, Worker_step False 0, Worker_step False 0]"

lemma family_state:
  "\<exists>s. job_exec 2 family (job_start 1) = Some s \<and> js_ran s = [1] \<and> lgx_job_is_complete (Some 0) s \<and> js_pc s 0 = J_count \<and>
     unat (js_job_pool_head s) = 2"
  by (simp add: family_def parent_desc_def child_desc_def job_eval word_le_nat_alt)

lemma jobs_run_once_witness:
  "\<exists>s. job_reach 1 2 s \<and> no_job_waits 2 s \<and> unat (js_job_pool_head s) = 2 \<and> set (js_ran s) = {..<2}"
proof -
  let ?as = "family @ [Worker_step False 0, Worker_step False 0, Worker_step False 0, Worker_step False 0, Worker_step False 0]"
  obtain s where s: "job_exec 2 ?as (job_start 1) = Some s" and f: "js_queue s = (\<lambda>_. None)" "js_sub s = (\<lambda>_. Sub_idle)" "js_worker_count s = 1"
      "dq_top (js_deque s 0) = dq_bottom (js_deque s 0)" "js_pc s 0 = J_mark None 0" "js_pc s 1 = J_off" "unat (js_job_pool_head s) = 2"
    by (simp add: family_def parent_desc_def child_desc_def job_eval word_le_nat_alt fun_upd_idem fun_eq_iff)
  have "i = 0 \<or> i = 1" if "i < 2" for i :: nat using that by linarith
  then have "no_job_waits 2 s" using f unfolding no_job_waits_def by fastforce
  moreover have r: "job_reach 1 2 s" using job_exec_reach[OF jr_start s] by simp
  ultimately show ?thesis using jobs_run_once[OF r] f by auto
qed

text \<open>
  A job can be reported complete before its function is called: when the last child finishes first,
  \<^verbatim>\<open>worker_entry\<close> marks the parent complete, although the parent still waits in the deque; a thread in
  \<^verbatim>\<open>lgx_job_wait\<close> for the parent returns.
\<close>
theorem parent_complete_before_run:
  "\<exists>s. job_reach 1 2 s \<and> ji_parent (js_job s 1) = Some 0 \<and> js_ran s = [1] \<and> lgx_job_is_complete (Some 0) s \<and>
     js_pc (lgx_job_wait_step False 1 (set_pc 1 (J_check (Some 0)) s)) 1 = J_off"
proof -
  obtain s where s: "job_exec 2 family (job_start 1) = Some s" "js_ran s = [1]" "lgx_job_is_complete (Some 0) s"
      "ji_parent (js_job s 1) = Some 0"
    by (simp add: family_def parent_desc_def child_desc_def job_eval word_le_nat_alt)
  have "job_reach 1 2 s" using job_exec_reach[OF jr_start s(1)] by simp
  moreover have "js_pc (lgx_job_wait_step False 1 (set_pc 1 (J_check (Some 0)) s)) 1 = J_off"
    using s(3) by (simp add: lgx_job_wait_step_def lgx_job_is_complete_def set_pc_def)
  ultimately show ?thesis using s by blast
qed

text \<open>Shutdown does not wait for pending jobs: the worker is gone, the submitted job stays in the ring.\<close>

lemma shutdown_drops_job:
  "\<exists>s. job_reach 1 2 s \<and> js_queue s 0 = Some 0 \<and> js_ran s = [] \<and> js_pc s 0 = J_off \<and> (\<forall>weak. worker_step weak 0 s = s)"
proof -
  let ?as = "[Submit 1 parent_desc, Submit_step 1, Submit_step 1, Submit_step 1, Submit_step 1, Request_shutdown, Worker_step False 0]"
  obtain s where s: "job_exec 2 ?as (job_start 1) = Some s" "js_queue s 0 = Some 0" "js_ran s = []" "js_pc s 0 = J_off"
    by (simp add: parent_desc_def job_eval)
  have "job_reach 1 2 s" using job_exec_reach[OF jr_start s(1)] by simp
  then show ?thesis using s by (auto simp: worker_step_def run_step_def)
qed

text \<open>A batch is not all or nothing: the descriptors before one without a function are submitted.\<close>

lemma batch_partial:
  "lgx_job_submit_batch True i (map Some ds @ None # es) s = (LGX_THREADING_ERROR_INVALID_PARAM, snd (submit_all i (map Some ds) s))"
proof -
  have "submit_all i (map Some ds @ None # es) s = (LGX_THREADING_ERROR_INVALID_PARAM, snd (submit_all i (map Some ds) s))"
    by (induction ds arbitrary: s) auto
  then show ?thesis by (simp add: lgx_job_submit_batch_def)
qed

end
