(* ===== verification/Thread_Pool.thy ===== *)
theory Thread_Pool
  imports Thread_Jobs
begin

text \<open>
  The life of the thread pool of \<^verbatim>\<open>src/threading/lgx_threading.c\<close>: creation, destruction, the module's
  initialisation and shutdown, and the statistics. The pool keeps count of what it has allocated and started.
  The number of processors, and whether an allocation or a \<open>pthread_create\<close> succeeds, are arguments.
\<close>

definition LGX_THREADING_MAX_WORKERS :: u32 where "LGX_THREADING_MAX_WORKERS = 128"

record thread_pool =
  tp_worker_count :: u32
  tp_shutdown_requested :: bool
  tp_wake_ready :: bool
  tp_job_pool :: bool
  tp_deque_buffers :: nat
  tp_threads :: nat

definition zero_pool :: thread_pool where
  "zero_pool = \<lparr>tp_worker_count = 0, tp_shutdown_requested = False, tp_wake_ready = False, tp_job_pool = False, tp_deque_buffers = 0, tp_threads = 0\<rparr>"

definition pool_thread_count :: "u32 \<Rightarrow> int \<Rightarrow> u32" where
  "pool_thread_count thread_count n_processors =
     (let count = thread_count;
          count = (if count = 0 then
                     let c = (if n_processors > 0 then word_of_int n_processors else 1) in if c > 1 then c - 1 else c
                   else count)
      in if count > LGX_THREADING_MAX_WORKERS then LGX_THREADING_MAX_WORKERS else count)"

text \<open>The loop that starts the workers \<open>i, \<dots>, i + k - 1\<close>; a failure joins those that run.\<close>

fun create_workers :: "(nat \<Rightarrow> bool) \<Rightarrow> nat \<Rightarrow> nat \<Rightarrow> thread_pool \<Rightarrow> lgx_threading_error \<times> thread_pool" where
  "create_workers thread_ok i 0 p = (LGX_THREADING_SUCCESS, p)"
| "create_workers thread_ok i (Suc k) p =
     (let p = p\<lparr>tp_deque_buffers := Suc (tp_deque_buffers p)\<rparr>
      in if thread_ok i then create_workers thread_ok (Suc i) k (p\<lparr>tp_threads := Suc (tp_threads p)\<rparr>)
         else (LGX_THREADING_ERROR_OPERATION_FAILED,
           p\<lparr>tp_worker_count := word_of_nat i, tp_shutdown_requested := True, tp_threads := tp_threads p - i, tp_job_pool := False\<rparr>))"

definition pool_create :: "u32 \<Rightarrow> int \<Rightarrow> bool \<Rightarrow> (nat \<Rightarrow> bool) \<Rightarrow> lgx_threading_error \<times> thread_pool" where
  "pool_create thread_count n_processors calloc_ok thread_ok =
     (let count = pool_thread_count thread_count n_processors;
          p = zero_pool\<lparr>tp_worker_count := count, tp_wake_ready := True\<rparr>
      in if \<not> calloc_ok then (LGX_THREADING_ERROR_OUT_OF_MEMORY, p)
         else create_workers thread_ok 0 (unat count) (p\<lparr>tp_job_pool := True\<rparr>))"

definition pool_destroy :: "thread_pool \<Rightarrow> thread_pool" where
  "pool_destroy p =
     p\<lparr>tp_shutdown_requested := True, tp_threads := tp_threads p - unat (tp_worker_count p),
       tp_deque_buffers := tp_deque_buffers p - unat (tp_worker_count p), tp_wake_ready := False, tp_job_pool := False\<rparr>"

record threading_state =
  ts_initialized :: bool
  ts_pool :: thread_pool

definition lgx_threading_init ::
    "u32 option \<Rightarrow> int \<Rightarrow> bool \<Rightarrow> (nat \<Rightarrow> bool) \<Rightarrow> threading_state \<Rightarrow> lgx_threading_error \<times> threading_state" where
  "lgx_threading_init config n_processors calloc_ok thread_ok g =
     (if ts_initialized g then (LGX_THREADING_ERROR_ALREADY_INIT, g)
      else
        let thread_count = (case config of Some c \<Rightarrow> c | None \<Rightarrow> 0);
            (err, p) = pool_create thread_count n_processors calloc_ok thread_ok
        in if err \<noteq> LGX_THREADING_SUCCESS then (err, g\<lparr>ts_pool := p\<rparr>)
           else (LGX_THREADING_SUCCESS, g\<lparr>ts_pool := p, ts_initialized := True\<rparr>))"

definition lgx_threading_shutdown :: "threading_state \<Rightarrow> lgx_threading_error \<times> threading_state" where
  "lgx_threading_shutdown g =
     (if \<not> ts_initialized g then (LGX_THREADING_ERROR_NOT_INITIALIZED, g)
      else (LGX_THREADING_SUCCESS, g\<lparr>ts_pool := pool_destroy (ts_pool g), ts_initialized := False\<rparr>))"

definition lgx_threading_get_pool :: "threading_state \<Rightarrow> thread_pool option" where
  "lgx_threading_get_pool g = (if ts_initialized g then Some (ts_pool g) else None)"

text \<open>The statistics, from the counters of the workers, in rational arithmetic.\<close>

record pool_stats =
  st_total_threads :: u32
  st_total_jobs_executed :: u64
  st_total_steals :: u64
  st_steal_ratio :: rat
  st_avg_utilization :: rat

definition lgx_thread_pool_get_stats :: "u32 \<Rightarrow> (nat \<Rightarrow> u64) \<Rightarrow> (nat \<Rightarrow> u64) \<Rightarrow> pool_stats" where
  "lgx_thread_pool_get_stats worker_count executed steals =
     (let total_executed = foldl (\<lambda>t i. t + executed i) 0 [0..<unat worker_count];
          total_steals = foldl (\<lambda>t i. t + steals i) 0 [0..<unat worker_count];
          local_pops = (if total_executed > total_steals then total_executed - total_steals else 0);
          total_ops = total_steals + local_pops;
          util = (if worker_count > 0 then of_nat (unat total_executed) / of_nat (unat (worker_count * 1000 + 1)) else 0)
      in \<lparr>st_total_threads = worker_count, st_total_jobs_executed = total_executed, st_total_steals = total_steals,
          st_steal_ratio = (if total_ops > 0 then of_nat (unat total_steals) / of_nat (unat total_ops) else 0),
          st_avg_utilization = (if util > 1 then 1 else util)\<rparr>)"

section \<open>Facts\<close>

lemma pool_thread_count_bounds:
  assumes "0 < thread_count \<or> n_processors < 2 ^ 32"
  shows "1 \<le> unat (pool_thread_count thread_count n_processors) \<and> unat (pool_thread_count thread_count n_processors) \<le> 128"
proof -
  define c where "c = (if thread_count = 0 then
      let c = (if n_processors > 0 then word_of_int n_processors else 1 :: u32) in if c > 1 then c - 1 else c else thread_count)"
  have "c \<noteq> 0"
  proof (cases "thread_count = 0")
    case True
    then have "0 < n_processors \<Longrightarrow> unat (word_of_int n_processors :: u32) = nat n_processors"
      using assms by (simp add: unat_eq_nat_uint uint_word_of_int_eq take_bit_int_eq_self)
    then have nz: "(if n_processors > 0 then word_of_int n_processors else 1 :: u32) \<noteq> 0" by auto
    show ?thesis
    proof
      assume "c = 0"
      then show False using nz True by (auto simp: c_def Let_def split: if_splits)
    qed
  qed (simp add: c_def)
  then have "1 \<le> unat c" by (simp add: unat_gt_0 Suc_le_eq)
  moreover have "pool_thread_count thread_count n_processors = (if c > LGX_THREADING_MAX_WORKERS then LGX_THREADING_MAX_WORKERS else c)"
    by (simp add: pool_thread_count_def c_def Let_def)
  ultimately show ?thesis by (auto simp: LGX_THREADING_MAX_WORKERS_def word_less_nat_alt)
qed

lemma create_workers_ok:
  "(\<forall>j. i \<le> j \<and> j < i + k \<longrightarrow> thread_ok j) \<Longrightarrow>
     create_workers thread_ok i k p = (LGX_THREADING_SUCCESS, p\<lparr>tp_deque_buffers := tp_deque_buffers p + k, tp_threads := tp_threads p + k\<rparr>)"
  by (induction k arbitrary: i p) (simp_all add: Let_def)

lemma create_workers_fails:
  assumes "\<forall>j. i \<le> j \<and> j < i + m \<longrightarrow> thread_ok j" "\<not> thread_ok (i + m)" "m < k"
  shows "create_workers thread_ok i k p = (LGX_THREADING_ERROR_OPERATION_FAILED,
    p\<lparr>tp_deque_buffers := tp_deque_buffers p + Suc m, tp_worker_count := word_of_nat (i + m), tp_shutdown_requested := True,
      tp_threads := tp_threads p + m - (i + m), tp_job_pool := False\<rparr>)"
  using assms
proof (induction m arbitrary: i k p)
  case 0
  then show ?case by (cases k) (simp_all add: Let_def)
next
  case (Suc m)
  then obtain k' where k: "k = Suc k'" "m < k'" by (cases k) auto
  have "thread_ok i" using Suc.prems(1) by simp
  then show ?case using Suc.IH[of "Suc i" k'] Suc.prems k by (simp add: Let_def)
qed

text \<open>
  The life of the pool: an initialisation whose allocations and threads succeed leaves from 1 to 128 workers
  running, each with its deque, and the shutdown after it joins every thread and frees every buffer; while one
  whose \<open>pthread_create\<close> fails for worker \<open>m\<close> stops the workers it started, but leaves the
  \<open>m + 1\<close> deque buffers allocated.
\<close>
theorem pool_lifecycle:
  assumes "\<not> ts_initialized g" "n_processors < 2 ^ 32" "cnt = pool_thread_count (case config of Some c \<Rightarrow> c | None \<Rightarrow> 0) n_processors"
  shows "((\<forall>i<unat cnt. thread_ok i) \<longrightarrow>
      (\<exists>g'. lgx_threading_init config n_processors True thread_ok g = (LGX_THREADING_SUCCESS, g') \<and> ts_initialized g' \<and>
        1 \<le> unat cnt \<and> unat cnt \<le> 128 \<and> tp_threads (ts_pool g') = unat cnt \<and> tp_deque_buffers (ts_pool g') = unat cnt \<and>
        (\<exists>g''. lgx_threading_shutdown g' = (LGX_THREADING_SUCCESS, g'') \<and> \<not> ts_initialized g'' \<and> tp_threads (ts_pool g'') = 0 \<and>
          tp_deque_buffers (ts_pool g'') = 0 \<and> \<not> tp_job_pool (ts_pool g'')))) \<and>
    (m < unat cnt \<and> (\<forall>i<m. thread_ok i) \<and> \<not> thread_ok m \<longrightarrow>
      (\<exists>g'. lgx_threading_init config n_processors True thread_ok g = (LGX_THREADING_ERROR_OPERATION_FAILED, g') \<and>
        \<not> ts_initialized g' \<and> tp_threads (ts_pool g') = 0 \<and> \<not> tp_job_pool (ts_pool g') \<and> tp_deque_buffers (ts_pool g') = Suc m))"
proof -
  have c: "1 \<le> unat cnt" "unat cnt \<le> 128" using pool_thread_count_bounds[of _ n_processors] assms(2,3) by auto
  let ?p = "zero_pool\<lparr>tp_worker_count := cnt, tp_wake_ready := True, tp_job_pool := True\<rparr>"
  have init: "lgx_threading_init config n_processors True thread_ok g =
      (case create_workers thread_ok 0 (unat cnt) ?p of (err, p) \<Rightarrow>
         if err \<noteq> LGX_THREADING_SUCCESS then (err, g\<lparr>ts_pool := p\<rparr>) else (LGX_THREADING_SUCCESS, g\<lparr>ts_pool := p, ts_initialized := True\<rparr>))"
    using assms by (simp add: lgx_threading_init_def pool_create_def Let_def)
  show ?thesis
  proof (intro conjI impI)
    assume ok: "\<forall>i<unat cnt. thread_ok i"
    show "\<exists>g'. lgx_threading_init config n_processors True thread_ok g = (LGX_THREADING_SUCCESS, g') \<and> ts_initialized g' \<and>
        1 \<le> unat cnt \<and> unat cnt \<le> 128 \<and> tp_threads (ts_pool g') = unat cnt \<and> tp_deque_buffers (ts_pool g') = unat cnt \<and>
        (\<exists>g''. lgx_threading_shutdown g' = (LGX_THREADING_SUCCESS, g'') \<and> \<not> ts_initialized g'' \<and> tp_threads (ts_pool g'') = 0 \<and>
          tp_deque_buffers (ts_pool g'') = 0 \<and> \<not> tp_job_pool (ts_pool g''))"
      using c create_workers_ok[of 0 "unat cnt" thread_ok ?p] ok unfolding init
      by (simp add: zero_pool_def lgx_threading_shutdown_def pool_destroy_def)
  next
    assume m: "m < unat cnt \<and> (\<forall>i<m. thread_ok i) \<and> \<not> thread_ok m"
    then show "\<exists>g'. lgx_threading_init config n_processors True thread_ok g = (LGX_THREADING_ERROR_OPERATION_FAILED, g') \<and>
        \<not> ts_initialized g' \<and> tp_threads (ts_pool g') = 0 \<and> \<not> tp_job_pool (ts_pool g') \<and> tp_deque_buffers (ts_pool g') = Suc m"
      using create_workers_fails[of 0 m thread_ok "unat cnt" ?p] assms(1) unfolding init by (simp add: zero_pool_def)
  qed
qed

lemma pool_lifecycle_witness:
  "\<exists>g g'. \<not> ts_initialized g \<and> lgx_threading_init (Some 4) 8 True (\<lambda>i. i < 2) g = (LGX_THREADING_ERROR_OPERATION_FAILED, g') \<and>
     tp_threads (ts_pool g') = 0 \<and> tp_deque_buffers (ts_pool g') = 3"
proof -
  define g where "g = \<lparr>ts_initialized = False, ts_pool = zero_pool\<rparr>"
  have "pool_thread_count 4 8 = 4" by (simp add: pool_thread_count_def LGX_THREADING_MAX_WORKERS_def)
  then obtain g' where "lgx_threading_init (Some 4) 8 True (\<lambda>i. i < 2) g = (LGX_THREADING_ERROR_OPERATION_FAILED, g')"
      "tp_threads (ts_pool g') = 0" "tp_deque_buffers (ts_pool g') = 3"
    using pool_lifecycle[of g 8 4 "Some 4" "\<lambda>i. i < 2" 2, THEN conjunct2] by (auto simp: g_def)
  moreover have "\<not> ts_initialized g" by (simp add: g_def)
  ultimately show ?thesis by blast
qed

lemma pool_stats_bounds:
  "0 \<le> st_steal_ratio (lgx_thread_pool_get_stats w e t) \<and> st_steal_ratio (lgx_thread_pool_get_stats w e t) \<le> 1 \<and>
   0 \<le> st_avg_utilization (lgx_thread_pool_get_stats w e t) \<and> st_avg_utilization (lgx_thread_pool_get_stats w e t) \<le> 1"
proof -
  have le: "unat a \<le> unat (a + (if b > a then b - a else 0))" for a b :: u64
    by (auto simp: word_less_nat_alt word_le_nat_alt)
  have frac: "(of_nat m :: rat) / of_nat n \<le> 1" if "m \<le> n" for m n :: nat using that by (auto simp: divide_le_eq_1)
  have "(of_nat (unat a) :: rat) / of_nat (unat (a + (if b > a then b - a else 0))) \<le> 1" for a b :: u64
    by (rule frac[OF le])
  moreover have "0 \<le> (of_nat m :: rat) / of_nat n" for m n by simp
  ultimately show ?thesis by (simp add: lgx_thread_pool_get_stats_def Let_def del: of_nat_unat)
qed

end
