(* ===== verification/Chaos_Testing.thy ===== *)
theory Chaos_Testing
  imports LGX_Prelude
begin

text \<open>
  The failure injection of \<^verbatim>\<open>src/runtime/lgx_chaos_testing.c\<close>. Every question is answered under one
  mutex, so it is one step. The generator \<open>rand_r\<close> of the C library is the argument \<open>rnd\<close>: from a
  state the number and the next state; its seed by time and process number is the argument of the
  initialisation. Rates and random numbers, which are \<open>double\<close>s, are rationals. Log messages are left out.
\<close>

section \<open>State\<close>

record lgx_chaos_config =
  cc_inject_memory_pressure :: bool
  cc_failure_rate :: rat
  cc_inject_latency_spikes :: bool
  cc_max_latency_spike_ns :: u64
  cc_latency_spike_rate :: rat
  cc_inject_numa_imbalance :: bool
  cc_inject_gpu_hangs :: bool
  cc_gpu_hang_rate :: rat
  cc_inject_io_errors :: bool
  cc_io_error_rate :: rat
  cc_random_seed :: u32

record chaos_state =
  ch_enabled :: bool
  ch_config :: lgx_chaos_config
  ch_total_operations :: u64
  ch_injected_failures :: u64
  ch_injected_latency_spikes :: u64
  ch_random_state :: u32
  ch_initialized :: bool

type_synonym rand_r = "u32 \<Rightarrow> nat \<times> u32"

definition RAND_MAX :: nat where "RAND_MAX = 2147483647"

lemmas chaos_consts [lgx_consts] = RAND_MAX_def

definition zero_config :: lgx_chaos_config where
  "zero_config = \<lparr>cc_inject_memory_pressure = False, cc_failure_rate = 0, cc_inject_latency_spikes = False,
     cc_max_latency_spike_ns = 0, cc_latency_spike_rate = 0, cc_inject_numa_imbalance = False,
     cc_inject_gpu_hangs = False, cc_gpu_hang_rate = 0, cc_inject_io_errors = False, cc_io_error_rate = 0,
     cc_random_seed = 0\<rparr>"

definition zero_chaos :: chaos_state where
  "zero_chaos = \<lparr>ch_enabled = False, ch_config = zero_config, ch_total_operations = 0, ch_injected_failures = 0,
     ch_injected_latency_spikes = 0, ch_random_state = 0, ch_initialized = False\<rparr>"

section \<open>Operations\<close>

definition chaos_init :: "bool \<Rightarrow> u32 \<Rightarrow> chaos_state \<Rightarrow> lgx_result \<times> chaos_state" where
  "chaos_init mutex_ok seed s =
     (if ch_initialized s then (LGX_SUCCESS, s)
      else if \<not> mutex_ok then (LGX_ERROR_OUT_OF_MEMORY, s)
      else (LGX_SUCCESS, s\<lparr>ch_enabled := False, ch_total_operations := 0, ch_injected_failures := 0,
              ch_injected_latency_spikes := 0, ch_random_state := seed, ch_initialized := True\<rparr>))"

definition chaos_random :: "rand_r \<Rightarrow> chaos_state \<Rightarrow> rat \<times> chaos_state" where
  "chaos_random rnd s =
     (case rnd (ch_random_state s) of (r, st) \<Rightarrow> (of_nat r / of_nat RAND_MAX, s\<lparr>ch_random_state := st\<rparr>))"

definition lgx_runtime_enable_chaos_testing ::
    "bool \<Rightarrow> u32 \<Rightarrow> lgx_chaos_config option \<Rightarrow> chaos_state \<Rightarrow> lgx_result \<times> chaos_state" where
  "lgx_runtime_enable_chaos_testing mutex_ok seed config s =
     (case config of
        None \<Rightarrow> (LGX_ERROR_INVALID_PARAM, s)
      | Some c \<Rightarrow>
          (case (if ch_initialized s then (LGX_SUCCESS, s) else chaos_init mutex_ok seed s) of (r, s) \<Rightarrow>
             if r \<noteq> LGX_SUCCESS then (r, s)
             else
               let s = s\<lparr>ch_config := c\<rparr>;
                   s = (if cc_random_seed c \<noteq> 0 then s\<lparr>ch_random_state := cc_random_seed c\<rparr> else s)
               in (LGX_SUCCESS, s\<lparr>ch_total_operations := 0, ch_injected_failures := 0,
                     ch_injected_latency_spikes := 0, ch_enabled := True\<rparr>)))"

definition lgx_runtime_disable_chaos_testing :: "chaos_state \<Rightarrow> lgx_result \<times> chaos_state" where
  "lgx_runtime_disable_chaos_testing s =
     (if \<not> ch_initialized s then (LGX_SUCCESS, s) else (LGX_SUCCESS, s\<lparr>ch_enabled := False\<rparr>))"

definition lgx_runtime_is_chaos_testing_enabled :: "chaos_state \<Rightarrow> bool" where
  "lgx_runtime_is_chaos_testing_enabled s = (ch_initialized s \<and> ch_enabled s)"

definition lgx_runtime_get_chaos_config :: "chaos_state \<Rightarrow> lgx_chaos_config" where
  "lgx_runtime_get_chaos_config s = (if \<not> ch_initialized s then zero_config else ch_config s)"

definition lgx_chaos_should_fail_allocation :: "rand_r \<Rightarrow> chaos_state \<Rightarrow> bool \<times> chaos_state" where
  "lgx_chaos_should_fail_allocation rnd s =
     (if \<not> ch_initialized s \<or> \<not> ch_enabled s then (False, s)
      else if \<not> cc_inject_memory_pressure (ch_config s) then (False, s)
      else
        (case chaos_random rnd (s\<lparr>ch_total_operations := ch_total_operations s + 1\<rparr>) of (r, s) \<Rightarrow>
           if r < cc_failure_rate (ch_config s)
           then (True, s\<lparr>ch_injected_failures := ch_injected_failures s + 1\<rparr>) else (False, s)))"

text \<open>The latency to inject, if any.\<close>

definition lgx_chaos_should_inject_latency :: "rand_r \<Rightarrow> chaos_state \<Rightarrow> u64 option \<times> chaos_state" where
  "lgx_chaos_should_inject_latency rnd s =
     (if \<not> ch_initialized s \<or> \<not> ch_enabled s then (None, s)
      else if \<not> cc_inject_latency_spikes (ch_config s) then (None, s)
      else
        (case chaos_random rnd s of (r, s) \<Rightarrow>
           if r < cc_latency_spike_rate (ch_config s) then
             (case chaos_random rnd s of (f, s) \<Rightarrow>
                (Some (word_of_int \<lfloor>f * of_nat (unat (cc_max_latency_spike_ns (ch_config s)))\<rfloor>),
                 s\<lparr>ch_injected_latency_spikes := ch_injected_latency_spikes s + 1\<rparr>))
           else (None, s)))"

text \<open>The seconds and nanoseconds handed to \<open>nanosleep\<close>.\<close>

definition lgx_chaos_inject_latency :: "rand_r \<Rightarrow> chaos_state \<Rightarrow> (u64 \<times> u64) option \<times> chaos_state" where
  "lgx_chaos_inject_latency rnd s =
     (case lgx_chaos_should_inject_latency rnd s of
        (None, s) \<Rightarrow> (None, s)
      | (Some ns, s) \<Rightarrow> (Some (ns div 1000000000, ns mod 1000000000), s))"

definition lgx_chaos_should_hang_gpu :: "rand_r \<Rightarrow> chaos_state \<Rightarrow> bool \<times> chaos_state" where
  "lgx_chaos_should_hang_gpu rnd s =
     (if \<not> ch_initialized s \<or> \<not> ch_enabled s then (False, s)
      else if \<not> cc_inject_gpu_hangs (ch_config s) then (False, s)
      else (case chaos_random rnd s of (r, s) \<Rightarrow> (r < cc_gpu_hang_rate (ch_config s), s)))"

definition lgx_chaos_should_fail_io :: "rand_r \<Rightarrow> chaos_state \<Rightarrow> bool \<times> chaos_state" where
  "lgx_chaos_should_fail_io rnd s =
     (if \<not> ch_initialized s \<or> \<not> ch_enabled s then (False, s)
      else if \<not> cc_inject_io_errors (ch_config s) then (False, s)
      else (case chaos_random rnd s of (r, s) \<Rightarrow> (r < cc_io_error_rate (ch_config s), s)))"

definition lgx_chaos_get_stats :: "chaos_state \<Rightarrow> u64 \<times> u64 \<times> u64" where
  "lgx_chaos_get_stats s =
     (if \<not> ch_initialized s then (0, 0, 0)
      else (ch_total_operations s, ch_injected_failures s, ch_injected_latency_spikes s))"

section \<open>What the questions answer\<close>

datatype chaos_question = Ask_alloc | Ask_latency | Ask_gpu | Ask_io

fun ask :: "rand_r \<Rightarrow> chaos_question \<Rightarrow> chaos_state \<Rightarrow> bool \<times> chaos_state" where
  "ask rnd Ask_alloc s = lgx_chaos_should_fail_allocation rnd s"
| "ask rnd Ask_latency s = (case lgx_chaos_inject_latency rnd s of (l, s) \<Rightarrow> (l \<noteq> None, s))"
| "ask rnd Ask_gpu s = lgx_chaos_should_hang_gpu rnd s"
| "ask rnd Ask_io s = lgx_chaos_should_fail_io rnd s"

fun ask_all :: "rand_r \<Rightarrow> chaos_question list \<Rightarrow> chaos_state \<Rightarrow> bool list \<times> chaos_state" where
  "ask_all rnd [] s = ([], s)"
| "ask_all rnd (q # qs) s =
     (case ask rnd q s of (a, s) \<Rightarrow> case ask_all rnd qs s of (as, s) \<Rightarrow> (a # as, s))"

lemmas chaos_defs = lgx_chaos_should_fail_allocation_def lgx_chaos_inject_latency_def
  lgx_chaos_should_inject_latency_def lgx_chaos_should_hang_gpu_def lgx_chaos_should_fail_io_def chaos_random_def

lemma ask_off: "\<not> lgx_runtime_is_chaos_testing_enabled s \<Longrightarrow> ask rnd q s = (False, s)"
  by (cases q) (auto simp: chaos_defs lgx_runtime_is_chaos_testing_enabled_def)

lemma ask_fields:
  "ask rnd q s = (a, s') \<Longrightarrow>
     ch_config s' = ch_config s \<and> ch_enabled s' = ch_enabled s \<and> ch_initialized s' = ch_initialized s"
  by (cases q) (auto simp: chaos_defs split: prod.splits if_splits)

lemma ask_counts:
  "ask rnd q s = (a, s') \<Longrightarrow>
     ch_injected_failures s' = ch_injected_failures s + of_bool (q = Ask_alloc \<and> a) \<and>
     ch_injected_latency_spikes s' = ch_injected_latency_spikes s + of_bool (q = Ask_latency \<and> a) \<and>
     ch_total_operations s' = ch_total_operations s +
       of_bool (q = Ask_alloc \<and> lgx_runtime_is_chaos_testing_enabled s \<and> cc_inject_memory_pressure (ch_config s))"
  by (cases q) (auto simp: chaos_defs lgx_runtime_is_chaos_testing_enabled_def split: prod.splits if_splits)

text \<open>Questions that are not asked for, or asked while the testing is off, answer no.\<close>

definition asked_for :: "chaos_state \<Rightarrow> chaos_question \<Rightarrow> bool" where
  "asked_for s q = (lgx_runtime_is_chaos_testing_enabled s \<and>
     (case q of Ask_alloc \<Rightarrow> cc_inject_memory_pressure (ch_config s)
      | Ask_latency \<Rightarrow> cc_inject_latency_spikes (ch_config s)
      | Ask_gpu \<Rightarrow> cc_inject_gpu_hangs (ch_config s) | Ask_io \<Rightarrow> cc_inject_io_errors (ch_config s)))"

lemma ask_yes: "ask rnd q s = (True, s') \<Longrightarrow> asked_for s q"
  by (cases q) (auto simp: chaos_defs asked_for_def lgx_runtime_is_chaos_testing_enabled_def split: prod.splits if_splits)

lemma asked_for_ask: "ask rnd q s = (a, s') \<Longrightarrow> asked_for s' = asked_for s"
  using ask_fields[of rnd q s a s']
  by (simp add: asked_for_def lgx_runtime_is_chaos_testing_enabled_def fun_eq_iff cong: chaos_question.case_cong)

lemma ask_all_init: "ask_all rnd qs s = (as, s') \<Longrightarrow> ch_initialized s' = ch_initialized s"
proof (induction qs arbitrary: s as)
  case (Cons q qs)
  then show ?case using ask_fields[of rnd q s] by (auto split: prod.splits)
qed simp

definition yes_to :: "chaos_question \<Rightarrow> chaos_question list \<Rightarrow> bool list \<Rightarrow> nat" where
  "yes_to q qs as = length (filter (\<lambda>(x, a). x = q \<and> a) (zip qs as))"

lemma ask_all_spec:
  "ask_all rnd qs s = (as, s') \<Longrightarrow>
     length as = length qs \<and> asked_for s' = asked_for s \<and>
     (\<forall>(q, a) \<in> set (zip qs as). a \<longrightarrow> asked_for s q) \<and>
     ch_injected_failures s' = ch_injected_failures s + of_nat (yes_to Ask_alloc qs as) \<and>
     ch_injected_latency_spikes s' = ch_injected_latency_spikes s + of_nat (yes_to Ask_latency qs as) \<and>
     ch_total_operations s' = ch_total_operations s +
       of_nat (if asked_for s Ask_alloc then length (filter (\<lambda>q. q = Ask_alloc) qs) else 0)"
proof (induction qs arbitrary: s as)
  case Nil then show ?case by (simp add: yes_to_def)
next
  case (Cons q qs)
  obtain a s1 where a: "ask rnd q s = (a, s1)" by fastforce
  obtain bs where b: "ask_all rnd qs s1 = (bs, s')" "as = a # bs" using Cons.prems a by (auto split: prod.splits)
  note f = asked_for_ask[OF a] and c = ask_counts[OF a] and y = ask_yes[of rnd q s]
  show ?case using Cons.IH[OF b(1)] f c y a
    by (auto simp: b(2) yes_to_def asked_for_def algebra_simps)
qed

lemma enable_seeded:
  assumes "lgx_runtime_enable_chaos_testing mutex_ok seed (Some c) s = (LGX_SUCCESS, s0)" "cc_random_seed c \<noteq> 0"
    and "lgx_runtime_enable_chaos_testing mutex_ok2 seed2 (Some c) t = (LGX_SUCCESS, t0)"
  shows "t0 = s0"
  using assms by (auto simp: lgx_runtime_enable_chaos_testing_def chaos_init_def Let_def split: if_splits)

text \<open>
  Failure injection: from the moment it is switched on, whatever questions are asked, a question is
  answered with yes only if its kind of failure is configured; the statistics count the injected failures and
  latency spikes exactly, and the allocations asked about (modulo the width of the counters). With a seed in
  the configuration the answers do not depend on what happened before.
\<close>

theorem chaos_statistics:
  assumes on: "lgx_runtime_enable_chaos_testing mutex_ok seed (Some c) s = (LGX_SUCCESS, s0)"
    and run: "ask_all rnd qs s0 = (as, s')"
    and again: "lgx_runtime_enable_chaos_testing mutex_ok2 seed2 (Some c) t = (LGX_SUCCESS, t0)"
  shows "(\<forall>(q, a) \<in> set (zip qs as). a \<longrightarrow> asked_for s0 q) \<and>
    lgx_chaos_get_stats s' =
      (of_nat (if cc_inject_memory_pressure c then length (filter (\<lambda>q. q = Ask_alloc) qs) else 0),
       of_nat (yes_to Ask_alloc qs as), of_nat (yes_to Ask_latency qs as)) \<and>
    (cc_random_seed c \<noteq> 0 \<longrightarrow> ask_all rnd qs t0 = (as, s'))"
proof -
  have s0: "ch_enabled s0" "ch_initialized s0" "ch_config s0 = c" "ch_total_operations s0 = 0"
    "ch_injected_failures s0 = 0" "ch_injected_latency_spikes s0 = 0"
    using on by (auto simp: lgx_runtime_enable_chaos_testing_def chaos_init_def Let_def split: if_splits)
  have "ch_initialized s'" using ask_all_init[OF run] s0 by simp
  then show ?thesis using ask_all_spec[OF run] s0 enable_seeded[OF on _ again] run
    by (simp add: lgx_chaos_get_stats_def asked_for_def lgx_runtime_is_chaos_testing_enabled_def)
qed

definition demo_rand :: rand_r where
  "demo_rand st = (unat st mod (RAND_MAX + 1), st + 2000000000)"

definition chaos_demo_config :: lgx_chaos_config where
  "chaos_demo_config = zero_config\<lparr>cc_inject_memory_pressure := True, cc_failure_rate := 1 / 2, cc_random_seed := 7\<rparr>"

definition chaos_demo :: chaos_state where
  "chaos_demo = zero_chaos\<lparr>ch_enabled := True, ch_config := chaos_demo_config, ch_random_state := 7, ch_initialized := True\<rparr>"

lemma chaos_demo_on: "lgx_runtime_enable_chaos_testing True 1 (Some chaos_demo_config) zero_chaos = (LGX_SUCCESS, chaos_demo)"
  by (simp add: lgx_runtime_enable_chaos_testing_def chaos_init_def chaos_demo_def zero_chaos_def chaos_demo_config_def)

lemma chaos_demo_run:
  "ask_all demo_rand [Ask_alloc, Ask_io, Ask_alloc] chaos_demo =
     ([True, False, False], snd (ask_all demo_rand [Ask_alloc, Ask_io, Ask_alloc] chaos_demo))"
  by (simp add: chaos_defs chaos_demo_def zero_chaos_def chaos_demo_config_def zero_config_def demo_rand_def RAND_MAX_def)

theorem chaos_statistics_witness:
  "lgx_chaos_get_stats (snd (ask_all demo_rand [Ask_alloc, Ask_io, Ask_alloc] chaos_demo)) = (2, 1, 0)"
  using chaos_statistics[OF chaos_demo_on chaos_demo_run chaos_demo_on]
  by (simp add: yes_to_def chaos_demo_config_def)

end
