(* ===== verification/Hugepages.thy ===== *)
theory Hugepages
  imports LGX_Prelude
begin

text \<open>
  The huge page support of \<^verbatim>\<open>src/runtime/lgx_hugepages.c\<close>. What the kernel's files contain is an argument: the
  lines of \<^verbatim>\<open>/proc/meminfo\<close>, the first line of the transparent huge page switch, the lines of
  \<^verbatim>\<open>/proc/mounts\<close>; \<open>None\<close> if the file cannot be opened. So are the results of \<open>mmap\<close> and \<open>open\<close>.
  Calls of \<open>madvise\<close> have no effect on the state.
\<close>

section \<open>State\<close>

definition HUGEPAGE_SIZE :: u64 where "HUGEPAGE_SIZE = 2 * 1024 * 1024"
definition REGULAR_PAGE_SIZE :: u64 where "REGULAR_PAGE_SIZE = 4096"

lemmas hugepage_consts [lgx_consts] = HUGEPAGE_SIZE_def REGULAR_PAGE_SIZE_def

datatype hugepage_strategy = HUGEPAGE_STRATEGY_ALWAYS | HUGEPAGE_STRATEGY_SELECTIVE | HUGEPAGE_STRATEGY_NEVER

record hugepage_stats =
  hg_hugepage_allocations :: u64
  hg_hugepage_allocation_failures :: u64
  hg_regular_page_fallbacks :: u64
  hg_total_hugepage_bytes :: u64

record hugepage_state =
  hg_initialized :: bool
  hg_available :: bool
  hg_strategy :: hugepage_strategy
  hg_stats :: hugepage_stats
  hg_hugetlbfs_fd :: int

definition zero_hugepage_stats :: hugepage_stats where
  "zero_hugepage_stats = \<lparr>hg_hugepage_allocations = 0, hg_hugepage_allocation_failures = 0,
     hg_regular_page_fallbacks = 0, hg_total_hugepage_bytes = 0\<rparr>"

definition g_hugepage_state :: hugepage_state where
  "g_hugepage_state = \<lparr>hg_initialized = False, hg_available = False, hg_strategy = HUGEPAGE_STRATEGY_SELECTIVE,
     hg_stats = zero_hugepage_stats, hg_hugetlbfs_fd = -1\<rparr>"

record kernel_files =
  kf_meminfo :: "string list option"
  kf_thp_enabled :: "string option"
  kf_mounts :: "string list option"

section \<open>Reading the kernel's files\<close>

definition is_space :: "char \<Rightarrow> bool" where
  "is_space c = (c \<in> set [CHR 0x20, CHR 0x09, CHR 0x0A, CHR 0x0B, CHR 0x0C, CHR 0x0D])"

definition is_digit :: "char \<Rightarrow> bool" where
  "is_digit c = (48 \<le> (of_char c :: nat) \<and> (of_char c :: nat) \<le> 57)"

definition digits_value :: "string \<Rightarrow> int" where
  "digits_value ds = foldl (\<lambda>n c. 10 * n + (of_char c - 48)) 0 ds"

text \<open>The conversion \<open>%d\<close> of \<open>sscanf\<close>: white space, a sign, digits.\<close>

definition scan_int :: "string \<Rightarrow> int option" where
  "scan_int s =
     (let t = dropWhile is_space s;
          neg = (take 1 t = ''-'');
          u = (if take 1 t = ''-'' \<or> take 1 t = ''+'' then drop 1 t else t);
          ds = takeWhile is_digit u
      in if ds = [] then None else Some (if neg then - digits_value ds else digits_value ds))"

text \<open>The fields that \<open>%s\<close> yields one after the other.\<close>

fun scan_words :: "nat \<Rightarrow> string \<Rightarrow> string list" where
  "scan_words 0 s = []"
| "scan_words (Suc n) s =
     (let t = dropWhile is_space s; w = takeWhile (\<lambda>c. \<not> is_space c) t
      in if w = [] then [] else w # scan_words n (dropWhile (\<lambda>c. \<not> is_space c) t))"

definition has_prefix :: "string \<Rightarrow> string \<Rightarrow> bool" where
  "has_prefix pre s = (take (length pre) s = pre)"

fun has_infix :: "string \<Rightarrow> string \<Rightarrow> bool" where
  "has_infix pat [] = (pat = [])"
| "has_infix pat (c # s) = (has_prefix pat (c # s) \<or> has_infix pat s)"

definition check_transparent_hugepages :: "kernel_files \<Rightarrow> bool" where
  "check_transparent_hugepages k =
     (case kf_thp_enabled k of None \<Rightarrow> False | Some line \<Rightarrow> has_infix ''[always]'' line \<or> has_infix ''[madvise]'' line)"

definition detect_hugepage_support :: "kernel_files \<Rightarrow> bool" where
  "detect_hugepage_support k =
     (case kf_meminfo k of
        None \<Rightarrow> False
      | Some lines \<Rightarrow>
          let has = (case filter (has_prefix ''HugePages_Total:'') lines of
                 [] \<Rightarrow> False
               | line # _ \<Rightarrow> (case scan_int (drop 16 line) of None \<Rightarrow> False | Some n \<Rightarrow> n > 0))
          in if \<not> has then check_transparent_hugepages k else has)"

text \<open>
  The mount point, cut to the caller's buffer. \<open>None\<close>: not found. The fields are read into buffers of 256, 256
  and 64 bytes without a limit; \<open>mount_overflow\<close> says that one of them is overrun.
\<close>

definition mount_fields :: "string \<Rightarrow> (string \<times> string \<times> string) option" where
  "mount_fields line = (case scan_words 3 line of [d, p, f] \<Rightarrow> Some (d, p, f) | _ \<Rightarrow> None)"

fun find_hugetlbfs_mount :: "nat \<Rightarrow> string list \<Rightarrow> string option" where
  "find_hugetlbfs_mount path_size [] = None"
| "find_hugetlbfs_mount path_size (line # lines) =
     (case mount_fields line of
        None \<Rightarrow> find_hugetlbfs_mount path_size lines
      | Some (device, path, fstype) \<Rightarrow>
          if fstype = ''hugetlbfs'' then Some (take (path_size - 1) path) else find_hugetlbfs_mount path_size lines)"

definition mount_overflow :: "string \<Rightarrow> bool" where
  "mount_overflow line =
     (case scan_words 3 line of
        [d] \<Rightarrow> length d \<ge> 256
      | [d, p] \<Rightarrow> length d \<ge> 256 \<or> length p \<ge> 256
      | [d, p, f] \<Rightarrow> length d \<ge> 256 \<or> length p \<ge> 256 \<or> length f \<ge> 64
      | _ \<Rightarrow> False)"

section \<open>Operations\<close>

text \<open>
  \<open>adapter_has\<close>: what the hardware adapter reports, if there is one. \<open>fd\<close>: what \<open>open\<close> returns for a mount
  point.
\<close>

definition lgx_hugepages_init ::
    "kernel_files \<Rightarrow> (string \<Rightarrow> int) \<Rightarrow> bool option \<Rightarrow> hugepage_state \<Rightarrow> lgx_result \<times> hugepage_state" where
  "lgx_hugepages_init k fd adapter_has s =
     (if hg_initialized s then (LGX_SUCCESS, s)
      else
        let s = s\<lparr>hg_available := detect_hugepage_support k\<rparr>;
            s = (if adapter_has = Some False then s\<lparr>hg_available := False, hg_strategy := HUGEPAGE_STRATEGY_NEVER\<rparr> else s);
            s = (if hg_available s then
                   (case (case kf_mounts k of None \<Rightarrow> None | Some ls \<Rightarrow> find_hugetlbfs_mount 256 ls) of
                      None \<Rightarrow> s
                    | Some path \<Rightarrow> s\<lparr>hg_hugetlbfs_fd := (if fd path < 0 then -1 else fd path)\<rparr>)
                 else s)
        in (LGX_SUCCESS, s\<lparr>hg_stats := zero_hugepage_stats, hg_initialized := True\<rparr>))"

text \<open>The descriptor that is closed, if any.\<close>

definition lgx_hugepages_shutdown :: "hugepage_state \<Rightarrow> int option \<times> hugepage_state" where
  "lgx_hugepages_shutdown s =
     (if \<not> hg_initialized s then (None, s)
      else if hg_hugetlbfs_fd s \<ge> 0
      then (Some (hg_hugetlbfs_fd s), s\<lparr>hg_hugetlbfs_fd := -1, hg_initialized := False\<rparr>)
      else (None, s\<lparr>hg_initialized := False\<rparr>))"

definition hugepage_round :: "u64 \<Rightarrow> u64" where
  "hugepage_round sz = (sz + HUGEPAGE_SIZE - 1) AND NOT (HUGEPAGE_SIZE - 1)"

text \<open>\<open>huge\<close> and \<open>plain\<close>: where \<open>mmap\<close> places a mapping of that size with and without huge pages.\<close>

definition lgx_hugepages_alloc ::
    "(u64 \<Rightarrow> nat option) \<Rightarrow> (u64 \<Rightarrow> nat option) \<Rightarrow> u64 \<Rightarrow> hugepage_state \<Rightarrow> nat option \<times> hugepage_state" where
  "lgx_hugepages_alloc huge plain sz s =
     (if \<not> hg_initialized s \<or> \<not> hg_available s then (None, s)
      else
        let aligned_size = hugepage_round sz; st = hg_stats s
        in (case huge aligned_size of
              Some p \<Rightarrow> (Some p, s\<lparr>hg_stats := st\<lparr>hg_hugepage_allocations := hg_hugepage_allocations st + 1,
                             hg_total_hugepage_bytes := hg_total_hugepage_bytes st + aligned_size\<rparr>\<rparr>)
            | None \<Rightarrow>
                let st = st\<lparr>hg_hugepage_allocation_failures := hg_hugepage_allocation_failures st + 1\<rparr>
                in (case plain aligned_size of
                      Some p \<Rightarrow> (Some p, s\<lparr>hg_stats := st\<lparr>hg_regular_page_fallbacks := hg_regular_page_fallbacks st + 1\<rparr>\<rparr>)
                    | None \<Rightarrow> (None, s\<lparr>hg_stats := st\<rparr>))))"

text \<open>The mapping that is unmapped.\<close>

definition lgx_hugepages_free :: "nat option \<Rightarrow> u64 \<Rightarrow> (nat \<times> u64) option" where
  "lgx_hugepages_free ptr sz = (case ptr of None \<Rightarrow> None | Some p \<Rightarrow> Some (p, hugepage_round sz))"

definition should_use_hugepages :: "u64 \<Rightarrow> bool \<Rightarrow> bool \<Rightarrow> bool" where
  "should_use_hugepages sz is_long_lived is_hot_path =
     (if sz \<ge> HUGEPAGE_SIZE then True
      else if sz \<ge> 512 * 1024 \<and> (is_long_lived \<or> is_hot_path) then True
      else is_long_lived \<and> is_hot_path)"

definition lgx_hugepages_alloc_selective ::
    "(u64 \<Rightarrow> nat option) \<Rightarrow> (u64 \<Rightarrow> nat option) \<Rightarrow> u64 \<Rightarrow> bool \<Rightarrow> bool \<Rightarrow> hugepage_state \<Rightarrow> nat option \<times> hugepage_state" where
  "lgx_hugepages_alloc_selective huge plain sz is_long_lived is_hot_path s =
     (if \<not> hg_initialized s \<or> \<not> hg_available s then (None, s)
      else
        (case hg_strategy s of
           HUGEPAGE_STRATEGY_SELECTIVE \<Rightarrow>
             if \<not> should_use_hugepages sz is_long_lived is_hot_path then (None, s) else lgx_hugepages_alloc huge plain sz s
         | HUGEPAGE_STRATEGY_NEVER \<Rightarrow> (None, s)
         | HUGEPAGE_STRATEGY_ALWAYS \<Rightarrow> lgx_hugepages_alloc huge plain sz s))"

definition lgx_hugepages_available :: "hugepage_state \<Rightarrow> bool" where
  "lgx_hugepages_available s = (hg_initialized s \<and> hg_available s)"

definition lgx_hugepages_set_strategy :: "hugepage_strategy \<Rightarrow> hugepage_state \<Rightarrow> hugepage_state" where
  "lgx_hugepages_set_strategy strategy s = s\<lparr>hg_strategy := strategy\<rparr>"

definition lgx_hugepages_estimate_tlb_improvement :: "u64 \<Rightarrow> rat" where
  "lgx_hugepages_estimate_tlb_improvement memory_size =
     (if memory_size < HUGEPAGE_SIZE then 0
      else
        let regular_pages = (memory_size + REGULAR_PAGE_SIZE - 1) div REGULAR_PAGE_SIZE;
            huge_pages = (memory_size + HUGEPAGE_SIZE - 1) div HUGEPAGE_SIZE
        in (1 - of_nat (unat huge_pages) / of_nat (unat regular_pages)) * 100)"

section \<open>Rounding\<close>

lemma hugepage_mask: "HUGEPAGE_SIZE - 1 = mask 21"
  by (simp add: HUGEPAGE_SIZE_def mask_eq_exp_minus_1)

lemma unat_and_not_mask: "unat (x AND NOT (mask n)) = unat x div 2 ^ n * 2 ^ n" for x :: u64
proof -
  have "x AND NOT (mask n) = x AND NOT (take_bit n x)" by (rule bit_eqI) (auto simp: bit_simps)
  also have "\<dots> = x - take_bit n x" by (rule disjunctive_diff [symmetric]) (simp add: bit_simps)
  finally have eq: "x AND NOT (mask n) = x - take_bit n x" .
  have "unat (take_bit n x) = take_bit n (unat x)" by (simp only: unsigned_take_bit_eq)
  then have t: "unat (take_bit n x) = unat x mod 2 ^ n" by (simp only: take_bit_eq_mod[of n "unat x"])
  then have "take_bit n x \<le> x" by (simp add: word_le_nat_alt)
  then have "unat (x - take_bit n x) = unat x - unat x mod 2 ^ n" by (simp add: unat_sub t)
  then show ?thesis by (simp add: eq minus_mod_eq_div_mult)
qed

lemma hugepage_round_unat:
  assumes "unat sz + 2097151 < 2 ^ 64"
  shows "unat (hugepage_round sz) = (unat sz + 2097151) div 2097152 * 2097152"
proof -
  have "unat (sz + HUGEPAGE_SIZE - 1) = unat sz + 2097151"
    using unat_add_lem[of sz 2097151] assms by (simp add: HUGEPAGE_SIZE_def add_diff_eq[symmetric])
  then show ?thesis unfolding hugepage_round_def hugepage_mask by (simp add: unat_and_not_mask)
qed

text \<open>
  Huge page mappings: unless the size is within two megabytes of \<open>2 ^ 64\<close>, the mapping that an allocation asks the
  kernel for holds the requested bytes, is a whole number of huge pages and wastes less than one of them; and
  freeing with the same size unmaps exactly what was mapped.
\<close>

theorem hugepages_alloc_free:
  assumes "unat sz + 2097151 < 2 ^ 64"
    and "lgx_hugepages_alloc huge plain sz s = (Some p, s')"
  shows "\<exists>n. (huge n = Some p \<or> plain n = Some p) \<and> unat sz \<le> unat n \<and> unat n < unat sz + 2097152 \<and>
    2097152 dvd unat n \<and> lgx_hugepages_free (Some p) sz = Some (p, n)"
proof -
  have "huge (hugepage_round sz) = Some p \<or> plain (hugepage_round sz) = Some p"
    using assms(2) by (auto simp: lgx_hugepages_alloc_def Let_def split: if_splits option.splits)
  moreover have "unat sz \<le> unat (hugepage_round sz)" "unat (hugepage_round sz) < unat sz + 2097152"
    "2097152 dvd unat (hugepage_round sz)"
    using div_mult_mod_eq[of "unat sz + 2097151" 2097152] mod_less_divisor[of 2097152 "unat sz + 2097151"]
    unfolding hugepage_round_unat[OF assms(1)] by (linarith, linarith, simp)
  ultimately show ?thesis by (auto simp: lgx_hugepages_free_def)
qed

theorem hugepages_alloc_free_witness:
  "\<exists>n. unat (5 :: u64) \<le> unat n \<and> unat n < unat (5 :: u64) + 2097152 \<and> 2097152 dvd unat n \<and>
    lgx_hugepages_free (Some 4096) 5 = Some (4096, n)"
  using hugepages_alloc_free[of 5 "\<lambda>_. None" "\<lambda>_. Some 4096" "g_hugepage_state\<lparr>hg_initialized := True, hg_available := True\<rparr>" 4096]
  by (auto simp: lgx_hugepages_alloc_def g_hugepage_state_def Let_def)

text \<open>Beyond that the size wraps around: a request just below \<open>2 ^ 64\<close> bytes asks the kernel for none at all.\<close>

lemma hugepage_round_wraps: "hugepage_round (- 1) = 0"
  by (simp add: hugepage_round_def HUGEPAGE_SIZE_def)

lemma scan_mount:
  assumes "p \<noteq> []" "\<And>c. c \<in> set p \<Longrightarrow> \<not> is_space c"
  shows "scan_words 3 (''none '' @ p @ '' hugetlbfs rw'') = [''none'', p, ''hugetlbfs'']"
proof -
  have t: "takeWhile (\<lambda>c. \<not> is_space c) (p @ '' hugetlbfs rw'') = p"
    using assms(2) by (subst takeWhile_append2) (auto simp: is_space_def)
  have d: "dropWhile (\<lambda>c. \<not> is_space c) (p @ '' hugetlbfs rw'') = '' hugetlbfs rw''"
    using assms(2) by (subst dropWhile_append2) (auto simp: is_space_def)
  have e: "dropWhile is_space (p @ '' hugetlbfs rw'') = p @ '' hugetlbfs rw''"
    using assms by (cases p) auto
  have 3: "(3 :: nat) = Suc (Suc (Suc 0))" by simp
  have 1: "dropWhile is_space (''none '' @ p @ '' hugetlbfs rw'') = ''none '' @ p @ '' hugetlbfs rw''"
    "takeWhile (\<lambda>c. \<not> is_space c) (''none '' @ p @ '' hugetlbfs rw'') = ''none''"
    "dropWhile (\<lambda>c. \<not> is_space c) (''none '' @ p @ '' hugetlbfs rw'') = '' '' @ p @ '' hugetlbfs rw''"
    "dropWhile is_space ('' '' @ p @ '' hugetlbfs rw'') = dropWhile is_space (p @ '' hugetlbfs rw'')"
    by (simp_all add: is_space_def)
  have 2: "scan_words (Suc 0) '' hugetlbfs rw'' = [''hugetlbfs'']" by (simp add: is_space_def)
  have "scan_words 3 (''none '' @ p @ '' hugetlbfs rw'') = ''none'' # scan_words (Suc (Suc 0)) ('' '' @ p @ '' hugetlbfs rw'')"
    unfolding 3 scan_words.simps(2)[of "Suc (Suc 0)"] by (simp only: Let_def 1) simp
  also have "scan_words (Suc (Suc 0)) ('' '' @ p @ '' hugetlbfs rw'') = p # scan_words (Suc 0) '' hugetlbfs rw''"
    unfolding scan_words.simps(2)[of "Suc 0"] using assms(1) by (simp only: Let_def 1 e t d) simp
  finally show ?thesis by (simp only: 2)
qed

text \<open>A mount line, no longer than the line buffer, whose path overruns its own.\<close>

lemma mount_buffer_overrun:
  "\<exists>line. length line < 512 \<and> mount_overflow line \<and> find_hugetlbfs_mount 256 [line] \<noteq> None"
proof -
  obtain p :: string where p: "p = replicate 300 CHR 0x61" by blast
  have "length p = 300" "p \<noteq> []" "\<And>c. c \<in> set p \<Longrightarrow> \<not> is_space c" by (auto simp: p is_space_def)
  then show ?thesis using scan_mount[of p]
    by (intro exI[of _ "''none '' @ p @ '' hugetlbfs rw''"]) (simp add: mount_overflow_def mount_fields_def)
qed

end
