(* ===== verification/C_Heap.thy ===== *)
theory C_Heap
  imports LGX_Prelude
begin

text \<open>
  The C library's heap, as the memory manager uses it: the blocks that are allocated, with the size that
  \<open>malloc_usable_size\<close> reports. Where a block is placed and how much of it is usable is the library's choice, the
  argument \<open>M\<close>, which may depend on the number of the call and on the blocks there are.
  \<open>malloc_ok\<close> states what the C standard promises of it. A \<open>free\<close> of something that is not allocated is
  undefined behaviour and sets \<open>cx_bad\<close>.
\<close>

record c_heap =
  cx_blocks :: "nat \<rightharpoonup> nat"
  cx_calls :: nat
  cx_bad :: bool

type_synonym c_malloc = "nat \<Rightarrow> (nat \<rightharpoonup> nat) \<Rightarrow> nat \<Rightarrow> (nat \<times> nat) option"

definition malloc :: "c_malloc \<Rightarrow> nat \<Rightarrow> c_heap \<Rightarrow> nat option \<times> c_heap" where
  "malloc M n H =
     (case M (cx_calls H) (cx_blocks H) n of
        None \<Rightarrow> (None, H\<lparr>cx_calls := cx_calls H + 1\<rparr>)
      | Some (p, u) \<Rightarrow> (Some p, H\<lparr>cx_calls := cx_calls H + 1, cx_blocks := (cx_blocks H)(p \<mapsto> u)\<rparr>))"

definition c_free :: "nat \<Rightarrow> c_heap \<Rightarrow> c_heap" where
  "c_free p H =
     (if cx_blocks H p = None then H\<lparr>cx_bad := True\<rparr> else H\<lparr>cx_blocks := (cx_blocks H)(p := None)\<rparr>)"

definition malloc_usable_size :: "c_heap \<Rightarrow> nat \<Rightarrow> nat" where
  "malloc_usable_size H p = (case cx_blocks H p of None \<Rightarrow> 0 | Some u \<Rightarrow> u)"

definition block_bytes :: "nat \<Rightarrow> nat \<Rightarrow> nat set" where
  "block_bytes p u = {p..<p + u}"

definition malloc_ok :: "c_malloc \<Rightarrow> bool" where
  "malloc_ok M \<longleftrightarrow>
     (\<forall>k h n p u. M k h n = Some (p, u) \<longrightarrow>
        p \<noteq> 0 \<and> n \<le> u \<and> 0 < u \<and> (\<forall>q v. h q = Some v \<longrightarrow> block_bytes p u \<inter> block_bytes q v = {}))"

text \<open>Allocated blocks do not overlap.\<close>

definition heap_disjoint :: "c_heap \<Rightarrow> bool" where
  "heap_disjoint H \<longleftrightarrow>
     (\<forall>p u. cx_blocks H p = Some u \<longrightarrow> p \<noteq> 0 \<and> 0 < u) \<and>
     (\<forall>p q u v. cx_blocks H p = Some u \<longrightarrow> cx_blocks H q = Some v \<longrightarrow> p \<noteq> q \<longrightarrow> block_bytes p u \<inter> block_bytes q v = {})"

lemma malloc_fields [simp]: "cx_bad (snd (malloc M n H)) = cx_bad H"
  by (auto simp: malloc_def split: option.splits)

lemma malloc_None: "malloc M n H = (None, H') \<Longrightarrow> cx_blocks H' = cx_blocks H \<and> cx_bad H' = cx_bad H"
  by (auto simp: malloc_def split: option.splits)

lemma malloc_Some:
  assumes "malloc M n H = (Some p, H')" "malloc_ok M" "heap_disjoint H"
  obtains u where "cx_blocks H' = (cx_blocks H)(p \<mapsto> u)" "n \<le> u" "p \<noteq> 0" "cx_blocks H p = None" "cx_bad H' = cx_bad H"
    "M (cx_calls H) (cx_blocks H) n = Some (p, u)"
proof -
  obtain u where u: "M (cx_calls H) (cx_blocks H) n = Some (p, u)" "H' = H\<lparr>cx_calls := cx_calls H + 1, cx_blocks := (cx_blocks H)(p \<mapsto> u)\<rparr>"
    using assms(1) by (auto simp: malloc_def split: option.splits)
  have m: "p \<noteq> 0" "n \<le> u" "0 < u" "\<And>q v. cx_blocks H q = Some v \<Longrightarrow> block_bytes p u \<inter> block_bytes q v = {}"
    using assms(2) u(1) unfolding malloc_ok_def by blast+
  have "cx_blocks H p = None"
  proof (rule ccontr)
    assume "cx_blocks H p \<noteq> None"
    then obtain v where v: "cx_blocks H p = Some v" by blast
    then have "0 < v" using assms(3) by (auto simp: heap_disjoint_def)
    then show False using m(3) m(4)[OF v] by (auto simp: block_bytes_def)
  qed
  then show thesis using that u m by auto
qed

lemma malloc_disjoint:
  assumes "malloc_ok M" "heap_disjoint H" shows "heap_disjoint (snd (malloc M n H))"
proof (cases "M (cx_calls H) (cx_blocks H) n")
  case None then show ?thesis using assms by (simp add: malloc_def heap_disjoint_def)
next
  case (Some pu)
  obtain p u where pu: "pu = (p, u)" by fastforce
  have "p \<noteq> 0" "0 < u" "\<And>q v. cx_blocks H q = Some v \<Longrightarrow> block_bytes p u \<inter> block_bytes q v = {}"
    using assms(1) Some unfolding malloc_ok_def pu by blast+
  then show ?thesis using assms(2) Some by (auto simp: malloc_def heap_disjoint_def pu Int_commute)
qed

lemma c_free_fields: "cx_blocks H p \<noteq> None \<Longrightarrow> cx_blocks (c_free p H) = (cx_blocks H)(p := None) \<and> cx_bad (c_free p H) = cx_bad H"
  by (auto simp: c_free_def)

lemma c_free_disjoint: "heap_disjoint H \<Longrightarrow> heap_disjoint (c_free p H)"
  by (auto simp: heap_disjoint_def c_free_def)

end
