(* ===== verification/Lockfree_Pool.thy ===== *)
theory Lockfree_Pool
  imports C_Heap
begin

text \<open>
  The lock-free pool of \<^verbatim>\<open>src/runtime/lgx_lockfree_pool.c\<close>: a Treiber stack of free blocks per size class.
  The link of a free block lives in its first word. First the operations run alone, as the memory manager's
  model calls them, then the atomic steps of \<open>lgx_lockfree_push\<close> and \<open>lgx_lockfree_pop\<close> in any
  interleaving. \<open>MM_NUM_SIZE_CLASSES\<close> is the macro \<open>NUM_SIZE_CLASSES\<close> of the internal header.
\<close>

section \<open>State\<close>

definition MM_NUM_SIZE_CLASSES :: nat where "MM_NUM_SIZE_CLASSES = 16"

lemmas mm_consts [lgx_consts] = MM_NUM_SIZE_CLASSES_def

lemma POOL_CLASSES [simp]: "MM_NUM_SIZE_CLASSES = 16" by (simp add: MM_NUM_SIZE_CLASSES_def)

record free_block =
  fb_next :: "nat option"
  fb_generation :: u64

record lockfree_size_class_pool =
  lk_head :: "nat option"
  lk_generation :: u64
  lk_count :: u64
  lk_block_size :: nat

record lockfree_pool =
  lp_pools :: "nat \<Rightarrow> lockfree_size_class_pool"
  lp_mem :: "nat \<Rightarrow> free_block"
  lp_initialized :: bool

definition set_pool :: "nat \<Rightarrow> lockfree_size_class_pool \<Rightarrow> lockfree_pool \<Rightarrow> lockfree_pool" where
  "set_pool c q s = s\<lparr>lp_pools := (lp_pools s)(c := q)\<rparr>"

definition set_block :: "nat \<Rightarrow> free_block \<Rightarrow> lockfree_pool \<Rightarrow> lockfree_pool" where
  "set_block p b s = s\<lparr>lp_mem := (lp_mem s)(p := b)\<rparr>"

definition class_ok :: "int \<Rightarrow> bool" where
  "class_ok c = (0 \<le> c \<and> c < int MM_NUM_SIZE_CLASSES)"

section \<open>Run alone\<close>

definition lgx_lockfree_pool_init :: "nat list \<Rightarrow> nat \<Rightarrow> lockfree_pool \<Rightarrow> lgx_result \<times> lockfree_pool" where
  "lgx_lockfree_pool_init size_classes num_classes s =
     (if lp_initialized s then (LGX_SUCCESS, s)
      else if num_classes > MM_NUM_SIZE_CLASSES then (LGX_ERROR_INVALID_PARAM, s)
      else (LGX_SUCCESS,
        (foldl (\<lambda>s i. set_pool i \<lparr>lk_head = None, lk_generation = 1, lk_count = 0, lk_block_size = size_classes ! i\<rparr> s)
           s [0..<num_classes])\<lparr>lp_initialized := True\<rparr>))"

text \<open>The loop that frees one list: \<open>None\<close> if it does not end.\<close>

partial_function (option) free_list_loop :: "(nat \<Rightarrow> free_block) \<Rightarrow> nat option \<Rightarrow> c_heap \<Rightarrow> c_heap option" where
  "free_list_loop mem head H =
     (case head of None \<Rightarrow> Some H | Some p \<Rightarrow> free_list_loop mem (fb_next (mem p)) (c_free p H))"

fun shutdown_classes :: "nat list \<Rightarrow> lockfree_pool \<times> c_heap \<Rightarrow> (lockfree_pool \<times> c_heap) option" where
  "shutdown_classes [] sH = Some sH"
| "shutdown_classes (c # cs) (s, H) =
     (case free_list_loop (lp_mem s) (lk_head (lp_pools s c)) H of
        None \<Rightarrow> None
      | Some H' \<Rightarrow> shutdown_classes cs (set_pool c ((lp_pools s c)\<lparr>lk_head := None, lk_count := 0\<rparr>) s, H'))"

definition lgx_lockfree_pool_shutdown :: "lockfree_pool \<Rightarrow> c_heap \<Rightarrow> (lockfree_pool \<times> c_heap) option" where
  "lgx_lockfree_pool_shutdown s H =
     (if \<not> lp_initialized s then Some (s, H)
      else
        (case shutdown_classes [0..<MM_NUM_SIZE_CLASSES] (s, H) of
           None \<Rightarrow> None
         | Some (s, H) \<Rightarrow> Some (s\<lparr>lp_initialized := False\<rparr>, H)))"

definition lgx_lockfree_push :: "int \<Rightarrow> nat option \<Rightarrow> lockfree_pool \<Rightarrow> lockfree_pool" where
  "lgx_lockfree_push cls ptr s =
     (case ptr of
        None \<Rightarrow> s
      | Some block \<Rightarrow>
          if \<not> class_ok cls then s
          else
            let c = nat cls; pool = lp_pools s c
            in set_pool c (pool\<lparr>lk_generation := lk_generation pool + 1, lk_head := Some block, lk_count := lk_count pool + 1\<rparr>)
                 (set_block block \<lparr>fb_next = lk_head pool, fb_generation = lk_generation pool\<rparr> s))"

definition lgx_lockfree_pop :: "int \<Rightarrow> lockfree_pool \<Rightarrow> nat option \<times> lockfree_pool" where
  "lgx_lockfree_pop cls s =
     (if \<not> class_ok cls then (None, s)
      else
        let c = nat cls; pool = lp_pools s c
        in (case lk_head pool of
              None \<Rightarrow> (None, s)
            | Some block \<Rightarrow>
                (Some block,
                 set_block block ((lp_mem s block)\<lparr>fb_next := None\<rparr>)
                   (set_pool c (pool\<lparr>lk_head := fb_next (lp_mem s block), lk_count := lk_count pool - 1\<rparr>) s))))"

fun pop_batch_loop :: "int \<Rightarrow> nat \<Rightarrow> lockfree_pool \<Rightarrow> nat list \<times> lockfree_pool" where
  "pop_batch_loop cls 0 s = ([], s)"
| "pop_batch_loop cls (Suc n) s =
     (case lgx_lockfree_pop cls s of
        (None, s) \<Rightarrow> ([], s)
      | (Some block, s) \<Rightarrow> (case pop_batch_loop cls n s of (bs, s) \<Rightarrow> (block # bs, s)))"

text \<open>The blocks stored in the caller's array, in order.\<close>

definition lgx_lockfree_pop_batch :: "int \<Rightarrow> bool \<Rightarrow> int \<Rightarrow> lockfree_pool \<Rightarrow> nat list \<times> lockfree_pool" where
  "lgx_lockfree_pop_batch cls blocks_nonnull max_count s =
     (if \<not> class_ok cls \<or> \<not> blocks_nonnull \<or> max_count \<le> 0 then ([], s)
      else pop_batch_loop cls (nat max_count) s)"

definition lgx_lockfree_push_batch :: "int \<Rightarrow> nat option list option \<Rightarrow> lockfree_pool \<Rightarrow> lockfree_pool" where
  "lgx_lockfree_push_batch cls blocks s =
     (case blocks of
        None \<Rightarrow> s
      | Some bs \<Rightarrow> if \<not> class_ok cls \<or> bs = [] then s else foldl (\<lambda>s b. lgx_lockfree_push cls b s) s bs)"

definition lgx_lockfree_pool_get_count :: "int \<Rightarrow> lockfree_pool \<Rightarrow> u32" where
  "lgx_lockfree_pool_get_count cls s =
     (if \<not> class_ok cls then 0 else ucast (lk_count (lp_pools s (nat cls))))"

fun prewarm_loop :: "c_malloc \<Rightarrow> int \<Rightarrow> nat \<Rightarrow> nat \<Rightarrow> lockfree_pool \<Rightarrow> c_heap \<Rightarrow> lgx_result \<times> lockfree_pool \<times> c_heap" where
  "prewarm_loop M cls block_size 0 s H = (LGX_SUCCESS, s, H)"
| "prewarm_loop M cls block_size (Suc n) s H =
     (case malloc M block_size H of
        (None, H) \<Rightarrow> (LGX_ERROR_OUT_OF_MEMORY, s, H)
      | (Some block, H) \<Rightarrow> prewarm_loop M cls block_size n (lgx_lockfree_push cls (Some block) s) H)"

definition lgx_lockfree_pool_prewarm ::
    "c_malloc \<Rightarrow> int \<Rightarrow> int \<Rightarrow> lockfree_pool \<Rightarrow> c_heap \<Rightarrow> lgx_result \<times> lockfree_pool \<times> c_heap" where
  "lgx_lockfree_pool_prewarm M cls num_blocks s H =
     (if \<not> class_ok cls then (LGX_ERROR_INVALID_PARAM, s, H)
      else prewarm_loop M cls (lk_block_size (lp_pools s (nat cls))) (nat num_blocks) s H)"

section \<open>The stacks\<close>

text \<open>\<open>B c\<close> are the blocks of class \<open>c\<close>, from the head on.\<close>

definition pool_at :: "lockfree_pool \<Rightarrow> (nat \<Rightarrow> nat list) \<Rightarrow> bool" where
  "pool_at s B \<longleftrightarrow>
     (\<forall>c<MM_NUM_SIZE_CLASSES. linked (\<lambda>p. fb_next (lp_mem s p)) (lk_head (lp_pools s c)) (B c)) \<and>
     (\<forall>c<MM_NUM_SIZE_CLASSES. \<forall>d<MM_NUM_SIZE_CLASSES. c \<noteq> d \<longrightarrow> set (B c) \<inter> set (B d) = {})"

definition in_pool :: "(nat \<Rightarrow> nat list) \<Rightarrow> nat set" where
  "in_pool B = (\<Union>c<MM_NUM_SIZE_CLASSES. set (B c))"

lemma pool_at_cong:
  assumes "pool_at s B" "\<And>p. p \<in> in_pool B \<Longrightarrow> fb_next (lp_mem s' p) = fb_next (lp_mem s p)"
    "\<And>c. lk_head (lp_pools s' c) = lk_head (lp_pools s c)"
  shows "pool_at s' B"
proof -
  have "linked (\<lambda>p. fb_next (lp_mem s' p)) q (B c) = linked (\<lambda>p. fb_next (lp_mem s p)) q (B c)"
    if "c < MM_NUM_SIZE_CLASSES" for c q
    by (rule linked_cong) (use that assms(2) in \<open>auto simp: in_pool_def\<close>)
  then show ?thesis using assms by (simp add: pool_at_def)
qed

lemma push_at:
  assumes s: "pool_at s B" and p: "p \<notin> in_pool B" and c: "c < MM_NUM_SIZE_CLASSES"
  shows "pool_at (lgx_lockfree_push (int c) (Some p) s) (B(c := p # B c))"
proof -
  let ?s = "lgx_lockfree_push (int c) (Some p) s"
  have m: "fb_next (lp_mem ?s q) = (if q = p then lk_head (lp_pools s c) else fb_next (lp_mem s q))" for q
    using c by (simp add: lgx_lockfree_push_def class_ok_def Let_def set_pool_def set_block_def)
  have h: "lk_head (lp_pools ?s d) = (if d = c then Some p else lk_head (lp_pools s d))" for d
    using c by (simp add: lgx_lockfree_push_def class_ok_def Let_def set_pool_def set_block_def)
  have l: "linked (\<lambda>q. fb_next (lp_mem ?s q)) r (B d) = linked (\<lambda>q. fb_next (lp_mem s q)) r (B d)"
    if "d < MM_NUM_SIZE_CLASSES" for d r
    by (rule linked_cong) (use that p m in \<open>auto simp: in_pool_def\<close>)
  have n: "p \<notin> set (B d)" if "d < MM_NUM_SIZE_CLASSES" for d using p that by (auto simp: in_pool_def)
  show ?thesis using s c l n unfolding pool_at_def by (auto simp: h m)
qed

lemma pop_at:
  assumes s: "pool_at s B" and c: "c < MM_NUM_SIZE_CLASSES"
  shows "case B c of
      [] \<Rightarrow> lgx_lockfree_pop (int c) s = (None, s)
    | p # ps \<Rightarrow> \<exists>s'. lgx_lockfree_pop (int c) s = (Some p, s') \<and> pool_at s' (B(c := ps))"
proof (cases "B c")
  case Nil
  then show ?thesis using s c by (auto simp: pool_at_def lgx_lockfree_pop_def Let_def)
next
  case (Cons p ps)
  have h: "lk_head (lp_pools s c) = Some p" and ps: "linked (\<lambda>p. fb_next (lp_mem s p)) (fb_next (lp_mem s p)) ps"
    using s c Cons by (auto simp: pool_at_def)
  have d: "distinct (p # ps)" using s c Cons linked_distinct by (metis pool_at_def)
  let ?s = "snd (lgx_lockfree_pop (int c) s)"
  have r: "lgx_lockfree_pop (int c) s = (Some p, ?s)" and
    m: "fb_next (lp_mem ?s q) = (if q = p then None else fb_next (lp_mem s q))" and
    g: "lk_head (lp_pools ?s e) = (if e = c then fb_next (lp_mem s p) else lk_head (lp_pools s e))" for q e
    using c h by (simp_all add: lgx_lockfree_pop_def class_ok_def Let_def set_pool_def set_block_def)
  have l: "linked (\<lambda>q. fb_next (lp_mem ?s q)) r xs = linked (\<lambda>q. fb_next (lp_mem s q)) r xs" if "p \<notin> set xs" for r xs
    by (rule linked_cong) (use that m in auto)
  have n: "p \<notin> set (B e)" if "e < MM_NUM_SIZE_CLASSES" "e \<noteq> c" for e
    using s c that Cons by (auto simp: pool_at_def)
  have k: "x \<notin> set (B e)" if "e < MM_NUM_SIZE_CLASSES" "e \<noteq> c" "x \<in> set ps" for e x
    using s c that Cons unfolding pool_at_def by (metis disjoint_iff list.set_intros(2))
  have "pool_at ?s (B(c := ps))"
    unfolding pool_at_def using s c l n ps d Cons k by (auto simp: g pool_at_def)
  then show ?thesis using r Cons by auto
qed

lemma free_list_ends:
  assumes "linked (\<lambda>p. fb_next (mem p)) q ps" "\<And>p. p \<in> set ps \<Longrightarrow> cx_blocks H p \<noteq> None"
  shows "\<exists>H'. free_list_loop mem q H = Some H' \<and> cx_blocks H' = (\<lambda>p. if p \<in> set ps then None else cx_blocks H p) \<and>
    cx_bad H' = cx_bad H"
  using assms
proof (induction ps arbitrary: q H)
  case Nil then show ?case by (subst free_list_loop.simps) simp
next
  case (Cons p ps)
  have q: "q = Some p" and l: "linked (\<lambda>p. fb_next (mem p)) (fb_next (mem p)) ps" using Cons.prems(1) by auto
  have n: "p \<notin> set ps" using linked_distinct[OF Cons.prems(1)] by simp
  have p: "cx_blocks H p \<noteq> None" using Cons.prems(2) by simp
  have "cx_blocks (c_free p H) r \<noteq> None" if "r \<in> set ps" for r
    using that n Cons.prems(2)[of r] c_free_fields[OF p] by (metis fun_upd_apply list.set_intros(2))
  then obtain H' where "free_list_loop mem (fb_next (mem p)) (c_free p H) = Some H'"
      "cx_blocks H' = (\<lambda>r. if r \<in> set ps then None else cx_blocks (c_free p H) r)" "cx_bad H' = cx_bad (c_free p H)"
    using Cons.IH[OF l, of "c_free p H"] by blast
  then show ?case using c_free_fields[OF p] by (subst free_list_loop.simps) (auto simp: q fun_eq_iff)
qed

section \<open>Steps\<close>

text \<open>
  A thread is at its next access to shared memory. \<open>pt_held\<close> lists the blocks that the code of a thread holds:
  those that a pop returned to it and it did not push.
\<close>

datatype pool_pc =
    P_idle
  | Push_gen nat nat | Push_load nat nat | Push_link nat nat "nat option" | Push_cas nat nat "nat option" | Push_add nat
  | Pop_load nat | Pop_next nat nat | Pop_cas nat nat "nat option" | Pop_sub nat nat | Pop_clear nat

record pool_threads =
  pt_pool :: lockfree_pool
  pt_pc :: "nat \<Rightarrow> pool_pc"
  pt_held :: "nat \<Rightarrow> nat list"

definition pt_go :: "nat \<Rightarrow> pool_pc \<Rightarrow> pool_threads \<Rightarrow> pool_threads" where
  "pt_go i pc s = s\<lparr>pt_pc := (pt_pc s)(i := pc)\<rparr>"

definition pt_set :: "nat \<Rightarrow> (lockfree_size_class_pool \<Rightarrow> lockfree_size_class_pool) \<Rightarrow> pool_threads \<Rightarrow> pool_threads" where
  "pt_set c f s = s\<lparr>pt_pool := set_pool c (f (lp_pools (pt_pool s) c)) (pt_pool s)\<rparr>"

definition pt_write :: "nat \<Rightarrow> (free_block \<Rightarrow> free_block) \<Rightarrow> pool_threads \<Rightarrow> pool_threads" where
  "pt_write p f s = s\<lparr>pt_pool := set_block p (f (lp_mem (pt_pool s) p)) (pt_pool s)\<rparr>"

abbreviation pt_head :: "pool_threads \<Rightarrow> nat \<Rightarrow> nat option" where
  "pt_head s c \<equiv> lk_head (lp_pools (pt_pool s) c)"

definition lgx_lockfree_push_step :: "bool \<Rightarrow> nat \<Rightarrow> pool_threads \<Rightarrow> pool_threads" where
  "lgx_lockfree_push_step weak_fails i s =
     (case pt_pc s i of
        Push_gen c p \<Rightarrow>
          pt_go i (Push_load c p)
            (pt_write p (\<lambda>b. b\<lparr>fb_generation := lk_generation (lp_pools (pt_pool s) c)\<rparr>)
              (pt_set c (\<lambda>q. q\<lparr>lk_generation := lk_generation q + 1\<rparr>) s))
      | Push_load c p \<Rightarrow> pt_go i (Push_link c p (pt_head s c)) s
      | Push_link c p old \<Rightarrow> pt_go i (Push_cas c p old) (pt_write p (\<lambda>b. b\<lparr>fb_next := old\<rparr>) s)
      | Push_cas c p old \<Rightarrow>
          if pt_head s c = old \<and> \<not> weak_fails then pt_go i (Push_add c) (pt_set c (\<lambda>q. q\<lparr>lk_head := Some p\<rparr>) s)
          else pt_go i (Push_link c p (pt_head s c)) s
      | Push_add c \<Rightarrow> pt_go i P_idle (pt_set c (\<lambda>q. q\<lparr>lk_count := lk_count q + 1\<rparr>) s)
      | _ \<Rightarrow> s)"

definition pop_next_pc :: "nat \<Rightarrow> nat option \<Rightarrow> pool_pc" where
  "pop_next_pc c old = (case old of None \<Rightarrow> P_idle | Some p \<Rightarrow> Pop_next c p)"

definition lgx_lockfree_pop_step :: "bool \<Rightarrow> nat \<Rightarrow> pool_threads \<Rightarrow> pool_threads" where
  "lgx_lockfree_pop_step weak_fails i s =
     (case pt_pc s i of
        Pop_load c \<Rightarrow> pt_go i (pop_next_pc c (pt_head s c)) s
      | Pop_next c p \<Rightarrow> pt_go i (Pop_cas c p (fb_next (lp_mem (pt_pool s) p))) s
      | Pop_cas c p new \<Rightarrow>
          if pt_head s c = Some p \<and> \<not> weak_fails then pt_go i (Pop_sub c p) (pt_set c (\<lambda>q. q\<lparr>lk_head := new\<rparr>) s)
          else pt_go i (pop_next_pc c (pt_head s c)) s
      | Pop_sub c p \<Rightarrow> pt_go i (Pop_clear p) (pt_set c (\<lambda>q. q\<lparr>lk_count := lk_count q - 1\<rparr>) s)
      | Pop_clear p \<Rightarrow>
          (pt_go i P_idle (pt_write p (\<lambda>b. b\<lparr>fb_next := None\<rparr>) s))\<lparr>pt_held := (pt_held s)(i := p # pt_held s i)\<rparr>
      | _ \<Rightarrow> s)"

datatype pool_action = Start_push nat nat nat | Start_pop nat nat | Pool_step bool nat

text \<open>A thread pushes only a block it holds, to a class that exists.\<close>

definition pool_step :: "pool_action \<Rightarrow> pool_threads \<Rightarrow> pool_threads option" where
  "pool_step a s =
     (case a of
        Start_push i c p \<Rightarrow>
          if pt_pc s i = P_idle \<and> c < MM_NUM_SIZE_CLASSES \<and> p \<in> set (pt_held s i)
          then Some ((pt_go i (Push_gen c p) s)\<lparr>pt_held := (pt_held s)(i := remove1 p (pt_held s i))\<rparr>) else None
      | Start_pop i c \<Rightarrow>
          if pt_pc s i = P_idle \<and> c < MM_NUM_SIZE_CLASSES then Some (pt_go i (Pop_load c) s) else None
      | Pool_step weak i \<Rightarrow>
          Some (case pt_pc s i of
              Push_gen _ _ \<Rightarrow> lgx_lockfree_push_step weak i s | Push_load _ _ \<Rightarrow> lgx_lockfree_push_step weak i s
            | Push_link _ _ _ \<Rightarrow> lgx_lockfree_push_step weak i s | Push_cas _ _ _ \<Rightarrow> lgx_lockfree_push_step weak i s
            | Push_add _ \<Rightarrow> lgx_lockfree_push_step weak i s | _ \<Rightarrow> lgx_lockfree_pop_step weak i s))"

fun pool_exec :: "pool_action list \<Rightarrow> pool_threads \<Rightarrow> pool_threads option" where
  "pool_exec [] s = Some s"
| "pool_exec (a # as) s = (case pool_step a s of None \<Rightarrow> None | Some s \<Rightarrow> pool_exec as s)"

lemmas pool_step_defs = pool_step_def lgx_lockfree_push_step_def lgx_lockfree_pop_step_def pop_next_pc_def
  pt_go_def pt_set_def pt_write_def set_pool_def set_block_def

definition idle_threads :: "lockfree_pool \<Rightarrow> (nat \<Rightarrow> nat list) \<Rightarrow> pool_threads" where
  "idle_threads q held = \<lparr>pt_pool = q, pt_pc = (\<lambda>_. P_idle), pt_held = held\<rparr>"

definition solo :: "nat \<Rightarrow> nat \<Rightarrow> pool_action list" where
  "solo i n = replicate n (Pool_step False i)"

lemma pool_exec_append: "pool_exec (as @ bs) s = (case pool_exec as s of None \<Rightarrow> None | Some s \<Rightarrow> pool_exec bs s)"
  by (induction as arbitrary: s) (auto split: option.splits)

text \<open>Run without interruption, the steps are the operations.\<close>

lemma push_uninterrupted_pool:
  assumes "c < MM_NUM_SIZE_CLASSES" "p \<in> set (held i)"
  shows "pool_exec (Start_push i c p # solo i 5) (idle_threads q held) =
    Some (idle_threads (lgx_lockfree_push (int c) (Some p) q) (held(i := remove1 p (held i))))"
  using assms
  by (cases "lp_mem q p") (simp add: solo_def numeral_eq_Suc pool_step_defs idle_threads_def lgx_lockfree_push_def class_ok_def Let_def fun_upd_idem_iff)

lemma pop_uninterrupted_pool:
  assumes "c < MM_NUM_SIZE_CLASSES" "lk_head (lp_pools q c) = Some p"
  shows "pool_exec (Start_pop i c # solo i 5) (idle_threads q held) =
    Some (idle_threads (snd (lgx_lockfree_pop (int c) q)) (held(i := p # held i))) \<and>
    fst (lgx_lockfree_pop (int c) q) = Some p"
  using assms
  by (simp add: solo_def numeral_eq_Suc pool_step_defs idle_threads_def lgx_lockfree_pop_def class_ok_def Let_def fun_upd_idem_iff)

definition two_blocks :: lockfree_pool where
  "two_blocks = lgx_lockfree_push 0 (Some 1) (lgx_lockfree_push 0 (Some 2)
     (snd (lgx_lockfree_pool_init [16] 1 \<lparr>lp_pools = (\<lambda>_. \<lparr>lk_head = None, lk_generation = 0, lk_count = 0, lk_block_size = 0\<rparr>),
        lp_mem = (\<lambda>_. \<lparr>fb_next = None, fb_generation = 0\<rparr>), lp_initialized = False\<rparr>)))"

text \<open>
  Thread 0 reads the head, block 1, and its link to block 2. Thread 1 pops both and pushes block 1, with a
  new generation. The compare-and-swap of thread 0 looks at the head alone, succeeds, and makes block 2, which
  thread 1 holds, the head.
\<close>

definition aba_schedule :: "pool_action list" where
  "aba_schedule = Start_pop 0 0 # solo 0 2 @ (Start_pop 1 0 # solo 1 5) @ (Start_pop 1 0 # solo 1 5) @
     (Start_push 1 0 1 # solo 1 5) @ solo 0 3 @ (Start_pop 0 0 # solo 0 5)"

text \<open>
  The generation counters do not protect the lock-free pool from the ABA problem: from two free blocks,
  pops and pushes of two threads, each pushing only what it holds, lead to a state in which both threads
  hold the same block. (The generation of the block differs from the one it had when it was read.)
\<close>

theorem lockfree_pool_aba:
  "\<exists>s. pool_exec aba_schedule (idle_threads two_blocks (\<lambda>_. [])) = Some s \<and>
     2 \<in> set (pt_held s 0) \<and> 2 \<in> set (pt_held s 1) \<and>
     fb_generation (lp_mem (pt_pool s) 1) \<noteq> fb_generation (lp_mem two_blocks 1)"
  by (simp add: aba_schedule_def solo_def numeral_eq_Suc pool_step_defs idle_threads_def two_blocks_def
        lgx_lockfree_push_def lgx_lockfree_pool_init_def class_ok_def Let_def)

end
