(* ===== verification/Memory_Cache.thy ===== *)
theory Memory_Cache
  imports Lockfree_Pool
begin

text \<open>
  The data of the memory manager (\<^verbatim>\<open>src/runtime/lgx_memory_manager.c\<close>) that belongs to one thread: the
  cache of free blocks per size class, the blocks allocated in advance for the hot path, and the statistics by
  which the cache adapts itself. Array fields are functions of the index; indices, counts and capacities, which
  stay below 513, are natural numbers; the counter of the hot path keeps its 64 bits, and is read through a
  \<open>uint32_t\<close>. Scores and rates are rationals. A reading of the clock is an argument.
\<close>

section \<open>Configuration\<close>

definition MAX_SMALL_SIZE :: nat where "MAX_SMALL_SIZE = 4096"
definition MAX_MEDIUM_SIZE :: nat where "MAX_MEDIUM_SIZE = 64 * 1024"
definition THREAD_CACHE_SIZE :: nat where "THREAD_CACHE_SIZE = 256"
definition BATCH_REFILL_SIZE_MIN :: nat where "BATCH_REFILL_SIZE_MIN = 32"
definition BATCH_REFILL_SIZE_MAX :: nat where "BATCH_REFILL_SIZE_MAX = 256"
definition REFILL_THRESHOLD_AGGRESSIVE :: nat where "REFILL_THRESHOLD_AGGRESSIVE = 192"
definition REFILL_THRESHOLD_MODERATE :: nat where "REFILL_THRESHOLD_MODERATE = 128"
definition REFILL_THRESHOLD_CONSERVATIVE :: nat where "REFILL_THRESHOLD_CONSERVATIVE = 64"
definition HOT_PATH_SIZE_CLASSES :: nat where "HOT_PATH_SIZE_CLASSES = 8"
definition HOT_PATH_CACHE_SIZE :: nat where "HOT_PATH_CACHE_SIZE = 512"

lemmas cache_consts [lgx_consts] = MAX_SMALL_SIZE_def MAX_MEDIUM_SIZE_def THREAD_CACHE_SIZE_def BATCH_REFILL_SIZE_MIN_def
  BATCH_REFILL_SIZE_MAX_def REFILL_THRESHOLD_AGGRESSIVE_def REFILL_THRESHOLD_MODERATE_def
  REFILL_THRESHOLD_CONSERVATIVE_def HOT_PATH_SIZE_CLASSES_def HOT_PATH_CACHE_SIZE_def

lemma HOT_CLASSES [simp]: "HOT_PATH_SIZE_CLASSES = 8" by (simp add: HOT_PATH_SIZE_CLASSES_def)
lemma HOT_CACHE_SIZE [simp]: "HOT_PATH_CACHE_SIZE = 512" by (simp add: HOT_PATH_CACHE_SIZE_def)

definition size_classes :: "nat list" where
  "size_classes = [16, 32, 48, 64, 96, 128, 192, 256, 384, 512, 768, 1024, 1536, 2048, 3072, 4096]"

definition hot_path_sizes :: "nat list" where
  "hot_path_sizes = [64, 128, 256, 512, 1024, 2048, 4096, 8192]"

fun class_search :: "nat \<Rightarrow> nat \<Rightarrow> nat list \<Rightarrow> int" where
  "class_search n i [] = -1"
| "class_search n i (c # cs) = (if n \<le> c then int i else class_search n (i + 1) cs)"

definition get_size_class_index :: "nat \<Rightarrow> int" where
  "get_size_class_index n = class_search n 0 size_classes"

definition get_hot_path_size_class :: "nat \<Rightarrow> int" where
  "get_hot_path_size_class n =
     (if n \<le> 64 then 0 else if n \<le> 128 then 1 else if n \<le> 256 then 2 else if n \<le> 512 then 3
      else if n \<le> 1024 then 4 else if n \<le> 2048 then 5 else if n \<le> 4096 then 6 else if n \<le> 8192 then 7 else -1)"

section \<open>The cache of a thread\<close>

record hot_path_cache =
  hp_blocks :: "nat \<Rightarrow> nat \<Rightarrow> nat option"
  hp_next_free :: "nat \<Rightarrow> u64"
  hp_watermark :: "nat \<Rightarrow> nat"
  hp_last_access :: "nat \<Rightarrow> u64"
  hp_hit_count :: "nat \<Rightarrow> u64"
  hp_miss_count :: "nat \<Rightarrow> u64"

record thread_cache =
  tc_slots :: "nat \<Rightarrow> nat \<Rightarrow> nat option"
  tc_count :: "nat \<Rightarrow> nat"
  tc_capacity :: "nat \<Rightarrow> nat"
  tc_cache_hits :: u64
  tc_cache_misses :: u64
  tc_size_class_hits :: "nat \<Rightarrow> u64"
  tc_size_class_misses :: "nat \<Rightarrow> u64"
  tc_last_adaptation_time :: u64
  tc_allocation_count_since_adapt :: u64
  tc_refill_threshold :: "nat \<Rightarrow> nat"
  tc_refill_batch_size :: "nat \<Rightarrow> nat"
  tc_last_refill_time :: "nat \<Rightarrow> u64"
  tc_consecutive_misses :: "nat \<Rightarrow> u32"
  tc_size_class_histogram :: "nat \<Rightarrow> u64"
  tc_pattern_analysis_count :: u64
  tc_last_pattern_analysis_time :: u64
  tc_size_class_hotness :: "nat \<Rightarrow> rat"
  tc_is_hot_size_class :: "nat \<Rightarrow> bool"
  tc_last_size_class :: u8
  tc_transition_matrix :: "nat \<Rightarrow> nat \<Rightarrow> u32"
  tc_predicted_next :: "nat \<Rightarrow> nat"
  tc_prediction_confidence :: "nat \<Rightarrow> rat"
  tc_transition_count :: u64
  tc_last_prediction_update :: u64
  tc_hot_path :: hot_path_cache

text \<open>A cache after \<open>memset\<close>.\<close>

definition zero_hot_path :: hot_path_cache where
  "zero_hot_path = \<lparr>hp_blocks = (\<lambda>_ _. None), hp_next_free = (\<lambda>_. 0), hp_watermark = (\<lambda>_. 0),
     hp_last_access = (\<lambda>_. 0), hp_hit_count = (\<lambda>_. 0), hp_miss_count = (\<lambda>_. 0)\<rparr>"

definition zero_cache :: thread_cache where
  "zero_cache = \<lparr>tc_slots = (\<lambda>_ _. None), tc_count = (\<lambda>_. 0), tc_capacity = (\<lambda>_. 0), tc_cache_hits = 0, tc_cache_misses = 0,
     tc_size_class_hits = (\<lambda>_. 0), tc_size_class_misses = (\<lambda>_. 0), tc_last_adaptation_time = 0,
     tc_allocation_count_since_adapt = 0, tc_refill_threshold = (\<lambda>_. 0), tc_refill_batch_size = (\<lambda>_. 0),
     tc_last_refill_time = (\<lambda>_. 0), tc_consecutive_misses = (\<lambda>_. 0), tc_size_class_histogram = (\<lambda>_. 0),
     tc_pattern_analysis_count = 0, tc_last_pattern_analysis_time = 0, tc_size_class_hotness = (\<lambda>_. 0),
     tc_is_hot_size_class = (\<lambda>_. False), tc_last_size_class = 0, tc_transition_matrix = (\<lambda>_ _. 0),
     tc_predicted_next = (\<lambda>_. 0), tc_prediction_confidence = (\<lambda>_. 0), tc_transition_count = 0,
     tc_last_prediction_update = 0, tc_hot_path = zero_hot_path\<rparr>"

definition init_refill_strategy :: "thread_cache \<Rightarrow> thread_cache" where
  "init_refill_strategy c = c\<lparr>tc_refill_threshold := (\<lambda>_. REFILL_THRESHOLD_MODERATE), tc_refill_batch_size := (\<lambda>_. 64),
     tc_last_refill_time := (\<lambda>_. 0), tc_consecutive_misses := (\<lambda>_. 0)\<rparr>"

definition init_pattern_tracking :: "u64 \<Rightarrow> thread_cache \<Rightarrow> thread_cache" where
  "init_pattern_tracking now c = c\<lparr>tc_size_class_histogram := (\<lambda>_. 0), tc_size_class_hotness := (\<lambda>_. 0),
     tc_is_hot_size_class := (\<lambda>_. False), tc_pattern_analysis_count := 0, tc_last_pattern_analysis_time := now\<rparr>"

definition init_markov_chain :: "u64 \<Rightarrow> thread_cache \<Rightarrow> thread_cache" where
  "init_markov_chain now c = c\<lparr>tc_last_size_class := 0xFF, tc_transition_matrix := (\<lambda>_ _. 0), tc_predicted_next := (\<lambda>_. 0),
     tc_prediction_confidence := (\<lambda>_. 0), tc_transition_count := 0, tc_last_prediction_update := now\<rparr>"

text \<open>The blocks of one hot class, allocated until there are 512 or \<open>malloc\<close> fails.\<close>

fun prewarm_class :: "c_malloc \<Rightarrow> nat \<Rightarrow> nat \<Rightarrow> c_heap \<Rightarrow> nat list \<times> c_heap" where
  "prewarm_class M block_size 0 H = ([], H)"
| "prewarm_class M block_size (Suc n) H =
     (case malloc M block_size H of
        (None, H) \<Rightarrow> ([], H)
      | (Some p, H) \<Rightarrow> (case prewarm_class M block_size n H of (ps, H) \<Rightarrow> (p # ps, H)))"

definition fill_hot_class :: "nat \<Rightarrow> u64 \<Rightarrow> nat list \<Rightarrow> hot_path_cache \<Rightarrow> hot_path_cache" where
  "fill_hot_class h now ps hc =
     hc\<lparr>hp_blocks := (hp_blocks hc)(h := (\<lambda>i. if i < length ps then Some (ps ! i) else hp_blocks hc h i)),
        hp_next_free := (hp_next_free hc)(h := 0), hp_watermark := (hp_watermark hc)(h := length ps),
        hp_hit_count := (hp_hit_count hc)(h := 0), hp_miss_count := (hp_miss_count hc)(h := 0),
        hp_last_access := (hp_last_access hc)(h := now)\<rparr>"

fun prewarm_hot_classes :: "c_malloc \<Rightarrow> u64 \<Rightarrow> nat list \<Rightarrow> hot_path_cache \<Rightarrow> c_heap \<Rightarrow> hot_path_cache \<times> c_heap" where
  "prewarm_hot_classes M now [] hc H = (hc, H)"
| "prewarm_hot_classes M now (h # hs) hc H =
     (case prewarm_class M (hot_path_sizes ! h) HOT_PATH_CACHE_SIZE H of
        (ps, H) \<Rightarrow> prewarm_hot_classes M now hs (fill_hot_class h now ps hc) H)"

definition prewarm_hot_path_cache :: "c_malloc \<Rightarrow> u64 \<Rightarrow> hot_path_cache \<Rightarrow> c_heap \<Rightarrow> hot_path_cache \<times> c_heap" where
  "prewarm_hot_path_cache M now hc H = prewarm_hot_classes M now [0..<HOT_PATH_SIZE_CLASSES] hc H"

text \<open>The part of \<open>get_thread_cache\<close> that sets up a new cache.\<close>

definition new_thread_cache :: "c_malloc \<Rightarrow> u64 \<Rightarrow> c_heap \<Rightarrow> thread_cache \<times> c_heap" where
  "new_thread_cache M now H =
     (let c = zero_cache\<lparr>tc_capacity := (\<lambda>_. 32), tc_last_adaptation_time := now\<rparr>;
          c = init_markov_chain now (init_pattern_tracking now (init_refill_strategy c))
      in (case prewarm_hot_path_cache M now (tc_hot_path c) H of (hc, H) \<Rightarrow> (c\<lparr>tc_hot_path := hc\<rparr>, H)))"

section \<open>Size classes\<close>

lemma class_search_spec:
  "class_search n i cs = -1 \<and> (\<forall>c\<in>set cs. c < n) \<or>
   (\<exists>k<length cs. class_search n i cs = int (i + k) \<and> n \<le> cs ! k \<and> (\<forall>j<k. cs ! j < n))"
proof (induction cs arbitrary: i)
  case (Cons c cs)
  show ?case
  proof (cases "n \<le> c")
    case False
    then show ?thesis using Cons[of "i + 1"]
    proof (elim disjE exE conjE)
      fix k assume k: "k < length cs" "class_search n (i + 1) cs = int (i + 1 + k)" "n \<le> cs ! k" "\<forall>j<k. cs ! j < n"
      have "\<forall>j<Suc k. (c # cs) ! j < n" using k(4) False by (auto simp: less_Suc_eq_0_disj)
      then show ?thesis using k False by (intro disjI2 exI[of _ "Suc k"]) auto
    qed auto
  qed (auto intro!: exI[of _ 0])
qed simp

lemma length_size_classes [simp]: "length size_classes = 16" by (simp add: size_classes_def)

lemma length_hot_path_sizes [simp]: "length hot_path_sizes = 8" by (simp add: hot_path_sizes_def)

lemma size_class_index_cases:
  obtains "get_size_class_index n = -1" "4096 < n"
  | k where "k < 16" "get_size_class_index n = int k" "n \<le> size_classes ! k" "n \<le> 4096" "\<forall>j<k. size_classes ! j < n"
proof -
  have le: "size_classes ! k \<le> 4096" if "k < 16" for k
  proof -
    have "size_classes ! k \<in> set size_classes" using that by simp
    then show ?thesis by (auto simp: size_classes_def)
  qed
  show thesis using class_search_spec[of n 0 size_classes]
  proof (elim disjE exE conjE)
    assume "class_search n 0 size_classes = -1" "\<forall>c\<in>set size_classes. c < n"
    then show thesis using that(1) by (simp add: get_size_class_index_def size_classes_def)
  next
    fix k assume "k < length size_classes" "class_search n 0 size_classes = int (0 + k)" "n \<le> size_classes ! k"
      "\<forall>j<k. size_classes ! j < n"
    then show thesis using that(2)[of k] le[of k] by (simp add: get_size_class_index_def)
  qed
qed

lemma size_class_index_exact:
  assumes "u \<in> set size_classes" "get_size_class_index u = int k" shows "size_classes ! k = u"
proof -
  obtain j where j: "j < 16" "size_classes ! j = u" using assms(1) by (auto simp: in_set_conv_nth)
  show ?thesis
  proof (rule size_class_index_cases[of u])
    fix i assume i: "i < 16" "get_size_class_index u = int i" "u \<le> size_classes ! i" "\<forall>j<i. size_classes ! j < u"
    have "i \<le> j" using i(4) j by (metis less_irrefl not_le_imp_less)
    moreover have "sorted size_classes" by (simp add: size_classes_def)
    then have "size_classes ! i \<le> size_classes ! j" using \<open>i \<le> j\<close> j(1) by (simp add: sorted_nth_mono)
    ultimately show ?thesis using i j assms(2) by simp
  qed (use assms(2) in auto)
qed

lemma hot_class_cases:
  obtains "get_hot_path_size_class n = -1" "8192 < n"
  | h where "h < 8" "get_hot_path_size_class n = int h" "n \<le> hot_path_sizes ! h" "n \<le> 8192"
proof (cases "8192 < n")
  case True then show thesis using that(1) by (simp add: get_hot_path_size_class_def)
next
  case False
  then have "get_hot_path_size_class n \<in> {0, 1, 2, 3, 4, 5, 6, 7} \<and> n \<le> hot_path_sizes ! nat (get_hot_path_size_class n)"
    by (auto simp: get_hot_path_size_class_def hot_path_sizes_def)
  then show thesis using that(2)[of "nat (get_hot_path_size_class n)"] False by auto
qed

end
