(* ===== verification/Memory_Manager.thy ===== *)
theory Memory_Manager
  imports Memory_Cache Chaos_Testing Hugepages
begin

text \<open>
  The memory manager (\<^verbatim>\<open>src/runtime/lgx_memory_manager.c\<close>): a cache per thread in front of the lock-free
  pool in front of the C library, tracking of allocations with an intent, initialisation and shutdown.
  A thread's cache is stored under the thread's number, which stands for the pointer in the thread-local storage and
  in the list of caches. An operation touches the caller's own cache, the pool, the C heap and, under a mutex, the
  table of tracked allocations; calls of different threads are interleaved as wholes (the pool's own
  interleavings are in its theory).
\<close>

section \<open>State\<close>

datatype lgx_access_pattern = LGX_ACCESS_SEQUENTIAL | LGX_ACCESS_RANDOM | LGX_ACCESS_WRITE_ONCE | LGX_ACCESS_UNKNOWN
datatype lgx_lifetime = LGX_LIFETIME_FRAME | LGX_LIFETIME_LEVEL | LGX_LIFETIME_SESSION | LGX_LIFETIME_UNKNOWN
datatype lgx_performance_hint =
    LGX_HINT_CRITICAL_PATH | LGX_HINT_BACKGROUND | LGX_HINT_BANDWIDTH_HUNGRY | LGX_HINT_COMPUTE_HEAVY | LGX_HINT_GPU_SHARED
datatype lgx_intent_validation = LGX_INTENT_TRUST | LGX_INTENT_VALIDATE_WARN | LGX_INTENT_VALIDATE_ADAPT

record lgx_allocation_intent_base =
  in_struct_size :: nat
  in_size :: nat
  in_access_pattern :: lgx_access_pattern
  in_lifetime :: lgx_lifetime
  in_hint :: lgx_performance_hint
  in_validation_policy :: lgx_intent_validation

record allocation_header =
  ah_generation :: u64
  ah_size :: nat
  ah_size_class :: u32
  ah_magic :: u32
  ah_intent :: lgx_allocation_intent_base
  ah_allocation_time :: u64
  ah_user_ptr :: nat

record size_class_pool =
  sp_block_count :: nat
  sp_total_allocated :: nat
  sp_slab_count :: nat

definition MAX_THREADS :: nat where "MAX_THREADS = 64"
definition pool_size_per_thread :: nat where "pool_size_per_thread = 16 * 1024 * 1024"

record thread_pool_slice =
  ts_base :: "nat option"
  ts_offset :: nat
  ts_capacity :: nat

record memory_manager =
  mm_memory_pool_size :: nat
  mm_use_huge_pages :: bool
  mm_pools :: "nat \<Rightarrow> size_class_pool"
  mm_caches :: "nat \<rightharpoonup> thread_cache"
  mm_cache_list :: "nat list"
  mm_cache_capacity :: nat
  mm_total_allocations :: u64
  mm_total_deallocations :: u64
  mm_cache_hits :: u64
  mm_cache_misses :: u64
  mm_generation_counter :: u64
  mm_tracked :: "allocation_header list"
  mm_tracked_capacity :: nat
  mm_thread_pools :: "thread_pool_slice list"
  mm_lockfree :: lockfree_pool
  mm_hugepages :: hugepage_state
  mm_chaos :: chaos_state
  mm_heap :: c_heap

text \<open>
  What the surroundings answer during one call: \<open>malloc\<close>, \<open>posix_memalign\<close> by alignment, \<open>rand_r\<close>, the clock,
  and whether there is memory for a new cache, for the list of caches and for the table of tracked allocations.
\<close>

record mm_env =
  me_malloc :: c_malloc
  me_memalign :: "nat \<Rightarrow> c_malloc"
  me_rand :: rand_r
  me_now :: u64
  me_cache_ok :: bool
  me_list_ok :: bool
  me_track_ok :: bool

definition set_cache :: "nat \<Rightarrow> thread_cache \<Rightarrow> memory_manager \<Rightarrow> memory_manager" where
  "set_cache i c s = s\<lparr>mm_caches := (mm_caches s)(i \<mapsto> c)\<rparr>"

definition mm_malloc :: "mm_env \<Rightarrow> nat \<Rightarrow> memory_manager \<Rightarrow> nat option \<times> memory_manager" where
  "mm_malloc e n s = (case malloc (me_malloc e) n (mm_heap s) of (p, H) \<Rightarrow> (p, s\<lparr>mm_heap := H\<rparr>))"

section \<open>Tracking\<close>

definition track_allocation :: "mm_env \<Rightarrow> nat \<Rightarrow> nat \<Rightarrow> lgx_allocation_intent_base \<Rightarrow> memory_manager \<Rightarrow> memory_manager" where
  "track_allocation e ptr n intent s =
     (if length (mm_tracked s) \<ge> mm_tracked_capacity s \<and> \<not> me_track_ok e then s
      else
        let s = (if length (mm_tracked s) \<ge> mm_tracked_capacity s
                 then s\<lparr>mm_tracked_capacity := mm_tracked_capacity s * 2\<rparr> else s);
            entry = \<lparr>ah_generation = mm_generation_counter s, ah_size = n, ah_size_class = word_of_int (get_size_class_index n),
                     ah_magic = 0xDEADBEEF, ah_intent = intent, ah_allocation_time = me_now e, ah_user_ptr = ptr\<rparr>
        in s\<lparr>mm_tracked := mm_tracked s @ [entry], mm_generation_counter := mm_generation_counter s + 1\<rparr>)"

definition track_if :: "mm_env \<Rightarrow> nat option \<Rightarrow> nat \<Rightarrow> lgx_allocation_intent_base option \<Rightarrow> memory_manager \<Rightarrow> memory_manager" where
  "track_if e ptr n intent s =
     (case (ptr, intent) of (Some p, Some it) \<Rightarrow> track_allocation e p n it s | _ \<Rightarrow> s)"

text \<open>The first entry of the pointer is overwritten by the last one.\<close>

definition untrack_list :: "nat \<Rightarrow> allocation_header list \<Rightarrow> allocation_header list" where
  "untrack_list ptr xs =
     (let i = length (takeWhile (\<lambda>h. ah_user_ptr h \<noteq> ptr) xs)
      in if i \<ge> length xs then xs else butlast (if i < length xs - 1 then xs[i := xs ! (length xs - 1)] else xs))"

definition untrack_allocation :: "nat \<Rightarrow> memory_manager \<Rightarrow> memory_manager" where
  "untrack_allocation ptr s = s\<lparr>mm_tracked := untrack_list ptr (mm_tracked s)\<rparr>"

section \<open>Thread caches\<close>

text \<open>
  The caller's cache, which its first call creates and registers. When the list of caches cannot grow, the new
  cache is given up.
\<close>

definition get_thread_cache :: "mm_env \<Rightarrow> nat \<Rightarrow> memory_manager \<Rightarrow> thread_cache option \<times> memory_manager" where
  "get_thread_cache e i s =
     (case mm_caches s i of
        Some c \<Rightarrow> (Some c, s)
      | None \<Rightarrow>
          if \<not> me_cache_ok e then (None, s)
          else
            (case new_thread_cache (me_malloc e) (me_now e) (mm_heap s) of (c, H) \<Rightarrow>
               let s = s\<lparr>mm_heap := H\<rparr>; full = (length (mm_cache_list s) \<ge> mm_cache_capacity s)
               in if full \<and> \<not> me_list_ok e then (None, s)
                  else
                    let s = (if full then s\<lparr>mm_cache_capacity := (if mm_cache_capacity s * 2 = 0 then 64 else mm_cache_capacity s * 2)\<rparr> else s)
                    in if length (mm_cache_list s) < mm_cache_capacity s
                       then (Some c, set_cache i c (s\<lparr>mm_cache_list := mm_cache_list s @ [i]\<rparr>))
                       else (None, s)))"

section \<open>Allocation\<close>

text \<open>The two calls of the failure injection at the start of the allocation functions.\<close>

definition chaos_gate :: "mm_env \<Rightarrow> memory_manager \<Rightarrow> bool \<times> memory_manager" where
  "chaos_gate e s =
     (case lgx_chaos_should_fail_allocation (me_rand e) (mm_chaos s) of
        (True, ch) \<Rightarrow> (True, s\<lparr>mm_chaos := ch\<rparr>)
      | (False, ch) \<Rightarrow> (case lgx_chaos_inject_latency (me_rand e) ch of (_, ch) \<Rightarrow> (False, s\<lparr>mm_chaos := ch\<rparr>)))"

definition malloc_tracked ::
    "mm_env \<Rightarrow> nat \<Rightarrow> nat \<Rightarrow> lgx_allocation_intent_base option \<Rightarrow> memory_manager \<Rightarrow> nat option \<times> memory_manager" where
  "malloc_tracked e request n intent s =
     (case mm_malloc e request s of (p, s) \<Rightarrow> (p, track_if e p n intent s))"

definition allocate_medium ::
    "mm_env \<Rightarrow> nat \<Rightarrow> lgx_allocation_intent_base option \<Rightarrow> memory_manager \<Rightarrow> nat option \<times> memory_manager" where
  "allocate_medium e n intent s =
     (case chaos_gate e s of (True, s) \<Rightarrow> (None, s) | (False, s) \<Rightarrow> malloc_tracked e n n intent s)"

definition allocate_large ::
    "mm_env \<Rightarrow> nat \<Rightarrow> lgx_allocation_intent_base option \<Rightarrow> memory_manager \<Rightarrow> nat option \<times> memory_manager" where
  "allocate_large e n intent s =
     (case chaos_gate e s of (True, s) \<Rightarrow> (None, s) | (False, s) \<Rightarrow> malloc_tracked e n n intent s)"

definition cache_pop :: "nat \<Rightarrow> thread_cache \<Rightarrow> nat option \<times> thread_cache" where
  "cache_pop cls c =
     (tc_slots c cls (tc_count c cls - 1),
      c\<lparr>tc_count := (tc_count c)(cls := tc_count c cls - 1), tc_cache_hits := tc_cache_hits c + 1\<rparr>)"

definition allocate_small ::
    "mm_env \<Rightarrow> nat \<Rightarrow> nat \<Rightarrow> lgx_allocation_intent_base option \<Rightarrow> memory_manager \<Rightarrow> nat option \<times> memory_manager" where
  "allocate_small e i n intent s =
     (case chaos_gate e s of
        (True, s) \<Rightarrow> (None, s)
      | (False, s) \<Rightarrow>
          let cls = get_size_class_index n
          in if cls = -1 then allocate_medium e n intent s
             else
               (case get_thread_cache e i s of
                  (None, s) \<Rightarrow> malloc_tracked e n n intent s
                | (Some c, s) \<Rightarrow>
                    if tc_count c (nat cls) > 0 then
                      (case cache_pop (nat cls) c of (p, c) \<Rightarrow>
                         (p, track_if e p n intent (set_cache i c (s\<lparr>mm_cache_hits := mm_cache_hits s + 1\<rparr>))))
                    else
                      let s = set_cache i (c\<lparr>tc_cache_misses := tc_cache_misses c + 1\<rparr>) (s\<lparr>mm_cache_misses := mm_cache_misses s + 1\<rparr>)
                      in (case lgx_lockfree_pop cls (mm_lockfree s) of
                            (Some p, l) \<Rightarrow> (Some p, track_if e (Some p) n intent (s\<lparr>mm_lockfree := l\<rparr>))
                          | (None, l) \<Rightarrow> malloc_tracked e (size_classes ! nat cls) n intent (s\<lparr>mm_lockfree := l\<rparr>))))"

text \<open>The index that the hot path draws, and the cache after it.\<close>

definition hot_draw :: "nat \<Rightarrow> thread_cache \<Rightarrow> nat \<times> thread_cache" where
  "hot_draw h c =
     (let hc = tc_hot_path c
      in (unat (ucast (hp_next_free hc h) :: u32), c\<lparr>tc_hot_path := hc\<lparr>hp_next_free := (hp_next_free hc)(h := hp_next_free hc h + 1)\<rparr>\<rparr>))"

definition hot_miss :: "nat \<Rightarrow> thread_cache \<Rightarrow> thread_cache" where
  "hot_miss h c = (let hc = tc_hot_path c in c\<lparr>tc_hot_path := hc\<lparr>hp_miss_count := (hp_miss_count hc)(h := hp_miss_count hc h + 1)\<rparr>\<rparr>)"

definition hot_hit :: "nat \<Rightarrow> u64 \<Rightarrow> thread_cache \<Rightarrow> thread_cache" where
  "hot_hit h now c =
     (let hc = tc_hot_path c
      in c\<lparr>tc_hot_path := hc\<lparr>hp_hit_count := (hp_hit_count hc)(h := hp_hit_count hc h + 1),
             hp_last_access := (hp_last_access hc)(h := now)\<rparr>\<rparr>)"

definition allocate_ultra_fast :: "mm_env \<Rightarrow> nat \<Rightarrow> nat \<Rightarrow> memory_manager \<Rightarrow> nat option \<times> memory_manager" where
  "allocate_ultra_fast e i n s =
     (let hot = get_hot_path_size_class n; h = nat hot
      in if hot = -1 then allocate_small e i n None s
         else
           (case get_thread_cache e i s of
              (None, s) \<Rightarrow> allocate_small e i n None s
            | (Some c, s) \<Rightarrow>
                (case hot_draw h c of (slot_idx, c) \<Rightarrow>
                   if slot_idx \<ge> HOT_PATH_CACHE_SIZE then allocate_small e i n None (set_cache i (hot_miss h c) s)
                   else
                     (case hp_blocks (tc_hot_path c) h slot_idx of
                        Some p \<Rightarrow> (Some p, set_cache i (hot_hit h (me_now e) c) s)
                      | None \<Rightarrow> allocate_small e i n None (set_cache i (hot_miss h c) s)))))"

definition lgx_memory_manager_alloc ::
    "mm_env \<Rightarrow> nat \<Rightarrow> nat \<Rightarrow> lgx_allocation_intent_base option \<Rightarrow> memory_manager \<Rightarrow> nat option \<times> memory_manager" where
  "lgx_memory_manager_alloc e i n intent s =
     (if n = 0 then (None, s)
      else
        let s = s\<lparr>mm_total_allocations := mm_total_allocations s + 1\<rparr>
        in if n > 8192 then malloc_tracked e n n intent s
           else
             (case allocate_ultra_fast e i n s of
                (Some p, s) \<Rightarrow> (Some p, track_if e (Some p) n intent s)
              | (None, s) \<Rightarrow>
                  if n \<le> MAX_SMALL_SIZE then allocate_small e i n intent s
                  else if n \<le> MAX_MEDIUM_SIZE then allocate_medium e n intent s
                  else allocate_large e n intent s))"

definition lgx_memory_manager_alloc_aligned ::
    "mm_env \<Rightarrow> nat \<Rightarrow> nat \<Rightarrow> lgx_allocation_intent_base option \<Rightarrow> memory_manager \<Rightarrow> nat option \<times> memory_manager" where
  "lgx_memory_manager_alloc_aligned e n alignment intent s =
     (if n = 0 \<or> alignment = 0 then (None, s)
      else
        let s = s\<lparr>mm_total_allocations := mm_total_allocations s + 1\<rparr>
        in (case malloc (me_memalign e alignment) n (mm_heap s) of
              (None, H) \<Rightarrow> (None, s\<lparr>mm_heap := H\<rparr>)
            | (Some p, H) \<Rightarrow> (Some p, track_if e (Some p) n intent (s\<lparr>mm_heap := H\<rparr>))))"

definition sizeof_intent_base :: nat where "sizeof_intent_base = 32"

text \<open>\<open>intent\<close> is the memory at the caller's pointer read as a base intent, whatever its type.\<close>

definition lgx_memory_manager_alloc_with_intent_ex ::
    "mm_env \<Rightarrow> nat \<Rightarrow> lgx_allocation_intent_base option \<Rightarrow> nat \<Rightarrow> memory_manager \<Rightarrow> nat option \<times> memory_manager" where
  "lgx_memory_manager_alloc_with_intent_ex e i intent intent_type_id s =
     (case intent of
        None \<Rightarrow> (None, s)
      | Some it \<Rightarrow>
          if intent_type_id = 0 \<or> intent_type_id = 1 then
            if in_struct_size it < sizeof_intent_base then (None, s)
            else lgx_memory_manager_alloc e i (in_size it) intent s
          else (None, s))"

section \<open>Deallocation\<close>

definition in_slice :: "nat \<Rightarrow> thread_pool_slice \<Rightarrow> bool" where
  "in_slice p t = (case ts_base t of None \<Rightarrow> False | Some b \<Rightarrow> b \<le> p \<and> p < b + ts_capacity t)"

definition from_pool :: "memory_manager \<Rightarrow> nat \<Rightarrow> bool" where
  "from_pool s p = list_ex (in_slice p) (mm_thread_pools s)"

definition in_global_pool :: "memory_manager \<Rightarrow> nat \<Rightarrow> bool" where
  "in_global_pool s p =
     (case mm_thread_pools s of
        [] \<Rightarrow> False
      | t # _ \<Rightarrow> (case ts_base t of None \<Rightarrow> False | Some b \<Rightarrow> b \<le> p \<and> p < b + MAX_THREADS * pool_size_per_thread))"

definition is_hot_path_block :: "nat \<Rightarrow> hot_path_cache \<Rightarrow> bool" where
  "is_hot_path_block p hc =
     list_ex (\<lambda>h. list_ex (\<lambda>k. hp_blocks hc h k = Some p) [0..<hp_watermark hc h]) [0..<HOT_PATH_SIZE_CLASSES]"

definition cache_push :: "nat \<Rightarrow> nat \<Rightarrow> thread_cache \<Rightarrow> thread_cache" where
  "cache_push cls p c =
     c\<lparr>tc_slots := (tc_slots c)(cls := (tc_slots c cls)(tc_count c cls := Some p)),
       tc_count := (tc_count c)(cls := tc_count c cls + 1)\<rparr>"

definition lgx_memory_manager_free :: "mm_env \<Rightarrow> nat \<Rightarrow> nat option \<Rightarrow> memory_manager \<Rightarrow> memory_manager" where
  "lgx_memory_manager_free e i ptr s =
     (case ptr of
        None \<Rightarrow> s
      | Some p \<Rightarrow>
          let s = untrack_allocation p (s\<lparr>mm_total_deallocations := mm_total_deallocations s + 1\<rparr>)
          in if in_global_pool s p then s
             else
               (case get_thread_cache e i s of
                  (None, s) \<Rightarrow> s\<lparr>mm_heap := c_free p (mm_heap s)\<rparr>
                | (Some c, s) \<Rightarrow>
                    if is_hot_path_block p (tc_hot_path c) then s
                    else
                      let cls = get_size_class_index (malloc_usable_size (mm_heap s) p)
                      in if cls \<ge> 0 \<and> cls < int MM_NUM_SIZE_CLASSES then
                           (if tc_count c (nat cls) < tc_capacity c (nat cls)
                            then set_cache i (cache_push (nat cls) p c) s
                            else s\<lparr>mm_lockfree := lgx_lockfree_push cls (Some p) (mm_lockfree s)\<rparr>)
                         else s\<lparr>mm_heap := c_free p (mm_heap s)\<rparr>))"

section \<open>The end of a thread\<close>

definition cached_blocks :: "thread_cache \<Rightarrow> nat list" where
  "cached_blocks c = concat (map (\<lambda>cls. List.map_filter (tc_slots c cls) [0..<tc_count c cls]) [0..<MM_NUM_SIZE_CLASSES])"

definition hot_blocks :: "(nat \<Rightarrow> nat) \<Rightarrow> hot_path_cache \<Rightarrow> nat list" where
  "hot_blocks bound hc = concat (map (\<lambda>h. List.map_filter (hp_blocks hc h) [0..<bound h]) [0..<HOT_PATH_SIZE_CLASSES])"

definition free_all :: "nat list \<Rightarrow> c_heap \<Rightarrow> c_heap" where
  "free_all ps H = foldl (\<lambda>H p. c_free p H) H ps"

text \<open>The blocks of the hot path are compared with the cached blocks that were just freed.\<close>

definition cache_destructor :: "nat \<Rightarrow> memory_manager \<Rightarrow> memory_manager" where
  "cache_destructor i s =
     (case mm_caches s i of
        None \<Rightarrow> s
      | Some c \<Rightarrow>
          let freed = filter (\<lambda>p. \<not> from_pool s p) (cached_blocks c);
              hot = filter (\<lambda>p. p \<notin> set freed \<and> \<not> from_pool s p)
                      (hot_blocks (\<lambda>h. min (hp_watermark (tc_hot_path c) h) HOT_PATH_CACHE_SIZE) (tc_hot_path c))
          in s\<lparr>mm_heap := free_all hot (free_all freed (mm_heap s)),
               mm_cache_list := remove1 i (mm_cache_list s), mm_caches := (mm_caches s)(i := None)\<rparr>)"

section \<open>Initialisation and shutdown\<close>

record mm_init_env =
  mi_calloc_ok :: bool
  mi_kernel :: kernel_files
  mi_open :: "string \<Rightarrow> int"
  mi_adapter :: "bool option"
  mi_mmap_huge :: "u64 \<Rightarrow> nat option"
  mi_mmap :: "u64 \<Rightarrow> nat option"
  mi_malloc :: c_malloc
  mi_mutex_ok :: "nat \<Rightarrow> bool" \<comment> \<open>16 pool mutexes, then the one of the cache list and of the intents\<close>
  mi_key_ok :: bool
  mi_tracked_ok :: bool

definition total_pool_size :: nat where "total_pool_size = MAX_THREADS * pool_size_per_thread"

definition slices :: "nat \<Rightarrow> thread_pool_slice list" where
  "slices base = map (\<lambda>i. \<lparr>ts_base = Some (base + i * pool_size_per_thread), ts_offset = 0, ts_capacity = pool_size_per_thread\<rparr>) [0..<MAX_THREADS]"

text \<open>
  The state before it holds what is static in the program: the slices, the lock-free pool, the huge page
  support, the failure injection and the C heap. On an error the manager itself is gone.
\<close>

definition mm_fresh :: "nat \<Rightarrow> memory_manager \<Rightarrow> memory_manager" where
  "mm_fresh pool_size s = s\<lparr>mm_memory_pool_size := pool_size, mm_use_huge_pages := False,
     mm_pools := (\<lambda>_. \<lparr>sp_block_count = 0, sp_total_allocated = 0, sp_slab_count = 0\<rparr>), mm_caches := Map.empty,
     mm_cache_list := [], mm_cache_capacity := 0, mm_total_allocations := 0, mm_total_deallocations := 0,
     mm_cache_hits := 0, mm_cache_misses := 0, mm_generation_counter := 1, mm_tracked := [], mm_tracked_capacity := 10000\<rparr>"

definition global_pool_alloc :: "mm_init_env \<Rightarrow> memory_manager \<Rightarrow> nat option \<times> memory_manager" where
  "global_pool_alloc v s =
     (case (if mm_use_huge_pages s
            then lgx_hugepages_alloc_selective (mi_mmap_huge v) (mi_mmap v) (of_nat total_pool_size) True True (mm_hugepages s)
            else (None, mm_hugepages s)) of
        (Some p, hg) \<Rightarrow> (Some p, s\<lparr>mm_hugepages := hg\<rparr>)
      | (None, hg) \<Rightarrow> (case malloc (mi_malloc v) total_pool_size (mm_heap s) of
            (p, H) \<Rightarrow> (p, s\<lparr>mm_hugepages := hg, mm_heap := H\<rparr>)))"

definition lgx_memory_manager_init ::
    "mm_init_env \<Rightarrow> bool \<Rightarrow> nat option \<Rightarrow> memory_manager \<Rightarrow> lgx_result \<times> memory_manager" where
  "lgx_memory_manager_init v manager_nonnull config s =
     (case config of
        None \<Rightarrow> (LGX_ERROR_INVALID_PARAM, s)
      | Some pool_size \<Rightarrow>
          if \<not> manager_nonnull then (LGX_ERROR_INVALID_PARAM, s)
          else if \<not> mi_calloc_ok v then (LGX_ERROR_OUT_OF_MEMORY, s)
          else
            (case lgx_lockfree_pool_init size_classes MM_NUM_SIZE_CLASSES (mm_lockfree s) of (r, l) \<Rightarrow>
               if r \<noteq> LGX_SUCCESS then (r, s\<lparr>mm_lockfree := l\<rparr>)
               else
                 (case lgx_hugepages_init (mi_kernel v) (mi_open v) (mi_adapter v) (mm_hugepages s) of (_, hg) \<Rightarrow>
                    let s = (mm_fresh pool_size s)\<lparr>mm_lockfree := l, mm_hugepages := hg, mm_use_huge_pages := lgx_hugepages_available hg\<rparr>
                    in (case global_pool_alloc v s of
                          (None, s) \<Rightarrow> (LGX_ERROR_OUT_OF_MEMORY, s\<lparr>mm_hugepages := snd (lgx_hugepages_shutdown (mm_hugepages s))\<rparr>)
                        | (Some base, s) \<Rightarrow>
                            let s = s\<lparr>mm_thread_pools := slices base\<rparr>
                            in if list_all (mi_mutex_ok v) [0..<18] \<and> mi_key_ok v \<and> mi_tracked_ok v then (LGX_SUCCESS, s)
                               else (LGX_ERROR_OUT_OF_MEMORY, s\<lparr>mm_heap := c_free base (mm_heap s)\<rparr>)))))"

definition shutdown_cache :: "memory_manager \<Rightarrow> thread_cache \<Rightarrow> c_heap \<Rightarrow> c_heap" where
  "shutdown_cache s c H =
     free_all (filter (\<lambda>p. \<not> from_pool s p) (hot_blocks (hp_watermark (tc_hot_path c)) (tc_hot_path c)))
       (free_all (filter (\<lambda>p. \<not> from_pool s p) (cached_blocks c)) H)"

text \<open>The mappings that are unmapped come first in the result.\<close>

definition lgx_memory_manager_shutdown :: "memory_manager \<Rightarrow> ((nat \<times> u64) list \<times> memory_manager) option" where
  "lgx_memory_manager_shutdown s =
     (let H = foldl (\<lambda>H i. case mm_caches s i of None \<Rightarrow> H | Some c \<Rightarrow> shutdown_cache s c H) (mm_heap s) (mm_cache_list s);
          s = s\<lparr>mm_heap := H, mm_cache_list := [], mm_caches := Map.empty\<rparr>
      in (case lgx_lockfree_pool_shutdown (mm_lockfree s) (mm_heap s) of
            None \<Rightarrow> None
          | Some (l, H) \<Rightarrow>
              let s = s\<lparr>mm_lockfree := l, mm_heap := H\<rparr>;
                  base = (case mm_thread_pools s of [] \<Rightarrow> None | t # _ \<Rightarrow> ts_base t);
                  unmapped = (if mm_use_huge_pages s then lgx_hugepages_free base (of_nat total_pool_size) else None);
                  s = (case base of
                         None \<Rightarrow> s
                       | Some b \<Rightarrow>
                           (if mm_use_huge_pages s then s else s\<lparr>mm_heap := c_free b (mm_heap s)\<rparr>)
                             \<lparr>mm_thread_pools := map (\<lambda>t. t\<lparr>ts_base := None, ts_offset := 0, ts_capacity := 0\<rparr>) (mm_thread_pools s)\<rparr>);
                  s = s\<lparr>mm_hugepages := snd (lgx_hugepages_shutdown (mm_hugepages s)), mm_tracked := []\<rparr>
              in Some (case unmapped of None \<Rightarrow> [] | Some m \<Rightarrow> [m], s)))"

section \<open>Reports\<close>

record lgx_memory_stats =
  ms_total_allocated :: u64
  ms_total_deallocated :: u64
  ms_current_allocated :: u64
  ms_peak_allocated :: u64
  ms_cache_hits :: u64
  ms_cache_misses :: u64
  ms_pool_stats :: "(nat \<times> size_class_pool) list"

definition lgx_memory_manager_get_stats :: "memory_manager \<Rightarrow> lgx_memory_stats" where
  "lgx_memory_manager_get_stats s =
     (let cur = mm_total_allocations s - mm_total_deallocations s
      in \<lparr>ms_total_allocated = mm_total_allocations s, ms_total_deallocated = mm_total_deallocations s,
          ms_current_allocated = cur, ms_peak_allocated = cur, ms_cache_hits = mm_cache_hits s,
          ms_cache_misses = mm_cache_misses s,
          ms_pool_stats = map (\<lambda>i. (size_classes ! i, mm_pools s i)) [0..<MM_NUM_SIZE_CLASSES]\<rparr>)"

record lgx_allocation_usage =
  us_access_count :: u64
  us_observed_pattern :: lgx_access_pattern
  us_pattern_confidence :: rat
  us_observed_lifetime :: lgx_lifetime
  us_actual_lifetime_ms :: u64

definition lgx_memory_manager_get_usage_stats :: "u64 \<Rightarrow> nat option \<Rightarrow> memory_manager \<Rightarrow> lgx_result + lgx_allocation_usage" where
  "lgx_memory_manager_get_usage_stats now ptr s =
     (case ptr of
        None \<Rightarrow> Inl LGX_ERROR_INVALID_PARAM
      | Some p \<Rightarrow>
          (case List.find (\<lambda>h. ah_user_ptr h = p) (mm_tracked s) of
             Some h \<Rightarrow> Inr \<lparr>us_access_count = 1, us_observed_pattern = in_access_pattern (ah_intent h), us_pattern_confidence = 4 / 5,
                         us_observed_lifetime = in_lifetime (ah_intent h),
                         us_actual_lifetime_ms = (now - ah_allocation_time h) div 1000000\<rparr>
           | None \<Rightarrow> Inr \<lparr>us_access_count = 0, us_observed_pattern = LGX_ACCESS_UNKNOWN, us_pattern_confidence = 0,
                         us_observed_lifetime = LGX_LIFETIME_UNKNOWN, us_actual_lifetime_ms = 0\<rparr>))"

definition lgx_memory_manager_validate_intent :: "nat option \<Rightarrow> lgx_result" where
  "lgx_memory_manager_validate_intent ptr = (if ptr = None then LGX_ERROR_INVALID_PARAM else LGX_SUCCESS)"

end
