(* ===== verification/Memory_Inv.thy ===== *)
theory Memory_Inv
  imports Memory_Manager
begin

text \<open>
  The invariant of the memory manager. Every block that the manager or a client holds is at one place: with a
  client, in a slot of a thread's cache, on a stack of the lock-free pool, or among the blocks of a hot path that
  are still to be handed out. \<open>mm_at\<close> maps places to blocks; the operations move blocks from place to place.
\<close>

section \<open>Blocks at places\<close>

datatype place = L_live nat | L_slot nat nat nat | L_pool nat nat | L_hot nat nat nat

definition slot_at :: "thread_cache option \<Rightarrow> nat \<Rightarrow> nat \<Rightarrow> nat option" where
  "slot_at oc c k = (case oc of None \<Rightarrow> None | Some t \<Rightarrow> if c < 16 \<and> k < tc_count t c then tc_slots t c k else None)"

definition hot_at :: "thread_cache option \<Rightarrow> nat \<Rightarrow> nat \<Rightarrow> nat option" where
  "hot_at oc h k =
     (case oc of None \<Rightarrow> None
      | Some t \<Rightarrow> let hc = tc_hot_path t
          in if h < 8 \<and> unat (hp_next_free hc h) \<le> k \<and> k < hp_watermark hc h then hp_blocks hc h k else None)"

text \<open>The live blocks with the sizes that were asked for; positions on a stack count from its bottom.\<close>

fun mm_at :: "(nat \<rightharpoonup> thread_cache) \<Rightarrow> (nat \<Rightarrow> nat list) \<Rightarrow> (nat \<rightharpoonup> nat) \<Rightarrow> place \<Rightarrow> nat option" where
  "mm_at cs B LV (L_live p) = (if LV p = None then None else Some p)"
| "mm_at cs B LV (L_slot i c k) = slot_at (cs i) c k"
| "mm_at cs B LV (L_pool c k) = (if c < 16 \<and> k < length (B c) then Some (rev (B c) ! k) else None)"
| "mm_at cs B LV (L_hot i h k) = hot_at (cs i) h k"

fun need :: "(nat \<rightharpoonup> nat) \<Rightarrow> place \<Rightarrow> nat" where
  "need LV (L_live p) = the (LV p)"
| "need LV (L_slot i c k) = size_classes ! c"
| "need LV (L_pool c k) = size_classes ! c"
| "need LV (L_hot i h k) = hot_path_sizes ! h"

definition exclusive :: "(place \<rightharpoonup> nat) \<Rightarrow> bool" where
  "exclusive pl \<longleftrightarrow> (\<forall>l l' p. pl l = Some p \<longrightarrow> pl l' = Some p \<longrightarrow> l = l')"

text \<open>\<open>ex\<close>: the C library hands out small blocks only in the sizes of the classes; then blocks are large enough.\<close>

definition backed :: "bool \<Rightarrow> (nat \<rightharpoonup> nat) \<Rightarrow> (place \<Rightarrow> nat) \<Rightarrow> (place \<rightharpoonup> nat) \<Rightarrow> bool" where
  "backed ex bl nd pl \<longleftrightarrow> (\<forall>l p. pl l = Some p \<longrightarrow> (\<exists>u. bl p = Some u \<and> (ex \<longrightarrow> nd l \<le> u)))"

lemma exclusive_drop: "exclusive pl \<Longrightarrow> exclusive (pl(l := None))"
  by (auto simp: exclusive_def)

lemma exclusive_move: "exclusive pl \<Longrightarrow> pl l = Some p \<Longrightarrow> exclusive (pl(l := None, l' := Some p))"
  unfolding exclusive_def by (smt (verit) fun_upd_apply option.distinct(1))

lemma exclusive_new: "exclusive pl \<Longrightarrow> (\<And>l. pl l \<noteq> Some p) \<Longrightarrow> exclusive (pl(l' := Some p))"
  unfolding exclusive_def by (smt (verit) fun_upd_apply option.inject)

lemma backed_drop: "backed ex bl nd pl \<Longrightarrow> backed ex bl nd (pl(l := None))"
  by (auto simp: backed_def)

lemma backed_put:
  "backed ex bl nd pl \<Longrightarrow> bl p = Some u \<Longrightarrow> (ex \<Longrightarrow> nd' l \<le> u) \<Longrightarrow> (\<And>k. k \<noteq> l \<Longrightarrow> nd' k = nd k) \<Longrightarrow>
     backed ex bl nd' (pl(l := Some p))"
  unfolding backed_def by (metis fun_upd_other fun_upd_same option.inject)

lemma backed_need: "backed ex bl nd pl \<Longrightarrow> (\<And>k. pl k \<noteq> None \<Longrightarrow> nd' k = nd k) \<Longrightarrow> backed ex bl nd' pl"
  unfolding backed_def by (metis option.distinct(1))

lemma backed_mono: "backed ex bl nd pl \<Longrightarrow> bl \<subseteq>\<^sub>m bl' \<Longrightarrow> backed ex bl' nd pl"
  unfolding backed_def map_le_def by (metis domI)

lemma backed_free: "backed ex bl nd pl \<Longrightarrow> (\<And>k. pl k \<noteq> Some p) \<Longrightarrow> backed ex (bl(p := None)) nd pl"
  unfolding backed_def by (metis fun_upd_other)

section \<open>What the operations do to the places\<close>

definition hot_ok :: "hot_path_cache \<Rightarrow> bool" where
  "hot_ok hc \<longleftrightarrow> (\<forall>h<8. hp_watermark hc h \<le> 512 \<and> (\<forall>k. hp_blocks hc h k \<noteq> None \<longleftrightarrow> k < hp_watermark hc h))"

definition cache_ok :: "thread_cache \<Rightarrow> bool" where
  "cache_ok c \<longleftrightarrow>
     (\<forall>cls<16. tc_count c cls \<le> tc_capacity c cls \<and> tc_capacity c cls \<le> THREAD_CACHE_SIZE \<and>
        (\<forall>k<tc_count c cls. tc_slots c cls k \<noteq> None)) \<and> hot_ok (tc_hot_path c)"

lemma at_live [simp]: "mm_at cs B (LV(p \<mapsto> n)) = (mm_at cs B LV)(L_live p := Some p)"
proof (rule ext)
  fix l show "mm_at cs B (LV(p \<mapsto> n)) l = ((mm_at cs B LV)(L_live p := Some p)) l" by (cases l) auto
qed

lemma at_unlive [simp]: "mm_at cs B (LV(p := None)) = (mm_at cs B LV)(L_live p := None)"
proof (rule ext)
  fix l show "mm_at cs B (LV(p := None)) l = ((mm_at cs B LV)(L_live p := None)) l" by (cases l) auto
qed

lemma at_push:
  "c < 16 \<Longrightarrow> mm_at cs (B(c := p # B c)) LV = (mm_at cs B LV)(L_pool c (length (B c)) := Some p)"
proof (rule ext)
  fix l assume "c < 16"
  then show "mm_at cs (B(c := p # B c)) LV l = ((mm_at cs B LV)(L_pool c (length (B c)) := Some p)) l"
    by (cases l) (auto simp: nth_append)
qed

lemma at_pop:
  "c < 16 \<Longrightarrow> B c = p # ps \<Longrightarrow> mm_at cs (B(c := ps)) LV = (mm_at cs B LV)(L_pool c (length ps) := None) \<and>
     mm_at cs B LV (L_pool c (length ps)) = Some p"
proof
  assume c: "c < 16" "B c = p # ps"
  show "mm_at cs (B(c := ps)) LV = (mm_at cs B LV)(L_pool c (length ps) := None)"
  proof (rule ext)
    fix l show "mm_at cs (B(c := ps)) LV l = ((mm_at cs B LV)(L_pool c (length ps) := None)) l"
      using c by (cases l) (auto simp: nth_append)
  qed
  show "mm_at cs B LV (L_pool c (length ps)) = Some p" using c by (simp add: nth_append)
qed

lemma at_cache_push:
  assumes "cs i = Some t" "c < 16"
  shows "mm_at (cs(i \<mapsto> cache_push c p t)) B LV = (mm_at cs B LV)(L_slot i c (tc_count t c) := Some p)"
proof (rule ext)
  fix l show "mm_at (cs(i \<mapsto> cache_push c p t)) B LV l = ((mm_at cs B LV)(L_slot i c (tc_count t c) := Some p)) l"
    using assms by (cases l) (auto simp: slot_at_def hot_at_def cache_push_def Let_def)
qed

lemma at_cache_pop:
  assumes "cs i = Some t" "c < 16" "0 < tc_count t c"
  shows "mm_at (cs(i \<mapsto> snd (cache_pop c t))) B LV = (mm_at cs B LV)(L_slot i c (tc_count t c - 1) := None) \<and>
    mm_at cs B LV (L_slot i c (tc_count t c - 1)) = fst (cache_pop c t)"
proof
  show "mm_at (cs(i \<mapsto> snd (cache_pop c t))) B LV = (mm_at cs B LV)(L_slot i c (tc_count t c - 1) := None)"
  proof (rule ext)
    fix l show "mm_at (cs(i \<mapsto> snd (cache_pop c t))) B LV l = ((mm_at cs B LV)(L_slot i c (tc_count t c - 1) := None)) l"
      using assms by (cases l) (auto simp: slot_at_def hot_at_def cache_pop_def Let_def)
  qed
  show "mm_at cs B LV (L_slot i c (tc_count t c - 1)) = fst (cache_pop c t)"
    using assms by (simp add: slot_at_def cache_pop_def)
qed

text \<open>Changes of statistics leave the places alone.\<close>

lemma at_same:
  assumes "cs i = Some t" "tc_slots t' = tc_slots t" "tc_count t' = tc_count t"
    "hp_blocks (tc_hot_path t') = hp_blocks (tc_hot_path t)" "hp_next_free (tc_hot_path t') = hp_next_free (tc_hot_path t)"
    "hp_watermark (tc_hot_path t') = hp_watermark (tc_hot_path t)"
  shows "mm_at (cs(i \<mapsto> t')) B LV = mm_at cs B LV"
proof (rule ext)
  fix l show "mm_at (cs(i \<mapsto> t')) B LV l = mm_at cs B LV l"
    using assms by (cases l) (auto simp: slot_at_def hot_at_def)
qed

lemma ucast_small: "unat x < 2 ^ 32 \<Longrightarrow> unat (ucast x :: u32) = unat x" for x :: u64
  by (simp add: unsigned_ucast_eq take_bit_nat_eq_self)

lemma unat_inc: "unat x < 2 ^ 32 \<Longrightarrow> unat (x + 1) = unat x + 1" for x :: u64
  using unat_add_lem[of x 1] by simp

lemma at_draw:
  assumes "cs i = Some t" "h < 8" "unat (hp_next_free (tc_hot_path t) h) < 2 ^ 32"
    and d: "hot_draw h t = (k, t')"
  shows "mm_at (cs(i \<mapsto> t')) B LV = (mm_at cs B LV)(L_hot i h k := None) \<and> k = unat (hp_next_free (tc_hot_path t) h)"
proof -
  let ?n = "hp_next_free (tc_hot_path t) h"
  have k: "k = unat ?n" using d ucast_small[OF assms(3)] by (auto simp: hot_draw_def Let_def)
  have t': "t' = t\<lparr>tc_hot_path := (tc_hot_path t)\<lparr>hp_next_free := (hp_next_free (tc_hot_path t))(h := ?n + 1)\<rparr>\<rparr>"
    using d by (auto simp: hot_draw_def Let_def)
  have "mm_at (cs(i \<mapsto> t')) B LV l = ((mm_at cs B LV)(L_hot i h k := None)) l" for l
    using assms unat_inc[OF assms(3)] by (cases l) (auto simp: slot_at_def hot_at_def t' k Let_def)
  then show ?thesis using k by blast
qed

section \<open>The invariant\<close>

definition sizes_exact :: "(nat \<rightharpoonup> nat) \<Rightarrow> bool" where
  "sizes_exact bl \<longleftrightarrow> (\<forall>p u. bl p = Some u \<longrightarrow> u \<le> 4096 \<longrightarrow> u \<in> set size_classes)"

definition malloc_exact :: "c_malloc \<Rightarrow> bool" where
  "malloc_exact M \<longleftrightarrow> (\<forall>k h n p u. M k h n = Some (p, u) \<longrightarrow> u \<le> 4096 \<longrightarrow> u \<in> set size_classes)"

definition mm_core :: "bool \<Rightarrow> nat \<Rightarrow> (nat \<rightharpoonup> thread_cache) \<Rightarrow> lockfree_pool \<Rightarrow> c_heap \<Rightarrow> (nat \<Rightarrow> nat list) \<Rightarrow> (nat \<rightharpoonup> nat) \<Rightarrow> bool" where
  "mm_core ex N cs l H B LV \<longleftrightarrow>
     exclusive (mm_at cs B LV) \<and> backed ex (cx_blocks H) (need LV) (mm_at cs B LV) \<and>
     (ex \<longrightarrow> sizes_exact (cx_blocks H)) \<and> pool_at l B \<and>
     (\<forall>i t. cs i = Some t \<longrightarrow> cache_ok t \<and> (\<forall>h<8. unat (hp_next_free (tc_hot_path t) h) \<le> N)) \<and>
     heap_disjoint H \<and> \<not> cx_bad H"

definition mm_inv :: "bool \<Rightarrow> nat \<Rightarrow> memory_manager \<Rightarrow> (nat \<Rightarrow> nat list) \<Rightarrow> (nat \<rightharpoonup> nat) \<Rightarrow> bool" where
  "mm_inv ex N s B LV = mm_core ex N (mm_caches s) (mm_lockfree s) (mm_heap s) B LV"

definition env_ok :: "bool \<Rightarrow> mm_env \<Rightarrow> bool" where
  "env_ok ex e \<longleftrightarrow> malloc_ok (me_malloc e) \<and> (\<forall>a. malloc_ok (me_memalign e a)) \<and>
     (ex \<longrightarrow> malloc_exact (me_malloc e) \<and> (\<forall>a. malloc_exact (me_memalign e a)))"

lemma core_D:
  assumes "mm_core ex N cs l H B LV"
  shows "exclusive (mm_at cs B LV)" "backed ex (cx_blocks H) (need LV) (mm_at cs B LV)"
    "ex \<Longrightarrow> sizes_exact (cx_blocks H)" "pool_at l B" "\<And>i t. cs i = Some t \<Longrightarrow> cache_ok t"
    "\<And>i t h. cs i = Some t \<Longrightarrow> h < 8 \<Longrightarrow> unat (hp_next_free (tc_hot_path t) h) \<le> N" "heap_disjoint H" "\<not> cx_bad H"
  using assms unfolding mm_core_def by blast+

lemma core_I:
  assumes "exclusive (mm_at cs B LV)" "backed ex (cx_blocks H) (need LV) (mm_at cs B LV)"
    "ex \<Longrightarrow> sizes_exact (cx_blocks H)" "pool_at l B" "\<And>i t. cs i = Some t \<Longrightarrow> cache_ok t"
    "\<And>i t h. cs i = Some t \<Longrightarrow> h < 8 \<Longrightarrow> unat (hp_next_free (tc_hot_path t) h) \<le> N" "heap_disjoint H" "\<not> cx_bad H"
  shows "mm_core ex N cs l H B LV"
  using assms unfolding mm_core_def by blast

text \<open>A heap that has grown.\<close>

definition grown :: "bool \<Rightarrow> c_heap \<Rightarrow> c_heap \<Rightarrow> bool" where
  "grown ex H H' \<longleftrightarrow> cx_blocks H \<subseteq>\<^sub>m cx_blocks H' \<and> (heap_disjoint H \<longrightarrow> heap_disjoint H') \<and> cx_bad H' = cx_bad H \<and>
     (ex \<longrightarrow> sizes_exact (cx_blocks H) \<longrightarrow> sizes_exact (cx_blocks H'))"

lemma grown_refl: "grown ex H H" by (simp add: grown_def)

lemma grown_trans: "grown ex H H' \<Longrightarrow> grown ex H' H'' \<Longrightarrow> grown ex H H''"
  unfolding grown_def using map_le_trans by metis

lemma core_grown: "mm_core ex N cs l H B LV \<Longrightarrow> grown ex H H' \<Longrightarrow> mm_core ex N cs l H' B LV"
  using core_D[of ex N cs l H B LV] by (intro core_I) (auto simp: grown_def intro: backed_mono)

lemma malloc_grown:
  assumes "malloc_ok M" "ex \<longrightarrow> malloc_exact M" "malloc M n H = (r, H')" "heap_disjoint H"
  shows "grown ex H H'"
proof (cases r)
  case None
  then show ?thesis using malloc_None[of M n H H'] malloc_disjoint[OF assms(1,4), of n] assms(3) by (simp add: grown_def)
next
  case (Some p)
  then obtain u where u: "cx_blocks H' = (cx_blocks H)(p \<mapsto> u)" "cx_blocks H p = None" "cx_bad H' = cx_bad H"
      "M (cx_calls H) (cx_blocks H) n = Some (p, u)"
    using malloc_Some[of M n H p H'] assms by blast
  have "heap_disjoint H'" using malloc_disjoint[OF assms(1,4), of n] assms(3) by simp
  moreover have "ex \<longrightarrow> sizes_exact (cx_blocks H) \<longrightarrow> sizes_exact (cx_blocks H')"
    using u assms(2) by (auto simp: sizes_exact_def malloc_exact_def)
  ultimately show ?thesis using u by (auto simp: grown_def map_le_def)
qed

lemma core_unheld:
  assumes "mm_core ex N cs l H B LV" "cx_blocks H p = None" shows "mm_at cs B LV k \<noteq> Some p"
  using core_D(2)[OF assms(1)] assms(2) unfolding backed_def by (metis option.distinct(1))

lemma need_live: "k \<noteq> L_live p \<Longrightarrow> need (LV(p := x)) k = need LV k"
  by (cases k) auto

lemma live_None: "mm_at cs B LV (L_live p) \<noteq> Some p \<Longrightarrow> LV p = None"
  by (cases "LV p") auto

text \<open>\<open>malloc\<close> for a client.\<close>

lemma core_malloc:
  assumes core: "mm_core ex N cs l H B LV" and M: "malloc_ok M" "ex \<longrightarrow> malloc_exact M"
    and m: "malloc M req H = (Some p, H')" and n: "n \<le> req"
  shows "LV p = None \<and> mm_core ex N cs l H' B (LV(p \<mapsto> n))"
proof -
  note c = core_D[OF core]
  obtain u where u: "cx_blocks H' = (cx_blocks H)(p \<mapsto> u)" "req \<le> u" "cx_blocks H p = None" "cx_bad H' = cx_bad H"
    using malloc_Some[OF m M(1) c(7)] by metis
  note g = malloc_grown[OF M m c(7)]
  have un: "\<And>k. mm_at cs B LV k \<noteq> Some p" using core_unheld[OF core u(3)] by blast
  have b: "backed ex (cx_blocks H') (need LV) (mm_at cs B LV)" using c(2) g backed_mono unfolding grown_def by blast
  have "mm_core ex N cs l H' B (LV(p \<mapsto> n))"
  proof (rule core_I)
    show "exclusive (mm_at cs B (LV(p \<mapsto> n)))" using exclusive_new[OF c(1) un] by simp
    show "backed ex (cx_blocks H') (need (LV(p \<mapsto> n))) (mm_at cs B (LV(p \<mapsto> n)))"
      unfolding at_live by (rule backed_put[OF b, of p u]) (use u n in \<open>auto simp: need_live\<close>)
  qed (use c g in \<open>auto simp: grown_def\<close>)
  then show ?thesis using live_None un by blast
qed

text \<open>A block that a client takes from a place, when the places change accordingly.\<close>

lemma mmcore_take:
  assumes core: "mm_core ex N cs l H B LV" and at: "mm_at cs' B' LV = (mm_at cs B LV)(k := None)"
    and k: "mm_at cs B LV k = Some p" and nd: "n \<le> need LV k" and kl: "\<And>q. k \<noteq> L_live q"
    and rest: "pool_at l' B'" "\<And>i t. cs' i = Some t \<Longrightarrow> cache_ok t"
      "\<And>i t h. cs' i = Some t \<Longrightarrow> h < 8 \<Longrightarrow> unat (hp_next_free (tc_hot_path t) h) \<le> N'"
  shows "LV p = None \<and> mm_core ex N' cs' l' H B' (LV(p \<mapsto> n))"
proof -
  note c = core_D[OF core]
  obtain u where u: "cx_blocks H p = Some u" "ex \<Longrightarrow> need LV k \<le> u" using c(2) k unfolding backed_def by blast
  have "mm_at cs B LV (L_live p) \<noteq> Some p" using c(1) k kl[of p] unfolding exclusive_def by blast
  then have lv: "LV p = None" by (rule live_None)
  have "mm_core ex N' cs' l' H B' (LV(p \<mapsto> n))"
  proof (rule core_I)
    show "exclusive (mm_at cs' B' (LV(p \<mapsto> n)))" using exclusive_move[OF c(1) k] by (simp add: at)
    show "backed ex (cx_blocks H) (need (LV(p \<mapsto> n))) (mm_at cs' B' (LV(p \<mapsto> n)))"
      unfolding at_live at by (rule backed_put[OF backed_drop[OF c(2)] u(1)]) (use u(2) nd in \<open>auto simp: need_live\<close>)
  qed (use c rest in auto)
  then show ?thesis using lv by blast
qed

text \<open>A block that a client gives back to a place.\<close>

lemma mmcore_give:
  assumes core: "mm_core ex N cs l H B LV" and p: "LV p \<noteq> None"
    and at: "mm_at cs' B' (LV(p := None)) = (mm_at cs B LV)(L_live p := None, k := Some p)" and kl: "\<And>q. k \<noteq> L_live q"
    and nd: "\<And>u. ex \<Longrightarrow> cx_blocks H p = Some u \<Longrightarrow> need LV k \<le> u"
    and rest: "pool_at l' B'" "\<And>i t. cs' i = Some t \<Longrightarrow> cache_ok t"
      "\<And>i t h. cs' i = Some t \<Longrightarrow> h < 8 \<Longrightarrow> unat (hp_next_free (tc_hot_path t) h) \<le> N"
  shows "mm_core ex N cs' l' H B' (LV(p := None))"
proof -
  note c = core_D[OF core]
  have l: "mm_at cs B LV (L_live p) = Some p" using p by simp
  obtain u where u: "cx_blocks H p = Some u" using c(2) l unfolding backed_def by blast
  have b: "backed ex (cx_blocks H) (need (LV(p := None))) ((mm_at cs B LV)(L_live p := None))"
    by (rule backed_need[OF backed_drop[OF c(2), of "L_live p"]]) (auto simp: need_live split: if_splits)
  have "need (LV(p := None)) k = need LV k" using kl need_live by blast
  then have "backed ex (cx_blocks H) (need (LV(p := None))) (mm_at cs' B' (LV(p := None)))"
    unfolding at by (intro backed_put[OF b u]) (use nd u in auto)
  then show ?thesis using c rest exclusive_move[OF c(1) l, of k] at by (intro core_I) simp_all
qed

text \<open>A block that a client gives up, which stays allocated, or is freed.\<close>

lemma core_forget:
  assumes core: "mm_core ex N cs l H B LV" shows "mm_core ex N cs l H B (LV(p := None))"
proof -
  note c = core_D[OF core]
  have "backed ex (cx_blocks H) (need (LV(p := None))) ((mm_at cs B LV)(L_live p := None))"
    by (rule backed_need[OF backed_drop[OF c(2), of "L_live p"]]) (auto simp: need_live split: if_splits)
  then show ?thesis using c exclusive_drop[OF c(1)] by (intro core_I) simp_all
qed

lemma core_free:
  assumes core: "mm_core ex N cs l H B LV" and p: "LV p \<noteq> None"
  shows "mm_core ex N cs l (c_free p H) B (LV(p := None))"
proof -
  note c = core_D[OF core] and f = core_D[OF core_forget[OF core, of p]]
  have l: "mm_at cs B LV (L_live p) = Some p" using p by simp
  then have bl: "cx_blocks H p \<noteq> None" using c(2) unfolding backed_def by blast
  have no: "mm_at cs B (LV(p := None)) k \<noteq> Some p" for k
    using c(1) l unfolding exclusive_def at_unlive by (metis fun_upd_apply option.distinct(1))
  have "backed ex (cx_blocks (c_free p H)) (need (LV(p := None))) (mm_at cs B (LV(p := None)))"
    unfolding c_free_fields[OF bl, THEN conjunct1] by (rule backed_free[OF f(2) no])
  moreover have "ex \<longrightarrow> sizes_exact (cx_blocks (c_free p H))"
    using c(3) c_free_fields[OF bl] by (auto simp: sizes_exact_def)
  ultimately show ?thesis using f c_free_fields[OF bl] c_free_disjoint[OF c(7)] by (intro core_I) simp_all
qed

end
