(* ===== verification/Memory_Ops.thy ===== *)
theory Memory_Ops
  imports Memory_Inv
begin

text \<open>The operations of the memory manager keep its invariant.\<close>

section \<open>A new cache\<close>

definition fresh_blocks :: "c_heap \<Rightarrow> c_heap \<Rightarrow> nat \<Rightarrow> nat set \<Rightarrow> bool" where
  "fresh_blocks H H' n P \<longleftrightarrow> (\<forall>p\<in>P. cx_blocks H p = None \<and> (\<exists>u. cx_blocks H' p = Some u \<and> n \<le> u))"

lemma fresh_mono:
  assumes "fresh_blocks H1 H2 n P" "grown ex H H1" "grown ex H2 H3"
  shows "fresh_blocks H H3 n P"
  unfolding fresh_blocks_def
proof
  fix p assume "p \<in> P"
  then obtain u where u: "cx_blocks H1 p = None" "cx_blocks H2 p = Some u" "n \<le> u" using assms(1) unfolding fresh_blocks_def by blast
  have "cx_blocks H p = None"
  proof (rule ccontr)
    assume "cx_blocks H p \<noteq> None"
    then have "cx_blocks H p = cx_blocks H1 p" using assms(2) unfolding grown_def map_le_def by blast
    then show False using \<open>cx_blocks H p \<noteq> None\<close> u(1) by simp
  qed
  moreover have "cx_blocks H3 p = Some u" using assms(3) u(2) unfolding grown_def map_le_def by (metis domI)
  ultimately show "cx_blocks H p = None \<and> (\<exists>u. cx_blocks H3 p = Some u \<and> n \<le> u)" using u(3) by blast
qed

lemma prewarm_class_spec:
  assumes "malloc_ok M" "ex \<longrightarrow> malloc_exact M" "heap_disjoint H" "prewarm_class M sz n H = (ps, H')"
  shows "grown ex H H' \<and> heap_disjoint H' \<and> distinct ps \<and> length ps \<le> n \<and> fresh_blocks H H' sz (set ps)"
  using assms(3,4)
proof (induction n arbitrary: H ps)
  case 0 then show ?case by (simp add: grown_refl fresh_blocks_def)
next
  case (Suc n)
  obtain r H1 where r: "malloc M sz H = (r, H1)" by fastforce
  note g = malloc_grown[OF assms(1,2) r Suc.prems(1)]
  then have d: "heap_disjoint H1" using Suc.prems(1) by (simp add: grown_def)
  show ?case
  proof (cases r)
    case None
    then show ?thesis using Suc.prems r g d by (simp add: fresh_blocks_def)
  next
    case (Some p)
    obtain qs where q: "prewarm_class M sz n H1 = (qs, H')" "ps = p # qs"
      using Suc.prems(2) r Some by (auto split: prod.splits)
    note i = Suc.IH[OF d q(1)]
    obtain u where u: "cx_blocks H1 p = Some u" "sz \<le> u" "cx_blocks H p = None"
      using malloc_Some[OF _ assms(1) Suc.prems(1)] r Some by (metis fun_upd_same)
    have "p \<notin> set qs" using i u(1) unfolding fresh_blocks_def by (metis option.distinct(1))
    moreover have "fresh_blocks H H' sz (set qs)"
      using i fresh_mono[of H1 H' sz "set qs" ex H H'] g grown_refl[of ex H'] by blast
    moreover have "cx_blocks H' p = Some u" using i u(1) unfolding grown_def map_le_def by (metis domI)
    ultimately show ?thesis using i grown_trans[OF g] u q(2) by (auto simp: fresh_blocks_def)
  qed
qed

text \<open>The blocks of the classes \<open>hs\<close> of a hot path are new, and no two places share one.\<close>

definition hot_new :: "c_heap \<Rightarrow> c_heap \<Rightarrow> nat set \<Rightarrow> hot_path_cache \<Rightarrow> bool" where
  "hot_new H H' hs hc \<longleftrightarrow>
     (\<forall>h\<in>hs. hp_watermark hc h \<le> 512 \<and> hp_next_free hc h = 0 \<and> (\<forall>k. hp_blocks hc h k \<noteq> None \<longleftrightarrow> k < hp_watermark hc h) \<and>
        fresh_blocks H H' (hot_path_sizes ! h) {p. \<exists>k. hp_blocks hc h k = Some p}) \<and>
     (\<forall>h\<in>hs. \<forall>h'\<in>hs. \<forall>k k' p. hp_blocks hc h k = Some p \<longrightarrow> hp_blocks hc h' k' = Some p \<longrightarrow> h = h' \<and> k = k')"

lemma fill_new:
  assumes new: "hot_new H H1 A hc" and ps: "grown ex H1 H2" "grown ex H H1" "distinct ps" "length ps \<le> 512"
      "fresh_blocks H1 H2 (hot_path_sizes ! h) (set ps)"
    and h: "h \<notin> A" "\<And>k. hp_blocks hc h k = None"
  shows "hot_new H H2 (insert h A) (fill_hot_class h now ps hc)"
proof -
  let ?f = "fill_hot_class h now ps hc"
  have b: "hp_blocks ?f g k = (if g = h then if k < length ps then Some (ps ! k) else None else hp_blocks hc g k)" for g k
    using h(2) by (simp add: fill_hot_class_def)
  have w: "hp_watermark ?f g = (if g = h then length ps else hp_watermark hc g)"
    and n: "hp_next_free ?f g = (if g = h then 0 else hp_next_free hc g)" for g by (simp_all add: fill_hot_class_def)
  have s: "{p. \<exists>k. hp_blocks ?f h k = Some p} = set ps" unfolding set_conv_nth by (simp add: b) (metis option.distinct(1) option.inject)
  have fr: "fresh_blocks H H2 (hot_path_sizes ! h) (set ps)" using fresh_mono[OF ps(5,2) grown_refl] .
  have old: "p \<notin> set ps" if "g \<in> A" "hp_blocks hc g k = Some p" for g k p
  proof -
    have "\<exists>u. cx_blocks H1 p = Some u" using new that unfolding hot_new_def fresh_blocks_def by blast
    then show ?thesis using ps(5) unfolding fresh_blocks_def by (metis option.distinct(1))
  qed
  show ?thesis unfolding hot_new_def
  proof (intro conjI ballI allI impI, goal_cases)
    case (1 g) then show ?case using new ps(4) by (auto simp: w hot_new_def)
  next
    case (2 g) then show ?case using new by (auto simp: n hot_new_def)
  next
    case (3 g k) then show ?case using new by (auto simp: w b hot_new_def)
  next
    case (4 g)
    show ?case
    proof (cases "g = h")
      case True then show ?thesis using fr s by simp
    next
      case False
      then have "g \<in> A" using 4 by simp
      then have "fresh_blocks H H1 (hot_path_sizes ! g) {p. \<exists>k. hp_blocks hc g k = Some p}" using new by (simp add: hot_new_def)
      then show ?thesis using fresh_mono[OF _ grown_refl ps(1)] False by (simp add: b)
    qed
  next
    case (5 g g' k k' p)
    then show ?case using new old[of g' k' p] old[of g k p] nth_mem[of k ps] nth_mem[of k' ps]
      by (cases "g = h"; cases "g' = h") (auto simp: b hot_new_def split: if_splits)
  next
    case (6 g g' k k' p)
    then show ?case using new old[of g' k' p] old[of g k p] nth_mem[of k ps] nth_mem[of k' ps] ps(3)
      by (cases "g = h"; cases "g' = h") (auto simp: b hot_new_def nth_eq_iff_index_eq split: if_splits)
  qed
qed

lemma prewarm_classes_spec:
  assumes M: "malloc_ok M" "ex \<longrightarrow> malloc_exact M"
    and "hot_new H H1 A hc" "grown ex H H1" "heap_disjoint H1"
    and "prewarm_hot_classes M now hs hc H1 = (hc', H')" "distinct hs" "A \<inter> set hs = {}" "\<And>h k. h \<in> set hs \<Longrightarrow> hp_blocks hc h k = None"
  shows "hot_new H H' (A \<union> set hs) hc' \<and> grown ex H H' \<and> heap_disjoint H'"
  using assms(3-)
proof (induction hs arbitrary: A hc H1)
  case Nil then show ?case by simp
next
  case (Cons h hs)
  obtain ps H2 where p: "prewarm_class M (hot_path_sizes ! h) HOT_PATH_CACHE_SIZE H1 = (ps, H2)" by fastforce
  note q = prewarm_class_spec[OF M Cons.prems(3) p]
  have n: "hot_new H H2 (insert h A) (fill_hot_class h now ps hc)"
    by (rule fill_new[OF Cons.prems(1)]) (use q Cons.prems in auto)
  have "hot_new H H' (insert h A \<union> set hs) hc' \<and> grown ex H H' \<and> heap_disjoint H'"
  proof (rule Cons.IH[OF n])
    show "grown ex H H2" using q Cons.prems(2) grown_trans by blast
    show "prewarm_hot_classes M now hs (fill_hot_class h now ps hc) H2 = (hc', H')" using Cons.prems(4) p by simp
    show "hp_blocks (fill_hot_class h now ps hc) g k = None" if "g \<in> set hs" for g k
      using that Cons.prems(5,7) by (auto simp: fill_hot_class_def)
  qed (use q Cons.prems in auto)
  then show ?case by simp
qed

lemma new_cache_spec:
  assumes M: "malloc_ok M" "ex \<longrightarrow> malloc_exact M" and H: "heap_disjoint H" and n: "new_thread_cache M now H = (t, H')"
  shows "grown ex H H' \<and> cache_ok t \<and> (\<forall>c. tc_count t c = 0) \<and> hot_new H H' {..<8} (tc_hot_path t)"
proof -
  obtain hc where hc: "prewarm_hot_classes M now [0..<8] zero_hot_path H = (hc, H')" "tc_hot_path t = hc"
    and t: "tc_count t = (\<lambda>_. 0)" "tc_capacity t = (\<lambda>_. 32)"
    using n by (auto simp: new_thread_cache_def prewarm_hot_path_cache_def init_markov_chain_def init_pattern_tracking_def
        init_refill_strategy_def zero_cache_def Let_def split: prod.splits)
  have "hot_new H H {} zero_hot_path" by (simp add: hot_new_def)
  then have p: "hot_new H H' {..<8} hc \<and> grown ex H H' \<and> heap_disjoint H'"
    using prewarm_classes_spec[OF M _ grown_refl H hc(1), of "{}"] by (simp add: zero_hot_path_def atLeast0LessThan)
  then have "hot_ok hc" by (auto simp: hot_ok_def hot_new_def)
  then show ?thesis using p t hc(2) by (simp add: cache_ok_def THREAD_CACHE_SIZE_def)
qed

lemma core_new_cache:
  assumes core: "mm_core ex N cs l H B LV" and i: "cs i = None" and g: "grown ex H H'"
    and t: "cache_ok t" "\<And>c. tc_count t c = 0" "hot_new H H' {..<8} (tc_hot_path t)"
  shows "mm_core ex N (cs(i \<mapsto> t)) l H' B LV"
proof -
  note c = core_D[OF core_grown[OF core g]] and c0 = core_D[OF core]
  let ?new = "mm_at (cs(i \<mapsto> t)) B LV" and ?old = "mm_at cs B LV"
  have old: "?new k = ?old k \<or> (\<exists>h j. k = L_hot i h j \<and> ?old k = None \<and> h < 8 \<and>
      (?new k \<noteq> None \<longrightarrow> ?new k = hp_blocks (tc_hot_path t) h j) \<or> ?new k = None)" for k
    using i t(2) by (cases k) (auto simp: slot_at_def hot_at_def Let_def)
  have hot: "?new k = ?old k \<or> ?new k = None \<or>
      (\<exists>h j. k = L_hot i h j \<and> h < 8 \<and> ?new k = hp_blocks (tc_hot_path t) h j)" for k
    using old[of k] by auto
  have fresh: "cx_blocks H p = None \<and> (\<exists>u. cx_blocks H' p = Some u \<and> hot_path_sizes ! h \<le> u)"
    if "h < 8" "hp_blocks (tc_hot_path t) h j = Some p" for h j p
    using that t(3) unfolding hot_new_def fresh_blocks_def by blast
  show ?thesis
  proof (rule core_I)
    show "exclusive ?new" unfolding exclusive_def
    proof (intro allI impI)
      fix k k' p assume k: "?new k = Some p" "?new k' = Some p"
      have "?old m \<noteq> Some p" if "h < 8" "hp_blocks (tc_hot_path t) h j = Some p" for m h j
        using core_unheld[OF core] fresh[OF that] by blast
      then show "k = k'" using hot[of k] hot[of k'] k c0(1) t(3) unfolding exclusive_def hot_new_def
        by (smt (verit) lessThan_iff option.distinct(1))
    qed
    show "backed ex (cx_blocks H') (need LV) ?new" unfolding backed_def
    proof (intro allI impI)
      fix k p assume k: "?new k = Some p"
      then show "\<exists>u. cx_blocks H' p = Some u \<and> (ex \<longrightarrow> need LV k \<le> u)"
        using hot[of k] c(2) fresh unfolding backed_def by (metis need.simps(4) option.distinct(1))
    qed
    show "cache_ok s" if "(cs(i \<mapsto> t)) j = Some s" for j s using that c(5) t(1) by (auto split: if_splits)
    show "unat (hp_next_free (tc_hot_path s) h) \<le> N" if "(cs(i \<mapsto> t)) j = Some s" "h < 8" for j s h
      using that c(6) t(3) by (auto simp: hot_new_def split: if_splits)
  qed (use c in auto)
qed

text \<open>What \<open>get_thread_cache\<close> leaves alone, and that the cache it returns is the caller's.\<close>

lemma get_cache_inv:
  assumes e: "env_ok ex e" and inv: "mm_inv ex N s B LV" and g: "get_thread_cache e i s = (oc, s')"
  shows "mm_inv ex N s' B LV \<and> (\<forall>t. oc = Some t \<longrightarrow> mm_caches s' i = Some t) \<and> mm_lockfree s' = mm_lockfree s"
proof (cases "mm_caches s i")
  case (Some t) then show ?thesis using g inv by (simp add: get_thread_cache_def)
next
  case None
  have M: "malloc_ok (me_malloc e)" "ex \<longrightarrow> malloc_exact (me_malloc e)" using e by (auto simp: env_ok_def)
  note core = inv[unfolded mm_inv_def]
  obtain t H' where n: "new_thread_cache (me_malloc e) (me_now e) (mm_heap s) = (t, H')" by fastforce
  note sp = new_cache_spec[OF M core_D(7)[OF core] n]
  have "mm_core ex N (mm_caches s) (mm_lockfree s) H' B LV" using core_grown[OF core] sp by blast
  moreover have "mm_core ex N ((mm_caches s)(i \<mapsto> t)) (mm_lockfree s) H' B LV"
    using core_new_cache[OF core None] sp by blast
  ultimately show ?thesis using g None n inv
    by (auto simp: get_thread_cache_def mm_inv_def set_cache_def Let_def split: if_splits)
qed

end
