(* ===== verification/Memory_Runs.thy ===== *)
theory Memory_Runs
  imports Memory_Ops
begin

text \<open>Allocation and deallocation keep the invariant; the states that clients can reach.\<close>

section \<open>Allocation\<close>

definition alloc_post :: "bool \<Rightarrow> nat \<Rightarrow> nat \<Rightarrow> (nat \<rightharpoonup> nat) \<Rightarrow> nat option \<times> memory_manager \<Rightarrow> bool" where
  "alloc_post ex N n LV rs \<longleftrightarrow>
     (\<exists>B. case fst rs of None \<Rightarrow> mm_inv ex N (snd rs) B LV | Some p \<Rightarrow> LV p = None \<and> mm_inv ex N (snd rs) B (LV(p \<mapsto> n)))"

lemma mm_inv_cong:
  "mm_caches s' = mm_caches s \<Longrightarrow> mm_lockfree s' = mm_lockfree s \<Longrightarrow> mm_heap s' = mm_heap s \<Longrightarrow>
     mm_inv ex N s' B LV = mm_inv ex N s B LV"
  by (simp add: mm_inv_def)

lemma track_fields [simp]:
  "mm_caches (track_if e p n it s) = mm_caches s" "mm_lockfree (track_if e p n it s) = mm_lockfree s"
  "mm_heap (track_if e p n it s) = mm_heap s" "mm_thread_pools (track_if e p n it s) = mm_thread_pools s"
  by (auto simp: track_if_def track_allocation_def Let_def split: option.splits)

lemma track_inv [simp]: "mm_inv ex N (track_if e p n it s) B LV = mm_inv ex N s B LV"
  by (rule mm_inv_cong) simp_all

lemma chaos_gate_inv: "chaos_gate e s = (b, s') \<Longrightarrow> mm_inv ex N s' B LV = mm_inv ex N s B LV"
  by (rule mm_inv_cong) (auto simp: chaos_gate_def split: prod.splits bool.splits)

lemma inv_mono: "mm_inv ex N s B LV \<Longrightarrow> N \<le> N' \<Longrightarrow> mm_inv ex N' s B LV"
  unfolding mm_inv_def mm_core_def by (meson le_trans)

lemma malloc_tracked_post:
  assumes e: "env_ok ex e" and inv: "mm_inv ex N s B LV" and n: "n \<le> req"
  shows "alloc_post ex N n LV (malloc_tracked e req n it s)"
proof -
  have M: "malloc_ok (me_malloc e)" "ex \<longrightarrow> malloc_exact (me_malloc e)" using e by (auto simp: env_ok_def)
  note core = inv[unfolded mm_inv_def]
  obtain r H' where r: "malloc (me_malloc e) req (mm_heap s) = (r, H')" by fastforce
  show ?thesis
  proof (cases r)
    case None
    then have "mm_core ex N (mm_caches s) (mm_lockfree s) H' B LV"
      using core_grown[OF core] malloc_grown[OF M r core_D(7)[OF core]] by blast
    then show ?thesis using None r by (auto simp: alloc_post_def malloc_tracked_def mm_malloc_def mm_inv_def)
  next
    case (Some p)
    then show ?thesis using core_malloc[OF core M _ n] r
      by (auto simp: alloc_post_def malloc_tracked_def mm_malloc_def mm_inv_def)
  qed
qed

lemma allocate_medium_post:
  assumes "env_ok ex e" "mm_inv ex N s B LV"
  shows "alloc_post ex N n LV (allocate_medium e n it s)"
proof -
  obtain b s1 where g: "chaos_gate e s = (b, s1)" by fastforce
  have "mm_inv ex N s1 B LV" using chaos_gate_inv[OF g] assms(2) by simp
  then show ?thesis using malloc_tracked_post[OF assms(1), of N s1 B LV n n it] g
    by (cases b) (auto simp: allocate_medium_def alloc_post_def)
qed

lemma cache_pop_ok: "cache_ok c \<Longrightarrow> cache_ok (snd (cache_pop k c))"
  by (auto simp: cache_ok_def cache_pop_def intro: le_trans[OF diff_le_self])

lemma cache_push_ok:
  assumes "cache_ok c" "tc_count c k < tc_capacity c k" shows "cache_ok (cache_push k p c)"
  using assms by (auto simp: cache_ok_def cache_push_def Suc_le_eq less_Suc_eq)

lemma pop_slot_post:
  assumes inv: "mm_inv ex N s B LV" and t: "mm_caches s i = Some t" and c: "c < 16" "0 < tc_count t c" "n \<le> size_classes ! c"
    and p: "cache_pop c t = (r, t')"
  shows "alloc_post ex N n LV (r, set_cache i t' s)"
proof -
  note core = inv[unfolded mm_inv_def] note d = core_D[OF core]
  have pop: "mm_at ((mm_caches s)(i \<mapsto> t')) B LV = (mm_at (mm_caches s) B LV)(L_slot i c (tc_count t c - 1) := None)"
    "mm_at (mm_caches s) B LV (L_slot i c (tc_count t c - 1)) = r"
    using at_cache_pop[where cs = "mm_caches s" and i = i and B = B and LV = LV, OF t c(1,2)] p by simp_all
  have "tc_slots t c (tc_count t c - 1) \<noteq> None" using d(5)[OF t] c by (simp add: cache_ok_def)
  then obtain q where q: "r = Some q" using p by (auto simp: cache_pop_def)
  have ok: "cache_ok t'" using cache_pop_ok[OF d(5)[OF t], of c] p by simp
  have hp: "tc_hot_path t' = tc_hot_path t" using p by (auto simp: cache_pop_def)
  have "LV q = None \<and> mm_core ex N ((mm_caches s)(i \<mapsto> t')) (mm_lockfree s) (mm_heap s) B (LV(q \<mapsto> n))"
  proof (rule mmcore_take[OF core pop(1)])
    show "cache_ok x" if "((mm_caches s)(i \<mapsto> t')) j = Some x" for j x using that d(5) ok by (auto split: if_splits)
    show "unat (hp_next_free (tc_hot_path x) h) \<le> N" if "((mm_caches s)(i \<mapsto> t')) j = Some x" "h < 8" for j x h
      using that d(6)[OF t] d(6) hp by (auto split: if_splits)
  qed (use pop q c d in auto)
  then show ?thesis using q by (auto simp: alloc_post_def mm_inv_def set_cache_def)
qed

text \<open>The counters of a cache.\<close>

lemma same_places_inv:
  assumes inv: "mm_inv ex N s B LV" and t: "mm_caches s i = Some t"
    and eq: "tc_slots t' = tc_slots t" "tc_count t' = tc_count t" "tc_capacity t' = tc_capacity t"
    "hp_blocks (tc_hot_path t') = hp_blocks (tc_hot_path t)" "hp_next_free (tc_hot_path t') = hp_next_free (tc_hot_path t)"
    "hp_watermark (tc_hot_path t') = hp_watermark (tc_hot_path t)"
  shows "mm_inv ex N (set_cache i t' s) B LV"
proof -
  note d = core_D[OF inv[unfolded mm_inv_def]]
  have "cache_ok t'" using d(5)[OF t] eq by (simp add: cache_ok_def hot_ok_def)
  then show ?thesis unfolding mm_inv_def using d at_same[where cs = "mm_caches s" and i = i, OF t eq(1,2,4-6)] eq t
    by (intro core_I) (auto simp: set_cache_def split: if_splits)
qed

lemma allocate_small_post:
  assumes e: "env_ok ex e" and inv: "mm_inv ex N s B LV"
  shows "alloc_post ex N n LV (allocate_small e i n it s)"
proof -
  obtain b s1 where g: "chaos_gate e s = (b, s1)" by fastforce
  have i1: "mm_inv ex N s1 B LV" using chaos_gate_inv[OF g] inv by simp
  show ?thesis
  proof (cases b)
    case True then show ?thesis using i1 g by (auto simp: allocate_small_def alloc_post_def)
  next
    case False
    show ?thesis
    proof (rule size_class_index_cases[of n])
      assume "get_size_class_index n = -1"
      then show ?thesis using allocate_medium_post[OF e i1, of n it] False g by (simp add: allocate_small_def)
    next
      fix c assume c: "c < 16" "get_size_class_index n = int c" "n \<le> size_classes ! c"
      obtain oc s2 where gc: "get_thread_cache e i s1 = (oc, s2)" by fastforce
      note i2 = get_cache_inv[OF e i1 gc]
      show ?thesis
      proof (cases oc)
        case None
        then show ?thesis using malloc_tracked_post[OF e i2[THEN conjunct1], of n n it] False g c gc by (simp add: allocate_small_def)
      next
        case (Some t)
        then have t: "mm_caches s2 i = Some t" using i2 by blast
        show ?thesis
        proof (cases "0 < tc_count t c")
          case True
          obtain r t' where p: "cache_pop c t = (r, t')" by fastforce
          let ?s = "s2\<lparr>mm_cache_hits := mm_cache_hits s2 + 1\<rparr>"
          have "mm_inv ex N ?s B LV" using i2[THEN conjunct1] by (simp add: mm_inv_def)
          then have "alloc_post ex N n LV (r, set_cache i t' ?s)" using pop_slot_post[OF _ _ c(1) True c(3) p] t by simp
          then show ?thesis using False g c gc Some True p by (cases r) (simp_all add: allocate_small_def alloc_post_def)
        next
          case zero: False
          let ?t = "t\<lparr>tc_cache_misses := tc_cache_misses t + 1\<rparr>"
          let ?s = "set_cache i ?t (s2\<lparr>mm_cache_misses := mm_cache_misses s2 + 1\<rparr>)"
          have i3: "mm_inv ex N ?s B LV" by (rule same_places_inv[of _ _ _ _ _ _ t]) (use i2[THEN conjunct1] t in \<open>auto simp: mm_inv_def\<close>)
          note core = i3[unfolded mm_inv_def] note d = core_D[OF core]
          obtain r l where l: "lgx_lockfree_pop (int c) (mm_lockfree ?s) = (r, l)" by fastforce
          have "alloc_post ex N n LV (case r of
              Some p \<Rightarrow> (Some p, track_if e (Some p) n it (?s\<lparr>mm_lockfree := l\<rparr>))
            | None \<Rightarrow> malloc_tracked e (size_classes ! c) n it (?s\<lparr>mm_lockfree := l\<rparr>))"
          proof (cases "B c")
            case Nil
            then have "r = None" "l = mm_lockfree ?s" using pop_at[OF d(4), of c] c l by auto
            moreover have "mm_inv ex N (?s\<lparr>mm_lockfree := mm_lockfree ?s\<rparr>) B LV" using i3 by (simp add: mm_inv_def)
            ultimately show ?thesis using malloc_tracked_post[OF e _ c(3)] by simp
          next
            case (Cons p ps)
            then have r: "r = Some p" "pool_at l (B(c := ps))" using pop_at[OF d(4), of c] c l by auto
            have "LV p = None \<and> mm_core ex N (mm_caches ?s) l (mm_heap ?s) (B(c := ps)) (LV(p \<mapsto> n))"
              by (rule mmcore_take[OF core, of _ _ "L_pool c (length ps)"]) (use at_pop[where B = B, OF c(1) Cons] c d r in auto)
            then show ?thesis using r by (auto simp: alloc_post_def mm_inv_def)
          qed
          then show ?thesis using False g c gc Some zero l
            by (cases r) (simp_all add: allocate_small_def Let_def)
        qed
      qed
    qed
  qed
qed

lemma hot_draw_post:
  assumes inv: "mm_inv ex N s B LV" and t: "mm_caches s i = Some t" and h: "h < 8" "n \<le> hot_path_sizes ! h"
    and N: "N < 2 ^ 32" and d: "hot_draw h t = (k, t')"
  shows "case hp_blocks (tc_hot_path t') h k of
      None \<Rightarrow> mm_inv ex (N + 1) (set_cache i t' s) B LV
    | Some p \<Rightarrow> LV p = None \<and> mm_inv ex (N + 1) (set_cache i t' s) B (LV(p \<mapsto> n))"
    and "512 \<le> k \<Longrightarrow> mm_inv ex (N + 1) (set_cache i t' s) B LV"
proof -
  note core = inv[unfolded mm_inv_def] note c = core_D[OF core]
  let ?n = "hp_next_free (tc_hot_path t) h"
  have n: "unat ?n < 2 ^ 32" using c(6)[OF t h(1)] N by simp
  have pl: "mm_at ((mm_caches s)(i \<mapsto> t')) B LV = (mm_at (mm_caches s) B LV)(L_hot i h k := None)" and k: "k = unat ?n"
    using at_draw[where cs = "mm_caches s" and i = i, OF t h(1) n d] by auto
  have t': "t' = t\<lparr>tc_hot_path := (tc_hot_path t)\<lparr>hp_next_free := (hp_next_free (tc_hot_path t))(h := ?n + 1)\<rparr>\<rparr>"
    using d by (auto simp: hot_draw_def Let_def)
  have ok: "cache_ok t'" using c(5)[OF t] by (simp add: t' cache_ok_def hot_ok_def)
  have cs: "cache_ok x" if "((mm_caches s)(i \<mapsto> t')) j = Some x" for j x using that c(5) ok by (auto split: if_splits)
  have nf: "unat (hp_next_free (tc_hot_path x) g) \<le> N + 1" if x: "((mm_caches s)(i \<mapsto> t')) j = Some x" "g < 8" for j x g
  proof (cases "j = i")
    case True
    then have "x = t'" using x(1) by simp
    then show ?thesis using c(6)[OF t x(2)] c(6)[OF t h(1)] unat_inc[OF n] by (auto simp: t')
  next
    case False then show ?thesis using c(6)[of j x g] x by simp
  qed
  have skip: "mm_inv ex (N + 1) (set_cache i t' s) B LV"
    unfolding mm_inv_def using c cs nf exclusive_drop[OF c(1)] backed_drop[OF c(2)] pl
    by (intro core_I) (simp_all add: set_cache_def)
  then show "mm_inv ex (N + 1) (set_cache i t' s) B LV" .
  show "case hp_blocks (tc_hot_path t') h k of
      None \<Rightarrow> mm_inv ex (N + 1) (set_cache i t' s) B LV
    | Some p \<Rightarrow> LV p = None \<and> mm_inv ex (N + 1) (set_cache i t' s) B (LV(p \<mapsto> n))"
  proof (cases "hp_blocks (tc_hot_path t') h k")
    case None then show ?thesis using skip by simp
  next
    case (Some p)
    then have b: "hp_blocks (tc_hot_path t) h k = Some p" by (simp add: t')
    then have "k < hp_watermark (tc_hot_path t) h" using c(5)[OF t] h(1) unfolding cache_ok_def hot_ok_def by (metis option.distinct(1))
    then have at: "mm_at (mm_caches s) B LV (L_hot i h k) = Some p" using t b h(1) k by (simp add: hot_at_def Let_def)
    have "LV p = None \<and> mm_core ex (N + 1) ((mm_caches s)(i \<mapsto> t')) (mm_lockfree s) (mm_heap s) B (LV(p \<mapsto> n))"
      by (rule mmcore_take[OF core pl at]) (use h c cs nf in auto)
    then show ?thesis using Some by (simp add: mm_inv_def set_cache_def)
  qed
qed

lemma hot_stat_inv:
  assumes "mm_inv ex N (set_cache i t s) B LV"
  shows "mm_inv ex N (set_cache i (hot_miss h t) s) B LV" "mm_inv ex N (set_cache i (hot_hit h now t) s) B LV"
  using same_places_inv[OF assms, of i t "hot_miss h t"] same_places_inv[OF assms, of i t "hot_hit h now t"]
  by (simp_all add: set_cache_def hot_miss_def hot_hit_def Let_def)

lemma ultra_fast_post:
  assumes e: "env_ok ex e" and inv: "mm_inv ex N s B LV" and N: "N < 2 ^ 32"
  shows "alloc_post ex (N + 1) n LV (allocate_ultra_fast e i n s)"
proof (rule hot_class_cases[of n])
  assume "get_hot_path_size_class n = -1"
  then show ?thesis using allocate_small_post[OF e inv_mono[OF inv, of "N + 1"]] by (simp add: allocate_ultra_fast_def)
next
  fix h assume h: "h < 8" "get_hot_path_size_class n = int h" "n \<le> hot_path_sizes ! h"
  obtain oc s2 where gc: "get_thread_cache e i s = (oc, s2)" by fastforce
  note i2 = get_cache_inv[OF e inv gc]
  show ?thesis
  proof (cases oc)
    case None
    then show ?thesis using allocate_small_post[OF e inv_mono[OF i2[THEN conjunct1], of "N + 1"]] h gc
      by (simp add: allocate_ultra_fast_def Let_def)
  next
    case (Some t)
    then have t: "mm_caches s2 i = Some t" using i2 by blast
    obtain k t' where d: "hot_draw h t = (k, t')" by fastforce
    note dp = hot_draw_post[OF i2[THEN conjunct1] t h(1,3) N d]
    have small: "alloc_post ex (N + 1) n LV (allocate_small e i n None (set_cache i (hot_miss h t') s2))"
      if "mm_inv ex (N + 1) (set_cache i t' s2) B LV"
      using allocate_small_post[OF e hot_stat_inv(1)[OF that]] by simp
    show ?thesis
    proof (cases "512 \<le> k")
      case True
      then show ?thesis using small dp(2) h gc Some d by (simp add: allocate_ultra_fast_def Let_def)
    next
      case False
      show ?thesis
      proof (cases "hp_blocks (tc_hot_path t') h k")
        case None
        then show ?thesis using small dp(1) False h gc Some d by (simp add: allocate_ultra_fast_def Let_def)
      next
        case (Some p)
        then have "LV p = None \<and> mm_inv ex (N + 1) (set_cache i (hot_hit h (me_now e) t') s2) B (LV(p \<mapsto> n))"
          using dp(1) hot_stat_inv(2) by simp
        then show ?thesis using False h gc Some \<open>oc = Some t\<close> d
          by (auto simp: allocate_ultra_fast_def Let_def alloc_post_def)
      qed
    qed
  qed
qed

lemma alloc_keeps:
  assumes e: "env_ok ex e" and inv: "mm_inv ex N s B LV" and N: "N < 2 ^ 32"
  shows "alloc_post ex (N + 1) n LV (lgx_memory_manager_alloc e i n it s)"
proof -
  let ?s = "s\<lparr>mm_total_allocations := mm_total_allocations s + 1\<rparr>"
  have inv1: "mm_inv ex (N + 1) s B LV" using inv_mono[OF inv] by simp
  have i1: "mm_inv ex N ?s B LV" "mm_inv ex (N + 1) ?s B LV" using inv inv1 by (simp_all add: mm_inv_def)
  obtain r s2 where r: "allocate_ultra_fast e i n ?s = (r, s2)" by fastforce
  note u = ultra_fast_post[OF e i1(1) N, of n i, unfolded r]
  consider "n = 0" | "8192 < n" | p where "0 < n" "n \<le> 8192" "r = Some p" | "0 < n" "n \<le> 8192" "r = None"
    by (metis gr0I not_le option.exhaust)
  then show ?thesis
  proof cases
    case 1 then show ?thesis using inv1 by (auto simp: lgx_memory_manager_alloc_def alloc_post_def)
  next
    case 2 then show ?thesis using malloc_tracked_post[OF e i1(2)] by (simp add: lgx_memory_manager_alloc_def)
  next
    case (3 p) then show ?thesis using u r by (auto simp: lgx_memory_manager_alloc_def alloc_post_def)
  next
    case 4
    then obtain B' where "mm_inv ex (N + 1) s2 B' LV" using u by (auto simp: alloc_post_def)
    then show ?thesis using 4 r allocate_small_post[OF e] allocate_medium_post[OF e]
      by (auto simp: lgx_memory_manager_alloc_def MAX_SMALL_SIZE_def MAX_MEDIUM_SIZE_def)
  qed
qed

lemma alloc_aligned_keeps:
  assumes e: "env_ok ex e" and inv: "mm_inv ex N s B LV"
  shows "alloc_post ex N n LV (lgx_memory_manager_alloc_aligned e n al it s)"
proof -
  have M: "malloc_ok (me_memalign e al)" "ex \<longrightarrow> malloc_exact (me_memalign e al)" using e by (auto simp: env_ok_def)
  note core = inv[unfolded mm_inv_def]
  obtain r H' where r: "malloc (me_memalign e al) n (mm_heap s) = (r, H')" by fastforce
  show ?thesis
  proof (cases r)
    case None
    then have "mm_core ex N (mm_caches s) (mm_lockfree s) H' B LV"
      using core_grown[OF core] malloc_grown[OF M r core_D(7)[OF core]] by blast
    then show ?thesis using None r inv by (auto simp: alloc_post_def lgx_memory_manager_alloc_aligned_def mm_inv_def)
  next
    case (Some p)
    then show ?thesis using core_malloc[OF core M _ order_refl] r inv
      by (auto simp: alloc_post_def lgx_memory_manager_alloc_aligned_def mm_inv_def)
  qed
qed

section \<open>Deallocation\<close>

lemma untrack_fields [simp]:
  "mm_caches (untrack_allocation p s) = mm_caches s" "mm_lockfree (untrack_allocation p s) = mm_lockfree s"
  "mm_heap (untrack_allocation p s) = mm_heap s"
  by (simp_all add: untrack_allocation_def)

lemma give_slot:
  assumes inv: "mm_inv ex N s B LV" and p: "LV p \<noteq> None" and t: "mm_caches s i = Some t" and c: "c < 16"
    and room: "tc_count t c < tc_capacity t c" and ind: "get_size_class_index (malloc_usable_size (mm_heap s) p) = int c"
    and sz: "malloc_usable_size (mm_heap s) p \<le> 4096"
  shows "mm_inv ex N (set_cache i (cache_push c p t) s) B (LV(p := None))"
proof -
  note core = inv[unfolded mm_inv_def] note d = core_D[OF core]
  have ok: "cache_ok (cache_push c p t)" by (rule cache_push_ok[OF d(5)[OF t] room])
  have hp: "tc_hot_path (cache_push c p t) = tc_hot_path t" by (simp add: cache_push_def)
  have "mm_core ex N ((mm_caches s)(i \<mapsto> cache_push c p t)) (mm_lockfree s) (mm_heap s) B (LV(p := None))"
  proof (rule mmcore_give[OF core p])
    show "mm_at ((mm_caches s)(i \<mapsto> cache_push c p t)) B (LV(p := None)) =
      (mm_at (mm_caches s) B LV)(L_live p := None, L_slot i c (tc_count t c) := Some p)"
      unfolding at_unlive at_cache_push[where cs = "mm_caches s" and i = i, OF t c] by (rule fun_upd_twist) simp
    show "need LV (L_slot i c (tc_count t c)) \<le> u" if "ex" "cx_blocks (mm_heap s) p = Some u" for u
      using that d(3) size_class_index_exact[of u c] ind sz by (auto simp: malloc_usable_size_def sizes_exact_def)
    show "cache_ok x" if "((mm_caches s)(i \<mapsto> cache_push c p t)) j = Some x" for j x
      using that d(5) ok by (auto split: if_splits)
    show "unat (hp_next_free (tc_hot_path x) h) \<le> N" if "((mm_caches s)(i \<mapsto> cache_push c p t)) j = Some x" "h < 8" for j x h
      using that d(6)[OF t] d(6) hp by (auto split: if_splits)
  qed (use d in auto)
  then show ?thesis by (simp add: mm_inv_def set_cache_def)
qed

lemma give_pool:
  assumes inv: "mm_inv ex N s B LV" and p: "LV p \<noteq> None" and c: "c < 16"
    and ind: "get_size_class_index (malloc_usable_size (mm_heap s) p) = int c"
    and sz: "malloc_usable_size (mm_heap s) p \<le> 4096"
  shows "mm_inv ex N (s\<lparr>mm_lockfree := lgx_lockfree_push (int c) (Some p) (mm_lockfree s)\<rparr>) (B(c := p # B c)) (LV(p := None))"
proof -
  note core = inv[unfolded mm_inv_def] note d = core_D[OF core]
  have "p \<notin> in_pool B"
  proof
    assume "p \<in> in_pool B"
    then obtain g k where "g < 16" "k < length (B g)" "rev (B g) ! k = p"
      unfolding in_pool_def by (metis POOL_CLASSES UN_E in_set_conv_nth length_rev lessThan_iff set_rev)
    then have "mm_at (mm_caches s) B LV (L_pool g k) = Some p" "mm_at (mm_caches s) B LV (L_live p) = Some p" using p by auto
    then show False using d(1) unfolding exclusive_def by blast
  qed
  then have pool: "pool_at (lgx_lockfree_push (int c) (Some p) (mm_lockfree s)) (B(c := p # B c))"
    using push_at[OF d(4)] c by simp
  have "mm_core ex N (mm_caches s) (lgx_lockfree_push (int c) (Some p) (mm_lockfree s)) (mm_heap s) (B(c := p # B c)) (LV(p := None))"
  proof (rule mmcore_give[OF core p])
    show "mm_at (mm_caches s) (B(c := p # B c)) (LV(p := None)) =
      (mm_at (mm_caches s) B LV)(L_live p := None, L_pool c (length (B c)) := Some p)"
      unfolding at_unlive at_push[OF c] by (rule fun_upd_twist) simp
    show "need LV (L_pool c (length (B c))) \<le> u" if "ex" "cx_blocks (mm_heap s) p = Some u" for u
      using that d(3) size_class_index_exact[of u c] ind sz by (auto simp: malloc_usable_size_def sizes_exact_def)
  qed (use d pool in auto)
  then show ?thesis by (simp add: mm_inv_def)
qed

lemma free_keeps:
  assumes e: "env_ok ex e" and inv: "mm_inv ex N s B LV" and p: "LV p \<noteq> None"
  shows "\<exists>B'. mm_inv ex N (lgx_memory_manager_free e i (Some p) s) B' (LV(p := None))"
proof -
  define s1 where "s1 = untrack_allocation p (s\<lparr>mm_total_deallocations := mm_total_deallocations s + 1\<rparr>)"
  have i1: "mm_inv ex N s1 B LV" using inv by (simp add: mm_inv_def s1_def)
  obtain oc s2 where gc: "get_thread_cache e i s1 = (oc, s2)" by fastforce
  note i2 = get_cache_inv[OF e i1 gc]
  have drop: "mm_inv ex N x B (LV(p := None))" if "mm_inv ex N x B LV" for x
    using core_forget that by (simp add: mm_inv_def)
  have fr: "mm_inv ex N (x\<lparr>mm_heap := c_free p (mm_heap x)\<rparr>) B (LV(p := None))" if "mm_inv ex N x B LV" for x
    using core_free[where LV = LV and p = p] p that by (simp add: mm_inv_def)
  have eq: "lgx_memory_manager_free e i (Some p) s =
    (if in_global_pool s1 p then s1 else case (oc, s2) of
        (None, s) \<Rightarrow> s\<lparr>mm_heap := c_free p (mm_heap s)\<rparr>
      | (Some c, s) \<Rightarrow>
          if is_hot_path_block p (tc_hot_path c) then s
          else
            let cls = get_size_class_index (malloc_usable_size (mm_heap s) p)
            in if cls \<ge> 0 \<and> cls < int MM_NUM_SIZE_CLASSES then
                 (if tc_count c (nat cls) < tc_capacity c (nat cls) then set_cache i (cache_push (nat cls) p c) s
                  else s\<lparr>mm_lockfree := lgx_lockfree_push cls (Some p) (mm_lockfree s)\<rparr>)
               else s\<lparr>mm_heap := c_free p (mm_heap s)\<rparr>)"
    unfolding lgx_memory_manager_free_def option.case(2) Let_def s1_def[symmetric] gc ..
  show ?thesis
  proof (cases "in_global_pool s1 p")
    case True then show ?thesis using drop[OF i1] eq by auto
  next
    case pool: False
    show ?thesis
    proof (cases oc)
      case None then show ?thesis using fr[OF i2[THEN conjunct1]] eq pool by auto
    next
      case (Some t)
      then have t: "mm_caches s2 i = Some t" using i2 by blast
      show ?thesis
      proof (cases "is_hot_path_block p (tc_hot_path t)")
        case True then show ?thesis using drop[OF i2[THEN conjunct1]] eq pool Some by auto
      next
        case hot: False
        show ?thesis
        proof (rule size_class_index_cases[of "malloc_usable_size (mm_heap s2) p"])
          assume "get_size_class_index (malloc_usable_size (mm_heap s2) p) = -1"
          then show ?thesis using fr[OF i2[THEN conjunct1]] eq pool Some hot by auto
        next
          fix c assume c: "c < 16" "get_size_class_index (malloc_usable_size (mm_heap s2) p) = int c"
            "malloc_usable_size (mm_heap s2) p \<le> 4096"
          show ?thesis
          proof (cases "tc_count t c < tc_capacity t c")
            case True
            then show ?thesis using give_slot[OF i2[THEN conjunct1] p t c(1) True c(2,3)] eq pool Some hot c by auto
          next
            case False
            then show ?thesis using give_pool[OF i2[THEN conjunct1] p c] eq pool Some hot c by auto
          qed
        qed
      qed
    qed
  qed
qed

section \<open>Executions\<close>

text \<open>The program before the manager is initialised: the lock-free pool is untouched.\<close>

definition mm_pristine :: "bool \<Rightarrow> memory_manager \<Rightarrow> bool" where
  "mm_pristine ex s \<longleftrightarrow> \<not> lp_initialized (mm_lockfree s) \<and> heap_disjoint (mm_heap s) \<and> \<not> cx_bad (mm_heap s) \<and>
     (ex \<longrightarrow> sizes_exact (cx_blocks (mm_heap s)))"

text \<open>
  What any number of threads do with an initialised manager, one call after the other. The number counts the
  allocations, \<open>LV\<close> maps the live pointers to the sizes asked for; clients free only what is live.
\<close>

inductive mm_run :: "bool \<Rightarrow> nat \<Rightarrow> memory_manager \<Rightarrow> (nat \<rightharpoonup> nat) \<Rightarrow> bool" for ex where
  mr_init: "mm_pristine ex s0 \<Longrightarrow> malloc_ok (mi_malloc v) \<Longrightarrow> (ex \<Longrightarrow> malloc_exact (mi_malloc v)) \<Longrightarrow>
    lgx_memory_manager_init v True (Some pool_size) s0 = (LGX_SUCCESS, s) \<Longrightarrow> mm_run ex 0 s Map.empty"
| mr_alloc: "mm_run ex n s LV \<Longrightarrow> env_ok ex e \<Longrightarrow> lgx_memory_manager_alloc e i sz it s = (Some p, s') \<Longrightarrow>
    mm_run ex (Suc n) s' (LV(p \<mapsto> sz))"
| mr_fail: "mm_run ex n s LV \<Longrightarrow> env_ok ex e \<Longrightarrow> lgx_memory_manager_alloc e i sz it s = (None, s') \<Longrightarrow>
    mm_run ex (Suc n) s' LV"
| mr_aligned: "mm_run ex n s LV \<Longrightarrow> env_ok ex e \<Longrightarrow> lgx_memory_manager_alloc_aligned e sz al it s = (Some p, s') \<Longrightarrow>
    mm_run ex (Suc n) s' (LV(p \<mapsto> sz))"
| mr_aligned_fail: "mm_run ex n s LV \<Longrightarrow> env_ok ex e \<Longrightarrow> lgx_memory_manager_alloc_aligned e sz al it s = (None, s') \<Longrightarrow>
    mm_run ex (Suc n) s' LV"
| mr_free: "mm_run ex n s LV \<Longrightarrow> env_ok ex e \<Longrightarrow> LV p \<noteq> None \<Longrightarrow>
    mm_run ex n (lgx_memory_manager_free e i (Some p) s) (LV(p := None))"

lemma foldl_set_pool:
  "lk_head (lp_pools (foldl (\<lambda>s i. set_pool i (q i) s) s xs) c) = (if c \<in> set xs then lk_head (q c) else lk_head (lp_pools s c))"
  by (induction xs arbitrary: s) (auto simp: set_pool_def)

lemma lockfree_init_at:
  assumes "lgx_lockfree_pool_init sz MM_NUM_SIZE_CLASSES s = (r, s')" "\<not> lp_initialized s"
  shows "r = LGX_SUCCESS \<and> pool_at s' (\<lambda>_. [])"
  using assms by (auto simp: lgx_lockfree_pool_init_def pool_at_def foldl_set_pool)

lemma init_keeps:
  assumes s0: "mm_pristine ex s0" and M: "malloc_ok (mi_malloc v)" "ex \<longrightarrow> malloc_exact (mi_malloc v)"
    and i: "lgx_memory_manager_init v True (Some pool_size) s0 = (LGX_SUCCESS, s)"
  shows "mm_inv ex 0 s (\<lambda>_. []) Map.empty"
proof -
  obtain l where l: "lgx_lockfree_pool_init size_classes MM_NUM_SIZE_CLASSES (mm_lockfree s0) = (LGX_SUCCESS, l)"
      "pool_at l (\<lambda>_. [])"
    using lockfree_init_at[of size_classes "mm_lockfree s0"] s0
    by (cases "lgx_lockfree_pool_init size_classes MM_NUM_SIZE_CLASSES (mm_lockfree s0)") (auto simp: mm_pristine_def)
  have g: "grown ex (mm_heap x) (mm_heap y) \<and> mm_caches y = mm_caches x \<and> mm_lockfree y = mm_lockfree x"
    if "global_pool_alloc v x = (Some b, y)" "heap_disjoint (mm_heap x)" for x y b
    using that malloc_grown[OF M _ that(2), of total_pool_size] grown_refl[of ex "mm_heap x"]
    by (auto simp: global_pool_alloc_def split: prod.splits option.splits if_splits)
  have "mm_caches s = Map.empty \<and> mm_lockfree s = l \<and> grown ex (mm_heap s0) (mm_heap s)"
    using i l(1) s0 by (auto simp: lgx_memory_manager_init_def Let_def mm_fresh_def mm_pristine_def
        split: prod.splits option.splits if_splits dest!: g)
  then show ?thesis using s0 l(2) unfolding mm_inv_def
    by (intro core_I) (auto simp: mm_pristine_def grown_def exclusive_def backed_def slot_at_def hot_at_def
        elim!: mm_at.elims)
qed

lemma mm_run_inv: "mm_run ex n s LV \<Longrightarrow> n \<le> 2 ^ 32 \<Longrightarrow> \<exists>B. mm_inv ex n s B LV"
proof (induction rule: mm_run.induct)
  case (mr_init s0 v pool_size s) then show ?case using init_keeps[of ex s0 v] by blast
next
  case (mr_alloc n s LV e i sz it p s')
  then obtain B where "mm_inv ex n s B LV" by auto
  then have "alloc_post ex (Suc n) sz LV (Some p, s')"
    using alloc_keeps[of ex e n s B LV sz i it] mr_alloc.hyps mr_alloc.prems by simp
  then show ?case unfolding alloc_post_def fst_conv snd_conv option.case by blast
next
  case (mr_fail n s LV e i sz it s')
  then obtain B where "mm_inv ex n s B LV" by auto
  then show ?case using alloc_keeps[of ex e n s B LV sz i it] mr_fail by (auto simp: alloc_post_def)
next
  case (mr_aligned n s LV e sz al it p s')
  then obtain B where "mm_inv ex (Suc n) s B LV" using inv_mono by (metis Suc_leD le_SucI order_refl)
  then have "alloc_post ex (Suc n) sz LV (Some p, s')"
    using alloc_aligned_keeps[of ex e "Suc n" s B LV sz al it] mr_aligned.hyps by simp
  then show ?case unfolding alloc_post_def fst_conv snd_conv option.case by blast
next
  case (mr_aligned_fail n s LV e sz al it s')
  then obtain B where "mm_inv ex (Suc n) s B LV" using inv_mono by (metis Suc_leD le_SucI order_refl)
  then show ?case using alloc_aligned_keeps[of ex e "Suc n" s B LV sz al it] mr_aligned_fail by (auto simp: alloc_post_def)
next
  case (mr_free n s LV e p i)
  then show ?case using free_keeps[of ex e n s _ LV p i] by blast
qed

lemma live_block:
  assumes "mm_inv ex N s B LV" "LV p = Some a"
  shows "\<exists>u. cx_blocks (mm_heap s) p = Some u \<and> (ex \<longrightarrow> a \<le> u)"
proof -
  have "mm_at (mm_caches s) B LV (L_live p) = Some p" using assms(2) by simp
  then show ?thesis using core_D(2)[OF assms(1)[unfolded mm_inv_def]] assms(2) unfolding backed_def by fastforce
qed

end
