(* ===== verification/Memory_Properties.thy ===== *)
theory Memory_Properties
  imports Memory_Runs
begin

text \<open>What the memory manager guarantees to its clients, and where it fails them.\<close>

section \<open>A concrete C library\<close>

text \<open>
  It places the block of its \<open>k\<close>th call at \<open>(k + 1) * 2 ^ 40\<close>, if nothing is there, grants the requests that
  \<open>ok\<close> allows, and reports the usable size that \<open>us\<close> says.
\<close>

definition vacant :: "(nat \<rightharpoonup> nat) \<Rightarrow> nat \<Rightarrow> nat \<Rightarrow> bool" where
  "vacant h p u \<longleftrightarrow> (\<forall>q v. h q = Some v \<longrightarrow> block_bytes p u \<inter> block_bytes q v = {})"

lemma vacant_empty [simp]: "vacant Map.empty p u" by (simp add: vacant_def)

lemma vacant_upd [simp]: "vacant h p u \<Longrightarrow> p + u \<le> q \<or> q + v \<le> p \<Longrightarrow> vacant (h(q \<mapsto> v)) p u"
  unfolding vacant_def by (auto simp: block_bytes_def)

lemma vacant_del [simp]: "vacant h p u \<Longrightarrow> vacant (h(q := None)) p u"
  unfolding vacant_def by auto

definition demo_malloc :: "(nat \<Rightarrow> nat \<Rightarrow> bool) \<Rightarrow> (nat \<Rightarrow> nat) \<Rightarrow> c_malloc" where
  "demo_malloc ok us k h n =
     (let p = (k + 1) * 2 ^ 40 in if ok k n \<and> 0 < n \<and> n \<le> us n \<and> vacant h p (us n) then Some (p, us n) else None)"

lemma demo_malloc_ok: "malloc_ok (demo_malloc ok us)"
  by (auto simp: malloc_ok_def demo_malloc_def vacant_def Let_def split: if_splits)

text \<open>The usable sizes of glibc: a multiple of 16, less a word.\<close>

definition glibc_usable :: "nat \<Rightarrow> nat" where
  "glibc_usable n = max 24 ((n + 8 + 15) div 16 * 16 - 8)"

definition demo_env :: "(nat \<Rightarrow> nat \<Rightarrow> bool) \<Rightarrow> mm_env" where
  "demo_env ok = \<lparr>me_malloc = demo_malloc ok glibc_usable, me_memalign = (\<lambda>_. demo_malloc ok glibc_usable),
     me_rand = demo_rand, me_now = 0, me_cache_ok = True, me_list_ok = True, me_track_ok = True\<rparr>"

lemma demo_mm_env_ok: "env_ok False (demo_env ok)"
  by (simp add: env_ok_def demo_env_def demo_malloc_ok)

definition demo_init :: mm_init_env where
  "demo_init = \<lparr>mi_calloc_ok = True, mi_kernel = \<lparr>kf_meminfo = None, kf_thp_enabled = None, kf_mounts = None\<rparr>, mi_open = (\<lambda>_. -1),
     mi_adapter = None, mi_mmap_huge = (\<lambda>_. None), mi_mmap = (\<lambda>_. None), mi_malloc = demo_malloc (\<lambda>_ _. True) (\<lambda>n. n),
     mi_mutex_ok = (\<lambda>_. True), mi_key_ok = True, mi_tracked_ok = True\<rparr>"

definition demo_static :: memory_manager where
  "demo_static = \<lparr>mm_memory_pool_size = 0, mm_use_huge_pages = False, mm_pools = (\<lambda>_. \<lparr>sp_block_count = 0, sp_total_allocated = 0, sp_slab_count = 0\<rparr>),
     mm_caches = Map.empty, mm_cache_list = [], mm_cache_capacity = 0, mm_total_allocations = 0, mm_total_deallocations = 0,
     mm_cache_hits = 0, mm_cache_misses = 0, mm_generation_counter = 0, mm_tracked = [], mm_tracked_capacity = 0, mm_thread_pools = [],
     mm_lockfree = \<lparr>lp_pools = (\<lambda>_. \<lparr>lk_head = None, lk_generation = 0, lk_count = 0, lk_block_size = 0\<rparr>),
        lp_mem = (\<lambda>_. \<lparr>fb_next = None, fb_generation = 0\<rparr>), lp_initialized = False\<rparr>,
     mm_hugepages = g_hugepage_state, mm_chaos = zero_chaos, mm_heap = \<lparr>cx_blocks = Map.empty, cx_calls = 0, cx_bad = False\<rparr>\<rparr>"

definition demo_lockfree :: lockfree_pool where
  "demo_lockfree = snd (lgx_lockfree_pool_init size_classes MM_NUM_SIZE_CLASSES (mm_lockfree demo_static))"

definition demo_mm :: memory_manager where
  "demo_mm = (mm_fresh 0 demo_static)\<lparr>mm_lockfree := demo_lockfree,
     mm_hugepages := g_hugepage_state\<lparr>hg_initialized := True\<rparr>, mm_thread_pools := slices (2 ^ 40),
     mm_heap := \<lparr>cx_blocks = [2 ^ 40 \<mapsto> total_pool_size], cx_calls = 1, cx_bad = False\<rparr>\<rparr>"

lemma demo_mm_init: "lgx_memory_manager_init demo_init True (Some 0) demo_static = (LGX_SUCCESS, demo_mm)"
proof -
  have l: "lgx_lockfree_pool_init size_classes 16 (mm_lockfree demo_static) = (LGX_SUCCESS, demo_lockfree)"
    by (simp add: demo_lockfree_def demo_static_def lgx_lockfree_pool_init_def)
  have h: "lgx_hugepages_init (mi_kernel demo_init) (mi_open demo_init) None (mm_hugepages demo_static) =
      (LGX_SUCCESS, g_hugepage_state\<lparr>hg_initialized := True\<rparr>)"
    by (simp add: lgx_hugepages_init_def demo_init_def demo_static_def g_hugepage_state_def detect_hugepage_support_def
        zero_hugepage_stats_def)
  have t: "0 < total_pool_size" by (simp add: total_pool_size_def MAX_THREADS_def pool_size_per_thread_def)
  have m: "malloc (mi_malloc demo_init) total_pool_size (mm_heap demo_static) =
      (Some (2 ^ 40), \<lparr>cx_blocks = [2 ^ 40 \<mapsto> total_pool_size], cx_calls = 1, cx_bad = False\<rparr>)"
    using t by (simp add: malloc_def demo_init_def demo_malloc_def demo_static_def)
  have "mi_adapter demo_init = None" "mi_calloc_ok demo_init" "mi_key_ok demo_init" "mi_tracked_ok demo_init"
    "mi_mutex_ok demo_init = (\<lambda>_. True)" by (simp_all add: demo_init_def)
  then show ?thesis using l h m
    by (simp add: lgx_memory_manager_init_def demo_mm_def global_pool_alloc_def lgx_hugepages_available_def
        g_hugepage_state_def mm_fresh_def Let_def list_all_iff)
qed

lemma demo_mm_run: "mm_run False 0 demo_mm Map.empty"
  by (rule mr_init[OF _ _ _ demo_mm_init])
    (simp_all add: mm_pristine_def demo_static_def heap_disjoint_def demo_init_def demo_malloc_ok)

section \<open>Evaluation\<close>

text \<open>A library that refuses the blocks of the hot path, so that a new cache is empty.\<close>

abbreviation cold_env :: mm_env where
  "cold_env \<equiv> demo_env (\<lambda>_ n. n < 64)"

definition cold_cache :: thread_cache where
  "cold_cache = init_markov_chain 0 (init_pattern_tracking 0 (init_refill_strategy (zero_cache\<lparr>tc_capacity := (\<lambda>_. 32)\<rparr>)))"

lemma prewarm_class_fails:
  "0 < n \<Longrightarrow> M (cx_calls H) (cx_blocks H) sz = None \<Longrightarrow> prewarm_class M sz n H = ([], H\<lparr>cx_calls := cx_calls H + 1\<rparr>)"
  by (cases n) (simp_all add: malloc_def)

lemma fill_nothing: "hp_blocks hc h = (\<lambda>_. None) \<Longrightarrow> fill_hot_class h 0 [] hc =
  hc\<lparr>hp_next_free := (hp_next_free hc)(h := 0), hp_watermark := (hp_watermark hc)(h := 0), hp_hit_count := (hp_hit_count hc)(h := 0),
     hp_miss_count := (hp_miss_count hc)(h := 0), hp_last_access := (hp_last_access hc)(h := 0)\<rparr>"
  by (simp add: fill_hot_class_def fun_upd_idem)

lemma prewarm_cold:
  assumes "\<And>k h n. 64 \<le> n \<Longrightarrow> M k h n = None"
  shows "prewarm_hot_path_cache M 0 zero_hot_path H = (zero_hot_path, H\<lparr>cx_calls := cx_calls H + 8\<rparr>)"
proof -
  have 8: "[0..<8] = [0, 1, 2, 3, 4, 5, 6, 7 :: nat]" by (simp add: upt_rec)
  have p: "prewarm_class M sz 512 H = ([], H\<lparr>cx_calls := cx_calls H + 1\<rparr>)" if "64 \<le> sz" for sz H
    using prewarm_class_fails[of 512 M H sz] assms that by simp
  show ?thesis unfolding prewarm_hot_path_cache_def HOT_CLASSES 8
    by (simp add: p hot_path_sizes_def fill_nothing zero_hot_path_def fun_upd_idem)
qed

lemma cold_new: "new_thread_cache (me_malloc cold_env) (me_now cold_env) H = (cold_cache, H\<lparr>cx_calls := cx_calls H + 8\<rparr>)"
proof -
  have p: "prewarm_hot_path_cache (me_malloc cold_env) 0 zero_hot_path H = (zero_hot_path, H\<lparr>cx_calls := cx_calls H + 8\<rparr>)"
    by (rule prewarm_cold) (simp add: demo_env_def demo_malloc_def)
  have "me_now cold_env = 0" by (simp add: demo_env_def)
  then show ?thesis using p
    by (simp add: new_thread_cache_def cold_cache_def init_markov_chain_def init_pattern_tracking_def init_refill_strategy_def
        zero_cache_def Let_def)
qed

lemma small_index: "n \<le> 16 \<Longrightarrow> get_size_class_index n = 0" "16 < n \<Longrightarrow> n \<le> 32 \<Longrightarrow> get_size_class_index n = 1"
  by (simp_all add: get_size_class_index_def size_classes_def)

lemma demo_env_fields [simp]:
  "me_malloc (demo_env ok) = demo_malloc ok glibc_usable" "me_cache_ok (demo_env ok)" "me_list_ok (demo_env ok)"
  "me_track_ok (demo_env ok)" "me_now (demo_env ok) = 0"
  by (simp_all add: demo_env_def)

lemma demo_mm_fields [simp]:
  "mm_caches demo_mm = Map.empty" "mm_cache_list demo_mm = []" "mm_cache_capacity demo_mm = 0"
  "mm_chaos demo_mm = zero_chaos" "mm_lockfree demo_mm = demo_lockfree" "mm_thread_pools demo_mm = slices (2 ^ 40)"
  "mm_heap demo_mm = \<lparr>cx_blocks = [2 ^ 40 \<mapsto> total_pool_size], cx_calls = 1, cx_bad = False\<rparr>"
  by (simp_all add: demo_mm_def mm_fresh_def demo_static_def)

lemma gate_off [simp]: "mm_chaos s = zero_chaos \<Longrightarrow> chaos_gate e s = (False, s)"
  by (cases s) (simp add: chaos_gate_def chaos_defs zero_chaos_def)

lemma cold_cache_fields [simp]:
  "tc_hot_path cold_cache = zero_hot_path" "tc_count cold_cache = (\<lambda>_. 0)" "tc_capacity cold_cache = (\<lambda>_. 32)"
  by (simp_all add: cold_cache_def init_markov_chain_def init_pattern_tracking_def init_refill_strategy_def zero_cache_def)

lemma demo_lockfree_empty [simp]: "c < 16 \<Longrightarrow> lk_head (lp_pools demo_lockfree c) = None"
  by (simp add: demo_lockfree_def lgx_lockfree_pool_init_def demo_static_def foldl_set_pool)

lemma zero_hot_fields [simp]: "hp_blocks zero_hot_path = (\<lambda>_ _. None)" "hp_next_free zero_hot_path = (\<lambda>_. 0)" "hp_watermark zero_hot_path = (\<lambda>_. 0)"
  by (simp_all add: zero_hot_path_def)

lemma cold_get:
  "mm_caches s i = None \<Longrightarrow> mm_cache_list s = [] \<Longrightarrow> mm_cache_capacity s = 0 \<Longrightarrow>
   get_thread_cache cold_env i s = (Some cold_cache, s\<lparr>mm_heap := (mm_heap s)\<lparr>cx_calls := cx_calls (mm_heap s) + 8\<rparr>,
     mm_cache_capacity := 64, mm_cache_list := [i], mm_caches := (mm_caches s)(i \<mapsto> cold_cache)\<rparr>)"
  using cold_new[of "mm_heap s"] by (simp add: get_thread_cache_def set_cache_def Let_def)

lemma warm_get: "mm_caches s i = Some t \<Longrightarrow> get_thread_cache e i s = (Some t, s)"
  by (simp add: get_thread_cache_def)

lemmas alloc_defs = lgx_memory_manager_alloc_def allocate_ultra_fast_def allocate_small_def
  malloc_tracked_def mm_malloc_def malloc_def track_if_def hot_draw_def hot_miss_def set_cache_def cache_pop_def
  get_hot_path_size_class_def lgx_lockfree_pop_def class_ok_def

text \<open>The first small allocation of a thread, from an empty hot path and an empty pool.\<close>

definition demo_first :: memory_manager where
  "demo_first = snd (lgx_memory_manager_alloc cold_env 0 16 None demo_mm)"

lemma demo_first_alloc: "lgx_memory_manager_alloc cold_env 0 16 None demo_mm = (Some (10 * 2 ^ 40), demo_first)"
  by (simp add: demo_first_def alloc_defs cold_get warm_get small_index Let_def size_classes_def
       demo_malloc_def glibc_usable_def total_pool_size_def MAX_THREADS_def pool_size_per_thread_def)

lemmas demo_simps = alloc_defs cold_get warm_get small_index Let_def size_classes_def demo_malloc_def glibc_usable_def
  total_pool_size_def MAX_THREADS_def pool_size_per_thread_def

definition demo_block :: nat where "demo_block = 10 * 2 ^ 40"

definition demo_cache :: thread_cache where
  "demo_cache = cold_cache\<lparr>tc_hot_path := zero_hot_path\<lparr>hp_next_free := (\<lambda>_. 0)(0 := 1), hp_miss_count := (hp_miss_count zero_hot_path)(0 := hp_miss_count zero_hot_path 0 + 1)\<rparr>,
     tc_cache_misses := tc_cache_misses cold_cache + 1\<rparr>"

lemma demo_first_fields [simp]:
  "mm_caches demo_first = [0 \<mapsto> demo_cache]" "mm_chaos demo_first = zero_chaos" "mm_lockfree demo_first = demo_lockfree"
  "mm_heap demo_first = \<lparr>cx_blocks = [2 ^ 40 \<mapsto> total_pool_size, demo_block \<mapsto> 24], cx_calls = 10, cx_bad = False\<rparr>"
  "mm_thread_pools demo_first = slices (2 ^ 40)"
  by (simp_all add: demo_first_def demo_simps demo_cache_def demo_block_def)

lemma demo_not_pool [simp]: "mm_thread_pools s = slices (2 ^ 40) \<Longrightarrow> \<not> in_global_pool s demo_block"
  by (simp add: in_global_pool_def slices_def demo_block_def MAX_THREADS_def pool_size_per_thread_def upt_rec)

definition demo_freed :: memory_manager where
  "demo_freed = lgx_memory_manager_free cold_env 0 (Some demo_block) demo_first"

lemma demo_freed_fields [simp]:
  "mm_caches demo_freed = [0 \<mapsto> cache_push 1 demo_block demo_cache]" "mm_chaos demo_freed = zero_chaos"
  "mm_lockfree demo_freed = demo_lockfree" "mm_heap demo_freed = mm_heap demo_first"
  by (simp_all add: demo_freed_def lgx_memory_manager_free_def Let_def untrack_allocation_def warm_get is_hot_path_block_def
      demo_cache_def malloc_usable_size_def small_index set_cache_def list_ex_iff)

lemma demo_again: "\<exists>s. lgx_memory_manager_alloc cold_env 0 32 None demo_freed = (Some demo_block, s) \<and> mm_heap s = mm_heap demo_first"
  by (simp add: demo_simps cache_push_def demo_cache_def)

section \<open>Live blocks\<close>

text \<open>
  If the C library hands out small blocks in the sizes of the classes only (\<open>ex\<close>), which glibc does not do, the block has at
  least the size that was asked for.
\<close>

lemma mm_alloc_disjoint:
  assumes run: "mm_run ex n s LV" and n: "n < 2 ^ 32" and e: "env_ok ex e"
    and al: "lgx_memory_manager_alloc e i sz it s = (Some p, s')"
  shows "LV p = None \<and> \<not> cx_bad (mm_heap s') \<and>
    (\<exists>u. cx_blocks (mm_heap s') p = Some u \<and> (ex \<longrightarrow> sz \<le> u) \<and>
      (\<forall>q a. LV q = Some a \<longrightarrow> (\<exists>v. cx_blocks (mm_heap s') q = Some v \<and> block_bytes p u \<inter> block_bytes q v = {})))"
proof -
  obtain B where "mm_inv ex n s B LV" using mm_run_inv[OF run] n by auto
  then have "alloc_post ex (n + 1) sz LV (Some p, s')" using alloc_keeps[OF e _ n, of s B LV sz i it] al by simp
  then obtain B' where lv: "LV p = None" and inv: "mm_inv ex (n + 1) s' B' (LV(p \<mapsto> sz))" by (auto simp: alloc_post_def)
  note d = core_D[OF inv[unfolded mm_inv_def]]
  obtain u where u: "cx_blocks (mm_heap s') p = Some u" "ex \<longrightarrow> sz \<le> u" using live_block[OF inv, of p sz] by auto
  have "\<exists>v. cx_blocks (mm_heap s') q = Some v \<and> block_bytes p u \<inter> block_bytes q v = {}" if q: "LV q = Some a" for q a
  proof -
    have "q \<noteq> p" using q lv by auto
    then obtain v where "cx_blocks (mm_heap s') q = Some v" using live_block[OF inv, of q a] q by auto
    then show ?thesis using d(7) u(1) \<open>q \<noteq> p\<close> unfolding heap_disjoint_def by metis
  qed
  then show ?thesis using lv d(8) u by blast
qed

text \<open>
  C18. Allocation: whatever allocations and deallocations the threads made before, one call after the other, fewer than \<open>2 ^ 32\<close> of
  them allocations, a block that \<open>lgx_memory_manager_alloc\<close> returns was not live, is an allocated block of the C heap, and
  shares no byte with a block that is live; nothing was ever freed that was not allocated. Of \<open>malloc\<close> it needs only that a new block
  overlaps no allocated one and has a usable size of at least the request. Calls of different threads that overlap in time are not
  covered (\<open>lockfree_pool_aba\<close>), and the block may be smaller than the request (\<open>mm_undersized_block\<close>).
\<close>

theorem mm_alloc_fresh:
  assumes run: "mm_run False n s LV" and n: "n < 2 ^ 32" and e: "malloc_ok (me_malloc e)" "\<And>al. malloc_ok (me_memalign e al)"
    and al: "lgx_memory_manager_alloc e i sz it s = (Some p, s')"
  shows "LV p = None \<and> \<not> cx_bad (mm_heap s') \<and>
    (\<exists>u. cx_blocks (mm_heap s') p = Some u \<and>
      (\<forall>q a. LV q = Some a \<longrightarrow> (\<exists>v. cx_blocks (mm_heap s') q = Some v \<and> block_bytes p u \<inter> block_bytes q v = {})))"
proof -
  have "env_ok False e" using e by (simp add: env_ok_def)
  from mm_alloc_disjoint[OF run n this al] show ?thesis by blast
qed

theorem mm_alloc_fresh_witness:
  "\<not> cx_bad (mm_heap demo_first) \<and> (\<exists>u. cx_blocks (mm_heap demo_first) (10 * 2 ^ 40) = Some u)"
proof -
  have "malloc_ok (me_malloc cold_env)" "malloc_ok (me_memalign cold_env al)" for al by (simp_all add: demo_env_def demo_malloc_ok)
  from mm_alloc_fresh[OF demo_mm_run _ this demo_first_alloc] show ?thesis by auto
qed

text \<open>
  Without that assumption the manager hands out blocks that are too small. With the usable sizes of glibc, a block
  of 16 bytes reports 24; when it is freed the manager files it under the class of 32 bytes, and the next
  request for 32 bytes gets the block of 24.
\<close>

theorem mm_undersized_block:
  "\<exists>s LV p. mm_run False 2 s LV \<and> LV p = Some 32 \<and> cx_blocks (mm_heap s) p = Some 24"
proof -
  have a: "mm_run False 1 demo_first [demo_block \<mapsto> 16]"
    using mr_alloc[OF demo_mm_run demo_mm_env_ok demo_first_alloc] by (simp add: demo_block_def)
  have f: "mm_run False 1 demo_freed ([demo_block \<mapsto> 16](demo_block := None))"
    unfolding demo_freed_def by (rule mr_free[OF a demo_mm_env_ok]) simp
  obtain s where s: "lgx_memory_manager_alloc cold_env 0 32 None demo_freed = (Some demo_block, s)" "mm_heap s = mm_heap demo_first"
    using demo_again by blast
  have "mm_run False (Suc 1) s ([demo_block \<mapsto> 16](demo_block := None, demo_block \<mapsto> 32))"
    using mr_alloc[OF f demo_mm_env_ok s(1)] by simp
  then show ?thesis using s(2)
    by (intro exI[of _ s] exI[of _ "[demo_block \<mapsto> 16](demo_block := None, demo_block \<mapsto> 32)"] exI[of _ demo_block])
      (simp add: numeral_2_eq_2)
qed

end
