(* ===== verification/Memory_Bugs.thy ===== *)
theory Memory_Bugs
  imports Memory_Properties
begin

text \<open>
  Blocks of a hot path belong to the cache of the thread that created them, wherever they are: what happens when such
  a block outlives the thread, or is freed by another one.
\<close>

section \<open>A cache with one block\<close>

definition warm_env :: mm_env where
  "warm_env = demo_env (\<lambda>k n. n < 64 \<or> k = 1)"

definition hot_block :: nat where "hot_block = 2 * 2 ^ 40"

lemma prewarm_class_one:
  assumes "M (cx_calls H) (cx_blocks H) sz = Some (p, u)" "M (cx_calls H + 1) ((cx_blocks H)(p \<mapsto> u)) sz = None" "1 < n"
  shows "prewarm_class M sz n H = ([p], H\<lparr>cx_calls := cx_calls H + 2, cx_blocks := (cx_blocks H)(p \<mapsto> u)\<rparr>)"
proof -
  obtain m where m: "n = Suc (Suc m)" using assms(3) less_iff_Suc_add[of 1 n] by auto
  show ?thesis using assms(1,2) by (simp add: m malloc_def)
qed

definition one_hot :: hot_path_cache where
  "one_hot = zero_hot_path\<lparr>hp_blocks := (\<lambda>_ _. None)(0 := (\<lambda>k. if k = 0 then Some hot_block else None)), hp_watermark := (\<lambda>_. 0)(0 := 1)\<rparr>"

lemma one_hot_fields [simp]:
  "hp_blocks one_hot = (\<lambda>_ _. None)(0 := (\<lambda>k. if k = 0 then Some hot_block else None))" "hp_next_free one_hot = (\<lambda>_. 0)"
  "hp_watermark one_hot = (\<lambda>_. 0)(0 := 1)"
  by (simp_all add: one_hot_def)

lemma prewarm_one:
  assumes one: "M (cx_calls H) (cx_blocks H) 64 = Some (hot_block, u)"
    and none: "\<And>k h n. 64 \<le> n \<Longrightarrow> cx_calls H < k \<Longrightarrow> M k h n = None"
  shows "prewarm_hot_path_cache M 0 zero_hot_path H =
    (one_hot, H\<lparr>cx_calls := cx_calls H + 9, cx_blocks := (cx_blocks H)(hot_block \<mapsto> u)\<rparr>)"
proof -
  have 8: "[0..<8] = [0, 1, 2, 3, 4, 5, 6, 7 :: nat]" by (simp add: upt_rec)
  have f: "prewarm_class M 64 512 H = ([hot_block], H\<lparr>cx_calls := cx_calls H + 2, cx_blocks := (cx_blocks H)(hot_block \<mapsto> u)\<rparr>)"
    by (rule prewarm_class_one[where M = M and H = H and sz = 64, OF one]) (simp_all add: none)
  have p: "prewarm_class M sz 512 H' = ([], H'\<lparr>cx_calls := cx_calls H' + 1\<rparr>)" if "64 \<le> sz" "cx_calls H < cx_calls H'" for sz H'
    using prewarm_class_fails[of 512 M H' sz] none that by simp
  have w: "fill_hot_class 0 0 [hot_block] zero_hot_path = one_hot"
    by (simp add: fill_hot_class_def one_hot_def zero_hot_path_def fun_eq_iff)
  have n: "fill_hot_class h 0 [] one_hot = one_hot" if "0 < h" for h
    using that by (simp add: fill_hot_class_def one_hot_def zero_hot_path_def fun_eq_iff)
  show ?thesis unfolding prewarm_hot_path_cache_def HOT_CLASSES 8 by (simp add: f p w n hot_path_sizes_def)
qed

definition warm_cache :: thread_cache where
  "warm_cache = cold_cache\<lparr>tc_hot_path := one_hot\<rparr>"

definition warm_heap :: c_heap where
  "warm_heap = \<lparr>cx_blocks = [2 ^ 40 \<mapsto> total_pool_size, hot_block \<mapsto> 72], cx_calls = 10, cx_bad = False\<rparr>"

lemma total_pool_lt: "total_pool_size = 2 ^ 30"
  by (simp add: total_pool_size_def MAX_THREADS_def pool_size_per_thread_def)

lemma warm_get_first:
  "get_thread_cache warm_env 0 (demo_mm\<lparr>mm_total_allocations := n\<rparr>) =
     (Some warm_cache, demo_mm\<lparr>mm_total_allocations := n, mm_heap := warm_heap, mm_cache_capacity := 64, mm_cache_list := [0], mm_caches := [0 \<mapsto> warm_cache]\<rparr>)"
proof -
  have "prewarm_hot_path_cache (me_malloc warm_env) 0 zero_hot_path (mm_heap demo_mm) =
      (one_hot, (mm_heap demo_mm)\<lparr>cx_calls := cx_calls (mm_heap demo_mm) + 9, cx_blocks := (cx_blocks (mm_heap demo_mm))(hot_block \<mapsto> 72)\<rparr>)"
    by (rule prewarm_one) (simp_all add: warm_env_def demo_malloc_def glibc_usable_def hot_block_def total_pool_lt)
  then have "new_thread_cache (me_malloc warm_env) (me_now warm_env) (mm_heap demo_mm) = (warm_cache, warm_heap)"
    by (simp add: warm_env_def new_thread_cache_def warm_cache_def cold_cache_def warm_heap_def init_markov_chain_def
        init_pattern_tracking_def init_refill_strategy_def zero_cache_def Let_def)
  then show ?thesis by (simp add: get_thread_cache_def warm_env_def set_cache_def Let_def)
qed

lemma warm_now [simp]: "me_now warm_env = 0" by (simp add: warm_env_def)

text \<open>Thread 0 allocates 64 bytes, and gets the block.\<close>

definition taken_cache :: thread_cache where
  "taken_cache = hot_hit 0 0 (snd (hot_draw 0 warm_cache))"

lemma taken_fields [simp]:
  "hp_blocks (tc_hot_path taken_cache) = hp_blocks one_hot" "hp_watermark (tc_hot_path taken_cache) = hp_watermark one_hot"
  "tc_count taken_cache = (\<lambda>_. 0)"
  by (simp_all add: taken_cache_def hot_hit_def hot_draw_def warm_cache_def Let_def)

definition taken :: memory_manager where
  "taken = snd (lgx_memory_manager_alloc warm_env 0 64 None demo_mm)"

lemma taken_alloc: "lgx_memory_manager_alloc warm_env 0 64 None demo_mm = (Some hot_block, taken)"
  and taken_state [simp]: "mm_caches taken = [0 \<mapsto> taken_cache]" "mm_heap taken = warm_heap" "mm_cache_list taken = [0]"
    "mm_cache_capacity taken = 64" "mm_thread_pools taken = slices (2 ^ 40)" "mm_lockfree taken = demo_lockfree"
  by (simp_all add: taken_def lgx_memory_manager_alloc_def allocate_ultra_fast_def get_hot_path_size_class_def warm_get_first
      hot_draw_def warm_cache_def track_if_def set_cache_def Let_def taken_cache_def hot_hit_def)

lemma taken_run: "mm_run False 1 taken [hot_block \<mapsto> 64]"
  using mr_alloc[OF demo_mm_run demo_mm_env_ok taken_alloc[unfolded warm_env_def]] by simp

lemma slices_in: "p < b + 2 ^ 30 \<and> b \<le> p \<longleftrightarrow> list_ex (in_slice p) (slices b)"
proof
  assume p: "p < b + 2 ^ 30 \<and> b \<le> p"
  let ?i = "(p - b) div pool_size_per_thread"
  have s: "pool_size_per_thread = 2 ^ 24" by (simp add: pool_size_per_thread_def)
  have "?i < 64" using p by (simp add: s) linarith
  moreover have "b + ?i * pool_size_per_thread \<le> p" "p < b + ?i * pool_size_per_thread + pool_size_per_thread"
  proof -
    have "(p - b) mod 2 ^ 24 < 2 ^ 24" by simp
    moreover have "p = b + ((p - b) div 2 ^ 24 * 2 ^ 24 + (p - b) mod 2 ^ 24)" using p div_mult_mod_eq[of "p - b" "2 ^ 24"] by linarith
    ultimately show "b + ?i * pool_size_per_thread \<le> p" "p < b + ?i * pool_size_per_thread + pool_size_per_thread"
      unfolding s by linarith+
  qed
  ultimately show "list_ex (in_slice p) (slices b)"
    by (auto simp: list_ex_iff slices_def in_slice_def MAX_THREADS_def intro!: bexI[of _ ?i])
next
  assume "list_ex (in_slice p) (slices b)"
  then obtain i where "i < 64" "b + i * 2 ^ 24 \<le> p" "p < b + i * 2 ^ 24 + 2 ^ 24"
    by (auto simp: list_ex_iff slices_def in_slice_def MAX_THREADS_def pool_size_per_thread_def)
  then show "p < b + 2 ^ 30 \<and> b \<le> p" by simp
qed

lemma hot_not_from [simp]: "mm_thread_pools s = slices (2 ^ 40) \<Longrightarrow> \<not> from_pool s hot_block"
  using slices_in[of hot_block "2 ^ 40"] by (simp add: from_pool_def hot_block_def)

lemma hot_blocks_one: "hp_blocks hc = hp_blocks one_hot \<Longrightarrow> b 0 = 1 \<Longrightarrow> hot_blocks b hc = [hot_block]"
proof -
  assume hc: "hp_blocks hc = hp_blocks one_hot" and b: "b 0 = 1"
  have none: "List.map_filter (\<lambda>_. None) xs = []" for xs :: "nat list" by (simp add: List.map_filter_def)
  have "[0..<HOT_PATH_SIZE_CLASSES] = [0, 1, 2, 3, 4, 5, 6, 7]" by (simp add: upt_rec)
  then show ?thesis using hc b none by (simp add: hot_blocks_def List.map_filter_def)
qed

lemma cached_none: "tc_count c = (\<lambda>_. 0) \<Longrightarrow> cached_blocks c = []"
  by (simp add: cached_blocks_def List.map_filter_def)

text \<open>
  The end of a thread frees the blocks of its hot path, also those that are live: a block that was allocated
  by a thread and handed to another one is gone when the first thread ends.
\<close>

theorem mm_thread_exit_frees_live:
  "\<exists>s LV p i. mm_run False 1 s LV \<and> LV p = Some 64 \<and> cx_blocks (mm_heap s) p \<noteq> None \<and>
     cx_blocks (mm_heap (cache_destructor i s)) p = None"
proof (intro exI conjI)
  show "mm_run False 1 taken [hot_block \<mapsto> 64]" by (rule taken_run)
  show "cx_blocks (mm_heap (cache_destructor 0 taken)) hot_block = None"
    by (simp add: cache_destructor_def cached_none hot_blocks_one free_all_def c_free_def warm_heap_def)
qed (simp_all add: warm_heap_def)

section \<open>Freed by another thread\<close>

lemma cold_rest:
  "10 \<le> cx_calls H \<Longrightarrow> new_thread_cache (me_malloc warm_env) 0 H = (cold_cache, H\<lparr>cx_calls := cx_calls H + 8\<rparr>)"
proof -
  assume H: "10 \<le> cx_calls H"
  have 8: "[0..<8] = [0, 1, 2, 3, 4, 5, 6, 7 :: nat]" by (simp add: upt_rec)
  have p: "prewarm_class (me_malloc warm_env) sz 512 H' = ([], H'\<lparr>cx_calls := cx_calls H' + 1\<rparr>)" if "64 \<le> sz" "10 \<le> cx_calls H'" for sz H'
    using prewarm_class_fails[of 512 "me_malloc warm_env" H' sz] that by (simp add: warm_env_def demo_malloc_def)
  have "prewarm_hot_path_cache (me_malloc warm_env) 0 zero_hot_path H = (zero_hot_path, H\<lparr>cx_calls := cx_calls H + 8\<rparr>)"
    unfolding prewarm_hot_path_cache_def HOT_CLASSES 8 using H
    by (simp add: p hot_path_sizes_def fill_nothing zero_hot_path_def fun_upd_idem)
  then show ?thesis
    by (simp add: new_thread_cache_def cold_cache_def init_markov_chain_def init_pattern_tracking_def init_refill_strategy_def
        zero_cache_def Let_def)
qed

lemma other_get:
  "mm_caches s = [0 \<mapsto> taken_cache] \<Longrightarrow> mm_cache_list s = [0] \<Longrightarrow> mm_cache_capacity s = 64 \<Longrightarrow> mm_heap s = warm_heap \<Longrightarrow>
   get_thread_cache warm_env 1 s = (Some cold_cache, s\<lparr>mm_heap := warm_heap\<lparr>cx_calls := 18\<rparr>, mm_cache_list := [0, 1], mm_caches := [0 \<mapsto> taken_cache, 1 \<mapsto> cold_cache]\<rparr>)"
  using cold_rest[of warm_heap] by (simp add: get_thread_cache_def set_cache_def Let_def warm_env_def warm_heap_def)

definition crossed :: memory_manager where
  "crossed = lgx_memory_manager_free warm_env 1 (Some hot_block) taken"

lemma crossed_state [simp]:
  "mm_caches crossed = [0 \<mapsto> taken_cache, 1 \<mapsto> cache_push 4 hot_block cold_cache]"
  "mm_heap crossed = warm_heap\<lparr>cx_calls := 18\<rparr>" "mm_thread_pools crossed = slices (2 ^ 40)"
proof -
  have pool: "\<not> in_global_pool s hot_block" if "mm_thread_pools s = slices (2 ^ 40)" for s
    using that by (simp add: in_global_pool_def slices_def hot_block_def MAX_THREADS_def pool_size_per_thread_def upt_rec)
  have "get_size_class_index 72 = 4" by (simp add: get_size_class_index_def size_classes_def)
  then show "mm_caches crossed = [0 \<mapsto> taken_cache, 1 \<mapsto> cache_push 4 hot_block cold_cache]"
    "mm_heap crossed = warm_heap\<lparr>cx_calls := 18\<rparr>" "mm_thread_pools crossed = slices (2 ^ 40)"
    by (simp_all add: crossed_def lgx_memory_manager_free_def Let_def untrack_allocation_def pool other_get[simplified One_nat_def] is_hot_path_block_def
        malloc_usable_size_def warm_heap_def set_cache_def list_ex_iff)
qed

lemma cached_one: "cached_blocks (cache_push 4 p cold_cache) = [p]"
proof -
  have "[0..<16] = [0, 1, 2, 3, 4, 5, 6, 7, 8, 9, 10, 11, 12, 13, 14, 15 :: nat]" by (simp add: upt_rec)
  then show ?thesis by (simp add: cached_blocks_def cache_push_def List.map_filter_def)
qed

text \<open>
  A block of a hot path that another thread frees is filed in that thread's cache while the first cache still counts
  it as its own: when both threads have ended it has been freed twice.
\<close>

theorem mm_cross_thread_double_free:
  "\<exists>s. mm_run False 1 s Map.empty \<and> \<not> cx_bad (mm_heap s) \<and> cx_bad (mm_heap (cache_destructor 0 (cache_destructor 1 s)))"
proof (intro exI conjI)
  have "mm_run False 1 crossed ([hot_block \<mapsto> 64](hot_block := None))"
    unfolding crossed_def warm_env_def by (rule mr_free[OF taken_run demo_mm_env_ok]) simp
  then show "mm_run False 1 crossed Map.empty" by simp
  show "\<not> cx_bad (mm_heap crossed)" by (simp add: warm_heap_def)
  have hp: "hot_blocks (\<lambda>h. min (hp_watermark zero_hot_path h) HOT_PATH_CACHE_SIZE) zero_hot_path = []"
    by (simp add: hot_blocks_def upt_rec List.map_filter_def)
  have "tc_hot_path (cache_push 4 hot_block cold_cache) = zero_hot_path" by (simp add: cache_push_def)
  then have "hot_blocks (\<lambda>h. min (hp_watermark (tc_hot_path (cache_push 4 hot_block cold_cache)) h) HOT_PATH_CACHE_SIZE)
      (tc_hot_path (cache_push 4 hot_block cold_cache)) = []" using hp by simp
  then show "cx_bad (mm_heap (cache_destructor 0 (cache_destructor 1 crossed)))"
    by (simp add: cache_destructor_def cached_one cached_none hot_blocks_one free_all_def c_free_def warm_heap_def)
qed

end
