(* ===== verification/Leak_Detector.thy ===== *)
theory Leak_Detector
  imports LGX_Prelude
begin

text \<open>
  The leak detector (\<^verbatim>\<open>src/runtime/lgx_leak_detector.c\<close>): a ring of the last 60 memory samples and a count of
  consecutive growths. Byte counts keep their 64 bits. The ratio of two byte counts is a \<open>float\<close>: a rational
  rounded to single precision after each conversion and after the division (\<open>float32\<close>), or infinity where the code divides by zero;
  the threshold it is compared with is the double nearest to 1.05. The alert callback runs outside the lock and is recorded in a log;
  what it does is the client's.
\<close>

section \<open>Single precision\<close>

text \<open>Nearest integer, ties to even.\<close>

definition round_even :: "rat \<Rightarrow> int" where
  "round_even q =
     (let n = \<lfloor>q\<rfloor>; d = q - of_int n
      in if d < 1 / 2 then n else if d > 1 / 2 then n + 1 else if even n then n else n + 1)"

text \<open>
  A normal number of single precision has a significand of 24 bits; the ratios of 64-bit counts lie between
  \<open>2 ^ -64\<close> and \<open>2 ^ 64\<close>, well inside the normal range.
\<close>

definition float32 :: "rat \<Rightarrow> rat" where
  "float32 q =
     (if q = 0 then 0
      else case find (\<lambda>e. 2 ^ 23 \<le> q * 2 powi (- e) \<and> q * 2 powi (- e) < 2 ^ 24) [-126 .. 104] of
             Some e \<Rightarrow> of_int (round_even (q * 2 powi (- e))) * 2 powi e
           | None \<Rightarrow> q)"

definition float_div :: "u64 \<Rightarrow> u64 \<Rightarrow> rat" where
  "float_div a b = float32 (float32 (of_nat (unat a)) / float32 (of_nat (unat b)))"

lemma float32_range:
  fixes q :: rat
  assumes "2 ^ 23 \<le> q * 2 powi (- e)" "q * 2 powi (- e) < 2 ^ 24" "2 ^ 23 \<le> q * 2 powi (- e')" "q * 2 powi (- e') < 2 ^ 24"
  shows "e = e'"
proof -
  have no: False if ee: "d < d'" and lo: "2 ^ 23 \<le> q * 2 powi (- d')" and hi: "q * 2 powi (- d) < 2 ^ 24" for d d' :: int
  proof -
    have "2 powi 1 \<le> (2 :: rat) powi (d' - d)" by (rule power_int_increasing) (use ee in simp_all)
    then have "2 \<le> (2 :: rat) powi (d' - d)" by simp
    then have "2 ^ 23 * 2 \<le> q * 2 powi (- d') * 2 powi (d' - d)" using lo by (intro mult_mono) simp_all
    also have "\<dots> = q * (2 powi (- d') * 2 powi (d' - d))" by (simp only: mult.assoc)
    also have "(2 :: rat) powi (- d') * 2 powi (d' - d) = 2 powi (- d' + (d' - d))" by (rule power_int_add[symmetric]) simp
    finally show False using hi by simp
  qed
  show ?thesis using no[of e e'] no[of e' e] assms by (meson linorder_neqE)
qed

lemma float32_at:
  assumes "2 ^ 23 \<le> q * 2 powi (- e)" "q * 2 powi (- e) < 2 ^ 24" "- 126 \<le> e" "e \<le> 104"
  shows "float32 q = of_int (round_even (q * 2 powi (- e))) * 2 powi e"
proof -
  have "find (\<lambda>e. 2 ^ 23 \<le> q * 2 powi (- e) \<and> q * 2 powi (- e) < 2 ^ 24) [-126 .. 104] = Some e"
    (is "find ?P ?es = _")
  proof (cases "find ?P ?es")
    case None
    then have "\<not> (\<exists>e. e \<in> set ?es \<and> ?P e)" unfolding find_None_iff .
    moreover have "e \<in> set ?es" using assms(3,4) unfolding set_upto by simp
    ultimately show ?thesis using assms(1,2) by blast
  next
    case (Some e')
    then have "?P e'" unfolding find_Some_iff by blast
    then have "e = e'" using float32_range[of q e e'] assms(1,2) by blast
    then show ?thesis using Some by (simp only:)
  qed
  moreover have "q \<noteq> 0" using assms(1) by auto
  ultimately show ?thesis by (simp add: float32_def)
qed

lemma float32_pow2: "k \<le> 64 \<Longrightarrow> float32 (2 ^ k) = 2 ^ k"
proof -
  assume k: "k \<le> 64"
  have e: "(2 :: rat) ^ k * 2 powi (- (int k - 23)) = 2 ^ 23"
  proof -
    have "(2 :: rat) ^ k * 2 powi (- (int k - 23)) = 2 powi (int k) * 2 powi (23 - int k)" by simp
    also have "\<dots> = 2 powi (int k + (23 - int k))" by (rule power_int_add[symmetric]) simp
    finally show ?thesis by simp
  qed
  have "float32 (2 ^ k) = of_int (round_even (2 ^ 23)) * 2 powi (int k - 23)"
    using float32_at[of "2 ^ k" "int k - 23"] k unfolding e by simp
  also have "\<dots> = 2 powi 23 * 2 powi (int k - 23)" by (simp add: round_even_def Let_def)
  also have "\<dots> = 2 powi (23 + (int k - 23))" by (rule power_int_add[symmetric]) simp
  finally show ?thesis by simp
qed

section \<open>State\<close>

definition LGX_LEAK_DETECTOR_WINDOW_SIZE :: int where "LGX_LEAK_DETECTOR_WINDOW_SIZE = 60"
definition LGX_LEAK_DETECTOR_GROWTH_THRESHOLD :: rat where "LGX_LEAK_DETECTOR_GROWTH_THRESHOLD = 4728779608739021 / 2 ^ 52"
definition LGX_LEAK_DETECTOR_SUSTAINED_GROWTH_COUNT :: nat where "LGX_LEAK_DETECTOR_SUSTAINED_GROWTH_COUNT = 10"

lemmas leak_consts [lgx_consts] = LGX_LEAK_DETECTOR_WINDOW_SIZE_def LGX_LEAK_DETECTOR_GROWTH_THRESHOLD_def
  LGX_LEAK_DETECTOR_SUSTAINED_GROWTH_COUNT_def

record lgx_memory_sample =
  sa_timestamp_ns :: u64
  sa_total_bytes :: u64
  sa_frame_arena_bytes :: u64
  sa_gpu_pool_bytes :: u64
  sa_persistent_heap_bytes :: u64

datatype growth = Ratio rat | Infinite

record lgx_leak_alert =
  la_growth_rate :: growth
  la_suspected_allocator :: "string option"
  la_current_bytes :: u64
  la_consecutive_growth_count :: nat

record lgx_leak_detector =
  ld_initialized :: bool
  ld_samples :: "int \<Rightarrow> lgx_memory_sample"
  ld_sample_count :: int
  ld_sample_index :: int
  ld_leak_detected :: bool
  ld_consecutive_growth_count :: nat
  ld_growth_rate :: growth
  ld_suspected_allocator :: "string option"
  ld_total_samples :: u64
  ld_leak_alerts :: u64
  ld_alert_callback :: bool
  ld_alert_log :: "lgx_leak_alert list"

section \<open>Operations\<close>

definition zero_sample :: lgx_memory_sample where
  "zero_sample = \<lparr>sa_timestamp_ns = 0, sa_total_bytes = 0, sa_frame_arena_bytes = 0, sa_gpu_pool_bytes = 0, sa_persistent_heap_bytes = 0\<rparr>"

definition lgx_leak_detector_init :: "bool \<Rightarrow> lgx_leak_detector \<Rightarrow> lgx_result \<times> lgx_leak_detector" where
  "lgx_leak_detector_init mutex_ok s =
     (if ld_initialized s then (LGX_ERROR_ALREADY_INITIALIZED, s)
      else
        let s = \<lparr>ld_initialized = False, ld_samples = (\<lambda>_. zero_sample), ld_sample_count = 0, ld_sample_index = 0,
                 ld_leak_detected = False, ld_consecutive_growth_count = 0, ld_growth_rate = Ratio 0,
                 ld_suspected_allocator = None, ld_total_samples = 0, ld_leak_alerts = 0, ld_alert_callback = False,
                 ld_alert_log = ld_alert_log s\<rparr>
        in if \<not> mutex_ok then (LGX_ERROR_OUT_OF_MEMORY, s) else (LGX_SUCCESS, s\<lparr>ld_initialized := True\<rparr>))"

definition lgx_leak_detector_shutdown :: "lgx_leak_detector \<Rightarrow> lgx_result \<times> lgx_leak_detector" where
  "lgx_leak_detector_shutdown s =
     (if \<not> ld_initialized s then (LGX_ERROR_NOT_INITIALIZED, s) else (LGX_SUCCESS, s\<lparr>ld_initialized := False\<rparr>))"

definition sample_growth :: "lgx_memory_sample \<Rightarrow> lgx_memory_sample \<Rightarrow> growth" where
  "sample_growth x prev =
     (if sa_total_bytes prev = 0 then Infinite else Ratio (float_div (sa_total_bytes x) (sa_total_bytes prev)))"

definition at_least :: "growth \<Rightarrow> rat \<Rightarrow> bool" where
  "at_least g r = (case g of Infinite \<Rightarrow> True | Ratio q \<Rightarrow> r \<le> q)"

definition suspect :: "lgx_memory_sample \<Rightarrow> lgx_memory_sample \<Rightarrow> string" where
  "suspect x prev =
     (let frame_growth = sa_frame_arena_bytes x - sa_frame_arena_bytes prev;
          gpu_growth = sa_gpu_pool_bytes x - sa_gpu_pool_bytes prev;
          heap_growth = sa_persistent_heap_bytes x - sa_persistent_heap_bytes prev
      in if frame_growth > gpu_growth \<and> frame_growth > heap_growth then ''frame_arena''
         else if gpu_growth > heap_growth then ''gpu_pool'' else ''persistent_heap'')"

definition reset_growth :: "lgx_leak_detector \<Rightarrow> lgx_leak_detector" where
  "reset_growth s = s\<lparr>ld_consecutive_growth_count := 0, ld_leak_detected := False\<rparr>"

definition raise_alert :: "lgx_memory_sample \<Rightarrow> lgx_leak_detector \<Rightarrow> lgx_leak_detector" where
  "raise_alert x s =
     (if ld_consecutive_growth_count s \<ge> LGX_LEAK_DETECTOR_SUSTAINED_GROWTH_COUNT \<and> \<not> ld_leak_detected s then
        let s = s\<lparr>ld_leak_detected := True, ld_leak_alerts := ld_leak_alerts s + 1\<rparr>
        in if ld_alert_callback s
           then s\<lparr>ld_alert_log := ld_alert_log s @
                  [\<lparr>la_growth_rate = ld_growth_rate s, la_suspected_allocator = ld_suspected_allocator s,
                    la_current_bytes = sa_total_bytes x, la_consecutive_growth_count = ld_consecutive_growth_count s\<rparr>]\<rparr>
           else s
      else s)"

definition analyze :: "lgx_memory_sample \<Rightarrow> lgx_leak_detector \<Rightarrow> lgx_leak_detector" where
  "analyze x s =
     (let W = LGX_LEAK_DETECTOR_WINDOW_SIZE; prev = ld_samples s ((ld_sample_index s - 2 + W) mod W)
      in if sa_total_bytes x > sa_total_bytes prev then
           if at_least (sample_growth x prev) LGX_LEAK_DETECTOR_GROWTH_THRESHOLD then
             raise_alert x (s\<lparr>ld_consecutive_growth_count := ld_consecutive_growth_count s + 1,
                              ld_growth_rate := sample_growth x prev, ld_suspected_allocator := Some (suspect x prev)\<rparr>)
           else reset_growth s
         else reset_growth s)"

definition lgx_leak_detector_add_sample :: "lgx_memory_sample \<Rightarrow> lgx_leak_detector \<Rightarrow> lgx_result \<times> lgx_leak_detector" where
  "lgx_leak_detector_add_sample x s =
     (if \<not> ld_initialized s then (LGX_ERROR_NOT_INITIALIZED, s)
      else
        let W = LGX_LEAK_DETECTOR_WINDOW_SIZE;
            s = s\<lparr>ld_samples := (ld_samples s)(ld_sample_index s := x), ld_sample_index := (ld_sample_index s + 1) mod W,
                  ld_sample_count := (if ld_sample_count s < W then ld_sample_count s + 1 else ld_sample_count s),
                  ld_total_samples := ld_total_samples s + 1\<rparr>
        in (LGX_SUCCESS, if ld_sample_count s \<ge> 2 then analyze x s else s))"

definition lgx_leak_detector_is_leak_detected :: "lgx_leak_detector \<Rightarrow> bool" where
  "lgx_leak_detector_is_leak_detected s = (ld_initialized s \<and> ld_leak_detected s)"

text \<open>The counters, and the latest sample.\<close>

definition lgx_leak_detector_get_stats :: "lgx_leak_detector \<Rightarrow> lgx_result + (u64 \<times> u64 \<times> bool \<times> nat \<times> growth \<times> string option \<times> lgx_memory_sample)" where
  "lgx_leak_detector_get_stats s =
     (if \<not> ld_initialized s then Inl LGX_ERROR_NOT_INITIALIZED
      else Inr (ld_total_samples s, ld_leak_alerts s, ld_leak_detected s, ld_consecutive_growth_count s, ld_growth_rate s,
        ld_suspected_allocator s,
        if ld_sample_count s > 0
        then (ld_samples s ((ld_sample_index s - 1 + LGX_LEAK_DETECTOR_WINDOW_SIZE) mod LGX_LEAK_DETECTOR_WINDOW_SIZE))
        else zero_sample))"

definition lgx_leak_detector_set_alert_callback :: "bool \<Rightarrow> lgx_leak_detector \<Rightarrow> lgx_leak_detector" where
  "lgx_leak_detector_set_alert_callback nonnull s = (if \<not> ld_initialized s then s else s\<lparr>ld_alert_callback := nonnull\<rparr>)"

definition lgx_leak_detector_reset :: "lgx_leak_detector \<Rightarrow> lgx_result \<times> lgx_leak_detector" where
  "lgx_leak_detector_reset s =
     (if \<not> ld_initialized s then (LGX_ERROR_NOT_INITIALIZED, s)
      else (LGX_SUCCESS, s\<lparr>ld_sample_count := 0, ld_sample_index := 0, ld_leak_detected := False,
              ld_consecutive_growth_count := 0, ld_growth_rate := Ratio 0, ld_suspected_allocator := None\<rparr>))"

section \<open>What is detected\<close>

text \<open>The specification: a step that counts as growth, and the number of such steps at the end of a list of samples.\<close>

definition grows :: "u64 \<Rightarrow> u64 \<Rightarrow> bool" where
  "grows a b \<longleftrightarrow> a < b \<and> (a = 0 \<or> LGX_LEAK_DETECTOR_GROWTH_THRESHOLD \<le> float_div b a)"

fun streak :: "u64 list \<Rightarrow> nat" where \<comment> \<open>latest sample first\<close>
  "streak (b # a # xs) = (if grows a b then streak (a # xs) + 1 else 0)"
| "streak _ = 0"

lemma growth_iff:
  "sa_total_bytes x > sa_total_bytes y \<and> at_least (sample_growth x y) LGX_LEAK_DETECTOR_GROWTH_THRESHOLD \<longleftrightarrow>
     grows (sa_total_bytes y) (sa_total_bytes x)"
  by (simp add: sample_growth_def at_least_def grows_def)

text \<open>\<open>xs\<close> are the samples since the start or the last reset, latest first.\<close>

definition ld_inv :: "lgx_memory_sample list \<Rightarrow> lgx_leak_detector \<Rightarrow> bool" where
  "ld_inv xs s \<longleftrightarrow> ld_initialized s \<and> ld_sample_index s = int (length xs) mod 60 \<and> ld_sample_count s = min (int (length xs)) 60 \<and>
     (\<forall>i<min (length xs) 60. ld_samples s ((int (length xs) - 1 - int i) mod 60) = xs ! i) \<and>
     ld_consecutive_growth_count s = streak (map sa_total_bytes xs) \<and>
     (ld_leak_detected s \<longleftrightarrow> 10 \<le> streak (map sa_total_bytes xs))"

lemma ld_inv_ring:
  assumes inv: "ld_inv xs s" and i: "i < min (Suc (length xs)) 60"
  shows "((ld_samples s)(ld_sample_index s := x)) ((int (length (x # xs)) - 1 - int i) mod 60) = (x # xs) ! i"
proof (cases i)
  case 0 then show ?thesis using inv by (simp add: ld_inv_def)
next
  case (Suc j)
  have "int (length xs) mod 60 \<noteq> (int (length xs) - 1 - int j) mod 60"
  proof
    assume "int (length xs) mod 60 = (int (length xs) - 1 - int j) mod 60"
    then have "60 dvd (1 + int j)" by (simp add: mod_eq_dvd_iff)
    then show False using i Suc by (auto dest!: zdvd_imp_le)
  qed
  moreover have "ld_samples s ((int (length xs) - 1 - int j) mod 60) = xs ! j" using inv i Suc by (simp add: ld_inv_def)
  moreover have "int (length (x # xs)) - 1 - int i = int (length xs) - 1 - int j" using Suc by simp
  ultimately show ?thesis using inv Suc by (metis fun_upd_apply ld_inv_def nth_Cons_Suc)
qed

lemma raise_fields:
  "ld_samples (raise_alert x s) = ld_samples s" "ld_sample_index (raise_alert x s) = ld_sample_index s"
  "ld_sample_count (raise_alert x s) = ld_sample_count s" "ld_initialized (raise_alert x s) = ld_initialized s"
  "ld_consecutive_growth_count (raise_alert x s) = ld_consecutive_growth_count s"
  "ld_leak_detected (raise_alert x s) = (ld_leak_detected s \<or> 10 \<le> ld_consecutive_growth_count s)"
  by (auto simp: raise_alert_def Let_def LGX_LEAK_DETECTOR_SUSTAINED_GROWTH_COUNT_def)

lemma streak_short: "streak [a] = 0" by simp

lemma add_sample_inv:
  assumes inv: "ld_inv xs s"
  shows "\<exists>s'. lgx_leak_detector_add_sample x s = (LGX_SUCCESS, s') \<and> ld_inv (x # xs) s'"
proof -
  define t where "t = s\<lparr>ld_samples := (ld_samples s)(ld_sample_index s := x), ld_sample_index := (ld_sample_index s + 1) mod 60,
     ld_sample_count := (if ld_sample_count s < 60 then ld_sample_count s + 1 else ld_sample_count s), ld_total_samples := ld_total_samples s + 1\<rparr>"
  have st: "lgx_leak_detector_add_sample x s = (LGX_SUCCESS, if ld_sample_count t \<ge> 2 then analyze x t else t)"
    using inv by (simp add: lgx_leak_detector_add_sample_def ld_inv_def t_def LGX_LEAK_DETECTOR_WINDOW_SIZE_def Let_def)
  have cnt: "ld_sample_count t = min (int (length (x # xs))) 60" and ini: "ld_initialized t"
    and idx: "ld_sample_index t = int (length (x # xs)) mod 60"
    and old: "ld_consecutive_growth_count t = streak (map sa_total_bytes xs)" "ld_leak_detected t \<longleftrightarrow> 10 \<le> streak (map sa_total_bytes xs)"
    using inv by (auto simp: t_def ld_inv_def mod_simps ac_simps)
  have ring: "ld_samples t ((int (length (x # xs)) - 1 - int i) mod 60) = (x # xs) ! i" if "i < min (length (x # xs)) 60" for i
    using ld_inv_ring[OF inv, of i x] that by (simp add: t_def)
  have keeps: "ld_inv (x # xs) u" if "ld_samples u = ld_samples t" "ld_sample_index u = ld_sample_index t"
      "ld_sample_count u = ld_sample_count t" "ld_initialized u = ld_initialized t"
      "ld_consecutive_growth_count u = streak (map sa_total_bytes (x # xs))"
      "ld_leak_detected u \<longleftrightarrow> 10 \<le> streak (map sa_total_bytes (x # xs))" for u
    unfolding ld_inv_def that using cnt ini idx ring by blast
  show ?thesis
  proof (cases xs)
    case Nil
    then show ?thesis using st cnt ini idx old ring by (auto simp: ld_inv_def)
  next
    case (Cons y ys)
    then have two: "ld_sample_count t \<ge> 2" using cnt by simp
    have "(ld_sample_index t - 2 + 60) mod 60 = (int (length (x # xs)) - 1 - int 1) mod 60"
    proof -
      have "(k mod 60 - 2 + 60) mod 60 = (k - 1 - int 1) mod (60 :: int)" for k
        by (metis (no_types, opaque_lifting) diff_diff_eq mod_add_self2 mod_diff_left_eq of_nat_1 one_add_one)
      then show ?thesis unfolding idx .
    qed
    then have prev: "ld_samples t ((ld_sample_index t - 2 + 60) mod 60) = y" using ring[of 1] Cons by simp
    have an: "analyze x t = (if sa_total_bytes x > sa_total_bytes y then
        if at_least (sample_growth x y) LGX_LEAK_DETECTOR_GROWTH_THRESHOLD then
          raise_alert x (t\<lparr>ld_consecutive_growth_count := ld_consecutive_growth_count t + 1,
            ld_growth_rate := sample_growth x y, ld_suspected_allocator := Some (suspect x y)\<rparr>)
        else reset_growth t else reset_growth t)"
      unfolding analyze_def Let_def LGX_LEAK_DETECTOR_WINDOW_SIZE_def prev ..
    show ?thesis
    proof (cases "grows (sa_total_bytes y) (sa_total_bytes x)")
      case True
      then have g: "sa_total_bytes y < sa_total_bytes x" "at_least (sample_growth x y) LGX_LEAK_DETECTOR_GROWTH_THRESHOLD"
        using growth_iff[of y x] by blast+
      have "streak (map sa_total_bytes (x # xs)) = streak (map sa_total_bytes xs) + 1" using Cons True by simp
      then have "ld_inv (x # xs) (analyze x t)"
        unfolding an using g old by (intro keeps) (auto simp: raise_fields)
      then show ?thesis using st two by simp
    next
      case False
      then have g: "\<not> (sa_total_bytes y < sa_total_bytes x \<and> at_least (sample_growth x y) LGX_LEAK_DETECTOR_GROWTH_THRESHOLD)"
        using growth_iff[of y x] by blast
      have "streak (map sa_total_bytes (x # xs)) = 0" using Cons False by simp
      then have "ld_inv (x # xs) (analyze x t)"
        unfolding an using g by (intro keeps) (auto simp: reset_growth_def)
      then show ?thesis using st two by simp
    qed
  qed
qed

fun add_samples :: "lgx_memory_sample list \<Rightarrow> lgx_leak_detector \<Rightarrow> lgx_leak_detector" where
  "add_samples [] s = s"
| "add_samples (x # xs) s = add_samples xs (snd (lgx_leak_detector_add_sample x s))"

lemma add_samples_inv: "ld_inv ys s \<Longrightarrow> ld_inv (rev xs @ ys) (add_samples xs s)"
proof (induction xs arbitrary: ys s)
  case (Cons x xs)
  obtain s' where "lgx_leak_detector_add_sample x s = (LGX_SUCCESS, s')" "ld_inv (x # ys) s'" using add_sample_inv[OF Cons.prems] by blast
  then show ?case using Cons.IH[of "x # ys" s'] by simp
qed simp

lemma ld_init_inv: "lgx_leak_detector_init True s = (LGX_SUCCESS, s0) \<Longrightarrow> ld_inv [] s0"
  by (auto simp: lgx_leak_detector_init_def ld_inv_def Let_def split: if_splits)

lemma ld_inv_latest: "ld_inv (x # xs) s \<Longrightarrow> ld_samples s ((ld_sample_index s - 1 + 60) mod 60) = x"
proof -
  assume inv: "ld_inv (x # xs) s"
  then have "ld_samples s ((int (length (x # xs)) - 1 - int 0) mod 60) = (x # xs) ! 0" unfolding ld_inv_def by auto
  moreover have "(ld_sample_index s - 1 + 60) mod 60 = (int (length (x # xs)) - 1 - int 0) mod 60"
    using inv by (simp add: ld_inv_def mod_simps)
  ultimately show ?thesis by simp
qed

text \<open>
  C31. Leak detection: after an initialisation and any number of samples, a leak is reported exactly when each
  of the last ten steps was a growth (the total is larger, and larger by the threshold factor in single precision); the
  reported count is the number of such steps at the end, and the reported sample is the latest one, however often the ring of 60
  samples has wrapped.
\<close>

theorem leak_detector_exact:
  assumes "lgx_leak_detector_init True s = (LGX_SUCCESS, s0)" and "xs \<noteq> []"
  shows "(lgx_leak_detector_is_leak_detected (add_samples xs s0) \<longleftrightarrow> 10 \<le> streak (map sa_total_bytes (rev xs))) \<and>
    (\<exists>n al r w. lgx_leak_detector_get_stats (add_samples xs s0) =
      Inr (n, al, 10 \<le> streak (map sa_total_bytes (rev xs)), streak (map sa_total_bytes (rev xs)), r, w, last xs))"
proof -
  have inv: "ld_inv (rev xs) (add_samples xs s0)" using add_samples_inv[OF ld_init_inv[OF assms(1)], of xs] by simp
  moreover obtain ys where ys: "rev xs = last xs # ys" using assms(2) by (metis rev.simps(2) append_butlast_last_id rev_append rev_rev_ident append_Cons append_Nil)
  ultimately have "ld_samples (add_samples xs s0) ((ld_sample_index (add_samples xs s0) - 1 + 60) mod 60) = last xs"
    using ld_inv_latest by simp
  moreover have "0 < ld_sample_count (add_samples xs s0)" using inv assms(2) by (simp add: ld_inv_def)
  ultimately show ?thesis using inv
    by (simp add: ld_inv_def lgx_leak_detector_is_leak_detected_def lgx_leak_detector_get_stats_def LGX_LEAK_DETECTOR_WINDOW_SIZE_def rev_map)
qed

definition grow_sample :: "u64 \<Rightarrow> lgx_memory_sample" where
  "grow_sample b = zero_sample\<lparr>sa_total_bytes := b\<rparr>"

definition fresh_detector :: lgx_leak_detector where
  "fresh_detector = \<lparr>ld_initialized = False, ld_samples = (\<lambda>_. zero_sample), ld_sample_count = 0, ld_sample_index = 0,
     ld_leak_detected = False, ld_consecutive_growth_count = 0, ld_growth_rate = Ratio 0, ld_suspected_allocator = None,
     ld_total_samples = 0, ld_leak_alerts = 0, ld_alert_callback = False, ld_alert_log = []\<rparr>"

lemmas float32_powers = float32_pow2[of 0, simplified] float32_pow2[of 1, simplified] float32_pow2[of 2, simplified] float32_pow2[of 3, simplified]
  float32_pow2[of 4, simplified] float32_pow2[of 5, simplified] float32_pow2[of 6, simplified] float32_pow2[of 7, simplified]
  float32_pow2[of 8, simplified] float32_pow2[of 9, simplified] float32_pow2[of 10, simplified]

lemma doubling_streak:
  "10 \<le> streak [1024, 512, 256, 128, 64, 32, 16, 8, 4, 2, 1]"
  by (simp add: grows_def float_div_def float32_powers LGX_LEAK_DETECTOR_GROWTH_THRESHOLD_def)

theorem leak_detector_exact_witness:
  "lgx_leak_detector_is_leak_detected
     (add_samples (map grow_sample [1, 2, 4, 8, 16, 32, 64, 128, 256, 512, 1024]) (snd (lgx_leak_detector_init True fresh_detector)))"
proof -
  have "lgx_leak_detector_init True fresh_detector = (LGX_SUCCESS, snd (lgx_leak_detector_init True fresh_detector))"
    by (simp add: lgx_leak_detector_init_def fresh_detector_def Let_def)
  then show ?thesis
    using leak_detector_exact[of fresh_detector "snd (lgx_leak_detector_init True fresh_detector)" "map grow_sample [1, 2, 4, 8, 16, 32, 64, 128, 256, 512, 1024]"]
      doubling_streak by (simp add: grow_sample_def)
qed

text \<open>A growth of exactly five percent, which the comment on the threshold calls suspicious, is not counted: 105 / 100 rounds down.\<close>

lemma five_percent_not_counted: "\<not> grows 100 105"
proof -
  have a: "float32 100 = 100" and b: "float32 105 = 105"
    using float32_at[of 100 "-17"] float32_at[of 105 "-17"] by (simp_all add: round_even_def Let_def)
  have "\<lfloor>44040192 / 5 :: rat\<rfloor> = 8808038" by (rule floor_unique) simp_all
  then have "float32 (105 / 100) = 8808038 / 8388608" using float32_at[of "105 / 100" "-23"] by (simp add: round_even_def Let_def)
  then show ?thesis by (simp add: grows_def float_div_def a b LGX_LEAK_DETECTOR_GROWTH_THRESHOLD_def)
qed

text \<open>The differences per allocator wrap around: an allocator that shrank is blamed for the growth of another.\<close>

lemma shrinking_allocator_suspected:
  "suspect (zero_sample\<lparr>sa_total_bytes := 200, sa_frame_arena_bytes := 9, sa_persistent_heap_bytes := 191\<rparr>)
     (zero_sample\<lparr>sa_total_bytes := 100, sa_frame_arena_bytes := 10, sa_persistent_heap_bytes := 90\<rparr>) = ''frame_arena''"
  by (simp add: suspect_def zero_sample_def Let_def word_less_alt uint_word_ariths)

end
