(* ===== verification/Intent_Allocator.thy ===== *)
theory Intent_Allocator
  imports Heap_Properties Frame_Properties Gpu_Pool Memory_Manager
begin

text \<open>
  The intent allocator (\<^verbatim>\<open>src/runtime/lgx_intent_allocator.c\<close>) and the public entry points \<open>lgx_alloc\<close>,
  \<open>lgx_alloc_aligned\<close> and \<open>lgx_free\<close> of \<^verbatim>\<open>src/runtime/lgx_memory_manager.c\<close>: which of the four allocators
  serves a request, and which one gets a pointer back. The state is that of the four components and the counters; the statistics of
  a thread are indexed by the thread. A result \<open>None\<close> comes from the heap, where a walk over a damaged list
  would not end.
\<close>

section \<open>State\<close>

record intent_stats =
  is_frame_allocations :: u64
  is_gpu_allocations :: u64
  is_persistent_allocations :: u64
  is_unknown_allocations :: u64
  is_intent_mismatches :: u64
  is_intent_validations :: u64
  is_total_intent_allocations :: u64
  is_total_intent_frees :: u64

definition zero_intent_stats :: intent_stats where
  "zero_intent_stats = \<lparr>is_frame_allocations = 0, is_gpu_allocations = 0, is_persistent_allocations = 0, is_unknown_allocations = 0,
     is_intent_mismatches = 0, is_intent_validations = 0, is_total_intent_allocations = 0, is_total_intent_frees = 0\<rparr>"

text \<open>
  \<open>lm_handles\<close> are the handles that \<open>lgx_gpu_alloc\<close> has allocated with \<open>malloc\<close>, by their address; \<open>lm_errors\<close> the error
  codes given to the error handler.
\<close>

record lgx_memory =
  lm_frame :: frame_state
  lm_heap :: persistent_heap
  lm_gpu :: gpu_pool
  lm_manager :: "memory_manager option"
  lm_runtime :: bool
  lm_error_handler :: bool
  lm_errors :: "lgx_result list"
  lm_tls :: "nat \<Rightarrow> intent_stats"
  lm_stats :: intent_stats
  lm_handles :: "nat \<rightharpoonup> gpu_allocation"

text \<open>The surroundings of one call: those of the components, the address of a new GPU handle, and two build flags.\<close>

record intent_env =
  ie_dbg :: bool
  ie_debug :: bool
  ie_vulkan :: bool
  ie_heap :: heap_env
  ie_frame :: frame_env
  ie_gpu :: gpu_alloc_env
  ie_handle :: nat
  ie_manager :: mm_env

definition set_error :: "lgx_result \<Rightarrow> lgx_memory \<Rightarrow> lgx_memory" where
  "set_error r s = (if lm_runtime s \<and> lm_error_handler s then s\<lparr>lm_errors := lm_errors s @ [r]\<rparr> else s)"

definition upd_tls :: "nat \<Rightarrow> (intent_stats \<Rightarrow> intent_stats) \<Rightarrow> lgx_memory \<Rightarrow> lgx_memory" where
  "upd_tls i f s = s\<lparr>lm_tls := (lm_tls s)(i := f (lm_tls s i))\<rparr>"

section \<open>Allocation by intent\<close>

datatype intent_route = Route_gpu | Route_frame | Route_persistent | Route_unknown

definition route_of :: "bool \<Rightarrow> lgx_allocation_intent_base \<Rightarrow> intent_route" where
  "route_of vulkan it =
     (if vulkan \<and> in_hint it = LGX_HINT_GPU_SHARED then Route_gpu
      else if in_lifetime it = LGX_LIFETIME_FRAME then Route_frame
      else if in_lifetime it = LGX_LIFETIME_LEVEL \<or> in_lifetime it = LGX_LIFETIME_SESSION then Route_persistent
      else Route_unknown)"

fun count_route :: "intent_route \<Rightarrow> intent_stats \<Rightarrow> intent_stats" where
  "count_route Route_gpu t = t\<lparr>is_gpu_allocations := is_gpu_allocations t + 1\<rparr>"
| "count_route Route_frame t = t\<lparr>is_frame_allocations := is_frame_allocations t + 1\<rparr>"
| "count_route Route_persistent t = t\<lparr>is_persistent_allocations := is_persistent_allocations t + 1\<rparr>"
| "count_route Route_unknown t = t\<lparr>is_unknown_allocations := is_unknown_allocations t + 1\<rparr>"

text \<open>The call of the allocator that the route names.\<close>

definition route_alloc :: "intent_env \<Rightarrow> intent_route \<Rightarrow> nat \<Rightarrow> lgx_memory \<Rightarrow> (nat option \<times> lgx_memory) option" where
  "route_alloc e r n s =
     (case r of
        Route_gpu \<Rightarrow>
          (case lgx_gpu_alloc (ie_gpu e) n 16 LGX_GPU_HOST_VISIBLE (lm_gpu s) of
             (None, g) \<Rightarrow> Some (None, s\<lparr>lm_gpu := g\<rparr>)
           | (Some h, g) \<Rightarrow> Some (Some (ie_handle e), s\<lparr>lm_gpu := g, lm_handles := (lm_handles s)(ie_handle e \<mapsto> h)\<rparr>))
      | Route_frame \<Rightarrow>
          (case lgx_frame_alloc_internal (ie_dbg e) (ie_debug e) (ie_heap e) (ie_frame e) (of_nat n) (lm_frame s) (lm_heap s) of
             None \<Rightarrow> None
           | Some (p, f, h) \<Rightarrow> Some (p, s\<lparr>lm_frame := f, lm_heap := h\<rparr>))
      | _ \<Rightarrow>
          (case lgx_heap_alloc (ie_debug e) (ie_heap e) n (lm_heap s) of
             None \<Rightarrow> None
           | Some (p, h) \<Rightarrow> Some (p, s\<lparr>lm_heap := h\<rparr>)))"

definition lgx_alloc_with_intent ::
    "intent_env \<Rightarrow> nat \<Rightarrow> lgx_allocation_intent_base option \<Rightarrow> lgx_memory \<Rightarrow> (nat option \<times> lgx_memory) option" where
  "lgx_alloc_with_intent e i intent s =
     (case intent of
        None \<Rightarrow> Some (None, set_error LGX_ERROR_INVALID_PARAM s)
      | Some it \<Rightarrow>
          if in_struct_size it < sizeof_intent_base then Some (None, set_error LGX_ERROR_INVALID_PARAM s)
          else if in_size it = 0 then Some (None, set_error LGX_ERROR_INVALID_PARAM s)
          else
            let r = route_of (ie_vulkan e) it
            in (case route_alloc e r (in_size it) s of
                  None \<Rightarrow> None
                | Some (p, s) \<Rightarrow>
                    let s = upd_tls i (count_route r) s
                    in Some (p, if p \<noteq> None then upd_tls i (\<lambda>t. t\<lparr>is_total_intent_allocations := is_total_intent_allocations t + 1\<rparr>) s else s)))"

record lgx_allocation_intent_l2 =
  l2_struct_size :: nat
  l2_base :: lgx_allocation_intent_base
  l2_priority :: u8
  l2_enable_predictive_prefetch :: bool

definition sizeof_intent_l2 :: nat where "sizeof_intent_l2 = 48"

datatype intent_object = Base_intent lgx_allocation_intent_base | L2_intent lgx_allocation_intent_l2

text \<open>A caller that names a type passes an object of that type.\<close>

definition lgx_alloc_with_intent_ex ::
    "intent_env \<Rightarrow> nat \<Rightarrow> intent_object option \<Rightarrow> nat \<Rightarrow> lgx_memory \<Rightarrow> (nat option \<times> lgx_memory) option" where
  "lgx_alloc_with_intent_ex e i intent intent_type_id s =
     (case intent of
        None \<Rightarrow> Some (None, s)
      | Some (Base_intent it) \<Rightarrow> if intent_type_id = 0 then lgx_alloc_with_intent e i (Some it) s else Some (None, s)
      | Some (L2_intent it) \<Rightarrow>
          if intent_type_id = 1 then
            if l2_struct_size it < sizeof_intent_l2 then Some (None, s) else lgx_alloc_with_intent e i (Some (l2_base it)) s
          else Some (None, s))"

definition mk_intent :: "nat \<Rightarrow> lgx_access_pattern \<Rightarrow> lgx_lifetime \<Rightarrow> lgx_performance_hint \<Rightarrow> lgx_allocation_intent_base" where
  "mk_intent n a l h = \<lparr>in_struct_size = sizeof_intent_base, in_size = n, in_access_pattern = a, in_lifetime = l, in_hint = h,
     in_validation_policy = LGX_INTENT_TRUST\<rparr>"

definition lgx_alloc_frame :: "intent_env \<Rightarrow> nat \<Rightarrow> nat \<Rightarrow> lgx_memory \<Rightarrow> (nat option \<times> lgx_memory) option" where
  "lgx_alloc_frame e i n = lgx_alloc_with_intent e i (Some (mk_intent n LGX_ACCESS_SEQUENTIAL LGX_LIFETIME_FRAME LGX_HINT_CRITICAL_PATH))"

definition lgx_alloc_level :: "intent_env \<Rightarrow> nat \<Rightarrow> nat \<Rightarrow> lgx_memory \<Rightarrow> (nat option \<times> lgx_memory) option" where
  "lgx_alloc_level e i n = lgx_alloc_with_intent e i (Some (mk_intent n LGX_ACCESS_RANDOM LGX_LIFETIME_LEVEL LGX_HINT_BACKGROUND))"

definition lgx_alloc_persistent :: "intent_env \<Rightarrow> nat \<Rightarrow> nat \<Rightarrow> lgx_memory \<Rightarrow> (nat option \<times> lgx_memory) option" where
  "lgx_alloc_persistent e i n = lgx_alloc_with_intent e i (Some (mk_intent n LGX_ACCESS_RANDOM LGX_LIFETIME_SESSION LGX_HINT_BACKGROUND))"

definition lgx_alloc_gpu_shared :: "intent_env \<Rightarrow> nat \<Rightarrow> nat \<Rightarrow> lgx_memory \<Rightarrow> (nat option \<times> lgx_memory) option" where
  "lgx_alloc_gpu_shared e i n = lgx_alloc_with_intent e i (Some (mk_intent n LGX_ACCESS_WRITE_ONCE LGX_LIFETIME_FRAME LGX_HINT_GPU_SHARED))"

section \<open>Statistics\<close>

definition stats_add :: "intent_stats \<Rightarrow> intent_stats \<Rightarrow> intent_stats" where
  "stats_add a b =
     \<lparr>is_frame_allocations = is_frame_allocations a + is_frame_allocations b,
      is_gpu_allocations = is_gpu_allocations a + is_gpu_allocations b,
      is_persistent_allocations = is_persistent_allocations a + is_persistent_allocations b,
      is_unknown_allocations = is_unknown_allocations a + is_unknown_allocations b,
      is_intent_mismatches = is_intent_mismatches a + is_intent_mismatches b,
      is_intent_validations = is_intent_validations a + is_intent_validations b,
      is_total_intent_allocations = is_total_intent_allocations a + is_total_intent_allocations b,
      is_total_intent_frees = is_total_intent_frees a + is_total_intent_frees b\<rparr>"

definition lgx_intent_aggregate_stats :: "nat \<Rightarrow> lgx_memory \<Rightarrow> lgx_memory" where
  "lgx_intent_aggregate_stats i s =
     s\<lparr>lm_stats := stats_add (lm_stats s) (lm_tls s i), lm_tls := (lm_tls s)(i := zero_intent_stats)\<rparr>"

definition lgx_intent_get_stats :: "lgx_memory \<Rightarrow> intent_stats" where
  "lgx_intent_get_stats s = lm_stats s"

text \<open>The usage statistics are a fixed answer.\<close>

definition lgx_alloc_get_usage_stats :: "nat option \<Rightarrow> bool \<Rightarrow> lgx_result + lgx_allocation_usage" where
  "lgx_alloc_get_usage_stats ptr usage_ok =
     (if ptr = None \<or> \<not> usage_ok then Inl LGX_ERROR_INVALID_PARAM
      else Inr \<lparr>us_access_count = 0, us_observed_pattern = LGX_ACCESS_UNKNOWN, us_pattern_confidence = 0,
                us_observed_lifetime = LGX_LIFETIME_UNKNOWN, us_actual_lifetime_ms = 0\<rparr>)"

section \<open>Start and end\<close>

text \<open>The arguments are those of the initialisations of frame arena and heap.\<close>

definition lgx_intent_allocator_init ::
    "bool \<Rightarrow> bool \<Rightarrow> frame_env \<Rightarrow> bool \<Rightarrow> nat option \<Rightarrow> nat option \<Rightarrow> u64 \<Rightarrow> lgx_memory \<Rightarrow> lgx_result \<times> lgx_memory" where
  "lgx_intent_allocator_init dbg fmutex_ok fe hmutex_ok huge mal now s =
     (let s = s\<lparr>lm_stats := zero_intent_stats\<rparr>
      in (case lgx_frame_arena_init dbg fmutex_ok fe (lm_frame s) of (r, f) \<Rightarrow>
            if r \<noteq> LGX_SUCCESS then (r, s\<lparr>lm_frame := f\<rparr>)
            else
              (case lgx_persistent_heap_init hmutex_ok huge mal now (lm_heap s) of (r, h) \<Rightarrow>
                 if r \<noteq> LGX_SUCCESS then (r, s\<lparr>lm_frame := snd (lgx_frame_arena_shutdown f), lm_heap := h\<rparr>)
                 else (LGX_SUCCESS, s\<lparr>lm_frame := f, lm_heap := h\<rparr>))))"

definition lgx_intent_allocator_shutdown :: "bool \<Rightarrow> lgx_memory \<Rightarrow> lgx_result \<times> lgx_memory" where
  "lgx_intent_allocator_shutdown vulkan s =
     (LGX_SUCCESS,
      s\<lparr>lm_heap := snd (snd (lgx_persistent_heap_shutdown (lm_heap s))), lm_frame := snd (lgx_frame_arena_shutdown (lm_frame s)),
        lm_gpu := (if vulkan \<and> gp_initialized (lm_gpu s) then snd (lgx_gpu_pool_shutdown (lm_gpu s)) else lm_gpu s)\<rparr>)"

section \<open>The public allocation functions\<close>

definition lgx_alloc :: "intent_env \<Rightarrow> nat \<Rightarrow> nat \<Rightarrow> lgx_memory \<Rightarrow> nat option \<times> lgx_memory" where
  "lgx_alloc e i n s =
     (case (lm_runtime s, lm_manager s) of
        (True, Some m) \<Rightarrow> (case lgx_memory_manager_alloc (ie_manager e) i n None m of (p, m) \<Rightarrow> (p, s\<lparr>lm_manager := Some m\<rparr>))
      | _ \<Rightarrow> (None, s))"

definition lgx_alloc_aligned :: "intent_env \<Rightarrow> nat \<Rightarrow> nat \<Rightarrow> lgx_memory \<Rightarrow> nat option \<times> lgx_memory" where
  "lgx_alloc_aligned e n al s =
     (case (lm_runtime s, lm_manager s) of
        (True, Some m) \<Rightarrow> (case lgx_memory_manager_alloc_aligned (ie_manager e) n al None m of (p, m) \<Rightarrow> (p, s\<lparr>lm_manager := Some m\<rparr>))
      | _ \<Rightarrow> (None, s))"

definition lgx_free :: "intent_env \<Rightarrow> nat \<Rightarrow> nat option \<Rightarrow> lgx_memory \<Rightarrow> lgx_memory option" where
  "lgx_free e i ptr s =
     (if ptr = None then Some s
      else if \<not> lm_runtime s then Some s
      else if fs_initialized (lm_frame s) \<and> lgx_frame_is_frame_pointer ptr (lm_frame s) then Some s
      else if ph_initialized (lm_heap s) \<and> lgx_heap_is_heap_pointer (ie_debug e) ptr (lm_heap s) then
        map_option (\<lambda>h. s\<lparr>lm_heap := h\<rparr>) (lgx_heap_free (ie_debug e) ptr (lm_heap s))
      else Some (case lm_manager s of
                   None \<Rightarrow> s
                 | Some m \<Rightarrow> s\<lparr>lm_manager := Some (lgx_memory_manager_free (ie_manager e) i ptr m)\<rparr>))"

end
