(* ===== verification/Intent_Properties.thy ===== *)
theory Intent_Properties
  imports Intent_Allocator Gpu_Pool_Properties
begin

text \<open>
  The four allocators together: a request reaches the allocator that its intent names and leaves the others as they were, and
  a pointer goes back to the allocator it came from.
\<close>

section \<open>Allocation\<close>

lemma set_error_fields [simp]: "lm_frame (set_error r s) = lm_frame s" "lm_heap (set_error r s) = lm_heap s"
  by (simp_all add: set_error_def)

lemma upd_tls_fields [simp]: "lm_frame (upd_tls i f s) = lm_frame s" "lm_heap (upd_tls i f s) = lm_heap s"
    "lm_gpu (upd_tls i f s) = lm_gpu s" "lm_manager (upd_tls i f s) = lm_manager s" "lm_runtime (upd_tls i f s) = lm_runtime s"
    "lm_handles (upd_tls i f s) = lm_handles s"
  by (simp_all add: upd_tls_def)

lemma intent_unfold:
  assumes "lgx_alloc_with_intent e i (Some it) s = Some (Some p, s')"
  obtains t where "route_alloc e (route_of (ie_vulkan e) it) (in_size it) s = Some (Some p, t)" "in_size it \<noteq> 0"
    "lm_frame s' = lm_frame t" "lm_heap s' = lm_heap t" "lm_gpu s' = lm_gpu t" "lm_manager s' = lm_manager t"
    "lm_runtime s' = lm_runtime t" "lm_handles s' = lm_handles t"
  using assms by (auto simp: lgx_alloc_with_intent_def Let_def split: if_splits option.splits prod.splits)

lemma heap_route:
  assumes run: "heap_run (ie_debug e) h L" and env: "slab_env_ok (he_slab (ie_heap e)) (heap_region (ph_size_classes h) (ph_buddy h))"
    and al: "lgx_heap_alloc (ie_debug e) (ie_heap e) n h = Some (Some p, h')"
  shows "sizeof_header (ie_debug e) \<le> p \<and> L (p - sizeof_header (ie_debug e)) = None \<and>
    (\<exists>cl. heap_run (ie_debug e) h' (L(p - sizeof_header (ie_debug e) \<mapsto> (n, cl))))"
  using alloc_run[OF run env al] by auto

text \<open>The bytes of live allocations: in their regions, and apart from each other.\<close>

lemma live_alloc_region:
  assumes "heap_run debug h L" "q \<in> dom L"
  shows "alloc_range debug L q \<subseteq> heap_region (ph_size_classes h) (ph_buddy h)"
proof -
  obtain X where c: "heap_core debug (ph_mem h) (ph_size_classes h) (ph_buddy h) X L"
    using run_inv[OF assms(1)] by (auto simp: heap_inv_def)
  obtain n cl where q: "L q = Some (n, cl)" using assms(2) by auto
  show ?thesis by (rule live_cases[OF c q]) (auto simp: heap_region_def)
qed

lemma new_block_apart:
  assumes run: "heap_run debug h (L(p \<mapsto> (n, cl)))" and p: "L p = None" and q: "q \<in> dom L"
  shows "alloc_range debug L q \<inter> {p..<p + sizeof_header debug + n} = {}"
proof -
  obtain X where c: "heap_core debug (ph_mem h) (ph_size_classes h) (ph_buddy h) X (L(p \<mapsto> (n, cl)))"
    using run_inv[OF run] by (auto simp: heap_inv_def)
  obtain k c' where l: "L q = Some (k, c')" using q by auto
  then have ne: "q \<noteq> p" using p by auto
  then show ?thesis using live_disjoint[OF c, of q k c' p n cl] l by (simp add: alloc_range_def)
qed

lemma extent_in_region:
  assumes "frame_run dbg f FL" "j < 3" "x \<in> set (FL j)"
  shows "ext x \<subseteq> arena_region (fs_arenas f j)"
  using frame_run_inv[OF assms(1)] assms(2,3) used_sub_region[of "fs_arenas f j"]
  by (auto simp: frame_inv_def arena_ok_def extents_ok_def)

text \<open>The operating system never maps memory twice: no arena overlaps the memory of the heap.\<close>

definition maps_apart :: "frame_state \<Rightarrow> persistent_heap \<Rightarrow> bool" where
  "maps_apart f h \<longleftrightarrow> (\<forall>j<3. arena_region (fs_arenas f j) \<inter> heap_region (ph_size_classes h) (ph_buddy h) = {})"

text \<open>What a request of \<open>n\<close> bytes got: in the arena of the current frame, or a block of \<open>k\<close> bytes in the heap.\<close>

definition from_arena :: "intent_env \<Rightarrow> nat \<Rightarrow> nat \<Rightarrow> (nat \<Rightarrow> extent list) \<Rightarrow> lgx_memory \<Rightarrow> lgx_memory \<Rightarrow> bool" where
  "from_arena e p n FL s s' \<longleftrightarrow> lm_heap s' = lm_heap s \<and>
     (let j = arena_of (cur_frame (lm_frame s)) in frame_run (ie_dbg e) (lm_frame s') (FL(j := (p, n) # FL j)))"

definition from_heap ::
    "intent_env \<Rightarrow> nat \<Rightarrow> nat \<Rightarrow> (nat \<rightharpoonup> nat \<times> int) \<Rightarrow> (nat \<Rightarrow> extent list) \<Rightarrow> lgx_memory \<Rightarrow> bool" where
  "from_heap e p k L FL s' \<longleftrightarrow> (let q = p - sizeof_header (ie_debug e)
     in sizeof_header (ie_debug e) \<le> p \<and> L q = None \<and> (\<exists>cl. heap_run (ie_debug e) (lm_heap s') (L(q \<mapsto> (k, cl)))) \<and>
        frame_run (ie_dbg e) (lm_frame s') FL)"

definition apart_from_live :: "intent_env \<Rightarrow> nat \<Rightarrow> nat \<Rightarrow> (nat \<rightharpoonup> nat \<times> int) \<Rightarrow> (nat \<Rightarrow> extent list) \<Rightarrow> bool" where
  "apart_from_live e p n L FL \<longleftrightarrow> (\<forall>j<3. \<forall>x\<in>set (FL j). {p..<p + n} \<inter> ext x = {}) \<and>
     (\<forall>q\<in>dom L. alloc_range (ie_debug e) L q \<inter> {p..<p + n} = {})"

lemma from_arena_apart:
  assumes a: "from_arena e p n FL s s'" and hr: "heap_run (ie_debug e) (lm_heap s) L" and m: "maps_apart (lm_frame s') (lm_heap s')"
    and f: "\<forall>j<3. \<forall>x\<in>set (FL j). {p..<p + n} \<inter> ext x = {}"
  shows "apart_from_live e p n L FL"
proof -
  let ?j = "arena_of (cur_frame (lm_frame s))"
  have h: "lm_heap s' = lm_heap s" and r: "frame_run (ie_dbg e) (lm_frame s') (FL(?j := (p, n) # FL ?j))"
    using a by (simp_all add: from_arena_def Let_def)
  have "ext (p, n) \<subseteq> arena_region (fs_arenas (lm_frame s') ?j)" by (rule extent_in_region[OF r]) simp_all
  then have p: "{p..<p + n} \<subseteq> arena_region (fs_arenas (lm_frame s') ?j)" by (simp add: ext_def)
  have d: "arena_region (fs_arenas (lm_frame s') ?j) \<inter> heap_region (ph_size_classes (lm_heap s)) (ph_buddy (lm_heap s)) = {}"
    using m h by (simp add: maps_apart_def)
  have "alloc_range (ie_debug e) L q \<inter> {p..<p + n} = {}" if "q \<in> dom L" for q
    using live_alloc_region[OF hr that] p d by blast
  then show ?thesis using f by (simp add: apart_from_live_def)
qed

lemma from_heap_apart:
  assumes a: "from_heap e p k L FL s'" and m: "maps_apart (lm_frame s') (lm_heap s')" and n: "n \<le> k"
  shows "apart_from_live e p n L FL"
proof -
  let ?q = "p - sizeof_header (ie_debug e)"
  obtain cl where q: "sizeof_header (ie_debug e) \<le> p" "L ?q = None" and hr: "heap_run (ie_debug e) (lm_heap s') (L(?q \<mapsto> (k, cl)))"
    and fr: "frame_run (ie_dbg e) (lm_frame s') FL" using a by (auto simp: from_heap_def Let_def)
  have sub: "{p..<p + n} \<subseteq> {?q..<?q + sizeof_header (ie_debug e) + k}" using q(1) n by auto
  have "alloc_range (ie_debug e) L r \<inter> {p..<p + n} = {}" if "r \<in> dom L" for r
    using new_block_apart[OF hr q(2) that] sub by blast
  moreover have "{p..<p + n} \<inter> ext x = {}" if "j < 3" "x \<in> set (FL j)" for j x
  proof -
    have "alloc_range (ie_debug e) (L(?q \<mapsto> (k, cl))) ?q \<subseteq> heap_region (ph_size_classes (lm_heap s')) (ph_buddy (lm_heap s'))"
      by (rule live_alloc_region[OF hr]) simp
    moreover have "alloc_range (ie_debug e) (L(?q \<mapsto> (k, cl))) ?q = {?q..<?q + sizeof_header (ie_debug e) + k}" by (simp add: alloc_range_def)
    ultimately have "{p..<p + n} \<subseteq> heap_region (ph_size_classes (lm_heap s')) (ph_buddy (lm_heap s'))" using sub by (metis subset_trans)
    moreover have "arena_region (fs_arenas (lm_frame s') j) \<inter> heap_region (ph_size_classes (lm_heap s')) (ph_buddy (lm_heap s')) = {}"
      using m that(1) by (simp add: maps_apart_def)
    ultimately show ?thesis using extent_in_region[OF fr that] by blast
  qed
  ultimately show ?thesis by (simp add: apart_from_live_def)
qed

lemma frame_route:
  assumes fr: "frame_run (ie_dbg e) (lm_frame s) FL" and hr: "heap_run (ie_debug e) (lm_heap s) L" and fe: "frame_env_ok (ie_frame e) (lm_frame s)"
    and env: "slab_env_ok (he_slab (ie_heap e)) (heap_region (ph_size_classes (lm_heap s)) (ph_buddy (lm_heap s)))"
    and n: "n < 2 ^ 63" and m: "maps_apart (lm_frame s') (lm_heap s')"
    and al: "lgx_frame_alloc_internal (ie_dbg e) (ie_debug e) (ie_heap e) (ie_frame e) (of_nat n) (lm_frame s) (lm_heap s) =
      Some (Some p, lm_frame s', lm_heap s')"
  shows "(if st_fallback_count (fs_stats (lm_frame s')) = st_fallback_count (fs_stats (lm_frame s)) then from_arena e p n FL s s'
      else from_heap e p (unat (align16 (of_nat n))) L FL s') \<and> apart_from_live e p n L FL"
proof -
  have u: "unat (of_nat n :: u64) = n" using n by (simp add: unat_of_nat take_bit_nat_eq_self)
  then have n': "unat (of_nat n :: u64) < 2 ^ 63" using n by simp
  show ?thesis
  proof (rule frame_alloc_cases[OF frame_run_inv[OF fr] fe n' al refl], goal_cases arena heap)
    case (arena q)
    then have a: "from_arena e p n FL s s'"
      using frame_run_step[OF fr fs_alloc[OF fe n' al]] u by (simp add: from_arena_def Let_def)
    moreover have "\<forall>k<3. \<forall>x\<in>set (FL k). {p..<p + n} \<inter> ext x = {}" using arena u by (simp add: ext_def)
    ultimately show ?case using from_arena_apart[OF a hr m] arena by simp
  next
    case heap
    have "frame_run (ie_dbg e) (lm_frame s') FL" using frame_run_step[OF fr fs_fallback[OF fe n' al]] heap(2) by simp
    then have h: "from_heap e p (unat (align16 (of_nat n))) L FL s'"
      using heap_route[OF hr env] heap(3) by (auto simp: from_heap_def Let_def)
    have "n \<le> unat (align16 (of_nat n))" using align16_props(1)[of "of_nat n"] n' u by simp
    then show ?case using h from_heap_apart[OF h m] heap by simp
  qed
qed

text \<open>
  C19. The composition of the allocators: a request with an intent other than GPU sharing, made in a state in which the
  frame arena and the persistent heap have run correctly, goes where its lifetime says. For the lifetime of a frame it is a new allocation of the
  current arena, and the heap is untouched, unless the arena falls back to the heap, for the size rounded up to 16 bytes; for any other lifetime it
  is a block of the heap of exactly the size, and the arenas are untouched. In every case its bytes overlap no live allocation of the three arenas
  and of the heap, provided that the mappings of arenas and heap are distinct; the GPU pool and the memory manager are untouched, and both allocators
  are again in a state that they reach by correct runs.
\<close>

theorem intent_alloc_composes:
  assumes fr: "frame_run (ie_dbg e) (lm_frame s) FL" and hr: "heap_run (ie_debug e) (lm_heap s) L"
    and fe: "frame_env_ok (ie_frame e) (lm_frame s)"
    and env: "slab_env_ok (he_slab (ie_heap e)) (heap_region (ph_size_classes (lm_heap s)) (ph_buddy (lm_heap s)))"
    and n: "in_size it < 2 ^ 63" and gpu: "\<not> (ie_vulkan e \<and> in_hint it = LGX_HINT_GPU_SHARED)"
    and al: "lgx_alloc_with_intent e i (Some it) s = Some (Some p, s')" and m: "maps_apart (lm_frame s') (lm_heap s')"
  shows "(if in_lifetime it = LGX_LIFETIME_FRAME
     then if st_fallback_count (fs_stats (lm_frame s')) = st_fallback_count (fs_stats (lm_frame s))
          then from_arena e p (in_size it) FL s s'
          else from_heap e p (unat (align16 (of_nat (in_size it)))) L FL s'
     else from_heap e p (in_size it) L FL s' \<and> lm_frame s' = lm_frame s) \<and>
    apart_from_live e p (in_size it) L FL \<and> lm_gpu s' = lm_gpu s \<and> lm_manager s' = lm_manager s"
proof -
  let ?r = "route_of (ie_vulkan e) it"
  obtain t where t: "route_alloc e ?r (in_size it) s = Some (Some p, t)" and s': "lm_frame s' = lm_frame t" "lm_heap s' = lm_heap t"
    "lm_gpu s' = lm_gpu t" "lm_manager s' = lm_manager t" using intent_unfold[OF al] by metis
  show ?thesis
  proof (cases "in_lifetime it = LGX_LIFETIME_FRAME")
    case True
    then have "?r = Route_frame" using gpu by (simp add: route_of_def)
    then obtain f h where f: "lgx_frame_alloc_internal (ie_dbg e) (ie_debug e) (ie_heap e) (ie_frame e) (of_nat (in_size it)) (lm_frame s) (lm_heap s)
        = Some (Some p, f, h)" "t = s\<lparr>lm_frame := f, lm_heap := h\<rparr>"
      using t by (auto simp: route_alloc_def split: option.splits)
    have "lgx_frame_alloc_internal (ie_dbg e) (ie_debug e) (ie_heap e) (ie_frame e) (of_nat (in_size it)) (lm_frame s) (lm_heap s) =
        Some (Some p, lm_frame s', lm_heap s')" using f s' by simp
    from frame_route[OF fr hr fe env n m this] show ?thesis using f(2) s' True by simp
  next
    case False
    then have "?r = Route_persistent \<or> ?r = Route_unknown" using gpu by (auto simp: route_of_def)
    then obtain h where h: "lgx_heap_alloc (ie_debug e) (ie_heap e) (in_size it) (lm_heap s) = Some (Some p, h)" "t = s\<lparr>lm_heap := h\<rparr>"
      using t by (auto simp: route_alloc_def split: option.splits)
    then have a: "from_heap e p (in_size it) L FL s'" using heap_route[OF hr env h(1)] fr s' by (simp add: from_heap_def Let_def)
    show ?thesis using a from_heap_apart[OF a m] False h(2) s' by simp
  qed
qed

text \<open>A state with fresh heap and arenas, and a second one after an allocation for the frame.\<close>

definition demo_ienv :: intent_env where
  "demo_ienv = \<lparr>ie_dbg = False, ie_debug = False, ie_vulkan = True, ie_heap = demo_env, ie_frame = demo_fenv2,
     ie_gpu = \<lparr>gx_hang = False, gx_fail = False, gx_malloc = True, gx_realloc = (\<lambda>_. True), gx_avx2 = False\<rparr>, ie_handle = 2 ^ 41,
     ie_manager = undefined\<rparr>"

definition demo_memory :: "gpu_pool \<Rightarrow> memory_manager \<Rightarrow> lgx_memory" where
  "demo_memory g m = \<lparr>lm_frame = demo_frame, lm_heap = fresh_heap, lm_gpu = g, lm_manager = Some m, lm_runtime = True,
     lm_error_handler = False, lm_errors = [], lm_tls = (\<lambda>_. zero_intent_stats), lm_stats = zero_intent_stats, lm_handles = Map.empty\<rparr>"

lemma demo_memory_fields [simp]: "lm_frame (demo_memory g m) = demo_frame" "lm_heap (demo_memory g m) = fresh_heap"
    "lm_gpu (demo_memory g m) = g" "lm_runtime (demo_memory g m)"
  by (simp_all add: demo_memory_def)

lemma demo_ienv_fields [simp]: "ie_dbg demo_ienv = False" "ie_debug demo_ienv = False" "ie_heap demo_ienv = demo_env" "ie_frame demo_ienv = demo_fenv2"
    "ie_vulkan demo_ienv" "ie_handle demo_ienv = 2 ^ 41"
  by (simp_all add: demo_ienv_def)

lemma demo_frame_env: "frame_env_ok demo_fenv2 demo_frame"
  by (simp add: frame_env_ok_def fresh_for_def demo_fenv2_def)

lemma demo_frame_request: "\<exists>p s'. lgx_alloc_frame demo_ienv 0 100 (demo_memory g m) = Some (Some p, s')"
proof -
  obtain p f where "lgx_frame_alloc_internal False False demo_env demo_fenv2 100 demo_frame fresh_heap = Some (Some p, f, fresh_heap)"
    using demo_alloc by blast
  then show ?thesis
    by (simp add: lgx_alloc_frame_def lgx_alloc_with_intent_def mk_intent_def route_of_def route_alloc_def Let_def)
qed

text \<open>A heap whose pool is far above the arenas.\<close>

definition far_heap :: persistent_heap where
  "far_heap = snd (lgx_persistent_heap_init True None (Some (2 ^ 40)) 0 blank_heap)"

lemma far_heap_run: "heap_run debug far_heap Map.empty"
  by (rule hr_start[of blank_heap True None "Some (2 ^ 40)" 0])
    (simp_all add: blank_heap_def far_heap_def lgx_persistent_heap_init_def buddy_init_def Let_def)

lemma far_heap_region: "heap_region (ph_size_classes far_heap) (ph_buddy far_heap) = {2 ^ 40..<2 ^ 40 + 2 ^ 28}"
proof -
  have "sc_region (ph_size_classes far_heap i) = {}" if "i < 16" for i
    using that by (simp add: far_heap_def blank_heap_def lgx_persistent_heap_init_def buddy_init_def Let_def sc_region_def init_class_def)
  then have "heap_region (ph_size_classes far_heap) (ph_buddy far_heap) = pool_region (ph_buddy far_heap)" by (auto simp: heap_region_def)
  moreover have "pool_base (ph_buddy far_heap) = 2 ^ 40"
    by (simp add: far_heap_def blank_heap_def lgx_persistent_heap_init_def pool_base_def buddy_init_def Let_def set_head_def set_hdr_def)
  ultimately show ?thesis by (simp add: pool_region_def BUDDY_POOL_SIZE_def)
qed

lemma far_env_ok: "slab_env_ok (he_slab demo_env) (heap_region (ph_size_classes far_heap) (ph_buddy far_heap))"
  by (auto simp: far_heap_region slab_env_ok_def demo_env_def SLAB_SIZE_def)

lemma demo_arena_region:
  assumes "j < 3" shows "arena_region (fs_arenas demo_frame j) \<subseteq> {..<2 ^ 30 + 2 ^ 28}"
proof -
  have up: "[0..<3] = [0, 1, 2 :: nat]" by (simp add: upt_rec)
  have j: "j = 0 \<or> j = 1 \<or> j = 2" using assms by linarith
  have "fs_arenas demo_frame j = init_arena False (Suc j * 2 ^ 28) (clamp_arena_size 0) (clamp_max_size 0 (clamp_arena_size 0)) zero_arena"
    using j by (auto simp: up demo_frame_def lgx_frame_arena_init_def zero_frame_def demo_fenv_def allocate_huge_page_arena_def Let_def)
  then have "arena_region (fs_arenas demo_frame j) = {Suc j * 2 ^ 28..<Suc j * 2 ^ 28 + unat (clamp_arena_size 0)}"
    by (simp add: arena_region_def arena_chunks_def chunk_region_def init_arena_def zero_arena_def)
  moreover have "unat (clamp_arena_size 0) \<le> 2 ^ 28" by (rule clamp_bounds)
  ultimately show ?thesis using j by auto
qed

text \<open>A frame request next to that heap.\<close>

theorem intent_alloc_composes_witness:
  "\<exists>p s'. lgx_alloc_frame demo_ienv 0 100 ((demo_memory undefined undefined)\<lparr>lm_heap := far_heap\<rparr>) = Some (Some p, s') \<and>
     from_arena demo_ienv p 100 (\<lambda>_. []) ((demo_memory undefined undefined)\<lparr>lm_heap := far_heap\<rparr>) s' \<and> lm_heap s' = far_heap"
proof -
  let ?s = "(demo_memory undefined undefined)\<lparr>lm_heap := far_heap\<rparr>"
  let ?it = "mk_intent 100 LGX_ACCESS_SEQUENTIAL LGX_LIFETIME_FRAME LGX_HINT_CRITICAL_PATH"
  have a: "0 = arena_of (cur_frame demo_frame)" by (simp add: demo_fields arena_of_def)
  have "unat (align16 100) = 112" using align16_unat[of 100] by simp
  then have fit: "unat (fa_offset (fs_arenas demo_frame 0)) + unat (align16 100) \<le> unat (fa_capacity (fs_arenas demo_frame 0))"
    by (simp add: demo_arena FRAME_ARENA_DEFAULT_SIZE_def)
  obtain p f where f: "lgx_frame_alloc_internal False False demo_env demo_fenv2 100 demo_frame far_heap = Some (Some p, f, far_heap)"
    "st_fallback_count (fs_stats f) = st_fallback_count (fs_stats demo_frame)"
    "fs_arenas f = (fs_arenas demo_frame)(0 := bumped (fs_arenas demo_frame 0) (fa_offset (fs_arenas demo_frame 0) + align16 100))"
    using frame_alloc_fits[OF frame_run_inv[OF demo_run] a fit, of False demo_env demo_fenv2 far_heap] by blast
  obtain s' where s': "lgx_alloc_frame demo_ienv 0 100 ?s = Some (Some p, s')" "lm_frame s' = f" "lm_heap s' = far_heap"
    using f(1) by (simp add: lgx_alloc_frame_def lgx_alloc_with_intent_def mk_intent_def route_of_def route_alloc_def Let_def upd_tls_def)
  have same: "arena_region (fs_arenas f j) = arena_region (fs_arenas demo_frame j)" for j
    by (simp add: f(3) arena_region_def arena_chunks_def bumped_def)
  have m: "maps_apart (lm_frame s') (lm_heap s')"
    unfolding maps_apart_def s'(2,3) same far_heap_region using demo_arena_region by fastforce
  have "from_arena demo_ienv p (in_size ?it) (\<lambda>_. []) ?s s'"
    using intent_alloc_composes[of demo_ienv ?s "\<lambda>_. []" Map.empty ?it 0 p s', OF _ _ _ _ _ _ _ m]
      s' f(2) demo_run far_heap_run far_env_ok demo_frame_env by (simp add: lgx_alloc_frame_def mk_intent_def)
  then show ?thesis using s' by (auto simp: mk_intent_def)
qed

section \<open>Deallocation\<close>

lemma live_up_in_region:
  assumes "heap_run debug h L" "L p = Some (n, cl)"
  shows "lgx_heap_is_heap_pointer debug (Some (p + sizeof_header debug)) h"
  using heap_pointer_cases[OF assms(1)] assms(2) by blast

lemma run_initialized: "heap_run debug h L \<Longrightarrow> ph_initialized h"
  using run_inv by (auto simp: heap_inv_def)

text \<open>
  C20. Every pointer goes back to its owner: in a state in which the frame arena and the heap have run correctly, freeing a
  pointer into a live frame allocation changes nothing; freeing a live heap allocation, which no arena contains, removes exactly it from
  the heap and leaves the rest of the state alone; and freeing any other pointer, outside the arenas and the
  heap, is left to the memory manager.
\<close>

theorem lgx_free_routes:
  assumes fr: "frame_run (ie_dbg e) (lm_frame s) FL" and hr: "heap_run (ie_debug e) (lm_heap s) L" and rt: "lm_runtime s"
    and apart: "\<forall>p n cl. L p = Some (n, cl) \<longrightarrow> \<not> lgx_frame_is_frame_pointer (Some (p + sizeof_header (ie_debug e))) (lm_frame s)"
  shows "(\<forall>j<3. \<forall>x\<in>set (FL j). \<forall>q\<in>ext x. lgx_free e i (Some q) s = Some s) \<and>
    (\<forall>p n cl. L p = Some (n, cl) \<longrightarrow>
      (\<exists>h. lgx_free e i (Some (p + sizeof_header (ie_debug e))) s = Some (s\<lparr>lm_heap := h\<rparr>) \<and> heap_run (ie_debug e) h (L(p := None)))) \<and>
    (\<forall>q m. q \<notin> heap_region (ph_size_classes (lm_heap s)) (ph_buddy (lm_heap s)) \<and> \<not> lgx_frame_is_frame_pointer (Some q) (lm_frame s) \<and>
      lm_manager s = Some m \<longrightarrow>
      lgx_free e i (Some q) s = Some (s\<lparr>lm_manager := Some (lgx_memory_manager_free (ie_manager e) i (Some q) m)\<rparr>))"
proof (intro conjI allI impI ballI)
  fix j x q assume "j < 3" "x \<in> set (FL j)" "q \<in> ext x"
  then have "lgx_frame_is_frame_pointer (Some q) (lm_frame s)" using extent_is_pointer[OF frame_run_inv[OF fr]] by blast
  then show "lgx_free e i (Some q) s = Some s" by (simp add: lgx_free_def lgx_frame_is_frame_pointer_def)
next
  fix p n cl assume p: "L p = Some (n, cl)"
  obtain h where h: "lgx_heap_free (ie_debug e) (Some (p + sizeof_header (ie_debug e))) (lm_heap s) = Some h" "heap_run (ie_debug e) h (L(p := None))"
    using heap_free_run[OF hr p] by metis
  have "lgx_free e i (Some (p + sizeof_header (ie_debug e))) s = Some (s\<lparr>lm_heap := h\<rparr>)"
    using h(1) rt apart p live_up_in_region[OF hr p] run_initialized[OF hr] by (simp add: lgx_free_def)
  then show "\<exists>h. lgx_free e i (Some (p + sizeof_header (ie_debug e))) s = Some (s\<lparr>lm_heap := h\<rparr>) \<and> heap_run (ie_debug e) h (L(p := None))"
    using h(2) by blast
next
  fix q m assume q: "q \<notin> heap_region (ph_size_classes (lm_heap s)) (ph_buddy (lm_heap s)) \<and> \<not> lgx_frame_is_frame_pointer (Some q) (lm_frame s) \<and>
      lm_manager s = Some m"
  then have "\<not> lgx_heap_is_heap_pointer (ie_debug e) (Some q) (lm_heap s)" using heap_pointer_cases[OF hr] by blast
  then show "lgx_free e i (Some q) s = Some (s\<lparr>lm_manager := Some (lgx_memory_manager_free (ie_manager e) i (Some q) m)\<rparr>)"
    using q rt by (simp add: lgx_free_def)
qed

theorem lgx_free_routes_witness:
  "\<exists>p s'. lgx_alloc_frame demo_ienv 0 100 (demo_memory undefined undefined) = Some (Some p, s') \<and> lgx_free demo_ienv 0 (Some p) s' = Some s'"
proof -
  obtain p f where f: "lgx_frame_alloc_internal False False demo_env demo_fenv2 100 demo_frame fresh_heap = Some (Some p, f, fresh_heap)"
    "st_fallback_count (fs_stats f) = st_fallback_count (fs_stats demo_frame)"
    using demo_alloc by blast
  have run: "frame_run False f ((\<lambda>_. [])(arena_of (cur_frame demo_frame) := [(p, 100)]))"
    using frame_run_step[OF demo_run fs_alloc[OF demo_frame_env _ f(1)]] f(2) by simp
  obtain s' where s': "lgx_alloc_frame demo_ienv 0 100 (demo_memory undefined undefined) = Some (Some p, s')" "lm_frame s' = f" "lm_heap s' = fresh_heap"
      "lm_runtime s'"
    using f(1) by (simp add: lgx_alloc_frame_def lgx_alloc_with_intent_def mk_intent_def route_of_def route_alloc_def Let_def upd_tls_def demo_memory_def)
  have "\<forall>j<3. \<forall>x\<in>set (((\<lambda>_. [])(arena_of (cur_frame demo_frame) := [(p, 100)])) j). \<forall>q\<in>ext x. lgx_free demo_ienv 0 (Some q) s' = Some s'"
    by (rule lgx_free_routes[where e = demo_ienv and L = Map.empty and FL = "(\<lambda>_. [])(arena_of (cur_frame demo_frame) := [(p, 100)])", THEN conjunct1])
      (use run s' fresh_heap_run in \<open>simp_all del: fun_upd_apply\<close>)
  moreover have "arena_of (cur_frame demo_frame) < 3" "p \<in> ext (p, 100)" by (simp_all add: ext_def)
  ultimately have "lgx_free demo_ienv 0 (Some p) s' = Some s'" by (metis fun_upd_same list.set_intros(1))
  then show ?thesis using s'(1) by blast
qed

section \<open>GPU-shared memory\<close>

text \<open>
  GPU sharing: what an allocation with the GPU hint returns is the address of the handle, a structure of the CPU heap whose size does
  not depend on the request, and not the mapped memory of the GPU block; and freeing it with \<open>lgx_free\<close> leaves
  the GPU pool as it is, so that the block is never given back.
\<close>

theorem intent_gpu_handle:
  assumes "ie_vulkan e" "in_hint it = LGX_HINT_GPU_SHARED"
    and al: "lgx_alloc_with_intent e i (Some it) s = Some (Some p, s')"
  shows "p = ie_handle e \<and> (\<exists>h. lm_handles s' p = Some h \<and> fst (lgx_gpu_alloc (ie_gpu e) (in_size it) 16 LGX_GPU_HOST_VISIBLE (lm_gpu s)) = Some h) \<and>
    (\<forall>e' j s''. lgx_free e' j (Some p) s' = Some s'' \<longrightarrow> lm_gpu s'' = lm_gpu s' \<and> lm_handles s'' = lm_handles s')"
proof -
  have r: "route_of (ie_vulkan e) it = Route_gpu" using assms(1,2) by (simp add: route_of_def)
  obtain t where t: "route_alloc e Route_gpu (in_size it) s = Some (Some p, t)" "lm_handles s' = lm_handles t"
    using intent_unfold[OF al] r by metis
  then have h: "p = ie_handle e \<and> (\<exists>h. lm_handles s' p = Some h \<and> fst (lgx_gpu_alloc (ie_gpu e) (in_size it) 16 LGX_GPU_HOST_VISIBLE (lm_gpu s)) = Some h)"
    by (auto simp: route_alloc_def split: prod.splits option.splits)
  moreover have "lm_gpu s'' = lm_gpu s' \<and> lm_handles s'' = lm_handles s'" if "lgx_free e' j (Some p) s' = Some s''" for e' j s''
    using that by (auto simp: lgx_free_def split: if_splits option.splits)
  ultimately show ?thesis by blast
qed

lemma demo_gpu_request: "\<exists>s'. lgx_alloc_gpu_shared demo_ienv 0 1000 (demo_memory demo_pool m) = Some (Some (2 ^ 41), s')"
proof -
  have w: "want 1000 16 \<le> size_to_level 67108864"
    using size_to_level_spec(1)[of "max 1000 16"] by (simp add: want_def level_26)
  obtain i g' where "gpu_buddy_alloc False (\<lambda>_. True) 1000 16 (gp_allocators demo_pool 1) = (Some i, g')"
    using run_empty_alloc[OF demo_pool_fields(4) _ _ w, of False] by (auto simp: MAX_BLOCK_SIZE_def)
  then obtain h g where "lgx_gpu_alloc (ie_gpu demo_ienv) 1000 16 LGX_GPU_HOST_VISIBLE demo_pool = (Some h, g)"
    using demo_pool_fields(1)[of 1] demo_pool_fields(3) by (simp add: lgx_gpu_alloc_def demo_ienv_def Let_def LGX_GPU_HOST_VISIBLE_def)
  then show ?thesis
    by (simp add: lgx_alloc_gpu_shared_def lgx_alloc_with_intent_def mk_intent_def route_of_def route_alloc_def Let_def)
qed

theorem intent_gpu_handle_witness:
  "\<exists>s'. lgx_alloc_gpu_shared demo_ienv 0 1000 (demo_memory demo_pool undefined) = Some (Some (2 ^ 41), s') \<and>
     (\<forall>s''. lgx_free demo_ienv 0 (Some (2 ^ 41)) s' = Some s'' \<longrightarrow> lm_gpu s'' = lm_gpu s')"
proof -
  obtain s' where al: "lgx_alloc_gpu_shared demo_ienv 0 1000 (demo_memory demo_pool undefined) = Some (Some (2 ^ 41), s')"
    using demo_gpu_request by blast
  let ?it = "mk_intent 1000 LGX_ACCESS_WRITE_ONCE LGX_LIFETIME_FRAME LGX_HINT_GPU_SHARED"
  have "\<forall>e' j s''. lgx_free e' j (Some (2 ^ 41)) s' = Some s'' \<longrightarrow> lm_gpu s'' = lm_gpu s' \<and> lm_handles s'' = lm_handles s'"
    using intent_gpu_handle[of demo_ienv ?it 0 "demo_memory demo_pool undefined" "2 ^ 41" s'] al
    by (simp add: lgx_alloc_gpu_shared_def mk_intent_def)
  then show ?thesis using al by blast
qed

end
