(* ===== verification/Memory_Safety.thy ===== *)
theory Memory_Safety
  imports C_Heap
begin

text \<open>
  Memory safety (\<^verbatim>\<open>src/runtime/lgx_memory_safety.c\<close>): allocations with a header of metadata, canaries before and
  behind the data, a list of the live allocations, and a queue that gives a freed block back to the C heap three frames
  later. The two lists, linked through their elements in the code, are lists here. Memory has three views: the headers
  (\<open>sf_meta\<close>, by the address of the block), the canary words behind the data (\<open>sf_tail\<close>, by their address) and
  the bytes of the data.
\<close>

section \<open>State\<close>

definition LGX_CANARY_PREFIX :: u64 where "LGX_CANARY_PREFIX = 0xDEADBEEFCAFEBABE"
definition LGX_CANARY_SUFFIX :: u64 where "LGX_CANARY_SUFFIX = 0xFEEDFACEDEADC0DE"
definition LGX_DELAYED_FRAMES :: u32 where "LGX_DELAYED_FRAMES = 3"
definition LGX_MAX_DELAYED_ALLOCS :: nat where "LGX_MAX_DELAYED_ALLOCS = 10000"

record lgx_alloc_metadata =
  am_canary_prefix :: u64
  am_size :: u64
  am_frame_allocated :: u32
  am_frame_freed :: u32
  am_user_ptr :: nat
  am_canary_suffix :: u64

definition sizeof_metadata :: nat where "sizeof_metadata = 48"

text \<open>A queued block: the node of the queue, the block, the frame in which it was freed.\<close>

record lgx_delayed_free =
  df_node :: nat
  df_ptr :: nat
  df_frame_freed :: u32

record lgx_memory_safety_config =
  sc_guard_pages_enabled :: bool
  sc_canaries_enabled :: bool
  sc_delayed_reclamation_enabled :: bool
  sc_tracking_enabled :: bool
  sc_secure_wiping_enabled :: bool

record lgx_memory_safety_state =
  sf_active_allocations :: "nat list"
  sf_active_count :: u64
  sf_delayed_queue :: "lgx_delayed_free list"
  sf_delayed_count :: nat
  sf_current_frame :: u32
  sf_total_allocations :: u64
  sf_total_frees :: u64
  sf_canary_violations :: u64
  sf_double_free_attempts :: u64
  sf_use_after_free_attempts :: u64
  sf_config :: lgx_memory_safety_config
  sf_meta :: "nat \<Rightarrow> lgx_alloc_metadata"
  sf_tail :: "nat \<Rightarrow> u64"
  sf_bytes :: "nat \<Rightarrow> u8"
  sf_heap :: c_heap
  sf_guards :: "(nat \<times> nat) list" \<comment> \<open>calls of \<open>mprotect\<close>: address and length\<close>

section \<open>Configuration\<close>

definition lgx_memory_safety_set_secure_wiping :: "bool \<Rightarrow> lgx_memory_safety_state \<Rightarrow> lgx_memory_safety_state" where
  "lgx_memory_safety_set_secure_wiping on s = s\<lparr>sf_config := (sf_config s)\<lparr>sc_secure_wiping_enabled := on\<rparr>\<rparr>"

definition lgx_memory_safety_get_config :: "lgx_memory_safety_state \<Rightarrow> lgx_memory_safety_config" where
  "lgx_memory_safety_get_config s = sf_config s"

definition lgx_memory_safety_set_config :: "lgx_memory_safety_config option \<Rightarrow> lgx_memory_safety_state \<Rightarrow> lgx_memory_safety_state" where
  "lgx_memory_safety_set_config config s = (case config of None \<Rightarrow> s | Some c \<Rightarrow> s\<lparr>sf_config := c\<rparr>)"

section \<open>Canaries and tracking\<close>

definition check_canaries :: "nat \<Rightarrow> lgx_memory_safety_state \<Rightarrow> bool \<times> lgx_memory_safety_state" where
  "check_canaries raw s =
     (let md = sf_meta s raw; violated = s\<lparr>sf_canary_violations := sf_canary_violations s + 1\<rparr>
      in if \<not> sc_canaries_enabled (sf_config s) then (True, s)
         else if am_canary_prefix md \<noteq> LGX_CANARY_PREFIX then (False, violated)
         else if am_canary_suffix md \<noteq> LGX_CANARY_SUFFIX then (False, violated)
         else if sf_tail s (am_user_ptr md + unat (am_size md)) \<noteq> LGX_CANARY_SUFFIX then (False, violated)
         else (True, s))"

definition ms_track_allocation :: "nat \<Rightarrow> lgx_memory_safety_state \<Rightarrow> lgx_memory_safety_state" where
  "ms_track_allocation raw s =
     (if \<not> sc_tracking_enabled (sf_config s) then s
      else s\<lparr>sf_active_allocations := raw # sf_active_allocations s, sf_active_count := sf_active_count s + 1,
             sf_total_allocations := sf_total_allocations s + 1\<rparr>)"

text \<open>Unlinks the first element with this user pointer.\<close>

fun unlink_user :: "(nat \<Rightarrow> lgx_alloc_metadata) \<Rightarrow> nat \<Rightarrow> nat list \<Rightarrow> nat list option" where
  "unlink_user meta p [] = None"
| "unlink_user meta p (raw # raws) =
     (if am_user_ptr (meta raw) = p then Some raws else map_option ((#) raw) (unlink_user meta p raws))"

definition ms_untrack_allocation :: "nat \<Rightarrow> lgx_memory_safety_state \<Rightarrow> bool \<times> lgx_memory_safety_state" where
  "ms_untrack_allocation user_ptr s =
     (if \<not> sc_tracking_enabled (sf_config s) then (True, s)
      else
        (case unlink_user (sf_meta s) user_ptr (sf_active_allocations s) of
           Some raws \<Rightarrow> (True, s\<lparr>sf_active_allocations := raws, sf_active_count := sf_active_count s - 1,
                                 sf_total_frees := sf_total_frees s + 1\<rparr>)
         | None \<Rightarrow> (False, s\<lparr>sf_double_free_attempts := sf_double_free_attempts s + 1\<rparr>)))"

section \<open>Allocation\<close>

definition safety_total :: "nat \<Rightarrow> u64 \<Rightarrow> lgx_memory_safety_config \<Rightarrow> u64" where
  "safety_total page n c =
     of_nat sizeof_metadata + n + (if sc_canaries_enabled c then 8 else 0) + (if sc_guard_pages_enabled c then of_nat page else 0)"

definition lgx_memory_safety_alloc ::
    "c_malloc \<Rightarrow> nat \<Rightarrow> u64 \<Rightarrow> lgx_memory_safety_state \<Rightarrow> nat option \<times> lgx_memory_safety_state" where
  "lgx_memory_safety_alloc M page n s =
     (if n = 0 then (None, s)
      else
        let c = sf_config s
        in (case malloc M (unat (safety_total page n c)) (sf_heap s) of
              (None, H) \<Rightarrow> (None, s\<lparr>sf_heap := H\<rparr>)
            | (Some raw, H) \<Rightarrow>
                let user = raw + sizeof_metadata;
                    md = \<lparr>am_canary_prefix = LGX_CANARY_PREFIX, am_size = n, am_frame_allocated = sf_current_frame s,
                          am_frame_freed = 0, am_user_ptr = user, am_canary_suffix = LGX_CANARY_SUFFIX\<rparr>;
                    s = s\<lparr>sf_heap := H, sf_meta := (sf_meta s)(raw := md)\<rparr>;
                    s = (if sc_canaries_enabled c then s\<lparr>sf_tail := (sf_tail s)(user + unat n := LGX_CANARY_SUFFIX)\<rparr> else s);
                    s = (if sc_guard_pages_enabled c \<and> page > 0
                         then s\<lparr>sf_guards := sf_guards s @ [(user + unat n + (if sc_canaries_enabled c then 8 else 0), page)]\<rparr> else s)
                in (Some user, ms_track_allocation raw s)))"

section \<open>Deallocation\<close>

definition fill :: "nat \<Rightarrow> nat \<Rightarrow> u8 \<Rightarrow> (nat \<Rightarrow> u8) \<Rightarrow> nat \<Rightarrow> u8" where
  "fill p n v B = (\<lambda>a. if p \<le> a \<and> a < p + n then v else B a)"

definition lgx_memory_safety_secure_wipe :: "nat option \<Rightarrow> u64 \<Rightarrow> (nat \<Rightarrow> u8) \<Rightarrow> nat \<Rightarrow> u8" where
  "lgx_memory_safety_secure_wipe ptr n B =
     (case ptr of
        None \<Rightarrow> B
      | Some p \<Rightarrow> if n = 0 then B else fill p (unat n) 0 (fold (fill p (unat n)) [0xFF, 0x00, 0xAA] B))"

definition lgx_memory_safety_free :: "c_malloc \<Rightarrow> nat option \<Rightarrow> lgx_memory_safety_state \<Rightarrow> lgx_memory_safety_state" where
  "lgx_memory_safety_free M ptr s =
     (case ptr of
        None \<Rightarrow> s
      | Some user_ptr \<Rightarrow>
          let raw = user_ptr - sizeof_metadata
          in (case check_canaries raw s of
                (False, s) \<Rightarrow> s
              | (True, s) \<Rightarrow>
                  (case ms_untrack_allocation user_ptr s of
                     (False, s) \<Rightarrow> s
                   | (True, s) \<Rightarrow>
                       let s = s\<lparr>sf_meta := (sf_meta s)(raw := (sf_meta s raw)\<lparr>am_frame_freed := sf_current_frame s\<rparr>)\<rparr>;
                           n = am_size (sf_meta s raw);
                           s = s\<lparr>sf_bytes := (if sc_secure_wiping_enabled (sf_config s)
                                              then lgx_memory_safety_secure_wipe (Some user_ptr) n (sf_bytes s)
                                              else fill user_ptr (unat n) 0xFE (sf_bytes s))\<rparr>
                       in if sc_delayed_reclamation_enabled (sf_config s) \<and> sf_delayed_count s < LGX_MAX_DELAYED_ALLOCS then
                            (case malloc M 24 (sf_heap s) of
                               (Some node, H) \<Rightarrow>
                                 s\<lparr>sf_heap := H, sf_delayed_queue := \<lparr>df_node = node, df_ptr = raw, df_frame_freed = sf_current_frame s\<rparr> # sf_delayed_queue s,
                                   sf_delayed_count := sf_delayed_count s + 1\<rparr>
                             | (None, H) \<Rightarrow> s\<lparr>sf_heap := c_free raw H\<rparr>)
                          else s\<lparr>sf_heap := c_free raw (sf_heap s)\<rparr>)))"

section \<open>Frames\<close>

definition expired :: "u32 \<Rightarrow> lgx_delayed_free \<Rightarrow> bool" where
  "expired frame d = (frame - df_frame_freed d \<ge> LGX_DELAYED_FRAMES)"

fun reclaim :: "u32 \<Rightarrow> lgx_delayed_free list \<Rightarrow> c_heap \<Rightarrow> nat \<Rightarrow> lgx_delayed_free list \<times> c_heap \<times> nat" where
  "reclaim frame [] H cnt = ([], H, cnt)"
| "reclaim frame (d # ds) H cnt =
     (if expired frame d then reclaim frame ds (c_free (df_node d) (c_free (df_ptr d) H)) (cnt - 1)
      else (case reclaim frame ds H cnt of (ds, H, cnt) \<Rightarrow> (d # ds, H, cnt)))"

definition lgx_memory_safety_advance_frame :: "lgx_memory_safety_state \<Rightarrow> lgx_memory_safety_state" where
  "lgx_memory_safety_advance_frame s =
     (let s = s\<lparr>sf_current_frame := sf_current_frame s + 1\<rparr>
      in if sc_delayed_reclamation_enabled (sf_config s) then
           (case reclaim (sf_current_frame s) (sf_delayed_queue s) (sf_heap s) (sf_delayed_count s) of
              (ds, H, cnt) \<Rightarrow> s\<lparr>sf_delayed_queue := ds, sf_heap := H, sf_delayed_count := cnt\<rparr>)
         else s)"

text \<open>The nodes of the queue are freed, the blocks in it are not, and the queue keeps pointing to its freed nodes.\<close>

definition lgx_memory_safety_shutdown :: "lgx_memory_safety_state \<Rightarrow> lgx_memory_safety_state" where
  "lgx_memory_safety_shutdown s = s\<lparr>sf_heap := foldl (\<lambda>H d. c_free (df_node d) H) (sf_heap s) (sf_delayed_queue s)\<rparr>"

record lgx_memory_safety_stats =
  sq_total_allocations :: u64
  sq_total_frees :: u64
  sq_active_allocations :: u64
  sq_delayed_frees :: nat
  sq_canary_violations :: u64
  sq_double_free_attempts :: u64
  sq_use_after_free_attempts :: u64
  sq_current_frame :: u32

definition lgx_memory_safety_get_stats :: "lgx_memory_safety_state \<Rightarrow> lgx_memory_safety_stats" where
  "lgx_memory_safety_get_stats s =
     \<lparr>sq_total_allocations = sf_total_allocations s, sq_total_frees = sf_total_frees s, sq_active_allocations = sf_active_count s,
      sq_delayed_frees = sf_delayed_count s, sq_canary_violations = sf_canary_violations s,
      sq_double_free_attempts = sf_double_free_attempts s, sq_use_after_free_attempts = sf_use_after_free_attempts s,
      sq_current_frame = sf_current_frame s\<rparr>"

section \<open>Giving blocks back\<close>

definition free_each :: "nat list \<Rightarrow> c_heap \<Rightarrow> c_heap" where
  "free_each ps H = foldl (\<lambda>H p. c_free p H) H ps"

lemma free_each_blocks:
  "distinct ps \<Longrightarrow> set ps \<subseteq> dom (cx_blocks H) \<Longrightarrow>
     cx_blocks (free_each ps H) = cx_blocks H |` (- set ps) \<and> cx_bad (free_each ps H) = cx_bad H"
proof (induction ps arbitrary: H)
  case (Cons p ps)
  then have p: "cx_blocks H p \<noteq> None" by auto
  have f: "cx_blocks (c_free p H) = (cx_blocks H)(p := None)" "cx_bad (c_free p H) = cx_bad H" using c_free_fields[OF p] by blast+
  have sub: "set ps \<subseteq> dom (cx_blocks (c_free p H))" unfolding f using Cons.prems by auto
  have "cx_blocks (free_each ps (c_free p H)) = cx_blocks (c_free p H) |` (- set ps) \<and> cx_bad (free_each ps (c_free p H)) = cx_bad (c_free p H)"
    by (rule Cons.IH[OF _ sub]) (use Cons.prems in simp)
  then show ?case unfolding f by (auto simp: free_each_def restrict_map_def fun_eq_iff)
qed (simp add: free_each_def restrict_map_def)

lemma free_each_disjoint: "heap_disjoint H \<Longrightarrow> heap_disjoint (free_each ps H)"
  by (induction ps arbitrary: H) (auto simp: free_each_def c_free_disjoint)

definition queue_blocks :: "lgx_delayed_free list \<Rightarrow> nat list" where
  "queue_blocks ds = concat (map (\<lambda>d. [df_ptr d, df_node d]) ds)"

lemma reclaim_eq:
  "reclaim frame ds H cnt =
     (filter (\<lambda>d. \<not> expired frame d) ds, free_each (queue_blocks (filter (expired frame) ds)) H, cnt - length (filter (expired frame) ds))"
  by (induction frame ds H cnt rule: reclaim.induct) (auto simp: free_each_def queue_blocks_def)

end
