(* ===== verification/Memory_Safety_Props.thy ===== *)
theory Memory_Safety_Props
  imports Memory_Safety "HOL-Library.Multiset"
begin

text \<open>
  What the safety layer guarantees with tracking, canaries and delayed reclamation switched on: the quarantine of freed
  blocks and the detection of double frees.
\<close>

section \<open>Runs\<close>

definition all_on :: "lgx_memory_safety_config \<Rightarrow> bool" where
  "all_on c \<longleftrightarrow> sc_canaries_enabled c \<and> sc_delayed_reclamation_enabled c \<and> sc_tracking_enabled c"

definition safety_start :: "lgx_memory_safety_config \<Rightarrow> lgx_memory_safety_state \<Rightarrow> bool" where
  "safety_start c s \<longleftrightarrow> sf_active_allocations s = [] \<and> sf_active_count s = 0 \<and> sf_delayed_queue s = [] \<and> sf_delayed_count s = 0 \<and>
     sf_current_frame s = 0 \<and> sf_config s = c \<and> heap_disjoint (sf_heap s) \<and> \<not> cx_bad (sf_heap s)"

text \<open>
  \<open>LV\<close> are the live allocations with their sizes, \<open>fr\<close> the blocks that went to the queue with the number of the frame, and
  \<open>n\<close> the number of frames. A client writes to its live data, and may free a pointer a second time while its block is in the queue.
\<close>

inductive safety_run ::
    "lgx_memory_safety_config \<Rightarrow> lgx_memory_safety_state \<Rightarrow> (nat \<rightharpoonup> u64) \<Rightarrow> (nat \<times> nat) set \<Rightarrow> nat \<Rightarrow> bool" for c where
  sr_start: "safety_start c s \<Longrightarrow> safety_run c s Map.empty {} 0"
| sr_alloc: "safety_run c s LV fr n \<Longrightarrow> malloc_ok M \<Longrightarrow> page < 2 ^ 32 \<Longrightarrow> sz < 2 ^ 63 \<Longrightarrow>
     lgx_memory_safety_alloc M page sz s = (Some p, s') \<Longrightarrow> safety_run c s' (LV(p \<mapsto> sz)) fr n"
| sr_alloc_fails: "safety_run c s LV fr n \<Longrightarrow> malloc_ok M \<Longrightarrow>
     lgx_memory_safety_alloc M page sz s = (None, s') \<Longrightarrow> safety_run c s' LV fr n"
| sr_free: "safety_run c s LV fr n \<Longrightarrow> malloc_ok M \<Longrightarrow> LV p = Some sz \<Longrightarrow> s' = lgx_memory_safety_free M (Some p) s \<Longrightarrow>
     fr' = (if length (sf_delayed_queue s') > length (sf_delayed_queue s) then insert (p, n) fr else fr) \<Longrightarrow>
     safety_run c s' (LV(p := None)) fr' n"
| sr_double_free: "safety_run c s LV fr n \<Longrightarrow> malloc_ok M \<Longrightarrow> (p, f) \<in> fr \<Longrightarrow> n < f + 3 \<Longrightarrow>
     safety_run c (lgx_memory_safety_free M (Some p) s) LV fr n"
| sr_frame: "safety_run c s LV fr n \<Longrightarrow> safety_run c (lgx_memory_safety_advance_frame s) LV fr (Suc n)"
| sr_write: "safety_run c s LV fr n \<Longrightarrow> LV p = Some sz \<Longrightarrow> p \<le> a \<Longrightarrow> a < p + unat sz \<Longrightarrow>
     safety_run c (s\<lparr>sf_bytes := (sf_bytes s)(a := v)\<rparr>) LV fr n"

section \<open>The invariant\<close>

definition guarded :: "lgx_memory_safety_state \<Rightarrow> nat \<Rightarrow> bool" where
  "guarded s raw \<longleftrightarrow> am_canary_prefix (sf_meta s raw) = LGX_CANARY_PREFIX \<and> am_canary_suffix (sf_meta s raw) = LGX_CANARY_SUFFIX \<and>
     am_user_ptr (sf_meta s raw) = raw + 48 \<and> sf_tail s (raw + 48 + unat (am_size (sf_meta s raw))) = LGX_CANARY_SUFFIX \<and>
     (\<exists>u. cx_blocks (sf_heap s) raw = Some u \<and> 48 + unat (am_size (sf_meta s raw)) + 8 \<le> u)"

definition held :: "lgx_memory_safety_state \<Rightarrow> nat list" where
  "held s = sf_active_allocations s @ queue_blocks (sf_delayed_queue s)"

definition safety_inv ::
    "lgx_memory_safety_config \<Rightarrow> lgx_memory_safety_state \<Rightarrow> (nat \<rightharpoonup> u64) \<Rightarrow> (nat \<times> nat) set \<Rightarrow> nat \<Rightarrow> bool" where
  "safety_inv c s LV fr n \<longleftrightarrow> sf_config s = c \<and> heap_disjoint (sf_heap s) \<and> \<not> cx_bad (sf_heap s) \<and> sf_current_frame s = of_nat n \<and>
     sf_delayed_count s = length (sf_delayed_queue s) \<and> distinct (held s) \<and> set (held s) \<subseteq> dom (cx_blocks (sf_heap s)) \<and>
     (\<forall>raw\<in>set (sf_active_allocations s) \<union> df_ptr ` set (sf_delayed_queue s). guarded s raw) \<and>
     (\<forall>p sz. LV p = Some sz \<longleftrightarrow> (\<exists>raw\<in>set (sf_active_allocations s). p = raw + 48 \<and> sz = am_size (sf_meta s raw))) \<and>
     (\<forall>p f. (p, f) \<in> fr \<longrightarrow> 48 \<le> p \<and> f \<le> n \<and> (n < f + 3 \<longrightarrow>
        (\<exists>d\<in>set (sf_delayed_queue s). df_ptr d = p - 48 \<and> df_frame_freed d = of_nat f))) \<and>
     (\<forall>d\<in>set (sf_delayed_queue s). \<exists>f. (df_ptr d + 48, f) \<in> fr \<and> df_frame_freed d = of_nat f \<and> n < f + 3)"

lemma safety_D:
  assumes "safety_inv c s LV fr n"
  shows "sf_config s = c" "heap_disjoint (sf_heap s)" "\<not> cx_bad (sf_heap s)" "sf_current_frame s = of_nat n"
    "sf_delayed_count s = length (sf_delayed_queue s)" "distinct (held s)" "set (held s) \<subseteq> dom (cx_blocks (sf_heap s))"
    "\<And>raw. raw \<in> set (sf_active_allocations s) \<Longrightarrow> guarded s raw" "\<And>d. d \<in> set (sf_delayed_queue s) \<Longrightarrow> guarded s (df_ptr d)"
    "\<And>p sz. LV p = Some sz \<longleftrightarrow> (\<exists>raw\<in>set (sf_active_allocations s). p = raw + 48 \<and> sz = am_size (sf_meta s raw))"
    "\<And>p f. (p, f) \<in> fr \<Longrightarrow> 48 \<le> p \<and> f \<le> n"
    "\<And>p f. (p, f) \<in> fr \<Longrightarrow> n < f + 3 \<Longrightarrow> \<exists>d\<in>set (sf_delayed_queue s). df_ptr d = p - 48 \<and> df_frame_freed d = of_nat f"
    "\<And>d. d \<in> set (sf_delayed_queue s) \<Longrightarrow> \<exists>f. (df_ptr d + 48, f) \<in> fr \<and> df_frame_freed d = of_nat f \<and> n < f + 3"
  using assms unfolding safety_inv_def by blast+

lemma safety_I:
  assumes "sf_config s = c" "heap_disjoint (sf_heap s)" "\<not> cx_bad (sf_heap s)" "sf_current_frame s = of_nat n"
    "sf_delayed_count s = length (sf_delayed_queue s)" "distinct (held s)" "set (held s) \<subseteq> dom (cx_blocks (sf_heap s))"
    "\<And>raw. raw \<in> set (sf_active_allocations s) \<Longrightarrow> guarded s raw" "\<And>d. d \<in> set (sf_delayed_queue s) \<Longrightarrow> guarded s (df_ptr d)"
    "\<And>p sz. LV p = Some sz \<longleftrightarrow> (\<exists>raw\<in>set (sf_active_allocations s). p = raw + 48 \<and> sz = am_size (sf_meta s raw))"
    "\<And>p f. (p, f) \<in> fr \<Longrightarrow> 48 \<le> p \<and> f \<le> n"
    "\<And>p f. (p, f) \<in> fr \<Longrightarrow> n < f + 3 \<Longrightarrow> \<exists>d\<in>set (sf_delayed_queue s). df_ptr d = p - 48 \<and> df_frame_freed d = of_nat f"
    "\<And>d. d \<in> set (sf_delayed_queue s) \<Longrightarrow> \<exists>f. (df_ptr d + 48, f) \<in> fr \<and> df_frame_freed d = of_nat f \<and> n < f + 3"
  shows "safety_inv c s LV fr n"
  using assms unfolding safety_inv_def by blast

lemma df_in_held: "d \<in> set (sf_delayed_queue s) \<Longrightarrow> df_ptr d \<in> set (held s)"
  by (auto simp: held_def queue_blocks_def)

lemma queued_not_active:
  "distinct (held s) \<Longrightarrow> d \<in> set (sf_delayed_queue s) \<Longrightarrow> df_ptr d \<notin> set (sf_active_allocations s)"
  unfolding held_def queue_blocks_def distinct_append by fastforce

text \<open>A header stays guarded when its header, canary and block are not touched.\<close>

lemma guarded_keeps:
  assumes "guarded s raw" "sf_meta s' raw = sf_meta s raw"
    "sf_tail s' (raw + 48 + unat (am_size (sf_meta s raw))) = sf_tail s (raw + 48 + unat (am_size (sf_meta s raw)))"
    "cx_blocks (sf_heap s') raw = cx_blocks (sf_heap s) raw"
  shows "guarded s' raw"
  using assms by (simp add: guarded_def)

lemma safety_total_unat:
  assumes "all_on c" "page < 2 ^ 32" "sz < 2 ^ 63"
  shows "48 + unat sz + 8 \<le> unat (safety_total page sz c)"
proof -
  have sz: "unat sz < 2 ^ 63" using assms(3) by (simp add: word_less_nat_alt)
  have pg: "unat (of_nat page :: u64) = page" using assms(2) by (simp add: unat_of_nat take_bit_nat_eq_self)
  have a: "unat (48 + sz + 8) = 48 + unat sz + 8" using sz by (simp add: unat_word_ariths)
  show ?thesis
  proof (cases "sc_guard_pages_enabled c")
    case True
    have "unat (48 + sz + 8 + of_nat page) = 48 + unat sz + 8 + page"
      using a pg sz assms(2) by (simp add: unat_word_ariths(1) mod_less)
    then show ?thesis using True assms(1) by (simp add: safety_total_def all_on_def sizeof_metadata_def)
  next
    case False
    then show ?thesis using a assms(1) by (simp add: safety_total_def all_on_def sizeof_metadata_def)
  qed
qed

lemma alloc_inv:
  assumes inv: "safety_inv c s LV fr n" and on: "all_on c" and M: "malloc_ok M" and pg: "page < 2 ^ 32" and sz: "sz < 2 ^ 63"
    and al: "lgx_memory_safety_alloc M page sz s = (Some p, s')"
  shows "safety_inv c s' (LV(p \<mapsto> sz)) fr n"
proof -
  note d = safety_D[OF inv]
  obtain r H where r: "malloc M (unat (safety_total page sz c)) (sf_heap s) = (r, H)" by fastforce
  have nz: "sz \<noteq> 0" using al by (auto simp: lgx_memory_safety_alloc_def)
  obtain raw where m: "malloc M (unat (safety_total page sz c)) (sf_heap s) = (Some raw, H)"
    using al r nz d(1) by (cases r) (auto simp: lgx_memory_safety_alloc_def)
  note al' = al[unfolded lgx_memory_safety_alloc_def d(1) m Let_def, simplified nz, simplified]
  have s': "sf_heap s' = H" "sf_meta s' = (sf_meta s)(raw := \<lparr>am_canary_prefix = LGX_CANARY_PREFIX, am_size = sz,
        am_frame_allocated = sf_current_frame s, am_frame_freed = 0, am_user_ptr = raw + 48, am_canary_suffix = LGX_CANARY_SUFFIX\<rparr>)"
      "sf_tail s' = (sf_tail s)(raw + 48 + unat sz := LGX_CANARY_SUFFIX)" "sf_active_allocations s' = raw # sf_active_allocations s"
      "sf_delayed_queue s' = sf_delayed_queue s" "sf_delayed_count s' = sf_delayed_count s" "sf_current_frame s' = sf_current_frame s"
      "sf_config s' = sf_config s" "p = raw + 48"
    using al' on d(1) by (auto simp: ms_track_allocation_def all_on_def sizeof_metadata_def)
  obtain u where u: "cx_blocks H = (cx_blocks (sf_heap s))(raw \<mapsto> u)" "unat (safety_total page sz c) \<le> u" "raw \<noteq> 0"
    "cx_blocks (sf_heap s) raw = None" "cx_bad H = cx_bad (sf_heap s)"
    using malloc_Some[OF m M d(2)] by blast
  have dis: "heap_disjoint H" using malloc_disjoint[OF M d(2), of "unat (safety_total page sz c)"] m by simp
  have fresh: "raw \<notin> set (held s)" using d(7) u(4) by auto
  have big: "48 + unat sz + 8 \<le> u" using safety_total_unat[OF on pg sz] u(2) by linarith
  have keep: "guarded s' x" if g: "guarded s x" for x
  proof (rule guarded_keeps[OF g])
    obtain v where v: "cx_blocks (sf_heap s) x = Some v" "48 + unat (am_size (sf_meta s x)) + 8 \<le> v" using g by (auto simp: guarded_def)
    then have x: "x \<noteq> raw" using u(4) by auto
    then show "sf_meta s' x = sf_meta s x" "cx_blocks (sf_heap s') x = cx_blocks (sf_heap s) x" using s' u(1) by auto
    have "block_bytes raw u \<inter> block_bytes x v = {}" using dis x v(1) u(1) unfolding heap_disjoint_def by (metis fun_upd_apply)
    moreover have "raw + 48 + unat sz \<in> block_bytes raw u" "x + 48 + unat (am_size (sf_meta s x)) \<in> block_bytes x v"
      using big v(2) by (auto simp: block_bytes_def)
    ultimately have "x + 48 + unat (am_size (sf_meta s x)) \<noteq> raw + 48 + unat sz" by (metis disjoint_iff)
    then show "sf_tail s' (x + 48 + unat (am_size (sf_meta s x))) = sf_tail s (x + 48 + unat (am_size (sf_meta s x)))" using s'(3) by auto
  qed
  have new: "guarded s' raw" using s' u(1) big by (simp add: guarded_def)
  have "raw \<notin> set (sf_active_allocations s)" using fresh by (simp add: held_def)
  then have lv: "(LV(p \<mapsto> sz)) q = Some z \<longleftrightarrow> (\<exists>x\<in>set (sf_active_allocations s'). q = x + 48 \<and> z = am_size (sf_meta s' x))" for q z
    using d(10)[of q z] s' by auto
  show ?thesis
    by (rule safety_I) (use d s' u fresh dis new keep lv in \<open>auto simp: held_def\<close>)
qed

lemma alloc_fails_inv:
  assumes inv: "safety_inv c s LV fr n" and M: "malloc_ok M" and al: "lgx_memory_safety_alloc M page sz s = (None, s')"
  shows "safety_inv c s' LV fr n"
proof (cases "sz = 0")
  case True then show ?thesis using inv al by (simp add: lgx_memory_safety_alloc_def)
next
  case False
  note d = safety_D[OF inv]
  obtain r H where r: "malloc M (unat (safety_total page sz c)) (sf_heap s) = (r, H)" by fastforce
  then have "r = None" and s': "s' = s\<lparr>sf_heap := H\<rparr>"
    using al False d(1) by (cases r; auto simp: lgx_memory_safety_alloc_def Let_def)+
  then have H: "cx_blocks H = cx_blocks (sf_heap s)" "cx_bad H = cx_bad (sf_heap s)" using malloc_None r by blast+
  then have "heap_disjoint H" using d(2) by (simp add: heap_disjoint_def)
  then show ?thesis using inv H s' unfolding safety_inv_def held_def guarded_def by simp
qed

section \<open>Freeing\<close>

lemma canaries_ok: "guarded s raw \<Longrightarrow> check_canaries raw s = (True, s)"
  by (simp add: check_canaries_def guarded_def Let_def)

lemma unlink_found:
  "raw \<in> set raws \<Longrightarrow> distinct raws \<Longrightarrow> (\<And>x. x \<in> set raws \<Longrightarrow> am_user_ptr (meta x) = x + 48) \<Longrightarrow>
     unlink_user meta (raw + 48) raws = Some (remove1 raw raws)"
  by (induction raws) auto

lemma unlink_missing:
  "(\<And>x. x \<in> set raws \<Longrightarrow> am_user_ptr (meta x) = x + 48) \<Longrightarrow> p \<notin> (\<lambda>x. x + 48) ` set raws \<Longrightarrow> unlink_user meta p raws = None"
  by (induction raws) auto

text \<open>The state after the checks of a free: untracked, marked and overwritten.\<close>

definition released :: "nat \<Rightarrow> lgx_memory_safety_state \<Rightarrow> lgx_memory_safety_state" where
  "released raw s =
     s\<lparr>sf_active_allocations := remove1 raw (sf_active_allocations s), sf_active_count := sf_active_count s - 1,
       sf_total_frees := sf_total_frees s + 1,
       sf_meta := (sf_meta s)(raw := (sf_meta s raw)\<lparr>am_frame_freed := sf_current_frame s\<rparr>),
       sf_bytes := (if sc_secure_wiping_enabled (sf_config s)
                    then lgx_memory_safety_secure_wipe (Some (raw + 48)) (am_size (sf_meta s raw)) (sf_bytes s)
                    else fill (raw + 48) (unat (am_size (sf_meta s raw))) 0xFE (sf_bytes s))\<rparr>"

definition put_away :: "c_malloc \<Rightarrow> nat \<Rightarrow> lgx_memory_safety_state \<Rightarrow> lgx_memory_safety_state" where
  "put_away M raw s =
     (if sf_delayed_count s < LGX_MAX_DELAYED_ALLOCS then
        (case malloc M 24 (sf_heap s) of
           (Some node, H) \<Rightarrow>
             s\<lparr>sf_heap := H, sf_delayed_queue := \<lparr>df_node = node, df_ptr = raw, df_frame_freed = sf_current_frame s\<rparr> # sf_delayed_queue s,
               sf_delayed_count := sf_delayed_count s + 1\<rparr>
         | (None, H) \<Rightarrow> s\<lparr>sf_heap := c_free raw H\<rparr>)
      else s\<lparr>sf_heap := c_free raw (sf_heap s)\<rparr>)"

lemma free_unfold:
  assumes inv: "safety_inv c s LV fr n" and on: "all_on c" and raw: "raw \<in> set (sf_active_allocations s)"
  shows "lgx_memory_safety_free M (Some (raw + 48)) s = put_away M raw (released raw s)"
proof -
  note d = safety_D[OF inv]
  have u: "unlink_user (sf_meta s) (raw + 48) (sf_active_allocations s) = Some (remove1 raw (sf_active_allocations s))"
    by (rule unlink_found[OF raw]) (use d(6,8) in \<open>auto simp: held_def guarded_def\<close>)
  obtain r H where m: "malloc M 24 (sf_heap s) = (r, H)" by fastforce
  show ?thesis
    using canaries_ok[OF d(8)[OF raw]] u on d(1) m
    by (cases r) (simp_all add: lgx_memory_safety_free_def Let_def sizeof_metadata_def ms_untrack_allocation_def all_on_def put_away_def released_def)
qed

lemma released_guarded: "guarded s x \<Longrightarrow> guarded (released raw s) x"
  by (auto simp: guarded_def released_def)

lemma held_released:
  assumes "raw \<in> set (sf_active_allocations s)" "distinct (held s)"
  shows "distinct (held (released raw s))" "set (held (released raw s)) = set (held s) - {raw}"
  using assms by (auto simp: held_def released_def)

lemma released_fields [simp]:
  "sf_heap (released raw s) = sf_heap s" "sf_delayed_queue (released raw s) = sf_delayed_queue s"
  "sf_delayed_count (released raw s) = sf_delayed_count s" "sf_current_frame (released raw s) = sf_current_frame s"
  "sf_config (released raw s) = sf_config s" "sf_active_allocations (released raw s) = remove1 raw (sf_active_allocations s)"
  "sf_tail (released raw s) = sf_tail s"
  by (simp_all add: released_def)

lemma released_live:
  assumes inv: "safety_inv c s LV fr n" and raw: "raw \<in> set (sf_active_allocations s)"
  shows "(LV(raw + 48 := None)) q = Some z \<longleftrightarrow>
    (\<exists>x\<in>set (sf_active_allocations (released raw s)). q = x + 48 \<and> z = am_size (sf_meta (released raw s) x))"
  using safety_D(10)[OF inv, of q z] safety_D(6)[OF inv] by (auto simp: held_def released_def)

lemma free_now_inv:
  assumes inv: "safety_inv c s LV fr n" and raw: "raw \<in> set (sf_active_allocations s)"
    and H: "cx_blocks H = cx_blocks (sf_heap s)" "cx_bad H = cx_bad (sf_heap s)"
  shows "safety_inv c ((released raw s)\<lparr>sf_heap := c_free raw H\<rparr>) (LV(raw + 48 := None)) fr n" (is "safety_inv c ?s _ _ _")
proof -
  note d = safety_D[OF inv] and h = held_released[OF raw d(6)]
  have "cx_blocks H raw \<noteq> None" using d(7) raw H(1) by (auto simp: held_def)
  then have f: "cx_blocks (sf_heap ?s) = (cx_blocks (sf_heap s))(raw := None)" "cx_bad (sf_heap ?s) = cx_bad (sf_heap s)"
    using c_free_fields[of H raw] H by simp_all
  have dis: "heap_disjoint (sf_heap ?s)" using d(2) c_free_disjoint[of H raw] H by (simp add: heap_disjoint_def)
  have g: "guarded ?s x" if "guarded s x" "x \<noteq> raw" for x
    using released_guarded[OF that(1), of raw] f that(2) by (simp add: guarded_def)
  have ne: "df_ptr e \<noteq> raw" if "e \<in> set (sf_delayed_queue s)" for e
    using queued_not_active[OF d(6) that] raw by blast
  have hd: "held ?s = held (released raw s)" by (simp add: held_def)
  have act: "raw \<notin> set (remove1 raw (sf_active_allocations s))" using d(6) by (simp add: held_def)
  show ?thesis
  proof (rule safety_I)
    show "set (held ?s) \<subseteq> dom (cx_blocks (sf_heap ?s))" unfolding hd h(2) f using d(7) by auto
    show "guarded ?s x" if "x \<in> set (sf_active_allocations ?s)" for x
      using that act g[of x] d(8) by (auto dest: notin_set_remove1 set_remove1_subset[THEN subsetD])
    show "guarded ?s (df_ptr e)" if "e \<in> set (sf_delayed_queue ?s)" for e using that ne g d(9) by simp
    show "(LV(raw + 48 := None)) q = Some z \<longleftrightarrow> (\<exists>x\<in>set (sf_active_allocations ?s). q = x + 48 \<and> z = am_size (sf_meta ?s x))" for q z
      using released_live[OF inv raw, of q z] by simp
  qed (use d h dis f hd in auto)
qed

lemma quarantine_inv:
  assumes inv: "safety_inv c s LV fr n" and M: "malloc_ok M" and raw: "raw \<in> set (sf_active_allocations s)"
    and m: "malloc M 24 (sf_heap s) = (Some node, H)"
  shows "safety_inv c ((released raw s)\<lparr>sf_heap := H, sf_delayed_queue := \<lparr>df_node = node, df_ptr = raw, df_frame_freed = sf_current_frame s\<rparr> # sf_delayed_queue s,
     sf_delayed_count := sf_delayed_count s + 1\<rparr>) (LV(raw + 48 := None)) (insert (raw + 48, n) fr) n" (is "safety_inv c ?s _ _ _")
proof -
  note d = safety_D[OF inv] and h = held_released[OF raw d(6)]
  obtain u where u: "cx_blocks H = (cx_blocks (sf_heap s))(node \<mapsto> u)" "cx_blocks (sf_heap s) node = None" "cx_bad H = cx_bad (sf_heap s)"
    using malloc_Some[OF m M d(2)] by blast
  have dis: "heap_disjoint H" using malloc_disjoint[OF M d(2), of 24] m by simp
  have node: "node \<notin> set (held s)" using d(7) u(2) by auto
  have g: "guarded ?s x" if "guarded s x" for x
  proof -
    have "x \<noteq> node" using that u(2) by (auto simp: guarded_def)
    then show ?thesis using released_guarded[OF that, of raw] u(1) by (simp add: guarded_def)
  qed
  have hd: "set (held ?s) = insert node (set (held s))" "distinct (held ?s)"
    using h node raw d(6) by (auto simp: held_def queue_blocks_def)
  show ?thesis
  proof (rule safety_I)
    show "set (held ?s) \<subseteq> dom (cx_blocks (sf_heap ?s))" unfolding hd using d(7) u(1) by auto
    show "guarded ?s x" if "x \<in> set (sf_active_allocations ?s)" for x
      using that g[of x] d(8) by (auto dest: set_remove1_subset[THEN subsetD])
    show "guarded ?s (df_ptr e)" if "e \<in> set (sf_delayed_queue ?s)" for e using that g d(8)[OF raw] d(9) by auto
    show "(LV(raw + 48 := None)) q = Some z \<longleftrightarrow> (\<exists>x\<in>set (sf_active_allocations ?s). q = x + 48 \<and> z = am_size (sf_meta ?s x))" for q z
      using released_live[OF inv raw, of q z] by simp
    show "48 \<le> p \<and> f \<le> n" if "(p, f) \<in> insert (raw + 48, n) fr" for p f using that d(11) by auto
    show "\<exists>e\<in>set (sf_delayed_queue ?s). df_ptr e = p - 48 \<and> df_frame_freed e = of_nat f"
      if "(p, f) \<in> insert (raw + 48, n) fr" "n < f + 3" for p f using that d(4,12) by auto
    show "\<exists>f. (df_ptr e + 48, f) \<in> insert (raw + 48, n) fr \<and> df_frame_freed e = of_nat f \<and> n < f + 3" if "e \<in> set (sf_delayed_queue ?s)" for e
      using that d(4,13) by auto
  qed (use d dis hd u in auto)
qed

lemma free_inv:
  assumes inv: "safety_inv c s LV fr n" and on: "all_on c" and M: "malloc_ok M" and p: "LV p = Some sz"
    and s': "s' = lgx_memory_safety_free M (Some p) s"
    and fr': "fr' = (if length (sf_delayed_queue s') > length (sf_delayed_queue s) then insert (p, n) fr else fr)"
  shows "safety_inv c s' (LV(p := None)) fr' n"
proof -
  obtain raw where raw: "raw \<in> set (sf_active_allocations s)" and pr: "p = raw + 48" using p safety_D(10)[OF inv] by blast
  obtain r H where m: "malloc M 24 (sf_heap s) = (r, H)" by fastforce
  have s: "s' = put_away M raw (released raw s)" using free_unfold[OF inv on raw] s' pr by simp
  show ?thesis
  proof (cases "sf_delayed_count s < LGX_MAX_DELAYED_ALLOCS")
    case False
    then have "s' = (released raw s)\<lparr>sf_heap := c_free raw (sf_heap s)\<rparr>" using s by (simp add: put_away_def)
    then show ?thesis using free_now_inv[OF inv raw, of "sf_heap s"] fr' pr by simp
  next
    case True
    show ?thesis
    proof (cases r)
      case None
      then have "s' = (released raw s)\<lparr>sf_heap := c_free raw H\<rparr>" using s True m by (simp add: put_away_def)
      then show ?thesis using free_now_inv[OF inv raw, of H] malloc_None m None fr' pr by simp
    next
      case (Some node)
      then have "s' = (released raw s)\<lparr>sf_heap := H, sf_delayed_queue := \<lparr>df_node = node, df_ptr = raw, df_frame_freed = sf_current_frame s\<rparr> # sf_delayed_queue s,
          sf_delayed_count := sf_delayed_count s + 1\<rparr>" using s True m by (simp add: put_away_def)
      then show ?thesis using quarantine_inv[OF inv M raw] m Some fr' pr by simp
    qed
  qed
qed

section \<open>Double frees and frames\<close>

lemma double_free_counted:
  assumes inv: "safety_inv c s LV fr n" and on: "all_on c" and p: "(p, f) \<in> fr" "n < f + 3"
  shows "lgx_memory_safety_free M (Some p) s = s\<lparr>sf_double_free_attempts := sf_double_free_attempts s + 1\<rparr>"
proof -
  note d = safety_D[OF inv]
  obtain e where e: "e \<in> set (sf_delayed_queue s)" "df_ptr e = p - 48" using d(12)[OF p] by blast
  have p48: "48 \<le> p" using d(11)[OF p(1)] by blast
  have "df_ptr e \<notin> set (sf_active_allocations s)" by (rule queued_not_active[OF d(6) e(1)])
  then have "p \<notin> (\<lambda>x. x + 48) ` set (sf_active_allocations s)" using e(2) by auto
  moreover have "am_user_ptr (sf_meta s x) = x + 48" if "x \<in> set (sf_active_allocations s)" for x using d(8)[OF that] by (simp add: guarded_def)
  ultimately have "unlink_user (sf_meta s) p (sf_active_allocations s) = None" by (intro unlink_missing) auto
  moreover have "check_canaries (p - 48) s = (True, s)" using canaries_ok[OF d(9)[OF e(1)]] e(2) by simp
  ultimately show ?thesis using on d(1)
    by (simp add: lgx_memory_safety_free_def Let_def sizeof_metadata_def ms_untrack_allocation_def all_on_def)
qed

lemma count_inv: "safety_inv c s LV fr n \<Longrightarrow> safety_inv c (s\<lparr>sf_double_free_attempts := k\<rparr>) LV fr n"
  unfolding safety_inv_def held_def guarded_def by simp

lemma write_inv: "safety_inv c s LV fr n \<Longrightarrow> safety_inv c (s\<lparr>sf_bytes := B\<rparr>) LV fr n"
  unfolding safety_inv_def held_def guarded_def by simp

lemma expired_iff:
  assumes "df_frame_freed e = of_nat f" "f \<le> n" "n < f + 3"
  shows "expired (of_nat (Suc n)) e \<longleftrightarrow> \<not> Suc n < f + 3"
proof -
  have "(of_nat (Suc n) - of_nat f :: u32) = of_nat (Suc n - f)" using assms(2) by (simp add: of_nat_diff)
  then have "expired (of_nat (Suc n)) e \<longleftrightarrow> 3 \<le> (of_nat (Suc n - f) :: u32)"
    unfolding expired_def LGX_DELAYED_FRAMES_def assms(1) by (simp only:)
  moreover have "Suc n - f \<in> {1, 2, 3}" using assms(2,3) by auto
  ultimately show ?thesis by (auto simp: word_le_nat_alt)
qed

lemma queue_split:
  "mset (queue_blocks ds) = mset (queue_blocks (filter P ds)) + mset (queue_blocks (filter (\<lambda>e. \<not> P e) ds))"
  by (induction ds) (auto simp: queue_blocks_def)

lemma advance_inv:
  assumes inv: "safety_inv c s LV fr n" and on: "all_on c"
  shows "safety_inv c (lgx_memory_safety_advance_frame s) LV fr (Suc n)"
proof -
  note d = safety_D[OF inv]
  let ?fr = "of_nat (Suc n) :: u32"
  define gone where "gone = queue_blocks (filter (expired ?fr) (sf_delayed_queue s))"
  define t where "t = lgx_memory_safety_advance_frame s"
  have t: "sf_delayed_queue t = filter (\<lambda>e. \<not> expired ?fr e) (sf_delayed_queue s)" "sf_heap t = free_each gone (sf_heap s)"
    "sf_delayed_count t = length (sf_delayed_queue s) - length (filter (expired ?fr) (sf_delayed_queue s))"
    "sf_current_frame t = ?fr" "sf_config t = c" "sf_active_allocations t = sf_active_allocations s" "sf_meta t = sf_meta s" "sf_tail t = sf_tail s"
    using on d(1,4,5) by (simp_all add: t_def lgx_memory_safety_advance_frame_def Let_def reclaim_eq gone_def all_on_def add.commute)
  have qs: "mset (queue_blocks (sf_delayed_queue s)) = mset gone + mset (queue_blocks (sf_delayed_queue t))"
    unfolding t(1) gone_def by (rule queue_split)
  have "mset (held s) = mset gone + mset (held t)" using qs by (simp add: held_def t(6))
  then have dis: "distinct (gone @ held t)" and hs: "set (held s) = set gone \<union> set (held t)"
    using d(6) by (metis mset_append mset_eq_imp_distinct_iff, metis mset_append set_append mset_eq_setD)
  have fe: "cx_blocks (sf_heap t) = cx_blocks (sf_heap s) |` (- set gone)" "cx_bad (sf_heap t) = cx_bad (sf_heap s)"
    unfolding t(2) using free_each_blocks[of gone "sf_heap s"] dis hs d(7) by auto
  have kept: "cx_blocks (sf_heap t) x = cx_blocks (sf_heap s) x" if "x \<in> set (held t)" for x
    using that dis by (auto simp: fe restrict_map_def)
  have g: "guarded t x" if "guarded s x" "x \<in> set (held t)" for x
    using that kept[OF that(2)] t by (simp add: guarded_def)
  have "safety_inv c t LV fr (Suc n)"
  proof (rule safety_I)
    show "heap_disjoint (sf_heap t)" using free_each_disjoint[OF d(2)] t by simp
    show "sf_delayed_count t = length (sf_delayed_queue t)"
      using sum_length_filter_compl[of "expired ?fr" "sf_delayed_queue s"] t by simp
    show "set (held t) \<subseteq> dom (cx_blocks (sf_heap t))" using kept hs d(7) by (auto simp: domIff)
    show "guarded t x" if "x \<in> set (sf_active_allocations t)" for x using that g d(8) t by (simp add: held_def)
    show "guarded t (df_ptr e)" if "e \<in> set (sf_delayed_queue t)" for e using that g[OF d(9) df_in_held[OF that]] t by simp
    show "48 \<le> p \<and> f \<le> Suc n" if "(p, f) \<in> fr" for p f using d(11)[OF that] by simp
    show "\<exists>e\<in>set (sf_delayed_queue t). df_ptr e = p - 48 \<and> df_frame_freed e = of_nat f" if pf: "(p, f) \<in> fr" "Suc n < f + 3" for p f
    proof -
      obtain e where e: "e \<in> set (sf_delayed_queue s)" "df_ptr e = p - 48" "df_frame_freed e = of_nat f" using d(12)[OF pf(1)] pf(2) by auto
      then show ?thesis using expired_iff[OF e(3)] d(11)[OF pf(1)] pf(2) t(1) by auto
    qed
    show "\<exists>f. (df_ptr e + 48, f) \<in> fr \<and> df_frame_freed e = of_nat f \<and> Suc n < f + 3" if "e \<in> set (sf_delayed_queue t)" for e
    proof -
      have e: "e \<in> set (sf_delayed_queue s)" "\<not> expired ?fr e" using that t(1) by auto
      then obtain f where "(df_ptr e + 48, f) \<in> fr" "df_frame_freed e = of_nat f" "n < f + 3" using d(13) by blast
      then show ?thesis using expired_iff[of e f n] d(11) e(2) by blast
    qed
  qed (use d t dis fe in auto)
  then show ?thesis by (simp add: t_def)
qed

lemma safety_run_inv: "safety_run c s LV fr n \<Longrightarrow> all_on c \<Longrightarrow> safety_inv c s LV fr n"
proof (induction rule: safety_run.induct)
  case (sr_start s)
  then show ?case by (intro safety_I) (auto simp: safety_start_def held_def queue_blocks_def)
next
  case (sr_alloc s LV fr n M page sz p s')
  then show ?case by (blast intro: alloc_inv)
next
  case (sr_alloc_fails s LV fr n M page sz s')
  then show ?case by (blast intro: alloc_fails_inv)
next
  case (sr_free s LV fr n M p sz s' fr')
  then show ?case by (blast intro: free_inv)
next
  case (sr_double_free s LV fr n M p f)
  then show ?case using double_free_counted count_inv by metis
next
  case (sr_frame s LV fr n)
  then show ?case by (blast intro: advance_inv)
next
  case (sr_write s LV fr n p sz a v)
  then show ?case by (blast intro: write_inv)
qed

text \<open>The bytes of live allocations, header and canary included, of other blocks, and of the blocks in the queue.\<close>

lemma live_room: "safety_inv c s LV fr n \<Longrightarrow> LV p = Some sz \<Longrightarrow> 48 \<le> p \<and> (\<exists>u. cx_blocks (sf_heap s) (p - 48) = Some u \<and> 48 + unat sz + 8 \<le> u)"
  using safety_D(8,10) by (fastforce simp: guarded_def)

lemma live_apart:
  assumes inv: "safety_inv c s LV fr n" and q: "LV q = Some sz" and r: "cx_blocks (sf_heap s) r = Some v" "r \<noteq> q - 48"
  shows "{q - 48..<q + unat sz + 8} \<inter> {r..<r + v} = {}"
proof -
  obtain u where u: "48 \<le> q" "cx_blocks (sf_heap s) (q - 48) = Some u" "48 + unat sz + 8 \<le> u" using live_room[OF inv q] by blast
  then have "{q - 48..<q + unat sz + 8} \<subseteq> block_bytes (q - 48) u" by (auto simp: block_bytes_def)
  moreover have "block_bytes (q - 48) u \<inter> block_bytes r v = {}" using safety_D(2)[OF inv] u(2) r unfolding heap_disjoint_def by metis
  ultimately show ?thesis by (auto simp: block_bytes_def)
qed

lemma live_blocks_apart:
  assumes inv: "safety_inv c s LV fr n" and p: "LV p = Some sz" and q: "LV q = Some sz'" and ne: "p \<noteq> q"
  shows "{p - 48..<p + unat sz + 8} \<inter> {q - 48..<q + unat sz' + 8} = {}"
proof -
  obtain u where u: "48 \<le> q" "cx_blocks (sf_heap s) (q - 48) = Some u" "48 + unat sz' + 8 \<le> u" using live_room[OF inv q] by blast
  moreover have "48 \<le> p" using live_room[OF inv p] by blast
  ultimately have "{p - 48..<p + unat sz + 8} \<inter> {q - 48..<q - 48 + u} = {}" using live_apart[OF inv p u(2)] ne by simp
  then show ?thesis using u by auto
qed

lemma queued_block:
  assumes inv: "safety_inv c s LV fr n" and f: "(p, f) \<in> fr" "n < f + 3"
  shows "LV p = None \<and> (\<exists>v. cx_blocks (sf_heap s) (p - 48) = Some v \<and>
    (\<forall>q sz. LV q = Some sz \<longrightarrow> {p - 48..<p - 48 + v} \<inter> {q - 48..<q + unat sz + 8} = {}))"
proof -
  note d = safety_D[OF inv]
  obtain e where e: "e \<in> set (sf_delayed_queue s)" "df_ptr e = p - 48" using d(12)[OF f] by blast
  then have "df_ptr e \<notin> set (sf_active_allocations s)" using queued_not_active[OF d(6)] by blast
  then have "LV p \<noteq> Some z" for z using d(10)[of p z] e(2) by auto
  then have none: "LV p = None" by auto
  obtain v where v: "cx_blocks (sf_heap s) (p - 48) = Some v" using d(7) df_in_held[OF e(1)] e(2) by auto
  have "{p - 48..<p - 48 + v} \<inter> {q - 48..<q + unat sz + 8} = {}" if q: "LV q = Some sz" for q sz
  proof -
    have "48 \<le> p" "48 \<le> q" "p \<noteq> q" using d(11)[OF f(1)] live_room[OF inv q] none q by auto
    then have "p - 48 \<noteq> q - 48" by (simp add: eq_diff_iff)
    then show ?thesis using live_apart[OF inv q v] by blast
  qed
  then show ?thesis using none v by blast
qed

text \<open>
  C21. The quarantine: with canaries, tracking and delayed reclamation on, after any allocations, frees, frames and writes
  to live data, nothing was given to \<open>free\<close> that was not allocated; the block of every live allocation has room for its
  header, its data and its canary, and shares no byte with that of another one. A freed block that went to the queue, which happens unless the
  queue is full or its node cannot be allocated, stays allocated and shares no byte with a live one until three frames have passed, and no longer; and
  freeing it a second time before that changes nothing but the count of double frees.
\<close>

theorem safety_quarantine:
  assumes run: "safety_run c s LV fr n" and on: "all_on c"
  shows "\<not> cx_bad (sf_heap s) \<and>
    (\<forall>p sz. LV p = Some sz \<longrightarrow> (\<exists>u. cx_blocks (sf_heap s) (p - 48) = Some u \<and> 48 + unat sz + 8 \<le> u)) \<and>
    (\<forall>p sz q sz'. LV p = Some sz \<and> LV q = Some sz' \<and> p \<noteq> q \<longrightarrow>
       {p - 48..<p + unat sz + 8} \<inter> {q - 48..<q + unat sz' + 8} = {}) \<and>
    (\<forall>p f. (p, f) \<in> fr \<and> n < f + 3 \<longrightarrow> LV p = None \<and>
       (\<exists>v. cx_blocks (sf_heap s) (p - 48) = Some v \<and>
          (\<forall>q sz. LV q = Some sz \<longrightarrow> {p - 48..<p - 48 + v} \<inter> {q - 48..<q + unat sz + 8} = {})) \<and>
       (\<forall>M. lgx_memory_safety_free M (Some p) s = s\<lparr>sf_double_free_attempts := sf_double_free_attempts s + 1\<rparr>)) \<and>
    (\<forall>d\<in>set (sf_delayed_queue s). \<exists>f. (df_ptr d + 48, f) \<in> fr \<and> n < f + 3)"
proof -
  have inv: "safety_inv c s LV fr n" using safety_run_inv[OF run on] .
  note d = safety_D[OF inv]
  have quar: "LV p = None \<and> (\<exists>v. cx_blocks (sf_heap s) (p - 48) = Some v \<and>
      (\<forall>q sz. LV q = Some sz \<longrightarrow> {p - 48..<p - 48 + v} \<inter> {q - 48..<q + unat sz + 8} = {})) \<and>
      (\<forall>M. lgx_memory_safety_free M (Some p) s = s\<lparr>sf_double_free_attempts := sf_double_free_attempts s + 1\<rparr>)"
    if "(p, f) \<in> fr \<and> n < f + 3" for p f
    using queued_block[OF inv, of p f] double_free_counted[OF inv on, of p f] that by blast
  show ?thesis
  proof (intro conjI)
    show "\<forall>p sz. LV p = Some sz \<longrightarrow> (\<exists>u. cx_blocks (sf_heap s) (p - 48) = Some u \<and> 48 + unat sz + 8 \<le> u)" using live_room[OF inv] by blast
    show "\<forall>p sz q sz'. LV p = Some sz \<and> LV q = Some sz' \<and> p \<noteq> q \<longrightarrow> {p - 48..<p + unat sz + 8} \<inter> {q - 48..<q + unat sz' + 8} = {}"
      using live_blocks_apart[OF inv] by (intro allI impI) (elim conjE)
    show "\<forall>d\<in>set (sf_delayed_queue s). \<exists>f. (df_ptr d + 48, f) \<in> fr \<and> n < f + 3" using d(13) by blast
  qed (use quar d(3) in \<open>auto intro!: allI impI\<close>)
qed

text \<open>A client that runs over the end of its data is found out when it frees: the block is kept, and the violation counted.\<close>

lemma overflow_detected:
  assumes "safety_run c s LV fr n" "all_on c" "LV p = Some sz" "v \<noteq> LGX_CANARY_SUFFIX"
    and s': "s' = s\<lparr>sf_tail := (sf_tail s)(p + unat sz := v)\<rparr>"
  shows "lgx_memory_safety_free M (Some p) s' = s'\<lparr>sf_canary_violations := sf_canary_violations s' + 1\<rparr>"
proof -
  note d = safety_D[OF safety_run_inv[OF assms(1,2)]]
  obtain raw where "raw \<in> set (sf_active_allocations s)" "p = raw + 48" "sz = am_size (sf_meta s raw)" using assms(3) d(10) by blast
  then show ?thesis using d(8)[of raw] assms(2,4) d(1) s'
    by (simp add: lgx_memory_safety_free_def check_canaries_def Let_def sizeof_metadata_def guarded_def all_on_def)
qed

section \<open>An example\<close>

definition demo_config :: lgx_memory_safety_config where
  "demo_config = \<lparr>sc_guard_pages_enabled = False, sc_canaries_enabled = True, sc_delayed_reclamation_enabled = True,
     sc_tracking_enabled = True, sc_secure_wiping_enabled = False\<rparr>"

definition demo_safety :: lgx_memory_safety_state where
  "demo_safety = \<lparr>sf_active_allocations = [], sf_active_count = 0, sf_delayed_queue = [], sf_delayed_count = 0, sf_current_frame = 0,
     sf_total_allocations = 0, sf_total_frees = 0, sf_canary_violations = 0, sf_double_free_attempts = 0,
     sf_use_after_free_attempts = 0, sf_config = demo_config, sf_meta = (\<lambda>_. undefined), sf_tail = (\<lambda>_. 0), sf_bytes = (\<lambda>_. 0),
     sf_heap = \<lparr>cx_blocks = Map.empty, cx_calls = 0, cx_bad = False\<rparr>, sf_guards = []\<rparr>"

text \<open>A heap that hands out fresh ranges, one for every call.\<close>

definition bump_malloc :: c_malloc where
  "bump_malloc k h n = (let p = (k + 1) * 2 ^ 80; u = n + 1
     in if n < 2 ^ 70 \<and> (\<forall>q\<in>dom h. q + the (h q) \<le> p) then Some (p, u) else None)"

lemma bump_malloc_ok: "malloc_ok bump_malloc"
  unfolding malloc_ok_def
proof (intro allI impI)
  fix k n p u :: nat and h
  assume m: "bump_malloc k h n = Some (p, u)"
  then have p: "p = (k + 1) * 2 ^ 80" "u = n + 1" and q: "\<forall>q\<in>dom h. q + the (h q) \<le> p"
    by (auto simp: bump_malloc_def Let_def split: if_splits)
  have "block_bytes p u \<inter> block_bytes q v = {}" if "h q = Some v" for q v
    using q that by (force simp: block_bytes_def)
  then show "p \<noteq> 0 \<and> n \<le> u \<and> 0 < u \<and> (\<forall>q v. h q = Some v \<longrightarrow> block_bytes p u \<inter> block_bytes q v = {})"
    using p by simp
qed

definition demo_taken :: lgx_memory_safety_state where
  "demo_taken = snd (lgx_memory_safety_alloc bump_malloc 4096 100 demo_safety)"

definition demo_returned :: lgx_memory_safety_state where
  "demo_returned = lgx_memory_safety_free bump_malloc (Some (2 ^ 80 + 48)) demo_taken"

lemma demo_taken_alloc: "lgx_memory_safety_alloc bump_malloc 4096 100 demo_safety = (Some (2 ^ 80 + 48), demo_taken)"
  by (simp add: demo_taken_def lgx_memory_safety_alloc_def demo_safety_def demo_config_def safety_total_def sizeof_metadata_def
      malloc_def bump_malloc_def Let_def)

lemma demo_queue: "sf_delayed_queue demo_taken = []" "length (sf_delayed_queue demo_returned) = 1"
  by (simp_all add: demo_returned_def demo_taken_def lgx_memory_safety_alloc_def demo_safety_def demo_config_def safety_total_def
      sizeof_metadata_def malloc_def bump_malloc_def Let_def ms_track_allocation_def lgx_memory_safety_free_def check_canaries_def
      ms_untrack_allocation_def LGX_MAX_DELAYED_ALLOCS_def)

lemma demo_returned_run: "safety_run demo_config demo_returned ([2 ^ 80 + 48 \<mapsto> 100](2 ^ 80 + 48 := None)) {(2 ^ 80 + 48, 0)} 0"
proof -
  have "safety_run demo_config demo_safety Map.empty {} 0"
    by (rule sr_start) (simp add: safety_start_def demo_safety_def heap_disjoint_def)
  then have "safety_run demo_config demo_taken [2 ^ 80 + 48 \<mapsto> 100] {} 0"
    using sr_alloc[OF _ bump_malloc_ok _ _ demo_taken_alloc] by simp
  then show ?thesis by (rule sr_free[OF _ bump_malloc_ok _ demo_returned_def]) (simp_all add: demo_queue)
qed

theorem safety_quarantine_witness:
  "cx_blocks (sf_heap demo_returned) (2 ^ 80) \<noteq> None \<and>
   lgx_memory_safety_free bump_malloc (Some (2 ^ 80 + 48)) demo_returned = demo_returned\<lparr>sf_double_free_attempts := sf_double_free_attempts demo_returned + 1\<rparr>"
proof -
  have "all_on demo_config" by (simp add: all_on_def demo_config_def)
  then show ?thesis using safety_quarantine[OF demo_returned_run] by auto
qed

text \<open>The sum of header, data and canary wraps: a request near \<open>SIZE_MAX\<close> gets a block of a few bytes.\<close>

lemma safety_total_wraps: "safety_total 4096 (- 40) demo_config = 16"
  by (simp add: safety_total_def demo_config_def sizeof_metadata_def)

text \<open>Shutdown frees the nodes of the queue, leaves the queued blocks allocated, and keeps the queue with its freed nodes.\<close>

lemma shutdown_leaks:
  assumes "safety_run c s LV fr n" "all_on c" and q: "d \<in> set (sf_delayed_queue s)"
  shows "d \<in> set (sf_delayed_queue (lgx_memory_safety_shutdown s)) \<and>
    cx_blocks (sf_heap (lgx_memory_safety_shutdown s)) (df_ptr d) \<noteq> None \<and> cx_blocks (sf_heap (lgx_memory_safety_shutdown s)) (df_node d) = None"
proof -
  note i = safety_D[OF safety_run_inv[OF assms(1,2)]]
  let ?ns = "map df_node (sf_delayed_queue s)"
  have h: "sf_heap (lgx_memory_safety_shutdown s) = free_each ?ns (sf_heap s)"
    by (simp add: lgx_memory_safety_shutdown_def free_each_def foldl_map)
  have qb: "distinct (queue_blocks ds) \<Longrightarrow> distinct (map df_node ds) \<and> (\<forall>d\<in>set ds. df_ptr d \<notin> df_node ` set ds)" for ds
    by (induction ds) (auto simp: queue_blocks_def)
  have dis: "distinct ?ns" "df_ptr d \<notin> set ?ns" using qb[of "sf_delayed_queue s"] i(6) q by (auto simp: held_def)
  have "set ?ns \<subseteq> dom (cx_blocks (sf_heap s))" "df_ptr d \<in> dom (cx_blocks (sf_heap s))"
    using i(7) q by (auto simp: held_def queue_blocks_def)
  then show ?thesis using free_each_blocks[OF dis(1), of "sf_heap s"] dis(2) q unfolding h
    by (auto simp: restrict_map_def lgx_memory_safety_shutdown_def)
qed

end
