(* ===== verification/C_Text.thy ===== *)
theory C_Text
  imports LGX_Prelude
begin

text \<open>
  Text as the C code handles it. A string is the list of the characters before its terminating zero.
\<close>

definition nl :: string where "nl = [CHR 0x0A]"
definition quote :: string where "quote = [CHR 0x22]"

text \<open>\<open>strncpy\<close> into a buffer of \<open>n\<close> bytes whose last byte is then set to zero.\<close>

definition c_copy :: "nat \<Rightarrow> string \<Rightarrow> string" where
  "c_copy n s = take (n - 1) (takeWhile (\<lambda>c. c \<noteq> CHR 0x00) s)"

text \<open>Decimal output (\<open>%u\<close>, \<open>%lu\<close>, and \<open>%d\<close> of a number that is not negative).\<close>

fun dec :: "nat \<Rightarrow> string" where
  "dec n = (if n < 10 then [char_of (48 + n)] else dec (n div 10) @ [char_of (48 + n mod 10)])"

declare dec.simps [simp del]

definition digit_value :: "char \<Rightarrow> nat" where "digit_value c = of_char c - 48"

definition dec_value :: "string \<Rightarrow> nat" where
  "dec_value s = foldl (\<lambda>n c. 10 * n + digit_value c) 0 s"

lemma digit_value_char: "d < 10 \<Longrightarrow> digit_value (char_of (48 + d)) = d"
  by (simp add: digit_value_def)

lemma dec_value_dec [simp]: "dec_value (dec n) = n"
proof (induction n rule: dec.induct)
  case (1 n)
  show ?case
  proof (cases "n < 10")
    case True
    then show ?thesis by (simp add: dec.simps[of n] dec_value_def digit_value_char)
  next
    case False
    then have "dec_value (dec (n div 10)) = n div 10" by (rule 1)
    then show ?thesis using False by (simp add: dec.simps[of n] dec_value_def digit_value_char)
  qed
qed

lemma dec_inj: "dec m = dec n \<longleftrightarrow> m = n"
  by (metis dec_value_dec)

lemma c_copy_prefix: "\<exists>t. s = c_copy n s @ t"
  unfolding c_copy_def by (metis append_take_drop_id append.assoc takeWhile_dropWhile_id)

lemma c_copy_length: "0 < n \<Longrightarrow> length (c_copy n s) < n"
  by (simp add: c_copy_def)

end
