(* ===== verification/Trace_Events.thy ===== *)
theory Trace_Events
  imports C_Text
begin

text \<open>
  Trace events (\<^verbatim>\<open>src/runtime/lgx_trace_events.c\<close>): a ring of 65536 events, the counters, and the export in the Chrome
  trace format. The time and the identity of the calling thread are arguments. The thread-local stack of
  the file is never used and left out; so are log messages.
\<close>

section \<open>State\<close>

definition MAX_TRACE_NAME_LENGTH :: nat where "MAX_TRACE_NAME_LENGTH = 64"
definition TRACE_RING_BUFFER_SIZE :: nat where "TRACE_RING_BUFFER_SIZE = 65536"

datatype trace_event_type = TRACE_EVENT_BEGIN | TRACE_EVENT_END | TRACE_EVENT_INSTANT

record trace_event =
  te_type :: trace_event_type
  te_name :: string
  te_timestamp_ns :: u64
  te_thread_id :: u32
  te_data :: u64

record trace_ring_buffer =
  tr_events :: "(nat \<Rightarrow> trace_event) option" \<comment> \<open>\<open>NULL\<close> before initialisation and after shutdown\<close>
  tr_write_index :: u64
  tr_read_index :: u64
  tr_capacity :: u64
  tr_dropped_events :: u64

record trace_system =
  ts_initialized :: bool
  ts_enabled :: bool
  ts_ring :: trace_ring_buffer
  ts_perf_enabled :: bool
  ts_valgrind_enabled :: bool
  ts_tracy_enabled :: bool
  ts_total_events :: u64
  ts_begin_events :: u64
  ts_end_events :: u64
  ts_instant_events :: u64

definition zero_event :: trace_event where
  "zero_event = \<lparr>te_type = TRACE_EVENT_BEGIN, te_name = [], te_timestamp_ns = 0, te_thread_id = 0, te_data = 0\<rparr>"

definition g_trace_system :: trace_system where
  "g_trace_system = \<lparr>ts_initialized = False, ts_enabled = False,
     ts_ring = \<lparr>tr_events = None, tr_write_index = 0, tr_read_index = 0, tr_capacity = 0, tr_dropped_events = 0\<rparr>,
     ts_perf_enabled = False, ts_valgrind_enabled = False, ts_tracy_enabled = False,
     ts_total_events = 0, ts_begin_events = 0, ts_end_events = 0, ts_instant_events = 0\<rparr>"

section \<open>The ring\<close>

definition init_ring_buffer :: "bool \<Rightarrow> nat \<Rightarrow> trace_ring_buffer \<Rightarrow> lgx_result \<times> trace_ring_buffer" where
  "init_ring_buffer calloc_ok cap b =
     (if \<not> calloc_ok then (LGX_ERROR_OUT_OF_MEMORY, b\<lparr>tr_events := None\<rparr>)
      else (LGX_SUCCESS, \<lparr>tr_events = Some (\<lambda>_. zero_event), tr_write_index = 0, tr_read_index = 0,
                           tr_capacity = of_nat cap, tr_dropped_events = 0\<rparr>))"

definition add_trace_event :: "trace_event \<Rightarrow> trace_ring_buffer \<Rightarrow> trace_ring_buffer" where
  "add_trace_event ev b =
     (let write_idx = tr_write_index b; b = b\<lparr>tr_write_index := write_idx + 1\<rparr>
      in if write_idx - tr_read_index b \<ge> tr_capacity b then b\<lparr>tr_dropped_events := tr_dropped_events b + 1\<rparr>
         else b\<lparr>tr_events := map_option (\<lambda>E. E(unat (write_idx mod tr_capacity b) := ev)) (tr_events b)\<rparr>)"

section \<open>Operations\<close>

definition lgx_trace_init :: "bool \<Rightarrow> bool \<Rightarrow> trace_system \<Rightarrow> lgx_result \<times> trace_system" where
  "lgx_trace_init mutex_ok calloc_ok s =
     (if ts_initialized s then (LGX_SUCCESS, s)
      else if \<not> mutex_ok then (LGX_ERROR_OUT_OF_MEMORY, s)
      else
        (case init_ring_buffer calloc_ok TRACE_RING_BUFFER_SIZE (ts_ring s) of (r, b) \<Rightarrow>
           if r \<noteq> LGX_SUCCESS then (r, s\<lparr>ts_ring := b\<rparr>)
           else (LGX_SUCCESS, \<lparr>ts_initialized = True, ts_enabled = False, ts_ring = b, ts_perf_enabled = False,
                   ts_valgrind_enabled = False, ts_tracy_enabled = False, ts_total_events = 0, ts_begin_events = 0,
                   ts_end_events = 0, ts_instant_events = 0\<rparr>)))"

definition lgx_trace_shutdown :: "trace_system \<Rightarrow> lgx_result \<times> trace_system" where
  "lgx_trace_shutdown s =
     (if \<not> ts_initialized s then (LGX_SUCCESS, s)
      else (LGX_SUCCESS, s\<lparr>ts_ring := (ts_ring s)\<lparr>tr_events := None\<rparr>, ts_initialized := False\<rparr>))"

definition lgx_trace_enable :: "bool \<Rightarrow> trace_system \<Rightarrow> lgx_result \<times> trace_system" where
  "lgx_trace_enable enabled s =
     (if \<not> ts_initialized s then (LGX_ERROR_NOT_INITIALIZED, s) else (LGX_SUCCESS, s\<lparr>ts_enabled := enabled\<rparr>))"

definition lgx_trace_is_enabled :: "trace_system \<Rightarrow> bool" where
  "lgx_trace_is_enabled s = (ts_initialized s \<and> ts_enabled s)"

definition mk_event :: "trace_event_type \<Rightarrow> string \<Rightarrow> u64 \<Rightarrow> u64 \<Rightarrow> u32 \<Rightarrow> trace_event" where
  "mk_event t name data now tid =
     \<lparr>te_type = t, te_name = c_copy MAX_TRACE_NAME_LENGTH name, te_timestamp_ns = now, te_thread_id = tid, te_data = data\<rparr>"

definition lgx_trace_begin :: "string option \<Rightarrow> u64 \<Rightarrow> u64 \<Rightarrow> u32 \<Rightarrow> trace_system \<Rightarrow> trace_system" where
  "lgx_trace_begin name data now tid s =
     (case name of
        None \<Rightarrow> s
      | Some nm \<Rightarrow>
          if \<not> lgx_trace_is_enabled s then s
          else s\<lparr>ts_ring := add_trace_event (mk_event TRACE_EVENT_BEGIN nm data now tid) (ts_ring s),
                 ts_total_events := ts_total_events s + 1, ts_begin_events := ts_begin_events s + 1\<rparr>)"

definition lgx_trace_end :: "string option \<Rightarrow> u64 \<Rightarrow> u32 \<Rightarrow> trace_system \<Rightarrow> trace_system" where
  "lgx_trace_end name now tid s =
     (case name of
        None \<Rightarrow> s
      | Some nm \<Rightarrow>
          if \<not> lgx_trace_is_enabled s then s
          else s\<lparr>ts_ring := add_trace_event (mk_event TRACE_EVENT_END nm 0 now tid) (ts_ring s),
                 ts_total_events := ts_total_events s + 1, ts_end_events := ts_end_events s + 1\<rparr>)"

definition lgx_trace_instant :: "string option \<Rightarrow> u64 \<Rightarrow> u64 \<Rightarrow> u32 \<Rightarrow> trace_system \<Rightarrow> trace_system" where
  "lgx_trace_instant name data now tid s =
     (case name of
        None \<Rightarrow> s
      | Some nm \<Rightarrow>
          if \<not> lgx_trace_is_enabled s then s
          else s\<lparr>ts_ring := add_trace_event (mk_event TRACE_EVENT_INSTANT nm data now tid) (ts_ring s),
                 ts_total_events := ts_total_events s + 1, ts_instant_events := ts_instant_events s + 1\<rparr>)"

record lgx_trace_stats =
  tq_total_events :: u64
  tq_begin_events :: u64
  tq_end_events :: u64
  tq_instant_events :: u64
  tq_dropped_events :: u64
  tq_buffer_capacity :: u64
  tq_buffer_used :: u64

definition buffer_used :: "trace_ring_buffer \<Rightarrow> u64" where
  "buffer_used b =
     (if tr_write_index b - tr_read_index b < tr_capacity b then tr_write_index b - tr_read_index b else tr_capacity b)"

definition lgx_trace_get_stats :: "trace_system \<Rightarrow> lgx_result + lgx_trace_stats" where
  "lgx_trace_get_stats s =
     (if \<not> ts_initialized s then Inl LGX_ERROR_INVALID_PARAM
      else Inr \<lparr>tq_total_events = ts_total_events s, tq_begin_events = ts_begin_events s, tq_end_events = ts_end_events s,
                tq_instant_events = ts_instant_events s, tq_dropped_events = tr_dropped_events (ts_ring s),
                tq_buffer_capacity = tr_capacity (ts_ring s), tq_buffer_used = buffer_used (ts_ring s)\<rparr>)"

definition lgx_trace_clear :: "trace_system \<Rightarrow> lgx_result \<times> trace_system" where
  "lgx_trace_clear s =
     (if \<not> ts_initialized s then (LGX_ERROR_NOT_INITIALIZED, s)
      else (LGX_SUCCESS, s\<lparr>ts_ring := (ts_ring s)\<lparr>tr_write_index := 0, tr_read_index := 0, tr_dropped_events := 0\<rparr>,
              ts_total_events := 0, ts_begin_events := 0, ts_end_events := 0, ts_instant_events := 0\<rparr>))"

fun phase :: "trace_event_type \<Rightarrow> string" where
  "phase TRACE_EVENT_BEGIN = ''B''"
| "phase TRACE_EVENT_END = ''E''"
| "phase TRACE_EVENT_INSTANT = ''i''"

text \<open>The text written for one event, and the whole file.\<close>

definition event_json :: "trace_event \<Rightarrow> string" where
  \<open>event_json ev =
     ''    {'' @ nl @
     ''      "name": "'' @ te_name ev @ ''",'' @ nl @
     ''      "ph": "'' @ phase (te_type ev) @ ''",'' @ nl @
     ''      "ts": '' @ dec (unat (te_timestamp_ns ev div 1000)) @ '','' @ nl @
     ''      "pid": 1,'' @ nl @
     ''      "tid": '' @ dec (unat (te_thread_id ev)) @
     (if te_data ev \<noteq> 0 then '','' @ nl @ ''      "args": {"data": '' @ dec (unat (te_data ev)) @ ''}'' else []) @
     nl @ ''    }''\<close>

definition trace_header :: string where
  \<open>trace_header = ''{'' @ nl @ ''  "traceEvents": ['' @ nl\<close>

definition trace_footer :: "nat \<Rightarrow> nat \<Rightarrow> nat \<Rightarrow> string" where
  \<open>trace_footer events dropped cap =
     nl @ ''  ],'' @ nl @ ''  "metadata": {'' @ nl @
     ''    "total_events": '' @ dec events @ '','' @ nl @
     ''    "dropped_events": '' @ dec dropped @ '','' @ nl @
     ''    "buffer_capacity": '' @ dec cap @ nl @
     ''  }'' @ nl @ ''}'' @ nl\<close>

text \<open>The loop over the events: a comma before every event but the first.\<close>

fun export_events :: "(nat \<Rightarrow> trace_event) \<Rightarrow> trace_ring_buffer \<Rightarrow> bool \<Rightarrow> nat list \<Rightarrow> string" where
  "export_events E b first [] = []"
| "export_events E b first (i # is) =
     (if first then [] else '','' @ nl) @ event_json (E (unat ((tr_read_index b + of_nat i) mod tr_capacity b))) @
       export_events E b False is"

definition lgx_trace_export :: "bool \<Rightarrow> bool \<Rightarrow> trace_system \<Rightarrow> lgx_result + string" where
  "lgx_trace_export path_given open_ok s =
     (if \<not> ts_initialized s \<or> \<not> path_given then Inl LGX_ERROR_INVALID_PARAM
      else if \<not> open_ok then Inl LGX_ERROR_IO_ERROR
      else
        let b = ts_ring s
        in (case tr_events b of
              None \<Rightarrow> Inl LGX_ERROR_INVALID_PARAM \<comment> \<open>excluded while initialised\<close>
            | Some E \<Rightarrow>
                Inr (trace_header @ export_events E b True [0..<unat (buffer_used b)] @
                     trace_footer (unat (ts_total_events s)) (unat (tr_dropped_events b)) (unat (tr_capacity b)))))"

definition lgx_trace_enable_perf_integration :: "bool \<Rightarrow> trace_system \<Rightarrow> lgx_result \<times> trace_system" where
  "lgx_trace_enable_perf_integration on s =
     (if \<not> ts_initialized s then (LGX_ERROR_NOT_INITIALIZED, s) else (LGX_SUCCESS, s\<lparr>ts_perf_enabled := on\<rparr>))"

definition lgx_trace_enable_valgrind_integration :: "bool \<Rightarrow> trace_system \<Rightarrow> lgx_result \<times> trace_system" where
  "lgx_trace_enable_valgrind_integration on s =
     (if \<not> ts_initialized s then (LGX_ERROR_NOT_INITIALIZED, s) else (LGX_SUCCESS, s\<lparr>ts_valgrind_enabled := on\<rparr>))"

definition lgx_trace_enable_tracy_integration :: "bool \<Rightarrow> trace_system \<Rightarrow> lgx_result \<times> trace_system" where
  "lgx_trace_enable_tracy_integration on s =
     (if \<not> ts_initialized s then (LGX_ERROR_NOT_INITIALIZED, s) else (LGX_SUCCESS, s\<lparr>ts_tracy_enabled := on\<rparr>))"

section \<open>What is recorded\<close>

datatype trace_op =
    Call_begin string u64 u64 u32
  | Call_end string u64 u32
  | Call_instant string u64 u64 u32

fun trace_call :: "trace_op \<Rightarrow> trace_system \<Rightarrow> trace_system" where
  "trace_call (Call_begin nm d now tid) s = lgx_trace_begin (Some nm) d now tid s"
| "trace_call (Call_end nm now tid) s = lgx_trace_end (Some nm) now tid s"
| "trace_call (Call_instant nm d now tid) s = lgx_trace_instant (Some nm) d now tid s"

fun event_of :: "trace_op \<Rightarrow> trace_event" where
  "event_of (Call_begin nm d now tid) = mk_event TRACE_EVENT_BEGIN nm d now tid"
| "event_of (Call_end nm now tid) = mk_event TRACE_EVENT_END nm 0 now tid"
| "event_of (Call_instant nm d now tid) = mk_event TRACE_EVENT_INSTANT nm d now tid"

definition trace_calls :: "trace_op list \<Rightarrow> trace_system \<Rightarrow> trace_system" where
  "trace_calls cs s = fold trace_call cs s"

definition of_kind :: "trace_event_type \<Rightarrow> trace_op list \<Rightarrow> nat" where
  "of_kind t cs = length (filter (\<lambda>c. te_type (event_of c) = t) cs)"

definition ring_inv :: "trace_event list \<Rightarrow> trace_ring_buffer \<Rightarrow> bool" where
  "ring_inv es b \<longleftrightarrow> tr_read_index b = 0 \<and> tr_capacity b = 65536 \<and>
     tr_write_index b = of_nat (length es) \<and> tr_dropped_events b = of_nat (length es - 65536) \<and>
     (\<exists>E. tr_events b = Some E \<and> (\<forall>i<min (length es) 65536. E i = es ! i))"

text \<open>\<open>cs\<close> are the calls since the last clear.\<close>

definition trace_inv :: "trace_op list \<Rightarrow> trace_system \<Rightarrow> bool" where
  "trace_inv cs s \<longleftrightarrow> ts_initialized s \<and> ts_enabled s \<and> ring_inv (map event_of cs) (ts_ring s) \<and>
     ts_total_events s = of_nat (length cs) \<and> ts_begin_events s = of_nat (of_kind TRACE_EVENT_BEGIN cs) \<and>
     ts_end_events s = of_nat (of_kind TRACE_EVENT_END cs) \<and> ts_instant_events s = of_nat (of_kind TRACE_EVENT_INSTANT cs)"

lemma add_event_inv:
  assumes inv: "ring_inv es b" and n: "length es < 2 ^ 64"
  shows "ring_inv (es @ [ev]) (add_trace_event ev b)"
proof -
  have u: "unat (of_nat (length es) :: u64) = length es" using n by (simp add: unat_of_nat take_bit_nat_eq_self)
  obtain E where E: "tr_events b = Some E" "\<forall>i<min (length es) 65536. E i = es ! i" using inv by (auto simp: ring_inv_def)
  have c: "(of_nat (length es) :: u64) \<ge> 65536 \<longleftrightarrow> length es \<ge> 65536" using u by (simp add: word_le_nat_alt)
  show ?thesis
  proof (cases "length es \<ge> 65536")
    case True
    then have "add_trace_event ev b = b\<lparr>tr_write_index := of_nat (length es) + 1, tr_dropped_events := tr_dropped_events b + 1\<rparr>"
      using inv c by (simp add: add_trace_event_def ring_inv_def Let_def)
    then show ?thesis using True inv E by (auto simp: ring_inv_def nth_append of_nat_diff)
  next
    case False
    then have m: "unat ((of_nat (length es) :: u64) mod 65536) = length es" using u by (simp add: unat_mod)
    have "add_trace_event ev b = b\<lparr>tr_write_index := of_nat (length es) + 1, tr_events := Some (E(length es := ev))\<rparr>"
      using inv c False E(1) m by (simp add: add_trace_event_def ring_inv_def Let_def)
    then show ?thesis using False inv E by (auto simp: ring_inv_def nth_append)
  qed
qed

lemma trace_call_inv:
  assumes inv: "trace_inv cs s" and n: "length cs < 2 ^ 64"
  shows "trace_inv (cs @ [c]) (trace_call c s)"
proof -
  have "ring_inv (map event_of cs @ [event_of c]) (add_trace_event (event_of c) (ts_ring s))"
    by (rule add_event_inv) (use inv n in \<open>simp_all add: trace_inv_def\<close>)
  then show ?thesis using inv
    by (cases c) (simp_all add: trace_inv_def lgx_trace_begin_def lgx_trace_end_def lgx_trace_instant_def lgx_trace_is_enabled_def
        of_kind_def mk_event_def)
qed

lemma trace_calls_inv:
  "trace_inv cs s \<Longrightarrow> length cs + length ds \<le> 2 ^ 64 \<Longrightarrow> trace_inv (cs @ ds) (trace_calls ds s)"
proof (induction ds arbitrary: cs s)
  case (Cons d ds)
  have "trace_inv (cs @ [d]) (trace_call d s)" by (rule trace_call_inv) (use Cons.prems in simp_all)
  then show ?case using Cons.IH[of "cs @ [d]" "trace_call d s"] Cons.prems(2) by (simp add: trace_calls_def)
qed (simp add: trace_calls_def)

lemma clear_inv: "trace_inv cs s \<Longrightarrow> trace_inv [] (snd (lgx_trace_clear s))"
  by (auto simp: trace_inv_def lgx_trace_clear_def ring_inv_def of_kind_def)

lemma trace_start_inv:
  "lgx_trace_init True True s = (r, s') \<Longrightarrow> \<not> ts_initialized s \<Longrightarrow> trace_inv [] (snd (lgx_trace_enable True s'))"
  by (auto simp: trace_inv_def lgx_trace_init_def init_ring_buffer_def lgx_trace_enable_def ring_inv_def of_kind_def
      TRACE_RING_BUFFER_SIZE_def)

section \<open>What is exported\<close>

text \<open>The specification of the file: the events, separated by commas.\<close>

fun separated :: "string list \<Rightarrow> string" where
  "separated [] = []"
| "separated [x] = x"
| "separated (x # y # xs) = x @ '','' @ nl @ separated (y # xs)"

lemma export_separated:
  assumes "\<And>i. i \<in> set is \<Longrightarrow> E (unat ((tr_read_index b + of_nat i) mod tr_capacity b)) = ev i"
  shows "export_events E b first is = (if first \<or> is = [] then [] else '','' @ nl) @ separated (map (\<lambda>i. event_json (ev i)) is)"
  using assms
proof (induction E b first "is" rule: export_events.induct)
  case (2 E b first i "is")
  then show ?case by (cases "is") auto
qed simp

definition trace_file :: "trace_op list \<Rightarrow> string" where
  "trace_file cs = trace_header @ separated (map (\<lambda>c. event_json (event_of c)) (take 65536 cs)) @
     trace_footer (length cs) (length cs - 65536) 65536"

lemma used_inv: "trace_inv cs s \<Longrightarrow> length cs < 2 ^ 64 \<Longrightarrow> unat (buffer_used (ts_ring s)) = min (length cs) 65536"
  by (auto simp: trace_inv_def ring_inv_def buffer_used_def unat_of_nat take_bit_nat_eq_self word_less_nat_alt min_def)

lemma export_inv:
  assumes inv: "trace_inv cs s" and n: "length cs < 2 ^ 64"
  shows "lgx_trace_export True True s = Inr (trace_file cs)"
proof -
  obtain E where E: "tr_events (ts_ring s) = Some E" "\<And>i. i < min (length cs) 65536 \<Longrightarrow> E i = event_of (cs ! i)"
    using inv by (auto simp: trace_inv_def ring_inv_def)
  have r: "tr_read_index (ts_ring s) = 0" "tr_capacity (ts_ring s) = 65536" using inv by (auto simp: trace_inv_def ring_inv_def)
  let ?is = "[0..<min (length cs) 65536]"
  have slot: "E (unat ((tr_read_index (ts_ring s) + of_nat i) mod tr_capacity (ts_ring s))) = event_of (cs ! i)" if "i \<in> set ?is" for i
  proof -
    have "unat (of_nat i :: u64) = i" using that by (simp add: unat_of_nat take_bit_nat_eq_self)
    then have "unat ((of_nat i :: u64) mod 65536) = i" using that by (simp add: unat_mod)
    then show ?thesis using that E(2) r by simp
  qed
  have l: "map (\<lambda>i. event_json (event_of (cs ! i))) ?is = map (\<lambda>c. event_json (event_of c)) (take 65536 cs)"
    by (rule nth_equalityI) simp_all
  have ex: "export_events E (ts_ring s) True ?is = separated (map (\<lambda>c. event_json (event_of c)) (take 65536 cs))"
    using export_separated[of ?is E "ts_ring s" "\<lambda>i. event_of (cs ! i)" True, OF slot] l by simp
  have "unat (of_nat (length cs) :: u64) = length cs" "unat (of_nat (length cs - 65536) :: u64) = length cs - 65536"
    using n by (simp_all add: unat_of_nat take_bit_nat_eq_self)
  then show ?thesis using inv ex E(1) used_inv[OF inv n] r
    by (simp add: lgx_trace_export_def trace_inv_def ring_inv_def Let_def trace_file_def)
qed

text \<open>
  C23. The trace is exact: after initialisation, any calls, a clear and then fewer than \<open>2 ^ 64\<close> calls, the export holds the
  first 65536 of the calls since the clear, in order and with their names cut to 63 characters, and the statistics count all of
  them, by kind, and those that were dropped.
\<close>

theorem trace_exact:
  assumes "lgx_trace_init True True s = (LGX_SUCCESS, s1)" and "\<not> ts_initialized s"
    and "length ds < 2 ^ 64" and "length cs < 2 ^ 64"
    and s2: "s2 = trace_calls cs (snd (lgx_trace_clear (trace_calls ds (snd (lgx_trace_enable True s1)))))"
  shows "lgx_trace_export True True s2 = Inr (trace_file cs) \<and>
    lgx_trace_get_stats s2 = Inr \<lparr>tq_total_events = of_nat (length cs), tq_begin_events = of_nat (of_kind TRACE_EVENT_BEGIN cs),
      tq_end_events = of_nat (of_kind TRACE_EVENT_END cs), tq_instant_events = of_nat (of_kind TRACE_EVENT_INSTANT cs),
      tq_dropped_events = of_nat (length cs - 65536), tq_buffer_capacity = 65536, tq_buffer_used = of_nat (min (length cs) 65536)\<rparr>"
proof -
  have "trace_inv [] (snd (lgx_trace_enable True s1))" using trace_start_inv assms by blast
  then have "trace_inv ds (trace_calls ds (snd (lgx_trace_enable True s1)))" using trace_calls_inv[of "[]" _ ds] assms(3) by simp
  from clear_inv[OF this] have inv: "trace_inv cs s2" using trace_calls_inv[of "[]" _ cs] assms(4) s2 by simp
  have "buffer_used (ts_ring s2) = of_nat (unat (buffer_used (ts_ring s2)))" by simp
  then have "buffer_used (ts_ring s2) = of_nat (min (length cs) 65536)" using used_inv[OF inv assms(4)] by simp
  then show ?thesis using export_inv[OF inv assms(4)] inv by (simp add: lgx_trace_get_stats_def trace_inv_def ring_inv_def)
qed

theorem trace_exact_witness:
  "lgx_trace_export True True
     (trace_calls [Call_begin ''frame'' 7 5000 1, Call_end ''frame'' 9000 1]
       (snd (lgx_trace_clear (trace_calls [Call_instant ''load'' 0 1 1] (snd (lgx_trace_enable True (snd (lgx_trace_init True True g_trace_system))))))))
   = Inr (trace_file [Call_begin ''frame'' 7 5000 1, Call_end ''frame'' 9000 1])"
proof -
  have i: "lgx_trace_init True True g_trace_system = (LGX_SUCCESS, snd (lgx_trace_init True True g_trace_system))"
    by (simp add: lgx_trace_init_def g_trace_system_def init_ring_buffer_def)
  show ?thesis
    by (rule trace_exact[OF i, THEN conjunct1]) (simp_all add: g_trace_system_def)
qed

text \<open>Names are written without escapes: a name with a quote ends its JSON string early.\<close>

lemma trace_name_not_escaped:
  "\<exists>pre post. event_json (event_of (Call_end [CHR 0x22] 0 0)) = pre @ [CHR 0x3A, CHR 0x20, CHR 0x22, CHR 0x22, CHR 0x22] @ post"
  by (rule exI[of _ "''    {'' @ nl @ ''      '' @ quote @ ''name'' @ quote"], rule exI)
    (simp add: event_json_def mk_event_def c_copy_def MAX_TRACE_NAME_LENGTH_def quote_def)

end
