(* ===== verification/Resource_Limits.thy ===== *)
theory Resource_Limits
  imports C_Text
begin

text \<open>
  Resource limits (\<^verbatim>\<open>src/runtime/lgx_resource_limits.c\<close>): budgets for memory, file handles and the rate of
  allocations, and the rotation of the log file. Byte counts and counters wrap at 64 bits. The clock, the success of a
  \<open>rename\<close> and the calls of \<open>setrlimit\<close> are arguments and results; the file system is a map from paths to contents.
\<close>

section \<open>State\<close>

definition DEFAULT_MAX_MEMORY_BYTES :: u64 where "DEFAULT_MAX_MEMORY_BYTES = 16 * 1024 * 1024 * 1024"
definition DEFAULT_MAX_FILE_HANDLES :: u64 where "DEFAULT_MAX_FILE_HANDLES = 1024"
definition DEFAULT_MAX_LOG_SIZE_BYTES :: u64 where "DEFAULT_MAX_LOG_SIZE_BYTES = 100 * 1024 * 1024"
definition DEFAULT_MAX_ALLOCATIONS_PER_SEC :: u64 where "DEFAULT_MAX_ALLOCATIONS_PER_SEC = 1000000"
definition RATE_LIMIT_WINDOW_NS :: u64 where "RATE_LIMIT_WINDOW_NS = 1000000000"

record lgx_resource_limits_config =
  lc_max_memory_bytes :: u64
  lc_max_file_handles :: u64
  lc_max_log_size_bytes :: u64
  lc_max_allocations_per_sec :: u64
  lc_log_file_path :: "string option"

record lgx_resource_limits =
  rl_initialized :: bool
  rl_max_memory_bytes :: u64
  rl_current_memory_bytes :: u64
  rl_peak_memory_bytes :: u64
  rl_max_file_handles :: u64
  rl_current_file_handles :: u64
  rl_max_log_size_bytes :: u64
  rl_current_log_size_bytes :: u64
  rl_log_file_path :: string
  rl_log_rotation_count :: nat
  rl_max_allocations_per_sec :: u64
  rl_allocation_count :: u64
  rl_last_reset_time_ns :: u64
  rl_rate_limit_violations :: u64
  rl_memory_limit_hits :: u64
  rl_file_handle_limit_hits :: u64
  rl_log_rotation_count_total :: u64

definition g_limits :: lgx_resource_limits where
  "g_limits = \<lparr>rl_initialized = False, rl_max_memory_bytes = 0, rl_current_memory_bytes = 0, rl_peak_memory_bytes = 0,
     rl_max_file_handles = 0, rl_current_file_handles = 0, rl_max_log_size_bytes = 0, rl_current_log_size_bytes = 0,
     rl_log_file_path = [], rl_log_rotation_count = 0, rl_max_allocations_per_sec = 0, rl_allocation_count = 0,
     rl_last_reset_time_ns = 0, rl_rate_limit_violations = 0, rl_memory_limit_hits = 0, rl_file_handle_limit_hits = 0,
     rl_log_rotation_count_total = 0\<rparr>"

section \<open>Initialisation\<close>

datatype setrlimit_call = RLIMIT_AS u64 | RLIMIT_NOFILE u64

definition limit_or :: "(lgx_resource_limits_config \<Rightarrow> u64) \<Rightarrow> u64 \<Rightarrow> lgx_resource_limits_config option \<Rightarrow> u64" where
  "limit_or f d config = (case config of None \<Rightarrow> d | Some c \<Rightarrow> if f c > 0 then f c else d)"

definition lgx_resource_limits_init ::
    "lgx_resource_limits_config option \<Rightarrow> u64 \<Rightarrow> lgx_resource_limits \<Rightarrow> lgx_result \<times> setrlimit_call list \<times> lgx_resource_limits" where
  "lgx_resource_limits_init config now s =
     (if rl_initialized s then (LGX_ERROR_ALREADY_INITIALIZED, [], s)
      else
        let mem = limit_or lc_max_memory_bytes DEFAULT_MAX_MEMORY_BYTES config;
            fh = limit_or lc_max_file_handles DEFAULT_MAX_FILE_HANDLES config;
            path = (case Option.bind config lc_log_file_path of
                      Some p \<Rightarrow> c_copy 256 p | None \<Rightarrow> ''/tmp/lgx_runtime.log'')
        in (LGX_SUCCESS,
            (if mem > 100 * 1024 * 1024 then [RLIMIT_AS mem] else []) @ (if fh > 256 then [RLIMIT_NOFILE fh] else []),
            \<lparr>rl_initialized = True, rl_max_memory_bytes = mem, rl_current_memory_bytes = 0, rl_peak_memory_bytes = 0,
             rl_max_file_handles = fh, rl_current_file_handles = 0,
             rl_max_log_size_bytes = limit_or lc_max_log_size_bytes DEFAULT_MAX_LOG_SIZE_BYTES config,
             rl_current_log_size_bytes = 0, rl_log_file_path = path, rl_log_rotation_count = 0,
             rl_max_allocations_per_sec = limit_or lc_max_allocations_per_sec DEFAULT_MAX_ALLOCATIONS_PER_SEC config,
             rl_allocation_count = 0, rl_last_reset_time_ns = now, rl_rate_limit_violations = 0, rl_memory_limit_hits = 0,
             rl_file_handle_limit_hits = 0, rl_log_rotation_count_total = 0\<rparr>))"

definition lgx_resource_limits_shutdown :: "lgx_resource_limits \<Rightarrow> lgx_result \<times> lgx_resource_limits" where
  "lgx_resource_limits_shutdown s =
     (if \<not> rl_initialized s then (LGX_ERROR_NOT_INITIALIZED, s) else (LGX_SUCCESS, s\<lparr>rl_initialized := False\<rparr>))"

section \<open>Memory\<close>

definition lgx_resource_limits_check_memory :: "u64 \<Rightarrow> lgx_resource_limits \<Rightarrow> bool \<times> lgx_resource_limits" where
  "lgx_resource_limits_check_memory n s =
     (if \<not> rl_initialized s then (True, s)
      else if rl_current_memory_bytes s + n > rl_max_memory_bytes s
           then (False, s\<lparr>rl_memory_limit_hits := rl_memory_limit_hits s + 1\<rparr>)
           else (True, s))"

definition lgx_resource_limits_track_allocation :: "u64 \<Rightarrow> lgx_resource_limits \<Rightarrow> lgx_resource_limits" where
  "lgx_resource_limits_track_allocation n s =
     (if \<not> rl_initialized s then s
      else
        let new_total = rl_current_memory_bytes s + n
        in s\<lparr>rl_current_memory_bytes := new_total,
             rl_peak_memory_bytes := (if new_total > rl_peak_memory_bytes s then new_total else rl_peak_memory_bytes s)\<rparr>)"

definition lgx_resource_limits_track_deallocation :: "u64 \<Rightarrow> lgx_resource_limits \<Rightarrow> lgx_resource_limits" where
  "lgx_resource_limits_track_deallocation n s =
     (if \<not> rl_initialized s then s else s\<lparr>rl_current_memory_bytes := rl_current_memory_bytes s - n\<rparr>)"

section \<open>Rate\<close>

definition lgx_resource_limits_check_allocation_rate :: "u64 \<Rightarrow> lgx_resource_limits \<Rightarrow> bool \<times> lgx_resource_limits" where
  "lgx_resource_limits_check_allocation_rate now s =
     (if \<not> rl_initialized s then (True, s)
      else
        let s = (if now - rl_last_reset_time_ns s \<ge> RATE_LIMIT_WINDOW_NS
                 then s\<lparr>rl_last_reset_time_ns := now, rl_allocation_count := 0\<rparr> else s);
            cnt = rl_allocation_count s + 1;
            s = s\<lparr>rl_allocation_count := cnt\<rparr>
        in if cnt > rl_max_allocations_per_sec s
           then (False, s\<lparr>rl_rate_limit_violations := rl_rate_limit_violations s + 1\<rparr>)
           else (True, s))"

section \<open>File handles\<close>

definition lgx_resource_limits_check_file_handle :: "lgx_resource_limits \<Rightarrow> bool \<times> lgx_resource_limits" where
  "lgx_resource_limits_check_file_handle s =
     (if \<not> rl_initialized s then (True, s)
      else if rl_current_file_handles s \<ge> rl_max_file_handles s
           then (False, s\<lparr>rl_file_handle_limit_hits := rl_file_handle_limit_hits s + 1\<rparr>)
           else (True, s))"

definition lgx_resource_limits_track_file_open :: "lgx_resource_limits \<Rightarrow> lgx_resource_limits" where
  "lgx_resource_limits_track_file_open s =
     (if \<not> rl_initialized s then s else s\<lparr>rl_current_file_handles := rl_current_file_handles s + 1\<rparr>)"

definition lgx_resource_limits_track_file_close :: "lgx_resource_limits \<Rightarrow> lgx_resource_limits" where
  "lgx_resource_limits_track_file_close s =
     (if \<not> rl_initialized s then s else s\<lparr>rl_current_file_handles := rl_current_file_handles s - 1\<rparr>)"

section \<open>The log\<close>

definition lgx_resource_limits_check_log_rotation :: "u64 \<Rightarrow> lgx_resource_limits \<Rightarrow> bool" where
  "lgx_resource_limits_check_log_rotation n s =
     (rl_initialized s \<and> rl_current_log_size_bytes s + n > rl_max_log_size_bytes s)"

definition rotated_path :: "string \<Rightarrow> nat \<Rightarrow> string" where
  "rotated_path p n = p @ ''.'' @ dec n"

text \<open>
  \<open>rename\<close> fails when there is no log file; \<open>rename_ok\<close> is False when it fails for another reason. Removing an
  old file may fail without notice.
\<close>

definition lgx_resource_limits_rotate_log ::
    "bool \<Rightarrow> lgx_resource_limits \<times> (string \<rightharpoonup> 'a) \<Rightarrow> lgx_result \<times> lgx_resource_limits \<times> (string \<rightharpoonup> 'a)" where
  "lgx_resource_limits_rotate_log rename_ok sf =
     (case sf of (s, fs) \<Rightarrow>
        if \<not> rl_initialized s then (LGX_ERROR_NOT_INITIALIZED, s, fs)
        else
          (case fs (rl_log_file_path s) of
             None \<Rightarrow> (LGX_ERROR_IO_ERROR, s, fs)
           | Some v \<Rightarrow>
               if \<not> rename_ok then (LGX_ERROR_IO_ERROR, s, fs)
               else
                 let p = rl_log_file_path s;
                     fs = (fs(p := None))(rotated_path p (rl_log_rotation_count s) \<mapsto> v);
                     s = s\<lparr>rl_current_log_size_bytes := 0, rl_log_rotation_count := rl_log_rotation_count s + 1,
                           rl_log_rotation_count_total := rl_log_rotation_count_total s + 1\<rparr>
                 in (LGX_SUCCESS, s,
                     if rl_log_rotation_count s > 5 then fs(rotated_path p (rl_log_rotation_count s - 5) := None) else fs)))"

definition lgx_resource_limits_track_log_write :: "u64 \<Rightarrow> lgx_resource_limits \<Rightarrow> lgx_resource_limits" where
  "lgx_resource_limits_track_log_write n s =
     (if \<not> rl_initialized s then s else s\<lparr>rl_current_log_size_bytes := rl_current_log_size_bytes s + n\<rparr>)"

section \<open>Statistics\<close>

record lgx_resource_limits_stats =
  rs_current_memory_bytes :: u64
  rs_peak_memory_bytes :: u64
  rs_max_memory_bytes :: u64
  rs_memory_limit_hits :: u64
  rs_current_file_handles :: u64
  rs_max_file_handles :: u64
  rs_file_handle_limit_hits :: u64
  rs_current_log_size_bytes :: u64
  rs_max_log_size_bytes :: u64
  rs_log_rotation_count :: u64
  rs_allocation_count :: u64
  rs_max_allocations_per_sec :: u64
  rs_rate_limit_violations :: u64

definition lgx_resource_limits_get_stats :: "lgx_resource_limits \<Rightarrow> lgx_result + lgx_resource_limits_stats" where
  "lgx_resource_limits_get_stats s =
     (if \<not> rl_initialized s then Inl LGX_ERROR_NOT_INITIALIZED
      else Inr \<lparr>rs_current_memory_bytes = rl_current_memory_bytes s, rs_peak_memory_bytes = rl_peak_memory_bytes s,
                rs_max_memory_bytes = rl_max_memory_bytes s, rs_memory_limit_hits = rl_memory_limit_hits s,
                rs_current_file_handles = rl_current_file_handles s, rs_max_file_handles = rl_max_file_handles s,
                rs_file_handle_limit_hits = rl_file_handle_limit_hits s,
                rs_current_log_size_bytes = rl_current_log_size_bytes s, rs_max_log_size_bytes = rl_max_log_size_bytes s,
                rs_log_rotation_count = rl_log_rotation_count_total s, rs_allocation_count = rl_allocation_count s,
                rs_max_allocations_per_sec = rl_max_allocations_per_sec s, rs_rate_limit_violations = rl_rate_limit_violations s\<rparr>)"

definition lgx_resource_limits_reset_stats :: "lgx_resource_limits \<Rightarrow> lgx_result \<times> lgx_resource_limits" where
  "lgx_resource_limits_reset_stats s =
     (if \<not> rl_initialized s then (LGX_ERROR_NOT_INITIALIZED, s)
      else (LGX_SUCCESS, s\<lparr>rl_peak_memory_bytes := rl_current_memory_bytes s, rl_memory_limit_hits := 0,
              rl_file_handle_limit_hits := 0, rl_rate_limit_violations := 0\<rparr>))"

section \<open>Clients that ask first\<close>

text \<open>
  Clients check, and track what they allocate and open only after a check that agreed; they give back only what they have. Between the check and the
  tracking of one client others may do anything: \<open>G\<close> are the sizes that were granted and are not tracked yet, at most \<open>k\<close> at a time and none
  above \<open>m\<close>, and \<open>gf\<close> is the number of granted files. \<open>LV\<close> are the sizes of the tracked allocations, \<open>fh\<close> the open files and \<open>pk\<close> the largest
  number of bytes tracked at once. Each call is one step.
\<close>

inductive limits_run ::
    "lgx_resource_limits_config option \<Rightarrow> nat \<Rightarrow> u64 \<Rightarrow> lgx_resource_limits \<Rightarrow> u64 list \<Rightarrow> u64 list \<Rightarrow> nat \<Rightarrow> nat \<Rightarrow> nat \<Rightarrow> bool" for cfg k m where
  lr_init: "lgx_resource_limits_init cfg now g_limits = (LGX_SUCCESS, sys, s) \<Longrightarrow> limits_run cfg k m s [] [] 0 0 0"
| lr_check: "limits_run cfg k m s G LV gf fh pk \<Longrightarrow> lgx_resource_limits_check_memory n s = (True, s') \<Longrightarrow> n \<le> m \<Longrightarrow> length G < k \<Longrightarrow>
     limits_run cfg k m s' (n # G) LV gf fh pk"
| lr_track: "limits_run cfg k m s G LV gf fh pk \<Longrightarrow> n \<in> set G \<Longrightarrow>
     limits_run cfg k m (lgx_resource_limits_track_allocation n s) (remove1 n G) (n # LV) gf fh (max pk (sum_list (map unat (n # LV))))"
| lr_refused: "limits_run cfg k m s G LV gf fh pk \<Longrightarrow> lgx_resource_limits_check_memory n s = (False, s') \<Longrightarrow> limits_run cfg k m s' G LV gf fh pk"
| lr_give_up: "limits_run cfg k m s G LV gf fh pk \<Longrightarrow> n \<in> set G \<Longrightarrow> limits_run cfg k m s (remove1 n G) LV gf fh pk"
| lr_free: "limits_run cfg k m s G LV gf fh pk \<Longrightarrow> n \<in> set LV \<Longrightarrow>
     limits_run cfg k m (lgx_resource_limits_track_deallocation n s) G (remove1 n LV) gf fh pk"
| lr_check_file: "limits_run cfg k m s G LV gf fh pk \<Longrightarrow> lgx_resource_limits_check_file_handle s = (True, s') \<Longrightarrow> gf < k \<Longrightarrow>
     limits_run cfg k m s' G LV (Suc gf) fh pk"
| lr_open: "limits_run cfg k m s G LV (Suc gf) fh pk \<Longrightarrow> limits_run cfg k m (lgx_resource_limits_track_file_open s) G LV gf (Suc fh) pk"
| lr_no_open: "limits_run cfg k m s G LV gf fh pk \<Longrightarrow> lgx_resource_limits_check_file_handle s = (False, s') \<Longrightarrow> limits_run cfg k m s' G LV gf fh pk"
| lr_close: "limits_run cfg k m s G LV gf (Suc fh) pk \<Longrightarrow> limits_run cfg k m (lgx_resource_limits_track_file_close s) G LV gf fh pk"
| lr_rate: "limits_run cfg k m s G LV gf fh pk \<Longrightarrow> lgx_resource_limits_check_allocation_rate now s = (b, s') \<Longrightarrow> limits_run cfg k m s' G LV gf fh pk"
| lr_log: "limits_run cfg k m s G LV gf fh pk \<Longrightarrow> limits_run cfg k m (lgx_resource_limits_track_log_write n s) G LV gf fh pk"

abbreviation bytes_of :: "u64 list \<Rightarrow> nat" where "bytes_of xs \<equiv> sum_list (map unat xs)"

abbreviation memory_limit :: "lgx_resource_limits_config option \<Rightarrow> u64" where
  "memory_limit cfg \<equiv> limit_or lc_max_memory_bytes DEFAULT_MAX_MEMORY_BYTES cfg"

abbreviation file_limit :: "lgx_resource_limits_config option \<Rightarrow> u64" where
  "file_limit cfg \<equiv> limit_or lc_max_file_handles DEFAULT_MAX_FILE_HANDLES cfg"

text \<open>The limits and the slack leave room in 64 bits.\<close>

definition limits_fit :: "lgx_resource_limits_config option \<Rightarrow> nat \<Rightarrow> u64 \<Rightarrow> bool" where
  "limits_fit cfg k m \<longleftrightarrow> 0 < k \<and> unat (memory_limit cfg) + k * unat m < 2 ^ 64 \<and> unat (file_limit cfg) + k < 2 ^ 64"

definition limits_inv ::
    "lgx_resource_limits_config option \<Rightarrow> nat \<Rightarrow> u64 \<Rightarrow> lgx_resource_limits \<Rightarrow> u64 list \<Rightarrow> u64 list \<Rightarrow> nat \<Rightarrow> nat \<Rightarrow> nat \<Rightarrow> bool" where
  "limits_inv cfg k m s G LV gf fh pk \<longleftrightarrow> rl_initialized s \<and>
     rl_max_memory_bytes s = memory_limit cfg \<and> rl_max_file_handles s = file_limit cfg \<and>
     unat (rl_current_memory_bytes s) = bytes_of LV \<and> bytes_of LV + bytes_of G \<le> unat (memory_limit cfg) + (k - 1) * unat m \<and>
     unat (rl_current_file_handles s) = fh \<and> fh + gf \<le> unat (file_limit cfg) + (k - 1) \<and>
     unat (rl_peak_memory_bytes s) = pk \<and> bytes_of LV \<le> pk \<and> (\<forall>n\<in>set G. n \<le> m)"

lemma total_le: "(\<forall>n\<in>set G. n \<le> m) \<Longrightarrow> bytes_of G \<le> length G * unat m"
  by (induction G) (auto simp: word_le_nat_alt)

lemma total_remove1: "n \<in> set G \<Longrightarrow> bytes_of G = unat n + bytes_of (remove1 n G)"
  by (rule sum_list_map_remove1)

lemma limits_check_inv:
  assumes inv: "limits_inv cfg k m s G LV gf fh pk" and c: "lgx_resource_limits_check_memory n s = (True, s')"
    and n: "n \<le> m" and g: "length G < k" and fit: "limits_fit cfg k m"
  shows "limits_inv cfg k m s' (n # G) LV gf fh pk"
proof -
  have s': "s' = s" and le: "rl_current_memory_bytes s + n \<le> memory_limit cfg"
    using c inv by (auto simp: lgx_resource_limits_check_memory_def limits_inv_def split: if_splits)
  have kk: "k * unat m = (k - 1) * unat m + unat m" using fit by (cases k) (auto simp: limits_fit_def)
  have "bytes_of LV + unat n \<le> unat (memory_limit cfg) + (k - 1) * unat m + unat m"
    using inv n by (auto simp: limits_inv_def word_le_nat_alt)
  then have "bytes_of LV + unat n < 2 ^ 64" using fit kk by (auto simp: limits_fit_def)
  then have "unat (rl_current_memory_bytes s + n) = bytes_of LV + unat n" using inv by (simp add: limits_inv_def unat_word_ariths)
  then have "bytes_of LV + unat n \<le> unat (memory_limit cfg)" using le by (simp add: word_le_nat_alt)
  moreover have "bytes_of G \<le> (k - 1) * unat m"
  proof -
    have "bytes_of G \<le> length G * unat m" using inv by (intro total_le) (simp add: limits_inv_def)
    also have "\<dots> \<le> (k - 1) * unat m" using g by (intro mult_le_mono1) simp
    finally show ?thesis .
  qed
  ultimately show ?thesis using inv s' n by (simp add: limits_inv_def)
qed

lemma limits_track_inv:
  assumes inv: "limits_inv cfg k m s G LV gf fh pk" and n: "n \<in> set G" and fit: "limits_fit cfg k m"
  shows "limits_inv cfg k m (lgx_resource_limits_track_allocation n s) (remove1 n G) (n # LV) gf fh (max pk (bytes_of (n # LV)))"
proof -
  have t: "bytes_of G = unat n + bytes_of (remove1 n G)" by (rule total_remove1[OF n])
  have "(k - 1) * unat m \<le> k * unat m" by (intro mult_le_mono1) simp
  moreover have "bytes_of LV + unat n \<le> unat (memory_limit cfg) + (k - 1) * unat m" using inv t by (simp add: limits_inv_def)
  moreover have "unat (memory_limit cfg) + k * unat m < 2 ^ 64" using fit by (simp add: limits_fit_def)
  ultimately have "bytes_of LV + unat n < 2 ^ 64" by linarith
  then have u: "unat (rl_current_memory_bytes s + n) = bytes_of LV + unat n" using inv by (simp add: limits_inv_def unat_word_ariths)
  then show ?thesis using inv t
    by (auto simp: limits_inv_def lgx_resource_limits_track_allocation_def Let_def word_less_nat_alt max_def dest: notin_set_remove1)
qed

lemma limits_free_inv:
  assumes inv: "limits_inv cfg k m s G LV gf fh pk" and n: "n \<in> set LV"
  shows "limits_inv cfg k m (lgx_resource_limits_track_deallocation n s) G (remove1 n LV) gf fh pk"
proof -
  have sum: "bytes_of LV = unat n + bytes_of (remove1 n LV)" by (rule total_remove1[OF n])
  then have "n \<le> rl_current_memory_bytes s" using inv by (simp add: limits_inv_def word_le_nat_alt)
  then have "unat (rl_current_memory_bytes s - n) = bytes_of (remove1 n LV)" using sum inv by (simp add: unat_sub limits_inv_def)
  then show ?thesis using inv sum by (auto simp: limits_inv_def lgx_resource_limits_track_deallocation_def)
qed

lemma limits_open_inv:
  assumes inv: "limits_inv cfg k m s G LV (Suc gf) fh pk" and fit: "limits_fit cfg k m"
  shows "limits_inv cfg k m (lgx_resource_limits_track_file_open s) G LV gf (Suc fh) pk"
proof -
  have "fh + 1 < 2 ^ 64" using inv fit by (auto simp: limits_inv_def limits_fit_def)
  then have "unat (rl_current_file_handles s + 1) = Suc fh" using inv by (simp add: limits_inv_def unat_word_ariths)
  then show ?thesis using inv by (simp add: limits_inv_def lgx_resource_limits_track_file_open_def)
qed

lemma limits_close_inv:
  assumes inv: "limits_inv cfg k m s G LV gf (Suc fh) pk"
  shows "limits_inv cfg k m (lgx_resource_limits_track_file_close s) G LV gf fh pk"
proof -
  have "1 \<le> rl_current_file_handles s" using inv by (simp add: limits_inv_def word_le_nat_alt)
  then have "unat (rl_current_file_handles s - 1) = unat (rl_current_file_handles s) - 1" by (simp add: unat_sub)
  then show ?thesis using inv by (auto simp: limits_inv_def lgx_resource_limits_track_file_close_def)
qed

lemma limits_run_inv:
  assumes "limits_run cfg k m s G LV gf fh pk" and fit: "limits_fit cfg k m"
  shows "limits_inv cfg k m s G LV gf fh pk"
  using assms(1)
proof induction
  case lr_init
  then show ?case by (auto simp: lgx_resource_limits_init_def g_limits_def Let_def limits_inv_def)
next
  case lr_check
  then show ?case using limits_check_inv fit by blast
next
  case lr_track
  then show ?case using limits_track_inv fit by blast
next
  case (lr_refused s G LV gf fh pk n s')
  then show ?case by (auto simp: limits_inv_def lgx_resource_limits_check_memory_def split: if_splits)
next
  case (lr_give_up s G LV gf fh pk n)
  then show ?case using total_remove1[of n G] by (auto simp: limits_inv_def dest: notin_set_remove1)
next
  case lr_free
  then show ?case by (blast intro: limits_free_inv)
next
  case (lr_check_file s G LV gf fh pk s')
  then show ?case using fit
    by (auto simp: limits_inv_def limits_fit_def lgx_resource_limits_check_file_handle_def word_le_nat_alt split: if_splits)
next
  case lr_open
  then show ?case using limits_open_inv fit by blast
next
  case (lr_no_open s G LV gf fh pk s')
  then show ?case by (auto simp: limits_inv_def lgx_resource_limits_check_file_handle_def split: if_splits)
next
  case lr_close
  then show ?case by (blast intro: limits_close_inv)
next
  case (lr_rate s G LV gf fh pk now b s')
  then show ?case by (auto simp: limits_inv_def lgx_resource_limits_check_allocation_rate_def Let_def split: if_splits)
next
  case (lr_log s G LV gf fh pk n)
  then show ?case by (auto simp: limits_inv_def lgx_resource_limits_track_log_write_def)
qed

text \<open>
  C24. The limits hold up to what is in flight: for clients that track only what a check has granted, with calls of any threads in any order, each
  call one step, and at most \<open>k\<close> grants of at most \<open>m\<close> bytes outstanding at a time, the tracked and granted bytes together never exceed the memory
  limit by more than \<open>k - 1\<close> requests of \<open>m\<close> bytes, and open and granted files never their limit by more than \<open>k - 1\<close>; so with one
  grant at a time the limits are never exceeded. The statistics report exactly the tracked bytes, the largest amount of them, and the open files. The sums of
  the limits and the slack are assumed to be below \<open>2 ^ 64\<close>.
\<close>

theorem limits_enforced:
  assumes run: "limits_run cfg k m s G LV gf fh pk" and fit: "limits_fit cfg k m"
  shows "bytes_of LV + bytes_of G \<le> unat (memory_limit cfg) + (k - 1) * unat m \<and> fh + gf \<le> unat (file_limit cfg) + (k - 1) \<and>
    (\<exists>st. lgx_resource_limits_get_stats s = Inr st \<and> unat (rs_current_memory_bytes st) = bytes_of LV \<and>
      unat (rs_peak_memory_bytes st) = pk \<and> bytes_of LV \<le> pk \<and> unat (rs_current_file_handles st) = fh)"
  using limits_run_inv[OF run fit] unfolding limits_inv_def by (auto simp: lgx_resource_limits_get_stats_def)

definition small_limits :: lgx_resource_limits_config where
  "small_limits = \<lparr>lc_max_memory_bytes = 100, lc_max_file_handles = 2, lc_max_log_size_bytes = 0,
     lc_max_allocations_per_sec = 0, lc_log_file_path = None\<rparr>"

definition limits_start :: lgx_resource_limits where
  "limits_start = snd (snd (lgx_resource_limits_init (Some small_limits) 0 g_limits))"

lemma limits_start_run: "limits_run (Some small_limits) k m limits_start [] [] 0 0 0"
proof (rule lr_init[of _ 0 "fst (snd (lgx_resource_limits_init (Some small_limits) 0 g_limits))"])
  show "lgx_resource_limits_init (Some small_limits) 0 g_limits =
      (LGX_SUCCESS, fst (snd (lgx_resource_limits_init (Some small_limits) 0 g_limits)), limits_start)"
    by (simp add: limits_start_def lgx_resource_limits_init_def g_limits_def Let_def)
qed

lemma small_check: "lgx_resource_limits_check_memory 60 limits_start = (True, limits_start)"
  by (simp add: lgx_resource_limits_check_memory_def limits_start_def lgx_resource_limits_init_def g_limits_def Let_def
      limit_or_def small_limits_def)

theorem limits_enforced_witness:
  "\<exists>s. limits_run (Some small_limits) 1 60 s [] [60] 0 0 60 \<and> bytes_of [60] \<le> 100"
proof -
  have "limits_run (Some small_limits) 1 60 limits_start [60] [] 0 0 0" by (rule lr_check[OF limits_start_run small_check]) simp_all
  from lr_track[OF this, of 60]
  have r: "limits_run (Some small_limits) 1 60 (lgx_resource_limits_track_allocation 60 limits_start) [] [60] 0 0 60" by simp
  moreover have "limits_fit (Some small_limits) 1 60" "unat (memory_limit (Some small_limits)) = 100"
    by (simp_all add: limits_fit_def limit_or_def small_limits_def)
  ultimately show ?thesis using limits_enforced[OF r] by auto
qed

text \<open>
  The sum in the check wraps: a request near the end of the address space passes it. And with two grants at a time the limit is indeed
  exceeded: two clients both ask before either tracks.
\<close>

lemma memory_check_wraps:
  "rl_initialized s \<Longrightarrow> rl_current_memory_bytes s = 16 \<Longrightarrow> rl_max_memory_bytes s = 100 \<Longrightarrow>
     lgx_resource_limits_check_memory (- 8) s = (True, s)"
  by (simp add: lgx_resource_limits_check_memory_def)

lemma two_checks_exceed:
  "\<exists>s. lgx_resource_limits_check_memory 60 limits_start = (True, s) \<and> lgx_resource_limits_check_memory 60 s = (True, s) \<and>
     rl_current_memory_bytes (lgx_resource_limits_track_allocation 60 (lgx_resource_limits_track_allocation 60 s)) > rl_max_memory_bytes s"
  by (simp add: lgx_resource_limits_check_memory_def lgx_resource_limits_track_allocation_def limits_start_def
      lgx_resource_limits_init_def g_limits_def Let_def limit_or_def small_limits_def)

section \<open>One window of the rate limit\<close>

fun rate_checks :: "u64 list \<Rightarrow> lgx_resource_limits \<Rightarrow> bool list" where
  "rate_checks [] s = []"
| "rate_checks (t # ts) s = (case lgx_resource_limits_check_allocation_rate t s of (b, s) \<Rightarrow> b # rate_checks ts s)"

text \<open>
  Within one window the first checks succeed, as many as the limit says, and the others fail.
\<close>

lemma rate_window:
  assumes "rl_initialized s" "\<And>t. t \<in> set ts \<Longrightarrow> t - rl_last_reset_time_ns s < RATE_LIMIT_WINDOW_NS"
    "unat (rl_allocation_count s) = k" "k + length ts < 2 ^ 64"
  shows "rate_checks ts s = map (\<lambda>i. i < unat (rl_max_allocations_per_sec s)) [k..<k + length ts]"
  using assms
proof (induction ts arbitrary: s k)
  case (Cons t ts)
  let ?s = "s\<lparr>rl_allocation_count := rl_allocation_count s + 1\<rparr>"
  have k: "unat (rl_allocation_count s + 1) = k + 1" using Cons.prems(3,4) by (simp add: unat_word_ariths)
  have w: "\<not> t - rl_last_reset_time_ns s \<ge> RATE_LIMIT_WINDOW_NS" using Cons.prems(2)[of t] by simp
  define s1 where "s1 = snd (lgx_resource_limits_check_allocation_rate t s)"
  have c: "lgx_resource_limits_check_allocation_rate t s = (k < unat (rl_max_allocations_per_sec s), s1)"
    using Cons.prems(1) w k by (auto simp: s1_def lgx_resource_limits_check_allocation_rate_def Let_def word_less_nat_alt)
  have f: "rl_initialized s1" "rl_last_reset_time_ns s1 = rl_last_reset_time_ns s" "unat (rl_allocation_count s1) = k + 1"
    "rl_max_allocations_per_sec s1 = rl_max_allocations_per_sec s"
    using Cons.prems(1) w k by (auto simp: s1_def lgx_resource_limits_check_allocation_rate_def Let_def)
  have "rate_checks ts s1 = map (\<lambda>i. i < unat (rl_max_allocations_per_sec s1)) [k + 1..<k + 1 + length ts]"
    by (rule Cons.IH) (use f Cons.prems in auto)
  moreover have "[k..<k + length (t # ts)] = k # [k + 1..<k + 1 + length ts]" by (simp add: upt_rec)
  ultimately show ?case using c f(4) by simp
qed simp

section \<open>Which rotated logs are kept\<close>

text \<open>Each round writes a log and rotates it.\<close>

fun log_rounds :: "'a list \<Rightarrow> lgx_resource_limits \<times> (string \<rightharpoonup> 'a) \<Rightarrow> lgx_resource_limits \<times> (string \<rightharpoonup> 'a)" where
  "log_rounds [] sf = sf"
| "log_rounds (v # vs) sf =
     (case sf of (s, fs) \<Rightarrow> log_rounds vs (snd (lgx_resource_limits_rotate_log True (s, fs(rl_log_file_path s \<mapsto> v)))))"

lemma rotated_path_inj [simp]: "rotated_path p m = rotated_path p n \<longleftrightarrow> m = n"
  by (simp add: rotated_path_def dec_inj)

lemma rotated_path_ne [simp]: "rotated_path p n \<noteq> p"
  by (simp add: rotated_path_def)

definition kept :: "nat \<Rightarrow> nat \<Rightarrow> bool" where
  "kept n k \<longleftrightarrow> k < n \<and> (n \<le> 5 \<or> k = 0 \<or> n < k + 5)"

definition rotated_inv :: "string \<Rightarrow> 'a list \<Rightarrow> lgx_resource_limits \<times> (string \<rightharpoonup> 'a) \<Rightarrow> bool" where
  "rotated_inv p vs sf \<longleftrightarrow> rl_initialized (fst sf) \<and> rl_log_file_path (fst sf) = p \<and> rl_log_rotation_count (fst sf) = length vs \<and>
     (\<forall>k. snd sf (rotated_path p k) = (if kept (length vs) k then Some (vs ! k) else None))"

lemma rotate_inv:
  assumes inv: "rotated_inv p vs (s, fs)"
  shows "rotated_inv p (vs @ [v]) (snd (lgx_resource_limits_rotate_log True (s, fs(p \<mapsto> v))))"
proof -
  let ?n = "length vs"
  have path: "rl_log_file_path s = p" "rl_initialized s" "rl_log_rotation_count s = ?n"
    and fs: "\<And>k. fs (rotated_path p k) = (if kept ?n k then Some (vs ! k) else None)" using inv by (auto simp: rotated_inv_def)
  define fs1 where "fs1 = ((fs(p \<mapsto> v))(p := None))(rotated_path p ?n \<mapsto> v)"
  define fs2 where "fs2 = (if ?n + 1 > 5 then fs1(rotated_path p (?n + 1 - 5) := None) else fs1)"
  have r: "\<exists>s'. lgx_resource_limits_rotate_log True (s, fs(p \<mapsto> v)) = (LGX_SUCCESS, s', fs2) \<and>
      rl_initialized s' \<and> rl_log_file_path s' = p \<and> rl_log_rotation_count s' = ?n + 1"
    using path by (simp add: lgx_resource_limits_rotate_log_def Let_def fs1_def fs2_def)
  have f1: "fs1 (rotated_path p k) = (if k = ?n then Some v else if kept ?n k then Some (vs ! k) else None)" for k
    by (simp add: fs1_def fs)
  have "fs2 (rotated_path p k) = (if kept (?n + 1) k then Some ((vs @ [v]) ! k) else None)" for k
    by (auto simp: fs2_def f1 kept_def nth_append)
  then show ?thesis using r by (auto simp: rotated_inv_def)
qed

lemma log_rounds_inv: "rotated_inv p us sf \<Longrightarrow> rotated_inv p (us @ vs) (log_rounds vs sf)"
proof (induction vs arbitrary: us sf)
  case (Cons v vs)
  obtain s fs where sf: "sf = (s, fs)" by fastforce
  have "rl_log_file_path s = p" using Cons.prems sf by (simp add: rotated_inv_def)
  then show ?case using Cons.IH[OF rotate_inv[OF Cons.prems[unfolded sf], of v]] sf by simp
qed simp

text \<open>
  Which logs a rotation keeps: of the logs of \<open>n\<close> rounds, all are kept up to the fifth round; from the sixth on the kept logs
  are the very first one and the last four. The comment in the code promises the last five.
\<close>

theorem log_rotation_keeps:
  assumes "lgx_resource_limits_init cfg now g_limits = (LGX_SUCCESS, sys, s)"
    and "\<forall>k. fs (rotated_path (rl_log_file_path s) k) = None"
  shows "\<forall>k. snd (log_rounds vs (s, fs)) (rotated_path (rl_log_file_path s) k) =
    (if k < length vs \<and> (length vs \<le> 5 \<or> k = 0 \<or> length vs < k + 5) then Some (vs ! k) else None)"
proof -
  have "rotated_inv (rl_log_file_path s) [] (s, fs)"
    using assms by (auto simp: rotated_inv_def kept_def lgx_resource_limits_init_def g_limits_def Let_def)
  then have "rotated_inv (rl_log_file_path s) vs (log_rounds vs (s, fs))" using log_rounds_inv[of _ "[]" _ vs] by simp
  then show ?thesis by (simp add: rotated_inv_def kept_def)
qed

theorem log_rotation_keeps_witness:
  "snd (log_rounds [1, 2, 3, 4, 5, 6 :: nat] (limits_start, Map.empty)) (rotated_path (rl_log_file_path limits_start) 0) = Some 1 \<and>
   snd (log_rounds [1, 2, 3, 4, 5, 6 :: nat] (limits_start, Map.empty)) (rotated_path (rl_log_file_path limits_start) 1) = None"
proof -
  have i: "lgx_resource_limits_init (Some small_limits) 0 g_limits =
      (LGX_SUCCESS, fst (snd (lgx_resource_limits_init (Some small_limits) 0 g_limits)), limits_start)"
    by (simp add: limits_start_def lgx_resource_limits_init_def g_limits_def Let_def)
  show ?thesis using log_rotation_keeps[OF i, of Map.empty "[1, 2, 3, 4, 5, 6 :: nat]"] by (simp del: log_rounds.simps)
qed

end
