(* ===== verification/Input_Validation.thy ===== *)
theory Input_Validation
  imports C_Text
begin

text \<open>
  Input validation (\<^verbatim>\<open>src/runtime/lgx_input_validation.c\<close>): the checks of the arguments of the API. A pointer that may be
  \<open>NULL\<close> is an option, an enum argument any integer, since the caller may pass one. The log messages, and
  \<open>lgx_validation_get_limits\<close> that only prints the limits, are left out.
\<close>

unbundle bit_operations_syntax

section \<open>The checks\<close>

definition LGX_MAX_STRING_LENGTH :: nat where "LGX_MAX_STRING_LENGTH = 4096"
definition LGX_MAX_PATH_LENGTH :: u64 where "LGX_MAX_PATH_LENGTH = 4096"
definition LGX_MAX_ALLOCATION_SIZE :: u64 where "LGX_MAX_ALLOCATION_SIZE = 16 * 1024 * 1024 * 1024"
definition LGX_MIN_ALIGNMENT :: u64 where "LGX_MIN_ALIGNMENT = 1"
definition LGX_MAX_ALIGNMENT :: u64 where "LGX_MAX_ALIGNMENT = 1024 * 1024"
definition LGX_MAX_BUFFER_SIZE :: u64 where "LGX_MAX_BUFFER_SIZE = 1024 * 1024 * 1024"

definition lgx_validate_pointer :: "'a option \<Rightarrow> bool" where
  "lgx_validate_pointer ptr = (if ptr = None then False else True)"

definition lgx_validate_size :: "u64 \<Rightarrow> u64 \<Rightarrow> u64 \<Rightarrow> bool" where
  "lgx_validate_size n min_size max_size = (if n < min_size then False else if n > max_size then False else True)"

definition lgx_validate_allocation_size :: "u64 \<Rightarrow> bool" where
  "lgx_validate_allocation_size n = (if n = 0 then False else if n > LGX_MAX_ALLOCATION_SIZE then False else True)"

definition lgx_validate_alignment :: "u64 \<Rightarrow> bool" where
  "lgx_validate_alignment a =
     (if a = 0 then False
      else if a < LGX_MIN_ALIGNMENT then False
      else if a > LGX_MAX_ALIGNMENT then False
      else if a AND (a - 1) \<noteq> 0 then False else True)"

definition strnlen :: "string \<Rightarrow> u64 \<Rightarrow> u64" where
  "strnlen s n = (if length s < unat n then of_nat (length s) else n)"

definition lgx_validate_string :: "string option \<Rightarrow> u64 \<Rightarrow> bool" where
  "lgx_validate_string str max_length =
     (case str of None \<Rightarrow> False | Some s \<Rightarrow> if strnlen s (max_length + 1) > max_length then False else True)"

text \<open>The bytes of the source with its terminator; \<open>memcpy\<close> overwrites the first bytes of the destination.\<close>

definition c_bytes :: "string \<Rightarrow> string" where "c_bytes s = s @ [CHR 0x00]"

definition memcpy :: "string \<Rightarrow> string \<Rightarrow> nat \<Rightarrow> string" where
  "memcpy dst src n = take n src @ drop n dst"

definition lgx_validate_and_truncate_string :: "string option \<Rightarrow> string option \<Rightarrow> u64 \<Rightarrow> bool \<times> string option" where
  "lgx_validate_and_truncate_string src dst dst_size =
     (case (src, dst) of
        (Some s, Some d) \<Rightarrow>
          if dst_size = 0 then (False, dst)
          else
            let src_len = strnlen s dst_size
            in if src_len \<ge> dst_size
               then (True, Some ((memcpy d (c_bytes s) (unat dst_size - 1))[unat dst_size - 1 := CHR 0x00]))
               else (True, Some (memcpy d (c_bytes s) (unat src_len + 1)))
      | _ \<Rightarrow> (False, dst))"

text \<open>\<open>strstr (path, "..") != NULL\<close>\<close>

fun has_dots :: "string \<Rightarrow> bool" where
  "has_dots (a # b # cs) = (a = CHR ''.'' \<and> b = CHR ''.'' \<or> has_dots (b # cs))"
| "has_dots _ = False"

definition lgx_validate_path :: "string option \<Rightarrow> bool" where
  "lgx_validate_path path =
     (if \<not> lgx_validate_string path LGX_MAX_PATH_LENGTH then False
      else if has_dots (the path) then False
      else if list_ex (\<lambda>c. c = CHR 0x00) (the path) then False else True)"

definition lgx_validate_enum :: "int \<Rightarrow> int \<Rightarrow> int \<Rightarrow> bool" where
  "lgx_validate_enum v min_value max_value = (if v < min_value \<or> v > max_value then False else True)"

definition lgx_validate_buffer :: "'a option \<Rightarrow> u64 \<Rightarrow> bool" where
  "lgx_validate_buffer buffer n = (if \<not> lgx_validate_pointer buffer then False else if \<not> lgx_validate_size n 1 LGX_MAX_BUFFER_SIZE then False else True)"

definition lgx_validate_struct_size :: "u64 \<Rightarrow> u64 \<Rightarrow> bool" where
  "lgx_validate_struct_size provided_size expected_size = (if provided_size < expected_size then False else True)"

definition lgx_validate_capability :: "int \<Rightarrow> bool" where "lgx_validate_capability c = lgx_validate_enum c 0 9"
definition lgx_validate_log_level :: "int \<Rightarrow> bool" where "lgx_validate_log_level l = lgx_validate_enum l 0 3"
definition lgx_validate_access_pattern :: "int \<Rightarrow> bool" where "lgx_validate_access_pattern p = lgx_validate_enum p 0 3"
definition lgx_validate_lifetime :: "int \<Rightarrow> bool" where "lgx_validate_lifetime l = lgx_validate_enum l 0 3"
definition lgx_validate_performance_hint :: "int \<Rightarrow> bool" where "lgx_validate_performance_hint h = lgx_validate_enum h 0 4"

record raw_intent =
  ri_struct_size :: u64
  ri_size :: u64
  ri_access_pattern :: int
  ri_lifetime :: int
  ri_hint :: int

definition lgx_validate_allocation_intent :: "raw_intent option \<Rightarrow> bool" where
  "lgx_validate_allocation_intent intent =
     (case intent of
        None \<Rightarrow> False
      | Some it \<Rightarrow>
          if \<not> lgx_validate_struct_size (ri_struct_size it) 32 then False
          else if \<not> lgx_validate_allocation_size (ri_size it) then False
          else if \<not> lgx_validate_access_pattern (ri_access_pattern it) then False
          else if \<not> lgx_validate_lifetime (ri_lifetime it) then False
          else if \<not> lgx_validate_performance_hint (ri_hint it) then False
          else True)"

definition lgx_validate_runtime_config :: "(u64 \<times> string option) option \<Rightarrow> bool" where
  "lgx_validate_runtime_config config =
     (case config of
        None \<Rightarrow> False
      | Some (memory_pool_size, log_path) \<Rightarrow>
          if memory_pool_size > 0 \<and> \<not> lgx_validate_size memory_pool_size (1024 * 1024) (16 * 1024 * 1024 * 1024) then False
          else if log_path \<noteq> None \<and> \<not> lgx_validate_path log_path then False else True)"

section \<open>What they accept\<close>

lemma and_pred_zero: "0 < a \<Longrightarrow> a AND (a - 1) = 0 \<Longrightarrow> \<exists>k. a = 2 ^ k" for a :: nat
proof (induction a rule: less_induct)
  case (less a)
  show ?case
  proof (cases "even a")
    case True
    then obtain b where b: "a = 2 * b" "0 < b" using less.prems(1) by (auto elim!: evenE)
    have "(a - 1) div 2 = b - 1" "a div 2 = b" using b by auto
    then have "a AND (a - 1) = 2 * (b AND (b - 1))" using True by (simp add: and_nat_unfold[of a])
    then have "b AND (b - 1) = 0" using less.prems(2) by simp
    then obtain k where "b = 2 ^ k" using less.IH[of b] b by auto
    then have "a = 2 ^ Suc k" using b by simp
    then show ?thesis by blast
  next
    case False
    then obtain b where b: "a = 2 * b + 1" by (auto elim!: oddE)
    then have "(a - 1) div 2 = b" "a div 2 = b" "even (a - 1)" "a = 0 \<longrightarrow> b = 0" "a \<le> Suc 0 \<longrightarrow> b = 0" by auto
    then have "a AND (a - 1) = 2 * (b AND b)" using False by (simp add: and_nat_unfold[of a])
    then have "b = 0" using less.prems(2) by simp
    then have "a = 2 ^ 0" using b by simp
    then show ?thesis by blast
  qed
qed

lemma pow2_and_pred: "(2 ^ k :: u64) AND (2 ^ k - 1) = 0"
proof -
  have "\<not> bit ((2 ^ k :: u64) AND mask k) n" if "n < 64" for n
    by (simp add: bit_and_iff bit_mask_iff bit_exp_iff)
  then show ?thesis by (auto intro: bit_word_eqI simp: mask_eq_decr_exp)
qed

lemma and_pred_zero_word:
  fixes a :: u64 assumes "a \<noteq> 0" "a AND (a - 1) = 0" shows "\<exists>k. unat a = 2 ^ k"
proof -
  have "unat (a - 1) = unat a - 1" using assms(1) by (simp add: unat_minus_one)
  then have "unat a AND (unat a - 1) = 0" using assms(2) by (metis unsigned_and_eq unsigned_0)
  moreover have "0 < unat a" using assms(1) by (simp add: unat_gt_0)
  ultimately show ?thesis by (rule and_pred_zero[rotated])
qed

text \<open>The alignments that pass are exactly the powers of two up to 1 MB.\<close>

theorem alignment_checked: "lgx_validate_alignment a \<longleftrightarrow> (\<exists>k. k \<le> 20 \<and> a = 2 ^ k)"
proof
  assume *: "lgx_validate_alignment a"
  then have a: "a \<noteq> 0" "a \<le> 2 ^ 20" "a AND (a - 1) = 0"
    by (auto simp: lgx_validate_alignment_def LGX_MAX_ALIGNMENT_def split: if_splits)
  obtain k where k: "unat a = 2 ^ k" using and_pred_zero_word[OF a(1,3)] by blast
  have "unat a \<le> 2 ^ 20" using a(2) by (simp add: word_le_nat_alt)
  then have "k \<le> 20" using k by (metis power_increasing_iff one_less_numeral_iff semiring_norm(76))
  moreover have "a = 2 ^ k" using k by (metis of_nat_numeral of_nat_power of_nat_unat unsigned_of_nat word_unat_eq_iff ucast_id)
  ultimately show "\<exists>k. k \<le> 20 \<and> a = 2 ^ k" by blast
next
  assume "\<exists>k. k \<le> 20 \<and> a = 2 ^ k"
  then obtain k where k: "k \<le> 20" "a = 2 ^ k" by blast
  have le: "(2::nat) ^ k \<le> 2 ^ 20" using k(1) by (rule power_increasing) simp
  have "a = of_nat (2 ^ k)" using k(2) by simp
  then have "unat a = 2 ^ k" using k(1) by (simp only: unsigned_of_nat) (simp add: take_bit_nat_eq_self)
  then have "a \<le> 2 ^ 20" "a \<noteq> 0" "1 \<le> a" using le by (auto simp: word_le_nat_alt)
  then show "lgx_validate_alignment a" using pow2_and_pred[of k] k(2)
    by (auto simp: lgx_validate_alignment_def LGX_MIN_ALIGNMENT_def LGX_MAX_ALIGNMENT_def)
qed

text \<open>The C string that a buffer holds: the bytes before its first NUL.\<close>

definition c_str :: "string \<Rightarrow> string" where "c_str b = takeWhile (\<lambda>c. c \<noteq> CHR 0x00) b"

lemma c_str_append: "CHR 0x00 \<notin> set s \<Longrightarrow> c_str (s @ CHR 0x00 # r) = s"
  unfolding c_str_def by (subst takeWhile_append2) auto

text \<open>C40. Copying a string into a buffer of the given size keeps the size of the buffer and leaves a terminated string in it,
  the source cut to one byte less than the buffer.\<close>

theorem truncate_terminates:
  assumes d: "length d = unat n" and n: "n \<noteq> 0" and s: "CHR 0x00 \<notin> set s"
  shows "\<exists>d'. lgx_validate_and_truncate_string (Some s) (Some d) n = (True, Some d') \<and>
    length d' = length d \<and> CHR 0x00 \<in> set d' \<and> c_str d' = take (unat n - 1) s"
proof (cases "length s < unat n")
  case True
  have "unat n < 2 ^ 64" using unsigned_less[of n] by simp
  then have l: "unat (of_nat (length s) :: u64) = length s" using True by (simp add: unsigned_of_nat take_bit_nat_eq_self)
  then have "\<not> n \<le> (of_nat (length s) :: u64)" using True by (simp add: word_le_nat_alt)
  moreover have "c_str (s @ CHR 0x00 # drop (length s + 1) d) = s" using s by (rule c_str_append)
  ultimately show ?thesis using True n d l
    by (simp add: lgx_validate_and_truncate_string_def strnlen_def memcpy_def c_bytes_def Let_def)
next
  case False
  define m where "m = unat n - 1"
  have m: "unat n = Suc m" using n by (simp add: m_def unat_gt_0)
  obtain x where x: "drop m d = [x]" using d m by (metis Suc_diff_le diff_Suc_1 diff_self_eq_0 length_0_conv length_Suc_conv length_drop order_refl)
  have "(take m s @ [x])[m := CHR 0x00] = take m s @ [CHR 0x00]" using False m by (simp add: list_update_append)
  moreover have "c_str (take m s @ CHR 0x00 # []) = take m s" using s by (intro c_str_append) (auto dest: in_set_takeD)
  ultimately show ?thesis using False n d m x
    by (simp add: lgx_validate_and_truncate_string_def strnlen_def memcpy_def c_bytes_def Let_def)
qed

theorem truncate_terminates_witness:
  "\<exists>d'. lgx_validate_and_truncate_string (Some ''texture'') (Some (replicate 4 CHR ''x'')) 4 = (True, Some d') \<and>
    length d' = 4 \<and> CHR 0x00 \<in> set d' \<and> c_str d' = ''tex''"
  using truncate_terminates[of "replicate 4 CHR ''x''" 4 "''texture''"] 
  by (simp add: take_Cons')

text \<open>A path that passes is at most 4096 bytes long and has no parent component; the loop over its bytes never finds a NUL.\<close>

lemma path_checked: "CHR 0x00 \<notin> set s \<Longrightarrow> lgx_validate_path (Some s) \<longleftrightarrow> length s \<le> 4096 \<and> \<not> has_dots s"
proof -
  assume s: "CHR 0x00 \<notin> set s"
  then have "\<not> list_ex (\<lambda>c. c = CHR 0x00) s" by (auto simp: list_ex_iff)
  moreover have "lgx_validate_string (Some s) LGX_MAX_PATH_LENGTH \<longleftrightarrow> length s \<le> 4096"
    by (auto simp: lgx_validate_string_def strnlen_def LGX_MAX_PATH_LENGTH_def word_less_nat_alt unsigned_of_nat take_bit_nat_eq_self)
  ultimately show ?thesis by (auto simp: lgx_validate_path_def)
qed

text \<open>A maximal length of \<open>SIZE_MAX\<close> makes the check of a string look at no byte.\<close>

lemma string_check_wraps: "lgx_validate_string (Some s) (- 1)"
  by (simp add: lgx_validate_string_def strnlen_def)

end
