(* ===== verification/Asset_Codec.thy ===== *)
theory Asset_Codec
  imports LGX_Prelude
begin

text \<open>
  The compression of assets (\<^verbatim>\<open>src/asset/lgx_asset.c\<close>): runs of four or more equal bytes become four bytes, everything
  else literal blocks behind a header of three bytes. Sources and results are lists of bytes, \<open>si\<close> is the position in the source
  as in the code and the position \<open>di\<close> is the length of what has been written. A return of \<open>-1\<close> is \<^const>\<open>None\<close>; what a
  failed call has left in the buffer is not described.
\<close>

section \<open>Compression\<close>















definition c_int :: "nat \<Rightarrow> int" where "c_int n = sint (of_nat n :: 32 word)"


section \<open>Decompression\<close>

definition u16_at :: "u8 list \<Rightarrow> nat \<Rightarrow> nat" where
  "u16_at src si = unat (src ! si) + 256 * unat (src ! (si + 1))"

function decompress_from :: "u8 list \<Rightarrow> nat \<Rightarrow> nat \<Rightarrow> u8 list \<Rightarrow> u8 list option" where
  "decompress_from src max_out si out =
     (if si < length src then
        let tag = src ! si; si = si + 1
        in if tag = 0x00 then
             if si + 2 > length src then None
             else
               let len = u16_at src si; si = si + 2
               in if si + len > length src \<or> length out + len > max_out then None
                  else decompress_from src max_out (si + len) (out @ take len (drop si src))
           else if tag = 0x01 then
             if si + 3 > length src then None
             else
               let byte = src ! si; si = si + 1; cnt = u16_at src si; si = si + 2
               in if length out + cnt > max_out then None
                  else decompress_from src max_out si (out @ replicate cnt byte)
           else None
      else Some out)"
  by auto
termination by (relation "measure (\<lambda>(src, max_out, si, out). length src - si)") auto

declare decompress_from.simps [simp del]

definition lgx_asset_decompress :: "u8 list option \<Rightarrow> nat \<Rightarrow> bool \<Rightarrow> (int \<times> u8 list) option" where
  "lgx_asset_decompress data max_out out_ok =
     (case data of
        None \<Rightarrow> None
      | Some src \<Rightarrow>
          if \<not> out_ok \<or> length src = 0 \<or> max_out = 0 then None
          else map_option (\<lambda>out. (c_int (length out), out)) (decompress_from src max_out 0 []))"

section \<open>The round trip\<close>









lemma decompress_bounded: "decompress_from src m si out = Some d \<Longrightarrow> length out \<le> m \<Longrightarrow> length d \<le> m"
proof (induction src m si out rule: decompress_from.induct)
  case (1 src m si out)
  from 1(3) show ?case
    by (subst (asm) decompress_from.simps) (use 1 in \<open>auto simp: Let_def split: if_splits\<close>)
qed




text \<open>No decompression, also of bytes that compression did not write, fills more than the buffer it is given.\<close>

lemma decompress_in_buffer: "lgx_asset_decompress (Some d) m True = Some (n, e) \<Longrightarrow> length e \<le> m"
  by (auto simp: lgx_asset_decompress_def split: if_splits dest: decompress_bounded)

text \<open>An output of 2 GB and more has a negative length.\<close>

lemma codec_length_wraps: "2 ^ 31 \<le> n \<Longrightarrow> n < 2 ^ 32 \<Longrightarrow> c_int n < 0"
proof -
  assume n: "2 ^ 31 \<le> n" "n < 2 ^ 32"
  have "int n div 2147483648 = 1" using n by auto
  then have "bit (int n) 31" by (simp add: bit_iff_odd)
  then show ?thesis by (simp add: c_int_def signed_of_nat)
qed

end
