(* ===== verification/Asset_Manager.thy ===== *)
theory Asset_Manager
  imports Asset_Codec C_Text
begin

text \<open>
  The asset manager (\<^verbatim>\<open>src/asset/lgx_asset.c\<close>): search paths, the registry of assets, loading, unloading, reloading and the
  dispatch of change notifications. The files are a map from paths to contents; \<open>read_ok\<close> is False when a file that can be accessed cannot be
  read or there is no memory for it. The data of an asset are the bytes of its buffer. Assets stand in a store at the addresses
  that \<open>calloc\<close> gives them. The return pointer of the manager is an option, watches and calls of the reload function are logs.
\<close>

section \<open>State\<close>

definition DEFAULT_MAX_ASSETS :: u32 where "DEFAULT_MAX_ASSETS = 1024"
definition DEFAULT_MAX_SEARCH_PATHS :: u32 where "DEFAULT_MAX_SEARCH_PATHS = 16"
definition MAX_PATH_LEN :: nat where "MAX_PATH_LEN = 512"

datatype lgx_asset_type = LGX_ASSET_BINARY | LGX_ASSET_TEXT | LGX_ASSET_IMAGE | LGX_ASSET_AUDIO | LGX_ASSET_SHADER | LGX_ASSET_MESH

datatype lgx_asset_state = LGX_ASSET_UNLOADED | LGX_ASSET_LOADING | LGX_ASSET_READY | LGX_ASSET_ERROR

record lgx_asset =
  as_path :: string
  as_resolved :: string
  as_type :: lgx_asset_type
  as_state :: lgx_asset_state
  as_data :: "u8 list option"
  as_size :: nat

record lgx_asset_config =
  ac_max_assets :: u32
  ac_max_search_paths :: u32

record lgx_asset_manager =
  mg_search_paths :: "string list"
  mg_max_paths :: u32
  mg_assets :: "nat list"
  mg_max_assets :: u32
  mg_inotify :: bool
  mg_reload_cb :: bool
  mg_watches :: "string list"
  mg_reloads :: "string list"
  mg_store :: "nat \<rightharpoonup> lgx_asset"

type_synonym files = "string \<rightharpoonup> u8 list"

section \<open>Files\<close>

text \<open>The buffer has a NUL behind the contents.\<close>

definition read_file :: "bool \<Rightarrow> files \<Rightarrow> string \<Rightarrow> (u8 list \<times> nat) option" where
  "read_file read_ok fs path =
     (case fs path of
        None \<Rightarrow> None
      | Some bytes \<Rightarrow> if \<not> read_ok then None else Some (bytes @ [0], length bytes))"

text \<open>Returns whether a file was found and the path that stands in the output buffer.\<close>

fun search_dirs :: "files \<Rightarrow> string \<Rightarrow> string list \<Rightarrow> string \<Rightarrow> bool \<times> string" where
  "search_dirs fs path [] out = (False, out)"
| "search_dirs fs path (d # ds) out =
     (let out = c_copy MAX_PATH_LEN (d @ ''/'' @ path)
      in if fs out \<noteq> None then (True, out) else search_dirs fs path ds out)"

definition resolve_path :: "files \<Rightarrow> lgx_asset_manager \<Rightarrow> string \<Rightarrow> string \<Rightarrow> bool \<times> string" where
  "resolve_path fs mgr path out =
     (if fs path \<noteq> None then (True, c_copy MAX_PATH_LEN path)
      else search_dirs fs path (mg_search_paths mgr) out)"

section \<open>The manager\<close>

definition lgx_asset_manager_create :: "bool \<Rightarrow> bool \<Rightarrow> lgx_asset_config option \<Rightarrow> lgx_asset_manager option" where
  "lgx_asset_manager_create calloc_ok inotify_ok config =
     (if \<not> calloc_ok then None
      else Some \<lparr>
        mg_search_paths = [],
        mg_max_paths = (case config of None \<Rightarrow> DEFAULT_MAX_SEARCH_PATHS
                        | Some c \<Rightarrow> if ac_max_search_paths c > 0 then ac_max_search_paths c else DEFAULT_MAX_SEARCH_PATHS),
        mg_assets = [],
        mg_max_assets = (case config of None \<Rightarrow> DEFAULT_MAX_ASSETS
                         | Some c \<Rightarrow> if ac_max_assets c > 0 then ac_max_assets c else DEFAULT_MAX_ASSETS),
        mg_inotify = inotify_ok, mg_reload_cb = False, mg_watches = [], mg_reloads = [], mg_store = Map.empty\<rparr>)"

text \<open>What is left of the store when the assets of the registry are freed.\<close>

definition lgx_asset_manager_destroy :: "lgx_asset_manager option \<Rightarrow> nat \<rightharpoonup> lgx_asset" where
  "lgx_asset_manager_destroy mgr =
     (case mgr of None \<Rightarrow> Map.empty | Some m \<Rightarrow> fold (\<lambda>a S. S(a := None)) (mg_assets m) (mg_store m))"

definition asset_notify :: "string option \<Rightarrow> lgx_asset_manager \<Rightarrow> lgx_asset_manager" where
  "asset_notify ev m =
     (case ev of Some name \<Rightarrow> if mg_reload_cb m then m\<lparr>mg_reloads := mg_reloads m @ [name]\<rparr> else m | None \<Rightarrow> m)"

text \<open>The events that one read of the inotify descriptor returns, each with its name if it has one.\<close>

definition lgx_asset_manager_update :: "string option list \<Rightarrow> lgx_asset_manager option \<Rightarrow> lgx_result \<times> lgx_asset_manager option" where
  "lgx_asset_manager_update events mgr =
     (case mgr of
        None \<Rightarrow> (LGX_ERROR_INVALID_PARAM, None)
      | Some m \<Rightarrow>
          if \<not> mg_inotify m then (LGX_SUCCESS, Some m)
          else (LGX_SUCCESS, Some (fold asset_notify events m)))"

definition lgx_asset_manager_add_path :: "bool \<Rightarrow> string option \<Rightarrow> lgx_asset_manager option \<Rightarrow> lgx_result \<times> lgx_asset_manager option" where
  "lgx_asset_manager_add_path strdup_ok path mgr =
     (case (mgr, path) of
        (Some m, Some p) \<Rightarrow>
          if length (mg_search_paths m) \<ge> unat (mg_max_paths m) then (LGX_ERROR_INVALID_PARAM, mgr)
          else if \<not> strdup_ok then (LGX_ERROR_INVALID_PARAM, mgr)
          else (LGX_SUCCESS, Some (m\<lparr>mg_search_paths := mg_search_paths m @ [p]\<rparr>))
      | _ \<Rightarrow> (LGX_ERROR_INVALID_PARAM, mgr))"

section \<open>Loading\<close>

definition asset_register :: "nat \<Rightarrow> lgx_asset \<Rightarrow> lgx_asset_manager \<Rightarrow> lgx_asset_manager" where
  "asset_register a x m = m\<lparr>mg_assets := mg_assets m @ [a], mg_store := (mg_store m)(a \<mapsto> x)\<rparr>"

definition lgx_asset_load ::
    "nat option \<Rightarrow> bool \<Rightarrow> files \<Rightarrow> string option \<Rightarrow> lgx_asset_type \<Rightarrow> lgx_asset_manager option \<Rightarrow> nat option \<times> lgx_asset_manager option" where
  "lgx_asset_load new read_ok fs path type mgr =
     (case (mgr, path) of
        (Some m, Some p) \<Rightarrow>
          if length (mg_assets m) \<ge> unat (mg_max_assets m) then (None, mgr)
          else
            (case new of
               None \<Rightarrow> (None, mgr)
             | Some a \<Rightarrow>
                 let x = \<lparr>as_path = c_copy MAX_PATH_LEN p, as_resolved = '''', as_type = type, as_state = LGX_ASSET_UNLOADED,
                          as_data = None, as_size = 0\<rparr>
                 in (case resolve_path fs m p (as_resolved x) of
                       (False, out) \<Rightarrow> (Some a, Some (asset_register a (x\<lparr>as_resolved := out, as_state := LGX_ASSET_ERROR\<rparr>) m))
                     | (True, out) \<Rightarrow>
                         let x = x\<lparr>as_resolved := out\<rparr>;
                             x = (case read_file read_ok fs out of
                                    None \<Rightarrow> x\<lparr>as_state := LGX_ASSET_ERROR\<rparr>
                                  | Some (d, n) \<Rightarrow> x\<lparr>as_data := Some d, as_size := n, as_state := LGX_ASSET_READY\<rparr>)
                         in (Some a, Some (asset_register a x m))))
      | _ \<Rightarrow> (None, mgr))"

definition lgx_asset_load_async ::
    "nat option \<Rightarrow> bool \<Rightarrow> files \<Rightarrow> string option \<Rightarrow> lgx_asset_type \<Rightarrow> lgx_asset_manager option \<Rightarrow> nat option \<times> lgx_asset_manager option" where
  "lgx_asset_load_async new read_ok fs path type mgr =
     (if mgr = None \<or> path = None then (None, mgr) else lgx_asset_load new read_ok fs path type mgr)"

text \<open>The functions on one asset change it in place.\<close>

definition lgx_asset_unload :: "lgx_asset option \<Rightarrow> lgx_asset option" where
  "lgx_asset_unload asset =
     (case asset of None \<Rightarrow> None | Some x \<Rightarrow> Some (x\<lparr>as_data := None, as_size := 0, as_state := LGX_ASSET_UNLOADED\<rparr>))"

definition lgx_asset_reload :: "bool \<Rightarrow> files \<Rightarrow> lgx_asset option \<Rightarrow> lgx_result \<times> lgx_asset option" where
  "lgx_asset_reload read_ok fs asset =
     (case asset of
        None \<Rightarrow> (LGX_ERROR_INVALID_PARAM, None)
      | Some x \<Rightarrow>
          if as_resolved x = '''' then (LGX_ERROR_INVALID_PARAM, Some x)
          else
            let x = x\<lparr>as_data := None, as_size := 0\<rparr>
            in (case read_file read_ok fs (as_resolved x) of
                  None \<Rightarrow> (LGX_ERROR_INVALID_PARAM, Some (x\<lparr>as_state := LGX_ASSET_ERROR\<rparr>))
                | Some (d, n) \<Rightarrow> (LGX_SUCCESS, Some (x\<lparr>as_data := Some d, as_size := n, as_state := LGX_ASSET_READY\<rparr>))))"

definition lgx_asset_get_data :: "lgx_asset option \<Rightarrow> u8 list option" where
  "lgx_asset_get_data asset = (case asset of None \<Rightarrow> None | Some x \<Rightarrow> if as_state x \<noteq> LGX_ASSET_READY then None else as_data x)"

definition lgx_asset_get_size :: "lgx_asset option \<Rightarrow> nat" where
  "lgx_asset_get_size asset = (case asset of None \<Rightarrow> 0 | Some x \<Rightarrow> as_size x)"

definition lgx_asset_get_state :: "lgx_asset option \<Rightarrow> lgx_asset_state" where
  "lgx_asset_get_state asset = (case asset of None \<Rightarrow> LGX_ASSET_ERROR | Some x \<Rightarrow> as_state x)"

definition lgx_asset_get_type :: "lgx_asset option \<Rightarrow> lgx_asset_type" where
  "lgx_asset_get_type asset = (case asset of None \<Rightarrow> LGX_ASSET_BINARY | Some x \<Rightarrow> as_type x)"

definition lgx_asset_get_path :: "lgx_asset option \<Rightarrow> string option" where
  "lgx_asset_get_path asset = map_option as_path asset"

definition lgx_asset_watch :: "bool \<Rightarrow> string option \<Rightarrow> lgx_asset_manager option \<Rightarrow> lgx_result \<times> lgx_asset_manager option" where
  "lgx_asset_watch add_ok path mgr =
     (case (mgr, path) of
        (Some m, Some p) \<Rightarrow>
          if \<not> mg_inotify m then (LGX_ERROR_INVALID_PARAM, mgr)
          else if \<not> add_ok then (LGX_ERROR_INVALID_PARAM, mgr)
          else (LGX_SUCCESS, Some (m\<lparr>mg_watches := mg_watches m @ [p]\<rparr>))
      | _ \<Rightarrow> (LGX_ERROR_INVALID_PARAM, mgr))"

definition lgx_asset_set_reload_callback :: "bool \<Rightarrow> lgx_asset_manager option \<Rightarrow> lgx_result \<times> lgx_asset_manager option" where
  "lgx_asset_set_reload_callback cb mgr =
     (case mgr of None \<Rightarrow> (LGX_ERROR_INVALID_PARAM, None) | Some m \<Rightarrow> (LGX_SUCCESS, Some (m\<lparr>mg_reload_cb := cb\<rparr>)))"

end
