(* ===== verification/Asset_Properties.thy ===== *)
theory Asset_Properties
  imports Asset_Manager
begin

text \<open>
  The registry of assets stays consistent under every sequence of operations, and a load gives the contents of the first file
  that the search order finds.
\<close>

section \<open>Runs\<close>

inductive asset_run :: "lgx_asset_manager \<Rightarrow> bool" where
  create: "lgx_asset_manager_create True ino config = Some m \<Longrightarrow> asset_run m"
| add_path: "asset_run m \<Longrightarrow> lgx_asset_manager_add_path ok p (Some m) = (r, Some m') \<Longrightarrow> asset_run m'"
| load: "asset_run m \<Longrightarrow> mg_store m a = None \<Longrightarrow> lgx_asset_load (Some a) ok fs p t (Some m) = (q, Some m') \<Longrightarrow> asset_run m'"
| unload: "asset_run m \<Longrightarrow> mg_store m a = Some x \<Longrightarrow> asset_run (m\<lparr>mg_store := (mg_store m)(a := lgx_asset_unload (Some x))\<rparr>)"
| reload: "asset_run m \<Longrightarrow> mg_store m a = Some x \<Longrightarrow> lgx_asset_reload ok fs (Some x) = (r, Some x') \<Longrightarrow>
    asset_run (m\<lparr>mg_store := (mg_store m)(a \<mapsto> x')\<rparr>)"
| update: "asset_run m \<Longrightarrow> lgx_asset_manager_update evs (Some m) = (r, Some m') \<Longrightarrow> asset_run m'"
| watch: "asset_run m \<Longrightarrow> lgx_asset_watch ok p (Some m) = (r, Some m') \<Longrightarrow> asset_run m'"
| callback: "asset_run m \<Longrightarrow> lgx_asset_set_reload_callback cb (Some m) = (r, Some m') \<Longrightarrow> asset_run m'"

definition asset_ok :: "lgx_asset \<Rightarrow> bool" where
  "asset_ok x =
     (case as_data x of
        None \<Rightarrow> as_state x \<noteq> LGX_ASSET_READY \<and> as_size x = 0
      | Some d \<Rightarrow> as_state x = LGX_ASSET_READY \<and> length d = as_size x + 1 \<and> last d = 0)"

definition asset_inv :: "lgx_asset_manager \<Rightarrow> bool" where
  "asset_inv m =
     (distinct (mg_assets m) \<and> dom (mg_store m) = set (mg_assets m) \<and> length (mg_assets m) \<le> unat (mg_max_assets m) \<and>
      length (mg_search_paths m) \<le> unat (mg_max_paths m) \<and> (\<forall>x \<in> ran (mg_store m). asset_ok x))"

lemma ran_upd: "(\<forall>y \<in> ran (S(a \<mapsto> x)). P y) \<longleftrightarrow> P x \<and> (\<forall>b y. b \<noteq> a \<longrightarrow> S b = Some y \<longrightarrow> P y)"
  by (auto simp: ran_def)

lemma unload_ok: "asset_ok (x\<lparr>as_data := None, as_size := 0, as_state := LGX_ASSET_UNLOADED\<rparr>)"
  by (simp add: asset_ok_def)

lemma reload_ok: "asset_ok x \<Longrightarrow> lgx_asset_reload ok fs (Some x) = (r, Some x') \<Longrightarrow> asset_ok x'"
  by (auto simp: lgx_asset_reload_def read_file_def asset_ok_def Let_def split: if_splits option.splits)

lemma register_inv:
  assumes "asset_inv m" "mg_store m a = None" "length (mg_assets m) < unat (mg_max_assets m)" "asset_ok x"
  shows "asset_inv (asset_register a x m)"
proof -
  have "a \<notin> set (mg_assets m)" using assms(1,2) unfolding asset_inv_def by (metis domIff)
  then show ?thesis using assms by (auto simp: asset_inv_def asset_register_def ran_upd ran_def)
qed

text \<open>The asset that a load registers.\<close>

definition loaded :: "bool \<Rightarrow> files \<Rightarrow> lgx_asset_manager \<Rightarrow> string \<Rightarrow> lgx_asset_type \<Rightarrow> lgx_asset" where
  "loaded ok fs m p t =
     (case resolve_path fs m p [] of (found, out) \<Rightarrow>
        \<lparr>as_path = c_copy MAX_PATH_LEN p, as_resolved = out, as_type = t,
         as_state = (if found \<and> read_file ok fs out \<noteq> None then LGX_ASSET_READY else LGX_ASSET_ERROR),
         as_data = (if found then map_option fst (read_file ok fs out) else None),
         as_size = (if found then (case read_file ok fs out of None \<Rightarrow> 0 | Some (d, n) \<Rightarrow> n) else 0)\<rparr>)"

lemma load_unfold:
  assumes "length (mg_assets m) < unat (mg_max_assets m)"
  shows "lgx_asset_load (Some a) ok fs (Some p) t (Some m) = (Some a, Some (asset_register a (loaded ok fs m p t) m))"
  using assms by (auto simp: lgx_asset_load_def loaded_def Let_def split: prod.splits option.splits bool.splits)

lemma loaded_ok: "asset_ok (loaded ok fs m p t)"
  by (auto simp: loaded_def asset_ok_def read_file_def split: prod.splits option.splits if_splits)

lemma load_inv:
  assumes "asset_inv m" "mg_store m a = None" "lgx_asset_load (Some a) ok fs p t (Some m) = (q, Some m')"
  shows "asset_inv m'"
proof (cases "p \<noteq> None \<and> length (mg_assets m) < unat (mg_max_assets m)")
  case True
  then show ?thesis using assms load_unfold register_inv[OF assms(1,2) _ loaded_ok] by fastforce
next
  case False
  then show ?thesis using assms by (auto simp: lgx_asset_load_def split: option.splits)
qed

lemma notify_fields: "\<exists>l. fold asset_notify evs m = m\<lparr>mg_reloads := l\<rparr>"
proof (induction evs arbitrary: m)
  case Nil
  show ?case by (rule exI[of _ "mg_reloads m"]) simp
next
  case (Cons ev evs)
  define k where "k = mg_reloads (asset_notify ev m)"
  have k: "asset_notify ev m = m\<lparr>mg_reloads := k\<rparr>" by (simp add: k_def asset_notify_def split: option.splits)
  obtain l where "fold asset_notify evs (m\<lparr>mg_reloads := k\<rparr>) = m\<lparr>mg_reloads := k\<rparr>\<lparr>mg_reloads := l\<rparr>" using Cons by blast
  then have "fold asset_notify (ev # evs) m = m\<lparr>mg_reloads := l\<rparr>" by (simp add: k)
  then show ?case by blast
qed

lemma update_fields:
  assumes "lgx_asset_manager_update evs (Some m) = (r, Some m')"
  shows "\<exists>l. m' = m\<lparr>mg_reloads := l\<rparr>"
proof -
  have "m' = m \<or> m' = fold asset_notify evs m" using assms by (auto simp: lgx_asset_manager_update_def split: if_splits)
  moreover have "m = m\<lparr>mg_reloads := mg_reloads m\<rparr>" by simp
  ultimately show ?thesis using notify_fields[of evs m] by blast
qed

lemma asset_run_inv: "asset_run m \<Longrightarrow> asset_inv m"
proof (induction rule: asset_run.induct)
  case (create ino config m)
  then show ?case by (auto simp: lgx_asset_manager_create_def asset_inv_def)
next
  case (add_path m ok p r m')
  have "m' = m \<or> (\<exists>q. m' = m\<lparr>mg_search_paths := mg_search_paths m @ [q]\<rparr> \<and> length (mg_search_paths m) < unat (mg_max_paths m))"
    using add_path(2) by (auto simp: lgx_asset_manager_add_path_def split: option.splits if_splits)
  then show ?case using add_path.IH by (elim disjE exE conjE) (simp_all add: asset_inv_def)
next
  case (load m a ok fs p t q m')
  then show ?case using load_inv by blast
next
  case (unload m a x)
  then show ?case using unload_ok by (auto simp: lgx_asset_unload_def asset_inv_def ran_upd ran_def)
next
  case (reload m a x ok fs r x')
  have "asset_ok x" using reload by (auto simp: asset_inv_def ran_def)
  then have "asset_ok x'" using reload(3) reload_ok by blast
  then show ?case using reload by (auto simp: asset_inv_def ran_upd ran_def)
next
  case (update m evs r m')
  then show ?case using update_fields by (fastforce simp: asset_inv_def)
next
  case (watch m ok p r m')
  have "m' = m \<or> (\<exists>q. m' = m\<lparr>mg_watches := mg_watches m @ [q]\<rparr>)"
    using watch(2) by (auto simp: lgx_asset_watch_def split: option.splits if_splits)
  then show ?case using watch.IH by (elim disjE exE) (simp_all add: asset_inv_def)
next
  case (callback m cb r m')
  have "m' = m\<lparr>mg_reload_cb := cb\<rparr>" using callback(2) by (auto simp: lgx_asset_set_reload_callback_def)
  then show ?case using callback.IH by (simp add: asset_inv_def)
qed

lemma destroy_empties: "asset_run m \<Longrightarrow> lgx_asset_manager_destroy (Some m) = Map.empty"
proof -
  have f: "fold (\<lambda>a S. S(a := None)) xs S = S |` (- set xs)" for xs and S :: "nat \<rightharpoonup> lgx_asset"
    by (induction xs arbitrary: S) (auto simp: restrict_map_def fun_eq_iff)
  assume "asset_run m"
  then have "dom (mg_store m) = set (mg_assets m)" using asset_run_inv by (simp add: asset_inv_def)
  then show ?thesis by (auto simp: lgx_asset_manager_destroy_def f restrict_map_def fun_eq_iff dom_def)
qed

section \<open>The search order\<close>

definition candidates :: "lgx_asset_manager \<Rightarrow> string \<Rightarrow> string list" where
  "candidates m p = p # map (\<lambda>d. d @ ''/'' @ p) (mg_search_paths m)"

definition c_path :: "string \<Rightarrow> bool" where "c_path q = (length q < MAX_PATH_LEN \<and> CHR 0x00 \<notin> set q)"

lemma c_copy_path: "c_path q \<Longrightarrow> c_copy MAX_PATH_LEN q = q"
  unfolding c_path_def c_copy_def by (subst takeWhile_eq_all_conv[THEN iffD2]) auto

lemma search_dirs_find:
  "\<forall>d \<in> set ds. c_path (d @ ''/'' @ p) \<Longrightarrow>
     (case search_dirs fs p ds out of (found, q) \<Rightarrow>
        case find (\<lambda>q. fs q \<noteq> None) (map (\<lambda>d. d @ ''/'' @ p) ds) of None \<Rightarrow> \<not> found | Some q' \<Rightarrow> found \<and> q = q')"
proof (induction ds arbitrary: out)
  case (Cons d ds)
  have "c_copy MAX_PATH_LEN (d @ ''/'' @ p) = d @ ''/'' @ p" by (rule c_copy_path) (use Cons.prems in simp)
  then show ?case using Cons by (simp add: Let_def)
qed simp

lemma resolve_find:
  assumes "\<forall>q \<in> set (candidates m p). c_path q"
  shows "case resolve_path fs m p out of (found, q) \<Rightarrow>
    case find (\<lambda>q. fs q \<noteq> None) (candidates m p) of None \<Rightarrow> \<not> found | Some q' \<Rightarrow> found \<and> q = q'"
  using assms search_dirs_find[of "mg_search_paths m" p fs out] c_copy_path[of p]
  by (auto simp: resolve_path_def candidates_def)

text \<open>
  C30. Assets are what their files hold: in every state of the manager that its operations reach and that has room, a load at a fresh address registers
  an asset whose data are the contents of the first readable file in the search order, behind them a NUL byte, with the size of the
  file; when there is none or it cannot be read the asset is in the error state and has no data. The other assets are unchanged, data are
  there exactly for assets that are ready, and destroying the manager frees every asset.
\<close>

theorem asset_load_exact:
  assumes run: "asset_run m" and new: "mg_store m a = None" and room: "length (mg_assets m) < unat (mg_max_assets m)"
    and short: "\<forall>q \<in> set (candidates m p). c_path q"
  shows "\<exists>m' x. lgx_asset_load (Some a) ok fs (Some p) t (Some m) = (Some a, Some m') \<and> mg_store m' = (mg_store m)(a \<mapsto> x) \<and>
    (case find (\<lambda>q. fs q \<noteq> None) (candidates m p) of
       None \<Rightarrow> lgx_asset_get_state (Some x) = LGX_ASSET_ERROR \<and> lgx_asset_get_data (Some x) = None
     | Some q \<Rightarrow>
         if ok then lgx_asset_get_state (Some x) = LGX_ASSET_READY \<and> lgx_asset_get_data (Some x) = Some (the (fs q) @ [0]) \<and>
           lgx_asset_get_size (Some x) = length (the (fs q))
         else lgx_asset_get_state (Some x) = LGX_ASSET_ERROR \<and> lgx_asset_get_data (Some x) = None) \<and>
    (\<forall>b y. mg_store m' b = Some y \<longrightarrow> (lgx_asset_get_data (Some y) \<noteq> None \<longleftrightarrow> lgx_asset_get_state (Some y) = LGX_ASSET_READY)) \<and>
    lgx_asset_manager_destroy (Some m') = Map.empty"
proof -
  let ?x = "loaded ok fs m p t" and ?m = "asset_register a (loaded ok fs m p t) m"
  have l: "lgx_asset_load (Some a) ok fs (Some p) t (Some m) = (Some a, Some ?m)" by (rule load_unfold[OF room])
  have run': "asset_run ?m" by (rule asset_run.load[OF run new l])
  have st: "mg_store ?m = (mg_store m)(a \<mapsto> ?x)" by (simp add: asset_register_def)
  have data: "case find (\<lambda>q. fs q \<noteq> None) (candidates m p) of
       None \<Rightarrow> lgx_asset_get_state (Some ?x) = LGX_ASSET_ERROR \<and> lgx_asset_get_data (Some ?x) = None
     | Some q \<Rightarrow>
         if ok then lgx_asset_get_state (Some ?x) = LGX_ASSET_READY \<and> lgx_asset_get_data (Some ?x) = Some (the (fs q) @ [0]) \<and>
           lgx_asset_get_size (Some ?x) = length (the (fs q))
         else lgx_asset_get_state (Some ?x) = LGX_ASSET_ERROR \<and> lgx_asset_get_data (Some ?x) = None"
  proof (cases "find (\<lambda>q. fs q \<noteq> None) (candidates m p)")
    case None
    then have "\<not> fst (resolve_path fs m p [])" using resolve_find[OF short, of fs "[]"] by (simp split: prod.splits)
    then show ?thesis unfolding None by (auto simp: loaded_def lgx_asset_get_state_def lgx_asset_get_data_def split: prod.splits)
  next
    case (Some q)
    then have "resolve_path fs m p [] = (True, q)" using resolve_find[OF short, of fs "[]"] by (simp only: option.case split: prod.splits)
    moreover have "fs q \<noteq> None" using Some by (auto simp only: find_Some_iff)
    ultimately show ?thesis unfolding Some
      by (auto simp: loaded_def read_file_def lgx_asset_get_state_def lgx_asset_get_data_def lgx_asset_get_size_def)
  qed
  have ready: "lgx_asset_get_data (Some y) \<noteq> None \<longleftrightarrow> lgx_asset_get_state (Some y) = LGX_ASSET_READY" if "mg_store ?m b = Some y" for b y
  proof -
    have "asset_ok y" using asset_run_inv[OF run'] that by (auto simp: asset_inv_def ran_def)
    then show ?thesis by (auto simp: asset_ok_def lgx_asset_get_data_def lgx_asset_get_state_def split: option.splits)
  qed
  show ?thesis using l st data ready destroy_empties[OF run'] by blast
qed

definition demo_assets :: lgx_asset_manager where
  "demo_assets = the (lgx_asset_manager_create True True (Some \<lparr>ac_max_assets = 1, ac_max_search_paths = 2\<rparr>))"

definition demo_paths :: lgx_asset_manager where
  "demo_paths = the (snd (lgx_asset_manager_add_path True (Some ''b'') (snd (lgx_asset_manager_add_path True (Some ''a'') (Some demo_assets)))))"

lemmas demo_asset_simps = demo_paths_def demo_assets_def lgx_asset_manager_create_def lgx_asset_manager_add_path_def

lemma demo_paths_eq: "demo_paths = \<lparr>mg_search_paths = [''a'', ''b''], mg_max_paths = 2, mg_assets = [], mg_max_assets = 1, mg_inotify = True,
    mg_reload_cb = False, mg_watches = [], mg_reloads = [], mg_store = Map.empty\<rparr>"
  by (simp add: demo_asset_simps)

lemma demo_assets_run: "asset_run demo_paths"
proof -
  have "asset_run demo_assets" by (rule asset_run.create[of True "Some \<lparr>ac_max_assets = 1, ac_max_search_paths = 2\<rparr>"]) (simp add: demo_asset_simps)
  then have "asset_run (the (snd (lgx_asset_manager_add_path True (Some ''a'') (Some demo_assets))))"
    by (rule asset_run.add_path[where ok = True and p = "Some ''a''" and r = LGX_SUCCESS]) (simp add: demo_asset_simps)
  then show ?thesis
    by (rule asset_run.add_path[where ok = True and p = "Some ''b''" and r = LGX_SUCCESS]) (simp add: demo_asset_simps)
qed

theorem asset_load_exact_witness:
  "\<exists>m' x. lgx_asset_load (Some 8) True [''b/x'' \<mapsto> [1, 2]] (Some ''x'') LGX_ASSET_MESH (Some demo_paths) = (Some 8, Some m') \<and>
     mg_store m' 8 = Some x \<and> lgx_asset_get_data (Some x) = Some [1, 2, 0] \<and> lgx_asset_manager_destroy (Some m') = Map.empty"
proof -
  have "\<forall>q \<in> set (candidates demo_paths ''x''). c_path q" by (simp add: candidates_def demo_paths_eq c_path_def MAX_PATH_LEN_def)
  moreover have "find (\<lambda>q. [''b/x'' \<mapsto> [1, 2::u8]] q \<noteq> None) (candidates demo_paths ''x'') = Some ''b/x''" by (simp add: candidates_def demo_paths_eq)
  ultimately show ?thesis
    using asset_load_exact[OF demo_assets_run, of 8 "''x''" True "[''b/x'' \<mapsto> [1, 2]]" LGX_ASSET_MESH] by (fastforce simp: demo_paths_eq)
qed

section \<open>Two limits\<close>

text \<open>Unloading does not give a place in the registry back.\<close>

lemma registry_fills_up:
  "case lgx_asset_load (Some 8) True [''x'' \<mapsto> [1]] (Some ''x'') t (Some demo_paths) of (_, Some m) \<Rightarrow>
     fst (lgx_asset_load (Some 9) True [''x'' \<mapsto> [1]] (Some ''x'') t
       (Some (m\<lparr>mg_store := (mg_store m)(8 := lgx_asset_unload (mg_store m 8))\<rparr>))) = None"
  by (simp add: lgx_asset_load_def demo_paths_eq resolve_path_def read_file_def asset_register_def)

text \<open>
  The path of an asset that was not found stays the last candidate, so a reload does not find the file that a load would find
  once it is there.
\<close>

lemma missing_asset_reload:
  "fst (lgx_asset_reload True [''a/x'' \<mapsto> [1]] (Some (loaded True Map.empty demo_paths ''x'' t))) = LGX_ERROR_INVALID_PARAM"
  "as_state (loaded True [''a/x'' \<mapsto> [1]] demo_paths ''x'' t) = LGX_ASSET_READY"
  by (simp_all add: loaded_def demo_paths_eq resolve_path_def read_file_def lgx_asset_reload_def c_copy_def MAX_PATH_LEN_def Let_def)

end
