(* ===== verification/Net_Delta.thy ===== *)
theory Net_Delta
  imports Asset_Codec
begin

text \<open>
  The delta compression of snapshots (\<^verbatim>\<open>src/net/lgx_net.c\<close>): the bytes where two snapshots differ as their exclusive or, runs of equal bytes as
  a zero and their length. Both snapshots are lists of the same length; \<open>-1\<close> is \<^const>\<open>None\<close>, as in \<^verbatim>\<open>Asset_Codec\<close>.
\<close>

unbundle bit_operations_syntax

section \<open>Encoding\<close>











section \<open>Decoding\<close>

text \<open>The loop over a run: copies from the previous snapshot until the run or the buffer ends.\<close>

fun copy_run :: "u8 list \<Rightarrow> nat \<Rightarrow> nat \<Rightarrow> u8 list \<Rightarrow> u8 list" where
  "copy_run p out_size 0 out = out"
| "copy_run p out_size (Suc r) out = (if length out < out_size then copy_run p out_size r (out @ [p ! length out]) else out)"

function delta_decode_from :: "u8 list \<Rightarrow> u8 list \<Rightarrow> nat \<Rightarrow> nat \<Rightarrow> u8 list \<Rightarrow> u8 list option" where
  "delta_decode_from p d out_size dpos out =
     (if dpos < length d \<and> length out < out_size then
        let byte = d ! dpos; dpos = dpos + 1
        in if byte = 0x00 then
             if dpos \<ge> length d then None
             else delta_decode_from p d out_size (dpos + 1) (copy_run p out_size (unat (d ! dpos)) out)
           else delta_decode_from p d out_size dpos (out @ [p ! length out XOR byte])
      else Some out)"
  by auto
termination by (relation "measure (\<lambda>(p, d, out_size, dpos, out). length d - dpos)") auto

declare delta_decode_from.simps [simp del]

definition lgx_net_delta_decode :: "u8 list option \<Rightarrow> u8 list option \<Rightarrow> bool \<Rightarrow> nat \<Rightarrow> (int \<times> u8 list) option" where
  "lgx_net_delta_decode prev delta out_ok out_size =
     (case (prev, delta) of
        (Some p, Some d) \<Rightarrow>
          if \<not> out_ok \<or> length d = 0 \<or> out_size = 0 then None
          else map_option (\<lambda>out. (c_int (length out), out)) (delta_decode_from p d out_size 0 [])
      | _ \<Rightarrow> None)"

section \<open>The round trip\<close>


lemma copy_run_bounded: "length out \<le> n \<Longrightarrow> length (copy_run p n r out) \<le> n"
  by (induction r arbitrary: out) auto






text \<open>No decoding writes more than the buffer.\<close>

lemma delta_decode_bounded: "delta_decode_from p d n i out = Some e \<Longrightarrow> length out \<le> n \<Longrightarrow> length e \<le> n"
proof (induction p d n i out rule: delta_decode_from.induct)
  case (1 p d n i out)
  from 1(3) show ?case
    by (subst (asm) delta_decode_from.simps) (use 1 copy_run_bounded in \<open>auto simp: Let_def split: if_splits\<close>)
qed

text \<open>A delta that was cut off decodes to a part of the snapshot without an error.\<close>

lemma truncated_delta_accepted: "lgx_net_delta_decode (Some [1, 2, 3, 4]) (Some [0, 2]) True 4 = Some (2, [1, 2])"
  by code_simp

end
