(* ===== verification/Net_Stream.thy ===== *)
theory Net_Stream
  imports LGX_Prelude
begin

text \<open>
  The serialization streams of the network module (\<^verbatim>\<open>src/net/lgx_net.c\<close>). The buffer is a list of bytes whose length is the capacity,
  a \<open>NULL\<close> stream is \<^const>\<open>None\<close>. A float is its 32 bits, as the code copies it, and a C string the list of its bytes before the NUL.
\<close>

unbundle bit_operations_syntax

type_synonym u16 = "16 word"

record lgx_net_stream =
  ns_buf :: "u8 list"
  ns_pos :: nat
  ns_is_read :: bool
  ns_overflow :: bool

definition ns_capacity :: "lgx_net_stream \<Rightarrow> nat" where "ns_capacity s = length (ns_buf s)"

section \<open>Creation\<close>

definition lgx_net_stream_create :: "bool \<Rightarrow> u8 list option \<Rightarrow> lgx_net_stream option" where
  "lgx_net_stream_create calloc_ok buf =
     (case buf of
        None \<Rightarrow> None
      | Some b \<Rightarrow> if length b = 0 then None else if \<not> calloc_ok then None
                  else Some \<lparr>ns_buf = b, ns_pos = 0, ns_is_read = False, ns_overflow = False\<rparr>)"

definition lgx_net_stream_create_read :: "bool \<Rightarrow> u8 list option \<Rightarrow> lgx_net_stream option" where
  "lgx_net_stream_create_read calloc_ok data =
     (case data of
        None \<Rightarrow> None
      | Some b \<Rightarrow> if length b = 0 then None else if \<not> calloc_ok then None
                  else Some \<lparr>ns_buf = b, ns_pos = 0, ns_is_read = True, ns_overflow = False\<rparr>)"

definition lgx_net_stream_bytes_written :: "lgx_net_stream option \<Rightarrow> nat" where
  "lgx_net_stream_bytes_written s = (case s of None \<Rightarrow> 0 | Some s \<Rightarrow> ns_pos s)"

section \<open>Writing\<close>

text \<open>Stores bytes one after the other from the position on.\<close>

fun put_bytes :: "u8 list \<Rightarrow> lgx_net_stream \<Rightarrow> lgx_net_stream" where
  "put_bytes [] s = s"
| "put_bytes (b # bs) s = put_bytes bs (s\<lparr>ns_buf := (ns_buf s)[ns_pos s := b], ns_pos := ns_pos s + 1\<rparr>)"

definition lgx_net_stream_write_u8 :: "u8 \<Rightarrow> lgx_net_stream option \<Rightarrow> lgx_result \<times> lgx_net_stream option" where
  "lgx_net_stream_write_u8 val s =
     (case s of
        None \<Rightarrow> (LGX_ERROR_INVALID_PARAM, None)
      | Some s \<Rightarrow>
          if ns_is_read s then (LGX_ERROR_INVALID_PARAM, Some s)
          else if ns_pos s + 1 > ns_capacity s then (LGX_ERROR_INVALID_PARAM, Some (s\<lparr>ns_overflow := True\<rparr>))
          else (LGX_SUCCESS, Some (put_bytes [val] s)))"

definition lgx_net_stream_write_u16 :: "u16 \<Rightarrow> lgx_net_stream option \<Rightarrow> lgx_result \<times> lgx_net_stream option" where
  "lgx_net_stream_write_u16 val s =
     (case s of
        None \<Rightarrow> (LGX_ERROR_INVALID_PARAM, None)
      | Some s \<Rightarrow>
          if ns_is_read s then (LGX_ERROR_INVALID_PARAM, Some s)
          else if ns_pos s + 2 > ns_capacity s then (LGX_ERROR_INVALID_PARAM, Some (s\<lparr>ns_overflow := True\<rparr>))
          else (LGX_SUCCESS, Some (put_bytes [ucast (val AND 0xFF), ucast (drop_bit 8 val)] s)))"

definition lgx_net_stream_write_u32 :: "u32 \<Rightarrow> lgx_net_stream option \<Rightarrow> lgx_result \<times> lgx_net_stream option" where
  "lgx_net_stream_write_u32 val s =
     (case s of
        None \<Rightarrow> (LGX_ERROR_INVALID_PARAM, None)
      | Some s \<Rightarrow>
          if ns_is_read s then (LGX_ERROR_INVALID_PARAM, Some s)
          else if ns_pos s + 4 > ns_capacity s then (LGX_ERROR_INVALID_PARAM, Some (s\<lparr>ns_overflow := True\<rparr>))
          else (LGX_SUCCESS,
                Some (put_bytes [ucast (val AND 0xFF), ucast (drop_bit 8 val AND 0xFF), ucast (drop_bit 16 val AND 0xFF),
                                 ucast (drop_bit 24 val AND 0xFF)] s)))"

definition lgx_net_stream_write_f32 :: "u32 \<Rightarrow> lgx_net_stream option \<Rightarrow> lgx_result \<times> lgx_net_stream option" where
  "lgx_net_stream_write_f32 raw s = lgx_net_stream_write_u32 raw s"

text \<open>The bytes of the string that fit into \<open>max_len\<close> with the terminator.\<close>

definition string_len :: "u8 list \<Rightarrow> nat \<Rightarrow> nat" where
  "string_len str max_len = min (length str) (max_len - 1)"

definition lgx_net_stream_write_string :: "u8 list option \<Rightarrow> u16 \<Rightarrow> lgx_net_stream option \<Rightarrow> lgx_result \<times> lgx_net_stream option" where
  "lgx_net_stream_write_string str max_len s =
     (case (s, str) of
        (Some s, Some str) \<Rightarrow>
          let len = string_len str (unat max_len)
          in (case lgx_net_stream_write_u16 (of_nat len) (Some s) of
                (LGX_SUCCESS, Some s) \<Rightarrow>
                  if ns_pos s + len > ns_capacity s then (LGX_ERROR_INVALID_PARAM, Some (s\<lparr>ns_overflow := True\<rparr>))
                  else (LGX_SUCCESS, Some (put_bytes (take len str) s))
              | (r, s) \<Rightarrow> (r, s))
      | _ \<Rightarrow> (LGX_ERROR_INVALID_PARAM, s))"

section \<open>Reading\<close>

definition lgx_net_stream_read_u8 :: "lgx_net_stream option \<Rightarrow> u8 \<times> lgx_net_stream option" where
  "lgx_net_stream_read_u8 s =
     (case s of
        None \<Rightarrow> (0, None)
      | Some s \<Rightarrow>
          if \<not> ns_is_read s \<or> ns_pos s + 1 > ns_capacity s then (0, Some s)
          else (ns_buf s ! ns_pos s, Some (s\<lparr>ns_pos := ns_pos s + 1\<rparr>)))"

definition lgx_net_stream_read_u16 :: "lgx_net_stream option \<Rightarrow> u16 \<times> lgx_net_stream option" where
  "lgx_net_stream_read_u16 s =
     (case s of
        None \<Rightarrow> (0, None)
      | Some s \<Rightarrow>
          if \<not> ns_is_read s \<or> ns_pos s + 2 > ns_capacity s then (0, Some s)
          else (ucast (ns_buf s ! ns_pos s) OR push_bit 8 (ucast (ns_buf s ! (ns_pos s + 1))), Some (s\<lparr>ns_pos := ns_pos s + 2\<rparr>)))"

definition lgx_net_stream_read_u32 :: "lgx_net_stream option \<Rightarrow> u32 \<times> lgx_net_stream option" where
  "lgx_net_stream_read_u32 s =
     (case s of
        None \<Rightarrow> (0, None)
      | Some s \<Rightarrow>
          if \<not> ns_is_read s \<or> ns_pos s + 4 > ns_capacity s then (0, Some s)
          else (ucast (ns_buf s ! ns_pos s) OR push_bit 8 (ucast (ns_buf s ! (ns_pos s + 1))) OR
                push_bit 16 (ucast (ns_buf s ! (ns_pos s + 2))) OR push_bit 24 (ucast (ns_buf s ! (ns_pos s + 3))),
                Some (s\<lparr>ns_pos := ns_pos s + 4\<rparr>)))"

definition lgx_net_stream_read_f32 :: "lgx_net_stream option \<Rightarrow> u32 \<times> lgx_net_stream option" where
  "lgx_net_stream_read_f32 s = lgx_net_stream_read_u32 s"

text \<open>The number returned, the string that then stands in the buffer (unchanged when None), and the stream.\<close>

definition lgx_net_stream_read_string :: "bool \<Rightarrow> u16 \<Rightarrow> lgx_net_stream option \<Rightarrow> nat \<times> u8 list option \<times> lgx_net_stream option" where
  "lgx_net_stream_read_string buf_ok max_len s =
     (if s = None \<or> \<not> buf_ok \<or> max_len = 0 then (0, None, s)
      else
        (case lgx_net_stream_read_u16 s of
           (len, None) \<Rightarrow> (0, None, None)
         | (len, Some s) \<Rightarrow>
             if len = 0 then (0, Some [], Some s)
             else if ns_pos s + unat len > ns_capacity s then (0, Some [], Some s)
             else
               let cp = (if unat len < unat max_len - 1 then unat len else unat max_len - 1)
               in (cp, Some (take cp (drop (ns_pos s) (ns_buf s))), Some (s\<lparr>ns_pos := ns_pos s + unat len\<rparr>))))"

section \<open>Bytes and words\<close>

lemma and_FF: "v AND 0xFF = take_bit 8 v" for v :: "'a::len word"
  by (simp add: take_bit_eq_mask mask_eq_exp_minus_1)

lemma byte_back: "8 \<le> LENGTH('a) \<Longrightarrow> ucast (ucast (v AND 0xFF) :: u8) = take_bit 8 v" for v :: "'a::len word"
  unfolding and_FF by (rule bit_word_eqI) (auto simp: bit_simps)

lemma take_bit_join: "take_bit n v OR push_bit n (take_bit k (drop_bit n v)) = take_bit (n + k) v" for v :: "'a::len word"
  by (rule bit_word_eqI) (auto simp: bit_simps)

lemma take_bit_all: "take_bit LENGTH('a) v = v" for v :: "'a::len word"
  by (rule bit_word_eqI) (auto simp: bit_simps)

lemma u16_bytes: "ucast (ucast (v AND 0xFF) :: u8) OR push_bit 8 (ucast (ucast (drop_bit 8 v) :: u8)) = v" for v :: u16
proof -
  have "n < 8" if "bit v (8 + n)" for n using bit_imp_le_length[OF that] by simp
  then have "drop_bit 8 v AND 0xFF = drop_bit 8 v" unfolding and_FF by (intro bit_word_eqI) (auto simp: bit_simps)
  then have "ucast (ucast (drop_bit 8 v) :: u8) = take_bit 8 (drop_bit 8 v)" using byte_back[of "drop_bit 8 v"] by simp
  then show ?thesis using take_bit_join[of 8 v 8] take_bit_all[of v] by (simp add: byte_back)
qed

lemma u32_bytes:
  "ucast (ucast (v AND 0xFF) :: u8) OR push_bit 8 (ucast (ucast (drop_bit 8 v AND 0xFF) :: u8)) OR
     push_bit 16 (ucast (ucast (drop_bit 16 v AND 0xFF) :: u8)) OR push_bit 24 (ucast (ucast (drop_bit 24 v AND 0xFF) :: u8)) = v"
  for v :: u32
proof -
  have "((take_bit 8 v OR push_bit 8 (take_bit 8 (drop_bit 8 v))) OR push_bit 16 (take_bit 8 (drop_bit 16 v))) OR
      push_bit 24 (take_bit 8 (drop_bit 24 v)) = v"
    using take_bit_join[of 8 v 8] take_bit_join[of 16 v 8] take_bit_join[of 24 v 8] take_bit_all[of v] by simp
  then show ?thesis by (simp add: byte_back or.assoc)
qed

section \<open>The round trip\<close>

text \<open>Values of a message, with what is written and what is read for each; a string carries the size of its buffer on both sides.\<close>

datatype net_value = N8 u8 | N16 u16 | N32 u32 | NF32 u32 | NStr "u8 list" u16

fun write_value :: "net_value \<Rightarrow> lgx_net_stream option \<Rightarrow> lgx_result \<times> lgx_net_stream option" where
  "write_value (N8 v) s = lgx_net_stream_write_u8 v s"
| "write_value (N16 v) s = lgx_net_stream_write_u16 v s"
| "write_value (N32 v) s = lgx_net_stream_write_u32 v s"
| "write_value (NF32 v) s = lgx_net_stream_write_f32 v s"
| "write_value (NStr v n) s = lgx_net_stream_write_string (Some v) n s"

text \<open>Reads a value of the same kind.\<close>

fun read_value :: "net_value \<Rightarrow> lgx_net_stream option \<Rightarrow> net_value \<times> lgx_net_stream option" where
  "read_value (N8 _) s = (case lgx_net_stream_read_u8 s of (v, s) \<Rightarrow> (N8 v, s))"
| "read_value (N16 _) s = (case lgx_net_stream_read_u16 s of (v, s) \<Rightarrow> (N16 v, s))"
| "read_value (N32 _) s = (case lgx_net_stream_read_u32 s of (v, s) \<Rightarrow> (N32 v, s))"
| "read_value (NF32 _) s = (case lgx_net_stream_read_f32 s of (v, s) \<Rightarrow> (NF32 v, s))"
| "read_value (NStr _ n) s = (case lgx_net_stream_read_string True n s of (_, v, s) \<Rightarrow> (NStr (the v) n, s))"

fun write_values :: "net_value list \<Rightarrow> lgx_net_stream option \<Rightarrow> lgx_result \<times> lgx_net_stream option" where
  "write_values [] s = (LGX_SUCCESS, s)"
| "write_values (v # vs) s = (case write_value v s of (r, s) \<Rightarrow> if r = LGX_SUCCESS then write_values vs s else (r, s))"

fun read_values :: "net_value list \<Rightarrow> lgx_net_stream option \<Rightarrow> net_value list \<times> lgx_net_stream option" where
  "read_values [] s = ([], s)"
| "read_values (v # vs) s = (case read_value v s of (w, s) \<Rightarrow> case read_values vs s of (ws, s) \<Rightarrow> (w # ws, s))"

text \<open>What arrives: a string cut to its buffer.\<close>

fun sent :: "net_value \<Rightarrow> net_value" where
  "sent (NStr v n) = NStr (take (unat n - 1) v) n"
| "sent v = v"

fun value_ok :: "net_value \<Rightarrow> bool" where
  "value_ok (NStr v n) = (n \<noteq> 0)"
| "value_ok v = True"

definition value_bytes :: "net_value \<Rightarrow> u8 list" where
  "value_bytes v =
     (case v of
        N8 v \<Rightarrow> [v]
      | N16 v \<Rightarrow> [ucast (v AND 0xFF), ucast (drop_bit 8 v)]
      | N32 v \<Rightarrow> [ucast (v AND 0xFF), ucast (drop_bit 8 v AND 0xFF), ucast (drop_bit 16 v AND 0xFF), ucast (drop_bit 24 v AND 0xFF)]
      | NF32 v \<Rightarrow> [ucast (v AND 0xFF), ucast (drop_bit 8 v AND 0xFF), ucast (drop_bit 16 v AND 0xFF), ucast (drop_bit 24 v AND 0xFF)]
      | NStr v n \<Rightarrow> let len = of_nat (string_len v (unat n)) :: u16
                    in [ucast (len AND 0xFF), ucast (drop_bit 8 len)] @ take (unat n - 1) v)"

lemma put_bytes_eq:
  "ns_pos s + length bs \<le> length (ns_buf s) \<Longrightarrow>
     put_bytes bs s = s\<lparr>ns_buf := take (ns_pos s) (ns_buf s) @ bs @ drop (ns_pos s + length bs) (ns_buf s), ns_pos := ns_pos s + length bs\<rparr>"
proof (induction bs arbitrary: s)
  case (Cons b bs)
  let ?s = "s\<lparr>ns_buf := (ns_buf s)[ns_pos s := b], ns_pos := ns_pos s + 1\<rparr>"
  have "ns_pos ?s + length bs \<le> length (ns_buf ?s)" using Cons.prems by simp
  from Cons.IH[OF this] show ?case using Cons.prems by (simp add: take_Suc_conv_app_nth drop_update_cancel)
qed simp

text \<open>A write appends the bytes of the value at the position, in front of the rest of the buffer.\<close>

definition wrote :: "u8 list \<Rightarrow> lgx_net_stream \<Rightarrow> lgx_net_stream \<Rightarrow> bool" where
  "wrote bs s s' = (ns_pos s + length bs \<le> length (ns_buf s) \<and> ns_is_read s = ns_is_read s' \<and>
     ns_buf s' = take (ns_pos s) (ns_buf s) @ bs @ drop (ns_pos s + length bs) (ns_buf s) \<and> ns_pos s' = ns_pos s + length bs)"

lemma put_bytes_wrote: "ns_pos s + length bs \<le> length (ns_buf s) \<Longrightarrow> wrote bs s (put_bytes bs s)"
  by (simp add: wrote_def put_bytes_eq)

lemma wrote_trans: "wrote xs s t \<Longrightarrow> wrote ys t u \<Longrightarrow> wrote (xs @ ys) s u"
  by (auto simp: wrote_def ac_simps)

lemma wrote_nil: "ns_pos s \<le> length (ns_buf s) \<Longrightarrow> wrote [] s s"
  by (simp add: wrote_def)

lemma result_success: "(r, y) = (LGX_SUCCESS, x) \<longleftrightarrow> r = LGX_SUCCESS \<and> x = y" by auto

lemma write_u16_wrote:
  assumes "lgx_net_stream_write_u16 v (Some s) = (LGX_SUCCESS, s')"
  shows "\<exists>t. s' = Some t \<and> \<not> ns_is_read s \<and> wrote [ucast (v AND 0xFF), ucast (drop_bit 8 v)] s t"
  using assms by (auto simp: lgx_net_stream_write_u16_def ns_capacity_def split: if_splits intro!: put_bytes_wrote simp del: put_bytes.simps)

lemma write_string_wrote:
  assumes "lgx_net_stream_write_string (Some v) n (Some s) = (LGX_SUCCESS, s')"
  shows "\<exists>t. s' = Some t \<and> \<not> ns_is_read s \<and> wrote (value_bytes (NStr v n)) s t"
proof -
  let ?len = "string_len v (unat n)"
  obtain t where t: "lgx_net_stream_write_u16 (of_nat ?len) (Some s) = (LGX_SUCCESS, Some t)" "ns_pos t + ?len \<le> length (ns_buf t)"
    "s' = Some (put_bytes (take ?len v) t)"
    using assms write_u16_wrote
    by (fastforce simp: lgx_net_stream_write_string_def ns_capacity_def Let_def split: prod.splits lgx_result.splits option.splits if_splits)
  have "wrote [ucast ((of_nat ?len :: u16) AND 0xFF), ucast (drop_bit 8 (of_nat ?len :: u16))] s t" "\<not> ns_is_read s"
    using write_u16_wrote[OF t(1)] by auto
  moreover have "wrote (take ?len v) t (put_bytes (take ?len v) t)" by (rule put_bytes_wrote) (use t(2) in auto)
  moreover have "take ?len v = take (unat n - 1) v" by (simp add: string_len_def min_def)
  ultimately show ?thesis using t(3) wrote_trans by (simp add: value_bytes_def Let_def) fastforce
qed

lemma write_value_wrote:
  assumes "write_value v (Some s) = (LGX_SUCCESS, s')"
  shows "\<exists>t. s' = Some t \<and> \<not> ns_is_read s \<and> wrote (value_bytes v) s t"
proof (cases v)
  case (N8 x)
  then show ?thesis using assms
    by (auto simp: lgx_net_stream_write_u8_def ns_capacity_def value_bytes_def split: if_splits intro!: put_bytes_wrote simp del: put_bytes.simps)
next
  case (N16 x)
  then show ?thesis using assms write_u16_wrote by (simp add: value_bytes_def)
next
  case (N32 x)
  then show ?thesis using assms
    by (auto simp: lgx_net_stream_write_u32_def ns_capacity_def value_bytes_def split: if_splits intro!: put_bytes_wrote simp del: put_bytes.simps)
next
  case (NF32 x)
  then show ?thesis using assms
    by (auto simp: lgx_net_stream_write_f32_def lgx_net_stream_write_u32_def ns_capacity_def value_bytes_def split: if_splits intro!: put_bytes_wrote simp del: put_bytes.simps)
next
  case (NStr x n)
  then show ?thesis using assms write_string_wrote by simp
qed

lemma write_values_wrote:
  "write_values vs (Some s) = (LGX_SUCCESS, s') \<Longrightarrow> ns_pos s \<le> length (ns_buf s) \<Longrightarrow>
     \<exists>t. s' = Some t \<and> wrote (concat (map value_bytes vs)) s t"
proof (induction vs arbitrary: s)
  case Nil
  then show ?case using wrote_nil by auto
next
  case (Cons v vs)
  obtain s1 where w: "write_value v (Some s) = (LGX_SUCCESS, s1)" "write_values vs s1 = (LGX_SUCCESS, s')"
    using Cons.prems(1) by (auto split: prod.splits if_splits)
  obtain t where t: "s1 = Some t" "wrote (value_bytes v) s t" using write_value_wrote[OF w(1)] by blast
  have "ns_pos t \<le> length (ns_buf t)" using t(2) by (simp add: wrote_def)
  then obtain u where "s' = Some u" "wrote (concat (map value_bytes vs)) t u" using Cons.IH w(2) t(1) by blast
  then show ?case using wrote_trans[OF t(2)] by auto
qed

text \<open>Reading a value whose bytes stand at the position.\<close>

definition at_pos :: "u8 list \<Rightarrow> lgx_net_stream \<Rightarrow> bool" where
  "at_pos bs s = (ns_is_read s \<and> ns_pos s + length bs \<le> length (ns_buf s) \<and> take (length bs) (drop (ns_pos s) (ns_buf s)) = bs)"

lemma at_pos_nth: "at_pos bs s \<Longrightarrow> i < length bs \<Longrightarrow> ns_buf s ! (ns_pos s + i) = bs ! i"
  unfolding at_pos_def by (metis nth_drop nth_take le_add1 le_trans)

lemma at_pos_append: "at_pos (xs @ ys) s \<longleftrightarrow> at_pos xs s \<and> at_pos ys (s\<lparr>ns_pos := ns_pos s + length xs\<rparr>)"
proof (cases "ns_pos s + length xs + length ys \<le> length (ns_buf s)")
  case True
  let ?b = "drop (ns_pos s) (ns_buf s)"
  have "take (length (xs @ ys)) ?b = take (length xs) ?b @ take (length ys) (drop (ns_pos s + length xs) (ns_buf s))"
    by (simp add: take_add add.commute)
  moreover have "length (take (length xs) ?b) = length xs" using True by simp
  ultimately have "take (length (xs @ ys)) ?b = xs @ ys \<longleftrightarrow>
      take (length xs) ?b = xs \<and> take (length ys) (drop (ns_pos s + length xs) (ns_buf s)) = ys" by (metis append_eq_append_conv)
  then show ?thesis using True by (auto simp: at_pos_def)
qed (auto simp: at_pos_def)

lemma read_u16_at:
  assumes "at_pos [ucast (v AND 0xFF), ucast (drop_bit 8 v)] s"
  shows "lgx_net_stream_read_u16 (Some s) = (v, Some (s\<lparr>ns_pos := ns_pos s + 2\<rparr>))"
proof -
  have "ns_buf s ! ns_pos s = ucast (v AND 0xFF)" "ns_buf s ! (ns_pos s + 1) = ucast (drop_bit 8 v)"
    using at_pos_nth[OF assms, of 0] at_pos_nth[OF assms, of 1] by simp_all
  then show ?thesis using assms u16_bytes[of v] by (simp add: lgx_net_stream_read_u16_def at_pos_def ns_capacity_def)
qed

lemma read_u32_at:
  assumes "at_pos [ucast (v AND 0xFF), ucast (drop_bit 8 v AND 0xFF), ucast (drop_bit 16 v AND 0xFF), ucast (drop_bit 24 v AND 0xFF)] s"
  shows "lgx_net_stream_read_u32 (Some s) = (v, Some (s\<lparr>ns_pos := ns_pos s + 4\<rparr>))"
proof -
  have "ns_buf s ! ns_pos s = ucast (v AND 0xFF)" "ns_buf s ! (ns_pos s + 1) = ucast (drop_bit 8 v AND 0xFF)"
    "ns_buf s ! (ns_pos s + 2) = ucast (drop_bit 16 v AND 0xFF)" "ns_buf s ! (ns_pos s + 3) = ucast (drop_bit 24 v AND 0xFF)"
    using at_pos_nth[OF assms, of 0] at_pos_nth[OF assms, of 1] at_pos_nth[OF assms, of 2] at_pos_nth[OF assms, of 3]
    by (simp_all add: numeral_2_eq_2 numeral_3_eq_3)
  moreover have "ns_is_read s" "ns_pos s + 4 \<le> ns_capacity s" using assms by (auto simp: at_pos_def ns_capacity_def)
  ultimately show ?thesis using u32_bytes[of v] by (simp add: lgx_net_stream_read_u32_def)
qed

lemma read_string_at:
  assumes "at_pos (value_bytes (NStr v n)) s" "n \<noteq> 0"
  shows "\<exists>k. lgx_net_stream_read_string True n (Some s) =
    (k, Some (take (unat n - 1) v), Some (s\<lparr>ns_pos := ns_pos s + length (value_bytes (NStr v n))\<rparr>))"
proof -
  let ?len = "string_len v (unat n)" and ?str = "take (unat n - 1) v"
  have n: "unat n < 65536" using unsigned_less[of n, where ?'a = nat] by simp
  then have u: "unat (of_nat ?len :: u16) = ?len" by (simp add: string_len_def unsigned_of_nat take_bit_nat_eq_self)
  have l: "length ?str = ?len" by (simp add: string_len_def)
  have a: "at_pos [ucast ((of_nat ?len :: u16) AND 0xFF), ucast (drop_bit 8 (of_nat ?len :: u16))] s" "at_pos ?str (s\<lparr>ns_pos := ns_pos s + 2\<rparr>)"
    using assms(1) unfolding value_bytes_def net_value.case Let_def at_pos_append by (simp_all add: numeral_2_eq_2)
  have z: "(of_nat ?len :: u16) = 0 \<longleftrightarrow> ?len = 0" 
  proof
    assume "(of_nat ?len :: u16) = 0"
    then have "unat (of_nat ?len :: u16) = 0" by simp
    then show "?len = 0" using u by simp
  qed simp
  have t: "take ?len (drop (ns_pos s + 2) (ns_buf s)) = ?str" "ns_pos s + 2 + ?len \<le> length (ns_buf s)"
    using a(2) l by (simp_all add: at_pos_def)
  have b: "length (value_bytes (NStr v n)) = 2 + ?len" using l by (simp add: value_bytes_def Let_def)
  have c: "(if ?len < unat n - 1 then ?len else unat n - 1) = ?len" by (simp add: string_len_def)
  have e: "?len = 0 \<Longrightarrow> ?str = []" using l by (metis length_0_conv)
  note rd = read_u16_at[OF a(1)]
  show ?thesis
  proof (cases "?len = 0")
    case True
    then show ?thesis using rd assms(2) z e b by (simp add: lgx_net_stream_read_string_def)
  next
    case False
    define len where "len = ?len"
    define str where "str = ?str"
    have "(of_nat len :: u16) \<noteq> 0" unfolding len_def using z False by blast
    moreover note rd[folded len_def] u[folded len_def] t[folded len_def str_def] b[folded len_def] c[folded len_def]
    ultimately show ?thesis unfolding str_def[symmetric] using assms(2) by (cases "len < unat n - 1") (simp_all add: lgx_net_stream_read_string_def ns_capacity_def Let_def add.assoc)
  qed
qed

lemma read_value_at:
  assumes "at_pos (value_bytes v) s" "value_ok v"
  shows "read_value v (Some s) = (sent v, Some (s\<lparr>ns_pos := ns_pos s + length (value_bytes v)\<rparr>))"
proof (cases v)
  case (N8 x)
  then show ?thesis using assms at_pos_nth[OF assms(1), of 0] by (simp add: lgx_net_stream_read_u8_def ns_capacity_def at_pos_def value_bytes_def)
next
  case (N16 x)
  then show ?thesis using assms read_u16_at[of x s] by (simp add: value_bytes_def)
next
  case (N32 x)
  then show ?thesis using assms read_u32_at[of x s] by (simp add: value_bytes_def)
next
  case (NF32 x)
  then show ?thesis using assms read_u32_at[of x s] by (simp add: value_bytes_def lgx_net_stream_read_f32_def)
next
  case (NStr x n)
  then show ?thesis using assms read_string_at[of x n s] by auto
qed

lemma read_values_at:
  "at_pos (concat (map value_bytes vs)) s \<Longrightarrow> \<forall>v \<in> set vs. value_ok v \<Longrightarrow>
     read_values vs (Some s) = (map sent vs, Some (s\<lparr>ns_pos := ns_pos s + length (concat (map value_bytes vs))\<rparr>))"
proof (induction vs arbitrary: s)
  case (Cons v vs)
  let ?s = "s\<lparr>ns_pos := ns_pos s + length (value_bytes v)\<rparr>"
  have a: "at_pos (value_bytes v) s" "at_pos (concat (map value_bytes vs)) ?s" using Cons.prems(1) by (simp_all add: at_pos_append)
  show ?case using read_value_at[OF a(1)] Cons.IH[OF a(2)] Cons.prems(2) by (simp add: add.assoc)
qed simp

lemma write_value_fits:
  assumes "\<not> ns_is_read s" "ns_pos s + length (value_bytes v) \<le> length (ns_buf s)"
  shows "fst (write_value v (Some s)) = LGX_SUCCESS"
proof (cases v)
  case (NStr x n)
  have l: "length (take (unat n - 1) x) = string_len x (unat n)" by (simp add: string_len_def)
  then have f: "ns_pos s + 2 + string_len x (unat n) \<le> length (ns_buf s)" using assms(2) NStr by (simp add: value_bytes_def Let_def)
  let ?w = "[ucast ((of_nat (string_len x (unat n)) :: u16) AND 0xFF), ucast (drop_bit 8 (of_nat (string_len x (unat n)) :: u16))]"
  have "wrote ?w s (put_bytes ?w s)" by (rule put_bytes_wrote) (use f in simp)
  then have "ns_pos (put_bytes ?w s) = ns_pos s + 2" "length (ns_buf (put_bytes ?w s)) = length (ns_buf s)" by (auto simp: wrote_def)
  then show ?thesis using assms(1) f NStr
    by (simp add: lgx_net_stream_write_string_def lgx_net_stream_write_u16_def ns_capacity_def Let_def del: put_bytes.simps)
qed (use assms in \<open>simp_all add: value_bytes_def lgx_net_stream_write_u8_def lgx_net_stream_write_u16_def lgx_net_stream_write_u32_def
  lgx_net_stream_write_f32_def ns_capacity_def\<close>)

lemma write_values_fit:
  "\<not> ns_is_read s \<Longrightarrow> ns_pos s + length (concat (map value_bytes vs)) \<le> length (ns_buf s) \<Longrightarrow>
     \<exists>t. write_values vs (Some s) = (LGX_SUCCESS, Some t)"
proof (induction vs arbitrary: s)
  case (Cons v vs)
  obtain s' where w: "write_value v (Some s) = (LGX_SUCCESS, s')" using write_value_fits[of s v] Cons.prems by (cases "write_value v (Some s)") auto
  then obtain t where t: "s' = Some t" "wrote (value_bytes v) s t" using write_value_wrote by blast
  then have "\<not> ns_is_read t" "ns_pos t + length (concat (map value_bytes vs)) \<le> length (ns_buf t)" using Cons.prems by (auto simp: wrote_def)
  then show ?case using Cons.IH w t by simp
qed simp

text \<open>
  C26. Messages arrive: values are written into a buffer without an error exactly when their bytes fit; then the stream never leaves the
  buffer, and reading values of the same kinds from the bytes written gives back the values, strings cut to their buffers, and
  consumes every byte.
\<close>

theorem net_stream_roundtrip:
  assumes "b \<noteq> []" "\<forall>v \<in> set vs. value_ok v" "length (concat (map value_bytes vs)) \<le> length b"
  shows "\<exists>t. write_values vs (lgx_net_stream_create True (Some b)) = (LGX_SUCCESS, Some t) \<and> length (ns_buf t) = length b \<and>
    (let msg = take (lgx_net_stream_bytes_written (Some t)) (ns_buf t); r = read_values vs (lgx_net_stream_create_read True (Some msg))
     in fst r = map sent vs \<and> lgx_net_stream_bytes_written (snd r) = length msg)"
proof -
  define bs where "bs = concat (map value_bytes vs)"
  let ?s = "\<lparr>ns_buf = b, ns_pos = 0, ns_is_read = False, ns_overflow = False\<rparr>"
  have c: "lgx_net_stream_create True (Some b) = Some ?s" using assms(1) by (simp add: lgx_net_stream_create_def)
  obtain t where t: "write_values vs (Some ?s) = (LGX_SUCCESS, Some t)" using write_values_fit[of ?s vs] assms(3) by auto
  have w: "wrote bs ?s t" using write_values_wrote[OF t] by (simp add: bs_def)
  then have m: "take (ns_pos t) (ns_buf t) = bs" "length (ns_buf t) = length b" by (auto simp: wrote_def)
  let ?r = "\<lparr>ns_buf = bs, ns_pos = 0, ns_is_read = True, ns_overflow = False\<rparr>"
  have r: "read_values vs (lgx_net_stream_create_read True (Some bs)) = (map sent vs, if bs = [] then None else Some (?r\<lparr>ns_pos := length bs\<rparr>))"
  proof (cases "bs = []")
    case True
    have "value_bytes v \<noteq> []" for v by (cases v) (simp_all add: value_bytes_def Let_def)
    then have "vs = []" using True by (cases vs) (auto simp: bs_def)
    then show ?thesis using True by (simp add: lgx_net_stream_create_read_def)
  next
    case False
    have "at_pos (concat (map value_bytes vs)) ?r" by (simp add: at_pos_def bs_def)
    from read_values_at[OF this assms(2)] have "read_values vs (Some ?r) = (map sent vs, Some (?r\<lparr>ns_pos := length bs\<rparr>))"
      unfolding bs_def[symmetric] by simp
    then show ?thesis using False by (simp add: lgx_net_stream_create_read_def)
  qed
  have "lgx_net_stream_bytes_written (snd (read_values vs (lgx_net_stream_create_read True (Some bs)))) = length bs"
    unfolding r by (simp add: lgx_net_stream_bytes_written_def)
  moreover have tk: "take (lgx_net_stream_bytes_written (Some t)) (ns_buf t) = bs" using m(1) by (simp add: lgx_net_stream_bytes_written_def)
  moreover have "fst (read_values vs (lgx_net_stream_create_read True (Some bs))) = map sent vs" unfolding r by simp
  ultimately show ?thesis using t m(2) unfolding c Let_def by (metis tk)
qed

definition demo_message :: "net_value list" where "demo_message = [N16 4660, NStr [104, 105] 8]"

lemma demo_message_facts:
  "\<forall>v \<in> set demo_message. value_ok v" "length (concat (map value_bytes demo_message)) \<le> length (replicate 8 (0 :: u8))"
  "map sent demo_message = demo_message"
  by (simp_all add: demo_message_def value_bytes_def Let_def)

theorem net_stream_roundtrip_witness:
  "\<exists>t. write_values demo_message (lgx_net_stream_create True (Some (replicate 8 0))) = (LGX_SUCCESS, Some t) \<and>
    (let msg = take (lgx_net_stream_bytes_written (Some t)) (ns_buf t)
     in fst (read_values demo_message (lgx_net_stream_create_read True (Some msg))) = demo_message)"
  using net_stream_roundtrip[OF _ demo_message_facts(1,2)] by (auto simp: Let_def demo_message_facts(3))

text \<open>A string that does not fit leaves its length in the stream.\<close>

lemma string_write_partial:
  "lgx_net_stream_write_string (Some [1, 2, 3]) 16 (lgx_net_stream_create True (Some [0, 0, 0, 0])) =
     (LGX_ERROR_INVALID_PARAM, Some \<lparr>ns_buf = [3, 0, 0, 0], ns_pos = 2, ns_is_read = False, ns_overflow = True\<rparr>)"
  by (simp add: lgx_net_stream_write_string_def lgx_net_stream_create_def lgx_net_stream_write_u16_def ns_capacity_def string_len_def)

end
