(* ===== verification/Net_Socket.thy ===== *)
theory Net_Socket
  imports Net_Stream
begin

text \<open>
  Sockets and the table of connections of the network module (\<^verbatim>\<open>src/net/lgx_net.c\<close>). What the operating system answers is an argument: whether the socket
  could be created and bound, what \<open>sendto\<close> and \<open>recvfrom\<close> return, the address of a host, the clock in milliseconds. A
  closed socket is \<^const>\<open>None\<close>. The sequence numbers of a connection are set and never used; its round trip time is a rational.
\<close>

section \<open>State\<close>

definition DEFAULT_MAX_CONNECTIONS :: u32 where "DEFAULT_MAX_CONNECTIONS = 32"
definition DEFAULT_TIMEOUT_MS :: u32 where "DEFAULT_TIMEOUT_MS = 5000"
definition DEFAULT_TICK_RATE :: u32 where "DEFAULT_TICK_RATE = 60"

record lgx_net_addr =
  na_ip :: u32
  na_port :: u16

record connection =
  cn_active :: bool
  cn_addr :: lgx_net_addr
  cn_last_recv_ms :: u64
  cn_rtt_ms :: rat
  cn_seq_out :: u32
  cn_seq_in :: u32

record lgx_net_config =
  nc_max_connections :: u32
  nc_timeout_ms :: u32
  nc_tick_rate :: u32

record lgx_net_socket =
  so_fd_open :: bool
  so_bound :: bool
  so_connections :: "connection list"
  so_max_connections :: u32
  so_timeout_ms :: u32
  so_tick_rate :: u32

definition zero_connection :: connection where
  "zero_connection = \<lparr>cn_active = False, cn_addr = \<lparr>na_ip = 0, na_port = 0\<rparr>, cn_last_recv_ms = 0, cn_rtt_ms = 0, cn_seq_out = 0, cn_seq_in = 0\<rparr>"

section \<open>Sockets\<close>

text \<open>The conversion of a result to \<open>int\<close>: the low 32 bits, signed.\<close>

definition to_int :: "int \<Rightarrow> int" where "to_int n = sint (word_of_int n :: 32 word)"

lemma to_int_small: "- (2 ^ 31) \<le> n \<Longrightarrow> n < 2 ^ 31 \<Longrightarrow> to_int n = n"
  unfolding to_int_def by (simp add: signed_of_int signed_take_bit_int_eq_self)

lemma to_int_inj: "to_int (int k) = int i \<Longrightarrow> k < 2 ^ 32 \<Longrightarrow> k = i"
proof -
  assume a: "to_int (int k) = int i" and k: "k < 2 ^ 32"
  have s: "signed_take_bit 31 (int k) = int i" using a by (simp add: to_int_def signed_of_nat)
  then have "take_bit 32 (int k) = take_bit 32 (int i)" using take_bit_signed_take_bit[of 32 31 "int k"] by simp
  moreover have "int i < 2 ^ 31" using s signed_take_bit_int_less_exp[of 31 "int k"] by simp
  ultimately show "k = i" using k by (simp add: take_bit_int_eq_self)
qed

definition net_option :: "(lgx_net_config \<Rightarrow> u32) \<Rightarrow> u32 \<Rightarrow> lgx_net_config option \<Rightarrow> u32" where
  "net_option f d config = (case config of None \<Rightarrow> d | Some c \<Rightarrow> if f c > 0 then f c else d)"

definition lgx_net_socket_create :: "bool \<Rightarrow> bool \<Rightarrow> lgx_net_config option \<Rightarrow> lgx_net_socket option" where
  "lgx_net_socket_create calloc_ok socket_ok config =
     (if \<not> calloc_ok then None
      else
        let mx = net_option nc_max_connections DEFAULT_MAX_CONNECTIONS config
        in Some \<lparr>so_fd_open = socket_ok, so_bound = False, so_connections = replicate (unat mx) zero_connection, so_max_connections = mx,
                 so_timeout_ms = net_option nc_timeout_ms DEFAULT_TIMEOUT_MS config,
                 so_tick_rate = net_option nc_tick_rate DEFAULT_TICK_RATE config\<rparr>)"

definition lgx_net_socket_bind :: "bool \<Rightarrow> lgx_net_socket option \<Rightarrow> lgx_result \<times> lgx_net_socket option" where
  "lgx_net_socket_bind bind_ok sock =
     (case sock of
        None \<Rightarrow> (LGX_ERROR_INVALID_PARAM, None)
      | Some s \<Rightarrow>
          if \<not> so_fd_open s then (LGX_ERROR_INVALID_PARAM, sock)
          else if \<not> bind_ok then (LGX_ERROR_INVALID_PARAM, sock)
          else (LGX_SUCCESS, Some (s\<lparr>so_bound := True\<rparr>)))"

text \<open>The result of a send, and the datagram that goes out.\<close>

definition lgx_net_socket_send ::
    "(lgx_net_addr \<Rightarrow> u8 list \<Rightarrow> int) \<Rightarrow> lgx_net_addr option \<Rightarrow> u8 list option \<Rightarrow> lgx_net_socket option \<Rightarrow> int" where
  "lgx_net_socket_send sendto addr data sock =
     (case (sock, addr, data) of
        (Some s, Some a, Some d) \<Rightarrow> if length d = 0 then -1 else if \<not> so_fd_open s then -1 else to_int (sendto a d)
      | _ \<Rightarrow> -1)"

datatype recvfrom_result = Recv_again | Recv_error | Recv_from lgx_net_addr "u8 list"

fun refresh :: "lgx_net_addr \<Rightarrow> u64 \<Rightarrow> connection list \<Rightarrow> connection list" where
  "refresh a now [] = []"
| "refresh a now (c # cs) =
     (if cn_active c \<and> na_ip (cn_addr c) = na_ip a \<and> na_port (cn_addr c) = na_port a
      then c\<lparr>cn_last_recv_ms := now\<rparr> # cs
      else c # refresh a now cs)"

text \<open>The number returned, the sender, the data and the socket; \<open>recvfrom\<close> gives at most \<open>max_len\<close> bytes.\<close>

definition lgx_net_socket_recv ::
    "(nat \<Rightarrow> recvfrom_result) \<Rightarrow> u64 \<Rightarrow> bool \<Rightarrow> nat \<Rightarrow> lgx_net_socket option \<Rightarrow>
       int \<times> lgx_net_addr option \<times> u8 list \<times> lgx_net_socket option" where
  "lgx_net_socket_recv recvfrom now buf_ok max_len sock =
     (case sock of
        None \<Rightarrow> (-1, None, [], None)
      | Some s \<Rightarrow>
          if \<not> buf_ok \<or> max_len = 0 then (-1, None, [], sock)
          else if \<not> so_fd_open s then (-1, None, [], sock)
          else
            (case recvfrom max_len of
               Recv_again \<Rightarrow> (0, None, [], sock)
             | Recv_error \<Rightarrow> (-1, None, [], sock)
             | Recv_from a d \<Rightarrow>
                 (to_int (int (length d)), Some a, d,
                  Some (if length d > 0 then s\<lparr>so_connections := refresh a now (so_connections s)\<rparr> else s))))"

section \<open>Connections\<close>

fun free_slot :: "connection list \<Rightarrow> nat option" where
  "free_slot [] = None"
| "free_slot (c # cs) = (if \<not> cn_active c then Some 0 else map_option Suc (free_slot cs))"

definition lgx_net_connect ::
    "(string \<Rightarrow> u32 option) \<Rightarrow> u64 \<Rightarrow> string option \<Rightarrow> u16 \<Rightarrow> lgx_net_socket option \<Rightarrow> int \<times> lgx_net_socket option" where
  "lgx_net_connect gethostbyname now host port sock =
     (case (sock, host) of
        (Some s, Some h) \<Rightarrow>
          (case gethostbyname h of
             None \<Rightarrow> (-1, sock)
           | Some ip \<Rightarrow>
               (case free_slot (so_connections s) of
                  None \<Rightarrow> (-1, sock)
                | Some i \<Rightarrow>
                    (to_int (int i), Some (s\<lparr>so_connections := (so_connections s)[i :=
                       \<lparr>cn_active = True, cn_addr = \<lparr>na_ip = ip, na_port = port\<rparr>, cn_last_recv_ms = now, cn_rtt_ms = 0,
                        cn_seq_out = 0, cn_seq_in = 0\<rparr>]\<rparr>))))
      | _ \<Rightarrow> (-1, sock))"

definition lgx_net_disconnect :: "int \<Rightarrow> lgx_net_socket option \<Rightarrow> lgx_result \<times> lgx_net_socket option" where
  "lgx_net_disconnect conn_id sock =
     (case sock of
        None \<Rightarrow> (LGX_ERROR_INVALID_PARAM, None)
      | Some s \<Rightarrow>
          if conn_id < 0 \<or> nat conn_id \<ge> unat (so_max_connections s) then (LGX_ERROR_INVALID_PARAM, sock)
          else if \<not> cn_active (so_connections s ! nat conn_id) then (LGX_ERROR_INVALID_PARAM, sock)
          else (LGX_SUCCESS,
                Some (s\<lparr>so_connections := (so_connections s)[nat conn_id := (so_connections s ! nat conn_id)\<lparr>cn_active := False\<rparr>]\<rparr>)))"

definition check_timeout :: "u64 \<Rightarrow> u32 \<Rightarrow> connection \<Rightarrow> connection" where
  "check_timeout now timeout c =
     (if \<not> cn_active c then c
      else if now - cn_last_recv_ms c > ucast timeout then c\<lparr>cn_active := False\<rparr> else c)"

definition lgx_net_update :: "u64 \<Rightarrow> lgx_net_socket option \<Rightarrow> lgx_result \<times> lgx_net_socket option" where
  "lgx_net_update now sock =
     (case sock of
        None \<Rightarrow> (LGX_ERROR_INVALID_PARAM, None)
      | Some s \<Rightarrow> (LGX_SUCCESS, Some (s\<lparr>so_connections := map (check_timeout now (so_timeout_ms s)) (so_connections s)\<rparr>)))"

definition lgx_net_get_connection_count :: "lgx_net_socket option \<Rightarrow> u32" where
  "lgx_net_get_connection_count sock =
     (case sock of None \<Rightarrow> 0 | Some s \<Rightarrow> of_nat (length (filter cn_active (so_connections s))))"

definition lgx_net_get_rtt_ms :: "int \<Rightarrow> lgx_net_socket option \<Rightarrow> rat" where
  "lgx_net_get_rtt_ms conn_id sock =
     (case sock of
        None \<Rightarrow> 0
      | Some s \<Rightarrow>
          if conn_id < 0 \<or> nat conn_id \<ge> unat (so_max_connections s) then 0
          else if \<not> cn_active (so_connections s ! nat conn_id) then 0
          else cn_rtt_ms (so_connections s ! nat conn_id))"

section \<open>Peers\<close>

text \<open>
  What a client knows: the peers it has connected under their numbers, each with the time of the last sign of life of that
  number, the clock never going back.
\<close>

inductive net_run :: "lgx_net_socket \<Rightarrow> (nat \<rightharpoonup> lgx_net_addr \<times> u64) \<Rightarrow> u64 \<Rightarrow> bool" where
  create: "lgx_net_socket_create True ok config = Some s \<Longrightarrow> net_run s Map.empty t"
| connect: "net_run s P t \<Longrightarrow> t \<le> now \<Longrightarrow> lgx_net_connect dns now (Some h) port (Some s) = (int i, Some s') \<Longrightarrow> dns h = Some ip \<Longrightarrow>
    net_run s' (P(i \<mapsto> (\<lparr>na_ip = ip, na_port = port\<rparr>, now))) now"
| disconnect: "net_run s P t \<Longrightarrow> lgx_net_disconnect (int i) (Some s) = (LGX_SUCCESS, Some s') \<Longrightarrow> net_run s' (P(i := None)) t"
| recv: "net_run s P t \<Longrightarrow> t \<le> now \<Longrightarrow> lgx_net_socket_recv rf now True n (Some s) = (r, Some a, d, Some s') \<Longrightarrow> d \<noteq> [] \<Longrightarrow>
    net_run s' (if \<exists>i k. P i = Some (a, k) then P((LEAST i. \<exists>k. P i = Some (a, k)) \<mapsto> (a, now)) else P) now"
| update: "net_run s P t \<Longrightarrow> t \<le> now \<Longrightarrow> lgx_net_update now (Some s) = (r, Some s') \<Longrightarrow>
    net_run s' (\<lambda>i. case P i of Some (a, k) \<Rightarrow> if now - k > ucast (so_timeout_ms s) then None else Some (a, k) | None \<Rightarrow> None) now"

definition peers :: "connection list \<Rightarrow> nat \<rightharpoonup> lgx_net_addr \<times> u64" where
  "peers cs i = (if i < length cs \<and> cn_active (cs ! i) then Some (cn_addr (cs ! i), cn_last_recv_ms (cs ! i)) else None)"

definition net_inv :: "lgx_net_socket \<Rightarrow> (nat \<rightharpoonup> lgx_net_addr \<times> u64) \<Rightarrow> bool" where
  "net_inv s P = (P = peers (so_connections s) \<and> length (so_connections s) = unat (so_max_connections s) \<and>
     (\<forall>c \<in> set (so_connections s). cn_rtt_ms c = 0))"

lemma free_slot_Some: "free_slot cs = Some i \<Longrightarrow> i < length cs \<and> \<not> cn_active (cs ! i) \<and> (\<forall>j<i. cn_active (cs ! j))"
proof (induction cs arbitrary: i)
  case (Cons c cs)
  show ?case
  proof (cases "cn_active c")
    case True
    then obtain k where "free_slot cs = Some k" "i = Suc k" using Cons.prems by auto
    then show ?thesis using Cons.IH[of k] True by (auto simp: less_Suc_eq_0_disj)
  next
    case False
    then show ?thesis using Cons.prems by auto
  qed
qed simp

lemma free_slot_None: "free_slot cs = None \<longleftrightarrow> (\<forall>c \<in> set cs. cn_active c)"
  by (induction cs) auto

lemma peers_upd: "i < length cs \<Longrightarrow> peers (cs[i := c]) = (peers cs)(i := if cn_active c then Some (cn_addr c, cn_last_recv_ms c) else None)"
  by (auto simp: peers_def nth_list_update fun_eq_iff)

definition from_peer :: "lgx_net_addr \<Rightarrow> connection \<Rightarrow> bool" where
  "from_peer a c = (cn_active c \<and> cn_addr c = a)"

lemma from_peer_eq: "cn_active c \<and> na_ip (cn_addr c) = na_ip a \<and> na_port (cn_addr c) = na_port a \<longleftrightarrow> from_peer a c"
  by (cases "cn_addr c"; cases a) (auto simp: from_peer_def)

lemma refresh_cases:
  "(refresh a now cs = cs \<and> (\<forall>i<length cs. \<not> from_peer a (cs ! i))) \<or>
   (\<exists>i<length cs. from_peer a (cs ! i) \<and> (\<forall>j<i. \<not> from_peer a (cs ! j)) \<and> refresh a now cs = cs[i := (cs ! i)\<lparr>cn_last_recv_ms := now\<rparr>])"
proof (induction cs)
  case (Cons c cs)
  show ?case
  proof (cases "from_peer a c")
    case True
    then show ?thesis by (auto simp: from_peer_eq)
  next
    case False
    from Cons show ?thesis
    proof (elim disjE conjE exE)
      assume "refresh a now cs = cs" "\<forall>i<length cs. \<not> from_peer a (cs ! i)"
      then show ?thesis using False by (auto simp: from_peer_eq nth_Cons split: nat.splits)
    next
      fix i assume "i < length cs" "from_peer a (cs ! i)" "\<forall>j<i. \<not> from_peer a (cs ! j)" "refresh a now cs = cs[i := (cs ! i)\<lparr>cn_last_recv_ms := now\<rparr>]"
      then have "Suc i < length (c # cs) \<and> from_peer a ((c # cs) ! Suc i) \<and> (\<forall>j<Suc i. \<not> from_peer a ((c # cs) ! j)) \<and>
          refresh a now (c # cs) = (c # cs)[Suc i := ((c # cs) ! Suc i)\<lparr>cn_last_recv_ms := now\<rparr>]"
        using False by (auto simp: from_peer_eq nth_Cons split: nat.splits)
      then show ?thesis by blast
    qed
  qed
qed simp

lemma from_peer_peers: "i < length cs \<Longrightarrow> from_peer a (cs ! i) \<longleftrightarrow> (\<exists>k. peers cs i = Some (a, k))"
  by (auto simp: from_peer_def peers_def)

lemma refresh_peers:
  "peers (refresh a now cs) =
     (if \<exists>i k. peers cs i = Some (a, k) then (peers cs)((LEAST i. \<exists>k. peers cs i = Some (a, k)) \<mapsto> (a, now)) else peers cs)"
proof -
  have in_range: "peers cs i = Some x \<Longrightarrow> i < length cs" for i x by (auto simp: peers_def split: if_splits)
  from refresh_cases[of a now cs] show ?thesis
  proof (elim disjE conjE exE)
    assume "refresh a now cs = cs" "\<forall>i<length cs. \<not> from_peer a (cs ! i)"
    then show ?thesis using from_peer_peers in_range by (metis (no_types, lifting))
  next
    fix i assume i: "i < length cs" "from_peer a (cs ! i)" "\<forall>j<i. \<not> from_peer a (cs ! j)" "refresh a now cs = cs[i := (cs ! i)\<lparr>cn_last_recv_ms := now\<rparr>]"
    have "(LEAST i. \<exists>k. peers cs i = Some (a, k)) = i"
      by (rule Least_equality) (use i from_peer_peers in \<open>auto simp: not_less[symmetric]\<close>)
    moreover have "\<exists>i k. peers cs i = Some (a, k)" using i from_peer_peers by blast
    ultimately show ?thesis using i by (simp add: peers_upd from_peer_def)
  qed
qed

lemma refresh_length [simp]: "length (refresh a now cs) = length cs"
  using refresh_cases[of a now cs] by auto

lemma refresh_rtt: "\<forall>c \<in> set cs. cn_rtt_ms c = 0 \<Longrightarrow> \<forall>c \<in> set (refresh a now cs). cn_rtt_ms c = 0"
  by (induction cs) auto

lemma net_run_inv: "net_run s P t \<Longrightarrow> net_inv s P"
proof (induction rule: net_run.induct)
  case (create ok config s t)
  then show ?case by (auto simp: lgx_net_socket_create_def net_inv_def Let_def peers_def zero_connection_def fun_eq_iff)
next
  case (connect s P t now dns h port i s' ip)
  then obtain k where k: "free_slot (so_connections s) = Some k" by (auto simp: lgx_net_connect_def split: option.splits)
  have kl: "k < length (so_connections s)" using free_slot_Some[OF k] by blast
  then have "k < 2 ^ 32" using connect.IH unsigned_less[of "so_max_connections s", where ?'a = nat] by (simp add: net_inv_def)
  moreover have "to_int (int k) = int i" using connect(3,4) k by (simp add: lgx_net_connect_def)
  ultimately have "k = i" by (rule to_int_inj[rotated])
  then show ?case using connect k kl by (auto simp: lgx_net_connect_def net_inv_def peers_upd dest!: set_update_subset_insert[THEN subsetD])
next
  case (disconnect s P t i s')
  then have "i < length (so_connections s)" by (auto simp: lgx_net_disconnect_def net_inv_def split: if_splits)
  then show ?case using disconnect
    by (auto simp: lgx_net_disconnect_def net_inv_def peers_upd split: if_splits dest!: set_update_subset_insert[THEN subsetD])
next
  case (recv s P t now rf n r a d s')
  then have "s' = s\<lparr>so_connections := refresh a now (so_connections s)\<rparr>"
    by (auto simp: lgx_net_socket_recv_def split: if_splits recvfrom_result.splits)
  then show ?case using recv.IH refresh_rtt[of "so_connections s" a now] by (simp add: net_inv_def refresh_peers)
next
  case (update s P t now r s')
  then show ?case by (auto simp: lgx_net_update_def net_inv_def peers_def check_timeout_def fun_eq_iff split: option.splits)
qed

lemma card_peers: "card (dom (peers cs)) = length (filter cn_active cs)"
proof -
  have "dom (peers cs) = {i. i < length cs \<and> cn_active (cs ! i)}" by (auto simp: peers_def split: if_splits)
  then show ?thesis by (simp add: length_filter_conv_card)
qed

text \<open>
  C28. The table of connections is a finite map of peers: after any connects, disconnects, receives and updates the count is the number of
  connected peers, never above the maximum; for a maximum of at most \<open>2 ^ 31\<close> and a host that resolves, a new connection gets a number that no peer has
  as long as there is room and \<open>-1\<close> otherwise; an update removes exactly the peers that have been silent for longer than the timeout.
\<close>

theorem net_connections_refine:
  assumes run: "net_run s P t" and now: "t \<le> now" and dns: "dns h = Some ip" and mx: "unat (so_max_connections s) \<le> 2 ^ 31"
  shows "unat (lgx_net_get_connection_count (Some s)) = card (dom P) \<and> card (dom P) \<le> unat (so_max_connections s) \<and>
    (if card (dom P) < unat (so_max_connections s)
     then \<exists>i s'. lgx_net_connect dns now (Some h) port (Some s) = (int i, Some s') \<and> P i = None \<and>
       net_run s' (P(i \<mapsto> (\<lparr>na_ip = ip, na_port = port\<rparr>, now))) now
     else lgx_net_connect dns now (Some h) port (Some s) = (-1, Some s)) \<and>
    (\<exists>s'. lgx_net_update now (Some s) = (LGX_SUCCESS, Some s') \<and>
       net_run s' (\<lambda>i. case P i of Some (a, k) \<Rightarrow> if now - k > ucast (so_timeout_ms s) then None else Some (a, k) | None \<Rightarrow> None) now)"
proof -
  let ?cs = "so_connections s"
  have inv: "P = peers ?cs" "length ?cs = unat (so_max_connections s)" using net_run_inv[OF run] by (auto simp: net_inv_def)
  have card: "card (dom P) = length (filter cn_active ?cs)" unfolding inv(1) by (rule card_peers)
  have le: "length (filter cn_active ?cs) \<le> unat (so_max_connections s)" using inv(2) length_filter_le[of cn_active ?cs] by simp
  moreover have "unat (so_max_connections s) < 2 ^ 32" using unsigned_less[of "so_max_connections s", where ?'a = nat] by simp
  ultimately have cnt: "unat (lgx_net_get_connection_count (Some s)) = card (dom P)"
    unfolding card by (simp add: lgx_net_get_connection_count_def unsigned_of_nat take_bit_nat_eq_self)
  have con: "if card (dom P) < unat (so_max_connections s)
     then \<exists>i s'. lgx_net_connect dns now (Some h) port (Some s) = (int i, Some s') \<and> P i = None \<and>
       net_run s' (P(i \<mapsto> (\<lparr>na_ip = ip, na_port = port\<rparr>, now))) now
     else lgx_net_connect dns now (Some h) port (Some s) = (-1, Some s)"
  proof (cases "free_slot ?cs")
    case None
    then have "filter cn_active ?cs = ?cs" by (simp add: free_slot_None)
    then show ?thesis using card inv(2) None dns by (simp add: lgx_net_connect_def)
  next
    case (Some i)
    have f: "i < length ?cs" "\<not> cn_active (?cs ! i)" using free_slot_Some[OF Some] by auto
    then have "card (dom P) < unat (so_max_connections s)" unfolding card inv(2)[symmetric] by (metis length_filter_less nth_mem)
    moreover obtain s' where c: "lgx_net_connect dns now (Some h) port (Some s) = (int i, Some s')"
      using Some dns to_int_small[of "int i"] f(1) inv(2) mx by (simp add: lgx_net_connect_def)
    moreover have "P i = None" unfolding inv(1) using f by (simp add: peers_def)
    ultimately show ?thesis using net_run.connect[OF run now c dns] by auto
  qed
  obtain s' where u: "lgx_net_update now (Some s) = (LGX_SUCCESS, Some s')" by (simp add: lgx_net_update_def)
  show ?thesis using cnt le con u net_run.update[OF run now u] unfolding card by blast
qed

definition demo_socket :: lgx_net_socket where
  "demo_socket = the (lgx_net_socket_create True True (Some \<lparr>nc_max_connections = 2, nc_timeout_ms = 100, nc_tick_rate = 60\<rparr>))"

lemma demo_socket_run: "net_run demo_socket Map.empty 0"
  by (rule net_run.create[of True "Some \<lparr>nc_max_connections = 2, nc_timeout_ms = 100, nc_tick_rate = 60\<rparr>"])
    (simp add: demo_socket_def lgx_net_socket_create_def Let_def)

theorem net_connections_refine_witness:
  "unat (lgx_net_get_connection_count (Some demo_socket)) = 0 \<and>
   (\<exists>i s'. lgx_net_connect [''host'' \<mapsto> 7] 5 (Some ''host'') 80 (Some demo_socket) = (int i, Some s') \<and>
      net_run s' [i \<mapsto> (\<lparr>na_ip = 7, na_port = 80\<rparr>, 5)] 5)"
proof -
  have "unat (so_max_connections demo_socket) = 2"
    by (simp add: demo_socket_def lgx_net_socket_create_def Let_def net_option_def)
  then show ?thesis using net_connections_refine[OF demo_socket_run, of 5 "[''host'' \<mapsto> 7]" "''host''" 7 80] by auto
qed

text \<open>With a larger table a connection may get a negative number, which a client takes for a failure.\<close>

lemma connect_number_negative: "to_int (2 ^ 31) = - (2 ^ 31)"
  by (simp add: to_int_def)

text \<open>The round trip time of every connection is zero, whatever was received.\<close>

lemma rtt_never_measured: "net_run s P t \<Longrightarrow> lgx_net_get_rtt_ms i (Some s) = 0"
  using net_run_inv[of s P t] by (auto simp: lgx_net_get_rtt_ms_def net_inv_def not_le)

end
