(* ===== verification/Profiler.thy ===== *)
theory Profiler
  imports C_Text
begin

text \<open>
  The frame profiler (\<^verbatim>\<open>src/profile/lgx_profile.c\<close>): nested zones, named counters and a ring of past frames. The clock is an argument of the
  operations that read it; times in milliseconds and the values of counters are rationals. Arrays are lists with the length that the code allocates. A
  \<open>NULL\<close> context is \<^const>\<open>None\<close>. \<open>lgx_prof_create\<close> does not check whether the zones of the frame records
  could be allocated, so they are an option, and storing zones without them is the missing result of \<open>lgx_prof_frame_end\<close>.
\<close>

section \<open>State\<close>

definition DEFAULT_MAX_ZONES :: u32 where "DEFAULT_MAX_ZONES = 256"
definition DEFAULT_MAX_COUNTERS :: u32 where "DEFAULT_MAX_COUNTERS = 64"
definition DEFAULT_MAX_FRAMES :: u32 where "DEFAULT_MAX_FRAMES = 120"

record zone_entry =
  zn_name :: string
  zn_start_ns :: u64
  zn_duration_ns :: u64
  zn_depth :: nat
  zn_closed :: bool

record counter_entry =
  ct_name :: string
  ct_value :: rat
  ct_used :: bool

record frame_record =
  fr_frame_time_ms :: rat
  fr_zones :: "zone_entry list option"
  fr_zone_count :: nat

record lgx_prof_context =
  pc_enabled :: bool
  pc_frame_start_ns :: u64
  pc_zones :: "zone_entry list"
  pc_zone_count :: nat
  pc_zone_stack :: "nat list"
  pc_zone_depth :: nat
  pc_counters :: "counter_entry list"
  pc_frames :: "frame_record list"
  pc_frame_head :: nat
  pc_frame_stored :: nat
  pc_total_frames :: u64
  pc_last_frame_ms :: rat
  pc_last_zones :: "zone_entry list"
  pc_last_zone_count :: nat

record lgx_prof_config =
  pf_enabled :: bool
  pf_max_zones :: u32
  pf_max_counters :: u32
  pf_max_frames :: u32

abbreviation pc_max_zones :: "lgx_prof_context \<Rightarrow> nat" where "pc_max_zones c \<equiv> length (pc_zones c)"
abbreviation pc_max_frames :: "lgx_prof_context \<Rightarrow> nat" where "pc_max_frames c \<equiv> length (pc_frames c)"

definition ns_to_ms :: "u64 \<Rightarrow> rat" where "ns_to_ms ns = of_nat (unat ns) / 1000000"

definition zero_zone :: zone_entry where
  "zero_zone = \<lparr>zn_name = [], zn_start_ns = 0, zn_duration_ns = 0, zn_depth = 0, zn_closed = False\<rparr>"

definition zero_counter :: counter_entry where
  "zero_counter = \<lparr>ct_name = [], ct_value = 0, ct_used = False\<rparr>"

definition prof_option :: "(lgx_prof_config \<Rightarrow> u32) \<Rightarrow> u32 \<Rightarrow> lgx_prof_config option \<Rightarrow> nat" where
  "prof_option f d config = unat (case config of None \<Rightarrow> d | Some c \<Rightarrow> if f c > 0 then f c else d)"

definition lgx_prof_create :: "bool \<Rightarrow> (nat \<Rightarrow> bool) \<Rightarrow> lgx_prof_config option \<Rightarrow> lgx_prof_context option" where
  "lgx_prof_create calloc_ok frame_ok config =
     (if \<not> calloc_ok then None
      else
        let mz = prof_option pf_max_zones DEFAULT_MAX_ZONES config;
            mc = prof_option pf_max_counters DEFAULT_MAX_COUNTERS config;
            mf = prof_option pf_max_frames DEFAULT_MAX_FRAMES config
        in Some \<lparr>pc_enabled = (case config of None \<Rightarrow> True | Some c \<Rightarrow> pf_enabled c), pc_frame_start_ns = 0,
                 pc_zones = replicate mz zero_zone, pc_zone_count = 0, pc_zone_stack = replicate 64 0, pc_zone_depth = 0,
                 pc_counters = replicate mc zero_counter,
                 pc_frames = map (\<lambda>i. \<lparr>fr_frame_time_ms = 0, fr_zones = (if frame_ok i then Some (replicate mz zero_zone) else None),
                                      fr_zone_count = 0\<rparr>) [0..<mf],
                 pc_frame_head = 0, pc_frame_stored = 0, pc_total_frames = 0, pc_last_frame_ms = 0,
                 pc_last_zones = replicate mz zero_zone, pc_last_zone_count = 0\<rparr>)"

section \<open>Frames\<close>

definition lgx_prof_frame_begin :: "u64 \<Rightarrow> lgx_prof_context option \<Rightarrow> lgx_result \<times> lgx_prof_context option" where
  "lgx_prof_frame_begin now ctx =
     (case ctx of
        None \<Rightarrow> (LGX_ERROR_INVALID_PARAM, None)
      | Some c \<Rightarrow>
          if \<not> pc_enabled c then (LGX_SUCCESS, ctx)
          else (LGX_SUCCESS, Some (c\<lparr>pc_frame_start_ns := now, pc_zone_count := 0, pc_zone_depth := 0\<rparr>)))"

definition copy_zones :: "nat \<Rightarrow> zone_entry list \<Rightarrow> zone_entry list \<Rightarrow> zone_entry list" where
  "copy_zones n src dst = take n src @ drop n dst"

definition lgx_prof_frame_end :: "u64 \<Rightarrow> lgx_prof_context option \<Rightarrow> (lgx_result \<times> lgx_prof_context option) option" where
  "lgx_prof_frame_end end_ns ctx =
     (case ctx of
        None \<Rightarrow> Some (LGX_ERROR_INVALID_PARAM, None)
      | Some c \<Rightarrow>
          if \<not> pc_enabled c then Some (LGX_SUCCESS, ctx)
          else
            let ms = ns_to_ms (end_ns - pc_frame_start_ns c);
                c = c\<lparr>pc_last_frame_ms := ms, pc_last_zone_count := pc_zone_count c,
                      pc_last_zones := copy_zones (pc_zone_count c) (pc_zones c) (pc_last_zones c)\<rparr>;
                rec = pc_frames c ! pc_frame_head c
            in (case fr_zones rec of
                  None \<Rightarrow> if pc_zone_count c > 0 then None
                          else Some (LGX_SUCCESS, Some (c\<lparr>
                            pc_frames := (pc_frames c)[pc_frame_head c := rec\<lparr>fr_frame_time_ms := ms, fr_zone_count := 0\<rparr>],
                            pc_frame_head := (pc_frame_head c + 1) mod pc_max_frames c,
                            pc_frame_stored := (if pc_frame_stored c < pc_max_frames c then pc_frame_stored c + 1 else pc_frame_stored c),
                            pc_total_frames := pc_total_frames c + 1\<rparr>))
                | Some zs \<Rightarrow>
                    Some (LGX_SUCCESS, Some (c\<lparr>
                      pc_frames := (pc_frames c)[pc_frame_head c := rec\<lparr>fr_frame_time_ms := ms, fr_zone_count := pc_zone_count c,
                                     fr_zones := Some (copy_zones (pc_zone_count c) (pc_zones c) zs)\<rparr>],
                      pc_frame_head := (pc_frame_head c + 1) mod pc_max_frames c,
                      pc_frame_stored := (if pc_frame_stored c < pc_max_frames c then pc_frame_stored c + 1 else pc_frame_stored c),
                      pc_total_frames := pc_total_frames c + 1\<rparr>))))"

section \<open>Zones\<close>

definition lgx_prof_zone_begin :: "u64 \<Rightarrow> string option \<Rightarrow> lgx_prof_context option \<Rightarrow> lgx_result \<times> lgx_prof_context option" where
  "lgx_prof_zone_begin now name ctx =
     (case (ctx, name) of
        (Some c, Some nm) \<Rightarrow>
          if \<not> pc_enabled c then (LGX_SUCCESS, ctx)
          else if pc_zone_count c \<ge> pc_max_zones c then (LGX_ERROR_INVALID_PARAM, ctx)
          else if pc_zone_depth c \<ge> 64 then (LGX_ERROR_INVALID_PARAM, ctx)
          else
            let idx = pc_zone_count c
            in (LGX_SUCCESS, Some (c\<lparr>pc_zone_count := idx + 1,
                  pc_zones := (pc_zones c)[idx := \<lparr>zn_name = nm, zn_start_ns = now, zn_duration_ns = 0, zn_depth = pc_zone_depth c, zn_closed = False\<rparr>],
                  pc_zone_stack := (pc_zone_stack c)[pc_zone_depth c := idx], pc_zone_depth := pc_zone_depth c + 1\<rparr>))
      | _ \<Rightarrow> (LGX_ERROR_INVALID_PARAM, ctx))"

definition lgx_prof_zone_end :: "u64 \<Rightarrow> lgx_prof_context option \<Rightarrow> lgx_result \<times> lgx_prof_context option" where
  "lgx_prof_zone_end now ctx =
     (case ctx of
        None \<Rightarrow> (LGX_ERROR_INVALID_PARAM, None)
      | Some c \<Rightarrow>
          if \<not> pc_enabled c then (LGX_SUCCESS, ctx)
          else if pc_zone_depth c = 0 then (LGX_ERROR_INVALID_PARAM, ctx)
          else
            let idx = pc_zone_stack c ! (pc_zone_depth c - 1); z = pc_zones c ! idx
            in (LGX_SUCCESS, Some (c\<lparr>pc_zone_depth := pc_zone_depth c - 1,
                  pc_zones := (pc_zones c)[idx := z\<lparr>zn_duration_ns := now - zn_start_ns z, zn_closed := True\<rparr>]\<rparr>)))"

section \<open>Counters\<close>

fun find_used :: "string \<Rightarrow> counter_entry list \<Rightarrow> nat option" where
  "find_used name [] = None"
| "find_used name (c # cs) = (if ct_used c \<and> ct_name c = name then Some 0 else map_option Suc (find_used name cs))"

fun find_unused :: "counter_entry list \<Rightarrow> nat option" where
  "find_unused [] = None"
| "find_unused (c # cs) = (if \<not> ct_used c then Some 0 else map_option Suc (find_unused cs))"

text \<open>The index of the counter, which a new one gets the free place of.\<close>

definition find_counter :: "string \<Rightarrow> bool \<Rightarrow> counter_entry list \<Rightarrow> nat option \<times> counter_entry list" where
  "find_counter name create cs =
     (case find_used name cs of
        Some i \<Rightarrow> (Some i, cs)
      | None \<Rightarrow>
          if \<not> create then (None, cs)
          else
            (case find_unused cs of
               Some i \<Rightarrow> (Some i, cs[i := \<lparr>ct_name = c_copy 64 name, ct_value = 0, ct_used = True\<rparr>])
             | None \<Rightarrow> (None, cs)))"

definition lgx_prof_counter_set :: "string option \<Rightarrow> rat \<Rightarrow> lgx_prof_context option \<Rightarrow> lgx_result \<times> lgx_prof_context option" where
  "lgx_prof_counter_set name v ctx =
     (case (ctx, name) of
        (Some c, Some nm) \<Rightarrow>
          if \<not> pc_enabled c then (LGX_SUCCESS, ctx)
          else
            (case find_counter nm True (pc_counters c) of
               (None, cs) \<Rightarrow> (LGX_ERROR_INVALID_PARAM, Some (c\<lparr>pc_counters := cs\<rparr>))
             | (Some i, cs) \<Rightarrow> (LGX_SUCCESS, Some (c\<lparr>pc_counters := cs[i := (cs ! i)\<lparr>ct_value := v\<rparr>]\<rparr>)))
      | _ \<Rightarrow> (LGX_ERROR_INVALID_PARAM, ctx))"

definition lgx_prof_counter_add :: "string option \<Rightarrow> rat \<Rightarrow> lgx_prof_context option \<Rightarrow> lgx_result \<times> lgx_prof_context option" where
  "lgx_prof_counter_add name delta ctx =
     (case (ctx, name) of
        (Some c, Some nm) \<Rightarrow>
          if \<not> pc_enabled c then (LGX_SUCCESS, ctx)
          else
            (case find_counter nm True (pc_counters c) of
               (None, cs) \<Rightarrow> (LGX_ERROR_INVALID_PARAM, Some (c\<lparr>pc_counters := cs\<rparr>))
             | (Some i, cs) \<Rightarrow> (LGX_SUCCESS, Some (c\<lparr>pc_counters := cs[i := (cs ! i)\<lparr>ct_value := ct_value (cs ! i) + delta\<rparr>]\<rparr>)))
      | _ \<Rightarrow> (LGX_ERROR_INVALID_PARAM, ctx))"

definition lgx_prof_get_counter :: "string option \<Rightarrow> lgx_prof_context option \<Rightarrow> rat" where
  "lgx_prof_get_counter name ctx =
     (case (ctx, name) of
        (Some c, Some nm) \<Rightarrow>
          (case find_counter nm False (pc_counters c) of (Some i, cs) \<Rightarrow> ct_value (cs ! i) | (None, cs) \<Rightarrow> 0)
      | _ \<Rightarrow> 0)"

section \<open>Queries\<close>

definition lgx_prof_get_frame_time_ms :: "lgx_prof_context option \<Rightarrow> rat" where
  "lgx_prof_get_frame_time_ms ctx = (case ctx of None \<Rightarrow> 0 | Some c \<Rightarrow> pc_last_frame_ms c)"

fun zone_time :: "string \<Rightarrow> zone_entry list \<Rightarrow> rat" where
  "zone_time name [] = 0"
| "zone_time name (z # zs) = (if zn_name z = name then ns_to_ms (zn_duration_ns z) else zone_time name zs)"

definition lgx_prof_get_zone_time_ms :: "string option \<Rightarrow> lgx_prof_context option \<Rightarrow> rat" where
  "lgx_prof_get_zone_time_ms name ctx =
     (case (ctx, name) of
        (Some c, Some nm) \<Rightarrow> zone_time nm (take (pc_last_zone_count c) (pc_last_zones c))
      | _ \<Rightarrow> 0)"

definition lgx_prof_get_fps :: "lgx_prof_context option \<Rightarrow> rat" where
  "lgx_prof_get_fps ctx =
     (case ctx of
        None \<Rightarrow> 0
      | Some c \<Rightarrow>
          if pc_frame_stored c = 0 then 0
          else
            let cnt = pc_frame_stored c;
                start = (pc_frame_head c + pc_max_frames c - cnt) mod pc_max_frames c;
                total_ms = sum_list (map (\<lambda>i. fr_frame_time_ms (pc_frames c ! ((start + i) mod pc_max_frames c))) [0..<cnt])
            in if total_ms < 1 / 1000 then 0 else of_nat cnt / (total_ms / 1000))"

definition lgx_prof_get_frame_count :: "lgx_prof_context option \<Rightarrow> u64" where
  "lgx_prof_get_frame_count ctx = (case ctx of None \<Rightarrow> 0 | Some c \<Rightarrow> pc_total_frames c)"

section \<open>The dump\<close>

text \<open>
  The calls of \<open>snprintf\<close> that the dump makes, each with its offset into the buffer and the capacity it passes, which is
  \<open>size - written\<close> at the width of \<open>size_t\<close>. The text of a call is formatted by the C library; its length is a parameter.
\<close>

type_synonym print_calls = "(nat \<times> u64) list \<times> nat"

definition dump_print :: "u64 \<Rightarrow> nat \<Rightarrow> print_calls \<Rightarrow> print_calls" where
  "dump_print sz n st = (case st of (calls, written) \<Rightarrow> (calls @ [(written, sz - of_nat written)], written + n))"

definition dump_room :: "u64 \<Rightarrow> print_calls \<Rightarrow> bool" where
  "dump_room sz st = (of_nat (snd st) < sz - 1)"

fun dump_indent :: "u64 \<Rightarrow> nat \<Rightarrow> print_calls \<Rightarrow> print_calls" where
  "dump_indent sz 0 st = st"
| "dump_indent sz (Suc d) st = (if dump_room sz st then dump_indent sz d (dump_print sz 2 st) else st)"

fun dump_zones :: "(zone_entry \<Rightarrow> nat) \<Rightarrow> u64 \<Rightarrow> zone_entry list \<Rightarrow> print_calls \<Rightarrow> print_calls" where
  "dump_zones len sz [] st = st"
| "dump_zones len sz (z # zs) st =
     (if dump_room sz st then dump_zones len sz zs (dump_print sz (len z) (dump_indent sz (zn_depth z) st)) else st)"

fun dump_counters :: "(counter_entry \<Rightarrow> nat) \<Rightarrow> u64 \<Rightarrow> bool \<Rightarrow> counter_entry list \<Rightarrow> print_calls \<Rightarrow> print_calls" where
  "dump_counters len sz has [] st = st"
| "dump_counters len sz has (c # cs) st =
     (if ct_used c then dump_counters len sz True cs (dump_print sz (len c) (if \<not> has then dump_print sz 10 st else st))
      else dump_counters len sz has cs st)"

definition lgx_prof_dump_last_frame ::
    "nat \<Rightarrow> (zone_entry \<Rightarrow> nat) \<Rightarrow> (counter_entry \<Rightarrow> nat) \<Rightarrow> bool \<Rightarrow> u64 \<Rightarrow> lgx_prof_context option \<Rightarrow> (nat \<times> u64) list \<times> nat" where
  "lgx_prof_dump_last_frame head_len zone_len counter_len buf_ok sz ctx =
     (case ctx of
        None \<Rightarrow> ([], 0)
      | Some c \<Rightarrow>
          if \<not> buf_ok \<or> sz = 0 then ([], 0)
          else dump_counters counter_len sz False (pc_counters c)
                 (dump_zones zone_len sz (take (pc_last_zone_count c) (pc_last_zones c)) (dump_print sz head_len ([], 0))))"

end
