(* ===== verification/Profiler_Props.thy ===== *)
theory Profiler_Props
  imports Profiler
begin

text \<open>
  What the profiler records of a frame is its tree of zones in the order in which they were opened, and its frame rate is that of the frames
  in the ring; then what goes wrong when a zone does not fit, when a counter has a long name, and when a dump does not fit.
\<close>

section \<open>Zones nest\<close>

datatype zone_tree = Zone string u64 u64 "zone_tree list"

text \<open>The calls of a program whose zones are opened and closed in pairs.\<close>

fun run_zone :: "zone_tree \<Rightarrow> lgx_prof_context option \<Rightarrow> lgx_prof_context option" where
  "run_zone (Zone nm a b ts) c = snd (lgx_prof_zone_end b (fold run_zone ts (snd (lgx_prof_zone_begin a (Some nm) c))))"

fun preorder :: "nat \<Rightarrow> zone_tree \<Rightarrow> zone_entry list" where
  "preorder d (Zone nm a b ts) =
     \<lparr>zn_name = nm, zn_start_ns = a, zn_duration_ns = b - a, zn_depth = d, zn_closed = True\<rparr> # concat (map (preorder (d + 1)) ts)"

fun zone_height :: "zone_tree \<Rightarrow> nat" where
  "zone_height (Zone nm a b ts) = Suc (foldr (\<lambda>t. max (zone_height t)) ts 0)"

definition forest_height :: "zone_tree list \<Rightarrow> nat" where
  "forest_height ts = foldr (\<lambda>t. max (zone_height t)) ts 0"

text \<open>What a context keeps while zones are recorded.\<close>

definition prof_rest :: "lgx_prof_context \<Rightarrow> lgx_prof_context" where
  "prof_rest c = c\<lparr>pc_zones := [], pc_zone_count := 0, pc_zone_stack := [], pc_zone_depth := 0\<rparr>"

definition recorded :: "zone_entry list \<Rightarrow> lgx_prof_context \<Rightarrow> lgx_prof_context \<Rightarrow> bool" where
  "recorded zs c c' =
     (pc_zone_count c' = pc_zone_count c + length zs \<and> length (pc_zones c') = length (pc_zones c) \<and>
      take (pc_zone_count c') (pc_zones c') = take (pc_zone_count c) (pc_zones c) @ zs \<and>
      pc_zone_depth c' = pc_zone_depth c \<and> length (pc_zone_stack c') = length (pc_zone_stack c) \<and>
      take (pc_zone_depth c) (pc_zone_stack c') = take (pc_zone_depth c) (pc_zone_stack c) \<and> prof_rest c' = prof_rest c)"

definition prof_ok :: "lgx_prof_context \<Rightarrow> bool" where
  "prof_ok c = (pc_enabled c \<and> length (pc_zone_stack c) = 64 \<and> pc_zone_count c \<le> length (pc_zones c))"

lemma recorded_nil: "recorded [] c c"
  by (simp add: recorded_def)

lemma recorded_trans: "recorded xs c d \<Longrightarrow> recorded ys d e \<Longrightarrow> recorded (xs @ ys) c e"
  unfolding recorded_def by (metis append.assoc add.assoc length_append)

lemma recorded_enabled: assumes "recorded zs c c'" shows "pc_enabled c' = pc_enabled c"
proof -
  have "pc_enabled (prof_rest x) = pc_enabled x" for x by (simp add: prof_rest_def)
  then show ?thesis using assms by (metis recorded_def)
qed

lemma recorded_take: "recorded zs c c' \<Longrightarrow> take (pc_zone_count c') (pc_zones c') = take (pc_zone_count c) (pc_zones c) @ zs"
  unfolding recorded_def by blast

lemma recorded_ok:
  assumes "recorded zs c c'" "prof_ok c" "pc_zone_count c + length zs \<le> length (pc_zones c)"
  shows "prof_ok c'"
  using assms recorded_enabled[OF assms(1)] by (simp add: prof_ok_def recorded_def)

text \<open>The context in which a zone has just been opened.\<close>

definition opened :: "string \<Rightarrow> u64 \<Rightarrow> lgx_prof_context \<Rightarrow> lgx_prof_context" where
  "opened nm a c = c\<lparr>pc_zone_count := pc_zone_count c + 1,
     pc_zones := (pc_zones c)[pc_zone_count c := \<lparr>zn_name = nm, zn_start_ns = a, zn_duration_ns = 0, zn_depth = pc_zone_depth c, zn_closed = False\<rparr>],
     pc_zone_stack := (pc_zone_stack c)[pc_zone_depth c := pc_zone_count c], pc_zone_depth := pc_zone_depth c + 1\<rparr>"

lemma begin_opened:
  assumes "prof_ok c" "pc_zone_count c < length (pc_zones c)" "pc_zone_depth c < 64"
  shows "lgx_prof_zone_begin a (Some nm) (Some c) = (LGX_SUCCESS, Some (opened nm a c))" "prof_ok (opened nm a c)"
  using assms by (simp_all add: lgx_prof_zone_begin_def opened_def prof_ok_def Let_def)

lemma end_recorded:
  assumes c: "prof_ok c" "pc_zone_count c < length (pc_zones c)" "pc_zone_depth c < 64" and r: "recorded zs (opened nm a c) c2"
  shows "\<exists>c3. lgx_prof_zone_end b (Some c2) = (LGX_SUCCESS, Some c3) \<and>
    recorded (\<lparr>zn_name = nm, zn_start_ns = a, zn_duration_ns = b - a, zn_depth = pc_zone_depth c, zn_closed = True\<rparr> # zs) c c3"
proof -
  let ?d = "pc_zone_depth c" and ?i = "pc_zone_count c" and ?c1 = "opened nm a c"
  let ?z = "\<lparr>zn_name = nm, zn_start_ns = a, zn_duration_ns = 0, zn_depth = pc_zone_depth c, zn_closed = False\<rparr>"
  let ?z' = "?z\<lparr>zn_duration_ns := b - a, zn_closed := True\<rparr>"
  have f: "pc_zone_count c2 = ?i + 1 + length zs" "length (pc_zones c2) = length (pc_zones c)" "pc_zone_depth c2 = ?d + 1"
    "length (pc_zone_stack c2) = 64" "pc_enabled c2" "prof_rest c2 = prof_rest ?c1"
    using r c recorded_enabled[OF r] by (simp_all add: recorded_def opened_def prof_ok_def)
  have st: "take (?d + 1) (pc_zone_stack c2) = take ?d (pc_zone_stack c) @ [?i]"
    using r c by (simp add: recorded_def opened_def prof_ok_def take_Suc_conv_app_nth)
  have "take (pc_zone_count c2) (pc_zones c2) = take ?i (pc_zones c) @ ?z # zs"
    using recorded_take[OF r] c(2) by (simp add: opened_def take_Suc_conv_app_nth)
  then have zs: "take (?i + 1 + length zs) (pc_zones c2) = take ?i (pc_zones c) @ ?z # zs" unfolding f(1) .
  have top: "pc_zone_stack c2 ! ?d = ?i"
    using arg_cong[OF st, of "\<lambda>l. l ! ?d"] c f(4) by (simp add: nth_append prof_ok_def)
  have z: "pc_zones c2 ! ?i = ?z" using arg_cong[OF zs, of "\<lambda>l. l ! ?i"] c f(2) by (simp add: nth_append)
  define c3 where "c3 = c2\<lparr>pc_zone_depth := ?d, pc_zones := (pc_zones c2)[?i := ?z']\<rparr>"
  have e: "lgx_prof_zone_end b (Some c2) = (LGX_SUCCESS, Some c3)"
    using f(3,5) top z by (simp add: lgx_prof_zone_end_def Let_def c3_def)
  have "take (?i + 1 + length zs) (pc_zones c3) = take ?i (pc_zones c) @ ?z' # zs"
    using zs c(2) by (simp add: c3_def take_update_swap list_update_append)
  moreover have "take ?d (pc_zone_stack c3) = take ?d (pc_zone_stack c)"
    using arg_cong[OF st, of "take ?d"] c by (simp add: c3_def prof_ok_def min_def)
  moreover have "prof_rest c3 = prof_rest c" using f(6) by (simp add: c3_def prof_rest_def opened_def)
  ultimately have "recorded (?z' # zs) c c3" using f c by (simp add: recorded_def c3_def prof_ok_def)
  then show ?thesis using e by auto
qed

definition records :: "zone_tree \<Rightarrow> bool" where
  "records t = (\<forall>c. prof_ok c \<longrightarrow> pc_zone_count c + length (preorder (pc_zone_depth c) t) \<le> length (pc_zones c) \<longrightarrow>
     pc_zone_depth c + zone_height t \<le> 64 \<longrightarrow>
     (\<exists>c'. run_zone t (Some c) = Some c' \<and> recorded (preorder (pc_zone_depth c) t) c c'))"

lemma forest_recorded:
  "\<forall>t \<in> set ts. records t \<Longrightarrow> prof_ok c \<Longrightarrow>
     pc_zone_count c + length (concat (map (preorder (pc_zone_depth c)) ts)) \<le> length (pc_zones c) \<Longrightarrow>
     pc_zone_depth c + forest_height ts \<le> 64 \<Longrightarrow>
     \<exists>c'. fold run_zone ts (Some c) = Some c' \<and> recorded (concat (map (preorder (pc_zone_depth c)) ts)) c c'"
proof (induction ts arbitrary: c)
  case Nil
  then show ?case using recorded_nil by simp
next
  case (Cons t ts)
  let ?p = "preorder (pc_zone_depth c) t"
  have h: "pc_zone_depth c + zone_height t \<le> 64" "pc_zone_depth c + forest_height ts \<le> 64"
    using Cons.prems(4) by (simp_all add: forest_height_def)
  have l: "pc_zone_count c + length ?p \<le> length (pc_zones c)" using Cons.prems(3) by simp
  obtain d where d: "run_zone t (Some c) = Some d" "recorded ?p c d"
    using Cons.prems(1,2) h(1) l unfolding records_def by (metis list.set_intros(1))
  have f: "pc_zone_depth d = pc_zone_depth c" "pc_zone_count d = pc_zone_count c + length ?p" "length (pc_zones d) = length (pc_zones c)"
    using d(2) by (simp_all add: recorded_def)
  have "prof_ok d" by (rule recorded_ok[OF d(2) Cons.prems(2) l])
  then obtain e where "fold run_zone ts (Some d) = Some e" "recorded (concat (map (preorder (pc_zone_depth c)) ts)) d e"
    using Cons.IH[of d] Cons.prems(1,3) h(2) f by auto
  then show ?case using d recorded_trans by fastforce
qed

lemma zone_recorded: "records t"
proof (induction t)
  case (Zone nm a b ts)
  show ?case unfolding records_def
  proof (intro allI impI)
    fix c assume c: "prof_ok c" and l: "pc_zone_count c + length (preorder (pc_zone_depth c) (Zone nm a b ts)) \<le> length (pc_zones c)"
      and h: "pc_zone_depth c + zone_height (Zone nm a b ts) \<le> 64"
    have lt: "pc_zone_count c < length (pc_zones c)" "pc_zone_depth c < 64" using l h by simp_all
    have fh: "pc_zone_depth c + 1 + forest_height ts \<le> 64" using h by (simp add: forest_height_def)
    obtain c2 where c2: "fold run_zone ts (Some (opened nm a c)) = Some c2"
      "recorded (concat (map (preorder (pc_zone_depth c + 1)) ts)) (opened nm a c) c2"
      using forest_recorded[of ts "opened nm a c"] Zone begin_opened(2)[OF c lt] l fh by (auto simp: opened_def)
    obtain c3 where "lgx_prof_zone_end b (Some c2) = (LGX_SUCCESS, Some c3)"
      "recorded (preorder (pc_zone_depth c) (Zone nm a b ts)) c c3" using end_recorded[OF c lt c2(2)] by auto
    then show "\<exists>c'. run_zone (Zone nm a b ts) (Some c) = Some c' \<and> recorded (preorder (pc_zone_depth c) (Zone nm a b ts)) c c'"
      using begin_opened(1)[OF c lt] c2(1) by simp
  qed
qed

section \<open>Frames\<close>

text \<open>A frame with its zones, from its first to its last time.\<close>

datatype prof_frame = Frame u64 "zone_tree list" u64

fun frame_ms :: "prof_frame \<Rightarrow> rat" where "frame_ms (Frame a ts b) = ns_to_ms (b - a)"
fun frame_zones :: "prof_frame \<Rightarrow> zone_entry list" where "frame_zones (Frame a ts b) = concat (map (preorder 0) ts)"

fun run_frame :: "prof_frame \<Rightarrow> lgx_prof_context option \<Rightarrow> lgx_prof_context option" where
  "run_frame (Frame a ts b) c =
     (case lgx_prof_frame_end b (fold run_zone ts (snd (lgx_prof_frame_begin a c))) of Some (r, c) \<Rightarrow> c | None \<Rightarrow> None)"

fun frame_fits :: "nat \<Rightarrow> prof_frame \<Rightarrow> bool" where
  "frame_fits mz (Frame a ts b) = (length (concat (map (preorder 0) ts)) \<le> mz \<and> forest_height ts \<le> 64)"

definition prof_inv :: "nat \<Rightarrow> nat \<Rightarrow> prof_frame list \<Rightarrow> lgx_prof_context \<Rightarrow> bool" where
  "prof_inv mz mf fs c =
     (pc_enabled c \<and> length (pc_zone_stack c) = 64 \<and> length (pc_zones c) = mz \<and> length (pc_last_zones c) = mz \<and>
      length (pc_frames c) = mf \<and> (\<forall>f \<in> set (pc_frames c). fr_zones f \<noteq> None) \<and>
      pc_total_frames c = of_nat (length fs) \<and> pc_frame_head c = length fs mod mf \<and> pc_frame_stored c = min (length fs) mf \<and>
      (\<forall>i < length fs. length fs - min (length fs) mf \<le> i \<longrightarrow> fr_frame_time_ms (pc_frames c ! (i mod mf)) = frame_ms (fs ! i)) \<and>
      (fs \<noteq> [] \<longrightarrow> pc_last_frame_ms c = frame_ms (last fs) \<and> take (pc_last_zone_count c) (pc_last_zones c) = frame_zones (last fs)))"

lemma rest_fields:
  assumes "prof_rest c' = prof_rest c"
  shows "pc_enabled c' = pc_enabled c" "pc_frame_start_ns c' = pc_frame_start_ns c" "pc_frames c' = pc_frames c" "pc_frame_head c' = pc_frame_head c"
    "pc_frame_stored c' = pc_frame_stored c" "pc_total_frames c' = pc_total_frames c" "pc_last_zones c' = pc_last_zones c"
proof -
  have "pc_enabled (prof_rest x) = pc_enabled x" "pc_frame_start_ns (prof_rest x) = pc_frame_start_ns x" "pc_frames (prof_rest x) = pc_frames x"
    "pc_frame_head (prof_rest x) = pc_frame_head x" "pc_frame_stored (prof_rest x) = pc_frame_stored x"
    "pc_total_frames (prof_rest x) = pc_total_frames x" "pc_last_zones (prof_rest x) = pc_last_zones x" for x
    by (simp_all add: prof_rest_def)
  then show "pc_enabled c' = pc_enabled c" "pc_frame_start_ns c' = pc_frame_start_ns c" "pc_frames c' = pc_frames c" "pc_frame_head c' = pc_frame_head c"
    "pc_frame_stored c' = pc_frame_stored c" "pc_total_frames c' = pc_total_frames c" "pc_last_zones c' = pc_last_zones c"
    using assms by metis+
qed

lemma ring_step:
  assumes "0 < mf" "length ms = mf" "\<forall>i < n. n - min n mf \<le> i \<longrightarrow> P (ms ! (i mod mf)) i" "P x n"
  shows "\<forall>i < Suc n. Suc n - min (Suc n) mf \<le> i \<longrightarrow> P (ms[n mod mf := x] ! (i mod mf)) i"
proof (intro allI impI)
  fix i assume i: "i < Suc n" "Suc n - min (Suc n) mf \<le> i"
  show "P (ms[n mod mf := x] ! (i mod mf)) i"
  proof (cases "i = n")
    case True
    then show ?thesis using assms by simp
  next
    case False
    then have lt: "i < n" "n - i < mf" using i assms(1) by (auto simp: min_def split: if_splits)
    have "i mod mf \<noteq> n mod mf"
    proof
      assume "i mod mf = n mod mf"
      then have "mf dvd n - i" using lt(1) by (metis mod_eq_dvd_iff_nat less_imp_le)
      then show False using lt by (meson dvd_imp_le not_le zero_less_diff)
    qed
    moreover have "n - min n mf \<le> i" using lt i by (auto simp: min_def split: if_splits)
    ultimately show ?thesis using assms(3) lt(1) by (metis nth_list_update_neq)
  qed
qed

lemma run_frame_inv:
  assumes inv: "prof_inv mz mf fs c" and fits: "frame_fits mz f" and mf: "0 < mf"
  shows "\<exists>c'. run_frame f (Some c) = Some c' \<and> prof_inv mz mf (fs @ [f]) c'"
proof (cases f)
  case (Frame a ts b)
  define c1 where "c1 = c\<lparr>pc_frame_start_ns := a, pc_zone_count := 0, pc_zone_depth := 0\<rparr>"
  have i: "pc_enabled c" "length (pc_zone_stack c) = 64" "length (pc_zones c) = mz" "length (pc_last_zones c) = mz" "length (pc_frames c) = mf"
    "\<forall>f \<in> set (pc_frames c). fr_zones f \<noteq> None" "pc_total_frames c = of_nat (length fs)" "pc_frame_head c = length fs mod mf"
    "pc_frame_stored c = min (length fs) mf"
    "\<forall>i < length fs. length fs - min (length fs) mf \<le> i \<longrightarrow> fr_frame_time_ms (pc_frames c ! (i mod mf)) = frame_ms (fs ! i)"
    using inv by (simp_all add: prof_inv_def)
  have b: "lgx_prof_frame_begin a (Some c) = (LGX_SUCCESS, Some c1)" using i(1) by (simp add: lgx_prof_frame_begin_def c1_def)
  have ok: "prof_ok c1" using i by (simp add: prof_ok_def c1_def)
  obtain c2 where c2: "fold run_zone ts (Some c1) = Some c2" "recorded (concat (map (preorder 0) ts)) c1 c2"
    using forest_recorded[of ts c1] zone_recorded ok fits i(3) by (auto simp: Frame c1_def)
  have rest: "prof_rest c2 = prof_rest c1" using c2(2) by (simp add: recorded_def)
  note rf = rest_fields[OF rest]
  have tk: "take (pc_zone_count c2) (pc_zones c2) = frame_zones f" using recorded_take[OF c2(2)] by (simp add: c1_def Frame)
  have f2: "pc_zone_count c2 = length (frame_zones f)" "length (pc_zones c2) = mz"
    "length (pc_zone_stack c2) = 64" using c2(2) i by (simp_all add: recorded_def c1_def Frame)
  have rc: "pc_enabled c2" "pc_frame_start_ns c2 = a" "pc_frames c2 = pc_frames c" "pc_frame_head c2 = length fs mod mf"
    "pc_frame_stored c2 = min (length fs) mf" "pc_total_frames c2 = of_nat (length fs)" "pc_last_zones c2 = pc_last_zones c"
    using rf i by (simp_all add: c1_def)
  have head: "length fs mod mf < length (pc_frames c)" using mf i(5) by simp
  then obtain zs where zs: "fr_zones (pc_frames c ! (length fs mod mf)) = Some zs" using i(6) by (meson nth_mem not_Some_eq)
  let ?rec = "(pc_frames c ! (length fs mod mf))\<lparr>fr_frame_time_ms := ns_to_ms (b - a), fr_zone_count := pc_zone_count c2,
    fr_zones := Some (copy_zones (pc_zone_count c2) (pc_zones c2) zs)\<rparr>"
  define c3 where "c3 = c2\<lparr>pc_last_frame_ms := ns_to_ms (b - a), pc_last_zone_count := pc_zone_count c2,
    pc_last_zones := copy_zones (pc_zone_count c2) (pc_zones c2) (pc_last_zones c),
    pc_frames := (pc_frames c)[length fs mod mf := ?rec], pc_frame_head := (length fs mod mf + 1) mod mf,
    pc_frame_stored := (if min (length fs) mf < mf then min (length fs) mf + 1 else min (length fs) mf), pc_total_frames := of_nat (length fs) + 1\<rparr>"
  have e: "lgx_prof_frame_end b (Some c2) = Some (LGX_SUCCESS, Some c3)"
    using rc zs i(5) by (simp add: lgx_prof_frame_end_def Let_def c3_def)
  have len: "length (frame_zones f) \<le> mz" using fits by (simp add: Frame)
  have last: "take (pc_last_zone_count c3) (pc_last_zones c3) = frame_zones f" "length (pc_last_zones c3) = mz"
    using tk f2 len i(4) by (simp_all add: c3_def copy_zones_def)
  have ring: "\<forall>i < Suc (length fs). Suc (length fs) - min (Suc (length fs)) mf \<le> i \<longrightarrow>
      fr_frame_time_ms (pc_frames c3 ! (i mod mf)) = frame_ms ((fs @ [f]) ! i)"
    using ring_step[OF mf i(5), of "length fs" "\<lambda>x i. fr_frame_time_ms x = frame_ms ((fs @ [f]) ! i)" ?rec] i(10)
    by (simp add: c3_def nth_append Frame)
  have fz: "\<forall>g \<in> set (pc_frames c3). fr_zones g \<noteq> None"
    using i(6) by (auto simp: c3_def dest!: set_update_subset_insert[THEN subsetD])
  have "prof_inv mz mf (fs @ [f]) c3"
    using last ring fz rc f2 i(5) by (auto simp: prof_inv_def c3_def Frame mod_Suc_eq)
  then show ?thesis using b c2(1) e by (auto simp: Frame)
qed

lemma run_frames_inv:
  "prof_inv mz mf fs c \<Longrightarrow> \<forall>f \<in> set gs. frame_fits mz f \<Longrightarrow> 0 < mf \<Longrightarrow>
     \<exists>c'. fold run_frame gs (Some c) = Some c' \<and> prof_inv mz mf (fs @ gs) c'"
proof (induction gs arbitrary: fs c)
  case (Cons g gs)
  obtain d where d: "run_frame g (Some c) = Some d" "prof_inv mz mf (fs @ [g]) d" using run_frame_inv[of mz mf fs c g] Cons.prems by auto
  then show ?case using Cons.IH[OF d(2)] Cons.prems by simp
qed simp

lemma create_inv:
  assumes "lgx_prof_create True (\<lambda>_. True) config = Some c" "pc_enabled c"
  shows "prof_inv (length (pc_zones c)) (length (pc_frames c)) [] c"
  using assms by (auto simp: lgx_prof_create_def prof_inv_def Let_def)

lemma ring_index:
  fixes m :: nat
  assumes "k \<le> n" "k \<le> m"
  shows "((n mod m + m - k) mod m + i) mod m = (n - k + i) mod m"
proof -
  have "((n mod m + m - k) mod m + i) mod m = (n mod m + (m - k) + i) mod m" using assms(2) by (simp add: mod_add_left_eq)
  also have "\<dots> = (n + (m - k) + i) mod m" by (metis add.assoc mod_add_left_eq)
  also have "n + (m - k) + i = (n - k + i) + m" using assms by simp
  finally show ?thesis by simp
qed

text \<open>The frame rate of a list of frames.\<close>

definition frame_rate :: "rat list \<Rightarrow> rat" where
  "frame_rate ms = (if ms = [] \<or> sum_list ms < 1 / 1000 then 0 else of_nat (length ms) / (sum_list ms / 1000))"

lemma fps_inv:
  assumes "prof_inv mz mf fs c" "0 < mf"
  shows "lgx_prof_get_fps (Some c) = frame_rate (map frame_ms (drop (length fs - mf) fs))"
proof -
  let ?n = "length fs" and ?k = "min (length fs) mf"
  have i: "length (pc_frames c) = mf" "pc_frame_head c = ?n mod mf" "pc_frame_stored c = ?k"
    "\<forall>i < ?n. ?n - ?k \<le> i \<longrightarrow> fr_frame_time_ms (pc_frames c ! (i mod mf)) = frame_ms (fs ! i)"
    using assms(1) by (simp_all add: prof_inv_def)
  have d: "drop (?n - mf) fs = drop (?n - ?k) fs" by (simp add: min_def)
  have "map (\<lambda>i. fr_frame_time_ms (pc_frames c ! (((?n mod mf + mf - ?k) mod mf + i) mod mf))) [0..<?k] = map frame_ms (drop (?n - ?k) fs)"
  proof (rule nth_equalityI)
    fix j assume "j < length (map (\<lambda>i. fr_frame_time_ms (pc_frames c ! (((?n mod mf + mf - ?k) mod mf + i) mod mf))) [0..<?k])"
    then have j: "j < ?k" by simp
    then have "fr_frame_time_ms (pc_frames c ! ((?n - ?k + j) mod mf)) = frame_ms (fs ! (?n - ?k + j))"
      using i(4)[rule_format, of "?n - ?k + j"] by linarith
    then show "map (\<lambda>i. fr_frame_time_ms (pc_frames c ! (((?n mod mf + mf - ?k) mod mf + i) mod mf))) [0..<?k] ! j = map frame_ms (drop (?n - ?k) fs) ! j"
      using j ring_index[of ?k ?n mf j] by simp
  qed simp
  moreover have len: "length (drop (?n - ?k) fs) = ?k" by simp
  moreover have "?k = 0 \<longleftrightarrow> drop (?n - ?k) fs = []" using len by (metis length_0_conv)
  ultimately show ?thesis using i(1-3) unfolding d frame_rate_def by (simp add: lgx_prof_get_fps_def Let_def)
qed

text \<open>
  C29. The profile is exact: after any frames whose zones nest and fit, the last frame reports its own time and for every name the time of the
  first zone of that name in the order of opening, the frame count is the number of frames, and the frame rate is the one of the
  frames that the history holds.
\<close>

theorem profile_exact:
  assumes c: "lgx_prof_create True (\<lambda>_. True) config = Some c" "pc_enabled c"
    and fits: "\<forall>f \<in> set (fs @ [Frame a ts b]). frame_fits (pc_max_zones c) f" and mf: "0 < pc_max_frames c"
  shows "\<exists>c'. fold run_frame (fs @ [Frame a ts b]) (Some c) = Some c' \<and>
    lgx_prof_get_frame_time_ms (Some c') = ns_to_ms (b - a) \<and>
    (\<forall>name. lgx_prof_get_zone_time_ms (Some name) (Some c') = zone_time name (concat (map (preorder 0) ts))) \<and>
    lgx_prof_get_frame_count (Some c') = of_nat (length fs + 1) \<and>
    lgx_prof_get_fps (Some c') = frame_rate (map frame_ms (drop (length fs + 1 - pc_max_frames c) (fs @ [Frame a ts b])))"
proof -
  obtain c' where r: "fold run_frame (fs @ [Frame a ts b]) (Some c) = Some c'"
    and inv: "prof_inv (pc_max_zones c) (pc_max_frames c) (fs @ [Frame a ts b]) c'"
    using run_frames_inv[OF create_inv[OF c] fits mf] by auto
  have "pc_last_frame_ms c' = ns_to_ms (b - a)" "take (pc_last_zone_count c') (pc_last_zones c') = concat (map (preorder 0) ts)"
    "pc_total_frames c' = of_nat (length fs + 1)" using inv by (simp_all add: prof_inv_def)
  then show ?thesis using r fps_inv[OF inv mf]
    by (simp add: lgx_prof_get_frame_time_ms_def lgx_prof_get_zone_time_ms_def lgx_prof_get_frame_count_def)
qed

definition demo_prof :: lgx_prof_context where
  "demo_prof = the (lgx_prof_create True (\<lambda>_. True) (Some \<lparr>pf_enabled = True, pf_max_zones = 2, pf_max_counters = 3, pf_max_frames = 2\<rparr>))"

lemma demo_prof_facts:
  "lgx_prof_create True (\<lambda>_. True) (Some \<lparr>pf_enabled = True, pf_max_zones = 2, pf_max_counters = 3, pf_max_frames = 2\<rparr>) = Some demo_prof"
  "pc_enabled demo_prof" "pc_max_zones demo_prof = 2" "pc_max_frames demo_prof = 2" "pc_counters demo_prof = replicate 3 zero_counter"
  "pc_last_zone_count demo_prof = 0" "pc_zone_count demo_prof = 0" "pc_zone_depth demo_prof = 0"
  by (simp_all add: demo_prof_def lgx_prof_create_def Let_def prof_option_def)

theorem profile_exact_witness:
  "\<exists>c'. fold run_frame [Frame 0 [Zone ''draw'' 10 30 [Zone ''sky'' 12 20 []]] 4000000] (Some demo_prof) = Some c' \<and>
     lgx_prof_get_zone_time_ms (Some ''sky'') (Some c') = 8 / 1000000 \<and> lgx_prof_get_fps (Some c') = 250"
proof -
  have "\<forall>f \<in> set ([] @ [Frame 0 [Zone ''draw'' 10 30 [Zone ''sky'' 12 20 []]] 4000000]). frame_fits (pc_max_zones demo_prof) f" "0 < pc_max_frames demo_prof"
    by (simp_all add: demo_prof_facts forest_height_def)
  from profile_exact[OF demo_prof_facts(1,2) this] show ?thesis
    by (auto simp: demo_prof_facts ns_to_ms_def frame_rate_def)
qed

section \<open>What goes wrong\<close>

text \<open>A zone that is not opened because it does not fit is closed all the same, and ends its parent instead.\<close>

lemma dropped_zone_ends_parent:
  "case fold run_zone [Zone ''a'' 1 9 [Zone ''b'' 2 3 [], Zone ''c'' 4 5 []]] (Some demo_prof) of
     Some c \<Rightarrow> zn_name (pc_zones c ! 0) = ''a'' \<and> zn_duration_ns (pc_zones c ! 0) = 4"
  by code_simp

text \<open>A counter with a name of 64 bytes is never found again.\<close>

lemma long_counter_lost:
  assumes "length nm = 64" "CHR 0x00 \<notin> set nm"
  shows "lgx_prof_get_counter (Some nm) (snd (lgx_prof_counter_set (Some nm) 5 (Some demo_prof))) = 0"
proof -
  have tw: "takeWhile (\<lambda>c. c \<noteq> CHR 0x00) nm = nm" using assms(2) by (simp add: takeWhile_eq_all_conv) (metis)
  have "length (c_copy 64 nm) = 63" unfolding c_copy_def tw using assms(1) by simp
  then have "c_copy 64 nm \<noteq> nm" using assms(1) by auto
  then show ?thesis
    by (simp add: lgx_prof_counter_set_def lgx_prof_get_counter_def demo_prof_facts find_counter_def zero_counter_def numeral_3_eq_3)
qed

text \<open>A dump whose header alone fills the buffer prints the counters behind its end, with a capacity that has wrapped around.\<close>

lemma dump_counters_mono: "set (fst st) \<subseteq> set (fst (dump_counters l sz h cs st))"
proof (induction cs arbitrary: h st)
  case (Cons x cs)
  have "set (fst st) \<subseteq> set (fst (dump_print sz n st))" for n st by (auto simp: dump_print_def split: prod.splits)
  then show ?case using Cons by (simp split: if_splits) (meson order_trans)
qed simp

lemma dump_overflows:
  assumes "snd (lgx_prof_counter_set (Some ''fps'') 60 (Some demo_prof)) = Some c"
  shows "(40, - 8) \<in> set (fst (lgx_prof_dump_last_frame 40 zl cl True 32 (Some c)))"
proof -
  have c: "ct_used (pc_counters c ! 0)" "length (pc_counters c) = 3" "pc_last_zone_count c = 0"
    using assms by (auto simp: lgx_prof_counter_set_def demo_prof_facts find_counter_def zero_counter_def numeral_3_eq_3)
  obtain x xs where x: "pc_counters c = x # xs" using c(2) by (cases "pc_counters c") auto
  let ?st = "dump_print 32 (cl x) (dump_print 32 10 (dump_print 32 40 ([], 0)))"
  have "(40, - 8) \<in> set (fst ?st)" by (simp add: dump_print_def)
  then have "(40, - 8) \<in> set (fst (dump_counters cl 32 True xs ?st))" using dump_counters_mono by blast
  then show ?thesis using x c(1,3) by (simp add: lgx_prof_dump_last_frame_def)
qed

end
