(* ===== verification/Input_System.thy ===== *)
theory Input_System
  imports C_Text
begin

text \<open>
  The input module (\<^verbatim>\<open>src/input/lgx_input.c\<close>): keyboards, mice and gamepads over the event devices of Linux, the state that games query and the
  queue of events. What the kernel answers is an argument: what opening and probing a device gives, the events that reading it returns, each
  with the time at which it is handled, and whether \<open>errno\<close> is \<open>ENODEV\<close> after the last read. Codes of the kernel interface are numbers, as in
  \<^verbatim>\<open>linux/input-event-codes.h\<close>. A key is its position in the enumeration. Positions of axes are rationals, a value that is not a number is \<^const>\<open>None\<close>; the
  coordinates of the mouse are integers.
\<close>

unbundle bit_operations_syntax

section \<open>Codes of the kernel\<close>

definition REL_X :: nat where "REL_X = 0"
definition REL_Y :: nat where "REL_Y = 1"
definition REL_WHEEL :: nat where "REL_WHEEL = 8"
definition ABS_X :: nat where "ABS_X = 0"
definition ABS_Y :: nat where "ABS_Y = 1"
definition ABS_Z :: nat where "ABS_Z = 2"
definition ABS_RX :: nat where "ABS_RX = 3"
definition ABS_RY :: nat where "ABS_RY = 4"
definition ABS_RZ :: nat where "ABS_RZ = 5"
definition ABS_HAT0X :: nat where "ABS_HAT0X = 16"
definition ABS_HAT0Y :: nat where "ABS_HAT0Y = 17"
definition BTN_LEFT :: nat where "BTN_LEFT = 0x110"
definition BTN_SOUTH :: nat where "BTN_SOUTH = 0x130"
definition KEY_A :: nat where "KEY_A = 30"
definition KEY_Z :: nat where "KEY_Z = 44"
definition KEY_SPACE :: nat where "KEY_SPACE = 57"

datatype ev_type = EV_SYN | EV_KEY | EV_REL | EV_ABS | EV_OTHER

record input_event =
  ie_type :: ev_type
  ie_code :: nat
  ie_value :: int
  ie_now :: u64 \<comment> \<open>the time that \<open>time_now_ns\<close> gives when it is handled\<close>

text \<open>What opening a device and asking for its properties gives.\<close>

record device_probe =
  dp_ev_key :: bool
  dp_ev_abs :: bool
  dp_ev_rel :: bool
  dp_key_bit :: "nat \<Rightarrow> bool"
  dp_abs_bit :: "nat \<Rightarrow> bool"
  dp_name :: string
  dp_absinfo :: "nat \<Rightarrow> (int \<times> int) option"
  dp_now :: u64

section \<open>State\<close>

definition MAX_DEVICES :: nat where "MAX_DEVICES = 32"
definition DEFAULT_QUEUE_SIZE :: u32 where "DEFAULT_QUEUE_SIZE = 256"
definition DEFAULT_DEADZONE :: rat where "DEFAULT_DEADZONE = 15 / 100"
definition LGX_IN_MAX_GAMEPADS :: nat where "LGX_IN_MAX_GAMEPADS = 8"
definition LGX_KEY_COUNT :: nat where "LGX_KEY_COUNT = 87"

datatype device_type = DEV_NONE | DEV_KEYBOARD | DEV_MOUSE | DEV_GAMEPAD

datatype lgx_in_gamepad_axis = LGX_PAD_AXIS_LEFT_X | LGX_PAD_AXIS_LEFT_Y | LGX_PAD_AXIS_RIGHT_X | LGX_PAD_AXIS_RIGHT_Y
  | LGX_PAD_AXIS_TRIGGER_L | LGX_PAD_AXIS_TRIGGER_R

datatype lgx_in_event =
    LGX_EVENT_KEY_PRESS u64 nat
  | LGX_EVENT_KEY_RELEASE u64 nat
  | LGX_EVENT_MOUSE_BUTTON_DOWN u64 u32
  | LGX_EVENT_MOUSE_BUTTON_UP u64 u32
  | LGX_EVENT_MOUSE_SCROLL u64 int
  | LGX_EVENT_GAMEPAD_CONNECT u64 nat
  | LGX_EVENT_GAMEPAD_DISCONNECT u64 nat
  | LGX_EVENT_GAMEPAD_BUTTON_DOWN u64 nat u32
  | LGX_EVENT_GAMEPAD_BUTTON_UP u64 nat u32
  | LGX_EVENT_GAMEPAD_AXIS u64 nat lgx_in_gamepad_axis "rat option"

record input_device =
  id_open :: bool
  id_type :: device_type
  id_name :: string
  id_path :: string
  id_gamepad_id :: nat
  id_ff_id :: int

record gamepad_internal =
  gi_connected :: bool
  gi_name :: string
  gi_axes :: "lgx_in_gamepad_axis \<Rightarrow> rat option"
  gi_buttons :: u32
  gi_deadzone :: rat
  gi_abs_min :: "nat \<Rightarrow> int"
  gi_abs_max :: "nat \<Rightarrow> int"
  gi_device :: nat

record lgx_in_mouse_state =
  ms_x :: int
  ms_y :: int
  ms_delta_x :: int
  ms_delta_y :: int
  ms_scroll :: int
  ms_buttons :: u32

record lgx_in_system =
  ins_devices :: "input_device list"
  ins_inotify :: bool
  ins_key_current :: "bool list"
  ins_key_previous :: "bool list"
  ins_mouse :: lgx_in_mouse_state
  ins_mouse_relative :: bool
  ins_gamepads :: "nat \<Rightarrow> gamepad_internal"
  ins_gamepad_count :: nat
  ins_events :: "lgx_in_event option list"
  ins_event_head :: nat
  ins_event_tail :: nat
  ins_event_count :: nat
  ins_enable_gamepad :: bool
  ins_enable_keyboard :: bool
  ins_enable_mouse :: bool

record lgx_in_config =
  ic_enable_gamepad :: bool
  ic_enable_keyboard :: bool
  ic_enable_mouse :: bool
  ic_event_queue_size :: u32

abbreviation ins_event_capacity :: "lgx_in_system \<Rightarrow> nat" where "ins_event_capacity s \<equiv> length (ins_events s)"

section \<open>The queue\<close>

definition event_push :: "lgx_in_event \<Rightarrow> lgx_in_system \<Rightarrow> lgx_in_system" where
  "event_push evt s =
     (if ins_event_count s \<ge> ins_event_capacity s then s
      else s\<lparr>ins_events := (ins_events s)[ins_event_tail s := Some evt],
             ins_event_tail := (ins_event_tail s + 1) mod ins_event_capacity s, ins_event_count := ins_event_count s + 1\<rparr>)"

definition lgx_in_next_event :: "lgx_in_system option \<Rightarrow> lgx_in_event option \<times> lgx_in_system option" where
  "lgx_in_next_event sys =
     (case sys of
        None \<Rightarrow> (None, None)
      | Some s \<Rightarrow>
          if ins_event_count s = 0 then (None, sys)
          else (ins_events s ! ins_event_head s,
                Some (s\<lparr>ins_event_head := (ins_event_head s + 1) mod ins_event_capacity s, ins_event_count := ins_event_count s - 1\<rparr>)))"

section \<open>Translation\<close>

text \<open>The code of every key, in the order of the keys of \<^verbatim>\<open>lgx_in_key_t\<close>.\<close>

definition evdev_codes :: "nat list" where
  "evdev_codes =
     [30, 48, 46, 32, 18, 33, 34, 35, 23, 36, 37, 38, 50, 49, 24, 25, 16, 19, 31, 20, 22, 47, 17, 45, 21, 44,
      11, 2, 3, 4, 5, 6, 7, 8, 9, 10,
      59, 60, 61, 62, 63, 64, 65, 66, 67, 68, 87, 88,
      42, 54, 29, 97, 56, 100, 125, 126,
      103, 108, 105, 106, 102, 107, 104, 109, 110, 111,
      1, 28, 15, 14, 57, 58, 69, 70, 99, 119,
      12, 13, 26, 27, 43, 39, 40, 41, 51, 52, 53]"

fun position :: "nat \<Rightarrow> nat list \<Rightarrow> nat" where
  "position x [] = 0"
| "position x (y # ys) = (if x = y then 0 else Suc (position x ys))"

definition evdev_to_lgx_key :: "nat \<Rightarrow> nat" where
  "evdev_to_lgx_key code = position code evdev_codes"

definition evdev_to_gamepad_btn :: "nat \<Rightarrow> u32" where
  "evdev_to_gamepad_btn code =
     (if code = 0x130 then 0x0001 else if code = 0x131 then 0x0002 else if code = 0x133 then 0x0008
      else if code = 0x134 then 0x0004 else if code = 0x136 then 0x0010 else if code = 0x137 then 0x0020
      else if code = 0x13d then 0x0040 else if code = 0x13e then 0x0080 else if code = 0x13b then 0x0100
      else if code = 0x13a then 0x0200 else if code = 0x13c then 0x0400 else 0)"

definition normalize_axis :: "int \<Rightarrow> int \<Rightarrow> int \<Rightarrow> rat" where
  "normalize_axis v mn mx = (if mx = mn then 0 else 2 * of_int (v - mn) / of_int (mx - mn) - 1)"

text \<open>With a dead zone of one the quotient is zero over zero.\<close>

definition apply_deadzone :: "rat \<Rightarrow> rat \<Rightarrow> rat option" where
  "apply_deadzone v deadzone =
     (if v > - deadzone \<and> v < deadzone then Some 0
      else
        let sign = (if v > 0 then 1 else -1); num = v - sign * deadzone; den = 1 - deadzone
        in if den = 0 \<and> num = 0 then None
           else
             let adj = num / den
             in Some (if den = 0 then (if num > 0 then 1 else -1) else if adj > 1 then 1 else if adj < -1 then -1 else adj))"

section \<open>Devices\<close>

definition classify_device :: "device_probe \<Rightarrow> device_type" where
  "classify_device p =
     (let keybit = (\<lambda>b. dp_ev_key p \<and> dp_key_bit p b); absbit = (\<lambda>b. dp_ev_abs p \<and> dp_abs_bit p b)
      in if dp_ev_key p \<and> dp_ev_abs p \<and> keybit BTN_SOUTH \<and> absbit ABS_X \<and> absbit ABS_Y then DEV_GAMEPAD
         else if dp_ev_rel p \<and> dp_ev_key p \<and> keybit BTN_LEFT then DEV_MOUSE
         else if dp_ev_key p \<and> keybit KEY_A \<and> keybit KEY_Z \<and> keybit KEY_SPACE then DEV_KEYBOARD
         else DEV_NONE)"

definition gamepad_axes :: "nat list" where
  "gamepad_axes = [ABS_X, ABS_Y, ABS_RX, ABS_RY, ABS_Z, ABS_RZ, ABS_HAT0X, ABS_HAT0Y]"

definition new_gamepad :: "nat \<Rightarrow> device_probe \<Rightarrow> gamepad_internal" where
  "new_gamepad dev p =
     \<lparr>gi_connected = True, gi_name = c_copy 128 (dp_name p), gi_axes = (\<lambda>_. Some 0), gi_buttons = 0, gi_deadzone = DEFAULT_DEADZONE,
      gi_abs_min = (\<lambda>a. if a \<in> set gamepad_axes then (case dp_absinfo p a of Some (mn, mx) \<Rightarrow> mn | None \<Rightarrow> 0) else 0),
      gi_abs_max = (\<lambda>a. if a \<in> set gamepad_axes then (case dp_absinfo p a of Some (mn, mx) \<Rightarrow> mx | None \<Rightarrow> 0) else 0),
      gi_device = dev\<rparr>"

text \<open>\<open>probe\<close> is None for a device that cannot be opened.\<close>

definition open_device :: "(string \<Rightarrow> device_probe option) \<Rightarrow> string \<Rightarrow> lgx_in_system \<Rightarrow> lgx_in_system" where
  "open_device probe path s =
     (if length (ins_devices s) \<ge> MAX_DEVICES then s
      else if list_ex (\<lambda>d. id_path d = path) (ins_devices s) then s
      else
        (case probe path of
           None \<Rightarrow> s
         | Some p \<Rightarrow>
             let type = classify_device p
             in if type = DEV_NONE \<or> (type = DEV_KEYBOARD \<and> \<not> ins_enable_keyboard s) \<or> (type = DEV_MOUSE \<and> \<not> ins_enable_mouse s) \<or>
                   (type = DEV_GAMEPAD \<and> \<not> ins_enable_gamepad s) then s
                else
                  let pad = (type = DEV_GAMEPAD \<and> ins_gamepad_count s < LGX_IN_MAX_GAMEPADS);
                      gid = ins_gamepad_count s;
                      dev = \<lparr>id_open = True, id_type = type, id_name = c_copy 128 (dp_name p), id_path = c_copy 64 path,
                             id_gamepad_id = (if pad then gid else 0), id_ff_id = -1\<rparr>;
                      s = (if pad then event_push (LGX_EVENT_GAMEPAD_CONNECT (dp_now p) gid)
                             (s\<lparr>ins_gamepad_count := gid + 1, ins_gamepads := (ins_gamepads s)(gid := new_gamepad (length (ins_devices s)) p)\<rparr>)
                           else s)
                  in s\<lparr>ins_devices := ins_devices s @ [dev]\<rparr>))"

definition device_path :: "string \<Rightarrow> string" where
  "device_path name = c_copy 280 (''/dev/input/'' @ name)"

text \<open>The names of the directory, or of the files that the kernel reports as created.\<close>

definition open_named :: "(string \<Rightarrow> device_probe option) \<Rightarrow> string \<Rightarrow> lgx_in_system \<Rightarrow> lgx_in_system" where
  "open_named probe name s = (if take 5 name \<noteq> ''event'' then s else open_device probe (device_path name) s)"

definition enumerate_devices :: "(string \<Rightarrow> device_probe option) \<Rightarrow> string list \<Rightarrow> lgx_in_system \<Rightarrow> lgx_in_system" where
  "enumerate_devices probe names s = fold (open_named probe) names s"

definition check_hotplug :: "(string \<Rightarrow> device_probe option) \<Rightarrow> string list \<Rightarrow> lgx_in_system \<Rightarrow> lgx_in_system" where
  "check_hotplug probe created s = (if \<not> ins_inotify s then s else fold (open_named probe) created s)"

section \<open>Events\<close>

definition process_keyboard_event :: "input_event \<Rightarrow> lgx_in_system \<Rightarrow> lgx_in_system" where
  "process_keyboard_event ev s =
     (if ie_type ev \<noteq> EV_KEY then s
      else
        let key = evdev_to_lgx_key (ie_code ev)
        in if key \<ge> LGX_KEY_COUNT then s
           else if ie_value ev = 1 then
             event_push (LGX_EVENT_KEY_PRESS (ie_now ev) key) (s\<lparr>ins_key_current := (ins_key_current s)[key := True]\<rparr>)
           else if ie_value ev = 0 then
             event_push (LGX_EVENT_KEY_RELEASE (ie_now ev) key) (s\<lparr>ins_key_current := (ins_key_current s)[key := False]\<rparr>)
           else s)"

definition mouse_button :: "nat \<Rightarrow> u32" where
  "mouse_button code =
     (if code = 0x110 then 0x01 else if code = 0x111 then 0x02 else if code = 0x112 then 0x04
      else if code = 0x113 then 0x08 else if code = 0x114 then 0x10 else 0)"

definition process_mouse_event :: "input_event \<Rightarrow> lgx_in_system \<Rightarrow> lgx_in_system" where
  "process_mouse_event ev s =
     (let m = ins_mouse s; v = ie_value ev
      in if ie_type ev = EV_REL then
           if ie_code ev = REL_X then
             s\<lparr>ins_mouse := m\<lparr>ms_delta_x := ms_delta_x m + v, ms_x := (if \<not> ins_mouse_relative s then ms_x m + v else ms_x m)\<rparr>\<rparr>
           else if ie_code ev = REL_Y then
             s\<lparr>ins_mouse := m\<lparr>ms_delta_y := ms_delta_y m + v, ms_y := (if \<not> ins_mouse_relative s then ms_y m + v else ms_y m)\<rparr>\<rparr>
           else if ie_code ev = REL_WHEEL then
             event_push (LGX_EVENT_MOUSE_SCROLL (ie_now ev) v) (s\<lparr>ins_mouse := m\<lparr>ms_scroll := ms_scroll m + v\<rparr>\<rparr>)
           else s
         else if ie_type ev = EV_KEY then
           let btn_mask = mouse_button (ie_code ev)
           in if btn_mask = 0 then s
              else if v \<noteq> 0 then
                event_push (LGX_EVENT_MOUSE_BUTTON_DOWN (ie_now ev) btn_mask) (s\<lparr>ins_mouse := m\<lparr>ms_buttons := ms_buttons m OR btn_mask\<rparr>\<rparr>)
              else
                event_push (LGX_EVENT_MOUSE_BUTTON_UP (ie_now ev) btn_mask) (s\<lparr>ins_mouse := m\<lparr>ms_buttons := ms_buttons m AND NOT btn_mask\<rparr>\<rparr>)
         else s)"

definition pad_axis :: "nat \<Rightarrow> lgx_in_gamepad_axis option" where
  "pad_axis code =
     (if code = ABS_X then Some LGX_PAD_AXIS_LEFT_X else if code = ABS_Y then Some LGX_PAD_AXIS_LEFT_Y
      else if code = ABS_RX then Some LGX_PAD_AXIS_RIGHT_X else if code = ABS_RY then Some LGX_PAD_AXIS_RIGHT_Y
      else if code = ABS_Z then Some LGX_PAD_AXIS_TRIGGER_L else if code = ABS_RZ then Some LGX_PAD_AXIS_TRIGGER_R else None)"

text \<open>One direction of the D-pad: the bits for a negative and for a positive value.\<close>

definition dpad :: "u32 \<Rightarrow> u32 \<Rightarrow> int \<Rightarrow> u32 \<Rightarrow> u32" where
  "dpad neg pos v b =
     (if v < 0 then (b OR neg) AND NOT pos else if v > 0 then (b OR pos) AND NOT neg else b AND NOT (neg OR pos))"

definition axis_value :: "lgx_in_gamepad_axis \<Rightarrow> input_event \<Rightarrow> gamepad_internal \<Rightarrow> rat option" where
  "axis_value axis ev gp =
     (let v = normalize_axis (ie_value ev) (gi_abs_min gp (ie_code ev)) (gi_abs_max gp (ie_code ev))
      in if axis = LGX_PAD_AXIS_TRIGGER_L \<or> axis = LGX_PAD_AXIS_TRIGGER_R then Some ((v + 1) / 2)
         else apply_deadzone v (gi_deadzone gp))"

definition process_gamepad_event :: "input_device \<Rightarrow> input_event \<Rightarrow> lgx_in_system \<Rightarrow> lgx_in_system" where
  "process_gamepad_event dev ev s =
     (if id_gamepad_id dev \<ge> LGX_IN_MAX_GAMEPADS then s
      else
        let pid = id_gamepad_id dev; gp = ins_gamepads s pid; upd = (\<lambda>g. s\<lparr>ins_gamepads := (ins_gamepads s)(pid := g)\<rparr>)
        in if ie_type ev = EV_KEY then
             let btn = evdev_to_gamepad_btn (ie_code ev)
             in if btn = 0 then s
                else if ie_value ev \<noteq> 0 then
                  event_push (LGX_EVENT_GAMEPAD_BUTTON_DOWN (ie_now ev) pid btn) (upd (gp\<lparr>gi_buttons := gi_buttons gp OR btn\<rparr>))
                else
                  event_push (LGX_EVENT_GAMEPAD_BUTTON_UP (ie_now ev) pid btn) (upd (gp\<lparr>gi_buttons := gi_buttons gp AND NOT btn\<rparr>))
           else if ie_type ev = EV_ABS then
             if ie_code ev = ABS_HAT0X then upd (gp\<lparr>gi_buttons := dpad 0x2000 0x4000 (ie_value ev) (gi_buttons gp)\<rparr>)
             else if ie_code ev = ABS_HAT0Y then upd (gp\<lparr>gi_buttons := dpad 0x0800 0x1000 (ie_value ev) (gi_buttons gp)\<rparr>)
             else
               (case pad_axis (ie_code ev) of
                  None \<Rightarrow> s
                | Some axis \<Rightarrow>
                    let v = axis_value axis ev gp
                    in event_push (LGX_EVENT_GAMEPAD_AXIS (ie_now ev) pid axis v) (upd (gp\<lparr>gi_axes := (gi_axes gp)(axis := v)\<rparr>)))
           else s)"

section \<open>Polling\<close>

text \<open>What reading a device until it has nothing more gives, with the time of a disconnection.\<close>

record device_reads =
  dr_events :: "input_event list"
  dr_enodev :: bool
  dr_now :: u64

definition process_event :: "input_device \<Rightarrow> input_event \<Rightarrow> lgx_in_system \<Rightarrow> lgx_in_system" where
  "process_event dev ev s =
     (if ie_type ev = EV_SYN then s
      else case id_type dev of
             DEV_KEYBOARD \<Rightarrow> process_keyboard_event ev s
           | DEV_MOUSE \<Rightarrow> process_mouse_event ev s
           | DEV_GAMEPAD \<Rightarrow> process_gamepad_event dev ev s
           | DEV_NONE \<Rightarrow> s)"

definition poll_device :: "(nat \<Rightarrow> device_reads) \<Rightarrow> nat \<Rightarrow> lgx_in_system \<Rightarrow> lgx_in_system" where
  "poll_device reads i s =
     (let dev = ins_devices s ! i
      in if \<not> id_open dev then s
         else
           let s = fold (process_event dev) (dr_events (reads i)) s
           in if dr_enodev (reads i) \<and> id_type dev = DEV_GAMEPAD then
                let gid = id_gamepad_id dev;
                    s = (if gid < LGX_IN_MAX_GAMEPADS then
                           event_push (LGX_EVENT_GAMEPAD_DISCONNECT (dr_now (reads i)) gid)
                             (s\<lparr>ins_gamepads := (ins_gamepads s)(gid := (ins_gamepads s gid)\<lparr>gi_connected := False\<rparr>)\<rparr>)
                         else s)
                in s\<lparr>ins_devices := (ins_devices s)[i := dev\<lparr>id_open := False\<rparr>]\<rparr>
              else s)"

text \<open>Every poll first keeps the keys of the frame before and clears what counts per frame.\<close>

definition poll_reset :: "lgx_in_system \<Rightarrow> lgx_in_system" where
  "poll_reset s =
     s\<lparr>ins_key_previous := ins_key_current s, ins_mouse := (ins_mouse s)\<lparr>ms_delta_x := 0, ms_delta_y := 0, ms_scroll := 0\<rparr>\<rparr>"

definition lgx_in_poll ::
    "(string \<Rightarrow> device_probe option) \<Rightarrow> string list \<Rightarrow> (nat \<Rightarrow> device_reads) \<Rightarrow> lgx_in_system option \<Rightarrow> lgx_result \<times> lgx_in_system option" where
  "lgx_in_poll probe created reads sys =
     (case sys of
        None \<Rightarrow> (LGX_ERROR_INVALID_PARAM, None)
      | Some s \<Rightarrow>
          let s = check_hotplug probe created (poll_reset s)
          in (LGX_SUCCESS, Some (fold (poll_device reads) [0..<length (ins_devices s)] s)))"

section \<open>Creation\<close>

definition zero_gamepad :: gamepad_internal where
  "zero_gamepad = \<lparr>gi_connected = False, gi_name = [], gi_axes = (\<lambda>_. Some 0), gi_buttons = 0, gi_deadzone = 0, gi_abs_min = (\<lambda>_. 0),
     gi_abs_max = (\<lambda>_. 0), gi_device = 0\<rparr>"

definition queue_size :: "lgx_in_config option \<Rightarrow> u32" where
  "queue_size config = (case config of None \<Rightarrow> DEFAULT_QUEUE_SIZE
     | Some c \<Rightarrow> if ic_event_queue_size c > 0 then ic_event_queue_size c else DEFAULT_QUEUE_SIZE)"

text \<open>The system before its devices are enumerated.\<close>

definition initial_system :: "bool \<Rightarrow> lgx_in_config option \<Rightarrow> lgx_in_system" where
  "initial_system inotify_ok config =
     \<lparr>ins_devices = [], ins_inotify = inotify_ok, ins_key_current = replicate LGX_KEY_COUNT False,
      ins_key_previous = replicate LGX_KEY_COUNT False,
      ins_mouse = \<lparr>ms_x = 0, ms_y = 0, ms_delta_x = 0, ms_delta_y = 0, ms_scroll = 0, ms_buttons = 0\<rparr>, ins_mouse_relative = False,
      ins_gamepads = (\<lambda>_. zero_gamepad), ins_gamepad_count = 0, ins_events = replicate (unat (queue_size config)) None,
      ins_event_head = 0, ins_event_tail = 0, ins_event_count = 0,
      ins_enable_gamepad = (case config of None \<Rightarrow> True | Some c \<Rightarrow> ic_enable_gamepad c),
      ins_enable_keyboard = (case config of None \<Rightarrow> True | Some c \<Rightarrow> ic_enable_keyboard c),
      ins_enable_mouse = (case config of None \<Rightarrow> True | Some c \<Rightarrow> ic_enable_mouse c)\<rparr>"

definition lgx_in_create ::
    "bool \<Rightarrow> bool \<Rightarrow> (string \<Rightarrow> device_probe option) \<Rightarrow> string list \<Rightarrow> lgx_in_config option \<Rightarrow> lgx_in_system option" where
  "lgx_in_create calloc_ok inotify_ok probe names config =
     (if \<not> calloc_ok then None else Some (enumerate_devices probe names (initial_system inotify_ok config)))"

section \<open>Queries\<close>

definition lgx_in_key_down :: "nat \<Rightarrow> lgx_in_system option \<Rightarrow> bool" where
  "lgx_in_key_down key sys = (case sys of None \<Rightarrow> False | Some s \<Rightarrow> if key \<ge> LGX_KEY_COUNT then False else ins_key_current s ! key)"

definition lgx_in_key_pressed :: "nat \<Rightarrow> lgx_in_system option \<Rightarrow> bool" where
  "lgx_in_key_pressed key sys =
     (case sys of None \<Rightarrow> False | Some s \<Rightarrow> if key \<ge> LGX_KEY_COUNT then False else ins_key_current s ! key \<and> \<not> ins_key_previous s ! key)"

definition lgx_in_key_released :: "nat \<Rightarrow> lgx_in_system option \<Rightarrow> bool" where
  "lgx_in_key_released key sys =
     (case sys of None \<Rightarrow> False | Some s \<Rightarrow> if key \<ge> LGX_KEY_COUNT then False else \<not> ins_key_current s ! key \<and> ins_key_previous s ! key)"

definition lgx_in_mouse_get_state :: "lgx_in_system option \<Rightarrow> lgx_result + lgx_in_mouse_state" where
  "lgx_in_mouse_get_state sys = (case sys of None \<Rightarrow> Inl LGX_ERROR_INVALID_PARAM | Some s \<Rightarrow> Inr (ins_mouse s))"

definition lgx_in_mouse_set_relative :: "bool \<Rightarrow> lgx_in_system option \<Rightarrow> lgx_result \<times> lgx_in_system option" where
  "lgx_in_mouse_set_relative enable sys =
     (case sys of
        None \<Rightarrow> (LGX_ERROR_INVALID_PARAM, None)
      | Some s \<Rightarrow> (LGX_SUCCESS, Some (s\<lparr>ins_mouse_relative := enable,
                      ins_mouse := (if enable then (ins_mouse s)\<lparr>ms_x := 0, ms_y := 0\<rparr> else ins_mouse s)\<rparr>)))"

definition lgx_in_gamepad_count :: "lgx_in_system option \<Rightarrow> nat" where
  "lgx_in_gamepad_count sys =
     (case sys of None \<Rightarrow> 0 | Some s \<Rightarrow> length (filter (\<lambda>i. gi_connected (ins_gamepads s i)) [0..<ins_gamepad_count s]))"

definition lgx_in_gamepad_connected :: "nat \<Rightarrow> lgx_in_system option \<Rightarrow> bool" where
  "lgx_in_gamepad_connected pad_id sys =
     (case sys of
        None \<Rightarrow> False
      | Some s \<Rightarrow> if pad_id \<ge> LGX_IN_MAX_GAMEPADS then False else pad_id < ins_gamepad_count s \<and> gi_connected (ins_gamepads s pad_id))"

definition lgx_in_gamepad_get_state :: "nat \<Rightarrow> lgx_in_system option \<Rightarrow> lgx_result + (u32 \<times> (lgx_in_gamepad_axis \<Rightarrow> rat option) \<times> string)" where
  "lgx_in_gamepad_get_state pad_id sys =
     (case sys of
        None \<Rightarrow> Inl LGX_ERROR_INVALID_PARAM
      | Some s \<Rightarrow>
          if pad_id \<ge> LGX_IN_MAX_GAMEPADS then Inl LGX_ERROR_INVALID_PARAM
          else if pad_id \<ge> ins_gamepad_count s \<or> \<not> gi_connected (ins_gamepads s pad_id) then Inl LGX_ERROR_INVALID_PARAM
          else let gp = ins_gamepads s pad_id in Inr (gi_buttons gp, gi_axes gp, gi_name gp))"

definition lgx_in_gamepad_get_name :: "nat \<Rightarrow> lgx_in_system option \<Rightarrow> string option" where
  "lgx_in_gamepad_get_name pad_id sys =
     (case sys of
        None \<Rightarrow> None
      | Some s \<Rightarrow> if pad_id \<ge> ins_gamepad_count s then None
                  else if \<not> gi_connected (ins_gamepads s pad_id) then None else Some (gi_name (ins_gamepads s pad_id)))"

definition lgx_in_gamepad_set_deadzone :: "nat \<Rightarrow> rat \<Rightarrow> lgx_in_system option \<Rightarrow> lgx_result \<times> lgx_in_system option" where
  "lgx_in_gamepad_set_deadzone pad_id deadzone sys =
     (case sys of
        None \<Rightarrow> (LGX_ERROR_INVALID_PARAM, None)
      | Some s \<Rightarrow>
          if pad_id \<ge> ins_gamepad_count s then (LGX_ERROR_INVALID_PARAM, sys)
          else if deadzone < 0 \<or> deadzone > 1 then (LGX_ERROR_INVALID_PARAM, sys)
          else (LGX_SUCCESS, Some (s\<lparr>ins_gamepads := (ins_gamepads s)(pad_id := (ins_gamepads s pad_id)\<lparr>gi_deadzone := deadzone\<rparr>)\<rparr>)))"

text \<open>
  The effect that \<open>lgx_in_gamepad_rumble\<close> uploads. A number that does not fit 16 bits has no defined conversion (None). Uploading gives the number of the effect or
  fails, and then the request to play it may fail.
\<close>

record ff_effect =
  ff_id :: int
  ff_strong :: "16 word option"
  ff_weak :: "16 word option"
  ff_length :: "16 word"

definition magnitude :: "rat \<Rightarrow> 16 word option" where
  "magnitude f = (if - 1 < f * 65535 \<and> f * 65535 < 65536 then Some (word_of_int (if f < 0 then 0 else \<lfloor>f * 65535\<rfloor>)) else None)"

definition rumble_effect :: "input_device \<Rightarrow> rat \<Rightarrow> rat \<Rightarrow> u32 \<Rightarrow> ff_effect" where
  "rumble_effect dev low_freq high_freq duration_ms =
     \<lparr>ff_id = id_ff_id dev, ff_strong = magnitude low_freq, ff_weak = magnitude high_freq,
      ff_length = (if duration_ms > 65535 then 65535 else ucast duration_ms)\<rparr>"

definition lgx_in_gamepad_rumble ::
    "(ff_effect \<Rightarrow> int option) \<Rightarrow> bool \<Rightarrow> nat \<Rightarrow> rat \<Rightarrow> rat \<Rightarrow> u32 \<Rightarrow> lgx_in_system option \<Rightarrow> lgx_result \<times> lgx_in_system option" where
  "lgx_in_gamepad_rumble upload write_ok pad_id low_freq high_freq duration_ms sys =
     (case sys of
        None \<Rightarrow> (LGX_ERROR_INVALID_PARAM, None)
      | Some s \<Rightarrow>
          if pad_id \<ge> ins_gamepad_count s then (LGX_ERROR_INVALID_PARAM, sys)
          else
            let gp = ins_gamepads s pad_id; dev = ins_devices s ! gi_device gp
            in if \<not> gi_connected gp \<or> \<not> id_open dev then (LGX_ERROR_INVALID_PARAM, sys)
               else
                 (case upload (rumble_effect dev low_freq high_freq duration_ms) of
                    None \<Rightarrow> (LGX_ERROR_INVALID_PARAM, sys)
                  | Some i \<Rightarrow>
                      (if write_ok then LGX_SUCCESS else LGX_ERROR_INVALID_PARAM,
                       Some (s\<lparr>ins_devices := (ins_devices s)[gi_device gp := dev\<lparr>id_ff_id := i\<rparr>]\<rparr>))))"

text \<open>The devices whose descriptors \<open>lgx_in_destroy\<close> closes.\<close>

definition lgx_in_destroy :: "lgx_in_system option \<Rightarrow> nat list" where
  "lgx_in_destroy sys = (case sys of None \<Rightarrow> [] | Some s \<Rightarrow> filter (\<lambda>i. id_open (ins_devices s ! i)) [0..<length (ins_devices s)])"

end
