(* ===== verification/Input_Properties.thy ===== *)
theory Input_Properties
  imports Input_System
begin

text \<open>
  What the input module promises: the queue delivers events in order and drops the newest ones when it is full, the keys reflect the last event of
  each key, a key is pressed or released in a frame when its state changed over the poll, and positions of axes stay in their documented ranges.
\<close>

unbundle bit_operations_syntax

section \<open>The queue as a list\<close>

definition pending :: "lgx_in_system \<Rightarrow> lgx_in_event option list" where
  "pending s = map (\<lambda>k. ins_events s ! ((ins_event_head s + k) mod ins_event_capacity s)) [0..<ins_event_count s]"

definition queue_ok :: "lgx_in_system \<Rightarrow> bool" where
  "queue_ok s \<longleftrightarrow> ins_event_head s < ins_event_capacity s \<and> ins_event_count s \<le> ins_event_capacity s \<and>
     ins_event_tail s = (ins_event_head s + ins_event_count s) mod ins_event_capacity s"

lemma pending_length [simp]: "length (pending s) = ins_event_count s"
  by (simp add: pending_def)

lemma slot_other:
  assumes "k < n" "n < (c :: nat)" shows "(h + k) mod c \<noteq> (h + n) mod c"
proof
  assume "(h + k) mod c = (h + n) mod c"
  then have "c dvd h + n - (h + k)" using assms mod_eq_dvd_iff_nat[of "h + k" "h + n" c] by simp
  then show False using assms by (auto dest: dvd_imp_le)
qed

lemma event_push_pending:
  assumes "queue_ok s"
  shows "pending (event_push e s) = take (ins_event_capacity s) (pending s @ [Some e])"
proof (cases "ins_event_count s < ins_event_capacity s")
  case True
  have t: "(ins_event_head s + ins_event_count s) mod ins_event_capacity s < ins_event_capacity s" using True by (intro mod_less_divisor) linarith
  have "map (\<lambda>k. (ins_events s)[ins_event_tail s := Some e] ! ((ins_event_head s + k) mod ins_event_capacity s)) [0..<ins_event_count s] = pending s"
    using assms True unfolding pending_def by (intro map_cong) (auto simp: queue_ok_def slot_other[THEN not_sym])
  then show ?thesis using True assms t by (simp add: event_push_def pending_def queue_ok_def)
next
  case False
  then show ?thesis using assms by (simp add: event_push_def queue_ok_def)
qed

lemma event_push_ok [simp]: "queue_ok s \<Longrightarrow> queue_ok (event_push e s)"
  by (auto simp: queue_ok_def event_push_def mod_Suc_eq)

lemma event_push_same [simp]:
  "ins_event_capacity (event_push e s) = ins_event_capacity s" "ins_devices (event_push e s) = ins_devices s"
  "ins_inotify (event_push e s) = ins_inotify s" "ins_key_current (event_push e s) = ins_key_current s"
  "ins_key_previous (event_push e s) = ins_key_previous s" "ins_mouse (event_push e s) = ins_mouse s"
  "ins_gamepads (event_push e s) = ins_gamepads s" "ins_gamepad_count (event_push e s) = ins_gamepad_count s"
  by (simp_all add: event_push_def)

lemma next_event_pending:
  assumes "queue_ok s"
  shows "lgx_in_next_event (Some s) = (None, Some s) \<and> pending s = [] \<or>
    (\<exists>e s'. lgx_in_next_event (Some s) = (e, Some s') \<and> pending s = e # pending s' \<and> queue_ok s' \<and> ins_event_capacity s' = ins_event_capacity s)"
proof (cases "ins_event_count s")
  case 0
  then show ?thesis by (simp add: lgx_in_next_event_def pending_def)
next
  case (Suc n)
  let ?s = "s\<lparr>ins_event_head := (ins_event_head s + 1) mod ins_event_capacity s, ins_event_count := ins_event_count s - 1\<rparr>"
  have "pending s = ins_events s ! ins_event_head s # pending ?s"
    using assms Suc unfolding pending_def queue_ok_def by (simp add: upt_conv_Cons map_Suc_upt[symmetric] mod_simps del: upt_Suc)
  moreover have "queue_ok ?s" using assms Suc by (auto simp: queue_ok_def mod_simps intro: mod_less_divisor)
  ultimately show ?thesis using Suc by (auto simp: lgx_in_next_event_def)
qed

section \<open>The events of a poll\<close>

text \<open>The events that one event of a device gives; of the state only the calibration of the gamepads matters.\<close>

definition emitted :: "(nat \<Rightarrow> gamepad_internal) \<Rightarrow> input_device \<Rightarrow> input_event \<Rightarrow> lgx_in_event list" where
  "emitted gps dev ev =
     (let t = ie_now ev; code = ie_code ev; v = ie_value ev; pid = id_gamepad_id dev
      in case (id_type dev, ie_type ev) of
           (DEV_KEYBOARD, EV_KEY) \<Rightarrow>
             if code \<notin> set evdev_codes then []
             else if v = 1 then [LGX_EVENT_KEY_PRESS t (evdev_to_lgx_key code)]
             else if v = 0 then [LGX_EVENT_KEY_RELEASE t (evdev_to_lgx_key code)] else []
         | (DEV_MOUSE, EV_REL) \<Rightarrow> if code = REL_WHEEL then [LGX_EVENT_MOUSE_SCROLL t v] else []
         | (DEV_MOUSE, EV_KEY) \<Rightarrow>
             if mouse_button code = 0 then []
             else [if v \<noteq> 0 then LGX_EVENT_MOUSE_BUTTON_DOWN t (mouse_button code) else LGX_EVENT_MOUSE_BUTTON_UP t (mouse_button code)]
         | (DEV_GAMEPAD, EV_KEY) \<Rightarrow>
             if pid \<ge> LGX_IN_MAX_GAMEPADS \<or> evdev_to_gamepad_btn code = 0 then []
             else [if v \<noteq> 0 then LGX_EVENT_GAMEPAD_BUTTON_DOWN t pid (evdev_to_gamepad_btn code)
                   else LGX_EVENT_GAMEPAD_BUTTON_UP t pid (evdev_to_gamepad_btn code)]
         | (DEV_GAMEPAD, EV_ABS) \<Rightarrow>
             if pid \<ge> LGX_IN_MAX_GAMEPADS then []
             else (case pad_axis code of None \<Rightarrow> [] | Some a \<Rightarrow> [LGX_EVENT_GAMEPAD_AXIS t pid a (axis_value a ev (gps pid))])
         | _ \<Rightarrow> [])"

text \<open>The events of one device in a poll, and of all devices.\<close>

definition device_events :: "(nat \<Rightarrow> gamepad_internal) \<Rightarrow> (nat \<Rightarrow> device_reads) \<Rightarrow> input_device list \<Rightarrow> nat \<Rightarrow> lgx_in_event list" where
  "device_events gps reads devs i =
     (let dev = devs ! i
      in if id_open dev then
           concat (map (emitted gps dev) (dr_events (reads i))) @
           (if dr_enodev (reads i) \<and> id_type dev = DEV_GAMEPAD \<and> id_gamepad_id dev < LGX_IN_MAX_GAMEPADS
            then [LGX_EVENT_GAMEPAD_DISCONNECT (dr_now (reads i)) (id_gamepad_id dev)] else [])
         else [])"

definition poll_events :: "(nat \<Rightarrow> device_reads) \<Rightarrow> lgx_in_system \<Rightarrow> lgx_in_event list" where
  "poll_events reads s = concat (map (device_events (ins_gamepads s) reads (ins_devices s)) [0..<length (ins_devices s)])"

definition calib :: "(nat \<Rightarrow> gamepad_internal) \<Rightarrow> nat \<Rightarrow> rat \<times> (nat \<Rightarrow> int) \<times> (nat \<Rightarrow> int)" where
  "calib gps p = (gi_deadzone (gps p), gi_abs_min (gps p), gi_abs_max (gps p))"

lemma axis_value_calib: "calib g p = calib g' p \<Longrightarrow> axis_value a ev (g p) = axis_value a ev (g' p)"
  by (simp add: calib_def axis_value_def Let_def)

lemma emitted_calib: "calib g = calib g' \<Longrightarrow> emitted g dev = emitted g' dev"
  using axis_value_calib[of g _ g'] by (auto simp: emitted_def Let_def fun_eq_iff split: device_type.splits ev_type.splits option.splits)

lemma position_bound: "position x xs \<le> length xs" "position x xs < length xs \<longleftrightarrow> x \<in> set xs" "x \<in> set xs \<Longrightarrow> xs ! position x xs = x"
  by (induction xs) auto

lemma evdev_codes_count: "length evdev_codes = LGX_KEY_COUNT"
  by (simp add: evdev_codes_def LGX_KEY_COUNT_def)

lemma evdev_codes_distinct: "distinct evdev_codes"
  by (simp add: evdev_codes_def)

lemma evdev_known: "evdev_to_lgx_key code < LGX_KEY_COUNT \<longleftrightarrow> code \<in> set evdev_codes"
  using position_bound(2)[of code evdev_codes] by (simp add: evdev_to_lgx_key_def evdev_codes_count)

lemma evdev_key_iff:
  assumes "k < LGX_KEY_COUNT" shows "evdev_to_lgx_key code = k \<longleftrightarrow> code = evdev_codes ! k"
proof
  assume "evdev_to_lgx_key code = k"
  then show "code = evdev_codes ! k"
    using position_bound(2,3)[of code evdev_codes] assms by (simp add: evdev_to_lgx_key_def evdev_codes_count)
next
  assume c: "code = evdev_codes ! k"
  then have "code \<in> set evdev_codes" using assms by (simp add: evdev_codes_count)
  then have "evdev_codes ! position code evdev_codes = evdev_codes ! k" "position code evdev_codes < length evdev_codes"
    using c position_bound[of code evdev_codes] by auto
  then show "evdev_to_lgx_key code = k"
    using nth_eq_iff_index_eq[OF evdev_codes_distinct] assms by (simp add: evdev_to_lgx_key_def evdev_codes_count)
qed

text \<open>A step that adds events to the queue, as far as they fit.\<close>

definition same_queue :: "lgx_in_system \<Rightarrow> lgx_in_system \<Rightarrow> bool" where
  "same_queue s s' \<longleftrightarrow> ins_events s' = ins_events s \<and> ins_event_head s' = ins_event_head s \<and> ins_event_tail s' = ins_event_tail s \<and>
     ins_event_count s' = ins_event_count s"

definition delivers :: "lgx_in_event list \<Rightarrow> lgx_in_system \<Rightarrow> lgx_in_system \<Rightarrow> bool" where
  "delivers es s s' \<longleftrightarrow> (queue_ok s \<longrightarrow> queue_ok s' \<and> ins_event_capacity s' = ins_event_capacity s \<and>
     pending s' = take (ins_event_capacity s) (pending s @ map Some es))"

lemma same_queue_eq: "same_queue s s' \<Longrightarrow> queue_ok s' = queue_ok s \<and> pending s' = pending s \<and> ins_event_capacity s' = ins_event_capacity s"
  by (simp add: same_queue_def queue_ok_def pending_def)

lemma queue_ok_count: "queue_ok s \<Longrightarrow> ins_event_count s \<le> ins_event_capacity s"
  by (simp add: queue_ok_def)

lemma delivers_none: "same_queue s s' \<Longrightarrow> delivers [] s s'"
  using same_queue_eq[of s s'] queue_ok_count[of s] by (auto simp: delivers_def)

lemma delivers_push: "same_queue s s' \<Longrightarrow> delivers [e] s (event_push e s')"
  using same_queue_eq[of s s'] by (auto simp: delivers_def event_push_pending)

lemma take_take_append: "take n (take n xs @ ys) = take n (xs @ ys)"
  by (simp add: min_def)

lemma delivers_append:
  assumes es: "delivers es s s'" and fs: "delivers fs s' s''" shows "delivers (es @ fs) s s''"
  unfolding delivers_def
proof
  assume "queue_ok s"
  then have a: "queue_ok s'" "ins_event_capacity s' = ins_event_capacity s" "pending s' = take (ins_event_capacity s) (pending s @ map Some es)"
    using es unfolding delivers_def by blast+
  then have b: "queue_ok s''" "ins_event_capacity s'' = ins_event_capacity s'" "pending s'' = take (ins_event_capacity s') (pending s' @ map Some fs)"
    using fs unfolding delivers_def by blast+
  have "pending s'' = take (ins_event_capacity s) (pending s @ map Some (es @ fs))"
    using take_take_append[of "ins_event_capacity s" "pending s @ map Some es" "map Some fs"] unfolding b(3) a(2,3) by (simp only: map_append append_assoc)
  then show "queue_ok s'' \<and> ins_event_capacity s'' = ins_event_capacity s \<and>
      pending s'' = take (ins_event_capacity s) (pending s @ map Some (es @ fs))" using a b by simp
qed

lemma process_event_delivers: "delivers (emitted (ins_gamepads s) dev ev) s (process_event dev ev s)"
proof (cases "id_type dev")
  case DEV_NONE
  then show ?thesis by (auto simp: emitted_def process_event_def same_queue_def intro!: delivers_none split: ev_type.splits)
next
  case DEV_KEYBOARD
  then show ?thesis using evdev_known[of "ie_code ev"]
    by (cases "ie_type ev") (auto simp: emitted_def process_event_def process_keyboard_event_def Let_def same_queue_def not_less intro!: delivers_none delivers_push)
next
  case DEV_MOUSE
  then show ?thesis
    by (cases "ie_type ev")
      (auto simp: emitted_def process_event_def process_mouse_event_def REL_X_def REL_Y_def REL_WHEEL_def Let_def same_queue_def intro!: delivers_none delivers_push)
next
  case DEV_GAMEPAD
  then show ?thesis
    by (cases "ie_type ev")
      (auto simp: emitted_def process_event_def process_gamepad_event_def pad_axis_def ABS_X_def ABS_Y_def ABS_Z_def ABS_RX_def ABS_RY_def ABS_RZ_def
        ABS_HAT0X_def ABS_HAT0Y_def Let_def same_queue_def intro!: delivers_none delivers_push split: option.splits)
qed

section \<open>Keys\<close>

text \<open>The state of a key after an event, and after the events of the keyboards.\<close>

definition key_step :: "nat \<Rightarrow> input_event \<Rightarrow> bool \<Rightarrow> bool" where
  "key_step k ev down =
     (if ie_type ev = EV_KEY \<and> ie_code ev = evdev_codes ! k then if ie_value ev = 1 then True else if ie_value ev = 0 then False else down else down)"

definition keyboard_events :: "(nat \<Rightarrow> device_reads) \<Rightarrow> input_device list \<Rightarrow> nat \<Rightarrow> input_event list" where
  "keyboard_events reads devs i = (if id_open (devs ! i) \<and> id_type (devs ! i) = DEV_KEYBOARD then dr_events (reads i) else [])"

definition all_keyboard_events :: "(nat \<Rightarrow> device_reads) \<Rightarrow> lgx_in_system \<Rightarrow> input_event list" where
  "all_keyboard_events reads s = concat (map (keyboard_events reads (ins_devices s)) [0..<length (ins_devices s)])"

lemma process_event_keys:
  assumes "k < LGX_KEY_COUNT" "length (ins_key_current s) = LGX_KEY_COUNT"
  shows "ins_key_current (process_event dev ev s) ! k =
    (if id_type dev = DEV_KEYBOARD then key_step k ev (ins_key_current s ! k) else ins_key_current s ! k)"
proof (cases "id_type dev")
  case DEV_KEYBOARD
  then show ?thesis using assms evdev_key_iff[OF assms(1), of "ie_code ev"]
    by (auto simp: process_event_def process_keyboard_event_def key_step_def nth_list_update Let_def)
qed (auto simp: process_event_def process_mouse_event_def process_gamepad_event_def Let_def split: option.splits)

lemma event_push_config [simp]:
  "ins_enable_gamepad (event_push e s) = ins_enable_gamepad s" "ins_mouse_relative (event_push e s) = ins_mouse_relative s"
  by (simp_all add: event_push_def)

lemma process_event_frame:
  "ins_devices (process_event dev ev s) = ins_devices s \<and> ins_key_previous (process_event dev ev s) = ins_key_previous s \<and>
   length (ins_key_current (process_event dev ev s)) = length (ins_key_current s) \<and> ins_gamepad_count (process_event dev ev s) = ins_gamepad_count s \<and>
   calib (ins_gamepads (process_event dev ev s)) = calib (ins_gamepads s)"
  by (auto simp: process_event_def process_keyboard_event_def process_mouse_event_def process_gamepad_event_def calib_def fun_eq_iff Let_def
      split: option.splits device_type.splits)

section \<open>A device, all devices\<close>

text \<open>What a step of a poll leaves as it is.\<close>

definition same_frame :: "lgx_in_system \<Rightarrow> lgx_in_system \<Rightarrow> bool" where
  "same_frame s s' \<longleftrightarrow> ins_key_previous s' = ins_key_previous s \<and> length (ins_key_current s') = length (ins_key_current s) \<and>
     ins_gamepad_count s' = ins_gamepad_count s \<and> calib (ins_gamepads s') = calib (ins_gamepads s) \<and>
     length (ins_devices s') = length (ins_devices s)"

lemma same_frame_trans: "same_frame s s' \<Longrightarrow> same_frame s' s'' \<Longrightarrow> same_frame s s''"
  by (simp add: same_frame_def)

lemma fold_events:
  assumes "calib g = calib (ins_gamepads s)" "length (ins_key_current s) = LGX_KEY_COUNT" "k < LGX_KEY_COUNT"
  shows "delivers (concat (map (emitted g dev) evs)) s (fold (process_event dev) evs s) \<and> same_frame s (fold (process_event dev) evs s) \<and>
    ins_devices (fold (process_event dev) evs s) = ins_devices s \<and>
    ins_key_current (fold (process_event dev) evs s) ! k =
      fold (key_step k) (if id_type dev = DEV_KEYBOARD then evs else []) (ins_key_current s ! k)"
  using assms
proof (induction evs arbitrary: s)
  case Nil
  then show ?case by (simp add: same_frame_def same_queue_def delivers_none)
next
  case (Cons ev evs)
  let ?s = "process_event dev ev s"
  note fr = process_event_frame[of dev ev s]
  have IH: "delivers (concat (map (emitted g dev) evs)) ?s (fold (process_event dev) evs ?s) \<and> same_frame ?s (fold (process_event dev) evs ?s) \<and>
      ins_devices (fold (process_event dev) evs ?s) = ins_devices ?s \<and>
      ins_key_current (fold (process_event dev) evs ?s) ! k = fold (key_step k) (if id_type dev = DEV_KEYBOARD then evs else []) (ins_key_current ?s ! k)"
    by (rule Cons.IH) (use Cons.prems fr in simp_all)
  have d: "delivers (emitted g dev ev) s ?s" using process_event_delivers[of s dev ev] emitted_calib[OF Cons.prems(1)] by simp
  have "same_frame s ?s" using fr by (simp add: same_frame_def)
  then show ?case using IH delivers_append[OF d] same_frame_trans fr process_event_keys[OF Cons.prems(3,2), of dev ev] by auto
qed

lemma poll_device_step:
  assumes g: "calib g = calib (ins_gamepads s)" and k: "length (ins_key_current s) = LGX_KEY_COUNT" "k < LGX_KEY_COUNT"
    and dev: "ins_devices s ! i = devs ! i"
  shows "delivers (device_events g reads devs i) s (poll_device reads i s) \<and> same_frame s (poll_device reads i s) \<and>
    (\<forall>j. j \<noteq> i \<longrightarrow> ins_devices (poll_device reads i s) ! j = ins_devices s ! j) \<and>
    ins_key_current (poll_device reads i s) ! k = fold (key_step k) (keyboard_events reads devs i) (ins_key_current s ! k)"
proof (cases "id_open (devs ! i)")
  case False
  then show ?thesis using dev by (simp add: poll_device_def device_events_def keyboard_events_def same_frame_def same_queue_def delivers_none)
next
  case True
  let ?d = "devs ! i" let ?t = "fold (process_event ?d) (dr_events (reads i)) s" let ?gid = "id_gamepad_id (devs ! i)"
  note F = fold_events[OF g k, of ?d "dr_events (reads i)"]
  show ?thesis
  proof (cases "dr_enodev (reads i) \<and> id_type ?d = DEV_GAMEPAD")
    case False
    then show ?thesis using F True dev by (auto simp: poll_device_def device_events_def keyboard_events_def Let_def)
  next
    case gone: True
    let ?u = "if ?gid < LGX_IN_MAX_GAMEPADS then event_push (LGX_EVENT_GAMEPAD_DISCONNECT (dr_now (reads i)) ?gid)
        (?t\<lparr>ins_gamepads := (ins_gamepads ?t)(?gid := (ins_gamepads ?t ?gid)\<lparr>gi_connected := False\<rparr>)\<rparr>) else ?t"
    have p: "poll_device reads i s = ?u\<lparr>ins_devices := (ins_devices ?u)[i := ?d\<lparr>id_open := False\<rparr>]\<rparr>"
      using True gone dev by (simp add: poll_device_def Let_def)
    have "delivers (if ?gid < LGX_IN_MAX_GAMEPADS then [LGX_EVENT_GAMEPAD_DISCONNECT (dr_now (reads i)) ?gid] else []) ?t ?u"
      by (auto intro!: delivers_push delivers_none simp: same_queue_def)
    from delivers_append[OF this delivers_none[of ?u "poll_device reads i s"]]
    have "delivers (if ?gid < LGX_IN_MAX_GAMEPADS then [LGX_EVENT_GAMEPAD_DISCONNECT (dr_now (reads i)) ?gid] else []) ?t (poll_device reads i s)"
      by (simp add: p same_queue_def)
    from delivers_append[OF F[THEN conjunct1] this]
    have "delivers (device_events g reads devs i) s (poll_device reads i s)" using True gone by (simp add: device_events_def Let_def)
    moreover have "same_frame ?t (poll_device reads i s)" by (auto simp: p same_frame_def calib_def fun_eq_iff)
    ultimately show ?thesis using F gone True same_frame_trans[of s ?t] by (auto simp: p keyboard_events_def)
  qed
qed

lemma poll_devices:
  assumes "calib g = calib (ins_gamepads s)" "length (ins_key_current s) = LGX_KEY_COUNT" "k < LGX_KEY_COUNT"
    "distinct is" "\<forall>i\<in>set is. ins_devices s ! i = devs ! i"
  shows "delivers (concat (map (device_events g reads devs) is)) s (fold (poll_device reads) is s) \<and> same_frame s (fold (poll_device reads) is s) \<and>
    ins_key_current (fold (poll_device reads) is s) ! k = fold (key_step k) (concat (map (keyboard_events reads devs) is)) (ins_key_current s ! k)"
  using assms
proof (induction "is" arbitrary: s)
  case Nil
  then show ?case by (simp add: same_frame_def same_queue_def delivers_none)
next
  case (Cons i "is")
  let ?s = "poll_device reads i s"
  have dev: "ins_devices s ! i = devs ! i" using Cons.prems(5) by simp
  note S = poll_device_step[OF Cons.prems(1-3) dev, of reads]
  have "delivers (concat (map (device_events g reads devs) is)) ?s (fold (poll_device reads) is ?s) \<and> same_frame ?s (fold (poll_device reads) is ?s) \<and>
      ins_key_current (fold (poll_device reads) is ?s) ! k = fold (key_step k) (concat (map (keyboard_events reads devs) is)) (ins_key_current ?s ! k)"
  proof (rule Cons.IH)
    show "\<forall>j\<in>set is. ins_devices ?s ! j = devs ! j" using S Cons.prems(4,5) by auto
  qed (use S Cons.prems in \<open>auto simp: same_frame_def\<close>)
  then show ?case using S delivers_append[of _ s ?s] same_frame_trans[of s ?s] by (simp add: fold_append)
qed

section \<open>Hot-plugging\<close>

text \<open>Opening devices changes no key; every new gamepad gets the next number and announces itself.\<close>

definition plugged :: "lgx_in_system \<Rightarrow> lgx_in_system \<Rightarrow> bool" where
  "plugged s s' \<longleftrightarrow> ins_key_current s' = ins_key_current s \<and> ins_key_previous s' = ins_key_previous s \<and>
     ins_gamepad_count s \<le> ins_gamepad_count s' \<and>
     (\<exists>ts. length ts = ins_gamepad_count s' - ins_gamepad_count s \<and>
        delivers (map2 LGX_EVENT_GAMEPAD_CONNECT ts [ins_gamepad_count s..<ins_gamepad_count s']) s s')"

lemma plugged_refl: "plugged s s"
  by (simp add: plugged_def same_queue_def delivers_none)

lemma plugged_trans:
  assumes a: "plugged s s'" and b: "plugged s' s''" shows "plugged s s''"
proof -
  let ?a = "ins_gamepad_count s" and ?b = "ins_gamepad_count s'" and ?c = "ins_gamepad_count s''"
  obtain ts us where t: "length ts = ?b - ?a" "delivers (map2 LGX_EVENT_GAMEPAD_CONNECT ts [?a..<?b]) s s'"
    and u: "length us = ?c - ?b" "delivers (map2 LGX_EVENT_GAMEPAD_CONNECT us [?b..<?c]) s' s''" using a b unfolding plugged_def by blast
  have le: "?a \<le> ?b" "?b \<le> ?c" using a b by (simp_all add: plugged_def)
  then have "[?a..<?c] = [?a..<?b] @ [?b..<?c]" using upt_add_eq_append[of ?a ?b "?c - ?b"] by simp
  then have "delivers (map2 LGX_EVENT_GAMEPAD_CONNECT (ts @ us) [?a..<?c]) s s''" using delivers_append[OF t(2) u(2)] t(1) by simp
  moreover have "length (ts @ us) = ?c - ?a" using t(1) u(1) le by simp
  ultimately show ?thesis using a b le unfolding plugged_def by (metis (no_types, lifting) order_trans)
qed

lemma open_device_plugged: "plugged s (open_device probe path s)"
proof (cases "\<exists>p. probe path = Some p \<and> open_device probe path s \<noteq> s")
  case False
  then show ?thesis using plugged_refl[of s] by (cases "probe path") (auto simp: open_device_def)
next
  case True
  then obtain p where p: "probe path = Some p" "open_device probe path s \<noteq> s" by blast
  let ?pad = "classify_device p = DEV_GAMEPAD \<and> ins_gamepad_count s < LGX_IN_MAX_GAMEPADS" and ?g = "ins_gamepad_count s"
  let ?s = "if ?pad then event_push (LGX_EVENT_GAMEPAD_CONNECT (dp_now p) ?g)
      (s\<lparr>ins_gamepad_count := ?g + 1, ins_gamepads := (ins_gamepads s)(?g := new_gamepad (length (ins_devices s)) p)\<rparr>) else s"
  obtain dev where o: "open_device probe path s = ?s\<lparr>ins_devices := ins_devices ?s @ [dev]\<rparr>"
    using p by (simp add: open_device_def Let_def split: if_splits)
  have d: "delivers (if ?pad then [LGX_EVENT_GAMEPAD_CONNECT (dp_now p) ?g] else []) s ?s"
    by (auto intro!: delivers_push delivers_none simp: same_queue_def)
  have "delivers [] ?s (open_device probe path s)" unfolding o by (rule delivers_none) (simp add: same_queue_def)
  from delivers_append[OF d this]
  have "delivers (map2 LGX_EVENT_GAMEPAD_CONNECT (if ?pad then [dp_now p] else []) [?g..<ins_gamepad_count ?s]) s (open_device probe path s)" by (cases ?pad) simp_all
  then show ?thesis unfolding plugged_def
    by (intro conjI exI[of _ "if ?pad then [dp_now p] else []"]) (auto simp: o)
qed

lemma open_names_plugged: "plugged s (fold (open_named probe) names s)"
proof (induction names arbitrary: s)
  case (Cons n names)
  have "plugged s (open_named probe n s)" by (simp add: open_named_def plugged_refl open_device_plugged)
  then show ?case using Cons plugged_trans by simp
qed (simp add: plugged_refl)

lemma hotplug_plugged: "plugged s (check_hotplug probe created s)"
  by (simp add: check_hotplug_def plugged_refl open_names_plugged)

section \<open>Bounds\<close>

definition is_stick :: "lgx_in_gamepad_axis \<Rightarrow> bool" where
  "is_stick a \<longleftrightarrow> a \<noteq> LGX_PAD_AXIS_TRIGGER_L \<and> a \<noteq> LGX_PAD_AXIS_TRIGGER_R"

definition pad_ok :: "gamepad_internal \<Rightarrow> bool" where
  "pad_ok q \<longleftrightarrow> (\<forall>a v. is_stick a \<and> gi_axes q a = Some v \<longrightarrow> - 1 \<le> v \<and> v \<le> 1)"

definition sticks_ok :: "(nat \<Rightarrow> gamepad_internal) \<Rightarrow> bool" where
  "sticks_ok gps \<longleftrightarrow> (\<forall>p. pad_ok (gps p))"

lemma sticks_upd [simp]: "sticks_ok g \<Longrightarrow> pad_ok q \<Longrightarrow> sticks_ok (g(p := q))"
  by (simp add: sticks_ok_def)

lemma sticks_pad [simp]: "sticks_ok g \<Longrightarrow> pad_ok (g p)"
  by (simp add: sticks_ok_def)

lemma pad_ok_upd [simp]: "pad_ok (q\<lparr>gi_buttons := b\<rparr>) = pad_ok q" "pad_ok (q\<lparr>gi_connected := c\<rparr>) = pad_ok q" "pad_ok (q\<lparr>gi_deadzone := d\<rparr>) = pad_ok q"
  "pad_ok (new_gamepad n p)"
  by (simp_all add: pad_ok_def new_gamepad_def)

text \<open>The sizes of the arrays, and the positions of the sticks.\<close>

definition bounds_ok :: "lgx_in_system \<Rightarrow> bool" where
  "bounds_ok s \<longleftrightarrow> ins_gamepad_count s \<le> LGX_IN_MAX_GAMEPADS \<and> length (ins_devices s) \<le> MAX_DEVICES \<and> sticks_ok (ins_gamepads s)"

lemma apply_deadzone_bounds: "apply_deadzone v d = Some w \<Longrightarrow> - 1 \<le> w \<and> w \<le> 1"
  by (auto simp: apply_deadzone_def Let_def split: if_splits)

lemma axis_value_stick: "is_stick a \<Longrightarrow> axis_value a ev gp = Some v \<Longrightarrow> - 1 \<le> v \<and> v \<le> 1"
  using apply_deadzone_bounds by (auto simp: axis_value_def is_stick_def Let_def)

lemma pad_ok_axis [simp]: "pad_ok q \<Longrightarrow> pad_ok (q\<lparr>gi_axes := (gi_axes q)(a := axis_value a ev gp)\<rparr>)"
  using axis_value_stick[of a ev gp] by (auto simp: pad_ok_def)

text \<open>A trigger whose value the kernel reports within its range is between zero and one.\<close>

lemma axis_value_trigger:
  assumes "\<not> is_stick a" "gi_abs_min gp (ie_code ev) \<le> ie_value ev" "ie_value ev \<le> gi_abs_max gp (ie_code ev)"
  shows "\<exists>v. axis_value a ev gp = Some v \<and> 0 \<le> v \<and> v \<le> 1"
proof -
  let ?mn = "gi_abs_min gp (ie_code ev)" and ?mx = "gi_abs_max gp (ie_code ev)" and ?v = "ie_value ev"
  have e: "axis_value a ev gp = Some ((normalize_axis ?v ?mn ?mx + 1) / 2)" using assms(1) by (auto simp: axis_value_def is_stick_def Let_def)
  show ?thesis
  proof (cases "?mx = ?mn")
    case True
    then show ?thesis unfolding e normalize_axis_def by (intro exI[of _ "1 / 2"]) simp
  next
    case False
    then have "0 < rat_of_int (?mx - ?mn)" "0 \<le> rat_of_int (?v - ?mn)" "rat_of_int (?v - ?mn) \<le> rat_of_int (?mx - ?mn)" using assms(2,3) by simp_all
    then have "0 \<le> rat_of_int (?v - ?mn) / rat_of_int (?mx - ?mn)" "rat_of_int (?v - ?mn) / rat_of_int (?mx - ?mn) \<le> 1" by simp_all
    moreover have "(normalize_axis ?v ?mn ?mx + 1) / 2 = rat_of_int (?v - ?mn) / rat_of_int (?mx - ?mn)"
      using False by (simp add: normalize_axis_def del: of_int_diff)
    ultimately have "0 \<le> (normalize_axis ?v ?mn ?mx + 1) / 2" "(normalize_axis ?v ?mn ?mx + 1) / 2 \<le> 1" by (simp_all only:)
    then show ?thesis using e by blast
  qed
qed

lemma process_event_bounds: "bounds_ok s \<Longrightarrow> bounds_ok (process_event dev ev s)"
  by (cases "id_type dev")
    (simp_all add: bounds_ok_def process_event_def process_keyboard_event_def process_mouse_event_def process_gamepad_event_def Let_def
      split: option.split)

lemma fold_bounds: "bounds_ok s \<Longrightarrow> bounds_ok (fold (process_event dev) evs s)"
  by (induction evs arbitrary: s) (simp_all add: process_event_bounds)

lemma poll_device_bounds:
  assumes "bounds_ok s" shows "bounds_ok (poll_device reads i s)"
  using fold_bounds[OF assms, of "ins_devices s ! i" "dr_events (reads i)"] assms
  by (simp add: poll_device_def bounds_ok_def Let_def)

lemma open_device_bounds: "bounds_ok s \<Longrightarrow> bounds_ok (open_device probe path s)"
  by (simp add: open_device_def bounds_ok_def Let_def split: option.split)

lemma open_named_bounds: "bounds_ok s \<Longrightarrow> bounds_ok (fold (open_named probe) names s)"
  by (induction names arbitrary: s) (simp_all add: open_named_def open_device_bounds)

lemma poll_devices_bounds: "bounds_ok s \<Longrightarrow> bounds_ok (fold (poll_device reads) is s)"
  by (induction "is" arbitrary: s) (simp_all add: poll_device_bounds)

section \<open>Runs\<close>

text \<open>
  What a client does with an input system: create it, poll, take events, switch the mouse mode, set dead zones, let a gamepad rumble.
\<close>

inductive input_run :: "lgx_in_system \<Rightarrow> bool" where
  create: "lgx_in_create True ino probe names config = Some s \<Longrightarrow> input_run s"
| poll: "input_run s \<Longrightarrow> lgx_in_poll probe created reads (Some s) = (r, Some s') \<Longrightarrow> input_run s'"
| next_event: "input_run s \<Longrightarrow> lgx_in_next_event (Some s) = (e, Some s') \<Longrightarrow> input_run s'"
| relative: "input_run s \<Longrightarrow> lgx_in_mouse_set_relative b (Some s) = (r, Some s') \<Longrightarrow> input_run s'"
| deadzone: "input_run s \<Longrightarrow> lgx_in_gamepad_set_deadzone p z (Some s) = (r, Some s') \<Longrightarrow> input_run s'"
| rumble: "input_run s \<Longrightarrow> lgx_in_gamepad_rumble up w p lo hi ms (Some s) = (r, Some s') \<Longrightarrow> input_run s'"

definition input_ok :: "lgx_in_system \<Rightarrow> bool" where
  "input_ok s \<longleftrightarrow> queue_ok s \<and> None \<notin> set (pending s) \<and> length (ins_key_current s) = LGX_KEY_COUNT \<and>
     length (ins_key_previous s) = LGX_KEY_COUNT \<and> bounds_ok s"

lemma poll_cases:
  assumes ok: "input_ok s" and poll: "lgx_in_poll probe created reads (Some s) = (r, Some s')" and k: "k < LGX_KEY_COUNT"
    and s1: "s1 = check_hotplug probe created (poll_reset s)"
  shows "r = LGX_SUCCESS \<and> input_ok s' \<and> ins_event_capacity s' = ins_event_capacity s \<and> ins_key_previous s' = ins_key_current s \<and>
    (\<exists>ts. length ts = ins_gamepad_count s1 - ins_gamepad_count s \<and>
       pending s' = take (ins_event_capacity s)
         (pending s @ map Some (map2 LGX_EVENT_GAMEPAD_CONNECT ts [ins_gamepad_count s..<ins_gamepad_count s1] @ poll_events reads s1))) \<and>
    ins_key_current s' ! k = fold (key_step k) (all_keyboard_events reads s1) (ins_key_current s ! k)"
proof -
  let ?s0 = "poll_reset s"
  have s': "s' = fold (poll_device reads) [0..<length (ins_devices s1)] s1" "r = LGX_SUCCESS" using poll s1 by (auto simp: lgx_in_poll_def Let_def)
  have q0: "same_queue s ?s0" and f0: "ins_gamepad_count ?s0 = ins_gamepad_count s" "ins_key_current ?s0 = ins_key_current s"
      "ins_key_previous ?s0 = ins_key_current s" "bounds_ok ?s0 = bounds_ok s"
    by (simp_all add: same_queue_def poll_reset_def bounds_ok_def)
  have pl: "plugged ?s0 s1" unfolding s1 by (rule hotplug_plugged)
  then obtain ts where ts: "length ts = ins_gamepad_count s1 - ins_gamepad_count s"
    "delivers (map2 LGX_EVENT_GAMEPAD_CONNECT ts [ins_gamepad_count s..<ins_gamepad_count s1]) ?s0 s1" using f0 by (auto simp: plugged_def)
  have k1: "ins_key_current s1 = ins_key_current s" "ins_key_previous s1 = ins_key_current s" using pl f0 by (simp_all add: plugged_def)
  have P: "delivers (poll_events reads s1) s1 s' \<and> same_frame s1 s' \<and>
      ins_key_current s' ! k = fold (key_step k) (all_keyboard_events reads s1) (ins_key_current s1 ! k)"
    unfolding s'(1) poll_events_def all_keyboard_events_def by (rule poll_devices) (use ok k k1 in \<open>simp_all add: input_ok_def\<close>)
  let ?es = "map2 LGX_EVENT_GAMEPAD_CONNECT ts [ins_gamepad_count s..<ins_gamepad_count s1] @ poll_events reads s1"
  have "delivers ([] @ ?es) s s'" by (intro delivers_append[OF delivers_none[OF q0]] delivers_append[OF ts(2)] conjunct1[OF P])
  then have d: "queue_ok s'" "ins_event_capacity s' = ins_event_capacity s" "pending s' = take (ins_event_capacity s) (pending s @ map Some ?es)"
    using ok by (simp_all only: delivers_def input_ok_def append_Nil)
  have "None \<notin> set (pending s @ map Some ?es)" using ok by (auto simp: input_ok_def)
  then have "None \<notin> set (pending s')" unfolding d(3) using in_set_takeD by fast
  moreover have "bounds_ok s'" unfolding s'(1)
    by (rule poll_devices_bounds) (use ok f0 open_named_bounds[of ?s0 probe created] in \<open>auto simp: s1 check_hotplug_def input_ok_def\<close>)
  ultimately have "input_ok s'" using d(1) P k1 ok by (simp add: input_ok_def same_frame_def)
  then show ?thesis using s'(2) d P k1 ts(1) by (auto simp: same_frame_def)
qed

lemma enumerate_ok:
  assumes "input_ok s" shows "input_ok (enumerate_devices probe names s)"
  using assms open_names_plugged[of s probe names] open_named_bounds[of s probe names]
  by (auto simp: input_ok_def plugged_def delivers_def enumerate_devices_def dest!: in_set_takeD)

lemma initial_ok: "input_ok (initial_system ino config)"
proof -
  have "0 < unat (queue_size config)" by (auto simp: queue_size_def DEFAULT_QUEUE_SIZE_def word_less_nat_alt split: option.split)
  then show ?thesis
    by (simp add: initial_system_def input_ok_def queue_ok_def pending_def bounds_ok_def sticks_ok_def pad_ok_def zero_gamepad_def)
qed

lemma create_ok: "lgx_in_create True ino probe names config = Some s \<Longrightarrow> input_ok s"
  using enumerate_ok[OF initial_ok, of probe names ino config] by (simp add: lgx_in_create_def)

lemma same_ok:
  "input_ok s \<Longrightarrow> same_queue s s' \<Longrightarrow> ins_key_current s' = ins_key_current s \<Longrightarrow> ins_key_previous s' = ins_key_previous s \<Longrightarrow> bounds_ok s' \<Longrightarrow> input_ok s'"
  using same_queue_eq[of s s'] by (simp add: input_ok_def)

lemma next_event_ok:
  assumes ok: "input_ok s" and n: "lgx_in_next_event (Some s) = (e, Some s')"
  shows "input_ok s' \<and> (pending s = [] \<and> e = None \<and> s' = s \<or> pending s = e # pending s' \<and> e \<noteq> None)"
proof -
  have q: "queue_ok s" using ok by (simp add: input_ok_def)
  have same: "ins_key_current s' = ins_key_current s" "ins_key_previous s' = ins_key_previous s" "bounds_ok s' = bounds_ok s"
    using n by (auto simp: lgx_in_next_event_def bounds_ok_def split: if_splits)
  from next_event_pending[OF q] show ?thesis
  proof (elim disjE exE conjE)
    assume "lgx_in_next_event (Some s) = (None, Some s)" "pending s = []"
    then show ?thesis using n ok by simp
  next
    fix e2 s2 assume "lgx_in_next_event (Some s) = (e2, Some s2)" "pending s = e2 # pending s2" "queue_ok s2"
    moreover from this have "e2 \<noteq> None" using ok by (metis input_ok_def list.set_intros(1))
    ultimately show ?thesis using n ok same by (auto simp: input_ok_def)
  qed
qed

lemma input_run_ok: "input_run s \<Longrightarrow> input_ok s"
proof (induction rule: input_run.induct)
  case create
  then show ?case by (rule create_ok)
next
  case (poll s probe created reads r s')
  have "(0::nat) < LGX_KEY_COUNT" by (simp add: LGX_KEY_COUNT_def)
  then show ?case using poll_cases[OF poll(3,2) _ refl] by blast
next
  case next_event
  then show ?case using next_event_ok by blast
next
  case (relative s b r s')
  have "bounds_ok s" using relative(3) by (simp add: input_ok_def)
  then show ?case using relative(2) by (intro same_ok[OF relative(3)]) (auto simp: lgx_in_mouse_set_relative_def same_queue_def bounds_ok_def)
next
  case (deadzone s p z r s')
  have "bounds_ok s" using deadzone(3) by (simp add: input_ok_def)
  then show ?case using deadzone(2)
    by (intro same_ok[OF deadzone(3)]) (auto simp: lgx_in_gamepad_set_deadzone_def same_queue_def bounds_ok_def split: if_splits)
next
  case (rumble s up w p lo hi ms r s')
  have "bounds_ok s" using rumble(3) by (simp add: input_ok_def)
  then show ?case using rumble(2)
    by (intro same_ok[OF rumble(3)])
      (auto simp: lgx_in_gamepad_rumble_def same_queue_def bounds_ok_def Let_def split: if_splits option.splits)
qed

text \<open>
  C22. A poll reports what happened: in every state of an input system that its operations reach, a poll succeeds, adds to the queue of events, in order
  and as far as there is room, the connections of the gamepads that were plugged in and then the events of the devices, and the queue gives
  them out in that order. A key is down exactly if it was and no later event of its code says otherwise, over all open keyboards; it counts as pressed
  or as released exactly if that changed over the poll. The positions of sticks are between \<open>-1\<close> and \<open>1\<close>, and no array is overrun.
\<close>

theorem input_poll_exact:
  assumes run: "input_run s" and poll: "lgx_in_poll probe created reads (Some s) = (r, Some s')"
    and s1: "s1 = check_hotplug probe created (poll_reset s)"
  shows "r = LGX_SUCCESS \<and>
    (\<exists>ts. length ts = ins_gamepad_count s1 - ins_gamepad_count s \<and>
       pending s' = take (ins_event_capacity s)
         (pending s @ map Some (map2 LGX_EVENT_GAMEPAD_CONNECT ts [ins_gamepad_count s..<ins_gamepad_count s1] @ poll_events reads s1))) \<and>
    (\<forall>e s''. lgx_in_next_event (Some s') = (e, Some s'') \<longrightarrow>
       (pending s' = [] \<and> e = None \<and> s'' = s' \<or> pending s' = e # pending s'' \<and> e \<noteq> None)) \<and>
    (\<forall>k<LGX_KEY_COUNT.
       (lgx_in_key_down k (Some s') \<longleftrightarrow> fold (key_step k) (all_keyboard_events reads s1) (lgx_in_key_down k (Some s))) \<and>
       (lgx_in_key_pressed k (Some s') \<longleftrightarrow> lgx_in_key_down k (Some s') \<and> \<not> lgx_in_key_down k (Some s)) \<and>
       (lgx_in_key_released k (Some s') \<longleftrightarrow> \<not> lgx_in_key_down k (Some s') \<and> lgx_in_key_down k (Some s))) \<and>
    (\<forall>p a v. is_stick a \<and> gi_axes (ins_gamepads s' p) a = Some v \<longrightarrow> - 1 \<le> v \<and> v \<le> 1) \<and>
    ins_gamepad_count s' \<le> LGX_IN_MAX_GAMEPADS \<and> length (ins_devices s') \<le> MAX_DEVICES \<and> length (pending s') \<le> ins_event_capacity s'"
proof -
  note ok = input_run_ok[OF run]
  note P = poll_cases[OF ok poll _ s1]
  have z: "(0::nat) < LGX_KEY_COUNT" by (simp add: LGX_KEY_COUNT_def)
  have ok': "input_ok s'" using P[OF z] by blast
  have keys: "(lgx_in_key_down k (Some s') \<longleftrightarrow> fold (key_step k) (all_keyboard_events reads s1) (lgx_in_key_down k (Some s))) \<and>
       (lgx_in_key_pressed k (Some s') \<longleftrightarrow> lgx_in_key_down k (Some s') \<and> \<not> lgx_in_key_down k (Some s)) \<and>
       (lgx_in_key_released k (Some s') \<longleftrightarrow> \<not> lgx_in_key_down k (Some s') \<and> lgx_in_key_down k (Some s))" if "k < LGX_KEY_COUNT" for k
    using P[OF that] that by (simp add: lgx_in_key_down_def lgx_in_key_pressed_def lgx_in_key_released_def)
  have b: "bounds_ok s'" "queue_ok s'" using ok' by (simp_all add: input_ok_def)
  show ?thesis using P[OF z] keys next_event_ok[OF ok'] b
    by (simp add: bounds_ok_def sticks_ok_def pad_ok_def queue_ok_def)
qed

section \<open>An example\<close>

text \<open>One keyboard, and a frame in which the key A goes down.\<close>

definition demo_probe :: "string \<Rightarrow> device_probe option" where
  "demo_probe path = Some \<lparr>dp_ev_key = True, dp_ev_abs = False, dp_ev_rel = False, dp_key_bit = (\<lambda>_. True), dp_abs_bit = (\<lambda>_. False), dp_name = ''k'',
     dp_absinfo = (\<lambda>_. None), dp_now = 1\<rparr>"

definition demo_reads :: "(nat \<times> int) list \<Rightarrow> nat \<Rightarrow> device_reads" where
  "demo_reads es i = \<lparr>dr_events = map (\<lambda>(c, v). \<lparr>ie_type = EV_KEY, ie_code = c, ie_value = v, ie_now = 2\<rparr>) es, dr_enodev = False, dr_now = 0\<rparr>"

definition demo_input :: lgx_in_system where
  "demo_input = the (lgx_in_create True True demo_probe [''event0''] None)"

lemma demo_input_run: "input_run demo_input"
  by (rule input_run.create[of True demo_probe "[''event0'']" None]) (simp add: demo_input_def lgx_in_create_def)

theorem input_poll_exact_witness:
  "\<exists>s'. lgx_in_poll demo_probe [] (demo_reads [(30, 1)]) (Some demo_input) = (LGX_SUCCESS, Some s') \<and> lgx_in_key_pressed 0 (Some s')"
proof -
  obtain s' where p: "lgx_in_poll demo_probe [] (demo_reads [(30, 1)]) (Some demo_input) = (LGX_SUCCESS, Some s')" by (simp add: lgx_in_poll_def Let_def)
  have d: "demo_input = (initial_system True None)\<lparr>ins_devices := [\<lparr>id_open = True, id_type = DEV_KEYBOARD, id_name = c_copy 128 ''k'',
      id_path = c_copy 64 (device_path ''event0''), id_gamepad_id = 0, id_ff_id = -1\<rparr>]\<rparr>"
    by (simp add: demo_input_def lgx_in_create_def enumerate_devices_def open_named_def open_device_def demo_probe_def classify_device_def Let_def
        initial_system_def MAX_DEVICES_def)
  have "check_hotplug demo_probe [] (poll_reset demo_input) = poll_reset demo_input" by (simp add: check_hotplug_def)
  moreover have "all_keyboard_events (demo_reads [(30, 1)]) (poll_reset demo_input) = [\<lparr>ie_type = EV_KEY, ie_code = 30, ie_value = 1, ie_now = 2\<rparr>]"
    by (simp add: all_keyboard_events_def keyboard_events_def poll_reset_def d demo_reads_def)
  moreover have "\<not> lgx_in_key_down 0 (Some demo_input)" by (simp add: lgx_in_key_down_def d initial_system_def LGX_KEY_COUNT_def)
  ultimately have "lgx_in_key_pressed 0 (Some s')"
    using input_poll_exact[OF demo_input_run p refl] by (auto simp: key_step_def evdev_codes_def LGX_KEY_COUNT_def)
  then show ?thesis using p by blast
qed

section \<open>What goes wrong\<close>

text \<open>A key that goes down and up again within one frame is neither pressed nor released for the queries, though both events are in the queue.\<close>

lemma short_press_missed:
  assumes "input_run s" "\<not> lgx_in_key_down 0 (Some s)" "lgx_in_poll probe created reads (Some s) = (r, Some s')"
    and "all_keyboard_events reads (check_hotplug probe created (poll_reset s)) =
      [\<lparr>ie_type = EV_KEY, ie_code = 30, ie_value = 1, ie_now = t\<rparr>, \<lparr>ie_type = EV_KEY, ie_code = 30, ie_value = 0, ie_now = u\<rparr>]"
  shows "\<not> lgx_in_key_pressed 0 (Some s') \<and> \<not> lgx_in_key_released 0 (Some s')"
proof -
  have "(0::nat) < LGX_KEY_COUNT" by (simp add: LGX_KEY_COUNT_def)
  from poll_cases[OF input_run_ok[OF assms(1)] assms(3) this refl] show ?thesis
    using assms(2,4) by (simp add: lgx_in_key_down_def lgx_in_key_pressed_def lgx_in_key_released_def key_step_def evdev_codes_def LGX_KEY_COUNT_def)
qed

text \<open>A full queue keeps the old events and loses the new one.\<close>

lemma full_queue_drops_newest: "queue_ok s \<Longrightarrow> ins_event_count s = ins_event_capacity s \<Longrightarrow> pending (event_push e s) = pending s"
  by (simp add: event_push_def)

text \<open>The ninth gamepad gets number 0, so its events go to the first one.\<close>

lemma ninth_gamepad_is_first:
  assumes "ins_gamepad_count s = LGX_IN_MAX_GAMEPADS" "probe path = Some p" "classify_device p = DEV_GAMEPAD" "ins_enable_gamepad s"
    "length (ins_devices s) < MAX_DEVICES" "\<forall>d\<in>set (ins_devices s). id_path d \<noteq> path"
  shows "id_gamepad_id (last (ins_devices (open_device probe path s))) = 0 \<and> id_type (last (ins_devices (open_device probe path s))) = DEV_GAMEPAD"
  using assms by (auto simp: open_device_def Let_def list_ex_iff)

text \<open>A device that was unplugged is never opened again under its path.\<close>

lemma replugged_ignored: "d \<in> set (ins_devices s) \<Longrightarrow> open_device probe (id_path d) s = s"
  by (auto simp: open_device_def list_ex_iff)

text \<open>A dead zone of one, which is accepted, gives a value that is not a number at the end of an axis.\<close>

lemma full_deadzone_nan: "apply_deadzone 1 1 = None" "ins_gamepad_count s = 1 \<Longrightarrow> fst (lgx_in_gamepad_set_deadzone 0 1 (Some s)) = LGX_SUCCESS"
  by (simp_all add: apply_deadzone_def lgx_in_gamepad_set_deadzone_def)

end
