(* ===== verification/Spec2Isabelle.thy ===== *)
theory Spec2Isabelle
  imports Heap_Properties Frame_Reports Gpu_Pool_Properties
    Thread_Deque_Conc Thread_Mutex Thread_Locks Thread_Barrier Thread_Map Thread_Spsc Thread_Mpmc_Conc
    Thread_Stack Thread_Jobs_Props Thread_Pool
    Chaos_Testing Hugepages Memory_Bugs Leak_Detector
    Intent_Properties Memory_Safety_Props Trace_Events Resource_Limits Input_Validation
    Asset_Properties Net_Delta Net_Socket Profiler_Props Input_Properties
begin

text \<open>
  A verification of the core of the LGX game runtime (\<^verbatim>\<open>src/src\<close>): its memory allocators, its
  threading library, and the services around them (tracing, limits, validation, assets, networking, profiling, input).

  \<^bold>\<open>The program.\<close> LGX is a runtime that games link against. Its long-lived objects come from the
  \<^emph>\<open>persistent heap\<close> (\<^verbatim>\<open>runtime/lgx_persistent_heap.c\<close>: slabs for small sizes, a binary buddy allocator for
  large ones), its per-frame data from the \<^emph>\<open>frame arena\<close> (\<^verbatim>\<open>runtime/lgx_frame_arena.c\<close>: three bump
  arenas in turn, which fall back to the heap when they cannot grow), its GPU memory from the
  \<^emph>\<open>GPU pool\<close> (\<^verbatim>\<open>runtime/lgx_gpu_pool.c\<close>: a buddy allocator per Vulkan memory type, whose
  level scan uses the vectorised searches of \<^verbatim>\<open>runtime/lgx_simd_ops.c\<close>). Games run their work on the
  \<^emph>\<open>threading library\<close> (\<^verbatim>\<open>threading/lgx_threading.c\<close>): a job system over work-stealing deques, futex
  locks, lock-free queues and a stack, a striped hash map. Requests with a declared intent are routed to one of the allocators
  (\<^verbatim>\<open>runtime/lgx_intent_allocator.c\<close>), all others go to the \<^emph>\<open>memory manager\<close> (\<^verbatim>\<open>runtime/lgx_memory_manager.c\<close>: thread caches over
  \<^verbatim>\<open>malloc\<close>).

  \<^bold>\<open>Theories.\<close>
  \<^item> \<^verbatim>\<open>LGX_Prelude\<close>: named collections, word and list lemmas, linked lists in a store.
    \<^verbatim>\<open>Buddy_Blocks\<close>: the locale of buddy geometry (block sizes that double, the offset of the buddy), proved
    once and interpreted by both buddy allocators.
  \<^item> \<^verbatim>\<open>Heap_Buddy\<close>, \<^verbatim>\<open>Heap_Buddy_Runs\<close>: \<^verbatim>\<open>buddy_alloc\<close>, \<^verbatim>\<open>buddy_free\<close> and their helpers over the headers inside
    the managed memory. The blocks always tile the memory; what is allocated is disjoint; an allocation succeeds
    exactly when a block fits; when all is freed one block is left.
    \<^verbatim>\<open>Heap_Classes\<close>, \<^verbatim>\<open>Heap_Slab\<close>: size classes, the bitmaps of the slabs.
    \<^verbatim>\<open>Persistent_Heap\<close>, \<^verbatim>\<open>Heap_Safety\<close>, \<^verbatim>\<open>Heap_Properties\<close>: \<^verbatim>\<open>lgx_persistent_alloc\<close>, \<^verbatim>\<open>lgx_persistent_free\<close>, canaries, double
    free detection, the statistics, and the composition of slabs with the buddy allocator.
  \<^item> \<^verbatim>\<open>Frame_Arena\<close>, \<^verbatim>\<open>Frame_Safety\<close>, \<^verbatim>\<open>Frame_Properties\<close>, \<^verbatim>\<open>Frame_Reports\<close>: the arenas, their growth, the fallback to
    the heap (the heap's own model is called), the rolling averages, tags, recommendations and sorted dumps. An
    allocation survives the next two frame resets, and live allocations are disjoint.
  \<^item> \<^verbatim>\<open>Simd_Ops\<close>: the AVX2 searches, lane by lane, equal the scalar loops.
  \<^item> \<^verbatim>\<open>Gpu_Buddy\<close>, \<^verbatim>\<open>Gpu_Buddy_Core\<close>, \<^verbatim>\<open>Gpu_Buddy_Ops\<close>, \<^verbatim>\<open>Gpu_Buddy_Runs\<close>, \<^verbatim>\<open>Gpu_Properties\<close>: the GPU buddy allocator, its
    descriptors on doubly linked lists outside the memory. \<^verbatim>\<open>Gpu_Pool\<close>, \<^verbatim>\<open>Gpu_Pool_Properties\<close>: memory types, budgets, handles,
    the Vulkan calls as a log.
  \<^item> \<^verbatim>\<open>Thread_Base\<close>: error codes, powers of two. \<^verbatim>\<open>Thread_Mutex\<close>, \<^verbatim>\<open>Thread_Locks\<close>, \<^verbatim>\<open>Thread_Barrier\<close>: futex mutex, spinlock,
    read-write lock, semaphore, barrier: exclusion, no lost wake-up, separation of rounds.
    \<^verbatim>\<open>Thread_Deque\<close>, \<^verbatim>\<open>Thread_Deque_Props\<close>, \<^verbatim>\<open>Thread_Deque_Conc\<close>: the work-stealing deque, alone and against thieves.
    \<^verbatim>\<open>Thread_Fifo\<close>: the locale of a bounded queue; \<^verbatim>\<open>Thread_Spsc\<close> and \<^verbatim>\<open>Thread_Mpmc\<close> interpret it;
    \<^verbatim>\<open>Thread_Mpmc_Conc\<close>: every element of the MPMC ring is handed out once.
    \<^verbatim>\<open>Thread_Stack\<close>: the lock-free stack and its ABA problem. \<^verbatim>\<open>Thread_Map\<close>: the hash map refines a finite map.
    \<^verbatim>\<open>Thread_Jobs\<close>, \<^verbatim>\<open>Thread_Jobs_Props\<close>, \<^verbatim>\<open>Thread_Pool\<close>: submission, workers, waiting, the life of the pool; what they
    show of jobs holds as long as no two operations on one deque overlap in time, since the deque itself duplicates a job when its owner loses a race.
  \<^item> \<^verbatim>\<open>C_Heap\<close>: what the runtime uses of \<^verbatim>\<open>malloc\<close>, \<^verbatim>\<open>free\<close> and \<^verbatim>\<open>malloc_usable_size\<close>, with the
    allocator as a parameter. \<^verbatim>\<open>Chaos_Testing\<close>, \<^verbatim>\<open>Lockfree_Pool\<close>, \<^verbatim>\<open>Hugepages\<close>: the failure injection,
    the shared free lists and the huge pages that the memory manager calls. \<^verbatim>\<open>Memory_Cache\<close>, \<^verbatim>\<open>Memory_Manager\<close>: size
    classes, thread caches and their hot paths, allocation and deallocation, the end of a thread, initialisation,
    shutdown, tracking (\<^verbatim>\<open>runtime/lgx_memory_manager.c\<close>). \<^verbatim>\<open>Memory_Inv\<close>, \<^verbatim>\<open>Memory_Ops\<close>, \<^verbatim>\<open>Memory_Runs\<close>: every block
    the manager knows is in one place only, a slot of a cache, a hot path, a free list or the hands of a client. \<^verbatim>\<open>Memory_Properties\<close>,
    \<^verbatim>\<open>Memory_Bugs\<close>: what allocations get, and what goes wrong with the usable sizes of glibc and across threads.
  \<^item> \<^verbatim>\<open>Leak_Detector\<close>: the ring of samples and the streak of growths (\<^verbatim>\<open>runtime/lgx_leak_detector.c\<close>), with the
    single-precision ratio.
  \<^item> \<^verbatim>\<open>Intent_Allocator\<close>, \<^verbatim>\<open>Intent_Properties\<close>: the public allocation functions and the routing by intent
    (\<^verbatim>\<open>runtime/lgx_intent_allocator.c\<close>) over the models of arena, heap, GPU pool and manager: allocations of
    all kinds stay disjoint, and \<^verbatim>\<open>lgx_free\<close> finds the owner of a pointer.
  \<^item> \<^verbatim>\<open>Memory_Safety\<close>, \<^verbatim>\<open>Memory_Safety_Props\<close>: canaries, tracking and the quarantine of freed blocks
    (\<^verbatim>\<open>runtime/lgx_memory_safety.c\<close>) over the C heap.
  \<^item> \<^verbatim>\<open>C_Text\<close>: strings and decimal output. \<^verbatim>\<open>Trace_Events\<close>: the event buffer and the file it is exported to
    (\<^verbatim>\<open>runtime/lgx_trace_events.c\<close>). \<^verbatim>\<open>Resource_Limits\<close>: limits, rates and log rotation
    (\<^verbatim>\<open>runtime/lgx_resource_limits.c\<close>). \<^verbatim>\<open>Input_Validation\<close>: the checks of arguments (\<^verbatim>\<open>runtime/lgx_input_validation.c\<close>).
  \<^item> \<^verbatim>\<open>Asset_Codec\<close>: run-length compression and its inverse. \<^verbatim>\<open>Asset_Manager\<close>, \<^verbatim>\<open>Asset_Properties\<close>: search paths, loading and the registry of
    assets (\<^verbatim>\<open>asset/lgx_asset.c\<close>). \<^verbatim>\<open>Net_Stream\<close>, \<^verbatim>\<open>Net_Delta\<close>, \<^verbatim>\<open>Net_Socket\<close>: serialization, delta compression and the
    table of connections (\<^verbatim>\<open>net/lgx_net.c\<close>). \<^verbatim>\<open>Profiler\<close>, \<^verbatim>\<open>Profiler_Props\<close>: nested zones, counters and frame history
    (\<^verbatim>\<open>profile/lgx_profile.c\<close>).
  \<^item> \<^verbatim>\<open>Input_System\<close>, \<^verbatim>\<open>Input_Properties\<close>: devices, translation of events, keys, mouse, gamepads and the queue of events
    (\<^verbatim>\<open>input/lgx_input.c\<close>): a poll reports the events in order, and the keys are what the events say.

  \<^bold>\<open>How code became definitions.\<close> A struct is a record with the fields of the struct, an array a list or a
  function on indices, a machine integer a word of its width wherever it can wrap. A function of the code is a
  definition of the same name (with a prefix where two files of the program share a name). Operations that
  hold their component's mutex from start to end are functions from state to state. Where threads meet without one,
  each shared access is an atomic step of a thread's program counter, and the theorems hold of every
  sequentially consistent interleaving: a weak compare-and-swap may fail without reason, a sleeper on a futex may wake up by
  itself. In the job system an operation on a deque is one step. What the operating system, the C library or
  Vulkan returns is an argument of the definition that calls it, so a failing \<^verbatim>\<open>malloc\<close> is a branch of the model; calls that
  only have an effect outside are recorded in logs. Results that do not exist, because a loop does not end or the
  code would read outside an array, are \<^const>\<open>None\<close>. Floating-point ratios are rationals, rounded to single precision in the leak detector, where the rounding decides. Messages on stderr,
  prefetches and timestamps that nothing reads are left out.

  \<^bold>\<open>Bounds.\<close> Offsets in a buddy allocator are natural numbers, every block size being below \<open>2 ^ 31\<close>.
  The theorems on rings and deques assume fewer than \<open>2 ^ 63\<close> or \<open>2 ^ 64\<close> positions in a run, those on jobs fewer than
  65536 jobs, the size of the ring of descriptors (beyond it a theorem shows what is overwritten),
  those on the read-write lock fewer than \<open>2 ^ 31\<close> threads. No fuel is used: loops are structural, have a measure, or are partial
  functions whose termination is a theorem.

  \<^bold>\<open>Not modelled.\<close> The fibers and the NUMA placement of the threading library (stack switching and system
  calls), graphics, audio, platform services, telemetry, health and hardware monitoring, the
  crash handler and the command line tools: they forward to Vulkan, to the kernel or to the terminal, and keep little
  state of their own. Weak memory orders are not modelled: the deque and the rings use fences and acquire/release pairs whose sufficiency on a given machine is outside of
  these theorems.
\<close>

end
